(* ===== verification/Prelude.thy ===== *)
theory Prelude
  imports Main "HOL-Library.Word"
begin

text \<open>
  Shared vocabulary of the development: bytes and machine integers, Rust's \<open>Result\<close> as a
  sum type with its sequencing, collecting and folding operations, big-endian byte strings,
  and the fact collections the component theories extend.
  \<open>usize\<close> is a natural number below \<open>2 ^ 64\<close> (64-bit targets); where the code converts or
  multiplies one, the width is written out.
\<close>

named_theorems group_simps \<open>normal forms of group expressions\<close>
named_theorems transcript_simps \<open>unfolding of transcript operations\<close>
named_theorems wire_simps \<open>unfolding of wire readers and writers\<close>

type_synonym byte = "8 word"
type_synonym bytes = "byte list"
type_synonym u32 = "32 word"
type_synonym u64 = "64 word"
type_synonym usize = nat

section \<open>Byte literals\<close>

definition ascii :: "string \<Rightarrow> bytes" where
  "ascii s = map of_char s"

lemma length_ascii [simp]: "length (ascii s) = length s"
  by (simp add: ascii_def)

section \<open>Results\<close>

text \<open>Rust's \<open>Result\<close>: \<open>Inl\<close> is \<open>Err\<close>, \<open>Inr\<close> is \<open>Ok\<close>; \<open>rbind\<close> is the \<open>?\<close> operator.\<close>

definition rbind :: "'e + 'a \<Rightarrow> ('a \<Rightarrow> 'e + 'b) \<Rightarrow> 'e + 'b" where
  "rbind m f = (case m of Inl e \<Rightarrow> Inl e | Inr a \<Rightarrow> f a)"

definition map_err :: "('e \<Rightarrow> 'f) \<Rightarrow> 'e + 'a \<Rightarrow> 'f + 'a" where
  "map_err h m = (case m of Inl e \<Rightarrow> Inl (h e) | Inr a \<Rightarrow> Inr a)"

definition ok_or :: "'a option \<Rightarrow> 'e \<Rightarrow> 'e + 'a" where
  "ok_or m e = (case m of None \<Rightarrow> Inl e | Some a \<Rightarrow> Inr a)"

definition is_ok :: "'e + 'a \<Rightarrow> bool" where
  "is_ok m = (case m of Inl _ \<Rightarrow> False | Inr _ \<Rightarrow> True)"

text \<open>\<open>iter().map(f).collect::<Result<Vec<_>, _>>()\<close>: stops at the first error.\<close>

primrec collect :: "('a \<Rightarrow> 'e + 'b) \<Rightarrow> 'a list \<Rightarrow> 'e + 'b list" where
  "collect f [] = Inr []"
| "collect f (x # xs) = rbind (f x) (\<lambda>y. rbind (collect f xs) (\<lambda>ys. Inr (y # ys)))"

text \<open>A \<open>for\<close> loop whose body may return an error early.\<close>

primrec rfold :: "('s \<Rightarrow> 'a \<Rightarrow> 'e + 's) \<Rightarrow> 's \<Rightarrow> 'a list \<Rightarrow> 'e + 's" where
  "rfold f s [] = Inr s"
| "rfold f s (x # xs) = rbind (f s x) (\<lambda>s'. rfold f s' xs)"

lemma rbind_Inl [simp]: "rbind (Inl e) f = Inl e"
  and rbind_Inr [simp]: "rbind (Inr a) f = f a"
  by (simp_all add: rbind_def)

lemma rbind_eq_Inr [simp]: "rbind m f = Inr b \<longleftrightarrow> (\<exists>a. m = Inr a \<and> f a = Inr b)"
  by (cases m) auto

lemma rbind_eq_Inl: "rbind m f = Inl e \<longleftrightarrow> m = Inl e \<or> (\<exists>a. m = Inr a \<and> f a = Inl e)"
  by (cases m) auto

lemma rbind_cong [fundef_cong]:
  "m = m' \<Longrightarrow> (\<And>a. m' = Inr a \<Longrightarrow> f a = g a) \<Longrightarrow> rbind m f = rbind m' g"
  by (cases m') auto

lemma map_err_Inr [simp]: "map_err h (Inr a) = Inr a"
  and map_err_Inl [simp]: "map_err h (Inl e) = Inl (h e)"
  by (simp_all add: map_err_def)

lemma map_err_eq_Inr [simp]: "map_err h m = Inr a \<longleftrightarrow> m = Inr a"
  by (cases m) auto

lemma ok_or_simps [simp]: "ok_or None e = Inl e" "ok_or (Some a) e = Inr a"
  by (simp_all add: ok_or_def)

lemma ok_or_eq_Inr [simp]: "ok_or m e = Inr a \<longleftrightarrow> m = Some a"
  by (cases m) auto

lemma is_ok_simps [simp]: "is_ok (Inr a)" "\<not> is_ok (Inl e)"
  by (simp_all add: is_ok_def)

lemma is_ok_iff: "is_ok m \<longleftrightarrow> (\<exists>a. m = Inr a)"
  by (cases m) auto

lemma collect_eq_Inr: "collect f xs = Inr ys \<longleftrightarrow> list_all2 (\<lambda>x y. f x = Inr y) xs ys"
  by (induction xs arbitrary: ys) (auto simp: list_all2_Cons1)

lemma collect_map: "(\<And>x. x \<in> set xs \<Longrightarrow> f x = Inr (g x)) \<Longrightarrow> collect f xs = Inr (map g xs)"
  by (induction xs) auto

lemma collect_length: "collect f xs = Inr ys \<Longrightarrow> length ys = length xs"
  by (auto simp: collect_eq_Inr dest: list_all2_lengthD)

lemma collect_Inr_all: "collect f xs = Inr ys \<Longrightarrow> x \<in> set xs \<Longrightarrow> \<exists>y \<in> set ys. f x = Inr y"
  by (induction xs arbitrary: ys) auto

lemma collect_Inl: "collect f xs = Inl e \<Longrightarrow> \<exists>x \<in> set xs. f x = Inl e"
  by (induction xs) (auto simp: rbind_eq_Inl)

lemma collect_ok_iff: "is_ok (collect f xs) \<longleftrightarrow> (\<forall>x \<in> set xs. is_ok (f x))"
  by (induction xs) (auto simp: is_ok_iff)

lemma collect_cong [fundef_cong]:
  "xs = ys \<Longrightarrow> (\<And>x. x \<in> set ys \<Longrightarrow> f x = g x) \<Longrightarrow> collect f xs = collect g ys"
  by (induction ys arbitrary: xs) auto

lemma rfold_append: "rfold f s (xs @ ys) = rbind (rfold f s xs) (\<lambda>s'. rfold f s' ys)"
proof (induction xs arbitrary: s)
  case (Cons x xs)
  then show ?case by (cases "f s x") auto
qed simp

lemma rfold_cong [fundef_cong]:
  "xs = ys \<Longrightarrow> s = s' \<Longrightarrow> (\<And>t x. x \<in> set ys \<Longrightarrow> f t x = g t x) \<Longrightarrow> rfold f s xs = rfold g s' ys"
proof (induction ys arbitrary: xs s s')
  case (Cons y ys)
  then show ?case by (cases "g s' y") auto
qed simp

text \<open>A fold whose steps all succeed is the plain fold.\<close>

lemma rfold_fold: "(\<And>s x. x \<in> set xs \<Longrightarrow> f s x = Inr (g x s)) \<Longrightarrow> rfold f s xs = Inr (fold g xs s)"
  by (induction xs arbitrary: s) auto

text \<open>An invariant of the loop: it holds initially and every successful step keeps it.\<close>

lemma rfold_invariant:
  assumes "rfold f s xs = Inr s'" and "P s"
    and "\<And>t x t'. x \<in> set xs \<Longrightarrow> P t \<Longrightarrow> f t x = Inr t' \<Longrightarrow> P t'"
  shows "P s'"
  using assms by (induction xs arbitrary: s) auto

text \<open>
  Operations that may not return: \<open>None\<close> is divergence, \<open>Some\<close> a result. \<open>obind\<close> is \<open>?\<close> on such a
  value, \<open>oresult\<close> runs a total operation first.
\<close>

definition obind :: "('e + 'a) option \<Rightarrow> ('a \<Rightarrow> ('e + 'b) option) \<Rightarrow> ('e + 'b) option" where
  "obind m f = (case m of None \<Rightarrow> None | Some (Inl e) \<Rightarrow> Some (Inl e) | Some (Inr a) \<Rightarrow> f a)"

abbreviation oresult :: "'e + 'a \<Rightarrow> ('a \<Rightarrow> ('e + 'b) option) \<Rightarrow> ('e + 'b) option" where
  "oresult m \<equiv> obind (Some m)"

lemma obind_simps [simp]:
  "obind None f = None" "obind (Some (Inl e)) f = Some (Inl e)" "obind (Some (Inr a)) f = f a"
  by (simp_all add: obind_def)

lemma obind_eq_Inr: "obind m f = Some (Inr b) \<longleftrightarrow> (\<exists>a. m = Some (Inr a) \<and> f a = Some (Inr b))"
  by (auto simp: obind_def split: option.splits sum.splits)

lemma obind_InrE:
  assumes "obind m f = Some (Inr b)"
  obtains a where "m = Some (Inr a)" and "f a = Some (Inr b)"
  using assms by (auto simp: obind_eq_Inr)

lemma obind_eq_None: "obind m f = None \<longleftrightarrow> m = None \<or> (\<exists>a. m = Some (Inr a) \<and> f a = None)"
  by (auto simp: obind_def split: option.splits sum.splits)

section \<open>Loops that collect\<close>

text \<open>A loop that only checks: it passes iff no element is bad, and reports a bad one.\<close>

lemma rfold_check:
  "rfold (\<lambda>_ x. if P x then Inl (e x) else Inr ()) () xs = Inr () \<longleftrightarrow> (\<forall>x \<in> set xs. \<not> P x)"
  by (induction xs) auto

lemma rfold_check_error:
  "rfold (\<lambda>_ x. if P x then Inl (e x) else Inr ()) () xs = Inl err \<longleftrightarrow>
    (\<exists>ys x zs. xs = ys @ x # zs \<and> (\<forall>y \<in> set ys. \<not> P y) \<and> P x \<and> err = e x)"
proof (induction xs)
  case (Cons x xs)
  show ?case
  proof (cases "P x")
    case True
    then show ?thesis by (force simp: Cons_eq_append_conv)
  next
    case False
    have "(\<exists>ys y zs. x # xs = ys @ y # zs \<and> (\<forall>y \<in> set ys. \<not> P y) \<and> P y \<and> err = e y)
        \<longleftrightarrow> (\<exists>ys y zs. xs = ys @ y # zs \<and> (\<forall>y \<in> set ys. \<not> P y) \<and> P y \<and> err = e y)"
      (is "?l \<longleftrightarrow> ?r")
    proof
      show ?r if ?l
      proof -
        from that obtain ys y zs where *: "x # xs = ys @ y # zs" "\<forall>y \<in> set ys. \<not> P y" "P y" "err = e y"
          by blast
        with False obtain ys' where "ys = x # ys'" by (cases ys) auto
        with * show ?thesis by (intro exI[of _ ys'] exI[of _ y] exI[of _ zs]) simp
      qed
      assume ?r
      then obtain ys y zs where "xs = ys @ y # zs" "\<forall>y \<in> set ys. \<not> P y" "P y" "err = e y"
        by blast
      with False show ?l by (intro exI[of _ "x # ys"] exI[of _ y] exI[of _ zs]) simp
    qed
    with False Cons show ?thesis by simp
  qed
qed simp

lemma rfold_unit_ok:
  "rfold (\<lambda>_ x. f x) () xs = Inr () \<longleftrightarrow> (\<forall>x \<in> set xs. f x = Inr ())"
  by (induction xs) auto

text \<open>A \<open>for\<close> loop that pushes onto two vectors is two maps over the collected values.\<close>

lemma rfold_push2:
  "rfold (\<lambda>(as, bs) x. rbind (f x) (\<lambda>(a, b). Inr (as @ [a], bs @ [b]))) (as, bs) xs
    = rbind (collect f xs) (\<lambda>abs. Inr (as @ map fst abs, bs @ map snd abs))"
proof (induction xs arbitrary: as bs)
  case (Cons x xs)
  then show ?case by (cases "f x"; cases "collect f xs") (auto split: prod.splits)
qed simp

lemma length_concat_fixed:
  "(\<And>x. x \<in> set xs \<Longrightarrow> length (f x) = k) \<Longrightarrow> length (concat (map f xs)) = length xs * k"
  by (induction xs) auto

section \<open>Big-endian bytes\<close>

text \<open>\<open>be_bytes n v\<close> is the \<open>n\<close>-byte big-endian encoding of \<open>v\<close> (reduced modulo \<open>256 ^ n\<close>, as an
  \<open>as\<close> cast to the width does).\<close>

primrec be_bytes :: "nat \<Rightarrow> nat \<Rightarrow> bytes" where
  "be_bytes 0 v = []"
| "be_bytes (Suc n) v = word_of_nat (v div 256 ^ n) # be_bytes n v"

definition from_be :: "bytes \<Rightarrow> nat" where
  "from_be bs = foldl (\<lambda>acc b. acc * 256 + unat b) 0 bs"

abbreviation u32_be :: "u32 \<Rightarrow> bytes" where
  "u32_be w \<equiv> be_bytes 4 (unat w)"

abbreviation u64_be :: "nat \<Rightarrow> bytes" where
  "u64_be n \<equiv> be_bytes 8 n"

lemma length_be_bytes [simp]: "length (be_bytes n v) = n"
  by (induction n) auto

lemma foldl_be:
  "foldl (\<lambda>acc b. acc * 256 + unat b) a bs = a * 256 ^ length bs + from_be bs"
proof (induction bs arbitrary: a)
  case (Cons b bs)
  have "foldl (\<lambda>acc b. acc * 256 + unat b) a (b # bs)
      = (a * 256 + unat b) * 256 ^ length bs + from_be bs"
    by (simp add: Cons)
  moreover have "from_be (b # bs) = unat b * 256 ^ length bs + from_be bs"
    using Cons[of "unat b"] by (simp add: from_be_def)
  ultimately show ?case by (simp add: algebra_simps)
qed (simp add: from_be_def)

lemma from_be_Nil [simp]: "from_be [] = 0"
  by (simp add: from_be_def)

lemma from_be_Cons [simp]: "from_be (b # bs) = unat b * 256 ^ length bs + from_be bs"
  using foldl_be[of "unat b" bs] by (simp add: from_be_def)

lemma unat_byte_less: "unat (b :: byte) < 256"
  using unsigned_less[of b, where 'a = nat] by simp

lemma from_be_less: "from_be bs < 256 ^ length bs"
proof (induction bs)
  case (Cons b bs)
  have "unat b \<le> 255"
    using unat_byte_less[of b] by simp
  then have "unat b * 256 ^ length bs \<le> 255 * 256 ^ length bs"
    by (rule mult_le_mono1)
  moreover have "(256::nat) ^ length (b # bs) = 255 * 256 ^ length bs + 256 ^ length bs"
    by simp
  ultimately show ?case using Cons.IH by (simp only: from_be_Cons)
qed simp

lemma from_be_be_bytes: "from_be (be_bytes n v) = v mod 256 ^ n"
proof (induction n)
  case (Suc n)
  have "v mod 256 ^ Suc n = 256 ^ n * (v div 256 ^ n mod 256) + v mod 256 ^ n"
    using mod_mult2_eq[of v "256 ^ n" 256] by (simp add: mult.commute)
  then show ?case
    by (simp add: Suc unat_of_nat)
qed simp

lemma from_be_inverse: "v < 256 ^ n \<Longrightarrow> from_be (be_bytes n v) = v"
  by (simp add: from_be_be_bytes)

lemma mod_power_div: "(v::nat) mod b ^ (k + j) div b ^ k = v div b ^ k mod b ^ j" if "0 < b"
  using that by (simp add: power_add mod_mult2_eq)

lemma be_bytes_mod: "k \<le> m \<Longrightarrow> be_bytes k (v mod 256 ^ m) = be_bytes k v"
proof (induction k)
  case (Suc k)
  then obtain j where m: "m = k + Suc j"
    by (metis add_Suc_right add_Suc le_Suc_ex)
  have "v mod 256 ^ m div 256 ^ k mod 256 = v div 256 ^ k mod 256 ^ Suc j mod 256"
    unfolding m by (subst mod_power_div) simp_all
  also have "\<dots> = v div 256 ^ k mod 256"
    by (rule mod_mod_cancel) simp
  finally have "(word_of_nat (v mod 256 ^ m div 256 ^ k) :: byte) = word_of_nat (v div 256 ^ k)"
    by (intro unsigned_word_eqI [where ?'a = nat]) (simp add: unat_of_nat)
  with Suc show ?case by simp
qed simp

lemma be_bytes_from_be: "length bs = n \<Longrightarrow> be_bytes n (from_be bs) = bs"
proof (induction bs arbitrary: n)
  case (Cons b bs)
  have lt: "from_be bs < 256 ^ length bs" by (rule from_be_less)
  have head: "(word_of_nat ((unat b * 256 ^ length bs + from_be bs) div 256 ^ length bs) :: byte) = b"
    using lt by simp
  have "be_bytes (length bs) (unat b * 256 ^ length bs + from_be bs) = bs"
    using be_bytes_mod[of "length bs" "length bs" "unat b * 256 ^ length bs + from_be bs"] lt Cons.IH[of "length bs"]
    by simp
  with head Cons.prems show ?case by auto
qed simp

lemma be_bytes_inj:
  "be_bytes n v = be_bytes n w \<Longrightarrow> v < 256 ^ n \<Longrightarrow> w < 256 ^ n \<Longrightarrow> v = w"
  by (metis from_be_inverse)

lemma u32_lt: "unat (w :: u32) < 256 ^ 4"
  using unsigned_less[of w, where 'a = nat] by simp

lemma u32_be_inj [simp]: "u32_be v = u32_be w \<longleftrightarrow> v = w"
  using be_bytes_inj[of 4 "unat v" "unat w"] u32_lt[of v] u32_lt[of w]
  by (auto intro: unsigned_word_eqI)

end
