(* ===== verification/Ordered_Map.thy ===== *)
theory Ordered_Map
  imports Prelude
begin

text \<open>
  The standard library's \<open>BTreeMap\<close>, as the code uses it: an association list kept in strictly
  increasing key order, so that iteration, \<open>keys()\<close> and \<open>values()\<close> are in key order. The locale
  \<open>ordered_map\<close> is the contract the components rely on; it is interpreted on the operations
  defined here.
\<close>

type_synonym ('k, 'v) btree_map = "('k \<times> 'v) list"

definition bt_empty :: "('k, 'v) btree_map" where
  "bt_empty = []"

fun bt_insert :: "'k::linorder \<Rightarrow> 'v \<Rightarrow> ('k, 'v) btree_map \<Rightarrow> ('k, 'v) btree_map" where
  "bt_insert key val [] = [(key, val)]"
| "bt_insert key val (entry # rest) =
     (if key < fst entry then (key, val) # entry # rest
      else if fst entry < key then entry # bt_insert key val rest
      else (key, val) # rest)"

definition bt_get :: "('k, 'v) btree_map \<Rightarrow> 'k \<Rightarrow> 'v option" where
  "bt_get m k = map_of m k"

definition bt_contains_key :: "('k, 'v) btree_map \<Rightarrow> 'k \<Rightarrow> bool" where
  "bt_contains_key m k \<longleftrightarrow> bt_get m k \<noteq> None"

definition bt_keys :: "('k, 'v) btree_map \<Rightarrow> 'k list" where
  "bt_keys m = map fst m"

definition bt_values :: "('k, 'v) btree_map \<Rightarrow> 'v list" where
  "bt_values m = map snd m"

definition bt_sorted :: "('k::linorder, 'v) btree_map \<Rightarrow> bool" where
  "bt_sorted m \<longleftrightarrow> sorted_wrt (<) (bt_keys m)"

locale ordered_map =
  fixes empty :: 'm
    and insert_key :: "'k::linorder \<Rightarrow> 'v \<Rightarrow> 'm \<Rightarrow> 'm"
    and get :: "'m \<Rightarrow> 'k \<Rightarrow> 'v option"
    and keys :: "'m \<Rightarrow> 'k list"
    and wf :: "'m \<Rightarrow> bool"
  assumes wf_empty: "wf empty"
    and wf_insert: "wf m \<Longrightarrow> wf (insert_key k v m)"
    and get_empty: "get empty k = None"
    and get_insert: "wf m \<Longrightarrow> get (insert_key k v m) = (get m)(k := Some v)"
    and keys_sorted: "wf m \<Longrightarrow> sorted_wrt (<) (keys m)"
    and keys_dom: "wf m \<Longrightarrow> set (keys m) = {k. get m k \<noteq> None}"
begin

lemma wf_fold_insert: "wf m \<Longrightarrow> wf (fold (\<lambda>k. insert_key k (g k)) ks m)"
  by (induction ks arbitrary: m) (auto simp: wf_insert)

lemma get_fold_insert:
  "wf m \<Longrightarrow> get (fold (\<lambda>k. insert_key k (g k)) ks m) k
    = (if k \<in> set ks then Some (g k) else get m k)"
  by (induction ks arbitrary: m) (auto simp: wf_insert get_insert)

lemma keys_fold_insert:
  "wf m \<Longrightarrow> set (keys (fold (\<lambda>k. insert_key k (g k)) ks m)) = set ks \<union> set (keys m)"
  by (auto simp: keys_dom wf_fold_insert get_fold_insert split: if_splits)

lemma distinct_keys: "wf m \<Longrightarrow> distinct (keys m)"
  using keys_sorted[of m] strict_sorted_iff by blast

text \<open>Two maps with the same bindings iterate over the same keys.\<close>

lemma keys_unique: "wf m \<Longrightarrow> wf m' \<Longrightarrow> (\<And>k. get m k = get m' k) \<Longrightarrow> keys m = keys m'"
  by (rule sorted_distinct_set_unique)
    (auto simp: keys_dom distinct_keys keys_sorted strict_sorted_imp_sorted)

end

lemma bt_keys_insert: "set (bt_keys (bt_insert k v m)) = insert k (set (bt_keys m))"
  by (induction m) (auto simp: bt_keys_def)

lemma bt_sorted_insert: "bt_sorted m \<Longrightarrow> bt_sorted (bt_insert k v m)"
proof (induction m)
  case (Cons e m)
  then show ?case
    using bt_keys_insert[of k v m]
    by (auto simp: bt_sorted_def bt_keys_def)
qed (simp add: bt_sorted_def bt_keys_def)

lemma bt_get_insert: "bt_get (bt_insert k v m) = (bt_get m)(k := Some v)" if "bt_sorted m"
  using that
proof (induction m)
  case (Cons e m)
  then have "bt_sorted m" and "\<forall>x \<in> set (bt_keys m). fst e < x"
    by (auto simp: bt_sorted_def bt_keys_def)
  with Cons.IH show ?case
    by (cases e) (auto simp: bt_get_def bt_keys_def fun_eq_iff)
qed (simp add: bt_get_def fun_eq_iff)

lemma bt_get_dom: "set (bt_keys m) = {k. bt_get m k \<noteq> None}"
  by (auto simp: bt_keys_def bt_get_def map_of_eq_None_iff image_iff)

lemma bt_get_empty [simp]: "bt_get bt_empty k = None" "bt_get [] k = None"
  by (simp_all add: bt_get_def bt_empty_def)

lemma bt_sorted_empty [simp]: "bt_sorted bt_empty" "bt_sorted []"
  by (simp_all add: bt_sorted_def bt_empty_def bt_keys_def)

interpretation bt: ordered_map bt_empty bt_insert bt_get bt_keys bt_sorted
  by unfold_locales
    (auto simp: bt_sorted_insert bt_get_insert bt_get_dom bt_sorted_def[symmetric])

lemma bt_contains_key_iff: "bt_contains_key m k \<longleftrightarrow> k \<in> set (bt_keys m)"
  by (simp add: bt_contains_key_def bt_get_dom)

lemma bt_get_Some_iff: "bt_sorted m \<Longrightarrow> bt_get m k = Some v \<longleftrightarrow> (k, v) \<in> set m"
  using bt.distinct_keys[of m] by (simp add: bt_get_def bt_keys_def)

lemma bt_get_keys: "k \<in> set (bt_keys m) \<Longrightarrow> \<exists>v. bt_get m k = Some v"
  by (auto simp: bt_get_dom)

text \<open>Inserting a key above all present ones appends it: this is how the code builds its maps.\<close>

lemma bt_insert_last:
  "\<forall>x \<in> set (bt_keys m). x < k \<Longrightarrow> bt_insert k v m = m @ [(k, v)]"
  by (induction m) (auto simp: bt_keys_def)

lemma bt_fold_insert_ascending:
  "sorted_wrt (<) (bt_keys m @ ks) \<Longrightarrow>
    fold (\<lambda>k. bt_insert k (g k)) ks m = m @ map (\<lambda>k. (k, g k)) ks"
proof (induction ks arbitrary: m)
  case (Cons k ks)
  then have "\<forall>x \<in> set (bt_keys m). x < k" by (auto simp: sorted_wrt_append)
  with Cons.IH[of "m @ [(k, g k)]"] Cons.prems show ?case
    by (simp add: bt_insert_last bt_keys_def)
qed simp

text \<open>Inserting a list of entries.\<close>

lemma bt_fold_insert_sorted: "bt_sorted m \<Longrightarrow> bt_sorted (fold (\<lambda>(p, v). bt_insert p v) entries m)"
  by (induction entries arbitrary: m) (auto intro: bt_sorted_insert)

lemma bt_fold_insert_get:
  "bt_sorted m \<Longrightarrow> distinct (map fst entries) \<Longrightarrow>
    bt_get (fold (\<lambda>(p, v). bt_insert p v) entries m) k
      = (case map_of entries k of None \<Rightarrow> bt_get m k | Some v \<Rightarrow> Some v)"
proof (induction entries arbitrary: m)
  case (Cons e entries)
  obtain p v where e: "e = (p, v)" by (cases e)
  from Cons.prems e have "map_of entries p = None"
    by (auto simp: map_of_eq_None_iff)
  with Cons e show ?case
    by (auto simp: bt_sorted_insert bt_get_insert split: option.splits)
qed simp

text \<open>Loops of the code that fill one map, or two, with keys in increasing order.\<close>

lemma bt_keys_append [simp]: "bt_keys (m @ m') = bt_keys m @ bt_keys m'"
  by (simp add: bt_keys_def)

lemma rfold_bt_insert:
  "sorted_wrt (<) (bt_keys m @ ks) \<Longrightarrow>
    rfold (\<lambda>m k. rbind (f k) (\<lambda>v. Inr (bt_insert k v m))) m ks
      = rbind (collect f ks) (\<lambda>vs. Inr (m @ zip ks vs))"
proof (induction ks arbitrary: m)
  case (Cons k ks)
  then have "\<forall>x \<in> set (bt_keys m). x < k" by (auto simp: sorted_wrt_append)
  with Cons.IH Cons.prems show ?case
    by (cases "f k"; cases "collect f ks") (auto simp: bt_insert_last bt_keys_def)
qed simp

lemma rfold_bt_insert2:
  "sorted_wrt (<) (bt_keys m @ map g its) \<Longrightarrow> bt_keys m' = bt_keys m \<Longrightarrow>
    rfold (\<lambda>(m, m') it. rbind (f it) (\<lambda>(v, w). Inr (bt_insert (g it) v m, bt_insert (g it) w m'))) (m, m') its
      = rbind (collect f its) (\<lambda>vws. Inr (m @ zip (map g its) (map fst vws), m' @ zip (map g its) (map snd vws)))"
proof (induction its arbitrary: m m')
  case (Cons it its)
  then have last: "\<forall>x \<in> set (bt_keys m). x < g it" "\<forall>x \<in> set (bt_keys m'). x < g it"
    by (auto simp: sorted_wrt_append)
  show ?case
  proof (cases "f it")
    case (Inr vw)
    with Cons.prems Cons.IH[of "m @ [(g it, fst vw)]" "m' @ [(g it, snd vw)]"] last show ?thesis
      by (cases "collect f its") (auto simp: bt_insert_last bt_keys_def split: prod.splits)
  qed simp
qed simp

lemma bt_get_map [simp]: "bt_get (map (\<lambda>k. (k, g k)) ks) k = (if k \<in> set ks then Some (g k) else None)"
  by (induction ks) (auto simp: bt_get_def)

lemma bt_keys_map [simp]: "bt_keys (map (\<lambda>k. (k, g k)) ks) = ks"
  by (simp add: bt_keys_def comp_def)

lemma bt_values_map [simp]: "bt_values (map (\<lambda>k. (k, g k)) ks) = map g ks"
  by (simp add: bt_values_def comp_def)

text \<open>A map is determined by its bindings.\<close>

lemma bt_as_map: "bt_sorted m \<Longrightarrow> map (\<lambda>k. (k, the (bt_get m k))) (bt_keys m) = m"
proof -
  assume m: "bt_sorted m"
  have "the (bt_get m (fst e)) = snd e" if "e \<in> set m" for e
    using that m bt_get_Some_iff[of m "fst e" "snd e"] by simp
  then show ?thesis
    by (auto simp: bt_keys_def comp_def intro!: map_idI)
qed

lemma bt_ext:
  assumes "bt_sorted m" and "bt_sorted m'" and "\<And>k. bt_get m k = bt_get m' k"
  shows "m = m'"
proof -
  have "m = map (\<lambda>k. (k, the (bt_get m k))) (bt_keys m)"
    using assms(1) by (simp add: bt_as_map)
  also have "\<dots> = map (\<lambda>k. (k, the (bt_get m' k))) (bt_keys m')"
    using bt.keys_unique[OF assms] assms(3) by simp
  also have "\<dots> = m'"
    using assms(2) by (rule bt_as_map)
  finally show ?thesis .
qed

end
