(* ===== verification/Golden_Group.thy ===== *)
theory Golden_Group
  imports Ordered_Map
begin

unbundle bit_operations_syntax

text \<open>
  \<open>golden-core/src/error.rs\<close>, \<open>participant.rs\<close> and \<open>group.rs\<close>: the error type, participant
  indexes, and the traits \<open>GoldenScalar\<close> and \<open>GoldenGroup\<close>. The arithmetic of the traits
  (\<open>zero\<close>, \<open>one\<close>, \<open>add\<close>, \<open>sub\<close>, \<open>mul\<close>, \<open>neg\<close> of a scalar; \<open>identity\<close>, \<open>add\<close>, \<open>sub\<close> of a group
  element) is that of the type classes \<open>field\<close> and \<open>ab_group_add\<close>; the remaining trait items,
  which the concrete curve crates implement, are the fields of the record \<open>golden_group\<close>, one
  dictionary per backend. SHA-256 (crate \<open>sha2\<close>) is the field \<open>sha256\<close>. What the code relies on
  of a backend is stated by the locales \<open>prime_group\<close> and \<open>golden_codec\<close>.
\<close>

section \<open>Errors\<close>

datatype error =
    ZeroParticipantIndex
  | DuplicateParticipantIndex u32
  | DuplicateParticipantPublicKey u32 u32
  | NegatedParticipantPublicKey u32 u32
  | InvalidIdentityKeyProof u32
  | InvalidThreshold usize usize
  | NonInvertibleDenominator
  | InvalidEncoding
  | EmptyCommitment
  | InvalidCommitmentDegree usize usize
  | SessionMismatch
  | RegistryMismatch
  | IdentityKeyMismatch
  | UnknownParticipant u32
  | DealerKeyMismatch u32 u32
  | PrivateShareParticipantMismatch u32 u32
  | MissingDealing u32
  | MissingShare u32
  | UnexpectedShare u32
  | ProofVerificationFailed
  | DealerProofVerificationFailed u32
  | CommitmentVerificationFailed
  | DecryptionFailed

type_synonym 'a result = "error + 'a"

section \<open>Participant indexes\<close>

datatype participant_index = ParticipantIndex (index_get: u32)

text \<open>The derived order of the newtype.\<close>

instantiation participant_index :: linorder
begin

definition less_eq_participant_index :: "participant_index \<Rightarrow> participant_index \<Rightarrow> bool" where
  "less_eq_participant_index i j \<longleftrightarrow> index_get i \<le> index_get j"

definition less_participant_index :: "participant_index \<Rightarrow> participant_index \<Rightarrow> bool" where
  "less_participant_index i j \<longleftrightarrow> index_get i < index_get j"

instance
  by standard
    (auto simp: less_eq_participant_index_def less_participant_index_def
      intro: participant_index.expand)

end

lemma index_get_inject [simp]: "index_get i = index_get j \<longleftrightarrow> i = j"
  by (auto intro: participant_index.expand)

definition participant_new :: "u32 \<Rightarrow> participant_index result" where
  "participant_new value = (if value = 0 then Inl ZeroParticipantIndex else Inr (ParticipantIndex value))"

lemma participant_new_get: "participant_new w = Inr i \<longleftrightarrow> i = ParticipantIndex w \<and> w \<noteq> 0"
  by (auto simp: participant_new_def)

lemma participant_new_index_get [simp]: "index_get i \<noteq> 0 \<Longrightarrow> participant_new (index_get i) = Inr i"
  by (simp add: participant_new_def)

section \<open>Scalars and groups\<close>

record ('s, 'e) golden_group =
  repr_bytes :: usize
  scalar_from_u64 :: "u64 \<Rightarrow> 's result"
  scalar_to_repr :: "'s \<Rightarrow> bytes"
  scalar_from_repr :: "bytes \<Rightarrow> 's result"
  element_repr_bytes :: usize
  backend_id :: bytes
  generator :: 'e
  group_mul :: "'e \<Rightarrow> 's \<Rightarrow> 'e"
  encode_element :: "'e \<Rightarrow> bytes"
  decode_element :: "bytes \<Rightarrow> 'e result"
  sha256 :: "bytes \<Rightarrow> bytes"

definition invert :: "'s::field \<Rightarrow> 's option" where
  "invert s = (if s = 0 then None else Some (inverse s))"

definition mul_generator :: "('s, 'e, 'z) golden_group_scheme \<Rightarrow> 's \<Rightarrow> 'e" where
  "mul_generator G scalar = group_mul G (generator G) scalar"

definition is_identity :: "'e::ab_group_add \<Rightarrow> bool" where
  "is_identity point \<longleftrightarrow> point = 0"

definition to_scalar :: "('s, 'e, 'z) golden_group_scheme \<Rightarrow> participant_index \<Rightarrow> 's result" where
  "to_scalar G i = scalar_from_u64 G (ucast (index_get i))"

text \<open>\<open>Repr::try_from(Vec<u8>)\<close> for the fixed-size arrays of the backends.\<close>

definition repr_try_from :: "usize \<Rightarrow> bytes \<Rightarrow> bytes result" where
  "repr_try_from n bs = (if length bs = n then Inr bs else Inl InvalidEncoding)"

section \<open>Hashing to a scalar\<close>

text \<open>
  \<open>GoldenScalar::hash_to_scalar\<close>: the inner loop appends SHA-256 blocks until the representation
  is full, the outer loop tries counters \<open>0 .. u32::MAX\<close>. Every block appends 32 bytes, so fuel
  \<open>repr_bytes\<close> is enough for the inner loop (\<open>hash_blocks_fill\<close>).
\<close>

primrec hash_blocks :: "nat \<Rightarrow> ('s, 'e, 'z) golden_group_scheme \<Rightarrow> bytes \<Rightarrow> nat \<Rightarrow> bytes \<Rightarrow> bytes" where
  "hash_blocks 0 G seed block bs = bs"
| "hash_blocks (Suc fuel) G seed block bs =
     (if length bs < repr_bytes G
      then hash_blocks fuel G seed (Suc block) (bs @ sha256 G (seed @ be_bytes 4 block))
      else bs)"

definition hash_candidate ::
  "('s, 'e, 'z) golden_group_scheme \<Rightarrow> bytes \<Rightarrow> bytes \<Rightarrow> nat \<Rightarrow> bytes" where
  "hash_candidate G domain message counter =
     (let seed = ascii ''golden-scalar-v1'' @ u64_be (length domain) @ domain
                 @ u64_be (length message) @ message @ be_bytes 4 counter
      in take (repr_bytes G) (hash_blocks (repr_bytes G) G seed 0 []))"

primrec hash_attempts ::
  "nat \<Rightarrow> ('s::field, 'e, 'z) golden_group_scheme \<Rightarrow> bytes \<Rightarrow> bytes \<Rightarrow> nat \<Rightarrow> 's result" where
  "hash_attempts 0 G domain message counter = Inl InvalidEncoding"
| "hash_attempts (Suc n) G domain message counter =
     rbind (repr_try_from (repr_bytes G) (hash_candidate G domain message counter)) (\<lambda>repr.
       case scalar_from_repr G repr of
         Inr scalar \<Rightarrow> if scalar \<noteq> 0 then Inr scalar
                       else hash_attempts n G domain message (Suc counter)
       | Inl _ \<Rightarrow> hash_attempts n G domain message (Suc counter))"

definition hash_to_scalar :: "('s::field, 'e, 'z) golden_group_scheme \<Rightarrow> bytes \<Rightarrow> bytes \<Rightarrow> 's result" where
  "hash_to_scalar G domain message = hash_attempts (2 ^ 32 - 1) G domain message 0"

section \<open>What the code relies on of a backend\<close>

text \<open>\<open>u64::from(u32)\<close> keeps the value. A group of prime order with its scalar field: \<open>mul\<close> is a faithful action of the field, every
  element is a multiple of the generator, \<open>from_u64\<close> reduces an integer into the field.\<close>

lemma u32_to_u64: "unat (ucast (w :: u32) :: u64) = unat w"
proof -
  have "unat w < 2 ^ 64" using u32_lt[of w] by simp
  then show ?thesis by (simp add: unsigned_ucast_eq take_bit_nat_eq_self)
qed

locale prime_group =
  fixes G :: "('s::field, 'e::ab_group_add, 'z) golden_group_scheme"
  assumes mul_add_scalar: "group_mul G p (a + b) = group_mul G p a + group_mul G p b"
    and mul_add_point: "group_mul G (p + q) a = group_mul G p a + group_mul G q a"
    and mul_mul: "group_mul G (group_mul G p a) b = group_mul G p (a * b)"
    and mul_one: "group_mul G p 1 = p"
    and generator_free: "group_mul G (generator G) a = 0 \<Longrightarrow> a = 0"
    and generator_spans: "\<exists>a. p = group_mul G (generator G) a"
    and from_u64_value: "scalar_from_u64 G w = Inr s \<Longrightarrow> s = of_nat (unat w)"
begin

lemma mul_zero [simp]: "group_mul G p 0 = 0"
  using mul_add_scalar[of p 0 0] by simp

lemma mul_zero_point [simp]: "group_mul G 0 a = 0"
  using mul_add_point[of 0 0 a] by simp

lemma mul_minus: "group_mul G p (- a) = - group_mul G p a"
proof -
  have "group_mul G p a + group_mul G p (- a) = group_mul G p (a + - a)"
    by (simp only: mul_add_scalar)
  then have "group_mul G p a + group_mul G p (- a) = 0" by simp
  then show ?thesis by (rule add.inverse_unique[symmetric])
qed

lemma mul_minus_point: "group_mul G (- p) a = - group_mul G p a"
proof -
  have "group_mul G p a + group_mul G (- p) a = group_mul G (p + - p) a"
    by (simp only: mul_add_point)
  then have "group_mul G p a + group_mul G (- p) a = 0" by simp
  then show ?thesis by (rule add.inverse_unique[symmetric])
qed

lemma mul_diff_scalar: "group_mul G p (a - b) = group_mul G p a - group_mul G p b"
  using mul_add_scalar[of p a "- b"] by (simp add: mul_minus)

lemma mul_diff_point: "group_mul G (p - q) a = group_mul G p a - group_mul G q a"
  using mul_add_point[of p "- q" a] by (simp add: mul_minus_point)

lemma mul_sum_list: "group_mul G p (sum_list as) = (\<Sum>a\<leftarrow>as. group_mul G p a)"
  by (induction as) (auto simp: mul_add_scalar)

lemma mul_sum: "group_mul G p (sum f A) = (\<Sum>x\<in>A. group_mul G p (f x))"
  by (induction A rule: infinite_finite_induct) (auto simp: mul_add_scalar)

lemma mul_sum_point: "group_mul G (sum f A) a = (\<Sum>x\<in>A. group_mul G (f x) a)"
  by (induction A rule: infinite_finite_induct) (auto simp: mul_add_point)

lemma mul_generator_add: "mul_generator G (a + b) = mul_generator G a + mul_generator G b"
  and mul_generator_diff: "mul_generator G (a - b) = mul_generator G a - mul_generator G b"
  and mul_generator_mul: "group_mul G (mul_generator G a) b = mul_generator G (a * b)"
  and mul_generator_zero [simp]: "mul_generator G 0 = 0"
  by (simp_all add: mul_generator_def mul_add_scalar mul_diff_scalar mul_mul)

lemma mul_generator_sum: "mul_generator G (sum f A) = (\<Sum>x\<in>A. mul_generator G (f x))"
  by (simp add: mul_generator_def mul_sum)

lemma mul_generator_sum_list: "mul_generator G (sum_list as) = (\<Sum>a\<leftarrow>as. mul_generator G a)"
  by (simp add: mul_generator_def mul_sum_list)

lemma mul_generator_eq_0 [simp]: "mul_generator G a = 0 \<longleftrightarrow> a = 0"
  using generator_free by (auto simp: mul_generator_def)

lemma mul_generator_inject [simp]: "mul_generator G a = mul_generator G b \<longleftrightarrow> a = b"
proof -
  have "mul_generator G a = mul_generator G b \<longleftrightarrow> mul_generator G (a - b) = 0"
    by (simp add: mul_generator_diff del: mul_generator_eq_0)
  then show ?thesis by simp
qed

lemma mul_generatorE: obtains a where "p = mul_generator G a"
  using generator_spans[of p] by (auto simp: mul_generator_def)

lemma mul_eq_0 [simp]: "group_mul G p a = 0 \<longleftrightarrow> p = 0 \<or> a = 0"
  by (rule mul_generatorE[of p]) (simp add: mul_generator_mul)

lemma to_scalar_value: "to_scalar G i = Inr x \<Longrightarrow> x = of_nat (unat (index_get i))"
  using from_u64_value[of "ucast (index_get i)" x]
  by (simp add: to_scalar_def u32_to_u64)

end

text \<open>Canonical fixed-width encodings: a value has one encoding, and nothing else decodes to it.\<close>

locale golden_codec =
  fixes G :: "('s::field, 'e::ab_group_add, 'z) golden_group_scheme"
  assumes scalar_length: "length (scalar_to_repr G s) = repr_bytes G"
    and scalar_decode: "scalar_from_repr G (scalar_to_repr G s) = Inr s"
    and scalar_canonical: "scalar_from_repr G b = Inr s \<Longrightarrow> scalar_to_repr G s = b"
    and element_length: "length (encode_element G p) = element_repr_bytes G"
    and element_decode: "decode_element G (encode_element G p) = Inr p"
    and element_canonical: "decode_element G b = Inr p \<Longrightarrow> encode_element G p = b"
    and sha256_length: "length (sha256 G x) = 32"
    and repr_sizes: "0 < repr_bytes G" "repr_bytes G < 2 ^ 24"
      "0 < element_repr_bytes G" "element_repr_bytes G < 2 ^ 24"
    and backend_id_short: "length (backend_id G) < 2 ^ 64"
begin

lemma scalar_to_repr_inject [simp]: "scalar_to_repr G s = scalar_to_repr G t \<longleftrightarrow> s = t"
  using scalar_decode by (metis sum.inject(2))

lemma encode_element_inject [simp]: "encode_element G p = encode_element G q \<longleftrightarrow> p = q"
  using element_decode by (metis sum.inject(2))

text \<open>The block loop fills the representation within its fuel.\<close>

lemma hash_blocks_fill:
  "repr_bytes G \<le> fuel + length bs \<Longrightarrow> repr_bytes G \<le> length (hash_blocks fuel G seed block bs)"
  by (induction fuel arbitrary: block bs) (auto simp: sha256_length)

lemma hash_candidate_length: "length (hash_candidate G domain message counter) = repr_bytes G"
  using hash_blocks_fill[of "repr_bytes G" "[]"]
  by (simp add: hash_candidate_def Let_def min_absorb2)

lemma hash_candidate_try_from [simp]:
  "repr_try_from (repr_bytes G) (hash_candidate G domain message counter)
    = Inr (hash_candidate G domain message counter)"
  by (simp add: repr_try_from_def hash_candidate_length)

end

lemma hash_attempts_nonzero: "hash_attempts n G domain message counter = Inr s \<Longrightarrow> s \<noteq> 0"
proof (induction n arbitrary: counter)
  case (Suc n)
  let ?r = "hash_candidate G domain message counter"
  from Suc.prems have "repr_try_from (repr_bytes G) ?r = Inr ?r"
    by (auto simp: repr_try_from_def split: if_splits)
  with Suc show ?case
    by (cases "scalar_from_repr G ?r") (auto split: if_splits)
qed simp

lemma hash_to_scalar_nonzero: "hash_to_scalar G domain message = Inr s \<Longrightarrow> s \<noteq> 0"
  unfolding hash_to_scalar_def by (rule hash_attempts_nonzero)

text \<open>A first candidate that decodes to a nonzero scalar is the result.\<close>

lemma hash_to_scalar_first:
  assumes "repr_try_from (repr_bytes G) (hash_candidate G domain message 0) = Inr r"
    and "scalar_from_repr G r = Inr s" and "s \<noteq> 0"
  shows "hash_to_scalar G domain message = Inr s"
proof -
  have "(2 ^ 32 - 1 :: nat) = Suc (2 ^ 32 - 2)" by simp
  then show ?thesis
    unfolding hash_to_scalar_def using assms by (simp only: hash_attempts.simps) simp
qed

end
