(* ===== verification/Tiny_Backend.thy ===== *)
theory Tiny_Backend
  imports Golden_Group
begin

text \<open>
  The finite backend of \<open>golden-core/src/test_support.rs\<close>: the field of integers modulo 97 and
  its additive group. It is the concrete backend the witnesses of the development run on; SHA-256
  is instantiated by a constant 32-byte function. Ground terms are normalised to the form
  \<open>reduce n\<close> by the collection \<open>tiny_eval\<close>.
\<close>

named_theorems tiny_eval \<open>evaluation of ground terms of the tiny field\<close>

typedef tiny = "{..<97::nat}"
  morphisms tiny_get Tiny by (rule exI[of _ 0]) simp

definition reduce :: "nat \<Rightarrow> tiny" where
  "reduce value = Tiny (value mod 97)"

lemma tiny_get_less: "tiny_get x < 97"
  using tiny_get[of x] by simp

lemma tiny_get_reduce [simp, tiny_eval]: "tiny_get (reduce n) = n mod 97"
  by (simp add: reduce_def Tiny_inverse)

lemma reduce_tiny_get [simp]: "reduce (tiny_get x) = x"
  by (simp add: reduce_def tiny_get_inverse tiny_get_less)

lemma tiny_eq_iff: "x = y \<longleftrightarrow> tiny_get x = tiny_get y"
  by (simp add: tiny_get_inject)

lemma reduce_eq [tiny_eval]: "reduce a = reduce b \<longleftrightarrow> a mod 97 = b mod 97"
  by (simp add: tiny_eq_iff)

text \<open>\<open>TinyScalar::invert\<close> tries the candidates in order.\<close>

definition tiny_invert :: "nat \<Rightarrow> nat option" where
  "tiny_invert value =
     (if value = 0 then None
      else find (\<lambda>candidate. value * candidate mod 97 = 1) [1..<97])"

instantiation tiny :: field
begin

definition zero_tiny :: tiny where "0 = reduce 0"
definition one_tiny :: tiny where "1 = reduce 1"
definition plus_tiny :: "tiny \<Rightarrow> tiny \<Rightarrow> tiny" where
  "x + y = reduce (tiny_get x + tiny_get y)"
definition minus_tiny :: "tiny \<Rightarrow> tiny \<Rightarrow> tiny" where
  "x - y = reduce (97 + tiny_get x - tiny_get y)"
definition uminus_tiny :: "tiny \<Rightarrow> tiny" where
  "- x = (0 :: tiny) - x"
definition times_tiny :: "tiny \<Rightarrow> tiny \<Rightarrow> tiny" where
  "x * y = reduce (tiny_get x * tiny_get y)"
definition inverse_tiny :: "tiny \<Rightarrow> tiny" where
  "inverse x = (case tiny_invert (tiny_get x) of None \<Rightarrow> 0 | Some c \<Rightarrow> reduce c)"
definition divide_tiny :: "tiny \<Rightarrow> tiny \<Rightarrow> tiny" where
  "x div y = x * inverse (y :: tiny)"

lemma tiny_get_zero [simp]: "tiny_get 0 = 0"
  and tiny_get_one [simp]: "tiny_get 1 = 1"
  by (simp_all add: zero_tiny_def one_tiny_def)

text \<open>\<open>x ^ 96 = 1\<close> modulo 97 for every nonzero residue, by repeated squaring.\<close>

definition square_97 :: "int \<Rightarrow> int" where
  "square_97 x = x * x mod 97"

definition power_96 :: "int \<Rightarrow> int" where
  "power_96 x = (let y = square_97 (square_97 (square_97 (square_97 (square_97 x))))
     in square_97 y * y mod 97)"

lemma square_97_power: "square_97 (x ^ n mod 97) = x ^ (2 * n) mod 97"
  by (simp add: square_97_def mod_simps power_add[symmetric] mult_2)

lemma power_96_eq: "power_96 x = x ^ 96 mod 97"
proof -
  have "square_97 x = x ^ 2 mod 97" by (simp add: square_97_def power2_eq_square)
  then have "power_96 x = x ^ 64 mod 97 * (x ^ 32 mod 97) mod 97"
    by (simp add: power_96_def Let_def square_97_power)
  also have "\<dots> = x ^ (64 + 32) mod 97"
    by (simp only: power_add mod_mult_eq)
  finally show ?thesis by simp
qed

text \<open>The squares are evaluated on numerals only, innermost first.\<close>

lemma square_97_numeral:
  "square_97 1 = 1" "square_97 (numeral k) = numeral k * numeral k mod 97"
  by (simp_all add: square_97_def)

lemmas power_96_numeral = power_96_def[of "numeral k"] power_96_def[of 1] for k

lemma fermat_97_table: "list_all (\<lambda>a. power_96 a = 1) [1..96]"
  by (simp add: upto_rec1[of 1 96] square_97_numeral power_96_numeral)

lemma fermat_97: "0 < a \<Longrightarrow> a < 97 \<Longrightarrow> a ^ 96 mod 97 = (1::nat)"
proof -
  assume "0 < a" and "a < 97"
  then have "int a \<in> set [1..96]" by simp
  with fermat_97_table have "int a ^ 96 mod 97 = 1"
    by (simp only: list_all_iff power_96_eq)
  then have "int (a ^ 96 mod 97) = int 1" by (simp add: zmod_int)
  then show "a ^ 96 mod 97 = 1" by (simp only: of_nat_eq_iff)
qed

lemma tiny_invert_some:
  assumes "0 < a" and "a < 97"
  shows "\<exists>c. tiny_invert a = Some c \<and> a * c mod 97 = 1"
proof -
  have "a ^ 96 mod 97 = 1"
    using fermat_97 assms by blast
  then have f: "a * (a ^ 95 mod 97) mod 97 = 1"
    by (simp add: mod_mult_right_eq flip: power_Suc)
  then have "a ^ 95 mod 97 \<noteq> 0" by (intro notI) simp
  with f have "\<exists>c \<in> set [1..<97]. a * c mod 97 = 1"
    by (intro bexI[of _ "a ^ 95 mod 97"]) auto
  then have "find (\<lambda>c. a * c mod 97 = 1) [1..<97] \<noteq> None"
    by (auto simp: find_None_iff simp del: upt_rec_numeral)
  then obtain c where c: "find (\<lambda>c. a * c mod 97 = 1) [1..<97] = Some c" by auto
  then have "a * c mod 97 = 1" by (auto simp: find_Some_iff)
  with c assms show ?thesis by (auto simp: tiny_invert_def)
qed

instance
proof
  fix x y z :: tiny
  show "x + y + z = x + (y + z)" and "x + y = y + x" and "x * y * z = x * (y * z)"
    and "x * y = y * x" and "(x + y) * z = x * z + y * z"
    by (simp_all add: plus_tiny_def times_tiny_def reduce_eq mod_simps algebra_simps)
  show "0 + x = x" and "1 * x = x"
    by (simp_all add: plus_tiny_def times_tiny_def)
  show "- x + x = 0"
    using tiny_get_less[of x] by (simp add: uminus_tiny_def minus_tiny_def plus_tiny_def
        zero_tiny_def reduce_eq mod_simps)
  show "x - y = x + - y"
  proof -
    have "97 + tiny_get x - tiny_get y = tiny_get x + (97 - tiny_get y)"
      using tiny_get_less[of y] by simp
    then show ?thesis
      by (simp add: uminus_tiny_def minus_tiny_def plus_tiny_def reduce_eq mod_simps)
  qed
  show "(0 :: tiny) \<noteq> 1"
    by (simp add: zero_tiny_def one_tiny_def reduce_eq)
  show "inverse (0 :: tiny) = 0"
    by (simp add: inverse_tiny_def tiny_invert_def)
  show "inverse x * x = 1" if "x \<noteq> 0"
  proof -
    have "0 < tiny_get x" using that by (simp add: tiny_eq_iff)
    then obtain c where "tiny_invert (tiny_get x) = Some c" "tiny_get x * c mod 97 = 1"
      using tiny_invert_some tiny_get_less by blast
    then show ?thesis
      by (simp add: inverse_tiny_def times_tiny_def one_tiny_def reduce_eq mod_simps mult.commute)
  qed
  show "x div y = x * inverse y" by (simp add: divide_tiny_def)
qed

end

section \<open>Ground evaluation\<close>

lemma reduce_arith [tiny_eval]:
  "reduce a + reduce b = reduce (a + b)"
  "reduce a * reduce b = reduce (a * b)"
  "reduce a - reduce b = reduce (a + (97 - b mod 97))"
  "- reduce a = reduce (97 - a mod 97)"
proof -
  have sub: "reduce x - reduce b = reduce (x + (97 - b mod 97))" for x
  proof -
    have "97 + x mod 97 - b mod 97 = x mod 97 + (97 - b mod 97)" by simp
    then have "reduce x - reduce b = reduce (x mod 97 + (97 - b mod 97))"
      by (simp add: minus_tiny_def)
    also have "\<dots> = reduce (x + (97 - b mod 97))"
      by (simp only: reduce_eq mod_add_left_eq)
    finally show ?thesis .
  qed
  show "reduce a + reduce b = reduce (a + b)" and "reduce a * reduce b = reduce (a * b)"
    by (simp_all add: plus_tiny_def times_tiny_def reduce_eq mod_simps)
  show "reduce a - reduce b = reduce (a + (97 - b mod 97))" by (rule sub)
  have "- reduce a = reduce 0 - reduce a" by (simp add: zero_tiny_def)
  then show "- reduce a = reduce (97 - a mod 97)"
    by (simp add: minus_tiny_def)
qed

lemma reduce_of_nat: "reduce n = of_nat n"
proof (induction n)
  case (Suc n)
  have "reduce (Suc n) = reduce 1 + reduce n" by (simp add: reduce_arith)
  with Suc show ?case by (simp add: one_tiny_def)
qed (simp add: zero_tiny_def)

lemma tiny_literals [tiny_eval]:
  "(0 :: tiny) = reduce 0" "(1 :: tiny) = reduce 1" "numeral k = reduce (numeral k)"
  "of_nat n = reduce n"
  by (simp_all add: reduce_of_nat)

lemma reduce_power [tiny_eval]: "reduce a ^ n = reduce (a ^ n)"
  by (simp add: reduce_of_nat)

lemma reduce_inverse [tiny_eval]:
  "inverse (reduce a) = (if a mod 97 = 0 then reduce 0 else reduce (a ^ 95))"
proof (cases "a mod 97 = 0")
  case True
  then have "reduce a = 0" by (simp add: zero_tiny_def reduce_eq)
  with True show ?thesis by (simp add: zero_tiny_def[symmetric])
next
  case False
  have "(a mod 97) ^ 96 mod 97 = 1" using False by (intro fermat_97) simp_all
  then have "a ^ 96 mod 97 = 1" by (simp add: power_mod)
  then have "reduce a * reduce (a ^ 95) = 1"
    by (simp add: reduce_arith one_tiny_def reduce_eq flip: power_Suc)
  then have "reduce (a ^ 95) = inverse (reduce a)"
    by (rule inverse_unique[symmetric])
  with False show ?thesis by simp
qed

section \<open>The backend\<close>

definition tiny_hash :: "bytes \<Rightarrow> bytes" where
  "tiny_hash message = replicate 32 1"

definition tiny_from_repr :: "bytes \<Rightarrow> tiny result" where
  "tiny_from_repr repr =
     (case repr of [b] \<Rightarrow> if unat b < 97 then Inr (reduce (unat b)) else Inl InvalidEncoding
      | _ \<Rightarrow> Inl InvalidEncoding)"

definition tiny_group :: "(tiny, tiny) golden_group" where
  "tiny_group =
    \<lparr>repr_bytes = 1,
     scalar_from_u64 = (\<lambda>value. Inr (reduce (unat value))),
     scalar_to_repr = (\<lambda>s. [word_of_nat (tiny_get s)]),
     scalar_from_repr = tiny_from_repr,
     element_repr_bytes = 1,
     backend_id = ascii ''golden-test-tiny-v1'',
     generator = 1,
     group_mul = (\<lambda>point scalar. point * scalar),
     encode_element = (\<lambda>s. [word_of_nat (tiny_get s)]),
     decode_element = tiny_from_repr,
     sha256 = tiny_hash\<rparr>"

lemma tiny_group_fields [simp, tiny_eval]:
  "repr_bytes tiny_group = 1" "element_repr_bytes tiny_group = 1"
  "scalar_from_u64 tiny_group value = Inr (reduce (unat value))"
  "scalar_to_repr tiny_group s = [word_of_nat (tiny_get s)]"
  "encode_element tiny_group s = [word_of_nat (tiny_get s)]"
  "scalar_from_repr tiny_group = tiny_from_repr" "decode_element tiny_group = tiny_from_repr"
  "generator tiny_group = 1" "group_mul tiny_group p s = p * s"
  "sha256 tiny_group = tiny_hash" "backend_id tiny_group = ascii ''golden-test-tiny-v1''" "mul_generator tiny_group s = s"
  by (simp_all add: tiny_group_def mul_generator_def)

lemma tiny_from_repr_encode [simp]: "tiny_from_repr [word_of_nat (tiny_get s)] = Inr s"
  using tiny_get_less[of s] by (simp add: tiny_from_repr_def unat_of_nat)

lemma tiny_from_repr_canonical:
  "tiny_from_repr b = Inr s \<Longrightarrow> [word_of_nat (tiny_get s)] = b"
  by (auto simp: tiny_from_repr_def split: list.splits if_splits)

interpretation tiny: prime_group tiny_group
proof
  show "scalar_from_u64 tiny_group w = Inr s \<Longrightarrow> s = of_nat (unat w)" for w s
    by (simp add: tiny_literals)
qed (simp_all add: distrib_left distrib_right mult.assoc)

interpretation tiny: golden_codec tiny_group
  by unfold_locales (auto simp: tiny_hash_def tiny_from_repr_canonical)

lemma tiny_to_scalar [simp, tiny_eval]: "to_scalar tiny_group (ParticipantIndex w) = Inr (reduce (unat w))"
  by (simp add: to_scalar_def u32_to_u64)

lemma tiny_hash_candidate: "hash_candidate tiny_group domain message counter = [1]"
proof -
  have "hash_blocks 1 tiny_group seed 0 [] = replicate 32 1" for seed
    unfolding One_nat_def by (simp add: tiny_hash_def)
  then show ?thesis
    by (simp add: hash_candidate_def Let_def take_replicate)
qed

lemma tiny_hash_to_scalar [simp, tiny_eval]: "hash_to_scalar tiny_group domain message = Inr 1"
proof (rule hash_to_scalar_first)
  show "repr_try_from (repr_bytes tiny_group) (hash_candidate tiny_group domain message 0) = Inr [1]"
    by (simp add: repr_try_from_def tiny_hash_candidate)
  show "scalar_from_repr tiny_group [1] = Inr 1"
    by (simp add: tiny_from_repr_def one_tiny_def)
qed simp

end
