(* ===== verification/Proof_Stream.thy ===== *)
theory Proof_Stream
  imports Golden_Group Tiny_Backend "HOL-Library.Sublist"
begin

text \<open>
  \<open>golden-evrf/src/proof_stream.rs\<close>: the paired prover and verifier roles of a proof protocol. Each
  role owns one Merlin transcript; the prover appends what it sends to the proof bytes, the verifier
  reads it back behind a cursor. Merlin is the record \<open>merlin\<close> of its three operations on a state
  \<open>'t\<close>. The locale \<open>stream_curve\<close> is the contract of a curve adapter; in it, receiving is the exact
  inverse of sending (\<open>receive_point_iff\<close>, \<open>sync_send\<close>).
\<close>

section \<open>Merlin transcripts and curve adapters\<close>

record 't merlin =
  merlin_new :: "bytes \<Rightarrow> 't"
  append_message :: "bytes \<Rightarrow> bytes \<Rightarrow> 't \<Rightarrow> 't"
  challenge_bytes :: "bytes \<Rightarrow> usize \<Rightarrow> 't \<Rightarrow> bytes \<times> 't"

datatype identity_policy = Allow | Reject

record ('p, 's) proof_stream_curve =
  point_bytes :: usize
  scalar_bytes :: usize
  encode_point :: "'p \<Rightarrow> bytes"
  decode_canonical_point :: "bytes \<Rightarrow> 'p result"
  point_is_identity :: "'p \<Rightarrow> bool"
  encode_scalar :: "'s \<Rightarrow> bytes"
  decode_scalar :: "bytes \<Rightarrow> 's result"

definition stream_error :: error where
  "stream_error = ProofVerificationFailed"

definition golden_decode_point ::
  "('s, 'e, 'z) golden_group_scheme \<Rightarrow> bytes \<Rightarrow> 'e result" where
  "golden_decode_point G bs =
     (if length bs \<noteq> element_repr_bytes G then Inl stream_error
      else rbind (map_err (\<lambda>_. stream_error) (repr_try_from (element_repr_bytes G) bs)) (\<lambda>repr.
           rbind (map_err (\<lambda>_. stream_error) (decode_element G repr)) (\<lambda>point.
           if encode_element G point \<noteq> bs then Inl stream_error else Inr point)))"

definition golden_decode_scalar ::
  "('s, 'e, 'z) golden_group_scheme \<Rightarrow> bytes \<Rightarrow> 's result" where
  "golden_decode_scalar G bs =
     (if length bs \<noteq> repr_bytes G then Inl stream_error
      else rbind (map_err (\<lambda>_. stream_error) (repr_try_from (repr_bytes G) bs)) (\<lambda>repr.
           rbind (map_err (\<lambda>_. stream_error) (scalar_from_repr G repr)) (\<lambda>scalar.
           if scalar_to_repr G scalar \<noteq> bs then Inl stream_error else Inr scalar)))"

definition golden_curve ::
  "('s, 'e::ab_group_add, 'z) golden_group_scheme \<Rightarrow> ('e, 's) proof_stream_curve" where
  "golden_curve G =
     \<lparr>point_bytes = element_repr_bytes G,
      scalar_bytes = repr_bytes G,
      encode_point = encode_element G,
      decode_canonical_point = golden_decode_point G,
      point_is_identity = is_identity,
      encode_scalar = scalar_to_repr G,
      decode_scalar = golden_decode_scalar G\<rparr>"

definition enforce_identity ::
  "('p, 's) proof_stream_curve \<Rightarrow> 'p \<Rightarrow> identity_policy \<Rightarrow> unit result" where
  "enforce_identity C point identity =
     (if identity = Reject \<and> point_is_identity C point then Inl stream_error else Inr ())"

definition checked_point_encoding ::
  "('p, 's) proof_stream_curve \<Rightarrow> 'p \<Rightarrow> identity_policy \<Rightarrow> bytes result" where
  "checked_point_encoding C point identity =
     rbind (enforce_identity C point identity) (\<lambda>_.
       let encoded = encode_point C point
       in if length encoded \<noteq> point_bytes C then Inl stream_error else Inr encoded)"

definition decode_point ::
  "('p, 's) proof_stream_curve \<Rightarrow> bytes \<Rightarrow> identity_policy \<Rightarrow> 'p result" where
  "decode_point C encoded identity =
     rbind (decode_canonical_point C encoded) (\<lambda>point.
     rbind (enforce_identity C point identity) (\<lambda>_. Inr point))"

definition checked_scalar_encoding ::
  "('p, 's) proof_stream_curve \<Rightarrow> 's \<Rightarrow> bytes result" where
  "checked_scalar_encoding C scalar =
     (let encoded = encode_scalar C scalar
      in if length encoded \<noteq> scalar_bytes C then Inl stream_error
         else rbind (decode_scalar C encoded) (\<lambda>_. Inr encoded))"

section \<open>Observing\<close>

text \<open>The trait \<open>Observe\<close>: \<open>transcript_mut\<close> as reading and replacing the transcript of a role.\<close>

record ('o, 't) observe =
  transcript_of :: "'o \<Rightarrow> 't"
  set_transcript :: "'t \<Rightarrow> 'o \<Rightarrow> 'o"

definition observe_bytes ::
  "'t merlin \<Rightarrow> ('o, 't) observe \<Rightarrow> bytes \<Rightarrow> bytes \<Rightarrow> 'o \<Rightarrow> 'o" where
  "observe_bytes M Ob label value st =
     set_transcript Ob (append_message M label value (transcript_of Ob st)) st"

definition observe_point ::
  "'t merlin \<Rightarrow> ('o, 't) observe \<Rightarrow> ('p, 's) proof_stream_curve \<Rightarrow> bytes \<Rightarrow> 'p \<Rightarrow> identity_policy
    \<Rightarrow> 'o \<Rightarrow> 'o result" where
  "observe_point M Ob C label point identity st =
     rbind (checked_point_encoding C point identity) (\<lambda>encoded. Inr (observe_bytes M Ob label encoded st))"

definition observe_scalar ::
  "'t merlin \<Rightarrow> ('o, 't) observe \<Rightarrow> ('p, 's) proof_stream_curve \<Rightarrow> bytes \<Rightarrow> 's \<Rightarrow> 'o \<Rightarrow> 'o result" where
  "observe_scalar M Ob C label scalar st =
     rbind (checked_scalar_encoding C scalar) (\<lambda>encoded. Inr (observe_bytes M Ob label encoded st))"

definition observe_challenge ::
  "'t merlin \<Rightarrow> ('o, 't) observe \<Rightarrow> bytes \<Rightarrow> usize \<Rightarrow> 'o \<Rightarrow> bytes \<times> 'o" where
  "observe_challenge M Ob label len st =
     (let (bs, t) = challenge_bytes M label len (transcript_of Ob st) in (bs, set_transcript Ob t st))"

definition transcript_observe :: "('t, 't) observe" where
  "transcript_observe = \<lparr>transcript_of = (\<lambda>t. t), set_transcript = (\<lambda>t _. t)\<rparr>"

section \<open>The prover\<close>

record 't prover_stream =
  ps_transcript :: 't
  ps_proof :: bytes

definition prover_observe :: "('t prover_stream, 't) observe" where
  "prover_observe = \<lparr>transcript_of = ps_transcript, set_transcript = (\<lambda>t P. P\<lparr>ps_transcript := t\<rparr>)\<rparr>"

definition PROOF_ID_LEN_BYTES :: usize where "PROOF_ID_LEN_BYTES = 4"
definition NESTED_LEN_BYTES :: usize where "NESTED_LEN_BYTES = 8"

definition prover_new :: "'t merlin \<Rightarrow> bytes \<Rightarrow> 't prover_stream result" where
  "prover_new M pid =
     (if 2 ^ 32 \<le> length pid then Inl ProofVerificationFailed
      else Inr \<lparr>ps_transcript = merlin_new M pid, ps_proof = be_bytes 4 (length pid) @ pid\<rparr>)"

definition send_bytes :: "'t merlin \<Rightarrow> bytes \<Rightarrow> bytes \<Rightarrow> 't prover_stream \<Rightarrow> 't prover_stream" where
  "send_bytes M label value P =
     observe_bytes M prover_observe label value (P\<lparr>ps_proof := ps_proof P @ value\<rparr>)"

definition send_point ::
  "'t merlin \<Rightarrow> ('p, 's) proof_stream_curve \<Rightarrow> bytes \<Rightarrow> 'p \<Rightarrow> identity_policy
    \<Rightarrow> 't prover_stream \<Rightarrow> 't prover_stream result" where
  "send_point M C label point identity P =
     rbind (checked_point_encoding C point identity) (\<lambda>encoded. Inr (send_bytes M label encoded P))"

definition send_scalar ::
  "'t merlin \<Rightarrow> ('p, 's) proof_stream_curve \<Rightarrow> bytes \<Rightarrow> 's \<Rightarrow> 't prover_stream \<Rightarrow> 't prover_stream result" where
  "send_scalar M C label scalar P =
     rbind (checked_scalar_encoding C scalar) (\<lambda>encoded. Inr (send_bytes M label encoded P))"

text \<open>The child protocol may have changed the transcript when it fails; the stream restores it.\<close>

definition send_nested ::
  "('t \<Rightarrow> bytes result \<times> 't) \<Rightarrow> 't prover_stream \<Rightarrow> unit result \<times> 't prover_stream" where
  "send_nested build P =
     (let transcript_before = ps_transcript P;
          (built, t) = build (ps_transcript P);
          P1 = P\<lparr>ps_transcript := t\<rparr>
      in case built of
           Inl err \<Rightarrow> (Inl err, P1\<lparr>ps_transcript := transcript_before\<rparr>)
         | Inr payload \<Rightarrow>
             if 2 ^ 64 \<le> length payload then (Inl stream_error, P1\<lparr>ps_transcript := transcript_before\<rparr>)
             else (Inr (), P1\<lparr>ps_proof := ps_proof P1 @ u64_be (length payload) @ payload\<rparr>))"

definition prover_finish :: "'t prover_stream \<Rightarrow> bytes" where
  "prover_finish P = ps_proof P"

section \<open>The verifier\<close>

record 't verifier_stream =
  vs_transcript :: 't
  vs_proof :: bytes
  vs_cursor :: usize

definition verifier_observe :: "('t verifier_stream, 't) observe" where
  "verifier_observe = \<lparr>transcript_of = vs_transcript, set_transcript = (\<lambda>t V. V\<lparr>vs_transcript := t\<rparr>)\<rparr>"

text \<open>Rust's \<open>slice.get(start..end)\<close>.\<close>

definition slice_get :: "bytes \<Rightarrow> usize \<Rightarrow> usize \<Rightarrow> bytes option" where
  "slice_get bs s e = (if s \<le> e \<and> e \<le> length bs then Some (take (e - s) (drop s bs)) else None)"

definition checked_end :: "usize \<Rightarrow> usize \<Rightarrow> usize result" where
  "checked_end s len = (if s + len < 2 ^ 64 then Inr (s + len) else Inl stream_error)"

definition verifier_new :: "'t merlin \<Rightarrow> bytes \<Rightarrow> bytes \<Rightarrow> 't verifier_stream result" where
  "verifier_new M pid pr =
     rbind (ok_or (slice_get pr 0 PROOF_ID_LEN_BYTES) stream_error) (\<lambda>length_bytes.
     let encoded_len = from_be length_bytes in
     if encoded_len \<noteq> length pid then Inl stream_error
     else rbind (checked_end PROOF_ID_LEN_BYTES encoded_len) (\<lambda>cursor.
          rbind (ok_or (slice_get pr PROOF_ID_LEN_BYTES cursor) stream_error) (\<lambda>encoded_id.
          if encoded_id \<noteq> pid then Inl stream_error
          else Inr \<lparr>vs_transcript = merlin_new M pid, vs_proof = pr, vs_cursor = cursor\<rparr>)))"

definition receive_bytes ::
  "'t merlin \<Rightarrow> bytes \<Rightarrow> usize \<Rightarrow> 't verifier_stream \<Rightarrow> (bytes \<times> 't verifier_stream) result" where
  "receive_bytes M label len V =
     rbind (checked_end (vs_cursor V) len) (\<lambda>e.
     rbind (ok_or (slice_get (vs_proof V) (vs_cursor V) e) stream_error) (\<lambda>value.
       Inr (value, V\<lparr>vs_transcript := append_message M label value (vs_transcript V), vs_cursor := e\<rparr>)))"

definition receive_point ::
  "'t merlin \<Rightarrow> ('p, 's) proof_stream_curve \<Rightarrow> bytes \<Rightarrow> identity_policy
    \<Rightarrow> 't verifier_stream \<Rightarrow> ('p \<times> 't verifier_stream) result" where
  "receive_point M C label identity V =
     rbind (checked_end (vs_cursor V) (point_bytes C)) (\<lambda>e.
     rbind (ok_or (slice_get (vs_proof V) (vs_cursor V) e) stream_error) (\<lambda>encoded.
     rbind (decode_point C encoded identity) (\<lambda>point.
       Inr (point, V\<lparr>vs_transcript := append_message M label encoded (vs_transcript V), vs_cursor := e\<rparr>))))"

definition receive_scalar ::
  "'t merlin \<Rightarrow> ('p, 's) proof_stream_curve \<Rightarrow> bytes
    \<Rightarrow> 't verifier_stream \<Rightarrow> ('s \<times> 't verifier_stream) result" where
  "receive_scalar M C label V =
     rbind (checked_end (vs_cursor V) (scalar_bytes C)) (\<lambda>e.
     rbind (ok_or (slice_get (vs_proof V) (vs_cursor V) e) stream_error) (\<lambda>encoded.
     rbind (decode_scalar C encoded) (\<lambda>scalar.
       Inr (scalar, V\<lparr>vs_transcript := append_message M label encoded (vs_transcript V), vs_cursor := e\<rparr>))))"

text \<open>The frame of a nested payload: the checked bounds and the payload itself.\<close>

definition nested_frame :: "'t verifier_stream \<Rightarrow> (bytes \<times> usize) result" where
  "nested_frame V =
     rbind (checked_end (vs_cursor V) NESTED_LEN_BYTES) (\<lambda>payload_start.
     rbind (ok_or (slice_get (vs_proof V) (vs_cursor V) payload_start) stream_error) (\<lambda>length_bytes.
     let payload_len = from_be length_bytes in
     rbind (checked_end payload_start payload_len) (\<lambda>frame_end.
     rbind (ok_or (slice_get (vs_proof V) payload_start frame_end) stream_error) (\<lambda>payload.
       Inr (payload, frame_end)))))"

definition receive_nested ::
  "('t \<Rightarrow> bytes \<Rightarrow> 'a result \<times> 't) \<Rightarrow> 't verifier_stream \<Rightarrow> 'a result \<times> 't verifier_stream" where
  "receive_nested consume V =
     (case nested_frame V of
        Inl err \<Rightarrow> (Inl err, V)
      | Inr (payload, frame_end) \<Rightarrow>
          let transcript_before = vs_transcript V;
              (consumed, t) = consume (vs_transcript V) payload;
              V1 = V\<lparr>vs_transcript := t\<rparr>
          in case consumed of
               Inr v \<Rightarrow> (Inr v, V1\<lparr>vs_cursor := frame_end\<rparr>)
             | Inl err \<Rightarrow> (Inl err, V1\<lparr>vs_transcript := transcript_before\<rparr>))"

definition verifier_finish :: "'t verifier_stream \<Rightarrow> unit result" where
  "verifier_finish V = (if vs_cursor V = length (vs_proof V) then Inr () else Inl stream_error)"

section \<open>The contract of an adapter\<close>

definition allowed :: "('p, 's) proof_stream_curve \<Rightarrow> identity_policy \<Rightarrow> 'p \<Rightarrow> bool" where
  "allowed C identity point \<longleftrightarrow> identity = Reject \<longrightarrow> \<not> point_is_identity C point"

text \<open>\<open>stream_step M label bs V V'\<close>: the verifier consumes exactly \<open>bs\<close> and observes it once.\<close>

definition stream_step ::
  "'t merlin \<Rightarrow> bytes \<Rightarrow> bytes \<Rightarrow> 't verifier_stream \<Rightarrow> 't verifier_stream \<Rightarrow> bool" where
  "stream_step M label bs V V' \<longleftrightarrow>
     V' = V\<lparr>vs_transcript := append_message M label bs (vs_transcript V),
            vs_cursor := vs_cursor V + length bs\<rparr>
     \<and> vs_cursor V + length bs < 2 ^ 64
     \<and> slice_get (vs_proof V) (vs_cursor V) (vs_cursor V + length bs) = Some bs"

text \<open>Prover and verifier agree: same transcript, and the proof sent so far has been read.\<close>

definition in_sync :: "'t prover_stream \<Rightarrow> 't verifier_stream \<Rightarrow> bool" where
  "in_sync P V \<longleftrightarrow>
     vs_transcript V = ps_transcript P \<and> vs_cursor V = length (ps_proof P) \<and> prefix (ps_proof P) (vs_proof V)"

lemma enforce_identity_Inr [simp]: "enforce_identity C p identity = Inr u \<longleftrightarrow> allowed C identity p"
  by (auto simp: enforce_identity_def allowed_def)

lemma checked_end_Inr [simp]: "checked_end s len = Inr e \<longleftrightarrow> e = s + len \<and> e < 2 ^ 64"
  by (auto simp: checked_end_def)

lemma slice_get_length: "slice_get bs s e = Some xs \<Longrightarrow> length xs = e - s"
  by (auto simp: slice_get_def split: if_splits)

lemma receive_bytes_iff:
  "receive_bytes M label len V = Inr (bs, V') \<longleftrightarrow> length bs = len \<and> stream_step M label bs V V'"
proof -
  have "length bs = len" if "slice_get (vs_proof V) (vs_cursor V) (vs_cursor V + len) = Some bs"
    using slice_get_length[OF that] by simp
  then show ?thesis by (auto simp: receive_bytes_def stream_step_def)
qed

lemma stream_step_sync:
  assumes "in_sync P V" and "prefix (ps_proof (send_bytes M label bs P)) (vs_proof V)"
    and "length (vs_proof V) < 2 ^ 64"
  shows "\<exists>V'. stream_step M label bs V V' \<and> in_sync (send_bytes M label bs P) V' \<and> vs_proof V' = vs_proof V"
proof -
  obtain rest where proof_bytes: "vs_proof V = ps_proof P @ bs @ rest"
    using assms(2) by (auto simp: send_bytes_def observe_bytes_def prover_observe_def elim!: prefixE)
  show ?thesis
    using assms(1,3) by (auto simp: stream_step_def in_sync_def proof_bytes slice_get_def send_bytes_def
        observe_bytes_def prover_observe_def)
qed

locale stream_curve =
  fixes C :: "('p, 's) proof_stream_curve"
  assumes point_length: "length (encode_point C p) = point_bytes C"
    and point_decode: "decode_canonical_point C (encode_point C p) = Inr p"
    and point_canonical: "decode_canonical_point C bs = Inr p \<Longrightarrow> encode_point C p = bs"
    and scalar_length: "length (encode_scalar C s) = scalar_bytes C"
    and scalar_decode: "decode_scalar C (encode_scalar C s) = Inr s"
    and scalar_canonical: "decode_scalar C bs = Inr s \<Longrightarrow> encode_scalar C s = bs"
begin

lemma checked_point_encoding_Inr:
  "checked_point_encoding C p identity = Inr bs \<longleftrightarrow> allowed C identity p \<and> bs = encode_point C p"
  by (auto simp: checked_point_encoding_def Let_def point_length)

lemma checked_scalar_encoding_eq: "checked_scalar_encoding C s = Inr (encode_scalar C s)"
  by (simp add: checked_scalar_encoding_def Let_def scalar_length scalar_decode)

lemma send_point_Inr:
  "send_point M C label p identity P = Inr P' \<longleftrightarrow>
    allowed C identity p \<and> P' = send_bytes M label (encode_point C p) P"
  by (auto simp: send_point_def checked_point_encoding_Inr)

lemma send_scalar_eq: "send_scalar M C label s P = Inr (send_bytes M label (encode_scalar C s) P)"
  by (simp add: send_scalar_def checked_scalar_encoding_eq)

text \<open>A point is received exactly when its canonical encoding is next.\<close>

lemma receive_point_iff:
  "receive_point M C label identity V = Inr (p, V') \<longleftrightarrow>
    allowed C identity p \<and> stream_step M label (encode_point C p) V V'"
proof -
  have "receive_point M C label identity V = Inr (p, V') \<longleftrightarrow>
      (\<exists>bs. vs_cursor V + point_bytes C < 2 ^ 64
        \<and> slice_get (vs_proof V) (vs_cursor V) (vs_cursor V + point_bytes C) = Some bs
        \<and> decode_canonical_point C bs = Inr p \<and> allowed C identity p
        \<and> V' = V\<lparr>vs_transcript := append_message M label bs (vs_transcript V),
                 vs_cursor := vs_cursor V + point_bytes C\<rparr>)"
    by (auto simp: receive_point_def decode_point_def)
  then show ?thesis
    using point_canonical point_decode by (auto simp: stream_step_def point_length)
qed

lemma receive_scalar_iff:
  "receive_scalar M C label V = Inr (s, V') \<longleftrightarrow> stream_step M label (encode_scalar C s) V V'"
proof -
  have "receive_scalar M C label V = Inr (s, V') \<longleftrightarrow>
      (\<exists>bs. vs_cursor V + scalar_bytes C < 2 ^ 64
        \<and> slice_get (vs_proof V) (vs_cursor V) (vs_cursor V + scalar_bytes C) = Some bs
        \<and> decode_scalar C bs = Inr s
        \<and> V' = V\<lparr>vs_transcript := append_message M label bs (vs_transcript V),
                 vs_cursor := vs_cursor V + scalar_bytes C\<rparr>)"
    by (auto simp: receive_scalar_def)
  then show ?thesis
    using scalar_canonical scalar_decode by (auto simp: stream_step_def scalar_length)
qed

lemma sync_send_point:
  assumes "in_sync P V" and "send_point M C label p identity P = Inr P'"
    and "prefix (ps_proof P') (vs_proof V)" and "length (vs_proof V) < 2 ^ 64"
  shows "\<exists>V'. receive_point M C label identity V = Inr (p, V') \<and> in_sync P' V' \<and> vs_proof V' = vs_proof V"
  using stream_step_sync[OF assms(1)] assms(2-4) by (auto simp: send_point_Inr receive_point_iff)

lemma sync_send_scalar:
  assumes "in_sync P V" and "send_scalar M C label s P = Inr P'"
    and "prefix (ps_proof P') (vs_proof V)" and "length (vs_proof V) < 2 ^ 64"
  shows "\<exists>V'. receive_scalar M C label V = Inr (s, V') \<and> in_sync P' V' \<and> vs_proof V' = vs_proof V"
  using stream_step_sync[OF assms(1)] assms(2-4) by (auto simp: send_scalar_eq receive_scalar_iff)

end

text \<open>Every group with canonical encodings is an adapter.\<close>

lemma golden_stream_curve:
  assumes "golden_codec G"
  shows "stream_curve (golden_curve G)"
  by unfold_locales
    (auto simp: golden_curve_def golden_decode_point_def golden_decode_scalar_def repr_try_from_def
      golden_codec.element_length[OF assms] golden_codec.element_decode[OF assms]
      golden_codec.scalar_length[OF assms] golden_codec.scalar_decode[OF assms] split: if_splits)

interpretation tiny_stream: stream_curve "golden_curve tiny_group"
  by (rule golden_stream_curve[OF tiny.golden_codec_axioms])

sublocale golden_codec \<subseteq> stream: stream_curve "golden_curve G"
  by (rule golden_stream_curve[OF golden_codec_axioms])

text \<open>The header of a proof.\<close>

lemma prover_new_Inr:
  "prover_new M pid = Inr P \<longleftrightarrow> length pid < 2 ^ 32
    \<and> P = \<lparr>ps_transcript = merlin_new M pid, ps_proof = be_bytes 4 (length pid) @ pid\<rparr>"
  by (auto simp: prover_new_def)

lemma verifier_new_Inr:
  "verifier_new M pid pr = Inr V \<longleftrightarrow>
    length pid < 2 ^ 32 \<and> prefix (be_bytes 4 (length pid) @ pid) pr
    \<and> V = \<lparr>vs_transcript = merlin_new M pid, vs_proof = pr, vs_cursor = 4 + length pid\<rparr>"
proof -
  have "slice_get pr 0 4 = Some lb \<longleftrightarrow> prefix lb pr \<and> length lb = 4" for lb
    by (auto simp: slice_get_def prefix_def) (metis append_take_drop_id)
  moreover have "slice_get pr 4 (4 + length pid) = Some pid \<and> prefix lb pr \<longleftrightarrow> prefix (lb @ pid) pr"
    if "length lb = 4" for lb
    using that by (auto simp: slice_get_def prefix_def) (metis append_take_drop_id)
  moreover have "from_be lb = length pid \<longleftrightarrow> length pid < 2 ^ 32 \<and> lb = be_bytes 4 (length pid)"
    if "length lb = 4" for lb
    using that be_bytes_from_be[OF that] from_be_less[of lb] from_be_inverse[of "length pid" 4] by auto
  ultimately have key: "slice_get pr 0 4 = Some lb \<and> from_be lb = length pid \<and> slice_get pr 4 (4 + length pid) = Some pid
      \<longleftrightarrow> lb = be_bytes 4 (length pid) \<and> length pid < 2 ^ 32 \<and> prefix (lb @ pid) pr" for lb
    by (metis length_be_bytes)
  have "verifier_new M pid pr = Inr V \<longleftrightarrow>
      (\<exists>lb. slice_get pr 0 4 = Some lb \<and> from_be lb = length pid \<and> slice_get pr 4 (4 + length pid) = Some pid)
      \<and> length pid < 2 ^ 64 - 4
      \<and> V = \<lparr>vs_transcript = merlin_new M pid, vs_proof = pr, vs_cursor = 4 + length pid\<rparr>"
    unfolding verifier_new_def PROOF_ID_LEN_BYTES_def Let_def by auto
  then show ?thesis unfolding key by auto
qed

section \<open>Nested protocols\<close>

lemma nested_frame_Inr:
  "nested_frame V = Inr (payload, e) \<longleftrightarrow>
    e = vs_cursor V + 8 + length payload \<and> e < 2 ^ 64 \<and> length payload < 2 ^ 64
    \<and> slice_get (vs_proof V) (vs_cursor V) (vs_cursor V + 8) = Some (u64_be (length payload))
    \<and> slice_get (vs_proof V) (vs_cursor V + 8) e = Some payload"
proof -
  have len: "from_be lb = n \<longleftrightarrow> n < 2 ^ 64 \<and> lb = u64_be n" if "length lb = 8" for lb n
    using that be_bytes_from_be[OF that] from_be_less[of lb] from_be_inverse[of n 8] by auto
  have "nested_frame V = Inr (payload, e) \<longleftrightarrow>
      (\<exists>lb. vs_cursor V + 8 < 2 ^ 64 \<and> slice_get (vs_proof V) (vs_cursor V) (vs_cursor V + 8) = Some lb
        \<and> e = vs_cursor V + 8 + from_be lb \<and> e < 2 ^ 64
        \<and> slice_get (vs_proof V) (vs_cursor V + 8) e = Some payload)"
    unfolding nested_frame_def NESTED_LEN_BYTES_def Let_def by auto
  also have "\<dots> \<longleftrightarrow> (\<exists>lb. slice_get (vs_proof V) (vs_cursor V) (vs_cursor V + 8) = Some lb
        \<and> from_be lb = length payload \<and> e = vs_cursor V + 8 + length payload \<and> e < 2 ^ 64
        \<and> slice_get (vs_proof V) (vs_cursor V + 8) e = Some payload)"
  proof -
    have "from_be lb = length payload"
      if "slice_get (vs_proof V) (vs_cursor V + 8) (vs_cursor V + 8 + from_be lb) = Some payload" for lb
      using slice_get_length[OF that] by simp
    then show ?thesis by auto
  qed
  finally show ?thesis using len slice_get_length[of "vs_proof V" "vs_cursor V" "vs_cursor V + 8"] by auto
qed

text \<open>
  Nested protocols stay in lockstep: if the child prover turns the shared transcript into some
  state with a payload, and the child verifier accepts that payload into the same state, then after
  \<open>send_nested\<close> and \<open>receive_nested\<close> the two streams are again in agreement and the whole frame has
  been consumed.
\<close>

theorem nested_lockstep:
  assumes "in_sync P V" and "send_nested build P = (Inr (), P')"
    and "build (ps_transcript P) = (Inr payload, t)" and "consume (ps_transcript P) payload = (Inr v, t)"
    and "prefix (ps_proof P') (vs_proof V)" and "length (vs_proof V) < 2 ^ 64"
  shows "\<exists>V'. receive_nested consume V = (Inr v, V') \<and> in_sync P' V' \<and> vs_proof V' = vs_proof V"
proof -
  have P': "P' = P\<lparr>ps_transcript := t, ps_proof := ps_proof P @ u64_be (length payload) @ payload\<rparr>"
    and len: "length payload < 2 ^ 64"
    using assms(2,3) by (auto simp: send_nested_def Let_def split: if_splits)
  then obtain rest where proof_bytes: "vs_proof V = ps_proof P @ u64_be (length payload) @ payload @ rest"
    using assms(5) by (auto elim!: prefixE)
  have "nested_frame V = Inr (payload, length (ps_proof P) + 8 + length payload)"
    unfolding nested_frame_Inr using assms(1,6) len by (simp add: in_sync_def proof_bytes slice_get_def)
  then have "receive_nested consume V
      = (Inr v, V\<lparr>vs_transcript := t, vs_cursor := length (ps_proof P) + 8 + length payload\<rparr>)"
    using assms(1,4) by (simp add: receive_nested_def in_sync_def)
  then show ?thesis by (simp add: in_sync_def P' proof_bytes)
qed

lemma nested_lockstep_witness:
  "receive_nested (\<lambda>t bs. (Inr (length bs), t @ bs))
     \<lparr>vs_transcript = [1], vs_proof = [9] @ u64_be 2 @ [5, 6], vs_cursor = 1\<rparr>
   = (Inr 2, \<lparr>vs_transcript = [1, 5, 6], vs_proof = [9] @ u64_be 2 @ [5, 6], vs_cursor = 11\<rparr>)"
proof -
  let ?P = "\<lparr>ps_transcript = [1 :: byte], ps_proof = [9]\<rparr>"
  let ?P' = "\<lparr>ps_transcript = [1 :: byte, 5, 6], ps_proof = [9] @ u64_be 2 @ [5, 6]\<rparr>"
  let ?V = "\<lparr>vs_transcript = [1 :: byte], vs_proof = [9] @ u64_be 2 @ [5, 6], vs_cursor = 1\<rparr>"
  have "\<exists>V'. receive_nested (\<lambda>t bs. (Inr (length bs), t @ bs)) ?V = (Inr 2, V') \<and> in_sync ?P' V' \<and> vs_proof V' = vs_proof ?V"
    by (rule nested_lockstep[where build = "\<lambda>t. (Inr [5, 6], t @ [5, 6])" and P = ?P and payload = "[5, 6]"])
      (simp_all add: in_sync_def send_nested_def, simp add: numeral_2_eq_2)
  then show ?thesis by (auto simp: in_sync_def)
qed

text \<open>
  A failing nested protocol leaves no trace: whatever the child did to the shared transcript, and
  whatever the reason of the failure (the child, a missing or truncated frame, an oversized payload),
  the stream that reports the error is the stream before the call.
\<close>

theorem nested_failure_restores:
  "(send_nested build P = (Inl e, P') \<longrightarrow> P' = P) \<and> (receive_nested consume V = (Inl e', V') \<longrightarrow> V' = V)"
  by (auto simp: send_nested_def receive_nested_def Let_def split: prod.splits sum.splits if_splits)

lemma nested_failure_restores_witness:
  "snd (send_nested (\<lambda>t. (Inl InvalidEncoding, 0 :: nat)) \<lparr>ps_transcript = 7, ps_proof = [1]\<rparr>)
    = \<lparr>ps_transcript = 7, ps_proof = [1]\<rparr>"
  using nested_failure_restores[of "\<lambda>t. (Inl InvalidEncoding, 0 :: nat)" "\<lparr>ps_transcript = 7, ps_proof = [1]\<rparr>" InvalidEncoding]
  by (simp add: send_nested_def)

end
