(* ===== verification/Transcript.thy ===== *)
theory Transcript
  imports Golden_Group
begin

text \<open>
  \<open>golden-core/src/transcript.rs\<close>: the SHA-256 transcript builder. The hasher's state is the byte
  string absorbed so far, and \<open>root\<close> is its digest. Everything appended after the header is a
  frame (label and payload, both preceded by their lengths); \<open>frames\<close> is the byte string of a list
  of frames and \<open>frames_inject\<close> shows that it determines the list, which is what the binding
  properties of the protocol's roots rest on.
\<close>

type_synonym transcript_root = bytes

record transcript_builder =
  hasher :: bytes

definition tb_with_prefix :: "bytes \<Rightarrow> bytes \<Rightarrow> transcript_builder" where
  "tb_with_prefix prefix label = \<lparr>hasher = prefix @ u64_be (length label) @ label\<rparr>"

definition tb_new :: "bytes \<Rightarrow> transcript_builder" where
  "tb_new label = tb_with_prefix (ascii ''golden-core-v1'') label"

definition tb_bytes :: "bytes \<Rightarrow> bytes \<Rightarrow> transcript_builder \<Rightarrow> transcript_builder" where
  "tb_bytes label bs t =
     t\<lparr>hasher := hasher t @ u64_be (length label) @ label @ u64_be (length bs) @ bs\<rparr>"

definition tb_u32 :: "bytes \<Rightarrow> u32 \<Rightarrow> transcript_builder \<Rightarrow> transcript_builder" where
  "tb_u32 label w t = tb_bytes label (u32_be w) t"

definition tb_usize :: "bytes \<Rightarrow> usize \<Rightarrow> transcript_builder \<Rightarrow> transcript_builder" where
  "tb_usize label n t = tb_bytes label (u64_be n) t"

definition tb_participant :: "bytes \<Rightarrow> participant_index \<Rightarrow> transcript_builder \<Rightarrow> transcript_builder" where
  "tb_participant label p t = tb_u32 label (index_get p) t"

definition tb_scalar ::
  "('s, 'e, 'z) golden_group_scheme \<Rightarrow> bytes \<Rightarrow> 's \<Rightarrow> transcript_builder \<Rightarrow> transcript_builder" where
  "tb_scalar G label s t = tb_bytes label (scalar_to_repr G s) t"

definition tb_element ::
  "('s, 'e, 'z) golden_group_scheme \<Rightarrow> bytes \<Rightarrow> 'e \<Rightarrow> transcript_builder \<Rightarrow> transcript_builder" where
  "tb_element G label p t = tb_bytes label (encode_element G p) t"

definition tb_root :: "('s, 'e, 'z) golden_group_scheme \<Rightarrow> transcript_builder \<Rightarrow> transcript_root" where
  "tb_root G t = sha256 G (hasher t)"

section \<open>Frames\<close>

definition frame :: "bytes \<times> bytes \<Rightarrow> bytes" where
  "frame it = u64_be (length (fst it)) @ fst it @ u64_be (length (snd it)) @ snd it"

definition frames :: "(bytes \<times> bytes) list \<Rightarrow> bytes" where
  "frames its = concat (map frame its)"

definition short_frame :: "bytes \<times> bytes \<Rightarrow> bool" where
  "short_frame it \<longleftrightarrow> length (fst it) < 2 ^ 64 \<and> length (snd it) < 2 ^ 64"

lemma frames_simps [simp]:
  "frames [] = []" "frames (it # its) = frame it @ frames its" "frames (xs @ ys) = frames xs @ frames ys"
  by (simp_all add: frames_def)

lemma length_prefixed_inject:
  assumes "length a < 2 ^ 64" and "length b < 2 ^ 64"
  shows "u64_be (length a) @ a @ r = u64_be (length b) @ b @ s \<longleftrightarrow> a = b \<and> r = s"
  using be_bytes_inj[of 8 "length a" "length b"] assms by auto

lemma frame_append_inject:
  "short_frame x \<Longrightarrow> short_frame y \<Longrightarrow> frame x @ r = frame y @ s \<longleftrightarrow> x = y \<and> r = s"
  unfolding short_frame_def frame_def append_assoc prod_eq_iff
  by (simp only: length_prefixed_inject conj_assoc)

lemma frame_nonempty: "frame it @ r \<noteq> []"
  using length_be_bytes[of 8 "length (fst it)"] by (auto simp: frame_def simp del: length_be_bytes)

lemma frames_inject:
  "list_all short_frame xs \<Longrightarrow> list_all short_frame ys \<Longrightarrow> frames xs = frames ys \<longleftrightarrow> xs = ys"
proof (induction xs arbitrary: ys)
  case Nil
  then show ?case using frame_nonempty by (cases ys) (auto dest: sym)
next
  case (Cons x xs)
  then show ?case
    using frame_nonempty by (cases ys) (auto simp: frame_append_inject)
qed

text \<open>Every builder operation appends one frame: a transcript is its header followed by frames.\<close>

definition tb_append :: "(bytes \<times> bytes) list \<Rightarrow> transcript_builder \<Rightarrow> transcript_builder" where
  "tb_append its t = t\<lparr>hasher := hasher t @ frames its\<rparr>"

definition item_u32 :: "bytes \<Rightarrow> u32 \<Rightarrow> bytes \<times> bytes" where
  "item_u32 l w = (l, u32_be w)"

definition item_usize :: "bytes \<Rightarrow> usize \<Rightarrow> bytes \<times> bytes" where
  "item_usize l n = (l, u64_be n)"

lemma tb_ops_append [transcript_simps]:
  "tb_bytes l bs t = tb_append [(l, bs)] t"
  "tb_u32 l w t = tb_append [item_u32 l w] t"
  "tb_usize l n t = tb_append [item_usize l n] t"
  "tb_participant l p t = tb_append [item_u32 l (index_get p)] t"
  "tb_scalar G l s t = tb_append [(l, scalar_to_repr G s)] t"
  "tb_element G l e t = tb_append [(l, encode_element G e)] t"
  by (simp_all add: tb_bytes_def tb_u32_def tb_usize_def tb_participant_def tb_scalar_def
      tb_element_def tb_append_def frame_def item_u32_def item_usize_def)

lemma tb_append_append [transcript_simps]: "tb_append ys (tb_append xs t) = tb_append (xs @ ys) t"
  by (simp add: tb_append_def)

lemma tb_append_fold:
  "(\<And>x t. f x t = tb_append (g x) t) \<Longrightarrow> fold f xs t = tb_append (concat (map g xs)) t"
proof (induction xs arbitrary: t)
  case Nil
  show ?case by (simp add: tb_append_def)
qed (simp add: transcript_simps)

lemma list_all_concat [simp]: "list_all P (concat xss) \<longleftrightarrow> (\<forall>xs \<in> set xss. list_all P xs)"
  by (induction xss) auto

text \<open>Two transcripts with the same header absorb the same bytes iff their frames agree.\<close>

lemma tb_append_inject:
  assumes "list_all short_frame xs" and "list_all short_frame ys"
  shows "hasher (tb_append xs t) = hasher (tb_append ys t) \<longleftrightarrow> xs = ys"
  using frames_inject[OF assms] by (simp add: tb_append_def)

lemma item_u32_inject [simp]: "item_u32 l v = item_u32 l w \<longleftrightarrow> v = w"
  by (simp add: item_u32_def)

lemma item_usize_inject: "m < 2 ^ 64 \<Longrightarrow> n < 2 ^ 64 \<Longrightarrow> item_usize l m = item_usize l n \<longleftrightarrow> m = n"
  using be_bytes_inj[of 8 m n] by (auto simp: item_usize_def)

lemma short_frame_simps [simp]:
  "short_frame (l, b) \<longleftrightarrow> length l < 2 ^ 64 \<and> length b < 2 ^ 64"
  "short_frame (item_u32 l w) \<longleftrightarrow> length l < 2 ^ 64"
  "short_frame (item_usize l n) \<longleftrightarrow> length l < 2 ^ 64"
  by (simp_all add: short_frame_def item_u32_def item_usize_def)

context golden_codec begin

lemma codec_frames [simp]:
  "length (scalar_to_repr G s) < 18446744073709551616"
  "length (encode_element G p) < 18446744073709551616"
  "length (sha256 G x) < 18446744073709551616"
  "length (backend_id G) < 18446744073709551616"
  using repr_sizes backend_id_short by (simp_all add: scalar_length element_length sha256_length)

end

end
