(* ===== verification/Identity_Key.thy ===== *)
theory Identity_Key
  imports Transcript Tiny_Backend
begin

text \<open>
  \<open>golden-core/src/identity_key.rs\<close>: the Schnorr proof of knowledge of an identity secret, with a
  nonce and a challenge derived by hashing a transcript.
\<close>

record ('s, 'e) identity_key_proof =
  nonce_point :: 'e
  response :: 's

definition nonce_transcript :: "('s, 'e, 'z) golden_group_scheme \<Rightarrow> 's \<Rightarrow> transcript_builder" where
  "nonce_transcript G identity_secret =
     tb_scalar G (ascii ''identity-secret'') identity_secret
    (tb_bytes (ascii ''backend'') (backend_id G)
    (tb_new (ascii ''identity-key-proof-nonce'')))"

definition proof_nonce :: "('s::field, 'e, 'z) golden_group_scheme \<Rightarrow> 's \<Rightarrow> 's result" where
  "proof_nonce G identity_secret =
     hash_to_scalar G (ascii ''golden-identity-key-proof-nonce-v1'') (tb_root G (nonce_transcript G identity_secret))"

definition challenge_transcript :: "('s, 'e, 'z) golden_group_scheme \<Rightarrow> 'e \<Rightarrow> 'e \<Rightarrow> transcript_builder" where
  "challenge_transcript G pk npoint =
     tb_element G (ascii ''nonce-point'') npoint
    (tb_element G (ascii ''public-key'') pk
    (tb_bytes (ascii ''backend'') (backend_id G)
    (tb_new (ascii ''identity-key-proof''))))"

definition proof_challenge :: "('s::field, 'e, 'z) golden_group_scheme \<Rightarrow> 'e \<Rightarrow> 'e \<Rightarrow> 's result" where
  "proof_challenge G pk npoint =
     hash_to_scalar G (ascii ''golden-identity-key-proof-v1'') (tb_root G (challenge_transcript G pk npoint))"

definition identity_prove ::
  "('s::field, 'e, 'z) golden_group_scheme \<Rightarrow> 's \<Rightarrow> ('s, 'e) identity_key_proof result" where
  "identity_prove G identity_secret =
     (let public_key = mul_generator G identity_secret
      in rbind (proof_nonce G identity_secret) (\<lambda>nonce.
         let npoint = mul_generator G nonce
         in rbind (proof_challenge G public_key npoint) (\<lambda>challenge.
            Inr \<lparr>nonce_point = npoint, response = nonce + challenge * identity_secret\<rparr>)))"

definition identity_verify ::
  "('s::field, 'e::ab_group_add, 'z) golden_group_scheme \<Rightarrow> ('s, 'e) identity_key_proof \<Rightarrow> 'e \<Rightarrow> unit result" where
  "identity_verify G pr pk =
     (if is_identity (nonce_point pr) then Inl ProofVerificationFailed
      else rbind (proof_challenge G pk (nonce_point pr)) (\<lambda>challenge.
           let expected = nonce_point pr + group_mul G pk challenge
           in if mul_generator G (response pr) = expected then Inr () else Inl ProofVerificationFailed))"

section \<open>Lemmas\<close>

text \<open>For a key \<open>g ^ x\<close> and a nonce point \<open>g ^ k\<close>, the only accepted response is \<open>k + c * x\<close>.\<close>

context prime_group begin

lemma identity_verify_opened:
  assumes "proof_challenge G (mul_generator G x) (mul_generator G k) = Inr c"
  shows "identity_verify G \<lparr>nonce_point = mul_generator G k, response = z\<rparr> (mul_generator G x) = Inr ()
    \<longleftrightarrow> k \<noteq> 0 \<and> z = k + c * x"
proof -
  have "mul_generator G k + group_mul G (mul_generator G x) c = mul_generator G (k + c * x)"
    by (simp add: mul_generator_mul mul_generator_add mult.commute)
  then show ?thesis
    using assms by (simp add: identity_verify_def is_identity_def Let_def)
qed

end

lemma identity_prove_Inr:
  "identity_prove G x = Inr pr \<longleftrightarrow>
    (\<exists>k c. proof_nonce G x = Inr k \<and> proof_challenge G (mul_generator G x) (mul_generator G k) = Inr c
      \<and> pr = \<lparr>nonce_point = mul_generator G k, response = k + c * x\<rparr>)"
  by (auto simp: identity_prove_def Let_def)

section \<open>Properties\<close>

text \<open>
  Completeness: a proof made by \<open>prove\<close> is accepted for the public key of its secret; the
  nonce is never zero, so the identity check of \<open>verify\<close> cannot reject it.
\<close>

theorem identity_proof_complete:
  assumes "prime_group G" and "identity_prove G secret = Inr pr"
  shows "identity_verify G pr (mul_generator G secret) = Inr ()"
proof -
  obtain k c where k: "proof_nonce G secret = Inr k"
    and c: "proof_challenge G (mul_generator G secret) (mul_generator G k) = Inr c"
    and pr: "pr = \<lparr>nonce_point = mul_generator G k, response = k + c * secret\<rparr>"
    using assms(2) by (auto simp: identity_prove_Inr)
  have "k \<noteq> 0" using k hash_to_scalar_nonzero by (auto simp: proof_nonce_def)
  then show ?thesis
    using prime_group.identity_verify_opened[OF assms(1) c] pr by simp
qed

lemma tiny_nonce [simp]: "proof_nonce tiny_group x = Inr 1"
  and tiny_challenge [simp]: "proof_challenge tiny_group x y = Inr 1"
  by (simp_all add: proof_nonce_def proof_challenge_def)

lemma identity_proof_complete_witness:
  "identity_verify tiny_group \<lparr>nonce_point = 1, response = 6\<rparr> (5 :: tiny) = Inr ()"
proof -
  have "identity_prove tiny_group 5 = Inr \<lparr>nonce_point = 1, response = 6\<rparr>"
    by (simp add: identity_prove_Inr)
  then show ?thesis
    using identity_proof_complete[OF tiny.prime_group_axioms, of 5] by simp
qed

text \<open>
  Extraction: two accepted proofs for one key that share the nonce point but were given
  different challenges (a rewound prover) yield the secret of the key.
\<close>

theorem identity_proof_extracts:
  assumes "prime_group G" and "identity_verify G \<lparr>nonce_point = r, response = z\<rparr> pk = Inr ()"
    and "identity_verify (G\<lparr>sha256 := h\<rparr>) \<lparr>nonce_point = r, response = z'\<rparr> pk = Inr ()"
    and "proof_challenge G pk r = Inr c" and "proof_challenge (G\<lparr>sha256 := h\<rparr>) pk r = Inr c'"
    and "c \<noteq> c'"
  shows "pk = mul_generator G ((z - z') / (c - c'))"
proof -
  have "mul_generator G z = r + group_mul G pk c" and "mul_generator G z' = r + group_mul G pk c'"
    using assms by (auto simp: identity_verify_def Let_def mul_generator_def split: if_splits)
  then have "mul_generator G (z - z') = group_mul G pk (c - c')"
    by (simp add: prime_group.mul_generator_diff[OF assms(1)] prime_group.mul_diff_scalar[OF assms(1)])
  moreover obtain x where pk: "pk = mul_generator G x"
    using prime_group.mul_generatorE[OF assms(1)] by blast
  ultimately have "z - z' = x * (c - c')"
    by (simp add: prime_group.mul_generator_mul[OF assms(1)] prime_group.mul_generator_inject[OF assms(1)])
  with assms(6) pk show ?thesis by simp
qed

lemma tiny_other_challenge:
  "proof_challenge (tiny_group\<lparr>sha256 := \<lambda>_. replicate 32 2\<rparr>) x y = Inr 2"
  unfolding proof_challenge_def
proof (rule hash_to_scalar_first)
  let ?H = "tiny_group\<lparr>sha256 := \<lambda>_. replicate 32 2\<rparr>"
  have "hash_blocks 1 ?H seed 0 [] = replicate 32 2" for seed
    unfolding One_nat_def by simp
  then show "repr_try_from (repr_bytes ?H) (hash_candidate ?H d m 0) = Inr [2]" for d m
    by (simp add: hash_candidate_def Let_def repr_try_from_def take_replicate)
  show "scalar_from_repr ?H [2] = Inr 2"
    by (simp add: tiny_from_repr_def tiny_literals)
  show "(2 :: tiny) \<noteq> 0" by (simp add: tiny_eval)
qed

lemma identity_proof_extracts_witness:
  "(5 :: tiny) = mul_generator tiny_group ((6 - 11) / (1 - 2))"
proof (rule identity_proof_extracts[OF tiny.prime_group_axioms])
  let ?H = "tiny_group\<lparr>sha256 := \<lambda>_. replicate 32 2\<rparr>"
  show "proof_challenge tiny_group 5 1 = Inr 1" by simp
  show "proof_challenge ?H 5 1 = Inr 2" by (rule tiny_other_challenge)
  show "identity_verify tiny_group \<lparr>nonce_point = 1, response = 6\<rparr> 5 = Inr ()"
    by (simp add: identity_verify_def is_identity_def Let_def tiny_eval)
  show "identity_verify ?H \<lparr>nonce_point = 1, response = 11\<rparr> 5 = Inr ()"
    by (simp add: identity_verify_def is_identity_def Let_def tiny_other_challenge mul_generator_def tiny_eval)
  show "(1 :: tiny) \<noteq> 2" by (simp add: tiny_eval)
qed

end
