(* ===== verification/Registry.thy ===== *)
theory Registry
  imports Identity_Key
begin

text \<open>
  \<open>golden-core/src/dkg.rs\<close>, first part: session identifiers, the participant registry with its
  checks on identity keys, and the DKG configuration. \<open>registry_new_ok_iff\<close> states exactly which
  entry lists are accepted, \<open>registry_new_wf\<close> what an accepted registry holds.
\<close>

definition PROTOCOL_VERSION :: u32 where
  "PROTOCOL_VERSION = 2"

definition DEALER_MESSAGE_NONCE_BYTES :: usize where
  "DEALER_MESSAGE_NONCE_BYTES = 32"

datatype session_id = SessionId (session_bytes: bytes)

datatype dealer_message_nonce = DealerMessageNonce (nonce_bytes: bytes)

type_synonym ('s, 'e) registry_map = "(participant_index, 'e \<times> ('s, 'e) identity_key_proof) btree_map"

record ('s, 'e) participant_registry =
  registry_participants :: "('s, 'e) registry_map"
  registry_root_value :: transcript_root

definition registry_transcript ::
  "('s, 'e, 'z) golden_group_scheme \<Rightarrow> ('s, 'e) registry_map \<Rightarrow> transcript_builder" where
  "registry_transcript G participants =
     fold (\<lambda>(participant, pk, _) t.
             tb_element G (ascii ''public-key'') pk (tb_participant (ascii ''participant'') participant t))
       participants
       (tb_usize (ascii ''len'') (length participants)
         (tb_bytes (ascii ''backend'') (backend_id G) (tb_new (ascii ''registry''))))"

definition registry_root ::
  "('s, 'e, 'z) golden_group_scheme \<Rightarrow> ('s, 'e) registry_map \<Rightarrow> transcript_root" where
  "registry_root G participants = tb_root G (registry_transcript G participants)"

text \<open>One iteration of the loop of \<open>ParticipantRegistry::new\<close>.\<close>

definition registry_step ::
  "('s::field, 'e::ab_group_add, 'z) golden_group_scheme
    \<Rightarrow> ('s, 'e) registry_map \<times> (bytes \<times> participant_index) list
    \<Rightarrow> participant_index \<times> 'e \<times> ('s, 'e) identity_key_proof
    \<Rightarrow> (('s, 'e) registry_map \<times> (bytes \<times> participant_index) list) result" where
  "registry_step G = (\<lambda>(participants, public_keys) (participant, pk, pr).
     if bt_contains_key participants participant
     then Inl (DuplicateParticipantIndex (index_get participant))
     else if is_identity pk then Inl InvalidEncoding
     else
       let encoded = encode_element G pk in
       case find (\<lambda>(known, _). known = encoded) public_keys of
         Some (_, first) \<Rightarrow>
           Inl (DuplicateParticipantPublicKey (index_get first) (index_get participant))
       | None \<Rightarrow>
         let negated = encode_element G (0 - pk) in
         case find (\<lambda>(known, _). known = negated) public_keys of
           Some (_, first) \<Rightarrow>
             Inl (NegatedParticipantPublicKey (index_get first) (index_get participant))
         | None \<Rightarrow>
             rbind (map_err (\<lambda>_. InvalidIdentityKeyProof (index_get participant))
                      (identity_verify G pr pk)) (\<lambda>_.
               Inr (bt_insert participant (pk, pr) participants, public_keys @ [(encoded, participant)])))"

definition registry_new ::
  "('s::field, 'e::ab_group_add, 'z) golden_group_scheme
    \<Rightarrow> (participant_index \<times> 'e \<times> ('s, 'e) identity_key_proof) list
    \<Rightarrow> ('s, 'e) participant_registry result" where
  "registry_new G entries =
     rbind (rfold (registry_step G) (bt_empty, []) entries) (\<lambda>(participants, _).
       let root = registry_root G participants
       in Inr \<lparr>registry_participants = participants, registry_root_value = root\<rparr>)"

definition registry_len :: "('s, 'e) participant_registry \<Rightarrow> usize" where
  "registry_len reg = length (registry_participants reg)"

definition registry_is_empty :: "('s, 'e) participant_registry \<Rightarrow> bool" where
  "registry_is_empty reg \<longleftrightarrow> registry_participants reg = []"

definition registry_public_key ::
  "('s, 'e) participant_registry \<Rightarrow> participant_index \<Rightarrow> 'e result" where
  "registry_public_key reg participant =
     ok_or (map_option fst (bt_get (registry_participants reg) participant))
       (UnknownParticipant (index_get participant))"

definition registry_indexes :: "('s, 'e) participant_registry \<Rightarrow> participant_index list" where
  "registry_indexes reg = bt_keys (registry_participants reg)"

definition registry_entries :: "('s, 'e) participant_registry \<Rightarrow> (participant_index \<times> 'e) list" where
  "registry_entries reg = map (\<lambda>(participant, pk, _). (participant, pk)) (registry_participants reg)"

definition registry_entries_with_proofs ::
  "('s, 'e) participant_registry \<Rightarrow> (participant_index \<times> 'e \<times> ('s, 'e) identity_key_proof) list" where
  "registry_entries_with_proofs reg =
     map (\<lambda>(participant, pk, pr). (participant, pk, pr)) (registry_participants reg)"

record ('s, 'e) dkg_config =
  cfg_threshold :: usize
  cfg_session_id :: session_id
  cfg_beta :: 's
  cfg_registry :: "('s, 'e) participant_registry"

definition dkg_config_new ::
  "usize \<Rightarrow> session_id \<Rightarrow> 's \<Rightarrow> ('s, 'e) participant_registry \<Rightarrow> ('s, 'e) dkg_config result" where
  "dkg_config_new threshold session beta registry =
     (if threshold = 0 \<or> registry_len registry < threshold
      then Inl (InvalidThreshold threshold (registry_len registry))
      else Inr \<lparr>cfg_threshold = threshold, cfg_session_id = session, cfg_beta = beta,
                cfg_registry = registry\<rparr>)"

section \<open>What the registry loop accepts\<close>

text \<open>The declarative condition: distinct indexes, no identity, keys pairwise neither equal nor opposite, valid proofs.\<close>

definition entries_ok ::
  "('s::field, 'e::ab_group_add, 'z) golden_group_scheme
    \<Rightarrow> (participant_index \<times> 'e \<times> ('s, 'e) identity_key_proof) list \<Rightarrow> bool" where
  "entries_ok G entries \<longleftrightarrow>
     distinct (map fst entries)
     \<and> sorted_wrt (\<lambda>(_, pk, _) (_, pk', _). pk' \<noteq> pk \<and> pk' \<noteq> - pk) entries
     \<and> (\<forall>(_, pk, pr) \<in> set entries. pk \<noteq> 0 \<and> identity_verify G pr pk = Inr ())"

text \<open>The state of the loop after some accepted entries.\<close>

definition registry_state ::
  "('s, 'e, 'z) golden_group_scheme
    \<Rightarrow> (participant_index \<times> 'e \<times> ('s, 'e) identity_key_proof) list
    \<Rightarrow> ('s, 'e) registry_map \<times> (bytes \<times> participant_index) list" where
  "registry_state G entries =
     (fold (\<lambda>(p, v). bt_insert p v) entries bt_empty,
      map (\<lambda>(p, pk, _). (encode_element G pk, p)) entries)"

lemma find_encoded:
  assumes "golden_codec G"
  shows "find (\<lambda>(known, _). known = encode_element G pk)
      (map (\<lambda>(p, q, _). (encode_element G q, p)) entries) = None
    \<longleftrightarrow> (\<forall>(_, q, _) \<in> set entries. q \<noteq> pk)"
  by (auto simp: find_None_iff golden_codec.encode_element_inject[OF assms] split_beta) 

lemma registry_step_state:
  assumes "golden_codec G" and "distinct (map fst entries)"
  shows "registry_step G (registry_state G entries) (p, pk, pr) = Inr st \<longleftrightarrow>
    p \<notin> fst ` set entries \<and> pk \<noteq> 0 \<and> (\<forall>(_, q, _) \<in> set entries. pk \<noteq> q \<and> pk \<noteq> - q)
    \<and> identity_verify G pr pk = Inr () \<and> st = registry_state G (entries @ [(p, pk, pr)])"
proof -
  have dup: "bt_contains_key (fold (\<lambda>(p, v). bt_insert p v) entries bt_empty) p \<longleftrightarrow> p \<in> fst ` set entries"
    using map_of_eq_None_iff[of entries p] assms(2)
    by (cases "map_of entries p") (simp_all add: bt_contains_key_def bt_fold_insert_get)
  have neg: "(\<forall>(_, q, _) \<in> set entries. q \<noteq> 0 - pk) \<longleftrightarrow> (\<forall>(_, q, _) \<in> set entries. pk \<noteq> - q)"
    by (auto simp: minus_equation_iff)
  have eq: "(\<forall>(_, q, _) \<in> set entries. q \<noteq> pk) \<longleftrightarrow> (\<forall>(_, q, _) \<in> set entries. pk \<noteq> q)"
    by auto
  let ?find = "\<lambda>b. find (\<lambda>(known, _). known = b) (map (\<lambda>(p, q, _). (encode_element G q, p)) entries)"
  have "registry_step G (registry_state G entries) (p, pk, pr) = Inr st \<longleftrightarrow>
      p \<notin> fst ` set entries \<and> pk \<noteq> 0
      \<and> ?find (encode_element G pk) = None \<and> ?find (encode_element G (0 - pk)) = None
      \<and> identity_verify G pr pk = Inr () \<and> st = registry_state G (entries @ [(p, pk, pr)])"
    by (auto simp: registry_step_def registry_state_def dup is_identity_def Let_def
        split: option.splits)
  then show ?thesis
    unfolding find_encoded[OF assms(1)] neg eq by (auto simp: split_beta)
qed

lemma entries_ok_snoc:
  "entries_ok G (entries @ [(p, pk, pr)]) \<longleftrightarrow>
    entries_ok G entries \<and> p \<notin> fst ` set entries \<and> pk \<noteq> 0
    \<and> (\<forall>(_, q, _) \<in> set entries. pk \<noteq> q \<and> pk \<noteq> - q) \<and> identity_verify G pr pk = Inr ()"
  by (auto simp: entries_ok_def sorted_wrt_append split_beta)

lemma registry_loop:
  assumes "golden_codec G"
  shows "rfold (registry_step G) (bt_empty, []) entries = Inr st \<longleftrightarrow>
    entries_ok G entries \<and> st = registry_state G entries"
proof (induction entries arbitrary: st rule: rev_induct)
  case Nil
  show ?case by (auto simp: entries_ok_def registry_state_def)
next
  case (snoc e entries)
  obtain p pk pr where e: "e = (p, pk, pr)" by (cases e)
  show ?case
  proof (cases "entries_ok G entries")
    case True
    then have "rfold (registry_step G) (bt_empty, []) entries = Inr (registry_state G entries)"
      and "distinct (map fst entries)" using snoc by (simp_all add: entries_ok_def)
    with True show ?thesis
      by (auto simp: rfold_append e entries_ok_snoc registry_step_state[OF assms])
  next
    case False
    then have "rfold (registry_step G) (bt_empty, []) entries \<noteq> Inr st'" for st'
      using snoc by blast
    with False show ?thesis by (simp add: rfold_append e entries_ok_snoc)
  qed
qed

lemma registry_new_Inr:
  assumes "golden_codec G"
  shows "registry_new G entries = Inr reg \<longleftrightarrow>
    entries_ok G entries
    \<and> reg = (let m = fold (\<lambda>(p, v). bt_insert p v) entries bt_empty
             in \<lparr>registry_participants = m, registry_root_value = registry_root G m\<rparr>)"
  by (auto simp: registry_new_def registry_loop[OF assms] registry_state_def Let_def)

section \<open>The root binds the registered keys\<close>

definition registry_items ::
  "('s, 'e, 'z) golden_group_scheme \<Rightarrow> ('s, 'e) registry_map \<Rightarrow> (bytes \<times> bytes) list" where
  "registry_items G m =
     (ascii ''backend'', backend_id G) # item_usize (ascii ''len'') (length m)
     # concat (map (\<lambda>(p, pk, _). [item_u32 (ascii ''participant'') (index_get p),
                                    (ascii ''public-key'', encode_element G pk)]) m)"

lemma registry_transcript_items:
  "registry_transcript G m = tb_append (registry_items G m) (tb_new (ascii ''registry''))"
proof -
  let ?f = "\<lambda>(participant, pk, _) t.
    tb_element G (ascii ''public-key'') pk (tb_participant (ascii ''participant'') participant t)"
  have "fold ?f m t = tb_append (concat (map (\<lambda>(p, pk, _).
      [item_u32 (ascii ''participant'') (index_get p), (ascii ''public-key'', encode_element G pk)]) m)) t" for t
    by (rule tb_append_fold) (auto simp: transcript_simps split_beta)
  then show ?thesis
    by (simp add: registry_transcript_def registry_items_def transcript_simps)
qed

lemma registry_items_short:
  "golden_codec G \<Longrightarrow> list_all short_frame (registry_items G m)"
  by (auto simp: registry_items_def golden_codec.codec_frames)

lemma registry_items_inject:
  assumes "golden_codec G"
  shows "concat (map (\<lambda>(p, pk, _). [item_u32 l (index_get p), (l', encode_element G pk)]) m)
      = concat (map (\<lambda>(p, pk, _). [item_u32 l (index_get p), (l', encode_element G pk)]) m')
    \<longleftrightarrow> map (\<lambda>(p, pk, _). (p, pk)) m = map (\<lambda>(p, pk, _). (p, pk)) m'"
proof (induction m arbitrary: m')
  case Nil
  show ?case by (cases m') auto
next
  case (Cons e m)
  then show ?case
    by (cases m') (auto simp: split_beta golden_codec.encode_element_inject[OF assms])
qed

section \<open>Properties\<close>

text \<open>
  \<open>ParticipantRegistry::new\<close> accepts exactly the entry lists with distinct indexes, no identity
  key, no key equal or opposite to an earlier one, and a valid proof of knowledge for each key.
\<close>

theorem registry_new_ok_iff:
  assumes "golden_codec G"
  shows "is_ok (registry_new G entries) \<longleftrightarrow>
    distinct (map fst entries)
    \<and> sorted_wrt (\<lambda>(_, pk, _) (_, pk', _). pk' \<noteq> pk \<and> pk' \<noteq> - pk) entries
    \<and> (\<forall>(_, pk, pr) \<in> set entries. pk \<noteq> 0 \<and> identity_verify G pr pk = Inr ())"
  by (simp add: is_ok_iff registry_new_Inr[OF assms] entries_ok_def)

lemma tiny_identity_verify:
  "identity_verify tiny_group pr pk = (if nonce_point pr = 0 then Inl ProofVerificationFailed
     else if response pr = nonce_point pr + pk then Inr () else Inl ProofVerificationFailed)"
  by (simp add: identity_verify_def is_identity_def Let_def)

lemma registry_new_ok_iff_witness:
  "\<not> is_ok (registry_new tiny_group
      [(ParticipantIndex 1, 5, \<lparr>nonce_point = 1, response = 6\<rparr>),
       (ParticipantIndex 2, 92, \<lparr>nonce_point = 1, response = 93\<rparr>)])"
  by (subst registry_new_ok_iff[OF tiny.golden_codec_axioms]) (simp add: tiny_eval)

text \<open>
  An accepted registry iterates over its participants in strictly increasing order, looks up
  exactly the given keys, holds no two equal or opposite keys, and stores the root of its map.
\<close>

theorem registry_new_wf:
  assumes "golden_codec G" and "registry_new G entries = Inr reg"
  shows "sorted_wrt (<) (registry_indexes reg)
    \<and> (\<forall>p pk. registry_public_key reg p = Inr pk \<longleftrightarrow> (\<exists>pr. (p, pk, pr) \<in> set entries))
    \<and> (\<forall>p pk q. registry_public_key reg p = Inr pk \<and> (registry_public_key reg q = Inr pk
         \<or> registry_public_key reg q = Inr (- pk)) \<longrightarrow> p = q)
    \<and> registry_root_value reg = registry_root G (registry_participants reg)"
proof -
  let ?m = "fold (\<lambda>(p, v). bt_insert p v) entries bt_empty"
  have ok: "entries_ok G entries" and reg: "registry_participants reg = ?m"
      "registry_root_value reg = registry_root G ?m"
    using assms by (auto simp: registry_new_Inr Let_def)
  have srt: "sorted_wrt (<) (registry_indexes reg)"
    using bt_fold_insert_sorted[OF bt_sorted_empty(1), of entries] reg by (simp add: registry_indexes_def bt_sorted_def)
  have get: "registry_public_key reg p = Inr pk \<longleftrightarrow> (\<exists>pr. (p, pk, pr) \<in> set entries)" for p pk
  proof -
    have d: "distinct (map fst entries)" using ok by (simp add: entries_ok_def)
    have "registry_public_key reg p = Inr pk \<longleftrightarrow> (\<exists>pr. map_of entries p = Some (pk, pr))"
      using d by (auto simp: registry_public_key_def reg bt_fold_insert_get split: option.splits
          simp del: map_of_eq_Some_iff Some_eq_map_of_iff)
    with d show ?thesis by simp
  qed
  have inj: "p = q" if mem: "(p, pk, pr) \<in> set entries" "(q, pk', pr') \<in> set entries"
    and eq: "pk' = pk \<or> pk' = - pk" for p q pk pk' pr pr'
  proof -
    obtain i j where ij: "i < length entries" "entries ! i = (p, pk, pr)"
        "j < length entries" "entries ! j = (q, pk', pr')"
      using mem by (meson in_set_conv_nth)
    have "sorted_wrt (\<lambda>(_, pk, _) (_, pk', _). pk' \<noteq> pk \<and> pk' \<noteq> - pk) entries"
      using ok by (simp add: entries_ok_def)
    then have "\<not> i < j" and "\<not> j < i"
      using ij eq by (fastforce simp: sorted_wrt_iff_nth_less)+
    then show ?thesis using ij by simp
  qed
  have "\<forall>p pk q. registry_public_key reg p = Inr pk \<and> (registry_public_key reg q = Inr pk
      \<or> registry_public_key reg q = Inr (- pk)) \<longrightarrow> p = q"
    unfolding get using inj by blast
  then show ?thesis using srt get reg by simp
qed

lemma registry_new_wf_witness:
  "registry_indexes \<lparr>registry_participants = [(ParticipantIndex 1, 5 :: tiny, \<lparr>nonce_point = 1, response = 6 :: tiny\<rparr>),
       (ParticipantIndex 2, 7, \<lparr>nonce_point = 1, response = 8\<rparr>)], registry_root_value = replicate 32 1\<rparr>
    = [ParticipantIndex 1, ParticipantIndex 2]
   \<and> sorted_wrt (<) [ParticipantIndex 1, ParticipantIndex 2]"
proof -
  let ?reg = "\<lparr>registry_participants = [(ParticipantIndex 1, 5 :: tiny, \<lparr>nonce_point = 1, response = 6 :: tiny\<rparr>),
       (ParticipantIndex 2, 7, \<lparr>nonce_point = 1, response = 8\<rparr>)], registry_root_value = replicate 32 1\<rparr>"
  have "registry_new tiny_group
      [(ParticipantIndex 2, 7, \<lparr>nonce_point = 1, response = 8\<rparr>),
       (ParticipantIndex 1, 5, \<lparr>nonce_point = 1, response = 6\<rparr>)] = Inr ?reg"
    unfolding registry_new_Inr[OF tiny.golden_codec_axioms]
    by (simp add: entries_ok_def tiny_identity_verify tiny_eval bt_empty_def
        less_participant_index_def registry_root_def tb_root_def tiny_hash_def)
  from registry_new_wf[OF tiny.golden_codec_axioms this] show ?thesis
    by (simp add: registry_indexes_def bt_keys_def)
qed

text \<open>
  Two registries feed the same bytes to the root's hash exactly when they register the same
  keys for the same participants: distinct registries have distinct roots unless SHA-256 collides
  on these two inputs. The proofs are not bound.
\<close>

theorem registry_root_binds:
  assumes "golden_codec G" and "length m < 2 ^ 64" and "length m' < 2 ^ 64"
  shows "hasher (registry_transcript G m) = hasher (registry_transcript G m') \<longleftrightarrow>
    map (\<lambda>(p, pk, _). (p, pk)) m = map (\<lambda>(p, pk, _). (p, pk)) m'"
proof -
  have "length m = length m'" if "map (\<lambda>(p, pk, _). (p, pk)) m = map (\<lambda>(p, pk, _). (p, pk)) m'"
    using that by (metis length_map)
  moreover have "hasher (registry_transcript G m) = hasher (registry_transcript G m')
      \<longleftrightarrow> registry_items G m = registry_items G m'"
    unfolding registry_transcript_items by (intro tb_append_inject registry_items_short assms(1))
  ultimately show ?thesis
    using assms by (auto simp: registry_items_def registry_items_inject item_usize_inject)
qed

lemma registry_root_binds_witness:
  "hasher (registry_transcript tiny_group [(ParticipantIndex 1, 5, \<lparr>nonce_point = 1, response = 6\<rparr>)])
    \<noteq> hasher (registry_transcript tiny_group [(ParticipantIndex 1, 7, \<lparr>nonce_point = 1, response = 8\<rparr>)])"
  by (subst registry_root_binds[OF tiny.golden_codec_axioms]) (simp_all add: tiny_eval)

end
