(* ===== verification/Polynomial_Functions.thy ===== *)
theory Polynomial_Functions
  imports Main
begin

text \<open>
  Polynomial functions over a field, as needed by secret sharing: \<open>polyfn n f\<close> says that \<open>f\<close> is
  given by at most \<open>n\<close> coefficients (degree below \<open>n\<close>). The theory proves the root bound and
  Lagrange interpolation for lists of distinct points; nothing here is specific to the program.
\<close>

primrec polyfn :: "nat \<Rightarrow> ('a::field \<Rightarrow> 'a) \<Rightarrow> bool" where
  "polyfn 0 f \<longleftrightarrow> (\<forall>x. f x = 0)"
| "polyfn (Suc n) f \<longleftrightarrow> (\<exists>c g. polyfn n g \<and> (\<forall>x. f x = c + x * g x))"

text \<open>The value of a coefficient list, constant term first.\<close>

definition horner :: "'a::field list \<Rightarrow> 'a \<Rightarrow> 'a" where
  "horner cs x = foldr (\<lambda>c r. r * x + c) cs 0"

lemma horner_simps [simp]: "horner [] x = 0" "horner (c # cs) x = horner cs x * x + c"
  by (simp_all add: horner_def)

lemma horner_sum: "horner cs x = (\<Sum>k<length cs. cs ! k * x ^ k)"
proof (induction cs)
  case (Cons c cs)
  have "(\<Sum>k<Suc (length cs). (c # cs) ! k * x ^ k) = c + (\<Sum>k<length cs. cs ! k * x ^ Suc k)"
    by (subst sum.lessThan_Suc_shift) simp
  also have "\<dots> = c + horner cs x * x"
    by (simp add: Cons sum_distrib_left mult_ac)
  finally show ?case by simp
qed simp

lemma polyfn_horner: "polyfn (length cs) (horner cs)"
proof (induction cs)
  case (Cons c cs)
  then show ?case
    by (auto intro!: exI[of _ c] exI[of _ "horner cs"] simp: mult.commute add.commute)
qed simp

lemma polyfn_iff_horner: "polyfn n f \<longleftrightarrow> (\<exists>cs. length cs = n \<and> (\<forall>x. f x = horner cs x))"
proof
  show "polyfn n f \<Longrightarrow> \<exists>cs. length cs = n \<and> (\<forall>x. f x = horner cs x)"
  proof (induction n arbitrary: f)
    case (Suc n)
    then obtain c g where "polyfn n g" and f: "\<forall>x. f x = c + x * g x" by auto
    with Suc.IH obtain cs where "length cs = n" "\<forall>x. g x = horner cs x" by blast
    with f show ?case
      by (intro exI[of _ "c # cs"]) (simp add: mult.commute add.commute)
  qed simp
next
  assume "\<exists>cs. length cs = n \<and> (\<forall>x. f x = horner cs x)"
  then obtain cs where "length cs = n" and "f = horner cs" by auto
  then show "polyfn n f" using polyfn_horner by auto
qed

lemma polyfn_zero: "polyfn n (\<lambda>x. 0)"
  by (induction n) (auto intro!: exI[of _ "0 :: 'a"])

lemma polyfn_Suc: "polyfn n f \<Longrightarrow> polyfn (Suc n) f"
proof (induction n arbitrary: f)
  case 0
  then show ?case by (auto intro!: exI[of _ 0] exI[of _ "\<lambda>x. 0"])
next
  case (Suc n)
  then obtain c g where "polyfn n g" and "\<forall>x. f x = c + x * g x" by auto
  with Suc.IH[of g] show ?case by (metis polyfn.simps(2))
qed

lemma polyfn_mono: "polyfn m f \<Longrightarrow> m \<le> n \<Longrightarrow> polyfn n f"
proof (induction n)
  case (Suc n)
  then show ?case by (cases "m = Suc n") (auto simp del: polyfn.simps intro: polyfn_Suc)
qed auto

lemma polyfn_add: "polyfn n f \<Longrightarrow> polyfn n g \<Longrightarrow> polyfn n (\<lambda>x. f x + g x)"
proof (induction n arbitrary: f g)
  case (Suc n)
  then obtain c f' d g' where "polyfn n f'" "\<forall>x. f x = c + x * f' x"
    and "polyfn n g'" "\<forall>x. g x = d + x * g' x" by auto
  with Suc.IH[of f' g'] show ?case
    by (auto intro!: exI[of _ "c + d"] exI[of _ "\<lambda>x. f' x + g' x"] simp: algebra_simps)
qed simp

lemma polyfn_scale: "polyfn n f \<Longrightarrow> polyfn n (\<lambda>x. a * f x)"
proof (induction n arbitrary: f)
  case (Suc n)
  then obtain c g where "polyfn n g" "\<forall>x. f x = c + x * g x" by auto
  with Suc.IH[of g] show ?case
    by (auto intro!: exI[of _ "a * c"] exI[of _ "\<lambda>x. a * g x"] simp: algebra_simps)
qed simp

lemma polyfn_linear_factor:
  assumes "polyfn n f" shows "polyfn (Suc n) (\<lambda>x. (x - a) * f x)"
proof -
  have "polyfn (Suc n) (\<lambda>x. x * f x)"
    using assms by (auto intro!: exI[of _ 0] exI[of _ f])
  moreover have "polyfn (Suc n) (\<lambda>x. (- a) * f x)"
    by (intro polyfn_Suc polyfn_scale assms)
  ultimately have "polyfn (Suc n) (\<lambda>x. x * f x + (- a) * f x)"
    by (rule polyfn_add)
  then show ?thesis by (simp add: algebra_simps del: polyfn.simps)
qed

lemma polyfn_one: "polyfn (Suc 0) (\<lambda>x. 1)"
  by (auto intro!: exI[of _ 1] exI[of _ "\<lambda>x. 0"])

lemma polyfn_prod: "finite A \<Longrightarrow> polyfn (Suc (card A)) (\<lambda>x. \<Prod>j\<in>A. x - b j)"
proof (induction A rule: finite_induct)
  case empty
  show ?case using polyfn_one by (simp del: polyfn.simps)
next
  case (insert j A)
  then have "polyfn (Suc (Suc (card A))) (\<lambda>x. (x - b j) * (\<Prod>j\<in>A. x - b j))"
    by (intro polyfn_linear_factor)
  with insert show ?case by (simp del: polyfn.simps)
qed

lemma polyfn_sum: "(\<And>i. i \<in> A \<Longrightarrow> polyfn n (f i)) \<Longrightarrow> polyfn n (\<lambda>x. \<Sum>i\<in>A. f i x)"
  by (induction A rule: infinite_finite_induct)
    (auto simp del: polyfn.simps intro: polyfn_zero polyfn_add)

section \<open>Roots\<close>

lemma polyfn_divide:
  "polyfn (Suc n) f \<Longrightarrow> \<exists>g. polyfn n g \<and> (\<forall>x. f x - f a = (x - a) * g x)"
proof (induction n arbitrary: f)
  case 0
  then show ?case by (auto intro!: exI[of _ "\<lambda>x. 0"])
next
  case (Suc n)
  then obtain c h where h: "polyfn (Suc n) h" and f: "\<forall>x. f x = c + x * h x"
    by (metis polyfn.simps(2))
  with Suc.IH obtain k where k: "polyfn n k" and hk: "\<forall>x. h x - h a = (x - a) * k x" by blast
  have "polyfn (Suc n) (\<lambda>x. h x + a * k x)"
    by (intro polyfn_add h polyfn_Suc polyfn_scale k)
  moreover have "f x - f a = (x - a) * (h x + a * k x)" for x
  proof -
    have "f x - f a = (x - a) * h x + a * (h x - h a)" by (simp add: f algebra_simps)
    then show ?thesis by (simp add: hk algebra_simps)
  qed
  ultimately show ?case by blast
qed

lemma polyfn_roots:
  "polyfn n f \<Longrightarrow> distinct xs \<Longrightarrow> n \<le> length xs \<Longrightarrow> (\<forall>x \<in> set xs. f x = 0) \<Longrightarrow> f z = 0"
proof (induction n arbitrary: f xs)
  case (Suc n)
  then obtain a ys where xs: "xs = a # ys" by (cases xs) auto
  with Suc.prems polyfn_divide[of n f a] obtain g
    where g: "polyfn n g" and f: "\<forall>x. f x = (x - a) * g x" by auto
  have "g x = 0" if "x \<in> set ys" for x
    using that Suc.prems xs f by auto
  with Suc.IH[OF g, of ys] Suc.prems xs have "g z = 0" by auto
  with f show ?case by simp
qed simp

lemma polyfn_unique:
  assumes "polyfn n f" and "polyfn n g" and "distinct xs" and "n \<le> length xs"
    and "\<forall>x \<in> set xs. f x = g x"
  shows "f z = g z"
proof -
  have "polyfn n (\<lambda>x. f x + (- 1) * g x)"
    by (intro polyfn_add polyfn_scale assms)
  from polyfn_roots[OF this assms(3,4), of z] assms(5) show ?thesis by simp
qed

section \<open>Lagrange interpolation\<close>

definition lagrange_basis :: "'a::field list \<Rightarrow> nat \<Rightarrow> 'a \<Rightarrow> 'a" where
  "lagrange_basis xs i z = (\<Prod>j\<in>{..<length xs} - {i}. (z - xs ! j) / (xs ! i - xs ! j))"

lemma lagrange_basis_polyfn:
  assumes "i < length xs" shows "polyfn (length xs) (lagrange_basis xs i)"
proof -
  let ?A = "{..<length xs} - {i}"
  have "polyfn (Suc (card ?A)) (\<lambda>x. inverse (\<Prod>j\<in>?A. xs ! i - xs ! j) * (\<Prod>j\<in>?A. x - xs ! j))"
    by (intro polyfn_scale polyfn_prod) simp
  moreover have "Suc (card ?A) = length xs" using assms by simp
  ultimately show ?thesis
    unfolding lagrange_basis_def prod_dividef by (simp add: field_simps)
qed

lemma lagrange_basis_at:
  assumes "distinct xs" and "i < length xs" and "k < length xs"
  shows "lagrange_basis xs i (xs ! k) = (if i = k then 1 else 0)"
proof (cases "i = k")
  case True
  have "(xs ! k - xs ! j) / (xs ! k - xs ! j) = 1" if "j \<in> {..<length xs} - {k}" for j
    using that assms by (auto simp: nth_eq_iff_index_eq)
  with True show ?thesis by (simp add: lagrange_basis_def)
next
  case False
  with assms(3) have "k \<in> {..<length xs} - {i}" by simp
  with False show ?thesis unfolding lagrange_basis_def
    by (auto intro!: bexI[of _ k])
qed

lemma lagrange_values:
  assumes "distinct xs" and "k < length xs"
  shows "(\<Sum>i<length xs. y i * lagrange_basis xs i (xs ! k)) = y k"
proof -
  have "(\<Sum>i<length xs. y i * lagrange_basis xs i (xs ! k))
      = (\<Sum>i<length xs. if i = k then y i else 0)"
    using assms by (intro sum.cong) (auto simp: lagrange_basis_at)
  also have "\<dots> = y k" using assms(2) by simp
  finally show ?thesis .
qed

lemma lagrange_polyfn: "polyfn (length xs) (\<lambda>x. \<Sum>i<length xs. y i * lagrange_basis xs i x)"
  by (intro polyfn_sum polyfn_scale lagrange_basis_polyfn) simp

text \<open>Interpolation through at least as many distinct points as coefficients is exact.\<close>

theorem lagrange_interpolation:
  assumes "distinct xs" and "polyfn n f" and "n \<le> length xs"
  shows "(\<Sum>i<length xs. f (xs ! i) * lagrange_basis xs i z) = f z"
proof (rule polyfn_unique[where xs = xs and n = "length xs" and g = f
      and f = "\<lambda>x. \<Sum>i<length xs. f (xs ! i) * lagrange_basis xs i x"])
  show "\<forall>x \<in> set xs. (\<Sum>i<length xs. f (xs ! i) * lagrange_basis xs i x) = f x"
    using assms(1) by (auto simp: in_set_conv_nth lagrange_values)
qed (use assms in \<open>auto intro: lagrange_polyfn polyfn_mono\<close>)

text \<open>Values prescribed at distinct points are those of some polynomial.\<close>

lemma interpolating_coefficients:
  assumes "distinct xs" and "length ys = length xs"
  shows "\<exists>cs. length cs = length xs \<and> (\<forall>i<length xs. horner cs (xs ! i) = ys ! i)"
proof -
  have "polyfn (length xs) (\<lambda>x. \<Sum>i<length xs. ys ! i * lagrange_basis xs i x)"
    by (rule lagrange_polyfn)
  then obtain cs where cs: "length cs = length xs"
    and eq: "\<forall>x. (\<Sum>i<length xs. ys ! i * lagrange_basis xs i x) = horner cs x"
    unfolding polyfn_iff_horner by blast
  have "horner cs (xs ! k) = ys ! k" if "k < length xs" for k
    using lagrange_values[OF assms(1) that, of "\<lambda>i. ys ! i"] eq by simp
  with cs show ?thesis by blast
qed

end
