(* ===== verification/Shamir.thy ===== *)
theory Shamir
  imports Polynomial_Functions Golden_Group Tiny_Backend
begin

text \<open>
  \<open>golden-core/src/shamir.rs\<close>: Shamir sharing over a generic scalar field. A \<open>Polynomial\<close> is its
  coefficient list, a \<open>Share\<close> a participant with a value. The random generator is a state \<open>'r\<close>
  with the operations of the record \<open>crypto_rng\<close> (crate \<open>rand_core\<close>).
\<close>

record ('s, 'r) crypto_rng =
  next_scalar :: "'r \<Rightarrow> 's \<times> 'r"
  fill_bytes :: "usize \<Rightarrow> 'r \<Rightarrow> bytes \<times> 'r"

record 's share =
  share_participant :: participant_index
  share_value :: 's

record 's polynomial =
  coefficients :: "'s list"

section \<open>Polynomials\<close>

primrec random_scalars :: "('s, 'r) crypto_rng \<Rightarrow> nat \<Rightarrow> 'r \<Rightarrow> 's list \<times> 'r" where
  "random_scalars R 0 r = ([], r)"
| "random_scalars R (Suc n) r =
     (let (s, r1) = next_scalar R r; (ss, r2) = random_scalars R n r1 in (s # ss, r2))"

definition random_with_secret ::
  "'s \<Rightarrow> usize \<Rightarrow> ('s, 'r) crypto_rng \<Rightarrow> 'r \<Rightarrow> ('s polynomial \<times> 'r) result" where
  "random_with_secret secret threshold R r =
     (if threshold = 0 then Inl (InvalidThreshold threshold 0)
      else let (rest, r') = random_scalars R (threshold - 1) r
           in Inr (\<lparr>coefficients = secret # rest\<rparr>, r'))"

definition polynomial_from_coefficients :: "'s list \<Rightarrow> 's polynomial result" where
  "polynomial_from_coefficients cs =
     (if cs = [] then Inl (InvalidThreshold 0 0) else Inr \<lparr>coefficients = cs\<rparr>)"

definition evaluate_at_scalar :: "'s::field polynomial \<Rightarrow> 's \<Rightarrow> 's" where
  "evaluate_at_scalar poly x = fold (\<lambda>coeff result. result * x + coeff) (rev (coefficients poly)) 0"

definition evaluate ::
  "('s::field, 'e, 'z) golden_group_scheme \<Rightarrow> 's polynomial \<Rightarrow> participant_index \<Rightarrow> 's share result" where
  "evaluate G poly participant =
     rbind (to_scalar G participant) (\<lambda>x.
       Inr \<lparr>share_participant = participant, share_value = evaluate_at_scalar poly x\<rparr>)"

definition ensure_unique_participants :: "participant_index list \<Rightarrow> unit result" where
  "ensure_unique_participants participants =
     rbind (rfold (\<lambda>seen p. if index_get p \<in> seen then Inl (DuplicateParticipantIndex (index_get p))
                            else Inr (insert (index_get p) seen)) {} participants) (\<lambda>_. Inr ())"

definition shares ::
  "('s::field, 'e, 'z) golden_group_scheme \<Rightarrow> 's polynomial \<Rightarrow> participant_index list \<Rightarrow> 's share list result" where
  "shares G poly participants =
     rbind (ensure_unique_participants participants) (\<lambda>_. collect (evaluate G poly) participants)"

section \<open>Batch inversion and interpolation\<close>

definition batch_prefix :: "'s::field list \<Rightarrow> 's list \<times> 's" where
  "batch_prefix values = fold (\<lambda>v (prefix, acc). (prefix @ [acc], acc * v)) values ([], 1)"

text \<open>The result is the slice after the call and the returned \<open>Option<()>\<close>.\<close>

definition batch_invert :: "'s::field list \<Rightarrow> 's list \<times> unit option" where
  "batch_invert values =
     (if values = [] then (values, Some ())
      else let (prefix, acc) = batch_prefix values
           in case invert acc of
                None \<Rightarrow> (values, None)
              | Some acc_inv \<Rightarrow>
                  (fst (fold (\<lambda>(v, prefix_product) (out, acc_inv).
                          (acc_inv * prefix_product # out, acc_inv * v))
                        (rev (zip values prefix)) ([], acc_inv)), Some ()))"

text \<open>One round of the outer loop: numerator and denominator of the \<open>i\<close>-th coefficient.\<close>

definition lagrange_terms :: "'s::field list \<Rightarrow> nat \<Rightarrow> 's \<times> 's" where
  "lagrange_terms xs i =
     fold (\<lambda>(j, xj) (numerator, denominator).
        if i = j then (numerator, denominator)
        else (numerator * - xj, denominator * (xs ! i - xj))) (enumerate 0 xs) (1, 1)"

definition lagrange_coefficients_at_zero :: "'s::field list \<Rightarrow> 's list result" where
  "lagrange_coefficients_at_zero xs =
     (let terms = map (lagrange_terms xs) [0..<length xs];
          numerators = map fst terms;
          (denominators, inverted) = batch_invert (map snd terms)
      in rbind (ok_or inverted NonInvertibleDenominator) (\<lambda>_.
           Inr (map (\<lambda>(numerator, inv). numerator * inv) (zip numerators denominators))))"

definition lagrange_interpolate_at_zero ::
  "('s::field, 'e, 'z) golden_group_scheme \<Rightarrow> 's share list \<Rightarrow> 's result" where
  "lagrange_interpolate_at_zero G shs =
     (if shs = [] then Inl (InvalidThreshold 0 0)
      else rbind (ensure_unique_participants (map share_participant shs)) (\<lambda>_.
           rbind (collect (\<lambda>sh. to_scalar G (share_participant sh)) shs) (\<lambda>xs.
           rbind (lagrange_coefficients_at_zero xs) (\<lambda>cs.
             Inr (fold (\<lambda>(sh, c) result. result + share_value sh * c) (zip shs cs) 0)))))"

definition reconstruct_secret ::
  "('s::field, 'e, 'z) golden_group_scheme \<Rightarrow> 's share list \<Rightarrow> usize \<Rightarrow> 's result" where
  "reconstruct_secret G shs threshold =
     (if threshold = 0 \<or> length shs < threshold then Inl (InvalidThreshold threshold (length shs))
      else lagrange_interpolate_at_zero G shs)"

section \<open>Lemmas on polynomials\<close>

lemma random_scalars_length: "random_scalars R n r = (ss, r') \<Longrightarrow> length ss = n"
  by (induction n arbitrary: r ss r') (auto simp: Let_def split: prod.splits)

lemma random_with_secret_coefficients:
  "random_with_secret secret threshold R r = Inr (poly, r') \<Longrightarrow>
    0 < threshold \<and> length (coefficients poly) = threshold \<and> hd (coefficients poly) = secret
    \<and> coefficients poly \<noteq> []"
  by (auto simp: random_with_secret_def dest!: random_scalars_length split: if_splits prod.splits)

lemma evaluate_at_scalar_horner: "evaluate_at_scalar poly x = horner (coefficients poly) x"
  by (simp add: evaluate_at_scalar_def horner_def foldr_conv_fold)

lemma horner_zero: "cs \<noteq> [] \<Longrightarrow> horner cs 0 = hd cs"
  by (cases cs) auto

lemma evaluate_Inr [simp]:
  "evaluate G poly p = Inr sh \<longleftrightarrow>
    (\<exists>x. to_scalar G p = Inr x
       \<and> sh = \<lparr>share_participant = p, share_value = horner (coefficients poly) x\<rparr>)"
  by (auto simp: evaluate_def evaluate_at_scalar_horner)

lemma ensure_unique_loop:
  "is_ok (rfold (\<lambda>seen p. if index_get p \<in> seen then Inl (DuplicateParticipantIndex (index_get p))
      else Inr (insert (index_get p) seen)) S ps)
   \<longleftrightarrow> distinct ps \<and> index_get ` set ps \<inter> S = {}"
proof (induction ps arbitrary: S)
  case (Cons p ps)
  have "p \<in> set ps \<longleftrightarrow> index_get p \<in> index_get ` set ps"
    by auto
  with Cons[of "insert (index_get p) S"] show ?case by auto
qed simp

lemma ensure_unique_participants_ok:
  "ensure_unique_participants ps = Inr () \<longleftrightarrow> distinct ps"
  using ensure_unique_loop[of "{}" ps] by (auto simp: ensure_unique_participants_def is_ok_iff)

text \<open>A rejected list is rejected for an index that occurs twice in it.\<close>

lemma ensure_unique_loop_error:
  "rfold (\<lambda>seen p. if index_get p \<in> seen then Inl (DuplicateParticipantIndex (index_get p))
      else Inr (insert (index_get p) seen)) S ps = Inl e \<Longrightarrow>
    \<exists>ps1 p ps2. ps = ps1 @ p # ps2 \<and> index_get p \<in> index_get ` set ps1 \<union> S
      \<and> e = DuplicateParticipantIndex (index_get p)"
proof (induction ps arbitrary: S)
  case (Cons p ps)
  show ?case
  proof (cases "index_get p \<in> S")
    case True
    with Cons.prems show ?thesis by (intro exI[of _ "[]"]) auto
  next
    case False
    with Cons obtain ps1 q ps2 where "ps = ps1 @ q # ps2"
      and "index_get q \<in> index_get ` set ps1 \<union> insert (index_get p) S"
      and "e = DuplicateParticipantIndex (index_get q)" by force
    then show ?thesis by (intro exI[of _ "p # ps1"]) auto
  qed
qed simp

section \<open>Lemmas on batch inversion\<close>

lemma batch_prefix_loop:
  "fold (\<lambda>v (prefix, acc). (prefix @ [acc], acc * v)) vs (ps, a)
    = (ps @ map (\<lambda>i. a * prod_list (take i vs)) [0..<length vs], a * prod_list vs)"
proof (induction vs arbitrary: ps a)
  case (Cons v vs)
  have "[0..<length (v # vs)] = 0 # map Suc [0..<length vs]"
    by (simp add: upt_conv_Cons map_Suc_upt del: upt_Suc)
  then have "map (\<lambda>i. a * prod_list (take i (v # vs))) [0..<length (v # vs)]
      = a # map (\<lambda>i. a * v * prod_list (take i vs)) [0..<length vs]"
    by (simp only: list.map map_map) (simp add: comp_def mult.assoc)
  with Cons show ?case by (simp add: mult.assoc del: upt_Suc)
qed simp

lemma batch_prefix_eq:
  "batch_prefix vs = (map (\<lambda>i. prod_list (take i vs)) [0..<length vs], prod_list vs)"
  unfolding batch_prefix_def batch_prefix_loop by simp

lemma prod_list_eq_0: "prod_list vs = (0 :: 's::field) \<longleftrightarrow> 0 \<in> set vs"
  by (induction vs) auto

text \<open>The backward loop, on the first \<open>n\<close> values with the inverse of their product.\<close>

lemma batch_invert_loop:
  assumes "0 \<notin> set vs" and "n \<le> length vs"
  shows "fold (\<lambda>(v, pp) (out, acc_inv). (acc_inv * pp # out, acc_inv * v))
      (rev (map (\<lambda>i. (vs ! i, prod_list (take i vs))) [0..<n])) (out, inverse (prod_list (take n vs)))
    = (map inverse (take n vs) @ out, 1 :: 's::field)"
  using assms(2)
proof (induction n arbitrary: out)
  case (Suc n)
  then have n: "n < length vs" by simp
  then have take: "take (Suc n) vs = take n vs @ [vs ! n]" by (rule take_Suc_conv_app_nth)
  have "prod_list (take n vs) \<noteq> 0" and "vs ! n \<noteq> 0"
    using assms(1) n by (auto simp: prod_list_eq_0 dest: in_set_takeD) (metis nth_mem)
  then have step: "inverse (prod_list (take (Suc n) vs)) * prod_list (take n vs) = inverse (vs ! n)"
    "inverse (prod_list (take (Suc n) vs)) * vs ! n = inverse (prod_list (take n vs))"
    by (simp_all add: take field_simps)
  have "fold (\<lambda>(v, pp) (out, acc_inv). (acc_inv * pp # out, acc_inv * v))
      (rev (map (\<lambda>i. (vs ! i, prod_list (take i vs))) [0..<n]))
      (inverse (vs ! n) # out, inverse (prod_list (take n vs)))
    = (map inverse (take n vs) @ inverse (vs ! n) # out, 1)"
    using n by (intro Suc.IH) simp
  then show ?case
    by (simp add: step del: take_Suc) (simp add: take)
qed simp

lemma batch_invert_inverses:
  assumes "0 \<notin> set vs" shows "batch_invert vs = (map inverse vs, Some ())"
proof (cases "vs = []")
  case False
  have zip: "zip vs (map (\<lambda>i. prod_list (take i vs)) [0..<length vs])
      = map (\<lambda>i. (vs ! i, prod_list (take i vs))) [0..<length vs]"
    by (intro nth_equalityI) auto
  have "prod_list vs \<noteq> 0" using assms by (simp add: prod_list_eq_0)
  with False batch_invert_loop[OF assms order_refl, of "[]"] show ?thesis
    by (simp add: batch_invert_def batch_prefix_eq invert_def zip)
qed (simp add: batch_invert_def)

lemma batch_invert_zero:
  "0 \<in> set vs \<Longrightarrow> batch_invert vs = (vs, None)"
  by (auto simp: batch_invert_def batch_prefix_eq invert_def prod_list_eq_0)

section \<open>Lemmas on Lagrange coefficients\<close>

lemma lagrange_terms_loop:
  "m \<le> length xs \<Longrightarrow>
    fold (\<lambda>(j, xj) (numerator, denominator). if i = j then (numerator, denominator)
          else (numerator * - xj, denominator * (x - xj)))
        (enumerate 0 (take m xs)) (1, 1)
      = (\<Prod>j\<in>{..<m} - {i}. - xs ! j, \<Prod>j\<in>{..<m} - {i}. x - xs ! j)"
proof (induction m)
  case (Suc m)
  have "enumerate 0 (take (Suc m) xs) = enumerate 0 (take m xs) @ [(m, xs ! m)]"
    using Suc.prems by (simp add: take_Suc_conv_app_nth enumerate_append_eq)
  moreover have "{..<Suc m} - {i} = (if i = m then {..<m} - {i} else insert m ({..<m} - {i}))"
    by auto
  ultimately show ?case using Suc by (auto simp: mult.commute)
qed simp

lemma lagrange_terms_eq:
  "lagrange_terms xs i
    = (\<Prod>j\<in>{..<length xs} - {i}. - xs ! j, \<Prod>j\<in>{..<length xs} - {i}. xs ! i - xs ! j)"
  using lagrange_terms_loop[OF order_refl, of i "xs ! i" xs] by (simp add: lagrange_terms_def)

lemma lagrange_basis_zero:
  "lagrange_basis xs i 0
    = (\<Prod>j\<in>{..<length xs} - {i}. - xs ! j) * inverse (\<Prod>j\<in>{..<length xs} - {i}. xs ! i - xs ! j)"
  by (simp only: lagrange_basis_def prod_dividef diff_0) (simp only: divide_inverse)

lemma lagrange_denominators:
  "0 \<in> set (map (snd \<circ> lagrange_terms xs) [0..<length xs]) \<longleftrightarrow> \<not> distinct xs"
  by (auto simp: lagrange_terms_eq distinct_conv_nth image_iff)

lemma lagrange_coefficients_distinct:
  assumes "distinct xs"
  shows "lagrange_coefficients_at_zero xs
    = Inr (map (\<lambda>i. lagrange_basis xs i 0) [0..<length xs])"
proof -
  let ?d = "map (snd \<circ> lagrange_terms xs) [0..<length xs]"
  have "batch_invert ?d = (map inverse ?d, Some ())"
    using assms lagrange_denominators[of xs] by (intro batch_invert_inverses) blast
  moreover have "map (\<lambda>(numerator, inv). numerator * inv)
      (zip (map (fst \<circ> lagrange_terms xs) [0..<length xs]) (map inverse ?d))
      = map (\<lambda>i. lagrange_basis xs i 0) [0..<length xs]"
    by (intro nth_equalityI) (simp_all add: lagrange_terms_eq lagrange_basis_zero)
  ultimately show ?thesis
    by (simp add: lagrange_coefficients_at_zero_def Let_def)
qed

lemma lagrange_coefficients_clash:
  assumes "\<not> distinct xs"
  shows "lagrange_coefficients_at_zero xs = Inl NonInvertibleDenominator"
  using batch_invert_zero[of "map (snd \<circ> lagrange_terms xs) [0..<length xs]"]
    lagrange_denominators[of xs] assms
  by (simp add: lagrange_coefficients_at_zero_def Let_def)

lemma lagrange_coefficients_ok: "lagrange_coefficients_at_zero xs = Inr cs \<Longrightarrow> distinct xs"
  by (rule ccontr) (simp add: lagrange_coefficients_clash)

lemma lagrange_interpolate_distinct:
  assumes "shs \<noteq> []" and "distinct (map share_participant shs)"
    and "collect (\<lambda>sh. to_scalar G (share_participant sh)) shs = Inr xs" and "distinct xs"
  shows "lagrange_interpolate_at_zero G shs
    = Inr (\<Sum>i<length shs. share_value (shs ! i) * lagrange_basis xs i 0)"
proof -
  have len: "length xs = length shs" using assms(3) by (rule collect_length)
  have sum: "fold (\<lambda>(sh, c) result. result + share_value sh * c) ps a
      = a + (\<Sum>(sh, c)\<leftarrow>ps. share_value sh * c)" for ps and a :: 'a
    by (induction ps arbitrary: a) (auto simp: add.assoc)
  have "(\<Sum>(sh, c)\<leftarrow>zip shs (map (\<lambda>i. lagrange_basis xs i 0) [0..<length xs]). share_value sh * c)
      = (\<Sum>i<length shs. share_value (shs ! i) * lagrange_basis xs i 0)"
    by (simp add: sum_list_sum_nth len atLeast0LessThan)
  then show ?thesis
    using assms by (simp add: lagrange_interpolate_at_zero_def ensure_unique_participants_ok
        lagrange_coefficients_distinct sum)
qed

lemma lagrange_interpolate_exact:
  assumes "shs \<noteq> []" and "distinct (map share_participant shs)"
    and "collect (\<lambda>sh. to_scalar G (share_participant sh)) shs = Inr xs" and "distinct xs"
    and "\<forall>i<length shs. share_value (shs ! i) = f (xs ! i)"
    and "polyfn n f" and "n \<le> length shs"
  shows "lagrange_interpolate_at_zero G shs = Inr (f 0)"
proof -
  have len: "length xs = length shs" using assms(3) by (rule collect_length)
  have "(\<Sum>i<length shs. share_value (shs ! i) * lagrange_basis xs i 0)
      = (\<Sum>i<length xs. f (xs ! i) * lagrange_basis xs i 0)"
    using assms(5) by (intro sum.cong) (simp_all add: len)
  also have "\<dots> = f 0"
    using assms(4,6,7) by (intro lagrange_interpolation[where n = n]) (simp_all add: len)
  finally show ?thesis
    using lagrange_interpolate_distinct[OF assms(1-4)] by simp
qed

lemma collect_evaluate:
  "collect (evaluate G poly) ps = Inr shs \<longleftrightarrow>
    (\<exists>xs. collect (to_scalar G) ps = Inr xs
      \<and> shs = map (\<lambda>(p, x). \<lparr>share_participant = p, share_value = horner (coefficients poly) x\<rparr>) (zip ps xs))"
  by (induction ps arbitrary: shs) auto

lemma zip_share_participants:
  "length xs = length ps \<Longrightarrow>
    map share_participant (map (\<lambda>(p, x). \<lparr>share_participant = p, share_value = v x\<rparr>) (zip ps xs)) = ps"
  by (simp add: comp_def case_prod_beta)

lemma shares_Inr:
  "shares G poly ps = Inr shs \<longleftrightarrow>
    distinct ps
    \<and> (\<exists>xs. collect (to_scalar G) ps = Inr xs
        \<and> shs = map (\<lambda>(p, x). \<lparr>share_participant = p, share_value = horner (coefficients poly) x\<rparr>) (zip ps xs))"
  by (simp add: shares_def ensure_unique_participants_ok collect_evaluate)

lemma shares_participants: "shares G poly ps = Inr shs \<Longrightarrow> map share_participant shs = ps"
  unfolding shares_Inr using collect_length zip_share_participants by blast

lemma collect_share_scalars:
  "collect (\<lambda>sh. to_scalar G (share_participant sh)) shs = collect (to_scalar G) (map share_participant shs)"
  by (induction shs) auto

lemma collect_distinct:
  "collect f ps = Inr xs \<Longrightarrow> distinct ps \<Longrightarrow> inj_on f (set ps) \<Longrightarrow> distinct xs"
proof (induction ps arbitrary: xs)
  case (Cons p ps)
  then obtain y ys where ys: "f p = Inr y" "collect f ps = Inr ys" "xs = y # ys" by auto
  have "y \<notin> set ys"
  proof
    assume "y \<in> set ys"
    then obtain i where "i < length ps" "f (ps ! i) = Inr y"
      using ys(2) by (auto simp: collect_eq_Inr list_all2_conv_all_nth in_set_conv_nth)
    then obtain q where "q \<in> set ps" "f q = Inr y" using nth_mem by blast
    with ys(1) Cons.prems show False by (auto simp: inj_on_def)
  qed
  with Cons ys show ?case by auto
qed simp

section \<open>Properties\<close>

text \<open>
  Batch inversion (the Montgomery trick with one field inversion) replaces every value by its
  inverse when no value is zero; otherwise it returns \<open>None\<close> and the slice is unchanged.
\<close>

theorem batch_invert_spec:
  "batch_invert vs = (if 0 \<in> set vs then (vs, None) else (map inverse vs, Some ()))"
  by (simp add: batch_invert_inverses batch_invert_zero)

text \<open>
  The coefficients at zero are the values of the Lagrange basis polynomials at zero when the
  points are distinct, and the error \<open>NonInvertibleDenominator\<close> otherwise.
\<close>

theorem lagrange_coefficients_spec:
  "lagrange_coefficients_at_zero xs =
    (if distinct xs then Inr (map (\<lambda>i. lagrange_basis xs i 0) [0..<length xs])
     else Inl NonInvertibleDenominator)"
  by (simp add: lagrange_coefficients_distinct lagrange_coefficients_clash)

text \<open>
  C21. Reconstruction from at least \<open>threshold\<close> shares of a polynomial of that many coefficients,
  at participants with distinct scalars, returns the polynomial's secret, whichever and however
  many shares are supplied.
\<close>

theorem reconstruct_secret_correct:
  assumes "shares G poly ps = Inr shs"
    and "coefficients poly \<noteq> []" and "length (coefficients poly) = threshold"
    and "threshold \<le> length ps" and "inj_on (to_scalar G) (set ps)"
  shows "reconstruct_secret G shs threshold = Inr (hd (coefficients poly))"
proof -
  have part: "map share_participant shs = ps" using assms(1) by (rule shares_participants)
  from assms(1) obtain xs where ps: "distinct ps"
    and xs: "collect (to_scalar G) ps = Inr xs"
    and shs: "shs = map (\<lambda>(p, x). \<lparr>share_participant = p, share_value = horner (coefficients poly) x\<rparr>) (zip ps xs)"
    unfolding shares_Inr by blast
  have len: "length xs = length ps" "length shs = length ps"
    using collect_length[OF xs] shs by simp_all
  have "lagrange_interpolate_at_zero G shs = Inr (horner (coefficients poly) 0)"
  proof (rule lagrange_interpolate_exact)
    show "collect (\<lambda>sh. to_scalar G (share_participant sh)) shs = Inr xs"
      using xs part by (simp add: collect_share_scalars)
    show "distinct xs" using xs ps(1) assms(5) by (rule collect_distinct)
    show "\<forall>i<length shs. share_value (shs ! i) = horner (coefficients poly) (xs ! i)"
      using shs len by simp
    show "polyfn (length (coefficients poly)) (horner (coefficients poly))"
      by (rule polyfn_horner)
  qed (use assms ps part len in auto)
  with assms len show ?thesis
    by (auto simp: reconstruct_secret_def horner_zero)
qed

lemma reconstruct_secret_correct_witness:
  "reconstruct_secret tiny_group
     [\<lparr>share_participant = ParticipantIndex 1, share_value = 12\<rparr>,
      \<lparr>share_participant = ParticipantIndex 3, share_value = 26\<rparr>] 2 = Inr 5"
proof -
  have "shares tiny_group \<lparr>coefficients = [5, 7]\<rparr> [ParticipantIndex 1, ParticipantIndex 3]
    = Inr [\<lparr>share_participant = ParticipantIndex 1, share_value = 12\<rparr>,
           \<lparr>share_participant = ParticipantIndex 3, share_value = 26\<rparr>]"
    by (simp add: shares_Inr tiny_eval)
  moreover have "inj_on (to_scalar tiny_group) (set [ParticipantIndex 1, ParticipantIndex 3])"
    by (simp add: tiny_eval)
  ultimately show ?thesis
    using reconstruct_secret_correct[of tiny_group "\<lparr>coefficients = [5, 7]\<rparr>"
        "[ParticipantIndex 1, ParticipantIndex 3]"
        "[\<lparr>share_participant = ParticipantIndex 1, share_value = 12\<rparr>,
          \<lparr>share_participant = ParticipantIndex 3, share_value = 26\<rparr>]" 2]
    by simp
qed

text \<open>
  C22. Fewer shares than the threshold determine nothing: whatever values they show at distinct
  nonzero points, every secret has a polynomial of \<open>threshold\<close> coefficients that yields exactly
  those shares.
\<close>

theorem shares_hide_secret:
  assumes "length ps < threshold" and "length vs = length ps"
    and "distinct ps" and "inj_on (to_scalar G) (set ps)"
    and "collect (to_scalar G) ps = Inr xs" and "0 \<notin> set xs"
  shows "\<exists>poly. length (coefficients poly) = threshold \<and> hd (coefficients poly) = secret
    \<and> shares G poly ps = Inr (map (\<lambda>(p, v). \<lparr>share_participant = p, share_value = v\<rparr>) (zip ps vs))"
proof -
  have len: "length xs = length ps" using assms(5) by (rule collect_length)
  have "distinct (0 # xs)"
    using collect_distinct[OF assms(5,3,4)] assms(6) by simp
  then obtain cs0 where cs0: "length cs0 = Suc (length xs)"
    and at: "\<forall>i<Suc (length xs). horner cs0 ((0 # xs) ! i) = (secret # vs) ! i"
    using interpolating_coefficients[of "0 # xs" "secret # vs"] assms(2) len by auto
  let ?cs = "cs0 @ replicate (threshold - length cs0) 0"
  have pad: "horner (replicate n 0) x = 0" for n and x :: 'a by (induction n) auto
  have "horner (as @ replicate n 0) x = horner as x" for as n and x :: 'a
    by (induction as) (simp_all add: pad)
  then have h: "horner ?cs x = horner cs0 x" for x by simp
  have "hd ?cs = secret"
    using at cs0 horner_zero[of cs0] by (cases cs0) auto
  moreover have "map (\<lambda>(p, x). \<lparr>share_participant = p, share_value = horner ?cs x\<rparr>) (zip ps xs)
      = map (\<lambda>(p, v). \<lparr>share_participant = p, share_value = v\<rparr>) (zip ps vs)"
    using at len assms(2) by (intro nth_equalityI) (auto simp: h)
  ultimately show ?thesis
    using assms(1,3,5) cs0 len
    by (intro exI[of _ "\<lparr>coefficients = ?cs\<rparr>"]) (simp add: shares_Inr)
qed

lemma shares_hide_secret_witness:
  "\<exists>poly. length (coefficients poly) = 2 \<and> hd (coefficients poly) = (9 :: tiny)
    \<and> shares tiny_group poly [ParticipantIndex 4]
      = Inr [\<lparr>share_participant = ParticipantIndex 4, share_value = 33\<rparr>]"
proof -
  have "to_scalar tiny_group (ParticipantIndex 4) = Inr 4" by (simp add: tiny_literals)
  moreover have "(4 :: tiny) \<noteq> 0" by (simp add: tiny_eval)
  ultimately show ?thesis
    using shares_hide_secret[of "[ParticipantIndex 4]" 2 "[33]" tiny_group "[4]" 9] by simp
qed

text \<open>
  Reconstruction succeeds exactly when the threshold is positive, at least that many shares
  are given, no participant occurs twice, and the participants' scalars exist and differ.
\<close>

theorem reconstruct_secret_ok_iff:
  "is_ok (reconstruct_secret G shs threshold) \<longleftrightarrow>
    0 < threshold \<and> threshold \<le> length shs \<and> distinct (map share_participant shs)
    \<and> (\<exists>xs. collect (to_scalar G) (map share_participant shs) = Inr xs \<and> distinct xs)"
proof -
  have "is_ok (lagrange_interpolate_at_zero G shs) \<longleftrightarrow> distinct (map share_participant shs)
      \<and> (\<exists>xs. collect (to_scalar G) (map share_participant shs) = Inr xs \<and> distinct xs)"
    if "shs \<noteq> []"
    using that unfolding is_ok_iff lagrange_interpolate_at_zero_def
    by (auto simp: ensure_unique_participants_ok collect_share_scalars
        lagrange_coefficients_distinct dest: lagrange_coefficients_ok)
  then show ?thesis by (cases "shs = []") (auto simp: reconstruct_secret_def)
qed

end
