(* ===== verification/Feldman.thy ===== *)
theory Feldman
  imports Shamir
begin

text \<open>
  \<open>golden-core/src/feldman.rs\<close>: Feldman commitments to a Shamir polynomial. The properties show
  that the double-and-add multiplication by an index is scalar multiplication, that a share is
  accepted exactly when it lies on the committed polynomial, and that enough accepted shares of
  any commitment reconstruct the discrete logarithm of its public key.
\<close>

record 'e feldman_commitment =
  commitment_coefficients :: "'e list"

definition leading_zeros :: "u32 \<Rightarrow> nat" where
  "leading_zeros w = length (takeWhile (\<lambda>k. \<not> bit w k) (rev [0..<32]))"

definition mul_by_small_scalar :: "'e::ab_group_add \<Rightarrow> u32 \<Rightarrow> 'e" where
  "mul_by_small_scalar point scalar =
     (if scalar = 0 then 0
      else fold (\<lambda>k acc. let acc = acc + acc
                         in if drop_bit k scalar AND 1 = 1 then acc + point else acc)
             (rev [0..<32 - leading_zeros scalar]) 0)"

definition commitment_from_coefficients :: "'e list \<Rightarrow> 'e feldman_commitment result" where
  "commitment_from_coefficients cs =
     (if cs = [] then Inl EmptyCommitment else Inr \<lparr>commitment_coefficients = cs\<rparr>)"

definition commit ::
  "('s, 'e, 'z) golden_group_scheme \<Rightarrow> 's polynomial \<Rightarrow> 'e feldman_commitment result" where
  "commit G poly = commitment_from_coefficients (map (mul_generator G) (coefficients poly))"

definition public_key :: "'e feldman_commitment \<Rightarrow> 'e" where
  "public_key com = commitment_coefficients com ! 0"

definition public_key_share ::
  "('s, 'e::ab_group_add, 'z) golden_group_scheme \<Rightarrow> 'e feldman_commitment \<Rightarrow> participant_index \<Rightarrow> 'e result" where
  "public_key_share G com participant =
     rbind (to_scalar G participant) (\<lambda>_.
       let x = index_get participant
       in Inr (fold (\<lambda>coefficient result. mul_by_small_scalar result x + coefficient)
                 (rev (commitment_coefficients com)) 0))"

definition verify_share ::
  "('s, 'e::ab_group_add, 'z) golden_group_scheme \<Rightarrow> 'e feldman_commitment \<Rightarrow> 's share \<Rightarrow> bool result" where
  "verify_share G com sh =
     rbind (public_key_share G com (share_participant sh)) (\<lambda>expected.
       let actual = mul_generator G (share_value sh) in Inr (expected = actual))"

section \<open>Double and add\<close>

lemma leading_zeros_bound: "unat w < 2 ^ (32 - leading_zeros w)"
proof -
  let ?n = "32 - leading_zeros w"
  have len: "leading_zeros w \<le> 32"
    unfolding leading_zeros_def by (rule order_trans[OF length_takeWhile_le]) simp
  have "\<not> bit w k" if "?n \<le> k" for k
  proof (cases "k < 32")
    case True
    let ?i = "31 - k"
    have i: "?i < leading_zeros w" using that True len by linarith
    have "takeWhile (\<lambda>k. \<not> bit w k) (rev [0..<32]) ! ?i = rev [0..<32] ! ?i"
      using i unfolding leading_zeros_def by (rule takeWhile_nth)
    also have "\<dots> = k" using True by (simp add: rev_nth del: upt_rec_numeral)
    finally have "takeWhile (\<lambda>k. \<not> bit w k) (rev [0..<32]) ! ?i = k" .
    moreover have "takeWhile (\<lambda>k. \<not> bit w k) (rev [0..<32]) ! ?i \<in> set (takeWhile (\<lambda>k. \<not> bit w k) (rev [0..<32]))"
      using i unfolding leading_zeros_def by (rule nth_mem)
    ultimately show ?thesis using set_takeWhileD by metis
  qed (use bit_imp_le_length[of w k] in auto)
  then have "take_bit ?n w = w"
    by (intro bit_word_eqI) (auto simp: bit_take_bit_iff not_le[symmetric])
  then have "take_bit ?n (unat w) = unat w" by (simp flip: unsigned_take_bit_eq)
  then show ?thesis by (simp add: take_bit_nat_eq_self_iff)
qed

lemma nat_halves: "odd v \<Longrightarrow> v = 1 + (v div 2 + v div 2)" "\<not> odd v \<Longrightarrow> v = v div 2 + v div 2"
  for v :: nat by presburger+

lemma word_bit_and_one: "drop_bit k (w :: u32) AND 1 = 1 \<longleftrightarrow> odd (unat w div 2 ^ k)"
proof -
  have "drop_bit k w AND 1 = 1 \<longleftrightarrow> bit w k"
    by (simp only: and_one_eq bit_iff_odd_drop_bit odd_iff_mod_2_eq_one)
  also have "\<dots> \<longleftrightarrow> bit (unat w) k"
    using bit_imp_le_length[of w k] by (auto simp: bit_unsigned_iff)
  finally show ?thesis by (simp only: bit_iff_odd)
qed

text \<open>
  Invariant of the loop: after the bits from \<open>n\<close> up, the accumulator is the point added to itself
  \<open>w div 2 ^ n\<close> times.
\<close>

lemma double_and_add: "mul_by_small_scalar p w = ((+) p ^^ unat w) 0"
proof -
  define iter where "iter n = ((+) p ^^ n) 0" for n
  have iter_add: "iter m + iter n = iter (m + n)" for m n
    by (induction m) (simp_all add: iter_def add.assoc)
  have loop: "fold (\<lambda>k acc. let acc = acc + acc in if drop_bit k w AND 1 = 1 then acc + p else acc)
      (rev [0..<n]) (iter (unat w div 2 ^ n)) = iter (unat w)" for n
  proof (induction n)
    case (Suc n)
    let ?v = "unat w div 2 ^ n"
    have half: "unat w div 2 ^ Suc n = ?v div 2"
      by (metis div_mult2_eq power_Suc mult.commute)
    have "iter (?v div 2) + iter (?v div 2) + (if odd ?v then p else 0) = iter ?v"
    proof (cases "odd ?v")
      case True
      then have "?v = 1 + (?v div 2 + ?v div 2)" by (rule nat_halves)
      then have "iter ?v = iter (1 + (?v div 2 + ?v div 2))" by (rule arg_cong)
      also have "\<dots> = p + (iter (?v div 2) + iter (?v div 2))"
        by (simp only: iter_add[symmetric] iter_def[of 1]) simp
      finally show ?thesis using True by (simp add: add.commute)
    next
      case False
      then have "?v = ?v div 2 + ?v div 2" by (rule nat_halves)
      then have "iter ?v = iter (?v div 2 + ?v div 2)" by (rule arg_cong)
      with False show ?thesis by (simp only: iter_add if_False add.right_neutral)
    qed
    with Suc show ?case unfolding half word_bit_and_one Let_def
      by (simp add: half split: if_splits)
  qed simp
  show ?thesis
  proof (cases "w = 0")
    case False
    have "unat w div 2 ^ (32 - leading_zeros w) = 0"
      using leading_zeros_bound by (rule div_less)
    then show ?thesis
      using loop[of "32 - leading_zeros w"] False by (simp add: mul_by_small_scalar_def iter_def)
  qed (simp add: mul_by_small_scalar_def)
qed

context prime_group begin

lemma mul_of_nat_iterates: "((+) p ^^ n) 0 = group_mul G p (of_nat n)"
  by (induction n) (simp_all add: mul_add_scalar mul_one)

lemma mul_by_small_scalar_value: "mul_by_small_scalar p w = group_mul G p (of_nat (unat w))"
  by (simp add: double_and_add mul_of_nat_iterates)

text \<open>Horner's method over the group.\<close>

lemma commitment_horner:
  "fold (\<lambda>c r. mul_by_small_scalar r w + c) (rev (map (mul_generator G) cs)) 0
    = mul_generator G (horner cs (of_nat (unat w)))"
  by (induction cs)
    (simp_all add: mul_by_small_scalar_value mul_generator_mul flip: mul_generator_add)

lemma public_key_share_value:
  assumes "commitment_coefficients com = map (mul_generator G) cs" and "to_scalar G p = Inr x"
  shows "public_key_share G com p = Inr (mul_generator G (horner cs x))"
  using assms to_scalar_value[OF assms(2)] commitment_horner[of "index_get p" cs]
  by (simp add: public_key_share_def)

lemma verify_share_value:
  assumes "commitment_coefficients com = map (mul_generator G) cs"
    and "to_scalar G (share_participant sh) = Inr x"
  shows "verify_share G com sh = Inr (share_value sh = horner cs x)"
  using public_key_share_value[OF assms] by (auto simp: verify_share_def)

text \<open>Every commitment is the commitment to exactly one coefficient list.\<close>

lemma commitment_opening: "\<exists>!cs. es = map (mul_generator G) cs"
proof (rule ex_ex1I)
  show "\<exists>cs. es = map (mul_generator G) cs"
  proof (induction es)
    case (Cons e es)
    then obtain cs where "es = map (mul_generator G) cs" by blast
    moreover obtain c where "e = mul_generator G c" by (rule mul_generatorE)
    ultimately have "e # es = map (mul_generator G) (c # cs)" by simp
    then show ?case by (rule exI)
  qed simp
  show "es = map (mul_generator G) cs \<Longrightarrow> es = map (mul_generator G) ds \<Longrightarrow> cs = ds" for cs ds
    by (metis injI inj_map_eq_map mul_generator_inject)
qed

end

section \<open>Properties\<close>

text \<open>
  Double-and-add over the significant bits of a \<open>u32\<close> is multiplication by that integer, in
  every abelian group (no assumption on the backend is needed).
\<close>

theorem mul_by_small_scalar_iterates:
  "mul_by_small_scalar p w = ((+) p ^^ unat w) 0"
  by (rule double_and_add)

text \<open>
  For a commitment made by \<open>commit\<close>, the public key is \<open>g ^ f(0)\<close>, the public share of a
  participant is \<open>g ^ f(i)\<close>, and \<open>verify_share\<close> accepts a share exactly when its value is \<open>f(i)\<close>.
\<close>

theorem commit_opens:
  assumes "prime_group G" and "commit G poly = Inr com" and "evaluate G poly p = Inr sh"
  shows "public_key com = mul_generator G (hd (coefficients poly))
    \<and> public_key_share G com p = Inr (mul_generator G (share_value sh))
    \<and> verify_share G com \<lparr>share_participant = p, share_value = v\<rparr> = Inr (v = share_value sh)"
proof -
  have com: "commitment_coefficients com = map (mul_generator G) (coefficients poly)"
    and ne: "coefficients poly \<noteq> []"
    using assms(2) by (auto simp: commit_def commitment_from_coefficients_def split: if_splits)
  then have "public_key com = mul_generator G (hd (coefficients poly))"
    by (simp add: public_key_def hd_conv_nth)
  moreover obtain x where "to_scalar G p = Inr x" "share_value sh = horner (coefficients poly) x"
    using assms(3) by auto
  ultimately show ?thesis
    using prime_group.public_key_share_value[OF assms(1) com]
      prime_group.verify_share_value[OF assms(1) com, of "\<lparr>share_participant = p, share_value = v\<rparr>"]
    by simp
qed

lemma commit_opens_witness:
  "public_key \<lparr>commitment_coefficients = [5, 7 :: tiny]\<rparr> = 5
    \<and> verify_share tiny_group \<lparr>commitment_coefficients = [5, 7]\<rparr>
        \<lparr>share_participant = ParticipantIndex 3, share_value = 26\<rparr> = Inr True"
proof -
  have "commit tiny_group \<lparr>coefficients = [5, 7]\<rparr> = Inr \<lparr>commitment_coefficients = [5, 7]\<rparr>"
    by (simp add: commit_def commitment_from_coefficients_def)
  moreover have "evaluate tiny_group \<lparr>coefficients = [5, 7]\<rparr> (ParticipantIndex 3)
      = Inr \<lparr>share_participant = ParticipantIndex 3, share_value = 26\<rparr>"
    by (simp add: tiny_eval)
  ultimately show ?thesis
    using commit_opens[OF tiny.prime_group_axioms, of "\<lparr>coefficients = [5, 7]\<rparr>"
        "\<lparr>commitment_coefficients = [5, 7]\<rparr>" "ParticipantIndex 3"
        "\<lparr>share_participant = ParticipantIndex 3, share_value = 26\<rparr>" 26]
    by simp
qed

lemma commitment_share_values:
  assumes "prime_group G" and "commitment_coefficients com = map (mul_generator G) cs"
    and "\<forall>sh \<in> set shs. verify_share G com sh = Inr True"
    and "collect (to_scalar G) (map share_participant shs) = Inr xs"
  shows "\<forall>i<length shs. share_value (shs ! i) = horner cs (xs ! i)"
proof (intro allI impI)
  fix i assume i: "i < length shs"
  then have "to_scalar G (share_participant (shs ! i)) = Inr (xs ! i)"
    using assms(4) by (auto simp: collect_eq_Inr list_all2_conv_all_nth)
  with i assms(3) show "share_value (shs ! i) = horner cs (xs ! i)"
    using prime_group.verify_share_value[OF assms(1,2), of "shs ! i" "xs ! i"] by simp
qed

lemma verified_shares_scalars:
  "\<forall>sh \<in> set shs. verify_share G com sh = Inr b \<Longrightarrow>
    \<exists>xs. collect (to_scalar G) (map share_participant shs) = Inr xs"
  by (induction shs) (auto simp: verify_share_def public_key_share_def)

text \<open>
  For any commitment, well formed or chosen by a cheating dealer: as many accepted shares of
  distinct participants as it has coefficients interpolate to the discrete logarithm of its public
  key, so all sets of accepted shares reconstruct the same secret.
\<close>

theorem verified_shares_reconstruct:
  assumes "prime_group G" and "\<forall>sh \<in> set shs. verify_share G com sh = Inr True"
    and "distinct (map share_participant shs)"
    and "inj_on (to_scalar G) (set (map share_participant shs))"
    and "0 < threshold" and "length (commitment_coefficients com) = threshold"
    and "threshold \<le> length shs"
  shows "\<exists>secret. reconstruct_secret G shs threshold = Inr secret
    \<and> mul_generator G secret = public_key com"
proof -
  obtain cs where cs: "commitment_coefficients com = map (mul_generator G) cs"
    using prime_group.commitment_opening[OF assms(1)] by blast
  obtain xs where xs: "collect (to_scalar G) (map share_participant shs) = Inr xs"
    using verified_shares_scalars[OF assms(2)] by blast
  have "distinct xs" using xs assms(3,4) by (rule collect_distinct)
  then have "lagrange_interpolate_at_zero G shs = Inr (horner cs 0)"
    using assms cs xs commitment_share_values[OF assms(1) cs assms(2) xs]
    by (intro lagrange_interpolate_exact[OF _ assms(3), where xs = xs and n = "length cs"])
      (auto simp: collect_share_scalars polyfn_horner)
  moreover have "cs \<noteq> []" using assms(5,6) cs by auto
  ultimately show ?thesis
    using assms(5,7) cs
    by (simp add: reconstruct_secret_def public_key_def horner_zero hd_conv_nth)
qed

lemma verified_shares_reconstruct_witness:
  "\<exists>secret. reconstruct_secret tiny_group
        [\<lparr>share_participant = ParticipantIndex 1, share_value = 12\<rparr>,
         \<lparr>share_participant = ParticipantIndex 3, share_value = 26\<rparr>] 2 = Inr secret
      \<and> mul_generator tiny_group secret = public_key \<lparr>commitment_coefficients = [5, 7]\<rparr>"
proof (rule verified_shares_reconstruct[OF tiny.prime_group_axioms])
  have at: "to_scalar tiny_group (ParticipantIndex 1) = Inr 1" "to_scalar tiny_group (ParticipantIndex 3) = Inr 3"
    by (simp_all add: tiny_literals)
  have com: "commitment_coefficients \<lparr>commitment_coefficients = [5, 7 :: tiny]\<rparr>
      = map (mul_generator tiny_group) [5, 7]" by simp
  have "verify_share tiny_group \<lparr>commitment_coefficients = [5, 7]\<rparr>
      \<lparr>share_participant = ParticipantIndex 1, share_value = 12\<rparr> = Inr True"
    using tiny.verify_share_value[OF com, of "\<lparr>share_participant = ParticipantIndex 1, share_value = 12\<rparr>" 1] at
    by (simp add: tiny_eval)
  moreover have "verify_share tiny_group \<lparr>commitment_coefficients = [5, 7]\<rparr>
      \<lparr>share_participant = ParticipantIndex 3, share_value = 26\<rparr> = Inr True"
    using tiny.verify_share_value[OF com, of "\<lparr>share_participant = ParticipantIndex 3, share_value = 26\<rparr>" 3] at
    by (simp add: tiny_eval)
  ultimately show "\<forall>sh \<in> set [\<lparr>share_participant = ParticipantIndex 1, share_value = 12\<rparr>,
      \<lparr>share_participant = ParticipantIndex 3, share_value = 26\<rparr>].
        verify_share tiny_group \<lparr>commitment_coefficients = [5, 7]\<rparr> sh = Inr True"
    by simp
qed (simp_all add: tiny_eval)

end
