(* ===== verification/Dealing.thy ===== *)
theory Dealing
  imports Registry Feldman
begin

text \<open>
  \<open>golden-core/src/dkg.rs\<close>, second part: the messages of the protocol, their transcript roots, the
  eVRF proof backend boundary (the trait \<open>EvrfProofBackend\<close> as the record \<open>evrf_backend\<close>), creating
  a dealing and verifying it publicly. A proof backend may draw its nonces by rejection sampling,
  so \<open>prove_batch\<close> and everything that calls it is partial: \<open>None\<close> stands for not returning.
\<close>

section \<open>Data\<close>

record ('s, 'e) evrf_statement =
  st_protocol_version :: u32
  st_backend_id :: bytes
  st_session_id :: session_id
  st_registry_root :: transcript_root
  st_threshold :: usize
  st_dealer :: participant_index
  st_receiver :: participant_index
  st_msg_i :: dealer_message_nonce
  st_beta :: 's
  st_dealer_public_key :: 'e
  st_receiver_public_key :: 'e
  st_commitment_coefficients :: "'e list"
  st_share_commitment :: 'e
  st_pad_commitment :: 'e
  st_encrypted_share :: 's
  st_transcript_root :: transcript_root

record 's evrf_witness =
  wit_identity_secret :: 's
  wit_polynomial_coefficients :: "'s list"
  wit_share :: 's
  wit_pad :: 's

record ('s, 'e, 'r) evrf_backend =
  proof_id :: bytes
  derive_pad :: "dealer_message_nonce \<Rightarrow> 's \<Rightarrow> 's \<Rightarrow> 'e \<Rightarrow> 'e \<Rightarrow> 's result"
  prove_batch :: "('s, 'e) evrf_statement list \<Rightarrow> 's evrf_witness list \<Rightarrow> 'r \<Rightarrow> (bytes \<times> 'r) result option"
  verify_batch :: "('s, 'e) evrf_statement list \<Rightarrow> bytes \<Rightarrow> unit result"
  verify_proof_batch :: "(('s, 'e) evrf_statement list \<times> bytes) list \<Rightarrow> unit result"

record ('s, 'e) encrypted_share =
  es_pad_commitment :: 'e
  es_encrypted_share :: 's

type_synonym ('s, 'e) share_map = "(participant_index, ('s, 'e) encrypted_share) btree_map"

record ('s, 'e) dealer_message =
  dm_session_id :: session_id
  dm_registry_root :: transcript_root
  dm_dealer :: participant_index
  dm_msg_i :: dealer_message_nonce
  dm_commitment :: "'e feldman_commitment"
  dm_encrypted_shares :: "('s, 'e) share_map"
  dm_proof :: bytes
  dm_transcript_root :: transcript_root

record ('s, 'e) dkg_dealing =
  dealing_message :: "('s, 'e) dealer_message"
  dealing_private_share :: "'s share"

definition session_id_random :: "('s, 'r) crypto_rng \<Rightarrow> 'r \<Rightarrow> session_id \<times> 'r" where
  "session_id_random R r = (let (bs, r') = fill_bytes R 32 r in (SessionId bs, r'))"

definition dealer_message_nonce_random :: "('s, 'r) crypto_rng \<Rightarrow> 'r \<Rightarrow> dealer_message_nonce \<times> 'r" where
  "dealer_message_nonce_random R r =
     (let (bs, r') = fill_bytes R DEALER_MESSAGE_NONCE_BYTES r in (DealerMessageNonce bs, r'))"

section \<open>Transcript roots\<close>

definition dealing_transcript ::
  "('s, 'e, 'z) golden_group_scheme \<Rightarrow> session_id \<Rightarrow> transcript_root \<Rightarrow> participant_index
    \<Rightarrow> dealer_message_nonce \<Rightarrow> 'e feldman_commitment \<Rightarrow> ('s, 'e) share_map \<Rightarrow> transcript_builder" where
  "dealing_transcript G session reg_root dealer msg_i commitment encrypted_shares =
     (let t = tb_new (ascii ''dealing'');
          t = tb_u32 (ascii ''version'') PROTOCOL_VERSION t;
          t = tb_bytes (ascii ''backend'') (backend_id G) t;
          t = tb_bytes (ascii ''session'') (session_bytes session) t;
          t = tb_bytes (ascii ''registry'') reg_root t;
          t = tb_participant (ascii ''dealer'') dealer t;
          t = tb_bytes (ascii ''msg-i'') (nonce_bytes msg_i) t;
          t = tb_usize (ascii ''commitment-len'') (length (commitment_coefficients commitment)) t;
          t = fold (tb_element G (ascii ''commitment'')) (commitment_coefficients commitment) t;
          t = tb_usize (ascii ''encrypted-shares-len'') (length encrypted_shares) t
      in fold (\<lambda>(receiver, es) t.
            tb_scalar G (ascii ''encrypted-share'') (es_encrypted_share es)
           (tb_element G (ascii ''pad-commitment'') (es_pad_commitment es)
           (tb_participant (ascii ''encrypted-receiver'') receiver t))) encrypted_shares t)"

definition dealing_root ::
  "('s, 'e, 'z) golden_group_scheme \<Rightarrow> session_id \<Rightarrow> transcript_root \<Rightarrow> participant_index
    \<Rightarrow> dealer_message_nonce \<Rightarrow> 'e feldman_commitment \<Rightarrow> ('s, 'e) share_map \<Rightarrow> transcript_root" where
  "dealing_root G session reg_root dealer msg_i commitment encrypted_shares =
     tb_root G (dealing_transcript G session reg_root dealer msg_i commitment encrypted_shares)"

definition recompute_transcript_root ::
  "('s, 'e, 'z) golden_group_scheme \<Rightarrow> ('s, 'e) dealer_message \<Rightarrow> transcript_root" where
  "recompute_transcript_root G m =
     dealing_root G (dm_session_id m) (dm_registry_root m) (dm_dealer m) (dm_msg_i m)
       (dm_commitment m) (dm_encrypted_shares m)"

text \<open>The coefficients come already encoded, from a shared buffer or encoded on the fly.\<close>

definition statement_transcript_with_coefficients ::
  "('s, 'e, 'z) golden_group_scheme \<Rightarrow> ('s, 'e) evrf_statement \<Rightarrow> bytes list \<Rightarrow> transcript_builder" where
  "statement_transcript_with_coefficients G s cs =
     (let t = tb_new (ascii ''evrf-statement'');
          t = tb_u32 (ascii ''version'') (st_protocol_version s) t;
          t = tb_bytes (ascii ''backend'') (st_backend_id s) t;
          t = tb_bytes (ascii ''session'') (session_bytes (st_session_id s)) t;
          t = tb_bytes (ascii ''registry'') (st_registry_root s) t;
          t = tb_usize (ascii ''threshold'') (st_threshold s) t;
          t = tb_participant (ascii ''dealer'') (st_dealer s) t;
          t = tb_participant (ascii ''receiver'') (st_receiver s) t;
          t = tb_bytes (ascii ''msg-i'') (nonce_bytes (st_msg_i s)) t;
          t = tb_scalar G (ascii ''beta'') (st_beta s) t;
          t = tb_element G (ascii ''dealer-pk'') (st_dealer_public_key s) t;
          t = tb_element G (ascii ''receiver-pk'') (st_receiver_public_key s) t;
          t = tb_usize (ascii ''commitment-len'') (length (st_commitment_coefficients s)) t;
          t = fold (tb_bytes (ascii ''commitment'')) cs t;
          t = tb_element G (ascii ''share-commitment'') (st_share_commitment s) t;
          t = tb_element G (ascii ''pad-commitment'') (st_pad_commitment s) t;
          t = tb_scalar G (ascii ''encrypted-share'') (st_encrypted_share s) t
      in tb_bytes (ascii ''dealing-root'') (st_transcript_root s) t)"

definition statement_root_with_coefficients ::
  "('s, 'e, 'z) golden_group_scheme \<Rightarrow> ('s, 'e) evrf_statement \<Rightarrow> bytes list \<Rightarrow> transcript_root" where
  "statement_root_with_coefficients G s cs = tb_root G (statement_transcript_with_coefficients G s cs)"

definition statement_root ::
  "('s, 'e, 'z) golden_group_scheme \<Rightarrow> ('s, 'e) evrf_statement \<Rightarrow> transcript_root" where
  "statement_root G s =
     statement_root_with_coefficients G s (map (encode_element G) (st_commitment_coefficients s))"

definition batch_roots ::
  "('s, 'e, 'z) golden_group_scheme \<Rightarrow> ('s, 'e) evrf_statement list \<Rightarrow> transcript_root list" where
  "batch_roots G statements =
     (case statements of
        [] \<Rightarrow> []
      | first # _ \<Rightarrow>
          let cs = map (encode_element G) (st_commitment_coefficients first)
          in map (\<lambda>s. if st_commitment_coefficients s = st_commitment_coefficients first
                      then statement_root_with_coefficients G s cs
                      else statement_root G s) statements)"

definition pad_transcript ::
  "('s, 'e, 'z) golden_group_scheme \<Rightarrow> dealer_message_nonce \<Rightarrow> 'e \<Rightarrow> 'e \<Rightarrow> transcript_builder" where
  "pad_transcript G msg_i receiver_pk shared_secret =
     tb_element G (ascii ''shared-secret'') shared_secret
    (tb_element G (ascii ''receiver-pk'') receiver_pk
    (tb_bytes (ascii ''msg-i'') (nonce_bytes msg_i) (tb_new (ascii ''pad''))))"

definition derive_default_pad ::
  "('s::field, 'e, 'z) golden_group_scheme \<Rightarrow> dealer_message_nonce \<Rightarrow> 'e \<Rightarrow> 'e \<Rightarrow> 's result" where
  "derive_default_pad G msg_i receiver_pk shared_secret =
     hash_to_scalar G (ascii ''golden-dkg-pad-v1'') (tb_root G (pad_transcript G msg_i receiver_pk shared_secret))"

text \<open>The default methods of the trait \<open>EvrfProofBackend\<close>.\<close>

definition default_derive_pad ::
  "('s::field, 'e, 'z) golden_group_scheme \<Rightarrow> dealer_message_nonce \<Rightarrow> 's \<Rightarrow> 's \<Rightarrow> 'e \<Rightarrow> 'e \<Rightarrow> 's result" where
  "default_derive_pad G msg_i beta identity_secret peer_pk receiver_pk =
     (let shared_secret = group_mul G peer_pk identity_secret
      in derive_default_pad G msg_i receiver_pk shared_secret)"

definition default_verify_proof_batch ::
  "(('s, 'e) evrf_statement list \<Rightarrow> bytes \<Rightarrow> unit result)
    \<Rightarrow> (('s, 'e) evrf_statement list \<times> bytes) list \<Rightarrow> unit result" where
  "default_verify_proof_batch verify batches =
     rfold (\<lambda>_ (statements, pr). verify statements pr) () batches"

section \<open>Creating a dealing\<close>

definition statement_for_receiver ::
  "('s, 'e, 'z) golden_group_scheme \<Rightarrow> ('s, 'e) dkg_config \<Rightarrow> participant_index \<Rightarrow> participant_index
    \<Rightarrow> dealer_message_nonce \<Rightarrow> 'e \<Rightarrow> 'e list \<Rightarrow> ('s, 'e) encrypted_share \<Rightarrow> transcript_root
    \<Rightarrow> ('s, 'e) evrf_statement result" where
  "statement_for_receiver G config dealer receiver msg_i share_commitment cs es root =
     rbind (registry_public_key (cfg_registry config) dealer) (\<lambda>dealer_pk.
     rbind (registry_public_key (cfg_registry config) receiver) (\<lambda>receiver_pk.
       Inr \<lparr>st_protocol_version = PROTOCOL_VERSION,
            st_backend_id = backend_id G,
            st_session_id = cfg_session_id config,
            st_registry_root = registry_root_value (cfg_registry config),
            st_threshold = cfg_threshold config,
            st_dealer = dealer,
            st_receiver = receiver,
            st_msg_i = msg_i,
            st_beta = cfg_beta config,
            st_dealer_public_key = dealer_pk,
            st_receiver_public_key = receiver_pk,
            st_commitment_coefficients = cs,
            st_share_commitment = share_commitment,
            st_pad_commitment = es_pad_commitment es,
            st_encrypted_share = es_encrypted_share es,
            st_transcript_root = root\<rparr>))"

text \<open>The three loops of \<open>create_dealing_with_secret\<close>: shares, encryption, statements.\<close>

definition dealing_shares ::
  "('s::field, 'e, 'z) golden_group_scheme \<Rightarrow> ('s, 'e) dkg_config \<Rightarrow> 's polynomial
    \<Rightarrow> (participant_index, 's) btree_map result" where
  "dealing_shares G config poly =
     rfold (\<lambda>m receiver. rbind (evaluate G poly receiver) (\<lambda>sh. Inr (bt_insert receiver (share_value sh) m)))
       bt_empty (registry_indexes (cfg_registry config))"

definition encrypt_for_receiver ::
  "('s::field, 'e, 'z) golden_group_scheme \<Rightarrow> ('s, 'e, 'r, 'y) evrf_backend_scheme \<Rightarrow> ('s, 'e) dkg_config
    \<Rightarrow> 's \<Rightarrow> dealer_message_nonce \<Rightarrow> participant_index \<times> 's \<Rightarrow> (('s, 'e) encrypted_share \<times> 's) result" where
  "encrypt_for_receiver G B config identity_secret msg_i = (\<lambda>(receiver, sv).
     rbind (registry_public_key (cfg_registry config) receiver) (\<lambda>receiver_pk.
     rbind (derive_pad B msg_i (cfg_beta config) identity_secret receiver_pk receiver_pk) (\<lambda>pad.
       Inr (\<lparr>es_pad_commitment = mul_generator G pad, es_encrypted_share = sv + pad\<rparr>, pad))))"

definition encrypt_shares ::
  "('s::field, 'e, 'z) golden_group_scheme \<Rightarrow> ('s, 'e, 'r, 'y) evrf_backend_scheme \<Rightarrow> ('s, 'e) dkg_config
    \<Rightarrow> 's \<Rightarrow> dealer_message_nonce \<Rightarrow> (participant_index \<times> 's) list
    \<Rightarrow> (('s, 'e) share_map \<times> (participant_index, 's) btree_map) result" where
  "encrypt_shares G B config identity_secret msg_i others =
     rfold (\<lambda>(encrypted, pads) it.
        rbind (encrypt_for_receiver G B config identity_secret msg_i it) (\<lambda>(es, pad).
          Inr (bt_insert (fst it) es encrypted, bt_insert (fst it) pad pads)))
       (bt_empty, bt_empty) others"

definition statement_and_witness ::
  "('s::field, 'e, 'z) golden_group_scheme \<Rightarrow> ('s, 'e) dkg_config \<Rightarrow> participant_index \<Rightarrow> 's
    \<Rightarrow> 's polynomial \<Rightarrow> 'e feldman_commitment \<Rightarrow> dealer_message_nonce \<Rightarrow> ('s, 'e) share_map
    \<Rightarrow> (participant_index, 's) btree_map \<Rightarrow> transcript_root \<Rightarrow> participant_index \<times> 's
    \<Rightarrow> (('s, 'e) evrf_statement \<times> 's evrf_witness) result" where
  "statement_and_witness G config dealer identity_secret poly commitment msg_i encrypted pads root =
     (\<lambda>(receiver, sv).
        let share_commitment = mul_generator G sv in
        rbind (ok_or (bt_get encrypted receiver) (MissingShare (index_get receiver))) (\<lambda>es.
        rbind (statement_for_receiver G config dealer receiver msg_i share_commitment
                 (commitment_coefficients commitment) es root) (\<lambda>statement.
        rbind (ok_or (bt_get pads receiver) (MissingShare (index_get receiver))) (\<lambda>pad.
          Inr (statement,
               \<lparr>wit_identity_secret = identity_secret, wit_polynomial_coefficients = coefficients poly,
                wit_share = sv, wit_pad = pad\<rparr>)))))"

definition dealing_relation ::
  "('s::field, 'e, 'z) golden_group_scheme \<Rightarrow> ('s, 'e) dkg_config \<Rightarrow> participant_index \<Rightarrow> 's
    \<Rightarrow> 's polynomial \<Rightarrow> 'e feldman_commitment \<Rightarrow> dealer_message_nonce \<Rightarrow> ('s, 'e) share_map
    \<Rightarrow> (participant_index, 's) btree_map \<Rightarrow> transcript_root \<Rightarrow> (participant_index \<times> 's) list
    \<Rightarrow> (('s, 'e) evrf_statement list \<times> 's evrf_witness list) result" where
  "dealing_relation G config dealer identity_secret poly commitment msg_i encrypted pads root others =
     rfold (\<lambda>(statements, witnesses) it.
        rbind (statement_and_witness G config dealer identity_secret poly commitment msg_i
                 encrypted pads root it) (\<lambda>(statement, witness).
          Inr (statements @ [statement], witnesses @ [witness])))
       ([], []) others"

definition create_dealing_with_secret ::
  "('s::field, 'e::ab_group_add, 'z) golden_group_scheme \<Rightarrow> ('s, 'e, 'r, 'y) evrf_backend_scheme
    \<Rightarrow> participant_index \<Rightarrow> 's \<Rightarrow> 's \<Rightarrow> ('s, 'e) dkg_config \<Rightarrow> ('s, 'r) crypto_rng \<Rightarrow> 'r
    \<Rightarrow> (('s, 'e) dkg_dealing \<times> 'r) result option" where
  "create_dealing_with_secret G B dealer identity_secret secret config R r =
     oresult (registry_public_key (cfg_registry config) dealer) (\<lambda>dealer_pk.
     if mul_generator G identity_secret \<noteq> dealer_pk then Some (Inl IdentityKeyMismatch) else
     oresult (random_with_secret secret (cfg_threshold config) R r) (\<lambda>(poly, r1).
     oresult (commit G poly) (\<lambda>commitment.
     let (msg_i, r2) = dealer_message_nonce_random R r1 in
     oresult (dealing_shares G config poly) (\<lambda>share_values.
     let others = filter (\<lambda>(receiver, _). receiver \<noteq> dealer) share_values in
     oresult (encrypt_shares G B config identity_secret msg_i others) (\<lambda>(encrypted, pads).
     let root = dealing_root G (cfg_session_id config) (registry_root_value (cfg_registry config))
                  dealer msg_i commitment encrypted in
     oresult (dealing_relation G config dealer identity_secret poly commitment msg_i encrypted pads
                root others) (\<lambda>(statements, witnesses).
     obind (if statements = [] then Some (Inr ([], r2)) else prove_batch B statements witnesses r2) (\<lambda>(pr, r3).
     oresult (ok_or (bt_get share_values dealer) (MissingShare (index_get dealer))) (\<lambda>own.
     let private_share = \<lparr>share_participant = dealer, share_value = own\<rparr> in
     oresult (verify_share G commitment private_share) (\<lambda>valid.
     if \<not> valid then Some (Inl CommitmentVerificationFailed) else
     Some (Inr
       (\<lparr>dealing_message =
           \<lparr>dm_session_id = cfg_session_id config,
            dm_registry_root = registry_root_value (cfg_registry config),
            dm_dealer = dealer,
            dm_msg_i = msg_i,
            dm_commitment = commitment,
            dm_encrypted_shares = encrypted,
            dm_proof = pr,
            dm_transcript_root = root\<rparr>,
         dealing_private_share = private_share\<rparr>, r3)))))))))))"

definition create_dealing ::
  "('s::field, 'e::ab_group_add, 'z) golden_group_scheme \<Rightarrow> ('s, 'e, 'r, 'y) evrf_backend_scheme
    \<Rightarrow> participant_index \<Rightarrow> 's \<Rightarrow> ('s, 'e) dkg_config \<Rightarrow> ('s, 'r) crypto_rng \<Rightarrow> 'r
    \<Rightarrow> (('s, 'e) dkg_dealing \<times> 'r) result option" where
  "create_dealing G B dealer identity_secret config R r =
     (let (secret, r') = next_scalar R r
      in create_dealing_with_secret G B dealer identity_secret secret config R r')"

section \<open>Public verification\<close>

definition public_share_receivers :: "('s, 'e) dkg_config \<Rightarrow> participant_index \<Rightarrow> participant_index list" where
  "public_share_receivers config dealer =
     filter (\<lambda>receiver. receiver \<noteq> dealer) (registry_indexes (cfg_registry config))"

definition ensure_public_share_keys ::
  "('s, 'e) dealer_message \<Rightarrow> ('s, 'e) dkg_config \<Rightarrow> unit result" where
  "ensure_public_share_keys m config =
     rbind (rfold (\<lambda>_ receiver.
        if receiver = dm_dealer m \<or> \<not> is_ok (registry_public_key (cfg_registry config) receiver)
        then Inl (UnexpectedShare (index_get receiver)) else Inr ())
       () (bt_keys (dm_encrypted_shares m))) (\<lambda>_.
     rfold (\<lambda>_ receiver.
        if \<not> bt_contains_key (dm_encrypted_shares m) receiver
        then Inl (MissingShare (index_get receiver)) else Inr ())
       () (public_share_receivers config (dm_dealer m)))"

definition receiver_statement ::
  "('s, 'e::ab_group_add, 'z) golden_group_scheme \<Rightarrow> ('s, 'e) dealer_message \<Rightarrow> ('s, 'e) dkg_config
    \<Rightarrow> participant_index \<Rightarrow> ('s, 'e) evrf_statement result" where
  "receiver_statement G m config receiver =
     rbind (ok_or (bt_get (dm_encrypted_shares m) receiver) (MissingShare (index_get receiver))) (\<lambda>es.
       let encrypted_share_commitment = mul_generator G (es_encrypted_share es);
           share_commitment = encrypted_share_commitment - es_pad_commitment es
       in statement_for_receiver G config (dm_dealer m) receiver (dm_msg_i m) share_commitment
            (commitment_coefficients (dm_commitment m)) es (dm_transcript_root m))"

definition dealing_statements ::
  "('s, 'e::ab_group_add, 'z) golden_group_scheme \<Rightarrow> ('s, 'e) dealer_message \<Rightarrow> ('s, 'e) dkg_config
    \<Rightarrow> ('s, 'e) evrf_statement list result" where
  "dealing_statements G m config =
     (if dm_session_id m \<noteq> cfg_session_id config then Inl SessionMismatch
      else if dm_registry_root m \<noteq> registry_root_value (cfg_registry config) then Inl RegistryMismatch
      else rbind (registry_public_key (cfg_registry config) (dm_dealer m)) (\<lambda>_.
        if length (commitment_coefficients (dm_commitment m)) \<noteq> cfg_threshold config
        then Inl (InvalidCommitmentDegree (cfg_threshold config)
                    (length (commitment_coefficients (dm_commitment m))))
        else
          let expected_root = dealing_root G (dm_session_id m) (dm_registry_root m) (dm_dealer m)
                                (dm_msg_i m) (dm_commitment m) (dm_encrypted_shares m)
          in if expected_root \<noteq> dm_transcript_root m then Inl ProofVerificationFailed
             else rbind (ensure_public_share_keys m config) (\<lambda>_.
               collect (receiver_statement G m config) (public_share_receivers config (dm_dealer m)))))"

definition verify_dealing ::
  "('s, 'e::ab_group_add, 'z) golden_group_scheme \<Rightarrow> ('s, 'e, 'r, 'y) evrf_backend_scheme
    \<Rightarrow> ('s, 'e) dealer_message \<Rightarrow> ('s, 'e) dkg_config \<Rightarrow> unit result" where
  "verify_dealing G B m config =
     rbind (dealing_statements G m config) (\<lambda>statements.
       if statements = [] then (if dm_proof m = [] then Inr () else Inl ProofVerificationFailed)
       else verify_batch B statements (dm_proof m))"

definition verify_dealings ::
  "('s, 'e::ab_group_add, 'z) golden_group_scheme \<Rightarrow> ('s, 'e, 'r, 'y) evrf_backend_scheme
    \<Rightarrow> ('s, 'e) dealer_message list \<Rightarrow> ('s, 'e) dkg_config \<Rightarrow> unit result" where
  "verify_dealings G B messages config =
     (if messages = [] then Inl ProofVerificationFailed
      else rbind (collect (\<lambda>m. dealing_statements G m config) messages) (\<lambda>statement_batches.
        if list_all (\<lambda>statements. statements = []) statement_batches
        then rfold (\<lambda>_ m. if dm_proof m \<noteq> []
               then Inl (DealerProofVerificationFailed (index_get (dm_dealer m))) else Inr ()) () messages
        else
          let proof_batches = map (\<lambda>(statements, m). (statements, dm_proof m)) (zip statement_batches messages)
          in case verify_proof_batch B proof_batches of
               Inr _ \<Rightarrow> Inr ()
             | Inl batch_error \<Rightarrow>
                 rbind (rfold (\<lambda>_ ((statements, pr), m).
                   if \<not> is_ok (verify_batch B statements pr)
                   then Inl (DealerProofVerificationFailed (index_get (dm_dealer m))) else Inr ())
                  () (zip proof_batches messages)) (\<lambda>_. Inl batch_error)))"

end
