(* ===== verification/Completion.thy ===== *)
theory Completion
  imports Dealing
begin

text \<open>
  \<open>golden-core/src/dkg.rs\<close>, last part: receiving a dealing (decrypting one's own share) and
  completing the DKG from a set of dealings.
\<close>

record ('s, 'e) dkg_output =
  out_public_key :: 'e
  out_secret_share :: "'s share"
  out_public_key_shares :: "(participant_index, 'e) btree_map"
  out_transcript_root :: transcript_root

definition derive_receiver_pad ::
  "('s, 'e, 'r, 'y) evrf_backend_scheme \<Rightarrow> ('s, 'e) dkg_config \<Rightarrow> participant_index
    \<Rightarrow> participant_index \<Rightarrow> 's \<Rightarrow> dealer_message_nonce \<Rightarrow> 's result" where
  "derive_receiver_pad B config dealer receiver identity_secret msg_i =
     rbind (registry_public_key (cfg_registry config) dealer) (\<lambda>dealer_pk.
     rbind (registry_public_key (cfg_registry config) receiver) (\<lambda>receiver_pk.
       derive_pad B msg_i (cfg_beta config) identity_secret dealer_pk receiver_pk))"

definition decrypt_share_for_receiver ::
  "('s::field, 'e::ab_group_add, 'z) golden_group_scheme \<Rightarrow> ('s, 'e, 'r, 'y) evrf_backend_scheme
    \<Rightarrow> participant_index \<Rightarrow> 's \<Rightarrow> ('s, 'e) dealer_message \<Rightarrow> ('s, 'e) dkg_config \<Rightarrow> 's share result" where
  "decrypt_share_for_receiver G B receiver identity_secret m config =
     rbind (ok_or (bt_get (dm_encrypted_shares m) receiver) (MissingShare (index_get receiver))) (\<lambda>es.
     rbind (derive_receiver_pad B config (dm_dealer m) receiver identity_secret (dm_msg_i m)) (\<lambda>pad.
       let sh = \<lparr>share_participant = receiver, share_value = es_encrypted_share es - pad\<rparr> in
       rbind (verify_share G (dm_commitment m) sh) (\<lambda>valid.
         if \<not> valid then Inl CommitmentVerificationFailed else Inr sh)))"

definition verify_dealing_for_receiver ::
  "('s::field, 'e::ab_group_add, 'z) golden_group_scheme \<Rightarrow> ('s, 'e, 'r, 'y) evrf_backend_scheme
    \<Rightarrow> participant_index \<Rightarrow> 's \<Rightarrow> ('s, 'e) dealer_message \<Rightarrow> ('s, 'e) dkg_config \<Rightarrow> unit result" where
  "verify_dealing_for_receiver G B receiver identity_secret m config =
     rbind (registry_public_key (cfg_registry config) receiver) (\<lambda>receiver_pk.
       if mul_generator G identity_secret \<noteq> receiver_pk then Inl IdentityKeyMismatch
       else rbind (verify_dealing G B m config) (\<lambda>_.
         if receiver \<noteq> dm_dealer m
         then rbind (decrypt_share_for_receiver G B receiver identity_secret m config) (\<lambda>_. Inr ())
         else Inr ()))"

definition completion_transcript ::
  "('s, 'e, 'z) golden_group_scheme \<Rightarrow> (participant_index, ('s, 'e) dealer_message) btree_map
    \<Rightarrow> transcript_builder" where
  "completion_transcript G dealings =
     fold (\<lambda>(dealer, m) t.
             tb_bytes (ascii ''dealing-root'') (dm_transcript_root m)
            (tb_participant (ascii ''dealer'') dealer t)) dealings
       (tb_usize (ascii ''dealings-len'') (length dealings)
       (tb_bytes (ascii ''backend'') (backend_id G) (tb_new (ascii ''completion''))))"

definition completion_root ::
  "('s, 'e, 'z) golden_group_scheme \<Rightarrow> (participant_index, ('s, 'e) dealer_message) btree_map
    \<Rightarrow> transcript_root" where
  "completion_root G dealings = tb_root G (completion_transcript G dealings)"

text \<open>\<open>iter_mut().zip(coefficients)\<close>: surplus entries of either side are left alone.\<close>

fun add_coefficients :: "'e::ab_group_add list \<Rightarrow> 'e list \<Rightarrow> 'e list" where
  "add_coefficients [] cs = []"
| "add_coefficients (a # as) [] = a # as"
| "add_coefficients (a # as) (c # cs) = (a + c) # add_coefficients as cs"

text \<open>The parts of \<open>complete\<close>: collecting the dealings, accumulating them, the public shares.\<close>

definition collect_dealings ::
  "('s, 'e) dealer_message \<Rightarrow> (participant_index, ('s, 'e) dealer_message) btree_map
    \<Rightarrow> (participant_index, ('s, 'e) dealer_message) btree_map result" where
  "collect_dealings own peer_dealings =
     rfold (\<lambda>all_dealings (dealer, m).
        if dealer \<noteq> dm_dealer m then Inl (DealerKeyMismatch (index_get dealer) (index_get (dm_dealer m)))
        else if bt_contains_key all_dealings (dm_dealer m)
        then Inl (DuplicateParticipantIndex (index_get (dm_dealer m)))
        else Inr (bt_insert (dm_dealer m) m all_dealings))
       (bt_insert (dm_dealer own) own bt_empty) peer_dealings"

definition accumulate_step ::
  "('s::field, 'e::ab_group_add, 'z) golden_group_scheme \<Rightarrow> ('s, 'e, 'r, 'y) evrf_backend_scheme
    \<Rightarrow> participant_index \<Rightarrow> 's \<Rightarrow> 's share \<Rightarrow> ('s, 'e) dkg_config
    \<Rightarrow> 's \<times> 'e list \<Rightarrow> ('s, 'e) dealer_message \<Rightarrow> ('s \<times> 'e list) result" where
  "accumulate_step G B receiver identity_secret private_share config = (\<lambda>(secret, aggregate) m.
     rbind (if dm_dealer m = receiver then Inr private_share
            else decrypt_share_for_receiver G B receiver identity_secret m config) (\<lambda>sh.
     rbind (verify_share G (dm_commitment m) sh) (\<lambda>valid.
       if \<not> valid then Inl CommitmentVerificationFailed
       else Inr (secret + share_value sh,
                 add_coefficients aggregate (commitment_coefficients (dm_commitment m))))))"

definition complete ::
  "('s::field, 'e::ab_group_add, 'z) golden_group_scheme \<Rightarrow> ('s, 'e, 'r, 'y) evrf_backend_scheme
    \<Rightarrow> participant_index \<Rightarrow> 's \<Rightarrow> ('s, 'e) dkg_dealing
    \<Rightarrow> (participant_index, ('s, 'e) dealer_message) btree_map \<Rightarrow> ('s, 'e) dkg_config
    \<Rightarrow> ('s, 'e) dkg_output result" where
  "complete G B receiver identity_secret own peer_dealings config =
     rbind (registry_public_key (cfg_registry config) receiver) (\<lambda>receiver_pk.
     if mul_generator G identity_secret \<noteq> receiver_pk then Inl IdentityKeyMismatch
     else if dm_dealer (dealing_message own) \<noteq> receiver
     then Inl (DealerKeyMismatch (index_get receiver) (index_get (dm_dealer (dealing_message own))))
     else if share_participant (dealing_private_share own) \<noteq> receiver
     then Inl (PrivateShareParticipantMismatch (index_get receiver)
                 (index_get (share_participant (dealing_private_share own))))
     else
     rbind (collect_dealings (dealing_message own) peer_dealings) (\<lambda>all_dealings.
     rbind (collect (\<lambda>dealer. ok_or (bt_get all_dealings dealer) (MissingDealing (index_get dealer)))
              (registry_indexes (cfg_registry config))) (\<lambda>messages.
     rbind (verify_dealings G B messages config) (\<lambda>_.
     rbind (rfold (accumulate_step G B receiver identity_secret (dealing_private_share own) config)
              (0, replicate (cfg_threshold config) 0) (bt_values all_dealings)) (\<lambda>(secret, aggregate).
     rbind (commitment_from_coefficients aggregate) (\<lambda>aggregate_commitment.
     rbind (rfold (\<lambda>m participant. rbind (public_key_share G aggregate_commitment participant) (\<lambda>pk.
                     Inr (bt_insert participant pk m)))
              bt_empty (registry_indexes (cfg_registry config))) (\<lambda>public_key_shares.
       Inr \<lparr>out_public_key = public_key aggregate_commitment,
            out_secret_share = \<lparr>share_participant = receiver, share_value = secret\<rparr>,
            out_public_key_shares = public_key_shares,
            out_transcript_root = completion_root G all_dealings\<rparr>)))))))"

section \<open>Collecting the dealings\<close>

lemma collect_dealings_step:
  assumes "bt_sorted m"
  shows "rfold (\<lambda>all_dealings (dealer, m).
        if dealer \<noteq> dm_dealer m then Inl (DealerKeyMismatch (index_get dealer) (index_get (dm_dealer m)))
        else if bt_contains_key all_dealings (dm_dealer m)
        then Inl (DuplicateParticipantIndex (index_get (dm_dealer m)))
        else Inr (bt_insert (dm_dealer m) m all_dealings)) m peers = Inr all_dealings
    \<longleftrightarrow> (\<forall>(d, msg) \<in> set peers. d = dm_dealer msg \<and> d \<notin> set (bt_keys m))
      \<and> distinct (map fst peers) \<and> all_dealings = fold (\<lambda>(d, msg). bt_insert d msg) peers m"
  using assms
proof (induction peers arbitrary: m)
  case (Cons e peers)
  obtain d msg where e: "e = (d, msg)" by (cases e)
  have "(\<forall>(d', m') \<in> set peers. d' = dm_dealer m' \<and> d' \<notin> set (bt_keys (bt_insert d msg m)))
    \<longleftrightarrow> (\<forall>(d', m') \<in> set peers. d' = dm_dealer m' \<and> d' \<notin> set (bt_keys m)) \<and> d \<notin> fst ` set peers"
    by (force simp: bt_keys_insert)
  then show ?case
    using Cons.IH[of "bt_insert d msg m"] Cons.prems
    by (auto simp: e bt_contains_key_iff bt_sorted_insert)
qed auto

lemma collect_dealings_Inr:
  "collect_dealings own peers = Inr all_dealings \<longleftrightarrow>
    (\<forall>(d, msg) \<in> set peers. d = dm_dealer msg \<and> d \<noteq> dm_dealer own) \<and> distinct (map fst peers)
    \<and> all_dealings = fold (\<lambda>(d, msg). bt_insert d msg) peers [(dm_dealer own, own)]"
proof -
  have "bt_sorted [(dm_dealer own, own)]" by (simp add: bt_sorted_def bt_keys_def)
  from collect_dealings_step[OF this] show ?thesis
    by (simp add: collect_dealings_def bt_empty_def bt_keys_def) 
qed

end
