(* ===== verification/Tiny_Protocol.thy ===== *)
theory Tiny_Protocol
  imports Dealing
begin

text \<open>
  A concrete two-party setting on the finite backend, for the witnesses of the protocol's
  properties: identity secrets 5 and 7, threshold 2, dealer polynomials \<open>2 + 3 x\<close> and \<open>4 + x\<close>. The
  pads are those of the default derivation; the proof of a dealing is one fixed byte string.
\<close>

abbreviation party1 :: participant_index where "party1 \<equiv> ParticipantIndex 1"
abbreviation party2 :: participant_index where "party2 \<equiv> ParticipantIndex 2"

definition tiny_registry :: "(tiny, tiny) participant_registry" where
  "tiny_registry =
     \<lparr>registry_participants =
        [(party1, 5, \<lparr>nonce_point = 1, response = 6\<rparr>), (party2, 7, \<lparr>nonce_point = 1, response = 8\<rparr>)],
      registry_root_value = replicate 32 1\<rparr>"

definition tiny_config :: "(tiny, tiny) dkg_config" where
  "tiny_config =
     \<lparr>cfg_threshold = 2, cfg_session_id = SessionId (replicate 32 0), cfg_beta = 3,
      cfg_registry = tiny_registry\<rparr>"

definition tiny_backend :: "(tiny, tiny, unit) evrf_backend" where
  "tiny_backend =
     \<lparr>proof_id = ascii ''tiny-proof'',
      derive_pad = default_derive_pad tiny_group,
      prove_batch = (\<lambda>statements witnesses r. Some (Inr ([7], r))),
      verify_batch = (\<lambda>statements pr. if pr = [7] then Inr () else Inl ProofVerificationFailed),
      verify_proof_batch =
        default_verify_proof_batch (\<lambda>statements pr. if pr = [7] then Inr () else Inl ProofVerificationFailed)\<rparr>"

definition tiny_message :: "participant_index \<Rightarrow> tiny list \<Rightarrow> participant_index \<Rightarrow> tiny \<Rightarrow> bytes \<Rightarrow> (tiny, tiny) dealer_message" where
  "tiny_message dealer cs receiver encrypted pr =
     \<lparr>dm_session_id = SessionId (replicate 32 0), dm_registry_root = replicate 32 1, dm_dealer = dealer,
      dm_msg_i = DealerMessageNonce (replicate 32 0), dm_commitment = \<lparr>commitment_coefficients = cs\<rparr>,
      dm_encrypted_shares = [(receiver, \<lparr>es_pad_commitment = 1, es_encrypted_share = encrypted\<rparr>)],
      dm_proof = pr, dm_transcript_root = replicate 32 1\<rparr>"

abbreviation tiny_message1 :: "(tiny, tiny) dealer_message" where
  "tiny_message1 \<equiv> tiny_message party1 [2, 3] party2 9 [7]"

abbreviation tiny_message2 :: "(tiny, tiny) dealer_message" where
  "tiny_message2 \<equiv> tiny_message party2 [4, 1] party1 6 [7]"

lemma tiny_message_fields [simp]:
  "dm_session_id (tiny_message d cs rc e pr) = SessionId (replicate 32 0)"
  "dm_registry_root (tiny_message d cs rc e pr) = replicate 32 1"
  "dm_dealer (tiny_message d cs rc e pr) = d"
  "dm_msg_i (tiny_message d cs rc e pr) = DealerMessageNonce (replicate 32 0)"
  "dm_commitment (tiny_message d cs rc e pr) = \<lparr>commitment_coefficients = cs\<rparr>"
  "dm_encrypted_shares (tiny_message d cs rc e pr)
    = [(rc, \<lparr>es_pad_commitment = 1, es_encrypted_share = e\<rparr>)]"
  "dm_proof (tiny_message d cs rc e pr) = pr"
  "dm_transcript_root (tiny_message d cs rc e pr) = replicate 32 1"
  by (simp_all add: tiny_message_def)

lemma tiny_config_fields [simp]:
  "cfg_threshold tiny_config = 2" "cfg_session_id tiny_config = SessionId (replicate 32 0)"
  "cfg_beta tiny_config = 3" "cfg_registry tiny_config = tiny_registry"
  by (simp_all add: tiny_config_def)

lemma tiny_registry_facts [simp]:
  "registry_indexes tiny_registry = [party1, party2]"
  "registry_root_value tiny_registry = replicate 32 1"
  "registry_public_key tiny_registry party1 = Inr 5"
  "registry_public_key tiny_registry party2 = Inr 7"
  by (simp_all add: tiny_registry_def registry_indexes_def bt_keys_def registry_public_key_def bt_get_def)

lemma tiny_registry_sorted [simp]: "bt_sorted (registry_participants tiny_registry)"
  by (simp add: tiny_registry_def bt_sorted_def bt_keys_def less_participant_index_def)

lemma tiny_pad [simp]: "default_derive_pad tiny_group m beta s peer receiver = Inr 1"
  by (simp add: default_derive_pad_def derive_default_pad_def Let_def)

lemma tiny_backend_fields [simp]:
  "derive_pad tiny_backend m beta s peer receiver = Inr 1"
  "prove_batch tiny_backend statements witnesses r = Some (Inr ([7], r))"
  "verify_batch tiny_backend statements pr = (if pr = [7] then Inr () else Inl ProofVerificationFailed)"
  "verify_proof_batch tiny_backend = default_verify_proof_batch (verify_batch tiny_backend)"
  by (simp_all add: tiny_backend_def default_derive_pad_def derive_default_pad_def Let_def)

lemma tiny_roots [simp]: "tb_root tiny_group t = replicate 32 1"
  by (simp add: tb_root_def tiny_hash_def)

end
