(* ===== verification/Dealing_Checks.thy ===== *)
theory Dealing_Checks
  imports Tiny_Protocol
begin

text \<open>
  What public verification of dealings checks: the receiver keys, the structure of a dealing, one
  batch of dealings against its members, and the binding of the transcript roots.
\<close>

definition wf_config :: "('s, 'e) dkg_config \<Rightarrow> bool" where
  "wf_config config \<longleftrightarrow> bt_sorted (registry_participants (cfg_registry config)) \<and> 0 < cfg_threshold config"

section \<open>Lookup in the registry\<close>

lemma registry_public_key_ok:
  "is_ok (registry_public_key reg p) \<longleftrightarrow> p \<in> set (registry_indexes reg)"
  using bt_get_dom[of "registry_participants reg"]
  by (auto simp: is_ok_iff registry_public_key_def registry_indexes_def)

lemma registry_indexes_pk:
  "p \<in> set (registry_indexes reg) \<Longrightarrow> \<exists>pk. registry_public_key reg p = Inr pk"
  using registry_public_key_ok[of reg p] by (simp add: is_ok_iff)

lemma registry_public_key_in:
  "registry_public_key reg p = Inr pk \<Longrightarrow> p \<in> set (registry_indexes reg)"
  using registry_public_key_ok[of reg p] by simp

lemma wf_config_sorted: "wf_config config \<Longrightarrow> sorted_wrt (<) (registry_indexes (cfg_registry config))"
  by (simp add: wf_config_def bt_sorted_def registry_indexes_def)

lemma wf_config_distinct: "wf_config config \<Longrightarrow> distinct (registry_indexes (cfg_registry config))"
  using wf_config_sorted strict_sorted_iff by blast

lemma set_public_share_receivers:
  "set (public_share_receivers config dealer) = set (registry_indexes (cfg_registry config)) - {dealer}"
  by (auto simp: public_share_receivers_def)

lemma length_public_share_receivers:
  assumes "wf_config config" and "dealer \<in> set (registry_indexes (cfg_registry config))"
  shows "length (public_share_receivers config dealer) = length (registry_indexes (cfg_registry config)) - 1"
proof -
  let ?idx = "registry_indexes (cfg_registry config)"
  have "length (filter (\<lambda>x. x \<noteq> dealer) ?idx) = card (set ?idx - {dealer})"
    using wf_config_distinct[OF assms(1)]
    by (subst distinct_card[symmetric]) (auto intro: arg_cong[of _ _ card])
  then show ?thesis
    using assms(2) wf_config_distinct[OF assms(1)]
    by (simp add: public_share_receivers_def distinct_card)
qed

section \<open>The structural checks of a dealing\<close>

lemma ensure_public_share_keys_ok:
  "ensure_public_share_keys m config = Inr () \<longleftrightarrow>
    set (bt_keys (dm_encrypted_shares m)) = set (public_share_receivers config (dm_dealer m))"
  by (auto simp: ensure_public_share_keys_def rfold_check registry_public_key_ok
      set_public_share_receivers bt_contains_key_iff)

definition dealing_well_formed ::
  "('s, 'e, 'z) golden_group_scheme \<Rightarrow> ('s, 'e) dealer_message \<Rightarrow> ('s, 'e) dkg_config \<Rightarrow> bool" where
  "dealing_well_formed G m config \<longleftrightarrow>
     dm_session_id m = cfg_session_id config
     \<and> dm_registry_root m = registry_root_value (cfg_registry config)
     \<and> dm_dealer m \<in> set (registry_indexes (cfg_registry config))
     \<and> length (commitment_coefficients (dm_commitment m)) = cfg_threshold config
     \<and> recompute_transcript_root G m = dm_transcript_root m
     \<and> set (bt_keys (dm_encrypted_shares m))
         = set (registry_indexes (cfg_registry config)) - {dm_dealer m}"

lemma receiver_statement_ok:
  assumes "dm_dealer m \<in> set (registry_indexes (cfg_registry config))"
    and "p \<in> set (registry_indexes (cfg_registry config))"
    and "p \<in> set (bt_keys (dm_encrypted_shares m))"
  shows "is_ok (receiver_statement G m config p)"
proof -
  obtain es where "bt_get (dm_encrypted_shares m) p = Some es"
    using assms(3) bt_get_dom by fastforce
  moreover obtain d r where "registry_public_key (cfg_registry config) (dm_dealer m) = Inr d"
      "registry_public_key (cfg_registry config) p = Inr r"
    using assms registry_indexes_pk by blast
  ultimately show ?thesis
    by (simp add: receiver_statement_def statement_for_receiver_def Let_def)
qed

lemma dealing_statements_Inr:
  "dealing_statements G m config = Inr sts \<longleftrightarrow>
    dealing_well_formed G m config
    \<and> collect (receiver_statement G m config) (public_share_receivers config (dm_dealer m)) = Inr sts"
proof -
  have "(\<exists>pk. registry_public_key (cfg_registry config) (dm_dealer m) = Inr pk)
      \<longleftrightarrow> dm_dealer m \<in> set (registry_indexes (cfg_registry config))"
    using registry_public_key_ok[of "cfg_registry config" "dm_dealer m"] by (simp add: is_ok_iff)
  then show ?thesis
    by (auto simp: dealing_statements_def dealing_well_formed_def recompute_transcript_root_def
        ensure_public_share_keys_ok set_public_share_receivers Let_def)
qed

lemma dealing_statements_well_formed:
  assumes "dealing_well_formed G m config"
  shows "is_ok (collect (receiver_statement G m config) (public_share_receivers config (dm_dealer m)))"
  using assms by (auto simp: collect_ok_iff set_public_share_receivers dealing_well_formed_def
      intro!: receiver_statement_ok)

lemma dealing_statements_is_ok:
  "is_ok (dealing_statements G m config) \<longleftrightarrow> dealing_well_formed G m config"
  using dealing_statements_well_formed[of G m config]
  by (auto simp: is_ok_iff dealing_statements_Inr)

lemma dealing_statements_empty:
  assumes "wf_config config" and "dealing_statements G m config = Inr sts"
  shows "sts = [] \<longleftrightarrow> length (registry_indexes (cfg_registry config)) = 1"
proof -
  have dealer: "dm_dealer m \<in> set (registry_indexes (cfg_registry config))"
    and "length sts = length (public_share_receivers config (dm_dealer m))"
    using assms(2) by (auto simp: dealing_statements_Inr dealing_well_formed_def dest: collect_length)
  then have "length sts = length (registry_indexes (cfg_registry config)) - 1"
    using length_public_share_receivers[OF assms(1)] by simp
  moreover have "0 < length (registry_indexes (cfg_registry config))" using dealer by auto
  moreover have "sts = [] \<longleftrightarrow> length sts = 0" by simp
  ultimately show ?thesis by linarith
qed

section \<open>A batch of dealings\<close>

lemma verify_dealing_Inr:
  "verify_dealing G B m config = Inr () \<longleftrightarrow>
    (\<exists>sts. dealing_statements G m config = Inr sts
      \<and> (if sts = [] then dm_proof m = [] else verify_batch B sts (dm_proof m) = Inr ()))"
  by (auto simp: verify_dealing_def)

text \<open>With statements computed, a batch is judged by one of two checks of its members.\<close>

lemma verify_dealings_cases:
  assumes "wf_config config" and "messages \<noteq> []"
    and "collect (\<lambda>m. dealing_statements G m config) messages = Inr batches"
  shows "verify_dealings G B messages config =
    (if length (registry_indexes (cfg_registry config)) = 1
     then rfold (\<lambda>_ m. if dm_proof m \<noteq> []
            then Inl (DealerProofVerificationFailed (index_get (dm_dealer m))) else Inr ()) () messages
     else
       let proofs = map (\<lambda>(sts, m). (sts, dm_proof m)) (zip batches messages)
       in case verify_proof_batch B proofs of
            Inr _ \<Rightarrow> Inr ()
          | Inl batch_error \<Rightarrow>
              rbind (rfold (\<lambda>_ ((statements, pr), m).
                if \<not> is_ok (verify_batch B statements pr)
                then Inl (DealerProofVerificationFailed (index_get (dm_dealer m))) else Inr ())
               () (zip proofs messages)) (\<lambda>_. Inl batch_error))"
proof -
  have rel: "list_all2 (\<lambda>m sts. dealing_statements G m config = Inr sts) messages batches"
    using assms(3) by (simp add: collect_eq_Inr)
  have "\<exists>m. dealing_statements G m config = Inr sts" if "sts \<in> set batches" for sts
    using rel that by (auto simp: list_all2_conv_all_nth in_set_conv_nth)
  then have "(sts = []) = (length (registry_indexes (cfg_registry config)) = 1)"
    if "sts \<in> set batches" for sts
    using that dealing_statements_empty[OF assms(1)] by blast
  moreover have "batches \<noteq> []" using rel assms(2) by auto
  ultimately have "list_all (\<lambda>sts. sts = []) batches
      \<longleftrightarrow> length (registry_indexes (cfg_registry config)) = 1"
    by (cases batches) (auto simp: list_all_iff)
  with assms(2,3) show ?thesis by (simp add: verify_dealings_def Let_def)
qed

lemma zip_dealings:
  assumes "collect (\<lambda>m. dealing_statements G m config) messages = Inr batches"
  shows "zip (map (\<lambda>(sts, m). (sts, dm_proof m)) (zip batches messages)) messages
    = map (\<lambda>(sts, m). ((sts, dm_proof m), m)) (zip batches messages)"
    and "(\<forall>(sts, m) \<in> set (zip batches messages). P sts m)
      \<longleftrightarrow> (\<forall>m \<in> set messages. \<exists>sts. dealing_statements G m config = Inr sts \<and> P sts m)"
proof -
  have rel: "list_all2 (\<lambda>m sts. dealing_statements G m config = Inr sts) messages batches"
    using assms by (simp add: collect_eq_Inr)
  then have len: "length batches = length messages" by (simp add: list_all2_lengthD)
  then show "zip (map (\<lambda>(sts, m). (sts, dm_proof m)) (zip batches messages)) messages
    = map (\<lambda>(sts, m). ((sts, dm_proof m), m)) (zip batches messages)"
    by (intro nth_equalityI) auto
  show "(\<forall>(sts, m) \<in> set (zip batches messages). P sts m)
      \<longleftrightarrow> (\<forall>m \<in> set messages. \<exists>sts. dealing_statements G m config = Inr sts \<and> P sts m)"
    using rel
    by (induction messages batches rule: list_all2_induct) auto
qed

lemma verify_dealings_members:
  assumes "wf_config config" and "messages \<noteq> []"
    and "collect (\<lambda>m. dealing_statements G m config) messages = Inr batches"
  shows "(\<forall>m \<in> set messages. verify_dealing G B m config = Inr ()) \<longleftrightarrow>
    (if length (registry_indexes (cfg_registry config)) = 1 then \<forall>m \<in> set messages. dm_proof m = []
     else \<forall>(sts, m) \<in> set (zip batches messages). verify_batch B sts (dm_proof m) = Inr ())"
proof -
  have "\<forall>m \<in> set messages. \<exists>sts. dealing_statements G m config = Inr sts"
    using assms(3) by (meson collect_Inr_all)
  moreover have "(sts = []) = (length (registry_indexes (cfg_registry config)) = 1)"
    if "dealing_statements G m config = Inr sts" for m sts
    using dealing_statements_empty[OF assms(1) that] .
  ultimately show ?thesis
    unfolding zip_dealings(2)[OF assms(3)] verify_dealing_Inr
    by (cases "length (registry_indexes (cfg_registry config)) = 1") (fastforce, fastforce)
qed

text \<open>The loops that look for an invalid proof test the dealings one by one.\<close>

lemma verify_dealings_retry:
  assumes "wf_config config" and "collect (\<lambda>m. dealing_statements G m config) messages = Inr batches"
  defines "single \<equiv> length (registry_indexes (cfg_registry config)) = 1"
  shows "single \<Longrightarrow>
      rfold (\<lambda>_ m. if dm_proof m \<noteq> [] then Inl (f m) else Inr ()) () messages
      = rfold (\<lambda>_ m. if verify_dealing G B m config \<noteq> Inr () then Inl (f m) else Inr ()) () messages"
    and "\<not> single \<Longrightarrow>
      rfold (\<lambda>_ ((statements, pr), m). if \<not> is_ok (verify_batch B statements pr) then Inl (f m) else Inr ())
        () (zip (map (\<lambda>(sts, m). (sts, dm_proof m)) (zip batches messages)) messages)
      = rfold (\<lambda>_ m. if verify_dealing G B m config \<noteq> Inr () then Inl (f m) else Inr ()) () messages"
proof -
  have rel: "list_all2 (\<lambda>m sts. dealing_statements G m config = Inr sts) messages batches"
    using assms(2) by (simp add: collect_eq_Inr)
  have empty: "(sts = []) = single" if "dealing_statements G m config = Inr sts" for m sts
    unfolding single_def by (rule dealing_statements_empty[OF assms(1) that])
  show "rfold (\<lambda>_ m. if dm_proof m \<noteq> [] then Inl (f m) else Inr ()) () messages
      = rfold (\<lambda>_ m. if verify_dealing G B m config \<noteq> Inr () then Inl (f m) else Inr ()) () messages" if single
    using rel
  proof (induction rule: list_all2_induct)
    case (Cons m ms sts batches)
    have "verify_dealing G B m config = (if dm_proof m = [] then Inr () else Inl ProofVerificationFailed)"
      using empty[OF Cons.hyps(1)] Cons.hyps(1) that by (simp add: verify_dealing_def)
    with Cons.IH show ?case by simp
  qed simp
  show "rfold (\<lambda>_ ((statements, pr), m). if \<not> is_ok (verify_batch B statements pr) then Inl (f m) else Inr ())
        () (zip (map (\<lambda>(sts, m). (sts, dm_proof m)) (zip batches messages)) messages)
      = rfold (\<lambda>_ m. if verify_dealing G B m config \<noteq> Inr () then Inl (f m) else Inr ()) () messages"
    if "\<not> single"
    using rel
  proof (induction rule: list_all2_induct)
    case (Cons m ms sts batches)
    have "verify_dealing G B m config = verify_batch B sts (dm_proof m)"
      using empty[OF Cons.hyps(1)] Cons.hyps(1) that by (simp add: verify_dealing_def)
    with Cons.IH show ?case by (simp add: is_ok_iff)
  qed simp
qed

section \<open>Transcripts\<close>

definition dealing_items ::
  "('s, 'e, 'z) golden_group_scheme \<Rightarrow> ('s, 'e) dealer_message \<Rightarrow> (bytes \<times> bytes) list" where
  "dealing_items G m =
     [item_u32 (ascii ''version'') PROTOCOL_VERSION, (ascii ''backend'', backend_id G),
      (ascii ''session'', session_bytes (dm_session_id m)), (ascii ''registry'', dm_registry_root m),
      item_u32 (ascii ''dealer'') (index_get (dm_dealer m)), (ascii ''msg-i'', nonce_bytes (dm_msg_i m)),
      item_usize (ascii ''commitment-len'') (length (commitment_coefficients (dm_commitment m)))]
     @ map (\<lambda>e. (ascii ''commitment'', encode_element G e)) (commitment_coefficients (dm_commitment m))
     @ item_usize (ascii ''encrypted-shares-len'') (length (dm_encrypted_shares m))
     # concat (map (\<lambda>(p, es). [item_u32 (ascii ''encrypted-receiver'') (index_get p),
          (ascii ''pad-commitment'', encode_element G (es_pad_commitment es)),
          (ascii ''encrypted-share'', scalar_to_repr G (es_encrypted_share es))]) (dm_encrypted_shares m))"

definition message_transcript ::
  "('s, 'e, 'z) golden_group_scheme \<Rightarrow> ('s, 'e) dealer_message \<Rightarrow> transcript_builder" where
  "message_transcript G m =
     dealing_transcript G (dm_session_id m) (dm_registry_root m) (dm_dealer m) (dm_msg_i m)
       (dm_commitment m) (dm_encrypted_shares m)"

lemma fold_frames:
  "fold (tb_element G l) es t = tb_append (map (\<lambda>e. (l, encode_element G e)) es) t"
  "fold (tb_bytes l) bs t = tb_append (map (\<lambda>b. (l, b)) bs) t"
  using tb_append_fold[of "tb_element G l" "\<lambda>e. [(l, encode_element G e)]" es t]
    tb_append_fold[of "tb_bytes l" "\<lambda>b. [(l, b)]" bs t]
  by (simp_all add: transcript_simps)

lemma dealing_transcript_items:
  "message_transcript G m = tb_append (dealing_items G m) (tb_new (ascii ''dealing''))"
proof -
  let ?f = "\<lambda>(receiver, es) t. tb_scalar G (ascii ''encrypted-share'') (es_encrypted_share es)
    (tb_element G (ascii ''pad-commitment'') (es_pad_commitment es)
    (tb_participant (ascii ''encrypted-receiver'') receiver t))"
  have f: "fold ?f es t = tb_append (concat (map (\<lambda>(p, es). [item_u32 (ascii ''encrypted-receiver'') (index_get p),
          (ascii ''pad-commitment'', encode_element G (es_pad_commitment es)),
          (ascii ''encrypted-share'', scalar_to_repr G (es_encrypted_share es))]) es)) t" for es t
    by (rule tb_append_fold) (auto simp: transcript_simps split_beta)
  show ?thesis
    unfolding message_transcript_def dealing_transcript_def dealing_items_def Let_def f
    by (simp add: fold_frames transcript_simps)
qed

text \<open>The array and length types of the code: arrays hold 32 bytes, lengths are \<open>usize\<close>.\<close>

definition message_sizes :: "('s, 'e) dealer_message \<Rightarrow> bool" where
  "message_sizes m \<longleftrightarrow> length (session_bytes (dm_session_id m)) = 32 \<and> length (dm_registry_root m) = 32
     \<and> length (nonce_bytes (dm_msg_i m)) = 32 \<and> length (dm_transcript_root m) = 32
     \<and> length (commitment_coefficients (dm_commitment m)) < 2 ^ 64 \<and> length (dm_encrypted_shares m) < 2 ^ 64"

lemma dealing_items_short:
  "golden_codec G \<Longrightarrow> message_sizes m \<Longrightarrow> list_all short_frame (dealing_items G m)"
  by (auto simp: dealing_items_def message_sizes_def golden_codec.codec_frames list.pred_map
      comp_def list.pred_True)

lemma encode_map_inject:
  "golden_codec G \<Longrightarrow>
    map (\<lambda>e. (l, encode_element G e)) es = map (\<lambda>e. (l, encode_element G e)) es' \<longleftrightarrow> es = es'"
  by (intro inj_map_eq_map injI) (simp add: golden_codec.encode_element_inject)

lemma encrypted_items_inject:
  assumes "golden_codec G"
  shows "concat (map (\<lambda>(p, es). [item_u32 l (index_get p), (l', encode_element G (es_pad_commitment es)),
        (l'', scalar_to_repr G (es_encrypted_share es))]) m)
      = concat (map (\<lambda>(p, es). [item_u32 l (index_get p), (l', encode_element G (es_pad_commitment es)),
        (l'', scalar_to_repr G (es_encrypted_share es))]) m')
    \<longleftrightarrow> m = (m' :: ('s::field, 'e::ab_group_add) share_map)"
proof (induction m arbitrary: m')
  case Nil
  show ?case by (cases m') (auto split: prod.splits)
next
  case (Cons x m)
  obtain p a b where x: "x = (p, \<lparr>es_pad_commitment = a, es_encrypted_share = b\<rparr>)"
    by (cases x; cases "snd x") auto
  show ?case
  proof (cases m')
    case (Cons y ms)
    obtain q c d where y: "y = (q, \<lparr>es_pad_commitment = c, es_encrypted_share = d\<rparr>)"
      by (cases y; cases "snd y") auto
    show ?thesis
      unfolding Cons x y
      by (simp add: Cons.IH golden_codec.encode_element_inject[OF assms]
          golden_codec.scalar_to_repr_inject[OF assms])
  qed (simp split: prod.splits)
qed

definition statement_items ::
  "('s, 'e, 'z) golden_group_scheme \<Rightarrow> ('s, 'e) evrf_statement \<Rightarrow> (bytes \<times> bytes) list" where
  "statement_items G s =
     [item_u32 (ascii ''version'') (st_protocol_version s), (ascii ''backend'', st_backend_id s),
      (ascii ''session'', session_bytes (st_session_id s)), (ascii ''registry'', st_registry_root s),
      item_usize (ascii ''threshold'') (st_threshold s),
      item_u32 (ascii ''dealer'') (index_get (st_dealer s)),
      item_u32 (ascii ''receiver'') (index_get (st_receiver s)), (ascii ''msg-i'', nonce_bytes (st_msg_i s)),
      (ascii ''beta'', scalar_to_repr G (st_beta s)),
      (ascii ''dealer-pk'', encode_element G (st_dealer_public_key s)),
      (ascii ''receiver-pk'', encode_element G (st_receiver_public_key s)),
      item_usize (ascii ''commitment-len'') (length (st_commitment_coefficients s))]
     @ map (\<lambda>e. (ascii ''commitment'', encode_element G e)) (st_commitment_coefficients s)
     @ [(ascii ''share-commitment'', encode_element G (st_share_commitment s)),
        (ascii ''pad-commitment'', encode_element G (st_pad_commitment s)),
        (ascii ''encrypted-share'', scalar_to_repr G (st_encrypted_share s)),
        (ascii ''dealing-root'', st_transcript_root s)]"

definition statement_transcript ::
  "('s, 'e, 'z) golden_group_scheme \<Rightarrow> ('s, 'e) evrf_statement \<Rightarrow> transcript_builder" where
  "statement_transcript G s =
     statement_transcript_with_coefficients G s (map (encode_element G) (st_commitment_coefficients s))"

lemma statement_transcript_items:
  "statement_transcript G s = tb_append (statement_items G s) (tb_new (ascii ''evrf-statement''))"
  by (simp add: statement_transcript_def statement_transcript_with_coefficients_def
      statement_items_def Let_def fold_frames transcript_simps comp_def)

definition statement_sizes :: "('s, 'e) evrf_statement \<Rightarrow> bool" where
  "statement_sizes s \<longleftrightarrow> length (st_backend_id s) < 2 ^ 64 \<and> length (session_bytes (st_session_id s)) = 32
     \<and> length (st_registry_root s) = 32 \<and> length (nonce_bytes (st_msg_i s)) = 32
     \<and> length (st_transcript_root s) = 32 \<and> st_threshold s < 2 ^ 64
     \<and> length (st_commitment_coefficients s) < 2 ^ 64"

lemma statement_items_short:
  "golden_codec G \<Longrightarrow> statement_sizes s \<Longrightarrow> list_all short_frame (statement_items G s)"
  by (auto simp: statement_items_def statement_sizes_def golden_codec.codec_frames list.pred_map comp_def
      list.pred_True)

text \<open>The root of a statement is the digest of \<open>statement_transcript\<close>.\<close>

lemma statement_root_transcript: "statement_root G s = tb_root G (statement_transcript G s)"
  by (simp add: statement_root_def statement_root_with_coefficients_def statement_transcript_def)

lemma message_root_transcript: "recompute_transcript_root G m = tb_root G (message_transcript G m)"
  by (simp add: recompute_transcript_root_def dealing_root_def message_transcript_def)

section \<open>Properties\<close>

text \<open>
  The constructors establish the invariant of the protocol: a configuration built by
  \<open>DkgConfig::new\<close> on a registry built by \<open>ParticipantRegistry::new\<close> has a registry in strictly
  increasing order and a threshold between one and the number of participants.
\<close>

theorem dkg_config_new_wf:
  assumes "golden_codec G" and "registry_new G entries = Inr reg"
    and "dkg_config_new threshold session beta reg = Inr config"
  shows "wf_config config \<and> cfg_registry config = reg \<and> cfg_threshold config \<le> length entries"
proof -
  have m: "registry_participants reg = fold (\<lambda>(p, v). bt_insert p v) entries bt_empty"
    and d: "distinct (map fst entries)"
    using assms(2) by (auto simp: registry_new_Inr[OF assms(1)] Let_def entries_ok_def)
  have sorted: "bt_sorted (registry_participants reg)"
    unfolding m by (rule bt_fold_insert_sorted) simp
  have "set (bt_keys (registry_participants reg)) = set (map fst entries)"
    unfolding m bt_get_dom
    by (auto simp: bt_fold_insert_get[OF bt_sorted_empty(1) d] map_of_eq_None_iff split: option.splits)
  moreover have "distinct (bt_keys (registry_participants reg))"
    using bt.distinct_keys[OF sorted] .
  ultimately have "length (registry_participants reg) = length entries"
    using d by (metis distinct_card length_map bt_keys_def)
  with sorted assms(3) show ?thesis
    by (auto simp: dkg_config_new_def wf_config_def registry_len_def split: if_splits)
qed

lemma dkg_config_new_wf_witness: "wf_config tiny_config \<and> cfg_threshold tiny_config \<le> 2"
proof -
  have reg: "registry_new tiny_group
      [(party1, 5, \<lparr>nonce_point = 1, response = 6\<rparr>), (party2, 7, \<lparr>nonce_point = 1, response = 8\<rparr>)] = Inr tiny_registry"
    unfolding registry_new_Inr[OF tiny.golden_codec_axioms]
    by (simp add: entries_ok_def tiny_identity_verify tiny_eval bt_empty_def tiny_registry_def
        less_participant_index_def registry_root_def tb_root_def tiny_hash_def)
  have "dkg_config_new 2 (SessionId (replicate 32 0)) 3 tiny_registry = Inr tiny_config"
    by (simp add: dkg_config_new_def registry_len_def tiny_registry_def tiny_config_def)
  from dkg_config_new_wf[OF tiny.golden_codec_axioms reg this] show ?thesis by simp
qed

text \<open>
  Public verification of a dealing's structure accepts exactly the messages of this session and
  registry, from a registered dealer, of the configured degree, with a matching root, and with one
  encrypted share for each registered participant but the dealer.
\<close>

theorem dealing_statements_ok_iff:
  "is_ok (dealing_statements G m config) \<longleftrightarrow>
    dm_session_id m = cfg_session_id config
    \<and> dm_registry_root m = registry_root_value (cfg_registry config)
    \<and> dm_dealer m \<in> set (registry_indexes (cfg_registry config))
    \<and> length (commitment_coefficients (dm_commitment m)) = cfg_threshold config
    \<and> recompute_transcript_root G m = dm_transcript_root m
    \<and> set (bt_keys (dm_encrypted_shares m))
        = set (registry_indexes (cfg_registry config)) - {dm_dealer m}"
  by (simp add: dealing_statements_is_ok dealing_well_formed_def)

text \<open>
  With the default batch method of the backend trait, verifying several dealings together
  accepts exactly when there is at least one and each of them verifies alone.
\<close>

theorem verify_dealings_default_iff:
  assumes "wf_config config" and "verify_proof_batch B = default_verify_proof_batch (verify_batch B)"
  shows "verify_dealings G B messages config = Inr () \<longleftrightarrow>
    messages \<noteq> [] \<and> (\<forall>m \<in> set messages. verify_dealing G B m config = Inr ())"
proof (cases "collect (\<lambda>m. dealing_statements G m config) messages")
  case (Inl e)
  then obtain m where "m \<in> set messages" "dealing_statements G m config = Inl e"
    using collect_Inl by fastforce
  then have "verify_dealing G B m config \<noteq> Inr ()" by (simp add: verify_dealing_def)
  with Inl \<open>m \<in> set messages\<close> show ?thesis by (auto simp: verify_dealings_def)
next
  case (Inr batches)
  show ?thesis
  proof (cases "messages = []")
    case False
    have batch: "default_verify_proof_batch (verify_batch B)
        (map (\<lambda>(sts, m). (sts, dm_proof m)) (zip batches messages)) = Inr ()
      \<longleftrightarrow> (\<forall>(sts, m) \<in> set (zip batches messages). verify_batch B sts (dm_proof m) = Inr ())"
      unfolding default_verify_proof_batch_def rfold_unit_ok by auto
    show ?thesis
      unfolding verify_dealings_members[OF assms(1) False Inr]
      using False batch unfolding verify_dealings_cases[OF assms(1) False Inr] assms(2)
      by (auto simp: rfold_check Let_def split: sum.splits)
  qed (simp add: verify_dealings_def)
qed

lemma tiny_wf_config [simp]: "wf_config tiny_config"
  by (simp add: wf_config_def)

lemma tiny_message1_ok: "is_ok (dealing_statements tiny_group (tiny_message party1 cs party2 e pr) tiny_config)"
  if "length cs = 2"
  using that by (auto simp: dealing_statements_is_ok dealing_well_formed_def recompute_transcript_root_def
      dealing_root_def bt_keys_def)

lemma verify_dealings_default_iff_witness:
  "verify_dealings tiny_group tiny_backend
      [tiny_message party1 [2, 3] party2 9 [7], tiny_message party1 [2, 3] party2 9 [8]] tiny_config \<noteq> Inr ()"
proof -
  have "verify_dealing tiny_group tiny_backend (tiny_message party1 [2, 3] party2 9 [8]) tiny_config \<noteq> Inr ()"
    by (simp add: verify_dealing_Inr)
  then show ?thesis
    by (subst verify_dealings_default_iff) simp_all
qed

lemma collect_first_error:
  "collect f xs = Inl e \<Longrightarrow> \<exists>ys x zs. xs = ys @ x # zs \<and> (\<forall>y \<in> set ys. is_ok (f y)) \<and> f x = Inl e"
proof (induction xs)
  case (Cons x xs)
  show ?case
  proof (cases "f x")
    case (Inl err)
    with Cons.prems show ?thesis by (intro exI[of _ "[]"] exI[of _ x] exI[of _ xs]) simp
  next
    case (Inr y)
    with Cons.prems have "collect f xs = Inl e" by (cases "collect f xs") simp_all
    from Cons.IH[OF this] obtain ys x' zs where "xs = ys @ x' # zs" "\<forall>y \<in> set ys. is_ok (f y)" "f x' = Inl e" by blast
    with Inr show ?thesis by (intro exI[of _ "x # ys"] exI[of _ x'] exI[of _ zs]) simp
  qed
qed simp

lemma verify_dealings_run:
  fixes B :: "('s, 'e::ab_group_add, 'r, 'y) evrf_backend_scheme"
  assumes "wf_config config" and "messages \<noteq> []" and "collect (\<lambda>m. dealing_statements G m config) messages = Inr batches"
  defines "checks \<equiv> rfold (\<lambda>_ m. if verify_dealing G B m config \<noteq> Inr ()
    then Inl (DealerProofVerificationFailed (index_get (dm_dealer m))) else Inr ()) () messages"
  shows "verify_dealings G B messages config =
    (if length (registry_indexes (cfg_registry config)) = 1 then checks
     else case verify_proof_batch B (map (\<lambda>(sts, m). (sts, dm_proof m)) (zip batches messages)) of
            Inr _ \<Rightarrow> Inr ()
          | Inl batch_error \<Rightarrow> rbind checks (\<lambda>_. Inl batch_error))"
  using verify_dealings_cases[OF assms(1-3), of B]
    verify_dealings_retry[OF assms(1,3), where B = B and f = "\<lambda>m. DealerProofVerificationFailed (index_get (dm_dealer m))"]
  by (simp add: checks_def split: sum.splits)

text \<open>
  C19. Error attribution: a failed verification of several dealings has one of four causes, and the error says which.
  No dealing was given; or the error is that of the first dealing whose statements cannot be derived; or all
  can, and the error names the dealer of the first dealing that does not verify alone; or every dealing verifies alone
  and the error is what the backend reports for the batch of all their statements and proofs, in order.
  So a dealer whose dealing verifies alone is never blamed for its proof.
\<close>

theorem verify_dealings_blames_invalid:
  assumes "wf_config config" and "verify_dealings G B messages config = Inl e"
  shows "messages = [] \<and> e = ProofVerificationFailed
    \<or> (\<exists>ms m ms'. messages = ms @ m # ms' \<and> (\<forall>m' \<in> set ms. is_ok (dealing_statements G m' config))
      \<and> dealing_statements G m config = Inl e)
    \<or> (\<forall>m \<in> set messages. is_ok (dealing_statements G m config))
      \<and> (\<exists>ms m ms'. messages = ms @ m # ms' \<and> (\<forall>m' \<in> set ms. verify_dealing G B m' config = Inr ())
        \<and> verify_dealing G B m config \<noteq> Inr () \<and> e = DealerProofVerificationFailed (index_get (dm_dealer m)))
    \<or> (\<forall>m \<in> set messages. verify_dealing G B m config = Inr ())
      \<and> (\<exists>batches. collect (\<lambda>m. dealing_statements G m config) messages = Inr batches
        \<and> verify_proof_batch B (map (\<lambda>(sts, m). (sts, dm_proof m)) (zip batches messages)) = Inl e)"
proof (cases "messages = []")
  case True
  then show ?thesis using assms(2) by (simp add: verify_dealings_def)
next
  case nonempty: False
  let ?bad = "\<lambda>m. verify_dealing G B m config \<noteq> Inr ()"
  let ?blame = "\<lambda>m. DealerProofVerificationFailed (index_get (dm_dealer m))"
  show ?thesis
  proof (cases "collect (\<lambda>m. dealing_statements G m config) messages")
    case (Inl err)
    then have "err = e" using assms(2) nonempty by (simp add: verify_dealings_def)
    with collect_first_error[OF Inl] show ?thesis by blast
  next
    case batches: (Inr batches)
    have ok: "\<forall>m \<in> set messages. is_ok (dealing_statements G m config)"
      using collect_Inr_all[OF batches] by (auto simp: is_ok_iff)
    note run = verify_dealings_run[OF assms(1) nonempty batches, of B]
    show ?thesis
    proof (cases "rfold (\<lambda>_ m. if ?bad m then Inl (?blame m) else Inr ()) () messages")
      case (Inl err)
      with run assms(2) have "err = e" by (auto split: if_splits sum.splits)
      with Inl have "\<exists>ms m ms'. messages = ms @ m # ms' \<and> (\<forall>m' \<in> set ms. \<not> ?bad m') \<and> ?bad m \<and> e = ?blame m"
        by (simp only: rfold_check_error)
      with ok show ?thesis by simp
    next
      case (Inr u)
      then have "\<forall>m \<in> set messages. verify_dealing G B m config = Inr ()"
        using rfold_check[of ?bad ?blame messages] by simp
      moreover have "verify_proof_batch B (map (\<lambda>(sts, m). (sts, dm_proof m)) (zip batches messages)) = Inl e"
        using run assms(2) Inr by (auto split: if_splits sum.splits)
      ultimately show ?thesis using batches by blast
    qed
  qed
qed

lemma tiny_statements:
  "length cs = 2 \<Longrightarrow> {d, rc} = {party1, party2} \<Longrightarrow> d \<noteq> rc \<Longrightarrow>
    \<exists>st. dealing_statements tiny_group (tiny_message d cs rc e pr) tiny_config = Inr [st]"
proof -
  assume cs: "length cs = 2" and "{d, rc} = {party1, party2}" and "d \<noteq> rc"
  then have d: "d = party1 \<and> rc = party2 \<or> d = party2 \<and> rc = party1" by (auto simp: doubleton_eq_iff)
  have "dealing_well_formed tiny_group (tiny_message d cs rc e pr) tiny_config"
    using d cs by (auto simp: dealing_well_formed_def recompute_transcript_root_def dealing_root_def bt_keys_def)
  then obtain sts where sts: "dealing_statements tiny_group (tiny_message d cs rc e pr) tiny_config = Inr sts"
    using dealing_statements_is_ok is_ok_iff by metis
  then have "length sts = 1"
    using d by (auto simp: dealing_statements_Inr public_share_receivers_def dest!: collect_length)
  with sts show ?thesis by (auto simp: length_Suc_conv)
qed

lemma verify_dealings_blames_invalid_witness:
  "\<exists>m \<in> {tiny_message1, tiny_message party2 [4, 1] party1 6 [8]}.
    verify_dealing tiny_group tiny_backend m tiny_config \<noteq> Inr ()
    \<and> DealerProofVerificationFailed 2 = DealerProofVerificationFailed (index_get (dm_dealer m))"
proof -
  let ?ms = "[tiny_message1, tiny_message party2 [4, 1] party1 6 [8]]"
  obtain st1 where st1: "dealing_statements tiny_group tiny_message1 tiny_config = Inr [st1]"
    using tiny_statements[of "[2, 3]" party1 party2 9 "[7]"] by auto
  obtain st2 where st2: "dealing_statements tiny_group (tiny_message party2 [4, 1] party1 6 [8]) tiny_config = Inr [st2]"
    using tiny_statements[of "[4, 1]" party2 party1 6 "[8]"] by (auto simp: insert_commute)
  have "verify_dealings tiny_group tiny_backend ?ms tiny_config = Inl (DealerProofVerificationFailed 2)"
    by (simp add: verify_dealings_def st1 st2 default_verify_proof_batch_def)
  note cause = verify_dealings_blames_invalid[OF tiny_wf_config this]
  have "dealing_statements tiny_group m tiny_config \<noteq> Inl e" if "?ms = ms @ m # ms'" for ms m ms' e
  proof -
    have "m \<in> set ?ms" unfolding that by simp
    then show ?thesis using st1 st2 by auto
  qed
  with cause have "(\<exists>ms m ms'. ?ms = ms @ m # ms' \<and> (\<forall>m' \<in> set ms. verify_dealing tiny_group tiny_backend m' tiny_config = Inr ())
      \<and> verify_dealing tiny_group tiny_backend m tiny_config \<noteq> Inr ()
      \<and> DealerProofVerificationFailed 2 = DealerProofVerificationFailed (index_get (dm_dealer m)))
    \<or> (\<forall>m \<in> set ?ms. verify_dealing tiny_group tiny_backend m tiny_config = Inr ())"
    by blast
  then have "(\<exists>m \<in> set ?ms. verify_dealing tiny_group tiny_backend m tiny_config \<noteq> Inr ()
      \<and> DealerProofVerificationFailed 2 = DealerProofVerificationFailed (index_get (dm_dealer m)))
    \<or> (\<forall>m \<in> set ?ms. verify_dealing tiny_group tiny_backend m tiny_config = Inr ())"
    by (metis in_set_conv_decomp)
  moreover have "verify_dealing tiny_group tiny_backend (tiny_message party2 [4, 1] party1 6 [8]) tiny_config \<noteq> Inr ()"
    by (simp add: verify_dealing_def st2)
  ultimately show ?thesis by simp
qed

text \<open>
  C20. The bytes hashed into a dealing's root determine its session, registry, dealer, nonce,
  commitment and encrypted shares: two messages that differ in one of them have different roots
  unless SHA-256 collides on these two inputs.
\<close>

theorem dealing_root_binds:
  assumes "golden_codec G" and "message_sizes m" and "message_sizes m'"
  shows "hasher (message_transcript G m) = hasher (message_transcript G m') \<longleftrightarrow>
    m\<lparr>dm_proof := [], dm_transcript_root := []\<rparr> = m'\<lparr>dm_proof := [], dm_transcript_root := []\<rparr>"
proof -
  have "hasher (message_transcript G m) = hasher (message_transcript G m')
      \<longleftrightarrow> dealing_items G m = dealing_items G m'"
    unfolding dealing_transcript_items
    by (intro tb_append_inject dealing_items_short assms)
  also have "\<dots> \<longleftrightarrow> session_bytes (dm_session_id m) = session_bytes (dm_session_id m')
      \<and> dm_registry_root m = dm_registry_root m' \<and> dm_dealer m = dm_dealer m'
      \<and> nonce_bytes (dm_msg_i m) = nonce_bytes (dm_msg_i m')
      \<and> commitment_coefficients (dm_commitment m) = commitment_coefficients (dm_commitment m')
      \<and> dm_encrypted_shares m = dm_encrypted_shares m'" (is "_ \<longleftrightarrow> ?fields")
  proof
    assume eq: "dealing_items G m = dealing_items G m'"
    have cs: "length (commitment_coefficients (dm_commitment m)) = length (commitment_coefficients (dm_commitment m'))"
      using eq assms(2,3) by (simp add: dealing_items_def message_sizes_def item_usize_inject)
    with eq show ?fields
      by (simp add: dealing_items_def encode_map_inject[OF assms(1)] encrypted_items_inject[OF assms(1)]
          index_get_inject)
  qed (simp add: dealing_items_def)
  also have "\<dots> \<longleftrightarrow> m\<lparr>dm_proof := [], dm_transcript_root := []\<rparr> = m'\<lparr>dm_proof := [], dm_transcript_root := []\<rparr>"
    by (cases m; cases m'; cases "dm_commitment m"; cases "dm_commitment m'")
      (auto simp: session_id.expand dealer_message_nonce.expand)
  finally show ?thesis .
qed

lemma dealing_root_binds_witness:
  "hasher (message_transcript tiny_group tiny_message1)
    \<noteq> hasher (message_transcript tiny_group (tiny_message party1 [2, 3] party2 10 [7]))"
proof -
  have "message_sizes (tiny_message d [a, b] rc e pr)" for d a b rc e pr
    by (simp add: message_sizes_def)
  then show ?thesis
    by (subst dealing_root_binds[OF tiny.golden_codec_axioms])
      (simp_all add: tiny_message_def tiny_eval)
qed

text \<open>
  Likewise the root of an eVRF statement binds every field of the statement.
\<close>

theorem statement_root_binds:
  assumes "golden_codec G" and "statement_sizes s" and "statement_sizes s'"
  shows "hasher (statement_transcript G s) = hasher (statement_transcript G s') \<longleftrightarrow> s = s'"
proof -
  have "hasher (statement_transcript G s) = hasher (statement_transcript G s')
      \<longleftrightarrow> statement_items G s = statement_items G s'"
    unfolding statement_transcript_items
    by (intro tb_append_inject statement_items_short assms)
  also have "\<dots> \<longleftrightarrow> s = s'"
  proof
    assume eq: "statement_items G s = statement_items G s'"
    have cs: "length (st_commitment_coefficients s) = length (st_commitment_coefficients s')"
      using eq assms(2,3) by (simp add: statement_items_def statement_sizes_def item_usize_inject)
    have "st_threshold s = st_threshold s'"
      using eq assms(2,3) by (simp add: statement_items_def statement_sizes_def item_usize_inject)
    with eq cs show "s = s'"
      by (intro evrf_statement.equality)
        (simp_all add: statement_items_def encode_map_inject[OF assms(1)]
          golden_codec.encode_element_inject[OF assms(1)] golden_codec.scalar_to_repr_inject[OF assms(1)]
          session_id.expand dealer_message_nonce.expand)
  qed simp
  finally show ?thesis .
qed

definition tiny_statement :: "tiny \<Rightarrow> (tiny, tiny) evrf_statement" where
  "tiny_statement share =
     \<lparr>st_protocol_version = PROTOCOL_VERSION, st_backend_id = backend_id tiny_group,
      st_session_id = SessionId (replicate 32 0), st_registry_root = replicate 32 1, st_threshold = 2,
      st_dealer = party1, st_receiver = party2, st_msg_i = DealerMessageNonce (replicate 32 0),
      st_beta = 3, st_dealer_public_key = 5, st_receiver_public_key = 7,
      st_commitment_coefficients = [2, 3], st_share_commitment = share, st_pad_commitment = 1,
      st_encrypted_share = 9, st_transcript_root = replicate 32 1\<rparr>"

lemma statement_root_binds_witness:
  "hasher (statement_transcript tiny_group (tiny_statement 8))
    \<noteq> hasher (statement_transcript tiny_group (tiny_statement 10))"
proof -
  have "statement_sizes (tiny_statement x)" for x
    by (simp add: statement_sizes_def tiny_statement_def)
  then show ?thesis
    by (subst statement_root_binds[OF tiny.golden_codec_axioms])
      (simp_all add: tiny_statement_def tiny_eval)
qed

text \<open>
  The batched computation of statement roots, which reuses the encodings of shared commitment
  coefficients, returns the root of each statement.
\<close>

theorem batch_roots_eq: "batch_roots G statements = map (statement_root G) statements"
  by (auto simp: batch_roots_def statement_root_def Let_def split: list.splits)

end
