(* ===== verification/Honest_Dealing.thy ===== *)
theory Honest_Dealing
  imports Completion Dealing_Checks
begin

text \<open>
  What an honestly created dealing contains, and that it passes every check of its receivers. The
  locale \<open>evrf_relation\<close> is what the protocol relies on of a proof backend: both ends of a
  Diffie-Hellman pair derive the same pad, a proof made for statements with their openings
  verifies, and a batch of verifying proofs verifies.
\<close>

text \<open>The interpolation point of a participant in the scalar field.\<close>

definition index_scalar :: "participant_index \<Rightarrow> 's::field" where
  "index_scalar p = of_nat (unat (index_get p))"

text \<open>A witness opens a statement: the relation the dealer knows to hold.\<close>

definition opens ::
  "('s::field, 'e::ab_group_add, 'z) golden_group_scheme \<Rightarrow> ('s, 'e, 'r, 'y) evrf_backend_scheme
    \<Rightarrow> ('s, 'e) evrf_statement \<Rightarrow> 's evrf_witness \<Rightarrow> bool" where
  "opens G B st w \<longleftrightarrow>
     st_dealer_public_key st = mul_generator G (wit_identity_secret w)
     \<and> st_commitment_coefficients st = map (mul_generator G) (wit_polynomial_coefficients w)
     \<and> to_scalar G (st_receiver st) = Inr (index_scalar (st_receiver st))
     \<and> wit_share w = horner (wit_polynomial_coefficients w) (index_scalar (st_receiver st))
     \<and> st_share_commitment st = mul_generator G (wit_share w)
     \<and> derive_pad B (st_msg_i st) (st_beta st) (wit_identity_secret w)
         (st_receiver_public_key st) (st_receiver_public_key st) = Inr (wit_pad w)
     \<and> st_pad_commitment st = mul_generator G (wit_pad w)
     \<and> st_encrypted_share st = wit_share w + wit_pad w"

locale evrf_relation = prime_group G
  for G :: "('s::field, 'e::ab_group_add, 'z) golden_group_scheme" +
  fixes B :: "('s, 'e, 'r, 'y) evrf_backend_scheme"
  assumes pad_symmetric:
      "derive_pad B m beta a (mul_generator G b) pk = derive_pad B m beta b (mul_generator G a) pk"
    and prove_verifies:
      "list_all2 (opens G B) sts wits \<Longrightarrow> sts \<noteq> [] \<Longrightarrow>
        prove_batch B sts wits r = Some (Inr (pr, r')) \<Longrightarrow> verify_batch B sts pr = Inr ()"
    and batch_complete:
      "(\<And>sts pr. (sts, pr) \<in> set batches \<Longrightarrow> verify_batch B sts pr = Inr ()) \<Longrightarrow>
        verify_proof_batch B batches = Inr ()"

section \<open>Values of the loops\<close>

lemma collect_map_comp: "collect f (map g xs) = collect (\<lambda>x. f (g x)) xs"
  by (induction xs) auto

lemma collect_projr:
  "collect f xs = Inr ys \<Longrightarrow> ys = map (projr \<circ> f) xs \<and> (\<forall>x \<in> set xs. f x = Inr (projr (f x)))"
  by (induction xs arbitrary: ys) auto

lemma collect_values:
  assumes "collect f xs = Inr ys" and "\<And>x y. x \<in> set xs \<Longrightarrow> f x = Inr y \<Longrightarrow> y = g x"
  shows "ys = map g xs \<and> (\<forall>x \<in> set xs. f x = Inr (g x))"
proof -
  have "projr (f x) = g x" if "x \<in> set xs" for x
    using collect_projr[OF assms(1)] assms(2)[OF that] that by auto
  then show ?thesis using collect_projr[OF assms(1)] by auto
qed

lemma rbind_assoc: "rbind (rbind m f) g = rbind m (\<lambda>a. rbind (f a) g)"
  by (cases m) auto

lemma zip_map_self: "zip xs (map f xs) = map (\<lambda>x. (x, f x)) xs"
  by (induction xs) auto

lemma index_scalar_value: "prime_group G \<Longrightarrow> to_scalar G p = Inr x \<Longrightarrow> x = index_scalar p"
  using prime_group.to_scalar_value by (fastforce simp: index_scalar_def)

lemma dealing_shares_Inr:
  assumes "prime_group G" and "wf_config config" and "dealing_shares G config poly = Inr m"
  defines "idx \<equiv> registry_indexes (cfg_registry config)"
  shows "m = map (\<lambda>p. (p, horner (coefficients poly) (index_scalar p))) idx
    \<and> (\<forall>p \<in> set idx. to_scalar G p = Inr (index_scalar p))"
proof -
  let ?f = "\<lambda>p. rbind (evaluate G poly p) (\<lambda>sh. Inr (share_value sh))"
  have body: "(\<lambda>m p. rbind (evaluate G poly p) (\<lambda>sh. Inr (bt_insert p (share_value sh) m)))
      = (\<lambda>m p. rbind (?f p) (\<lambda>v. Inr (bt_insert p v m)))"
    by (simp add: rbind_assoc)
  have "sorted_wrt (<) (bt_keys bt_empty @ idx)"
    using wf_config_sorted[OF assms(2)] by (simp add: bt_empty_def bt_keys_def idx_def)
  from rfold_bt_insert[OF this, of ?f] assms(3)
  obtain vs where vs: "collect ?f idx = Inr vs" "m = zip idx vs"
    unfolding dealing_shares_def body idx_def by (auto simp: bt_empty_def)
  have "to_scalar G p = Inr (index_scalar p) \<and> v = horner (coefficients poly) (index_scalar p)"
    if "?f p = Inr v" for p v
    using that index_scalar_value[OF assms(1)] by auto
  moreover from this collect_values[OF vs(1), of "\<lambda>p. horner (coefficients poly) (index_scalar p)"]
  have "vs = map (\<lambda>p. horner (coefficients poly) (index_scalar p)) idx"
    and "\<forall>p \<in> set idx. ?f p = Inr (horner (coefficients poly) (index_scalar p))"
    by blast+
  ultimately show ?thesis using vs(2) by (simp add: zip_map_self) blast
qed

text \<open>The other participants, with their shares.\<close>

abbreviation other_shares ::
  "('s, 'e) dkg_config \<Rightarrow> participant_index \<Rightarrow> 's::field polynomial \<Rightarrow> (participant_index \<times> 's) list" where
  "other_shares config dealer poly \<equiv>
     map (\<lambda>p. (p, horner (coefficients poly) (index_scalar p))) (public_share_receivers config dealer)"

lemma other_shares_eq:
  "filter (\<lambda>(receiver, _). receiver \<noteq> dealer)
      (map (\<lambda>p. (p, horner (coefficients poly) (index_scalar p))) (registry_indexes (cfg_registry config)))
    = other_shares config dealer poly"
  by (simp add: public_share_receivers_def filter_map comp_def)

lemma public_share_receivers_sorted:
  "wf_config config \<Longrightarrow> sorted_wrt (<) (public_share_receivers config dealer)"
  using wf_config_sorted by (auto simp: public_share_receivers_def intro: sorted_wrt_filter)

lemma encrypt_shares_Inr:
  assumes "wf_config config"
    and "encrypt_shares G B config isk msg_i (other_shares config dealer poly) = Inr (encrypted, pads)"
  defines "rs \<equiv> public_share_receivers config dealer"
  shows "\<exists>pad. encrypted = map (\<lambda>p. (p, \<lparr>es_pad_commitment = mul_generator G (pad p),
            es_encrypted_share = horner (coefficients poly) (index_scalar p) + pad p\<rparr>)) rs
      \<and> pads = map (\<lambda>p. (p, pad p)) rs
      \<and> (\<forall>p \<in> set rs. \<exists>pk. registry_public_key (cfg_registry config) p = Inr pk
            \<and> derive_pad B msg_i (cfg_beta config) isk pk pk = Inr (pad p))"
proof -
  let ?f = "encrypt_for_receiver G B config isk msg_i"
  let ?g = "\<lambda>p. projr (?f (p, horner (coefficients poly) (index_scalar p)))"
  define pad where "pad = snd \<circ> ?g"
  have "sorted_wrt (<) (bt_keys bt_empty @ map fst (other_shares config dealer poly))"
    using public_share_receivers_sorted[OF assms(1)] by (simp add: bt_empty_def bt_keys_def comp_def)
  from rfold_bt_insert2[OF this, of bt_empty ?f] assms(2)
  have "rbind (collect ?f (other_shares config dealer poly))
      (\<lambda>vws. Inr (zip rs (map fst vws), zip rs (map snd vws))) = Inr (encrypted, pads)"
    unfolding encrypt_shares_def rs_def by (simp add: bt_empty_def comp_def bt_keys_def)
  then obtain vws where vws: "collect ?f (other_shares config dealer poly) = Inr vws"
    and enc: "encrypted = zip rs (map fst vws)" "pads = zip rs (map snd vws)" by auto
  from collect_projr[OF vws] have vws_eq: "vws = map ?g rs"
    and ok: "\<forall>p \<in> set rs. ?f (p, horner (coefficients poly) (index_scalar p)) = Inr (?g p)"
    by (auto simp: rs_def comp_def)
  have "\<exists>pk. registry_public_key (cfg_registry config) p = Inr pk
      \<and> derive_pad B msg_i (cfg_beta config) isk pk pk = Inr (pad p)
      \<and> fst (?g p) = \<lparr>es_pad_commitment = mul_generator G (pad p),
          es_encrypted_share = horner (coefficients poly) (index_scalar p) + pad p\<rparr>"
    if "p \<in> set rs" for p
    using ok[rule_format, OF that] unfolding pad_def
    by (auto simp: encrypt_for_receiver_def)
  with enc vws_eq show ?thesis
    by (intro exI[of _ pad]) (auto simp: zip_map_self pad_def comp_def)
qed

text \<open>What verification recomputes for a receiver of an honest dealing is what the dealer proved.\<close>

lemma collect_pairs:
  "collect f xs = Inr ps \<Longrightarrow> (\<And>x a b. x \<in> set xs \<Longrightarrow> f x = Inr (a, b) \<Longrightarrow> g x = Inr a \<and> P a b) \<Longrightarrow>
    collect g xs = Inr (map fst ps) \<and> list_all2 P (map fst ps) (map snd ps)"
proof (induction xs arbitrary: ps)
  case (Cons x xs)
  from Cons.prems(1) obtain a b ps' where "f x = Inr (a, b)" "collect f xs = Inr ps'" "ps = (a, b) # ps'"
    by (auto simp: split_paired_Ex)
  with Cons.prems(2)[of x a b] Cons.IH[of ps'] Cons.prems(2) show ?case by auto
qed simp

text \<open>The message of a dealing with polynomial \<open>cs\<close>, pads \<open>pad\<close>, nonce and proof.\<close>

definition honest_message ::
  "('s::field, 'e, 'z) golden_group_scheme \<Rightarrow> ('s, 'e) dkg_config \<Rightarrow> participant_index \<Rightarrow> 's list
    \<Rightarrow> (participant_index \<Rightarrow> 's) \<Rightarrow> dealer_message_nonce \<Rightarrow> bytes \<Rightarrow> ('s, 'e) dealer_message" where
  "honest_message G config dealer cs pad msg_i pr =
     (let encrypted = map (\<lambda>p. (p, \<lparr>es_pad_commitment = mul_generator G (pad p),
            es_encrypted_share = horner cs (index_scalar p) + pad p\<rparr>)) (public_share_receivers config dealer)
      in \<lparr>dm_session_id = cfg_session_id config,
          dm_registry_root = registry_root_value (cfg_registry config),
          dm_dealer = dealer, dm_msg_i = msg_i,
          dm_commitment = \<lparr>commitment_coefficients = map (mul_generator G) cs\<rparr>,
          dm_encrypted_shares = encrypted, dm_proof = pr,
          dm_transcript_root = dealing_root G (cfg_session_id config)
            (registry_root_value (cfg_registry config)) dealer msg_i
            \<lparr>commitment_coefficients = map (mul_generator G) cs\<rparr> encrypted\<rparr>)"

lemma honest_message_fields [simp]:
  "dm_session_id (honest_message G config dealer cs pad msg_i pr) = cfg_session_id config"
  "dm_registry_root (honest_message G config dealer cs pad msg_i pr) = registry_root_value (cfg_registry config)"
  "dm_dealer (honest_message G config dealer cs pad msg_i pr) = dealer"
  "dm_msg_i (honest_message G config dealer cs pad msg_i pr) = msg_i"
  "dm_commitment (honest_message G config dealer cs pad msg_i pr)
    = \<lparr>commitment_coefficients = map (mul_generator G) cs\<rparr>"
  "dm_encrypted_shares (honest_message G config dealer cs pad msg_i pr)
    = map (\<lambda>p. (p, \<lparr>es_pad_commitment = mul_generator G (pad p),
            es_encrypted_share = horner cs (index_scalar p) + pad p\<rparr>)) (public_share_receivers config dealer)"
  "dm_proof (honest_message G config dealer cs pad msg_i pr) = pr"
  "recompute_transcript_root G (honest_message G config dealer cs pad msg_i pr)
    = dm_transcript_root (honest_message G config dealer cs pad msg_i pr)"
  by (simp_all add: honest_message_def Let_def recompute_transcript_root_def)

text \<open>A dealing is honest when its message is that of some polynomial and well-derived pads, proved.\<close>

definition honest_dealing ::
  "('s::field, 'e::ab_group_add, 'z) golden_group_scheme \<Rightarrow> ('s, 'e, 'r, 'y) evrf_backend_scheme
    \<Rightarrow> ('s, 'e) dkg_config \<Rightarrow> 's \<Rightarrow> 's list \<Rightarrow> (participant_index \<Rightarrow> 's) \<Rightarrow> ('s, 'e) dkg_dealing \<Rightarrow> bool" where
  "honest_dealing G B config isk cs pad dealing \<longleftrightarrow>
     (\<exists>dealer msg_i pr.
        dealing_message dealing = honest_message G config dealer cs pad msg_i pr
        \<and> dealing_private_share dealing
            = \<lparr>share_participant = dealer, share_value = horner cs (index_scalar dealer)\<rparr>
        \<and> registry_public_key (cfg_registry config) dealer = Inr (mul_generator G isk)
        \<and> length cs = cfg_threshold config
        \<and> (\<forall>p \<in> set (registry_indexes (cfg_registry config)). to_scalar G p = Inr (index_scalar p))
        \<and> (\<forall>p \<in> set (public_share_receivers config dealer).
             \<exists>pk. registry_public_key (cfg_registry config) p = Inr pk
               \<and> derive_pad B msg_i (cfg_beta config) isk pk pk = Inr (pad p))
        \<and> (\<exists>sts wits. dealing_statements G (dealing_message dealing) config = Inr sts
             \<and> list_all2 (opens G B) sts wits
             \<and> (if sts = [] then pr = [] else \<exists>r r'. prove_batch B sts wits r = Some (Inr (pr, r')))))"

lemma map_pairs_get:
  "p \<in> set ps \<Longrightarrow> bt_get (map (\<lambda>p. (p, g p)) ps) p = Some (g p)"
  by simp

lemma honest_statement_and_witness:
  assumes "prime_group G" and "to_scalar G p = Inr (index_scalar p)"
    and "registry_public_key (cfg_registry config) dealer = Inr (mul_generator G isk)"
    and "registry_public_key (cfg_registry config) p = Inr pk"
    and "derive_pad B msg_i (cfg_beta config) isk pk pk = Inr (pad p)"
    and "p \<in> set (public_share_receivers config dealer)"
    and "statement_and_witness G config dealer isk \<lparr>coefficients = cs\<rparr>
        \<lparr>commitment_coefficients = map (mul_generator G) cs\<rparr> msg_i
        (dm_encrypted_shares (honest_message G config dealer cs pad msg_i pr))
        (map (\<lambda>p. (p, pad p)) (public_share_receivers config dealer))
        (dm_transcript_root (honest_message G config dealer cs pad msg_i pr))
        (p, horner cs (index_scalar p)) = Inr (st, wit)"
  shows "receiver_statement G (honest_message G config dealer cs pad msg_i pr') config p = Inr st
    \<and> opens G B st wit"
proof -
  have root: "dm_transcript_root (honest_message G config dealer cs pad msg_i pr)
      = dm_transcript_root (honest_message G config dealer cs pad msg_i pr')"
    by (simp add: honest_message_def Let_def)
  have diff: "mul_generator G (horner cs (index_scalar p) + pad p) - mul_generator G (pad p)
      = mul_generator G (horner cs (index_scalar p))"
    by (simp add: prime_group.mul_generator_add[OF assms(1)])
  show ?thesis
    using assms(2-7)
    by (auto simp: statement_and_witness_def receiver_statement_def statement_for_receiver_def
        Let_def opens_def diff root)
qed

lemma create_dealing_stages:
  assumes "create_dealing_with_secret G B dealer isk secret config R r = Some (Inr (dealing, r'))"
  obtains poly r1 com msg_i r2 svs encrypted pads sts wits pr r3 own where
    "registry_public_key (cfg_registry config) dealer = Inr (mul_generator G isk)"
    "random_with_secret secret (cfg_threshold config) R r = Inr (poly, r1)"
    "commit G poly = Inr com" "dealer_message_nonce_random R r1 = (msg_i, r2)"
    "dealing_shares G config poly = Inr svs"
    "encrypt_shares G B config isk msg_i (filter (\<lambda>(receiver, _). receiver \<noteq> dealer) svs) = Inr (encrypted, pads)"
    "dealing_relation G config dealer isk poly com msg_i encrypted pads
       (dealing_root G (cfg_session_id config) (registry_root_value (cfg_registry config)) dealer msg_i com encrypted)
       (filter (\<lambda>(receiver, _). receiver \<noteq> dealer) svs) = Inr (sts, wits)"
    "(if sts = [] then Some (Inr ([], r2)) else prove_batch B sts wits r2) = Some (Inr (pr, r3))"
    "bt_get svs dealer = Some own"
    "verify_share G com \<lparr>share_participant = dealer, share_value = own\<rparr> = Inr True"
    "dealing = \<lparr>dealing_message =
           \<lparr>dm_session_id = cfg_session_id config,
            dm_registry_root = registry_root_value (cfg_registry config),
            dm_dealer = dealer, dm_msg_i = msg_i, dm_commitment = com,
            dm_encrypted_shares = encrypted, dm_proof = pr,
            dm_transcript_root = dealing_root G (cfg_session_id config)
              (registry_root_value (cfg_registry config)) dealer msg_i com encrypted\<rparr>,
         dealing_private_share = \<lparr>share_participant = dealer, share_value = own\<rparr>\<rparr>"
  using assms unfolding create_dealing_with_secret_def Let_def
  apply (elim obind_InrE)
  apply (simp split: if_splits)
  apply (elim obind_InrE exE conjE | clarsimp split: prod.splits)+
  apply (auto split: if_splits intro: that)
  done

lemma dealing_relation_honest:
  assumes "prime_group G"
    and "\<forall>p \<in> set (registry_indexes (cfg_registry config)). to_scalar G p = Inr (index_scalar p)"
    and "registry_public_key (cfg_registry config) dealer = Inr (mul_generator G isk)"
    and "\<forall>p \<in> set (public_share_receivers config dealer).
          \<exists>pk. registry_public_key (cfg_registry config) p = Inr pk
            \<and> derive_pad B msg_i (cfg_beta config) isk pk pk = Inr (pad p)"
    and "dealing_relation G config dealer isk \<lparr>coefficients = cs\<rparr>
        \<lparr>commitment_coefficients = map (mul_generator G) cs\<rparr> msg_i
        (dm_encrypted_shares (honest_message G config dealer cs pad msg_i pr))
        (map (\<lambda>p. (p, pad p)) (public_share_receivers config dealer))
        (dm_transcript_root (honest_message G config dealer cs pad msg_i pr))
        (other_shares config dealer \<lparr>coefficients = cs\<rparr>) = Inr (sts, wits)"
  shows "collect (receiver_statement G (honest_message G config dealer cs pad msg_i pr') config)
      (public_share_receivers config dealer) = Inr sts
    \<and> list_all2 (opens G B) sts wits"
proof -
  let ?rs = "public_share_receivers config dealer"
  let ?f = "statement_and_witness G config dealer isk \<lparr>coefficients = cs\<rparr>
        \<lparr>commitment_coefficients = map (mul_generator G) cs\<rparr> msg_i
        (dm_encrypted_shares (honest_message G config dealer cs pad msg_i pr))
        (map (\<lambda>p. (p, pad p)) ?rs) (dm_transcript_root (honest_message G config dealer cs pad msg_i pr))"
  have "collect ?f (map (\<lambda>p. (p, horner cs (index_scalar p))) ?rs)
      = collect (\<lambda>p. ?f (p, horner cs (index_scalar p))) ?rs"
    by (rule collect_map_comp)
  then obtain ps where ps: "collect (\<lambda>p. ?f (p, horner cs (index_scalar p))) ?rs = Inr ps"
      "sts = map fst ps" "wits = map snd ps"
    using assms(5) unfolding dealing_relation_def rfold_push2 by auto
  have "receiver_statement G (honest_message G config dealer cs pad msg_i pr') config p = Inr st
      \<and> opens G B st wit"
    if mem: "p \<in> set ?rs" and run: "?f (p, horner cs (index_scalar p)) = Inr (st, wit)" for p st wit
  proof -
    obtain pk where pk: "registry_public_key (cfg_registry config) p = Inr pk"
        "derive_pad B msg_i (cfg_beta config) isk pk pk = Inr (pad p)"
      using assms(4) mem by blast
    have "to_scalar G p = Inr (index_scalar p)"
      using assms(2) mem by (simp add: set_public_share_receivers)
    from honest_statement_and_witness[OF assms(1) this assms(3) pk mem run] show ?thesis .
  qed
  from collect_pairs[OF ps(1) this] ps(2,3) show ?thesis by simp
qed

lemma create_dealing_honest:
  assumes "prime_group G" and "wf_config config"
    and "create_dealing_with_secret G B dealer isk secret config R r = Some (Inr (dealing, r'))"
  shows "\<exists>cs pad. honest_dealing G B config isk cs pad dealing \<and> hd cs = secret
    \<and> dm_dealer (dealing_message dealing) = dealer"
proof -
  from create_dealing_stages[OF assms(3)]
  obtain poly r1 com msg_i r2 svs encrypted pads sts wits pr r3 own where stages:
    "registry_public_key (cfg_registry config) dealer = Inr (mul_generator G isk)"
    "random_with_secret secret (cfg_threshold config) R r = Inr (poly, r1)"
    "commit G poly = Inr com" "dealer_message_nonce_random R r1 = (msg_i, r2)"
    "dealing_shares G config poly = Inr svs"
    "encrypt_shares G B config isk msg_i (filter (\<lambda>(receiver, _). receiver \<noteq> dealer) svs) = Inr (encrypted, pads)"
    "dealing_relation G config dealer isk poly com msg_i encrypted pads
       (dealing_root G (cfg_session_id config) (registry_root_value (cfg_registry config)) dealer msg_i com encrypted)
       (filter (\<lambda>(receiver, _). receiver \<noteq> dealer) svs) = Inr (sts, wits)"
    "(if sts = [] then Some (Inr ([], r2)) else prove_batch B sts wits r2) = Some (Inr (pr, r3))"
    "bt_get svs dealer = Some own"
    "dealing = \<lparr>dealing_message =
           \<lparr>dm_session_id = cfg_session_id config,
            dm_registry_root = registry_root_value (cfg_registry config),
            dm_dealer = dealer, dm_msg_i = msg_i, dm_commitment = com,
            dm_encrypted_shares = encrypted, dm_proof = pr,
            dm_transcript_root = dealing_root G (cfg_session_id config)
              (registry_root_value (cfg_registry config)) dealer msg_i com encrypted\<rparr>,
         dealing_private_share = \<lparr>share_participant = dealer, share_value = own\<rparr>\<rparr>"
    by metis
  define cs where "cs = coefficients poly"
  have poly: "poly = \<lparr>coefficients = cs\<rparr>" by (simp add: cs_def)
  have cs: "length cs = cfg_threshold config" "hd cs = secret"
    using random_with_secret_coefficients[OF stages(2)] by (simp_all add: cs_def)
  have com: "com = \<lparr>commitment_coefficients = map (mul_generator G) cs\<rparr>"
    using stages(3) by (auto simp: commit_def commitment_from_coefficients_def cs_def split: if_splits)
  from dealing_shares_Inr[OF assms(1,2) stages(5)]
  have svs: "svs = map (\<lambda>p. (p, horner cs (index_scalar p))) (registry_indexes (cfg_registry config))"
    and scalars: "\<forall>p \<in> set (registry_indexes (cfg_registry config)). to_scalar G p = Inr (index_scalar p)"
    by (simp_all add: cs_def)
  have others: "filter (\<lambda>(receiver, _). receiver \<noteq> dealer) svs = other_shares config dealer poly"
    using other_shares_eq svs by (simp add: cs_def)
  from encrypt_shares_Inr[OF assms(2) stages(6)[unfolded others]]
  obtain pad where encrypted: "encrypted = dm_encrypted_shares (honest_message G config dealer cs pad msg_i pr)"
    and pads: "pads = map (\<lambda>p. (p, pad p)) (public_share_receivers config dealer)"
    and pad: "\<forall>p \<in> set (public_share_receivers config dealer).
      \<exists>pk. registry_public_key (cfg_registry config) p = Inr pk
        \<and> derive_pad B msg_i (cfg_beta config) isk pk pk = Inr (pad p)"
    by (auto simp: cs_def)
  have msg: "dealing_message dealing = honest_message G config dealer cs pad msg_i pr"
    using stages(10) by (simp add: honest_message_def Let_def com encrypted)
  have root: "dealing_root G (cfg_session_id config) (registry_root_value (cfg_registry config)) dealer msg_i com encrypted
      = dm_transcript_root (honest_message G config dealer cs pad msg_i pr)"
    using msg stages(10) by (metis dealer_message.select_convs(8) dkg_dealing.select_convs(1))
  from dealing_relation_honest[OF assms(1) scalars stages(1) pad, of cs pr sts wits pr]
  have sts: "collect (receiver_statement G (honest_message G config dealer cs pad msg_i pr) config)
      (public_share_receivers config dealer) = Inr sts" "list_all2 (opens G B) sts wits"
    using stages(7) unfolding others root unfolding poly com encrypted pads by auto
  have "dealing_well_formed G (honest_message G config dealer cs pad msg_i pr) config"
    using stages(1) cs(1) by (auto simp: dealing_well_formed_def set_public_share_receivers
        intro: registry_public_key_in)
  with sts(1) have "dealing_statements G (dealing_message dealing) config = Inr sts"
    by (simp add: dealing_statements_Inr msg)
  moreover have "own = horner cs (index_scalar dealer)"
    using stages(9) by (simp add: svs split: if_splits)
  ultimately have "honest_dealing G B config isk cs pad dealing"
    unfolding honest_dealing_def using msg stages(1,8,10) cs scalars pad sts(2)
    by (intro exI[of _ dealer] exI[of _ msg_i] exI[of _ pr]) (auto split: if_splits)
  with cs(2) msg show ?thesis by (intro exI[of _ cs] exI[of _ pad]) simp
qed

end
