(* ===== verification/Protocol.thy ===== *)
theory Protocol
  imports Honest_Dealing
begin

text \<open>
  The properties of the whole DKG: honest dealings are accepted and decrypted, an honest run
  completes with the sum of the dealers' secrets, and whatever the dealers did, an accepted run
  leaves each receiver with a share of the polynomial committed by the sum of the commitments.
\<close>

text \<open>The map of all dealings a receiver completes from, and the sum of their commitments.\<close>

definition dealing_set ::
  "('s, 'e) dealer_message \<Rightarrow> (participant_index, ('s, 'e) dealer_message) btree_map
    \<Rightarrow> (participant_index, ('s, 'e) dealer_message) btree_map" where
  "dealing_set own peers = fold (\<lambda>(d, m). bt_insert d m) peers [(dm_dealer own, own)]"

definition aggregate_coefficients :: "usize \<Rightarrow> ('s, 'e::ab_group_add) dealer_message list \<Rightarrow> 'e list" where
  "aggregate_coefficients t ms =
     fold (\<lambda>m agg. add_coefficients agg (commitment_coefficients (dm_commitment m))) ms (replicate t 0)"

section \<open>The stages of a completed run\<close>

lemma complete_Inr:
  "complete G B receiver isk own peers config = Inr out \<longleftrightarrow>
    registry_public_key (cfg_registry config) receiver = Inr (mul_generator G isk)
    \<and> dm_dealer (dealing_message own) = receiver
    \<and> share_participant (dealing_private_share own) = receiver
    \<and> (\<forall>(d, m) \<in> set peers. d = dm_dealer m \<and> d \<noteq> receiver) \<and> distinct (map fst peers)
    \<and> (\<exists>messages secret agg pks.
        collect (\<lambda>d. ok_or (bt_get (dealing_set (dealing_message own) peers) d) (MissingDealing (index_get d)))
          (registry_indexes (cfg_registry config)) = Inr messages
        \<and> verify_dealings G B messages config = Inr ()
        \<and> rfold (accumulate_step G B receiver isk (dealing_private_share own) config)
            (0, replicate (cfg_threshold config) 0) (bt_values (dealing_set (dealing_message own) peers))
            = Inr (secret, agg)
        \<and> agg \<noteq> []
        \<and> rfold (\<lambda>m p. rbind (public_key_share G \<lparr>commitment_coefficients = agg\<rparr> p) (\<lambda>pk.
                     Inr (bt_insert p pk m)))
              bt_empty (registry_indexes (cfg_registry config)) = Inr pks
        \<and> out = \<lparr>out_public_key = public_key \<lparr>commitment_coefficients = agg\<rparr>,
            out_secret_share = \<lparr>share_participant = receiver, share_value = secret\<rparr>,
            out_public_key_shares = pks,
            out_transcript_root = completion_root G (dealing_set (dealing_message own) peers)\<rparr>)"
  unfolding complete_def dealing_set_def
  by (auto simp: collect_dealings_Inr commitment_from_coefficients_def split: if_splits)

lemma dealing_set_sorted: "bt_sorted (dealing_set own peers)"
  unfolding dealing_set_def by (rule bt_fold_insert_sorted) (simp add: bt_sorted_def bt_keys_def)

lemma dealing_set_get:
  "distinct (map fst peers) \<Longrightarrow> bt_get (dealing_set own peers) k
    = (case map_of peers k of None \<Rightarrow> if k = dm_dealer own then Some own else None | Some m \<Rightarrow> Some m)"
  unfolding dealing_set_def
  by (subst bt_fold_insert_get) (auto simp: bt_sorted_def bt_keys_def bt_get_def split: option.splits)

lemma dealing_set_dealers:
  assumes "distinct (map fst peers)" and "\<forall>(d, m) \<in> set peers. d = dm_dealer m \<and> d \<noteq> dm_dealer own"
    and "(d, m) \<in> set (dealing_set own peers)"
  shows "d = dm_dealer m"
proof -
  have "bt_get (dealing_set own peers) d = Some m"
    using assms(3) bt_get_Some_iff[OF dealing_set_sorted] by blast
  with assms(1,2) show ?thesis
    by (auto simp: dealing_set_get split: option.splits if_splits)
qed

section \<open>Accumulating verified shares\<close>

lemma add_coefficients_length [simp]: "length (add_coefficients as cs) = length as"
  by (induction as cs rule: add_coefficients.induct) auto

lemma aggregate_fold_length:
  "length (fold (\<lambda>m agg. add_coefficients agg (commitment_coefficients (dm_commitment m))) ms as) = length as"
  by (induction ms arbitrary: as) auto

lemma aggregate_length [simp]: "length (aggregate_coefficients t ms) = t"
  by (simp add: aggregate_coefficients_def aggregate_fold_length)

lemma horner_add:
  "length as = length cs \<Longrightarrow> horner (map2 (+) as cs) x = horner as x + horner cs x"
  by (induction as cs rule: list_induct2) (auto simp: algebra_simps)

lemma horner_replicate_zero [simp]: "horner (replicate n 0) x = 0"
  by (induction n) auto

context prime_group begin

lemma add_coefficients_map:
  "length as = length cs \<Longrightarrow>
    add_coefficients (map (mul_generator G) as) (map (mul_generator G) cs)
      = map (mul_generator G) (map2 (+) as cs)"
  by (induction as cs rule: list_induct2) (auto simp: mul_generator_add)

lemma accumulate_step_value:
  assumes "accumulate_step G B receiver isk priv config (s, map (mul_generator G) as) m = Inr (s', agg')"
    and "share_participant priv = receiver" and "to_scalar G receiver = Inr x"
    and "length (commitment_coefficients (dm_commitment m)) = length as"
  shows "\<exists>as'. length as' = length as \<and> agg' = map (mul_generator G) as'
    \<and> agg' = add_coefficients (map (mul_generator G) as) (commitment_coefficients (dm_commitment m))
    \<and> s' - horner as' x = s - horner as x"
proof -
  obtain cs where cs: "commitment_coefficients (dm_commitment m) = map (mul_generator G) cs"
    using commitment_opening by blast
  obtain sh where sh: "(if dm_dealer m = receiver then Inr priv
      else decrypt_share_for_receiver G B receiver isk m config) = Inr sh"
    and ok: "verify_share G (dm_commitment m) sh = Inr True"
    and st: "s' = s + share_value sh"
      "agg' = add_coefficients (map (mul_generator G) as) (commitment_coefficients (dm_commitment m))"
    using assms(1) by (auto simp: accumulate_step_def split: if_splits)
  have "share_participant sh = receiver"
    using sh assms(2) by (auto simp: decrypt_share_for_receiver_def Let_def split: if_splits)
  with assms(3) have "share_value sh = horner cs x"
    using verify_share_value[OF cs, of sh x] ok by simp
  moreover have len: "length as = length cs" using assms(4) cs by simp
  ultimately show ?thesis
    using st by (intro exI[of _ "map2 (+) as cs"]) (simp add: cs add_coefficients_map horner_add)
qed

lemma accumulate_value:
  assumes "rfold (accumulate_step G B receiver isk priv config) (s, map (mul_generator G) as) ms = Inr (s', agg')"
    and "share_participant priv = receiver" and "to_scalar G receiver = Inr x"
    and "\<forall>m \<in> set ms. length (commitment_coefficients (dm_commitment m)) = length as"
  shows "\<exists>as'. length as' = length as \<and> agg' = map (mul_generator G) as'
    \<and> agg' = fold (\<lambda>m agg. add_coefficients agg (commitment_coefficients (dm_commitment m))) ms (map (mul_generator G) as)
    \<and> s' - horner as' x = s - horner as x"
  using assms(1,4)
proof (induction ms arbitrary: s as)
  case (Cons m ms)
  then obtain s1 agg1 where step: "accumulate_step G B receiver isk priv config (s, map (mul_generator G) as) m = Inr (s1, agg1)"
    and rest: "rfold (accumulate_step G B receiver isk priv config) (s1, agg1) ms = Inr (s', agg')"
    by auto
  obtain as1 where as1: "length as1 = length as" "agg1 = map (mul_generator G) as1"
      "agg1 = add_coefficients (map (mul_generator G) as) (commitment_coefficients (dm_commitment m))"
      "s1 - horner as1 x = s - horner as x"
    using accumulate_step_value[OF step assms(2,3)] Cons.prems(2) by auto
  from Cons.IH[of s1 as1] rest Cons.prems(2) as1 show ?case by auto
qed auto

end

section \<open>What an accepted run guarantees\<close>

lemma accumulate_dealers:
  "rfold (accumulate_step G B receiver isk priv config) st ms = Inr st' \<Longrightarrow>
    receiver \<in> set (registry_indexes (cfg_registry config)) \<Longrightarrow> m \<in> set ms \<Longrightarrow>
    dm_dealer m \<in> set (registry_indexes (cfg_registry config))"
proof (induction ms arbitrary: st)
  case (Cons m' ms)
  obtain st1 where step: "accumulate_step G B receiver isk priv config st m' = Inr st1"
    and rest: "rfold (accumulate_step G B receiver isk priv config) st1 ms = Inr st'"
    using Cons.prems(1) by auto
  have "dm_dealer m' \<in> set (registry_indexes (cfg_registry config))"
  proof (cases "dm_dealer m' = receiver")
    case False
    then obtain pk where "registry_public_key (cfg_registry config) (dm_dealer m') = Inr pk"
      using step by (auto simp: accumulate_step_def decrypt_share_for_receiver_def derive_receiver_pad_def
          split: prod.splits)
    then show ?thesis by (rule registry_public_key_in)
  qed (use Cons.prems in simp)
  with Cons.IH[OF rest] Cons.prems show ?case by auto
qed simp

lemma verify_dealings_degrees:
  assumes "verify_dealings G B messages config = Inr ()" and "m \<in> set messages"
  shows "length (commitment_coefficients (dm_commitment m)) = cfg_threshold config"
proof -
  obtain batches where "collect (\<lambda>m. dealing_statements G m config) messages = Inr batches"
    using assms(1) by (auto simp: verify_dealings_def split: if_splits)
  then obtain sts where "dealing_statements G m config = Inr sts"
    using assms(2) collect_Inr_all by fastforce
  then show ?thesis by (simp add: dealing_statements_Inr dealing_well_formed_def)
qed

lemma complete_dealers:
  assumes "wf_config config" and "complete G B receiver isk own peers config = Inr out"
  defines "ds \<equiv> dealing_set (dealing_message own) peers"
  shows "bt_keys ds = registry_indexes (cfg_registry config)
    \<and> verify_dealings G B (bt_values ds) config = Inr ()"
proof -
  let ?idx = "registry_indexes (cfg_registry config)"
  obtain messages secret agg where pk: "registry_public_key (cfg_registry config) receiver = Inr (mul_generator G isk)"
    and own: "dm_dealer (dealing_message own) = receiver"
    and peers: "\<forall>(d, m) \<in> set peers. d = dm_dealer m \<and> d \<noteq> receiver" "distinct (map fst peers)"
    and messages: "collect (\<lambda>d. ok_or (bt_get ds d) (MissingDealing (index_get d))) ?idx = Inr messages"
    and verified: "verify_dealings G B messages config = Inr ()"
    and accumulated: "rfold (accumulate_step G B receiver isk (dealing_private_share own) config)
        (0, replicate (cfg_threshold config) 0) (bt_values ds) = Inr (secret, agg)"
    using assms(2) unfolding complete_Inr ds_def by blast
  have sorted: "bt_sorted ds" unfolding ds_def by (rule dealing_set_sorted)
  have "set (bt_keys ds) \<subseteq> set ?idx"
  proof
    fix d assume "d \<in> set (bt_keys ds)"
    then obtain m where m: "(d, m) \<in> set ds" by (auto simp: bt_keys_def)
    then have "d = dm_dealer m"
      using dealing_set_dealers[OF peers(2), of "dealing_message own" d m] peers(1) own by (simp add: ds_def)
    moreover have "m \<in> set (bt_values ds)" using m by (force simp: bt_values_def)
    ultimately show "d \<in> set ?idx"
      using accumulate_dealers[OF accumulated registry_public_key_in[OF pk]] by simp
  qed
  moreover have "set ?idx \<subseteq> set (bt_keys ds)"
  proof
    fix d assume "d \<in> set ?idx"
    then obtain m where "bt_get ds d = Some m" using collect_Inr_all[OF messages] by auto
    then show "d \<in> set (bt_keys ds)" by (simp add: bt_get_dom)
  qed
  ultimately have keys: "bt_keys ds = ?idx"
    using sorted wf_config_sorted[OF assms(1)]
    by (intro strict_sorted_equal) (auto simp: bt_sorted_def)
  have "messages = map (\<lambda>d. the (bt_get ds d)) ?idx"
    using collect_values[OF messages, of "\<lambda>d. the (bt_get ds d)"] by auto
  also have "\<dots> = bt_values (map (\<lambda>d. (d, the (bt_get ds d))) (bt_keys ds))"
    by (simp add: keys)
  also have "\<dots> = bt_values ds"
    using bt_as_map[OF sorted] by simp
  finally show ?thesis using keys verified by simp
qed

lemma public_shares_value:
  assumes "prime_group G" and "wf_config config"
    and "rfold (\<lambda>m p. rbind (public_key_share G \<lparr>commitment_coefficients = map (mul_generator G) cs\<rparr> p) (\<lambda>pk.
                     Inr (bt_insert p pk m)))
              bt_empty (registry_indexes (cfg_registry config)) = Inr pks"
  shows "pks = map (\<lambda>p. (p, mul_generator G (horner cs (index_scalar p)))) (registry_indexes (cfg_registry config))
    \<and> (\<forall>p \<in> set (registry_indexes (cfg_registry config)). to_scalar G p = Inr (index_scalar p))"
proof -
  let ?idx = "registry_indexes (cfg_registry config)"
  let ?f = "public_key_share G \<lparr>commitment_coefficients = map (mul_generator G) cs\<rparr>"
  have "sorted_wrt (<) (bt_keys bt_empty @ ?idx)"
    using wf_config_sorted[OF assms(2)] by (simp add: bt_empty_def bt_keys_def)
  from rfold_bt_insert[OF this, of ?f] assms(3)
  obtain vs where vs: "collect ?f ?idx = Inr vs" "pks = zip ?idx vs"
    by (auto simp: bt_empty_def)
  have val: "to_scalar G p = Inr (index_scalar p) \<and> v = mul_generator G (horner cs (index_scalar p))"
    if run: "?f p = Inr v" for p v
  proof -
    obtain x where x: "to_scalar G p = Inr x" using run by (auto simp: public_key_share_def)
    with index_scalar_value[OF assms(1)] have "x = index_scalar p" by blast
    with x run prime_group.public_key_share_value[OF assms(1), of "\<lparr>commitment_coefficients = map (mul_generator G) cs\<rparr>" cs p x]
    show ?thesis by simp
  qed
  have "vs = map (\<lambda>p. mul_generator G (horner cs (index_scalar p))) ?idx
      \<and> (\<forall>p \<in> set ?idx. ?f p = Inr (mul_generator G (horner cs (index_scalar p))))"
    using collect_values[OF vs(1), of "\<lambda>p. mul_generator G (horner cs (index_scalar p))"]
      val[THEN conjunct2] by blast
  moreover from this have "\<forall>p \<in> set ?idx. to_scalar G p = Inr (index_scalar p)"
    using val[THEN conjunct1] by blast
  ultimately show ?thesis using vs(2) by (simp only: zip_map_self)
qed

text \<open>The values of an accepted run, in terms of the sum of the commitments.\<close>

definition run_values ::
  "('s::field, 'e::ab_group_add, 'z) golden_group_scheme \<Rightarrow> ('s, 'e) dkg_config \<Rightarrow> participant_index
    \<Rightarrow> 's list \<Rightarrow> ('s, 'e) dkg_output \<Rightarrow> bool" where
  "run_values G config receiver cs out \<longleftrightarrow>
     length cs = cfg_threshold config
     \<and> out_public_key out = mul_generator G (hd cs)
     \<and> out_secret_share out = \<lparr>share_participant = receiver, share_value = horner cs (index_scalar receiver)\<rparr>
     \<and> out_public_key_shares out
         = map (\<lambda>p. (p, mul_generator G (horner cs (index_scalar p)))) (registry_indexes (cfg_registry config))
     \<and> (\<forall>p \<in> set (registry_indexes (cfg_registry config)). to_scalar G p = Inr (index_scalar p))"

lemma complete_values:
  assumes "prime_group G" and "wf_config config" and "complete G B receiver isk own peers config = Inr out"
  defines "ds \<equiv> dealing_set (dealing_message own) peers"
  shows "\<exists>cs. aggregate_coefficients (cfg_threshold config) (bt_values ds) = map (mul_generator G) cs
    \<and> run_values G config receiver cs out"
proof -
  let ?idx = "registry_indexes (cfg_registry config)"
  obtain secret agg pks where pk: "registry_public_key (cfg_registry config) receiver = Inr (mul_generator G isk)"
    and priv: "share_participant (dealing_private_share own) = receiver"
    and acc: "rfold (accumulate_step G B receiver isk (dealing_private_share own) config)
        (0, replicate (cfg_threshold config) 0) (bt_values ds) = Inr (secret, agg)" "agg \<noteq> []"
    and pks: "rfold (\<lambda>m p. rbind (public_key_share G \<lparr>commitment_coefficients = agg\<rparr> p) (\<lambda>pk.
                     Inr (bt_insert p pk m))) bt_empty ?idx = Inr pks"
    and out: "out = \<lparr>out_public_key = public_key \<lparr>commitment_coefficients = agg\<rparr>,
            out_secret_share = \<lparr>share_participant = receiver, share_value = secret\<rparr>,
            out_public_key_shares = pks,
            out_transcript_root = completion_root G ds\<rparr>"
    using assms(3) unfolding complete_Inr ds_def by blast
  obtain as where as: "agg = map (mul_generator G) as"
    using prime_group.commitment_opening[OF assms(1)] by blast
  from public_shares_value[OF assms(1,2) pks[unfolded as]]
  have pks_eq: "pks = map (\<lambda>p. (p, mul_generator G (horner as (index_scalar p)))) ?idx"
    and scalars: "\<forall>p \<in> set ?idx. to_scalar G p = Inr (index_scalar p)" by blast+
  have x: "to_scalar G receiver = Inr (index_scalar receiver)"
    using scalars registry_public_key_in[OF pk] by blast
  have "replicate (cfg_threshold config) 0 = map (mul_generator G) (replicate (cfg_threshold config) 0)"
    by (simp add: prime_group.mul_generator_zero[OF assms(1)])
  with acc(1) have "rfold (accumulate_step G B receiver isk (dealing_private_share own) config)
      (0, map (mul_generator G) (replicate (cfg_threshold config) 0)) (bt_values ds) = Inr (secret, agg)"
    by simp
  moreover have "\<forall>m \<in> set (bt_values ds). length (commitment_coefficients (dm_commitment m))
      = length (replicate (cfg_threshold config) (0 :: 'a))"
    using complete_dealers[OF assms(2,3)] verify_dealings_degrees unfolding ds_def by fastforce
  ultimately obtain as' where as': "length as' = cfg_threshold config" "agg = map (mul_generator G) as'"
      "agg = aggregate_coefficients (cfg_threshold config) (bt_values ds)"
      "secret = horner as' (index_scalar receiver)"
    using prime_group.accumulate_value[OF assms(1) _ priv x, of B isk config 0
        "replicate (cfg_threshold config) 0" "bt_values ds" secret agg]
    by (auto simp: aggregate_coefficients_def prime_group.mul_generator_zero[OF assms(1)])
  have "as' = as"
    using prime_group.commitment_opening[OF assms(1), of agg] as as'(2) by blast
  have "public_key \<lparr>commitment_coefficients = agg\<rparr> = mul_generator G (hd as)"
    using acc(2) by (simp add: as public_key_def hd_conv_nth)
  with \<open>as' = as\<close> as' out pks_eq scalars show ?thesis
    by (intro exI[of _ as]) (simp add: run_values_def)
qed

section \<open>Honest dealings are accepted\<close>

lemma verify_dealings_all:
  assumes "wf_config config" and "messages \<noteq> []"
    and "\<forall>m \<in> set messages. verify_dealing G B m config = Inr ()"
    and "\<And>batches. (\<And>sts pr. (sts, pr) \<in> set batches \<Longrightarrow> verify_batch B sts pr = Inr ()) \<Longrightarrow>
        verify_proof_batch B batches = Inr ()"
  shows "verify_dealings G B messages config = Inr ()"
proof -
  have "\<forall>m \<in> set messages. is_ok (dealing_statements G m config)"
    using assms(3) by (auto simp: verify_dealing_def is_ok_iff)
  then obtain batches where batches: "collect (\<lambda>m. dealing_statements G m config) messages = Inr batches"
    using collect_ok_iff[of "\<lambda>m. dealing_statements G m config" messages] by (auto simp: is_ok_iff)
  note members = verify_dealings_members[OF assms(1,2) batches, of B, THEN iffD1, OF assms(3)]
  show ?thesis
  proof (cases "length (registry_indexes (cfg_registry config)) = 1")
    case True
    then show ?thesis
      using members verify_dealings_cases[OF assms(1,2) batches, of B] by (simp add: rfold_check)
  next
    case False
    then have "verify_proof_batch B (map (\<lambda>(sts, m). (sts, dm_proof m)) (zip batches messages)) = Inr ()"
      using members by (intro assms(4)) auto
    with False show ?thesis
      using verify_dealings_cases[OF assms(1,2) batches, of B] by simp
  qed
qed

context evrf_relation begin

lemma honest_verifies:
  assumes "honest_dealing G B config isk cs pad D"
  shows "verify_dealing G B (dealing_message D) config = Inr ()"
  using assms prove_verifies by (auto simp: honest_dealing_def verify_dealing_def split: if_splits)

lemma honest_decrypts:
  assumes "honest_dealing G B config isk cs pad D"
    and "receiver \<noteq> dm_dealer (dealing_message D)"
    and "registry_public_key (cfg_registry config) receiver = Inr (mul_generator G b)"
  shows "decrypt_share_for_receiver G B receiver b (dealing_message D) config
    = Inr \<lparr>share_participant = receiver, share_value = horner cs (index_scalar receiver)\<rparr>"
proof -
  obtain dealer msg_i pr where msg: "dealing_message D = honest_message G config dealer cs pad msg_i pr"
    and dealer: "registry_public_key (cfg_registry config) dealer = Inr (mul_generator G isk)"
    and scalars: "\<forall>p \<in> set (registry_indexes (cfg_registry config)). to_scalar G p = Inr (index_scalar p)"
    and pads: "\<forall>p \<in> set (public_share_receivers config dealer).
        \<exists>pk. registry_public_key (cfg_registry config) p = Inr pk
          \<and> derive_pad B msg_i (cfg_beta config) isk pk pk = Inr (pad p)"
    using assms(1) unfolding honest_dealing_def by blast
  have mem: "receiver \<in> set (public_share_receivers config dealer)"
    using registry_public_key_in[OF assms(3)] assms(2) msg by (simp add: set_public_share_receivers)
  then have "derive_pad B msg_i (cfg_beta config) isk (mul_generator G b) (mul_generator G b) = Inr (pad receiver)"
    using pads assms(3) by fastforce
  then have "derive_receiver_pad B config dealer receiver b msg_i = Inr (pad receiver)"
    using assms(3) dealer pad_symmetric by (simp add: derive_receiver_pad_def)
  moreover have "verify_share G \<lparr>commitment_coefficients = map (mul_generator G) cs\<rparr>
      \<lparr>share_participant = receiver, share_value = horner cs (index_scalar receiver)\<rparr> = Inr True"
    using scalars registry_public_key_in[OF assms(3)]
    by (subst verify_share_value[where cs = cs and x = "index_scalar receiver"]) simp_all
  ultimately show ?thesis
    using mem by (simp add: decrypt_share_for_receiver_def msg Let_def)
qed

lemma honest_own_share:
  assumes "honest_dealing G B config isk cs pad D"
  shows "verify_share G (dm_commitment (dealing_message D)) (dealing_private_share D) = Inr True
    \<and> share_participant (dealing_private_share D) = dm_dealer (dealing_message D)
    \<and> registry_public_key (cfg_registry config) (dm_dealer (dealing_message D)) = Inr (mul_generator G isk)"
proof -
  obtain dealer msg_i pr where msg: "dealing_message D = honest_message G config dealer cs pad msg_i pr"
    and priv: "dealing_private_share D = \<lparr>share_participant = dealer, share_value = horner cs (index_scalar dealer)\<rparr>"
    and dealer: "registry_public_key (cfg_registry config) dealer = Inr (mul_generator G isk)"
    and scalars: "\<forall>p \<in> set (registry_indexes (cfg_registry config)). to_scalar G p = Inr (index_scalar p)"
    using assms(1) unfolding honest_dealing_def by blast
  have "verify_share G \<lparr>commitment_coefficients = map (mul_generator G) cs\<rparr>
      \<lparr>share_participant = dealer, share_value = horner cs (index_scalar dealer)\<rparr> = Inr True"
    using scalars registry_public_key_in[OF dealer]
    by (subst verify_share_value[where cs = cs and x = "index_scalar dealer"]) simp_all
  then show ?thesis by (simp add: msg priv dealer)
qed

lemma accumulate_ok:
  assumes "\<forall>m \<in> set ms. \<exists>sh. (if dm_dealer m = receiver then Inr priv
      else decrypt_share_for_receiver G B receiver isk m config) = Inr sh
      \<and> verify_share G (dm_commitment m) sh = Inr True"
  shows "\<exists>st'. rfold (accumulate_step G B receiver isk priv config) st ms = Inr st'"
  using assms
proof (induction ms arbitrary: st)
  case (Cons m ms)
  then have "\<exists>st'. accumulate_step G B receiver isk priv config st m = Inr st'"
    by (cases st) (fastforce simp: accumulate_step_def)
  with Cons show ?case by auto
qed simp

end

end
