(* ===== verification/Runs.thy ===== *)
theory Runs
  imports Protocol
begin

text \<open>
  Runs of the DKG: the honest run, and the properties of the protocol with their witnesses on the
  two-party setting of \<open>Tiny_Protocol\<close>.
\<close>

section \<open>The honest run\<close>

text \<open>The coefficientwise sum of the dealers' polynomials.\<close>

definition sum_polynomials :: "usize \<Rightarrow> 's::field list list \<Rightarrow> 's list" where
  "sum_polynomials t css = fold (\<lambda>cs as. map2 (+) as cs) css (replicate t 0)"

lemma fold_map2_length:
  "\<forall>cs \<in> set css. length cs = length as \<Longrightarrow> length (fold (\<lambda>cs as. map2 (+) as cs) css as) = length as"
  by (induction css arbitrary: as) auto

lemma fold_map2_hd:
  "as \<noteq> [] \<Longrightarrow> \<forall>cs \<in> set css. length cs = length as \<Longrightarrow>
    hd (fold (\<lambda>cs as. map2 (+) as cs) css as) = hd as + (\<Sum>cs\<leftarrow>css. hd cs)" for as :: "'a::field list"
proof (induction css arbitrary: as)
  case (Cons cs css)
  then have "cs \<noteq> []" by auto
  then have "hd (map2 (+) as cs) = hd as + hd cs" using Cons.prems(1) by (cases as; cases cs) auto
  moreover have "map2 (+) as cs \<noteq> []" using Cons.prems(1) \<open>cs \<noteq> []\<close> by (cases as; cases cs) auto
  ultimately show ?case using Cons.IH[of "map2 (+) as cs"] Cons.prems by (simp add: add.assoc)
qed simp

lemma sum_polynomials_hd:
  "0 < t \<Longrightarrow> \<forall>cs \<in> set css. length cs = t \<Longrightarrow> hd (sum_polynomials t css) = (\<Sum>cs\<leftarrow>css. hd cs)"
  using fold_map2_hd[of "replicate t 0" css] by (simp add: sum_polynomials_def)

lemma decrypted_share_verified:
  "decrypt_share_for_receiver G B receiver isk m config = Inr sh \<Longrightarrow>
    verify_share G (dm_commitment m) sh = Inr True"
  by (auto simp: decrypt_share_for_receiver_def Let_def split: if_splits)

context prime_group begin

lemma aggregate_sum_fold:
  "\<forall>m \<in> set ms. commitment_coefficients (dm_commitment m) = map (mul_generator G) (f m)
      \<and> length (f m) = length as \<Longrightarrow>
    fold (\<lambda>m agg. add_coefficients agg (commitment_coefficients (dm_commitment m))) ms (map (mul_generator G) as)
    = map (mul_generator G) (fold (\<lambda>cs as. map2 (+) as cs) (map f ms) as)"
proof (induction ms arbitrary: as)
  case (Cons m ms)
  have "length (map2 (+) as (f m)) = length as" using Cons.prems by simp
  with Cons.prems Cons.IH[of "map2 (+) as (f m)"] show ?case
    by (simp add: add_coefficients_map del: map_map)
qed simp

end

context evrf_relation begin

text \<open>Every registered participant's completion succeeds on the dealings of an honest run.\<close>

lemma honest_run:
  assumes wf: "wf_config config"
    and honest: "\<forall>p \<in> set (registry_indexes (cfg_registry config)).
      honest_dealing G B config (isk p) (cs p) (pad p) (D p) \<and> dm_dealer (dealing_message (D p)) = p"
    and receiver: "receiver \<in> set (registry_indexes (cfg_registry config))"
  defines "peers \<equiv> map (\<lambda>p. (p, dealing_message (D p))) (public_share_receivers config receiver)"
  shows "\<exists>out. complete G B receiver (isk receiver) (D receiver) peers config = Inr out
    \<and> run_values G config receiver
        (sum_polynomials (cfg_threshold config) (map cs (registry_indexes (cfg_registry config)))) out"
proof -
  let ?idx = "registry_indexes (cfg_registry config)"
  let ?ds = "map (\<lambda>p. (p, dealing_message (D p))) ?idx"
  have dealer [simp]: "dm_dealer (dealing_message (D p)) = p" if "p \<in> set ?idx" for p
    using honest that by blast
  have keys: "registry_public_key (cfg_registry config) p = Inr (mul_generator G (isk p))"
    if "p \<in> set ?idx" for p
    using honest_own_share honest that by fastforce
  have distinct: "distinct (map fst peers)"
    using wf_config_distinct[OF wf] by (simp add: peers_def comp_def public_share_receivers_def)
  have ds: "dealing_set (dealing_message (D receiver)) peers = ?ds"
  proof (rule bt_ext[OF dealing_set_sorted])
    show "bt_sorted ?ds" using wf_config_sorted[OF wf] by (simp add: bt_sorted_def comp_def)
    fix k
    have "map_of peers k = (if k \<in> set ?idx - {receiver} then Some (dealing_message (D k)) else None)"
      by (simp add: peers_def map_of_map_restrict set_public_share_receivers restrict_map_def)
    then show "bt_get (dealing_set (dealing_message (D receiver)) peers) k = bt_get ?ds k"
      using receiver by (auto simp: dealing_set_get[OF distinct])
  qed
  have msgs: "\<forall>m \<in> set (map (\<lambda>p. dealing_message (D p)) ?idx). verify_dealing G B m config = Inr ()"
    using honest honest_verifies by auto
  have verified: "verify_dealings G B (map (\<lambda>p. dealing_message (D p)) ?idx) config = Inr ()"
    using receiver by (intro verify_dealings_all[OF wf _ msgs batch_complete]) auto
  have collected: "collect (\<lambda>d. ok_or (bt_get ?ds d) (MissingDealing (index_get d))) ?idx
      = Inr (map (\<lambda>p. dealing_message (D p)) ?idx)"
    by (rule collect_map) simp
  have "\<exists>sh. (if dm_dealer m = receiver then Inr (dealing_private_share (D receiver))
      else decrypt_share_for_receiver G B receiver (isk receiver) m config) = Inr sh
      \<and> verify_share G (dm_commitment m) sh = Inr True" if mem: "m \<in> set (map (\<lambda>p. dealing_message (D p)) ?idx)" for m
  proof -
    obtain p where p: "p \<in> set ?idx" "m = dealing_message (D p)" using mem by auto
    then have h: "honest_dealing G B config (isk p) (cs p) (pad p) (D p)" using honest by blast
    show ?thesis
    proof (cases "p = receiver")
      case True
      with p show ?thesis using honest_own_share[OF h] by simp
    next
      case False
      then have "decrypt_share_for_receiver G B receiver (isk receiver) m config
        = Inr \<lparr>share_participant = receiver, share_value = horner (cs p) (index_scalar receiver)\<rparr>"
        using honest_decrypts[OF h _ keys[OF receiver]] p by simp
      with False p show ?thesis using decrypted_share_verified by fastforce
    qed
  qed
  then obtain secret agg where acc: "rfold (accumulate_step G B receiver (isk receiver) (dealing_private_share (D receiver)) config)
      (0, replicate (cfg_threshold config) 0) (map (\<lambda>p. dealing_message (D p)) ?idx) = Inr (secret, agg)"
    using accumulate_ok[of "map (\<lambda>p. dealing_message (D p)) ?idx" receiver] by (metis surj_pair)
  obtain as where as: "agg = map (mul_generator G) as" using commitment_opening by blast
  have scalars: "to_scalar G p = Inr (index_scalar p)" if "p \<in> set ?idx" for p
    using honest that unfolding honest_dealing_def by blast
  have coeffs: "\<forall>m \<in> set (map (\<lambda>p. dealing_message (D p)) ?idx).
      commitment_coefficients (dm_commitment m) = map (mul_generator G) (cs (dm_dealer m))
      \<and> length (cs (dm_dealer m)) = length (replicate (cfg_threshold config) (0 :: 's))"
    using honest by (auto simp: honest_dealing_def)
  have zeros: "replicate (cfg_threshold config) 0
      = map (mul_generator G) (replicate (cfg_threshold config) 0)" by simp
  have sum: "aggregate_coefficients (cfg_threshold config) (bt_values ?ds)
      = map (mul_generator G) (sum_polynomials (cfg_threshold config) (map cs ?idx))"
  proof -
    have eq: "map (\<lambda>p. cs (dm_dealer (dealing_message (D p)))) ?idx = map cs ?idx"
      by (intro map_cong refl) simp
    show ?thesis
      using aggregate_sum_fold[OF coeffs]
      by (simp add: aggregate_coefficients_def sum_polynomials_def zeros comp_def eq del: map_replicate)
  qed
  have "agg = aggregate_coefficients (cfg_threshold config) (bt_values ?ds)"
  proof -
    have "share_participant (dealing_private_share (D receiver)) = receiver"
      using honest_own_share honest receiver by fastforce
    from accumulate_value[OF acc[unfolded zeros] this scalars[OF receiver]] coeffs show ?thesis
      by (auto simp: aggregate_coefficients_def)
  qed
  then have "length agg = cfg_threshold config" by simp
  then have "agg \<noteq> []" using wf by (auto simp: wf_config_def)
  have "public_key_share G \<lparr>commitment_coefficients = agg\<rparr> p = Inr (mul_generator G (horner as (index_scalar p)))"
    if "p \<in> set ?idx" for p
    using public_key_share_value[of "\<lparr>commitment_coefficients = agg\<rparr>" as p] scalars[OF that] as by simp
  then have "collect (public_key_share G \<lparr>commitment_coefficients = agg\<rparr>) ?idx
      = Inr (map (\<lambda>p. mul_generator G (horner as (index_scalar p))) ?idx)"
    by (rule collect_map)
  then obtain pks where pks: "rfold (\<lambda>m p. rbind (public_key_share G \<lparr>commitment_coefficients = agg\<rparr> p) (\<lambda>pk.
      Inr (bt_insert p pk m))) bt_empty ?idx = Inr pks"
    using rfold_bt_insert[of bt_empty ?idx "public_key_share G \<lparr>commitment_coefficients = agg\<rparr>"]
      wf_config_sorted[OF wf] by (simp add: bt_empty_def bt_keys_def)
  have "\<forall>(d, m) \<in> set peers. d = dm_dealer m \<and> d \<noteq> receiver"
    by (auto simp: peers_def set_public_share_receivers)
  then have "\<exists>out. complete G B receiver (isk receiver) (D receiver) peers config = Inr out"
    unfolding complete_Inr ds
    using keys[OF receiver] receiver distinct collected verified acc \<open>agg \<noteq> []\<close> pks
      honest_own_share[of config "isk receiver" "cs receiver" "pad receiver" "D receiver"] honest
    by auto
  then obtain out where out: "complete G B receiver (isk receiver) (D receiver) peers config = Inr out" by blast
  from complete_values[OF prime_group_axioms wf out, unfolded ds sum]
  obtain cs' where "map (mul_generator G) (sum_polynomials (cfg_threshold config) (map cs ?idx)) = map (mul_generator G) cs'"
    and vals: "run_values G config receiver cs' out" by blast
  then have "sum_polynomials (cfg_threshold config) (map cs ?idx) = cs'"
    using commitment_opening by blast
  with out vals show ?thesis by blast
qed

end

section \<open>The two-party run\<close>

lemma tiny_relation: "evrf_relation tiny_group tiny_backend"
proof
  show "(\<And>sts pr. (sts, pr) \<in> set batches \<Longrightarrow> verify_batch tiny_backend sts pr = Inr ()) \<Longrightarrow>
      verify_proof_batch tiny_backend batches = Inr ()" for batches
    by (auto simp: default_verify_proof_batch_def rfold_unit_ok simp del: tiny_backend_fields(3))
qed simp_all

definition tiny_rng :: "(tiny, unit) crypto_rng" where
  "tiny_rng = \<lparr>next_scalar = (\<lambda>r. (3, r)), fill_bytes = (\<lambda>n r. (replicate n 0, r))\<rparr>"

definition tiny_dealing :: "participant_index \<Rightarrow> (tiny, tiny) dkg_dealing" where
  "tiny_dealing p =
     (if p = party1
      then \<lparr>dealing_message = tiny_message1,
            dealing_private_share = \<lparr>share_participant = party1, share_value = 5\<rparr>\<rparr>
      else \<lparr>dealing_message = tiny_message party2 [4, 3] party1 8 [7],
            dealing_private_share = \<lparr>share_participant = party2, share_value = 10\<rparr>\<rparr>)"

lemma tiny_verify_share:
  "verify_share tiny_group \<lparr>commitment_coefficients = cs\<rparr>
      \<lparr>share_participant = ParticipantIndex w, share_value = v\<rparr> = Inr (v = horner cs (reduce (unat w)))"
proof -
  have "map (mul_generator tiny_group) cs = cs" by (induction cs) simp_all
  then show ?thesis
    using tiny.verify_share_value[of "\<lparr>commitment_coefficients = cs\<rparr>" cs
      "\<lparr>share_participant = ParticipantIndex w, share_value = v\<rparr>" "reduce (unat w)"] by simp
qed

lemmas create_simps = create_dealing_with_secret_def random_with_secret_def tiny_rng_def commit_def
  commitment_from_coefficients_def dealer_message_nonce_random_def dealing_shares_def evaluate_def
  evaluate_at_scalar_def bt_empty_def less_participant_index_def encrypt_shares_def
  encrypt_for_receiver_def dealing_relation_def statement_and_witness_def statement_for_receiver_def
  bt_get_def dealing_root_def DEALER_MESSAGE_NONCE_BYTES_def Let_def tiny_verify_share

lemma tiny_create1:
  "create_dealing_with_secret tiny_group tiny_backend party1 5 2 tiny_config tiny_rng ()
    = Some (Inr (tiny_dealing party1, ()))"
  by (simp add: create_simps tiny_dealing_def tiny_message_def tiny_eval)

lemma tiny_create2:
  "create_dealing_with_secret tiny_group tiny_backend party2 7 4 tiny_config tiny_rng ()
    = Some (Inr (tiny_dealing party2, ()))"
  by (simp add: create_simps tiny_dealing_def tiny_message_def tiny_eval)

lemma tiny_honest:
  "p \<in> {party1, party2} \<Longrightarrow>
    \<exists>cs pad. honest_dealing tiny_group tiny_backend tiny_config (if p = party1 then 5 else 7) cs pad (tiny_dealing p)
      \<and> dm_dealer (dealing_message (tiny_dealing p)) = p"
  using create_dealing_honest[OF tiny.prime_group_axioms tiny_wf_config tiny_create1]
    create_dealing_honest[OF tiny.prime_group_axioms tiny_wf_config tiny_create2]
  by auto

text \<open>The peers of a party in this run, and its completion.\<close>

abbreviation tiny_peer :: "participant_index \<Rightarrow> (participant_index, (tiny, tiny) dealer_message) btree_map" where
  "tiny_peer p \<equiv> (if p = party1 then [(party2, dealing_message (tiny_dealing party2))]
                  else [(party1, dealing_message (tiny_dealing party1))])"

lemma tiny_complete:
  assumes "p \<in> {party1, party2}"
  obtains out where "complete tiny_group tiny_backend p (if p = party1 then 5 else 7) (tiny_dealing p)
      (tiny_peer p) tiny_config = Inr out"
proof -
  obtain cs pad where "\<forall>p \<in> {party1, party2}.
      honest_dealing tiny_group tiny_backend tiny_config (if p = party1 then 5 else 7) (cs p) (pad p) (tiny_dealing p)
      \<and> dm_dealer (dealing_message (tiny_dealing p)) = p"
    using tiny_honest by metis
  then have "\<exists>out. complete tiny_group tiny_backend p (if p = party1 then 5 else 7) (tiny_dealing p)
      (map (\<lambda>p. (p, dealing_message (tiny_dealing p))) (public_share_receivers tiny_config p)) tiny_config = Inr out"
    using evrf_relation.honest_run[OF tiny_relation tiny_wf_config,
        of "\<lambda>p. if p = party1 then 5 else 7" cs pad tiny_dealing p] assms by auto
  moreover have "map (\<lambda>p. (p, dealing_message (tiny_dealing p))) (public_share_receivers tiny_config p) = tiny_peer p"
    using assms by (auto simp: public_share_receivers_def)
  ultimately show ?thesis using that by auto
qed

lemma tiny_dealing_set:
  "p \<in> {party1, party2} \<Longrightarrow> dealing_set (dealing_message (tiny_dealing p)) (tiny_peer p)
    = [(party1, dealing_message (tiny_dealing party1)), (party2, dealing_message (tiny_dealing party2))]"
  by (auto simp: dealing_set_def tiny_dealing_def less_participant_index_def)

section \<open>The outcome of an honest run\<close>

lemma honest_run_outcome:
  assumes "evrf_relation G B" and "wf_config config"
    and "\<forall>p \<in> set (registry_indexes (cfg_registry config)).
      create_dealing_with_secret G B p (isk p) (secret p) config R (rng p) = Some (Inr (D p, rng' p))"
    and "receiver \<in> set (registry_indexes (cfg_registry config))"
  shows "\<exists>out. complete G B receiver (isk receiver) (D receiver)
        (map (\<lambda>p. (p, dealing_message (D p))) (public_share_receivers config receiver)) config = Inr out
    \<and> out_public_key out = mul_generator G (\<Sum>p\<leftarrow>registry_indexes (cfg_registry config). secret p)"
proof -
  let ?idx = "registry_indexes (cfg_registry config)"
  have G: "prime_group G" using assms(1) by (simp add: evrf_relation_def)
  have "\<forall>p \<in> set ?idx. \<exists>cs pad. honest_dealing G B config (isk p) cs pad (D p) \<and> hd cs = secret p
      \<and> dm_dealer (dealing_message (D p)) = p"
    using create_dealing_honest[OF G assms(2)] assms(3) by metis
  then obtain cs pad where h: "\<forall>p \<in> set ?idx. honest_dealing G B config (isk p) (cs p) (pad p) (D p)
      \<and> hd (cs p) = secret p \<and> dm_dealer (dealing_message (D p)) = p"
    by metis
  obtain out where out: "complete G B receiver (isk receiver) (D receiver)
        (map (\<lambda>p. (p, dealing_message (D p))) (public_share_receivers config receiver)) config = Inr out"
    and vals: "run_values G config receiver (sum_polynomials (cfg_threshold config) (map cs ?idx)) out"
    using evrf_relation.honest_run[OF assms(1,2) _ assms(4), of isk cs pad D] h by blast
  have "\<forall>c \<in> set (map cs ?idx). length c = cfg_threshold config"
    using h by (auto simp: honest_dealing_def)
  moreover have "0 < cfg_threshold config" using assms(2) by (simp add: wf_config_def)
  ultimately have "hd (sum_polynomials (cfg_threshold config) (map cs ?idx)) = (\<Sum>c\<leftarrow>map cs ?idx. hd c)"
    by (intro sum_polynomials_hd)
  also have "\<dots> = (\<Sum>p\<leftarrow>?idx. secret p)"
    using h by (simp add: comp_def cong: map_cong)
  finally show ?thesis using out vals by (auto simp: run_values_def)
qed

section \<open>Agreement\<close>

lemma complete_same_dealings:
  assumes "prime_group G" and "wf_config config"
    and "complete G B receiver isk own peers config = Inr out"
    and "complete G B' receiver' isk' own' peers' config = Inr out'"
    and "dealing_set (dealing_message own) peers = dealing_set (dealing_message own') peers'"
  shows "out_public_key out = out_public_key out'
    \<and> out_public_key_shares out = out_public_key_shares out'
    \<and> out_transcript_root out = out_transcript_root out'"
proof -
  obtain cs where cs: "aggregate_coefficients (cfg_threshold config)
      (bt_values (dealing_set (dealing_message own) peers)) = map (mul_generator G) cs" "run_values G config receiver cs out"
    using complete_values[OF assms(1-3)] by blast
  obtain cs' where cs': "aggregate_coefficients (cfg_threshold config)
      (bt_values (dealing_set (dealing_message own) peers)) = map (mul_generator G) cs'" "run_values G config receiver' cs' out'"
    using complete_values[OF assms(1,2,4)] assms(5) by auto
  have "cs = cs'" using prime_group.commitment_opening[OF assms(1)] cs(1) cs'(1) by metis
  with cs(2) cs'(2) have "out_public_key out = out_public_key out'
      \<and> out_public_key_shares out = out_public_key_shares out'"
    by (simp add: run_values_def)
  moreover have "out_transcript_root out = out_transcript_root out'"
    using assms(3-5) unfolding complete_Inr by auto
  ultimately show ?thesis by blast
qed

section \<open>Properties\<close>

text \<open>
  A dealing made by \<open>create_dealing_with_secret\<close> verifies publicly, and every registered
  receiver that knows its identity secret accepts it: it derives the dealer's pad and decrypts a
  share that lies on the committed polynomial.
\<close>

theorem created_dealing_accepted:
  assumes "evrf_relation G B" and "wf_config config"
    and "create_dealing_with_secret G B dealer isk secret config R r = Some (Inr (dealing, r'))"
    and "registry_public_key (cfg_registry config) receiver = Inr (mul_generator G b)"
  shows "verify_dealing G B (dealing_message dealing) config = Inr ()
    \<and> verify_dealing_for_receiver G B receiver b (dealing_message dealing) config = Inr ()"
proof -
  have G: "prime_group G" using assms(1) by (simp add: evrf_relation_def)
  obtain cs pad where h: "honest_dealing G B config isk cs pad dealing"
    using create_dealing_honest[OF G assms(2,3)] by blast
  have "verify_dealing G B (dealing_message dealing) config = Inr ()"
    using evrf_relation.honest_verifies[OF assms(1) h] .
  moreover have "\<exists>sh. decrypt_share_for_receiver G B receiver b (dealing_message dealing) config = Inr sh"
    if "receiver \<noteq> dm_dealer (dealing_message dealing)"
    using evrf_relation.honest_decrypts[OF assms(1) h that assms(4)] by blast
  ultimately show ?thesis
    using assms(4) by (auto simp: verify_dealing_for_receiver_def)
qed

lemma created_dealing_accepted_witness:
  "verify_dealing_for_receiver tiny_group tiny_backend party2 7 tiny_message1 tiny_config = Inr ()"
  using created_dealing_accepted[OF tiny_relation tiny_wf_config tiny_create1, of party2 7]
  by (simp add: tiny_dealing_def)

text \<open>
  C8. An honest run completes: when every registered participant has created a dealing, each of
  them completes from the broadcast messages, and the shared public key is the generator times the
  sum of the dealers' secrets.
\<close>

theorem honest_run_completes:
  assumes "evrf_relation G B" and "wf_config config"
    and "\<forall>p \<in> set (registry_indexes (cfg_registry config)).
      create_dealing_with_secret G B p (isk p) (secret p) config R (rng p) = Some (Inr (D p, rng' p))"
    and "receiver \<in> set (registry_indexes (cfg_registry config))"
  shows "\<exists>out. complete G B receiver (isk receiver) (D receiver)
        (map (\<lambda>p. (p, dealing_message (D p))) (public_share_receivers config receiver)) config = Inr out
    \<and> out_public_key out = mul_generator G (\<Sum>p\<leftarrow>registry_indexes (cfg_registry config). secret p)"
  by (rule honest_run_outcome[OF assms])

lemma honest_run_completes_witness:
  "\<exists>out. complete tiny_group tiny_backend party1 5 (tiny_dealing party1)
        [(party2, dealing_message (tiny_dealing party2))] tiny_config = Inr out
    \<and> out_public_key out = mul_generator tiny_group 6"
proof -
  let ?isk = "\<lambda>p. if p = party1 then 5 else 7 :: tiny"
  let ?secret = "\<lambda>p. if p = party1 then 2 else 4 :: tiny"
  have "\<forall>p \<in> set (registry_indexes (cfg_registry tiny_config)).
      create_dealing_with_secret tiny_group tiny_backend p (?isk p) (?secret p) tiny_config tiny_rng ()
        = Some (Inr (tiny_dealing p, ()))"
    by (simp add: tiny_create1 tiny_create2)
  from honest_run_completes[OF tiny_relation tiny_wf_config this, of party1]
  show ?thesis by (simp add: public_share_receivers_def)
qed

text \<open>
  C9. Whatever the other dealers sent: a completed run used one verified dealing of every
  registered participant and of nobody else, and the receiver's secret share is the discrete
  logarithm of its published public key share.
\<close>

theorem complete_sound:
  assumes "prime_group G" and "wf_config config" and "complete G B receiver isk own peers config = Inr out"
  shows "bt_keys (dealing_set (dealing_message own) peers) = registry_indexes (cfg_registry config)
    \<and> verify_dealings G B (bt_values (dealing_set (dealing_message own) peers)) config = Inr ()
    \<and> share_participant (out_secret_share out) = receiver
    \<and> bt_get (out_public_key_shares out) receiver
        = Some (mul_generator G (share_value (out_secret_share out)))"
proof -
  obtain cs where "run_values G config receiver cs out"
    using complete_values[OF assms] by blast
  moreover have "receiver \<in> set (registry_indexes (cfg_registry config))"
    using complete_Inr[THEN iffD1, OF assms(3), THEN conjunct1] by (rule registry_public_key_in)
  ultimately have "share_participant (out_secret_share out) = receiver
      \<and> bt_get (out_public_key_shares out) receiver
        = Some (mul_generator G (share_value (out_secret_share out)))"
    by (simp add: run_values_def)
  then show ?thesis using complete_dealers[OF assms(2,3)] by blast
qed

lemma complete_sound_witness:
  "\<exists>out. complete tiny_group tiny_backend party2 7 (tiny_dealing party2) (tiny_peer party2) tiny_config = Inr out
    \<and> bt_get (out_public_key_shares out) party2 = Some (share_value (out_secret_share out))"
proof -
  obtain out where out: "complete tiny_group tiny_backend party2 7 (tiny_dealing party2) (tiny_peer party2) tiny_config = Inr out"
    using tiny_complete[of party2] by auto
  from complete_sound[OF tiny.prime_group_axioms tiny_wf_config out] out show ?thesis by simp
qed

text \<open>
  C18. Agreement: two receivers that complete from the same set of dealings obtain the same public
  key, the same public key shares and the same transcript root.
\<close>

theorem complete_agrees:
  assumes "prime_group G" and "wf_config config"
    and "complete G B receiver isk own peers config = Inr out"
    and "complete G B' receiver' isk' own' peers' config = Inr out'"
    and "dealing_set (dealing_message own) peers = dealing_set (dealing_message own') peers'"
  shows "out_public_key out = out_public_key out'
    \<and> out_public_key_shares out = out_public_key_shares out'
    \<and> out_transcript_root out = out_transcript_root out'"
  by (rule complete_same_dealings[OF assms])

lemma complete_agrees_witness:
  "\<exists>out out'. complete tiny_group tiny_backend party1 5 (tiny_dealing party1) (tiny_peer party1) tiny_config = Inr out
    \<and> complete tiny_group tiny_backend party2 7 (tiny_dealing party2) (tiny_peer party2) tiny_config = Inr out'
    \<and> out_public_key out = out_public_key out'"
proof -
  obtain out where out: "complete tiny_group tiny_backend party1 5 (tiny_dealing party1) (tiny_peer party1) tiny_config = Inr out"
    using tiny_complete[of party1] by auto
  obtain out' where out': "complete tiny_group tiny_backend party2 7 (tiny_dealing party2) (tiny_peer party2) tiny_config = Inr out'"
    using tiny_complete[of party2] by auto
  have "dealing_set (dealing_message (tiny_dealing party1)) (tiny_peer party1)
      = dealing_set (dealing_message (tiny_dealing party2)) (tiny_peer party2)"
    using tiny_dealing_set[of party1] tiny_dealing_set[of party2] by simp
  from complete_agrees[OF tiny.prime_group_axioms tiny_wf_config out out' this] out out' show ?thesis by blast
qed

text \<open>
  C2. The outcome of the DKG is a threshold sharing: the secret shares of any \<open>threshold\<close> distinct
  receivers that completed from one set of dealings reconstruct the discrete logarithm of the
  shared public key.
\<close>

theorem outputs_reconstruct:
  assumes "prime_group G" and "wf_config config"
    and "\<forall>(receiver, isk, own, peers, out) \<in> set runs.
      complete G B receiver isk own peers config = Inr out \<and> dealing_set (dealing_message own) peers = dealings"
    and "distinct (map fst runs)" and "inj_on (to_scalar G) (fst ` set runs)"
    and "cfg_threshold config \<le> length runs"
  shows "\<exists>secret. reconstruct_secret G (map (\<lambda>(_, _, _, _, out). out_secret_share out) runs)
        (cfg_threshold config) = Inr secret
    \<and> (\<forall>(_, _, _, _, out) \<in> set runs. out_public_key out = mul_generator G secret)"
proof -
  let ?t = "cfg_threshold config"
  obtain cs where cs: "aggregate_coefficients ?t (bt_values dealings) = map (mul_generator G) cs"
    using prime_group.commitment_opening[OF assms(1)] by blast
  have vals: "run_values G config receiver cs out"
    if "(receiver, isk, own, peers, out) \<in> set runs" for receiver isk own peers out
  proof -
    have "complete G B receiver isk own peers config = Inr out"
      and "dealing_set (dealing_message own) peers = dealings" using assms(3) that by auto
    with complete_values[OF assms(1,2)] obtain cs' where
      "aggregate_coefficients ?t (bt_values dealings) = map (mul_generator G) cs'" "run_values G config receiver cs' out"
      by metis
    with cs prime_group.commitment_opening[OF assms(1)] show ?thesis by metis
  qed
  have pos: "0 < ?t" using assms(2) by (simp add: wf_config_def)
  let ?shs = "map (\<lambda>(_, _, _, _, out). out_secret_share out) runs"
  have parts: "map share_participant ?shs = map fst runs"
    using vals by (auto simp: run_values_def)
  have share: "share_value (?shs ! i) = horner cs (index_scalar (map fst runs ! i))
      \<and> to_scalar G (map fst runs ! i) = Inr (index_scalar (map fst runs ! i))" if "i < length runs" for i
  proof -
    obtain receiver isk own peers out where e: "runs ! i = (receiver, isk, own, peers, out)" by (metis surj_pair)
    then have v: "run_values G config receiver cs out" using vals that nth_mem by metis
    have "registry_public_key (cfg_registry config) receiver = Inr (mul_generator G isk)"
      using assms(3) nth_mem[OF that] e unfolding complete_Inr by fastforce
    then have "receiver \<in> set (registry_indexes (cfg_registry config))" by (rule registry_public_key_in)
    with v that e show ?thesis by (simp add: run_values_def)
  qed
  have "to_scalar G p = Inr (index_scalar p)" if p: "p \<in> set (map fst runs)" for p
  proof -
    obtain i where "i < length runs" "map fst runs ! i = p"
      using p by (metis in_set_conv_nth length_map)
    then show ?thesis using share by blast
  qed
  then have "collect (to_scalar G) (map fst runs) = Inr (map index_scalar (map fst runs))"
    by (rule collect_map)
  then have xs: "collect (\<lambda>sh. to_scalar G (share_participant sh)) ?shs = Inr (map index_scalar (map fst runs))"
    unfolding collect_share_scalars parts .
  have dist: "distinct (map index_scalar (map fst runs) :: 'a list)"
    using collect_distinct[OF xs[unfolded collect_share_scalars parts] assms(4)] assms(5) by simp
  have "hd runs \<in> set runs" using pos assms(6) by (intro hd_in_set) auto
  moreover obtain receiver isk own peers out where "hd runs = (receiver, isk, own, peers, out)"
    by (metis surj_pair)
  ultimately have "run_values G config receiver cs out" using vals by simp
  then have len: "length cs = ?t" by (simp add: run_values_def)
  have "lagrange_interpolate_at_zero G ?shs = Inr (horner cs 0)"
  proof (rule lagrange_interpolate_exact[OF _ _ xs dist])
    show "polyfn (length cs) (horner cs)" by (rule polyfn_horner)
    show "\<forall>i<length ?shs. share_value (?shs ! i) = horner cs (map index_scalar (map fst runs) ! i)"
      using share by simp
    show "distinct (map share_participant ?shs)" unfolding parts by (rule assms(4))
  qed (use assms(6) pos len in auto)
  moreover have "cs \<noteq> []" using len pos by auto
  ultimately have "reconstruct_secret G ?shs ?t = Inr (hd cs)"
    using pos assms(6) by (simp add: reconstruct_secret_def horner_zero)
  then show ?thesis using vals by (auto simp: run_values_def)
qed

lemma outputs_reconstruct_witness:
  "\<exists>out out' secret.
    complete tiny_group tiny_backend party1 5 (tiny_dealing party1) (tiny_peer party1) tiny_config = Inr out
    \<and> complete tiny_group tiny_backend party2 7 (tiny_dealing party2) (tiny_peer party2) tiny_config = Inr out'
    \<and> reconstruct_secret tiny_group [out_secret_share out, out_secret_share out'] 2 = Inr secret
    \<and> out_public_key out = mul_generator tiny_group secret"
proof -
  obtain out where out: "complete tiny_group tiny_backend party1 5 (tiny_dealing party1) (tiny_peer party1) tiny_config = Inr out"
    using tiny_complete[of party1] by auto
  obtain out' where out': "complete tiny_group tiny_backend party2 7 (tiny_dealing party2) (tiny_peer party2) tiny_config = Inr out'"
    using tiny_complete[of party2] by auto
  let ?runs = "[(party1, 5, tiny_dealing party1, tiny_peer party1, out), (party2, 7, tiny_dealing party2, tiny_peer party2, out')]"
  have "\<forall>(receiver, isk, own, peers, out) \<in> set ?runs.
      complete tiny_group tiny_backend receiver isk own peers tiny_config = Inr out
      \<and> dealing_set (dealing_message own) peers
        = [(party1, dealing_message (tiny_dealing party1)), (party2, dealing_message (tiny_dealing party2))]"
    using out out' tiny_dealing_set[of party1] tiny_dealing_set[of party2] by simp
  from outputs_reconstruct[OF tiny.prime_group_axioms tiny_wf_config this]
  have "\<exists>secret. reconstruct_secret tiny_group [out_secret_share out, out_secret_share out'] 2 = Inr secret
      \<and> out_public_key out = mul_generator tiny_group secret"
    by (simp add: tiny_eval)
  with out out' show ?thesis by blast
qed

end
