(* ===== verification/Prototype_Backend.thy ===== *)
theory Prototype_Backend
  imports Proof_Stream Runs
begin

text \<open>
  \<open>golden-evrf/src/lib.rs\<close>: the prototype proof backend, a batch of Schnorr proofs that the public
  share and the pad commitment of every statement can be opened, on one Merlin transcript that
  starts with the roots of all statements. \<open>random_nonzero_scalar\<close> samples until it is nonzero, so
  proving is partial.
\<close>

section \<open>The statements\<close>

definition PROTOTYPE_PROOF_ID :: bytes where
  "PROTOTYPE_PROOF_ID = ascii ''golden-evrf/prototype-share-opening/v3''"

definition ensure_backend_matches ::
  "('s, 'e, 'z) golden_group_scheme \<Rightarrow> ('s, 'e) evrf_statement \<Rightarrow> unit result" where
  "ensure_backend_matches G st =
     (if st_protocol_version st = PROTOCOL_VERSION \<and> st_backend_id st = backend_id G then Inr ()
      else Inl ProofVerificationFailed)"

definition ensure_encrypted_share_relation ::
  "('s, 'e::ab_group_add, 'z) golden_group_scheme \<Rightarrow> ('s, 'e) evrf_statement \<Rightarrow> unit result" where
  "ensure_encrypted_share_relation G st =
     (let encrypted_share_commitment = mul_generator G (st_encrypted_share st);
          expected_encrypted_share_commitment = st_share_commitment st + st_pad_commitment st
      in if encrypted_share_commitment = expected_encrypted_share_commitment then Inr ()
         else Inl ProofVerificationFailed)"

definition ensure_feldman_share_relation ::
  "('s::field, 'e::ab_group_add, 'z) golden_group_scheme \<Rightarrow> ('s, 'e) evrf_statement \<Rightarrow> unit result" where
  "ensure_feldman_share_relation G st =
     (if st_commitment_coefficients st = []
         \<or> length (st_commitment_coefficients st) \<noteq> st_threshold st
      then Inl ProofVerificationFailed
      else rbind (to_scalar G (st_receiver st)) (\<lambda>x.
           let (x_pow, expected) =
             fold (\<lambda>coefficient (x_pow, expected). (x_pow * x, expected + group_mul G coefficient x_pow))
               (st_commitment_coefficients st) (1, 0)
           in if expected = st_share_commitment st then Inr () else Inl ProofVerificationFailed))"

definition validate_statement ::
  "('s::field, 'e::ab_group_add, 'z) golden_group_scheme \<Rightarrow> participant_index option
    \<Rightarrow> ('s, 'e) evrf_statement \<Rightarrow> participant_index option result" where
  "validate_statement G previous_receiver st =
     (if (case previous_receiver of None \<Rightarrow> False | Some previous \<Rightarrow> st_receiver st \<le> previous)
      then Inl ProofVerificationFailed
      else rbind (ensure_backend_matches G st) (\<lambda>_.
           rbind (ensure_feldman_share_relation G st) (\<lambda>_.
           rbind (ensure_encrypted_share_relation G st) (\<lambda>_. Inr (Some (st_receiver st))))))"

definition observe_batch ::
  "'t merlin \<Rightarrow> ('o, 't) observe \<Rightarrow> ('s::field, 'e::ab_group_add, 'z) golden_group_scheme
    \<Rightarrow> ('s, 'e) evrf_statement list \<Rightarrow> 'o \<Rightarrow> 'o result" where
  "observe_batch M Ob G statements stream =
     (if 2 ^ 64 \<le> length statements then Inl ProofVerificationFailed
      else let stream = observe_bytes M Ob (ascii ''group-backend'') (backend_id G) stream;
               stream = observe_bytes M Ob (ascii ''statement-count'') (u64_be (length statements)) stream
           in rbind (rfold (\<lambda>(previous_receiver, stream) st.
                       rbind (validate_statement G previous_receiver st) (\<lambda>previous_receiver.
                       Inr (previous_receiver,
                            observe_bytes M Ob (ascii ''statement-root'') (statement_root G st) stream)))
                     (None, stream) statements) (\<lambda>(_, stream). Inr stream))"

definition opening_challenge ::
  "'t merlin \<Rightarrow> ('o, 't) observe \<Rightarrow> ('s::field, 'e, 'z) golden_group_scheme \<Rightarrow> 'o \<Rightarrow> ('s \<times> 'o) result" where
  "opening_challenge M Ob G stream =
     (let (bs, stream) = observe_challenge M Ob (ascii ''opening-challenge'') 32 stream
      in rbind (hash_to_scalar G (ascii ''golden-share-opening-challenge-v3'') bs) (\<lambda>c. Inr (c, stream)))"

section \<open>Proving\<close>

partial_function (option) random_nonzero_scalar ::
  "('s::zero, 'r) crypto_rng \<Rightarrow> 'r \<Rightarrow> ('s \<times> 'r) option" where
  "random_nonzero_scalar R r =
     (let (scalar, r') = next_scalar R r
      in if scalar \<noteq> 0 then Some (scalar, r') else random_nonzero_scalar R r')"

text \<open>The body of the prover's loop after its nonces are drawn.\<close>

definition prove_opening ::
  "'t merlin \<Rightarrow> ('s::field, 'e::ab_group_add, 'z) golden_group_scheme \<Rightarrow> 's evrf_witness \<Rightarrow> 's \<Rightarrow> 's
    \<Rightarrow> 't prover_stream \<Rightarrow> 't prover_stream result" where
  "prove_opening M G witness share_nonce pad_nonce stream =
     (let C = golden_curve G;
          share_nonce_point = mul_generator G share_nonce;
          pad_nonce_point = mul_generator G pad_nonce
      in rbind (send_point M C (ascii ''share-nonce-point'') share_nonce_point Reject stream) (\<lambda>stream.
         rbind (send_point M C (ascii ''pad-nonce-point'') pad_nonce_point Reject stream) (\<lambda>stream.
         rbind (opening_challenge M prover_observe G stream) (\<lambda>(challenge, stream).
         let share_response = share_nonce + challenge * wit_share witness;
             pad_response = pad_nonce + challenge * wit_pad witness
         in rbind (send_scalar M C (ascii ''share-response'') share_response stream) (\<lambda>stream.
            send_scalar M C (ascii ''pad-response'') pad_response stream)))))"

primrec prove_openings ::
  "'t merlin \<Rightarrow> ('s::field, 'e::ab_group_add, 'z) golden_group_scheme \<Rightarrow> ('s, 'r) crypto_rng
    \<Rightarrow> 's evrf_witness list \<Rightarrow> 't prover_stream \<Rightarrow> 'r \<Rightarrow> ('t prover_stream \<times> 'r) result option" where
  "prove_openings M G R [] stream r = Some (Inr (stream, r))"
| "prove_openings M G R (witness # witnesses) stream r =
     Option.bind (random_nonzero_scalar R r) (\<lambda>(share_nonce, r1).
     Option.bind (random_nonzero_scalar R r1) (\<lambda>(pad_nonce, r2).
     oresult (prove_opening M G witness share_nonce pad_nonce stream) (\<lambda>stream.
     prove_openings M G R witnesses stream r2)))"

definition prototype_prove_batch ::
  "'t merlin \<Rightarrow> ('s::field, 'e::ab_group_add, 'z) golden_group_scheme \<Rightarrow> ('s, 'r) crypto_rng
    \<Rightarrow> ('s, 'e) evrf_statement list \<Rightarrow> 's evrf_witness list \<Rightarrow> 'r \<Rightarrow> (bytes \<times> 'r) result option" where
  "prototype_prove_batch M G R statements witnesses r =
     (if length statements \<noteq> length witnesses then Some (Inl ProofVerificationFailed)
      else oresult (prover_new M PROTOTYPE_PROOF_ID) (\<lambda>stream.
           oresult (observe_batch M prover_observe G statements stream) (\<lambda>stream.
           obind (prove_openings M G R witnesses stream r) (\<lambda>(stream, r').
             Some (Inr (prover_finish stream, r'))))))"

section \<open>Verifying\<close>

definition verify_opening ::
  "'t merlin \<Rightarrow> ('s::field, 'e::ab_group_add, 'z) golden_group_scheme
    \<Rightarrow> 't verifier_stream \<Rightarrow> ('s, 'e) evrf_statement \<Rightarrow> 't verifier_stream result" where
  "verify_opening M G stream statement =
     (let C = golden_curve G
      in rbind (receive_point M C (ascii ''share-nonce-point'') Reject stream) (\<lambda>(share_nonce_point, stream).
         rbind (receive_point M C (ascii ''pad-nonce-point'') Reject stream) (\<lambda>(pad_nonce_point, stream).
         rbind (opening_challenge M verifier_observe G stream) (\<lambda>(challenge, stream).
         rbind (receive_scalar M C (ascii ''share-response'') stream) (\<lambda>(share_response, stream).
         rbind (receive_scalar M C (ascii ''pad-response'') stream) (\<lambda>(pad_response, stream).
         let share_left = mul_generator G share_response;
             share_right = share_nonce_point + group_mul G (st_share_commitment statement) challenge;
             pad_left = mul_generator G pad_response;
             pad_right = pad_nonce_point + group_mul G (st_pad_commitment statement) challenge
         in if share_left \<noteq> share_right \<or> pad_left \<noteq> pad_right then Inl ProofVerificationFailed
            else Inr stream))))))"

definition prototype_verify_batch ::
  "'t merlin \<Rightarrow> ('s::field, 'e::ab_group_add, 'z) golden_group_scheme
    \<Rightarrow> ('s, 'e) evrf_statement list \<Rightarrow> bytes \<Rightarrow> unit result" where
  "prototype_verify_batch M G statements pr =
     rbind (verifier_new M PROTOTYPE_PROOF_ID pr) (\<lambda>stream.
     rbind (observe_batch M verifier_observe G statements stream) (\<lambda>stream.
     rbind (rfold (verify_opening M G) stream statements) (\<lambda>stream.
     verifier_finish stream)))"

text \<open>The backend: the pad and the batch of proofs are the trait's defaults.\<close>

definition share_opening_backend ::
  "'t merlin \<Rightarrow> ('s::field, 'e::ab_group_add, 'z) golden_group_scheme \<Rightarrow> ('s, 'r) crypto_rng
    \<Rightarrow> ('s, 'e, 'r) evrf_backend" where
  "share_opening_backend M G R =
     \<lparr>proof_id = PROTOTYPE_PROOF_ID,
      derive_pad = default_derive_pad G,
      prove_batch = prototype_prove_batch M G R,
      verify_batch = prototype_verify_batch M G,
      verify_proof_batch = default_verify_proof_batch (prototype_verify_batch M G)\<rparr>"

end
