(* ===== verification/Prototype_Laws.thy ===== *)
theory Prototype_Laws
  imports Prototype_Backend
begin

text \<open>
  The prototype backend proves what it should: a proof it makes verifies, so it satisfies the
  contract \<open>evrf_relation\<close> of the protocol; the accepted proofs are exactly the canonical encodings
  of openings that pass a reference check over transcripts; and acceptance binds the encrypted share
  to the committed polynomial.
\<close>

section \<open>Observers\<close>

text \<open>The three roles of \<open>Observe\<close> read and replace one transcript.\<close>

locale observer =
  fixes Ob :: "('o, 't) observe"
  assumes get_set: "transcript_of Ob (set_transcript Ob t st) = t"
    and set_set: "set_transcript Ob t (set_transcript Ob u st) = set_transcript Ob t st"
    and set_get: "set_transcript Ob (transcript_of Ob st) st = st"

definition batch_transcript ::
  "'t merlin \<Rightarrow> ('s, 'e, 'z) golden_group_scheme \<Rightarrow> ('s, 'e) evrf_statement list \<Rightarrow> 't \<Rightarrow> 't" where
  "batch_transcript M G sts t =
     fold (\<lambda>st. append_message M (ascii ''statement-root'') (statement_root G st)) sts
       (append_message M (ascii ''statement-count'') (u64_be (length sts))
         (append_message M (ascii ''group-backend'') (backend_id G) t))"

definition batch_ok ::
  "('s::field, 'e::ab_group_add, 'z) golden_group_scheme \<Rightarrow> ('s, 'e) evrf_statement list \<Rightarrow> bool" where
  "batch_ok G sts \<longleftrightarrow> length sts < 2 ^ 64 \<and> is_ok (rfold (validate_statement G) None sts)"

context observer begin

lemma observe_batch_loop:
  "rfold (\<lambda>(prev, stream) st. rbind (validate_statement G prev st) (\<lambda>prev.
      Inr (prev, observe_bytes M Ob l (f st) stream))) (prev, stream) sts
   = rbind (rfold (validate_statement G) prev sts) (\<lambda>prev.
      Inr (prev, set_transcript Ob (fold (\<lambda>st. append_message M l (f st)) sts (transcript_of Ob stream)) stream))"
proof (induction sts arbitrary: prev stream)
  case Nil
  show ?case by (simp add: set_get)
next
  case (Cons st sts)
  show ?case
    by (cases "validate_statement G prev st") (simp_all add: Cons.IH, simp add: observe_bytes_def get_set set_set)
qed

lemma observe_batch_eq:
  "observe_batch M Ob G sts stream = Inr stream' \<longleftrightarrow>
    batch_ok G sts \<and> stream' = set_transcript Ob (batch_transcript M G sts (transcript_of Ob stream)) stream"
  unfolding observe_batch_def Let_def observe_batch_loop
  by (auto simp: batch_ok_def is_ok_iff batch_transcript_def observe_bytes_def get_set set_set)

lemma opening_challenge_Inr:
  "opening_challenge M Ob G st = Inr (c, st') \<longleftrightarrow>
    (\<exists>bs t. challenge_bytes M (ascii ''opening-challenge'') 32 (transcript_of Ob st) = (bs, t)
      \<and> hash_to_scalar G (ascii ''golden-share-opening-challenge-v3'') bs = Inr c
      \<and> st' = set_transcript Ob t st)"
  by (auto simp: opening_challenge_def observe_challenge_def split: prod.splits)

end

interpretation on_transcript: observer transcript_observe
  by unfold_locales (simp_all add: transcript_observe_def)

interpretation on_prover: observer prover_observe
  by unfold_locales (simp_all add: prover_observe_def)

interpretation on_verifier: observer verifier_observe
  by unfold_locales (simp_all add: verifier_observe_def)

section \<open>The relations of a statement\<close>

context prime_group begin

lemma feldman_loop:
  "snd (fold (\<lambda>C (x_pow, expected). (x_pow * x, expected + group_mul G C x_pow))
      (map (mul_generator G) cs) (x_pow, expected)) = expected + mul_generator G (horner cs x * x_pow)"
proof (induction cs arbitrary: x_pow expected)
  case (Cons c cs)
  then show ?case
    by (simp add: mul_generator_mul mul_generator_add algebra_simps)
qed simp

lemma ensure_feldman_share_relation_Inr:
  assumes "st_commitment_coefficients st = map (mul_generator G) cs"
  shows "ensure_feldman_share_relation G st = Inr () \<longleftrightarrow>
    cs \<noteq> [] \<and> length cs = st_threshold st \<and> to_scalar G (st_receiver st) = Inr (index_scalar (st_receiver st))
    \<and> st_share_commitment st = mul_generator G (horner cs (index_scalar (st_receiver st)))"
proof -
  have loop: "snd (fold (\<lambda>C (x_pow, expected). (x_pow * x, expected + group_mul G C x_pow))
      (map (mul_generator G) cs) (1, 0)) = mul_generator G (horner cs x)" for x
    by (simp add: feldman_loop)
  have check: "ensure_feldman_share_relation G st =
      (if cs = [] \<or> length cs \<noteq> st_threshold st then Inl ProofVerificationFailed
       else rbind (to_scalar G (st_receiver st)) (\<lambda>x.
         if mul_generator G (horner cs x) = st_share_commitment st then Inr () else Inl ProofVerificationFailed))"
    by (simp add: ensure_feldman_share_relation_def assms Let_def case_prod_unfold
        loop[unfolded case_prod_unfold])
  have "x = index_scalar (st_receiver st)" if "to_scalar G (st_receiver st) = Inr x" for x
    using to_scalar_value[OF that] by (simp add: index_scalar_def)
  then show ?thesis
    unfolding check by (cases "to_scalar G (st_receiver st)") auto
qed

lemma ensure_encrypted_share_relation_Inr:
  "ensure_encrypted_share_relation G st = Inr () \<longleftrightarrow>
    mul_generator G (st_encrypted_share st) = st_share_commitment st + st_pad_commitment st"
  by (simp add: ensure_encrypted_share_relation_def Let_def)

end

lemma validate_statement_Inr:
  "validate_statement G prev st = Inr prev' \<longleftrightarrow>
    (case prev of None \<Rightarrow> True | Some p \<Rightarrow> p < st_receiver st) \<and> prev' = Some (st_receiver st)
    \<and> ensure_backend_matches G st = Inr () \<and> ensure_feldman_share_relation G st = Inr ()
    \<and> ensure_encrypted_share_relation G st = Inr ()"
  by (auto simp: validate_statement_def split: option.splits)

text \<open>The receivers of an accepted batch increase, so there are at most \<open>2 ^ 32\<close> statements.\<close>

lemma validate_loop:
  "rfold (validate_statement G) prev sts = Inr prev' \<Longrightarrow>
    sorted_wrt (<) ((case prev of None \<Rightarrow> [] | Some p \<Rightarrow> [p]) @ map st_receiver sts)
    \<and> (\<forall>st \<in> set sts. ensure_backend_matches G st = Inr () \<and> ensure_feldman_share_relation G st = Inr ()
        \<and> ensure_encrypted_share_relation G st = Inr ())"
proof (induction sts arbitrary: prev)
  case (Cons st sts)
  then have "validate_statement G prev st = Inr (Some (st_receiver st))"
    and rest: "rfold (validate_statement G) (Some (st_receiver st)) sts = Inr prev'"
    by (auto simp: validate_statement_Inr)
  with Cons.IH[OF rest] show ?case
    by (auto simp: validate_statement_Inr split: option.splits)
qed (auto split: option.splits)

lemma distinct_u32_length: "distinct (map index_get ps) \<Longrightarrow> length ps \<le> 2 ^ 32"
proof -
  assume "distinct (map index_get ps)"
  then have "length ps = card (set (map index_get ps))"
    using distinct_card[of "map index_get ps"] by simp
  also have "\<dots> \<le> card (UNIV :: u32 set)" by (rule card_mono) simp_all
  finally show ?thesis by (simp add: card_word)
qed

lemma batch_ok_length:
  assumes "batch_ok G sts"
  shows "length sts \<le> 2 ^ 32"
proof -
  have "sorted_wrt (<) (map st_receiver sts)"
    using assms validate_loop[of G None sts] by (auto simp: batch_ok_def is_ok_iff)
  then have "distinct (map index_get (map st_receiver sts))"
    by (auto simp: strict_sorted_iff distinct_map inj_on_def)
  then show ?thesis using distinct_u32_length by fastforce
qed

section \<open>Openings as a reference\<close>

text \<open>One opening of the proof, its bytes, and the check of one opening as a step of the transcript.\<close>

record ('s, 'e) schnorr_opening =
  share_nonce_point :: 'e
  pad_nonce_point :: 'e
  share_response :: 's
  pad_response :: 's

definition opening_bytes :: "('s, 'e, 'z) golden_group_scheme \<Rightarrow> ('s, 'e) schnorr_opening \<Rightarrow> bytes" where
  "opening_bytes G op =
     encode_element G (share_nonce_point op) @ encode_element G (pad_nonce_point op)
     @ scalar_to_repr G (share_response op) @ scalar_to_repr G (pad_response op)"

definition opening_equations ::
  "('s::field, 'e::ab_group_add, 'z) golden_group_scheme \<Rightarrow> ('s, 'e) evrf_statement \<Rightarrow> 's \<Rightarrow> ('s, 'e) schnorr_opening \<Rightarrow> bool" where
  "opening_equations G st c op \<longleftrightarrow>
     share_nonce_point op \<noteq> 0 \<and> pad_nonce_point op \<noteq> 0
     \<and> mul_generator G (share_response op) = share_nonce_point op + group_mul G (st_share_commitment st) c
     \<and> mul_generator G (pad_response op) = pad_nonce_point op + group_mul G (st_pad_commitment st) c"

definition opening_step ::
  "'t merlin \<Rightarrow> ('s::field, 'e::ab_group_add, 'z) golden_group_scheme \<Rightarrow> 't \<Rightarrow> ('s, 'e) evrf_statement
    \<Rightarrow> ('s, 'e) schnorr_opening \<Rightarrow> 't option" where
  "opening_step M G t st op =
     (let t1 = append_message M (ascii ''pad-nonce-point'') (encode_element G (pad_nonce_point op))
                (append_message M (ascii ''share-nonce-point'') (encode_element G (share_nonce_point op)) t);
          (bs, t2) = challenge_bytes M (ascii ''opening-challenge'') 32 t1
      in case hash_to_scalar G (ascii ''golden-share-opening-challenge-v3'') bs of
           Inl _ \<Rightarrow> None
         | Inr c \<Rightarrow>
             if opening_equations G st c op
             then Some (append_message M (ascii ''pad-response'') (scalar_to_repr G (pad_response op))
                    (append_message M (ascii ''share-response'') (scalar_to_repr G (share_response op)) t2))
             else None)"

fun openings_run ::
  "'t merlin \<Rightarrow> ('s::field, 'e::ab_group_add, 'z) golden_group_scheme \<Rightarrow> 't \<Rightarrow> ('s, 'e) evrf_statement list
    \<Rightarrow> ('s, 'e) schnorr_opening list \<Rightarrow> 't option" where
  "openings_run M G t [] [] = Some t"
| "openings_run M G t (st # sts) (op # ops) =
     Option.bind (opening_step M G t st op) (\<lambda>t'. openings_run M G t' sts ops)"
| "openings_run M G t _ _ = None"

text \<open>The bytes of a proof from a position on.\<close>

definition reads :: "bytes \<Rightarrow> usize \<Rightarrow> bytes \<Rightarrow> bool" where
  "reads pr k bs \<longleftrightarrow> k + length bs < 2 ^ 64 \<and> k \<le> length pr \<and> prefix bs (drop k pr)"

lemma slice_get_prefix:
  "slice_get xs k (k + length bs) = Some bs \<longleftrightarrow> k \<le> length xs \<and> prefix bs (drop k xs)"
proof -
  have "take (length bs) ys = bs \<and> length bs \<le> length ys \<longleftrightarrow> prefix bs ys" for ys
    by (metis append_eq_conv_conj prefix_def prefix_length_le)
  from this[of "drop k xs"] show ?thesis by (auto simp: slice_get_def)
qed

lemma stream_step_reads:
  "stream_step M label bs V V' \<longleftrightarrow> reads (vs_proof V) (vs_cursor V) bs
    \<and> V' = V\<lparr>vs_transcript := append_message M label bs (vs_transcript V), vs_cursor := vs_cursor V + length bs\<rparr>"
  unfolding stream_step_def slice_get_prefix reads_def by blast

lemma reads_append: "reads pr k (xs @ ys) \<longleftrightarrow> reads pr k xs \<and> reads pr (k + length xs) ys"
proof -
  have "prefix (xs @ ys) zs \<longleftrightarrow> prefix xs zs \<and> prefix ys (drop (length xs) zs)" for zs
    by (auto simp: prefix_def)
  then show ?thesis
    by (auto simp: reads_def add.assoc add.commute[of "length xs"] dest: prefix_length_le)
qed

lemma golden_curve_fields [simp]:
  "encode_point (golden_curve G) = encode_element G" "encode_scalar (golden_curve G) = scalar_to_repr G"
  "point_is_identity (golden_curve G) = is_identity"
  by (simp_all add: golden_curve_def)

lemma allowed_golden [simp]: "allowed (golden_curve G) Reject p \<longleftrightarrow> p \<noteq> 0"
  by (simp add: allowed_def is_identity_def)

lemma receive_binds:
  assumes "golden_codec G"
  shows "rbind (receive_point M (golden_curve G) l Reject V) f = Inr W \<longleftrightarrow>
      (\<exists>R. R \<noteq> 0 \<and> reads (vs_proof V) (vs_cursor V) (encode_element G R)
        \<and> f (R, V\<lparr>vs_transcript := append_message M l (encode_element G R) (vs_transcript V),
                   vs_cursor := vs_cursor V + length (encode_element G R)\<rparr>) = Inr W)"
    and "rbind (receive_scalar M (golden_curve G) l V) g = Inr W \<longleftrightarrow>
      (\<exists>a. reads (vs_proof V) (vs_cursor V) (scalar_to_repr G a)
        \<and> g (a, V\<lparr>vs_transcript := append_message M l (scalar_to_repr G a) (vs_transcript V),
                   vs_cursor := vs_cursor V + length (scalar_to_repr G a)\<rparr>) = Inr W)"
  by (auto simp: stream_curve.receive_point_iff[OF golden_stream_curve[OF assms]] stream_step_reads
      stream_curve.receive_scalar_iff[OF golden_stream_curve[OF assms]])

lemma challenge_bind:
  "rbind (opening_challenge M verifier_observe G V) f = Inr W \<longleftrightarrow>
    (\<exists>bs t c. challenge_bytes M (ascii ''opening-challenge'') 32 (vs_transcript V) = (bs, t)
      \<and> hash_to_scalar G (ascii ''golden-share-opening-challenge-v3'') bs = Inr c
      \<and> f (c, V\<lparr>vs_transcript := t\<rparr>) = Inr W)"
  by (auto simp: on_verifier.opening_challenge_Inr) (auto simp: verifier_observe_def)

lemma opening_step_Some:
  "opening_step M G t st op = Some t' \<longleftrightarrow>
    (\<exists>bs t2 c. challenge_bytes M (ascii ''opening-challenge'') 32
        (append_message M (ascii ''pad-nonce-point'') (encode_element G (pad_nonce_point op))
          (append_message M (ascii ''share-nonce-point'') (encode_element G (share_nonce_point op)) t)) = (bs, t2)
      \<and> hash_to_scalar G (ascii ''golden-share-opening-challenge-v3'') bs = Inr c
      \<and> opening_equations G st c op
      \<and> t' = append_message M (ascii ''pad-response'') (scalar_to_repr G (pad_response op))
          (append_message M (ascii ''share-response'') (scalar_to_repr G (share_response op)) t2))"
  by (auto simp: opening_step_def Let_def split: prod.splits sum.splits)

lemma ex_opening: "(\<exists>op. P op) \<longleftrightarrow>
    (\<exists>R S a b. P \<lparr>share_nonce_point = R, pad_nonce_point = S, share_response = a, pad_response = b\<rparr>)"
  by (metis (full_types) schnorr_opening.cases)

lemma verify_opening_Inr:
  assumes "golden_codec G"
  shows "verify_opening M G V st = Inr W \<longleftrightarrow>
    (\<exists>op t. opening_step M G (vs_transcript V) st op = Some t
      \<and> reads (vs_proof V) (vs_cursor V) (opening_bytes G op)
      \<and> W = V\<lparr>vs_transcript := t, vs_cursor := vs_cursor V + length (opening_bytes G op)\<rparr>)"
proof -
  have check: "(if p \<longrightarrow> \<not> q then Inl e else Inr x) = Inr W \<longleftrightarrow> p \<and> q \<and> W = x" for p q e x
    by auto
  show ?thesis
    unfolding verify_opening_def Let_def ex_opening opening_step_Some
    by (simp add: receive_binds[OF assms] challenge_bind check opening_equations_def opening_bytes_def reads_append
        add.assoc del: rbind_eq_Inr) blast
qed

section \<open>The verifier accepts exactly the encoded openings\<close>

lemma reads_Nil [simp]: "reads pr k [] \<longleftrightarrow> k < 2 ^ 64 \<and> k \<le> length pr"
  by (simp add: reads_def)

lemma reads_end: "reads pr k bs \<Longrightarrow> k + length bs < 2 ^ 64 \<and> k + length bs \<le> length pr"
  by (auto simp: reads_def dest: prefix_length_le)

lemma verify_openings_Inr:
  assumes "golden_codec G" and "vs_cursor V < 2 ^ 64" and "vs_cursor V \<le> length (vs_proof V)"
  shows "rfold (verify_opening M G) V sts = Inr W \<longleftrightarrow>
    (\<exists>ops t. openings_run M G (vs_transcript V) sts ops = Some t
      \<and> reads (vs_proof V) (vs_cursor V) (concat (map (opening_bytes G) ops))
      \<and> W = V\<lparr>vs_transcript := t, vs_cursor := vs_cursor V + length (concat (map (opening_bytes G) ops))\<rparr>)"
  using assms(2,3)
proof (induction sts arbitrary: V)
  case Nil
  have "openings_run M G t [] ops = Some t' \<longleftrightarrow> ops = [] \<and> t' = t" for ops t t'
    by (cases ops) auto
  with Nil show ?case by auto
next
  case (Cons st sts)
  have run: "openings_run M G t (st # sts) ops = Some t' \<longleftrightarrow>
      (\<exists>op ops' u. ops = op # ops' \<and> opening_step M G t st op = Some u \<and> openings_run M G u sts ops' = Some t')" for t t' ops
    by (cases ops) (auto simp: Option.bind_eq_Some_conv)
  let ?next = "\<lambda>op u. V\<lparr>vs_transcript := u, vs_cursor := vs_cursor V + length (opening_bytes G op)\<rparr>"
  have "rfold (verify_opening M G) V (st # sts) = Inr W \<longleftrightarrow>
      (\<exists>op u. opening_step M G (vs_transcript V) st op = Some u
        \<and> reads (vs_proof V) (vs_cursor V) (opening_bytes G op)
        \<and> rfold (verify_opening M G) (?next op u) sts = Inr W)"
    by (auto simp: verify_opening_Inr[OF assms(1)])
  also have "\<dots> \<longleftrightarrow> (\<exists>op u. opening_step M G (vs_transcript V) st op = Some u
        \<and> reads (vs_proof V) (vs_cursor V) (opening_bytes G op)
        \<and> (\<exists>ops t. openings_run M G u sts ops = Some t
            \<and> reads (vs_proof V) (vs_cursor V + length (opening_bytes G op)) (concat (map (opening_bytes G) ops))
            \<and> W = (?next op u)\<lparr>vs_transcript := t, vs_cursor := vs_cursor V + length (opening_bytes G op)
                  + length (concat (map (opening_bytes G) ops))\<rparr>))"
  proof -
    have "rfold (verify_opening M G) (?next op u) sts = Inr W \<longleftrightarrow> (\<exists>ops t. openings_run M G u sts ops = Some t
            \<and> reads (vs_proof V) (vs_cursor V + length (opening_bytes G op)) (concat (map (opening_bytes G) ops))
            \<and> W = (?next op u)\<lparr>vs_transcript := t, vs_cursor := vs_cursor V + length (opening_bytes G op)
                  + length (concat (map (opening_bytes G) ops))\<rparr>)"
      if "reads (vs_proof V) (vs_cursor V) (opening_bytes G op)" for op u
      using Cons.IH[of "?next op u"] reads_end[OF that] by simp
    then show ?thesis by blast
  qed
  also have "\<dots> \<longleftrightarrow> (\<exists>op ops u t. opening_step M G (vs_transcript V) st op = Some u \<and> openings_run M G u sts ops = Some t
        \<and> reads (vs_proof V) (vs_cursor V) (opening_bytes G op @ concat (map (opening_bytes G) ops))
        \<and> W = V\<lparr>vs_transcript := t, vs_cursor := vs_cursor V + length (opening_bytes G op @ concat (map (opening_bytes G) ops))\<rparr>)"
    unfolding reads_append by (simp add: add.assoc) blast
  also have "\<dots> \<longleftrightarrow> (\<exists>ops t. openings_run M G (vs_transcript V) (st # sts) ops = Some t
      \<and> reads (vs_proof V) (vs_cursor V) (concat (map (opening_bytes G) ops))
      \<and> W = V\<lparr>vs_transcript := t, vs_cursor := vs_cursor V + length (concat (map (opening_bytes G) ops))\<rparr>)"
    unfolding run by fastforce
  finally show ?case .
qed

definition proof_header :: bytes where
  "proof_header = be_bytes 4 (length PROTOTYPE_PROOF_ID) @ PROTOTYPE_PROOF_ID"

definition batch_start ::
  "'t merlin \<Rightarrow> ('s, 'e, 'z) golden_group_scheme \<Rightarrow> ('s, 'e) evrf_statement list \<Rightarrow> 't" where
  "batch_start M G sts = batch_transcript M G sts (merlin_new M PROTOTYPE_PROOF_ID)"

lemma verifier_finish_Inr: "verifier_finish W = Inr () \<longleftrightarrow> vs_cursor W = length (vs_proof W)"
  by (simp add: verifier_finish_def)

lemma proof_id_length [simp]: "length PROTOTYPE_PROOF_ID = 38"
  by (simp add: PROTOTYPE_PROOF_ID_def)

lemma prototype_verify_batch_Inr:
  assumes "golden_codec G"
  shows "prototype_verify_batch M G sts pr = Inr () \<longleftrightarrow>
    batch_ok G sts \<and> length pr < 2 ^ 64
    \<and> (\<exists>ops t. openings_run M G (batch_start M G sts) sts ops = Some t
        \<and> pr = proof_header @ concat (map (opening_bytes G) ops))"
proof -
  let ?V = "\<lparr>vs_transcript = batch_start M G sts, vs_proof = pr, vs_cursor = 42\<rparr>"
  have "prototype_verify_batch M G sts pr = Inr () \<longleftrightarrow>
      batch_ok G sts \<and> prefix proof_header pr
      \<and> (\<exists>W. rfold (verify_opening M G) ?V sts = Inr W \<and> verifier_finish W = Inr ())"
    unfolding prototype_verify_batch_def
    by (auto simp: verifier_new_Inr on_verifier.observe_batch_eq proof_header_def batch_start_def)
      (auto simp: verifier_observe_def)
  also have "\<dots> \<longleftrightarrow> batch_ok G sts \<and> prefix proof_header pr
      \<and> (\<exists>ops t. openings_run M G (batch_start M G sts) sts ops = Some t
          \<and> reads pr 42 (concat (map (opening_bytes G) ops))
          \<and> 42 + length (concat (map (opening_bytes G) ops)) = length pr)"
  proof -
    have "(\<exists>W. rfold (verify_opening M G) ?V sts = Inr W \<and> verifier_finish W = Inr ()) \<longleftrightarrow>
        (\<exists>ops t. openings_run M G (batch_start M G sts) sts ops = Some t
          \<and> reads pr 42 (concat (map (opening_bytes G) ops))
          \<and> 42 + length (concat (map (opening_bytes G) ops)) = length pr)" if "prefix proof_header pr"
    proof -
      have "42 \<le> length pr" using prefix_length_le[OF that] by (simp add: proof_header_def)
      then have run: "rfold (verify_opening M G) ?V sts = Inr W \<longleftrightarrow>
          (\<exists>ops t. openings_run M G (batch_start M G sts) sts ops = Some t
            \<and> reads pr 42 (concat (map (opening_bytes G) ops))
            \<and> W = ?V\<lparr>vs_transcript := t, vs_cursor := 42 + length (concat (map (opening_bytes G) ops))\<rparr>)" for W
        using verify_openings_Inr[OF assms, of ?V M sts W] by simp
      show ?thesis unfolding run verifier_finish_Inr by (fastforce simp del: length_concat)
    qed
    then show ?thesis by blast
  qed
  also have "\<dots> \<longleftrightarrow> batch_ok G sts \<and> length pr < 2 ^ 64
    \<and> (\<exists>ops t. openings_run M G (batch_start M G sts) sts ops = Some t
        \<and> pr = proof_header @ concat (map (opening_bytes G) ops))"
  proof -
    have "prefix proof_header pr \<and> reads pr 42 bs \<and> 42 + length bs = length pr
        \<longleftrightarrow> length pr < 2 ^ 64 \<and> pr = proof_header @ bs" for bs
    proof -
      have len: "length proof_header = 42" by (simp add: proof_header_def)
      show ?thesis
      proof
        assume h: "prefix proof_header pr \<and> reads pr 42 bs \<and> 42 + length bs = length pr"
        then obtain rest where rest: "pr = proof_header @ rest" by (auto elim: prefixE)
        with h len have "prefix bs rest" and "length rest = length bs" by (simp_all add: reads_def)
        then have "rest = bs" by (auto elim!: prefixE)
        with h rest len show "length pr < 2 ^ 64 \<and> pr = proof_header @ bs" by (simp add: reads_def)
      qed (use len in \<open>auto simp: reads_def\<close>)
    qed
    then show ?thesis by blast
  qed
  finally show ?thesis .
qed

section \<open>The prover makes accepted openings\<close>

lemma prove_opening_Inr:
  assumes "prime_group G" and "golden_codec G"
    and "st_share_commitment st = mul_generator G (wit_share w)"
    and "st_pad_commitment st = mul_generator G (wit_pad w)"
    and "prove_opening M G w k l P = Inr P'"
  shows "\<exists>op t. opening_step M G (ps_transcript P) st op = Some t
    \<and> P' = P\<lparr>ps_transcript := t, ps_proof := ps_proof P @ opening_bytes G op\<rparr>"
proof -
  note send = stream_curve.send_point_Inr[OF golden_stream_curve[OF assms(2)]]
    stream_curve.send_scalar_eq[OF golden_stream_curve[OF assms(2)]]
  have kl: "k \<noteq> 0" "l \<noteq> 0"
    using assms(5) by (auto simp: prove_opening_def Let_def send prime_group.mul_generator_eq_0[OF assms(1)])
  obtain bs t2 c where run:
    "challenge_bytes M (ascii ''opening-challenge'') 32
      (append_message M (ascii ''pad-nonce-point'') (encode_element G (mul_generator G l))
        (append_message M (ascii ''share-nonce-point'') (encode_element G (mul_generator G k)) (ps_transcript P))) = (bs, t2)"
    "hash_to_scalar G (ascii ''golden-share-opening-challenge-v3'') bs = Inr c"
    "P' = P\<lparr>ps_transcript := append_message M (ascii ''pad-response'') (scalar_to_repr G (l + c * wit_pad w))
              (append_message M (ascii ''share-response'') (scalar_to_repr G (k + c * wit_share w)) t2),
            ps_proof := ps_proof P @ encode_element G (mul_generator G k) @ encode_element G (mul_generator G l)
              @ scalar_to_repr G (k + c * wit_share w) @ scalar_to_repr G (l + c * wit_pad w)\<rparr>"
    using assms(5) unfolding prove_opening_def Let_def
    by (auto simp: send on_prover.opening_challenge_Inr)
      (auto simp: send_bytes_def observe_bytes_def prover_observe_def)
  have "opening_equations G st c \<lparr>share_nonce_point = mul_generator G k, pad_nonce_point = mul_generator G l,
      share_response = k + c * wit_share w, pad_response = l + c * wit_pad w\<rparr>"
    using kl by (simp add: opening_equations_def assms(3,4) prime_group.mul_generator_eq_0[OF assms(1)]
        prime_group.mul_generator_mul[OF assms(1)] prime_group.mul_generator_add[OF assms(1)] mult.commute)
  with run show ?thesis
    by (intro exI[of _ "\<lparr>share_nonce_point = mul_generator G k, pad_nonce_point = mul_generator G l,
        share_response = k + c * wit_share w, pad_response = l + c * wit_pad w\<rparr>"])
      (auto simp: opening_step_Some opening_bytes_def)
qed

lemma prove_openings_Inr:
  assumes "prime_group G" and "golden_codec G"
    and "list_all2 (\<lambda>st w. st_share_commitment st = mul_generator G (wit_share w)
          \<and> st_pad_commitment st = mul_generator G (wit_pad w)) sts ws"
    and "prove_openings M G R ws P r = Some (Inr (P', r'))"
  shows "\<exists>ops t. openings_run M G (ps_transcript P) sts ops = Some t
    \<and> P' = P\<lparr>ps_transcript := t, ps_proof := ps_proof P @ concat (map (opening_bytes G) ops)\<rparr>"
  using assms(3,4)
proof (induction sts ws arbitrary: P r rule: list_all2_induct)
  case Nil
  then show ?case by (intro exI[of _ "[]"]) simp
next
  case (Cons st sts w ws)
  from Cons.prems obtain k l r2 P1 where one: "prove_opening M G w k l P = Inr P1"
    and rest: "prove_openings M G R ws P1 r2 = Some (Inr (P', r'))"
    by (auto simp: Option.bind_eq_Some_conv obind_eq_Inr)
  from prove_opening_Inr[OF assms(1,2) _ _ one] Cons.hyps
  obtain op t where op: "opening_step M G (ps_transcript P) st op = Some t"
    and P1: "P1 = P\<lparr>ps_transcript := t, ps_proof := ps_proof P @ opening_bytes G op\<rparr>" by blast
  from Cons.IH[OF rest] obtain ops t' where "openings_run M G (ps_transcript P1) sts ops = Some t'"
    "P' = P1\<lparr>ps_transcript := t', ps_proof := ps_proof P1 @ concat (map (opening_bytes G) ops)\<rparr>" by blast
  with op P1 show ?case by (intro exI[of _ "op # ops"] exI[of _ t']) simp
qed

lemma openings_run_length: "openings_run M G t sts ops = Some t' \<Longrightarrow> length ops = length sts"
  by (induction M G t sts ops rule: openings_run.induct) (auto simp: Option.bind_eq_Some_conv)

text \<open>Even \<open>2 ^ 32\<close> openings fit a 64-bit cursor.\<close>

lemma proof_fits:
  assumes "golden_codec G" and "length ops \<le> 2 ^ 32"
  shows "length (proof_header @ concat (map (opening_bytes G) ops)) < 2 ^ 64"
proof -
  have "length (concat (map (opening_bytes G) ops)) = length ops * (2 * element_repr_bytes G + 2 * repr_bytes G)"
    by (rule length_concat_fixed)
      (simp add: opening_bytes_def golden_codec.element_length[OF assms(1)] golden_codec.scalar_length[OF assms(1)])
  also have "\<dots> \<le> 2 ^ 32 * 2 ^ 26"
    using golden_codec.repr_sizes[OF assms(1)] by (intro mult_le_mono assms(2)) simp
  finally show ?thesis by (simp add: proof_header_def)
qed

lemma prototype_complete:
  assumes "prime_group G" and "golden_codec G"
    and "list_all2 (\<lambda>st w. st_share_commitment st = mul_generator G (wit_share w)
          \<and> st_pad_commitment st = mul_generator G (wit_pad w)) sts ws"
    and "prototype_prove_batch M G R sts ws r = Some (Inr (pr, r'))"
  shows "prototype_verify_batch M G sts pr = Inr ()"
proof -
  from assms(4) obtain P P' where
    ok: "batch_ok G sts" and
    P: "P = \<lparr>ps_transcript = batch_start M G sts, ps_proof = proof_header\<rparr>" and
    run: "prove_openings M G R ws P r = Some (Inr (P', r'))" and pr: "pr = ps_proof P'"
    by (auto simp: prototype_prove_batch_def obind_eq_Inr prover_new_Inr on_prover.observe_batch_eq
        prover_finish_def split: if_splits)
      (auto simp: prover_observe_def batch_start_def proof_header_def)
  from prove_openings_Inr[OF assms(1-3) run]
  obtain ops t where ops: "openings_run M G (batch_start M G sts) sts ops = Some t"
    and "P' = P\<lparr>ps_transcript := t, ps_proof := ps_proof P @ concat (map (opening_bytes G) ops)\<rparr>"
    by (auto simp: P)
  then have "pr = proof_header @ concat (map (opening_bytes G) ops)" by (simp add: pr P)
  moreover from this have "length pr < 2 ^ 64"
    using proof_fits[OF assms(2)] batch_ok_length[OF ok] openings_run_length[OF ops] by simp
  ultimately show ?thesis using ok ops by (auto simp: prototype_verify_batch_Inr[OF assms(2)])
qed

section \<open>The backend satisfies the contract of the protocol\<close>

lemma share_opening_relation:
  assumes "prime_group G" and "golden_codec G"
  shows "evrf_relation G (share_opening_backend M G R)"
proof (intro evrf_relation.intro evrf_relation_axioms.intro assms(1))
  show "derive_pad (share_opening_backend M G R) m beta a (mul_generator G b) pk
      = derive_pad (share_opening_backend M G R) m beta b (mul_generator G a) pk" for m beta a b pk
    by (simp add: share_opening_backend_def default_derive_pad_def
        prime_group.mul_generator_mul[OF assms(1)] mult.commute)
  show "verify_batch (share_opening_backend M G R) sts pr = Inr ()"
    if "list_all2 (opens G (share_opening_backend M G R)) sts wits"
      and "prove_batch (share_opening_backend M G R) sts wits r = Some (Inr (pr, r'))" for sts wits r pr r'
  proof -
    have "list_all2 (\<lambda>st w. st_share_commitment st = mul_generator G (wit_share w)
          \<and> st_pad_commitment st = mul_generator G (wit_pad w)) sts wits"
      using that(1) by (rule list_all2_mono) (simp add: opens_def)
    from prototype_complete[OF assms this] that(2) show ?thesis by (simp add: share_opening_backend_def)
  qed
  show "verify_proof_batch (share_opening_backend M G R) batches = Inr ()"
    if "\<And>sts pr. (sts, pr) \<in> set batches \<Longrightarrow> verify_batch (share_opening_backend M G R) sts pr = Inr ()" for batches
    using that by (auto simp: share_opening_backend_def default_verify_proof_batch_def rfold_unit_ok)
qed

locale prime_codec = prime_group G + golden_codec G
  for G :: "('s::field, 'e::ab_group_add, 'z) golden_group_scheme"

sublocale prime_codec \<subseteq> share_opening: evrf_relation G "share_opening_backend M G R" for M R
  by (rule share_opening_relation[OF prime_group_axioms golden_codec_axioms])

interpretation tiny_prime_codec: prime_codec tiny_group ..

section \<open>A concrete batch\<close>

text \<open>A transcript that counts its messages, and the statement of the second party in the two-party run.\<close>

definition counting_merlin :: "nat merlin" where
  "counting_merlin =
     \<lparr>merlin_new = (\<lambda>_. 0), append_message = (\<lambda>_ _ n. Suc n), challenge_bytes = (\<lambda>_ len n. (replicate len 1, Suc n))\<rparr>"

definition tiny_opening_statement :: "(tiny, tiny) evrf_statement" where
  "tiny_opening_statement =
     \<lparr>st_protocol_version = PROTOCOL_VERSION, st_backend_id = backend_id tiny_group,
      st_session_id = SessionId (replicate 32 0), st_registry_root = replicate 32 1, st_threshold = 2,
      st_dealer = party1, st_receiver = party2, st_msg_i = DealerMessageNonce (replicate 32 0),
      st_beta = 3, st_dealer_public_key = 5, st_receiver_public_key = 7,
      st_commitment_coefficients = [2, 3], st_share_commitment = 8, st_pad_commitment = 1,
      st_encrypted_share = 9, st_transcript_root = replicate 32 1\<rparr>"

definition tiny_opening_witness :: "tiny evrf_witness" where
  "tiny_opening_witness =
     \<lparr>wit_identity_secret = 5, wit_polynomial_coefficients = [2, 3], wit_share = 8, wit_pad = 1\<rparr>"

abbreviation tiny_opening :: "(tiny, tiny) schnorr_opening" where
  "tiny_opening \<equiv> \<lparr>share_nonce_point = 3, pad_nonce_point = 3, share_response = 11, pad_response = 4\<rparr>"

lemma tiny_batch_ok: "batch_ok tiny_group [tiny_opening_statement]"
  by (simp add: batch_ok_def validate_statement_def ensure_backend_matches_def
      ensure_feldman_share_relation_def ensure_encrypted_share_relation_def tiny_opening_statement_def
      Let_def tiny_eval)

lemma tiny_opening_run:
  "openings_run counting_merlin tiny_group n [tiny_opening_statement] [tiny_opening] = Some (n + 5)"
  by (simp add: opening_step_def opening_equations_def counting_merlin_def tiny_opening_statement_def
      Let_def tiny_eval)

lemma tiny_proves:
  "prototype_prove_batch counting_merlin tiny_group tiny_rng [tiny_opening_statement] [tiny_opening_witness] ()
    = Some (Inr (proof_header @ opening_bytes tiny_group tiny_opening, ()))"
proof -
  have "random_nonzero_scalar tiny_rng () = Some (3, ())"
    by (subst random_nonzero_scalar.simps) (simp add: tiny_rng_def tiny_eval)
  moreover have "observe_batch counting_merlin prover_observe tiny_group [tiny_opening_statement] P
      = Inr (P\<lparr>ps_transcript := ps_transcript P + 3\<rparr>)" for P
    by (simp add: on_prover.observe_batch_eq tiny_batch_ok batch_transcript_def counting_merlin_def)
      (simp add: prover_observe_def)
  ultimately show ?thesis
    by (simp add: prototype_prove_batch_def prover_new_def prove_opening_def send_point_def send_scalar_def
        checked_point_encoding_def checked_scalar_encoding_def enforce_identity_def is_identity_def
        golden_curve_def golden_decode_scalar_def repr_try_from_def opening_challenge_def observe_challenge_def
        send_bytes_def observe_bytes_def prover_observe_def counting_merlin_def prover_finish_def
        tiny_opening_witness_def proof_header_def opening_bytes_def Let_def tiny_eval)
qed

end
