(* ===== verification/Prototype_Properties.thy ===== *)
theory Prototype_Properties
  imports Prototype_Laws
begin

text \<open>
  The properties of the prototype proof backend: completeness, the exact set of accepted proofs,
  what acceptance guarantees to a receiver, and a run of the protocol with this backend.
\<close>

text \<open>
  The verifier of the prototype backend accepts a byte string exactly when the statements pass
  their public checks in increasing order of receivers and the string is the proof header followed by
  the canonical encoding of one opening per statement, each satisfying its Schnorr equations under
  the challenge that the transcript gives at that point. So accepted proofs have no trailing bytes, no
  second encoding and no identity nonce point, and nothing outside the transcript influences the
  result.
\<close>

theorem prototype_verify_iff:
  assumes "golden_codec G"
  shows "prototype_verify_batch M G sts pr = Inr () \<longleftrightarrow>
    batch_ok G sts \<and> length pr < 2 ^ 64
    \<and> (\<exists>ops t. openings_run M G (batch_start M G sts) sts ops = Some t
        \<and> pr = proof_header @ concat (map (opening_bytes G) ops))"
  by (rule prototype_verify_batch_Inr[OF assms])

lemma prototype_verify_iff_witness:
  "prototype_verify_batch counting_merlin tiny_group [tiny_opening_statement]
     (proof_header @ opening_bytes tiny_group tiny_opening) = Inr ()"
  unfolding prototype_verify_iff[OF tiny.golden_codec_axioms]
proof (intro conjI exI)
  show "openings_run counting_merlin tiny_group (batch_start counting_merlin tiny_group [tiny_opening_statement])
      [tiny_opening_statement] [tiny_opening] = Some (batch_start counting_merlin tiny_group [tiny_opening_statement] + 5)"
    by (rule tiny_opening_run)
qed (simp_all add: tiny_batch_ok proof_header_def opening_bytes_def)

text \<open>
  Completeness of the prototype backend: a proof made for statements with the openings of their
  share and pad commitments is accepted, for every sequence of random nonces. Only the two
  commitments matter; a prover that reaches a proof has had its statements checked on the way.
\<close>

theorem prototype_proof_accepted:
  assumes "prime_group G" and "golden_codec G"
    and "list_all2 (\<lambda>st w. st_share_commitment st = mul_generator G (wit_share w)
          \<and> st_pad_commitment st = mul_generator G (wit_pad w)) sts ws"
    and "prototype_prove_batch M G R sts ws r = Some (Inr (pr, r'))"
  shows "prototype_verify_batch M G sts pr = Inr ()"
  by (rule prototype_complete[OF assms])

lemma prototype_proof_accepted_witness:
  "prototype_verify_batch counting_merlin tiny_group [tiny_opening_statement]
     (proof_header @ opening_bytes tiny_group tiny_opening) = Inr ()"
  by (rule prototype_proof_accepted[OF tiny.prime_group_axioms tiny.golden_codec_axioms _ tiny_proves])
    (simp add: tiny_opening_statement_def tiny_opening_witness_def)

text \<open>
  C25. What an accepted batch guarantees to a receiver: whatever the dealer did, the receiver that
  knows the discrete logarithm of the statement's pad commitment decrypts a share that
  \<open>verify_share\<close> accepts for the committed polynomial.
\<close>

theorem accepted_statement_decrypts:
  assumes "prime_group G" and "prototype_verify_batch M G sts pr = Inr ()" and "st \<in> set sts"
    and "st_pad_commitment st = mul_generator G pad"
  shows "verify_share G \<lparr>commitment_coefficients = st_commitment_coefficients st\<rparr>
      \<lparr>share_participant = st_receiver st, share_value = st_encrypted_share st - pad\<rparr> = Inr True"
proof -
  obtain prev where "rfold (validate_statement G) None sts = Inr prev"
    using assms(2) by (auto simp: prototype_verify_batch_def on_verifier.observe_batch_eq batch_ok_def is_ok_iff)
  from validate_loop[OF this] assms(3)
  have fel: "ensure_feldman_share_relation G st = Inr ()" and enc: "ensure_encrypted_share_relation G st = Inr ()"
    by auto
  obtain cs where cs: "st_commitment_coefficients st = map (mul_generator G) cs"
    using prime_group.commitment_opening[OF assms(1)] by metis
  let ?x = "index_scalar (st_receiver st)"
  have x: "to_scalar G (st_receiver st) = Inr ?x" and sc: "st_share_commitment st = mul_generator G (horner cs ?x)"
    using fel unfolding prime_group.ensure_feldman_share_relation_Inr[OF assms(1) cs] by simp_all
  have "mul_generator G (st_encrypted_share st) = mul_generator G (horner cs ?x + pad)"
    using enc sc assms(4)
    by (simp add: prime_group.ensure_encrypted_share_relation_Inr[OF assms(1)]
        prime_group.mul_generator_add[OF assms(1)])
  then have "st_encrypted_share st = horner cs ?x + pad"
    by (simp add: prime_group.mul_generator_inject[OF assms(1)])
  then show ?thesis
    using prime_group.verify_share_value[OF assms(1), of _ cs _ ?x] cs x by simp
qed

lemma accepted_statement_decrypts_witness:
  "verify_share tiny_group \<lparr>commitment_coefficients = [2, 3]\<rparr>
     \<lparr>share_participant = party2, share_value = 9 - 1\<rparr> = Inr True"
proof -
  have "prototype_verify_batch counting_merlin tiny_group [tiny_opening_statement]
     (proof_header @ opening_bytes tiny_group tiny_opening) = Inr ()"
    by (rule prototype_complete[OF tiny.prime_group_axioms tiny.golden_codec_axioms _ tiny_proves])
      (simp add: tiny_opening_statement_def tiny_opening_witness_def)
  from accepted_statement_decrypts[OF tiny.prime_group_axioms this, of tiny_opening_statement 1]
  show ?thesis by (simp add: tiny_opening_statement_def)
qed

text \<open>
  Termination of the prover: if every generator state leads, in finitely many draws, to a
  nonzero scalar, proving returns (a proof or an error) on all inputs.
\<close>

theorem prototype_prove_returns:
  assumes "\<And>r. \<exists>n. fst (next_scalar R (((snd \<circ> next_scalar R) ^^ n) r)) \<noteq> 0"
  shows "\<exists>res. prototype_prove_batch M G R sts ws r = Some res"
proof -
  have nonzero: "\<exists>s r'. random_nonzero_scalar R r = Some (s, r')" for r
  proof -
    obtain n where "fst (next_scalar R (((snd \<circ> next_scalar R) ^^ n) r)) \<noteq> 0" using assms by blast
    then show ?thesis
    proof (induction n arbitrary: r)
      case 0
      then show ?case by (subst random_nonzero_scalar.simps) (auto split: prod.splits)
    next
      case (Suc n)
      obtain s r1 where draw: "next_scalar R r = (s, r1)" by fastforce
      from Suc.prems have "fst (next_scalar R (((snd \<circ> next_scalar R) ^^ n) r1)) \<noteq> 0"
        by (simp add: funpow_Suc_right draw o_def del: funpow.simps)
      from Suc.IH[OF this] show ?case
        by (subst random_nonzero_scalar.simps) (simp add: draw)
    qed
  qed
  have "\<exists>res. prove_openings M G R ws P r = Some res" for P r
  proof (induction ws arbitrary: P r)
    case (Cons w ws)
    obtain k r1 l r2 where "random_nonzero_scalar R r = Some (k, r1)" "random_nonzero_scalar R r1 = Some (l, r2)"
      using nonzero by metis
    then show ?case using Cons by (cases "prove_opening M G w k l P") auto
  qed simp
  then have "prove_openings M G R ws P r \<noteq> None" for P r by (metis option.distinct(1))
  then have "prototype_prove_batch M G R sts ws r \<noteq> None"
    unfolding prototype_prove_batch_def by (auto simp: obind_eq_None simp del: not_None_eq)
  then show ?thesis by simp
qed

lemma prototype_prove_returns_witness:
  "\<exists>res. prototype_prove_batch counting_merlin tiny_group tiny_rng [] [] () = Some res"
  by (rule prototype_prove_returns) (simp add: tiny_rng_def tiny_eval)

end
