(* ===== verification/Ehtdh_Setup.thy ===== *)
theory Ehtdh_Setup
  imports Honest_Dealing
begin

text \<open>
  \<open>golden-ehtdh1/src/context.rs\<close>: the key material of the threshold decryption scheme EHTDH1, the
  setup context bound into its transcripts, and the consistency check of a public key set. The trait
  \<open>GoldenHashToGroup\<close> extends a group by hashing to it; the record \<open>golden_hash_group\<close> does the same.
\<close>

section \<open>Data\<close>

record ('s, 'e) golden_hash_group = "('s, 'e) golden_group" +
  hash_to_group :: "bytes \<Rightarrow> bytes \<Rightarrow> 'e result"

datatype ehtdh_error =
    ThresholdInvalid
  | EncodingInvalid
  | ScalarDerivationFailed
  | InvalidCiphertextProof
  | AssociatedDataMismatch
  | InvalidJointPublicKey
  | InvalidPublicKeySet
  | InvalidShareProof
  | ParticipantUnknown u32
  | DuplicateParticipant u32
  | InvalidBridge string
  | Golden error

type_synonym 'a ehtdh_result = "ehtdh_error + 'a"

datatype combine_error =
    CiphertextError ehtdh_error
  | InsufficientShares (required: usize) (provided: usize)
  | MalformedShares "u32 list"

definition TRANSCRIPT_PREFIX :: bytes where
  "TRANSCRIPT_PREFIX = ascii ''golden-ehtdh1-v1''"

record 'e public_share =
  pub_decryption :: 'e
  pub_context :: 'e

record 's secret_share =
  sec_participant :: participant_index
  sec_decryption :: 's
  sec_context :: 's

record 'e public_key_set =
  pks_threshold :: usize
  pks_joint_public_key :: 'e
  pks_public_shares :: "(participant_index, 'e public_share) btree_map"

record setup_context =
  ctx_backend_id :: bytes
  ctx_threshold :: usize
  ctx_registry_root :: transcript_root
  ctx_participants :: "participant_index list"
  ctx_decryption_session_id :: session_id
  ctx_context_session_id :: session_id
  ctx_decryption_transcript_root :: transcript_root
  ctx_context_transcript_root :: transcript_root
  ctx_epoch :: bytes

section \<open>Transcripts\<close>

definition setup_transcript :: "setup_context \<Rightarrow> transcript_builder" where
  "setup_transcript ctx =
     (let t = tb_with_prefix TRANSCRIPT_PREFIX (ascii ''setup-context'');
          t = tb_bytes (ascii ''backend'') (ctx_backend_id ctx) t;
          t = tb_usize (ascii ''threshold'') (ctx_threshold ctx) t;
          t = tb_bytes (ascii ''registry-root'') (ctx_registry_root ctx) t;
          t = tb_usize (ascii ''participants-len'') (length (ctx_participants ctx)) t;
          t = fold (tb_participant (ascii ''participant'')) (ctx_participants ctx) t;
          t = tb_bytes (ascii ''decryption-session'') (session_bytes (ctx_decryption_session_id ctx)) t;
          t = tb_bytes (ascii ''context-session'') (session_bytes (ctx_context_session_id ctx)) t;
          t = tb_bytes (ascii ''decryption-transcript-root'') (ctx_decryption_transcript_root ctx) t;
          t = tb_bytes (ascii ''context-transcript-root'') (ctx_context_transcript_root ctx) t
      in tb_bytes (ascii ''epoch'') (ctx_epoch ctx) t)"

definition setup_root :: "('s, 'e, 'z) golden_group_scheme \<Rightarrow> setup_context \<Rightarrow> transcript_root" where
  "setup_root G ctx = tb_root G (setup_transcript ctx)"

definition derive_context_session_id :: "('s, 'e, 'z) golden_group_scheme \<Rightarrow> session_id \<Rightarrow> session_id" where
  "derive_context_session_id G decryption_session_id =
     (let t = tb_with_prefix TRANSCRIPT_PREFIX (ascii ''context-session'');
          t = tb_bytes (ascii ''label'') (ascii ''zero-sharing'') t;
          t = tb_bytes (ascii ''decryption-session'') (session_bytes decryption_session_id) t
      in SessionId (tb_root G t))"

definition hash_to_nonzero_scalar ::
  "('s::field, 'e, 'z) golden_group_scheme \<Rightarrow> bytes \<Rightarrow> bytes \<Rightarrow> 's ehtdh_result" where
  "hash_to_nonzero_scalar G domain message = map_err (\<lambda>_. ScalarDerivationFailed) (hash_to_scalar G domain message)"

section \<open>Interpolation in the exponent\<close>

definition lagrange_at ::
  "('s::field, 'e, 'z) golden_group_scheme \<Rightarrow> participant_index \<Rightarrow> participant_index list \<Rightarrow> 's \<Rightarrow> 's ehtdh_result" where
  "lagrange_at G participant participants x =
     rbind (map_err Golden (to_scalar G participant)) (\<lambda>i.
     rbind (rfold (\<lambda>(numerator, denominator) other.
              if other = participant then Inr (numerator, denominator)
              else rbind (map_err Golden (to_scalar G other)) (\<lambda>j.
                   Inr (numerator * (x - j), denominator * (i - j)))) (1, 1) participants)
       (\<lambda>(numerator, denominator).
     rbind (ok_or (invert denominator) ThresholdInvalid) (\<lambda>inv. Inr (numerator * inv))))"

definition interpolate_public_key_share ::
  "('s::field, 'e::ab_group_add, 'z) golden_group_scheme \<Rightarrow> participant_index list \<Rightarrow> 's \<Rightarrow> ('e public_share \<Rightarrow> 'e)
    \<Rightarrow> (participant_index, 'e public_share) btree_map \<Rightarrow> 'e ehtdh_result" where
  "interpolate_public_key_share G participants x select public_shares =
     rfold (\<lambda>point participant.
       rbind (lagrange_at G participant participants x) (\<lambda>lambda.
       rbind (ok_or (bt_get public_shares participant) (ParticipantUnknown (index_get participant))) (\<lambda>share.
         Inr (point + group_mul G (select share) lambda)))) 0 participants"

definition validate_public_shares ::
  "('s::field, 'e::ab_group_add, 'z) golden_group_scheme \<Rightarrow> usize \<Rightarrow> 'e
    \<Rightarrow> (participant_index, 'e public_share) btree_map \<Rightarrow> unit ehtdh_result" where
  "validate_public_shares G threshold joint_public_key public_shares =
     (let participants = bt_keys public_shares;
          basis = take threshold participants
      in rbind (interpolate_public_key_share G basis 0 pub_decryption public_shares) (\<lambda>decryption.
         if decryption \<noteq> joint_public_key then Inl InvalidPublicKeySet
         else rbind (interpolate_public_key_share G basis 0 pub_context public_shares) (\<lambda>context.
         if \<not> is_identity context then Inl InvalidPublicKeySet
         else rfold (\<lambda>_ participant.
                rbind (map_err Golden (to_scalar G participant)) (\<lambda>x.
                rbind (interpolate_public_key_share G basis x pub_decryption public_shares) (\<lambda>expected_decryption.
                rbind (interpolate_public_key_share G basis x pub_context public_shares) (\<lambda>expected_context.
                rbind (ok_or (bt_get public_shares participant) (ParticipantUnknown (index_get participant))) (\<lambda>share.
                if expected_decryption \<noteq> pub_decryption share \<or> expected_context \<noteq> pub_context share
                then Inl InvalidPublicKeySet else Inr ())))))
              () (drop threshold participants))))"

definition public_key_set_new ::
  "('s::field, 'e::ab_group_add, 'z) golden_group_scheme \<Rightarrow> usize \<Rightarrow> 'e
    \<Rightarrow> (participant_index, 'e public_share) btree_map \<Rightarrow> 'e public_key_set ehtdh_result" where
  "public_key_set_new G threshold joint_public_key public_shares =
     (if threshold = 0 \<or> length public_shares < threshold then Inl ThresholdInvalid
      else if is_identity joint_public_key then Inl InvalidJointPublicKey
      else rbind (validate_public_shares G threshold joint_public_key public_shares) (\<lambda>_.
        Inr \<lparr>pks_threshold = threshold, pks_joint_public_key = joint_public_key,
             pks_public_shares = public_shares\<rparr>))"

definition public_share_of :: "'e public_key_set \<Rightarrow> participant_index \<Rightarrow> 'e public_share option" where
  "public_share_of pks participant = bt_get (pks_public_shares pks) participant"

section \<open>Interpolation as a sum\<close>

text \<open>The participants' scalars exist; \<open>index_scalar\<close> is their value in the field.\<close>

definition scalars_exist ::
  "('s::field, 'e, 'z) golden_group_scheme \<Rightarrow> participant_index list \<Rightarrow> bool" where
  "scalars_exist G ps \<longleftrightarrow> (\<forall>p \<in> set ps. to_scalar G p = Inr (index_scalar p))"

definition scalars_distinct :: "'s::field itself \<Rightarrow> participant_index list \<Rightarrow> bool" where
  "scalars_distinct _ ps \<longleftrightarrow> distinct (map index_scalar ps :: 's list)"

lemma lagrange_loop:
  assumes "prime_group G"
  shows "rfold (\<lambda>(numerator, denominator) other.
      if other = p then Inr (numerator, denominator)
      else rbind (map_err Golden (to_scalar G other)) (\<lambda>j. Inr (numerator * (x - j), denominator * (i - j)))) (n, d) ps
    = Inr (n', d') \<longleftrightarrow>
      scalars_exist G (filter (\<lambda>q. q \<noteq> p) ps)
      \<and> n' = n * prod_list (map (\<lambda>q. x - index_scalar q) (filter (\<lambda>q. q \<noteq> p) ps))
      \<and> d' = d * prod_list (map (\<lambda>q. i - index_scalar q) (filter (\<lambda>q. q \<noteq> p) ps))"
proof (induction ps arbitrary: n d)
  case (Cons q ps)
  show ?case
  proof (cases "q = p")
    case True
    then show ?thesis by (simp add: Cons.IH)
  next
    case False
    show ?thesis
    proof (cases "to_scalar G q")
      case (Inl e)
      with False show ?thesis by (simp add: scalars_exist_def)
    next
      case (Inr j)
      then have "j = index_scalar q" by (rule index_scalar_value[OF assms])
      with Inr False show ?thesis by (simp add: Cons.IH scalars_exist_def mult.assoc)
    qed
  qed
qed (auto simp: scalars_exist_def)

lemma prod_list_others:
  assumes "distinct ps" and "i < length ps"
  shows "prod_list (map f (filter (\<lambda>q. q \<noteq> ps ! i) ps)) = (\<Prod>j\<in>{..<length ps} - {i}. f (ps ! j) :: 'a::comm_monoid_mult)"
proof -
  have "prod_list (map f (filter (\<lambda>q. q \<noteq> ps ! i) ps)) = prod f (set (filter (\<lambda>q. q \<noteq> ps ! i) ps))"
    by (rule prod.distinct_set_conv_list[symmetric]) (simp add: assms(1))
  also have "set (filter (\<lambda>q. q \<noteq> ps ! i) ps) = (!) ps ` ({..<length ps} - {i})"
    using assms by (auto simp: in_set_conv_nth nth_eq_iff_index_eq)
  also have "prod f \<dots> = (\<Prod>j\<in>{..<length ps} - {i}. f (ps ! j))"
    using assms(1) by (subst prod.reindex) (auto simp: inj_on_def nth_eq_iff_index_eq)
  finally show ?thesis .
qed

lemma lagrange_at_Inr:
  assumes "prime_group G" and "distinct ps" and "i < length ps"
  shows "lagrange_at G (ps ! i) ps x = Inr l \<longleftrightarrow>
    scalars_exist G ps \<and> (\<forall>q \<in> set ps. q \<noteq> ps ! i \<longrightarrow> index_scalar q \<noteq> (index_scalar (ps ! i) :: 'a))
    \<and> l = lagrange_basis (map index_scalar ps) i (x :: 'a::field)"
proof -
  let ?p = "ps ! i"
  have own: "map_err Golden (to_scalar G ?p) = Inr j \<longleftrightarrow> j = index_scalar ?p \<and> to_scalar G ?p = Inr (index_scalar ?p)" for j
    using index_scalar_value[OF assms(1), of ?p j] by auto
  have exist: "to_scalar G ?p = Inr (index_scalar ?p) \<and> scalars_exist G (filter (\<lambda>q. q \<noteq> ?p) ps) \<longleftrightarrow> scalars_exist G ps"
    using assms(3) by (auto simp: scalars_exist_def)
  let ?d = "prod_list (map (\<lambda>q. index_scalar ?p - index_scalar q :: 'a) (filter (\<lambda>q. q \<noteq> ?p) ps))"
  have nz: "?d \<noteq> 0 \<longleftrightarrow> (\<forall>q \<in> set ps. q \<noteq> ?p \<longrightarrow> index_scalar q \<noteq> (index_scalar ?p :: 'a))"
    unfolding prod_list_eq_0 set_map set_filter by (auto simp: image_iff)
  have basis: "lagrange_basis (map index_scalar ps) i x
      = prod_list (map (\<lambda>q. x - index_scalar q) (filter (\<lambda>q. q \<noteq> ?p) ps)) * inverse ?d"
  proof -
    have "lagrange_basis (map index_scalar ps) i x
        = (\<Prod>j\<in>{..<length ps} - {i}. (x - index_scalar (ps ! j)) / (index_scalar ?p - index_scalar (ps ! j)))"
      using assms(3) by (simp add: lagrange_basis_def)
    then show ?thesis
      unfolding prod_list_others[OF assms(2,3)] prod_dividef by (simp only: divide_inverse)
  qed
  have "lagrange_at G ?p ps x = Inr l \<longleftrightarrow>
      to_scalar G ?p = Inr (index_scalar ?p) \<and> scalars_exist G (filter (\<lambda>q. q \<noteq> ?p) ps) \<and> ?d \<noteq> 0
      \<and> l = prod_list (map (\<lambda>q. x - index_scalar q) (filter (\<lambda>q. q \<noteq> ?p) ps)) * inverse ?d"
    unfolding lagrange_at_def
    by (auto simp: own lagrange_loop[OF assms(1)] invert_def simp del: map_err_eq_Inr split: if_splits)
  then show ?thesis unfolding basis nz[symmetric] using exist by blast
qed

lemma rfold_sum:
  "rfold (\<lambda>acc x. rbind (f x) (\<lambda>v. Inr (acc + v))) a xs = rbind (collect f xs) (\<lambda>vs. Inr (a + sum_list vs :: 'a::ab_group_add))"
proof (induction xs arbitrary: a)
  case (Cons x xs)
  then show ?case by (cases "f x"; cases "collect f xs") (auto simp: add.assoc)
qed simp

definition interpolation_term ::
  "('s::field, 'e::ab_group_add, 'z) golden_group_scheme \<Rightarrow> participant_index list \<Rightarrow> 's \<Rightarrow> ('e public_share \<Rightarrow> 'e)
    \<Rightarrow> (participant_index, 'e public_share) btree_map \<Rightarrow> participant_index \<Rightarrow> 'e ehtdh_result" where
  "interpolation_term G ps x select shs p =
     rbind (lagrange_at G p ps x) (\<lambda>l.
     rbind (ok_or (bt_get shs p) (ParticipantUnknown (index_get p))) (\<lambda>share. Inr (group_mul G (select share) l)))"

lemma interpolate_collect:
  "interpolate_public_key_share G ps x select shs
    = rbind (collect (interpolation_term G ps x select shs) ps) (\<lambda>vs. Inr (sum_list vs))"
proof -
  have assoc: "rbind (lagrange_at G p ps x) (\<lambda>l. rbind (ok_or (bt_get shs p) (ParticipantUnknown (index_get p)))
        (\<lambda>share. Inr (point + group_mul G (select share) l)))
      = rbind (interpolation_term G ps x select shs p) (\<lambda>v. Inr (point + v))" for p point
    by (cases "lagrange_at G p ps x"; cases "bt_get shs p") (simp_all add: interpolation_term_def)
  show ?thesis
    unfolding interpolate_public_key_share_def assoc rfold_sum by simp
qed

text \<open>Interpolation needs existing and different scalars, and returns the value of the polynomial.\<close>

lemma interpolate_scalars:
  assumes "prime_group G" and "distinct ps" and "ps \<noteq> []"
    and "interpolate_public_key_share G ps (x :: 's::field) select shs = Inr v"
  shows "scalars_exist G ps \<and> distinct (map index_scalar ps :: 's list)"
proof -
  obtain vs where "collect (interpolation_term G ps x select shs) ps = Inr vs"
    using assms(4) by (auto simp: interpolate_collect)
  then have "\<exists>l. lagrange_at G p ps x = Inr l" if "p \<in> set ps" for p
    using collect_Inr_all[OF _ that] by (fastforce simp: interpolation_term_def)
  then have *: "scalars_exist G ps \<and> (\<forall>q \<in> set ps. q \<noteq> ps ! i \<longrightarrow> index_scalar q \<noteq> (index_scalar (ps ! i) :: 's))"
    if "i < length ps" for i
    using that lagrange_at_Inr[OF assms(1,2) that, of x] by (metis nth_mem)
  then have "scalars_exist G ps" using assms(3) by blast
  moreover have "distinct (map index_scalar ps :: 's list)"
    unfolding distinct_map using assms(2) * by (auto simp: inj_on_def in_set_conv_nth) (metis nth_mem)
  ultimately show ?thesis by blast
qed

lemma interpolate_value:
  assumes "prime_group G" and "distinct ps" and "scalars_exist G ps" and "distinct (map index_scalar ps :: 's list)"
    and "\<And>p. p \<in> set ps \<Longrightarrow>
      \<exists>share. bt_get shs p = Some share \<and> select share = mul_generator G (horner cs (index_scalar p))"
    and "length cs \<le> length ps"
  shows "interpolate_public_key_share G ps (x :: 's::field) select shs = Inr (mul_generator G (horner cs x))"
proof -
  let ?xs = "map index_scalar ps :: 's list"
  let ?val = "\<lambda>i. mul_generator G (horner cs (?xs ! i) * lagrange_basis ?xs i x)"
  have term_eq: "interpolation_term G ps x select shs (ps ! i) = Inr (?val i)" if i: "i < length ps" for i
  proof -
    have "lagrange_at G (ps ! i) ps x = Inr (lagrange_basis ?xs i x)"
      using assms(4) i by (auto simp: lagrange_at_Inr[OF assms(1,2) i] assms(3) distinct_map inj_on_def)
    moreover obtain share where "bt_get shs (ps ! i) = Some share"
      "select share = mul_generator G (horner cs (index_scalar (ps ! i)))"
      using assms(5)[of "ps ! i"] i by auto
    ultimately show ?thesis
      using i by (simp add: interpolation_term_def prime_group.mul_generator_mul[OF assms(1)])
  qed
  have "collect (interpolation_term G ps x select shs) ps
      = collect (\<lambda>i. interpolation_term G ps x select shs (ps ! i)) [0..<length ps]"
    by (metis collect_map_comp map_nth)
  also have "\<dots> = Inr (map ?val [0..<length ps])"
    by (rule collect_map) (simp add: term_eq)
  finally have "interpolate_public_key_share G ps x select shs = Inr (sum_list (map ?val [0..<length ps]))"
    by (simp add: interpolate_collect)
  also have "sum_list (map ?val [0..<length ps]) = mul_generator G (\<Sum>i<length ?xs. horner cs (?xs ! i) * lagrange_basis ?xs i x)"
    by (simp add: prime_group.mul_generator_sum[OF assms(1)] sum_list_sum_nth atLeast0LessThan)
  also have "\<dots> = mul_generator G (horner cs x)"
    using lagrange_interpolation[OF assms(4) polyfn_horner[of cs], of x] assms(6) by simp
  finally show ?thesis .
qed

section \<open>Valid public key sets\<close>

text \<open>
  What \<open>validate_public_shares\<close> is to establish: the decryption keys lie on one polynomial in the
  exponent with the joint key at zero, the context keys on one with the identity at zero.
\<close>

definition shares_on_polynomials ::
  "('s::field, 'e::ab_group_add, 'z) golden_group_scheme \<Rightarrow> usize \<Rightarrow> 'e
    \<Rightarrow> (participant_index, 'e public_share) btree_map \<Rightarrow> 's list \<Rightarrow> 's list \<Rightarrow> bool" where
  "shares_on_polynomials G threshold joint shs f h \<longleftrightarrow>
     length f = threshold \<and> length h = threshold \<and> joint = mul_generator G (horner f 0) \<and> horner h 0 = 0
     \<and> (\<forall>(p, share) \<in> set shs. pub_decryption share = mul_generator G (horner f (index_scalar p))
          \<and> pub_context share = mul_generator G (horner h (index_scalar p)))"

lemma basis_polynomial:
  assumes "prime_group G" and "distinct (map index_scalar ps :: 's::field list)"
  shows "\<exists>cs. length cs = length ps \<and> (\<forall>p \<in> set ps. key p = mul_generator G (horner cs (index_scalar p :: 's)))"
proof -
  have "\<forall>p. \<exists>y. key p = mul_generator G y"
    using prime_group.mul_generatorE[OF assms(1)] by metis
  then obtain y where y: "\<And>p. key p = mul_generator G (y p)" by metis
  obtain cs where cs: "length cs = length ps" "\<forall>i<length ps. horner cs (index_scalar (ps ! i) :: 's) = y (ps ! i)"
    using interpolating_coefficients[OF assms(2), of "map y ps"] by auto
  then have "\<forall>p \<in> set ps. key p = mul_generator G (horner cs (index_scalar p))"
    by (auto simp: y in_set_conv_nth)
  with cs(1) show ?thesis by blast
qed

lemma interpolate_key:
  assumes "prime_group G" and "distinct ps" and "scalars_exist G ps" and "distinct (map index_scalar ps :: 's list)"
    and "\<forall>p \<in> set ps. \<exists>share. bt_get shs p = Some share" and "length cs \<le> length ps"
    and "\<forall>p \<in> set ps. select (the (bt_get shs p)) = mul_generator G (horner cs (index_scalar p))"
  shows "interpolate_public_key_share G ps (x :: 's::field) select shs = Inr (mul_generator G (horner cs x))"
  using assms by (intro interpolate_value) fastforce+

lemma validate_public_shares_Inr:
  assumes "prime_group G" and "bt_sorted shs" and "0 < t" and "t \<le> length shs"
  shows "validate_public_shares G t joint shs = Inr () \<longleftrightarrow>
    scalars_exist G (bt_keys shs) \<and> distinct (map index_scalar (take t (bt_keys shs)) :: 's list)
    \<and> (\<exists>f h :: 's::field list. shares_on_polynomials G t joint shs f h)"
proof -
  let ?keys = "bt_keys shs" and ?basis = "take t (bt_keys shs)"
  have keys: "distinct ?keys" "length ?keys = length shs"
    using assms(2) by (auto simp: bt_sorted_def strict_sorted_iff bt_keys_def)
  have basis: "distinct ?basis" "?basis \<noteq> []" "length ?basis = t"
    using keys assms(3,4) by (auto simp: take_eq_Nil)
  have get: "bt_get shs p = Some share \<longleftrightarrow> (p, share) \<in> set shs" for p share
    using keys(1) by (simp add: bt_get_def bt_keys_def)
  have dom: "\<exists>share. bt_get shs p = Some share" if "p \<in> set ?keys" for p
    using that get by (auto simp: bt_keys_def)
  have split: "set ?keys = set ?basis \<union> set (drop t ?keys)"
    by (metis append_take_drop_id set_append)
  let ?check = "\<lambda>p. rbind (map_err Golden (to_scalar G p)) (\<lambda>x.
      rbind (interpolate_public_key_share G ?basis x pub_decryption shs) (\<lambda>expected_decryption.
      rbind (interpolate_public_key_share G ?basis x pub_context shs) (\<lambda>expected_context.
      rbind (ok_or (bt_get shs p) (ParticipantUnknown (index_get p))) (\<lambda>share.
      if expected_decryption \<noteq> pub_decryption share \<or> expected_context \<noteq> pub_context share
      then Inl InvalidPublicKeySet else Inr ()))))"
  have unfold: "validate_public_shares G t joint shs = Inr () \<longleftrightarrow>
      interpolate_public_key_share G ?basis 0 pub_decryption shs = Inr joint
      \<and> interpolate_public_key_share G ?basis 0 pub_context shs = Inr 0
      \<and> (\<forall>p \<in> set (drop t ?keys). ?check p = Inr ())"
    unfolding validate_public_shares_def Let_def
    by (auto simp: rfold_unit_ok is_identity_def split: if_splits)
  show ?thesis
  proof
    assume ok: "validate_public_shares G t joint shs = Inr ()"
    then have sc: "scalars_exist G ?basis" and dist: "distinct (map index_scalar ?basis :: 's list)"
      using interpolate_scalars[OF assms(1) basis(1,2)] unfold by blast+
    obtain f where f: "length f = t"
        "\<forall>p \<in> set ?basis. pub_decryption (the (bt_get shs p)) = mul_generator G (horner f (index_scalar p :: 's))"
      using basis_polynomial[OF assms(1) dist, of "\<lambda>p. pub_decryption (the (bt_get shs p))"] basis(3) by auto
    obtain h where h: "length h = t"
        "\<forall>p \<in> set ?basis. pub_context (the (bt_get shs p)) = mul_generator G (horner h (index_scalar p :: 's))"
      using basis_polynomial[OF assms(1) dist, of "\<lambda>p. pub_context (the (bt_get shs p))"] basis(3) by auto
    have at: "interpolate_public_key_share G ?basis x pub_decryption shs = Inr (mul_generator G (horner f x))"
      "interpolate_public_key_share G ?basis x pub_context shs = Inr (mul_generator G (horner h x))" for x
      using f h dom split basis by (intro interpolate_key[OF assms(1) basis(1) sc dist]; simp)+
    have rest: "to_scalar G p = Inr (index_scalar p)
        \<and> pub_decryption share = mul_generator G (horner f (index_scalar p))
        \<and> pub_context share = mul_generator G (horner h (index_scalar p))"
      if mem: "p \<in> set (drop t ?keys)" and entry: "bt_get shs p = Some share" for p share
    proof -
      have "?check p = Inr ()" using ok mem unfolding unfold by blast
      then obtain x where x: "to_scalar G p = Inr x"
        "mul_generator G (horner f x) = pub_decryption share" "mul_generator G (horner h x) = pub_context share"
        using entry by (auto simp: at split: if_splits)
      moreover have "x = index_scalar p" using x(1) by (rule index_scalar_value[OF assms(1)])
      ultimately show ?thesis by simp
    qed
    have "scalars_exist G ?keys"
      using sc rest dom unfolding scalars_exist_def split by (metis UnE UnI2)
    moreover have "mul_generator G (horner f 0) = joint" "horner h 0 = 0"
      using ok unfolding unfold at by (simp_all add: prime_group.mul_generator_eq_0[OF assms(1)])
    moreover have "pub_decryption share = mul_generator G (horner f (index_scalar p))
        \<and> pub_context share = mul_generator G (horner h (index_scalar p))" if "(p, share) \<in> set shs" for p share
    proof (cases "p \<in> set ?basis")
      case True
      moreover have "the (bt_get shs p) = share" using that by (simp flip: get)
      ultimately show ?thesis using f(2) h(2) by metis
    next
      case False
      have "p \<in> set ?keys" using that by (force simp: bt_keys_def)
      with False have "p \<in> set (drop t ?keys)" unfolding split by blast
      moreover have "bt_get shs p = Some share" using that by (simp only: get)
      ultimately show ?thesis using rest by blast
    qed
    ultimately have "scalars_exist G ?keys" "shares_on_polynomials G t joint shs f h"
      using f(1) h(1) by (auto simp: shares_on_polynomials_def)
    with dist show "scalars_exist G ?keys \<and> distinct (map index_scalar ?basis :: 's list)
        \<and> (\<exists>f h :: 's list. shares_on_polynomials G t joint shs f h)" by blast
  next
    assume "scalars_exist G ?keys \<and> distinct (map index_scalar ?basis :: 's list)
        \<and> (\<exists>f h :: 's list. shares_on_polynomials G t joint shs f h)"
    then obtain f h :: "'s list" where sc: "scalars_exist G ?keys" and dist: "distinct (map index_scalar ?basis :: 's list)"
      and poly: "shares_on_polynomials G t joint shs f h" by blast
    have sel: "pub_decryption share = mul_generator G (horner f (index_scalar p))"
        "pub_context share = mul_generator G (horner h (index_scalar p))" if "bt_get shs p = Some share" for p share
      using poly that by (auto simp: shares_on_polynomials_def get)
    have scb: "scalars_exist G ?basis" using sc by (auto simp: scalars_exist_def dest: in_set_takeD)
    have domb: "\<exists>share. bt_get shs p = Some share" if "p \<in> set ?basis" for p
      using that dom by (auto dest: in_set_takeD)
    have at: "interpolate_public_key_share G ?basis x pub_decryption shs = Inr (mul_generator G (horner f x))"
      "interpolate_public_key_share G ?basis x pub_context shs = Inr (mul_generator G (horner h x))" for x
      using poly domb sel basis(3)
      by (intro interpolate_value[OF assms(1) basis(1) scb dist]; force simp: shares_on_polynomials_def)+
    have "?check p = Inr ()" if mem: "p \<in> set (drop t ?keys)" for p
    proof -
      obtain share where "bt_get shs p = Some share" using dom mem in_set_dropD by metis
      moreover have "to_scalar G p = Inr (index_scalar p)"
        using sc mem by (auto simp: scalars_exist_def dest: in_set_dropD)
      ultimately show ?thesis using sel by (simp add: at)
    qed
    with poly show "validate_public_shares G t joint shs = Inr ()"
      unfolding unfold at by (auto simp: shares_on_polynomials_def prime_group.mul_generator_eq_0[OF assms(1)])
  qed
qed

section \<open>Properties\<close>

text \<open>
  C13. \<open>PublicKeySet::new\<close> accepts exactly the key sets with a positive threshold that is not above
  the number of shares, a joint key that is not the identity, usable participant scalars, and public
  shares that lie, in the exponent, on two polynomials of \<open>threshold\<close> coefficients: one with the
  joint key at zero, the other with the identity at zero. It keeps the set it was given.
\<close>

theorem public_key_set_new_iff:
  assumes "prime_group G" and "bt_sorted shs"
  shows "public_key_set_new G t joint shs = Inr pks \<longleftrightarrow>
    0 < t \<and> t \<le> length shs \<and> joint \<noteq> 0
    \<and> scalars_exist G (bt_keys shs) \<and> scalars_distinct TYPE('s::field) (take t (bt_keys shs))
    \<and> (\<exists>f h :: 's list. shares_on_polynomials G t joint shs f h)
    \<and> pks = \<lparr>pks_threshold = t, pks_joint_public_key = joint, pks_public_shares = shs\<rparr>"
proof (cases "0 < t \<and> t \<le> length shs \<and> joint \<noteq> 0")
  case True
  then have "public_key_set_new G t joint shs = Inr pks \<longleftrightarrow>
      validate_public_shares G t joint shs = Inr ()
      \<and> pks = \<lparr>pks_threshold = t, pks_joint_public_key = joint, pks_public_shares = shs\<rparr>"
    by (auto simp: public_key_set_new_def is_identity_def)
  with True show ?thesis
    by (simp add: validate_public_shares_Inr[OF assms] scalars_distinct_def conj_assoc)
next
  case False
  then show ?thesis by (auto simp: public_key_set_new_def is_identity_def)
qed

definition tiny_public_shares :: "(participant_index, tiny public_share) btree_map" where
  "tiny_public_shares = map (\<lambda>i. (ParticipantIndex i,
     \<lparr>pub_decryption = reduce (11 + 7 * unat i), pub_context = reduce (13 * unat i)\<rparr>)) [1, 2, 3]"

definition tiny_key_set :: "tiny public_key_set" where
  "tiny_key_set = \<lparr>pks_threshold = 2, pks_joint_public_key = 11, pks_public_shares = tiny_public_shares\<rparr>"

lemma tiny_public_shares_keys [simp]:
  "bt_keys tiny_public_shares = [ParticipantIndex 1, ParticipantIndex 2, ParticipantIndex 3]"
  by (simp add: tiny_public_shares_def bt_keys_def)

lemma tiny_public_shares_sorted: "bt_sorted tiny_public_shares"
  unfolding bt_sorted_def tiny_public_shares_keys by (simp add: less_participant_index_def)

lemma tiny_index_scalar [simp, tiny_eval]: "index_scalar (ParticipantIndex w) = reduce (unat w)"
  by (simp add: index_scalar_def reduce_of_nat)

lemma tiny_on_polynomials: "shares_on_polynomials tiny_group 2 11 tiny_public_shares [11, 7] [0, 13]"
  by (simp add: shares_on_polynomials_def tiny_public_shares_def tiny_eval horner_def)

lemma public_key_set_new_iff_witness:
  "public_key_set_new tiny_group 2 11 tiny_public_shares = Inr tiny_key_set"
proof -
  have "scalars_exist tiny_group (bt_keys tiny_public_shares)"
    by (simp add: scalars_exist_def)
  moreover have "scalars_distinct TYPE(tiny) (take 2 (bt_keys tiny_public_shares))"
    by (simp add: scalars_distinct_def tiny_eval)
  moreover have "(11 :: tiny) \<noteq> 0" by (simp add: tiny_eval)
  moreover have "length tiny_public_shares = 3" by (simp add: tiny_public_shares_def)
  ultimately show ?thesis
    using tiny_on_polynomials
    by (simp add: public_key_set_new_iff[OF tiny.prime_group_axioms tiny_public_shares_sorted] tiny_key_set_def) blast
qed

end
