(* ===== verification/Ehtdh_Seal.thy ===== *)
theory Ehtdh_Seal
  imports Ehtdh_Setup
begin

text \<open>
  \<open>golden-ehtdh1/src/encrypt.rs\<close>: sealing a payload under the joint public key, the Schnorr proof
  that the ciphertext carries, and its check. HKDF-SHA256 and XChaCha20 (crates \<open>hkdf\<close> and
  \<open>chacha20\<close>) are the operations of the record \<open>payload_cipher\<close>; a cipher is its keystream, the
  function from positions to bytes. Drawing a nonzero scalar loops until the generator produces one,
  so sealing may diverge (\<open>None\<close>).
\<close>

unbundle bit_operations_syntax

section \<open>Sealing keys and ciphertexts\<close>

record payload_cipher =
  hkdf_sha256_expand :: "bytes \<Rightarrow> bytes \<Rightarrow> bytes \<Rightarrow> usize \<Rightarrow> bytes option"
  xchacha20_new :: "bytes \<Rightarrow> bytes \<Rightarrow> (usize \<Rightarrow> byte) option"

record 'e sealing_key =
  seal_joint_public_key :: 'e

record ('s, 'e) ciphertext =
  associated_data :: bytes
  encrypted_payload :: bytes
  ephemeral_public :: 'e
  encryption_point :: 'e
  ct_challenge :: 's
  ct_response :: 's

definition sealing_key_new :: "'e::ab_group_add \<Rightarrow> 'e sealing_key ehtdh_result" where
  "sealing_key_new joint_public_key =
     (if is_identity joint_public_key then Inl InvalidJointPublicKey
      else Inr \<lparr>seal_joint_public_key = joint_public_key\<rparr>)"

section \<open>Hashes and masks\<close>

definition encryption_group ::
  "('s, 'e, 'z) golden_hash_group_scheme \<Rightarrow> 'e \<Rightarrow> 'e \<Rightarrow> bytes \<Rightarrow> bytes \<Rightarrow> 'e ehtdh_result" where
  "encryption_group G ephemeral proof_commitment ad payload =
     (let t = tb_with_prefix TRANSCRIPT_PREFIX (ascii ''hegd'');
          t = tb_bytes (ascii ''backend'') (backend_id G) t;
          t = tb_element G (ascii ''R'') ephemeral t;
          t = tb_element G (ascii ''R-prime'') proof_commitment t;
          t = tb_bytes (ascii ''ad'') ad t;
          t = tb_bytes (ascii ''ciphertext'') payload t
      in map_err (\<lambda>_. EncodingInvalid) (hash_to_group G (ascii ''golden-ehtdh1-hegd-v1'') (tb_root G t)))"

definition encryption_challenge ::
  "('s::field, 'e, 'z) golden_group_scheme \<Rightarrow> 'e \<Rightarrow> 'e \<Rightarrow> 'e \<Rightarrow> 's ehtdh_result" where
  "encryption_challenge G egroup epoint ecommitment =
     (let t = tb_with_prefix TRANSCRIPT_PREFIX (ascii ''hecd'');
          t = tb_bytes (ascii ''backend'') (backend_id G) t;
          t = tb_element G (ascii ''Y'') egroup t;
          t = tb_element G (ascii ''V'') epoint t;
          t = tb_element G (ascii ''V-prime'') ecommitment t
      in hash_to_nonzero_scalar G (ascii ''golden-ehtdh1-hecd-v1'') (tb_root G t))"

definition derive_payload_mask_material ::
  "payload_cipher \<Rightarrow> ('s, 'e, 'z) golden_group_scheme \<Rightarrow> usize \<Rightarrow> 'e \<Rightarrow> 'e \<Rightarrow> bytes ehtdh_result" where
  "derive_payload_mask_material K G n ephemeral dh_point =
     (let t = tb_with_prefix TRANSCRIPT_PREFIX (ascii ''hkd-ikm'');
          t = tb_bytes (ascii ''backend'') (backend_id G) t;
          t = tb_element G (ascii ''R'') ephemeral t;
          t = tb_element G (ascii ''U'') dh_point t
      in ok_or (hkdf_sha256_expand K (ascii ''golden-ehtdh1-hkd-v1'') (tb_root G t)
                  (ascii ''golden-ehtdh1-xchacha20-mask-v1'') n) EncodingInvalid)"

definition apply_keystream :: "(usize \<Rightarrow> byte) \<Rightarrow> bytes \<Rightarrow> bytes" where
  "apply_keystream keystream target = map (\<lambda>i. target ! i XOR keystream i) [0..<length target]"

definition apply_payload_mask ::
  "payload_cipher \<Rightarrow> ('s, 'e, 'z) golden_group_scheme \<Rightarrow> bytes \<Rightarrow> 'e \<Rightarrow> 'e \<Rightarrow> bytes ehtdh_result" where
  "apply_payload_mask K G target ephemeral dh_point =
     (let key_size = 32; nonce_size = 24; material_size = key_size + nonce_size
      in rbind (derive_payload_mask_material K G material_size ephemeral dh_point) (\<lambda>material.
         rbind (ok_or (xchacha20_new K (take key_size material) (drop key_size material)) EncodingInvalid) (\<lambda>cipher.
         Inr (apply_keystream cipher target))))"

section \<open>Sealing\<close>

partial_function (option) sample_nonzero_scalar ::
  "('s::zero, 'r) crypto_rng \<Rightarrow> 'r \<Rightarrow> ('s \<times> 'r) option" where
  "sample_nonzero_scalar R r =
     (let (scalar, r') = next_scalar R r
      in if scalar \<noteq> 0 then Some (scalar, r') else sample_nonzero_scalar R r')"

text \<open>Sealing after the scalars \<open>r\<close> and \<open>r'\<close> are drawn.\<close>

definition seal_with_nonces ::
  "payload_cipher \<Rightarrow> ('s::field, 'e, 'z) golden_hash_group_scheme \<Rightarrow> 'e sealing_key
    \<Rightarrow> 's \<Rightarrow> 's \<Rightarrow> bytes \<Rightarrow> bytes \<Rightarrow> ('s, 'e) ciphertext ehtdh_result" where
  "seal_with_nonces K G key r r_prime plaintext ad =
     (let ephemeral = mul_generator G r;
          dh_point = group_mul G (seal_joint_public_key key) r
      in rbind (apply_payload_mask K G plaintext ephemeral dh_point) (\<lambda>payload.
         let proof_commitment = mul_generator G r_prime
         in rbind (encryption_group G ephemeral proof_commitment ad payload) (\<lambda>egroup.
            let epoint = group_mul G egroup r;
                ecommitment = group_mul G egroup r_prime
            in rbind (encryption_challenge G egroup epoint ecommitment) (\<lambda>challenge.
               Inr \<lparr>associated_data = ad, encrypted_payload = payload, ephemeral_public = ephemeral,
                    encryption_point = epoint, ct_challenge = challenge,
                    ct_response = r_prime + r * challenge\<rparr>))))"

definition seal_bytes_with_associated_data ::
  "payload_cipher \<Rightarrow> ('s::field, 'e, 'z) golden_hash_group_scheme \<Rightarrow> ('s, 'r) crypto_rng \<Rightarrow> 'e sealing_key
    \<Rightarrow> 'r \<Rightarrow> bytes \<Rightarrow> bytes \<Rightarrow> (('s, 'e) ciphertext \<times> 'r) ehtdh_result option" where
  "seal_bytes_with_associated_data K G R key rng plaintext ad =
     Option.bind (sample_nonzero_scalar R rng) (\<lambda>(r, rng).
     Option.bind (sample_nonzero_scalar R rng) (\<lambda>(r_prime, rng).
     Some (rbind (seal_with_nonces K G key r r_prime plaintext ad) (\<lambda>ct. Inr (ct, rng)))))"

definition seal_bytes ::
  "payload_cipher \<Rightarrow> ('s::field, 'e, 'z) golden_hash_group_scheme \<Rightarrow> ('s, 'r) crypto_rng \<Rightarrow> 'e sealing_key
    \<Rightarrow> 'r \<Rightarrow> bytes \<Rightarrow> (('s, 'e) ciphertext \<times> 'r) ehtdh_result option" where
  "seal_bytes K G R key rng plaintext = seal_bytes_with_associated_data K G R key rng plaintext []"

section \<open>Checking a ciphertext\<close>

definition verify_ciphertext ::
  "('s::field, 'e::ab_group_add, 'z) golden_hash_group_scheme \<Rightarrow> ('s, 'e) ciphertext \<Rightarrow> unit ehtdh_result" where
  "verify_ciphertext G message =
     (if is_identity (ephemeral_public message) \<or> is_identity (encryption_point message)
      then Inl InvalidCiphertextProof
      else let proof_commitment = mul_generator G (ct_response message)
                                  - group_mul G (ephemeral_public message) (ct_challenge message)
           in rbind (encryption_group G (ephemeral_public message) proof_commitment
                       (associated_data message) (encrypted_payload message)) (\<lambda>egroup.
              let ecommitment = group_mul G egroup (ct_response message)
                                - group_mul G (encryption_point message) (ct_challenge message)
              in rbind (encryption_challenge G egroup (encryption_point message) ecommitment) (\<lambda>expected.
                 if expected = ct_challenge message then Inr () else Inl InvalidCiphertextProof)))"

definition verify_with_associated_data ::
  "('s::field, 'e::ab_group_add, 'z) golden_hash_group_scheme \<Rightarrow> ('s, 'e) ciphertext \<Rightarrow> bytes \<Rightarrow> unit ehtdh_result" where
  "verify_with_associated_data G message expected_associated_data =
     (if associated_data message \<noteq> expected_associated_data then Inl AssociatedDataMismatch
      else verify_ciphertext G message)"

section \<open>Lemmas\<close>

text \<open>\<open>hash_to_group\<close> is documented to return a group element that is not the identity.\<close>

locale hash_group = prime_group G
  for G :: "('s::field, 'e::ab_group_add, 'z) golden_hash_group_scheme" +
  assumes hash_to_group_nonzero: "hash_to_group G domain message = Inr point \<Longrightarrow> point \<noteq> 0"

lemma apply_keystream_involution: "apply_keystream ks (apply_keystream ks bs) = bs"
proof (rule nth_equalityI)
  fix i assume "i < length (apply_keystream ks (apply_keystream ks bs))"
  then show "apply_keystream ks (apply_keystream ks bs) ! i = bs ! i"
    by (simp add: apply_keystream_def xor.assoc)
qed (simp add: apply_keystream_def)

text \<open>Masking is its own inverse, and whether it succeeds does not depend on the bytes masked.\<close>

lemma apply_payload_mask_Inr:
  "apply_payload_mask K G target R U = Inr out \<longleftrightarrow>
    (\<exists>material ks. derive_payload_mask_material K G 56 R U = Inr material
      \<and> xchacha20_new K (take 32 material) (drop 32 material) = Some ks \<and> out = apply_keystream ks target)"
  by (auto simp: apply_payload_mask_def)

lemma apply_payload_mask_involution:
  "apply_payload_mask K G target R U = Inr out \<Longrightarrow> apply_payload_mask K G out R U = Inr target"
  by (auto simp: apply_payload_mask_Inr apply_keystream_involution)

lemma apply_payload_mask_length:
  "apply_payload_mask K G target R U = Inr out \<Longrightarrow> length out = length target"
  by (auto simp: apply_payload_mask_Inr apply_keystream_def)

text \<open>A sampled scalar is not zero; sampling returns when the generator eventually draws one.\<close>

lemma sample_nonzero_scalar_nonzero: "sample_nonzero_scalar R r = Some (s, r') \<Longrightarrow> s \<noteq> 0"
proof -
  assume "sample_nonzero_scalar R r = Some (s, r')"
  then have "fst (s, r') \<noteq> 0"
    by (rule sample_nonzero_scalar.raw_induct[where P = "\<lambda>R r y. fst y \<noteq> 0", rotated]) (auto split: prod.splits if_splits)
  then show ?thesis by simp
qed

lemma sample_nonzero_scalar_returns:
  assumes "fst (next_scalar R (((snd \<circ> next_scalar R) ^^ n) r)) \<noteq> 0"
  shows "\<exists>s r'. sample_nonzero_scalar R r = Some (s, r')"
  using assms
proof (induction n arbitrary: r)
  case 0
  then show ?case by (subst sample_nonzero_scalar.simps) (auto split: prod.splits)
next
  case (Suc n)
  obtain s r1 where draw: "next_scalar R r = (s, r1)" by fastforce
  from Suc.prems have "fst (next_scalar R (((snd \<circ> next_scalar R) ^^ n) r1)) \<noteq> 0"
    by (simp add: funpow_Suc_right draw o_def del: funpow.simps)
  from Suc.IH[OF this] show ?case
    by (subst sample_nonzero_scalar.simps) (simp add: draw)
qed

text \<open>What a ciphertext made with the scalars \<open>r\<close> and \<open>r'\<close> contains.\<close>

definition sealed_as ::
  "payload_cipher \<Rightarrow> ('s::field, 'e, 'z) golden_hash_group_scheme \<Rightarrow> 'e \<Rightarrow> 's \<Rightarrow> bytes \<Rightarrow> bytes
    \<Rightarrow> ('s, 'e) ciphertext \<Rightarrow> bool" where
  "sealed_as K G joint r plaintext ad ct \<longleftrightarrow>
     r \<noteq> 0 \<and> associated_data ct = ad \<and> ephemeral_public ct = mul_generator G r
     \<and> apply_payload_mask K G plaintext (mul_generator G r) (group_mul G joint r) = Inr (encrypted_payload ct)"

lemma seal_with_nonces_Inr:
  "seal_with_nonces K G key r r' plaintext ad = Inr ct \<longleftrightarrow>
    (\<exists>payload egroup c.
       apply_payload_mask K G plaintext (mul_generator G r) (group_mul G (seal_joint_public_key key) r) = Inr payload
       \<and> encryption_group G (mul_generator G r) (mul_generator G r') ad payload = Inr egroup
       \<and> encryption_challenge G egroup (group_mul G egroup r) (group_mul G egroup r') = Inr c
       \<and> ct = \<lparr>associated_data = ad, encrypted_payload = payload, ephemeral_public = mul_generator G r,
               encryption_point = group_mul G egroup r, ct_challenge = c, ct_response = r' + r * c\<rparr>)"
  by (auto simp: seal_with_nonces_def Let_def)

lemma seal_bytes_InrE:
  assumes "seal_bytes_with_associated_data K G R key rng plaintext ad = Some (Inr (ct, rng'))"
  obtains r r' where "r \<noteq> 0" and "seal_with_nonces K G key r r' plaintext ad = Inr ct"
  using assms sample_nonzero_scalar_nonzero
  by (fastforce simp: seal_bytes_with_associated_data_def bind_eq_Some_conv)

lemma seal_bytes_sealed_as:
  assumes "seal_bytes_with_associated_data K G R key rng plaintext ad = Some (Inr (ct, rng'))"
  obtains r where "sealed_as K G (seal_joint_public_key key) r plaintext ad ct"
proof -
  obtain r r' where r: "r \<noteq> 0" and "seal_with_nonces K G key r r' plaintext ad = Inr ct"
    by (rule seal_bytes_InrE[OF assms])
  then have "sealed_as K G (seal_joint_public_key key) r plaintext ad ct"
    unfolding seal_with_nonces_Inr sealed_as_def by auto
  then show ?thesis by (rule that)
qed

context prime_group begin

text \<open>The commitment a Schnorr verifier reconstructs is the prover's.\<close>

lemma schnorr_commitment:
  "group_mul G p (k + x * c) - group_mul G (group_mul G p x) c = group_mul G p k"
  by (simp add: mul_add_scalar mul_mul)

lemma schnorr_commitment_generator:
  "mul_generator G (k + x * c) - group_mul G (mul_generator G x) c = mul_generator G k"
  by (simp add: mul_generator_def schnorr_commitment)

end

context hash_group begin

lemma encryption_group_nonzero: "encryption_group G R R' ad payload = Inr egroup \<Longrightarrow> egroup \<noteq> 0"
  by (auto simp: encryption_group_def Let_def dest: hash_to_group_nonzero)

lemma seal_with_nonces_verifies:
  assumes "r \<noteq> 0" and "seal_with_nonces K G key r r' plaintext ad = Inr ct"
  shows "verify_ciphertext G ct = Inr ()"
proof -
  obtain payload egroup c where
    y: "encryption_group G (mul_generator G r) (mul_generator G r') ad payload = Inr egroup"
    and c: "encryption_challenge G egroup (group_mul G egroup r) (group_mul G egroup r') = Inr c"
    and ct: "ct = \<lparr>associated_data = ad, encrypted_payload = payload, ephemeral_public = mul_generator G r,
               encryption_point = group_mul G egroup r, ct_challenge = c, ct_response = r' + r * c\<rparr>"
    using assms(2) unfolding seal_with_nonces_Inr by blast
  have "group_mul G egroup r \<noteq> 0"
    using encryption_group_nonzero[OF y] assms(1) by simp
  then show ?thesis
    using assms(1) y c
    by (simp add: ct verify_ciphertext_def is_identity_def schnorr_commitment schnorr_commitment_generator)
qed

end

section \<open>A small group with hashing\<close>

definition tiny_hash_group :: "(tiny, tiny) golden_hash_group" where
  "tiny_hash_group = golden_group.extend tiny_group \<lparr>hash_to_group = (\<lambda>domain message. Inr 1)\<rparr>"

text \<open>The operations of a group do not see what an extension of the record adds.\<close>

lemma tiny_hash_group_fields [simp, tiny_eval]:
  "repr_bytes tiny_hash_group = 1" "element_repr_bytes tiny_hash_group = 1"
  "scalar_from_u64 tiny_hash_group value = Inr (reduce (unat value))"
  "scalar_to_repr tiny_hash_group s = [word_of_nat (tiny_get s)]"
  "encode_element tiny_hash_group s = [word_of_nat (tiny_get s)]"
  "scalar_from_repr tiny_hash_group = tiny_from_repr" "decode_element tiny_hash_group = tiny_from_repr"
  "generator tiny_hash_group = 1" "group_mul tiny_hash_group p s = p * s"
  "sha256 tiny_hash_group = tiny_hash" "backend_id tiny_hash_group = ascii ''golden-test-tiny-v1''"
  "mul_generator tiny_hash_group s = s" "hash_to_group tiny_hash_group d m = Inr 1"
  by (simp_all add: tiny_hash_group_def golden_group.defs tiny_group_def mul_generator_def)

interpretation tinyh: hash_group tiny_hash_group
proof
  show "scalar_from_u64 tiny_hash_group w = Inr s \<Longrightarrow> s = of_nat (unat w)" for w s
    by (simp add: tiny_literals)
qed (simp_all add: distrib_left distrib_right mult.assoc)

interpretation tinyh: golden_codec tiny_hash_group
  by unfold_locales (auto simp: tiny_hash_def tiny_from_repr_canonical)

lemma tiny_hash_to_scalar_extended [simp, tiny_eval]: "hash_to_scalar tiny_hash_group domain message = Inr 1"
proof (rule hash_to_scalar_first)
  have "hash_blocks 1 tiny_hash_group seed 0 [] = replicate 32 1" for seed
    unfolding One_nat_def by (simp add: tiny_hash_def)
  then show "repr_try_from (repr_bytes tiny_hash_group) (hash_candidate tiny_hash_group domain message 0) = Inr [1]"
    by (simp add: hash_candidate_def Let_def take_replicate repr_try_from_def)
  show "scalar_from_repr tiny_hash_group [1] = Inr 1"
    by (simp add: tiny_from_repr_def one_tiny_def)
qed simp

lemma tiny_hash_to_scalar_index [simp, tiny_eval]:
  "to_scalar tiny_hash_group (ParticipantIndex w) = Inr (reduce (unat w))"
  by (simp add: to_scalar_def u32_to_u64)

definition tiny_cipher :: payload_cipher where
  "tiny_cipher = \<lparr>hkdf_sha256_expand = (\<lambda>salt ikm info n. if n \<le> 255 * 32 then Some (replicate n 7) else None),
     xchacha20_new = (\<lambda>key nonce. if length key = 32 \<and> length nonce = 24 then Some word_of_nat else None)\<rparr>"

lemma tiny_encryption_hashes [simp]:
  "encryption_group tiny_hash_group r r' ad payload = Inr 1"
  "encryption_challenge tiny_hash_group y v v' = Inr 1"
  by (simp_all add: encryption_group_def encryption_challenge_def hash_to_nonzero_scalar_def Let_def)

lemma tiny_mask [simp]:
  "apply_payload_mask tiny_cipher G target r u = Inr (apply_keystream word_of_nat target)"
  by (simp add: apply_payload_mask_def derive_payload_mask_material_def tiny_cipher_def)

text \<open>A generator that draws the scalars 3, 0, 5, 3, 0, 5, and so on.\<close>

definition tiny_cycle_rng :: "(tiny, nat) crypto_rng" where
  "tiny_cycle_rng = \<lparr>next_scalar = (\<lambda>r. ([3, 0, 5] ! (r mod 3), Suc r)), fill_bytes = (\<lambda>n r. (replicate n 0, r))\<rparr>"

definition tiny_ciphertext :: "(tiny, tiny) ciphertext" where
  "tiny_ciphertext = \<lparr>associated_data = [9], encrypted_payload = [20, 20], ephemeral_public = 3,
     encryption_point = 3, ct_challenge = 1, ct_response = 8\<rparr>"

lemma tiny_samples:
  "sample_nonzero_scalar tiny_cycle_rng 0 = Some (3, Suc 0)" "sample_nonzero_scalar tiny_cycle_rng (Suc 0) = Some (5, 3)"
proof -
  show "sample_nonzero_scalar tiny_cycle_rng 0 = Some (3, Suc 0)"
    by (subst sample_nonzero_scalar.simps) (simp add: tiny_cycle_rng_def tiny_eval)
  have "sample_nonzero_scalar tiny_cycle_rng (Suc (Suc 0)) = Some (5, 3)"
    by (subst sample_nonzero_scalar.simps) (simp add: tiny_cycle_rng_def tiny_eval)
  then show "sample_nonzero_scalar tiny_cycle_rng (Suc 0) = Some (5, 3)"
    by (subst sample_nonzero_scalar.simps) (simp add: tiny_cycle_rng_def tiny_eval)
qed

lemma tiny_seals:
  "seal_bytes_with_associated_data tiny_cipher tiny_hash_group tiny_cycle_rng \<lparr>seal_joint_public_key = 11\<rparr> 0 [20, 21] [9]
    = Some (Inr (tiny_ciphertext, 3))"
  by (simp add: seal_bytes_with_associated_data_def tiny_samples seal_with_nonces_def apply_keystream_def
      tiny_ciphertext_def tiny_eval)

section \<open>Properties\<close>

text \<open>
  C14. Sealing then checking: a ciphertext produced by \<open>seal_bytes_with_associated_data\<close> carries the
  associated data it was sealed with, its payload has the length of the plaintext, and its proof is
  accepted, with that associated data and with no other.
\<close>

theorem sealed_ciphertext_accepted:
  assumes "hash_group G"
    and "seal_bytes_with_associated_data K G R key rng plaintext ad = Some (Inr (ct, rng'))"
  shows "verify_with_associated_data G ct ad' = (if ad' = ad then Inr () else Inl AssociatedDataMismatch)
    \<and> length (encrypted_payload ct) = length plaintext"
proof -
  obtain r r' where "r \<noteq> 0" and s: "seal_with_nonces K G key r r' plaintext ad = Inr ct"
    by (rule seal_bytes_InrE[OF assms(2)])
  then have "verify_ciphertext G ct = Inr ()"
    by (rule hash_group.seal_with_nonces_verifies[OF assms(1)])
  moreover have "associated_data ct = ad" "length (encrypted_payload ct) = length plaintext"
    using s unfolding seal_with_nonces_Inr by (auto dest: apply_payload_mask_length)
  ultimately show ?thesis by (auto simp: verify_with_associated_data_def)
qed

lemma sealed_ciphertext_accepted_witness:
  "verify_with_associated_data tiny_hash_group tiny_ciphertext [9] = Inr ()
    \<and> verify_with_associated_data tiny_hash_group tiny_ciphertext [8] = Inl AssociatedDataMismatch"
  using sealed_ciphertext_accepted[OF tinyh.hash_group_axioms tiny_seals, of "[9]"]
    sealed_ciphertext_accepted[OF tinyh.hash_group_axioms tiny_seals, of "[8]"] by simp

text \<open>
  C26. Sealing returns: if every generator state leads, in finitely many draws, to a nonzero scalar,
  both resampling loops end, so sealing yields a ciphertext or an error on every input, and an error
  is one of the two that the hash functions and the mask can raise.
\<close>

theorem seal_bytes_returns:
  assumes "\<And>r. \<exists>n. fst (next_scalar R (((snd \<circ> next_scalar R) ^^ n) r)) \<noteq> 0"
  shows "\<exists>res. seal_bytes_with_associated_data K G R key rng plaintext ad = Some res
    \<and> (\<forall>e. res = Inl e \<longrightarrow> e \<in> {EncodingInvalid, ScalarDerivationFailed})"
proof -
  obtain r r1 r' r2 where "sample_nonzero_scalar R rng = Some (r, r1)" "sample_nonzero_scalar R r1 = Some (r', r2)"
    using assms sample_nonzero_scalar_returns by metis
  then have "seal_bytes_with_associated_data K G R key rng plaintext ad
      = Some (rbind (seal_with_nonces K G key r r' plaintext ad) (\<lambda>ct. Inr (ct, r2)))"
    by (simp add: seal_bytes_with_associated_data_def)
  moreover have "e \<in> {EncodingInvalid, ScalarDerivationFailed}"
    if "seal_with_nonces K G key r r' plaintext ad = Inl e" for e
    using that
    by (auto simp: seal_with_nonces_def Let_def rbind_eq_Inl apply_payload_mask_def derive_payload_mask_material_def
        encryption_group_def encryption_challenge_def hash_to_nonzero_scalar_def ok_or_def map_err_def
        split: option.splits sum.splits)
  ultimately show ?thesis by (auto simp: rbind_eq_Inl)
qed

lemma seal_bytes_returns_witness:
  "\<exists>res. seal_bytes_with_associated_data tiny_cipher tiny_hash_group tiny_cycle_rng \<lparr>seal_joint_public_key = 11\<rparr> 4 [1] []
    = Some res"
proof -
  have shift: "((snd \<circ> next_scalar tiny_cycle_rng) ^^ n) r = r + n" for n r
    by (induction n) (auto simp: tiny_cycle_rng_def)
  have "\<exists>n. fst (next_scalar tiny_cycle_rng (((snd \<circ> next_scalar tiny_cycle_rng) ^^ n) r)) \<noteq> 0" for r
  proof (cases "r mod 3 = 1")
    case True
    then have "(r + 1) mod 3 = 2" by presburger
    then show ?thesis
      unfolding shift by (intro exI[of _ 1]) (simp add: tiny_cycle_rng_def tiny_eval)
  next
    case False
    then have "r mod 3 = 0 \<or> r mod 3 = 2" by presburger
    then show ?thesis
      unfolding shift by (intro exI[of _ 0]) (auto simp: tiny_cycle_rng_def tiny_eval)
  qed
  from seal_bytes_returns[OF this] show ?thesis by blast
qed

end
