(* ===== verification/Ehtdh_Combine.thy ===== *)
theory Ehtdh_Combine
  imports Ehtdh_Seal
begin

text \<open>
  \<open>golden-ehtdh1/src/decrypt.rs\<close>: a validator's decryption share \<open>W = x R + z S\<close> with its double
  Schnorr proof, the check of such a share, and the combiners that open the payload from a
  threshold of them. A \<open>BTreeSet\<close> is a set.
\<close>

section \<open>Data\<close>

record 's unsealing_share =
  us_share :: "'s secret_share"

record ('s, 'e) decryption_share =
  ds_participant :: participant_index
  ds_share :: 'e
  ds_challenge :: 's
  ds_decryption_response :: 's
  ds_context_response :: 's

record 'e combiner =
  cmb_public_key_set :: "'e public_key_set"
  cmb_setup_context :: setup_context

record 'e share_challenge_inputs =
  sci_setup_context :: setup_context
  sci_decryption_group :: 'e
  sci_public_decryption_share :: 'e
  sci_public_context_share :: 'e
  sci_share :: 'e
  sci_public_decryption_commitment :: 'e
  sci_public_context_commitment :: 'e
  sci_share_commitment :: 'e

section \<open>Hashes\<close>

definition decryption_group ::
  "('s, 'e, 'z) golden_hash_group_scheme \<Rightarrow> setup_context \<Rightarrow> ('s, 'e) ciphertext \<Rightarrow> bytes \<Rightarrow> 'e ehtdh_result" where
  "decryption_group G ctx message decryption_context =
     (let t = tb_with_prefix TRANSCRIPT_PREFIX (ascii ''hdgd'');
          t = tb_bytes (ascii ''backend'') (backend_id G) t;
          t = tb_bytes (ascii ''setup-context-root'') (setup_root G ctx) t;
          t = tb_bytes (ascii ''ad'') (associated_data message) t;
          t = tb_bytes (ascii ''dc'') decryption_context t;
          t = tb_element G (ascii ''R'') (ephemeral_public message) t;
          t = tb_element G (ascii ''V'') (encryption_point message) t;
          t = tb_scalar G (ascii ''e'') (ct_challenge message) t;
          t = tb_scalar G (ascii ''r-response'') (ct_response message) t;
          t = tb_bytes (ascii ''ciphertext'') (encrypted_payload message) t
      in map_err (\<lambda>_. EncodingInvalid) (hash_to_group G (ascii ''golden-ehtdh1-hdgd-v1'') (tb_root G t)))"

definition share_challenge ::
  "('s::field, 'e, 'z) golden_group_scheme \<Rightarrow> 'e share_challenge_inputs \<Rightarrow> 's ehtdh_result" where
  "share_challenge G inputs =
     (let t = tb_with_prefix TRANSCRIPT_PREFIX (ascii ''hdcd'');
          t = tb_bytes (ascii ''backend'') (backend_id G) t;
          t = tb_bytes (ascii ''setup-context-root'') (setup_root G (sci_setup_context inputs)) t;
          t = tb_element G (ascii ''S'') (sci_decryption_group inputs) t;
          t = tb_element G (ascii ''X-i'') (sci_public_decryption_share inputs) t;
          t = tb_element G (ascii ''Z-i'') (sci_public_context_share inputs) t;
          t = tb_element G (ascii ''W-i'') (sci_share inputs) t;
          t = tb_element G (ascii ''X-i-prime'') (sci_public_decryption_commitment inputs) t;
          t = tb_element G (ascii ''Z-i-prime'') (sci_public_context_commitment inputs) t;
          t = tb_element G (ascii ''W-i-prime'') (sci_share_commitment inputs) t
      in hash_to_nonzero_scalar G (ascii ''golden-ehtdh1-hdcd-v1'') (tb_root G t))"

section \<open>Producing a share\<close>

text \<open>The body of \<open>decrypt_share_with_associated_data\<close> once the nonces are drawn.\<close>

definition prove_decryption_share ::
  "('s::field, 'e::ab_group_add, 'z) golden_group_scheme \<Rightarrow> 's secret_share \<Rightarrow> setup_context \<Rightarrow> ('s, 'e) ciphertext
    \<Rightarrow> 'e \<Rightarrow> 's \<Rightarrow> 's \<Rightarrow> ('s, 'e) decryption_share ehtdh_result" where
  "prove_decryption_share G secret ctx message dgroup decryption_nonce context_nonce =
     (let share = group_mul G (ephemeral_public message) (sec_decryption secret)
                  + group_mul G dgroup (sec_context secret);
          share_commitment = group_mul G (ephemeral_public message) decryption_nonce
                             + group_mul G dgroup context_nonce
      in rbind (share_challenge G
             \<lparr>sci_setup_context = ctx,
              sci_decryption_group = dgroup,
              sci_public_decryption_share = mul_generator G (sec_decryption secret),
              sci_public_context_share = mul_generator G (sec_context secret),
              sci_share = share,
              sci_public_decryption_commitment = mul_generator G decryption_nonce,
              sci_public_context_commitment = mul_generator G context_nonce,
              sci_share_commitment = share_commitment\<rparr>) (\<lambda>challenge.
         Inr \<lparr>ds_participant = sec_participant secret, ds_share = share, ds_challenge = challenge,
              ds_decryption_response = decryption_nonce + challenge * sec_decryption secret,
              ds_context_response = context_nonce + challenge * sec_context secret\<rparr>))"

definition decrypt_share_with_associated_data ::
  "('s::field, 'e::ab_group_add, 'z) golden_hash_group_scheme \<Rightarrow> ('s, 'r) crypto_rng \<Rightarrow> 's unsealing_share \<Rightarrow> 'r
    \<Rightarrow> setup_context \<Rightarrow> ('s, 'e) ciphertext \<Rightarrow> bytes \<Rightarrow> bytes
    \<Rightarrow> (('s, 'e) decryption_share \<times> 'r) ehtdh_result option" where
  "decrypt_share_with_associated_data G R us rng ctx message decryption_context expected_associated_data =
     (if associated_data message \<noteq> expected_associated_data then Some (Inl AssociatedDataMismatch)
      else oresult (verify_ciphertext G message) (\<lambda>_.
           oresult (decryption_group G ctx message decryption_context) (\<lambda>dgroup.
           Option.bind (sample_nonzero_scalar R rng) (\<lambda>(decryption_nonce, rng).
           Option.bind (sample_nonzero_scalar R rng) (\<lambda>(context_nonce, rng).
           Some (rbind (prove_decryption_share G (us_share us) ctx message dgroup decryption_nonce context_nonce)
                   (\<lambda>share. Inr (share, rng))))))))"

definition decrypt_share ::
  "('s::field, 'e::ab_group_add, 'z) golden_hash_group_scheme \<Rightarrow> ('s, 'r) crypto_rng \<Rightarrow> 's unsealing_share \<Rightarrow> 'r
    \<Rightarrow> setup_context \<Rightarrow> ('s, 'e) ciphertext \<Rightarrow> bytes \<Rightarrow> (('s, 'e) decryption_share \<times> 'r) ehtdh_result option" where
  "decrypt_share G R us rng ctx message decryption_context =
     decrypt_share_with_associated_data G R us rng ctx message decryption_context (associated_data message)"

section \<open>Checking a share\<close>

definition verify_decryption_share ::
  "('s::field, 'e::ab_group_add, 'z) golden_group_scheme \<Rightarrow> setup_context \<Rightarrow> 'e \<Rightarrow> ('s, 'e) ciphertext
    \<Rightarrow> ('s, 'e) decryption_share \<Rightarrow> 'e public_share \<Rightarrow> unit ehtdh_result" where
  "verify_decryption_share G ctx dgroup message share public =
     (let decryption_commitment = mul_generator G (ds_decryption_response share)
                                  - group_mul G (pub_decryption public) (ds_challenge share);
          context_commitment = mul_generator G (ds_context_response share)
                               - group_mul G (pub_context public) (ds_challenge share);
          share_commitment = (group_mul G (ephemeral_public message) (ds_decryption_response share)
                              + group_mul G dgroup (ds_context_response share))
                             - group_mul G (ds_share share) (ds_challenge share)
      in rbind (share_challenge G
             \<lparr>sci_setup_context = ctx,
              sci_decryption_group = dgroup,
              sci_public_decryption_share = pub_decryption public,
              sci_public_context_share = pub_context public,
              sci_share = ds_share share,
              sci_public_decryption_commitment = decryption_commitment,
              sci_public_context_commitment = context_commitment,
              sci_share_commitment = share_commitment\<rparr>) (\<lambda>expected.
         if expected = ds_challenge share then Inr () else Inl InvalidShareProof))"

section \<open>Combining\<close>

definition validate_combiner_setup ::
  "('s, 'e, 'z) golden_group_scheme \<Rightarrow> 'e public_key_set \<Rightarrow> setup_context \<Rightarrow> unit ehtdh_result" where
  "validate_combiner_setup G pks ctx =
     (if ctx_backend_id ctx \<noteq> backend_id G then Inl (InvalidBridge ''setup backend mismatch'')
      else if ctx_threshold ctx \<noteq> pks_threshold pks then Inl (InvalidBridge ''setup threshold mismatch'')
      else if ctx_participants ctx \<noteq> bt_keys (pks_public_shares pks)
      then Inl (InvalidBridge ''setup participant mismatch'')
      else if ctx_context_session_id ctx \<noteq> derive_context_session_id G (ctx_decryption_session_id ctx)
      then Inl (InvalidBridge ''setup context session mismatch'')
      else Inr ())"

definition combiner_new ::
  "('s, 'e, 'z) golden_group_scheme \<Rightarrow> 'e public_key_set \<Rightarrow> setup_context \<Rightarrow> 'e combiner ehtdh_result" where
  "combiner_new G pks ctx =
     rbind (validate_combiner_setup G pks ctx) (\<lambda>_.
     Inr \<lparr>cmb_public_key_set = pks, cmb_setup_context = ctx\<rparr>)"

definition participant_lagrange_coefficients ::
  "('s::field, 'e, 'z) golden_group_scheme \<Rightarrow> participant_index list \<Rightarrow> 's list ehtdh_result" where
  "participant_lagrange_coefficients G participants =
     rbind (collect (\<lambda>participant. map_err Golden (to_scalar G participant)) participants) (\<lambda>xs.
     map_err (\<lambda>_. ThresholdInvalid) (lagrange_coefficients_at_zero xs))"

definition combine_verified ::
  "payload_cipher \<Rightarrow> ('s::field, 'e::ab_group_add, 'z) golden_group_scheme \<Rightarrow> ('s, 'e) ciphertext
    \<Rightarrow> ('s, 'e) decryption_share list \<Rightarrow> combine_error + bytes" where
  "combine_verified K G message shs =
     (let participants = map ds_participant shs
      in rbind (map_err CiphertextError (participant_lagrange_coefficients G participants)) (\<lambda>lambdas.
         let dh_point = fold (\<lambda>(share, lambda) dh_point. dh_point + group_mul G (ds_share share) lambda)
                          (zip shs lambdas) 0
         in map_err CiphertextError
              (apply_payload_mask K G (encrypted_payload message) (ephemeral_public message) dh_point)))"

definition verify_shares_step ::
  "('s::field, 'e::ab_group_add, 'z) golden_group_scheme \<Rightarrow> 'e combiner \<Rightarrow> ('s, 'e) ciphertext \<Rightarrow> 'e
    \<Rightarrow> ('s, 'e) decryption_share
    \<Rightarrow> participant_index set \<times> u32 list \<times> ('s, 'e) decryption_share list
    \<Rightarrow> participant_index set \<times> u32 list \<times> ('s, 'e) decryption_share list" where
  "verify_shares_step G cmb message dgroup share = (\<lambda>(accepted, malformed, valid).
     if ds_participant share \<in> accepted
     then (accepted, malformed @ [index_get (ds_participant share)], valid)
     else case public_share_of (cmb_public_key_set cmb) (ds_participant share) of
       None \<Rightarrow> (accepted, malformed @ [index_get (ds_participant share)], valid)
     | Some public \<Rightarrow>
         (case verify_decryption_share G (cmb_setup_context cmb) dgroup message share public of
            Inr _ \<Rightarrow> (insert (ds_participant share) accepted, malformed, valid @ [share])
          | Inl _ \<Rightarrow> (accepted, malformed @ [index_get (ds_participant share)], valid)))"

definition verify_shares ::
  "('s::field, 'e::ab_group_add, 'z) golden_group_scheme \<Rightarrow> 'e combiner \<Rightarrow> ('s, 'e) ciphertext \<Rightarrow> 'e
    \<Rightarrow> ('s, 'e) decryption_share list \<Rightarrow> ('s, 'e) decryption_share list \<times> u32 list" where
  "verify_shares G cmb message dgroup shs =
     (let (accepted, malformed, valid) = fold (verify_shares_step G cmb message dgroup) shs ({}, [], [])
      in (valid, malformed))"

definition combine_quorum ::
  "payload_cipher \<Rightarrow> ('s::field, 'e::ab_group_add, 'z) golden_hash_group_scheme \<Rightarrow> 'e combiner
    \<Rightarrow> ('s, 'e) ciphertext \<Rightarrow> bytes \<Rightarrow> ('s, 'e) decryption_share list \<Rightarrow> combine_error + bytes" where
  "combine_quorum K G cmb message decryption_context shs =
     rbind (map_err CiphertextError (verify_ciphertext G message)) (\<lambda>_.
     rbind (map_err CiphertextError (decryption_group G (cmb_setup_context cmb) message decryption_context)) (\<lambda>dgroup.
     let (valid, malformed) = verify_shares G cmb message dgroup shs
     in if length valid < pks_threshold (cmb_public_key_set cmb)
        then if malformed \<noteq> [] then Inl (MalformedShares malformed)
             else Inl (InsufficientShares (pks_threshold (cmb_public_key_set cmb)) (length valid))
        else combine_verified K G message (take (pks_threshold (cmb_public_key_set cmb)) valid)))"

definition combine_quorum_with_associated_data ::
  "payload_cipher \<Rightarrow> ('s::field, 'e::ab_group_add, 'z) golden_hash_group_scheme \<Rightarrow> 'e combiner
    \<Rightarrow> ('s, 'e) ciphertext \<Rightarrow> bytes \<Rightarrow> bytes \<Rightarrow> ('s, 'e) decryption_share list \<Rightarrow> combine_error + bytes" where
  "combine_quorum_with_associated_data K G cmb message decryption_context expected_associated_data shs =
     (if associated_data message \<noteq> expected_associated_data
      then Inl (CiphertextError AssociatedDataMismatch)
      else combine_quorum K G cmb message decryption_context shs)"

definition selected_step ::
  "('s::field, 'e::ab_group_add, 'z) golden_group_scheme \<Rightarrow> 'e combiner \<Rightarrow> ('s, 'e) ciphertext \<Rightarrow> 'e
    \<Rightarrow> participant_index set \<times> u32 list \<Rightarrow> ('s, 'e) decryption_share
    \<Rightarrow> combine_error + (participant_index set \<times> u32 list)" where
  "selected_step G cmb message dgroup = (\<lambda>(seen, malformed) share.
     if ds_participant share \<in> seen then Inr (seen, malformed @ [index_get (ds_participant share)])
     else let seen = insert (ds_participant share) seen
          in rbind (map_err CiphertextError
                      (ok_or (public_share_of (cmb_public_key_set cmb) (ds_participant share))
                        (ParticipantUnknown (index_get (ds_participant share))))) (\<lambda>public.
             if is_ok (verify_decryption_share G (cmb_setup_context cmb) dgroup message share public)
             then Inr (seen, malformed)
             else Inr (seen, malformed @ [index_get (ds_participant share)])))"

definition combine_selected ::
  "payload_cipher \<Rightarrow> ('s::field, 'e::ab_group_add, 'z) golden_hash_group_scheme \<Rightarrow> 'e combiner
    \<Rightarrow> ('s, 'e) ciphertext \<Rightarrow> bytes \<Rightarrow> ('s, 'e) decryption_share list \<Rightarrow> combine_error + bytes" where
  "combine_selected K G cmb message decryption_context shs =
     rbind (map_err CiphertextError (verify_ciphertext G message)) (\<lambda>_.
     rbind (map_err CiphertextError (decryption_group G (cmb_setup_context cmb) message decryption_context)) (\<lambda>dgroup.
     rbind (rfold (selected_step G cmb message dgroup) ({}, []) shs) (\<lambda>(seen, malformed).
     if malformed \<noteq> [] then Inl (MalformedShares malformed) else combine_verified K G message shs)))"

definition combine_exact ::
  "payload_cipher \<Rightarrow> ('s::field, 'e::ab_group_add, 'z) golden_hash_group_scheme \<Rightarrow> 'e combiner
    \<Rightarrow> ('s, 'e) ciphertext \<Rightarrow> bytes \<Rightarrow> ('s, 'e) decryption_share list \<Rightarrow> combine_error + bytes" where
  "combine_exact K G cmb message decryption_context shs =
     (if length shs \<noteq> pks_threshold (cmb_public_key_set cmb)
      then Inl (InsufficientShares (pks_threshold (cmb_public_key_set cmb)) (length shs))
      else combine_selected K G cmb message decryption_context shs)"

definition combine_exact_with_associated_data ::
  "payload_cipher \<Rightarrow> ('s::field, 'e::ab_group_add, 'z) golden_hash_group_scheme \<Rightarrow> 'e combiner
    \<Rightarrow> ('s, 'e) ciphertext \<Rightarrow> bytes \<Rightarrow> bytes \<Rightarrow> ('s, 'e) decryption_share list \<Rightarrow> combine_error + bytes" where
  "combine_exact_with_associated_data K G cmb message decryption_context expected_associated_data shs =
     (if associated_data message \<noteq> expected_associated_data
      then Inl (CiphertextError AssociatedDataMismatch)
      else combine_exact K G cmb message decryption_context shs)"

section \<open>Which shares count as valid\<close>

text \<open>The combiner's test of one share, and the abstract choice: the first valid share of each participant.\<close>

definition share_valid ::
  "('s::field, 'e::ab_group_add, 'z) golden_group_scheme \<Rightarrow> 'e combiner \<Rightarrow> ('s, 'e) ciphertext \<Rightarrow> 'e
    \<Rightarrow> ('s, 'e) decryption_share \<Rightarrow> bool" where
  "share_valid G cmb message dgroup share \<longleftrightarrow>
     (\<exists>public. public_share_of (cmb_public_key_set cmb) (ds_participant share) = Some public
       \<and> verify_decryption_share G (cmb_setup_context cmb) dgroup message share public = Inr ())"

definition kept :: "('a \<Rightarrow> bool) \<Rightarrow> ('a \<Rightarrow> 'k) \<Rightarrow> 'a list \<Rightarrow> nat \<Rightarrow> bool" where
  "kept ok key xs i \<longleftrightarrow> ok (xs ! i) \<and> (\<forall>j<i. ok (xs ! j) \<longrightarrow> key (xs ! j) \<noteq> key (xs ! i))"

definition kept_shares :: "('a \<Rightarrow> bool) \<Rightarrow> ('a \<Rightarrow> 'k) \<Rightarrow> 'a list \<Rightarrow> 'a list" where
  "kept_shares ok key xs = map ((!) xs) (filter (kept ok key xs) [0..<length xs])"

definition rejected_shares :: "('a \<Rightarrow> bool) \<Rightarrow> ('a \<Rightarrow> 'k) \<Rightarrow> 'a list \<Rightarrow> 'a list" where
  "rejected_shares ok key xs = map ((!) xs) (filter (\<lambda>i. \<not> kept ok key xs i) [0..<length xs])"

lemma kept_snoc: "i < length xs \<Longrightarrow> kept ok key (xs @ ys) i = kept ok key xs i"
  by (auto simp: kept_def nth_append)

lemma kept_last: "kept ok key (xs @ [x]) (length xs) \<longleftrightarrow> ok x \<and> (\<forall>y \<in> set xs. ok y \<longrightarrow> key y \<noteq> key x)"
  by (simp add: kept_def nth_append all_set_conv_all_nth)

lemma kept_indices_snoc:
  "map ((!) (xs @ [x])) (filter (\<lambda>i. P (kept ok key (xs @ [x]) i)) [0..<length xs])
    = map ((!) xs) (filter (\<lambda>i. P (kept ok key xs i)) [0..<length xs])"
proof -
  have "filter (\<lambda>i. P (kept ok key (xs @ [x]) i)) [0..<length xs] = filter (\<lambda>i. P (kept ok key xs i)) [0..<length xs]"
    by (rule filter_cong) (auto simp: kept_snoc)
  then show ?thesis by (auto simp: nth_append)
qed

lemma kept_shares_snoc:
  "kept_shares ok key (xs @ [x]) = kept_shares ok key xs
    @ (if ok x \<and> (\<forall>y \<in> set xs. ok y \<longrightarrow> key y \<noteq> key x) then [x] else [])"
  "rejected_shares ok key (xs @ [x]) = rejected_shares ok key xs
    @ (if ok x \<and> (\<forall>y \<in> set xs. ok y \<longrightarrow> key y \<noteq> key x) then [] else [x])"
  using kept_indices_snoc[where xs = xs and x = x and ok = ok and key = key and P = "\<lambda>b. b"]
    kept_indices_snoc[where xs = xs and x = x and ok = ok and key = key and P = Not]
  by (simp_all add: kept_shares_def rejected_shares_def kept_last)

lemma kept_shares_keys: "key ` set (kept_shares ok key xs) = key ` {x \<in> set xs. ok x}"
proof (induction xs rule: rev_induct)
  case (snoc x xs)
  have "{y \<in> set (xs @ [x]). ok y} = {y \<in> set xs. ok y} \<union> (if ok x then {x} else {})" by auto
  moreover have "key x \<in> key ` {y \<in> set xs. ok y}" if clash: "\<not> (\<forall>y \<in> set xs. ok y \<longrightarrow> key y \<noteq> key x)"
  proof -
    obtain y where "y \<in> set xs" "ok y" "key y = key x" using clash by blast
    then show ?thesis by (intro image_eqI[of _ _ y]) auto
  qed
  ultimately show ?case
    unfolding kept_shares_snoc set_append image_Un snoc.IH
    by (cases "\<forall>y \<in> set xs. ok y \<longrightarrow> key y \<noteq> key x") auto
qed (simp add: kept_shares_def)

lemma kept_shares_ok: "x \<in> set (kept_shares ok key xs) \<Longrightarrow> x \<in> set xs \<and> ok x"
  by (auto simp: kept_shares_def kept_def)

lemma kept_shares_distinct: "distinct (map key (kept_shares ok key xs))"
proof (induction xs rule: rev_induct)
  case (snoc x xs)
  have "key y \<noteq> key x" if "\<forall>y \<in> set xs. ok y \<longrightarrow> key y \<noteq> key x" "y \<in> set (kept_shares ok key xs)" for y
    using that kept_shares_ok[OF that(2)] by blast
  with snoc show ?case by (force simp: kept_shares_snoc)
qed (simp add: kept_shares_def)

lemma verify_shares_fold:
  "fold (verify_shares_step G cmb message dgroup) shs ({}, [], [])
    = (ds_participant ` {s \<in> set shs. share_valid G cmb message dgroup s},
       map (index_get \<circ> ds_participant) (rejected_shares (share_valid G cmb message dgroup) ds_participant shs),
       kept_shares (share_valid G cmb message dgroup) ds_participant shs)"
proof (induction shs rule: rev_induct)
  case Nil
  show ?case by (simp add: kept_shares_def rejected_shares_def)
next
  case (snoc s shs)
  let ?ok = "share_valid G cmb message dgroup"
  let ?accepted = "ds_participant ` {s \<in> set shs. ?ok s}"
  have acc: "ds_participant s \<in> ?accepted \<longleftrightarrow> \<not> (\<forall>y \<in> set shs. ?ok y \<longrightarrow> ds_participant y \<noteq> ds_participant s)"
    by (auto simp: image_iff)
  have set_snoc: "ds_participant ` {x \<in> set (shs @ [s]). ?ok x}
      = (if ?ok s then insert (ds_participant s) ?accepted else ?accepted)"
    by auto
  have step: "verify_shares_step G cmb message dgroup s (accepted, malformed, valid)
      = (if ds_participant s \<notin> accepted \<and> ?ok s
         then (insert (ds_participant s) accepted, malformed, valid @ [s])
         else (accepted, malformed @ [index_get (ds_participant s)], valid))" for accepted malformed valid
    by (auto simp: verify_shares_step_def share_valid_def split: option.splits sum.splits)
  show ?case
    unfolding fold_append comp_apply snoc fold_simps id_apply step set_snoc kept_shares_snoc
    using acc by (auto simp: insert_absorb)
qed

end
