(* ===== verification/Ehtdh_Threshold.thy ===== *)
theory Ehtdh_Threshold
  imports Ehtdh_Combine
begin

text \<open>
  What the threshold decryption of \<open>golden-ehtdh1/src/decrypt.rs\<close> achieves: shares made by their
  owners are accepted, two accepted shares with common commitments and different challenges reveal the secrets behind
  them, and right shares of a threshold of participants open what was sealed.
\<close>

section \<open>Right shares\<close>

text \<open>The share of a participant whose secrets are the values of the polynomials \<open>f\<close> and \<open>h\<close>.\<close>

definition right_share ::
  "('s::field, 'e::ab_group_add, 'z) golden_group_scheme \<Rightarrow> 's list \<Rightarrow> 's list \<Rightarrow> 'e \<Rightarrow> 'e
    \<Rightarrow> ('s, 'e) decryption_share \<Rightarrow> bool" where
  "right_share G f h R S share \<longleftrightarrow>
     ds_share share = group_mul G R (horner f (index_scalar (ds_participant share)))
       + group_mul G S (horner h (index_scalar (ds_participant share)))"

text \<open>A secret share is the one whose public keys the key set lists.\<close>

definition owns_share ::
  "('s, 'e, 'z) golden_group_scheme \<Rightarrow> 'e public_key_set \<Rightarrow> 's secret_share \<Rightarrow> bool" where
  "owns_share G pks secret \<longleftrightarrow>
     public_share_of pks (sec_participant secret)
       = Some \<lparr>pub_decryption = mul_generator G (sec_decryption secret),
               pub_context = mul_generator G (sec_context secret)\<rparr>"

lemma fold_plus_pairs: "fold (\<lambda>(a, b) p. p + g a b) xs (p :: 'e::comm_monoid_add) = p + (\<Sum>(a, b)\<leftarrow>xs. g a b)"
  by (induction xs arbitrary: p) (auto simp: add.assoc)

lemma sum_list_zip_map:
  "length xs = n \<Longrightarrow> (\<Sum>(a, b)\<leftarrow>zip xs (map l [0..<n]). g a b) = (\<Sum>i<n. g (xs ! i) (l i) :: 'e::comm_monoid_add)"
  by (simp add: sum_list_sum_nth atLeast0LessThan split_beta)

lemma participant_lagrange_coefficients_distinct:
  assumes "scalars_exist G ps" and "distinct (map index_scalar ps :: 's::field list)"
  shows "participant_lagrange_coefficients G ps
    = Inr (map (\<lambda>i. lagrange_basis (map index_scalar ps :: 's list) i 0) [0..<length ps])"
proof -
  have "collect (\<lambda>p. map_err Golden (to_scalar G p)) ps = Inr (map index_scalar ps)"
    using assms(1) by (intro collect_map) (simp add: scalars_exist_def)
  then show ?thesis
    by (simp add: participant_lagrange_coefficients_def lagrange_coefficients_distinct[OF assms(2)])
qed

text \<open>Interpolating right shares at zero gives the multiple by \<open>f 0\<close>; the context part cancels.\<close>

context prime_group begin

lemma interpolated_shares:
  assumes "distinct (map index_scalar ps :: 's list)" and "length f \<le> length ps" and "length h \<le> length ps"
    and "horner h 0 = (0 :: 's)"
  shows "(\<Sum>i<length ps. group_mul G (group_mul G R (horner f (index_scalar (ps ! i)))
            + group_mul G S (horner h (index_scalar (ps ! i)))) (lagrange_basis (map index_scalar ps) i 0))
    = group_mul G R (horner f 0)"
proof -
  let ?xs = "map index_scalar ps :: 's list"
  have f: "(\<Sum>i<length ps. horner cs (index_scalar (ps ! i)) * lagrange_basis ?xs i 0) = horner cs (0 :: 's)"
    if "length cs \<le> length ps" for cs
    using lagrange_interpolation[OF assms(1) polyfn_horner[of cs], of 0] that by simp
  have "(\<Sum>i<length ps. group_mul G (group_mul G R (horner f (index_scalar (ps ! i)))
            + group_mul G S (horner h (index_scalar (ps ! i)))) (lagrange_basis ?xs i 0))
      = group_mul G R (\<Sum>i<length ps. horner f (index_scalar (ps ! i)) * lagrange_basis ?xs i 0)
        + group_mul G S (\<Sum>i<length ps. horner h (index_scalar (ps ! i)) * lagrange_basis ?xs i 0)"
    by (simp add: mul_add_point mul_mul mul_sum sum.distrib)
  then show ?thesis by (simp add: f assms(2-4))
qed

end

lemma combine_verified_right:
  assumes "prime_group G" and "scalars_exist G (map ds_participant shs)"
    and "distinct (map index_scalar (map ds_participant shs) :: 's::field list)"
    and "\<forall>s \<in> set shs. right_share G f h (ephemeral_public message) S s"
    and "length f \<le> length shs" and "length h \<le> length shs" and "horner h 0 = (0 :: 's)"
  shows "combine_verified K G message shs = map_err CiphertextError (apply_payload_mask K G
    (encrypted_payload message) (ephemeral_public message) (group_mul G (ephemeral_public message) (horner f 0)))"
proof -
  let ?ps = "map ds_participant shs"
  let ?l = "\<lambda>i. lagrange_basis (map index_scalar ?ps :: 's list) i 0"
  have "fold (\<lambda>(share, lambda) dh_point. dh_point + group_mul G (ds_share share) lambda)
      (zip shs (map ?l [0..<length ?ps])) 0
    = (\<Sum>i<length shs. group_mul G (ds_share (shs ! i)) (?l i))"
    unfolding fold_plus_pairs by (simp add: sum_list_zip_map)
  also have "\<dots> = (\<Sum>i<length ?ps. group_mul G (group_mul G (ephemeral_public message) (horner f (index_scalar (?ps ! i)))
            + group_mul G S (horner h (index_scalar (?ps ! i)))) (?l i))"
    using assms(4) by (intro sum.cong) (auto simp: right_share_def)
  also have "\<dots> = group_mul G (ephemeral_public message) (horner f 0)"
    using assms(5-7) by (intro prime_group.interpolated_shares[OF assms(1,3)]) simp_all
  finally show ?thesis
    using participant_lagrange_coefficients_distinct[OF assms(2,3)] by (simp add: combine_verified_def Let_def)
qed

section \<open>Honest shares\<close>

lemma prove_decryption_share_Inr:
  "prove_decryption_share G sec ctx message dgroup k l = Inr share \<longleftrightarrow>
    (\<exists>c. share_challenge G
             \<lparr>sci_setup_context = ctx,
              sci_decryption_group = dgroup,
              sci_public_decryption_share = mul_generator G (sec_decryption sec),
              sci_public_context_share = mul_generator G (sec_context sec),
              sci_share = group_mul G (ephemeral_public message) (sec_decryption sec)
                  + group_mul G dgroup (sec_context sec),
              sci_public_decryption_commitment = mul_generator G k,
              sci_public_context_commitment = mul_generator G l,
              sci_share_commitment = group_mul G (ephemeral_public message) k + group_mul G dgroup l\<rparr> = Inr c
      \<and> share = \<lparr>ds_participant = sec_participant sec,
                 ds_share = group_mul G (ephemeral_public message) (sec_decryption sec)
                  + group_mul G dgroup (sec_context sec),
                 ds_challenge = c,
                 ds_decryption_response = k + c * sec_decryption sec,
                 ds_context_response = l + c * sec_context sec\<rparr>)"
  by (auto simp: prove_decryption_share_def Let_def)

context prime_group begin

lemma proved_share_verifies:
  assumes "prove_decryption_share G sec ctx message dgroup k l = Inr share"
  shows "verify_decryption_share G ctx dgroup message share
    \<lparr>pub_decryption = mul_generator G (sec_decryption sec), pub_context = mul_generator G (sec_context sec)\<rparr> = Inr ()"
proof -
  have "(group_mul G R (k + c * x) + group_mul G S (l + c * z)) - group_mul G (group_mul G R x + group_mul G S z) c
      = group_mul G R k + group_mul G S l" for R S c x z
    by (simp add: mul_add_scalar mul_add_point mul_mul mult.commute)
  moreover have "mul_generator G (k + c * x) - group_mul G (mul_generator G x) c = mul_generator G k" for k c x
    using schnorr_commitment_generator[of k x c] by (simp add: mult.commute)
  ultimately show ?thesis
    using assms by (auto simp: prove_decryption_share_Inr verify_decryption_share_def)
qed

end

lemma decrypt_share_InrE:
  assumes "decrypt_share_with_associated_data G R us rng ctx message dc ad = Some (Inr (share, rng'))"
  obtains dgroup k l where "associated_data message = ad" and "verify_ciphertext G message = Inr ()"
    and "decryption_group G ctx message dc = Inr dgroup"
    and "prove_decryption_share G (us_share us) ctx message dgroup k l = Inr share"
  using assms unfolding decrypt_share_with_associated_data_def
  by (auto simp: obind_eq_Inr bind_eq_Some_conv split: if_splits)

lemma decrypt_share_valid:
  assumes "prime_group G" and "decrypt_share_with_associated_data G R us rng ctx message dc ad = Some (Inr (share, rng'))"
    and "owns_share G (cmb_public_key_set cmb) (us_share us)" and "ctx = cmb_setup_context cmb"
  shows "\<exists>dgroup. decryption_group G ctx message dc = Inr dgroup \<and> share_valid G cmb message dgroup share
    \<and> ds_participant share = sec_participant (us_share us)
    \<and> ds_share share = group_mul G (ephemeral_public message) (sec_decryption (us_share us))
        + group_mul G dgroup (sec_context (us_share us))"
proof -
  obtain dgroup k l where dg: "decryption_group G ctx message dc = Inr dgroup"
    and pr: "prove_decryption_share G (us_share us) ctx message dgroup k l = Inr share"
    by (rule decrypt_share_InrE[OF assms(2)])
  from prime_group.proved_share_verifies[OF assms(1) pr] pr assms(3,4)
  have "share_valid G cmb message dgroup share"
    by (auto simp: share_valid_def owns_share_def prove_decryption_share_Inr)
  with dg pr show ?thesis by (auto simp: prove_decryption_share_Inr)
qed

text \<open>The loop of \<open>combine_selected\<close> accepts valid shares of distinct participants.\<close>

lemma selected_loop_valid:
  assumes "\<forall>s \<in> set shs. share_valid G cmb message dgroup s" and "distinct (map ds_participant shs)"
    and "\<forall>s \<in> set shs. ds_participant s \<notin> seen"
  shows "rfold (selected_step G cmb message dgroup) (seen, m) shs = Inr (seen \<union> ds_participant ` set shs, m)"
  using assms
proof (induction shs arbitrary: seen)
  case (Cons s shs)
  then have "selected_step G cmb message dgroup (seen, m) s = Inr (insert (ds_participant s) seen, m)"
    by (auto simp: selected_step_def share_valid_def)
  moreover have "rfold (selected_step G cmb message dgroup) (insert (ds_participant s) seen, m) shs
      = Inr (insert (ds_participant s) seen \<union> ds_participant ` set shs, m)"
    using Cons.prems by (intro Cons.IH) (auto simp: image_iff eq_commute[of "ds_participant s"])
  ultimately show ?case by simp
qed simp

lemma combine_selected_valid:
  assumes "verify_ciphertext G message = Inr ()" and "decryption_group G (cmb_setup_context cmb) message dc = Inr dgroup"
    and "\<forall>s \<in> set shs. share_valid G cmb message dgroup s" and "distinct (map ds_participant shs)"
  shows "combine_selected K G cmb message dc shs = combine_verified K G message shs"
  using selected_loop_valid[OF assms(3,4), of "{}" "[]"] assms(1,2) by (simp add: combine_selected_def)

section \<open>Opening what was sealed\<close>

text \<open>
  Key material: the key set lies on \<open>f\<close> and \<open>h\<close>, and the participants' scalars are usable and
  distinct.
\<close>

definition key_material ::
  "('s::field, 'e::ab_group_add, 'z) golden_group_scheme \<Rightarrow> 'e public_key_set \<Rightarrow> 's list \<Rightarrow> 's list \<Rightarrow> bool" where
  "key_material G pks f h \<longleftrightarrow>
     shares_on_polynomials G (pks_threshold pks) (pks_joint_public_key pks) (pks_public_shares pks) f h
     \<and> scalars_exist G (bt_keys (pks_public_shares pks))
     \<and> scalars_distinct TYPE('s) (bt_keys (pks_public_shares pks))
     \<and> 0 < pks_threshold pks"

lemma public_share_in: "public_share_of pks p = Some share \<Longrightarrow> (p, share) \<in> set (pks_public_shares pks)"
  by (auto simp: public_share_of_def bt_get_def dest: map_of_SomeD)

lemma public_key_set_material:
  assumes "prime_group G" and "bt_sorted shs" and "inj_on (to_scalar G) (set (bt_keys shs))"
    and "public_key_set_new G t joint shs = Inr pks"
  obtains f h :: "'s::field list" where "key_material (G :: ('s, 'e::ab_group_add, 'z) golden_group_scheme) pks f h"
    and "pks = \<lparr>pks_threshold = t, pks_joint_public_key = joint, pks_public_shares = shs\<rparr>"
proof -
  have nz: "0 < t" "t \<le> length shs"
    using assms(4) by (auto simp: public_key_set_new_def split: if_splits)
  then have "validate_public_shares G t joint shs = Inr ()"
    and pks: "pks = \<lparr>pks_threshold = t, pks_joint_public_key = joint, pks_public_shares = shs\<rparr>"
    using assms(4) by (auto simp: public_key_set_new_def split: if_splits)
  then obtain f h :: "'s list" where sc: "scalars_exist G (bt_keys shs)"
    and "shares_on_polynomials G t joint shs f h"
    unfolding validate_public_shares_Inr[OF assms(1,2) nz] by blast
  moreover have "distinct (map index_scalar (bt_keys shs) :: 's list)"
  proof -
    have "inj_on (index_scalar :: _ \<Rightarrow> 's) (set (bt_keys shs))"
      using assms(3) sc by (auto simp: inj_on_def scalars_exist_def)
    then show ?thesis
      using assms(2) by (simp add: distinct_map bt_sorted_def strict_sorted_iff)
  qed
  ultimately have "key_material G pks f h"
    using nz by (simp add: key_material_def pks scalars_distinct_def)
  then show ?thesis using pks that by blast
qed

lemma owned_share_right:
  assumes "prime_group G" and "key_material G pks f h" and "owns_share G pks secret"
    and "ds_participant share = sec_participant secret"
    and "ds_share share = group_mul G R (sec_decryption secret) + group_mul G S (sec_context secret)"
  shows "right_share G f h R S share"
proof -
  have "sec_decryption secret = horner f (index_scalar (sec_participant secret))
      \<and> sec_context secret = horner h (index_scalar (sec_participant secret))"
    using public_share_in[OF assms(3)[unfolded owns_share_def]] assms(2)
    by (auto simp: key_material_def shares_on_polynomials_def prime_group.mul_generator_inject[OF assms(1)])
  then show ?thesis using assms(4,5) by (simp add: right_share_def)
qed

lemma valid_participants:
  assumes "key_material G pks (f :: 's::field list) h" and "set ps \<subseteq> set (bt_keys (pks_public_shares pks))" and "distinct ps"
  shows "scalars_exist G ps \<and> distinct (map index_scalar ps :: 's list)"
proof -
  have "inj_on (index_scalar :: _ \<Rightarrow> 's) (set (bt_keys (pks_public_shares pks)))"
    using assms(1) by (simp add: key_material_def scalars_distinct_def distinct_map)
  then show ?thesis
    using assms by (auto simp: key_material_def scalars_exist_def distinct_map intro: inj_on_subset)
qed

lemma share_valid_participant:
  "share_valid G cmb message dgroup s \<Longrightarrow> ds_participant s \<in> set (bt_keys (pks_public_shares (cmb_public_key_set cmb)))"
  by (auto simp: share_valid_def public_share_of_def bt_get_dom)

text \<open>Right shares of a threshold of participants open a sealed payload.\<close>

lemma right_shares_open:
  assumes "prime_group G" and "key_material G pks (f :: 's::field list) h"
    and "sealed_as K G (pks_joint_public_key pks) r plaintext ad ct"
    and "set (map ds_participant shs) \<subseteq> set (bt_keys (pks_public_shares pks))" and "distinct (map ds_participant shs)"
    and "\<forall>s \<in> set shs. right_share G f h (ephemeral_public ct) S s" and "length shs = pks_threshold pks"
  shows "combine_verified K G ct shs = Inr plaintext"
proof -
  have km: "length f = pks_threshold pks" "length h = pks_threshold pks" "horner h 0 = 0"
    "pks_joint_public_key pks = mul_generator G (horner f 0)"
    using assms(2) by (auto simp: key_material_def shares_on_polynomials_def)
  have "combine_verified K G ct shs = map_err CiphertextError (apply_payload_mask K G
      (encrypted_payload ct) (ephemeral_public ct) (group_mul G (ephemeral_public ct) (horner f 0)))"
    using valid_participants[OF assms(2,4,5)] km assms(7)
    by (intro combine_verified_right[OF assms(1) _ _ assms(6)]) simp_all
  moreover have "group_mul G (mul_generator G r) (horner f 0) = group_mul G (pks_joint_public_key pks) r"
    by (simp add: km prime_group.mul_generator_mul[OF assms(1)] mult.commute)
  moreover have "apply_payload_mask K G (encrypted_payload ct) (mul_generator G r) (group_mul G (pks_joint_public_key pks) r)
      = Inr plaintext" and "ephemeral_public ct = mul_generator G r"
    using assms(3) by (auto simp: sealed_as_def intro: apply_payload_mask_involution)
  ultimately show ?thesis by simp
qed

lemma combine_exact_opens:
  assumes "prime_group G" and "key_material G pks f h"
    and "sealed_as K G (pks_joint_public_key pks) r plaintext ad ct" and "cmb_public_key_set cmb = pks"
    and "verify_ciphertext G ct = Inr ()" and "decryption_group G (cmb_setup_context cmb) ct dc = Inr dgroup"
    and "\<forall>s \<in> set shs. share_valid G cmb ct dgroup s \<and> right_share G f h (ephemeral_public ct) dgroup s"
    and "distinct (map ds_participant shs)" and "length shs = pks_threshold pks"
  shows "combine_exact_with_associated_data K G cmb ct dc ad shs = Inr plaintext"
proof -
  have valid: "\<forall>s \<in> set shs. share_valid G cmb ct dgroup s" using assms(7) by blast
  have "combine_exact K G cmb ct dc shs = combine_verified K G ct shs"
    using combine_selected_valid[OF assms(5,6) valid assms(8), of K] by (simp add: combine_exact_def assms(4,9))
  also have "\<dots> = Inr plaintext"
  proof (rule right_shares_open[OF assms(1-3) _ assms(8) _ assms(9)])
    show "set (map ds_participant shs) \<subseteq> set (bt_keys (pks_public_shares pks))"
      using valid by (auto dest!: share_valid_participant simp: assms(4))
    show "\<forall>s \<in> set shs. right_share G f h (ephemeral_public ct) dgroup s" using assms(7) by blast
  qed
  finally show ?thesis using assms(3) by (simp add: combine_exact_with_associated_data_def sealed_as_def)
qed

section \<open>Honest runs\<close>

text \<open>The share an owner makes is valid and right.\<close>

lemma honest_decryption:
  assumes "prime_group G" and "key_material G pks f h"
    and "cmb = \<lparr>cmb_public_key_set = pks, cmb_setup_context = ctx\<rparr>"
    and "decrypt_share_with_associated_data G R \<lparr>us_share = secret\<rparr> rng ctx ct dc ad = Some (Inr (share, rng'))"
    and "owns_share G pks secret" and "decryption_group G ctx ct dc = Inr dgroup"
  shows "share_valid G cmb ct dgroup share \<and> ds_participant share = sec_participant secret
    \<and> right_share G f h (ephemeral_public ct) dgroup share"
proof -
  have "owns_share G (cmb_public_key_set cmb) (us_share \<lparr>us_share = secret\<rparr>)" "ctx = cmb_setup_context cmb"
    using assms(5) by (simp_all add: assms(3))
  from decrypt_share_valid[OF assms(1,4) this] obtain dgroup' where "decryption_group G ctx ct dc = Inr dgroup'"
    and "share_valid G cmb ct dgroup' share" and p: "ds_participant share = sec_participant secret"
    and "ds_share share = group_mul G (ephemeral_public ct) (sec_decryption secret) + group_mul G dgroup' (sec_context secret)"
    by (simp only: unsealing_share.simps) blast
  with assms(6) have v: "share_valid G cmb ct dgroup share"
    and w: "ds_share share = group_mul G (ephemeral_public ct) (sec_decryption secret) + group_mul G dgroup (sec_context secret)"
    by simp_all
  from v p owned_share_right[OF assms(1,2,5) p w] show ?thesis by (intro conjI)
qed

text \<open>Shares made for a ciphertext by the owners of listed key shares, each with a generator state of its own.\<close>

definition shares_made ::
  "('s::field, 'e::ab_group_add, 'z) golden_hash_group_scheme \<Rightarrow> ('s, 'q) crypto_rng \<Rightarrow> 'e public_key_set \<Rightarrow> setup_context
    \<Rightarrow> ('s, 'e) ciphertext \<Rightarrow> bytes \<Rightarrow> bytes \<Rightarrow> ('s secret_share \<times> ('s, 'e) decryption_share) list \<Rightarrow> bool" where
  "shares_made G R pks ctx ct dc ad made \<longleftrightarrow>
     distinct (map (\<lambda>(secret, share). sec_participant secret) made)
     \<and> (\<forall>(secret, share) \<in> set made. owns_share G pks secret
          \<and> (\<exists>rng rng'. decrypt_share_with_associated_data G R \<lparr>us_share = secret\<rparr> rng ctx ct dc ad = Some (Inr (share, rng'))))"

text \<open>What holds in a run of key set, sealing, decryption shares and combiner.\<close>

lemma decryption_run:
  assumes "prime_group G" and "bt_sorted shs" and "inj_on (to_scalar G) (set (bt_keys shs))"
    and "public_key_set_new G t joint shs = Inr pks" and "combiner_new G pks ctx = Inr cmb"
    and "seal_bytes_with_associated_data K G R \<lparr>seal_joint_public_key = joint\<rparr> rng plaintext ad = Some (Inr (ct, rng'))"
    and "shares_made G R' pks ctx ct dc ad made" and "t \<le> length made"
  obtains f h r dgroup where "key_material G pks f h" and "sealed_as K G (pks_joint_public_key pks) r plaintext ad ct"
    and "pks_threshold pks = t" and "cmb_public_key_set cmb = pks" and "verify_ciphertext G ct = Inr ()"
    and "decryption_group G ctx ct dc = Inr dgroup" and "cmb_setup_context cmb = ctx"
    and "\<forall>(secret, share) \<in> set made. share_valid G cmb ct dgroup share \<and> ds_participant share = sec_participant secret
      \<and> right_share G f h (ephemeral_public ct) dgroup share"
proof -
  obtain f h where km: "key_material G pks f h"
    and pks: "pks = \<lparr>pks_threshold = t, pks_joint_public_key = joint, pks_public_shares = shs\<rparr>"
    by (rule public_key_set_material[OF assms(1-4)])
  have cmb: "cmb = \<lparr>cmb_public_key_set = pks, cmb_setup_context = ctx\<rparr>"
    using assms(5) by (auto simp: combiner_new_def)
  obtain r where sealed: "sealed_as K G (pks_joint_public_key pks) r plaintext ad ct"
    using seal_bytes_sealed_as[OF assms(6)] by (auto simp: pks)
  have "made \<noteq> []" using assms(8) km by (auto simp: key_material_def pks)
  then obtain secret share where mem: "(secret, share) \<in> set made" by (cases made) auto
  obtain dgroup where dg: "decryption_group G ctx ct dc = Inr dgroup" and ver: "verify_ciphertext G ct = Inr ()"
    using assms(7) mem by (auto simp: shares_made_def elim!: decrypt_share_InrE)
  have "share_valid G cmb ct dgroup share \<and> ds_participant share = sec_participant secret
      \<and> right_share G f h (ephemeral_public ct) dgroup share" if made: "(secret, share) \<in> set made" for secret share
  proof -
    obtain rng1 rng2 where
      d: "decrypt_share_with_associated_data G R' \<lparr>us_share = secret\<rparr> rng1 ctx ct dc ad = Some (Inr (share, rng2))"
      and own: "owns_share G pks secret" using assms(7) made unfolding shares_made_def by auto
    show ?thesis by (rule honest_decryption[OF assms(1) km cmb d own dg])
  qed
  then have all: "\<forall>(secret, share) \<in> set made. share_valid G cmb ct dgroup share \<and> ds_participant share = sec_participant secret
      \<and> right_share G f h (ephemeral_public ct) dgroup share" by blast
  show ?thesis by (rule that[OF km sealed _ _ ver dg _ all]) (simp_all add: pks cmb)
qed

lemma combine_quorum_enough:
  assumes "verify_ciphertext G ct = Inr ()" and "decryption_group G (cmb_setup_context cmb) ct dc = Inr dgroup"
    and "pks_threshold (cmb_public_key_set cmb) \<le> length (kept_shares (share_valid G cmb ct dgroup) ds_participant shs)"
  shows "combine_quorum K G cmb ct dc shs = combine_verified K G ct
    (take (pks_threshold (cmb_public_key_set cmb)) (kept_shares (share_valid G cmb ct dgroup) ds_participant shs))"
  using assms by (simp add: combine_quorum_def verify_shares_def verify_shares_fold)

text \<open>As many shares are kept as there are participants with a valid share.\<close>

lemma length_kept_shares: "length (kept_shares ok key xs) = card (key ` {x \<in> set xs. ok x})"
  using distinct_card[OF kept_shares_distinct[of key ok xs]] kept_shares_keys[of key ok xs] by simp

lemma all_kept_iff: "rejected_shares ok key xs = [] \<longleftrightarrow> kept_shares ok key xs = xs"
proof
  have "length (kept_shares ok key xs) + length (rejected_shares ok key xs) = length xs"
    using sum_length_filter_compl[of "kept ok key xs" "[0..<length xs]"] by (simp add: kept_shares_def rejected_shares_def)
  moreover assume "kept_shares ok key xs = xs"
  ultimately show "rejected_shares ok key xs = []" by simp
next
  assume "rejected_shares ok key xs = []"
  then have "filter (kept ok key xs) [0..<length xs] = [0..<length xs]"
    by (auto simp: rejected_shares_def filter_empty_conv intro: filter_True)
  then show "kept_shares ok key xs = xs" by (simp add: kept_shares_def map_nth)
qed

section \<open>The question behind a share's challenge\<close>

text \<open>The verifier's reconstruction of what the prover hashed.\<close>

definition verifier_question ::
  "('s::field, 'e::ab_group_add, 'z) golden_group_scheme \<Rightarrow> setup_context \<Rightarrow> 'e \<Rightarrow> ('s, 'e) ciphertext
    \<Rightarrow> ('s, 'e) decryption_share \<Rightarrow> 'e public_share \<Rightarrow> 'e share_challenge_inputs" where
  "verifier_question G ctx S message share public =
     \<lparr>sci_setup_context = ctx, sci_decryption_group = S,
      sci_public_decryption_share = pub_decryption public, sci_public_context_share = pub_context public,
      sci_share = ds_share share,
      sci_public_decryption_commitment =
        mul_generator G (ds_decryption_response share) - group_mul G (pub_decryption public) (ds_challenge share),
      sci_public_context_commitment =
        mul_generator G (ds_context_response share) - group_mul G (pub_context public) (ds_challenge share),
      sci_share_commitment =
        (group_mul G (ephemeral_public message) (ds_decryption_response share) + group_mul G S (ds_context_response share))
        - group_mul G (ds_share share) (ds_challenge share)\<rparr>"

lemma verify_decryption_share_iff:
  "verify_decryption_share G ctx S message share public = Inr () \<longleftrightarrow>
    share_challenge G (verifier_question G ctx S message share public) = Inr (ds_challenge share)"
  by (auto simp: verify_decryption_share_def verifier_question_def)

lemma verifier_question_sha256:
  "verifier_question (G\<lparr>sha256 := h\<rparr>) ctx S message share public = verifier_question G ctx S message share public"
  by (simp add: verifier_question_def mul_generator_def)

context prime_group begin

lemma response_difference:
  assumes "mul_generator G a' - group_mul G (mul_generator G x) c' = mul_generator G a - group_mul G (mul_generator G x) c"
  shows "a - a' = (c - c') * x"
proof -
  have "mul_generator G (a' - x * c') = mul_generator G (a - x * c)"
    using assms by (simp only: mul_generator_mul mul_generator_diff)
  then have "a' - x * c' = a - x * c" by (simp only: mul_generator_inject)
  then show ?thesis by (simp add: algebra_simps)
qed

text \<open>The exponent that two responses to the same question give.\<close>

lemma response_extracts:
  assumes "mul_generator G a' - group_mul G X c' = mul_generator G a - group_mul G X c" and "c \<noteq> c'"
  shows "X = mul_generator G ((a - a') / (c - c'))"
proof -
  obtain x where X: "X = mul_generator G x" by (rule mul_generatorE)
  have "a - a' = (c - c') * x" using assms(1) unfolding X by (rule response_difference)
  then show ?thesis using assms(2) by (simp add: X)
qed

lemma same_question_extracts:
  assumes "verifier_question G ctx S message share' public = verifier_question G ctx S message share public"
    and "ds_challenge share \<noteq> ds_challenge share'"
  defines "x \<equiv> (ds_decryption_response share - ds_decryption_response share') / (ds_challenge share - ds_challenge share')"
    and "z \<equiv> (ds_context_response share - ds_context_response share') / (ds_challenge share - ds_challenge share')"
  shows "pub_decryption public = mul_generator G x \<and> pub_context public = mul_generator G z
    \<and> ds_share share = group_mul G (ephemeral_public message) x + group_mul G S z"
proof -
  let ?R = "ephemeral_public message" and ?c = "ds_challenge share" and ?c' = "ds_challenge share'"
  have W: "ds_share share' = ds_share share"
    and A: "mul_generator G (ds_decryption_response share') - group_mul G (pub_decryption public) ?c'
      = mul_generator G (ds_decryption_response share) - group_mul G (pub_decryption public) ?c"
    and B: "mul_generator G (ds_context_response share') - group_mul G (pub_context public) ?c'
      = mul_generator G (ds_context_response share) - group_mul G (pub_context public) ?c"
    and C: "group_mul G ?R (ds_decryption_response share') + group_mul G S (ds_context_response share')
        - group_mul G (ds_share share') ?c'
      = group_mul G ?R (ds_decryption_response share) + group_mul G S (ds_context_response share)
        - group_mul G (ds_share share) ?c"
    using assms(1) unfolding verifier_question_def share_challenge_inputs.ext_inject by blast+
  have xz: "ds_decryption_response share - ds_decryption_response share' = x * (?c - ?c')"
    "ds_context_response share - ds_context_response share' = z * (?c - ?c')"
    using assms(2) by (simp_all add: x_def z_def)
  have "group_mul G ?R (ds_decryption_response share - ds_decryption_response share')
      + group_mul G S (ds_context_response share - ds_context_response share')
      = group_mul G (ds_share share) (?c - ?c')"
    using C unfolding W mul_diff_scalar by (simp add: algebra_simps)
  then have "group_mul G (group_mul G ?R x + group_mul G S z) (?c - ?c') = group_mul G (ds_share share) (?c - ?c')"
    unfolding xz by (simp add: mul_add_point mul_mul)
  then have "group_mul G (group_mul G ?R x + group_mul G S z - ds_share share) (?c - ?c') = 0"
    by (simp only: mul_diff_point right_minus_eq)
  then have "ds_share share = group_mul G ?R x + group_mul G S z" using assms(2) by simp
  with response_extracts[OF A assms(2)] response_extracts[OF B assms(2)] show ?thesis
    by (simp add: x_def z_def)
qed

end

section \<open>A small run\<close>

lemma tiny_hash_key_set: "public_key_set_new tiny_hash_group 2 11 tiny_public_shares = Inr tiny_key_set"
proof -
  have "shares_on_polynomials tiny_hash_group 2 11 tiny_public_shares [11, 7] [0, 13]"
    by (simp add: shares_on_polynomials_def tiny_public_shares_def tiny_eval)
  moreover have "scalars_exist tiny_hash_group (bt_keys tiny_public_shares)"
    by (simp add: scalars_exist_def)
  moreover have "length tiny_public_shares = 3" by (simp add: tiny_public_shares_def)
  ultimately have "validate_public_shares tiny_hash_group 2 11 tiny_public_shares = Inr ()"
    by (subst validate_public_shares_Inr[OF tinyh.prime_group_axioms tiny_public_shares_sorted]) (auto simp: tiny_eval)
  then show ?thesis
    by (simp add: public_key_set_new_def tiny_key_set_def is_identity_def tiny_public_shares_def tiny_eval)
qed

definition tiny_setup :: setup_context where
  "tiny_setup = \<lparr>ctx_backend_id = ascii ''golden-test-tiny-v1'', ctx_threshold = 2, ctx_registry_root = replicate 32 1,
     ctx_participants = [ParticipantIndex 1, ParticipantIndex 2, ParticipantIndex 3],
     ctx_decryption_session_id = SessionId (replicate 32 2), ctx_context_session_id = SessionId (replicate 32 1),
     ctx_decryption_transcript_root = replicate 32 3, ctx_context_transcript_root = replicate 32 4, ctx_epoch = replicate 32 5\<rparr>"

definition tiny_combiner :: "tiny combiner" where
  "tiny_combiner = \<lparr>cmb_public_key_set = tiny_key_set, cmb_setup_context = tiny_setup\<rparr>"

definition tiny_secret :: "u32 \<Rightarrow> tiny secret_share" where
  "tiny_secret i = \<lparr>sec_participant = ParticipantIndex i, sec_decryption = reduce (11 + 7 * unat i), sec_context = reduce (13 * unat i)\<rparr>"

definition tiny_share :: "u32 \<Rightarrow> (tiny, tiny) decryption_share" where
  "tiny_share i = \<lparr>ds_participant = ParticipantIndex i, ds_share = reduce (33 + 34 * unat i), ds_challenge = 1,
     ds_decryption_response = reduce (14 + 7 * unat i), ds_context_response = reduce (5 + 13 * unat i)\<rparr>"

lemma tiny_combiner_new: "combiner_new tiny_hash_group tiny_key_set tiny_setup = Inr tiny_combiner"
proof -
  have "ctx_context_session_id tiny_setup = derive_context_session_id tiny_hash_group (ctx_decryption_session_id tiny_setup)"
    by (simp add: tiny_setup_def derive_context_session_id_def tb_root_def tiny_hash_def)
  then have "validate_combiner_setup tiny_hash_group tiny_key_set tiny_setup = Inr ()"
    by (simp add: validate_combiner_setup_def) (simp add: tiny_setup_def tiny_key_set_def)
  then show ?thesis by (simp add: combiner_new_def tiny_combiner_def)
qed

lemma tiny_share_hashes [simp]:
  "decryption_group tiny_hash_group ctx m dc = Inr 1" "share_challenge tiny_hash_group inputs = Inr 1"
  by (simp_all add: decryption_group_def share_challenge_def hash_to_nonzero_scalar_def Let_def)

lemma tiny_ciphertext_verifies: "verify_ciphertext tiny_hash_group tiny_ciphertext = Inr ()"
  by (simp add: verify_ciphertext_def tiny_ciphertext_def is_identity_def tiny_eval)

lemma tiny_decrypt_share:
  assumes "i \<in> {1, 2, 3}"
  shows "decrypt_share_with_associated_data tiny_hash_group tiny_cycle_rng \<lparr>us_share = tiny_secret i\<rparr> 0 tiny_setup
      tiny_ciphertext dc [9] = Some (Inr (tiny_share i, 3))"
proof -
  have "prove_decryption_share tiny_hash_group (tiny_secret i) tiny_setup tiny_ciphertext 1 3 5 = Inr (tiny_share i)"
    using assms by (auto simp: prove_decryption_share_def tiny_secret_def tiny_share_def tiny_ciphertext_def tiny_eval)
  moreover have "associated_data tiny_ciphertext = [9]" by (simp add: tiny_ciphertext_def)
  ultimately show ?thesis
    by (simp add: decrypt_share_with_associated_data_def tiny_ciphertext_verifies tiny_samples)
qed

lemma tiny_owns: "i \<in> {1, 2, 3} \<Longrightarrow> owns_share tiny_hash_group tiny_key_set (tiny_secret i)"
  by (auto simp: owns_share_def public_share_of_def tiny_secret_def tiny_key_set_def tiny_public_shares_def
      bt_get_def)

lemma tiny_inj: "inj_on (to_scalar tiny_hash_group) (set (bt_keys tiny_public_shares))"
  by (simp add: inj_on_def tiny_eval)

lemma tiny_shares_made:
  "shares_made tiny_hash_group tiny_cycle_rng tiny_key_set tiny_setup tiny_ciphertext dc [9]
    [(tiny_secret 3, tiny_share 3), (tiny_secret 1, tiny_share 1)]"
  using tiny_decrypt_share[of 1 dc] tiny_decrypt_share[of 3 dc] tiny_owns[of 1] tiny_owns[of 3]
  by (auto simp: shares_made_def) (simp add: tiny_secret_def)

section \<open>Properties\<close>

text \<open>
  C10. Threshold decryption: a payload sealed under the joint key of an accepted key set is opened by
  \<open>combine_exact\<close> from the decryption shares that any \<open>threshold\<close> of the listed participants make
  for it, whichever participants, nonces and order of shares: the combiner returns the plaintext.
\<close>

theorem threshold_decryption:
  assumes "hash_group G" and "bt_sorted shs" and "inj_on (to_scalar G) (set (bt_keys shs))"
    and "public_key_set_new G t joint shs = Inr pks" and "combiner_new G pks ctx = Inr cmb"
    and "seal_bytes_with_associated_data K G R \<lparr>seal_joint_public_key = joint\<rparr> rng plaintext ad = Some (Inr (ct, rng'))"
    and "shares_made G R' pks ctx ct dc ad made" and "length made = t"
  shows "combine_exact_with_associated_data K G cmb ct dc ad (map snd made) = Inr plaintext"
proof -
  have G: "prime_group G" using assms(1) by (simp add: hash_group_def)
  obtain f h r dgroup where km: "key_material G pks f h" and sealed: "sealed_as K G (pks_joint_public_key pks) r plaintext ad ct"
    and t: "pks_threshold pks = t" and cmb: "cmb_public_key_set cmb = pks" "cmb_setup_context cmb = ctx"
    and ver: "verify_ciphertext G ct = Inr ()" and dg: "decryption_group G ctx ct dc = Inr dgroup"
    and made: "\<forall>(secret, share) \<in> set made. share_valid G cmb ct dgroup share \<and> ds_participant share = sec_participant secret
      \<and> right_share G f h (ephemeral_public ct) dgroup share"
    by (rule decryption_run[OF G assms(2-7)]) (simp_all add: assms(8))
  have parts: "map ds_participant (map snd made) = map (\<lambda>(secret, share). sec_participant secret) made"
    using made by (auto simp: split_beta)
  have dist: "distinct (map ds_participant (map snd made))"
    unfolding parts using assms(7) by (simp add: shares_made_def)
  have "decryption_group G (cmb_setup_context cmb) ct dc = Inr dgroup" using dg by (simp add: cmb)
  then show ?thesis
    using made assms(8) by (intro combine_exact_opens[OF G km sealed cmb(1) ver _ _ dist]) (auto simp: t)
qed

lemma threshold_decryption_witness:
  "combine_exact_with_associated_data tiny_cipher tiny_hash_group tiny_combiner tiny_ciphertext [1] [9] [tiny_share 3, tiny_share 1]
    = Inr [20, 21]"
  using threshold_decryption[OF tinyh.hash_group_axioms tiny_public_shares_sorted tiny_inj tiny_hash_key_set
      tiny_combiner_new tiny_seals tiny_shares_made, of "[1]"] by simp

lemma kept_shares_open:
  assumes "prime_group G" and "key_material G pks (f :: 's::field list) h"
    and "sealed_as K G (pks_joint_public_key pks) r plaintext ad ct" and "cmb_public_key_set cmb = pks"
    and "\<forall>s \<in> set received. share_valid G cmb ct S s \<longrightarrow> right_share G f h (ephemeral_public ct) S s"
    and "t = pks_threshold pks" and "t \<le> length (kept_shares (share_valid G cmb ct S) ds_participant received)"
  shows "combine_verified K G ct (take t (kept_shares (share_valid G cmb ct S) ds_participant received)) = Inr plaintext"
proof -
  let ?kept = "kept_shares (share_valid G cmb ct S) ds_participant received"
  have sel: "s \<in> set received \<and> share_valid G cmb ct S s" if "s \<in> set (take t ?kept)" for s
    using kept_shares_ok[OF in_set_takeD[OF that]] .
  then have "\<forall>s \<in> set (take t ?kept). right_share G f h (ephemeral_public ct) S s" using assms(5) by blast
  moreover have "set (map ds_participant (take t ?kept)) \<subseteq> set (bt_keys (pks_public_shares pks))"
    using share_valid_participant sel by (fastforce simp: assms(4))
  moreover have "distinct (map ds_participant (take t ?kept))"
    using distinct_take[OF kept_shares_distinct[of ds_participant "share_valid G cmb ct S" received]] by (simp add: take_map)
  ultimately show ?thesis
    using assms(6,7) by (intro right_shares_open[OF assms(1-3), where S = S]) simp_all
qed

text \<open>
  A share that passes the check although it is not \<open>x R + z S\<close> for the secrets behind its participant's public keys.
  Its prover answered the only challenge that its commitments have an answer to, and the hash returned just that.
\<close>

definition lucky_forgery ::
  "('s::field, 'e::ab_group_add, 'z) golden_group_scheme \<Rightarrow> 'e combiner \<Rightarrow> ('s, 'e) ciphertext \<Rightarrow> 'e \<Rightarrow> ('s, 'e) decryption_share \<Rightarrow> bool" where
  "lucky_forgery G cmb ct S share \<longleftrightarrow> share_valid G cmb ct S share
     \<and> (\<exists>public. public_share_of (cmb_public_key_set cmb) (ds_participant share) = Some public
        \<and> (\<forall>x z. pub_decryption public = mul_generator G x \<and> pub_context public = mul_generator G z \<longrightarrow>
             ds_share share \<noteq> group_mul G (ephemeral_public ct) x + group_mul G S z)
        \<and> (\<forall>share'. verifier_question G (cmb_setup_context cmb) S ct share' public
               = verifier_question G (cmb_setup_context cmb) S ct share public \<longrightarrow>
             ds_challenge share' = ds_challenge share))"

lemma valid_share_right:
  assumes "prime_group G" and "key_material G (cmb_public_key_set cmb) f h" and "share_valid G cmb ct S share"
    and "\<not> lucky_forgery G cmb ct S share"
  shows "right_share G f h (ephemeral_public ct) S share"
proof -
  obtain public where public: "public_share_of (cmb_public_key_set cmb) (ds_participant share) = Some public"
    using assms(3) by (auto simp: share_valid_def)
  then have keys: "pub_decryption public = mul_generator G (horner f (index_scalar (ds_participant share)))"
    "pub_context public = mul_generator G (horner h (index_scalar (ds_participant share)))"
    using public_share_in[OF public] assms(2) by (auto simp: key_material_def shares_on_polynomials_def)
  show ?thesis
  proof (rule ccontr)
    assume wrong: "\<not> right_share G f h (ephemeral_public ct) S share"
    have no: "ds_share share \<noteq> group_mul G (ephemeral_public ct) x + group_mul G S z"
      if "pub_decryption public = mul_generator G x" "pub_context public = mul_generator G z" for x z
      using that wrong by (simp add: keys prime_group.mul_generator_inject[OF assms(1)] right_share_def)
    have "ds_challenge share' = ds_challenge share"
      if "verifier_question G (cmb_setup_context cmb) S ct share' public = verifier_question G (cmb_setup_context cmb) S ct share public" for share'
      using prime_group.same_question_extracts[OF assms(1) that] no by metis
    with assms(3,4) public no show False unfolding lucky_forgery_def by blast
  qed
qed

text \<open>
  C11. A quorum search opens the payload as soon as \<open>threshold\<close> participants have contributed a share, whatever else
  it is given: repeated, malformed and unknown shares before, between and after them do not prevent it, unless
  one of the received shares is a lucky forgery: it passes the check of its proof although it is not of the form \<open>x R + z S\<close>
  for the secrets behind its participant's public keys, because the challenge hash returned the one value that its
  commitments have an answer to.
\<close>

theorem quorum_decryption:
  assumes "hash_group G" and "bt_sorted shs" and "inj_on (to_scalar G) (set (bt_keys shs))"
    and "public_key_set_new G t joint shs = Inr pks" and "combiner_new G pks ctx = Inr cmb"
    and "seal_bytes_with_associated_data K G R \<lparr>seal_joint_public_key = joint\<rparr> rng plaintext ad = Some (Inr (ct, rng'))"
    and "shares_made G R' pks ctx ct dc ad made" and "t \<le> length made" and "snd ` set made \<subseteq> set received"
  shows "combine_quorum_with_associated_data K G cmb ct dc ad received = Inr plaintext
    \<or> (\<exists>dgroup. decryption_group G ctx ct dc = Inr dgroup \<and> (\<exists>share \<in> set received. lucky_forgery G cmb ct dgroup share))"
proof -
  have G: "prime_group G" using assms(1) by (simp add: hash_group_def)
  obtain f h r dgroup where km: "key_material G pks f h" and sealed: "sealed_as K G (pks_joint_public_key pks) r plaintext ad ct"
    and t: "pks_threshold pks = t" and cmb: "cmb_public_key_set cmb = pks" "cmb_setup_context cmb = ctx"
    and ver: "verify_ciphertext G ct = Inr ()" and dg: "decryption_group G ctx ct dc = Inr dgroup"
    and made: "\<forall>(secret, share) \<in> set made. share_valid G cmb ct dgroup share \<and> ds_participant share = sec_participant secret
      \<and> right_share G f h (ephemeral_public ct) dgroup share"
    by (rule decryption_run[OF G assms(2-8)])
  show ?thesis
  proof (cases "\<exists>share \<in> set received. lucky_forgery G cmb ct dgroup share")
    case False
    let ?ok = "share_valid G cmb ct dgroup"
    let ?kept = "kept_shares ?ok ds_participant received"
    have "(\<lambda>(secret, share). sec_participant secret) ` set made \<subseteq> ds_participant ` {s \<in> set received. ?ok s}"
      using made assms(9) by (force simp: image_iff)
    from card_mono[OF _ this] have "length made \<le> length ?kept"
      using distinct_card[of "map (\<lambda>(secret, share). sec_participant secret) made"] assms(7)
      by (simp add: length_kept_shares shares_made_def)
    then have enough: "pks_threshold (cmb_public_key_set cmb) \<le> length ?kept" using assms(8) by (simp add: cmb t)
    have right: "\<forall>s \<in> set received. ?ok s \<longrightarrow> right_share G f h (ephemeral_public ct) dgroup s"
      using False valid_share_right[OF G km[folded cmb(1)]] by blast
    have "combine_verified K G ct (take t ?kept) = Inr plaintext"
      by (rule kept_shares_open[OF G km sealed cmb(1) right]) (use enough in \<open>simp_all add: cmb t\<close>)
    then have "combine_quorum K G cmb ct dc received = Inr plaintext"
      using combine_quorum_enough[OF ver _ enough, of dc K] dg by (simp add: cmb t)
    then show ?thesis
      using sealed by (simp add: combine_quorum_with_associated_data_def sealed_as_def)
  qed (use dg in blast)
qed

definition tiny_received :: "(tiny, tiny) decryption_share list" where
  "tiny_received = [(tiny_share 2)\<lparr>ds_challenge := 2\<rparr>, tiny_share 3, tiny_share 9, tiny_share 3, tiny_share 1]"

lemma tiny_received_valid:
  assumes "share \<in> set tiny_received" and "share_valid tiny_hash_group tiny_combiner tiny_ciphertext dgroup share"
  shows "share \<in> {tiny_share 1, tiny_share 3}"
proof -
  have "\<not> share_valid tiny_hash_group tiny_combiner tiny_ciphertext dgroup ((tiny_share 2)\<lparr>ds_challenge := 2\<rparr>)"
    by (auto simp: share_valid_def verify_decryption_share_def tiny_eval)
  moreover have "\<not> share_valid tiny_hash_group tiny_combiner tiny_ciphertext dgroup (tiny_share 9)"
    by (auto simp: share_valid_def public_share_of_def tiny_combiner_def tiny_key_set_def tiny_share_def
        tiny_public_shares_def bt_get_def)
  ultimately show ?thesis using assms by (auto simp: tiny_received_def)
qed

lemma tiny_share_right:
  assumes "i \<in> {1, 3}"
  shows "\<not> lucky_forgery tiny_hash_group tiny_combiner tiny_ciphertext 1 (tiny_share i)"
proof
  assume "lucky_forgery tiny_hash_group tiny_combiner tiny_ciphertext 1 (tiny_share i)"
  moreover have "public_share_of (cmb_public_key_set tiny_combiner) (ds_participant (tiny_share i))
      = Some \<lparr>pub_decryption = mul_generator tiny_hash_group (sec_decryption (tiny_secret i)),
              pub_context = mul_generator tiny_hash_group (sec_context (tiny_secret i))\<rparr>"
    using tiny_owns[of i] assms by (auto simp: owns_share_def tiny_combiner_def tiny_secret_def tiny_share_def)
  ultimately have "ds_share (tiny_share i) \<noteq> group_mul tiny_hash_group (ephemeral_public tiny_ciphertext) (sec_decryption (tiny_secret i))
      + group_mul tiny_hash_group 1 (sec_context (tiny_secret i))"
    unfolding lucky_forgery_def by (metis option.inject public_share.select_convs(1,2))
  then show False using assms by (auto simp: tiny_secret_def tiny_share_def tiny_ciphertext_def tiny_eval)
qed

lemma quorum_decryption_witness:
  "combine_quorum_with_associated_data tiny_cipher tiny_hash_group tiny_combiner tiny_ciphertext [1] [9] tiny_received
    = Inr [20, 21]"
proof -
  have sub: "snd ` set [(tiny_secret 3, tiny_share 3), (tiny_secret 1, tiny_share 1)] \<subseteq> set tiny_received"
    by (simp add: tiny_received_def)
  have "\<not> lucky_forgery tiny_hash_group tiny_combiner tiny_ciphertext 1 share" if "share \<in> set tiny_received" for share
    using tiny_received_valid[OF that, of 1] tiny_share_right[of 1] tiny_share_right[of 3] by (auto simp: lucky_forgery_def)
  then show ?thesis
    using quorum_decryption[OF tinyh.hash_group_axioms tiny_public_shares_sorted tiny_inj tiny_hash_key_set
        tiny_combiner_new tiny_seals tiny_shares_made _ sub, of "[1]"] by auto
qed

text \<open>
  C16. The loop of \<open>verify_shares\<close> refines an abstract choice: the accepted shares are those that pass
  the check and are the first of their participant to do so, in input order, and the malformed list
  names the participants of all others, in input order. Hence every participant with a valid share
  is represented by exactly one accepted share.
\<close>

theorem verify_shares_refines:
  "verify_shares G cmb message dgroup received =
     (kept_shares (share_valid G cmb message dgroup) ds_participant received,
      map (index_get \<circ> ds_participant) (rejected_shares (share_valid G cmb message dgroup) ds_participant received))
   \<and> distinct (map ds_participant (fst (verify_shares G cmb message dgroup received)))
   \<and> ds_participant ` set (fst (verify_shares G cmb message dgroup received))
     = ds_participant ` {share \<in> set received. share_valid G cmb message dgroup share}"
  by (simp add: verify_shares_def verify_shares_fold kept_shares_distinct kept_shares_keys)

text \<open>
  C17. When fewer participants than the threshold contributed a valid share, a quorum search fails,
  and the error tells why: if some share was rejected it lists the participants of the rejected
  shares, otherwise it reports how many shares were provided.
\<close>

theorem quorum_failure:
  assumes "verify_ciphertext G ct = Inr ()" and "decryption_group G (cmb_setup_context cmb) ct dc = Inr dgroup"
    and "card (ds_participant ` {s \<in> set received. share_valid G cmb ct dgroup s}) < pks_threshold (cmb_public_key_set cmb)"
  shows "combine_quorum K G cmb ct dc received =
    (if kept_shares (share_valid G cmb ct dgroup) ds_participant received = received
     then Inl (InsufficientShares (pks_threshold (cmb_public_key_set cmb)) (length received))
     else Inl (MalformedShares (map (index_get \<circ> ds_participant)
            (rejected_shares (share_valid G cmb ct dgroup) ds_participant received))))"
  using assms all_kept_iff[of "share_valid G cmb ct dgroup" ds_participant received]
  by (auto simp: combine_quorum_def verify_shares_def verify_shares_fold length_kept_shares[symmetric])

lemma quorum_failure_witness:
  "combine_quorum tiny_cipher tiny_hash_group tiny_combiner tiny_ciphertext [1] [tiny_share 9] = Inl (MalformedShares [9])"
proof -
  have "\<not> share_valid tiny_hash_group tiny_combiner tiny_ciphertext 1 (tiny_share 9)"
    by (auto simp: share_valid_def public_share_of_def tiny_combiner_def tiny_key_set_def tiny_share_def
        tiny_public_shares_def bt_get_def)
  moreover from this have none: "{s \<in> set [tiny_share 9]. share_valid tiny_hash_group tiny_combiner tiny_ciphertext 1 s} = {}"
    by auto
  moreover have "pks_threshold (cmb_public_key_set tiny_combiner) = 2" "index_get (ds_participant (tiny_share 9)) = 9"
    by (simp_all add: tiny_combiner_def tiny_key_set_def tiny_share_def)
  ultimately show ?thesis
    using quorum_failure[OF tiny_ciphertext_verifies, of tiny_combiner "[1]" 1 "[tiny_share 9]" tiny_cipher]
    unfolding none by (simp add: kept_shares_def rejected_shares_def kept_def)
qed

text \<open>
  C15. Soundness of a decryption share by rewinding: when two accepted proofs put the same question to the challenge
  hash, under hash functions that answer it differently, the quotients of their differences in the responses by the
  difference in the challenges are the secrets behind the participant's two public keys, and the share is
  \<open>x R + z S\<close> for these secrets.
\<close>

theorem decryption_share_extracts:
  assumes "prime_group G" and "verify_decryption_share G ctx S message share public = Inr ()"
    and "verify_decryption_share (G\<lparr>sha256 := h\<rparr>) ctx S message share' public = Inr ()"
    and "verifier_question G ctx S message share' public = verifier_question G ctx S message share public"
    and "share_challenge (G\<lparr>sha256 := h\<rparr>) (verifier_question G ctx S message share public)
      \<noteq> share_challenge G (verifier_question G ctx S message share public)"
  defines "x \<equiv> (ds_decryption_response share - ds_decryption_response share') / (ds_challenge share - ds_challenge share')"
    and "z \<equiv> (ds_context_response share - ds_context_response share') / (ds_challenge share - ds_challenge share')"
  shows "pub_decryption public = mul_generator G x \<and> pub_context public = mul_generator G z
    \<and> ds_share share = group_mul G (ephemeral_public message) x + group_mul G S z"
proof -
  have "ds_challenge share \<noteq> ds_challenge share'"
    using assms(2-5) by (auto simp: verify_decryption_share_iff verifier_question_sha256)
  from prime_group.same_question_extracts[OF assms(1,4) this] show ?thesis
    unfolding x_def z_def .
qed

definition tiny_forged :: "(tiny, tiny) decryption_share" where
  "tiny_forged = (tiny_share 1)\<lparr>ds_challenge := 2, ds_decryption_response := 39, ds_context_response := 31\<rparr>"

lemma decryption_share_extracts_witness:
  "(18 :: tiny) = (21 - 39) / (1 - 2) \<and> 13 = (18 - 31) / (1 - 2 :: tiny)
    \<and> ds_share (tiny_share 1) = 3 * ((21 - 39) / (1 - 2)) + 1 * ((18 - 31) / (1 - 2))"
proof -
  let ?H = "tiny_hash_group\<lparr>sha256 := \<lambda>_. replicate 32 2\<rparr>"
  let ?public = "\<lparr>pub_decryption = 18 :: tiny, pub_context = 13\<rparr>"
  have other: "share_challenge ?H inputs = Inr 2" for inputs :: "tiny share_challenge_inputs"
  proof -
    have "hash_blocks 1 ?H seed 0 [] = replicate 32 2" for seed
      unfolding One_nat_def by simp
    then have "repr_try_from (repr_bytes ?H) (hash_candidate ?H d m 0) = Inr [2]" for d m
      by (simp add: hash_candidate_def Let_def repr_try_from_def take_replicate)
    then have "hash_to_scalar ?H d m = Inr 2" for d m
      by (rule hash_to_scalar_first) (simp_all add: tiny_from_repr_def tiny_eval)
    then show ?thesis by (simp add: share_challenge_def hash_to_nonzero_scalar_def Let_def)
  qed
  let ?x = "(ds_decryption_response (tiny_share 1) - ds_decryption_response tiny_forged) / (ds_challenge (tiny_share 1) - ds_challenge tiny_forged)"
    and ?z = "(ds_context_response (tiny_share 1) - ds_context_response tiny_forged) / (ds_challenge (tiny_share 1) - ds_challenge tiny_forged)"
  have extracted: "pub_decryption ?public = mul_generator tiny_hash_group ?x \<and> pub_context ?public = mul_generator tiny_hash_group ?z
    \<and> ds_share (tiny_share 1) = group_mul tiny_hash_group (ephemeral_public tiny_ciphertext) ?x + group_mul tiny_hash_group 1 ?z"
  proof (rule decryption_share_extracts[OF tinyh.prime_group_axioms])
    show "verify_decryption_share tiny_hash_group tiny_setup 1 tiny_ciphertext (tiny_share 1) ?public = Inr ()"
      by (simp add: verify_decryption_share_iff tiny_share_def)
    show "verify_decryption_share ?H tiny_setup 1 tiny_ciphertext tiny_forged ?public = Inr ()"
      unfolding verify_decryption_share_iff other by (simp add: tiny_forged_def)
    show "verifier_question tiny_hash_group tiny_setup 1 tiny_ciphertext tiny_forged ?public
        = verifier_question tiny_hash_group tiny_setup 1 tiny_ciphertext (tiny_share 1) ?public"
      by (simp add: verifier_question_def tiny_forged_def tiny_share_def tiny_ciphertext_def tiny_eval)
    show "share_challenge ?H (verifier_question tiny_hash_group tiny_setup 1 tiny_ciphertext (tiny_share 1) ?public)
        \<noteq> share_challenge tiny_hash_group (verifier_question tiny_hash_group tiny_setup 1 tiny_ciphertext (tiny_share 1) ?public)"
      unfolding other by (simp add: tiny_eval)
  qed
  have "ds_decryption_response (tiny_share 1) = 21" "ds_context_response (tiny_share 1) = 18" "ds_challenge (tiny_share 1) = 1"
    by (simp_all add: tiny_share_def tiny_eval)
  moreover have "ds_decryption_response tiny_forged = 39" "ds_context_response tiny_forged = 31" "ds_challenge tiny_forged = 2"
    by (simp_all add: tiny_forged_def)
  moreover have "ephemeral_public tiny_ciphertext = 3" by (simp add: tiny_ciphertext_def)
  moreover have "mul_generator tiny_hash_group y = y" "group_mul tiny_hash_group p y = p * y" for p y by simp_all
  ultimately show ?thesis using extracted by (simp only: public_share.select_convs)
qed

end
