(* ===== verification/Ehtdh_Bridge.thy ===== *)
theory Ehtdh_Bridge
  imports Ehtdh_Threshold Runs
begin

text \<open>
  \<open>golden-ehtdh1/src/dkg_bridge.rs\<close>: the material of the threshold decryption scheme from two
  completed runs of the DKG, one that shares the decryption key and one that shares zero; and the
  composition of the whole system, from the dealings of the two runs to the opened plaintext.
\<close>

record ('s, 'e) ehtdh1_material =
  mat_sealing_key :: "'e sealing_key"
  mat_public_key_set :: "'e public_key_set"
  mat_secret_share :: "'s secret_share"
  mat_setup_context :: setup_context

text \<open>The loop that pairs the public key shares of the two runs.\<close>

definition pair_public_shares ::
  "('s, 'e) dkg_output \<Rightarrow> ('s, 'e) dkg_output \<Rightarrow> participant_index list
    \<Rightarrow> (participant_index, 'e public_share) btree_map ehtdh_result" where
  "pair_public_shares decryption_output context_output participants =
     rfold (\<lambda>public_shares participant.
         rbind (rbind (ok_or (bt_get (out_public_key_shares decryption_output) participant)
                         (InvalidBridge ''missing decryption public share'')) (\<lambda>decryption.
                rbind (ok_or (bt_get (out_public_key_shares context_output) participant)
                         (InvalidBridge ''missing context public share'')) (\<lambda>context.
                Inr \<lparr>pub_decryption = decryption, pub_context = context\<rparr>))) (\<lambda>share.
         Inr (bt_insert participant share public_shares)))
       bt_empty participants"

definition material_from_dkg_outputs ::
  "('s::field, 'e::ab_group_add, 'z) golden_group_scheme \<Rightarrow> ('s, 'e) dkg_config \<Rightarrow> ('s, 'e) dkg_output
    \<Rightarrow> ('s, 'e) dkg_config \<Rightarrow> ('s, 'e) dkg_output \<Rightarrow> bytes \<Rightarrow> ('s, 'e) ehtdh1_material ehtdh_result" where
  "material_from_dkg_outputs G decryption_config decryption_output context_config context_output epoch =
     (if cfg_threshold decryption_config \<noteq> cfg_threshold context_config
      then Inl (InvalidBridge ''threshold mismatch'')
      else if registry_root_value (cfg_registry decryption_config) \<noteq> registry_root_value (cfg_registry context_config)
      then Inl (InvalidBridge ''registry root mismatch'')
      else if cfg_session_id context_config \<noteq> derive_context_session_id G (cfg_session_id decryption_config)
      then Inl (InvalidBridge ''context session mismatch'')
      else if share_participant (out_secret_share decryption_output) \<noteq> share_participant (out_secret_share context_output)
      then Inl (InvalidBridge ''local participant mismatch'')
      else if bt_keys (out_public_key_shares decryption_output) \<noteq> bt_keys (out_public_key_shares context_output)
      then Inl (InvalidBridge ''public share participant mismatch'')
      else if \<not> is_identity (out_public_key context_output)
      then Inl (InvalidBridge ''zero-sharing public key is not identity'')
      else if is_identity (out_public_key decryption_output)
      then Inl (InvalidBridge ''decryption public key is identity'')
      else let participants = registry_indexes (cfg_registry decryption_config)
        in if participants \<noteq> registry_indexes (cfg_registry context_config)
           then Inl (InvalidBridge ''participant set mismatch'')
           else
             rbind (pair_public_shares decryption_output context_output participants) (\<lambda>public_shares.
             rbind (public_key_set_new G (cfg_threshold decryption_config) (out_public_key decryption_output)
                      public_shares) (\<lambda>public_key_set.
             let secret_share = \<lparr>sec_participant = share_participant (out_secret_share decryption_output),
                                 sec_decryption = share_value (out_secret_share decryption_output),
                                 sec_context = share_value (out_secret_share context_output)\<rparr>;
                 setup_context = \<lparr>ctx_backend_id = backend_id G,
                                  ctx_threshold = cfg_threshold decryption_config,
                                  ctx_registry_root = registry_root_value (cfg_registry decryption_config),
                                  ctx_participants = participants,
                                  ctx_decryption_session_id = cfg_session_id decryption_config,
                                  ctx_context_session_id = cfg_session_id context_config,
                                  ctx_decryption_transcript_root = out_transcript_root decryption_output,
                                  ctx_context_transcript_root = out_transcript_root context_output,
                                  ctx_epoch = epoch\<rparr>
             in rbind (sealing_key_new (out_public_key decryption_output)) (\<lambda>sealing_key.
                Inr \<lparr>mat_sealing_key = sealing_key, mat_public_key_set = public_key_set,
                     mat_secret_share = secret_share, mat_setup_context = setup_context\<rparr>))))"

section \<open>Completed runs give key material\<close>

text \<open>The pairs of public keys on two polynomials.\<close>

definition paired_shares ::
  "('s::field, 'e, 'z) golden_group_scheme \<Rightarrow> 's list \<Rightarrow> 's list \<Rightarrow> participant_index list
    \<Rightarrow> (participant_index, 'e public_share) btree_map" where
  "paired_shares G f h ps = map (\<lambda>p. (p, \<lparr>pub_decryption = mul_generator G (horner f (index_scalar p)),
     pub_context = mul_generator G (horner h (index_scalar p))\<rparr>)) ps"

lemma paired_shares_keys [simp]: "bt_keys (paired_shares G f h ps) = ps"
  and paired_shares_length [simp]: "length (paired_shares G f h ps) = length ps"
  by (simp_all add: paired_shares_def)

lemma paired_shares_sorted: "sorted_wrt (<) ps \<Longrightarrow> bt_sorted (paired_shares G f h ps)"
  by (simp add: bt_sorted_def)

lemma wf_config_indexes_sorted: "wf_config config \<Longrightarrow> sorted_wrt (<) (registry_indexes (cfg_registry config))"
  by (simp add: wf_config_def bt_sorted_def registry_indexes_def)

lemma pair_public_shares_values:
  assumes "run_values G dc p f dout" and "run_values G cc p' h cout"
    and "registry_indexes (cfg_registry dc) = registry_indexes (cfg_registry cc)"
    and "sorted_wrt (<) (registry_indexes (cfg_registry dc))"
  shows "pair_public_shares dout cout (registry_indexes (cfg_registry dc))
    = Inr (paired_shares G f h (registry_indexes (cfg_registry dc)))"
proof -
  let ?idx = "registry_indexes (cfg_registry dc)"
  let ?share = "\<lambda>p. \<lparr>pub_decryption = mul_generator G (horner f (index_scalar p)),
     pub_context = mul_generator G (horner h (index_scalar p))\<rparr>"
  have "collect (\<lambda>participant. rbind (ok_or (bt_get (out_public_key_shares dout) participant)
                         (InvalidBridge ''missing decryption public share'')) (\<lambda>decryption.
                rbind (ok_or (bt_get (out_public_key_shares cout) participant)
                         (InvalidBridge ''missing context public share'')) (\<lambda>context.
                Inr \<lparr>pub_decryption = decryption, pub_context = context\<rparr>))) ?idx = Inr (map ?share ?idx)"
    using assms(1-3) by (intro collect_map) (simp add: run_values_def)
  then show ?thesis
    using assms(4) by (simp add: pair_public_shares_def rfold_bt_insert bt_empty_def bt_keys_def paired_shares_def zip_map2 zip_same_conv_map comp_def)
qed

lemma paired_shares_new:
  assumes "prime_group G" and "sorted_wrt (<) ps" and "scalars_exist G ps" and "inj_on (to_scalar G) (set ps)"
    and "length f = t" and "length h = t" and "horner h 0 = (0 :: 's::field)" and "horner f 0 \<noteq> 0" and "0 < t"
  shows "public_key_set_new G t (mul_generator G (horner f 0)) (paired_shares G f h ps) = Inr pks \<longleftrightarrow>
    t \<le> length ps \<and> pks = \<lparr>pks_threshold = t, pks_joint_public_key = mul_generator G (horner f 0),
      pks_public_shares = paired_shares G f h ps\<rparr>"
proof (cases "t \<le> length ps")
  case True
  have "inj_on (index_scalar :: _ \<Rightarrow> 's) (set ps)"
    using assms(3,4) by (auto simp: inj_on_def scalars_exist_def)
  then have "distinct (map index_scalar (take t ps) :: 's list)"
    using assms(2) by (auto simp: distinct_map strict_sorted_iff intro: inj_on_subset[OF _ set_take_subset])
  moreover have "shares_on_polynomials G t (mul_generator G (horner f 0)) (paired_shares G f h ps) f h"
    using assms(5-7) by (auto simp: shares_on_polynomials_def paired_shares_def)
  ultimately have "validate_public_shares G t (mul_generator G (horner f 0)) (paired_shares G f h ps) = Inr ()"
    using True assms(2,3,9) by (subst validate_public_shares_Inr[OF assms(1) paired_shares_sorted]) auto
  with True show ?thesis
    using assms(8,9) by (auto simp: public_key_set_new_def is_identity_def prime_group.mul_generator_eq_0[OF assms(1)])
qed (simp add: public_key_set_new_def)

text \<open>The material of a participant that completed both runs.\<close>

definition completed_material ::
  "('s::field, 'e, 'z) golden_group_scheme \<Rightarrow> ('s, 'e) dkg_config \<Rightarrow> ('s, 'e) dkg_output
    \<Rightarrow> ('s, 'e) dkg_config \<Rightarrow> ('s, 'e) dkg_output \<Rightarrow> bytes \<Rightarrow> participant_index \<Rightarrow> 's list \<Rightarrow> 's list \<Rightarrow> ('s, 'e) ehtdh1_material" where
  "completed_material G dc dout cc cout epoch p f h =
     (let idx = registry_indexes (cfg_registry dc)
      in \<lparr>mat_sealing_key = \<lparr>seal_joint_public_key = mul_generator G (horner f 0)\<rparr>,
          mat_public_key_set = \<lparr>pks_threshold = cfg_threshold dc, pks_joint_public_key = mul_generator G (horner f 0),
             pks_public_shares = paired_shares G f h idx\<rparr>,
          mat_secret_share = \<lparr>sec_participant = p, sec_decryption = horner f (index_scalar p), sec_context = horner h (index_scalar p)\<rparr>,
          mat_setup_context = \<lparr>ctx_backend_id = backend_id G, ctx_threshold = cfg_threshold dc,
             ctx_registry_root = registry_root_value (cfg_registry dc), ctx_participants = idx,
             ctx_decryption_session_id = cfg_session_id dc, ctx_context_session_id = cfg_session_id cc,
             ctx_decryption_transcript_root = out_transcript_root dout,
             ctx_context_transcript_root = out_transcript_root cout, ctx_epoch = epoch\<rparr>\<rparr>)"

definition bridge_inputs_match ::
  "('s::field, 'e::ab_group_add, 'z) golden_group_scheme \<Rightarrow> ('s, 'e) dkg_config \<Rightarrow> ('s, 'e) dkg_output
    \<Rightarrow> ('s, 'e) dkg_config \<Rightarrow> ('s, 'e) dkg_output \<Rightarrow> bool" where
  "bridge_inputs_match G dc dout cc cout \<longleftrightarrow>
     cfg_threshold dc = cfg_threshold cc \<and> cfg_threshold dc \<le> length (registry_indexes (cfg_registry dc))
     \<and> registry_root_value (cfg_registry dc) = registry_root_value (cfg_registry cc)
     \<and> registry_indexes (cfg_registry dc) = registry_indexes (cfg_registry cc)
     \<and> cfg_session_id cc = derive_context_session_id G (cfg_session_id dc)
     \<and> share_participant (out_secret_share dout) = share_participant (out_secret_share cout)
     \<and> out_public_key cout = 0 \<and> out_public_key dout \<noteq> 0"

lemma bridge_of_values:
  assumes "prime_group G" and "wf_config dc" and "wf_config cc"
    and "run_values G dc p f dout" and "run_values G cc p' h cout"
    and "inj_on (to_scalar G) (set (registry_indexes (cfg_registry dc)))"
  shows "material_from_dkg_outputs G dc dout cc cout epoch = Inr m \<longleftrightarrow>
    bridge_inputs_match G dc dout cc cout \<and> m = completed_material G dc dout cc cout epoch p f h"
proof -
  let ?idx = "registry_indexes (cfg_registry dc)"
  have t: "0 < cfg_threshold dc" "length f = cfg_threshold dc" "length h = cfg_threshold cc"
    and out: "out_public_key dout = mul_generator G (hd f)" "out_public_key cout = mul_generator G (hd h)"
      "bt_keys (out_public_key_shares dout) = ?idx" "bt_keys (out_public_key_shares cout) = registry_indexes (cfg_registry cc)"
      "out_secret_share dout = \<lparr>share_participant = p, share_value = horner f (index_scalar p)\<rparr>"
      "out_secret_share cout = \<lparr>share_participant = p', share_value = horner h (index_scalar p')\<rparr>"
    and sc: "scalars_exist G ?idx"
    using assms(2,4,5) by (simp_all add: wf_config_def run_values_def scalars_exist_def)
  have hz: "hd f = horner f 0" "hd h = horner h 0"
  proof -
    have "f \<noteq> []" "h \<noteq> []" using t assms(3) by (auto simp: wf_config_def)
    then show "hd f = horner f 0" "hd h = horner h 0" by (simp_all add: horner_zero)
  qed
  show ?thesis
  proof (cases "bridge_inputs_match G dc dout cc cout")
    case False
    have "bridge_inputs_match G dc dout cc cout" if ok: "material_from_dkg_outputs G dc dout cc cout epoch = Inr m"
    proof -
      have idx: "?idx = registry_indexes (cfg_registry cc)"
        using ok by (auto simp: material_from_dkg_outputs_def Let_def split: if_splits)
      have "pair_public_shares dout cout ?idx = Inr (paired_shares G f h ?idx)"
        using pair_public_shares_values[OF assms(4,5) idx wf_config_indexes_sorted[OF assms(2)]] .
      with ok have "public_key_set_new G (cfg_threshold dc) (out_public_key dout) (paired_shares G f h ?idx)
          = Inr (mat_public_key_set m)"
        by (auto simp: material_from_dkg_outputs_def Let_def split: if_splits)
      then have "cfg_threshold dc \<le> length ?idx" by (auto simp: public_key_set_new_def split: if_splits)
      with ok show ?thesis
        by (auto simp: material_from_dkg_outputs_def bridge_inputs_match_def is_identity_def Let_def split: if_splits)
    qed
    with False show ?thesis by blast
  next
    case True
    have match: "cfg_threshold dc = cfg_threshold cc" "?idx = registry_indexes (cfg_registry cc)" "p = p'"
      "horner h 0 = 0" "horner f 0 \<noteq> 0" "cfg_threshold dc \<le> length ?idx"
      using True unfolding bridge_inputs_match_def out hz prime_group.mul_generator_eq_0[OF assms(1)] share.simps
      by blast+
    have "pair_public_shares dout cout ?idx = Inr (paired_shares G f h ?idx)"
      using pair_public_shares_values[OF assms(4,5) match(2) wf_config_indexes_sorted[OF assms(2)]] .
    moreover have "public_key_set_new G (cfg_threshold dc) (mul_generator G (horner f 0)) (paired_shares G f h ?idx)
        = Inr \<lparr>pks_threshold = cfg_threshold dc, pks_joint_public_key = mul_generator G (horner f 0),
            pks_public_shares = paired_shares G f h ?idx\<rparr>"
      using paired_shares_new[OF assms(1) wf_config_indexes_sorted[OF assms(2)] sc assms(6), of f _ h] match t
      by simp
    moreover have "sealing_key_new (mul_generator G (horner f 0)) = Inr \<lparr>seal_joint_public_key = mul_generator G (horner f 0)\<rparr>"
      by (simp add: sealing_key_new_def is_identity_def match(5) prime_group.mul_generator_eq_0[OF assms(1)])
    ultimately show ?thesis
      using True match by (auto simp: material_from_dkg_outputs_def bridge_inputs_match_def is_identity_def Let_def
          out hz completed_material_def)
  qed
qed

lemma completed_material_fits:
  assumes "bridge_inputs_match G dc dout cc cout" and "run_values G dc p f dout" and "wf_config dc"
    and "p \<in> set (registry_indexes (cfg_registry dc))"
    and m_def: "m = completed_material G dc dout cc cout epoch p f h"
  shows "is_ok (combiner_new G (mat_public_key_set m) (mat_setup_context m))
    \<and> owns_share G (mat_public_key_set m) (mat_secret_share m)
    \<and> mat_sealing_key m = \<lparr>seal_joint_public_key = out_public_key dout\<rparr>"
proof -
  have "f \<noteq> []" using assms(2,3) by (auto simp: run_values_def wf_config_def)
  then have "out_public_key dout = mul_generator G (horner f 0)" using assms(2) by (simp add: run_values_def horner_zero)
  then show ?thesis
    using assms(1,4)
    by (auto simp: m_def completed_material_def Let_def combiner_new_def validate_combiner_setup_def bridge_inputs_match_def
        owns_share_def public_share_of_def paired_shares_def is_ok_iff)
qed

section \<open>Members of one pair of runs\<close>

text \<open>All runs over one set of dealings share the polynomial and the transcript root.\<close>

lemma common_values:
  assumes "prime_group G" and "wf_config config"
  obtains cs where "\<And>receiver isk own peers out. complete G B receiver isk own peers config = Inr out \<Longrightarrow>
      dealing_set (dealing_message own) peers = dealings \<Longrightarrow>
      run_values G config receiver cs out \<and> out_transcript_root out = completion_root G dealings"
proof -
  obtain cs where cs: "aggregate_coefficients (cfg_threshold config) (bt_values dealings) = map (mul_generator G) cs"
    using prime_group.commitment_opening[OF assms(1)] by blast
  have "run_values G config receiver cs out \<and> out_transcript_root out = completion_root G dealings"
    if run: "complete G B receiver isk own peers config = Inr out" and ds: "dealing_set (dealing_message own) peers = dealings"
    for receiver isk own peers out
  proof -
    obtain cs' where "aggregate_coefficients (cfg_threshold config) (bt_values dealings) = map (mul_generator G) cs'"
      "run_values G config receiver cs' out"
      using complete_values[OF assms run] ds by blast
    then have "run_values G config receiver cs out"
      using cs prime_group.commitment_opening[OF assms(1)] by metis
    moreover have "out_transcript_root out = completion_root G dealings" using run ds unfolding complete_Inr by auto
    ultimately show ?thesis ..
  qed
  then show ?thesis by (rule that)
qed

text \<open>
  A participant that completed both runs from the same dealings as the others, bridged them to its
  material, and made a decryption share with it.
\<close>

definition decrypting_member ::
  "('s::field, 'e::ab_group_add, 'z) golden_hash_group_scheme \<Rightarrow> ('s, 'e, 'r, 'y) evrf_backend_scheme \<Rightarrow> ('s, 'q) crypto_rng
    \<Rightarrow> ('s, 'e) dkg_config \<Rightarrow> (participant_index, ('s, 'e) dealer_message) btree_map
    \<Rightarrow> ('s, 'e) dkg_config \<Rightarrow> (participant_index, ('s, 'e) dealer_message) btree_map
    \<Rightarrow> bytes \<Rightarrow> ('s, 'e) ciphertext \<Rightarrow> bytes \<Rightarrow> bytes
    \<Rightarrow> participant_index \<times> ('s, 'e) ehtdh1_material \<times> ('s, 'e) decryption_share \<Rightarrow> bool" where
  "decrypting_member G B R dc dealings cc zero_dealings epoch ct context ad = (\<lambda>(receiver, m, share).
     \<exists>dout cout. (\<exists>isk own peers. complete G B receiver isk own peers dc = Inr dout
         \<and> dealing_set (dealing_message own) peers = dealings)
       \<and> (\<exists>isk own peers. complete G B receiver isk own peers cc = Inr cout
         \<and> dealing_set (dealing_message own) peers = zero_dealings)
       \<and> material_from_dkg_outputs G dc dout cc cout epoch = Inr m
       \<and> (\<exists>rng rng'. decrypt_share_with_associated_data G R \<lparr>us_share = mat_secret_share m\<rparr> rng (mat_setup_context m)
            ct context ad = Some (Inr (share, rng'))))"

text \<open>What the members' materials have in common.\<close>

definition shared_setup ::
  "('s::field, 'e, 'z) golden_group_scheme \<Rightarrow> ('s, 'e) dkg_config \<Rightarrow> (participant_index, ('s, 'e) dealer_message) btree_map
    \<Rightarrow> ('s, 'e) dkg_config \<Rightarrow> (participant_index, ('s, 'e) dealer_message) btree_map \<Rightarrow> bytes \<Rightarrow> setup_context" where
  "shared_setup G dc dealings cc zero_dealings epoch =
     \<lparr>ctx_backend_id = backend_id G, ctx_threshold = cfg_threshold dc,
      ctx_registry_root = registry_root_value (cfg_registry dc), ctx_participants = registry_indexes (cfg_registry dc),
      ctx_decryption_session_id = cfg_session_id dc, ctx_context_session_id = cfg_session_id cc,
      ctx_decryption_transcript_root = completion_root G dealings,
      ctx_context_transcript_root = completion_root G zero_dealings, ctx_epoch = epoch\<rparr>"

definition shared_keys ::
  "('s::field, 'e, 'z) golden_group_scheme \<Rightarrow> ('s, 'e) dkg_config \<Rightarrow> 's list \<Rightarrow> 's list \<Rightarrow> 'e public_key_set" where
  "shared_keys G dc f h = \<lparr>pks_threshold = cfg_threshold dc, pks_joint_public_key = mul_generator G (horner f 0),
     pks_public_shares = paired_shares G f h (registry_indexes (cfg_registry dc))\<rparr>"

lemma members_share:
  assumes "prime_group G" and "wf_config dc" and "wf_config cc"
    and "inj_on (to_scalar G) (set (registry_indexes (cfg_registry dc)))"
  obtains f h where "\<And>R receiver m share. decrypting_member G B (R :: ('s::field, 'q) crypto_rng) dc dealings cc zero_dealings
      epoch ct context ad (receiver, m, share) \<Longrightarrow>
    key_material G (shared_keys G dc f h) f h
    \<and> mat_sealing_key m = \<lparr>seal_joint_public_key = pks_joint_public_key (shared_keys G dc f h)\<rparr>
    \<and> mat_public_key_set m = shared_keys G dc f h
    \<and> mat_setup_context m = shared_setup G dc dealings cc zero_dealings epoch
    \<and> owns_share G (shared_keys G dc f h) (mat_secret_share m) \<and> sec_participant (mat_secret_share m) = receiver
    \<and> (\<exists>rng rng'. decrypt_share_with_associated_data G R \<lparr>us_share = mat_secret_share m\<rparr> rng
          (shared_setup G dc dealings cc zero_dealings epoch) ct context ad = Some (Inr (share, rng')))"
proof -
  let ?idx = "registry_indexes (cfg_registry dc)"
  obtain f where f: "\<And>receiver isk own peers out. complete G B receiver isk own peers dc = Inr out \<Longrightarrow>
      dealing_set (dealing_message own) peers = dealings \<Longrightarrow>
      run_values G dc receiver f out \<and> out_transcript_root out = completion_root G dealings"
    by (rule common_values[OF assms(1,2)]) blast
  obtain h where h: "\<And>receiver isk own peers out. complete G B receiver isk own peers cc = Inr out \<Longrightarrow>
      dealing_set (dealing_message own) peers = zero_dealings \<Longrightarrow>
      run_values G cc receiver h out \<and> out_transcript_root out = completion_root G zero_dealings"
    by (rule common_values[OF assms(1,3)]) blast
  show ?thesis
  proof (rule that[of f h])
    fix R :: "('s, 'q) crypto_rng" and receiver m share
    assume "decrypting_member G B R dc dealings cc zero_dealings epoch ct context ad (receiver, m, share)"
    then obtain dout cout isk own peers isk' own' peers' rng rng' where
      r1: "complete G B receiver isk own peers dc = Inr dout" "dealing_set (dealing_message own) peers = dealings"
      and r2: "complete G B receiver isk' own' peers' cc = Inr cout" "dealing_set (dealing_message own') peers' = zero_dealings"
      and mat: "material_from_dkg_outputs G dc dout cc cout epoch = Inr m"
      and dec: "decrypt_share_with_associated_data G R \<lparr>us_share = mat_secret_share m\<rparr> rng (mat_setup_context m)
            ct context ad = Some (Inr (share, rng'))"
      unfolding decrypting_member_def by (simp only: split) blast
    have d: "run_values G dc receiver f dout" "out_transcript_root dout = completion_root G dealings"
      and c: "run_values G cc receiver h cout" "out_transcript_root cout = completion_root G zero_dealings"
      using f[OF r1] h[OF r2] by blast+
    have reg: "receiver \<in> set ?idx"
      using complete_Inr[THEN iffD1, OF r1(1), THEN conjunct1] by (rule registry_public_key_in)
    have m: "m = completed_material G dc dout cc cout epoch receiver f h" and match: "bridge_inputs_match G dc dout cc cout"
      using mat bridge_of_values[OF assms(1-3) d(1) c(1) assms(4)] by auto
    have len: "length f = cfg_threshold dc" "length h = cfg_threshold cc" "0 < cfg_threshold dc"
      "out_public_key cout = mul_generator G (hd h)" "scalars_exist G ?idx"
      using d(1) c(1) assms(2) by (auto simp: run_values_def wf_config_def scalars_exist_def)
    have eq: "cfg_threshold dc = cfg_threshold cc" using match by (simp add: bridge_inputs_match_def)
    have "h \<noteq> []" using len eq by auto
    then have "horner h 0 = 0"
      using match len(4) by (simp add: bridge_inputs_match_def horner_zero prime_group.mul_generator_eq_0[OF assms(1)])
    moreover have "distinct (map index_scalar ?idx :: 's list)"
      using assms(4) len(5) wf_config_indexes_sorted[OF assms(2)]
      by (auto simp: distinct_map strict_sorted_iff inj_on_def scalars_exist_def)
    ultimately have "key_material G (shared_keys G dc f h) f h"
      using len eq by (auto simp: key_material_def shared_keys_def shares_on_polynomials_def scalars_distinct_def paired_shares_def)
    moreover have "owns_share G (shared_keys G dc f h) (mat_secret_share m)"
      using reg by (simp add: m completed_material_def Let_def owns_share_def public_share_of_def shared_keys_def paired_shares_def)
    ultimately show "key_material G (shared_keys G dc f h) f h
      \<and> mat_sealing_key m = \<lparr>seal_joint_public_key = pks_joint_public_key (shared_keys G dc f h)\<rparr>
      \<and> mat_public_key_set m = shared_keys G dc f h
      \<and> mat_setup_context m = shared_setup G dc dealings cc zero_dealings epoch
      \<and> owns_share G (shared_keys G dc f h) (mat_secret_share m) \<and> sec_participant (mat_secret_share m) = receiver
      \<and> (\<exists>rng rng'. decrypt_share_with_associated_data G R \<lparr>us_share = mat_secret_share m\<rparr> rng
            (shared_setup G dc dealings cc zero_dealings epoch) ct context ad = Some (Inr (share, rng')))"
      using dec by (auto simp: m completed_material_def Let_def shared_keys_def shared_setup_def d(2) c(2))
  qed
qed

section \<open>Two small runs\<close>

text \<open>
  The two-party DKG over the group with hashing, once with the secrets 2 and 4, once, in the derived
  session, with the secrets 2 and 95, whose sum is zero in the field.
\<close>

definition tiny_zero_config :: "(tiny, tiny) dkg_config" where
  "tiny_zero_config = tiny_config\<lparr>cfg_session_id := SessionId (replicate 32 1)\<rparr>"

lemma tiny_zero_config_fields [simp]:
  "cfg_threshold tiny_zero_config = 2" "cfg_session_id tiny_zero_config = SessionId (replicate 32 1)"
  "cfg_beta tiny_zero_config = 3" "cfg_registry tiny_zero_config = tiny_registry"
  by (simp_all add: tiny_zero_config_def)

lemma tiny_zero_wf: "wf_config tiny_zero_config"
  by (simp add: wf_config_def)

lemma tiny_hash_relation: "evrf_relation tiny_hash_group tiny_backend"
proof
  show "(\<And>sts pr. (sts, pr) \<in> set batches \<Longrightarrow> verify_batch tiny_backend sts pr = Inr ()) \<Longrightarrow>
      verify_proof_batch tiny_backend batches = Inr ()" for batches
    by (auto simp: default_verify_proof_batch_def rfold_unit_ok simp del: tiny_backend_fields(3))
qed simp_all

lemma tiny_hash_verify_share:
  "verify_share tiny_hash_group \<lparr>commitment_coefficients = cs\<rparr>
      \<lparr>share_participant = ParticipantIndex w, share_value = v\<rparr> = Inr (v = horner cs (reduce (unat w)))"
proof -
  have "map (mul_generator tiny_hash_group) cs = cs" by (induction cs) simp_all
  then show ?thesis
    using tinyh.verify_share_value[of "\<lparr>commitment_coefficients = cs\<rparr>" cs
      "\<lparr>share_participant = ParticipantIndex w, share_value = v\<rparr>" "reduce (unat w)"] by simp
qed

lemma tiny_hash_roots [simp]: "tb_root tiny_hash_group t = replicate 32 1"
  by (simp add: tb_root_def tiny_hash_def)

lemma tiny_hash_create:
  "\<exists>dealing. create_dealing_with_secret tiny_hash_group tiny_backend party1 5 2 tiny_config tiny_rng () = Some (Inr (dealing, ()))"
  "\<exists>dealing. create_dealing_with_secret tiny_hash_group tiny_backend party2 7 4 tiny_config tiny_rng () = Some (Inr (dealing, ()))"
  "\<exists>dealing. create_dealing_with_secret tiny_hash_group tiny_backend party1 5 2 tiny_zero_config tiny_rng () = Some (Inr (dealing, ()))"
  "\<exists>dealing. create_dealing_with_secret tiny_hash_group tiny_backend party2 7 95 tiny_zero_config tiny_rng () = Some (Inr (dealing, ()))"
  by (simp_all add: create_simps tiny_hash_verify_share tiny_eval)

lemma tiny_hash_runs:
  assumes "wf_config config" and "cfg_registry config = tiny_registry"
    and "\<exists>d. create_dealing_with_secret tiny_hash_group tiny_backend party1 5 s1 config tiny_rng () = Some (Inr (d, ()))"
    and "\<exists>d. create_dealing_with_secret tiny_hash_group tiny_backend party2 7 s2 config tiny_rng () = Some (Inr (d, ()))"
  shows "\<exists>dealings. \<forall>p \<in> {party1, party2}. \<exists>isk own peers out.
    complete tiny_hash_group tiny_backend p isk own peers config = Inr out
    \<and> dealing_set (dealing_message own) peers = dealings \<and> out_public_key out = s1 + s2"
proof -
  obtain d1 d2 where c1: "create_dealing_with_secret tiny_hash_group tiny_backend party1 5 s1 config tiny_rng () = Some (Inr (d1, ()))"
    and c2: "create_dealing_with_secret tiny_hash_group tiny_backend party2 7 s2 config tiny_rng () = Some (Inr (d2, ()))"
    using assms(3,4) by blast
  have dealers: "dm_dealer (dealing_message d1) = party1" "dm_dealer (dealing_message d2) = party2"
    using create_dealing_honest[OF tinyh.prime_group_axioms assms(1) c1]
      create_dealing_honest[OF tinyh.prime_group_axioms assms(1) c2] by auto
  let ?D = "\<lambda>p. if p = party1 then d1 else d2"
  have all: "\<forall>p \<in> set (registry_indexes (cfg_registry config)). create_dealing_with_secret tiny_hash_group tiny_backend p
      (if p = party1 then 5 else 7) (if p = party1 then s1 else s2) config tiny_rng () = Some (Inr (?D p, ()))"
    using c1 c2 by (simp add: assms(2))
  have "\<exists>isk own peers out. complete tiny_hash_group tiny_backend p isk own peers config = Inr out
      \<and> dealing_set (dealing_message own) peers = [(party1, dealing_message d1), (party2, dealing_message d2)]
      \<and> out_public_key out = s1 + s2" if p: "p \<in> {party1, party2}" for p
  proof -
    have "p \<in> set (registry_indexes (cfg_registry config))" using p by (simp add: assms(2))
    from honest_run_outcome[OF tiny_hash_relation assms(1) all this] obtain out where
      "complete tiny_hash_group tiny_backend p (if p = party1 then 5 else 7) (?D p)
        (map (\<lambda>p. (p, dealing_message (?D p))) (public_share_receivers config p)) config = Inr out"
      "out_public_key out = s1 + s2"
      by (auto simp: assms(2))
    moreover have "dealing_set (dealing_message (?D p)) (map (\<lambda>p. (p, dealing_message (?D p))) (public_share_receivers config p))
        = [(party1, dealing_message d1), (party2, dealing_message d2)]"
      using p dealers by (auto simp: dealing_set_def public_share_receivers_def assms(2) less_participant_index_def)
    ultimately show ?thesis by blast
  qed
  then show ?thesis by blast
qed

lemma tiny_hash_inj: "inj_on (to_scalar tiny_hash_group) (set (registry_indexes (cfg_registry tiny_config)))"
  by (simp add: inj_on_def tiny_eval)

lemma tiny_zero_session: "SessionId (replicate 32 1) = derive_context_session_id tiny_hash_group sid"
  by (simp add: derive_context_session_id_def)

text \<open>Sealing and making a share succeed in the small group, whatever the key.\<close>

lemma tiny_hash_seals:
  "\<exists>ct. seal_bytes_with_associated_data tiny_cipher tiny_hash_group tiny_cycle_rng key 0 [20, 21] [9] = Some (Inr (ct, 3))
    \<and> verify_ciphertext tiny_hash_group ct = Inr () \<and> associated_data ct = [9]"
proof -
  obtain ct where ct: "seal_bytes_with_associated_data tiny_cipher tiny_hash_group tiny_cycle_rng key 0 [20, 21] [9] = Some (Inr (ct, 3))"
    by (simp add: seal_bytes_with_associated_data_def tiny_samples seal_with_nonces_def)
  then obtain r r' where "r \<noteq> 0" and sw: "seal_with_nonces tiny_cipher tiny_hash_group key r r' [20, 21] [9] = Inr ct"
    by (rule seal_bytes_InrE)
  then have "verify_ciphertext tiny_hash_group ct = Inr ()" by (rule tinyh.seal_with_nonces_verifies)
  moreover have "associated_data ct = [9]" using sw by (auto simp: seal_with_nonces_Inr)
  ultimately show ?thesis using ct by blast
qed

lemma tiny_hash_decrypts:
  "verify_ciphertext tiny_hash_group ct = Inr () \<Longrightarrow> associated_data ct = [9] \<Longrightarrow>
    \<exists>share. decrypt_share_with_associated_data tiny_hash_group tiny_cycle_rng us 0 ctx ct context [9] = Some (Inr (share, 3))"
  by (simp add: decrypt_share_with_associated_data_def tiny_samples prove_decryption_share_def)

lemma tiny_materials:
  "\<exists>dealings zero_dealings. \<forall>p \<in> {party1, party2}. \<exists>dout cout m.
     (\<exists>isk own peers. complete tiny_hash_group tiny_backend p isk own peers tiny_config = Inr dout
       \<and> dealing_set (dealing_message own) peers = dealings)
     \<and> (\<exists>isk own peers. complete tiny_hash_group tiny_backend p isk own peers tiny_zero_config = Inr cout
       \<and> dealing_set (dealing_message own) peers = zero_dealings)
     \<and> out_public_key dout = 6 \<and> out_public_key cout = 0
     \<and> is_ok (combiner_new tiny_hash_group (mat_public_key_set m) (mat_setup_context m))
     \<and> mat_sealing_key m = \<lparr>seal_joint_public_key = 6\<rparr>
     \<and> material_from_dkg_outputs tiny_hash_group tiny_config dout tiny_zero_config cout (replicate 32 5) = Inr m"
proof -
  obtain dealings where r1: "\<forall>p \<in> {party1, party2}. \<exists>isk own peers out.
      complete tiny_hash_group tiny_backend p isk own peers tiny_config = Inr out
      \<and> dealing_set (dealing_message own) peers = dealings \<and> out_public_key out = 2 + 4"
    using tiny_hash_runs[OF tiny_wf_config _ tiny_hash_create(1,2), OF tiny_config_fields(4)] by blast
  obtain zero_dealings where r2: "\<forall>p \<in> {party1, party2}. \<exists>isk own peers out.
      complete tiny_hash_group tiny_backend p isk own peers tiny_zero_config = Inr out
      \<and> dealing_set (dealing_message own) peers = zero_dealings \<and> out_public_key out = 2 + 95"
    using tiny_hash_runs[OF tiny_zero_wf _ tiny_hash_create(3,4), OF tiny_zero_config_fields(4)] by blast
  have sums: "(2 + 4 :: tiny) = 6" "(2 + 95 :: tiny) = 0" by (simp_all add: tiny_eval)
  have "\<exists>dout cout m.
     (\<exists>isk own peers. complete tiny_hash_group tiny_backend p isk own peers tiny_config = Inr dout
       \<and> dealing_set (dealing_message own) peers = dealings)
     \<and> (\<exists>isk own peers. complete tiny_hash_group tiny_backend p isk own peers tiny_zero_config = Inr cout
       \<and> dealing_set (dealing_message own) peers = zero_dealings)
     \<and> out_public_key dout = 6 \<and> out_public_key cout = 0
     \<and> is_ok (combiner_new tiny_hash_group (mat_public_key_set m) (mat_setup_context m))
     \<and> mat_sealing_key m = \<lparr>seal_joint_public_key = 6\<rparr>
     \<and> material_from_dkg_outputs tiny_hash_group tiny_config dout tiny_zero_config cout (replicate 32 5) = Inr m"
    if p: "p \<in> {party1, party2}" for p
  proof -
    obtain isk own peers dout where d: "complete tiny_hash_group tiny_backend p isk own peers tiny_config = Inr dout"
      "dealing_set (dealing_message own) peers = dealings" "out_public_key dout = 6"
      using bspec[OF r1 p] unfolding sums by blast
    obtain isk' own' peers' cout where c: "complete tiny_hash_group tiny_backend p isk' own' peers' tiny_zero_config = Inr cout"
      "dealing_set (dealing_message own') peers' = zero_dealings" "out_public_key cout = 0"
      using bspec[OF r2 p] unfolding sums by blast
    obtain f h where f: "run_values tiny_hash_group tiny_config p f dout" and h: "run_values tiny_hash_group tiny_zero_config p h cout"
      using complete_values[OF tinyh.prime_group_axioms tiny_wf_config d(1)]
        complete_values[OF tinyh.prime_group_axioms tiny_zero_wf c(1)] by blast
    then have "share_participant (out_secret_share dout) = p" "share_participant (out_secret_share cout) = p"
      by (simp_all add: run_values_def)
    then have match: "bridge_inputs_match tiny_hash_group tiny_config dout tiny_zero_config cout"
      using d(3) c(3) tiny_zero_session by (simp add: bridge_inputs_match_def tiny_eval)
    let ?m = "completed_material tiny_hash_group tiny_config dout tiny_zero_config cout (replicate 32 5) p f h"
    have "material_from_dkg_outputs tiny_hash_group tiny_config dout tiny_zero_config cout (replicate 32 5) = Inr ?m"
      using bridge_of_values[OF tinyh.prime_group_axioms tiny_wf_config tiny_zero_wf f h tiny_hash_inj] match by blast
    moreover have "is_ok (combiner_new tiny_hash_group (mat_public_key_set ?m) (mat_setup_context ?m))"
      "mat_sealing_key ?m = \<lparr>seal_joint_public_key = 6\<rparr>"
      using completed_material_fits[OF match f tiny_wf_config _ refl, of "replicate 32 5" h] p d(3) by auto
    ultimately show ?thesis using d(1,2,3) c by blast
  qed
  then show ?thesis by blast
qed

lemma tiny_members:
  obtains dealings zero_dealings m1 m2 cmb ct share1 share2 where
    "mat_sealing_key m1 = \<lparr>seal_joint_public_key = 6\<rparr>"
    and "combiner_new tiny_hash_group (mat_public_key_set m1) (mat_setup_context m1) = Inr cmb"
    and "seal_bytes_with_associated_data tiny_cipher tiny_hash_group tiny_cycle_rng (mat_sealing_key m1) 0 [20, 21] [9] = Some (Inr (ct, 3))"
    and "\<forall>x \<in> set [(party1, m1, share1), (party2, m2, share2)]. decrypting_member tiny_hash_group tiny_backend
        tiny_cycle_rng tiny_config dealings tiny_zero_config zero_dealings (replicate 32 5) ct [1] [9] x"
proof -
  obtain dealings zero_dealings where runs: "\<forall>p \<in> {party1, party2}. \<exists>dout cout m.
     (\<exists>isk own peers. complete tiny_hash_group tiny_backend p isk own peers tiny_config = Inr dout
       \<and> dealing_set (dealing_message own) peers = dealings)
     \<and> (\<exists>isk own peers. complete tiny_hash_group tiny_backend p isk own peers tiny_zero_config = Inr cout
       \<and> dealing_set (dealing_message own) peers = zero_dealings)
     \<and> out_public_key dout = 6 \<and> out_public_key cout = 0
     \<and> is_ok (combiner_new tiny_hash_group (mat_public_key_set m) (mat_setup_context m))
     \<and> mat_sealing_key m = \<lparr>seal_joint_public_key = 6\<rparr>
     \<and> material_from_dkg_outputs tiny_hash_group tiny_config dout tiny_zero_config cout (replicate 32 5) = Inr m"
    using tiny_materials by blast
  let ?member = "\<lambda>ct. decrypting_member tiny_hash_group tiny_backend tiny_cycle_rng tiny_config dealings tiny_zero_config
      zero_dealings (replicate 32 5) ct [1] [9]"
  obtain ct where ct: "seal_bytes_with_associated_data tiny_cipher tiny_hash_group tiny_cycle_rng \<lparr>seal_joint_public_key = 6\<rparr> 0
        [20, 21] [9] = Some (Inr (ct, 3))" "verify_ciphertext tiny_hash_group ct = Inr ()" "associated_data ct = [9]"
    using tiny_hash_seals by blast
  have member: "\<exists>m share. mat_sealing_key m = \<lparr>seal_joint_public_key = 6\<rparr>
      \<and> is_ok (combiner_new tiny_hash_group (mat_public_key_set m) (mat_setup_context m)) \<and> ?member ct (p, m, share)"
    if p: "p \<in> {party1, party2}" for p
  proof -
    obtain dout cout m where m: "(\<exists>isk own peers. complete tiny_hash_group tiny_backend p isk own peers tiny_config = Inr dout
       \<and> dealing_set (dealing_message own) peers = dealings)"
     "(\<exists>isk own peers. complete tiny_hash_group tiny_backend p isk own peers tiny_zero_config = Inr cout
       \<and> dealing_set (dealing_message own) peers = zero_dealings)"
     "is_ok (combiner_new tiny_hash_group (mat_public_key_set m) (mat_setup_context m))"
     "mat_sealing_key m = \<lparr>seal_joint_public_key = 6\<rparr>"
     "material_from_dkg_outputs tiny_hash_group tiny_config dout tiny_zero_config cout (replicate 32 5) = Inr m"
      using bspec[OF runs p] by blast
    obtain share where "decrypt_share_with_associated_data tiny_hash_group tiny_cycle_rng \<lparr>us_share = mat_secret_share m\<rparr> 0
        (mat_setup_context m) ct [1] [9] = Some (Inr (share, 3))"
      using tiny_hash_decrypts[OF ct(2,3)] by blast
    with m have "?member ct (p, m, share)" unfolding decrypting_member_def by (simp only: split) blast
    with m(3,4) show ?thesis by blast
  qed
  obtain m1 share1 where m1: "mat_sealing_key m1 = \<lparr>seal_joint_public_key = 6\<rparr>"
    "is_ok (combiner_new tiny_hash_group (mat_public_key_set m1) (mat_setup_context m1))" "?member ct (party1, m1, share1)"
    using member[of party1] by blast
  obtain m2 share2 where m2: "?member ct (party2, m2, share2)" using member[of party2] by blast
  obtain cmb where cmb: "combiner_new tiny_hash_group (mat_public_key_set m1) (mat_setup_context m1) = Inr cmb"
    using m1(2) by (auto simp: is_ok_iff)
  have all: "\<forall>x \<in> set [(party1, m1, share1), (party2, m2, share2)]. ?member ct x" using m1(3) m2 by simp
  show ?thesis by (rule that[OF m1(1) cmb _ all]) (simp only: m1(1) ct(1))
qed

section \<open>Properties\<close>

text \<open>
  C12. The bridge from the DKG: for a participant that completed two runs, it succeeds exactly when the
  runs agree on threshold, registry and participants, the second run's session is the derived one, its
  public key is the identity and the first one's is not. The key set check it performs never rejects
  then, and the material it returns fits together: the combiner accepts the key set with the setup
  context, the secret share is the one behind the listed public keys, and the sealing key is the DKG's
  public key.
\<close>

theorem bridge_accepts_iff:
  assumes "prime_group G" and "wf_config dc" and "wf_config cc"
    and "complete G B receiver isk own peers dc = Inr dout" and "complete G B' receiver' isk' own' peers' cc = Inr cout"
    and "inj_on (to_scalar G) (set (registry_indexes (cfg_registry dc)))"
  shows "((\<exists>m. material_from_dkg_outputs G dc dout cc cout epoch = Inr m) \<longleftrightarrow> bridge_inputs_match G dc dout cc cout)
    \<and> (\<forall>m. material_from_dkg_outputs G dc dout cc cout epoch = Inr m \<longrightarrow>
         is_ok (combiner_new G (mat_public_key_set m) (mat_setup_context m))
         \<and> owns_share G (mat_public_key_set m) (mat_secret_share m)
         \<and> seal_joint_public_key (mat_sealing_key m) = out_public_key dout)"
proof -
  obtain f where d: "run_values G dc receiver f dout" using complete_values[OF assms(1,2,4)] by blast
  obtain h where c: "run_values G cc receiver' h cout" using complete_values[OF assms(1,3,5)] by blast
  have reg: "receiver \<in> set (registry_indexes (cfg_registry dc))"
    using complete_Inr[THEN iffD1, OF assms(4), THEN conjunct1] by (rule registry_public_key_in)
  have bridge: "material_from_dkg_outputs G dc dout cc cout epoch = Inr m \<longleftrightarrow>
    bridge_inputs_match G dc dout cc cout \<and> m = completed_material G dc dout cc cout epoch receiver f h" for m
    by (rule bridge_of_values[OF assms(1-3) d c assms(6)])
  show ?thesis using completed_material_fits[OF _ d assms(2) reg] by (auto simp: bridge)
qed

lemma bridge_accepts_iff_witness:
  "\<exists>dout cout m. out_public_key dout = (6 :: tiny) \<and> out_public_key cout = 0
    \<and> material_from_dkg_outputs tiny_hash_group tiny_config dout tiny_zero_config cout (replicate 32 5) = Inr m
    \<and> seal_joint_public_key (mat_sealing_key m) = 6"
proof -
  obtain dout cout m isk own peers isk' own' peers' where
    d: "complete tiny_hash_group tiny_backend party1 isk own peers tiny_config = Inr dout"
    and c: "complete tiny_hash_group tiny_backend party1 isk' own' peers' tiny_zero_config = Inr cout"
    and pk: "out_public_key dout = 6" "out_public_key cout = 0"
    and m: "material_from_dkg_outputs tiny_hash_group tiny_config dout tiny_zero_config cout (replicate 32 5) = Inr m"
    using tiny_materials by blast
  from bridge_accepts_iff[OF tinyh.prime_group_axioms tiny_wf_config tiny_zero_wf d c tiny_hash_inj] m
  have "seal_joint_public_key (mat_sealing_key m) = out_public_key dout" by blast
  with m pk show ?thesis by metis
qed

text \<open>
  C1. The whole system: let any \<open>threshold\<close> participants complete a DKG run and a zero-sharing run from
  common sets of dealings, whoever dealt them, and bridge them. Then a payload sealed under the sealing
  key of one of them is opened by the combiner of that one from the decryption shares they make.
\<close>

theorem dkg_to_plaintext:
  assumes "hash_group G" and "wf_config dc" and "wf_config cc"
    and "inj_on (to_scalar G) (set (registry_indexes (cfg_registry dc)))"
    and "\<forall>x \<in> set members. decrypting_member G B R' dc dealings cc zero_dealings epoch ct context ad x"
    and "distinct (map fst members)" and "length members = cfg_threshold dc" and "(p, m, share) \<in> set members"
    and "seal_bytes_with_associated_data K G R (mat_sealing_key m) rng plaintext ad = Some (Inr (ct, rng'))"
    and "combiner_new G (mat_public_key_set m) (mat_setup_context m) = Inr cmb"
  shows "combine_exact_with_associated_data K G cmb ct context ad (map (snd \<circ> snd) members) = Inr plaintext"
proof -
  have G: "prime_group G" using assms(1) by (simp add: hash_group_def)
  obtain f h where common: "\<And>receiver m share. (receiver, m, share) \<in> set members \<Longrightarrow>
    key_material G (shared_keys G dc f h) f h
    \<and> mat_sealing_key m = \<lparr>seal_joint_public_key = pks_joint_public_key (shared_keys G dc f h)\<rparr>
    \<and> mat_public_key_set m = shared_keys G dc f h
    \<and> mat_setup_context m = shared_setup G dc dealings cc zero_dealings epoch
    \<and> owns_share G (shared_keys G dc f h) (mat_secret_share m) \<and> sec_participant (mat_secret_share m) = receiver
    \<and> (\<exists>rng rng'. decrypt_share_with_associated_data G R' \<lparr>us_share = mat_secret_share m\<rparr> rng
          (shared_setup G dc dealings cc zero_dealings epoch) ct context ad = Some (Inr (share, rng')))"
    by (rule members_share[OF G assms(2-4), of B dealings zero_dealings epoch ct "context" ad]) (use assms(5) in blast)
  let ?pks = "shared_keys G dc f h" and ?ctx = "shared_setup G dc dealings cc zero_dealings epoch"
  have km: "key_material G ?pks f h" and m: "mat_public_key_set m = ?pks" "mat_setup_context m = ?ctx"
    "seal_joint_public_key (mat_sealing_key m) = pks_joint_public_key ?pks"
    using common[OF assms(8)] by simp_all
  have cmb: "cmb = \<lparr>cmb_public_key_set = ?pks, cmb_setup_context = ?ctx\<rparr>"
    using assms(10) by (auto simp: combiner_new_def m)
  obtain r where sealed: "sealed_as K G (pks_joint_public_key ?pks) r plaintext ad ct"
    using seal_bytes_sealed_as[OF assms(9)] unfolding m(3) .
  obtain dgroup where ver: "verify_ciphertext G ct = Inr ()" and dg: "decryption_group G ?ctx ct context = Inr dgroup"
    using common[OF assms(8)] by (auto elim: decrypt_share_InrE)
  have made: "share_valid G cmb ct dgroup s \<and> ds_participant s = q \<and> right_share G f h (ephemeral_public ct) dgroup s"
    if mem: "(q, m', s) \<in> set members" for q m' s
  proof -
    obtain rng1 rng2 where d: "decrypt_share_with_associated_data G R' \<lparr>us_share = mat_secret_share m'\<rparr> rng1 ?ctx
        ct context ad = Some (Inr (s, rng2))"
      and own: "owns_share G ?pks (mat_secret_share m')" "sec_participant (mat_secret_share m') = q"
      using common[OF mem] by blast
    show ?thesis using honest_decryption[OF G km cmb d own(1) dg] own(2) by simp
  qed
  then have parts: "map ds_participant (map (snd \<circ> snd) members) = map fst members"
    by (auto simp: split_beta)
  have "distinct (map ds_participant (map (snd \<circ> snd) members))" unfolding parts by (rule assms(6))
  then show ?thesis
    using made dg assms(7)
    by (intro combine_exact_opens[OF G km sealed _ ver, of cmb "context" dgroup]) (auto simp: cmb shared_keys_def)
qed

lemma dkg_to_plaintext_witness:
  "\<exists>(m :: (tiny, tiny) ehtdh1_material) ct cmb share1 share2. mat_sealing_key m = \<lparr>seal_joint_public_key = 6\<rparr>
    \<and> seal_bytes_with_associated_data tiny_cipher tiny_hash_group tiny_cycle_rng (mat_sealing_key m) 0 [20, 21] [9] = Some (Inr (ct, 3))
    \<and> combiner_new tiny_hash_group (mat_public_key_set m) (mat_setup_context m) = Inr cmb
    \<and> combine_exact_with_associated_data tiny_cipher tiny_hash_group cmb ct [1] [9] [share1, share2] = Inr [20, 21]"
proof -
  obtain dealings zero_dealings m1 m2 cmb ct share1 share2 where
    m: "mat_sealing_key m1 = \<lparr>seal_joint_public_key = 6\<rparr>"
    and cmb: "combiner_new tiny_hash_group (mat_public_key_set m1) (mat_setup_context m1) = Inr cmb"
    and ct: "seal_bytes_with_associated_data tiny_cipher tiny_hash_group tiny_cycle_rng (mat_sealing_key m1) 0 [20, 21] [9] = Some (Inr (ct, 3))"
    and members: "\<forall>x \<in> set [(party1, m1, share1), (party2, m2, share2)]. decrypting_member tiny_hash_group tiny_backend
        tiny_cycle_rng tiny_config dealings tiny_zero_config zero_dealings (replicate 32 5) ct [1] [9] x"
    by (rule tiny_members)
  from dkg_to_plaintext[OF tinyh.hash_group_axioms tiny_wf_config tiny_zero_wf tiny_hash_inj members _ _ _ ct cmb,
      of party1 share1]
  have "combine_exact_with_associated_data tiny_cipher tiny_hash_group cmb ct [1] [9] [share1, share2] = Inr [20, 21]"
    by simp
  with m ct cmb show ?thesis by blast
qed

end
