(* ===== verification/Wire.thy ===== *)
theory Wire
  imports Golden_Group
begin

text \<open>
  \<open>golden-core/src/wire.rs\<close>, the generic part: the reader over a byte slice, the primitive fields,
  and the envelope (magic, tag, codec context) of standalone values. A \<open>write_*\<close> function is the
  bytes the code appends to its output buffer. A reader operation returns a value with the advanced
  reader. The locale \<open>wire_codec\<close> is the contract of a \<open>WireEncode\<close>/\<open>WireDecode\<close> pair: reading
  succeeds exactly on the bytes that writing a valid value produces, so it is at once a round trip
  and canonicity; the envelope's theorem follows for every codec.
\<close>

section \<open>The reader\<close>

record wire_reader =
  reader_bytes :: bytes
  reader_cursor :: usize

type_synonym 'a wire_read = "wire_reader \<Rightarrow> ('a \<times> wire_reader) result"

definition wire_reader_new :: "bytes \<Rightarrow> wire_reader" where
  "wire_reader_new bs = \<lparr>reader_bytes = bs, reader_cursor = 0\<rparr>"

text \<open>\<open>checked_add\<close> on \<open>usize\<close>.\<close>

definition checked_add :: "usize \<Rightarrow> usize \<Rightarrow> usize option" where
  "checked_add a b = (if a + b < 2 ^ 64 then Some (a + b) else None)"

definition checked_mul :: "usize \<Rightarrow> usize \<Rightarrow> usize option" where
  "checked_mul a b = (if a * b < 2 ^ 64 then Some (a * b) else None)"

definition read_exact :: "usize \<Rightarrow> bytes wire_read" where
  "read_exact len r =
     rbind (ok_or (checked_add (reader_cursor r) len) InvalidEncoding) (\<lambda>e.
       if length (reader_bytes r) < e then Inl InvalidEncoding
       else Inr (take len (drop (reader_cursor r) (reader_bytes r)), r\<lparr>reader_cursor := e\<rparr>))"

definition read_u8 :: "byte wire_read" where
  "read_u8 r = rbind (read_exact 1 r) (\<lambda>(bs, r1). Inr (bs ! 0, r1))"

definition read_u32 :: "u32 wire_read" where
  "read_u32 r = rbind (read_exact 4 r) (\<lambda>(bs, r1). Inr (word_of_nat (from_be bs), r1))"

definition read_u64 :: "u64 wire_read" where
  "read_u64 r = rbind (read_exact 8 r) (\<lambda>(bs, r1). Inr (word_of_nat (from_be bs), r1))"

text \<open>\<open>usize::try_from(u64)\<close> never fails on a 64-bit target.\<close>

definition read_len :: "usize wire_read" where
  "read_len r = rbind (read_u64 r) (\<lambda>(w, r1). Inr (unat w, r1))"

definition remaining :: "wire_reader \<Rightarrow> usize" where
  "remaining r = length (reader_bytes r) - reader_cursor r"

definition ensure_remaining_items :: "wire_reader \<Rightarrow> usize \<Rightarrow> usize \<Rightarrow> unit result" where
  "ensure_remaining_items r count min_item_size =
     rbind (ok_or (checked_mul count min_item_size) InvalidEncoding) (\<lambda>required.
       if required \<le> remaining r then Inr () else Inl InvalidEncoding)"

definition read_array :: "usize \<Rightarrow> bytes wire_read" where
  "read_array n r = read_exact n r"

definition MAGIC :: bytes where
  "MAGIC = ascii ''golden-dkg-wire-v3''"

definition expect_magic :: "unit wire_read" where
  "expect_magic r =
     rbind (read_exact (length MAGIC) r) (\<lambda>(bs, r1).
       if bs = MAGIC then Inr ((), r1) else Inl InvalidEncoding)"

definition reader_finish :: "wire_reader \<Rightarrow> unit result" where
  "reader_finish r =
     (if reader_cursor r = length (reader_bytes r) then Inr () else Inl InvalidEncoding)"

section \<open>Fields\<close>

definition write_u32 :: "u32 \<Rightarrow> bytes" where
  "write_u32 value = u32_be value"

definition write_len :: "usize \<Rightarrow> bytes" where
  "write_len value = u64_be value"

definition write_context_field :: "bytes \<Rightarrow> bytes" where
  "write_context_field bs = write_len (length bs) @ bs"

definition expect_context_field :: "bytes \<Rightarrow> unit wire_read" where
  "expect_context_field expected r =
     rbind (read_len r) (\<lambda>(len, r1).
     rbind (read_exact len r1) (\<lambda>(bs, r2).
       if bs = expected then Inr ((), r2) else Inl InvalidEncoding))"

definition write_scalar :: "('s, 'e, 'z) golden_group_scheme \<Rightarrow> 's \<Rightarrow> bytes" where
  "write_scalar G s = scalar_to_repr G s"

definition read_scalar :: "('s, 'e, 'z) golden_group_scheme \<Rightarrow> 's wire_read" where
  "read_scalar G r =
     rbind (read_exact (repr_bytes G) r) (\<lambda>(bs, r1).
     rbind (repr_try_from (repr_bytes G) bs) (\<lambda>repr.
     rbind (scalar_from_repr G repr) (\<lambda>s. Inr (s, r1))))"

definition write_element :: "('s, 'e, 'z) golden_group_scheme \<Rightarrow> 'e \<Rightarrow> bytes" where
  "write_element G p = encode_element G p"

definition read_element :: "('s, 'e, 'z) golden_group_scheme \<Rightarrow> 'e wire_read" where
  "read_element G r =
     rbind (read_exact (element_repr_bytes G) r) (\<lambda>(bs, r1).
     rbind (repr_try_from (element_repr_bytes G) bs) (\<lambda>repr.
     rbind (decode_element G repr) (\<lambda>p. Inr (p, r1))))"

definition ensure_increasing ::
  "participant_index option \<Rightarrow> participant_index \<Rightarrow> participant_index option result" where
  "ensure_increasing prev next_index =
     (if (case prev of None \<Rightarrow> False | Some previous \<Rightarrow> next_index \<le> previous)
      then Inl (DuplicateParticipantIndex (index_get next_index))
      else Inr (Some next_index))"

text \<open>\<open>for _ in 0..len { items.push(read(reader)?) }\<close>\<close>

primrec read_many :: "nat \<Rightarrow> 'a wire_read \<Rightarrow> 'a list wire_read" where
  "read_many 0 item r = Inr ([], r)"
| "read_many (Suc n) item r =
     rbind (item r) (\<lambda>(v, r1). rbind (read_many n item r1) (\<lambda>(vs, r2). Inr (v # vs, r2)))"

section \<open>The envelope\<close>

text \<open>The trait \<open>WireMessage\<close>: the tag, the context fields in order, and the nested codec.\<close>

record 'a wire_message =
  wm_tag :: byte
  wm_context :: "bytes list"
  wm_write :: "'a \<Rightarrow> bytes"
  wm_read :: "'a wire_read"

definition write_wire_context :: "('a, 'z) wire_message_scheme \<Rightarrow> bytes" where
  "write_wire_context M = concat (map write_context_field (wm_context M))"

definition read_wire_context :: "('a, 'z) wire_message_scheme \<Rightarrow> unit wire_read" where
  "read_wire_context M r =
     rbind (rfold (\<lambda>r field. rbind (expect_context_field field r) (\<lambda>(_, r1). Inr r1)) r (wm_context M))
       (\<lambda>r1. Inr ((), r1))"

definition to_wire_bytes :: "('a, 'z) wire_message_scheme \<Rightarrow> 'a \<Rightarrow> bytes" where
  "to_wire_bytes M v = MAGIC @ wm_tag M # write_wire_context M @ wm_write M v"

definition from_wire_bytes :: "('a, 'z) wire_message_scheme \<Rightarrow> bytes \<Rightarrow> 'a result" where
  "from_wire_bytes M bs =
     rbind (expect_magic (wire_reader_new bs)) (\<lambda>(_, r1).
     rbind (read_u8 r1) (\<lambda>(tag, r2).
     if tag \<noteq> wm_tag M then Inl InvalidEncoding
     else rbind (read_wire_context M r2) (\<lambda>(_, r3).
          rbind (wm_read M r3) (\<lambda>(v, r4).
          rbind (reader_finish r4) (\<lambda>_. Inr v)))))"

section \<open>Steps of the reader\<close>

text \<open>\<open>wire_step r bs r'\<close>: the reader moves over exactly the bytes \<open>bs\<close>, within its slice.\<close>

definition wire_step :: "wire_reader \<Rightarrow> bytes \<Rightarrow> wire_reader \<Rightarrow> bool" where
  "wire_step r bs r' \<longleftrightarrow>
     r' = r\<lparr>reader_cursor := reader_cursor r + length bs\<rparr>
     \<and> reader_cursor r + length bs \<le> length (reader_bytes r)
     \<and> reader_cursor r + length bs < 2 ^ 64
     \<and> take (length bs) (drop (reader_cursor r) (reader_bytes r)) = bs"

lemma read_exact_iff [wire_simps]:
  "read_exact len r = Inr (bs, r') \<longleftrightarrow> length bs = len \<and> wire_step r bs r'"
  by (auto simp: read_exact_def checked_add_def wire_step_def ok_or_def)

lemma wire_step_Nil [wire_simps]:
  "wire_step r [] r' \<longleftrightarrow> r' = r \<and> reader_cursor r \<le> length (reader_bytes r) \<and> reader_cursor r < 2 ^ 64"
  by (auto simp: wire_step_def)

lemma wire_step_append:
  "wire_step r (xs @ ys) r' \<longleftrightarrow> (\<exists>r1. wire_step r xs r1 \<and> wire_step r1 ys r')"
proof -
  let ?d = "drop (reader_cursor r) (reader_bytes r)"
  have "take (length xs + length ys) ?d = xs @ ys \<longleftrightarrow>
      take (length xs) ?d = xs \<and> take (length ys) (drop (length xs) ?d) = ys"
    if "length xs + length ys \<le> length ?d"
    using that by (simp add: take_add append_eq_append_conv)
  then show ?thesis
    by (auto simp: wire_step_def add.assoc[symmetric] add.commute[of "length xs"] drop_drop)
qed

lemma wire_step_bound:
  "wire_step r bs r' \<Longrightarrow> length bs \<le> remaining r \<and> length bs < 2 ^ 64"
  by (auto simp: wire_step_def remaining_def)

text \<open>The allocation guard never rejects what the following reads accept.\<close>

lemma ensure_remaining_items_step:
  "wire_step r bs r' \<Longrightarrow> length bs = count * item \<Longrightarrow> ensure_remaining_items r count item = Inr ()"
  using wire_step_bound[of r bs r'] by (simp add: ensure_remaining_items_def checked_mul_def)

lemma be_bytes_from_be_iff: "length bs = n \<Longrightarrow> be_bytes n v = bs \<longleftrightarrow> from_be bs = v mod 256 ^ n"
  using be_bytes_from_be[of bs n] from_be_be_bytes[of n v] be_bytes_mod[of n n v] by auto

lemma read_u8_iff [wire_simps]: "read_u8 r = Inr (b, r') \<longleftrightarrow> wire_step r [b] r'"
  by (auto simp: read_u8_def read_exact_iff length_Suc_conv)

lemma read_u32_iff [wire_simps]: "read_u32 r = Inr (w, r') \<longleftrightarrow> wire_step r (write_u32 w) r'"
proof -
  have "word_of_nat (from_be bs) = w \<longleftrightarrow> bs = u32_be w" if "length bs = 4" for bs
  proof -
    have lt: "from_be bs < 2 ^ 32" using from_be_less[of bs] that by simp
    have "word_of_nat (from_be bs) = w \<longleftrightarrow> from_be bs = unat w"
      using lt by (auto simp: unat_of_nat intro: unsigned_word_eqI[where 'a = nat])
    also have "\<dots> \<longleftrightarrow> bs = u32_be w"
      using be_bytes_from_be[OF that] from_be_inverse[OF u32_lt] by metis
    finally show ?thesis .
  qed
  then have key: "(length bs = 4 \<and> wire_step r bs r' \<and> word_of_nat (from_be bs) = w)
      \<longleftrightarrow> (length bs = 4 \<and> wire_step r bs r' \<and> bs = u32_be w)" for bs by blast
  have "read_u32 r = Inr (w, r') \<longleftrightarrow>
      (\<exists>bs. length bs = 4 \<and> wire_step r bs r' \<and> word_of_nat (from_be bs) = w)"
    by (auto simp: read_u32_def read_exact_iff)
  then show ?thesis unfolding key by (auto simp: write_u32_def)
qed

lemma read_len_iff [wire_simps]: "read_len r = Inr (n, r') \<longleftrightarrow> n < 2 ^ 64 \<and> wire_step r (write_len n) r'"
proof -
  have "unat (word_of_nat (from_be bs) :: u64) = n \<longleftrightarrow> n < 2 ^ 64 \<and> bs = u64_be n" if "length bs = 8" for bs
  proof -
    have lt: "from_be bs < 2 ^ 64" using from_be_less[of bs] that by simp
    then have "unat (word_of_nat (from_be bs) :: u64) = n \<longleftrightarrow> from_be bs = n"
      by (simp add: unat_of_nat)
    also have "\<dots> \<longleftrightarrow> n < 2 ^ 64 \<and> bs = u64_be n"
      using be_bytes_from_be[OF that] from_be_inverse[of n 8] lt by auto
    finally show ?thesis .
  qed
  then have key: "(length bs = 8 \<and> wire_step r bs r' \<and> unat (word_of_nat (from_be bs) :: u64) = n)
      \<longleftrightarrow> (length bs = 8 \<and> wire_step r bs r' \<and> n < 2 ^ 64 \<and> bs = u64_be n)" for bs by blast
  have "read_len r = Inr (n, r') \<longleftrightarrow>
      (\<exists>bs. length bs = 8 \<and> wire_step r bs r' \<and> unat (word_of_nat (from_be bs) :: u64) = n)"
    by (auto simp: read_len_def read_u64_def read_exact_iff)
  then show ?thesis unfolding key by (auto simp: write_len_def)
qed

lemma expect_magic_iff [wire_simps]: "expect_magic r = Inr (u, r') \<longleftrightarrow> wire_step r MAGIC r'"
  by (auto simp: expect_magic_def read_exact_iff split: if_splits)

lemma expect_context_field_iff [wire_simps]:
  "length field < 2 ^ 64 \<Longrightarrow>
    expect_context_field field r = Inr (u, r') \<longleftrightarrow> wire_step r (write_context_field field) r'"
  by (auto simp: expect_context_field_def wire_simps write_context_field_def wire_step_append
      split: if_splits)

text \<open>A reader inside its slice; every step leads to one.\<close>

definition wf_reader :: "wire_reader \<Rightarrow> bool" where
  "wf_reader r \<longleftrightarrow> reader_cursor r \<le> length (reader_bytes r) \<and> reader_cursor r < 2 ^ 64"

lemma wire_step_wf: "wire_step r bs r' \<Longrightarrow> wf_reader r'"
  by (auto simp: wire_step_def wf_reader_def)

lemma wire_step_empty [wire_simps]: "wf_reader r \<Longrightarrow> wire_step r [] r' \<longleftrightarrow> r' = r"
  by (auto simp: wire_step_Nil wf_reader_def)

lemma read_context_loop:
  assumes "\<forall>field \<in> set fs. length field < 2 ^ 64" and "wf_reader r"
  shows "rfold (\<lambda>r field. rbind (expect_context_field field r) (\<lambda>(_, r1). Inr r1)) r fs = Inr r'
    \<longleftrightarrow> wire_step r (concat (map write_context_field fs)) r'"
  using assms
proof (induction fs arbitrary: r)
  case (Cons field fs)
  have "rfold (\<lambda>r field. rbind (expect_context_field field r) (\<lambda>(_, r1). Inr r1)) r (field # fs) = Inr r'
      \<longleftrightarrow> (\<exists>r1. wire_step r (write_context_field field) r1
          \<and> rfold (\<lambda>r field. rbind (expect_context_field field r) (\<lambda>(_, r1). Inr r1)) r1 fs = Inr r')"
    using Cons.prems by (auto simp: expect_context_field_iff)
  also have "\<dots> \<longleftrightarrow> (\<exists>r1. wire_step r (write_context_field field) r1
          \<and> wire_step r1 (concat (map write_context_field fs)) r')"
    using Cons.IH Cons.prems(1) wire_step_wf by (metis list.set_intros(2))
  finally show ?case by (simp add: wire_step_append)
qed (simp add: wire_step_empty eq_commute)

lemma read_wire_context_iff:
  "\<forall>field \<in> set (wm_context M). length field < 2 ^ 64 \<Longrightarrow> wf_reader r \<Longrightarrow>
    read_wire_context M r = Inr (u, r') \<longleftrightarrow> wire_step r (write_wire_context M) r'"
  using read_context_loop[of "wm_context M" r r'] by (simp add: read_wire_context_def write_wire_context_def)

section \<open>The contract of a codec\<close>

locale wire_codec =
  fixes enc :: "'a \<Rightarrow> bytes" and dec :: "'a wire_read" and valid :: "'a \<Rightarrow> bool"
  assumes read_iff: "dec r = Inr (v, r') \<longleftrightarrow> valid v \<and> wire_step r (enc v) r'"
begin

text \<open>A valid value is dec back, whatever follows it.\<close>

lemma read_write:
  assumes "valid v" and "wf_reader r" and "length (reader_bytes r) < 2 ^ 64"
    and "drop (reader_cursor r) (reader_bytes r) = enc v @ rest"
  shows "dec r = Inr (v, r\<lparr>reader_cursor := reader_cursor r + length (enc v)\<rparr>)"
proof -
  have "reader_cursor r + length (enc v) \<le> length (reader_bytes r)"
    using assms(2) arg_cong[OF assms(4), of length]
    unfolding wf_reader_def length_drop length_append by linarith
  with assms show ?thesis by (simp add: read_iff wire_step_def)
qed

text \<open>The encoding is prefix free: two valid values that can start one byte string are equal.\<close>

lemma write_prefix_inject:
  assumes "valid v" and "valid w" and "enc v @ x = enc w @ y" and "length (enc v @ x) < 2 ^ 64"
  shows "v = w \<and> x = y"
proof -
  let ?r = "wire_reader_new (enc v @ x)"
  have "dec ?r = Inr (v, ?r\<lparr>reader_cursor := reader_cursor ?r + length (enc v)\<rparr>)"
    using assms by (intro read_write[where rest = x]) (simp_all add: wire_reader_new_def wf_reader_def)
  moreover have "dec ?r = Inr (w, ?r\<lparr>reader_cursor := reader_cursor ?r + length (enc w)\<rparr>)"
    using assms by (intro read_write[where rest = y]) (simp_all add: wire_reader_new_def wf_reader_def)
  ultimately have "v = w" by simp
  with assms(3) show ?thesis by simp
qed

lemma read_many_iff:
  "wf_reader r \<Longrightarrow> read_many n dec r = Inr (vs, r') \<longleftrightarrow>
    length vs = n \<and> list_all valid vs \<and> wire_step r (concat (map enc vs)) r'"
proof (induction n arbitrary: r vs)
  case 0
  then show ?case by (auto simp: wire_step_empty)
next
  case (Suc n)
  have "read_many (Suc n) dec r = Inr (vs, r') \<longleftrightarrow>
      (\<exists>v vs'. vs = v # vs' \<and> valid v \<and> (\<exists>r1. wire_step r (enc v) r1 \<and> read_many n dec r1 = Inr (vs', r')))"
    by (auto simp: read_iff)
  also have "\<dots> \<longleftrightarrow> (\<exists>v vs'. vs = v # vs' \<and> valid v \<and> (\<exists>r1. wire_step r (enc v) r1
      \<and> length vs' = n \<and> list_all valid vs' \<and> wire_step r1 (concat (map enc vs')) r'))"
    using Suc.IH wire_step_wf by blast
  also have "\<dots> \<longleftrightarrow> length vs = Suc n \<and> list_all valid vs \<and> wire_step r (concat (map enc vs)) r'"
    by (cases vs) (auto simp: wire_step_append)
  finally show ?case .
qed

end

text \<open>A standalone message type: its codec and its context.\<close>

locale wire_message_type = wire_codec "wm_write M" "wm_read M" valid
  for M :: "('a, 'z) wire_message_scheme" and valid +
  assumes context_short: "field \<in> set (wm_context M) \<Longrightarrow> length field < 2 ^ 64"
begin

text \<open>Decoding accepts exactly the encodings of valid values.\<close>

lemma from_wire_bytes_iff:
  "from_wire_bytes M bs = Inr v \<longleftrightarrow> valid v \<and> bs = to_wire_bytes M v \<and> length bs < 2 ^ 64"
proof -
  let ?r0 = "wire_reader_new bs"
  have "from_wire_bytes M bs = Inr v \<longleftrightarrow>
      (\<exists>r1 r2 r3 r4. wire_step ?r0 MAGIC r1 \<and> wire_step r1 [wm_tag M] r2
        \<and> (\<exists>u. read_wire_context M r2 = Inr (u, r3)) \<and> valid v \<and> wire_step r3 (wm_write M v) r4
        \<and> reader_finish r4 = Inr ())"
    unfolding from_wire_bytes_def by (auto simp: wire_simps read_iff split: if_splits) blast
  also have "\<dots> \<longleftrightarrow> (\<exists>r1 r2 r3 r4. wire_step ?r0 MAGIC r1 \<and> wire_step r1 [wm_tag M] r2
        \<and> wire_step r2 (write_wire_context M) r3 \<and> valid v \<and> wire_step r3 (wm_write M v) r4
        \<and> reader_finish r4 = Inr ())"
    using read_wire_context_iff[of M] context_short wire_step_wf by blast
  also have "\<dots> \<longleftrightarrow> valid v \<and> (\<exists>r4. wire_step ?r0 (to_wire_bytes M v) r4 \<and> reader_finish r4 = Inr ())"
  proof -
    have "to_wire_bytes M v = MAGIC @ [wm_tag M] @ write_wire_context M @ wm_write M v"
      by (simp add: to_wire_bytes_def)
    then show ?thesis by (simp only: wire_step_append) blast
  qed
  also have "\<dots> \<longleftrightarrow> valid v \<and> bs = to_wire_bytes M v \<and> length bs < 2 ^ 64"
    by (auto simp: wire_step_def wire_reader_new_def reader_finish_def)
  finally show ?thesis .
qed

end

text \<open>The tag separates the types: a value of one type is rejected as a value of another.\<close>

lemma from_wire_bytes_other_tag:
  assumes "wm_tag M \<noteq> wm_tag N"
  shows "from_wire_bytes N (to_wire_bytes M v) = Inl InvalidEncoding"
proof -
  let ?bs = "to_wire_bytes M v"
  let ?r0 = "wire_reader_new ?bs"
  let ?r1 = "?r0\<lparr>reader_cursor := length MAGIC\<rparr>"
  have "expect_magic ?r0 = Inr ((), ?r1)"
    by (simp add: expect_magic_iff wire_step_def wire_reader_new_def to_wire_bytes_def MAGIC_def)
  moreover have "read_u8 ?r1 = Inr (wm_tag M, ?r1\<lparr>reader_cursor := Suc (length MAGIC)\<rparr>)"
    by (simp add: read_u8_iff wire_step_def wire_reader_new_def to_wire_bytes_def MAGIC_def)
  ultimately show ?thesis using assms by (simp add: from_wire_bytes_def)
qed

end
