(* ===== verification/Wire_Types.thy ===== *)
theory Wire_Types
  imports Wire Tiny_Protocol Dealing_Checks
begin

text \<open>
  \<open>golden-core/src/wire.rs\<close>: the codecs of the protocol's types and their standalone messages. For
  every type, \<open>valid_*\<close> is what a decoded value satisfies, and the type's \<open>wire_codec\<close> instance says
  that decoding accepts exactly the encodings of valid values.
\<close>

section \<open>Fixed-size fields\<close>

definition write_session_id :: "session_id \<Rightarrow> bytes" where
  "write_session_id s = session_bytes s"

definition read_session_id :: "session_id wire_read" where
  "read_session_id r = rbind (read_array 32 r) (\<lambda>(bs, r1). Inr (SessionId bs, r1))"

definition write_nonce :: "dealer_message_nonce \<Rightarrow> bytes" where
  "write_nonce n = nonce_bytes n"

definition read_nonce :: "dealer_message_nonce wire_read" where
  "read_nonce r = rbind (read_array DEALER_MESSAGE_NONCE_BYTES r) (\<lambda>(bs, r1). Inr (DealerMessageNonce bs, r1))"

definition write_participant_index :: "participant_index \<Rightarrow> bytes" where
  "write_participant_index p = write_u32 (index_get p)"

definition read_participant_index :: "participant_index wire_read" where
  "read_participant_index r =
     rbind (read_u32 r) (\<lambda>(w, r1). rbind (participant_new w) (\<lambda>p. Inr (p, r1)))"

definition write_transcript_root :: "transcript_root \<Rightarrow> bytes" where
  "write_transcript_root root = root"

definition read_transcript_root :: "transcript_root wire_read" where
  "read_transcript_root r = read_array 32 r"

definition valid_session_id :: "session_id \<Rightarrow> bool" where
  "valid_session_id s \<longleftrightarrow> length (session_bytes s) = 32"

definition valid_nonce :: "dealer_message_nonce \<Rightarrow> bool" where
  "valid_nonce n \<longleftrightarrow> length (nonce_bytes n) = 32"

definition valid_participant_index :: "participant_index \<Rightarrow> bool" where
  "valid_participant_index p \<longleftrightarrow> index_get p \<noteq> 0"

definition valid_transcript_root :: "transcript_root \<Rightarrow> bool" where
  "valid_transcript_root root \<longleftrightarrow> length root = 32"

interpretation session_id_wire: wire_codec write_session_id read_session_id valid_session_id
proof
  show "read_session_id r = Inr (v, r') \<longleftrightarrow> valid_session_id v \<and> wire_step r (write_session_id v) r'" for r v r'
    by (cases v) (auto simp: read_session_id_def read_array_def wire_simps valid_session_id_def write_session_id_def)
qed

interpretation nonce_wire: wire_codec write_nonce read_nonce valid_nonce
proof
  show "read_nonce r = Inr (v, r') \<longleftrightarrow> valid_nonce v \<and> wire_step r (write_nonce v) r'" for r v r'
    by (cases v) (auto simp: read_nonce_def read_array_def wire_simps valid_nonce_def write_nonce_def
        DEALER_MESSAGE_NONCE_BYTES_def)
qed

interpretation participant_index_wire: wire_codec write_participant_index read_participant_index valid_participant_index
proof
  show "read_participant_index r = Inr (v, r') \<longleftrightarrow> valid_participant_index v \<and> wire_step r (write_participant_index v) r'"
    for r v r'
    by (cases v) (auto simp: read_participant_index_def wire_simps participant_new_get
        valid_participant_index_def write_participant_index_def)
qed

interpretation transcript_root_wire: wire_codec write_transcript_root read_transcript_root valid_transcript_root
  by unfold_locales (auto simp: read_transcript_root_def read_array_def wire_simps
      valid_transcript_root_def write_transcript_root_def)

lemmas fixed_codecs [wire_simps] = session_id_wire.read_iff nonce_wire.read_iff
  participant_index_wire.read_iff transcript_root_wire.read_iff

text \<open>Scalars and elements, for every backend with canonical encodings.\<close>

lemma scalar_codec:
  assumes "golden_codec G"
  shows "wire_codec (write_scalar G) (read_scalar G) (\<lambda>_. True)"
proof
  fix r v r'
  have "scalar_from_repr G b = Inr v \<longleftrightarrow> b = scalar_to_repr G v" for b
    using golden_codec.scalar_decode[OF assms] golden_codec.scalar_canonical[OF assms] by metis
  then show "read_scalar G r = Inr (v, r') \<longleftrightarrow> True \<and> wire_step r (write_scalar G v) r'"
    using golden_codec.scalar_length[OF assms]
    by (auto simp: read_scalar_def wire_simps repr_try_from_def write_scalar_def split: if_splits)
qed

lemma element_codec:
  assumes "golden_codec G"
  shows "wire_codec (write_element G) (read_element G) (\<lambda>_. True)"
proof
  fix r v r'
  have "decode_element G b = Inr v \<longleftrightarrow> b = encode_element G v" for b
    using golden_codec.element_decode[OF assms] golden_codec.element_canonical[OF assms] by metis
  then show "read_element G r = Inr (v, r') \<longleftrightarrow> True \<and> wire_step r (write_element G v) r'"
    using golden_codec.element_length[OF assms]
    by (auto simp: read_element_def wire_simps repr_try_from_def write_element_def split: if_splits)
qed

sublocale golden_codec \<subseteq> scalar_wire: wire_codec "write_scalar G" "read_scalar G" "\<lambda>_. True"
  by (rule scalar_codec[OF golden_codec_axioms])

sublocale golden_codec \<subseteq> element_wire: wire_codec "write_element G" "read_element G" "\<lambda>_. True"
  by (rule element_codec[OF golden_codec_axioms])

section \<open>Shares, commitments and identity proofs\<close>

definition write_encrypted_share ::
  "('s, 'e, 'z) golden_group_scheme \<Rightarrow> ('s, 'e) encrypted_share \<Rightarrow> bytes" where
  "write_encrypted_share G es = write_element G (es_pad_commitment es) @ write_scalar G (es_encrypted_share es)"

definition read_encrypted_share ::
  "('s, 'e, 'z) golden_group_scheme \<Rightarrow> ('s, 'e) encrypted_share wire_read" where
  "read_encrypted_share G r =
     rbind (read_element G r) (\<lambda>(p, r1).
     rbind (read_scalar G r1) (\<lambda>(s, r2).
       Inr (\<lparr>es_pad_commitment = p, es_encrypted_share = s\<rparr>, r2)))"

definition write_identity_key_proof ::
  "('s, 'e, 'z) golden_group_scheme \<Rightarrow> ('s, 'e) identity_key_proof \<Rightarrow> bytes" where
  "write_identity_key_proof G pr = write_element G (nonce_point pr) @ write_scalar G (response pr)"

definition read_identity_key_proof ::
  "('s, 'e, 'z) golden_group_scheme \<Rightarrow> ('s, 'e) identity_key_proof wire_read" where
  "read_identity_key_proof G r =
     rbind (read_element G r) (\<lambda>(p, r1).
     rbind (read_scalar G r1) (\<lambda>(s, r2). Inr (\<lparr>nonce_point = p, response = s\<rparr>, r2)))"

definition write_commitment ::
  "('s, 'e, 'z) golden_group_scheme \<Rightarrow> 'e feldman_commitment \<Rightarrow> bytes" where
  "write_commitment G com =
     write_len (length (commitment_coefficients com))
     @ concat (map (write_element G) (commitment_coefficients com))"

definition read_commitment ::
  "('s, 'e, 'z) golden_group_scheme \<Rightarrow> 'e feldman_commitment wire_read" where
  "read_commitment G r =
     rbind (read_len r) (\<lambda>(len, r1).
     rbind (ensure_remaining_items r1 len (element_repr_bytes G)) (\<lambda>_.
     rbind (read_many len (read_element G) r1) (\<lambda>(cs, r2).
     rbind (commitment_from_coefficients cs) (\<lambda>com. Inr (com, r2)))))"

definition valid_commitment :: "'e feldman_commitment \<Rightarrow> bool" where
  "valid_commitment com \<longleftrightarrow>
     commitment_coefficients com \<noteq> [] \<and> length (commitment_coefficients com) < 2 ^ 64"

lemma encrypted_share_codec:
  assumes "golden_codec G"
  shows "wire_codec (write_encrypted_share G) (read_encrypted_share G) (\<lambda>_. True)"
proof
  show "read_encrypted_share G r = Inr (v, r') \<longleftrightarrow> True \<and> wire_step r (write_encrypted_share G v) r'" for r v r'
    by (cases v) (auto simp: read_encrypted_share_def write_encrypted_share_def wire_step_append
        wire_codec.read_iff[OF element_codec[OF assms]] wire_codec.read_iff[OF scalar_codec[OF assms]])
qed

lemma identity_key_proof_codec:
  assumes "golden_codec G"
  shows "wire_codec (write_identity_key_proof G) (read_identity_key_proof G) (\<lambda>_. True)"
proof
  show "read_identity_key_proof G r = Inr (v, r') \<longleftrightarrow> True \<and> wire_step r (write_identity_key_proof G v) r'" for r v r'
    by (cases v) (auto simp: read_identity_key_proof_def write_identity_key_proof_def wire_step_append
        wire_codec.read_iff[OF element_codec[OF assms]] wire_codec.read_iff[OF scalar_codec[OF assms]])
qed

lemma commitment_codec:
  assumes "golden_codec G"
  shows "wire_codec (write_commitment G) (read_commitment G) valid_commitment"
proof
  fix r r' and v :: "'b feldman_commitment"
  note many = wire_codec.read_many_iff[OF element_codec[OF assms]]
  have size: "length (concat (map (write_element G) cs)) = length cs * element_repr_bytes G" for cs
    by (rule length_concat_fixed) (simp add: write_element_def golden_codec.element_length[OF assms])
  have "read_commitment G r = Inr (v, r') \<longleftrightarrow>
      (\<exists>n r1 cs. n < 2 ^ 64 \<and> wire_step r (write_len n) r1
        \<and> ensure_remaining_items r1 n (element_repr_bytes G) = Inr ()
        \<and> read_many n (read_element G) r1 = Inr (cs, r') \<and> cs \<noteq> [] \<and> v = \<lparr>commitment_coefficients = cs\<rparr>)"
    unfolding read_commitment_def
    by (auto simp: wire_simps commitment_from_coefficients_def split: if_splits)
  also have "\<dots> \<longleftrightarrow>
      (\<exists>n r1 cs. n < 2 ^ 64 \<and> wire_step r (write_len n) r1 \<and> length cs = n
        \<and> wire_step r1 (concat (map (write_element G) cs)) r' \<and> cs \<noteq> [] \<and> v = \<lparr>commitment_coefficients = cs\<rparr>)"
    using many[OF wire_step_wf] ensure_remaining_items_step[OF _ size] by (auto simp: list.pred_True) blast+
  also have "\<dots> \<longleftrightarrow> valid_commitment v \<and> wire_step r (write_commitment G v) r'"
    by (cases v) (auto simp: valid_commitment_def write_commitment_def wire_step_append)
  finally show "read_commitment G r = Inr (v, r') \<longleftrightarrow> valid_commitment v \<and> wire_step r (write_commitment G v) r'" .
qed

section \<open>Registries and configurations\<close>

definition write_registry_entry ::
  "('s, 'e, 'z) golden_group_scheme \<Rightarrow> participant_index \<times> 'e \<times> ('s, 'e) identity_key_proof \<Rightarrow> bytes" where
  "write_registry_entry G = (\<lambda>(p, pk, pr).
     write_participant_index p @ write_element G pk @ write_identity_key_proof G pr)"

definition write_registry ::
  "('s, 'e, 'z) golden_group_scheme \<Rightarrow> ('s, 'e) participant_registry \<Rightarrow> bytes" where
  "write_registry G reg =
     write_len (registry_len reg)
     @ concat (map (write_registry_entry G) (registry_entries_with_proofs reg))"

primrec read_registry_entries ::
  "('s, 'e, 'z) golden_group_scheme \<Rightarrow> nat \<Rightarrow> participant_index option
    \<Rightarrow> (participant_index \<times> 'e \<times> ('s, 'e) identity_key_proof) list wire_read" where
  "read_registry_entries G 0 prev r = Inr ([], r)"
| "read_registry_entries G (Suc n) prev r =
     rbind (read_participant_index r) (\<lambda>(p, r1).
     rbind (ensure_increasing prev p) (\<lambda>prev1.
     rbind (read_element G r1) (\<lambda>(pk, r2).
     rbind (read_identity_key_proof G r2) (\<lambda>(pr, r3).
     rbind (read_registry_entries G n prev1 r3) (\<lambda>(es, r4). Inr ((p, pk, pr) # es, r4))))))"

definition read_registry ::
  "('s::field, 'e::ab_group_add, 'z) golden_group_scheme \<Rightarrow> ('s, 'e) participant_registry wire_read" where
  "read_registry G r =
     rbind (read_len r) (\<lambda>(len, r1).
     let entry_len = 4 + 2 * element_repr_bytes G + repr_bytes G in
     rbind (ensure_remaining_items r1 len entry_len) (\<lambda>_.
     rbind (read_registry_entries G len None r1) (\<lambda>(entries, r2).
     rbind (registry_new G entries) (\<lambda>reg. Inr (reg, r2)))))"

definition write_config ::
  "('s, 'e, 'z) golden_group_scheme \<Rightarrow> ('s, 'e) dkg_config \<Rightarrow> bytes" where
  "write_config G config =
     write_len (cfg_threshold config) @ write_session_id (cfg_session_id config)
     @ write_scalar G (cfg_beta config) @ write_registry G (cfg_registry config)"

definition read_config ::
  "('s::field, 'e::ab_group_add, 'z) golden_group_scheme \<Rightarrow> ('s, 'e) dkg_config wire_read" where
  "read_config G r =
     rbind (read_len r) (\<lambda>(threshold, r1).
     rbind (read_session_id r1) (\<lambda>(session, r2).
     rbind (read_scalar G r2) (\<lambda>(beta, r3).
     rbind (read_registry G r3) (\<lambda>(reg, r4).
     rbind (dkg_config_new threshold session beta reg) (\<lambda>config. Inr (config, r4))))))"

text \<open>The receivers of successive entries increase.\<close>

primrec increasing_from :: "participant_index option \<Rightarrow> participant_index list \<Rightarrow> bool" where
  "increasing_from prev [] \<longleftrightarrow> True"
| "increasing_from prev (p # ps) \<longleftrightarrow>
     (case prev of None \<Rightarrow> True | Some q \<Rightarrow> q < p) \<and> increasing_from (Some p) ps"

lemma increasing_from_sorted:
  "increasing_from prev ps \<longleftrightarrow> sorted_wrt (<) ((case prev of None \<Rightarrow> [] | Some q \<Rightarrow> [q]) @ ps)"
  by (induction ps arbitrary: prev) (auto split: option.splits intro: less_trans)

lemma ensure_increasing_Inr [wire_simps]:
  "ensure_increasing prev p = Inr prev1 \<longleftrightarrow> (case prev of None \<Rightarrow> True | Some q \<Rightarrow> q < p) \<and> prev1 = Some p"
  by (auto simp: ensure_increasing_def split: option.splits)

lemma read_registry_entries_iff:
  assumes "golden_codec G" and "wf_reader r"
  shows "read_registry_entries G n prev r = Inr (es, r') \<longleftrightarrow>
    length es = n \<and> increasing_from prev (map fst es) \<and> list_all (valid_participant_index \<circ> fst) es
    \<and> wire_step r (concat (map (write_registry_entry G) es)) r'"
  using assms(2)
proof (induction n arbitrary: prev r es)
  case 0
  then show ?case by (auto simp: wire_step_empty)
next
  case (Suc n)
  note codecs = wire_simps wire_codec.read_iff[OF element_codec[OF assms(1)]]
    wire_codec.read_iff[OF identity_key_proof_codec[OF assms(1)]]
  have "read_registry_entries G (Suc n) prev r = Inr (es, r') \<longleftrightarrow>
      (\<exists>p pk pr es'. es = (p, pk, pr) # es' \<and> valid_participant_index p
        \<and> (case prev of None \<Rightarrow> True | Some q \<Rightarrow> q < p)
        \<and> (\<exists>r1. wire_step r (write_registry_entry G (p, pk, pr)) r1
            \<and> read_registry_entries G n (Some p) r1 = Inr (es', r')))"
    unfolding read_registry_entries.simps write_registry_entry_def prod.case wire_step_append
    by (auto simp: codecs) blast+
  also have "\<dots> \<longleftrightarrow> (\<exists>p pk pr es'. es = (p, pk, pr) # es' \<and> valid_participant_index p
        \<and> (case prev of None \<Rightarrow> True | Some q \<Rightarrow> q < p)
        \<and> (\<exists>r1. wire_step r (write_registry_entry G (p, pk, pr)) r1
            \<and> length es' = n \<and> increasing_from (Some p) (map fst es') \<and> list_all (valid_participant_index \<circ> fst) es'
            \<and> wire_step r1 (concat (map (write_registry_entry G) es')) r'))"
    using Suc.IH wire_step_wf by blast
  also have "\<dots> \<longleftrightarrow> length es = Suc n \<and> increasing_from prev (map fst es)
      \<and> list_all (valid_participant_index \<circ> fst) es \<and> wire_step r (concat (map (write_registry_entry G) es)) r'"
  proof (cases es)
    case (Cons e es')
    obtain p pk pr where e: "e = (p, pk, pr)" by (rule prod_cases3)
    show ?thesis unfolding Cons e by (simp add: wire_step_append) blast
  qed simp
  finally show ?case .
qed

text \<open>A registry that was built from its own entries, in order and with nonzero indexes.\<close>

definition valid_registry ::
  "('s::field, 'e::ab_group_add, 'z) golden_group_scheme \<Rightarrow> ('s, 'e) participant_registry \<Rightarrow> bool" where
  "valid_registry G reg \<longleftrightarrow>
     registry_new G (registry_entries_with_proofs reg) = Inr reg
     \<and> sorted_wrt (<) (registry_indexes reg) \<and> list_all valid_participant_index (registry_indexes reg)
     \<and> registry_len reg < 2 ^ 64"

lemma entries_with_proofs_eq: "registry_entries_with_proofs reg = registry_participants reg"
  by (simp add: registry_entries_with_proofs_def split_beta)

lemma fold_insert_ascending:
  "sorted_wrt (<) (map fst es) \<Longrightarrow> fold (\<lambda>(p, v). bt_insert p v) es bt_empty = es"
proof (induction es rule: rev_induct)
  case (snoc e es)
  then have "\<forall>x \<in> set (bt_keys es). x < fst e" by (auto simp: sorted_wrt_append bt_keys_def)
  with snoc show ?case
    by (auto simp: sorted_wrt_append bt_insert_last split: prod.splits)
qed (simp add: bt_empty_def)

lemma registry_new_ascending:
  assumes "golden_codec G" and "sorted_wrt (<) (map fst es)" and "registry_new G es = Inr reg"
  shows "registry_participants reg = es"
  using assms(3) by (auto simp: registry_new_Inr[OF assms(1)] fold_insert_ascending[OF assms(2)] Let_def)

lemma write_registry_entry_length:
  "golden_codec G \<Longrightarrow> length (write_registry_entry G e) = 4 + 2 * element_repr_bytes G + repr_bytes G"
  by (auto simp: write_registry_entry_def write_participant_index_def write_u32_def write_element_def
      write_identity_key_proof_def write_scalar_def golden_codec.element_length golden_codec.scalar_length
      split: prod.splits)

lemma registry_codec:
  assumes "golden_codec G"
  shows "wire_codec (write_registry G) (read_registry G) (valid_registry G)"
proof
  fix r r' and v :: "('a, 'b) participant_registry"
  let ?item = "4 + 2 * element_repr_bytes G + repr_bytes G"
  have size: "length (concat (map (write_registry_entry G) es)) = length es * ?item" for es
    by (rule length_concat_fixed) (rule write_registry_entry_length[OF assms])
  have "read_registry G r = Inr (v, r') \<longleftrightarrow>
      (\<exists>n r1 es. n < 2 ^ 64 \<and> wire_step r (write_len n) r1
        \<and> ensure_remaining_items r1 n ?item = Inr ()
        \<and> read_registry_entries G n None r1 = Inr (es, r') \<and> registry_new G es = Inr v)"
    unfolding read_registry_def Let_def by (auto simp: wire_simps)
  also have "\<dots> \<longleftrightarrow>
      (\<exists>n r1 es. es = registry_participants v \<and> n < 2 ^ 64 \<and> wire_step r (write_len n) r1 \<and> length es = n
        \<and> sorted_wrt (<) (map fst es) \<and> list_all (valid_participant_index \<circ> fst) es
        \<and> wire_step r1 (concat (map (write_registry_entry G) es)) r' \<and> registry_new G es = Inr v)"
  proof -
    have "wire_step r (write_len n) r1 \<and> ensure_remaining_items r1 n ?item = Inr ()
        \<and> read_registry_entries G n None r1 = Inr (es, r') \<and> registry_new G es = Inr v
      \<longleftrightarrow> es = registry_participants v \<and> wire_step r (write_len n) r1 \<and> length es = n
        \<and> sorted_wrt (<) (map fst es) \<and> list_all (valid_participant_index \<circ> fst) es
        \<and> wire_step r1 (concat (map (write_registry_entry G) es)) r' \<and> registry_new G es = Inr v" for n r1 es
    proof (cases "wire_step r (write_len n) r1")
      case True
      note read = read_registry_entries_iff[OF assms wire_step_wf[OF True], of n None es r']
      show ?thesis
        unfolding read increasing_from_sorted option.case append.simps
        using True registry_new_ascending[OF assms, of es v] ensure_remaining_items_step[OF _ size, of r1 es r']
        by blast
    qed blast
    then show ?thesis by blast
  qed
  also have "\<dots> \<longleftrightarrow> valid_registry G v \<and> wire_step r (write_registry G v) r'"
    unfolding valid_registry_def write_registry_def wire_step_append entries_with_proofs_eq
      registry_indexes_def bt_keys_def registry_len_def list.pred_map by blast
  finally show "read_registry G r = Inr (v, r') \<longleftrightarrow> valid_registry G v \<and> wire_step r (write_registry G v) r'" .
qed

definition valid_config ::
  "('s::field, 'e::ab_group_add, 'z) golden_group_scheme \<Rightarrow> ('s, 'e) dkg_config \<Rightarrow> bool" where
  "valid_config G config \<longleftrightarrow>
     0 < cfg_threshold config \<and> cfg_threshold config \<le> registry_len (cfg_registry config)
     \<and> cfg_threshold config < 2 ^ 64 \<and> valid_session_id (cfg_session_id config)
     \<and> valid_registry G (cfg_registry config)"

lemma config_codec:
  assumes "golden_codec G"
  shows "wire_codec (write_config G) (read_config G) (valid_config G)"
proof
  fix r r' and v :: "('a, 'b) dkg_config"
  obtain t s b reg where v: "v = \<lparr>cfg_threshold = t, cfg_session_id = s, cfg_beta = b, cfg_registry = reg\<rparr>"
    by (cases v) auto
  have new: "dkg_config_new t' s' b' reg' = Inr v \<longleftrightarrow>
      t' = t \<and> s' = s \<and> b' = b \<and> reg' = reg \<and> 0 < t \<and> t \<le> registry_len reg"
    for t' s' b' reg'
    by (auto simp: dkg_config_new_def v)
  have "read_config G r = Inr (v, r') \<longleftrightarrow>
      (\<exists>t' r1 s' r2 b' r3 reg'. t' < 2 ^ 64 \<and> wire_step r (write_len t') r1
        \<and> valid_session_id s' \<and> wire_step r1 (write_session_id s') r2
        \<and> wire_step r2 (write_scalar G b') r3
        \<and> valid_registry G reg' \<and> wire_step r3 (write_registry G reg') r'
        \<and> dkg_config_new t' s' b' reg' = Inr v)"
    unfolding read_config_def
    by (auto simp: wire_simps wire_codec.read_iff[OF scalar_codec[OF assms]]
        wire_codec.read_iff[OF registry_codec[OF assms]])
  also have "\<dots> \<longleftrightarrow> valid_config G v \<and> wire_step r (write_config G v) r'"
    unfolding new valid_config_def write_config_def wire_step_append by (simp add: v, (blast)?)
  finally show "read_config G r = Inr (v, r') \<longleftrightarrow> valid_config G v \<and> wire_step r (write_config G v) r'" .
qed

end
