(* ===== verification/Wire_Messages.thy ===== *)
theory Wire_Messages
  imports Wire_Types
begin

text \<open>
  \<open>golden-core/src/wire.rs\<close>: the dealer message, the broadcast of the protocol, and the loop that reads a
  counted map in increasing order of its keys. Decoding accepts exactly the canonical encoding
  of a valid value; the transcript root of a dealer message is recomputed, never read.
\<close>

section \<open>The dealer message\<close>

definition write_share_entry ::
  "('s, 'e, 'z) golden_group_scheme \<Rightarrow> participant_index \<times> ('s, 'e) encrypted_share \<Rightarrow> bytes" where
  "write_share_entry G = (\<lambda>(receiver, es). write_participant_index receiver @ write_encrypted_share G es)"

definition write_dealer_message ::
  "('s, 'e, 'z) golden_group_scheme \<Rightarrow> ('s, 'e) dealer_message \<Rightarrow> bytes" where
  "write_dealer_message G m =
     write_session_id (dm_session_id m)
     @ write_transcript_root (dm_registry_root m)
     @ write_participant_index (dm_dealer m)
     @ write_nonce (dm_msg_i m)
     @ write_commitment G (dm_commitment m)
     @ write_len (length (dm_encrypted_shares m))
     @ concat (map (write_share_entry G) (dm_encrypted_shares m))
     @ write_len (length (dm_proof m))
     @ dm_proof m"

definition wire_size_hint ::
  "('s, 'e, 'z) golden_group_scheme \<Rightarrow> ('s, 'e) dealer_message \<Rightarrow> usize" where
  "wire_size_hint G m =
     (let encrypted_share_len = 4 + element_repr_bytes G + repr_bytes G
      in 32 + 32 + 4 + 32
         + 8 + length (commitment_coefficients (dm_commitment m)) * element_repr_bytes G
         + 8 + length (dm_encrypted_shares m) * encrypted_share_len
         + 8 + length (dm_proof m))"

text \<open>
  The loop that reads entries with increasing participants into a map: \<open>prev\<close> is the last participant,
  \<open>ensure\<close> the check of the order, \<open>item\<close> the reader of a value.
\<close>

primrec read_ascending ::
  "(participant_index option \<Rightarrow> participant_index \<Rightarrow> participant_index option result) \<Rightarrow> 'v wire_read
    \<Rightarrow> nat \<Rightarrow> participant_index option \<Rightarrow> (participant_index, 'v) btree_map
    \<Rightarrow> (participant_index, 'v) btree_map wire_read" where
  "read_ascending ensure item 0 prev m r = Inr (m, r)"
| "read_ascending ensure item (Suc n) prev m r =
     rbind (read_participant_index r) (\<lambda>(p, r1).
     rbind (ensure prev p) (\<lambda>prev1.
     rbind (item r1) (\<lambda>(v, r2). read_ascending ensure item n prev1 (bt_insert p v m) r2)))"

definition read_encrypted_shares ::
  "('s, 'e, 'z) golden_group_scheme \<Rightarrow> nat \<Rightarrow> participant_index option \<Rightarrow> ('s, 'e) share_map
    \<Rightarrow> ('s, 'e) share_map wire_read" where
  "read_encrypted_shares G = read_ascending ensure_increasing (read_encrypted_share G)"

definition read_dealer_message ::
  "('s, 'e, 'z) golden_group_scheme \<Rightarrow> ('s, 'e) dealer_message wire_read" where
  "read_dealer_message G r =
     rbind (read_session_id r) (\<lambda>(session, r1).
     rbind (read_transcript_root r1) (\<lambda>(reg_root, r2).
     rbind (read_participant_index r2) (\<lambda>(dealer, r3).
     rbind (read_nonce r3) (\<lambda>(msg_i, r4).
     rbind (read_commitment G r4) (\<lambda>(commitment, r5).
     rbind (read_len r5) (\<lambda>(len, r6).
     let encrypted_share_len = 4 + element_repr_bytes G + repr_bytes G in
     rbind (ensure_remaining_items r6 len encrypted_share_len) (\<lambda>_.
     rbind (read_encrypted_shares G len None bt_empty r6) (\<lambda>(encrypted_shares, r7).
     rbind (read_len r7) (\<lambda>(proof_len, r8).
     rbind (read_exact proof_len r8) (\<lambda>(pr, r9).
     let message = \<lparr>dm_session_id = session, dm_registry_root = reg_root, dm_dealer = dealer,
                    dm_msg_i = msg_i, dm_commitment = commitment,
                    dm_encrypted_shares = encrypted_shares, dm_proof = pr,
                    dm_transcript_root = replicate 32 0\<rparr>
     in Inr (message\<lparr>dm_transcript_root := recompute_transcript_root G message\<rparr>, r9)))))))))))"

text \<open>What a decoded message satisfies.\<close>

definition valid_share_map :: "(participant_index, 'v) btree_map \<Rightarrow> bool" where
  "valid_share_map m \<longleftrightarrow>
     sorted_wrt (<) (map fst m) \<and> list_all (valid_participant_index \<circ> fst) m \<and> length m < 2 ^ 64"

definition valid_dealer_message ::
  "('s, 'e, 'z) golden_group_scheme \<Rightarrow> ('s, 'e) dealer_message \<Rightarrow> bool" where
  "valid_dealer_message G m \<longleftrightarrow>
     valid_session_id (dm_session_id m) \<and> valid_transcript_root (dm_registry_root m)
     \<and> valid_participant_index (dm_dealer m) \<and> valid_nonce (dm_msg_i m)
     \<and> valid_commitment (dm_commitment m) \<and> valid_share_map (dm_encrypted_shares m)
     \<and> length (dm_proof m) < 2 ^ 64 \<and> dm_transcript_root m = recompute_transcript_root G m"

lemma read_ascending_iff:
  assumes "wire_codec enc item (\<lambda>_. True)"
    and "\<And>prev p prev1. ensure prev p = Inr prev1 \<longleftrightarrow>
      (case prev of None \<Rightarrow> True | Some q \<Rightarrow> q < p) \<and> prev1 = Some p"
    and "wf_reader r" and "\<forall>k \<in> set (bt_keys m). case prev of None \<Rightarrow> False | Some q \<Rightarrow> k \<le> q"
  defines "entry \<equiv> \<lambda>(p, v). write_participant_index p @ enc v"
  shows "read_ascending ensure item n prev m r = Inr (m', r') \<longleftrightarrow>
    (\<exists>es. m' = m @ es \<and> length es = n \<and> increasing_from prev (map fst es)
      \<and> list_all (valid_participant_index \<circ> fst) es \<and> wire_step r (concat (map entry es)) r')"
  using assms(3,4)
proof (induction n arbitrary: prev m r)
  case 0
  then show ?case by (auto simp: wire_step_empty)
next
  case (Suc n)
  have app: "bt_insert p v m = m @ [(p, v)]" if "case prev of None \<Rightarrow> True | Some q \<Rightarrow> q < p" for p v
    using that Suc.prems(2) by (intro bt_insert_last) (auto split: option.splits)
  have inv: "\<forall>k \<in> set (bt_keys (m @ [(p, v)])). case Some p of None \<Rightarrow> False | Some q \<Rightarrow> k \<le> q"
    if "case prev of None \<Rightarrow> True | Some q \<Rightarrow> q < p" for p v
    using that Suc.prems(2) by (fastforce simp: bt_keys_def split: option.splits)
  have "read_ascending ensure item (Suc n) prev m r = Inr (m', r') \<longleftrightarrow>
      (\<exists>p v. valid_participant_index p \<and> (case prev of None \<Rightarrow> True | Some q \<Rightarrow> q < p)
        \<and> (\<exists>r1. wire_step r (entry (p, v)) r1
            \<and> read_ascending ensure item n (Some p) (m @ [(p, v)]) r1 = Inr (m', r')))"
    unfolding read_ascending.simps entry_def prod.case wire_step_append
    by (auto simp: wire_simps wire_codec.read_iff[OF assms(1)] assms(2) app) (blast | metis app)+
  also have "\<dots> \<longleftrightarrow> (\<exists>p v. valid_participant_index p \<and> (case prev of None \<Rightarrow> True | Some q \<Rightarrow> q < p)
        \<and> (\<exists>r1. wire_step r (entry (p, v)) r1
            \<and> (\<exists>es. m' = (m @ [(p, v)]) @ es \<and> length es = n \<and> increasing_from (Some p) (map fst es)
                \<and> list_all (valid_participant_index \<circ> fst) es \<and> wire_step r1 (concat (map entry es)) r')))"
    using Suc.IH[OF wire_step_wf inv] by blast
  also have "\<dots> \<longleftrightarrow> (\<exists>es. m' = m @ es \<and> length es = Suc n \<and> increasing_from prev (map fst es)
      \<and> list_all (valid_participant_index \<circ> fst) es \<and> wire_step r (concat (map entry es)) r')" (is "?l \<longleftrightarrow> ?r")
  proof
    assume ?l
    then obtain p v r1 es where "valid_participant_index p" "case prev of None \<Rightarrow> True | Some q \<Rightarrow> q < p"
      "wire_step r (entry (p, v)) r1" "m' = m @ (p, v) # es" "length es = n"
      "increasing_from (Some p) (map fst es)" "list_all (valid_participant_index \<circ> fst) es"
      "wire_step r1 (concat (map entry es)) r'" by auto
    then show ?r by (intro exI[of _ "(p, v) # es"]) (auto simp: wire_step_append)
  next
    assume ?r
    then obtain p v es where "m' = m @ (p, v) # es" "length es = n" "increasing_from prev (p # map fst es)"
      "valid_participant_index p" "list_all (valid_participant_index \<circ> fst) es"
      "wire_step r (entry (p, v) @ concat (map entry es)) r'"
      by (auto simp: length_Suc_conv)
    then show ?l unfolding wire_step_append increasing_from.simps by auto
  qed
  finally show ?case .
qed

text \<open>A counted map, as one field: the count, the allocation guard and the entries.\<close>

lemma read_counted_map_iff:
  assumes "wire_codec enc item (\<lambda>_. True)"
    and "\<And>prev p prev1. ensure prev p = Inr prev1 \<longleftrightarrow>
      (case prev of None \<Rightarrow> True | Some q \<Rightarrow> q < p) \<and> prev1 = Some p"
    and "\<And>v. length (enc v) = k"
  defines "entry \<equiv> \<lambda>(p, v). write_participant_index p @ enc v"
  shows "(\<exists>n r1. n < 2 ^ 64 \<and> n \<le> bound \<and> wire_step r (write_len n) r1
        \<and> ensure_remaining_items r1 n (4 + k) = Inr ()
        \<and> read_ascending ensure item n None bt_empty r1 = Inr (m, r'))
    \<longleftrightarrow> valid_share_map m \<and> length m \<le> bound \<and> wire_step r (write_len (length m) @ concat (map entry m)) r'"
proof -
  have size: "length (concat (map entry es)) = length es * (4 + k)" for es
    by (rule length_concat_fixed)
      (auto simp: entry_def write_participant_index_def write_u32_def assms(3) split: prod.splits)
  have key: "wire_step r (write_len n) r1 \<and> ensure_remaining_items r1 n (4 + k) = Inr ()
      \<and> read_ascending ensure item n None bt_empty r1 = Inr (m, r')
    \<longleftrightarrow> wire_step r (write_len n) r1 \<and> length m = n \<and> sorted_wrt (<) (map fst m)
      \<and> list_all (valid_participant_index \<circ> fst) m \<and> wire_step r1 (concat (map entry m)) r'" for n r1
  proof (cases "wire_step r (write_len n) r1")
    case True
    have "read_ascending ensure item n None [] r1 = Inr (m, r') \<longleftrightarrow>
        length m = n \<and> sorted_wrt (<) (map fst m)
        \<and> list_all (valid_participant_index \<circ> fst) m \<and> wire_step r1 (concat (map entry m)) r'"
      using read_ascending_iff[OF assms(1,2) wire_step_wf[OF True], of "[]" None n m r']
      unfolding increasing_from_sorted entry_def by (auto simp: bt_keys_def)
    then show ?thesis
      unfolding bt_empty_def using True ensure_remaining_items_step[OF _ size, of r1 m r'] by blast
  qed blast
  show ?thesis unfolding key valid_share_map_def wire_step_append by blast
qed

lemma write_share_entry_length:
  "golden_codec G \<Longrightarrow> length (write_share_entry G e) = 4 + element_repr_bytes G + repr_bytes G"
  by (auto simp: write_share_entry_def write_participant_index_def write_u32_def write_element_def
      write_encrypted_share_def write_scalar_def golden_codec.element_length golden_codec.scalar_length
      split: prod.splits)

lemma encrypted_share_length:
  "golden_codec G \<Longrightarrow> length (write_encrypted_share G v) = element_repr_bytes G + repr_bytes G"
  by (simp add: write_element_def write_encrypted_share_def write_scalar_def golden_codec.element_length
      golden_codec.scalar_length)

lemma read_share_map_iff:
  assumes "golden_codec G"
  shows "(\<exists>n r1. n < 2 ^ 64 \<and> wire_step r (write_len n) r1
        \<and> ensure_remaining_items r1 n (4 + element_repr_bytes G + repr_bytes G) = Inr ()
        \<and> read_encrypted_shares G n None bt_empty r1 = Inr (m, r'))
    \<longleftrightarrow> valid_share_map m \<and> wire_step r (write_len (length m) @ concat (map (write_share_entry G) m)) r'"
proof -
  have "(\<exists>n r1. n < 2 ^ 64 \<and> n \<le> 2 ^ 64 \<and> wire_step r (write_len n) r1
        \<and> ensure_remaining_items r1 n (4 + (element_repr_bytes G + repr_bytes G)) = Inr ()
        \<and> read_ascending ensure_increasing (read_encrypted_share G) n None bt_empty r1 = Inr (m, r'))
    \<longleftrightarrow> valid_share_map m \<and> length m \<le> 2 ^ 64
      \<and> wire_step r (write_len (length m) @ concat (map (\<lambda>(p, v). write_participant_index p @ write_encrypted_share G v) m)) r'"
    by (rule read_counted_map_iff[OF encrypted_share_codec[OF assms] ensure_increasing_Inr encrypted_share_length[OF assms]])
  moreover have "(n < 2 ^ 64 \<and> n \<le> 2 ^ 64 \<and> P) = (n < 2 ^ 64 \<and> P)" for n :: nat and P by auto
  moreover have "(valid_share_map m \<and> length m \<le> 2 ^ 64 \<and> P) = (valid_share_map m \<and> P)" for P
    by (auto simp: valid_share_map_def)
  ultimately show ?thesis
    unfolding read_encrypted_shares_def write_share_entry_def by (simp only: add.assoc)
qed

lemma dealer_message_codec:
  assumes "golden_codec G"
  shows "wire_codec (write_dealer_message G) (read_dealer_message G) (valid_dealer_message G)"
proof
  fix r r' and v :: "('a, 'b) dealer_message"
  obtain s rr d ni c m pr root where v: "v = \<lparr>dm_session_id = s, dm_registry_root = rr, dm_dealer = d,
      dm_msg_i = ni, dm_commitment = c, dm_encrypted_shares = m, dm_proof = pr, dm_transcript_root = root\<rparr>"
    by (cases v) auto
  let ?item = "4 + element_repr_bytes G + repr_bytes G"
  have root: "root = recompute_transcript_root G
      \<lparr>dm_session_id = s, dm_registry_root = rr, dm_dealer = d, dm_msg_i = ni, dm_commitment = c,
       dm_encrypted_shares = m, dm_proof = pr, dm_transcript_root = x\<rparr>
    \<longleftrightarrow> root = recompute_transcript_root G v" for x
    by (simp add: v recompute_transcript_root_def)
  have "read_dealer_message G r = Inr (v, r') \<longleftrightarrow>
      (\<exists>r1 r2 r3 r4 r5. valid_session_id s \<and> wire_step r (write_session_id s) r1
        \<and> valid_transcript_root rr \<and> wire_step r1 (write_transcript_root rr) r2
        \<and> valid_participant_index d \<and> wire_step r2 (write_participant_index d) r3
        \<and> valid_nonce ni \<and> wire_step r3 (write_nonce ni) r4
        \<and> valid_commitment c \<and> wire_step r4 (write_commitment G c) r5
        \<and> (\<exists>r7. (\<exists>n r6. n < 2 ^ 64 \<and> wire_step r5 (write_len n) r6
              \<and> ensure_remaining_items r6 n ?item = Inr ()
              \<and> read_encrypted_shares G n None bt_empty r6 = Inr (m, r7))
            \<and> (\<exists>r8. length pr < 2 ^ 64 \<and> wire_step r7 (write_len (length pr)) r8
              \<and> wire_step r8 pr r' \<and> root = recompute_transcript_root G v)))"
    unfolding read_dealer_message_def Let_def
    by (auto simp: wire_simps wire_codec.read_iff[OF commitment_codec[OF assms]] v
        recompute_transcript_root_def) blast+
  also have "\<dots> \<longleftrightarrow> valid_dealer_message G v \<and> wire_step r (write_dealer_message G v) r'"
    unfolding read_share_map_iff[OF assms] valid_dealer_message_def write_dealer_message_def wire_step_append
    by (simp add: v, (blast)?)
  finally show "read_dealer_message G r = Inr (v, r') \<longleftrightarrow> valid_dealer_message G v \<and> wire_step r (write_dealer_message G v) r'" .
qed

end
