(* ===== verification/Wire_Envelope.thy ===== *)
theory Wire_Envelope
  imports Wire_Messages
begin

text \<open>
  \<open>golden-core/src/wire.rs\<close>: the \<open>WireMessage\<close> instances. Each type has its tag, its codec
  identifier and, for the types over a group, the backend identifier; every instance satisfies
  the contract \<open>wire_message_type\<close>, from which the round trips and the rejections follow.
\<close>

section \<open>The instances\<close>

definition TAG_SESSION_ID :: byte where "TAG_SESSION_ID = 0x01"
definition TAG_DEALER_MESSAGE_NONCE :: byte where "TAG_DEALER_MESSAGE_NONCE = 0x02"
definition TAG_ENCRYPTED_SHARE :: byte where "TAG_ENCRYPTED_SHARE = 0x03"
definition TAG_FELDMAN_COMMITMENT :: byte where "TAG_FELDMAN_COMMITMENT = 0x04"
definition TAG_PARTICIPANT_REGISTRY :: byte where "TAG_PARTICIPANT_REGISTRY = 0x05"
definition TAG_DKG_CONFIG :: byte where "TAG_DKG_CONFIG = 0x06"
definition TAG_DEALER_MESSAGE :: byte where "TAG_DEALER_MESSAGE = 0x07"
definition TAG_IDENTITY_KEY_PROOF :: byte where "TAG_IDENTITY_KEY_PROOF = 0x08"

definition session_id_message :: "session_id wire_message" where
  "session_id_message =
     \<lparr>wm_tag = TAG_SESSION_ID, wm_context = [ascii ''session-id-v1''],
      wm_write = write_session_id, wm_read = read_session_id\<rparr>"

definition nonce_message :: "dealer_message_nonce wire_message" where
  "nonce_message =
     \<lparr>wm_tag = TAG_DEALER_MESSAGE_NONCE, wm_context = [ascii ''dealer-message-nonce-v1''],
      wm_write = write_nonce, wm_read = read_nonce\<rparr>"

definition encrypted_share_message ::
  "('s, 'e, 'z) golden_group_scheme \<Rightarrow> ('s, 'e) encrypted_share wire_message" where
  "encrypted_share_message G =
     \<lparr>wm_tag = TAG_ENCRYPTED_SHARE, wm_context = [ascii ''encrypted-share-v2'', backend_id G],
      wm_write = write_encrypted_share G, wm_read = read_encrypted_share G\<rparr>"

definition commitment_message ::
  "('s, 'e, 'z) golden_group_scheme \<Rightarrow> 'e feldman_commitment wire_message" where
  "commitment_message G =
     \<lparr>wm_tag = TAG_FELDMAN_COMMITMENT, wm_context = [ascii ''feldman-commitment-v1'', backend_id G],
      wm_write = write_commitment G, wm_read = read_commitment G\<rparr>"

definition identity_key_proof_message ::
  "('s, 'e, 'z) golden_group_scheme \<Rightarrow> ('s, 'e) identity_key_proof wire_message" where
  "identity_key_proof_message G =
     \<lparr>wm_tag = TAG_IDENTITY_KEY_PROOF, wm_context = [ascii ''identity-key-proof-v1'', backend_id G],
      wm_write = write_identity_key_proof G, wm_read = read_identity_key_proof G\<rparr>"

definition registry_message ::
  "('s::field, 'e::ab_group_add, 'z) golden_group_scheme \<Rightarrow> ('s, 'e) participant_registry wire_message" where
  "registry_message G =
     \<lparr>wm_tag = TAG_PARTICIPANT_REGISTRY, wm_context = [ascii ''participant-registry-v2'', backend_id G],
      wm_write = write_registry G, wm_read = read_registry G\<rparr>"

definition config_message ::
  "('s::field, 'e::ab_group_add, 'z) golden_group_scheme \<Rightarrow> ('s, 'e) dkg_config wire_message" where
  "config_message G =
     \<lparr>wm_tag = TAG_DKG_CONFIG, wm_context = [ascii ''dkg-config-v2'', backend_id G],
      wm_write = write_config G, wm_read = read_config G\<rparr>"

definition dealer_message_message ::
  "('s, 'e, 'z) golden_group_scheme \<Rightarrow> ('s, 'e) dealer_message wire_message" where
  "dealer_message_message G =
     \<lparr>wm_tag = TAG_DEALER_MESSAGE, wm_context = [ascii ''dealer-message-v3'', backend_id G],
      wm_write = write_dealer_message G, wm_read = read_dealer_message G\<rparr>"

section \<open>Every instance is a message type\<close>

lemma wire_message_typeI:
  assumes "wire_codec (wm_write M) (wm_read M) ok" and "\<forall>field \<in> set (wm_context M). length field < 2 ^ 64"
  shows "wire_message_type M ok"
  using assms by (simp add: wire_message_type_def wire_message_type_axioms_def)

interpretation session_id_type: wire_message_type session_id_message valid_session_id
  by (rule wire_message_typeI) (simp_all add: session_id_message_def session_id_wire.wire_codec_axioms)

interpretation nonce_type: wire_message_type nonce_message valid_nonce
  by (rule wire_message_typeI) (simp_all add: nonce_message_def nonce_wire.wire_codec_axioms)

sublocale golden_codec \<subseteq> encrypted_share_type: wire_message_type "encrypted_share_message G" "\<lambda>_. True"
  by (rule wire_message_typeI)
    (use backend_id_short in \<open>simp_all add: encrypted_share_message_def encrypted_share_codec golden_codec_axioms\<close>)

sublocale golden_codec \<subseteq> commitment_type: wire_message_type "commitment_message G" valid_commitment
  by (rule wire_message_typeI)
    (use backend_id_short in \<open>simp_all add: commitment_message_def commitment_codec golden_codec_axioms\<close>)

sublocale golden_codec \<subseteq> identity_key_proof_type: wire_message_type "identity_key_proof_message G" "\<lambda>_. True"
  by (rule wire_message_typeI)
    (use backend_id_short in \<open>simp_all add: identity_key_proof_message_def identity_key_proof_codec golden_codec_axioms\<close>)

sublocale golden_codec \<subseteq> registry_type: wire_message_type "registry_message G" "valid_registry G"
  by (rule wire_message_typeI)
    (use backend_id_short in \<open>simp_all add: registry_message_def registry_codec golden_codec_axioms\<close>)

sublocale golden_codec \<subseteq> config_type: wire_message_type "config_message G" "valid_config G"
  by (rule wire_message_typeI)
    (use backend_id_short in \<open>simp_all add: config_message_def config_codec golden_codec_axioms\<close>)

sublocale golden_codec \<subseteq> dealer_message_type: wire_message_type "dealer_message_message G" "valid_dealer_message G"
  by (rule wire_message_typeI)
    (use backend_id_short in \<open>simp_all add: dealer_message_message_def dealer_message_codec golden_codec_axioms\<close>)

context golden_codec
begin

lemmas registry_decodes = registry_type.from_wire_bytes_iff
lemmas config_decodes = config_type.from_wire_bytes_iff
lemmas dealer_message_decodes = dealer_message_type.from_wire_bytes_iff

end

section \<open>Round trips and rejections\<close>

lemma write_len_length [simp]: "length (write_len n) = 8"
  by (simp add: write_len_def)

text \<open>
  C23. Dealer messages on the wire, for every backend with canonical encodings: the standalone decoder
  accepts a byte string exactly when it is the canonical encoding of a valid message (32-byte
  session, registry root and nonce; nonzero dealer; a nonempty commitment; nonzero receivers in
  strictly increasing order), and returns that message. So decoding inverts encoding, no message has
  two encodings, and the transcript root of a decoded message is the recomputed one.
\<close>

theorem dealer_message_wire_iff:
  assumes "golden_codec G"
  shows "from_wire_bytes (dealer_message_message G) bs = Inr m \<longleftrightarrow>
    valid_dealer_message G m \<and> bs = to_wire_bytes (dealer_message_message G) m \<and> length bs < 2 ^ 64"
  by (rule golden_codec.dealer_message_decodes[OF assms])

lemma dealer_message_wire_iff_witness:
  "from_wire_bytes (dealer_message_message tiny_group)
     (to_wire_bytes (dealer_message_message tiny_group) tiny_message1) = Inr tiny_message1"
proof -
  have "valid_dealer_message tiny_group tiny_message1"
    by (simp add: valid_dealer_message_def valid_session_id_def valid_transcript_root_def valid_nonce_def
        valid_participant_index_def valid_commitment_def valid_share_map_def recompute_transcript_root_def
        dealing_root_def)
  then show ?thesis
    by (simp add: dealer_message_wire_iff[OF tiny.golden_codec_axioms])
      (simp add: to_wire_bytes_def dealer_message_message_def MAGIC_def write_wire_context_def
        write_context_field_def write_dealer_message_def write_session_id_def write_transcript_root_def
        write_participant_index_def write_u32_def write_nonce_def write_commitment_def write_element_def
        write_share_entry_def write_encrypted_share_def write_scalar_def
        golden_codec.element_length[OF tiny.golden_codec_axioms]
        golden_codec.scalar_length[OF tiny.golden_codec_axioms])
qed

text \<open>
  The root a dealer message carries is not on the wire: a message with any stored root decodes
  to the same message with the root recomputed from its other fields.
\<close>

theorem dealer_message_root_rederived:
  assumes "golden_codec G"
    and "valid_dealer_message G (m\<lparr>dm_transcript_root := recompute_transcript_root G m\<rparr>)"
    and "length (to_wire_bytes (dealer_message_message G) m) < 2 ^ 64"
  shows "from_wire_bytes (dealer_message_message G) (to_wire_bytes (dealer_message_message G) m)
    = Inr (m\<lparr>dm_transcript_root := recompute_transcript_root G m\<rparr>)"
proof -
  have "to_wire_bytes (dealer_message_message G) (m\<lparr>dm_transcript_root := x\<rparr>)
      = to_wire_bytes (dealer_message_message G) m" for x
    by (simp add: to_wire_bytes_def dealer_message_message_def write_wire_context_def write_dealer_message_def)
  then show ?thesis
    using assms(2,3) by (simp add: golden_codec.dealer_message_decodes[OF assms(1)])
qed

lemmas wire_lengths = write_session_id_def write_transcript_root_def write_participant_index_def
  write_u32_def write_nonce_def write_commitment_def write_element_def write_share_entry_def
  write_encrypted_share_def write_identity_key_proof_def write_scalar_def
  golden_codec.element_length golden_codec.scalar_length

lemma tiny_message_valid: "valid_dealer_message tiny_group tiny_message1"
  by (simp add: valid_dealer_message_def valid_session_id_def valid_transcript_root_def valid_nonce_def
      valid_participant_index_def valid_commitment_def valid_share_map_def recompute_transcript_root_def
      dealing_root_def)

lemma dealer_message_root_rederived_witness:
  "from_wire_bytes (dealer_message_message tiny_group)
     (to_wire_bytes (dealer_message_message tiny_group) (tiny_message1\<lparr>dm_transcript_root := []\<rparr>))
   = Inr tiny_message1"
proof -
  let ?m = "tiny_message1\<lparr>dm_transcript_root := []\<rparr>"
  have "recompute_transcript_root tiny_group ?m = replicate 32 1"
    by (simp add: recompute_transcript_root_def dealing_root_def)
  then have eq: "?m\<lparr>dm_transcript_root := recompute_transcript_root tiny_group ?m\<rparr> = tiny_message1"
    by (simp add: tiny_message_def)
  have "length (to_wire_bytes (dealer_message_message tiny_group) ?m) < 2 ^ 64"
    by (simp add: to_wire_bytes_def dealer_message_message_def MAGIC_def write_wire_context_def
        write_context_field_def write_dealer_message_def wire_lengths tiny.golden_codec_axioms)
  from dealer_message_root_rederived[OF tiny.golden_codec_axioms _ this] show ?thesis
    unfolding eq by (simp add: tiny_message_valid)
qed

text \<open>
  The size hint of a dealer message is the exact number of bytes its encoding takes, so the
  buffer it reserves never grows.
\<close>

theorem dealer_message_size_hint:
  assumes "golden_codec G" and "valid_dealer_message G m"
  shows "length (write_dealer_message G m) = wire_size_hint G m"
proof -
  have "length (concat (map (write_element G) cs)) = length cs * element_repr_bytes G" for cs
    by (rule length_concat_fixed) (simp add: write_element_def golden_codec.element_length[OF assms(1)])
  moreover have "length (concat (map (write_share_entry G) es)) = length es * (4 + element_repr_bytes G + repr_bytes G)" for es
    by (rule length_concat_fixed) (rule write_share_entry_length[OF assms(1)])
  ultimately show ?thesis
    using assms(2)
    by (simp add: write_dealer_message_def wire_size_hint_def Let_def valid_dealer_message_def
        valid_session_id_def valid_transcript_root_def valid_nonce_def write_session_id_def
        write_transcript_root_def write_participant_index_def write_u32_def write_nonce_def write_commitment_def)
qed

lemma dealer_message_size_hint_witness:
  "length (write_dealer_message tiny_group tiny_message1) = 133"
  by (simp add: dealer_message_size_hint[OF tiny.golden_codec_axioms tiny_message_valid])
    (simp add: wire_size_hint_def)

text \<open>
  Setup values on the wire: a byte string that decodes as a configuration is the canonical
  encoding of that configuration, whose registry is sorted, holds no identity key and only keys with
  verifying proofs, carries the root of its own keys, and has at least the nonzero threshold of
  participants. Whatever the sender wrote, the decoder establishes the invariant of the protocol.
\<close>

theorem decoded_config_wf:
  assumes "golden_codec G" and "from_wire_bytes (config_message G) bs = Inr config"
  shows "bs = to_wire_bytes (config_message G) config
    \<and> wf_config config
    \<and> cfg_threshold config \<le> length (registry_participants (cfg_registry config))
    \<and> (\<forall>(p, pk, pr) \<in> set (registry_participants (cfg_registry config)).
         index_get p \<noteq> 0 \<and> pk \<noteq> 0 \<and> identity_verify G pr pk = Inr ())
    \<and> registry_root_value (cfg_registry config) = registry_root G (registry_participants (cfg_registry config))"
proof -
  let ?reg = "cfg_registry config" and ?es = "registry_participants (cfg_registry config)"
  have bs: "bs = to_wire_bytes (config_message G) config" and ok: "valid_config G config"
    using assms(2) by (simp_all add: golden_codec.config_decodes[OF assms(1)])
  have reg: "registry_new G ?es = Inr ?reg" and srt: "sorted_wrt (<) (map fst ?es)"
    and idx: "list_all valid_participant_index (map fst ?es)"
    using ok by (simp_all add: valid_config_def valid_registry_def entries_with_proofs_eq
        registry_indexes_def bt_keys_def)
  have "entries_ok G ?es" and root: "registry_root_value ?reg = registry_root G ?es"
    using reg fold_insert_ascending[OF srt]
    by (auto simp: registry_new_Inr[OF assms(1)] Let_def dest: arg_cong[of _ _ registry_root_value])
  then have "\<forall>(p, pk, pr) \<in> set ?es. index_get p \<noteq> 0 \<and> pk \<noteq> 0 \<and> identity_verify G pr pk = Inr ()"
    using idx by (auto simp: entries_ok_def list_all_iff valid_participant_index_def)
  then show ?thesis
    using bs ok srt root
    by (simp add: valid_config_def wf_config_def bt_sorted_def bt_keys_def registry_len_def)
qed

lemma decoded_config_wf_witness:
  "wf_config tiny_config \<and> registry_root_value tiny_registry = registry_root tiny_group (registry_participants tiny_registry)"
proof -
  have "registry_new tiny_group (registry_entries_with_proofs tiny_registry) = Inr tiny_registry"
    unfolding registry_new_Inr[OF tiny.golden_codec_axioms] entries_with_proofs_eq
    by (simp add: tiny_registry_def entries_ok_def tiny_identity_verify tiny_eval bt_empty_def
        less_participant_index_def registry_root_def tb_root_def tiny_hash_def)
  then have "valid_config tiny_group tiny_config"
    by (simp add: valid_config_def valid_registry_def registry_len_def valid_session_id_def
        valid_participant_index_def tiny_registry_def)
      (simp add: tiny_registry_def[symmetric] valid_participant_index_def less_participant_index_def)
  moreover have "length (to_wire_bytes (config_message tiny_group) tiny_config) < 2 ^ 64"
    by (simp add: to_wire_bytes_def config_message_def MAGIC_def write_wire_context_def
        write_context_field_def write_config_def write_registry_def write_registry_entry_def
        entries_with_proofs_eq wire_lengths tiny.golden_codec_axioms tiny_registry_def)
  ultimately have "from_wire_bytes (config_message tiny_group) (to_wire_bytes (config_message tiny_group) tiny_config)
      = Inr tiny_config"
    by (simp add: golden_codec.config_decodes[OF tiny.golden_codec_axioms])
  from decoded_config_wf[OF tiny.golden_codec_axioms this] show ?thesis by simp
qed

text \<open>
  The eight message types have pairwise different tags, so no encoding of one type is accepted as
  another: a dealer message is rejected by the decoders of every other type, and each of their
  encodings is rejected by the decoder of dealer messages.
\<close>

theorem message_types_separated:
  "distinct [wm_tag session_id_message, wm_tag nonce_message, wm_tag (encrypted_share_message G),
     wm_tag (commitment_message G), wm_tag (registry_message G), wm_tag (config_message G),
     wm_tag (dealer_message_message G), wm_tag (identity_key_proof_message G)]
   \<and> from_wire_bytes session_id_message (to_wire_bytes (dealer_message_message G) m) = Inl InvalidEncoding
   \<and> from_wire_bytes nonce_message (to_wire_bytes (dealer_message_message G) m) = Inl InvalidEncoding
   \<and> from_wire_bytes (encrypted_share_message G) (to_wire_bytes (dealer_message_message G) m) = Inl InvalidEncoding
   \<and> from_wire_bytes (commitment_message G) (to_wire_bytes (dealer_message_message G) m) = Inl InvalidEncoding
   \<and> from_wire_bytes (registry_message G) (to_wire_bytes (dealer_message_message G) m) = Inl InvalidEncoding
   \<and> from_wire_bytes (config_message G) (to_wire_bytes (dealer_message_message G) m) = Inl InvalidEncoding
   \<and> from_wire_bytes (identity_key_proof_message G) (to_wire_bytes (dealer_message_message G) m) = Inl InvalidEncoding
   \<and> from_wire_bytes (dealer_message_message G) (to_wire_bytes (config_message G) config) = Inl InvalidEncoding
   \<and> from_wire_bytes (dealer_message_message G) (to_wire_bytes (registry_message G) reg) = Inl InvalidEncoding"
  by (intro conjI from_wire_bytes_other_tag)
    (simp_all add: session_id_message_def nonce_message_def encrypted_share_message_def commitment_message_def
      registry_message_def config_message_def dealer_message_message_def identity_key_proof_message_def
      TAG_SESSION_ID_def TAG_DEALER_MESSAGE_NONCE_def TAG_ENCRYPTED_SHARE_def TAG_FELDMAN_COMMITMENT_def
      TAG_PARTICIPANT_REGISTRY_def TAG_DKG_CONFIG_def TAG_DEALER_MESSAGE_def TAG_IDENTITY_KEY_PROOF_def)

section \<open>The length prefix of Miden's byte format\<close>

definition leading_zeros_u64 :: "u64 \<Rightarrow> nat" where
  "leading_zeros_u64 w = length (takeWhile (\<lambda>i. \<not> bit w i) (rev [0..<64]))"

definition miden_usize_size :: "usize \<Rightarrow> usize" where
  "miden_usize_size value =
     (let zeros = leading_zeros_u64 (word_of_nat value);
          len = (zeros - 1) div 7
      in 9 - min len 8)"

definition miden_wire_size_hint :: "('a, 'z) wire_message_scheme \<Rightarrow> 'a \<Rightarrow> usize" where
  "miden_wire_size_hint M v =
     (let len = length (to_wire_bytes M v) in miden_usize_size len + len)"

lemma leading_zeros_iff: "k \<le> 64 \<Longrightarrow> k \<le> leading_zeros_u64 w \<longleftrightarrow> unat w < 2 ^ (64 - k)"
proof -
  assume k: "k \<le> 64"
  have nth: "rev [0..<64] ! i = 63 - i" if "i < 64" for i
    using that by (simp add: rev_nth)
  have "k \<le> leading_zeros_u64 w \<longleftrightarrow> (\<forall>i < k. \<not> bit w (63 - i))"
  proof -
    have "k \<le> length (takeWhile P xs) \<longleftrightarrow> (\<forall>i < k. P (xs ! i))" if "k \<le> length xs" for P and xs :: "nat list"
      using that
    proof (induction xs arbitrary: k)
      case (Cons x xs)
      then show ?case by (cases k) (auto simp: less_Suc_eq_0_disj)
    qed simp
    then show ?thesis using k by (auto simp: leading_zeros_u64_def nth)
  qed
  also have "\<dots> \<longleftrightarrow> (\<forall>n. 64 - k \<le> n \<and> n < 64 \<longrightarrow> \<not> bit w n)"
  proof
    assume h: "\<forall>i<k. \<not> bit w (63 - i)"
    show "\<forall>n. 64 - k \<le> n \<and> n < 64 \<longrightarrow> \<not> bit w n"
    proof (intro allI impI)
      fix n assume n: "64 - k \<le> n \<and> n < 64"
      then have "63 - n < k" and "63 - (63 - n) = n" by arith+
      with h show "\<not> bit w n" by metis
    qed
  next
    assume h: "\<forall>n. 64 - k \<le> n \<and> n < 64 \<longrightarrow> \<not> bit w n"
    show "\<forall>i<k. \<not> bit w (63 - i)"
    proof (intro allI impI)
      fix i assume "i < k"
      with k have "64 - k \<le> 63 - i \<and> 63 - i < 64" by arith
      with h show "\<not> bit w (63 - i)" by blast
    qed
  qed
  also have "\<dots> \<longleftrightarrow> take_bit (64 - k) w = w"
  proof -
    have "\<not> bit w n" if "64 \<le> n" for n
      using that bit_imp_le_length[of w n] by auto
    then have "(\<forall>n. 64 - k \<le> n \<and> n < 64 \<longrightarrow> \<not> bit w n) \<longleftrightarrow> (\<forall>n. bit w n \<longrightarrow> n < 64 - k)"
      by (metis not_le)
    then show ?thesis by (auto simp: bit_eq_iff bit_take_bit_iff)
  qed
  also have "\<dots> \<longleftrightarrow> unat w < 2 ^ (64 - k)"
    by (metis take_bit_nat_eq_self_iff unsigned_take_bit_eq unsigned_word_eqI)
  finally show ?thesis .
qed

text \<open>
  The size hint of the Miden length prefix is the number of seven-bit groups of the length, at
  least one, with nine bytes for lengths of more than 56 bits.
\<close>

theorem miden_usize_size_minimal:
  assumes "value < 2 ^ 64"
  shows "1 \<le> miden_usize_size value \<and> miden_usize_size value \<le> 9
    \<and> (\<forall>n \<in> {1..8}. miden_usize_size value \<le> n \<longleftrightarrow> value < 2 ^ (7 * n))"
proof -
  let ?w = "word_of_nat value :: u64"
  have w: "unat ?w = value" using assms by (simp add: unat_of_nat)
  have "miden_usize_size value \<le> n \<longleftrightarrow> value < 2 ^ (7 * n)" if "1 \<le> n" "n \<le> 8" for n
  proof -
    have "miden_usize_size value \<le> n \<longleftrightarrow> 9 - n \<le> (leading_zeros_u64 ?w - 1) div 7"
      using that by (auto simp: miden_usize_size_def Let_def)
    also have "\<dots> \<longleftrightarrow> 64 - 7 * n \<le> leading_zeros_u64 ?w"
      using that by (simp add: less_eq_div_iff_mult_less_eq) linarith
    also have "\<dots> \<longleftrightarrow> value < 2 ^ (7 * n)"
      using that by (simp add: leading_zeros_iff w)
    finally show ?thesis .
  qed
  then show ?thesis by (auto simp: miden_usize_size_def Let_def)
qed

lemma miden_usize_size_minimal_witness: "miden_usize_size 127 \<le> 1 \<and> \<not> miden_usize_size 128 \<le> 1"
proof -
  have "\<forall>n \<in> {1..8}. miden_usize_size 127 \<le> n \<longleftrightarrow> (127 :: nat) < 2 ^ (7 * n)"
    and "\<forall>n \<in> {1..8}. miden_usize_size 128 \<le> n \<longleftrightarrow> (128 :: nat) < 2 ^ (7 * n)"
    using miden_usize_size_minimal[of 127] miden_usize_size_minimal[of 128] by simp_all
  then show ?thesis by (auto dest!: bspec[where x = 1])
qed

end
