(* ===== verification/Ehtdh_Codec.thy ===== *)
theory Ehtdh_Codec
  imports Wire_Envelope Ehtdh_Threshold
begin

text \<open>
  \<open>golden-ehtdh1/src/wire.rs\<close>: the codecs of the EHTDH1 values over the reader of the core crate. As in
  the core, \<open>valid_*\<close> is what a decoded value satisfies and the \<open>wire_codec\<close> instance of a type says
  that decoding accepts exactly the encodings of valid values.
\<close>

section \<open>Bounds and helpers\<close>

definition MAX_BACKEND_ID_BYTES :: usize where "MAX_BACKEND_ID_BYTES = 255"
definition MAX_PARTICIPANTS :: usize where "MAX_PARTICIPANTS = 2 ^ 20"
definition MAX_CIPHERTEXT_FIELD_BYTES :: usize where "MAX_CIPHERTEXT_FIELD_BYTES = 2 ^ 30"

definition ehtdh_ensure_increasing ::
  "participant_index option \<Rightarrow> participant_index \<Rightarrow> participant_index option result" where
  "ehtdh_ensure_increasing prev next_index =
     (if (case prev of None \<Rightarrow> False | Some previous \<Rightarrow> next_index \<le> previous)
      then Inl InvalidEncoding else Inr (Some next_index))"

primrec read_participants :: "nat \<Rightarrow> participant_index option \<Rightarrow> participant_index list wire_read" where
  "read_participants 0 prev r = Inr ([], r)"
| "read_participants (Suc n) prev r =
     rbind (read_participant_index r) (\<lambda>(p, r1).
     rbind (ehtdh_ensure_increasing prev p) (\<lambda>prev1.
     rbind (read_participants n prev1 r1) (\<lambda>(ps, r2). Inr (p # ps, r2))))"

definition write_bytes :: "bytes \<Rightarrow> bytes" where
  "write_bytes bs = write_len (length bs) @ bs"

definition read_bytes :: "bytes wire_read" where
  "read_bytes r =
     rbind (read_len r) (\<lambda>(len, r1).
     if MAX_CIPHERTEXT_FIELD_BYTES < len then Inl InvalidEncoding else read_exact len r1)"

text \<open>
  \<open>core::str::from_utf8\<close>: the well-formed sequences of the Unicode standard (table 3-7), no overlong
  forms, no surrogates, nothing above U+10FFFF.
\<close>

definition utf8_tail :: "byte \<Rightarrow> bool" where
  "utf8_tail b \<longleftrightarrow> 0x80 \<le> b \<and> b \<le> 0xBF"

definition utf8_second :: "byte \<Rightarrow> byte \<Rightarrow> bool" where
  "utf8_second b c \<longleftrightarrow>
     (if b = 0xE0 then 0xA0 \<le> c \<and> c \<le> 0xBF
      else if b = 0xED then 0x80 \<le> c \<and> c \<le> 0x9F
      else if b = 0xF0 then 0x90 \<le> c \<and> c \<le> 0xBF
      else if b = 0xF4 then 0x80 \<le> c \<and> c \<le> 0x8F
      else utf8_tail c)"

fun utf8_valid :: "bytes \<Rightarrow> bool" where
  "utf8_valid [] \<longleftrightarrow> True"
| "utf8_valid (b # bs) \<longleftrightarrow>
     (if b < 0x80 then utf8_valid bs
      else if 0xC2 \<le> b \<and> b \<le> 0xDF
        then (case bs of c # rest \<Rightarrow> utf8_tail c \<and> utf8_valid rest | _ \<Rightarrow> False)
      else if 0xE0 \<le> b \<and> b \<le> 0xEF
        then (case bs of c # d # rest \<Rightarrow> utf8_second b c \<and> utf8_tail d \<and> utf8_valid rest | _ \<Rightarrow> False)
      else if 0xF0 \<le> b \<and> b \<le> 0xF4
        then (case bs of c # d # e # rest \<Rightarrow>
                utf8_second b c \<and> utf8_tail d \<and> utf8_tail e \<and> utf8_valid rest | _ \<Rightarrow> False)
      else False)"

definition str_from_utf8 :: "bytes \<Rightarrow> bytes result" where
  "str_from_utf8 bs = (if utf8_valid bs then Inr bs else Inl InvalidEncoding)"

section \<open>The codecs\<close>

definition write_setup_context :: "setup_context \<Rightarrow> bytes" where
  "write_setup_context ctx =
     write_len (length (ctx_backend_id ctx)) @ ctx_backend_id ctx
     @ write_len (ctx_threshold ctx)
     @ write_transcript_root (ctx_registry_root ctx)
     @ write_len (length (ctx_participants ctx))
     @ concat (map write_participant_index (ctx_participants ctx))
     @ write_session_id (ctx_decryption_session_id ctx)
     @ write_session_id (ctx_context_session_id ctx)
     @ write_transcript_root (ctx_decryption_transcript_root ctx)
     @ write_transcript_root (ctx_context_transcript_root ctx)
     @ ctx_epoch ctx"

definition read_setup_context :: "('s, 'e, 'z) golden_group_scheme \<Rightarrow> setup_context wire_read" where
  "read_setup_context G r =
     rbind (read_len r) (\<lambda>(backend_len, r1).
     if backend_len = 0 \<or> MAX_BACKEND_ID_BYTES < backend_len then Inl InvalidEncoding else
     rbind (read_exact backend_len r1) (\<lambda>(backend_bytes, r2).
     rbind (str_from_utf8 backend_bytes) (\<lambda>backend.
     rbind (read_len r2) (\<lambda>(threshold, r3).
     rbind (read_transcript_root r3) (\<lambda>(reg_root, r4).
     rbind (read_len r4) (\<lambda>(participant_count, r5).
     if MAX_PARTICIPANTS < participant_count then Inl InvalidEncoding else
     rbind (ensure_remaining_items r5 participant_count 4) (\<lambda>_.
     rbind (read_participants participant_count None r5) (\<lambda>(participants, r6).
     if threshold = 0 \<or> length participants < threshold then Inl InvalidEncoding else
     rbind (read_session_id r6) (\<lambda>(decryption_session, r7).
     rbind (read_session_id r7) (\<lambda>(context_session, r8).
     if context_session \<noteq> derive_context_session_id G decryption_session then Inl InvalidEncoding else
     rbind (read_transcript_root r8) (\<lambda>(decryption_root, r9).
     rbind (read_transcript_root r9) (\<lambda>(context_root, r10).
     rbind (read_array 32 r10) (\<lambda>(epoch, r11).
       Inr (\<lparr>ctx_backend_id = backend, ctx_threshold = threshold, ctx_registry_root = reg_root,
             ctx_participants = participants, ctx_decryption_session_id = decryption_session,
             ctx_context_session_id = context_session, ctx_decryption_transcript_root = decryption_root,
             ctx_context_transcript_root = context_root, ctx_epoch = epoch\<rparr>, r11))))))))))))))"

definition write_public_share :: "('s, 'e, 'z) golden_group_scheme \<Rightarrow> 'e public_share \<Rightarrow> bytes" where
  "write_public_share G share = write_element G (pub_decryption share) @ write_element G (pub_context share)"

definition read_public_share :: "('s, 'e, 'z) golden_group_scheme \<Rightarrow> 'e public_share wire_read" where
  "read_public_share G r =
     rbind (read_element G r) (\<lambda>(d, r1).
     rbind (read_element G r1) (\<lambda>(c, r2). Inr (\<lparr>pub_decryption = d, pub_context = c\<rparr>, r2)))"

definition write_secret_share :: "('s, 'e, 'z) golden_group_scheme \<Rightarrow> 's secret_share \<Rightarrow> bytes" where
  "write_secret_share G share =
     write_participant_index (sec_participant share)
     @ write_scalar G (sec_decryption share) @ write_scalar G (sec_context share)"

definition read_secret_share :: "('s, 'e, 'z) golden_group_scheme \<Rightarrow> 's secret_share wire_read" where
  "read_secret_share G r =
     rbind (read_participant_index r) (\<lambda>(p, r1).
     rbind (read_scalar G r1) (\<lambda>(d, r2).
     rbind (read_scalar G r2) (\<lambda>(c, r3).
       Inr (\<lparr>sec_participant = p, sec_decryption = d, sec_context = c\<rparr>, r3))))"

definition write_public_share_entry ::
  "('s, 'e, 'z) golden_group_scheme \<Rightarrow> participant_index \<times> 'e public_share \<Rightarrow> bytes" where
  "write_public_share_entry G = (\<lambda>(p, share). write_participant_index p @ write_public_share G share)"

definition write_public_key_set :: "('s, 'e, 'z) golden_group_scheme \<Rightarrow> 'e public_key_set \<Rightarrow> bytes" where
  "write_public_key_set G pks =
     write_len (pks_threshold pks) @ write_element G (pks_joint_public_key pks)
     @ write_len (length (pks_public_shares pks))
     @ concat (map (write_public_share_entry G) (pks_public_shares pks))"

definition read_public_shares ::
  "('s, 'e, 'z) golden_group_scheme \<Rightarrow> nat \<Rightarrow> (participant_index, 'e public_share) btree_map wire_read" where
  "read_public_shares G n = read_ascending ehtdh_ensure_increasing (read_public_share G) n None bt_empty"

definition read_public_key_set ::
  "('s::field, 'e::ab_group_add, 'z) golden_group_scheme \<Rightarrow> 'e public_key_set wire_read" where
  "read_public_key_set G r =
     rbind (read_len r) (\<lambda>(threshold, r1).
     rbind (read_element G r1) (\<lambda>(joint_public_key, r2).
     rbind (read_len r2) (\<lambda>(participant_count, r3).
     if MAX_PARTICIPANTS < participant_count then Inl InvalidEncoding else
     let entry_bytes = 4 + 2 * element_repr_bytes G in
     rbind (ensure_remaining_items r3 participant_count entry_bytes) (\<lambda>_.
     rbind (read_public_shares G participant_count r3) (\<lambda>(public_shares, r4).
     rbind (map_err (\<lambda>_. InvalidEncoding) (public_key_set_new G threshold joint_public_key public_shares))
       (\<lambda>pks. Inr (pks, r4)))))))"

definition write_sealing_key :: "('s, 'e, 'z) golden_group_scheme \<Rightarrow> 'e sealing_key \<Rightarrow> bytes" where
  "write_sealing_key G key = write_element G (seal_joint_public_key key)"

definition read_sealing_key ::
  "('s, 'e::ab_group_add, 'z) golden_group_scheme \<Rightarrow> 'e sealing_key wire_read" where
  "read_sealing_key G r =
     rbind (read_element G r) (\<lambda>(p, r1).
     rbind (map_err (\<lambda>_. InvalidEncoding) (sealing_key_new p)) (\<lambda>key. Inr (key, r1)))"

definition write_ciphertext :: "('s, 'e, 'z) golden_group_scheme \<Rightarrow> ('s, 'e) ciphertext \<Rightarrow> bytes" where
  "write_ciphertext G ct =
     write_bytes (associated_data ct) @ write_bytes (encrypted_payload ct)
     @ write_element G (ephemeral_public ct) @ write_element G (encryption_point ct)
     @ write_scalar G (ct_challenge ct) @ write_scalar G (ct_response ct)"

definition read_ciphertext :: "('s, 'e, 'z) golden_group_scheme \<Rightarrow> ('s, 'e) ciphertext wire_read" where
  "read_ciphertext G r =
     rbind (read_bytes r) (\<lambda>(ad, r1).
     rbind (read_bytes r1) (\<lambda>(payload, r2).
     rbind (read_element G r2) (\<lambda>(ephemeral, r3).
     rbind (read_element G r3) (\<lambda>(point, r4).
     rbind (read_scalar G r4) (\<lambda>(challenge, r5).
     rbind (read_scalar G r5) (\<lambda>(resp, r6).
       Inr (\<lparr>associated_data = ad, encrypted_payload = payload, ephemeral_public = ephemeral,
             encryption_point = point, ct_challenge = challenge, ct_response = resp\<rparr>, r6)))))))"

definition write_decryption_share ::
  "('s, 'e, 'z) golden_group_scheme \<Rightarrow> ('s, 'e) decryption_share \<Rightarrow> bytes" where
  "write_decryption_share G d =
     write_participant_index (ds_participant d) @ write_element G (ds_share d)
     @ write_scalar G (ds_challenge d) @ write_scalar G (ds_decryption_response d)
     @ write_scalar G (ds_context_response d)"

definition read_decryption_share ::
  "('s, 'e, 'z) golden_group_scheme \<Rightarrow> ('s, 'e) decryption_share wire_read" where
  "read_decryption_share G r =
     rbind (read_participant_index r) (\<lambda>(p, r1).
     rbind (read_element G r1) (\<lambda>(share, r2).
     rbind (read_scalar G r2) (\<lambda>(challenge, r3).
     rbind (read_scalar G r3) (\<lambda>(decryption_resp, r4).
     rbind (read_scalar G r4) (\<lambda>(context_resp, r5).
       Inr (\<lparr>ds_participant = p, ds_share = share, ds_challenge = challenge,
             ds_decryption_response = decryption_resp, ds_context_response = context_resp\<rparr>, r5))))))"

section \<open>Decoding accepts the encodings of valid values\<close>

definition valid_setup_context :: "('s, 'e, 'z) golden_group_scheme \<Rightarrow> setup_context \<Rightarrow> bool" where
  "valid_setup_context G ctx \<longleftrightarrow>
     ctx_backend_id ctx \<noteq> [] \<and> length (ctx_backend_id ctx) \<le> MAX_BACKEND_ID_BYTES
     \<and> utf8_valid (ctx_backend_id ctx)
     \<and> 0 < ctx_threshold ctx \<and> ctx_threshold ctx \<le> length (ctx_participants ctx)
     \<and> valid_transcript_root (ctx_registry_root ctx)
     \<and> length (ctx_participants ctx) \<le> MAX_PARTICIPANTS
     \<and> sorted_wrt (<) (ctx_participants ctx) \<and> list_all valid_participant_index (ctx_participants ctx)
     \<and> valid_session_id (ctx_decryption_session_id ctx) \<and> valid_session_id (ctx_context_session_id ctx)
     \<and> ctx_context_session_id ctx = derive_context_session_id G (ctx_decryption_session_id ctx)
     \<and> valid_transcript_root (ctx_decryption_transcript_root ctx)
     \<and> valid_transcript_root (ctx_context_transcript_root ctx) \<and> length (ctx_epoch ctx) = 32"

definition valid_secret_share :: "'s secret_share \<Rightarrow> bool" where
  "valid_secret_share share \<longleftrightarrow> valid_participant_index (sec_participant share)"

definition valid_public_key_set ::
  "('s::field, 'e::ab_group_add, 'z) golden_group_scheme \<Rightarrow> 'e public_key_set \<Rightarrow> bool" where
  "valid_public_key_set G pks \<longleftrightarrow>
     public_key_set_new G (pks_threshold pks) (pks_joint_public_key pks) (pks_public_shares pks) = Inr pks
     \<and> valid_share_map (pks_public_shares pks) \<and> length (pks_public_shares pks) \<le> MAX_PARTICIPANTS"

definition valid_sealing_key :: "'e::ab_group_add sealing_key \<Rightarrow> bool" where
  "valid_sealing_key key \<longleftrightarrow> seal_joint_public_key key \<noteq> 0"

definition valid_ciphertext :: "('s, 'e) ciphertext \<Rightarrow> bool" where
  "valid_ciphertext ct \<longleftrightarrow>
     length (associated_data ct) \<le> MAX_CIPHERTEXT_FIELD_BYTES
     \<and> length (encrypted_payload ct) \<le> MAX_CIPHERTEXT_FIELD_BYTES"

definition valid_decryption_share :: "('s, 'e) decryption_share \<Rightarrow> bool" where
  "valid_decryption_share d \<longleftrightarrow> valid_participant_index (ds_participant d)"

lemma guard_eq_Inr [wire_simps]: "(if c then Inl e else x) = Inr y \<longleftrightarrow> \<not> c \<and> x = Inr y"
  by simp

lemma str_from_utf8_Inr [wire_simps]: "str_from_utf8 bs = Inr s \<longleftrightarrow> utf8_valid bs \<and> s = bs"
  by (auto simp: str_from_utf8_def)

lemma ehtdh_ensure_increasing_Inr [wire_simps]:
  "ehtdh_ensure_increasing prev p = Inr prev1 \<longleftrightarrow>
    (case prev of None \<Rightarrow> True | Some q \<Rightarrow> q < p) \<and> prev1 = Some p"
  by (auto simp: ehtdh_ensure_increasing_def split: option.splits)

text \<open>The steps of the reader as rewrite rules: what it reads when these bytes are next.\<close>

lemma step_reads:
  "wire_step r bs r' \<Longrightarrow> length bs = len \<Longrightarrow> read_exact len r = Inr (bs, r')"
  "wire_step r (write_len n) r' \<Longrightarrow> n < 2 ^ 64 \<Longrightarrow> read_len r = Inr (n, r')"
  "wire_step r (write_participant_index p) r' \<Longrightarrow> valid_participant_index p \<Longrightarrow> read_participant_index r = Inr (p, r')"
  "wire_step r (write_session_id s) r' \<Longrightarrow> valid_session_id s \<Longrightarrow> read_session_id r = Inr (s, r')"
  "wire_step r (write_transcript_root t) r' \<Longrightarrow> valid_transcript_root t \<Longrightarrow> read_transcript_root r = Inr (t, r')"
  by (simp_all add: wire_simps)

lemma step_reads_group:
  "golden_codec G \<Longrightarrow> wire_step r (write_element G e) r' \<Longrightarrow> read_element G r = Inr (e, r')"
  "golden_codec G \<Longrightarrow> wire_step r (write_scalar G s) r' \<Longrightarrow> read_scalar G r = Inr (s, r')"
  by (simp_all add: wire_codec.read_iff[OF element_codec] wire_codec.read_iff[OF scalar_codec])

interpretation bytes_wire: wire_codec write_bytes read_bytes "\<lambda>bs. length bs \<le> MAX_CIPHERTEXT_FIELD_BYTES"
proof
  fix r v r'
  show "read_bytes r = Inr (v, r') \<longleftrightarrow> length v \<le> MAX_CIPHERTEXT_FIELD_BYTES \<and> wire_step r (write_bytes v) r'"
  proof
    assume "length v \<le> MAX_CIPHERTEXT_FIELD_BYTES \<and> wire_step r (write_bytes v) r'"
    moreover then obtain r1 where "wire_step r (write_len (length v)) r1" "wire_step r1 v r'"
      by (auto simp: write_bytes_def wire_step_append)
    ultimately show "read_bytes r = Inr (v, r')"
      by (simp add: read_bytes_def step_reads MAX_CIPHERTEXT_FIELD_BYTES_def)
  qed (auto simp: read_bytes_def write_bytes_def wire_simps wire_step_append)
qed

lemma step_read_bytes:
  "wire_step r (write_bytes bs) r' \<Longrightarrow> length bs \<le> MAX_CIPHERTEXT_FIELD_BYTES \<Longrightarrow> read_bytes r = Inr (bs, r')"
  by (simp add: bytes_wire.read_iff)

lemma public_share_codec:
  assumes "golden_codec G"
  shows "wire_codec (write_public_share G) (read_public_share G) (\<lambda>_. True)"
proof
  show "read_public_share G r = Inr (v, r') \<longleftrightarrow> True \<and> wire_step r (write_public_share G v) r'" for r v r'
    by (cases v) (auto simp: read_public_share_def write_public_share_def wire_step_append
        wire_codec.read_iff[OF element_codec[OF assms]])
qed

lemma secret_share_codec:
  assumes "golden_codec G"
  shows "wire_codec (write_secret_share G) (read_secret_share G) valid_secret_share"
proof
  show "read_secret_share G r = Inr (v, r') \<longleftrightarrow> valid_secret_share v \<and> wire_step r (write_secret_share G v) r'"
    for r v r'
    by (cases v) (auto simp: read_secret_share_def write_secret_share_def wire_step_append valid_secret_share_def
        wire_simps wire_codec.read_iff[OF scalar_codec[OF assms]])
qed

lemma sealing_key_codec:
  fixes G :: "('s::field, 'e::ab_group_add, 'z) golden_group_scheme"
  assumes "golden_codec G"
  shows "wire_codec (write_sealing_key G) (read_sealing_key G) valid_sealing_key"
proof
  show "read_sealing_key G r = Inr (v, r') \<longleftrightarrow> valid_sealing_key v \<and> wire_step r (write_sealing_key G v) r'"
    for r v r'
    by (cases v) (auto simp: read_sealing_key_def write_sealing_key_def valid_sealing_key_def sealing_key_new_def
        is_identity_def wire_codec.read_iff[OF element_codec[OF assms]] split: if_splits)
qed

lemma ciphertext_codec:
  assumes "golden_codec G"
  shows "wire_codec (write_ciphertext G) (read_ciphertext G) valid_ciphertext"
proof
  fix r r' and v :: "('a, 'b) ciphertext"
  show "read_ciphertext G r = Inr (v, r') \<longleftrightarrow> valid_ciphertext v \<and> wire_step r (write_ciphertext G v) r'"
  proof
    assume h: "valid_ciphertext v \<and> wire_step r (write_ciphertext G v) r'"
    then obtain r1 r2 r3 r4 r5 where "wire_step r (write_bytes (associated_data v)) r1"
      "wire_step r1 (write_bytes (encrypted_payload v)) r2" "wire_step r2 (write_element G (ephemeral_public v)) r3"
      "wire_step r3 (write_element G (encryption_point v)) r4" "wire_step r4 (write_scalar G (ct_challenge v)) r5"
      "wire_step r5 (write_scalar G (ct_response v)) r'"
      unfolding write_ciphertext_def wire_step_append by blast
    with h show "read_ciphertext G r = Inr (v, r')"
      by (simp add: read_ciphertext_def valid_ciphertext_def step_read_bytes step_reads_group[OF assms])
  qed (auto simp: read_ciphertext_def write_ciphertext_def wire_step_append valid_ciphertext_def
        bytes_wire.read_iff wire_codec.read_iff[OF element_codec[OF assms]]
        wire_codec.read_iff[OF scalar_codec[OF assms]], blast?)
qed

lemma decryption_share_codec:
  assumes "golden_codec G"
  shows "wire_codec (write_decryption_share G) (read_decryption_share G) valid_decryption_share"
proof
  fix r r' and v :: "('a, 'b) decryption_share"
  show "read_decryption_share G r = Inr (v, r') \<longleftrightarrow>
      valid_decryption_share v \<and> wire_step r (write_decryption_share G v) r'"
  proof
    assume h: "valid_decryption_share v \<and> wire_step r (write_decryption_share G v) r'"
    then obtain r1 r2 r3 r4 where "wire_step r (write_participant_index (ds_participant v)) r1"
      "wire_step r1 (write_element G (ds_share v)) r2" "wire_step r2 (write_scalar G (ds_challenge v)) r3"
      "wire_step r3 (write_scalar G (ds_decryption_response v)) r4"
      "wire_step r4 (write_scalar G (ds_context_response v)) r'"
      unfolding write_decryption_share_def wire_step_append by blast
    with h show "read_decryption_share G r = Inr (v, r')"
      by (simp add: read_decryption_share_def valid_decryption_share_def step_reads step_reads_group[OF assms])
  qed (auto simp: read_decryption_share_def write_decryption_share_def wire_step_append
        valid_decryption_share_def wire_simps wire_codec.read_iff[OF element_codec[OF assms]]
        wire_codec.read_iff[OF scalar_codec[OF assms]], blast)
qed

lemma public_key_set_codec:
  assumes "golden_codec G"
  shows "wire_codec (write_public_key_set G) (read_public_key_set G) (valid_public_key_set G)"
proof
  fix r r' and v :: "'b public_key_set"
  obtain t joint m where v: "v = \<lparr>pks_threshold = t, pks_joint_public_key = joint, pks_public_shares = m\<rparr>"
    by (cases v) auto
  have size: "length (write_public_share G s) = 2 * element_repr_bytes G" for s
    by (simp add: write_public_share_def write_element_def golden_codec.element_length[OF assms])
  let ?counted = "\<lambda>r2 n r3. n < 2 ^ 64 \<and> n \<le> MAX_PARTICIPANTS \<and> wire_step r2 (write_len n) r3
      \<and> ensure_remaining_items r3 n (4 + 2 * element_repr_bytes G) = Inr ()
      \<and> read_ascending ehtdh_ensure_increasing (read_public_share G) n None bt_empty r3 = Inr (m, r')"
  have counted: "(\<exists>n r3. ?counted r2 n r3) \<longleftrightarrow>
      valid_share_map m \<and> length m \<le> MAX_PARTICIPANTS
      \<and> wire_step r2 (write_len (length m) @ concat (map (write_public_share_entry G) m)) r'" for r2
    unfolding write_public_share_entry_def
    by (rule read_counted_map_iff[OF public_share_codec[OF assms] ehtdh_ensure_increasing_Inr size])
  have new: "t' = t \<and> joint' = joint \<and> m' = m \<and> t \<le> length m \<and> public_key_set_new G t joint m = Inr v"
    if "public_key_set_new G t' joint' m' = Inr v" for t' joint' m'
    using that by (auto simp: public_key_set_new_def v split: if_splits)
  show "read_public_key_set G r = Inr (v, r') \<longleftrightarrow>
      valid_public_key_set G v \<and> wire_step r (write_public_key_set G v) r'"
  proof
    assume "read_public_key_set G r = Inr (v, r')"
    then obtain r1 r2 n r3 where "wire_step r (write_len t) r1" "wire_step r1 (write_element G joint) r2"
      "?counted r2 n r3" "public_key_set_new G t joint m = Inr v"
      unfolding read_public_key_set_def Let_def read_public_shares_def
      by (auto simp: wire_simps wire_codec.read_iff[OF element_codec[OF assms]] not_less) (blast dest: new)
    with counted[of r2] show "valid_public_key_set G v \<and> wire_step r (write_public_key_set G v) r'"
      unfolding valid_public_key_set_def write_public_key_set_def wire_step_append v public_key_set.select_convs
      by blast
  next
    assume h: "valid_public_key_set G v \<and> wire_step r (write_public_key_set G v) r'"
    then obtain r1 r2 where "wire_step r (write_len t) r1" "wire_step r1 (write_element G joint) r2"
      "wire_step r2 (write_len (length m) @ concat (map (write_public_share_entry G) m)) r'"
      unfolding write_public_key_set_def wire_step_append v public_key_set.select_convs by blast
    moreover from this(3) h obtain n r3 where "?counted r2 n r3"
      using counted[of r2] by (auto simp: valid_public_key_set_def v)
    moreover have "public_key_set_new G t joint m = Inr v" "t < 2 ^ 64"
      using h new[of t joint m] by (auto simp: valid_public_key_set_def valid_share_map_def v)
    ultimately show "read_public_key_set G r = Inr (v, r')"
      by (clarsimp simp: read_public_key_set_def read_public_shares_def guard_eq_Inr step_reads
          step_reads_group[OF assms] not_less)
  qed
qed

lemma read_participants_iff:
  "wf_reader r \<Longrightarrow> read_participants n prev r = Inr (ps, r') \<longleftrightarrow>
    length ps = n \<and> increasing_from prev ps \<and> list_all valid_participant_index ps
    \<and> wire_step r (concat (map write_participant_index ps)) r'"
proof (induction n arbitrary: prev r ps)
  case 0
  then show ?case by (auto simp: wire_step_empty)
next
  case (Suc n)
  have "read_participants (Suc n) prev r = Inr (ps, r') \<longleftrightarrow>
      (\<exists>p ps'. ps = p # ps' \<and> valid_participant_index p \<and> (case prev of None \<Rightarrow> True | Some q \<Rightarrow> q < p)
        \<and> (\<exists>r1. wire_step r (write_participant_index p) r1 \<and> read_participants n (Some p) r1 = Inr (ps', r')))"
    by (auto simp: wire_simps)
  also have "\<dots> \<longleftrightarrow>
      (\<exists>p ps'. ps = p # ps' \<and> valid_participant_index p \<and> (case prev of None \<Rightarrow> True | Some q \<Rightarrow> q < p)
        \<and> (\<exists>r1. wire_step r (write_participant_index p) r1 \<and> length ps' = n \<and> increasing_from (Some p) ps'
            \<and> list_all valid_participant_index ps' \<and> wire_step r1 (concat (map write_participant_index ps')) r'))"
    using Suc.IH wire_step_wf by blast
  also have "\<dots> \<longleftrightarrow> length ps = Suc n \<and> increasing_from prev ps \<and> list_all valid_participant_index ps
      \<and> wire_step r (concat (map write_participant_index ps)) r'"
    by (cases ps) (auto simp: wire_step_append)
  finally show ?case .
qed

lemma read_counted_participants_iff:
  "(\<exists>n r1. n < 2 ^ 64 \<and> n \<le> MAX_PARTICIPANTS \<and> wire_step r (write_len n) r1
      \<and> ensure_remaining_items r1 n 4 = Inr () \<and> read_participants n None r1 = Inr (ps, r'))
    \<longleftrightarrow> length ps \<le> MAX_PARTICIPANTS \<and> sorted_wrt (<) ps \<and> list_all valid_participant_index ps
      \<and> wire_step r (write_len (length ps) @ concat (map write_participant_index ps)) r'"
proof -
  have size: "length (concat (map write_participant_index ps)) = length ps * 4"
    by (rule length_concat_fixed) (simp add: write_participant_index_def write_u32_def)
  have key: "wire_step r (write_len n) r1 \<and> ensure_remaining_items r1 n 4 = Inr ()
      \<and> read_participants n None r1 = Inr (ps, r')
    \<longleftrightarrow> wire_step r (write_len n) r1 \<and> length ps = n \<and> sorted_wrt (<) ps
      \<and> list_all valid_participant_index ps \<and> wire_step r1 (concat (map write_participant_index ps)) r'" for n r1
  proof (cases "wire_step r (write_len n) r1")
    case True
    have "read_participants n None r1 = Inr (ps, r') \<longleftrightarrow> length ps = n \<and> sorted_wrt (<) ps
        \<and> list_all valid_participant_index ps \<and> wire_step r1 (concat (map write_participant_index ps)) r'"
      by (simp add: read_participants_iff[OF wire_step_wf[OF True]] increasing_from_sorted)
    then show ?thesis using True size ensure_remaining_items_step[of r1 _ r' n 4] by blast
  qed blast
  have "n \<le> MAX_PARTICIPANTS \<Longrightarrow> n < 2 ^ 64" for n by (simp add: MAX_PARTICIPANTS_def)
  then show ?thesis unfolding key wire_step_append by blast
qed

lemma setup_context_codec: "wire_codec write_setup_context (read_setup_context G) (valid_setup_context G)"
proof
  fix r r' and v :: setup_context
  obtain b t rr ps ds cs dr cr ep where v: "v = \<lparr>ctx_backend_id = b, ctx_threshold = t, ctx_registry_root = rr,
      ctx_participants = ps, ctx_decryption_session_id = ds, ctx_context_session_id = cs,
      ctx_decryption_transcript_root = dr, ctx_context_transcript_root = cr, ctx_epoch = ep\<rparr>"
    by (cases v) auto
  let ?b = "ctx_backend_id v" and ?t = "ctx_threshold v" and ?ps = "ctx_participants v"
  let ?counted = "\<lambda>r4 n r5 r6. n < 2 ^ 64 \<and> n \<le> MAX_PARTICIPANTS \<and> wire_step r4 (write_len n) r5
      \<and> ensure_remaining_items r5 n 4 = Inr () \<and> read_participants n None r5 = Inr (?ps, r6)"
  let ?head = "\<lambda>r1 r2 r3 r4. wire_step r (write_len (length ?b)) r1 \<and> wire_step r1 ?b r2
      \<and> wire_step r2 (write_len ?t) r3 \<and> wire_step r3 (write_transcript_root (ctx_registry_root v)) r4"
  let ?rest = "\<lambda>r6 r7 r8 r9 r10. wire_step r6 (write_session_id (ctx_decryption_session_id v)) r7
      \<and> wire_step r7 (write_session_id (ctx_context_session_id v)) r8
      \<and> wire_step r8 (write_transcript_root (ctx_decryption_transcript_root v)) r9
      \<and> wire_step r9 (write_transcript_root (ctx_context_transcript_root v)) r10
      \<and> wire_step r10 (ctx_epoch v) r'"
  have counted: "(\<exists>n r5. ?counted r4 n r5 r6) \<longleftrightarrow>
      length ?ps \<le> MAX_PARTICIPANTS \<and> sorted_wrt (<) ?ps \<and> list_all valid_participant_index ?ps
      \<and> wire_step r4 (write_len (length ?ps) @ concat (map write_participant_index ?ps)) r6" for r4 r6
    by (rule read_counted_participants_iff)
  have split: "wire_step r (write_setup_context v) r' \<longleftrightarrow>
      (\<exists>r1 r2 r3 r4 r6 r7 r8 r9 r10. ?head r1 r2 r3 r4 \<and> ?rest r6 r7 r8 r9 r10
        \<and> wire_step r4 (write_len (length ?ps) @ concat (map write_participant_index ?ps)) r6)"
    unfolding write_setup_context_def wire_step_append by blast
  show "read_setup_context G r = Inr (v, r') \<longleftrightarrow> valid_setup_context G v \<and> wire_step r (write_setup_context v) r'"
  proof
    assume "read_setup_context G r = Inr (v, r')"
    then obtain r1 r2 r3 r4 n r5 r6 r7 r8 r9 r10 where steps: "?head r1 r2 r3 r4" "?counted r4 n r5 r6"
      "?rest r6 r7 r8 r9 r10"
      and ok: "?b \<noteq> []" "length ?b \<le> MAX_BACKEND_ID_BYTES" "utf8_valid ?b" "0 < ?t" "?t \<le> length ?ps"
        "valid_transcript_root (ctx_registry_root v)" "valid_session_id (ctx_decryption_session_id v)"
        "valid_session_id (ctx_context_session_id v)"
        "ctx_context_session_id v = derive_context_session_id G (ctx_decryption_session_id v)"
        "valid_transcript_root (ctx_decryption_transcript_root v)"
        "valid_transcript_root (ctx_context_transcript_root v)" "length (ctx_epoch v) = 32"
      unfolding read_setup_context_def read_array_def by (auto simp: wire_simps not_less v)
    from steps(2) counted[of r4 r6] have "length ?ps \<le> MAX_PARTICIPANTS \<and> sorted_wrt (<) ?ps
        \<and> list_all valid_participant_index ?ps
        \<and> wire_step r4 (write_len (length ?ps) @ concat (map write_participant_index ?ps)) r6" by blast
    with ok steps(1,3) show "valid_setup_context G v \<and> wire_step r (write_setup_context v) r'"
      unfolding split valid_setup_context_def by blast
  next
    assume h: "valid_setup_context G v \<and> wire_step r (write_setup_context v) r'"
    then obtain r1 r2 r3 r4 r6 r7 r8 r9 r10 where steps: "?head r1 r2 r3 r4" "?rest r6 r7 r8 r9 r10"
      "wire_step r4 (write_len (length ?ps) @ concat (map write_participant_index ?ps)) r6"
      unfolding split by blast
    from steps(3) h obtain n r5 where "?counted r4 n r5 r6"
      using counted[of r4 r6] by (auto simp: valid_setup_context_def)
    moreover have "length ?b < 2 ^ 64" "?t < 2 ^ 64"
      using h by (simp_all add: valid_setup_context_def MAX_BACKEND_ID_BYTES_def MAX_PARTICIPANTS_def)
    ultimately show "read_setup_context G r = Inr (v, r')"
      using h steps(1,2) unfolding valid_setup_context_def
      by (clarsimp simp: read_setup_context_def read_array_def str_from_utf8_Inr guard_eq_Inr step_reads not_less)
  qed
qed

end
