(* ===== verification/Ehtdh_Wire.thy ===== *)
theory Ehtdh_Wire
  imports Ehtdh_Codec
begin

text \<open>
  \<open>golden-ehtdh1/src/wire.rs\<close>: the standalone EHTDH1 messages. The envelope is the core crate's; the tags
  start at \<open>0x20\<close> and every decoding failure is the scheme's own \<open>InvalidEncoding\<close>.
\<close>

section \<open>The instances\<close>

definition TAG_SETUP_CONTEXT :: byte where "TAG_SETUP_CONTEXT = 0x20"
definition TAG_PUBLIC_KEY_SET :: byte where "TAG_PUBLIC_KEY_SET = 0x21"
definition TAG_PUBLIC_SHARE :: byte where "TAG_PUBLIC_SHARE = 0x22"
definition TAG_SECRET_SHARE :: byte where "TAG_SECRET_SHARE = 0x23"
definition TAG_SEALING_KEY :: byte where "TAG_SEALING_KEY = 0x24"
definition TAG_CIPHERTEXT :: byte where "TAG_CIPHERTEXT = 0x25"
definition TAG_DECRYPTION_SHARE :: byte where "TAG_DECRYPTION_SHARE = 0x26"

definition ehtdh_to_wire_bytes :: "('a, 'z) wire_message_scheme \<Rightarrow> 'a \<Rightarrow> bytes" where
  "ehtdh_to_wire_bytes M v = to_wire_bytes M v"

definition ehtdh_from_wire_bytes :: "('a, 'z) wire_message_scheme \<Rightarrow> bytes \<Rightarrow> 'a ehtdh_result" where
  "ehtdh_from_wire_bytes M bs = map_err (\<lambda>_. EncodingInvalid) (from_wire_bytes M bs)"

definition group_context :: "('s, 'e, 'z) golden_group_scheme \<Rightarrow> bytes \<Rightarrow> bytes list" where
  "group_context G codec_id = [codec_id, backend_id G]"

definition setup_context_message :: "('s, 'e, 'z) golden_group_scheme \<Rightarrow> setup_context wire_message" where
  "setup_context_message G =
     \<lparr>wm_tag = TAG_SETUP_CONTEXT, wm_context = [ascii ''ehtdh1-setup-context-v1''],
      wm_write = write_setup_context, wm_read = read_setup_context G\<rparr>"

definition public_share_message :: "('s, 'e, 'z) golden_group_scheme \<Rightarrow> 'e public_share wire_message" where
  "public_share_message G =
     \<lparr>wm_tag = TAG_PUBLIC_SHARE, wm_context = group_context G (ascii ''ehtdh1-public-share-v1''),
      wm_write = write_public_share G, wm_read = read_public_share G\<rparr>"

definition secret_share_message :: "('s, 'e, 'z) golden_group_scheme \<Rightarrow> 's secret_share wire_message" where
  "secret_share_message G =
     \<lparr>wm_tag = TAG_SECRET_SHARE, wm_context = group_context G (ascii ''ehtdh1-secret-share-v1''),
      wm_write = write_secret_share G, wm_read = read_secret_share G\<rparr>"

definition public_key_set_message ::
  "('s::field, 'e::ab_group_add, 'z) golden_group_scheme \<Rightarrow> 'e public_key_set wire_message" where
  "public_key_set_message G =
     \<lparr>wm_tag = TAG_PUBLIC_KEY_SET, wm_context = group_context G (ascii ''ehtdh1-public-key-set-v1''),
      wm_write = write_public_key_set G, wm_read = read_public_key_set G\<rparr>"

definition sealing_key_message ::
  "('s, 'e::ab_group_add, 'z) golden_group_scheme \<Rightarrow> 'e sealing_key wire_message" where
  "sealing_key_message G =
     \<lparr>wm_tag = TAG_SEALING_KEY, wm_context = group_context G (ascii ''ehtdh1-sealing-key-v1''),
      wm_write = write_sealing_key G, wm_read = read_sealing_key G\<rparr>"

definition ciphertext_message ::
  "('s, 'e, 'z) golden_group_scheme \<Rightarrow> ('s, 'e) ciphertext wire_message" where
  "ciphertext_message G =
     \<lparr>wm_tag = TAG_CIPHERTEXT, wm_context = group_context G (ascii ''ehtdh1-ciphertext-v1''),
      wm_write = write_ciphertext G, wm_read = read_ciphertext G\<rparr>"

definition decryption_share_message ::
  "('s, 'e, 'z) golden_group_scheme \<Rightarrow> ('s, 'e) decryption_share wire_message" where
  "decryption_share_message G =
     \<lparr>wm_tag = TAG_DECRYPTION_SHARE, wm_context = group_context G (ascii ''ehtdh1-decryption-share-v1''),
      wm_write = write_decryption_share G, wm_read = read_decryption_share G\<rparr>"

lemmas ehtdh_messages = setup_context_message_def public_share_message_def secret_share_message_def
  public_key_set_message_def sealing_key_message_def ciphertext_message_def decryption_share_message_def

lemmas ehtdh_tags = TAG_SETUP_CONTEXT_def TAG_PUBLIC_KEY_SET_def TAG_PUBLIC_SHARE_def TAG_SECRET_SHARE_def
  TAG_SEALING_KEY_def TAG_CIPHERTEXT_def TAG_DECRYPTION_SHARE_def

section \<open>Every instance is a message type\<close>

interpretation setup_context_type: wire_message_type "setup_context_message G" "valid_setup_context G" for G
  by (rule wire_message_typeI) (simp_all add: setup_context_message_def setup_context_codec)

sublocale golden_codec \<subseteq> public_share_type: wire_message_type "public_share_message G" "\<lambda>_. True"
  by (rule wire_message_typeI)
    (use backend_id_short in \<open>simp_all add: public_share_message_def public_share_codec golden_codec_axioms group_context_def\<close>)

sublocale golden_codec \<subseteq> secret_share_type: wire_message_type "secret_share_message G" valid_secret_share
  by (rule wire_message_typeI)
    (use backend_id_short in \<open>simp_all add: secret_share_message_def secret_share_codec golden_codec_axioms group_context_def\<close>)

sublocale golden_codec \<subseteq> public_key_set_type: wire_message_type "public_key_set_message G" "valid_public_key_set G"
  by (rule wire_message_typeI)
    (use backend_id_short in \<open>simp_all add: public_key_set_message_def public_key_set_codec golden_codec_axioms group_context_def\<close>)

sublocale golden_codec \<subseteq> sealing_key_type: wire_message_type "sealing_key_message G" valid_sealing_key
  by (rule wire_message_typeI)
    (use backend_id_short in \<open>simp_all add: sealing_key_message_def sealing_key_codec golden_codec_axioms group_context_def\<close>)

sublocale golden_codec \<subseteq> ciphertext_type: wire_message_type "ciphertext_message G" valid_ciphertext
  by (rule wire_message_typeI)
    (use backend_id_short in \<open>simp_all add: ciphertext_message_def ciphertext_codec golden_codec_axioms group_context_def\<close>)

sublocale golden_codec \<subseteq> decryption_share_type: wire_message_type "decryption_share_message G" valid_decryption_share
  by (rule wire_message_typeI)
    (use backend_id_short in \<open>simp_all add: decryption_share_message_def decryption_share_codec golden_codec_axioms group_context_def\<close>)

context golden_codec
begin

lemmas ehtdh_decodes = public_share_type.from_wire_bytes_iff secret_share_type.from_wire_bytes_iff
  public_key_set_type.from_wire_bytes_iff sealing_key_type.from_wire_bytes_iff
  ciphertext_type.from_wire_bytes_iff decryption_share_type.from_wire_bytes_iff

end

text \<open>The tags are disjoint from each other and from the core crate's.\<close>

lemma ehtdh_tags_disjoint:
  "distinct [TAG_SESSION_ID, TAG_DEALER_MESSAGE_NONCE, TAG_ENCRYPTED_SHARE, TAG_FELDMAN_COMMITMENT,
     TAG_PARTICIPANT_REGISTRY, TAG_DKG_CONFIG, TAG_DEALER_MESSAGE, TAG_IDENTITY_KEY_PROOF,
     TAG_SETUP_CONTEXT, TAG_PUBLIC_KEY_SET, TAG_PUBLIC_SHARE, TAG_SECRET_SHARE, TAG_SEALING_KEY,
     TAG_CIPHERTEXT, TAG_DECRYPTION_SHARE]"
  by (simp add: ehtdh_tags TAG_SESSION_ID_def TAG_DEALER_MESSAGE_NONCE_def TAG_ENCRYPTED_SHARE_def
      TAG_FELDMAN_COMMITMENT_def TAG_PARTICIPANT_REGISTRY_def TAG_DKG_CONFIG_def TAG_DEALER_MESSAGE_def
      TAG_IDENTITY_KEY_PROOF_def)

lemma map_err_Inr_iff: "map_err f x = Inr v \<longleftrightarrow> x = Inr v"
  by (cases x) auto

section \<open>Properties\<close>

text \<open>
  C24. The seven EHTDH1 values on the wire, for every backend with canonical encodings: the standalone
  decoder of a type accepts a byte string exactly when it is the canonical encoding of a valid
  value, and returns that value; whatever else it is given, it answers \<open>InvalidEncoding\<close>. Valid
  means: for a setup context, a UTF-8 backend of 1 to 255 bytes, at most 2^20 nonzero participants in
  strictly increasing order, a threshold between 1 and their number and the context session derived
  from the decryption session; for a key set, that its constructor accepts it; for a sealing key,
  not the identity; for a ciphertext, fields of at most 2^30 bytes.
\<close>

theorem ehtdh_wire_iff:
  assumes "golden_codec G"
  shows "(ehtdh_from_wire_bytes (setup_context_message G) bs = Inr ctx \<longleftrightarrow>
      valid_setup_context G ctx \<and> bs = ehtdh_to_wire_bytes (setup_context_message G) ctx \<and> length bs < 2 ^ 64)
    \<and> (ehtdh_from_wire_bytes (public_share_message G) bs = Inr ps \<longleftrightarrow>
      bs = ehtdh_to_wire_bytes (public_share_message G) ps \<and> length bs < 2 ^ 64)
    \<and> (ehtdh_from_wire_bytes (secret_share_message G) bs = Inr ss \<longleftrightarrow>
      valid_secret_share ss \<and> bs = ehtdh_to_wire_bytes (secret_share_message G) ss \<and> length bs < 2 ^ 64)
    \<and> (ehtdh_from_wire_bytes (public_key_set_message G) bs = Inr pks \<longleftrightarrow>
      valid_public_key_set G pks \<and> bs = ehtdh_to_wire_bytes (public_key_set_message G) pks \<and> length bs < 2 ^ 64)
    \<and> (ehtdh_from_wire_bytes (sealing_key_message G) bs = Inr sk \<longleftrightarrow>
      valid_sealing_key sk \<and> bs = ehtdh_to_wire_bytes (sealing_key_message G) sk \<and> length bs < 2 ^ 64)
    \<and> (ehtdh_from_wire_bytes (ciphertext_message G) bs = Inr ct \<longleftrightarrow>
      valid_ciphertext ct \<and> bs = ehtdh_to_wire_bytes (ciphertext_message G) ct \<and> length bs < 2 ^ 64)
    \<and> (ehtdh_from_wire_bytes (decryption_share_message G) bs = Inr ds \<longleftrightarrow>
      valid_decryption_share ds \<and> bs = ehtdh_to_wire_bytes (decryption_share_message G) ds \<and> length bs < 2 ^ 64)"
  unfolding ehtdh_from_wire_bytes_def ehtdh_to_wire_bytes_def map_err_Inr_iff
    setup_context_type.from_wire_bytes_iff golden_codec.ehtdh_decodes[OF assms] by simp

lemma tiny_backend_utf8: "ascii ''golden-test-tiny-v1'' \<noteq> [] \<and> utf8_valid (ascii ''golden-test-tiny-v1'')"
  by code_simp

lemma tiny_setup_valid: "valid_setup_context tiny_hash_group tiny_setup"
  using tiny_backend_utf8
  by (simp add: valid_setup_context_def tiny_setup_def MAX_BACKEND_ID_BYTES_def MAX_PARTICIPANTS_def
      valid_transcript_root_def valid_participant_index_def valid_session_id_def
      less_participant_index_def derive_context_session_id_def tb_root_def tiny_hash_def)

lemma ehtdh_wire_iff_witness:
  "ehtdh_from_wire_bytes (setup_context_message tiny_hash_group)
     (ehtdh_to_wire_bytes (setup_context_message tiny_hash_group) tiny_setup) = Inr tiny_setup"
proof -
  have "length (ehtdh_to_wire_bytes (setup_context_message tiny_hash_group) tiny_setup) < 2 ^ 64"
    by (simp add: ehtdh_to_wire_bytes_def to_wire_bytes_def setup_context_message_def MAGIC_def
        write_wire_context_def write_context_field_def write_setup_context_def wire_lengths tiny_setup_def)
  with ehtdh_wire_iff[OF tinyh.golden_codec_axioms] tiny_setup_valid show ?thesis by blast
qed

text \<open>
  A public key set that was received over the wire can be used for decryption: the bytes are its
  only encoding, it names between 1 and 2^20 participants, nonzero and in strictly increasing order,
  the threshold is positive and at most their number, the joint key is not the identity, and
  the shares lie in the exponent on two polynomials of \<open>threshold\<close> coefficients, one through the
  joint key and one through the identity.
\<close>

theorem decoded_public_key_set_consistent:
  fixes G :: "('s::field, 'e::ab_group_add, 'z) golden_group_scheme"
  assumes "golden_codec G" and "prime_group G"
    and "ehtdh_from_wire_bytes (public_key_set_message G) bs = Inr pks"
  shows "bs = ehtdh_to_wire_bytes (public_key_set_message G) pks
    \<and> 0 < pks_threshold pks \<and> pks_threshold pks \<le> length (pks_public_shares pks)
    \<and> length (pks_public_shares pks) \<le> 2 ^ 20 \<and> pks_joint_public_key pks \<noteq> 0
    \<and> sorted_wrt (<) (bt_keys (pks_public_shares pks))
    \<and> (\<forall>p \<in> set (bt_keys (pks_public_shares pks)). index_get p \<noteq> 0)
    \<and> (\<exists>f h :: 's list. shares_on_polynomials G (pks_threshold pks) (pks_joint_public_key pks)
         (pks_public_shares pks) f h)"
proof -
  let ?t = "pks_threshold pks" and ?joint = "pks_joint_public_key pks" and ?m = "pks_public_shares pks"
  have bs: "bs = ehtdh_to_wire_bytes (public_key_set_message G) pks" and ok: "valid_public_key_set G pks"
    using assms(3) unfolding ehtdh_from_wire_bytes_def ehtdh_to_wire_bytes_def map_err_Inr_iff
      golden_codec.ehtdh_decodes[OF assms(1)] by simp_all
  from ok have map: "sorted_wrt (<) (bt_keys ?m)" "\<forall>p \<in> set (bt_keys ?m). index_get p \<noteq> 0"
    "length ?m \<le> 2 ^ 20"
    by (auto simp: valid_public_key_set_def valid_share_map_def bt_keys_def list_all_iff
        valid_participant_index_def MAX_PARTICIPANTS_def)
  have new: "0 < ?t" "?t \<le> length ?m" "?joint \<noteq> 0" "validate_public_shares G ?t ?joint ?m = Inr ()"
    using ok by (auto simp: valid_public_key_set_def public_key_set_new_def is_identity_def split: if_splits)
  moreover have "bt_sorted ?m" using map(1) by (simp add: bt_sorted_def)
  ultimately have "\<exists>f h :: 's list. shares_on_polynomials G ?t ?joint ?m f h"
    by (simp add: validate_public_shares_Inr[OF assms(2)])
  with bs map new show ?thesis by blast
qed

lemma decoded_public_key_set_consistent_witness:
  "ehtdh_from_wire_bytes (public_key_set_message tiny_hash_group)
     (ehtdh_to_wire_bytes (public_key_set_message tiny_hash_group) tiny_key_set) = Inr tiny_key_set
   \<and> (\<exists>f h. shares_on_polynomials tiny_hash_group 2 11 tiny_public_shares f h)"
proof -
  have "valid_share_map tiny_public_shares" "length tiny_public_shares \<le> MAX_PARTICIPANTS"
    using tiny_public_shares_sorted
    by (auto simp: valid_share_map_def bt_sorted_def bt_keys_def list_all_iff tiny_public_shares_def
        valid_participant_index_def MAX_PARTICIPANTS_def)
  then have "valid_public_key_set tiny_hash_group tiny_key_set"
    using tiny_hash_key_set by (simp add: valid_public_key_set_def tiny_key_set_def)
  moreover have "length (ehtdh_to_wire_bytes (public_key_set_message tiny_hash_group) tiny_key_set) < 2 ^ 64"
    by (simp add: ehtdh_to_wire_bytes_def to_wire_bytes_def public_key_set_message_def MAGIC_def group_context_def
        write_wire_context_def write_context_field_def write_public_key_set_def write_public_share_entry_def
        write_public_share_def wire_lengths tiny_key_set_def tiny_public_shares_def tinyh.golden_codec_axioms)
  ultimately have dec: "ehtdh_from_wire_bytes (public_key_set_message tiny_hash_group)
     (ehtdh_to_wire_bytes (public_key_set_message tiny_hash_group) tiny_key_set) = Inr tiny_key_set"
    unfolding ehtdh_from_wire_bytes_def ehtdh_to_wire_bytes_def map_err_Inr_iff
      golden_codec.ehtdh_decodes[OF tinyh.golden_codec_axioms] by simp
  from decoded_public_key_set_consistent[OF tinyh.golden_codec_axioms tinyh.prime_group_axioms this] dec
  show ?thesis by (simp add: tiny_key_set_def)
qed

end
