(* ===== verification/Pippenger.thy ===== *)
theory Pippenger
  imports Prelude
begin

unbundle bit_operations_syntax

text \<open>
  \<open>golden-bls-jubjub/src/pippenger.rs\<close>: multi-scalar multiplication with buckets, over any additive
  group. The scalars are little-endian byte strings, read in windows of four bits from the top; the
  property is that the result is the sum of the multiples that the windows cover.
\<close>

section \<open>Multiples in a group\<close>

definition times_nat :: "nat \<Rightarrow> 'p::ab_group_add \<Rightarrow> 'p" where
  "times_nat n p = ((+) p ^^ n) 0"

lemma times_nat_simps [simp]: "times_nat 0 p = 0" "times_nat (Suc n) p = p + times_nat n p"
  by (simp_all add: times_nat_def)

lemma times_nat_zero [simp]: "times_nat n 0 = 0"
  by (induction n) auto

lemma times_nat_add: "times_nat (m + n) p = times_nat m p + times_nat n p"
  by (induction m) (auto simp: add.assoc)

lemma times_nat_add_point: "times_nat n (p + q) = times_nat n p + times_nat n q"
  by (induction n) (auto simp: algebra_simps)

lemma times_nat_mult: "times_nat (m * n) p = times_nat m (times_nat n p)"
  by (induction m) (auto simp: times_nat_add)

lemma times_nat_sum_list: "times_nat n (sum_list ps) = (\<Sum>p\<leftarrow>ps. times_nat n p)"
  by (induction ps) (auto simp: times_nat_add_point)

section \<open>The code\<close>

definition WINDOW_BITS :: nat where "WINDOW_BITS = 4"

definition window_digit :: "bytes \<Rightarrow> nat \<Rightarrow> nat \<Rightarrow> usize" where
  "window_digit bs window_idx window_bits =
     (let bit_offset = window_idx * window_bits
      in fold (\<lambda>i digit.
           let bit_pos = bit_offset + i; byte_idx = bit_pos div 8;
               bit = (if byte_idx < length bs then drop_bit (bit_pos mod 8) (bs ! byte_idx) AND 1 else 0)
           in digit OR push_bit i (unat bit)) [0..<window_bits] 0)"

text \<open>One window: the points fall into the bucket of their digit, a running sum adds the buckets up.\<close>

definition fill_buckets :: "bytes list \<Rightarrow> 'p::ab_group_add list \<Rightarrow> nat \<Rightarrow> 'p list" where
  "fill_buckets scalar_bytes points window_idx =
     fold (\<lambda>(bs, point) buckets.
         let digit = window_digit bs window_idx WINDOW_BITS
         in if digit \<noteq> 0 then buckets[digit := buckets ! digit + point] else buckets)
       (zip scalar_bytes points) (replicate (2 ^ WINDOW_BITS) 0)"

definition sum_buckets :: "'p::ab_group_add list \<Rightarrow> 'p" where
  "sum_buckets buckets =
     fst (fold (\<lambda>bucket (window_sum, running_sum).
           let running_sum = running_sum + bucket in (window_sum + running_sum, running_sum))
         (rev (drop 1 buckets)) (0, 0))"

definition multi_scalar_mul :: "bytes list \<Rightarrow> 'p::ab_group_add list \<Rightarrow> nat \<Rightarrow> 'p" where
  "multi_scalar_mul scalar_bytes points scalar_bit_len =
     (if points = [] then 0
      else let num_windows = (scalar_bit_len + WINDOW_BITS - 1) div WINDOW_BITS
        in fold (\<lambda>window_idx result.
             let result = ((\<lambda>p. p + p) ^^ WINDOW_BITS) result
             in result + sum_buckets (fill_buckets scalar_bytes points window_idx))
           (rev [0..<num_windows]) 0)"

section \<open>Little-endian numbers\<close>

definition from_le :: "bytes \<Rightarrow> nat" where
  "from_le bs = from_be (rev bs)"

lemma from_be_snoc: "from_be (bs @ [b]) = from_be bs * 256 + unat b"
  by (simp add: from_be_def)

lemma from_le_simps [simp]: "from_le [] = 0" "from_le (b # bs) = unat b + 256 * from_le bs"
  by (simp_all add: from_le_def from_be_snoc)

lemma from_le_less: "from_le bs < 256 ^ length bs"
  using from_be_less[of "rev bs"] by (simp add: from_le_def)

lemma bit_from_le: "bit (from_le bs) p \<longleftrightarrow> p div 8 < length bs \<and> bit (bs ! (p div 8)) (p mod 8)"
proof (induction bs arbitrary: p)
  case (Cons b bs)
  let ?x = "unat b + 256 * from_le bs"
  have lt: "unat b < 256" by (rule unat_byte_less)
  show ?case
  proof (cases "p < 8")
    case True
    have "take_bit 8 ?x = unat b" using lt by (simp add: take_bit_eq_mod)
    then have "bit ?x p \<longleftrightarrow> bit (unat b) p" using True by (metis bit_take_bit_iff)
    with True show ?thesis by (simp add: bit_unsigned_iff)
  next
    case False
    then obtain q where p: "p = 8 + q" using le_Suc_ex not_less by blast
    have "drop_bit 8 ?x = from_le bs" using lt by (simp add: drop_bit_eq_div)
    then have "bit ?x p \<longleftrightarrow> bit (from_le bs) q" by (metis p bit_drop_bit_eq comp_apply)
    moreover have "(8 + q) div 8 = Suc (q div 8)" "(8 + q) mod 8 = q mod 8" by simp_all
    ultimately show ?thesis unfolding p Cons.IH by simp
  qed
qed simp

lemma window_digit_value: "window_digit bs w k = take_bit k (drop_bit (w * k) (from_le bs))"
proof -
  let ?bit = "\<lambda>i. (if (w * k + i) div 8 < length bs
      then drop_bit ((w * k + i) mod 8) (bs ! ((w * k + i) div 8)) AND 1 else 0)"
  let ?x = "drop_bit (w * k) (from_le bs)"
  have one: "push_bit i (unat (?bit i)) = (if bit ?x i then 2 ^ i else 0)" for i
  proof -
    have "?bit i = (if bit ?x i then 1 else 0)"
      by (simp add: bit_drop_bit_eq bit_from_le and_one_eq mod_2_eq_odd flip: bit_iff_odd_drop_bit)
    then show ?thesis by (simp add: push_bit_of_1)
  qed
  have "fold (\<lambda>i digit. digit OR push_bit i (unat (?bit i))) [0..<n] 0 = take_bit n ?x" for n
  proof (induction n)
    case (Suc n)
    have "take_bit n ?x OR (if bit ?x n then 2 ^ n else 0) = take_bit (Suc n) ?x"
      by (rule bit_eqI) (auto simp: bit_or_iff bit_take_bit_iff bit_exp_iff less_Suc_eq)
    then show ?case using Suc by (simp add: one)
  qed simp
  then show ?thesis by (simp add: window_digit_def Let_def)
qed

lemma window_digit_less: "window_digit bs w k < 2 ^ k"
  by (simp add: window_digit_value take_bit_nat_less_exp)

section \<open>Buckets\<close>

text \<open>The running sum over the buckets from the top counts bucket \<open>d\<close> exactly \<open>d\<close> times.\<close>

lemma sum_buckets_loop:
  "fold (\<lambda>bucket (window_sum, running_sum).
       let running_sum = running_sum + bucket in (window_sum + running_sum, running_sum)) (rev bs) (w, r)
   = (w + times_nat (length bs) r + (\<Sum>d<length bs. times_nat (Suc d) (bs ! d)), r + sum_list bs)"
proof (induction bs arbitrary: w r rule: rev_induct)
  case (snoc b bs)
  let ?f = "\<lambda>bucket (window_sum, running_sum).
      let running_sum = running_sum + bucket in (window_sum + running_sum, running_sum)"
  have step: "fold ?f (rev (bs @ [b])) (w, r) = fold ?f (rev bs) (w + (r + b), r + b)" by (simp add: Let_def)
  have "(\<Sum>d<length bs. times_nat (Suc d) ((bs @ [b]) ! d)) = (\<Sum>d<length bs. times_nat (Suc d) (bs ! d))"
    by (intro sum.cong) (auto simp: nth_append)
  then show ?case
    unfolding step snoc.IH by (simp add: times_nat_add_point algebra_simps del: times_nat_simps(2)) simp
qed simp

lemma sum_buckets_value:
  "sum_buckets buckets = (\<Sum>d<length buckets. times_nat d (buckets ! d))"
proof (cases buckets)
  case (Cons b bs)
  have "(\<Sum>d<length (b # bs). times_nat d ((b # bs) ! d)) = (\<Sum>d<length bs. times_nat (Suc d) (bs ! d))"
    unfolding length_Cons sum.lessThan_Suc_shift by simp
  then show ?thesis unfolding Cons sum_buckets_def by (simp add: sum_buckets_loop del: sum.lessThan_Suc)
qed (simp add: sum_buckets_def)

text \<open>A bucket holds the sum of the points with its digit; the points with digit zero are dropped.\<close>

lemma fill_buckets_loop:
  fixes dig :: "bytes \<Rightarrow> nat" and buckets :: "'p::ab_group_add list"
  assumes "\<And>bs. dig bs < length buckets"
  shows "(\<Sum>d<length buckets. times_nat d (fold (\<lambda>(bs, point) buckets.
         if dig bs \<noteq> 0 then buckets[dig bs := buckets ! dig bs + point] else buckets) xs buckets ! d))
    = (\<Sum>d<length buckets. times_nat d (buckets ! d)) + (\<Sum>(bs, point)\<leftarrow>xs. times_nat (dig bs) point)"
  using assms
proof (induction xs arbitrary: buckets)
  case (Cons x xs)
  obtain bs point where x: "x = (bs, point)" by (cases x)
  show ?case
  proof (cases "dig bs = 0")
    case False
    let ?b = "buckets[dig bs := buckets ! dig bs + point]"
    have len: "length ?b = length buckets" by simp
    have "(\<Sum>d<length buckets. times_nat d (?b ! d))
        = (\<Sum>d<length buckets. times_nat d (buckets ! d) + (if d = dig bs then times_nat d point else 0))"
      using Cons.prems by (intro sum.cong) (auto simp: nth_list_update times_nat_add_point)
    also have "\<dots> = (\<Sum>d<length buckets. times_nat d (buckets ! d)) + times_nat (dig bs) point"
      using Cons.prems[of bs] by (simp add: sum.distrib sum.delta)
    finally show ?thesis
      using Cons.IH[of ?b] Cons.prems False by (simp add: x algebra_simps)
  qed (use Cons in \<open>simp add: x\<close>)
qed simp

lemma window_sum:
  "sum_buckets (fill_buckets scalar_bytes points window_idx)
    = (\<Sum>(bs, point)\<leftarrow>zip scalar_bytes points. times_nat (window_digit bs window_idx WINDOW_BITS) point)"
proof -
  have len: "length (fold (\<lambda>(bs, point) buckets. if dig bs \<noteq> 0 then buckets[dig bs := buckets ! dig bs + point]
      else buckets) xs buckets) = length buckets" for dig :: "bytes \<Rightarrow> nat" and xs and buckets :: "'a list"
    by (induction xs arbitrary: buckets) (auto split: prod.splits)
  have f: "fill_buckets scalar_bytes points window_idx = fold (\<lambda>(bs, point) buckets.
      if window_digit bs window_idx WINDOW_BITS \<noteq> 0
      then buckets[window_digit bs window_idx WINDOW_BITS := buckets ! window_digit bs window_idx WINDOW_BITS + point]
      else buckets) (zip scalar_bytes points) (replicate (2 ^ WINDOW_BITS) 0)"
    unfolding fill_buckets_def Let_def ..
  have l: "length (fill_buckets scalar_bytes points window_idx) = 2 ^ WINDOW_BITS"
    unfolding f len by simp
  have "window_digit bs window_idx WINDOW_BITS < length (replicate (2 ^ WINDOW_BITS) (0 :: 'a))" for bs
    by (simp add: window_digit_less)
  from fill_buckets_loop[of "\<lambda>bs. window_digit bs window_idx WINDOW_BITS", OF this, of "zip scalar_bytes points"]
  show ?thesis
    unfolding sum_buckets_value l unfolding f length_replicate by simp
qed

section \<open>Correctness\<close>

lemma four_doublings: "((\<lambda>p. p + p) ^^ n) p = times_nat (2 ^ n) p"
  by (induction n) (auto simp: times_nat_add mult_2)

lemma windows_value:
  "fold (\<lambda>window_idx result. ((\<lambda>p. p + p) ^^ WINDOW_BITS) result
       + sum_buckets (fill_buckets scalar_bytes points window_idx)) (rev [k..<k + n]) 0
   = (\<Sum>(bs, point)\<leftarrow>zip scalar_bytes points.
        times_nat (take_bit (WINDOW_BITS * n) (drop_bit (WINDOW_BITS * k) (from_le bs))) point)"
proof (induction n arbitrary: k)
  case 0
  show ?case by (simp add: case_prod_unfold sum_list_0)
next
  case (Suc n)
  let ?step = "\<lambda>window_idx result. ((\<lambda>p. p + p) ^^ WINDOW_BITS) result
      + sum_buckets (fill_buckets scalar_bytes points window_idx)"
  have "rev [k..<k + Suc n] = rev [Suc k..<Suc k + n] @ [k]"
    by (simp add: upt_conv_Cons del: upt_Suc)
  then have step: "fold ?step (rev [k..<k + Suc n]) 0 = ?step k (fold ?step (rev [Suc k..<Suc k + n]) 0)"
    by (simp only: fold_append comp_apply fold_simps)
  have digits: "take_bit (WINDOW_BITS * Suc n) (drop_bit (WINDOW_BITS * k) x)
      = 2 ^ WINDOW_BITS * take_bit (WINDOW_BITS * n) (drop_bit (WINDOW_BITS * Suc k) x)
        + take_bit WINDOW_BITS (drop_bit (k * WINDOW_BITS) x)" for x :: nat
    by (simp add: take_bit_eq_mod drop_bit_eq_div power_add mod_mult2_eq div_mult2_eq mult.commute)
      (simp add: mult.commute flip: div_mult2_eq)
  show ?case
    unfolding step unfolding Suc.IH unfolding four_doublings times_nat_sum_list window_sum window_digit_value digits
    by (simp add: times_nat_add times_nat_mult case_prod_unfold comp_def sum_list_addf)
qed

text \<open>The bits read are those of whole windows, up to the first multiple of four above the bit length.\<close>

lemma multi_scalar_mul_value:
  "multi_scalar_mul scalar_bytes points scalar_bit_len
    = (\<Sum>(bs, point)\<leftarrow>zip scalar_bytes points.
         times_nat (from_le bs mod 2 ^ (4 * ((scalar_bit_len + 3) div 4))) point)"
proof (cases "points = []")
  case False
  have "multi_scalar_mul scalar_bytes points scalar_bit_len
      = fold (\<lambda>window_idx result. ((\<lambda>p. p + p) ^^ WINDOW_BITS) result
          + sum_buckets (fill_buckets scalar_bytes points window_idx)) (rev [0..<(scalar_bit_len + 3) div 4]) 0"
    using False by (simp add: multi_scalar_mul_def Let_def WINDOW_BITS_def add.commute)
  then show ?thesis
    using windows_value[of scalar_bytes points 0 "(scalar_bit_len + 3) div 4"]
    by (simp add: WINDOW_BITS_def take_bit_eq_mod case_prod_unfold)
qed (simp add: multi_scalar_mul_def)

end
