(* ===== verification/Cycle.thy ===== *)
theory Cycle
  imports Proof_Stream Pippenger
begin

text \<open>
  \<open>bulletproofs-cycle/src/cycle.rs\<close>, \<open>errors.rs\<close>, \<open>util.rs\<close> and \<open>transcript.rs\<close>: the trait \<open>Cycle\<close> of a commitment
  group with its scalar field, as the record \<open>cycle\<close>; the errors; the polynomial helpers; the
  transcript helpers. Field and group arithmetic are those of the classes \<open>field\<close> and \<open>ab_group_add\<close>. The
  locale \<open>cycle_laws\<close> is what the proofs rely on of an implementation.
\<close>

section \<open>Errors\<close>

datatype proof_error = VerificationError | FormatError | InvalidGeneratorsLength | InvalidInputLength

datatype r1cs_error =
    R1CSInvalidGeneratorsLength
  | R1CSFormatError
  | R1CSVerificationError
  | MissingAssignment

primrec r1cs_error_from :: "proof_error \<Rightarrow> r1cs_error" where
  "r1cs_error_from InvalidGeneratorsLength = R1CSInvalidGeneratorsLength"
| "r1cs_error_from FormatError = R1CSFormatError"
| "r1cs_error_from VerificationError = R1CSVerificationError"
| "r1cs_error_from InvalidInputLength = R1CSVerificationError"

type_synonym 'a proof_result = "proof_error + 'a"

section \<open>The trait\<close>

text \<open>
  Points \<open>'p\<close>, their affine form \<open>'a\<close>, compressed encodings \<open>'c\<close>. Hashing to the group tries candidates
  until one is a point; \<open>None\<close> stands for not returning.
\<close>

record ('s, 'p, 'a, 'c) cycle =
  compressed_bytes :: usize
  group_generator :: 'p
  point_mul :: "'p \<Rightarrow> 's \<Rightarrow> 'p"
  scalar_from_wide :: "bytes \<Rightarrow> 's"
  scalar_from_canonical :: "bytes \<Rightarrow> 's option"
  scalar_to_canonical :: "'s \<Rightarrow> bytes"
  scalar_invert :: "'s \<Rightarrow> 's"
  scalar_batch_invert :: "'s list \<Rightarrow> 's list \<times> 's"
  point_compress :: "'p \<Rightarrow> 'c"
  compressed_decompress :: "'c \<Rightarrow> 'p option"
  compressed_identity :: 'c
  compressed_is_identity :: "'c \<Rightarrow> bool"
  compressed_from_bytes :: "bytes \<Rightarrow> 'c"
  compressed_as_bytes :: "'c \<Rightarrow> bytes"
  point_hash_from_uniform :: "bytes \<Rightarrow> 'p option"
  point_to_affine :: "'p \<Rightarrow> 'a"
  affine_to_point :: "'a \<Rightarrow> 'p"
  batch_normalize :: "'p list \<Rightarrow> 'a list"
  affine_compress :: "'a \<Rightarrow> 'c"
  vartime_msm :: "'s list \<Rightarrow> 'p list \<Rightarrow> 'p"
  vartime_msm_affine :: "'s list \<Rightarrow> 'a list \<Rightarrow> 'p"
  vartime_msm_optional :: "'s list \<Rightarrow> 'p option list \<Rightarrow> 'p option"

text \<open>The default methods of the trait.\<close>

definition points_hash_from_uniform :: "('s, 'p, 'a, 'c, 'z) cycle_scheme \<Rightarrow> bytes list \<Rightarrow> 'p list option" where
  "points_hash_from_uniform C bs = those (map (point_hash_from_uniform C) bs)"

definition vartime_msm_mixed ::
  "('s, 'p::ab_group_add, 'a, 'c, 'z) cycle_scheme \<Rightarrow> ('s list \<times> 'a list) list \<Rightarrow> 's list \<Rightarrow> 'p list \<Rightarrow> 'p" where
  "vartime_msm_mixed C affine_batches dynamic_scalars dynamic_points =
     fold (\<lambda>(scalars, points) res. res + vartime_msm_affine C scalars points) affine_batches
       (vartime_msm C dynamic_scalars dynamic_points)"

section \<open>Helpers of the R1CS proofs\<close>

definition inner_product :: "'s::field list \<Rightarrow> 's list \<Rightarrow> 's" where
  "inner_product a b = fold (\<lambda>i out. out + a ! i * b ! i) [0..<min (length a) (length b)] 0"

text \<open>\<open>exp_iter(x).take(n)\<close>: the iterator's state is the next power.\<close>

primrec exp_iter_from :: "nat \<Rightarrow> 's::field \<Rightarrow> 's \<Rightarrow> 's list" where
  "exp_iter_from 0 x next_exp_x = []"
| "exp_iter_from (Suc n) x next_exp_x = next_exp_x # exp_iter_from n x (next_exp_x * x)"

definition exp_iter :: "nat \<Rightarrow> 's::field \<Rightarrow> 's list" where
  "exp_iter n x = exp_iter_from n x 1"

record 's vec_poly3 =
  vp0 :: "'s list"
  vp1 :: "'s list"
  vp2 :: "'s list"
  vp3 :: "'s list"

record 's poly6 =
  t1 :: 's
  t2 :: 's
  t3 :: 's
  t4 :: 's
  t5 :: 's
  t6 :: 's

definition special_inner_product :: "'s::field vec_poly3 \<Rightarrow> 's vec_poly3 \<Rightarrow> 's poly6" where
  "special_inner_product lhs rhs =
     \<lparr>t1 = inner_product (vp1 lhs) (vp0 rhs),
      t2 = inner_product (vp1 lhs) (vp1 rhs) + inner_product (vp2 lhs) (vp0 rhs),
      t3 = inner_product (vp2 lhs) (vp1 rhs) + inner_product (vp3 lhs) (vp0 rhs),
      t4 = inner_product (vp1 lhs) (vp3 rhs) + inner_product (vp3 lhs) (vp1 rhs),
      t5 = inner_product (vp2 lhs) (vp3 rhs),
      t6 = inner_product (vp3 lhs) (vp3 rhs)\<rparr>"

definition vec_poly3_eval :: "'s::field vec_poly3 \<Rightarrow> 's \<Rightarrow> 's list" where
  "vec_poly3_eval p x =
     (let n = max (max (max (length (vp0 p)) (length (vp1 p))) (length (vp2 p))) (length (vp3 p));
          at = (\<lambda>v i. if i < length v then v ! i else 0)
      in map (\<lambda>i. at (vp0 p) i + x * (at (vp1 p) i + x * (at (vp2 p) i + x * at (vp3 p) i))) [0..<n])"

definition poly6_eval :: "'s::field poly6 \<Rightarrow> 's \<Rightarrow> 's" where
  "poly6_eval p x = x * (t1 p + x * (t2 p + x * (t3 p + x * (t4 p + x * (t5 p + x * t6 p)))))"

definition sum_of_powers_slow :: "'s::field \<Rightarrow> usize \<Rightarrow> 's" where
  "sum_of_powers_slow x n = sum_list (exp_iter n x)"

definition is_power_of_two :: "nat \<Rightarrow> bool" where
  "is_power_of_two n \<longleftrightarrow> (\<exists>k \<in> set [0..<Suc n]. n = 2 ^ k)"

text \<open>The doubling loop; \<open>m\<close> halves until it is at most two.\<close>

function sum_of_powers_loop :: "nat \<Rightarrow> 's::field \<Rightarrow> 's \<Rightarrow> 's" where
  "sum_of_powers_loop m factor res =
     (if 2 < m
      then let factor = factor * factor; res = res + factor * res in sum_of_powers_loop (m div 2) factor res
      else res)"
  by pat_completeness auto
termination by (relation "measure (\<lambda>(m, _, _). m)") auto

declare sum_of_powers_loop.simps [simp del]

definition sum_of_powers :: "'s::field \<Rightarrow> usize \<Rightarrow> 's" where
  "sum_of_powers x n =
     (if \<not> is_power_of_two n then sum_of_powers_slow x n
      else if n = 0 \<or> n = 1 then of_nat n
      else sum_of_powers_loop n x (1 + x))"

definition read32 :: "bytes \<Rightarrow> bytes" where
  "read32 data = take 32 data"

section \<open>Transcript helpers\<close>

text \<open>\<open>append_u64\<close> is an operation of Merlin, like the three of the record \<open>merlin\<close>.\<close>

record 't merlin_u64 = "'t merlin" +
  append_u64 :: "bytes \<Rightarrow> usize \<Rightarrow> 't \<Rightarrow> 't"

definition innerproduct_domain_sep :: "('t, 'y) merlin_u64_scheme \<Rightarrow> usize \<Rightarrow> 't \<Rightarrow> 't" where
  "innerproduct_domain_sep M n t =
     append_u64 M (ascii ''n'') n (append_message M (ascii ''dom-sep'') (ascii ''ipp v1'') t)"

definition r1cs_domain_sep :: "('t, 'y) merlin_scheme \<Rightarrow> 't \<Rightarrow> 't" where
  "r1cs_domain_sep M t = append_message M (ascii ''dom-sep'') (ascii ''r1cs v1'') t"

definition r1cs_1phase_domain_sep :: "('t, 'y) merlin_scheme \<Rightarrow> 't \<Rightarrow> 't" where
  "r1cs_1phase_domain_sep M t = append_message M (ascii ''dom-sep'') (ascii ''r1cs-1phase'') t"

definition r1cs_2phase_domain_sep :: "('t, 'y) merlin_scheme \<Rightarrow> 't \<Rightarrow> 't" where
  "r1cs_2phase_domain_sep M t = append_message M (ascii ''dom-sep'') (ascii ''r1cs-2phase'') t"

definition append_scalar ::
  "('t, 'y) merlin_scheme \<Rightarrow> ('s, 'p, 'a, 'c, 'z) cycle_scheme \<Rightarrow> bytes \<Rightarrow> 's \<Rightarrow> 't \<Rightarrow> 't" where
  "append_scalar M C label scalar t = append_message M label (scalar_to_canonical C scalar) t"

definition append_point ::
  "('t, 'y) merlin_scheme \<Rightarrow> ('s, 'p, 'a, 'c, 'z) cycle_scheme \<Rightarrow> bytes \<Rightarrow> 'c \<Rightarrow> 't \<Rightarrow> 't" where
  "append_point M C label point t = append_message M label (compressed_as_bytes C point) t"

definition validate_and_append_point ::
  "('t, 'y) merlin_scheme \<Rightarrow> ('s, 'p, 'a, 'c, 'z) cycle_scheme \<Rightarrow> bytes \<Rightarrow> 'c \<Rightarrow> 't \<Rightarrow> 't proof_result" where
  "validate_and_append_point M C label point t =
     (if compressed_is_identity C point then Inl VerificationError
      else Inr (append_message M label (compressed_as_bytes C point) t))"

definition challenge_scalar ::
  "('t, 'y) merlin_scheme \<Rightarrow> ('s, 'p, 'a, 'c, 'z) cycle_scheme \<Rightarrow> bytes \<Rightarrow> 't \<Rightarrow> 's \<times> 't" where
  "challenge_scalar M C label t =
     (let (buf, t) = challenge_bytes M label 64 t in (scalar_from_wide C buf, t))"

section \<open>The contract of an implementation\<close>

locale cycle_laws =
  fixes C :: "('s::field, 'p::ab_group_add, 'a, 'c, 'z) cycle_scheme"
  assumes pmul_add: "point_mul C p (x + y) = point_mul C p x + point_mul C p y"
    and pmul_add_point: "point_mul C (p + q) x = point_mul C p x + point_mul C q x"
    and pmul_mult: "point_mul C (point_mul C p x) y = point_mul C p (x * y)"
    and pmul_one: "point_mul C p 1 = p"
    and msm: "length xs = length ps \<Longrightarrow> vartime_msm C xs ps = (\<Sum>(x, p)\<leftarrow>zip xs ps. point_mul C p x)"
    and msm_affine: "length xs = length as \<Longrightarrow>
      vartime_msm_affine C xs as = (\<Sum>(x, a)\<leftarrow>zip xs as. point_mul C (affine_to_point C a) x)"
    and affine_point: "affine_to_point C (point_to_affine C p) = p"
    and normalize_points: "map (affine_to_point C) (batch_normalize C ps) = ps"
    and invert_value: "scalar_invert C x = inverse x"
    and batch_invert_value: "0 \<notin> set xs \<Longrightarrow> scalar_batch_invert C xs = (map inverse xs, prod_list (map inverse xs))"
    and decompress_compress: "compressed_decompress C (point_compress C p) = Some p"
    and is_identity_compress: "compressed_is_identity C (point_compress C p) \<longleftrightarrow> p = 0"
    and identity_compress: "compressed_identity C = point_compress C 0"
begin

lemma pmul_zero [simp]: "point_mul C p 0 = 0"
  using pmul_add[of p 0 0] by simp

lemma pmul_zero_point [simp]: "point_mul C 0 x = 0"
  using pmul_add_point[of 0 0 x] by simp

lemma pmul_minus: "point_mul C p (- x) = - point_mul C p x"
proof -
  have "point_mul C p x + point_mul C p (- x) = 0"
    using pmul_add[of p x "- x"] by simp
  then show ?thesis by (rule add.inverse_unique[symmetric])
qed

lemma pmul_diff: "point_mul C p (x - y) = point_mul C p x - point_mul C p y"
  using pmul_add[of p x "- y"] by (simp add: pmul_minus)

lemma pmul_sum_list: "point_mul C (sum_list ps) x = (\<Sum>p\<leftarrow>ps. point_mul C p x)"
  by (induction ps) (auto simp: pmul_add_point)

lemma pmul_sum: "point_mul C (sum f A) x = (\<Sum>i\<in>A. point_mul C (f i) x)"
  by (induction A rule: infinite_finite_induct) (auto simp: pmul_add_point)

lemma normalize_length [simp]: "length (batch_normalize C ps) = length ps"
  using arg_cong[OF normalize_points[of ps], of length] by simp

lemma normalize_nth [simp]: "i < length ps \<Longrightarrow> affine_to_point C (batch_normalize C ps ! i) = ps ! i"
  using arg_cong[OF normalize_points[of ps], of "\<lambda>xs. xs ! i"] by simp

lemma times_nat_pmul: "times_nat n p = point_mul C p (of_nat n)"
  by (induction n) (auto simp: pmul_add pmul_one)

text \<open>The mixed multiplication is the sum over all its batches.\<close>

lemma msm_mixed:
  assumes "length xs = length ps" and "\<And>ys as. (ys, as) \<in> set batches \<Longrightarrow> length ys = length as"
  shows "vartime_msm_mixed C batches xs ps = (\<Sum>(x, p)\<leftarrow>zip xs ps. point_mul C p x)
    + (\<Sum>(ys, as)\<leftarrow>batches. \<Sum>(y, a)\<leftarrow>zip ys as. point_mul C (affine_to_point C a) y)"
proof -
  have "fold (\<lambda>(scalars, points) res. res + vartime_msm_affine C scalars points) batches r
      = r + (\<Sum>(ys, as)\<leftarrow>batches. \<Sum>(y, a)\<leftarrow>zip ys as. point_mul C (affine_to_point C a) y)" for r
    using assms(2) by (induction batches arbitrary: r) (auto simp: msm_affine add.assoc)
  then show ?thesis by (simp add: vartime_msm_mixed_def msm[OF assms(1)])
qed

end

section \<open>The helpers compute what they should\<close>

lemma inner_product_sum:
  "inner_product a b = (\<Sum>i<min (length a) (length b). a ! i * b ! i)"
proof -
  have "fold (\<lambda>i out. out + f i) [0..<n] 0 = (\<Sum>i<n. f i :: 's)" for f :: "nat \<Rightarrow> 's::field" and n
    by (induction n) auto
  then show ?thesis unfolding inner_product_def .
qed

lemma inner_product_zip: "inner_product a b = (\<Sum>(x, y)\<leftarrow>zip a b. x * y)"
  by (simp add: inner_product_sum sum_list_sum_nth atLeast0LessThan case_prod_unfold)

lemma exp_iter_from_eq: "exp_iter_from n x y = map (\<lambda>i. y * x ^ i) [0..<n]"
proof (induction n arbitrary: y)
  case (Suc n)
  have "map (\<lambda>i. y * x ^ i) [0..<Suc n] = y # map (\<lambda>i. y * x ^ Suc i) [0..<n]"
    unfolding map_upt_Suc by simp
  with Suc show ?case by (simp add: mult.assoc)
qed simp

lemma exp_iter_eq: "exp_iter n x = map ((^) x) [0..<n]"
  by (simp add: exp_iter_def exp_iter_from_eq)

lemma sum_of_powers_slow_eq: "sum_of_powers_slow x n = (\<Sum>i<n. x ^ i)"
  by (simp add: sum_of_powers_slow_def exp_iter_eq interv_sum_list_conv_sum_set_nat atLeast0LessThan)

lemma sum_lessThan_split:
  "(\<Sum>i<m + n. f i) = (\<Sum>i<m. f i) + (\<Sum>i<n. f (m + i) :: 'a::comm_monoid_add)" for m n :: nat
  by (induction n) (auto simp: add.assoc)

lemma sum_of_powers_loop_eq:
  "sum_of_powers_loop (2 ^ Suc k) (x ^ 2 ^ j) (\<Sum>i<2 ^ Suc j. x ^ i) = (\<Sum>i<2 ^ (Suc j + k). x ^ i)"
proof (induction k arbitrary: j)
  case (Suc k)
  have double: "(\<Sum>i<2 ^ Suc j. x ^ i) + x ^ 2 ^ j * x ^ 2 ^ j * (\<Sum>i<2 ^ Suc j. x ^ i) = (\<Sum>i<2 ^ Suc (Suc j). x ^ i)"
  proof -
    have "(\<Sum>i<2 ^ Suc j + 2 ^ Suc j. x ^ i) = (\<Sum>i<2 ^ Suc j. x ^ i) + (\<Sum>i<2 ^ Suc j. x ^ (2 ^ Suc j + i))"
      by (rule sum_lessThan_split)
    moreover have "x ^ 2 ^ j * x ^ 2 ^ j * (\<Sum>i<2 ^ Suc j. x ^ i) = (\<Sum>i<2 ^ Suc j. x ^ (2 ^ Suc j + i))"
      unfolding sum_distrib_left by (intro sum.cong) (simp_all add: mult_2 power_add)
    ultimately show ?thesis by (simp add: mult_2)
  qed
  have "sum_of_powers_loop (2 ^ Suc (Suc k)) (x ^ 2 ^ j) (\<Sum>i<2 ^ Suc j. x ^ i)
      = sum_of_powers_loop (2 ^ Suc k) (x ^ 2 ^ Suc j) (\<Sum>i<2 ^ Suc (Suc j). x ^ i)"
  proof -
    have "2 < (2 :: nat) ^ Suc (Suc k)" "2 ^ Suc (Suc k) div 2 = (2 :: nat) ^ Suc k"
      using one_less_power[of "2 :: nat" "Suc k"] by simp_all
    moreover have "x ^ 2 ^ j * x ^ 2 ^ j = x ^ 2 ^ Suc j" by (simp add: mult_2 power_add)
    moreover from this have "(\<Sum>i<2 ^ Suc j. x ^ i) + x ^ 2 ^ Suc j * (\<Sum>i<2 ^ Suc j. x ^ i)
        = (\<Sum>i<2 ^ Suc (Suc j). x ^ i)" using double by simp
    ultimately show ?thesis
      by (subst sum_of_powers_loop.simps) (simp only: Let_def if_True)
  qed
  with Suc[of "Suc j"] show ?case by simp
qed (simp add: sum_of_powers_loop.simps)

text \<open>The doubling algorithm computes the sum of the powers, for every \<open>n\<close>.\<close>

lemma sum_of_powers_eq: "sum_of_powers x n = (\<Sum>i<n. x ^ i)"
proof (cases "is_power_of_two n \<and> 1 < n")
  case True
  then obtain k where n: "n = 2 ^ k" and "1 < n" by (auto simp: is_power_of_two_def)
  then obtain j where "k = Suc j" by (cases k) auto
  moreover have "(\<Sum>i<2 ^ Suc 0. x ^ i) = 1 + x" by (simp add: numeral_2_eq_2)
  ultimately show ?thesis
    using True sum_of_powers_loop_eq[of j x 0] by (simp add: sum_of_powers_def n)
next
  case False
  then have "\<not> is_power_of_two n \<or> n = 0 \<or> n = 1" by auto
  then show ?thesis by (auto simp: sum_of_powers_def sum_of_powers_slow_eq)
qed

end
