(* ===== verification/Constraint_System.thy ===== *)
theory Constraint_System
  imports Cycle
begin

text \<open>
  \<open>bulletproofs-cycle/src/r1cs/linear_combination.rs\<close>, \<open>metrics.rs\<close> and \<open>constraint_system.rs\<close>: variables,
  linear combinations with their operators, and the interface that a circuit uses. A circuit is generic
  over the constraint system: it only talks to the prover or the verifier through the trait, so it is the
  tree \<open>gadget\<close> of its calls, with a continuation for what each call returns; an error of a call ends
  the circuit (\<open>?\<close>).
\<close>

section \<open>Variables and linear combinations\<close>

text \<open>\<open>VariableKind::One\<close> is \<open>ConstantOne\<close>; a \<open>Variable\<close> is its kind.\<close>

datatype variable_kind =
    Committed usize
  | MultiplierLeft usize
  | MultiplierRight usize
  | MultiplierOutput usize
  | ConstantOne

type_synonym 's linear_combination = "(variable_kind \<times> 's) list"

definition lc_from_variable :: "variable_kind \<Rightarrow> 's::field linear_combination" where
  "lc_from_variable v = [(v, 1)]"

definition lc_from_scalar :: "'s \<Rightarrow> 's linear_combination" where
  "lc_from_scalar s = [(ConstantOne, s)]"

definition lc_default :: "'s linear_combination" where
  "lc_default = []"

definition lc_add :: "'s linear_combination \<Rightarrow> 's linear_combination \<Rightarrow> 's linear_combination" where
  "lc_add lhs rhs = lhs @ rhs"

definition lc_sub :: "'s::field linear_combination \<Rightarrow> 's linear_combination \<Rightarrow> 's linear_combination" where
  "lc_sub lhs rhs = lhs @ map (\<lambda>(var, coeff). (var, - coeff)) rhs"

definition lc_neg :: "'s::field linear_combination \<Rightarrow> 's linear_combination" where
  "lc_neg lc = map (\<lambda>(var, s). (var, - s)) lc"

definition lc_mul :: "'s::field linear_combination \<Rightarrow> 's \<Rightarrow> 's linear_combination" where
  "lc_mul lc other = map (\<lambda>(var, s). (var, s * other)) lc"

definition variable_neg :: "variable_kind \<Rightarrow> 's::field linear_combination" where
  "variable_neg v = lc_neg (lc_from_variable v)"

definition variable_add :: "variable_kind \<Rightarrow> 's::field linear_combination \<Rightarrow> 's linear_combination" where
  "variable_add v other = lc_add (lc_from_variable v) other"

definition variable_sub :: "variable_kind \<Rightarrow> 's::field linear_combination \<Rightarrow> 's linear_combination" where
  "variable_sub v other = lc_sub (lc_from_variable v) other"

definition variable_mul :: "variable_kind \<Rightarrow> 's \<Rightarrow> 's linear_combination" where
  "variable_mul v other = [(v, other)]"

definition scaled_by_coefficient :: "'s::field \<Rightarrow> 's \<Rightarrow> 's" where
  "scaled_by_coefficient factor coefficient =
     (if coefficient = 1 then factor else if coefficient = - 1 then - factor else factor * coefficient)"

lemma scaled_by_coefficient_eq: "scaled_by_coefficient factor coefficient = factor * coefficient"
  by (simp add: scaled_by_coefficient_def)

text \<open>The value of a linear combination under an assignment of the variables.\<close>

definition lc_value :: "(variable_kind \<Rightarrow> 's::field) \<Rightarrow> 's linear_combination \<Rightarrow> 's" where
  "lc_value env lc = (\<Sum>(var, coeff)\<leftarrow>lc. coeff * env var)"

lemma lc_value_simps [simp]:
  "lc_value env [] = 0"
  "lc_value env ((var, coeff) # lc) = coeff * env var + lc_value env lc"
  "lc_value env (lhs @ rhs) = lc_value env lhs + lc_value env rhs"
  by (simp_all add: lc_value_def)

lemma lc_value_neg: "lc_value env (map (\<lambda>(var, s). (var, - s)) lc) = - lc_value env lc"
  by (induction lc) auto

lemma lc_value_mul: "lc_value env (map (\<lambda>(var, s). (var, s * x)) lc) = lc_value env lc * x"
  by (induction lc) (auto simp: algebra_simps)

lemmas lc_defs = lc_from_variable_def lc_from_scalar_def lc_default_def lc_add_def lc_sub_def lc_neg_def lc_mul_def
  variable_neg_def variable_add_def variable_sub_def variable_mul_def

section \<open>Metrics\<close>

record metrics =
  multipliers :: usize
  num_constraints :: usize
  phase_one_constraints :: usize
  phase_two_constraints :: usize

section \<open>Circuits\<close>

type_synonym gate = "variable_kind \<times> variable_kind \<times> variable_kind"

text \<open>
  The calls of the traits \<open>ConstraintSystem\<close> and \<open>RandomizedConstraintSystem\<close>. The lease of the transcript is
  used to bind extra data.
\<close>

datatype 's gadget =
    Finish "r1cs_error + unit"
  | Multiply "'s linear_combination" "'s linear_combination" "gate \<Rightarrow> 's gadget"
  | Allocate "'s option" "variable_kind \<Rightarrow> 's gadget"
  | AllocateMultiplier "('s \<times> 's) option" "gate \<Rightarrow> 's gadget"
  | QueryMetrics "metrics \<Rightarrow> 's gadget"
  | Constrain "'s linear_combination" "'s gadget"
  | BindTranscript bytes bytes "'s gadget"
  | ChallengeScalar bytes "'s \<Rightarrow> 's gadget"

section \<open>Flattened constraints\<close>

text \<open>
  One term of a constraint, weighted with the power of \<open>z\<close>, is added to the weight of its variable. The
  weights are the vectors \<open>wL\<close>, \<open>wR\<close>, \<open>wO\<close>, \<open>wV\<close> and the scalar \<open>wc\<close>. Indexing out of range panics; an
  accepted constraint only names allocated variables (\<open>lc_in_range\<close>).
\<close>

type_synonym 's weights = "'s list \<times> 's list \<times> 's list \<times> 's list \<times> 's"

definition lc_in_range :: "nat \<Rightarrow> nat \<Rightarrow> 's linear_combination \<Rightarrow> bool" where
  "lc_in_range n m lc \<longleftrightarrow> (\<forall>(var, _) \<in> set lc. case var of
     Committed i \<Rightarrow> i < m | MultiplierLeft i \<Rightarrow> i < n | MultiplierRight i \<Rightarrow> i < n | MultiplierOutput i \<Rightarrow> i < n
   | ConstantOne \<Rightarrow> True)"

definition add_at :: "nat \<Rightarrow> 's::field \<Rightarrow> 's list \<Rightarrow> 's list" where
  "add_at i x xs = xs[i := xs ! i + x]"

text \<open>What the weights of a circuit say about an assignment.\<close>

definition weights_value ::
  "'s list \<Rightarrow> 's list \<Rightarrow> 's list \<Rightarrow> 's list \<Rightarrow> 's::field weights \<Rightarrow> 's" where
  "weights_value aL aR aO v = (\<lambda>(wL, wR, wO, wV, wc).
     inner_product wL aL + inner_product wR aR + inner_product wO aO - inner_product wV v - wc)"

definition assignment :: "'s list \<Rightarrow> 's list \<Rightarrow> 's list \<Rightarrow> 's list \<Rightarrow> variable_kind \<Rightarrow> 's::field" where
  "assignment aL aR aO v var =
     (case var of MultiplierLeft i \<Rightarrow> aL ! i | MultiplierRight i \<Rightarrow> aR ! i | MultiplierOutput i \<Rightarrow> aO ! i
      | Committed i \<Rightarrow> v ! i | ConstantOne \<Rightarrow> 1)"

lemma length_add_at [simp]: "length (add_at i x xs) = length xs"
  by (simp add: add_at_def)

lemma inner_product_add_at:
  assumes "i < length w" "length w = length a"
  shows "inner_product (add_at i x w) a = inner_product w a + x * a ! i"
proof -
  have "(\<Sum>j<length a. (w[i := w ! i + x]) ! j * a ! j) = (\<Sum>j<length a. w ! j * a ! j + (if j = i then x * a ! i else 0))"
    using assms by (intro sum.cong) (auto simp: nth_list_update algebra_simps)
  then show ?thesis
    using assms by (simp add: inner_product_sum add_at_def sum.distrib)
qed

lemma inner_product_zeros [simp]: "inner_product (replicate n 0) a = 0"
  by (simp add: inner_product_sum)

end
