(* ===== verification/Inner_Product.thy ===== *)
theory Inner_Product
  imports Cycle
begin

unbundle bit_operations_syntax

text \<open>
  \<open>bulletproofs-cycle/src/inner_product_proof.rs\<close>: the inner-product argument. The prover works over the
  original generators for the first rounds and collapses them once before the rest
  (\<open>create_folded_tail\<close>); the verifier expands the challenges into one multi-scalar multiplication.
  Parallel iterators are maps, \<open>debug_assert\<close> is not checked.
\<close>

section \<open>Proofs\<close>

record ('s, 'c) inner_product_proof =
  ipp_L_vec :: "'c list"
  ipp_R_vec :: "'c list"
  ipp_a :: 's
  ipp_b :: 's

text \<open>\<open>n.next_power_of_two().trailing_zeros()\<close>\<close>

definition log2_ceil :: "nat \<Rightarrow> nat" where
  "log2_ceil n = length (takeWhile (\<lambda>k. 2 ^ k < n) [0..<64])"

section \<open>The prover\<close>

text \<open>Both parties absorb the two points of a round and draw its challenge.\<close>

definition ipp_challenge ::
  "('t, 'y) merlin_scheme \<Rightarrow> ('s, 'p, 'a, 'c, 'z) cycle_scheme \<Rightarrow> 'c \<Rightarrow> 'c \<Rightarrow> 't \<Rightarrow> 's \<times> 't" where
  "ipp_challenge M C L R t =
     challenge_scalar M C (ascii ''u'') (append_point M C (ascii ''R'') R (append_point M C (ascii ''L'') L t))"

function create_folded_tail ::
  "('t, 'y) merlin_scheme \<Rightarrow> ('s::field, 'p, 'a, 'c, 'z) cycle_scheme \<Rightarrow> 't \<Rightarrow> 'a \<Rightarrow> 's list \<Rightarrow> 's list
    \<Rightarrow> 'a list \<Rightarrow> 'a list \<Rightarrow> 'c list \<Rightarrow> 'c list \<Rightarrow> ('s, 'c) inner_product_proof \<times> 't" where
  "create_folded_tail M C t Q a b G H L_vec R_vec =
     (if 1 < length a
      then
        let m = length a div 2;
            a_L = take m a; a_R = drop m a; b_L = take m b; b_R = drop m b;
            c_L = inner_product a_L b_R;
            c_R = inner_product a_R b_L;
            scalars_l = a_L @ b_R @ [c_L];
            scalars_r = a_R @ b_L @ [c_R];
            points_l = drop m G @ take m H @ [Q];
            points_r = take m G @ drop m H @ [Q];
            L = point_compress C (vartime_msm_affine C scalars_l points_l);
            R = point_compress C (vartime_msm_affine C scalars_r points_r);
            (u, t) = ipp_challenge M C L R t;
            u_inv = scalar_invert C u;
            a' = map (\<lambda>(l, r). l * u + r * u_inv) (zip a_L a_R);
            b' = map (\<lambda>(l, r). l * u_inv + r * u) (zip b_L b_R);
            (G, H) =
              (if 1 < m
               then (batch_normalize C (map (\<lambda>i. vartime_msm_affine C [u_inv, u] [G ! i, G ! (m + i)]) [0..<m]),
                     batch_normalize C (map (\<lambda>i. vartime_msm_affine C [u, u_inv] [H ! i, H ! (m + i)]) [0..<m]))
               else (G, H))
        in create_folded_tail M C t Q a' b' G H (L_vec @ [L]) (R_vec @ [R])
      else (\<lparr>ipp_L_vec = L_vec, ipp_R_vec = R_vec, ipp_a = a ! 0, ipp_b = b ! 0\<rparr>, t))"
  by pat_completeness auto
termination
  by (relation "measure (\<lambda>(M, C, t, Q, a, b, G, H, L_vec, R_vec). length a)") auto

declare create_folded_tail.simps [simp del]

text \<open>The state of the rounds over the original generators.\<close>

record ('s, 'c, 't) ipp_state =
  st_transcript :: 't
  st_a :: "'s list"
  st_b :: "'s list"
  st_g_coef :: "'s list"
  st_h_coef :: "'s list"
  st_L_vec :: "'c list"
  st_R_vec :: "'c list"

definition original_round ::
  "('t, 'y) merlin_scheme \<Rightarrow> ('s::field, 'p, 'a, 'c, 'z) cycle_scheme \<Rightarrow> 'a \<Rightarrow> 'a list \<Rightarrow> 'a list \<Rightarrow> nat
    \<Rightarrow> nat \<Rightarrow> ('s, 'c, 't) ipp_state \<Rightarrow> ('s, 'c, 't) ipp_state" where
  "original_round M C Q G H lg_n round st =
     (let n = length G;
          m = drop_bit (round + 1) n;
          shift = lg_n - round - 1;
          mask = m - 1;
          a = st_a st; b = st_b st; g_coef = st_g_coef st; h_coef = st_h_coef st;
          a_L = take m a; a_R = drop m a; b_L = take m b; b_R = drop m b;
          c_L = inner_product a_L b_R;
          c_R = inner_product a_R b_L;
          upper = (\<lambda>j. drop_bit shift j AND 1 = 1);
          scalars_l = map (\<lambda>j. if upper j then a_L ! (j AND mask) * g_coef ! j
                                else b_R ! (j AND mask) * h_coef ! j) [0..<n] @ [c_L];
          points_l = map (\<lambda>j. if upper j then G ! j else H ! j) [0..<n] @ [Q];
          scalars_r = map (\<lambda>j. if upper j then b_L ! (j AND mask) * h_coef ! j
                                else a_R ! (j AND mask) * g_coef ! j) [0..<n] @ [c_R];
          points_r = map (\<lambda>j. if upper j then H ! j else G ! j) [0..<n] @ [Q];
          L = point_compress C (vartime_msm_affine C scalars_l points_l);
          R = point_compress C (vartime_msm_affine C scalars_r points_r);
          (u, t) = ipp_challenge M C L R (st_transcript st);
          u_inv = scalar_invert C u
      in \<lparr>st_transcript = t,
          st_a = map (\<lambda>i. a_L ! i * u + u_inv * a_R ! i) [0..<length a_L],
          st_b = map (\<lambda>i. b_L ! i * u_inv + u * b_R ! i) [0..<length b_L],
          st_g_coef = map (\<lambda>j. g_coef ! j * (if upper j then u else u_inv)) [0..<length g_coef],
          st_h_coef = map (\<lambda>j. h_coef ! j * (if upper j then u_inv else u)) [0..<length h_coef],
          st_L_vec = st_L_vec st @ [L],
          st_R_vec = st_R_vec st @ [R]\<rparr>)"

definition ORIGINAL_BASE_ROUNDS :: nat where "ORIGINAL_BASE_ROUNDS = 8"

text \<open>\<open>iter().skip(i).step_by(s)\<close> on a slice.\<close>

definition skip_step_by :: "nat \<Rightarrow> nat \<Rightarrow> 'a list \<Rightarrow> 'a list" where
  "skip_step_by i s xs = map ((!) xs) (filter (\<lambda>j. i \<le> j \<and> (j - i) mod s = 0) [0..<length xs])"

text \<open>The collapse of the bases with the coefficients of the rounds so far.\<close>

definition fold_bases ::
  "('s, 'p, 'a, 'c, 'z) cycle_scheme \<Rightarrow> nat \<Rightarrow> 's list \<Rightarrow> 'a list \<Rightarrow> 'a list" where
  "fold_bases C remaining coefficients bases =
     batch_normalize C (map (\<lambda>i. vartime_msm_affine C (skip_step_by i remaining coefficients)
                                    (skip_step_by i remaining bases)) [0..<remaining])"

definition ipp_create ::
  "('t, 'y) merlin_u64_scheme \<Rightarrow> ('s::field, 'p, 'a, 'c, 'z) cycle_scheme \<Rightarrow> 't \<Rightarrow> 'p \<Rightarrow> 's list \<Rightarrow> 's list
    \<Rightarrow> 'a list \<Rightarrow> 'a list \<Rightarrow> 's list \<Rightarrow> 's list \<Rightarrow> ('s, 'c) inner_product_proof \<times> 't" where
  "ipp_create M C t Q G_factors H_factors G H a_vec b_vec =
     (let Q_affine = point_to_affine C Q;
          n = length G;
          t = innerproduct_domain_sep M n t;
          lg_n = log2_ceil n;
          original_rounds = (if n < 4096 then lg_n else ORIGINAL_BASE_ROUNDS);
          st = fold (original_round M C Q_affine G H lg_n) [0..<original_rounds]
                 \<lparr>st_transcript = t, st_a = a_vec, st_b = b_vec, st_g_coef = G_factors, st_h_coef = H_factors,
                  st_L_vec = [], st_R_vec = []\<rparr>
      in if 1 < length (st_a st)
         then let remaining = length (st_a st);
                  folded_g = fold_bases C remaining (st_g_coef st) G;
                  folded_h = fold_bases C remaining (st_h_coef st) H
              in create_folded_tail M C (st_transcript st) Q_affine (st_a st) (st_b st) folded_g folded_h
                   (st_L_vec st) (st_R_vec st)
         else (\<lparr>ipp_L_vec = st_L_vec st, ipp_R_vec = st_R_vec st, ipp_a = st_a st ! 0, ipp_b = st_b st ! 0\<rparr>,
               st_transcript st))"

section \<open>The verifier\<close>

definition leading_zeros_u32 :: "u32 \<Rightarrow> nat" where
  "leading_zeros_u32 w = length (takeWhile (\<lambda>i. \<not> bit w i) (rev [0..<32]))"

text \<open>The scalars of the generators: entry \<open>i\<close> multiplies the challenges by the bits of \<open>i\<close>.\<close>

definition ipp_s_vector :: "nat \<Rightarrow> 's::field \<Rightarrow> 's list \<Rightarrow> nat \<Rightarrow> 's list" where
  "ipp_s_vector lg_n allinv challenges_sq n =
     fold (\<lambda>i s. let lg_i = 32 - 1 - leading_zeros_u32 (word_of_nat i);
                     k = push_bit lg_i 1
                 in s @ [s ! (i - k) * challenges_sq ! (lg_n - 1 - lg_i)]) [1..<n] [allinv]"

definition ipp_replay ::
  "('t, 'y) merlin_scheme \<Rightarrow> ('s, 'p, 'a, 'c, 'z) cycle_scheme \<Rightarrow> 's list \<times> 't \<Rightarrow> 'c \<times> 'c
    \<Rightarrow> ('s list \<times> 't) proof_result" where
  "ipp_replay M C = (\<lambda>(challenges, t) (L, R).
     rbind (validate_and_append_point M C (ascii ''L'') L t) (\<lambda>t.
     rbind (validate_and_append_point M C (ascii ''R'') R t) (\<lambda>t.
     let (u, t) = challenge_scalar M C (ascii ''u'') t in Inr (challenges @ [u], t))))"

definition ipp_verification_scalars ::
  "('t, 'y) merlin_u64_scheme \<Rightarrow> ('s::field, 'p, 'a, 'c, 'z) cycle_scheme \<Rightarrow> ('s, 'c) inner_product_proof \<Rightarrow> nat
    \<Rightarrow> 't \<Rightarrow> (('s list \<times> 's list \<times> 's list) \<times> 't) proof_result" where
  "ipp_verification_scalars M C pf n t =
     (let lg_n = length (ipp_L_vec pf)
      in if 32 \<le> lg_n then Inl VerificationError
         else if n \<noteq> push_bit lg_n 1 then Inl VerificationError
         else
         let t = innerproduct_domain_sep M n t
         in rbind (rfold (ipp_replay M C) ([], t) (zip (ipp_L_vec pf) (ipp_R_vec pf))) (\<lambda>(challenges, t).
            let (challenges_inv, allinv) = scalar_batch_invert C challenges;
                challenges_sq = map (\<lambda>u. u * u) challenges;
                challenges_inv_sq = map (\<lambda>u. u * u) challenges_inv
            in Inr ((challenges_sq, challenges_inv_sq, ipp_s_vector lg_n allinv challenges_sq n), t)))"

definition ipp_verify ::
  "('t, 'y) merlin_u64_scheme \<Rightarrow> ('s::field, 'p::ab_group_add, 'a, 'c, 'z) cycle_scheme
    \<Rightarrow> ('s, 'c) inner_product_proof \<Rightarrow> nat \<Rightarrow> 't \<Rightarrow> 's list \<Rightarrow> 's list \<Rightarrow> 'p \<Rightarrow> 'p \<Rightarrow> 'p list \<Rightarrow> 'p list
    \<Rightarrow> 't proof_result" where
  "ipp_verify M C pf n t G_factors H_factors P Q G H =
     (if length G \<noteq> n \<or> length H \<noteq> n then Inl VerificationError
      else let G_factors = take (n + 1) G_factors; H_factors = take (n + 1) H_factors in
      if length G_factors \<noteq> n \<or> length H_factors \<noteq> n then Inl VerificationError
      else
      rbind (ipp_verification_scalars M C pf n t) (\<lambda>((u_sq, u_inv_sq, s), t).
      let g_times_a_times_s = map (\<lambda>(g_i, s_i). (ipp_a pf * s_i) * g_i) (zip G_factors s);
          inv_s = rev s;
          h_times_b_div_s = map (\<lambda>(h_i, s_i_inv). (ipp_b pf * s_i_inv) * h_i) (zip H_factors inv_s);
          neg_u_sq = map uminus u_sq;
          neg_u_inv_sq = map uminus u_inv_sq
      in rbind (collect (\<lambda>p. ok_or (compressed_decompress C p) VerificationError) (ipp_L_vec pf)) (\<lambda>Ls.
         rbind (collect (\<lambda>p. ok_or (compressed_decompress C p) VerificationError) (ipp_R_vec pf)) (\<lambda>Rs.
         let scalars = [ipp_a pf * ipp_b pf] @ g_times_a_times_s @ h_times_b_div_s @ neg_u_sq @ neg_u_inv_sq;
             points = [Q] @ G @ H @ Ls @ Rs;
             expect_P = vartime_msm C scalars points
         in if expect_P = P then Inr t else Inl VerificationError))))"

end
