(* ===== verification/Generators.thy ===== *)
theory Generators
  imports Inner_Product
begin

text \<open>
  \<open>bulletproofs-cycle/src/generators.rs\<close>: Pedersen generators, and the vectors of independent generators
  that are hashed from a SHAKE256 stream and kept in a process-wide cache. SHAKE256 is a function from
  the absorbed bytes to its output stream; the cache maps labels to the prefix derived so far. The cache
  is shared between threads: \<open>derive_step\<close> is one thread's step, and every interleaving leaves prefixes of
  the same chain.
\<close>

section \<open>Pedersen generators\<close>

record 'p pedersen_gens =
  ped_B :: 'p
  ped_B_blinding :: 'p

definition pedersen_commit ::
  "('s, 'p, 'a, 'c, 'z) cycle_scheme \<Rightarrow> 'p pedersen_gens \<Rightarrow> 's \<Rightarrow> 's \<Rightarrow> 'p" where
  "pedersen_commit C pc value blinding = vartime_msm C [value, blinding] [ped_B pc, ped_B_blinding pc]"

type_synonym xof = "bytes \<Rightarrow> nat \<Rightarrow> byte"

text \<open>The reader of an extendable output: the absorbed bytes and the position.\<close>

definition xof_read :: "xof \<Rightarrow> nat \<Rightarrow> bytes \<times> nat \<Rightarrow> bytes \<times> bytes \<times> nat" where
  "xof_read shake n = (\<lambda>(absorbed, pos). (map (shake absorbed) [pos..<pos + n], absorbed, pos + n))"

definition pedersen_gens_default ::
  "xof \<Rightarrow> ('s, 'p, 'a, 'c, 'z) cycle_scheme \<Rightarrow> 'p pedersen_gens option" where
  "pedersen_gens_default shake C =
     (let B = group_generator C;
          B_bytes = compressed_as_bytes C (point_compress C B);
          (uniform, _) = xof_read shake 64 (ascii ''bulletproofs-cycle/pedersen-blinding'' @ B_bytes, 0)
      in Option.bind (point_hash_from_uniform C uniform) (\<lambda>B_blinding.
         Some \<lparr>ped_B = B, ped_B_blinding = B_blinding\<rparr>))"

section \<open>The chain of generators\<close>

definition generators_chain_new :: "bytes \<Rightarrow> bytes \<times> nat" where
  "generators_chain_new label = (ascii ''GeneratorsChain'' @ label, 0)"

primrec fast_forward :: "xof \<Rightarrow> nat \<Rightarrow> bytes \<times> nat \<Rightarrow> bytes \<times> nat" where
  "fast_forward shake 0 reader = reader"
| "fast_forward shake (Suc n) reader = fast_forward shake n (snd (xof_read shake 64 reader))"

text \<open>\<open>take(n).collect()\<close> on the iterator\<close>

primrec chain_take :: "xof \<Rightarrow> nat \<Rightarrow> bytes \<times> nat \<Rightarrow> bytes list" where
  "chain_take shake 0 reader = []"
| "chain_take shake (Suc n) reader =
     (let (uniform, reader) = xof_read shake 64 reader in uniform # chain_take shake n reader)"

definition MAX_HASH_CHUNK_SIZE :: nat where "MAX_HASH_CHUNK_SIZE = 64"

definition hash_chunk_size :: "nat \<Rightarrow> nat \<Rightarrow> nat" where
  "hash_chunk_size threads count =
     (let threads = max threads 1
      in min (max ((count + (4 * threads - 1)) div (4 * threads)) 1) MAX_HASH_CHUNK_SIZE)"

text \<open>\<open>par_chunks(size)\<close>: the parallel pieces, in order\<close>

function chunks :: "nat \<Rightarrow> 'x list \<Rightarrow> 'x list list" where
  "chunks n xs = (if xs = [] \<or> n = 0 then [] else take n xs # chunks n (drop n xs))"
  by pat_completeness auto
termination by (relation "measure (\<lambda>(_, xs). length xs)") auto

declare chunks.simps [simp del]

section \<open>The cache\<close>

type_synonym 'a generator_cache = "bytes \<rightharpoonup> 'a list"

text \<open>What a thread that found the prefix \<open>have\<close> computes.\<close>

definition extend_generators ::
  "xof \<Rightarrow> ('s, 'p, 'a, 'c, 'z) cycle_scheme \<Rightarrow> nat \<Rightarrow> bytes \<Rightarrow> nat \<Rightarrow> 'a list \<Rightarrow> 'a list option" where
  "extend_generators shake C threads label capacity have =
     (let uniforms = chain_take shake (capacity - length have)
                       (fast_forward shake (length have) (generators_chain_new label))
      in Option.bind (those (map (points_hash_from_uniform C) (chunks (hash_chunk_size threads (length uniforms)) uniforms)))
           (\<lambda>points. Some (have @ batch_normalize C (concat points))))"

definition cached :: "'a generator_cache \<Rightarrow> bytes \<Rightarrow> 'a list" where
  "cached cache key = (case cache key of Some entry \<Rightarrow> entry | None \<Rightarrow> [])"

definition store_generators ::
  "bytes \<Rightarrow> 'a list \<Rightarrow> 'a list \<Rightarrow> 'a generator_cache \<Rightarrow> 'a generator_cache" where
  "store_generators key have extended cache =
     (let slot = cached cache key
      in if length slot = length have then cache(key \<mapsto> extended) else cache(key \<mapsto> slot))"

text \<open>The loop of one thread that runs alone; it returns in the second round at the latest.\<close>

primrec derive_rounds ::
  "nat \<Rightarrow> xof \<Rightarrow> ('s, 'p, 'a, 'c, 'z) cycle_scheme \<Rightarrow> nat \<Rightarrow> bytes \<Rightarrow> nat \<Rightarrow> 'a generator_cache
    \<Rightarrow> ('a list \<times> 'a generator_cache) option" where
  "derive_rounds 0 shake C threads label capacity cache = None"
| "derive_rounds (Suc fuel) shake C threads label capacity cache =
     (let have = cached cache label
      in if capacity \<le> length have then Some (have, cache)
         else Option.bind (extend_generators shake C threads label capacity have) (\<lambda>extended.
              derive_rounds fuel shake C threads label capacity (store_generators label have extended cache)))"

definition derive ::
  "xof \<Rightarrow> ('s, 'p, 'a, 'c, 'z) cycle_scheme \<Rightarrow> nat \<Rightarrow> bytes \<Rightarrow> nat \<Rightarrow> 'a generator_cache
    \<Rightarrow> ('a list \<times> 'a generator_cache) option" where
  "derive shake C threads label capacity cache = derive_rounds 2 shake C threads label capacity cache"

section \<open>Threads that share the cache\<close>

text \<open>A thread waits to look into the cache, is extending what it found, or has returned.\<close>

datatype 'a derive_thread = Looking | Extending "'a list" | Returned "'a list"

inductive derive_step ::
  "xof \<Rightarrow> ('s, 'p, 'a, 'c, 'z) cycle_scheme \<Rightarrow> nat \<Rightarrow> (nat \<Rightarrow> bytes \<times> nat)
    \<Rightarrow> 'a generator_cache \<times> (nat \<Rightarrow> 'a derive_thread) \<Rightarrow> 'a generator_cache \<times> (nat \<Rightarrow> 'a derive_thread) \<Rightarrow> bool"
  for shake :: xof and C :: "('s, 'p, 'a, 'c, 'z) cycle_scheme" and threads :: nat and job :: "nat \<Rightarrow> bytes \<times> nat" where
  found: "ths i = Looking \<Longrightarrow> job i = (label, capacity) \<Longrightarrow> capacity \<le> length (cached cache label)
    \<Longrightarrow> derive_step shake C threads job (cache, ths) (cache, ths(i := Returned (cached cache label)))"
| missing: "ths i = Looking \<Longrightarrow> job i = (label, capacity) \<Longrightarrow> length (cached cache label) < capacity
    \<Longrightarrow> derive_step shake C threads job (cache, ths) (cache, ths(i := Extending (cached cache label)))"
| publish: "ths i = Extending have \<Longrightarrow> job i = (label, capacity)
    \<Longrightarrow> extend_generators shake C threads label capacity have = Some extended
    \<Longrightarrow> derive_step shake C threads job (cache, ths) (store_generators label have extended cache, ths(i := Looking))"

inductive derive_reachable ::
  "xof \<Rightarrow> ('s, 'p, 'a, 'c, 'z) cycle_scheme \<Rightarrow> nat \<Rightarrow> (nat \<Rightarrow> bytes \<times> nat)
    \<Rightarrow> 'a generator_cache \<times> (nat \<Rightarrow> 'a derive_thread) \<Rightarrow> bool"
  for shake :: xof and C :: "('s, 'p, 'a, 'c, 'z) cycle_scheme" and threads :: nat and job :: "nat \<Rightarrow> bytes \<times> nat" where
  start: "derive_reachable shake C threads job (Map.empty, \<lambda>_. Looking)"
| step: "derive_reachable shake C threads job s \<Longrightarrow> derive_step shake C threads job s s'
    \<Longrightarrow> derive_reachable shake C threads job s'"

section \<open>Bulletproofs generators\<close>

record 'a bulletproof_gens =
  gens_capacity :: usize
  party_capacity :: usize
  gens_G_vec :: "'a list list"
  gens_H_vec :: "'a list list"

definition u32_le :: "u32 \<Rightarrow> bytes" where
  "u32_le w = rev (u32_be w)"

text \<open>\<open>let party_index = i as u32\<close> truncates, as \<open>word_of_nat\<close> does.\<close>

definition increase_capacity ::
  "xof \<Rightarrow> ('s, 'p, 'a, 'c, 'z) cycle_scheme \<Rightarrow> nat \<Rightarrow> usize \<Rightarrow> 'a generator_cache \<times> 'a bulletproof_gens
    \<Rightarrow> ('a generator_cache \<times> 'a bulletproof_gens) option" where
  "increase_capacity shake C threads new_capacity = (\<lambda>(cache, gens).
     if new_capacity \<le> gens_capacity gens then Some (cache, gens)
     else Option.bind (fold (\<lambda>i st. Option.bind st (\<lambda>(cache, gens).
            let party_index = u32_le (word_of_nat i)
            in Option.bind (derive shake C threads (ascii ''G'' @ party_index) new_capacity cache) (\<lambda>(G, cache).
               Option.bind (derive shake C threads (ascii ''H'' @ party_index) new_capacity cache) (\<lambda>(H, cache).
               Some (cache, gens\<lparr>gens_G_vec := (gens_G_vec gens)[i := G], gens_H_vec := (gens_H_vec gens)[i := H]\<rparr>)))))
            [0..<party_capacity gens] (Some (cache, gens))) (\<lambda>(cache, gens).
          Some (cache, gens\<lparr>gens_capacity := new_capacity\<rparr>)))"

definition bulletproof_gens_new ::
  "xof \<Rightarrow> ('s, 'p, 'a, 'c, 'z) cycle_scheme \<Rightarrow> nat \<Rightarrow> usize \<Rightarrow> usize \<Rightarrow> 'a generator_cache
    \<Rightarrow> ('a generator_cache \<times> 'a bulletproof_gens) option" where
  "bulletproof_gens_new shake C threads capacity parties cache =
     increase_capacity shake C threads capacity
       (cache, \<lparr>gens_capacity = 0, party_capacity = parties, gens_G_vec = replicate parties [],
                gens_H_vec = replicate parties []\<rparr>)"

text \<open>The shares: \<open>share(j).G(n)\<close> takes a prefix, \<open>shared_G\<close> the whole vector.\<close>

definition share_G :: "'a bulletproof_gens \<Rightarrow> nat \<Rightarrow> nat \<Rightarrow> 'a list" where
  "share_G gens j n = take n (gens_G_vec gens ! j)"

definition share_H :: "'a bulletproof_gens \<Rightarrow> nat \<Rightarrow> nat \<Rightarrow> 'a list" where
  "share_H gens j n = take n (gens_H_vec gens ! j)"

definition shared_G :: "'a bulletproof_gens \<Rightarrow> nat \<Rightarrow> 'a list" where
  "shared_G gens j = gens_G_vec gens ! j"

definition shared_H :: "'a bulletproof_gens \<Rightarrow> nat \<Rightarrow> 'a list" where
  "shared_H gens j = gens_H_vec gens ! j"

text \<open>The check of deserialised generators; the product of the capacities must fit into \<open>usize\<close>.\<close>

definition validate_gens ::
  "('s, 'p, 'a, 'c, 'z) cycle_scheme \<Rightarrow> 'a list list \<Rightarrow> usize \<Rightarrow> usize \<Rightarrow> string + unit" where
  "validate_gens C parties gens_cap party_cap =
     (if 2 ^ 64 \<le> gens_cap * party_cap then Inl ''generator count overflow''
      else if length parties \<noteq> party_cap \<or> (\<exists>party \<in> set parties. length party \<noteq> gens_cap)
      then Inl ''generator dimensions do not match capacities''
      else rfold (\<lambda>_ point. if compressed_is_identity C (affine_compress C point)
                            then Inl ''generator must not be the identity'' else Inr ()) () (concat parties))"

definition deserialize_gens ::
  "('s, 'p, 'a, 'c, 'z) cycle_scheme \<Rightarrow> 'a bulletproof_gens \<Rightarrow> string + 'a bulletproof_gens" where
  "deserialize_gens C repr =
     rbind (validate_gens C (gens_G_vec repr) (gens_capacity repr) (party_capacity repr)) (\<lambda>_.
     rbind (validate_gens C (gens_H_vec repr) (gens_capacity repr) (party_capacity repr)) (\<lambda>_.
     Inr repr))"

section \<open>The chain is one stream\<close>

lemma xof_read_simp [simp]: "xof_read shake n (absorbed, pos) = (map (shake absorbed) [pos..<pos + n], absorbed, pos + n)"
  by (simp add: xof_read_def)

lemma fast_forward_eq: "fast_forward shake n (absorbed, pos) = (absorbed, pos + 64 * n)"
  by (induction n arbitrary: pos) (auto simp: algebra_simps)

text \<open>Generator \<open>k\<close> of a label, as a block of the stream.\<close>

definition chain_block :: "xof \<Rightarrow> bytes \<Rightarrow> nat \<Rightarrow> bytes" where
  "chain_block shake label k = map (shake (ascii ''GeneratorsChain'' @ label)) [64 * k..<64 * k + 64]"

lemma chain_take_eq:
  "chain_take shake n (fast_forward shake m (generators_chain_new label)) = map (chain_block shake label) [m..<m + n]"
proof -
  have "chain_take shake n (ascii ''GeneratorsChain'' @ label, 64 * m) = map (chain_block shake label) [m..<m + n]" for m
  proof (induction n arbitrary: m)
    case (Suc n)
    have "[m..<m + Suc n] = m # [Suc m..<Suc m + n]" by (simp add: upt_conv_Cons)
    with Suc[of "Suc m"] show ?case
      by (simp add: chain_block_def add.commute del: upt_Suc)
  qed simp
  then show ?thesis by (simp add: generators_chain_new_def fast_forward_eq)
qed

lemma concat_chunks: "0 < n \<Longrightarrow> concat (chunks n xs) = xs"
proof (induction n xs rule: chunks.induct)
  case (1 n xs)
  then show ?case by (subst chunks.simps) auto
qed

lemma hash_chunk_size_pos: "0 < hash_chunk_size threads count"
  by (simp add: hash_chunk_size_def MAX_HASH_CHUNK_SIZE_def Let_def)

lemma those_append: "those (xs @ ys) = Option.bind (those xs) (\<lambda>as. Option.bind (those ys) (\<lambda>bs. Some (as @ bs)))"
proof (induction xs)
  case (Cons x xs)
  then show ?case by (cases x; cases "those xs"; cases "those ys") simp_all
qed (cases "those ys"; simp)

lemma those_chunks:
  "Option.bind (those (map (points_hash_from_uniform C) bss)) (\<lambda>ps. Some (concat ps))
    = those (map (point_hash_from_uniform C) (concat bss))"
proof (induction bss)
  case (Cons bs bss)
  have hash: "points_hash_from_uniform C bs = those (map (point_hash_from_uniform C) bs)"
    by (simp add: points_hash_from_uniform_def)
  show ?case
    unfolding list.map concat.simps map_append those_append Cons.IH[symmetric]
    by (cases "points_hash_from_uniform C bs"; cases "those (map (points_hash_from_uniform C) bss)") (simp_all add: hash)
qed simp

text \<open>The points of the whole chain, if hashing returns for all of its first \<open>n\<close> blocks.\<close>

definition chain_points :: "xof \<Rightarrow> ('s, 'p, 'a, 'c, 'z) cycle_scheme \<Rightarrow> bytes \<Rightarrow> nat \<Rightarrow> nat \<Rightarrow> 'p list option" where
  "chain_points shake C label m n = those (map (point_hash_from_uniform C \<circ> chain_block shake label) [m..<n])"

lemma extend_generators_eq:
  assumes "length have \<le> capacity"
  shows "extend_generators shake C threads label capacity have
    = Option.bind (chain_points shake C label (length have) capacity) (\<lambda>ps. Some (have @ batch_normalize C ps))"
proof -
  let ?u = "map (chain_block shake label) [length have..<capacity]"
  have "extend_generators shake C threads label capacity have
      = Option.bind (Option.bind (those (map (points_hash_from_uniform C) (chunks (hash_chunk_size threads (length ?u)) ?u)))
          (\<lambda>ps. Some (concat ps))) (\<lambda>ps. Some (have @ batch_normalize C ps))"
    using assms by (simp add: extend_generators_def chain_take_eq Let_def)
  also have "\<dots> = Option.bind (those (map (point_hash_from_uniform C) ?u)) (\<lambda>ps. Some (have @ batch_normalize C ps))"
    unfolding those_chunks concat_chunks[OF hash_chunk_size_pos] ..
  finally show ?thesis by (simp add: chain_points_def)
qed

section \<open>The cache holds prefixes of the chains\<close>

definition chain_prefix ::
  "xof \<Rightarrow> ('s, 'p, 'a, 'c, 'z) cycle_scheme \<Rightarrow> bytes \<Rightarrow> 'a list \<Rightarrow> bool" where
  "chain_prefix shake C label as \<longleftrightarrow> chain_points shake C label 0 (length as) = Some (map (affine_to_point C) as)"

definition cache_ok :: "xof \<Rightarrow> ('s, 'p, 'a, 'c, 'z) cycle_scheme \<Rightarrow> 'a generator_cache \<Rightarrow> bool" where
  "cache_ok shake C cache \<longleftrightarrow> (\<forall>label. chain_prefix shake C label (cached cache label))"

lemma chain_points_split:
  assumes "l \<le> m" "m \<le> n"
  shows "chain_points shake C label l n
    = Option.bind (chain_points shake C label l m) (\<lambda>ps. Option.bind (chain_points shake C label m n) (\<lambda>qs. Some (ps @ qs)))"
proof -
  have "[l..<n] = [l..<m] @ [m..<n]" using assms by (metis le_add_diff_inverse upt_add_eq_append)
  then show ?thesis by (simp add: chain_points_def those_append)
qed

lemma those_length: "those xs = Some ys \<Longrightarrow> length ys = length xs"
  by (induction xs arbitrary: ys) (auto split: option.splits)

lemma chain_points_length: "chain_points shake C label m n = Some ps \<Longrightarrow> length ps = n - m"
  by (auto simp: chain_points_def dest: those_length)

lemma cache_ok_empty [simp]: "cache_ok shake C Map.empty"
  by (simp add: cache_ok_def chain_prefix_def cached_def chain_points_def)

lemma cached_store:
  "cached (store_generators key have extended cache) label
    = (if label = key \<and> length (cached cache key) = length have then extended else cached cache label)"
  by (auto simp: store_generators_def Let_def cached_def)

context cycle_laws
begin

lemma extend_generators_prefix:
  assumes "chain_prefix shake C label have" "length have \<le> capacity"
    and "extend_generators shake C threads label capacity have = Some extended"
  shows "chain_prefix shake C label extended \<and> length extended = capacity"
proof -
  obtain ps where ps: "chain_points shake C label (length have) capacity = Some ps"
      and ext: "extended = have @ batch_normalize C ps"
    using assms(2,3) by (auto simp: extend_generators_eq Option.bind_eq_Some_conv)
  have "chain_points shake C label 0 capacity = Some (map (affine_to_point C) extended)"
    using assms(1,2) ps chain_points_split[of 0 "length have" capacity shake C label]
    by (simp add: chain_prefix_def ext normalize_points)
  moreover have "length extended = capacity" using assms(2) chain_points_length[OF ps] by (simp add: ext)
  ultimately show ?thesis by (simp add: chain_prefix_def)
qed

lemma store_generators_ok:
  assumes "cache_ok shake C cache" "chain_prefix shake C label extended"
  shows "cache_ok shake C (store_generators label have extended cache)"
  using assms by (simp add: cache_ok_def cached_store)

lemma derive_reachable_ok:
  assumes "derive_reachable shake C threads job s"
  shows "cache_ok shake C (fst s) \<and> (\<forall>i. case snd s i of
      Looking \<Rightarrow> True
    | Extending have \<Rightarrow> chain_prefix shake C (fst (job i)) have \<and> length have < snd (job i)
    | Returned gens \<Rightarrow> chain_prefix shake C (fst (job i)) gens \<and> snd (job i) \<le> length gens)"
  using assms
proof (induction rule: derive_reachable.induct)
  case (step s s')
  show ?case
    using step.hyps(2)
  proof (cases rule: derive_step.cases)
    case (found ths i label capacity cache)
    with step.IH show ?thesis by (auto simp: cache_ok_def)
  next
    case (missing ths i label capacity cache)
    with step.IH show ?thesis by (auto simp: cache_ok_def)
  next
    case (publish ths i prefix label capacity extended cache)
    have "case ths i of Looking \<Rightarrow> True
      | Extending have \<Rightarrow> chain_prefix shake C (fst (job i)) have \<and> length have < snd (job i)
      | Returned gens \<Rightarrow> chain_prefix shake C (fst (job i)) gens \<and> snd (job i) \<le> length gens"
      using step.IH publish(1) by simp
    then have "chain_prefix shake C label prefix" "length prefix \<le> capacity"
      using publish(3,4) by simp_all
    then have "chain_prefix shake C label extended"
      using publish(5) extend_generators_prefix by blast
    with step.IH publish show ?thesis by (simp add: store_generators_ok)
  qed
qed simp

text \<open>A thread alone returns as soon as hashing returns on the blocks it needs.\<close>

lemma derive_prefix:
  assumes "cache_ok shake C cache" "chain_points shake C label 0 capacity \<noteq> None"
  shows "\<exists>gens cache'. derive shake C threads label capacity cache = Some (gens, cache')
    \<and> chain_prefix shake C label gens \<and> capacity \<le> length gens \<and> cache_ok shake C cache'"
proof (cases "capacity \<le> length (cached cache label)")
  case True
  then show ?thesis
    using assms(1) by (simp add: derive_def numeral_2_eq_2 cache_ok_def)
next
  case False
  let ?have = "cached cache label"
  obtain ps where "chain_points shake C label (length ?have) capacity = Some ps"
    using assms(2) False chain_points_split[of 0 "length ?have" capacity shake C label]
    by (auto simp: Option.bind_eq_Some_conv)
  then have ext: "extend_generators shake C threads label capacity ?have = Some (?have @ batch_normalize C ps)"
    using False by (simp add: extend_generators_eq)
  have ok: "chain_prefix shake C label ?have" using assms(1) by (simp add: cache_ok_def)
  have ext_ok: "chain_prefix shake C label (?have @ batch_normalize C ps)"
      "length (?have @ batch_normalize C ps) = capacity"
    using extend_generators_prefix[OF ok _ ext] False by simp_all
  let ?cache = "store_generators label ?have (?have @ batch_normalize C ps) cache"
  have "derive shake C threads label capacity cache = Some (?have @ batch_normalize C ps, ?cache)"
    using False ext ext_ok(2) unfolding derive_def numeral_2_eq_2 derive_rounds.simps Let_def
    by (simp only: cached_store) simp
  with ext_ok store_generators_ok[OF assms(1) ext_ok(1)] show ?thesis by auto
qed

lemma derive_sound:
  assumes "cache_ok shake C cache" "derive shake C threads label capacity cache = Some (gens, cache')"
  shows "chain_prefix shake C label gens \<and> capacity \<le> length gens \<and> cache_ok shake C cache'"
proof -
  have "derive_rounds n shake C threads label capacity cache = Some (gens, cache') \<Longrightarrow> cache_ok shake C cache
      \<Longrightarrow> chain_prefix shake C label gens \<and> capacity \<le> length gens \<and> cache_ok shake C cache'" for n
  proof (induction n arbitrary: cache)
    case (Suc n)
    show ?case
    proof (cases "capacity \<le> length (cached cache label)")
      case True
      with Suc.prems show ?thesis by (auto simp: Let_def cache_ok_def)
    next
      case False
      with Suc.prems(1) obtain ext where ext: "extend_generators shake C threads label capacity (cached cache label) = Some ext"
        and rest: "derive_rounds n shake C threads label capacity (store_generators label (cached cache label) ext cache)
          = Some (gens, cache')" by (auto simp: Let_def Option.bind_eq_Some_conv)
      have "chain_prefix shake C label (cached cache label)" using Suc.prems(2) by (simp add: cache_ok_def)
      then have "chain_prefix shake C label ext"
        using extend_generators_prefix[OF _ _ ext] False by simp
      with Suc.IH[OF rest] store_generators_ok[OF Suc.prems(2)] show ?thesis by simp
    qed
  qed simp
  with assms show ?thesis by (simp add: derive_def)
qed

text \<open>New generators: the vectors of every party are prefixes of that party's two chains.\<close>

definition party_label :: "char \<Rightarrow> nat \<Rightarrow> bytes" where
  "party_label ch i = ascii [ch] @ u32_le (word_of_nat i)"

lemma bulletproof_gens_new_prefixes:
  assumes "cache_ok shake C cache"
    and "bulletproof_gens_new shake C threads capacity parties cache = Some (cache', gens)"
  shows "cache_ok shake C cache' \<and> gens_capacity gens = capacity \<and> party_capacity gens = parties
    \<and> length (gens_G_vec gens) = parties \<and> length (gens_H_vec gens) = parties
    \<and> (\<forall>j < parties. chain_prefix shake C (party_label CHR ''G'' j) (gens_G_vec gens ! j) \<and> capacity \<le> length (gens_G_vec gens ! j)
        \<and> chain_prefix shake C (party_label CHR ''H'' j) (gens_H_vec gens ! j) \<and> capacity \<le> length (gens_H_vec gens ! j))"
proof (cases "capacity = 0")
  case True
  with assms show ?thesis
    by (auto simp: bulletproof_gens_new_def increase_capacity_def chain_prefix_def chain_points_def)
next
  case False
  let ?step = "\<lambda>i st. Option.bind st (\<lambda>(cache, gens). let party_index = u32_le (word_of_nat i)
            in Option.bind (derive shake C threads (ascii ''G'' @ party_index) capacity cache) (\<lambda>(G, cache).
               Option.bind (derive shake C threads (ascii ''H'' @ party_index) capacity cache) (\<lambda>(H, cache).
               Some (cache, gens\<lparr>gens_G_vec := (gens_G_vec gens)[i := G], gens_H_vec := (gens_H_vec gens)[i := H]\<rparr>))))"
  let ?empty = "\<lparr>gens_capacity = 0, party_capacity = parties, gens_G_vec = replicate parties [],
                gens_H_vec = replicate parties []\<rparr>"
  let ?ok = "\<lambda>n cache' gens. cache_ok shake C cache' \<and> party_capacity gens = parties
    \<and> length (gens_G_vec gens) = parties \<and> length (gens_H_vec gens) = parties
    \<and> (\<forall>j < n. chain_prefix shake C (party_label CHR ''G'' j) (gens_G_vec gens ! j) \<and> capacity \<le> length (gens_G_vec gens ! j)
        \<and> chain_prefix shake C (party_label CHR ''H'' j) (gens_H_vec gens ! j) \<and> capacity \<le> length (gens_H_vec gens ! j))"
  have "fold ?step [0..<n] (Some (cache, ?empty)) = Some (cache', gens) \<Longrightarrow> ?ok n cache' gens" if "n \<le> parties" for n cache' gens
    using that
  proof (induction n arbitrary: cache' gens)
    case (Suc n)
    have split: "[0..<Suc n] = [0..<n] @ [n]" by simp
    from Suc.prems(1) obtain cache1 gens1 G cache2 H where
        prev: "fold ?step [0..<n] (Some (cache, ?empty)) = Some (cache1, gens1)"
      and G: "derive shake C threads (ascii ''G'' @ u32_le (word_of_nat n)) capacity cache1 = Some (G, cache2)"
      and H: "derive shake C threads (ascii ''H'' @ u32_le (word_of_nat n)) capacity cache2 = Some (H, cache')"
      and gens: "gens = gens1\<lparr>gens_G_vec := (gens_G_vec gens1)[n := G], gens_H_vec := (gens_H_vec gens1)[n := H]\<rparr>"
      unfolding split fold_append comp_apply by (auto simp: Let_def Option.bind_eq_Some_conv)
    have prev_ok: "?ok n cache1 gens1" using Suc.IH[OF prev] Suc.prems(2) by simp
    have G_ok: "chain_prefix shake C (party_label CHR ''G'' n) G \<and> capacity \<le> length G \<and> cache_ok shake C cache2"
      using derive_sound[OF _ G] prev_ok by (simp add: party_label_def)
    have H_ok: "chain_prefix shake C (party_label CHR ''H'' n) H \<and> capacity \<le> length H \<and> cache_ok shake C cache'"
      using derive_sound[OF _ H] G_ok by (simp add: party_label_def)
    show ?case
      using prev_ok G_ok H_ok Suc.prems(2) by (auto simp: gens less_Suc_eq)
  qed (use assms(1) in auto)
  from this[of parties] assms(2) False show ?thesis
    by (auto simp: bulletproof_gens_new_def increase_capacity_def Option.bind_eq_Some_conv)
qed

end

end
