(* ===== verification/R1cs_Prover.thy ===== *)
theory R1cs_Prover
  imports Constraint_System Generators
begin

text \<open>
  \<open>bulletproofs-cycle/src/r1cs/prover.rs\<close> and the proof type of \<open>proof.rs\<close>: the prover's constraint system and
  the R1CS proof. The random generator that Merlin derives from a transcript is the record
  \<open>transcript_rng\<close>. \<open>prove_and_return_transcript\<close> is split where the code has its phases: committing to
  the first phase, the deferred circuits, committing to the second phase, the polynomials, the responses.
\<close>

section \<open>Proofs and randomness\<close>

record ('s, 'c) r1cs_proof =
  rp_A_I1 :: 'c
  rp_A_O1 :: 'c
  rp_S1 :: 'c
  rp_A_I2 :: 'c
  rp_A_O2 :: 'c
  rp_S2 :: 'c
  rp_T_1 :: 'c
  rp_T_3 :: 'c
  rp_T_4 :: 'c
  rp_T_5 :: 'c
  rp_T_6 :: 'c
  rp_t_x :: 's
  rp_t_x_blinding :: 's
  rp_e_blinding :: 's
  rp_ipp_proof :: "('s, 'c) inner_product_proof"

text \<open>\<open>'b\<close> is Merlin's builder, \<open>'g\<close> the caller's generator, \<open>'h\<close> the derived one.\<close>

record ('s, 't, 'b, 'g, 'h) transcript_rng =
  build_rng :: "'t \<Rightarrow> 'b"
  rekey_with_witness_bytes :: "bytes \<Rightarrow> bytes \<Rightarrow> 'b \<Rightarrow> 'b"
  finalize_rng :: "'b \<Rightarrow> 'g \<Rightarrow> 'h \<times> 'g"
  scalar_random :: "'h \<Rightarrow> 's \<times> 'h"

primrec draw_scalars :: "('s, 't, 'b, 'g, 'h, 'y) transcript_rng_scheme \<Rightarrow> nat \<Rightarrow> 'h \<Rightarrow> 's list \<times> 'h" where
  "draw_scalars R 0 rng = ([], rng)"
| "draw_scalars R (Suc n) rng =
     (let (s, rng) = scalar_random R rng; (ss, rng) = draw_scalars R n rng in (s # ss, rng))"

definition next_power_of_two :: "nat \<Rightarrow> nat" where
  "next_power_of_two n = 2 ^ log2_ceil n"

section \<open>The prover's constraint system\<close>

record 's secrets =
  secret_a_L :: "'s list"
  secret_a_R :: "'s list"
  secret_a_O :: "'s list"
  secret_v :: "'s list"
  secret_v_blinding :: "'s list"

record ('s, 'p, 't) prover =
  pr_transcript :: 't
  pr_pc_gens :: "'p pedersen_gens"
  pr_constraints :: "'s linear_combination list"
  pr_secrets :: "'s secrets"
  pr_deferred :: "'s gadget list"
  pr_pending :: "usize option"

definition secrets_new :: "'s secrets" where
  "secrets_new = \<lparr>secret_a_L = [], secret_a_R = [], secret_a_O = [], secret_v = [], secret_v_blinding = []\<rparr>"

definition r1cs_prover_new :: "('t, 'y) merlin_scheme \<Rightarrow> 'p pedersen_gens \<Rightarrow> 't \<Rightarrow> ('s, 'p, 't) prover" where
  "r1cs_prover_new M pc t =
     \<lparr>pr_transcript = r1cs_domain_sep M t, pr_pc_gens = pc, pr_constraints = [], pr_secrets = secrets_new,
      pr_deferred = [], pr_pending = None\<rparr>"

definition prover_commit ::
  "('t, 'y) merlin_scheme \<Rightarrow> ('s, 'p, 'a, 'c, 'z) cycle_scheme \<Rightarrow> 's \<Rightarrow> 's \<Rightarrow> ('s, 'p, 't) prover
    \<Rightarrow> ('c \<times> variable_kind) \<times> ('s, 'p, 't) prover" where
  "prover_commit M C v v_blinding p =
     (let s = pr_secrets p;
          i = length (secret_v s);
          V = point_compress C (pedersen_commit C (pr_pc_gens p) v v_blinding)
      in ((V, Committed i),
          p\<lparr>pr_secrets := s\<lparr>secret_v := secret_v s @ [v], secret_v_blinding := secret_v_blinding s @ [v_blinding]\<rparr>,
            pr_transcript := append_point M C (ascii ''V'') V (pr_transcript p)\<rparr>))"

definition prover_eval :: "('s::field, 'p, 't) prover \<Rightarrow> 's linear_combination \<Rightarrow> 's" where
  "prover_eval p lc =
     fold (\<lambda>(var, coeff) acc.
       let val = (case var of
             MultiplierLeft i \<Rightarrow> secret_a_L (pr_secrets p) ! i
           | MultiplierRight i \<Rightarrow> secret_a_R (pr_secrets p) ! i
           | MultiplierOutput i \<Rightarrow> secret_a_O (pr_secrets p) ! i
           | Committed i \<Rightarrow> secret_v (pr_secrets p) ! i
           | ConstantOne \<Rightarrow> 1)
       in acc + coeff * val) lc 0"

definition prover_constrain :: "'s linear_combination \<Rightarrow> ('s, 'p, 't) prover \<Rightarrow> ('s, 'p, 't) prover" where
  "prover_constrain lc p = p\<lparr>pr_constraints := pr_constraints p @ [lc]\<rparr>"

definition push_multiplier :: "'s \<Rightarrow> 's \<Rightarrow> 's \<Rightarrow> ('s, 'p, 't) prover \<Rightarrow> ('s, 'p, 't) prover" where
  "push_multiplier l r out p =
     (let s = pr_secrets p
      in p\<lparr>pr_secrets := s\<lparr>secret_a_L := secret_a_L s @ [l], secret_a_R := secret_a_R s @ [r],
                          secret_a_O := secret_a_O s @ [out]\<rparr>\<rparr>)"

definition next_gate :: "'s secrets \<Rightarrow> gate" where
  "next_gate s = (MultiplierLeft (length (secret_a_L s)), MultiplierRight (length (secret_a_R s)),
                  MultiplierOutput (length (secret_a_O s)))"

definition prover_multiply ::
  "'s::field linear_combination \<Rightarrow> 's linear_combination \<Rightarrow> ('s, 'p, 't) prover \<Rightarrow> gate \<times> ('s, 'p, 't) prover" where
  "prover_multiply left right p =
     (let l = prover_eval p left; r = prover_eval p right; out = l * r;
          (l_var, r_var, o_var) = next_gate (pr_secrets p);
          p = push_multiplier l r out p;
          p = prover_constrain (left @ [(l_var, - 1)]) p;
          p = prover_constrain (right @ [(r_var, - 1)]) p
      in ((l_var, r_var, o_var), p))"

definition prover_allocate ::
  "'s::field option \<Rightarrow> ('s, 'p, 't) prover \<Rightarrow> r1cs_error + (variable_kind \<times> ('s, 'p, 't) prover)" where
  "prover_allocate assigned p =
     (case assigned of
        None \<Rightarrow> Inl MissingAssignment
      | Some scalar \<Rightarrow>
          (case pr_pending p of
             None \<Rightarrow>
               let i = length (secret_a_L (pr_secrets p))
               in Inr (MultiplierLeft i, push_multiplier scalar 0 0 (p\<lparr>pr_pending := Some i\<rparr>))
           | Some i \<Rightarrow>
               let s = pr_secrets p; a_R = (secret_a_R s)[i := scalar];
                   a_O = (secret_a_O s)[i := secret_a_L s ! i * a_R ! i]
               in Inr (MultiplierRight i,
                    p\<lparr>pr_pending := None, pr_secrets := s\<lparr>secret_a_R := a_R, secret_a_O := a_O\<rparr>\<rparr>)))"

definition prover_allocate_multiplier ::
  "('s::field \<times> 's) option \<Rightarrow> ('s, 'p, 't) prover \<Rightarrow> r1cs_error + (gate \<times> ('s, 'p, 't) prover)" where
  "prover_allocate_multiplier assigned p =
     (case assigned of
        None \<Rightarrow> Inl MissingAssignment
      | Some (l, r) \<Rightarrow> let out = l * r in Inr (next_gate (pr_secrets p), push_multiplier l r out p))"

definition prover_metrics :: "('s, 'p, 't) prover \<Rightarrow> metrics" where
  "prover_metrics p =
     \<lparr>multipliers = length (secret_a_L (pr_secrets p)),
      num_constraints = length (pr_constraints p) + length (pr_deferred p),
      phase_one_constraints = length (pr_constraints p),
      phase_two_constraints = length (pr_deferred p)\<rparr>"

definition prover_specify_randomized_constraints :: "'s gadget \<Rightarrow> ('s, 'p, 't) prover \<Rightarrow> ('s, 'p, 't) prover" where
  "prover_specify_randomized_constraints callback p = p\<lparr>pr_deferred := pr_deferred p @ [callback]\<rparr>"

text \<open>A circuit that runs on the prover.\<close>

primrec run_prover ::
  "('t, 'y) merlin_scheme \<Rightarrow> ('s::field, 'p, 'a, 'c, 'z) cycle_scheme \<Rightarrow> 's gadget \<Rightarrow> ('s, 'p, 't) prover
    \<Rightarrow> r1cs_error + ('s, 'p, 't) prover" where
  "run_prover M C (Finish res) p = rbind res (\<lambda>_. Inr p)"
| "run_prover M C (Multiply left right k) p = (let (g, p) = prover_multiply left right p in run_prover M C (k g) p)"
| "run_prover M C (Allocate assigned k) p = rbind (prover_allocate assigned p) (\<lambda>(var, p). run_prover M C (k var) p)"
| "run_prover M C (AllocateMultiplier assigned k) p =
     rbind (prover_allocate_multiplier assigned p) (\<lambda>(g, p). run_prover M C (k g) p)"
| "run_prover M C (QueryMetrics k) p = run_prover M C (k (prover_metrics p)) p"
| "run_prover M C (Constrain lc k) p = run_prover M C k (prover_constrain lc p)"
| "run_prover M C (BindTranscript label message k) p =
     run_prover M C k (p\<lparr>pr_transcript := append_message M label message (pr_transcript p)\<rparr>)"
| "run_prover M C (ChallengeScalar label k) p =
     (let (c, t) = challenge_scalar M C label (pr_transcript p) in run_prover M C (k c) (p\<lparr>pr_transcript := t\<rparr>))"

definition prover_create_randomized_constraints ::
  "('t, 'y) merlin_scheme \<Rightarrow> ('s::field, 'p, 'a, 'c, 'z) cycle_scheme \<Rightarrow> ('s, 'p, 't) prover
    \<Rightarrow> r1cs_error + ('s, 'p, 't) prover" where
  "prover_create_randomized_constraints M C p =
     (let p = p\<lparr>pr_pending := None\<rparr>
      in if pr_deferred p = [] then Inr (p\<lparr>pr_transcript := r1cs_1phase_domain_sep M (pr_transcript p)\<rparr>)
         else let p = p\<lparr>pr_transcript := r1cs_2phase_domain_sep M (pr_transcript p)\<rparr>;
                  callbacks = pr_deferred p;
                  p = p\<lparr>pr_deferred := []\<rparr>
              in rfold (\<lambda>p callback. run_prover M C callback p) p callbacks)"

section \<open>Weights\<close>

definition prover_flatten_term ::
  "'s::field \<Rightarrow> variable_kind \<times> 's \<Rightarrow> 's list \<times> 's list \<times> 's list \<times> 's list \<Rightarrow> 's list \<times> 's list \<times> 's list \<times> 's list" where
  "prover_flatten_term exp_z = (\<lambda>(var, coeff) (wL, wR, wO, wV).
     let weighted = scaled_by_coefficient exp_z coeff
     in case var of
          MultiplierLeft i \<Rightarrow> (add_at i weighted wL, wR, wO, wV)
        | MultiplierRight i \<Rightarrow> (wL, add_at i weighted wR, wO, wV)
        | MultiplierOutput i \<Rightarrow> (wL, wR, add_at i weighted wO, wV)
        | Committed i \<Rightarrow> (wL, wR, wO, add_at i (- weighted) wV)
        | ConstantOne \<Rightarrow> (wL, wR, wO, wV))"

definition prover_flattened_constraints ::
  "('s::field, 'p, 't) prover \<Rightarrow> 's \<Rightarrow> 's list \<times> 's list \<times> 's list \<times> 's list" where
  "prover_flattened_constraints p z =
     (let n = length (secret_a_L (pr_secrets p)); m = length (secret_v (pr_secrets p))
      in fst (fold (\<lambda>lc (w, exp_z). (fold (prover_flatten_term exp_z) lc w, exp_z * z)) (pr_constraints p)
           ((replicate n 0, replicate n 0, replicate n 0, replicate m 0), z)))"

section \<open>Commitments of a phase\<close>

record ('s, 'c) phase =
  ph_i_blinding :: 's
  ph_o_blinding :: 's
  ph_s_blinding :: 's
  ph_s_L :: "'s list"
  ph_s_R :: "'s list"
  ph_A_I :: 'c
  ph_A_O :: 'c
  ph_S :: 'c

definition phase_msms ::
  "('s, 'p::ab_group_add, 'a, 'c, 'z) cycle_scheme \<Rightarrow> 'p \<Rightarrow> 'a list \<Rightarrow> 'a list \<Rightarrow> 's list \<Rightarrow> 's list \<Rightarrow> 's list
    \<Rightarrow> 's list \<Rightarrow> 's list \<Rightarrow> 's \<Rightarrow> 's \<Rightarrow> 's \<Rightarrow> 'p \<times> 'p \<times> 'p" where
  "phase_msms C B_blinding g_points h_points aL aR aO s_L s_R i_blinding o_blinding s_blinding =
     (let gh_points = g_points @ h_points
      in (vartime_msm_affine C (aL @ aR) gh_points + point_mul C B_blinding i_blinding,
          vartime_msm_affine C aO g_points + point_mul C B_blinding o_blinding,
          vartime_msm_affine C (s_L @ s_R) gh_points + point_mul C B_blinding s_blinding))"

definition prover_first_phase ::
  "('t, 'y) merlin_u64_scheme \<Rightarrow> ('s, 'p::ab_group_add, 'a, 'c, 'z) cycle_scheme \<Rightarrow> ('s, 't, 'b, 'g, 'h, 'w) transcript_rng_scheme
    \<Rightarrow> 'a bulletproof_gens \<Rightarrow> 'g \<Rightarrow> ('s, 'p, 't) prover
    \<Rightarrow> r1cs_error + (('s, 'c) phase \<times> ('s, 'p, 't) prover \<times> 'h \<times> 'g)" where
  "prover_first_phase M C R bp_gens g p =
     (let s = pr_secrets p;
          t = append_u64 M (ascii ''m'') (length (secret_v s)) (pr_transcript p);
          builder = fold (\<lambda>v_b. rekey_with_witness_bytes R (ascii ''v_blinding'') (scalar_to_canonical C v_b))
                      (secret_v_blinding s) (build_rng R t);
          (rng, g) = finalize_rng R builder g;
          n1 = length (secret_a_L s)
      in if gens_capacity bp_gens < n1 then Inl R1CSInvalidGeneratorsLength
         else
         let (i_blinding1, rng) = scalar_random R rng;
             (o_blinding1, rng) = scalar_random R rng;
             (s_blinding1, rng) = scalar_random R rng;
             (s_L1, rng) = draw_scalars R n1 rng;
             (s_R1, rng) = draw_scalars R n1 rng;
             (i_commit1, o_commit1, s_commit1) =
               phase_msms C (ped_B_blinding (pr_pc_gens p)) (take n1 (shared_G bp_gens 0)) (take n1 (shared_H bp_gens 0))
                 (secret_a_L s) (secret_a_R s) (secret_a_O s) s_L1 s_R1 i_blinding1 o_blinding1 s_blinding1;
             A_I1 = point_compress C i_commit1; A_O1 = point_compress C o_commit1; S1 = point_compress C s_commit1;
             t = append_point M C (ascii ''A_I1'') A_I1 t;
             t = append_point M C (ascii ''A_O1'') A_O1 t;
             t = append_point M C (ascii ''S1'') S1 t
         in Inr (\<lparr>ph_i_blinding = i_blinding1, ph_o_blinding = o_blinding1, ph_s_blinding = s_blinding1,
                  ph_s_L = s_L1, ph_s_R = s_R1, ph_A_I = A_I1, ph_A_O = A_O1, ph_S = S1\<rparr>,
                 p\<lparr>pr_transcript := t\<rparr>, rng, g))"

definition prover_second_phase ::
  "('s::field, 'p::ab_group_add, 'a, 'c, 'z) cycle_scheme \<Rightarrow> ('s, 't, 'b, 'g, 'h, 'w) transcript_rng_scheme
    \<Rightarrow> 'a bulletproof_gens \<Rightarrow> nat \<Rightarrow> ('s, 'p, 't) prover \<Rightarrow> 'h \<Rightarrow> ('s, 'c) phase \<times> 'h" where
  "prover_second_phase C R bp_gens n1 p rng =
     (let s = pr_secrets p; n = length (secret_a_L s); n2 = n - n1; has_2nd_phase = (0 < n2);
          (i_blinding2, o_blinding2, s_blinding2, rng) =
            (if has_2nd_phase
             then let (i_blinding2, rng) = scalar_random R rng;
                      (o_blinding2, rng) = scalar_random R rng;
                      (s_blinding2, rng) = scalar_random R rng
                  in (i_blinding2, o_blinding2, s_blinding2, rng)
             else (0, 0, 0, rng));
          (s_L2, rng) = draw_scalars R n2 rng;
          (s_R2, rng) = draw_scalars R n2 rng;
          (A_I2, A_O2, S2) =
            (if has_2nd_phase
             then let (i_commit2, o_commit2, s_commit2) =
                        phase_msms C (ped_B_blinding (pr_pc_gens p)) (drop n1 (take n (shared_G bp_gens 0)))
                          (drop n1 (take n (shared_H bp_gens 0))) (drop n1 (secret_a_L s)) (drop n1 (secret_a_R s))
                          (drop n1 (secret_a_O s)) s_L2 s_R2 i_blinding2 o_blinding2 s_blinding2
                  in (point_compress C i_commit2, point_compress C o_commit2, point_compress C s_commit2)
             else (compressed_identity C, compressed_identity C, compressed_identity C))
      in (\<lparr>ph_i_blinding = i_blinding2, ph_o_blinding = o_blinding2, ph_s_blinding = s_blinding2,
           ph_s_L = s_L2, ph_s_R = s_R2, ph_A_I = A_I2, ph_A_O = A_O2, ph_S = S2\<rparr>, rng))"

section \<open>The polynomials and the responses\<close>

definition prover_polynomials ::
  "('s::field, 'p, 'a, 'c, 'z) cycle_scheme \<Rightarrow> 's secrets \<Rightarrow> 's list \<Rightarrow> 's list \<Rightarrow> 's list \<Rightarrow> 's \<Rightarrow> nat \<Rightarrow> nat
    \<Rightarrow> 's list \<Rightarrow> 's list \<Rightarrow> 's vec_poly3 \<times> 's vec_poly3 \<times> 's" where
  "prover_polynomials C s wL wR wO y n padded_n s_L s_R =
     (let l_poly = \<lparr>vp0 = [], vp1 = replicate n 0, vp2 = replicate n 0, vp3 = replicate n 0\<rparr>;
          r_poly = \<lparr>vp0 = replicate n 0, vp1 = replicate n 0, vp2 = [], vp3 = replicate n 0\<rparr>;
          y_inv = scalar_invert C y;
          exp_y_inv = exp_iter padded_n y_inv
      in fold (\<lambda>(i, sl, sr) (l_poly, r_poly, exp_y).
           (l_poly\<lparr>vp1 := (vp1 l_poly)[i := secret_a_L s ! i + exp_y_inv ! i * wR ! i],
                   vp2 := (vp2 l_poly)[i := secret_a_O s ! i],
                   vp3 := (vp3 l_poly)[i := sl]\<rparr>,
            r_poly\<lparr>vp0 := (vp0 r_poly)[i := wO ! i - exp_y],
                   vp1 := (vp1 r_poly)[i := exp_y * secret_a_R s ! i + wL ! i],
                   vp3 := (vp3 r_poly)[i := exp_y * sr]\<rparr>,
            exp_y * y)) (enumerate 0 (zip s_L s_R)) (l_poly, r_poly, 1))"

definition t_x_blinding_at :: "'s::field \<Rightarrow> 's \<Rightarrow> 's \<Rightarrow> 's \<Rightarrow> 's \<Rightarrow> 's \<Rightarrow> 's \<Rightarrow> 's" where
  "t_x_blinding_at x b1 b2 b3 b4 b5 b6 =
     (let x2 = x * x; x3 = x2 * x
      in x * (b1 + x * b2 + x2 * b3 + x3 * b4 + x3 * x * b5 + x3 * x2 * b6))"

definition resize :: "nat \<Rightarrow> 's \<Rightarrow> 's list \<Rightarrow> 's list" where
  "resize n z xs = take n xs @ replicate (n - length xs) z"

definition response_vectors ::
  "'s::field vec_poly3 \<Rightarrow> 's vec_poly3 \<Rightarrow> 's \<Rightarrow> 's \<Rightarrow> 's \<Rightarrow> nat \<Rightarrow> nat \<Rightarrow> 's list \<times> 's list" where
  "response_vectors l_poly r_poly exp_y y x n padded_n =
     (let l_vec = resize padded_n 0 (vec_poly3_eval l_poly x);
          r_vec = resize padded_n 0 (vec_poly3_eval r_poly x);
          (r_vec, _) = fold (\<lambda>i (r_vec, exp_y). (r_vec[i := - exp_y], exp_y * y)) [n..<length r_vec] (r_vec, exp_y)
      in (l_vec, r_vec))"

definition prover_respond ::
  "('t, 'y) merlin_u64_scheme \<Rightarrow> ('s::field, 'p::ab_group_add, 'a, 'c, 'z) cycle_scheme
    \<Rightarrow> ('s, 't, 'b, 'g, 'h, 'w) transcript_rng_scheme \<Rightarrow> 'a bulletproof_gens \<Rightarrow> nat \<Rightarrow> ('s, 'c) phase \<Rightarrow> ('s, 'c) phase
    \<Rightarrow> ('s, 'p, 't) prover \<Rightarrow> 'h \<Rightarrow> ('s, 'c) r1cs_proof \<times> 't" where
  "prover_respond M C R bp_gens n1 first second p rng =
     (let s = pr_secrets p; pc = pr_pc_gens p; t = pr_transcript p;
          n = length (secret_a_L s); n2 = n - n1; padded_n = next_power_of_two n; pad = padded_n - n;
          t = append_point M C (ascii ''A_I2'') (ph_A_I second) t;
          t = append_point M C (ascii ''A_O2'') (ph_A_O second) t;
          t = append_point M C (ascii ''S2'') (ph_S second) t;
          (y, t) = challenge_scalar M C (ascii ''y'') t;
          (z, t) = challenge_scalar M C (ascii ''z'') t;
          (wL, wR, wO, wV) = prover_flattened_constraints p z;
          (l_poly, r_poly, exp_y) = prover_polynomials C s wL wR wO y n padded_n
             (ph_s_L first @ ph_s_L second) (ph_s_R first @ ph_s_R second);
          t_poly = special_inner_product l_poly r_poly;
          (t_1_blinding, rng) = scalar_random R rng;
          (t_3_blinding, rng) = scalar_random R rng;
          (t_4_blinding, rng) = scalar_random R rng;
          (t_5_blinding, rng) = scalar_random R rng;
          (t_6_blinding, rng) = scalar_random R rng;
          T_1 = point_compress C (pedersen_commit C pc (t1 t_poly) t_1_blinding);
          T_3 = point_compress C (pedersen_commit C pc (t3 t_poly) t_3_blinding);
          T_4 = point_compress C (pedersen_commit C pc (t4 t_poly) t_4_blinding);
          T_5 = point_compress C (pedersen_commit C pc (t5 t_poly) t_5_blinding);
          T_6 = point_compress C (pedersen_commit C pc (t6 t_poly) t_6_blinding);
          t = append_point M C (ascii ''T_1'') T_1 t;
          t = append_point M C (ascii ''T_3'') T_3 t;
          t = append_point M C (ascii ''T_4'') T_4 t;
          t = append_point M C (ascii ''T_5'') T_5 t;
          t = append_point M C (ascii ''T_6'') T_6 t;
          (u, t) = challenge_scalar M C (ascii ''u'') t;
          (x, t) = challenge_scalar M C (ascii ''x'') t;
          t_2_blinding = fold (\<lambda>(c, v_b) acc. acc + c * v_b) (zip wV (secret_v_blinding s)) 0;
          t_x = poly6_eval t_poly x;
          t_x_blinding = t_x_blinding_at x t_1_blinding t_2_blinding t_3_blinding t_4_blinding t_5_blinding t_6_blinding;
          (l_vec, r_vec) = response_vectors l_poly r_poly exp_y y x n padded_n;
          i_blinding = ph_i_blinding first + u * ph_i_blinding second;
          o_blinding = ph_o_blinding first + u * ph_o_blinding second;
          s_blinding = ph_s_blinding first + u * ph_s_blinding second;
          e_blinding = x * (i_blinding + x * (o_blinding + x * s_blinding));
          t = append_scalar M C (ascii ''t_x'') t_x t;
          t = append_scalar M C (ascii ''t_x_blinding'') t_x_blinding t;
          t = append_scalar M C (ascii ''e_blinding'') e_blinding t;
          (w, t) = challenge_scalar M C (ascii ''w'') t;
          Q = point_mul C (ped_B pc) w;
          G_factors = replicate n1 1 @ replicate (n2 + pad) u;
          H_factors = map (\<lambda>(y, u_or_1). y * u_or_1) (zip (exp_iter padded_n (scalar_invert C y)) G_factors);
          (ipp_proof, t) = ipp_create M C t Q G_factors H_factors (take padded_n (shared_G bp_gens 0))
             (take padded_n (shared_H bp_gens 0)) l_vec r_vec
      in (\<lparr>rp_A_I1 = ph_A_I first, rp_A_O1 = ph_A_O first, rp_S1 = ph_S first,
           rp_A_I2 = ph_A_I second, rp_A_O2 = ph_A_O second, rp_S2 = ph_S second,
           rp_T_1 = T_1, rp_T_3 = T_3, rp_T_4 = T_4, rp_T_5 = T_5, rp_T_6 = T_6,
           rp_t_x = t_x, rp_t_x_blinding = t_x_blinding, rp_e_blinding = e_blinding, rp_ipp_proof = ipp_proof\<rparr>, t))"

definition prove_and_return_transcript ::
  "('t, 'y) merlin_u64_scheme \<Rightarrow> ('s::field, 'p::ab_group_add, 'a, 'c, 'z) cycle_scheme
    \<Rightarrow> ('s, 't, 'b, 'g, 'h, 'w) transcript_rng_scheme \<Rightarrow> 'a bulletproof_gens \<Rightarrow> 'g \<Rightarrow> ('s, 'p, 't) prover
    \<Rightarrow> r1cs_error + (('s, 'c) r1cs_proof \<times> 't \<times> 'g)" where
  "prove_and_return_transcript M C R bp_gens g p =
     (let n1 = length (secret_a_L (pr_secrets p)) in
      rbind (prover_first_phase M C R bp_gens g p) (\<lambda>(first, p, rng, g).
      rbind (prover_create_randomized_constraints M C p) (\<lambda>p.
        if gens_capacity bp_gens < next_power_of_two (length (secret_a_L (pr_secrets p)))
        then Inl R1CSInvalidGeneratorsLength
        else let (second, rng) = prover_second_phase C R bp_gens n1 p rng;
                 (pf, t) = prover_respond M C R bp_gens n1 first second p rng
             in Inr (pf, t, g))))"

definition prove ::
  "('t, 'y) merlin_u64_scheme \<Rightarrow> ('s::field, 'p::ab_group_add, 'a, 'c, 'z) cycle_scheme
    \<Rightarrow> ('s, 't, 'b, 'g, 'h, 'w) transcript_rng_scheme \<Rightarrow> 'a bulletproof_gens \<Rightarrow> 'g \<Rightarrow> ('s, 'p, 't) prover
    \<Rightarrow> r1cs_error + ('s, 'c) r1cs_proof" where
  "prove M C R bp_gens g p = rbind (prove_and_return_transcript M C R bp_gens g p) (\<lambda>(pf, _). Inr pf)"

end
