(* ===== verification/R1cs_Verifier.thy ===== *)
theory R1cs_Verifier
  imports R1cs_Prover
begin

text \<open>
  \<open>bulletproofs-cycle/src/r1cs/verifier.rs\<close>: the verifier's constraint system, the equation that it prepares
  from a proof, and checking one equation or a batch with random coefficients. The generator vectors of
  an equation are shared pointers in the code; comparing the pointers first is only a shortcut for
  comparing the vectors.
\<close>

section \<open>The verifier's constraint system\<close>

record ('s, 'c, 't) verifier =
  ve_transcript :: 't
  ve_constraints :: "'s linear_combination list"
  ve_num_vars :: usize
  ve_V :: "'c list"
  ve_deferred :: "'s gadget list"
  ve_pending :: "usize option"

definition verifier_cs_new :: "('t, 'y) merlin_scheme \<Rightarrow> 't \<Rightarrow> ('s, 'c, 't) verifier" where
  "verifier_cs_new M t =
     \<lparr>ve_transcript = r1cs_domain_sep M t, ve_constraints = [], ve_num_vars = 0, ve_V = [], ve_deferred = [],
      ve_pending = None\<rparr>"

definition verifier_commit ::
  "('t, 'y) merlin_scheme \<Rightarrow> ('s, 'p, 'a, 'c, 'z) cycle_scheme \<Rightarrow> 'c \<Rightarrow> ('s, 'c, 't) verifier
    \<Rightarrow> variable_kind \<times> ('s, 'c, 't) verifier" where
  "verifier_commit M C commitment vf =
     (let i = length (ve_V vf)
      in (Committed i, vf\<lparr>ve_V := ve_V vf @ [commitment],
                        ve_transcript := append_point M C (ascii ''V'') commitment (ve_transcript vf)\<rparr>))"

definition verifier_constrain :: "'s linear_combination \<Rightarrow> ('s, 'c, 't) verifier \<Rightarrow> ('s, 'c, 't) verifier" where
  "verifier_constrain lc vf = vf\<lparr>ve_constraints := ve_constraints vf @ [lc]\<rparr>"

definition verifier_multiply ::
  "'s::field linear_combination \<Rightarrow> 's linear_combination \<Rightarrow> ('s, 'c, 't) verifier \<Rightarrow> gate \<times> ('s, 'c, 't) verifier" where
  "verifier_multiply left right vf =
     (let var = ve_num_vars vf;
          vf = vf\<lparr>ve_num_vars := var + 1\<rparr>;
          l_var = MultiplierLeft var; r_var = MultiplierRight var; o_var = MultiplierOutput var;
          vf = verifier_constrain (left @ [(l_var, - 1)]) vf;
          vf = verifier_constrain (right @ [(r_var, - 1)]) vf
      in ((l_var, r_var, o_var), vf))"

definition verifier_allocate :: "('s, 'c, 't) verifier \<Rightarrow> variable_kind \<times> ('s, 'c, 't) verifier" where
  "verifier_allocate vf =
     (case ve_pending vf of
        None \<Rightarrow> let i = ve_num_vars vf in (MultiplierLeft i, vf\<lparr>ve_num_vars := i + 1, ve_pending := Some i\<rparr>)
      | Some i \<Rightarrow> (MultiplierRight i, vf\<lparr>ve_pending := None\<rparr>))"

definition verifier_allocate_multiplier :: "('s, 'c, 't) verifier \<Rightarrow> gate \<times> ('s, 'c, 't) verifier" where
  "verifier_allocate_multiplier vf =
     (let var = ve_num_vars vf
      in ((MultiplierLeft var, MultiplierRight var, MultiplierOutput var), vf\<lparr>ve_num_vars := var + 1\<rparr>))"

definition verifier_metrics :: "('s, 'c, 't) verifier \<Rightarrow> metrics" where
  "verifier_metrics vf =
     \<lparr>multipliers = ve_num_vars vf,
      num_constraints = length (ve_constraints vf) + length (ve_deferred vf),
      phase_one_constraints = length (ve_constraints vf),
      phase_two_constraints = length (ve_deferred vf)\<rparr>"

definition verifier_specify_randomized_constraints ::
  "'s gadget \<Rightarrow> ('s, 'c, 't) verifier \<Rightarrow> ('s, 'c, 't) verifier" where
  "verifier_specify_randomized_constraints callback vf = vf\<lparr>ve_deferred := ve_deferred vf @ [callback]\<rparr>"

text \<open>A circuit that runs on the verifier, which ignores the assignments.\<close>

primrec run_verifier ::
  "('t, 'y) merlin_scheme \<Rightarrow> ('s::field, 'p, 'a, 'c, 'z) cycle_scheme \<Rightarrow> 's gadget \<Rightarrow> ('s, 'c, 't) verifier
    \<Rightarrow> r1cs_error + ('s, 'c, 't) verifier" where
  "run_verifier M C (Finish res) vf = rbind res (\<lambda>_. Inr vf)"
| "run_verifier M C (Multiply left right k) vf = (let (g, vf) = verifier_multiply left right vf in run_verifier M C (k g) vf)"
| "run_verifier M C (Allocate assigned k) vf = (let (var, vf) = verifier_allocate vf in run_verifier M C (k var) vf)"
| "run_verifier M C (AllocateMultiplier assigned k) vf =
     (let (g, vf) = verifier_allocate_multiplier vf in run_verifier M C (k g) vf)"
| "run_verifier M C (QueryMetrics k) vf = run_verifier M C (k (verifier_metrics vf)) vf"
| "run_verifier M C (Constrain lc k) vf = run_verifier M C k (verifier_constrain lc vf)"
| "run_verifier M C (BindTranscript label message k) vf =
     run_verifier M C k (vf\<lparr>ve_transcript := append_message M label message (ve_transcript vf)\<rparr>)"
| "run_verifier M C (ChallengeScalar label k) vf =
     (let (c, t) = challenge_scalar M C label (ve_transcript vf) in run_verifier M C (k c) (vf\<lparr>ve_transcript := t\<rparr>))"

definition verifier_create_randomized_constraints ::
  "('t, 'y) merlin_scheme \<Rightarrow> ('s::field, 'p, 'a, 'c, 'z) cycle_scheme \<Rightarrow> ('s, 'c, 't) verifier
    \<Rightarrow> r1cs_error + ('s, 'c, 't) verifier" where
  "verifier_create_randomized_constraints M C vf =
     (let vf = vf\<lparr>ve_pending := None\<rparr>
      in if ve_deferred vf = [] then Inr (vf\<lparr>ve_transcript := r1cs_1phase_domain_sep M (ve_transcript vf)\<rparr>)
         else let vf = vf\<lparr>ve_transcript := r1cs_2phase_domain_sep M (ve_transcript vf)\<rparr>;
                  callbacks = ve_deferred vf;
                  vf = vf\<lparr>ve_deferred := []\<rparr>
              in rfold (\<lambda>vf callback. run_verifier M C callback vf) vf callbacks)"

definition verifier_flatten_term :: "'s::field \<Rightarrow> variable_kind \<times> 's \<Rightarrow> 's weights \<Rightarrow> 's weights" where
  "verifier_flatten_term exp_z = (\<lambda>(var, coeff) (wL, wR, wO, wV, wc).
     let weighted = scaled_by_coefficient exp_z coeff
     in case var of
          MultiplierLeft i \<Rightarrow> (add_at i weighted wL, wR, wO, wV, wc)
        | MultiplierRight i \<Rightarrow> (wL, add_at i weighted wR, wO, wV, wc)
        | MultiplierOutput i \<Rightarrow> (wL, wR, add_at i weighted wO, wV, wc)
        | Committed i \<Rightarrow> (wL, wR, wO, add_at i (- weighted) wV, wc)
        | ConstantOne \<Rightarrow> (wL, wR, wO, wV, wc - weighted))"

definition verifier_flattened_constraints :: "('s::field, 'c, 't) verifier \<Rightarrow> 's \<Rightarrow> 's weights" where
  "verifier_flattened_constraints vf z =
     (let n = ve_num_vars vf; m = length (ve_V vf)
      in fst (fold (\<lambda>lc (w, exp_z). (fold (verifier_flatten_term exp_z) lc w, exp_z * z)) (ve_constraints vf)
           ((replicate n 0, replicate n 0, replicate n 0, replicate m 0, 0), z)))"

section \<open>Verification equations\<close>

record ('s, 'p, 'a) verification_equation =
  eq_pedersen_scalars :: "'s \<times> 's"
  eq_pedersen_points :: "'p \<times> 'p"
  eq_g_scalars :: "'s list"
  eq_g_points :: "'a list"
  eq_h_scalars :: "'s list"
  eq_h_points :: "'a list"
  eq_proof_scalars :: "'s list"
  eq_proof_points :: "'p option list"

definition check_equation ::
  "('s, 'p::ab_group_add, 'a, 'c, 'z) cycle_scheme \<Rightarrow> ('s, 'p, 'a) verification_equation \<Rightarrow> r1cs_error + unit" where
  "check_equation C eq =
     (let g_len = length (eq_g_scalars eq); h_len = length (eq_h_scalars eq)
      in if length (eq_g_points eq) < g_len \<or> length (eq_h_points eq) < h_len
            \<or> length (eq_proof_scalars eq) \<noteq> length (eq_proof_points eq)
         then Inl R1CSVerificationError
         else
         let scalars = [fst (eq_pedersen_scalars eq), snd (eq_pedersen_scalars eq)] @ eq_proof_scalars eq
         in rbind (ok_or (those ([Some (fst (eq_pedersen_points eq)), Some (snd (eq_pedersen_points eq))] @ eq_proof_points eq))
                     R1CSVerificationError) (\<lambda>points.
            let check = vartime_msm_mixed C
                  [(eq_g_scalars eq, take g_len (eq_g_points eq)), (eq_h_scalars eq, take h_len (eq_h_points eq))] scalars points
            in if \<not> is_identity check then Inl R1CSVerificationError else Inr ()))"

definition accumulate_generator_prefix ::
  "'s::field list \<times> 'a list \<Rightarrow> 's list \<Rightarrow> 'a list \<Rightarrow> 's \<Rightarrow> r1cs_error + ('s list \<times> 'a list)" where
  "accumulate_generator_prefix = (\<lambda>(accumulator_scalars, accumulator_points) scalars points coefficient.
     if length points < length scalars then Inl R1CSVerificationError
     else
     let shared_len = min (length accumulator_points) (length scalars)
     in if take shared_len accumulator_points \<noteq> take shared_len points then Inl R1CSVerificationError
        else
        let accumulator_points = (if length accumulator_points < length scalars then points else accumulator_points);
            accumulator_scalars =
              (if length accumulator_scalars < length scalars
               then resize (length scalars) 0 accumulator_scalars else accumulator_scalars);
            accumulator_scalars = map (\<lambda>(i, accumulator). if i < length scalars
              then accumulator + coefficient * scalars ! i else accumulator) (enumerate 0 accumulator_scalars)
        in Inr (accumulator_scalars, accumulator_points))"

text \<open>Drawing until nonzero; \<open>None\<close> stands for not returning.\<close>

partial_function (option) batch_coefficient :: "('g \<Rightarrow> 's::field \<times> 'g) \<Rightarrow> 'g \<Rightarrow> ('s \<times> 'g) option" where
  "batch_coefficient random rng =
     (let (candidate, rng) = random rng
      in if candidate \<noteq> 0 then Some (candidate, rng) else batch_coefficient random rng)"

text \<open>The accumulators of a batch: Pedersen scalars, \<open>G\<close>, \<open>H\<close>, and the points of the proofs.\<close>

record ('s, 'p, 'a) batch_state =
  ba_pedersen :: "'s \<times> 's"
  ba_g :: "'s list \<times> 'a list"
  ba_h :: "'s list \<times> 'a list"
  ba_scalars :: "'s list"
  ba_points :: "'p option list"

definition batch_step ::
  "'p \<times> 'p \<Rightarrow> ('s::field, 'p, 'a) verification_equation \<Rightarrow> 's \<Rightarrow> ('s, 'p, 'a) batch_state
    \<Rightarrow> r1cs_error + ('s, 'p, 'a) batch_state" where
  "batch_step pedersen_points equation coefficient st =
     rbind (accumulate_generator_prefix (ba_g st) (eq_g_scalars equation) (eq_g_points equation) coefficient) (\<lambda>g.
     rbind (accumulate_generator_prefix (ba_h st) (eq_h_scalars equation) (eq_h_points equation) coefficient) (\<lambda>h.
     Inr \<lparr>ba_pedersen = (fst (ba_pedersen st) + coefficient * fst (eq_pedersen_scalars equation),
                         snd (ba_pedersen st) + coefficient * snd (eq_pedersen_scalars equation)),
          ba_g = g, ba_h = h,
          ba_scalars = ba_scalars st @ map ((*) coefficient) (eq_proof_scalars equation),
          ba_points = ba_points st @ eq_proof_points equation\<rparr>))"

text \<open>The loop over the equations, each prepared when it is reached.\<close>

primrec batch_loop ::
  "('g \<Rightarrow> 's::field \<times> 'g) \<Rightarrow> 'p \<times> 'p \<Rightarrow> (r1cs_error + ('s, 'p, 'a) verification_equation) list
    \<Rightarrow> ('s, 'p, 'a) batch_state \<Rightarrow> 'g \<Rightarrow> ((r1cs_error + ('s, 'p, 'a) batch_state) \<times> 'g) option" where
  "batch_loop random pedersen_points [] st rng = Some (Inr st, rng)"
| "batch_loop random pedersen_points (prepared # rest) st rng =
     (case prepared of
        Inl e \<Rightarrow> Some (Inl e, rng)
      | Inr equation \<Rightarrow>
          if eq_pedersen_points equation \<noteq> pedersen_points
             \<or> length (eq_g_points equation) < length (eq_g_scalars equation)
             \<or> length (eq_h_points equation) < length (eq_h_scalars equation)
             \<or> length (eq_proof_scalars equation) \<noteq> length (eq_proof_points equation)
          then Some (Inl R1CSVerificationError, rng)
          else Option.bind (batch_coefficient random rng) (\<lambda>(coefficient, rng).
               case batch_step pedersen_points equation coefficient st of
                 Inl e \<Rightarrow> Some (Inl e, rng)
               | Inr st \<Rightarrow> batch_loop random pedersen_points rest st rng))"

definition batch_check ::
  "('s, 'p::ab_group_add, 'a, 'c, 'z) cycle_scheme \<Rightarrow> 'p \<times> 'p \<Rightarrow> ('s, 'p, 'a) batch_state \<Rightarrow> r1cs_error + unit" where
  "batch_check C pedersen_points st =
     (let (g_scalars, g_points) = ba_g st; (h_scalars, h_points) = ba_h st;
          scalars = [fst (ba_pedersen st), snd (ba_pedersen st)] @ ba_scalars st
      in rbind (ok_or (those ([Some (fst pedersen_points), Some (snd pedersen_points)] @ ba_points st)) R1CSVerificationError)
           (\<lambda>points.
         let check = vartime_msm_mixed C
               [(g_scalars, take (length g_scalars) g_points), (h_scalars, take (length h_scalars) h_points)] scalars points
         in if \<not> is_identity check then Inl R1CSVerificationError else Inr ()))"

definition verify_batch_iter ::
  "('s::field, 'p::ab_group_add, 'a, 'c, 'z) cycle_scheme \<Rightarrow> ('g \<Rightarrow> 's \<times> 'g)
    \<Rightarrow> (r1cs_error + ('s, 'p, 'a) verification_equation) list \<Rightarrow> 'g \<Rightarrow> ((r1cs_error + unit) \<times> 'g) option" where
  "verify_batch_iter C random equations rng =
     (case equations of
        [] \<Rightarrow> Some (Inl R1CSVerificationError, rng)
      | Inl e # _ \<Rightarrow> Some (Inl e, rng)
      | Inr first # rest \<Rightarrow>
          Option.bind (batch_loop random (eq_pedersen_points first) (Inr first # rest)
             \<lparr>ba_pedersen = (0, 0), ba_g = ([], eq_g_points first), ba_h = ([], eq_h_points first), ba_scalars = [],
              ba_points = []\<rparr> rng) (\<lambda>(res, rng).
          Some (rbind res (batch_check C (eq_pedersen_points first)), rng)))"

definition r1cs_verify_batch ::
  "('s::field, 'p::ab_group_add, 'a, 'c, 'z) cycle_scheme \<Rightarrow> ('g \<Rightarrow> 's \<times> 'g)
    \<Rightarrow> ('s, 'p, 'a) verification_equation list \<Rightarrow> 'g \<Rightarrow> ((r1cs_error + unit) \<times> 'g) option" where
  "r1cs_verify_batch C random equations rng = verify_batch_iter C random (map Inr equations) rng"

section \<open>Preparing the equation of a proof\<close>

definition equation_scalars ::
  "'s::field \<Rightarrow> 's \<Rightarrow> 's \<Rightarrow> 's \<Rightarrow> nat \<Rightarrow> 's list \<Rightarrow> 's list \<Rightarrow> 's list \<Rightarrow> 's list \<Rightarrow> 's list \<Rightarrow> 's list \<times> 's list" where
  "equation_scalars u x a b n1 yneg_wR y_inv_vec wL wO s =
     (map (\<lambda>(i, yneg_wRi, s_i). let u_or_1 = (if i < n1 then 1 else u) in u_or_1 * (x * yneg_wRi - a * s_i))
        (enumerate 0 (zip yneg_wR s)),
      map (\<lambda>(i, y_inv_i, s_i_inv).
        let u_or_1 = (if i < n1 then 1 else u);
            wLi = (if i < length wL then wL ! i else 0);
            wOi = (if i < length wO then wO ! i else 0)
        in u_or_1 * (y_inv_i * (x * wLi + wOi - b * s_i_inv) - 1)) (enumerate 0 (zip y_inv_vec (rev s))))"

text \<open>
  The challenges of a proof: the verifier replays the prover's transcript, with the deferred circuits between
  the commitments of the two phases.
\<close>

record 's challenges =
  ch_y :: 's
  ch_z :: 's
  ch_u :: 's
  ch_x :: 's
  ch_w :: 's

definition verifier_replay ::
  "('t, 'y) merlin_u64_scheme \<Rightarrow> ('s::field, 'p, 'a, 'c, 'z) cycle_scheme \<Rightarrow> 'a bulletproof_gens
    \<Rightarrow> ('s, 'c) r1cs_proof \<Rightarrow> ('s, 'c, 't) verifier \<Rightarrow> r1cs_error + ('s challenges \<times> ('s, 'c, 't) verifier)" where
  "verifier_replay M C bp_gens pf vf =
     (let t = append_u64 M (ascii ''m'') (length (ve_V vf)) (ve_transcript vf);
          validate = (\<lambda>label point t. map_err r1cs_error_from (validate_and_append_point M C (ascii label) point t))
      in rbind (validate ''A_I1'' (rp_A_I1 pf) t) (\<lambda>t.
         rbind (validate ''A_O1'' (rp_A_O1 pf) t) (\<lambda>t.
         rbind (validate ''S1'' (rp_S1 pf) t) (\<lambda>t.
         rbind (verifier_create_randomized_constraints M C (vf\<lparr>ve_transcript := t\<rparr>)) (\<lambda>vf.
         if gens_capacity bp_gens < next_power_of_two (ve_num_vars vf) then Inl R1CSInvalidGeneratorsLength
         else
         let t = ve_transcript vf;
             t = append_point M C (ascii ''A_I2'') (rp_A_I2 pf) t;
             t = append_point M C (ascii ''A_O2'') (rp_A_O2 pf) t;
             t = append_point M C (ascii ''S2'') (rp_S2 pf) t;
             (y, t) = challenge_scalar M C (ascii ''y'') t;
             (z, t) = challenge_scalar M C (ascii ''z'') t
         in rbind (validate ''T_1'' (rp_T_1 pf) t) (\<lambda>t.
            rbind (validate ''T_3'' (rp_T_3 pf) t) (\<lambda>t.
            rbind (validate ''T_4'' (rp_T_4 pf) t) (\<lambda>t.
            rbind (validate ''T_5'' (rp_T_5 pf) t) (\<lambda>t.
            rbind (validate ''T_6'' (rp_T_6 pf) t) (\<lambda>t.
            let (u, t) = challenge_scalar M C (ascii ''u'') t;
                (x, t) = challenge_scalar M C (ascii ''x'') t;
                t = append_scalar M C (ascii ''t_x'') (rp_t_x pf) t;
                t = append_scalar M C (ascii ''t_x_blinding'') (rp_t_x_blinding pf) t;
                t = append_scalar M C (ascii ''e_blinding'') (rp_e_blinding pf) t;
                (w, t) = challenge_scalar M C (ascii ''w'') t
            in Inr (\<lparr>ch_y = y, ch_z = z, ch_u = u, ch_x = x, ch_w = w\<rparr>, vf\<lparr>ve_transcript := t\<rparr>)))))))))))"

definition verification_equation_and_return_transcript ::
  "('t, 'y) merlin_u64_scheme \<Rightarrow> ('s::field, 'p::ab_group_add, 'a, 'c, 'z) cycle_scheme
    \<Rightarrow> ('s, 't, 'b, 'g, 'h, 'w) transcript_rng_scheme \<Rightarrow> 'p pedersen_gens \<Rightarrow> 'a bulletproof_gens \<Rightarrow> 'g
    \<Rightarrow> ('s, 'c) r1cs_proof \<Rightarrow> ('s, 'c, 't) verifier \<Rightarrow> r1cs_error + (('s, 'p, 'a) verification_equation \<times> 't \<times> 'g)" where
  "verification_equation_and_return_transcript M C R pc bp_gens g pf vf =
     (let n1 = ve_num_vars vf
      in rbind (verifier_replay M C bp_gens pf vf) (\<lambda>(ch, vf).
         let y = ch_y ch; z = ch_z ch; u = ch_u ch; x = ch_x ch; w = ch_w ch;
             n = ve_num_vars vf; padded_n = next_power_of_two n; pad = padded_n - n;
             (wL, wR, wO, wV, wc) = verifier_flattened_constraints vf z
         in rbind (map_err (\<lambda>_. R1CSVerificationError)
                     (ipp_verification_scalars M C (rp_ipp_proof pf) padded_n (ve_transcript vf)))
              (\<lambda>((u_sq, u_inv_sq, s), t).
            let a = ipp_a (rp_ipp_proof pf); b = ipp_b (rp_ipp_proof pf);
                y_inv = scalar_invert C y;
                y_inv_vec = exp_iter padded_n y_inv;
                yneg_wR = map (\<lambda>(wRi, ey). wRi * ey) (zip wR y_inv_vec) @ replicate pad 0;
                delta = inner_product (take n yneg_wR) wL;
                (g_scalars, h_scalars) = equation_scalars u x a b n1 yneg_wR y_inv_vec wL wO s;
                builder = build_rng R t;
                (rng, g) = finalize_rng R builder g;
                (r, rng) = scalar_random R rng;
                xx = x * x; rxx = r * xx; xxx = x * xx;
                T_scalars = [r * x, rxx * x, rxx * xx, rxx * xxx, rxx * xx * xx];
                T_points = [rp_T_1 pf, rp_T_3 pf, rp_T_4 pf, rp_T_5 pf, rp_T_6 pf];
                proof_scalars = [x, xx, xxx, u * x, u * xx, u * xxx] @ map (\<lambda>wVi. wVi * rxx) wV @ T_scalars
                  @ u_sq @ u_inv_sq;
                proof_points = map (compressed_decompress C)
                  ([rp_A_I1 pf, rp_A_O1 pf, rp_S1 pf, rp_A_I2 pf, rp_A_O2 pf, rp_S2 pf] @ ve_V vf @ T_points
                    @ ipp_L_vec (rp_ipp_proof pf) @ ipp_R_vec (rp_ipp_proof pf))
            in Inr (\<lparr>eq_pedersen_scalars = (w * (rp_t_x pf - a * b) + r * (xx * (wc + delta) - rp_t_x pf),
                                           - rp_e_blinding pf - r * rp_t_x_blinding pf),
                     eq_pedersen_points = (ped_B pc, ped_B_blinding pc),
                     eq_g_scalars = g_scalars, eq_g_points = shared_G bp_gens 0,
                     eq_h_scalars = h_scalars, eq_h_points = shared_H bp_gens 0,
                     eq_proof_scalars = proof_scalars, eq_proof_points = proof_points\<rparr>, t, g))))"

definition prepare_verification_equation ::
  "('t, 'y) merlin_u64_scheme \<Rightarrow> ('s::field, 'p::ab_group_add, 'a, 'c, 'z) cycle_scheme
    \<Rightarrow> ('s, 't, 'b, 'g, 'h, 'w) transcript_rng_scheme \<Rightarrow> 'p pedersen_gens \<Rightarrow> 'a bulletproof_gens \<Rightarrow> 'g
    \<Rightarrow> ('s, 'c) r1cs_proof \<Rightarrow> ('s, 'c, 't) verifier \<Rightarrow> r1cs_error + ('s, 'p, 'a) verification_equation" where
  "prepare_verification_equation M C R pc bp_gens g pf vf =
     rbind (verification_equation_and_return_transcript M C R pc bp_gens g pf vf) (\<lambda>(eq, _). Inr eq)"

definition verify_and_return_transcript ::
  "('t, 'y) merlin_u64_scheme \<Rightarrow> ('s::field, 'p::ab_group_add, 'a, 'c, 'z) cycle_scheme
    \<Rightarrow> ('s, 't, 'b, 'g, 'h, 'w) transcript_rng_scheme \<Rightarrow> 'p pedersen_gens \<Rightarrow> 'a bulletproof_gens \<Rightarrow> 'g
    \<Rightarrow> ('s, 'c) r1cs_proof \<Rightarrow> ('s, 'c, 't) verifier \<Rightarrow> r1cs_error + 't" where
  "verify_and_return_transcript M C R pc bp_gens g pf vf =
     rbind (verification_equation_and_return_transcript M C R pc bp_gens g pf vf) (\<lambda>(eq, t, _).
     rbind (check_equation C eq) (\<lambda>_. Inr t))"

definition r1cs_verify ::
  "('t, 'y) merlin_u64_scheme \<Rightarrow> ('s::field, 'p::ab_group_add, 'a, 'c, 'z) cycle_scheme
    \<Rightarrow> ('s, 't, 'b, 'g, 'h, 'w) transcript_rng_scheme \<Rightarrow> 'p pedersen_gens \<Rightarrow> 'a bulletproof_gens \<Rightarrow> 'g
    \<Rightarrow> ('s, 'c) r1cs_proof \<Rightarrow> ('s, 'c, 't) verifier \<Rightarrow> r1cs_error + unit" where
  "r1cs_verify M C R pc bp_gens g pf vf = rbind (verify_and_return_transcript M C R pc bp_gens g pf vf) (\<lambda>_. Inr ())"

end
