(* ===== verification/R1cs_Circuits.thy ===== *)
theory R1cs_Circuits
  imports R1cs_Verifier
begin

text \<open>
  A circuit does the same on the prover and the verifier: same variables, same constraints, same transcript;
  and the prover's assignment satisfies every multiplication gate. The weights of a circuit add up to
  the weighted values of its constraints.
\<close>

section \<open>The prover's assignment\<close>

definition gates_ok :: "'s::field secrets \<Rightarrow> bool" where
  "gates_ok s \<longleftrightarrow> length (secret_a_R s) = length (secret_a_L s) \<and> length (secret_a_O s) = length (secret_a_L s)
     \<and> (\<forall>i < length (secret_a_L s). secret_a_O s ! i = secret_a_L s ! i * secret_a_R s ! i)
     \<and> length (secret_v_blinding s) = length (secret_v s)"

definition prover_ok :: "('s::field, 'p, 't) prover \<Rightarrow> bool" where
  "prover_ok p \<longleftrightarrow> gates_ok (pr_secrets p) \<and> (\<forall>i. pr_pending p = Some i \<longrightarrow> i < length (secret_a_L (pr_secrets p)))"

text \<open>Prover and verifier of one circuit.\<close>

definition cs_agree ::
  "('s, 'p, 'a, 'c, 'z) cycle_scheme \<Rightarrow> ('s, 'p, 't) prover \<Rightarrow> ('s, 'c, 't) verifier \<Rightarrow> bool" where
  "cs_agree C p vf \<longleftrightarrow> ve_transcript vf = pr_transcript p \<and> ve_constraints vf = pr_constraints p
     \<and> ve_num_vars vf = length (secret_a_L (pr_secrets p)) \<and> ve_deferred vf = pr_deferred p
     \<and> ve_pending vf = pr_pending p
     \<and> ve_V vf = map (\<lambda>(v, b). point_compress C (pedersen_commit C (pr_pc_gens p) v b))
         (zip (secret_v (pr_secrets p)) (secret_v_blinding (pr_secrets p)))"

text \<open>The first gates keep their assignment, and the committed values do not change.\<close>

definition gates_from :: "nat \<Rightarrow> ('s, 'p, 't) prover \<Rightarrow> bool" where
  "gates_from k p \<longleftrightarrow> k \<le> length (secret_a_L (pr_secrets p)) \<and> (\<forall>i. pr_pending p = Some i \<longrightarrow> k \<le> i)"

definition first_gates :: "nat \<Rightarrow> ('s, 'p, 't) prover \<Rightarrow> 's list \<times> 's list \<times> 's list" where
  "first_gates k p = (take k (secret_a_L (pr_secrets p)), take k (secret_a_R (pr_secrets p)), take k (secret_a_O (pr_secrets p)))"

definition keeps :: "nat \<Rightarrow> ('s, 'p, 't) prover \<Rightarrow> ('s, 'p, 't) prover \<Rightarrow> bool" where
  "keeps k p p' \<longleftrightarrow> (gates_from k p \<longrightarrow> gates_from k p' \<and> first_gates k p' = first_gates k p)"

lemmas keeps_defs = keeps_def gates_from_def first_gates_def

definition same_values :: "('s, 'p, 't) prover \<Rightarrow> ('s, 'p, 't) prover \<Rightarrow> bool" where
  "same_values p p' \<longleftrightarrow> secret_v (pr_secrets p') = secret_v (pr_secrets p)
     \<and> secret_v_blinding (pr_secrets p') = secret_v_blinding (pr_secrets p) \<and> pr_pc_gens p' = pr_pc_gens p"

lemma keeps_refl: "keeps k p p"
  by (simp add: keeps_def)

lemma keeps_trans: "keeps k p q \<Longrightarrow> keeps k q r \<Longrightarrow> keeps k p r"
  by (simp add: keeps_def)

lemma same_values_refl: "same_values p p"
  and same_values_trans: "same_values p q \<Longrightarrow> same_values q r \<Longrightarrow> same_values p r"
  by (simp_all add: same_values_def)

text \<open>One relation for a call: what it establishes from an agreeing pair.\<close>

definition good_call ::
  "('s::field, 'p, 'a, 'c, 'z) cycle_scheme \<Rightarrow> ('s, 'p, 't) prover \<Rightarrow> ('s, 'p, 't) prover \<Rightarrow> ('s, 'c, 't) verifier \<Rightarrow> bool" where
  "good_call C p p' vf' \<longleftrightarrow> cs_agree C p' vf' \<and> prover_ok p' \<and> same_values p p' \<and> (\<forall>k. prover_ok p \<longrightarrow> keeps k p p')"

lemma push_multiplier_ok:
  assumes "cs_agree C p vf" "prover_ok p" "out = l * r"
  shows "good_call C p (push_multiplier l r out p) (vf\<lparr>ve_num_vars := ve_num_vars vf + 1\<rparr>)"
  using assms
  by (auto simp: good_call_def cs_agree_def prover_ok_def gates_ok_def push_multiplier_def keeps_defs same_values_def
      Let_def nth_append less_Suc_eq)

lemma good_call_trans:
  assumes "good_call C p q vf" "good_call C q r vf'"
  shows "good_call C p r vf'"
  using assms unfolding good_call_def by (blast intro: keeps_trans same_values_trans)

lemma good_call_refl: "cs_agree C p vf \<Longrightarrow> prover_ok p \<Longrightarrow> good_call C p p vf"
  by (simp add: good_call_def keeps_refl same_values_refl)

lemma constrain_ok:
  "cs_agree C p vf \<Longrightarrow> prover_ok p \<Longrightarrow> good_call C p (prover_constrain lc p) (verifier_constrain lc vf)"
  by (simp add: good_call_def cs_agree_def prover_ok_def prover_constrain_def verifier_constrain_def keeps_defs same_values_def)

lemma good_callD: "good_call C p p' vf' \<Longrightarrow> cs_agree C p' vf' \<and> prover_ok p'"
  by (simp add: good_call_def)

lemma next_gate_agree:
  "cs_agree C p vf \<Longrightarrow> prover_ok p \<Longrightarrow> next_gate (pr_secrets p)
    = (MultiplierLeft (ve_num_vars vf), MultiplierRight (ve_num_vars vf), MultiplierOutput (ve_num_vars vf))"
  by (simp add: next_gate_def cs_agree_def prover_ok_def gates_ok_def)

lemma multiply_ok:
  assumes "cs_agree C p vf" "prover_ok p" "prover_multiply left right p = (g, p')"
  shows "\<exists>vf'. verifier_multiply left right vf = (g, vf') \<and> good_call C p p' vf'"
proof -
  let ?l = "prover_eval p left" and ?r = "prover_eval p right"
  let ?p1 = "push_multiplier ?l ?r (?l * ?r) p" and ?v1 = "vf\<lparr>ve_num_vars := ve_num_vars vf + 1\<rparr>"
  let ?lc1 = "left @ [(MultiplierLeft (ve_num_vars vf), - 1)]" and ?lc2 = "right @ [(MultiplierRight (ve_num_vars vf), - 1)]"
  have 1: "good_call C p ?p1 ?v1" by (rule push_multiplier_ok[OF assms(1,2) refl])
  have 2: "good_call C ?p1 (prover_constrain ?lc1 ?p1) (verifier_constrain ?lc1 ?v1)"
    using good_callD[OF 1] by (simp add: constrain_ok)
  have 3: "good_call C (prover_constrain ?lc1 ?p1) (prover_constrain ?lc2 (prover_constrain ?lc1 ?p1))
      (verifier_constrain ?lc2 (verifier_constrain ?lc1 ?v1))"
    using good_callD[OF 2] by (simp add: constrain_ok)
  have "good_call C p p' (verifier_constrain ?lc2 (verifier_constrain ?lc1 ?v1))"
    using good_call_trans[OF good_call_trans[OF 1 2] 3] assms(3) next_gate_agree[OF assms(1,2)]
    by (simp add: prover_multiply_def Let_def)
  then show ?thesis
    using assms(3) next_gate_agree[OF assms(1,2)]
    by (auto simp: prover_multiply_def verifier_multiply_def Let_def)
qed

lemma allocate_ok:
  assumes "cs_agree C p vf" "prover_ok p" "prover_allocate assigned p = Inr (var, p')"
  shows "\<exists>vf'. verifier_allocate vf = (var, vf') \<and> good_call C p p' vf'"
proof -
  obtain scalar where a: "assigned = Some scalar" using assms(3) by (auto simp: prover_allocate_def split: option.splits)
  have v: "ve_pending vf = pr_pending p" "ve_num_vars vf = length (secret_a_L (pr_secrets p))"
    using assms(1) by (simp_all add: cs_agree_def)
  show ?thesis
  proof (cases "pr_pending p")
    case None
    then show ?thesis
      using assms a v push_multiplier_ok[OF assms(1,2), of 0 scalar 0]
      by (auto simp: prover_allocate_def verifier_allocate_def Let_def good_call_def cs_agree_def prover_ok_def gates_ok_def
          push_multiplier_def keeps_defs same_values_def nth_append less_Suc_eq)
  next
    case (Some i)
    then have "i < length (secret_a_L (pr_secrets p))" using assms(2) by (simp add: prover_ok_def)
    with Some show ?thesis
      using assms a v
      by (auto simp: prover_allocate_def verifier_allocate_def Let_def good_call_def cs_agree_def prover_ok_def gates_ok_def
          keeps_defs same_values_def nth_list_update)
  qed
qed

lemma allocate_multiplier_ok:
  assumes "cs_agree C p vf" "prover_ok p" "prover_allocate_multiplier assigned p = Inr (g, p')"
  shows "\<exists>vf'. verifier_allocate_multiplier vf = (g, vf') \<and> good_call C p p' vf'"
  using assms push_multiplier_ok[OF assms(1,2) refl] next_gate_agree[OF assms(1,2)]
  by (auto simp: prover_allocate_multiplier_def verifier_allocate_multiplier_def Let_def split: option.splits)

lemma metrics_agree: "cs_agree C p vf \<Longrightarrow> prover_metrics p = verifier_metrics vf"
  by (simp add: cs_agree_def prover_metrics_def verifier_metrics_def)

text \<open>A circuit that succeeds on the prover does the same on the verifier.\<close>

lemma run_agree:
  assumes "cs_agree C p vf" "prover_ok p" "run_prover M C gadget p = Inr p'"
  shows "\<exists>vf'. run_verifier M C gadget vf = Inr vf' \<and> good_call C p p' vf'"
  using assms
proof (induction gadget arbitrary: p vf)
  case (Finish res)
  then show ?case by (auto simp: good_call_refl)
next
  case (Multiply left right k)
  obtain g p1 where m: "prover_multiply left right p = (g, p1)" by fastforce
  obtain vf1 where v: "verifier_multiply left right vf = (g, vf1)" "good_call C p p1 vf1"
    using multiply_ok[OF Multiply.prems(1,2) m] by blast
  have "run_prover M C (k g) p1 = Inr p'" using Multiply.prems(3) m by simp
  with Multiply.IH[OF rangeI _ _ this, of vf1] good_callD[OF v(2)] obtain vf' where
    "run_verifier M C (k g) vf1 = Inr vf'" "good_call C p1 p' vf'" by blast
  with v show ?case using good_call_trans[OF v(2)] by auto
next
  case (Allocate assigned k)
  obtain var p1 where m: "prover_allocate assigned p = Inr (var, p1)" "run_prover M C (k var) p1 = Inr p'"
    using Allocate.prems(3) by auto
  obtain vf1 where v: "verifier_allocate vf = (var, vf1)" "good_call C p p1 vf1"
    using allocate_ok[OF Allocate.prems(1,2) m(1)] by blast
  with Allocate.IH[OF rangeI _ _ m(2), of vf1] good_callD[OF v(2)] obtain vf' where
    "run_verifier M C (k var) vf1 = Inr vf'" "good_call C p1 p' vf'" by blast
  with v show ?case using good_call_trans[OF v(2)] by auto
next
  case (AllocateMultiplier assigned k)
  obtain g p1 where m: "prover_allocate_multiplier assigned p = Inr (g, p1)" "run_prover M C (k g) p1 = Inr p'"
    using AllocateMultiplier.prems(3) by auto
  obtain vf1 where v: "verifier_allocate_multiplier vf = (g, vf1)" "good_call C p p1 vf1"
    using allocate_multiplier_ok[OF AllocateMultiplier.prems(1,2) m(1)] by blast
  with AllocateMultiplier.IH[OF rangeI _ _ m(2), of vf1] good_callD[OF v(2)] obtain vf' where
    "run_verifier M C (k g) vf1 = Inr vf'" "good_call C p1 p' vf'" by blast
  with v show ?case using good_call_trans[OF v(2)] by auto
next
  case (QueryMetrics k)
  then show ?case by (simp add: metrics_agree)
next
  case (Constrain lc k)
  have c: "good_call C p (prover_constrain lc p) (verifier_constrain lc vf)"
    using Constrain.prems(1,2) by (rule constrain_ok)
  with Constrain.IH[of "prover_constrain lc p" "verifier_constrain lc vf"] Constrain.prems(3) good_callD[OF c]
  show ?case using good_call_trans[OF c] by auto
next
  case (BindTranscript label message k)
  let ?p = "p\<lparr>pr_transcript := append_message M label message (pr_transcript p)\<rparr>"
  let ?v = "vf\<lparr>ve_transcript := append_message M label message (ve_transcript vf)\<rparr>"
  have c: "good_call C p ?p ?v"
    using BindTranscript.prems(1,2) by (simp add: good_call_def cs_agree_def prover_ok_def keeps_defs same_values_def)
  with BindTranscript.IH[of ?p ?v] BindTranscript.prems(3) good_callD[OF c]
  show ?case using good_call_trans[OF c] by auto
next
  case (ChallengeScalar label k)
  obtain ch t where t: "challenge_scalar M C label (pr_transcript p) = (ch, t)" by fastforce
  let ?p = "p\<lparr>pr_transcript := t\<rparr>" and ?v = "vf\<lparr>ve_transcript := t\<rparr>"
  have c: "good_call C p ?p ?v"
    using ChallengeScalar.prems(1,2) by (simp add: good_call_def cs_agree_def prover_ok_def keeps_defs same_values_def)
  have "ve_transcript vf = pr_transcript p" using ChallengeScalar.prems(1) by (simp add: cs_agree_def)
  with ChallengeScalar.IH[OF rangeI, of ?p ?v ch] ChallengeScalar.prems(3) good_callD[OF c] t
  show ?case using good_call_trans[OF c] by auto
qed

lemma deferred_agree:
  assumes "cs_agree C p vf" "prover_ok p" "rfold (\<lambda>p callback. run_prover M C callback p) p callbacks = Inr p'"
  shows "\<exists>vf'. rfold (\<lambda>vf callback. run_verifier M C callback vf) vf callbacks = Inr vf' \<and> good_call C p p' vf'"
  using assms
proof (induction callbacks arbitrary: p vf)
  case Nil
  then show ?case by (simp add: good_call_refl)
next
  case (Cons callback callbacks)
  obtain p1 where p1: "run_prover M C callback p = Inr p1"
      "rfold (\<lambda>p callback. run_prover M C callback p) p1 callbacks = Inr p'"
    using Cons.prems(3) by auto
  obtain vf1 where v: "run_verifier M C callback vf = Inr vf1" "good_call C p p1 vf1"
    using run_agree[OF Cons.prems(1,2) p1(1)] by blast
  with Cons.IH[OF _ _ p1(2), of vf1] good_callD[OF v(2)] obtain vf' where
    "rfold (\<lambda>vf callback. run_verifier M C callback vf) vf1 callbacks = Inr vf'" "good_call C p1 p' vf'" by blast
  with v show ?case using good_call_trans[OF v(2)] by auto
qed

lemma create_randomized_agree:
  assumes "cs_agree C p vf" "prover_ok p" "prover_create_randomized_constraints M C p = Inr p'"
  shows "\<exists>vf'. verifier_create_randomized_constraints M C vf = Inr vf' \<and> good_call C (p\<lparr>pr_pending := None\<rparr>) p' vf'"
proof (cases "pr_deferred p = []")
  case True
  with assms show ?thesis
    by (auto simp: prover_create_randomized_constraints_def verifier_create_randomized_constraints_def Let_def good_call_def
        cs_agree_def prover_ok_def keeps_defs same_values_def)
next
  case False
  let ?p = "p\<lparr>pr_pending := None, pr_transcript := r1cs_2phase_domain_sep M (pr_transcript p), pr_deferred := []\<rparr>"
  let ?v = "vf\<lparr>ve_pending := None, ve_transcript := r1cs_2phase_domain_sep M (ve_transcript vf), ve_deferred := []\<rparr>"
  have c: "good_call C (p\<lparr>pr_pending := None\<rparr>) ?p ?v"
    using assms(1,2) by (simp add: good_call_def cs_agree_def prover_ok_def keeps_defs same_values_def)
  have d: "ve_deferred vf = pr_deferred p" using assms(1) by (simp add: cs_agree_def)
  have run: "rfold (\<lambda>p callback. run_prover M C callback p) ?p (pr_deferred p) = Inr p'"
    using assms(3) False by (simp add: prover_create_randomized_constraints_def Let_def)
  obtain vf' where "rfold (\<lambda>vf callback. run_verifier M C callback vf) ?v (pr_deferred p) = Inr vf'" "good_call C ?p p' vf'"
    using deferred_agree[OF _ _ run, of ?v] good_callD[OF c] by blast
  with False d show ?thesis
    using good_call_trans[OF c] by (auto simp: verifier_create_randomized_constraints_def Let_def)
qed

section \<open>Weights\<close>

definition weights_shape :: "nat \<Rightarrow> nat \<Rightarrow> 's weights \<Rightarrow> bool" where
  "weights_shape n m = (\<lambda>(wL, wR, wO, wV, wc). length wL = n \<and> length wR = n \<and> length wO = n \<and> length wV = m)"

lemma flatten_term_value:
  assumes "weights_shape n m w" "lc_in_range n m [(var, coeff)]"
    and "length aL = n" "length aR = n" "length aO = n" "length v = m"
  shows "weights_value aL aR aO v (verifier_flatten_term e (var, coeff) w)
      = weights_value aL aR aO v w + e * (coeff * assignment aL aR aO v var)
    \<and> weights_shape n m (verifier_flatten_term e (var, coeff) w)"
proof -
  obtain wL wR wO wV wc where w: "w = (wL, wR, wO, wV, wc)" by (cases w) auto
  have "wV \<noteq> [] \<or> m = 0" using assms(1) by (auto simp: w weights_shape_def)
  then show ?thesis
    using assms
    by (cases var) (auto simp: w verifier_flatten_term_def weights_value_def weights_shape_def assignment_def lc_in_range_def
        scaled_by_coefficient_eq inner_product_add_at algebra_simps)
qed

lemma flatten_lc_value:
  assumes "weights_shape n m w" "lc_in_range n m lc"
    and "length aL = n" "length aR = n" "length aO = n" "length v = m"
  shows "weights_value aL aR aO v (fold (verifier_flatten_term e) lc w)
      = weights_value aL aR aO v w + e * lc_value (assignment aL aR aO v) lc
    \<and> weights_shape n m (fold (verifier_flatten_term e) lc w)"
  using assms(1,2)
proof (induction lc arbitrary: w)
  case (Cons t lc)
  obtain var coeff where t: "t = (var, coeff)" by (cases t) auto
  have r: "lc_in_range n m [(var, coeff)]" "lc_in_range n m lc"
    using Cons.prems(2) by (simp_all add: lc_in_range_def t)
  show ?case
    using flatten_term_value[OF Cons.prems(1) r(1) assms(3-6), of e] Cons.IH[OF _ r(2)]
    by (simp add: t algebra_simps)
qed simp

lemma flatten_constraints_value:
  assumes "weights_shape n m w" "\<forall>lc \<in> set lcs. lc_in_range n m lc \<and> lc_value (assignment aL aR aO v) lc = 0"
    and "length aL = n" "length aR = n" "length aO = n" "length v = m"
  shows "weights_value aL aR aO v (fst (fold (\<lambda>lc (w, e). (fold (verifier_flatten_term e) lc w, e * z)) lcs (w, e)))
      = weights_value aL aR aO v w
    \<and> weights_shape n m (fst (fold (\<lambda>lc (w, e). (fold (verifier_flatten_term e) lc w, e * z)) lcs (w, e)))"
  using assms(1,2)
proof (induction lcs arbitrary: w e)
  case (Cons lc lcs)
  then show ?case
    using flatten_lc_value[OF Cons.prems(1) _ assms(3-6), of lc e] by simp
qed simp

lemma prover_flatten_term_eq:
  "prover_flatten_term e t (wL, wR, wO, wV)
    = (case verifier_flatten_term e t (wL, wR, wO, wV, wc) of (wL, wR, wO, wV, wc) \<Rightarrow> (wL, wR, wO, wV))"
  by (cases t; cases "fst t") (auto simp: prover_flatten_term_def verifier_flatten_term_def Let_def)

definition drop_constant :: "'s weights \<Rightarrow> 's list \<times> 's list \<times> 's list \<times> 's list" where
  "drop_constant = (\<lambda>(wL, wR, wO, wV, wc). (wL, wR, wO, wV))"

lemma prover_flatten_drop: "prover_flatten_term e t (drop_constant w) = drop_constant (verifier_flatten_term e t w)"
  using prover_flatten_term_eq[of e t "fst w" "fst (snd w)" "fst (snd (snd w))" "fst (snd (snd (snd w)))" "snd (snd (snd (snd w)))"]
  by (simp add: drop_constant_def case_prod_unfold)

lemma prover_flatten_lc_drop: "fold (prover_flatten_term e) lc (drop_constant w) = drop_constant (fold (verifier_flatten_term e) lc w)"
  by (induction lc arbitrary: w) (simp_all add: prover_flatten_drop)

lemma flattened_agree:
  assumes "cs_agree C p vf" "prover_ok p"
  shows "prover_flattened_constraints p z = drop_constant (verifier_flattened_constraints vf z)"
proof -
  have f: "fold (\<lambda>lc (w, e). (fold (prover_flatten_term e) lc w, e * z)) lcs (drop_constant w, e)
      = map_prod drop_constant id (fold (\<lambda>lc (w, e). (fold (verifier_flatten_term e) lc w, e * z)) lcs (w, e))" for lcs w e
    by (induction lcs arbitrary: w e) (simp_all add: prover_flatten_lc_drop)
  have len: "length (ve_V vf) = length (secret_v (pr_secrets p))" "ve_num_vars vf = length (secret_a_L (pr_secrets p))"
    "ve_constraints vf = pr_constraints p"
    using assms by (simp_all add: cs_agree_def prover_ok_def gates_ok_def)
  have start: "(replicate n 0, replicate n 0, replicate n 0, replicate m 0)
      = drop_constant (replicate n 0, replicate n 0, replicate n 0, replicate m 0, 0)" for n m
    by (simp add: drop_constant_def)
  show ?thesis
    unfolding prover_flattened_constraints_def verifier_flattened_constraints_def Let_def len start f by simp
qed

text \<open>The prover evaluates a combination under its assignment.\<close>

lemma prover_eval_value:
  "prover_eval p lc = lc_value (assignment (secret_a_L (pr_secrets p)) (secret_a_R (pr_secrets p))
     (secret_a_O (pr_secrets p)) (secret_v (pr_secrets p))) lc"
proof -
  let ?env = "assignment (secret_a_L (pr_secrets p)) (secret_a_R (pr_secrets p))
     (secret_a_O (pr_secrets p)) (secret_v (pr_secrets p))"
  have "fold (\<lambda>(var, coeff) acc. acc + coeff * ?env var) lc acc = acc + lc_value ?env lc" for acc
    by (induction lc arbitrary: acc) (auto simp: algebra_simps)
  then show ?thesis by (simp add: prover_eval_def assignment_def)
qed

text \<open>A satisfied circuit: every constraint names allocated variables and evaluates to zero.\<close>

definition satisfied :: "('s::field, 'p, 't) prover \<Rightarrow> bool" where
  "satisfied p \<longleftrightarrow> (\<forall>lc \<in> set (pr_constraints p).
     lc_in_range (length (secret_a_L (pr_secrets p))) (length (secret_v (pr_secrets p))) lc \<and> prover_eval p lc = 0)"

lemma satisfied_weights:
  assumes "cs_agree C p vf" "prover_ok p" "satisfied p"
  defines "s \<equiv> pr_secrets p"
  shows "weights_value (secret_a_L s) (secret_a_R s) (secret_a_O s) (secret_v s) (verifier_flattened_constraints vf z) = 0"
    and "weights_shape (length (secret_a_L s)) (length (secret_v s)) (verifier_flattened_constraints vf z)"
proof -
  let ?n = "length (secret_a_L s)" and ?m = "length (secret_v s)"
  let ?w = "(replicate ?n 0, replicate ?n 0, replicate ?n 0, replicate ?m 0, 0)"
  have len: "length (ve_V vf) = ?m" "ve_num_vars vf = ?n" "ve_constraints vf = pr_constraints p"
    "length (secret_a_R s) = ?n" "length (secret_a_O s) = ?n"
    using assms by (simp_all add: cs_agree_def prover_ok_def gates_ok_def)
  have "\<forall>lc \<in> set (pr_constraints p). lc_in_range ?n ?m lc
      \<and> lc_value (assignment (secret_a_L s) (secret_a_R s) (secret_a_O s) (secret_v s)) lc = 0"
    using assms(3) by (simp add: satisfied_def prover_eval_value s_def)
  from flatten_constraints_value[OF _ this refl len(4,5) refl, of ?w z z]
  show "weights_value (secret_a_L s) (secret_a_R s) (secret_a_O s) (secret_v s) (verifier_flattened_constraints vf z) = 0"
    and "weights_shape ?n ?m (verifier_flattened_constraints vf z)"
    by (simp_all add: verifier_flattened_constraints_def Let_def len weights_shape_def weights_value_def)
qed

end
