(* ===== verification/R1cs_Algebra.thy ===== *)
theory R1cs_Algebra
  imports R1cs_Prover
begin

text \<open>
  The polynomials of the R1CS prover in closed form: what the loop writes, that the inner product of the
  evaluated vectors is the evaluated product polynomial, that its second coefficient is what the
  constraints say, and the padded response vectors.
\<close>

section \<open>What the loop writes\<close>

definition l_closed :: "'s::field secrets \<Rightarrow> 's list \<Rightarrow> 's \<Rightarrow> nat \<Rightarrow> 's list \<Rightarrow> 's vec_poly3" where
  "l_closed s wR y n s_L =
     \<lparr>vp0 = [], vp1 = map (\<lambda>i. secret_a_L s ! i + inverse y ^ i * wR ! i) [0..<n],
      vp2 = map ((!) (secret_a_O s)) [0..<n], vp3 = map ((!) s_L) [0..<n]\<rparr>"

definition r_closed :: "'s::field secrets \<Rightarrow> 's list \<Rightarrow> 's list \<Rightarrow> 's \<Rightarrow> nat \<Rightarrow> 's list \<Rightarrow> 's vec_poly3" where
  "r_closed s wL wO y n s_R =
     \<lparr>vp0 = map (\<lambda>i. wO ! i - y ^ i) [0..<n], vp1 = map (\<lambda>i. y ^ i * secret_a_R s ! i + wL ! i) [0..<n],
      vp2 = [], vp3 = map (\<lambda>i. y ^ i * s_R ! i) [0..<n]\<rparr>"

text \<open>Writing entry \<open>k\<close> of a vector that is right below \<open>k\<close> and zero above.\<close>

lemma write_entry:
  assumes "k < n"
  shows "(map (\<lambda>i. if i < k then f i else 0) [0..<n])[k := f k] = map (\<lambda>i. if i < Suc k then f i else (0 :: 's::zero)) [0..<n]"
  using assms by (intro nth_equalityI) (auto simp: nth_list_update less_Suc_eq)

context cycle_laws
begin

lemma prover_polynomials_eq:
  assumes "length s_L = n" "length s_R = n" "n \<le> padded_n"
  shows "prover_polynomials C s wL wR wO y n padded_n s_L s_R = (l_closed s wR y n s_L, r_closed s wL wO y n s_R, y ^ n)"
proof -
  let ?e = "exp_iter padded_n (scalar_invert C y)"
  let ?step = "\<lambda>(i, sl, sr) (l_poly, r_poly, exp_y).
           (l_poly\<lparr>vp1 := (vp1 l_poly)[i := secret_a_L s ! i + ?e ! i * wR ! i],
                   vp2 := (vp2 l_poly)[i := secret_a_O s ! i],
                   vp3 := (vp3 l_poly)[i := sl]\<rparr>,
            r_poly\<lparr>vp0 := (vp0 r_poly)[i := wO ! i - exp_y],
                   vp1 := (vp1 r_poly)[i := exp_y * secret_a_R s ! i + wL ! i],
                   vp3 := (vp3 r_poly)[i := exp_y * sr]\<rparr>,
            exp_y * y)"
  let ?l = "\<lparr>vp0 = [], vp1 = replicate n 0, vp2 = replicate n 0, vp3 = replicate n 0\<rparr>"
  let ?r = "\<lparr>vp0 = replicate n 0, vp1 = replicate n 0, vp2 = [], vp3 = replicate n 0\<rparr>"
  let ?w = "\<lambda>k f. map (\<lambda>i. if i < k then f i else 0) [0..<n]"
  have e: "?e ! i = inverse y ^ i" if "i < n" for i
    using that assms(3) by (simp add: exp_iter_eq invert_value)
  have zeros: "replicate n 0 = ?w 0 f" for f :: "nat \<Rightarrow> 's" by (simp add: map_replicate_const)
  have "fold ?step (map (\<lambda>i. (i, s_L ! i, s_R ! i)) [0..<k]) (?l, ?r, 1)
      = (\<lparr>vp0 = [], vp1 = ?w k (\<lambda>i. secret_a_L s ! i + inverse y ^ i * wR ! i), vp2 = ?w k ((!) (secret_a_O s)),
          vp3 = ?w k ((!) s_L)\<rparr>,
         \<lparr>vp0 = ?w k (\<lambda>i. wO ! i - y ^ i), vp1 = ?w k (\<lambda>i. y ^ i * secret_a_R s ! i + wL ! i), vp2 = [],
          vp3 = ?w k (\<lambda>i. y ^ i * s_R ! i)\<rparr>, y ^ k)" if "k \<le> n" for k
    using that
  proof (induction k)
    case 0
    then show ?case using zeros by simp
  next
    case (Suc k)
    then have k: "k < n" by simp
    have split: "map (\<lambda>i. (i, s_L ! i, s_R ! i)) [0..<Suc k] = map (\<lambda>i. (i, s_L ! i, s_R ! i)) [0..<k] @ [(k, s_L ! k, s_R ! k)]"
      by simp
    note entries = write_entry[OF k, of "\<lambda>i. secret_a_L s ! i + inverse y ^ i * wR ! i"] write_entry[OF k, of "(!) (secret_a_O s)"]
      write_entry[OF k, of "(!) s_L"] write_entry[OF k, of "\<lambda>i. wO ! i - y ^ i"]
      write_entry[OF k, of "\<lambda>i. y ^ i * secret_a_R s ! i + wL ! i"] write_entry[OF k, of "\<lambda>i. y ^ i * s_R ! i"]
    show ?case
      unfolding split fold_append comp_apply
      using Suc.IH k by (simp only: fold_simps prod.case less_imp_le e[OF k] vec_poly3.select_convs vec_poly3.update_convs
          entries power_Suc2)
  qed
  moreover have "enumerate 0 (zip s_L s_R) = map (\<lambda>i. (i, s_L ! i, s_R ! i)) [0..<n]"
    using assms by (intro nth_equalityI) (simp_all add: nth_enumerate_eq)
  moreover have "?w n f = map f [0..<n]" for f :: "nat \<Rightarrow> 's" by (intro map_cong) auto
  ultimately show ?thesis
    by (simp add: prover_polynomials_def Let_def l_closed_def r_closed_def)
qed

end

section \<open>Evaluation\<close>

definition l_at :: "'s::field secrets \<Rightarrow> 's list \<Rightarrow> 's \<Rightarrow> 's list \<Rightarrow> 's \<Rightarrow> nat \<Rightarrow> 's" where
  "l_at s wR y s_L x i = x * (secret_a_L s ! i + inverse y ^ i * wR ! i) + x * x * secret_a_O s ! i + x * x * x * s_L ! i"

definition r_at :: "'s::field secrets \<Rightarrow> 's list \<Rightarrow> 's list \<Rightarrow> 's \<Rightarrow> 's list \<Rightarrow> 's \<Rightarrow> nat \<Rightarrow> 's" where
  "r_at s wL wO y s_R x i =
     wO ! i - y ^ i + x * (y ^ i * secret_a_R s ! i + wL ! i) + x * x * x * (y ^ i * s_R ! i)"

lemma eval_l_closed: "vec_poly3_eval (l_closed s wR y n s_L) x = map (l_at s wR y s_L x) [0..<n]"
  by (auto simp: vec_poly3_eval_def l_closed_def l_at_def Let_def algebra_simps)

lemma eval_r_closed: "vec_poly3_eval (r_closed s wL wO y n s_R) x = map (r_at s wL wO y s_R x) [0..<n]"
  by (auto simp: vec_poly3_eval_def r_closed_def r_at_def Let_def algebra_simps)

abbreviation t_closed :: "'s::field secrets \<Rightarrow> 's list \<Rightarrow> 's list \<Rightarrow> 's list \<Rightarrow> 's \<Rightarrow> nat \<Rightarrow> 's list \<Rightarrow> 's list \<Rightarrow> 's poly6" where
  "t_closed s wL wR wO y n s_L s_R \<equiv> special_inner_product (l_closed s wR y n s_L) (r_closed s wL wO y n s_R)"

lemma t_closed_eval:
  fixes s :: "'s::field secrets"
  shows "poly6_eval (t_closed s wL wR wO y n s_L s_R) x = (\<Sum>i<n. l_at s wR y s_L x i * r_at s wL wO y s_R x i)"
proof -
  have "x * (A + x * (B + B' + x * (D + D' + x * (E + E' + x * (F + x * H)))))
      = x * A + x * x * B + x * x * B' + x * x * x * D + x * x * x * D' + x * x * x * x * E + x * x * x * x * E'
        + x * x * x * x * x * F + x * x * x * x * x * x * H" for A B B' D D' E E' F H :: 's
    by (simp add: algebra_simps)
  then show ?thesis
    by (simp add: special_inner_product_def poly6_eval_def inner_product_sum l_closed_def r_closed_def sum_distrib_left
        flip: sum.distrib)
      (intro sum.cong refl, simp add: l_at_def r_at_def algebra_simps)
qed

text \<open>The second coefficient is the sum that the constraints fix.\<close>

lemma t_closed_second:
  assumes "y \<noteq> 0" "\<forall>i<n. secret_a_O s ! i = secret_a_L s ! i * secret_a_R s ! i"
    and "length (secret_a_L s) = n" "length (secret_a_R s) = n" "length (secret_a_O s) = n"
    and "length wL = n" "length wR = n" "length wO = n"
  shows "t2 (t_closed s wL wR wO y n s_L s_R)
    = inner_product wL (secret_a_L s) + inner_product wR (secret_a_R s) + inner_product wO (secret_a_O s)
      + (\<Sum>i<n. wR ! i * inverse y ^ i * wL ! i)"
proof -
  have "t2 (t_closed s wL wR wO y n s_L s_R)
      = (\<Sum>i<n. (secret_a_L s ! i + inverse y ^ i * wR ! i) * (y ^ i * secret_a_R s ! i + wL ! i)
          + secret_a_O s ! i * (wO ! i - y ^ i))"
    by (simp add: special_inner_product_def inner_product_sum l_closed_def r_closed_def flip: sum.distrib)
  also have "\<dots> = (\<Sum>i<n. wL ! i * secret_a_L s ! i + wR ! i * secret_a_R s ! i + wO ! i * secret_a_O s ! i
      + wR ! i * inverse y ^ i * wL ! i)"
  proof (intro sum.cong refl)
    fix i assume "i \<in> {..<n}"
    then have "secret_a_O s ! i = secret_a_L s ! i * secret_a_R s ! i" using assms(2) by simp
    moreover have "inverse y ^ i * y ^ i = 1" using assms(1) by (simp flip: power_mult_distrib)
    then have "inverse y ^ i * wR ! i * (y ^ i * secret_a_R s ! i) = wR ! i * secret_a_R s ! i"
      by (simp add: mult_ac)
    ultimately show "(secret_a_L s ! i + inverse y ^ i * wR ! i) * (y ^ i * secret_a_R s ! i + wL ! i)
          + secret_a_O s ! i * (wO ! i - y ^ i)
        = wL ! i * secret_a_L s ! i + wR ! i * secret_a_R s ! i + wO ! i * secret_a_O s ! i
          + wR ! i * inverse y ^ i * wL ! i"
      by (simp add: algebra_simps)
  qed
  finally show ?thesis
    using assms(3-8) by (simp add: inner_product_sum sum.distrib)
qed

section \<open>Padding\<close>

lemma response_vectors_eq:
  fixes s :: "'s::field secrets"
  assumes "n \<le> padded_n"
  shows "response_vectors (l_closed s wR y n s_L) (r_closed s wL wO y n s_R) (y ^ n) y x n padded_n
    = (map (\<lambda>i. if i < n then l_at s wR y s_L x i else 0) [0..<padded_n],
       map (\<lambda>i. if i < n then r_at s wL wO y s_R x i else - (y ^ i)) [0..<padded_n])"
proof -
  have pad: "fold (\<lambda>i (r_vec, exp_y). (r_vec[i := - exp_y], exp_y * y)) [n..<n + k] (map f [0..<n] @ replicate (k + j) 0, y ^ n)
      = (map f [0..<n] @ map (\<lambda>i. - (y ^ i)) [n..<n + k] @ replicate j 0, y ^ (n + k))" for f :: "nat \<Rightarrow> 's" and k j
  proof (induction k arbitrary: j)
    case (Suc k)
    have split: "[n..<n + Suc k] = [n..<n + k] @ [n + k]" by simp
    have "Suc k + j = k + Suc j" by simp
    then show ?case
      unfolding split fold_append comp_apply using Suc.IH[of "Suc j"]
      by (simp add: list_update_append mult.commute)
  qed simp
  have split: "[0..<padded_n] = [0..<n] @ [n..<n + (padded_n - n)]"
    using assms by (metis le_add_diff_inverse upt_add_eq_append zero_le)
  have zeros: "map (\<lambda>i. if i < n then f i else 0) [n..<padded_n] = replicate (padded_n - n) 0" for f :: "nat \<Rightarrow> 's"
    by (intro nth_equalityI) auto
  show ?thesis
    using assms pad[of "padded_n - n" "r_at s wL wO y s_R x" 0]
    unfolding split
    by (simp add: response_vectors_def eval_l_closed eval_r_closed resize_def Let_def zeros
        cong: map_cong)
qed

end
