(* ===== verification/Inner_Product_Fold.thy ===== *)
theory Inner_Product_Fold
  imports Inner_Product
begin

unbundle bit_operations_syntax

text \<open>
  The textbook inner-product argument, which folds the generators in every round, and the proof that
  the prover of the code produces the same proof: its rounds over the original generators keep
  coefficients whose sums over residue classes are the folded generators.
\<close>

section \<open>The textbook protocol\<close>

definition lincomb :: "('s, 'p::ab_group_add, 'a, 'c, 'z) cycle_scheme \<Rightarrow> 's list \<Rightarrow> 'p list \<Rightarrow> 'p" where
  "lincomb C xs ps = (\<Sum>(x, p)\<leftarrow>zip xs ps. point_mul C p x)"

definition fold_scalars :: "'s::field \<Rightarrow> 's \<Rightarrow> nat \<Rightarrow> 's list \<Rightarrow> 's list" where
  "fold_scalars x y m v = map (\<lambda>i. v ! i * x + v ! (m + i) * y) [0..<m]"

definition fold_points ::
  "('s, 'p::ab_group_add, 'a, 'c, 'z) cycle_scheme \<Rightarrow> 's \<Rightarrow> 's \<Rightarrow> nat \<Rightarrow> 'p list \<Rightarrow> 'p list" where
  "fold_points C x y m ps = map (\<lambda>i. point_mul C (ps ! i) x + point_mul C (ps ! (m + i)) y) [0..<m]"

definition round_L ::
  "('s::field, 'p::ab_group_add, 'a, 'c, 'z) cycle_scheme \<Rightarrow> 'p \<Rightarrow> nat \<Rightarrow> 's list \<Rightarrow> 's list \<Rightarrow> 'p list \<Rightarrow> 'p list \<Rightarrow> 'p" where
  "round_L C Q m a b G H =
     lincomb C (take m a) (drop m G) + lincomb C (drop m b) (take m H)
     + point_mul C Q (inner_product (take m a) (drop m b))"

definition round_R ::
  "('s::field, 'p::ab_group_add, 'a, 'c, 'z) cycle_scheme \<Rightarrow> 'p \<Rightarrow> nat \<Rightarrow> 's list \<Rightarrow> 's list \<Rightarrow> 'p list \<Rightarrow> 'p list \<Rightarrow> 'p" where
  "round_R C Q m a b G H =
     lincomb C (drop m a) (take m G) + lincomb C (take m b) (drop m H)
     + point_mul C Q (inner_product (drop m a) (take m b))"

primrec ipp_fold ::
  "('t, 'y) merlin_scheme \<Rightarrow> ('s::field, 'p::ab_group_add, 'a, 'c, 'z) cycle_scheme \<Rightarrow> nat \<Rightarrow> 't \<Rightarrow> 'p \<Rightarrow> 's list
    \<Rightarrow> 's list \<Rightarrow> 'p list \<Rightarrow> 'p list \<Rightarrow> 'c list \<Rightarrow> 'c list \<Rightarrow> ('s, 'c) inner_product_proof \<times> 't" where
  "ipp_fold M C 0 t Q a b G H Ls Rs = (\<lparr>ipp_L_vec = Ls, ipp_R_vec = Rs, ipp_a = a ! 0, ipp_b = b ! 0\<rparr>, t)"
| "ipp_fold M C (Suc k) t Q a b G H Ls Rs =
     (let m = 2 ^ k;
          L = point_compress C (round_L C Q m a b G H);
          R = point_compress C (round_R C Q m a b G H);
          (u, t) = ipp_challenge M C L R t
      in ipp_fold M C k t Q (fold_scalars u (inverse u) m a) (fold_scalars (inverse u) u m b)
           (fold_points C (inverse u) u m G) (fold_points C u (inverse u) m H) (Ls @ [L]) (Rs @ [R]))"

lemma length_fold_scalars [simp]: "length (fold_scalars x y m v) = m"
  and length_fold_points [simp]: "length (fold_points C x y m ps) = m"
  by (simp_all add: fold_scalars_def fold_points_def)

lemma lincomb_append:
  "length xs = length ps \<Longrightarrow> lincomb C (xs @ ys) (ps @ qs) = lincomb C xs ps + lincomb C ys qs"
  by (simp add: lincomb_def)

lemma lincomb_sum:
  "length xs = n \<Longrightarrow> length ps = n \<Longrightarrow> lincomb C xs ps = (\<Sum>i<n. point_mul C (ps ! i) (xs ! i))"
  by (simp add: lincomb_def sum_list_sum_nth case_prod_unfold atLeast0LessThan)

section \<open>Residue classes\<close>

definition residues :: "nat \<Rightarrow> nat \<Rightarrow> nat \<Rightarrow> nat set" where
  "residues n len i = {j. j < n \<and> j mod len = i}"

lemma finite_residues [simp]: "finite (residues n len i)"
  by (simp add: residues_def)

lemma sum_residues: "0 < len \<Longrightarrow> (\<Sum>j<n. f j) = (\<Sum>i<len. \<Sum>j\<in>residues n len i. f j :: 'b::comm_monoid_add)"
proof -
  assume "0 < len"
  then have "(\<Sum>i<len. sum f {j \<in> {..<n}. j mod len = i}) = sum f {..<n}"
    by (intro sum.group) auto
  then show ?thesis by (simp add: residues_def)
qed

lemma mod_double: "j mod (2 * m) = (if odd (j div m) then m + j mod m else j mod m)" for m :: nat
  using mod_mult2_eq[of j m 2] by (simp add: mult.commute mod_2_eq_odd)

lemma mod_not_beyond: "i < m \<Longrightarrow> j mod m \<noteq> m + i" for m :: nat
  using mod_less_divisor[of m j] by linarith

lemma residues_double:
  assumes "i < m"
  shows "residues n m i = residues n (2 * m) i \<union> residues n (2 * m) (m + i)"
    and "residues n (2 * m) i \<inter> residues n (2 * m) (m + i) = {}"
    and "j \<in> residues n (2 * m) i \<Longrightarrow> even (j div m) \<and> j mod m = i \<and> j < n"
    and "j \<in> residues n (2 * m) (m + i) \<Longrightarrow> odd (j div m) \<and> j mod m = i \<and> j < n"
  using assms by (auto simp: residues_def mod_double mod_not_beyond split: if_splits)

lemma residues_self: "i < n \<Longrightarrow> residues n n i = {i}"
  by (auto simp: residues_def)

lemma sum_split_double:
  assumes "0 < m"
  shows "(\<Sum>j<n. if odd (j div m) then f j else g j)
    = (\<Sum>i<m. \<Sum>j\<in>residues n (2 * m) (m + i). f j) + (\<Sum>i<m. \<Sum>j\<in>residues n (2 * m) i. g j :: 'b::comm_monoid_add)"
proof -
  let ?h = "\<lambda>j. if odd (j div m) then f j else g j"
  have "(\<Sum>j<n. ?h j) = (\<Sum>i<m + m. \<Sum>j\<in>residues n (2 * m) i. ?h j)"
    using assms sum_residues[of "2 * m" ?h n] by (simp add: mult_2)
  also have "\<dots> = (\<Sum>i<m. \<Sum>j\<in>residues n (2 * m) i. ?h j) + (\<Sum>i<m. \<Sum>j\<in>residues n (2 * m) (m + i). ?h j)"
    by (rule sum_lessThan_split)
  also have "(\<Sum>i<m. \<Sum>j\<in>residues n (2 * m) i. ?h j) = (\<Sum>i<m. \<Sum>j\<in>residues n (2 * m) i. g j)"
    by (intro sum.cong) (auto dest: residues_double(3)[rotated])
  also have "(\<Sum>i<m. \<Sum>j\<in>residues n (2 * m) (m + i). ?h j) = (\<Sum>i<m. \<Sum>j\<in>residues n (2 * m) (m + i). f j)"
    by (intro sum.cong) (auto dest: residues_double(4)[rotated])
  finally show ?thesis by (simp add: add.commute)
qed

lemma upper_half: "drop_bit s j AND 1 = (1 :: nat) \<longleftrightarrow> odd (j div 2 ^ s)"
  by (simp add: and_one_eq drop_bit_eq_div mod_2_eq_odd)

lemma masked_index: "j AND (2 ^ s - 1) = j mod 2 ^ s" for j :: nat
  using take_bit_eq_mask[of s j] by (simp add: mask_eq_exp_minus_1 take_bit_eq_mod)

lemma log2_ceil_power: "k < 64 \<Longrightarrow> log2_ceil (2 ^ k) = k"
proof -
  assume "k < 64"
  then have "[0..<64] = [0..<k] @ k # [Suc k..<64]"
    using upt_add_eq_append[of 0 k "64 - k"] by (simp add: upt_conv_Cons)
  moreover have "takeWhile (\<lambda>i. i < k) ([0..<k] @ k # [Suc k..<64]) = [0..<k]"
    by (subst takeWhile_append2) auto
  ultimately show ?thesis by (simp add: log2_ceil_def)
qed

section \<open>Folded generators\<close>

text \<open>What the coefficients of the original generators stand for: their sums over the residue classes.\<close>

definition collapsed ::
  "('s, 'p::ab_group_add, 'a, 'c, 'z) cycle_scheme \<Rightarrow> nat \<Rightarrow> 's list \<Rightarrow> 'a list \<Rightarrow> 'p list" where
  "collapsed C len coefs bases =
     map (\<lambda>i. \<Sum>j\<in>residues (length bases) len i. point_mul C (affine_to_point C (bases ! j)) (coefs ! j)) [0..<len]"

lemma length_collapsed [simp]: "length (collapsed C len coefs bases) = len"
  by (simp add: collapsed_def)

lemma collapsed_nth [simp]:
  "i < len \<Longrightarrow> collapsed C len coefs bases ! i
    = (\<Sum>j\<in>residues (length bases) len i. point_mul C (affine_to_point C (bases ! j)) (coefs ! j))"
  by (simp add: collapsed_def)

context cycle_laws
begin

lemma msm_affine_lincomb:
  "length xs = length as \<Longrightarrow> vartime_msm_affine C xs as = lincomb C xs (map (affine_to_point C) as)"
  by (simp add: msm_affine lincomb_def zip_map2 case_prod_unfold comp_def)

lemma msm_lincomb: "length xs = length ps \<Longrightarrow> vartime_msm C xs ps = lincomb C xs ps"
  by (simp add: msm lincomb_def)

text \<open>One round of the tail is one round of the textbook protocol.\<close>

lemma folded_tail_textbook:
  assumes "length a = 2 ^ k" "length b = 2 ^ k" "length G = 2 ^ k" "length H = 2 ^ k"
  shows "create_folded_tail M C t Q a b G H Ls Rs
    = ipp_fold M C k t (affine_to_point C Q) a b (map (affine_to_point C) G) (map (affine_to_point C) H) Ls Rs"
  using assms
proof (induction k arbitrary: t a b G H Ls Rs)
  case 0
  then show ?case by (subst create_folded_tail.simps) simp
next
  case (Suc k)
  let ?m = "2 ^ k :: nat" and ?pt = "affine_to_point C"
  let ?L = "round_L C (?pt Q) ?m a b (map ?pt G) (map ?pt H)"
  let ?R = "round_R C (?pt Q) ?m a b (map ?pt G) (map ?pt H)"
  obtain u t' where ch: "ipp_challenge M C (point_compress C ?L) (point_compress C ?R) t = (u, t')" by fastforce
  have m: "length a div 2 = ?m" "1 < length a" using Suc.prems(1) one_less_power[of "2 :: nat" "Suc k"] by simp_all
  have L: "vartime_msm_affine C (take ?m a @ drop ?m b @ [inner_product (take ?m a) (drop ?m b)])
      (drop ?m G @ take ?m H @ [Q]) = ?L"
    using Suc.prems by (simp add: msm_affine_lincomb lincomb_append round_L_def take_map drop_map)
      (simp add: lincomb_def add.assoc)
  have R: "vartime_msm_affine C (drop ?m a @ take ?m b @ [inner_product (drop ?m a) (take ?m b)])
      (take ?m G @ drop ?m H @ [Q]) = ?R"
    using Suc.prems by (simp add: msm_affine_lincomb lincomb_append round_R_def take_map drop_map)
      (simp add: lincomb_def add.assoc)
  have a': "map (\<lambda>(l, r). l * x + r * y) (zip (take ?m v) (drop ?m v)) = fold_scalars x y ?m v"
    if "length v = 2 * ?m" for x y :: 's and v
    using that by (intro nth_equalityI) (auto simp: fold_scalars_def)
  let ?G = "if 1 < ?m then batch_normalize C (map (\<lambda>i. vartime_msm_affine C [inverse u, u] [G ! i, G ! (?m + i)]) [0..<?m]) else G"
  let ?H = "if 1 < ?m then batch_normalize C (map (\<lambda>i. vartime_msm_affine C [u, inverse u] [H ! i, H ! (?m + i)]) [0..<?m]) else H"
  have "create_folded_tail M C t Q a b G H Ls Rs
      = create_folded_tail M C t' Q (fold_scalars u (inverse u) ?m a) (fold_scalars (inverse u) u ?m b) ?G ?H
          (Ls @ [point_compress C ?L]) (Rs @ [point_compress C ?R])"
    using m Suc.prems(1,2)
    by (subst create_folded_tail.simps) (simp add: Let_def L R ch a' invert_value split: if_split)
  also have "\<dots> = ipp_fold M C k t' (?pt Q) (fold_scalars u (inverse u) ?m a) (fold_scalars (inverse u) u ?m b)
      (fold_points C (inverse u) u ?m (map ?pt G)) (fold_points C u (inverse u) ?m (map ?pt H))
      (Ls @ [point_compress C ?L]) (Rs @ [point_compress C ?R])"
  proof (cases "k = 0")
    case True
    then show ?thesis by (subst create_folded_tail.simps) simp
  next
    case False
    then have "1 < ?m" by (metis one_less_power one_less_numeral_iff semiring_norm(76) gr0I)
    moreover have "map ?pt (batch_normalize C (map (\<lambda>i. vartime_msm_affine C [x, y] [ps ! i, ps ! (?m + i)]) [0..<?m]))
        = fold_points C x y ?m (map ?pt ps)" if "length ps = 2 * ?m" for x y ps
      unfolding normalize_points using that
      by (intro nth_equalityI) (auto simp: fold_points_def msm_affine)
    ultimately show ?thesis using Suc.prems by (simp add: Suc.IH)
  qed
  finally show ?case by (simp add: Let_def ch)
qed

section \<open>The rounds over the original generators\<close>

lemma half_msm:
  assumes "0 < m" "length x = m" "length y = m" "length G = n" "length H = n"
  shows "lincomb C (map (\<lambda>j. if odd (j div m) then x ! (j mod m) * g ! j else y ! (j mod m) * h ! j) [0..<n])
      (map (\<lambda>j. affine_to_point C (if odd (j div m) then G ! j else H ! j)) [0..<n])
    = lincomb C x (drop m (collapsed C (2 * m) g G)) + lincomb C y (take m (collapsed C (2 * m) h H))"
proof -
  let ?pt = "affine_to_point C"
  have "lincomb C (map (\<lambda>j. if odd (j div m) then x ! (j mod m) * g ! j else y ! (j mod m) * h ! j) [0..<n])
      (map (\<lambda>j. ?pt (if odd (j div m) then G ! j else H ! j)) [0..<n])
    = (\<Sum>j<n. if odd (j div m) then point_mul C (?pt (G ! j)) (x ! (j mod m) * g ! j)
                else point_mul C (?pt (H ! j)) (y ! (j mod m) * h ! j))"
    by (simp add: lincomb_sum) (intro sum.cong, auto)
  also have "\<dots> = (\<Sum>i<m. \<Sum>j\<in>residues n (2 * m) (m + i). point_mul C (?pt (G ! j)) (x ! (j mod m) * g ! j))
      + (\<Sum>i<m. \<Sum>j\<in>residues n (2 * m) i. point_mul C (?pt (H ! j)) (y ! (j mod m) * h ! j))"
    using assms(1) by (rule sum_split_double)
  also have "(\<Sum>i<m. \<Sum>j\<in>residues n (2 * m) (m + i). point_mul C (?pt (G ! j)) (x ! (j mod m) * g ! j))
      = (\<Sum>i<m. \<Sum>j\<in>residues n (2 * m) (m + i). point_mul C (?pt (G ! j)) (g ! j * x ! i))"
    by (intro sum.cong refl) (drule residues_double(4)[rotated], auto simp: mult.commute)
  also have "\<dots> = lincomb C x (drop m (collapsed C (2 * m) g G))"
    using assms by (simp add: lincomb_sum pmul_sum pmul_mult)
  also have "(\<Sum>i<m. \<Sum>j\<in>residues n (2 * m) i. point_mul C (?pt (H ! j)) (y ! (j mod m) * h ! j))
      = (\<Sum>i<m. \<Sum>j\<in>residues n (2 * m) i. point_mul C (?pt (H ! j)) (h ! j * y ! i))"
    by (intro sum.cong refl) (drule residues_double(3)[rotated], auto simp: mult.commute)
  also have "\<dots> = lincomb C y (take m (collapsed C (2 * m) h H))"
    using assms by (simp add: lincomb_sum pmul_sum pmul_mult)
  finally show ?thesis .
qed

lemma collapsed_step:
  assumes "length G = n"
  shows "collapsed C m (map (\<lambda>j. g ! j * (if odd (j div m) then x else y)) [0..<n]) G
    = fold_points C y x m (collapsed C (2 * m) g G)"
proof (intro nth_equalityI)
  fix i assume "i < length (collapsed C m (map (\<lambda>j. g ! j * (if odd (j div m) then x else y)) [0..<n]) G)"
  then have i: "i < m" by simp
  let ?pt = "affine_to_point C"
  let ?f = "\<lambda>j. point_mul C (?pt (G ! j)) (g ! j * (if odd (j div m) then x else y))"
  have "collapsed C m (map (\<lambda>j. g ! j * (if odd (j div m) then x else y)) [0..<n]) G ! i
      = (\<Sum>j\<in>residues n m i. ?f j)"
    using i assms by (simp add: residues_def)
  also have "\<dots> = (\<Sum>j\<in>residues n (2 * m) i. ?f j) + (\<Sum>j\<in>residues n (2 * m) (m + i). ?f j)"
    unfolding residues_double(1)[OF i] by (rule sum.union_disjoint) (auto simp: residues_double(2)[OF i])
  also have "(\<Sum>j\<in>residues n (2 * m) i. ?f j) = (\<Sum>j\<in>residues n (2 * m) i. point_mul C (?pt (G ! j)) (g ! j * y))"
    by (intro sum.cong) (auto dest: residues_double(3)[OF i])
  also have "(\<Sum>j\<in>residues n (2 * m) (m + i). ?f j) = (\<Sum>j\<in>residues n (2 * m) (m + i). point_mul C (?pt (G ! j)) (g ! j * x))"
    by (intro sum.cong) (auto dest: residues_double(4)[OF i])
  finally show "collapsed C m (map (\<lambda>j. g ! j * (if odd (j div m) then x else y)) [0..<n]) G ! i
      = fold_points C y x m (collapsed C (2 * m) g G) ! i"
    using i assms by (simp add: fold_points_def pmul_sum pmul_mult)
qed simp

end

text \<open>
  A state of the rounds, read as a state of the textbook protocol with \<open>j\<close> rounds to go: the folded
  generators are the collapsed ones.
\<close>

definition ipp_view ::
  "('t, 'y) merlin_scheme \<Rightarrow> ('s::field, 'p::ab_group_add, 'a, 'c, 'z) cycle_scheme \<Rightarrow> 'p \<Rightarrow> 'a list \<Rightarrow> 'a list
    \<Rightarrow> nat \<Rightarrow> ('s, 'c, 't) ipp_state \<Rightarrow> ('s, 'c) inner_product_proof \<times> 't" where
  "ipp_view M C Q G H j st =
     ipp_fold M C j (st_transcript st) Q (st_a st) (st_b st) (collapsed C (2 ^ j) (st_g_coef st) G)
       (collapsed C (2 ^ j) (st_h_coef st) H) (st_L_vec st) (st_R_vec st)"

definition ipp_shape :: "nat \<Rightarrow> nat \<Rightarrow> ('s, 'c, 't) ipp_state \<Rightarrow> bool" where
  "ipp_shape k j st \<longleftrightarrow>
     length (st_a st) = 2 ^ j \<and> length (st_b st) = 2 ^ j \<and> length (st_g_coef st) = 2 ^ k \<and> length (st_h_coef st) = 2 ^ k"

context cycle_laws
begin

lemma original_round_textbook:
  assumes "ipp_shape k (Suc j) st" "j < k" "length G = 2 ^ k" "length H = 2 ^ k"
    and round: "st' = original_round M C Q G H k (k - Suc j) st"
  shows "ipp_shape k j st'"
    and "ipp_view M C (affine_to_point C Q) G H (Suc j) st = ipp_view M C (affine_to_point C Q) G H j st'"
proof -
  let ?m = "2 ^ j :: nat" and ?n = "2 ^ k :: nat" and ?pt = "affine_to_point C"
  let ?a = "st_a st" and ?b = "st_b st" and ?g = "st_g_coef st" and ?h = "st_h_coef st"
  let ?gs = "collapsed C (2 * ?m) ?g G" and ?hs = "collapsed C (2 * ?m) ?h H"
  let ?L = "round_L C (?pt Q) ?m ?a ?b ?gs ?hs" and ?R = "round_R C (?pt Q) ?m ?a ?b ?gs ?hs"
  obtain u t where ch: "ipp_challenge M C (point_compress C ?L) (point_compress C ?R) (st_transcript st) = (u, t)"
    by fastforce
  have len: "length ?a = 2 * ?m" "length ?b = 2 * ?m" "length ?g = ?n" "length ?h = ?n"
    using assms(1) by (simp_all add: ipp_shape_def)
  have "Suc (k - Suc j) = k - j" "k - (k - Suc j) - 1 = j" using assms(2) by auto
  then have idx: "drop_bit (k - Suc j + 1) ?n = ?m" "k - (k - Suc j) - 1 = j"
    using assms(2) by (simp_all add: drop_bit_eq_div power_diff[symmetric] le_diff_conv)
  have L: "vartime_msm_affine C (map (\<lambda>i. if odd (i div ?m) then take ?m ?a ! (i mod ?m) * ?g ! i
        else drop ?m ?b ! (i mod ?m) * ?h ! i) [0..<?n] @ [inner_product (take ?m ?a) (drop ?m ?b)])
      (map (\<lambda>i. if odd (i div ?m) then G ! i else H ! i) [0..<?n] @ [Q]) = ?L"
    using len assms(3,4) half_msm[of ?m "take ?m ?a" "drop ?m ?b" G ?n H ?g ?h]
    by (simp add: msm_affine_lincomb lincomb_append round_L_def comp_def) (simp add: lincomb_def)
  have R: "vartime_msm_affine C (map (\<lambda>i. if odd (i div ?m) then take ?m ?b ! (i mod ?m) * ?h ! i
        else drop ?m ?a ! (i mod ?m) * ?g ! i) [0..<?n] @ [inner_product (drop ?m ?a) (take ?m ?b)])
      (map (\<lambda>i. if odd (i div ?m) then H ! i else G ! i) [0..<?n] @ [Q]) = ?R"
    using len assms(3,4) half_msm[of ?m "take ?m ?b" "drop ?m ?a" H ?n G ?h ?g]
    by (simp add: msm_affine_lincomb lincomb_append round_R_def comp_def add.commute) (simp add: lincomb_def)
  have st': "st' = \<lparr>st_transcript = t, st_a = fold_scalars u (inverse u) ?m ?a, st_b = fold_scalars (inverse u) u ?m ?b,
      st_g_coef = map (\<lambda>i. ?g ! i * (if odd (i div ?m) then u else inverse u)) [0..<?n],
      st_h_coef = map (\<lambda>i. ?h ! i * (if odd (i div ?m) then inverse u else u)) [0..<?n],
      st_L_vec = st_L_vec st @ [point_compress C ?L], st_R_vec = st_R_vec st @ [point_compress C ?R]\<rparr>"
    unfolding round original_round_def Let_def assms(3) idx upper_half masked_index L R
    using len by (simp add: ch invert_value fold_scalars_def mult.commute)
  show "ipp_shape k j st'" by (simp add: st' ipp_shape_def)
  show "ipp_view M C (?pt Q) G H (Suc j) st = ipp_view M C (?pt Q) G H j st'"
    using assms(3,4) by (simp add: ipp_view_def Let_def ch st' collapsed_step)
qed

lemma original_rounds_textbook:
  assumes "ipp_shape k k st" "length G = 2 ^ k" "length H = 2 ^ k" "r \<le> k"
  shows "ipp_shape k (k - r) (fold (original_round M C Q G H k) [0..<r] st)
    \<and> ipp_view M C (affine_to_point C Q) G H (k - r) (fold (original_round M C Q G H k) [0..<r] st)
      = ipp_view M C (affine_to_point C Q) G H k st"
  using assms(4)
proof (induction r)
  case (Suc r)
  then have j: "k - r = Suc (k - Suc r)" "k - Suc r < k" "k - Suc (k - Suc r) = r" by auto
  show ?case
    using Suc original_round_textbook[of k "k - Suc r" "fold (original_round M C Q G H k) [0..<r] st" G H _ M Q] assms(2,3)
    by (simp add: j)
qed (use assms in simp)

lemma skip_step_by_residues:
  assumes "i < s" "length xs = n" "length bs = n"
  shows "vartime_msm_affine C (skip_step_by i s xs) (skip_step_by i s bs)
    = (\<Sum>j\<in>residues n s i. point_mul C (affine_to_point C (bs ! j)) (xs ! j))"
proof -
  have step: "i \<le> j \<and> (j - i) mod s = 0 \<longleftrightarrow> j mod s = i" for j
    using mod_eq_dvd_iff_nat[of i j s] mod_less_eq_dividend[of j s] assms(1)
    by (auto simp: mod_eq_0_iff_dvd)
  have "skip_step_by i s ys = map ((!) ys) (filter (\<lambda>j. j mod s = i) [0..<n])" if "length ys = n" for ys :: "'z list"
    using that by (simp add: skip_step_by_def step)
  have "vartime_msm_affine C (skip_step_by i s xs) (skip_step_by i s bs)
      = (\<Sum>j\<leftarrow>filter (\<lambda>j. j mod s = i) [0..<n]. point_mul C (affine_to_point C (bs ! j)) (xs ! j))"
    using assms(2,3) by (simp add: skip_step_by_def step msm_affine zip_map_map comp_def split_def zip_same_conv_map)
  then show ?thesis
    by (simp add: sum_list_distinct_conv_sum_set residues_def conj_commute)
qed

lemma fold_bases_collapsed:
  "length xs = length bs \<Longrightarrow> map (affine_to_point C) (fold_bases C len xs bs) = collapsed C len xs bs"
  unfolding fold_bases_def normalize_points
  by (intro nth_equalityI) (simp_all add: skip_step_by_residues)

lemma length_fold_bases [simp]: "length (fold_bases C len xs bs) = len"
  by (simp add: fold_bases_def)

lemma ipp_create_fold:
  fixes t :: 't
  assumes "k < 64" "length G = 2 ^ k" "length H = 2 ^ k" "length a = 2 ^ k" "length b = 2 ^ k"
    "length Gf = 2 ^ k" "length Hf = 2 ^ k"
  shows "ipp_create M C t Q Gf Hf G H a b =
    ipp_fold M C k (innerproduct_domain_sep M (2 ^ k) t) Q a b
      (map (\<lambda>(g, x). point_mul C (affine_to_point C g) x) (zip G Gf))
      (map (\<lambda>(h, x). point_mul C (affine_to_point C h) x) (zip H Hf)) [] []"
proof -
  define r where "r = (if 2 ^ k < (4096 :: nat) then k else ORIGINAL_BASE_ROUNDS)"
  define st :: "('s, 'c, 't) ipp_state" where "st = \<lparr>st_transcript = innerproduct_domain_sep M (2 ^ k) t, st_a = a, st_b = b,
    st_g_coef = Gf, st_h_coef = Hf, st_L_vec = [], st_R_vec = []\<rparr>"
  define st' where "st' = fold (original_round M C (point_to_affine C Q) G H k) [0..<r] st"
  have "r \<le> k"
    using power_strict_increasing[of k 8 "2 :: nat"] by (cases "k < 8") (auto simp: r_def ORIGINAL_BASE_ROUNDS_def)
  then have shape: "length (st_a st') = 2 ^ (k - r)" "length (st_b st') = 2 ^ (k - r)"
      "length (st_g_coef st') = length G" "length (st_h_coef st') = length H"
    and view: "ipp_view M C Q G H (k - r) st' = ipp_view M C Q G H k st"
    using original_rounds_textbook[of k st G H r M "point_to_affine C Q"] assms
    by (auto simp: ipp_shape_def affine_point st'_def) (auto simp: ipp_shape_def st_def)
  have start: "collapsed C (2 ^ k) xs bs = map (\<lambda>(g, x). point_mul C (affine_to_point C g) x) (zip bs xs)"
    if "length bs = 2 ^ k" "length xs = 2 ^ k" for xs bs
    using that by (intro nth_equalityI) (simp_all add: residues_self)
  have create: "ipp_create M C t Q Gf Hf G H a b =
    (if 1 < length (st_a st')
     then create_folded_tail M C (st_transcript st') (point_to_affine C Q) (st_a st') (st_b st')
            (fold_bases C (length (st_a st')) (st_g_coef st') G) (fold_bases C (length (st_a st')) (st_h_coef st') H)
            (st_L_vec st') (st_R_vec st')
     else (\<lparr>ipp_L_vec = st_L_vec st', ipp_R_vec = st_R_vec st', ipp_a = st_a st' ! 0, ipp_b = st_b st' ! 0\<rparr>,
           st_transcript st'))"
    unfolding ipp_create_def Let_def assms(2) log2_ceil_power[OF assms(1)] r_def[symmetric] st_def[symmetric]
      st'_def[symmetric] by (rule refl)
  have "ipp_create M C t Q Gf Hf G H a b = ipp_view M C Q G H (k - r) st'"
  proof (cases "k - r")
    case 0
    with shape(1) show ?thesis unfolding create by (simp add: ipp_view_def)
  next
    case (Suc j)
    then have "1 < length (st_a st')" using shape(1) one_less_power[of "2 :: nat" "Suc j"] by simp
    then show ?thesis
      unfolding create
      by (simp only: if_True) (simp add: shape folded_tail_textbook fold_bases_collapsed affine_point ipp_view_def)
  qed
  also have "\<dots> = ipp_fold M C k (innerproduct_domain_sep M (2 ^ k) t) Q a b
      (map (\<lambda>(g, x). point_mul C (affine_to_point C g) x) (zip G Gf))
      (map (\<lambda>(h, x). point_mul C (affine_to_point C h) x) (zip H Hf)) [] []"
    unfolding view using assms by (simp add: ipp_view_def st_def start)
  finally show ?thesis .
qed

end

end
