(* ===== verification/Inner_Product_Check.thy ===== *)
theory Inner_Product_Check
  imports Inner_Product_Fold
begin

unbundle bit_operations_syntax

text \<open>
  The textbook verifier of the inner-product argument, which folds the statement round by round, and
  the proof that the one multi-scalar multiplication of the code checks the same equation. An honest
  prover satisfies it.
\<close>

section \<open>The textbook verifier\<close>

text \<open>The rounds are triples of a challenge and the two points of the round.\<close>

primrec ipp_check ::
  "('s::field, 'p::ab_group_add, 'a, 'c, 'z) cycle_scheme \<Rightarrow> 'p \<Rightarrow> 's \<Rightarrow> 's \<Rightarrow> ('s \<times> 'p \<times> 'p) list \<Rightarrow> 'p
    \<Rightarrow> 'p list \<Rightarrow> 'p list \<Rightarrow> bool" where
  "ipp_check C Q a b [] P G H \<longleftrightarrow> P = point_mul C (G ! 0) a + point_mul C (H ! 0) b + point_mul C Q (a * b)"
| "ipp_check C Q a b (r # rs) P G H \<longleftrightarrow>
     (let (u, L, R) = r; m = length G div 2
      in ipp_check C Q a b rs (P + point_mul C L (u * u) + point_mul C R (inverse u * inverse u))
           (fold_points C (inverse u) u m G) (fold_points C u (inverse u) m H))"

definition ipp_statement ::
  "('s::field, 'p::ab_group_add, 'a, 'c, 'z) cycle_scheme \<Rightarrow> 'p \<Rightarrow> 's list \<Rightarrow> 's list \<Rightarrow> 'p list \<Rightarrow> 'p list \<Rightarrow> 'p" where
  "ipp_statement C Q a b G H = lincomb C a G + lincomb C b H + point_mul C Q (inner_product a b)"

section \<open>The scalars of the generators\<close>

primrec s_list :: "'s::field list \<Rightarrow> 's list" where
  "s_list [] = [1]"
| "s_list (u # us) = map ((*) (inverse u)) (s_list us) @ map ((*) u) (s_list us)"

lemma length_s_list [simp]: "length (s_list us) = 2 ^ length us"
  by (induction us) auto

lemma rev_s_list: "rev (s_list us) = s_list (map inverse us)"
  by (induction us) (auto simp: rev_map)

lemma s_list_zero: "s_list us ! 0 = prod_list (map inverse us)"
  by (induction us) (auto simp: nth_append)

lemma s_list_step:
  assumes "0 \<notin> set us" "2 ^ j \<le> i" "i < 2 ^ Suc j" "j < length us"
  shows "s_list us ! i = s_list us ! (i - 2 ^ j) * map (\<lambda>u. u * u) us ! (length us - 1 - j)"
  using assms
proof (induction us)
  case (Cons u us)
  show ?case
  proof (cases "j = length us")
    case True
    with Cons.prems show ?thesis by (auto simp: nth_append)
  next
    case False
    then have j: "j < length us" using Cons.prems(4) by simp
    then have "(2 :: nat) ^ Suc j \<le> 2 ^ length us" by (intro power_increasing) auto
    then have "i < 2 ^ length us" using Cons.prems(3) by linarith
    moreover have "length us - j = Suc (length us - 1 - j)" using j by simp
    ultimately show ?thesis
      using Cons.IH Cons.prems j by (simp add: nth_append mult.assoc less_imp_diff_less)
  qed
qed simp

lemma highest_bit:
  assumes "2 ^ j \<le> i" "i < 2 ^ Suc j" "j < 32"
  shows "32 - 1 - leading_zeros_u32 (word_of_nat i) = j"
proof -
  have "i div 2 ^ j = 1"
    using assms(1,2) by (intro div_nat_eqI) auto
  then have "bit i j" by (simp add: bit_iff_odd)
  moreover have "\<not> bit i l" if "j < l" for l
  proof -
    have "(2 :: nat) ^ Suc j \<le> 2 ^ l" using that by (intro power_increasing) auto
    then have "i < 2 ^ l" using assms(2) by linarith
    then show ?thesis by (simp add: bit_iff_odd)
  qed
  moreover have "rev [0..<32] = rev [Suc j..<32] @ j # rev [0..<j]"
  proof -
    have "[0..<32] = [0..<j] @ j # [Suc j..<32]"
      using assms(3) upt_add_eq_append[of 0 j "32 - j"] by (simp add: upt_conv_Cons)
    then show ?thesis by (metis append_Cons append_Nil append_assoc rev.simps(2) rev_append)
  qed
  moreover have "takeWhile (\<lambda>l. \<not> bit (word_of_nat i :: u32) l) (rev [Suc j..<32] @ j # rev [0..<j]) = rev [Suc j..<32]"
    using calculation(1,2) assms(3) by (subst takeWhile_append2) (auto simp: bit_of_nat_iff)
  ultimately show ?thesis using assms(3) by (simp add: leading_zeros_u32_def del: upt_rec_numeral)
qed

lemma ipp_s_vector_eq:
  assumes "0 \<notin> set us" "length us < 32"
  shows "ipp_s_vector (length us) (prod_list (map inverse us)) (map (\<lambda>u. u * u) us) (2 ^ length us) = s_list us"
proof -
  let ?step = "\<lambda>i s. let lg_i = 32 - 1 - leading_zeros_u32 (word_of_nat i);
      k = push_bit lg_i 1 in s @ [s ! (i - k) * map (\<lambda>u. u * u) us ! (length us - 1 - lg_i)]"
  have "fold ?step [1..<Suc i] [prod_list (map inverse us)] = take (Suc i) (s_list us)"
    if "Suc i \<le> 2 ^ length us" for i
    using that
  proof (induction i)
    case 0
    have "s_list us \<noteq> []" by (metis length_s_list length_greater_0_conv zero_less_numeral zero_less_power)
    then show ?case by (cases "s_list us") (auto simp flip: s_list_zero)
  next
    case (Suc i)
    define j where "j = (LEAST j. Suc i < 2 ^ Suc j)"
    have "Suc i < 2 ^ Suc (Suc i)" using less_exp[of "Suc i"] by simp
    then have up: "Suc i < 2 ^ Suc j" unfolding j_def by (rule LeastI)
    have low: "2 ^ j \<le> Suc i"
    proof (cases j)
      case (Suc l)
      then have "l < (LEAST j. Suc i < 2 ^ Suc j)" unfolding j_def[symmetric] by simp
      from not_less_Least[OF this] show ?thesis using Suc by simp
    qed simp
    have "j < length us"
    proof (rule ccontr)
      assume "\<not> j < length us"
      then have "(2 :: nat) ^ length us \<le> 2 ^ j" by (intro power_increasing) auto
      with low Suc.prems show False by linarith
    qed
    then have lg: "32 - 1 - leading_zeros_u32 (word_of_nat (Suc i)) = j"
      using highest_bit[OF low up] assms(2) by simp
    have "fold ?step [1..<Suc (Suc i)] [prod_list (map inverse us)] = ?step (Suc i) (take (Suc i) (s_list us))"
    proof -
      have split: "[1..<Suc (Suc i)] = [1..<Suc i] @ [Suc i]" by simp
      have ih: "fold ?step [1..<Suc i] [prod_list (map inverse us)] = take (Suc i) (s_list us)"
        by (rule Suc.IH) (use Suc.prems in simp)
      show ?thesis unfolding split fold_append comp_apply ih by simp
    qed
    also have "\<dots> = take (Suc i) (s_list us) @ [s_list us ! Suc i]"
      using s_list_step[OF assms(1) low up \<open>j < length us\<close>]
      unfolding lg Let_def by (simp add: push_bit_eq_mult)
    also have "\<dots> = take (Suc (Suc i)) (s_list us)"
      using Suc.prems by (simp add: take_Suc_conv_app_nth)
    finally show ?case .
  qed
  from this[of "2 ^ length us - 1"] show ?thesis
    by (simp add: ipp_s_vector_def)
qed

section \<open>One round\<close>

context cycle_laws
begin

lemma lincomb_scale: "lincomb C (map ((*) x) xs) ps = point_mul C (lincomb C xs ps) x"
proof -
  have "(\<Sum>(y, p)\<leftarrow>zip (map ((*) x) xs) ps. point_mul C p y) = (\<Sum>(y, p)\<leftarrow>zip xs ps. point_mul C (point_mul C p y) x)"
    by (simp add: zip_map1 comp_def case_prod_unfold pmul_mult mult.commute)
  then show ?thesis by (simp add: lincomb_def pmul_sum_list comp_def case_prod_unfold)
qed

lemma lincomb_half:
  assumes "length xs = m" "length ys = m" "length ps = 2 * m"
  shows "lincomb C (xs @ ys) ps = lincomb C xs (take m ps) + lincomb C ys (drop m ps)"
  using lincomb_append[of xs "take m ps" C ys "drop m ps"] assms by simp

lemma lincomb_fold_points:
  assumes "length xs = m" "length ps = 2 * m"
  shows "lincomb C xs (fold_points C x y m ps) = lincomb C (map ((*) x) xs @ map ((*) y) xs) ps"
proof -
  have "lincomb C (map ((*) x) xs @ map ((*) y) xs) ps
      = lincomb C (map ((*) x) xs) (take m ps) + lincomb C (map ((*) y) xs) (drop m ps)"
    by (rule lincomb_half) (use assms in simp_all)
  then show ?thesis
    using assms by (simp add: lincomb_sum fold_points_def pmul_add_point pmul_mult sum.distrib mult.commute)
qed

text \<open>The one equation that the code checks is the textbook check.\<close>

lemma ipp_check_iff:
  assumes "length G = 2 ^ length rs" "length H = 2 ^ length rs"
  shows "ipp_check C Q a b rs P G H \<longleftrightarrow>
    P + lincomb C (map (\<lambda>(u, L, R). u * u) rs) (map (\<lambda>(u, L, R). L) rs)
      + lincomb C (map (\<lambda>(u, L, R). inverse u * inverse u) rs) (map (\<lambda>(u, L, R). R) rs)
    = point_mul C (lincomb C (s_list (map fst rs)) G) a
      + point_mul C (lincomb C (s_list (map inverse (map fst rs))) H) b + point_mul C Q (a * b)"
  using assms
proof (induction rs arbitrary: P G H)
  case Nil
  then have "lincomb C [1] G = G ! 0" "lincomb C [1] H = H ! 0"
    by (simp_all add: lincomb_sum[where n = 1] pmul_one)
  then show ?case by (simp add: lincomb_def[of C "[]"])
next
  case (Cons r rs)
  obtain u L R where r: "r = (u, L, R)" by (cases r) auto
  have "length G = 2 * 2 ^ length rs" "length H = 2 * 2 ^ length rs" using Cons.prems by simp_all
  then show ?case
    by (simp add: r Cons.IH lincomb_fold_points) (simp add: lincomb_def algebra_simps)
qed

lemma pair_product:
  assumes "u \<noteq> 0"
  shows "point_mul C (point_mul C g (inverse u) + point_mul C g' u) (x * u + y * inverse u)
    = point_mul C g x + point_mul C g' y + (point_mul C (point_mul C g' x) (u * u)
      + point_mul C (point_mul C g y) (inverse u * inverse u))"
proof -
  have e: "inverse u * (x * u) = x" "u * (y * inverse u) = y" "inverse u * (y * inverse u) = y * (inverse u * inverse u)"
    "u * (x * u) = x * (u * u)" using assms by (simp_all add: field_simps)
  show ?thesis by (simp only: pmul_add pmul_add_point pmul_mult e) (simp add: algebra_simps)
qed

lemma lincomb_round:
  assumes "u \<noteq> 0" "length v = 2 * m" "length ps = 2 * m"
  shows "lincomb C (fold_scalars u (inverse u) m v) (fold_points C (inverse u) u m ps)
    = lincomb C v ps + point_mul C (lincomb C (take m v) (drop m ps)) (u * u)
      + point_mul C (lincomb C (drop m v) (take m ps)) (inverse u * inverse u)"
proof -
  have "lincomb C v ps = lincomb C (take m v) (take m ps) + lincomb C (drop m v) (drop m ps)"
    using assms lincomb_half[of "take m v" m "drop m v" ps] by simp
  then show ?thesis
    using assms by (simp add: lincomb_sum fold_scalars_def fold_points_def pair_product sum.distrib pmul_sum)
qed

lemma inner_product_round:
  assumes "u \<noteq> 0" "length v = 2 * m" "length w = 2 * m"
  shows "inner_product (fold_scalars u (inverse u) m v) (fold_scalars (inverse u) u m w)
    = inner_product v w + inner_product (take m v) (drop m w) * (u * u)
      + inner_product (drop m v) (take m w) * (inverse u * inverse u)"
proof -
  have "(x * u + y * inverse u) * (z * inverse u + t * u) = x * z + y * t + (x * t * (u * u) + y * z * (inverse u * inverse u))"
    for x y z t using assms(1) by (simp add: field_simps)
  moreover have "(\<Sum>i<2 * m. v ! i * w ! i) = (\<Sum>i<m. v ! i * w ! i) + (\<Sum>i<m. v ! (m + i) * w ! (m + i))"
    using sum_lessThan_split[of "\<lambda>i. v ! i * w ! i" m m] by (simp add: mult_2)
  ultimately show ?thesis
    using assms(2,3) by (simp add: inner_product_sum fold_scalars_def sum.distrib sum_distrib_right)
qed

lemma ipp_statement_round:
  assumes "u \<noteq> 0" and "length a = 2 * m" "length b = 2 * m" "length G = 2 * m" "length H = 2 * m"
  shows "ipp_statement C Q (fold_scalars u (inverse u) m a) (fold_scalars (inverse u) u m b)
      (fold_points C (inverse u) u m G) (fold_points C u (inverse u) m H)
    = ipp_statement C Q a b G H + point_mul C (round_L C Q m a b G H) (u * u)
      + point_mul C (round_R C Q m a b G H) (inverse u * inverse u)"
  using assms lincomb_round[of u a m G] lincomb_round[of "inverse u" b m H] inner_product_round[of u a m b]
  by (simp add: ipp_statement_def round_L_def round_R_def pmul_add_point pmul_add pmul_mult algebra_simps)

section \<open>The verifier of the code\<close>

text \<open>What the replay of the rounds returns, and when it does.\<close>

lemma ipp_replay_length:
  "rfold (ipp_replay M C) (cs, t) lrs = Inr (us, t') \<Longrightarrow> length us = length cs + length lrs"
proof (induction lrs arbitrary: cs t)
  case (Cons lr lrs)
  then show ?case
    by (cases lr) (auto simp: ipp_replay_def validate_and_append_point_def Let_def split: if_splits prod.splits)
qed simp

lemma collect_decompress:
  "collect (\<lambda>p. ok_or (compressed_decompress C p) VerificationError) ps = Inr qs \<longleftrightarrow> map (compressed_decompress C) ps = map Some qs"
proof (induction ps arbitrary: qs)
  case (Cons p ps)
  then show ?case by (cases qs) (auto simp: ok_or_def split: option.splits)
qed auto

lemma verification_scalars_eq:
  assumes "length (ipp_R_vec pf) = length (ipp_L_vec pf)"
    and "\<And>us t'. rfold (ipp_replay M C) ([], innerproduct_domain_sep M n t) (zip (ipp_L_vec pf) (ipp_R_vec pf))
      = Inr (us, t') \<Longrightarrow> 0 \<notin> set us"
  shows "ipp_verification_scalars M C pf n t =
    (if length (ipp_L_vec pf) < 32 \<and> n = 2 ^ length (ipp_L_vec pf)
     then rbind (rfold (ipp_replay M C) ([], innerproduct_domain_sep M n t) (zip (ipp_L_vec pf) (ipp_R_vec pf)))
            (\<lambda>(us, t). Inr ((map (\<lambda>u. u * u) us, map (\<lambda>u. u * u) (map inverse us), s_list us), t))
     else Inl VerificationError)"
proof (cases "length (ipp_L_vec pf) < 32 \<and> n = 2 ^ length (ipp_L_vec pf)")
  case True
  let ?replay = "rfold (ipp_replay M C) ([], innerproduct_domain_sep M n t) (zip (ipp_L_vec pf) (ipp_R_vec pf))"
  have "scalar_batch_invert C us = (map inverse us, prod_list (map inverse us))"
    "ipp_s_vector (length (ipp_L_vec pf)) (prod_list (map inverse us)) (map (\<lambda>u. u * u) us) n = s_list us"
    if "?replay = Inr (us, t')" for us t'
    using ipp_replay_length[OF that] assms(1) assms(2)[OF that] True ipp_s_vector_eq[of us]
    by (auto simp: batch_invert_value)
  then show ?thesis
    using True
    by (cases ?replay) (auto simp: ipp_verification_scalars_def push_bit_eq_mult Let_def)
qed (auto simp: ipp_verification_scalars_def push_bit_eq_mult Let_def)

lemma verification_msm:
  assumes "length G = n" "length H = n" "length Gf = n" "length Hf = n" "n = 2 ^ length us"
    "length Ls = length us" "length Rs = length us"
  shows "vartime_msm C ([a * b] @ map (\<lambda>(g, s). (a * s) * g) (zip Gf (s_list us))
        @ map (\<lambda>(h, s). (b * s) * h) (zip Hf (rev (s_list us)))
        @ map uminus (map (\<lambda>u. u * u) us) @ map uminus (map (\<lambda>u. u * u) (map inverse us)))
        ([Q] @ G @ H @ Ls @ Rs) = P
    \<longleftrightarrow> ipp_check C Q a b (zip us (zip Ls Rs)) P
        (map (\<lambda>(g, x). point_mul C g x) (zip G Gf)) (map (\<lambda>(h, x). point_mul C h x) (zip H Hf))"
proof -
  let ?Gs = "map (\<lambda>(g, x). point_mul C g x) (zip G Gf)" and ?Hs = "map (\<lambda>(h, x). point_mul C h x) (zip H Hf)"
  have scaled: "lincomb C (map (\<lambda>(g, s). (x * s) * g) (zip xs ss)) ps
      = point_mul C (lincomb C ss (map (\<lambda>(p, x). point_mul C p x) (zip ps xs))) x"
    if "length xs = n" "length ss = n" "length ps = n" for x xs ss ps
    using that by (simp add: lincomb_sum pmul_sum pmul_mult mult_ac)
  have neg: "lincomb C (map uminus xs) ps = - lincomb C xs ps" if "length xs = length ps" for xs ps
    using that by (simp add: lincomb_sum[of _ "length ps"] pmul_minus sum_negf)
  have msm: "vartime_msm C ([a * b] @ map (\<lambda>(g, s). (a * s) * g) (zip Gf (s_list us))
        @ map (\<lambda>(h, s). (b * s) * h) (zip Hf (rev (s_list us)))
        @ map uminus (map (\<lambda>u. u * u) us) @ map uminus (map (\<lambda>u. u * u) (map inverse us)))
        ([Q] @ G @ H @ Ls @ Rs)
      = lincomb C [a * b] [Q] + (point_mul C (lincomb C (s_list us) ?Gs) a
        + (point_mul C (lincomb C (s_list (map inverse us)) ?Hs) b
        + (- lincomb C (map (\<lambda>u. u * u) us) Ls - lincomb C (map (\<lambda>u. u * u) (map inverse us)) Rs)))"
    using assms
    by (subst msm_lincomb) (simp_all add: lincomb_append scaled neg rev_s_list flip: append_Cons del: append_Cons append_Nil map_map)
  have rounds: "map (\<lambda>(u, L, R). u * u) (zip us (zip Ls Rs)) = map (\<lambda>u. u * u) us"
    "map (\<lambda>(u, L, R). inverse u * inverse u) (zip us (zip Ls Rs)) = map (\<lambda>u. u * u) (map inverse us)"
    "map (\<lambda>(u, L, R). L) (zip us (zip Ls Rs)) = Ls" "map (\<lambda>(u, L, R). R) (zip us (zip Ls Rs)) = Rs"
    "map fst (zip us (zip Ls Rs)) = us"
    using assms by (auto intro!: nth_equalityI)
  have check: "ipp_check C Q a b (zip us (zip Ls Rs)) P ?Gs ?Hs \<longleftrightarrow>
      P + lincomb C (map (\<lambda>u. u * u) us) Ls + lincomb C (map (\<lambda>u. u * u) (map inverse us)) Rs
      = point_mul C (lincomb C (s_list us) ?Gs) a + point_mul C (lincomb C (s_list (map inverse us)) ?Hs) b
        + point_mul C Q (a * b)"
    using assms by (subst ipp_check_iff) (simp_all add: rounds del: map_map)
  have "q + (g + (h + (- l - r))) = P \<longleftrightarrow> P + l + r = g + h + q" for q g h l r
    by (auto simp: algebra_simps)
  then show ?thesis
    unfolding msm check by (simp add: lincomb_def[of C "[_]"])
qed

text \<open>
  The code accepts exactly when the lengths fit, no round point is the identity, every point decodes
  and the textbook check holds for the challenges of the transcript.
\<close>

lemma ipp_verify_accepts:
  assumes "length (ipp_R_vec pf) = length (ipp_L_vec pf)"
    and "\<And>us t'. rfold (ipp_replay M C) ([], innerproduct_domain_sep M n t) (zip (ipp_L_vec pf) (ipp_R_vec pf))
      = Inr (us, t') \<Longrightarrow> 0 \<notin> set us"
  shows "ipp_verify M C pf n t G_factors H_factors P Q G H = Inr t' \<longleftrightarrow>
    length G = n \<and> length H = n \<and> length G_factors = n \<and> length H_factors = n
    \<and> n = 2 ^ length (ipp_L_vec pf) \<and> length (ipp_L_vec pf) < 32
    \<and> (\<exists>us Ls Rs. rfold (ipp_replay M C) ([], innerproduct_domain_sep M n t) (zip (ipp_L_vec pf) (ipp_R_vec pf)) = Inr (us, t')
        \<and> map (compressed_decompress C) (ipp_L_vec pf) = map Some Ls
        \<and> map (compressed_decompress C) (ipp_R_vec pf) = map Some Rs
        \<and> ipp_check C Q (ipp_a pf) (ipp_b pf) (zip us (zip Ls Rs)) P
            (map (\<lambda>(g, x). point_mul C g x) (zip G G_factors)) (map (\<lambda>(h, x). point_mul C h x) (zip H H_factors)))"
proof (cases "length G = n \<and> length H = n \<and> length G_factors = n \<and> length H_factors = n
    \<and> n = 2 ^ length (ipp_L_vec pf) \<and> length (ipp_L_vec pf) < 32")
  case True
  let ?replay = "rfold (ipp_replay M C) ([], innerproduct_domain_sep M n t) (zip (ipp_L_vec pf) (ipp_R_vec pf))"
  have code: "ipp_verify M C pf n t G_factors H_factors P Q G H = rbind ?replay (\<lambda>(us, t).
      rbind (collect (\<lambda>p. ok_or (compressed_decompress C p) VerificationError) (ipp_L_vec pf)) (\<lambda>Ls.
      rbind (collect (\<lambda>p. ok_or (compressed_decompress C p) VerificationError) (ipp_R_vec pf)) (\<lambda>Rs.
      if vartime_msm C ([ipp_a pf * ipp_b pf] @ map (\<lambda>(g, s). (ipp_a pf * s) * g) (zip G_factors (s_list us))
        @ map (\<lambda>(h, s). (ipp_b pf * s) * h) (zip H_factors (rev (s_list us)))
        @ map uminus (map (\<lambda>u. u * u) us) @ map uminus (map (\<lambda>u. u * u) (map inverse us)))
        ([Q] @ G @ H @ Ls @ Rs) = P then Inr t else Inl VerificationError)))"
  proof -
    have vs: "ipp_verification_scalars M C pf n t = rbind ?replay
        (\<lambda>(us, t). Inr ((map (\<lambda>u. u * u) us, map (\<lambda>u. u * u) (map inverse us), s_list us), t))"
      using True by (simp only: verification_scalars_eq[OF assms] if_True simp_thms)
    have "take (n + 1) G_factors = G_factors" "take (n + 1) H_factors = H_factors" using True by simp_all
    then show ?thesis
      using True unfolding ipp_verify_def vs Let_def
      by (cases ?replay) (simp_all del: map_map split: prod.split)
  qed
  have len: "length us = length (ipp_L_vec pf)" if "?replay = Inr (us, t'')" for us t''
    using ipp_replay_length[OF that] assms(1) by simp
  have lens: "map (compressed_decompress C) ps = map Some qs \<Longrightarrow> length qs = length ps" for ps and qs :: "'p list"
    by (metis length_map)
  show ?thesis
  proof (cases ?replay)
    case (Inr ut)
    then obtain us t'' where ut: "?replay = Inr (us, t'')" by (cases ut) auto
    let ?msm = "\<lambda>Ls Rs. vartime_msm C ([ipp_a pf * ipp_b pf] @ map (\<lambda>(g, s). (ipp_a pf * s) * g) (zip G_factors (s_list us))
        @ map (\<lambda>(h, s). (ipp_b pf * s) * h) (zip H_factors (rev (s_list us)))
        @ map uminus (map (\<lambda>u. u * u) us) @ map uminus (map (\<lambda>u. u * u) (map inverse us)))
        ([Q] @ G @ H @ Ls @ Rs)"
    have split: "rbind A (\<lambda>Ls. rbind B (\<lambda>Rs. if msm Ls Rs = P then Inr t'' else Inl VerificationError)) = Inr t'
        \<longleftrightarrow> t'' = t' \<and> (\<exists>Ls Rs. A = Inr Ls \<and> B = Inr Rs \<and> msm Ls Rs = P)" for A B and msm :: "'p list \<Rightarrow> 'p list \<Rightarrow> 'p"
      by (cases A; cases B) auto
    have "map (compressed_decompress C) (ipp_L_vec pf) = map Some Ls
        \<and> map (compressed_decompress C) (ipp_R_vec pf) = map Some Rs \<and> ?msm Ls Rs = P
      \<longleftrightarrow> map (compressed_decompress C) (ipp_L_vec pf) = map Some Ls
        \<and> map (compressed_decompress C) (ipp_R_vec pf) = map Some Rs
        \<and> ipp_check C Q (ipp_a pf) (ipp_b pf) (zip us (zip Ls Rs)) P
            (map (\<lambda>(g, x). point_mul C g x) (zip G G_factors)) (map (\<lambda>(h, x). point_mul C h x) (zip H H_factors))"
      for Ls Rs
    proof (intro conj_cong refl verification_msm)
      assume "map (compressed_decompress C) (ipp_L_vec pf) = map Some Ls"
      then show "length Ls = length us" using lens len[OF ut] by simp
      assume "map (compressed_decompress C) (ipp_R_vec pf) = map Some Rs"
      then show "length Rs = length us" using lens len[OF ut] assms(1) by simp
    qed (use True len[OF ut] in simp_all)
    then show ?thesis
      unfolding code ut rbind_Inr prod.case split collect_decompress using True by blast
  qed (simp add: code)
next
  case False
  then show ?thesis
    by (auto simp: ipp_verify_def verification_scalars_eq[OF assms] Let_def)
qed

section \<open>The honest prover\<close>

lemma ipp_fold_rounds:
  assumes "length a = 2 ^ k" "length b = 2 ^ k" "length G = 2 ^ k" "length H = 2 ^ k"
  shows "\<exists>us Ls Rs x y t'. length us = k \<and> length Ls = k \<and> length Rs = k
    \<and> ipp_fold M C k t Q a b G H Lacc Racc
        = (\<lparr>ipp_L_vec = Lacc @ map (point_compress C) Ls, ipp_R_vec = Racc @ map (point_compress C) Rs,
            ipp_a = x, ipp_b = y\<rparr>, t')
    \<and> (0 \<notin> set Ls \<union> set Rs \<longrightarrow> (\<forall>cs. rfold (ipp_replay M C) (cs, t)
          (zip (map (point_compress C) Ls) (map (point_compress C) Rs)) = Inr (cs @ us, t')))
    \<and> (0 \<notin> set us \<longrightarrow> ipp_check C Q x y (zip us (zip Ls Rs)) (ipp_statement C Q a b G H) G H)"
  using assms
proof (induction k arbitrary: t a b G H Lacc Racc)
  case 0
  then have "lincomb C v ps = point_mul C (ps ! 0) (v ! 0)" if "length v = 1" "length ps = 1" for v ps
    using that by (simp add: lincomb_sum[where n = 1])
  moreover have "inner_product a b = a ! 0 * b ! 0" using 0 by (simp add: inner_product_sum)
  ultimately show ?case using 0 by (simp add: ipp_statement_def)
next
  case (Suc k)
  let ?m = "2 ^ k :: nat"
  define L where "L = round_L C Q ?m a b G H"
  define R where "R = round_R C Q ?m a b G H"
  obtain u t1 where ch: "ipp_challenge M C (point_compress C L) (point_compress C R) t = (u, t1)" by fastforce
  let ?a = "fold_scalars u (inverse u) ?m a" and ?b = "fold_scalars (inverse u) u ?m b"
  let ?G = "fold_points C (inverse u) u ?m G" and ?H = "fold_points C u (inverse u) ?m H"
  obtain us Ls Rs x y t' where ih: "length us = k" "length Ls = k" "length Rs = k"
      "ipp_fold M C k t1 Q ?a ?b ?G ?H (Lacc @ [point_compress C L]) (Racc @ [point_compress C R])
        = (\<lparr>ipp_L_vec = (Lacc @ [point_compress C L]) @ map (point_compress C) Ls,
            ipp_R_vec = (Racc @ [point_compress C R]) @ map (point_compress C) Rs, ipp_a = x, ipp_b = y\<rparr>, t')"
      "0 \<notin> set Ls \<union> set Rs \<longrightarrow> (\<forall>cs. rfold (ipp_replay M C) (cs, t1)
          (zip (map (point_compress C) Ls) (map (point_compress C) Rs)) = Inr (cs @ us, t'))"
      "0 \<notin> set us \<longrightarrow> ipp_check C Q x y (zip us (zip Ls Rs)) (ipp_statement C Q ?a ?b ?G ?H) ?G ?H"
    using Suc.IH[where a = ?a and b = ?b and G = ?G and H = ?H and t = t1 and Lacc = "Lacc @ [point_compress C L]"
        and Racc = "Racc @ [point_compress C R]", OF length_fold_scalars length_fold_scalars length_fold_points length_fold_points]
    by (elim exE conjE) (rule that; assumption)
  have create: "ipp_fold M C (Suc k) t Q a b G H Lacc Racc
      = (\<lparr>ipp_L_vec = Lacc @ map (point_compress C) (L # Ls), ipp_R_vec = Racc @ map (point_compress C) (R # Rs),
          ipp_a = x, ipp_b = y\<rparr>, t')"
    using ih(4) ch by (simp add: Let_def L_def R_def)
  have replay: "rfold (ipp_replay M C) (cs, t)
      (zip (map (point_compress C) (L # Ls)) (map (point_compress C) (R # Rs))) = Inr (cs @ u # us, t')"
    if "0 \<notin> set (L # Ls) \<union> set (R # Rs)" for cs
    using that ih(5) ch
    by (simp add: ipp_replay_def validate_and_append_point_def is_identity_compress ipp_challenge_def append_point_def)
  have check: "ipp_check C Q x y (zip (u # us) (zip (L # Ls) (R # Rs))) (ipp_statement C Q a b G H) G H"
    if "0 \<notin> set (u # us)"
  proof -
    have "length a = 2 * ?m" "length b = 2 * ?m" "length G = 2 * ?m" "length H = 2 * ?m" using Suc.prems by simp_all
    with that ipp_statement_round[of u a ?m b G H Q] ih(6)
    show ?thesis by (simp add: L_def R_def Let_def)
  qed
  show ?case
    by (intro exI[of _ "u # us"] exI[of _ "L # Ls"] exI[of _ "R # Rs"] exI[of _ x] exI[of _ y] exI[of _ t'] conjI)
      (use ih(1-3) create replay check in simp_all)
qed

text \<open>The rounds of a created proof.\<close>

lemma ipp_create_rounds:
  assumes k: "k < 32" and len: "length G = 2 ^ k" "length H = 2 ^ k" "length a = 2 ^ k" "length b = 2 ^ k"
      "length G_factors = 2 ^ k" "length H_factors = 2 ^ k"
    and create: "ipp_create M C t Q G_factors H_factors G H a b = (pf, t')"
  defines "G' \<equiv> map (\<lambda>(g, x). point_mul C g x) (zip (map (affine_to_point C) G) G_factors)"
    and "H' \<equiv> map (\<lambda>(h, x). point_mul C h x) (zip (map (affine_to_point C) H) H_factors)"
  obtains us Ls Rs x y where "length us = k" "length Ls = k" "length Rs = k"
      "pf = \<lparr>ipp_L_vec = map (point_compress C) Ls, ipp_R_vec = map (point_compress C) Rs, ipp_a = x, ipp_b = y\<rparr>"
      "0 \<notin> set Ls \<union> set Rs \<longrightarrow> (\<forall>cs. rfold (ipp_replay M C) (cs, innerproduct_domain_sep M (2 ^ k) t)
          (zip (map (point_compress C) Ls) (map (point_compress C) Rs)) = Inr (cs @ us, t'))"
      "0 \<notin> set us \<longrightarrow> ipp_check C Q x y (zip us (zip Ls Rs)) (ipp_statement C Q a b G' H') G' H'"
proof -
  have scaled: "map (\<lambda>(g, x). point_mul C (affine_to_point C g) x) (zip ps xs)
      = map (\<lambda>(g, x). point_mul C g x) (zip (map (affine_to_point C) ps) xs)" for ps xs
    by (simp add: zip_map1 comp_def case_prod_unfold)
  have "k < 64" using k by simp
  from ipp_create_fold[OF this len(1,2,3,4,5,6), of M t Q] create
  have fold: "ipp_fold M C k (innerproduct_domain_sep M (2 ^ k) t) Q a b G' H' [] [] = (pf, t')"
    unfolding scaled G'_def H'_def by simp
  have GH: "length G' = 2 ^ k" "length H' = 2 ^ k" using len by (simp_all add: G'_def H'_def)
  show ?thesis
    using ipp_fold_rounds[OF len(3,4) GH, of M "innerproduct_domain_sep M (2 ^ k) t" Q "[]" "[]", unfolded fold]
    by (elim exE conjE) (rule that; simp)
qed

lemma replay_not_identity:
  "rfold (ipp_replay M C) (cs, t) (zip (map (point_compress C) Ls) (map (point_compress C) Rs)) = Inr out
    \<Longrightarrow> length Ls = length Rs \<Longrightarrow> 0 \<notin> set Ls \<union> set Rs"
proof (induction Ls arbitrary: cs t Rs)
  case (Cons L Ls)
  then obtain R Rs' where R: "Rs = R # Rs'" by (cases Rs) auto
  with Cons.prems have "L \<noteq> 0 \<and> R \<noteq> 0"
    by (auto simp: ipp_replay_def validate_and_append_point_def is_identity_compress split: if_splits)
  moreover obtain cs' t1 where "rfold (ipp_replay M C) (cs', t1) (zip (map (point_compress C) Ls) (map (point_compress C) Rs')) = Inr out"
    using Cons.prems(1) R by (auto simp del: split_paired_Ex)
  ultimately show ?case using Cons.IH[of cs' t1 Rs'] Cons.prems(2) R by auto
qed simp

text \<open>What the scalars that the verifier computes satisfy on a created proof.\<close>

lemma ipp_create_equation:
  assumes k: "k < 32" and len: "length G = 2 ^ k" "length H = 2 ^ k" "length a = 2 ^ k" "length b = 2 ^ k"
      "length G_factors = 2 ^ k" "length H_factors = 2 ^ k"
    and create: "ipp_create M C t Q G_factors H_factors G H a b = (pf, t')"
    and scalars: "ipp_verification_scalars M C pf (2 ^ k) t = Inr ((u_sq, u_inv_sq, s), t'')"
    and challenges: "\<And>us t'. rfold (ipp_replay M C) ([], innerproduct_domain_sep M (2 ^ k) t)
      (zip (ipp_L_vec pf) (ipp_R_vec pf)) = Inr (us, t') \<Longrightarrow> 0 \<notin> set us"
  defines "G' \<equiv> map (\<lambda>(g, x). point_mul C g x) (zip (map (affine_to_point C) G) G_factors)"
    and "H' \<equiv> map (\<lambda>(h, x). point_mul C h x) (zip (map (affine_to_point C) H) H_factors)"
  obtains Ls Rs where "map (compressed_decompress C) (ipp_L_vec pf) = map Some Ls"
      "map (compressed_decompress C) (ipp_R_vec pf) = map Some Rs"
      "length Ls = length u_sq" "length Rs = length u_inv_sq" "length s = 2 ^ k" "t'' = t'"
      "ipp_statement C Q a b G' H' + lincomb C u_sq Ls + lincomb C u_inv_sq Rs
        = point_mul C (lincomb C s G') (ipp_a pf) + point_mul C (lincomb C (rev s) H') (ipp_b pf)
          + point_mul C Q (ipp_a pf * ipp_b pf)"
proof -
  obtain us Ls Rs x y where r: "length us = k" "length Ls = k" "length Rs = k"
      "pf = \<lparr>ipp_L_vec = map (point_compress C) Ls, ipp_R_vec = map (point_compress C) Rs, ipp_a = x, ipp_b = y\<rparr>"
      "0 \<notin> set Ls \<union> set Rs \<longrightarrow> (\<forall>cs. rfold (ipp_replay M C) (cs, innerproduct_domain_sep M (2 ^ k) t)
          (zip (map (point_compress C) Ls) (map (point_compress C) Rs)) = Inr (cs @ us, t'))"
      "0 \<notin> set us \<longrightarrow> ipp_check C Q x y (zip us (zip Ls Rs)) (ipp_statement C Q a b G' H') G' H'"
    using ipp_create_rounds[OF k len create] unfolding G'_def H'_def by blast
  have lens: "length (ipp_R_vec pf) = length (ipp_L_vec pf)" "length (ipp_L_vec pf) = k" using r(2-4) by simp_all
  let ?replay = "rfold (ipp_replay M C) ([], innerproduct_domain_sep M (2 ^ k) t) (zip (ipp_L_vec pf) (ipp_R_vec pf))"
  obtain us' where us': "?replay = Inr (us', t'')" "u_sq = map (\<lambda>u. u * u) us'"
      "u_inv_sq = map (\<lambda>u. u * u) (map inverse us')" "s = s_list us'"
    using scalars k lens(2) verification_scalars_eq[OF lens(1), of M "2 ^ k" t, OF challenges]
    by (cases "?replay") (auto split: if_splits)
  have "0 \<notin> set Ls \<union> set Rs" using replay_not_identity[of M "[]" _ Ls Rs] us'(1) r(2-4) by simp
  with r(4,5) us'(1) have eq: "us' = us" "t'' = t'" by simp_all
  have "0 \<notin> set us" using challenges us'(1) eq by blast
  with r(6) have "ipp_check C Q x y (zip us (zip Ls Rs)) (ipp_statement C Q a b G' H') G' H'" by simp
  moreover have "length G' = 2 ^ length (zip us (zip Ls Rs))" "length H' = 2 ^ length (zip us (zip Ls Rs))"
    using len r(1-3) by (simp_all add: G'_def H'_def)
  moreover have "map (\<lambda>(u, L, R). u * u) (zip us (zip Ls Rs)) = u_sq"
    "map (\<lambda>(u, L, R). inverse u * inverse u) (zip us (zip Ls Rs)) = u_inv_sq"
    "map (\<lambda>(u, L, R). L) (zip us (zip Ls Rs)) = Ls" "map (\<lambda>(u, L, R). R) (zip us (zip Ls Rs)) = Rs"
    "map fst (zip us (zip Ls Rs)) = us"
    using r(1-3) us' eq by (auto intro!: nth_equalityI)
  ultimately have "ipp_statement C Q a b G' H' + lincomb C u_sq Ls + lincomb C u_inv_sq Rs
        = point_mul C (lincomb C s G') (ipp_a pf) + point_mul C (lincomb C (rev s) H') (ipp_b pf)
          + point_mul C Q (ipp_a pf * ipp_b pf)"
    using us'(4) eq(1) r(4) by (simp add: ipp_check_iff rev_s_list)
  then show ?thesis
    using that[of Ls Rs] r(1-4) us' eq by (simp add: decompress_compress)
qed

lemma ipp_create_verifies:
  assumes k: "k < 32" and len: "length G = 2 ^ k" "length H = 2 ^ k" "length a = 2 ^ k" "length b = 2 ^ k"
      "length G_factors = 2 ^ k" "length H_factors = 2 ^ k"
    and create: "ipp_create M C t Q G_factors H_factors G H a b = (pf, t')"
    and points: "\<forall>c \<in> set (ipp_L_vec pf) \<union> set (ipp_R_vec pf). \<not> compressed_is_identity C c"
    and challenges: "\<And>us t'. rfold (ipp_replay M C) ([], innerproduct_domain_sep M (2 ^ k) t)
      (zip (ipp_L_vec pf) (ipp_R_vec pf)) = Inr (us, t') \<Longrightarrow> 0 \<notin> set us"
  shows "ipp_verify M C pf (2 ^ k) t G_factors H_factors
      (vartime_msm_affine C (map (\<lambda>(x, g). x * g) (zip a G_factors) @ map (\<lambda>(x, h). x * h) (zip b H_factors)
          @ [inner_product a b]) (G @ H @ [point_to_affine C Q]))
      Q (map (affine_to_point C) G) (map (affine_to_point C) H) = Inr t'"
proof -
  let ?G = "map (\<lambda>(g, x). point_mul C g x) (zip (map (affine_to_point C) G) G_factors)"
  let ?H = "map (\<lambda>(h, x). point_mul C h x) (zip (map (affine_to_point C) H) H_factors)"
  obtain us Ls Rs x y where r: "length us = k" "length Ls = k" "length Rs = k"
      "pf = \<lparr>ipp_L_vec = map (point_compress C) Ls, ipp_R_vec = map (point_compress C) Rs, ipp_a = x, ipp_b = y\<rparr>"
      "0 \<notin> set Ls \<union> set Rs \<longrightarrow> (\<forall>cs. rfold (ipp_replay M C) (cs, innerproduct_domain_sep M (2 ^ k) t)
          (zip (map (point_compress C) Ls) (map (point_compress C) Rs)) = Inr (cs @ us, t'))"
      "0 \<notin> set us \<longrightarrow> ipp_check C Q x y (zip us (zip Ls Rs)) (ipp_statement C Q a b ?G ?H) ?G ?H"
    using ipp_create_rounds[OF k len create] by blast
  have replay: "rfold (ipp_replay M C) ([], innerproduct_domain_sep M (2 ^ k) t)
      (zip (ipp_L_vec pf) (ipp_R_vec pf)) = Inr (us, t')"
  proof -
    have "\<not> compressed_is_identity C (point_compress C p)" if "p \<in> set Ls \<union> set Rs" for p
      using that points r(4) by auto
    then have "0 \<notin> set Ls \<union> set Rs" by (auto simp: is_identity_compress)
    with r(4,5) show ?thesis by simp
  qed
  have P: "vartime_msm_affine C (map (\<lambda>(x, g). x * g) (zip a G_factors) @ map (\<lambda>(x, h). x * h) (zip b H_factors)
        @ [inner_product a b]) (G @ H @ [point_to_affine C Q]) = ipp_statement C Q a b ?G ?H"
  proof -
    have "lincomb C (map (\<lambda>(x, g). x * g) (zip v xs)) ps = lincomb C v (map (\<lambda>(g, x). point_mul C g x) (zip ps xs))"
      if "length v = 2 ^ k" "length xs = 2 ^ k" "length ps = 2 ^ k" for v xs ps
      using that by (simp add: lincomb_sum pmul_mult mult.commute)
    then show ?thesis
      using len by (simp add: msm_affine_lincomb lincomb_append ipp_statement_def affine_point)
        (simp add: lincomb_def add.assoc)
  qed
  have decode: "map (compressed_decompress C) (map (point_compress C) ps) = map Some ps" for ps
    by (simp add: decompress_compress)
  show ?thesis
    unfolding P
  proof (subst ipp_verify_accepts)
    show "length (ipp_R_vec pf) = length (ipp_L_vec pf)" using r(2-4) by simp
    have "ipp_check C Q (ipp_a pf) (ipp_b pf) (zip us (zip Ls Rs)) (ipp_statement C Q a b ?G ?H) ?G ?H"
      using r(4,6) challenges[OF replay] by simp
    with replay decode[of Ls] decode[of Rs] r(2-4) k len
    show "length (map (affine_to_point C) G) = 2 ^ k \<and> length (map (affine_to_point C) H) = 2 ^ k
      \<and> length G_factors = 2 ^ k \<and> length H_factors = 2 ^ k \<and> 2 ^ k = 2 ^ length (ipp_L_vec pf)
      \<and> length (ipp_L_vec pf) < 32
      \<and> (\<exists>us Ls Rs. rfold (ipp_replay M C) ([], innerproduct_domain_sep M (2 ^ k) t) (zip (ipp_L_vec pf) (ipp_R_vec pf))
            = Inr (us, t')
          \<and> map (compressed_decompress C) (ipp_L_vec pf) = map Some Ls
          \<and> map (compressed_decompress C) (ipp_R_vec pf) = map Some Rs
          \<and> ipp_check C Q (ipp_a pf) (ipp_b pf) (zip us (zip Ls Rs)) (ipp_statement C Q a b ?G ?H) ?G ?H)"
      by (auto simp del: map_map)
  qed (rule challenges)
qed

end

end
