(* ===== verification/R1cs_Replay.thy ===== *)
theory R1cs_Replay
  imports R1cs_Circuits R1cs_Algebra Inner_Product_Check
begin

text \<open>
  The verifier replays the prover's transcript: on a proof whose points are not the identity it derives the
  challenges that the prover answered. \<open>replay_challenges\<close> is the part of the transcript after the
  deferred circuits, as a function of the proof.
\<close>

section \<open>The challenges of a proof\<close>

definition second_phase_challenges ::
  "('t, 'y) merlin_scheme \<Rightarrow> ('s, 'p, 'a, 'c, 'z) cycle_scheme \<Rightarrow> 'c \<Rightarrow> 'c \<Rightarrow> 'c \<Rightarrow> 't \<Rightarrow> 's \<times> 's \<times> 't" where
  "second_phase_challenges M C A_I2 A_O2 S2 t =
     (let (y, t) = challenge_scalar M C (ascii ''y'') (append_point M C (ascii ''S2'') S2
            (append_point M C (ascii ''A_O2'') A_O2 (append_point M C (ascii ''A_I2'') A_I2 t)));
          (z, t) = challenge_scalar M C (ascii ''z'') t
      in (y, z, t))"

definition polynomial_challenges ::
  "('t, 'y) merlin_scheme \<Rightarrow> ('s, 'p, 'a, 'c, 'z) cycle_scheme \<Rightarrow> 'c \<Rightarrow> 'c \<Rightarrow> 'c \<Rightarrow> 'c \<Rightarrow> 'c \<Rightarrow> 't \<Rightarrow> 's \<times> 's \<times> 't" where
  "polynomial_challenges M C T_1 T_3 T_4 T_5 T_6 t =
     (let (u, t) = challenge_scalar M C (ascii ''u'') (append_point M C (ascii ''T_6'') T_6
            (append_point M C (ascii ''T_5'') T_5 (append_point M C (ascii ''T_4'') T_4
            (append_point M C (ascii ''T_3'') T_3 (append_point M C (ascii ''T_1'') T_1 t)))));
          (x, t) = challenge_scalar M C (ascii ''x'') t
      in (u, x, t))"

definition response_challenge ::
  "('t, 'y) merlin_scheme \<Rightarrow> ('s, 'p, 'a, 'c, 'z) cycle_scheme \<Rightarrow> 's \<Rightarrow> 's \<Rightarrow> 's \<Rightarrow> 't \<Rightarrow> 's \<times> 't" where
  "response_challenge M C t_x t_x_blinding e_blinding t =
     challenge_scalar M C (ascii ''w'') (append_scalar M C (ascii ''e_blinding'') e_blinding
       (append_scalar M C (ascii ''t_x_blinding'') t_x_blinding (append_scalar M C (ascii ''t_x'') t_x t)))"

definition replay_challenges ::
  "('t, 'y) merlin_scheme \<Rightarrow> ('s, 'p, 'a, 'c, 'z) cycle_scheme \<Rightarrow> ('s, 'c) r1cs_proof \<Rightarrow> 't \<Rightarrow> 's challenges \<times> 't" where
  "replay_challenges M C pf t =
     (let (y, z, t) = second_phase_challenges M C (rp_A_I2 pf) (rp_A_O2 pf) (rp_S2 pf) t;
          (u, x, t) = polynomial_challenges M C (rp_T_1 pf) (rp_T_3 pf) (rp_T_4 pf) (rp_T_5 pf) (rp_T_6 pf) t;
          (w, t) = response_challenge M C (rp_t_x pf) (rp_t_x_blinding pf) (rp_e_blinding pf) t
      in (\<lparr>ch_y = y, ch_z = z, ch_u = u, ch_x = x, ch_w = w\<rparr>, t))"

text \<open>The points of a proof that the verifier rejects when they are the identity.\<close>

definition checked_points :: "('s, 'c) r1cs_proof \<Rightarrow> 'c list" where
  "checked_points pf = [rp_A_I1 pf, rp_A_O1 pf, rp_S1 pf, rp_T_1 pf, rp_T_3 pf, rp_T_4 pf, rp_T_5 pf, rp_T_6 pf]"

lemma validate_point:
  "\<not> compressed_is_identity C point \<Longrightarrow>
    map_err r1cs_error_from (validate_and_append_point M C label point t) = Inr (append_point M C label point t)"
  by (simp add: validate_and_append_point_def append_point_def)

lemma verifier_replay_eq:
  assumes "\<forall>point \<in> set (checked_points pf). \<not> compressed_is_identity C point"
    and "verifier_create_randomized_constraints M C (vf\<lparr>ve_transcript :=
      append_point M C (ascii ''S1'') (rp_S1 pf) (append_point M C (ascii ''A_O1'') (rp_A_O1 pf)
        (append_point M C (ascii ''A_I1'') (rp_A_I1 pf) (append_u64 M (ascii ''m'') (length (ve_V vf)) (ve_transcript vf))))\<rparr>)
      = Inr vf'"
    and "next_power_of_two (ve_num_vars vf') \<le> gens_capacity bp_gens"
    and "replay_challenges M C pf (ve_transcript vf') = (ch, t)"
  shows "verifier_replay M C bp_gens pf vf = Inr (ch, vf'\<lparr>ve_transcript := t\<rparr>)"
proof -
  obtain y z t1 where 1: "second_phase_challenges M C (rp_A_I2 pf) (rp_A_O2 pf) (rp_S2 pf) (ve_transcript vf') = (y, z, t1)"
    by (metis prod_cases3)
  obtain u x t2 where 2: "polynomial_challenges M C (rp_T_1 pf) (rp_T_3 pf) (rp_T_4 pf) (rp_T_5 pf) (rp_T_6 pf) t1 = (u, x, t2)"
    by (metis prod_cases3)
  obtain w t3 where 3: "response_challenge M C (rp_t_x pf) (rp_t_x_blinding pf) (rp_e_blinding pf) t2 = (w, t3)"
    by fastforce
  have ch: "ch = \<lparr>ch_y = y, ch_z = z, ch_u = u, ch_x = x, ch_w = w\<rparr>" "t = t3"
    using assms(4) 1 2 3 by (simp_all add: replay_challenges_def)
  have points: "\<not> compressed_is_identity C (rp_A_I1 pf)" "\<not> compressed_is_identity C (rp_A_O1 pf)"
    "\<not> compressed_is_identity C (rp_S1 pf)" "\<not> compressed_is_identity C (rp_T_1 pf)"
    "\<not> compressed_is_identity C (rp_T_3 pf)" "\<not> compressed_is_identity C (rp_T_4 pf)"
    "\<not> compressed_is_identity C (rp_T_5 pf)" "\<not> compressed_is_identity C (rp_T_6 pf)"
    using assms(1) by (simp_all add: checked_points_def)
  note steps = 1[unfolded second_phase_challenges_def Let_def] 2[unfolded polynomial_challenges_def Let_def]
    3[unfolded response_challenge_def]
  show ?thesis
    using assms(3) steps
    by (simp add: verifier_replay_def Let_def validate_point points assms(2) ch split: prod.splits)
qed


section \<open>What the prover answers\<close>

definition g_factors :: "nat \<Rightarrow> nat \<Rightarrow> 's::field \<Rightarrow> 's list" where
  "g_factors n1 m u = replicate n1 1 @ replicate m u"

lemma prover_respond_replay:
  fixes C :: "('s::field, 'p::ab_group_add, 'a, 'c, 'z) cycle_scheme"
  assumes respond: "prover_respond M C R bp_gens n1 first second p rng = (pf, t')"
    and ch: "replay_challenges M C pf (pr_transcript p) = (ch, tw)"
  defines "s \<equiv> pr_secrets p" and "pc \<equiv> pr_pc_gens p" and "n \<equiv> length (secret_a_L (pr_secrets p))"
    and "N \<equiv> next_power_of_two (length (secret_a_L (pr_secrets p)))"
  obtains wL wR wO wV l_poly r_poly exp_y l_vec r_vec b1 b3 b4 b5 b6
  where "prover_flattened_constraints p (ch_z ch) = (wL, wR, wO, wV)"
    and "prover_polynomials C s wL wR wO (ch_y ch) n N (ph_s_L first @ ph_s_L second) (ph_s_R first @ ph_s_R second)
      = (l_poly, r_poly, exp_y)"
    and "response_vectors l_poly r_poly exp_y (ch_y ch) (ch_x ch) n N = (l_vec, r_vec)"
    and "pf = \<lparr>rp_A_I1 = ph_A_I first, rp_A_O1 = ph_A_O first, rp_S1 = ph_S first,
      rp_A_I2 = ph_A_I second, rp_A_O2 = ph_A_O second, rp_S2 = ph_S second,
      rp_T_1 = point_compress C (pedersen_commit C pc (t1 (special_inner_product l_poly r_poly)) b1),
      rp_T_3 = point_compress C (pedersen_commit C pc (t3 (special_inner_product l_poly r_poly)) b3),
      rp_T_4 = point_compress C (pedersen_commit C pc (t4 (special_inner_product l_poly r_poly)) b4),
      rp_T_5 = point_compress C (pedersen_commit C pc (t5 (special_inner_product l_poly r_poly)) b5),
      rp_T_6 = point_compress C (pedersen_commit C pc (t6 (special_inner_product l_poly r_poly)) b6),
      rp_t_x = poly6_eval (special_inner_product l_poly r_poly) (ch_x ch),
      rp_t_x_blinding = t_x_blinding_at (ch_x ch) b1 (fold (\<lambda>(c, v_b) acc. acc + c * v_b) (zip wV (secret_v_blinding s)) 0)
        b3 b4 b5 b6,
      rp_e_blinding = ch_x ch * (ph_i_blinding first + ch_u ch * ph_i_blinding second
        + ch_x ch * (ph_o_blinding first + ch_u ch * ph_o_blinding second
        + ch_x ch * (ph_s_blinding first + ch_u ch * ph_s_blinding second))),
      rp_ipp_proof = rp_ipp_proof pf\<rparr>"
    and "ipp_create M C tw (point_mul C (ped_B pc) (ch_w ch)) (g_factors n1 (n - n1 + (N - n)) (ch_u ch))
      (map (\<lambda>(y, u_or_1). y * u_or_1) (zip (exp_iter N (scalar_invert C (ch_y ch))) (g_factors n1 (n - n1 + (N - n)) (ch_u ch))))
      (take N (shared_G bp_gens 0)) (take N (shared_H bp_gens 0)) l_vec r_vec = (rp_ipp_proof pf, t')"
proof -
  obtain y ty where y: "challenge_scalar M C (ascii ''y'') (append_point M C (ascii ''S2'') (ph_S second)
      (append_point M C (ascii ''A_O2'') (ph_A_O second) (append_point M C (ascii ''A_I2'') (ph_A_I second) (pr_transcript p))))
      = (y, ty)" by fastforce
  obtain z tz where z: "challenge_scalar M C (ascii ''z'') ty = (z, tz)" by fastforce
  obtain wL wR wO wV where w: "prover_flattened_constraints p z = (wL, wR, wO, wV)" by (metis prod_cases4)
  obtain l_poly r_poly exp_y where polys: "prover_polynomials C s wL wR wO y n N
      (ph_s_L first @ ph_s_L second) (ph_s_R first @ ph_s_R second) = (l_poly, r_poly, exp_y)" by (metis prod_cases3)
  obtain b1 r1 where b1: "scalar_random R rng = (b1, r1)" by fastforce
  obtain b3 r3 where b3: "scalar_random R r1 = (b3, r3)" by fastforce
  obtain b4 r4 where b4: "scalar_random R r3 = (b4, r4)" by fastforce
  obtain b5 r5 where b5: "scalar_random R r4 = (b5, r5)" by fastforce
  obtain b6 r6 where b6: "scalar_random R r5 = (b6, r6)" by fastforce
  define T where "T = special_inner_product l_poly r_poly"
  let ?T = "\<lambda>f b. point_compress C (pedersen_commit C pc (f T) b)"
  obtain u tu where u: "challenge_scalar M C (ascii ''u'') (append_point M C (ascii ''T_6'') (?T t6 b6)
      (append_point M C (ascii ''T_5'') (?T t5 b5) (append_point M C (ascii ''T_4'') (?T t4 b4)
      (append_point M C (ascii ''T_3'') (?T t3 b3) (append_point M C (ascii ''T_1'') (?T t1 b1) tz))))) = (u, tu)" by fastforce
  obtain x tx where x: "challenge_scalar M C (ascii ''x'') tu = (x, tx)" by fastforce
  define t_x where "t_x = poly6_eval T x"
  define t_x_b where "t_x_b = t_x_blinding_at x b1 (fold (\<lambda>(c, v_b) acc. acc + c * v_b) (zip wV (secret_v_blinding s)) 0) b3 b4 b5 b6"
  define e_b where "e_b = x * (ph_i_blinding first + u * ph_i_blinding second
        + x * (ph_o_blinding first + u * ph_o_blinding second + x * (ph_s_blinding first + u * ph_s_blinding second)))"
  obtain l_vec r_vec where lr: "response_vectors l_poly r_poly exp_y y x n N = (l_vec, r_vec)" by fastforce
  obtain c tw' where c: "response_challenge M C t_x t_x_b e_b tx = (c, tw')" by fastforce
  let ?f = "g_factors n1 (n - n1 + (N - n)) u"
  obtain ipp t'' where ipp: "ipp_create M C tw' (point_mul C (ped_B pc) c) ?f
      (map (\<lambda>(y, u_or_1). y * u_or_1) (zip (exp_iter N (scalar_invert C y)) ?f))
      (take N (shared_G bp_gens 0)) (take N (shared_H bp_gens 0)) l_vec r_vec = (ipp, t'')" by fastforce
  have N: "next_power_of_two n = N" by (simp add: N_def n_def)
  note ids = s_def[symmetric] n_def[symmetric, folded s_def] N pc_def[symmetric]
    T_def[symmetric] t_x_def[symmetric] t_x_b_def[symmetric] e_b_def[symmetric] g_factors_def[symmetric]
    response_challenge_def[symmetric]
  have "prover_respond M C R bp_gens n1 first second p rng
    = (\<lparr>rp_A_I1 = ph_A_I first, rp_A_O1 = ph_A_O first, rp_S1 = ph_S first,
      rp_A_I2 = ph_A_I second, rp_A_O2 = ph_A_O second, rp_S2 = ph_S second,
      rp_T_1 = ?T t1 b1, rp_T_3 = ?T t3 b3, rp_T_4 = ?T t4 b4, rp_T_5 = ?T t5 b5, rp_T_6 = ?T t6 b6,
      rp_t_x = t_x, rp_t_x_blinding = t_x_b, rp_e_blinding = e_b, rp_ipp_proof = ipp\<rparr>, t'')"
    by (simp only: prover_respond_def Let_def ids y z w polys b1 b3 b4 b5 b6 u x lr c ipp prod.case)
  with respond have final: "pf = \<lparr>rp_A_I1 = ph_A_I first, rp_A_O1 = ph_A_O first, rp_S1 = ph_S first,
      rp_A_I2 = ph_A_I second, rp_A_O2 = ph_A_O second, rp_S2 = ph_S second,
      rp_T_1 = ?T t1 b1, rp_T_3 = ?T t3 b3, rp_T_4 = ?T t4 b4, rp_T_5 = ?T t5 b5, rp_T_6 = ?T t6 b6,
      rp_t_x = t_x, rp_t_x_blinding = t_x_b, rp_e_blinding = e_b, rp_ipp_proof = ipp\<rparr>" "t' = t''"
    by simp_all
  have "ch = \<lparr>ch_y = y, ch_z = z, ch_u = u, ch_x = x, ch_w = c\<rparr>" "tw = tw'"
    using ch y z u x c
    by (simp_all add: final(1) replay_challenges_def second_phase_challenges_def polynomial_challenges_def)
  then show ?thesis
    using that[of wL wR wO wV l_poly r_poly exp_y l_vec r_vec b1 b3 b4 b5 b6] w polys lr ipp final
    by (simp add: T_def t_x_def t_x_b_def e_b_def)
qed

end
