(* ===== verification/R1cs_Check.thy ===== *)
theory R1cs_Check
  imports R1cs_Verifier Inner_Product_Check
begin

text \<open>
  What an equation of the R1CS verifier says: \<open>check_equation\<close> accepts when the combination of the points by
  the scalars is the identity.
\<close>

section \<open>One equation\<close>

definition equation_wf :: "('s, 'p, 'a) verification_equation \<Rightarrow> bool" where
  "equation_wf eq \<longleftrightarrow> length (eq_g_scalars eq) \<le> length (eq_g_points eq)
     \<and> length (eq_h_scalars eq) \<le> length (eq_h_points eq)
     \<and> length (eq_proof_scalars eq) = length (eq_proof_points eq)"

definition equation_value ::
  "('s, 'p::ab_group_add, 'a, 'c, 'z) cycle_scheme \<Rightarrow> ('s, 'p, 'a) verification_equation \<Rightarrow> 'p" where
  "equation_value C eq =
     point_mul C (fst (eq_pedersen_points eq)) (fst (eq_pedersen_scalars eq))
     + point_mul C (snd (eq_pedersen_points eq)) (snd (eq_pedersen_scalars eq))
     + lincomb C (eq_proof_scalars eq) (map the (eq_proof_points eq))
     + lincomb C (eq_g_scalars eq) (map (affine_to_point C) (eq_g_points eq))
     + lincomb C (eq_h_scalars eq) (map (affine_to_point C) (eq_h_points eq))"

lemma zip_take_length: "length xs \<le> n \<Longrightarrow> zip xs (take n ps) = zip xs ps"
  using take_zip[of n xs ps] by (simp add: take_all_iff)

lemma those_the: "those xs = (if None \<in> set xs then None else Some (map the xs))"
  by (induction xs) (auto split: option.splits)

context cycle_laws
begin

lemma check_equation_iff:
  "check_equation C eq = Inr () \<longleftrightarrow>
    equation_wf eq \<and> None \<notin> set (eq_proof_points eq) \<and> equation_value C eq = 0"
proof (cases "equation_wf eq \<and> None \<notin> set (eq_proof_points eq)")
  case True
  let ?g = "eq_g_scalars eq" and ?h = "eq_h_scalars eq"
  have "vartime_msm_mixed C [(?g, take (length ?g) (eq_g_points eq)), (?h, take (length ?h) (eq_h_points eq))]
      ([fst (eq_pedersen_scalars eq), snd (eq_pedersen_scalars eq)] @ eq_proof_scalars eq)
      ([fst (eq_pedersen_points eq), snd (eq_pedersen_points eq)] @ map the (eq_proof_points eq)) = equation_value C eq"
    using True
    by (subst msm_mixed) (auto simp: equation_wf_def equation_value_def lincomb_def zip_map2 zip_take_length comp_def
        case_prod_unfold add.assoc)
  then show ?thesis
    using True by (simp add: check_equation_def equation_wf_def those_the ok_or_def is_identity_def Let_def)
next
  case False
  then show ?thesis
    by (auto simp: check_equation_def equation_wf_def those_the ok_or_def Let_def)
qed

end

end
