(* ===== verification/R1cs_Complete.thy ===== *)
theory R1cs_Complete
  imports R1cs_Replay R1cs_Check
begin

text \<open>
  Completeness of the R1CS proofs of \<open>bulletproofs-cycle/src/r1cs\<close>: the verifier accepts the proof of a
  satisfied circuit. The commitments of the two phases open to the shares of the response vectors, the
  inner-product proof gives the folded generators, and what remains of the equation is the
  constraint on the second coefficient of the product polynomial.
\<close>

section \<open>The commitments of the phases\<close>

definition share_sum ::
  "('s::field, 'p::ab_group_add, 'a, 'c, 'z) cycle_scheme \<Rightarrow> (nat \<Rightarrow> 'p) \<Rightarrow> (nat \<Rightarrow> 'p) \<Rightarrow> 's secrets \<Rightarrow> 's list
    \<Rightarrow> 's list \<Rightarrow> 's \<Rightarrow> nat set \<Rightarrow> 'p" where
  "share_sum C G H s s_L s_R x A =
     (\<Sum>i\<in>A. point_mul C (G i) (x * secret_a_L s ! i + x * x * secret_a_O s ! i + x * (x * x) * s_L ! i)
        + point_mul C (H i) (x * secret_a_R s ! i + x * (x * x) * s_R ! i))"

definition phase_blinding :: "('s::field, 'c) phase \<Rightarrow> 's \<Rightarrow> 's" where
  "phase_blinding ph x = x * ph_i_blinding ph + x * x * ph_o_blinding ph + x * (x * x) * ph_s_blinding ph"

definition phase_opens ::
  "('s::field, 'p::ab_group_add, 'a, 'c, 'z) cycle_scheme \<Rightarrow> 'p \<Rightarrow> (nat \<Rightarrow> 'p) \<Rightarrow> (nat \<Rightarrow> 'p) \<Rightarrow> 's secrets \<Rightarrow> 's list
    \<Rightarrow> 's list \<Rightarrow> nat set \<Rightarrow> ('s, 'c) phase \<Rightarrow> bool" where
  "phase_opens C B_blinding G H s s_L s_R A ph \<longleftrightarrow> (\<exists>I U S.
     ph_A_I ph = point_compress C I \<and> ph_A_O ph = point_compress C U \<and> ph_S ph = point_compress C S
     \<and> (\<forall>x. point_mul C I x + point_mul C U (x * x) + point_mul C S (x * (x * x))
          = share_sum C G H s s_L s_R x A + point_mul C B_blinding (phase_blinding ph x)))"

lemma length_draw_scalars: "draw_scalars R n rng = (ss, rng') \<Longrightarrow> length ss = n"
  by (induction n arbitrary: rng ss rng') (auto simp: Let_def split: prod.splits)

context cycle_laws
begin

lemma phase_msms_opens:
  assumes "length gs = k" "length hs = k" "length aL = k" "length aR = k" "length aO = k" "length s_L = k" "length s_R = k"
    and "phase_msms C B_blinding gs hs aL aR aO s_L s_R ib ob sb = (I, U, S)"
  shows "point_mul C I x + point_mul C U (x * x) + point_mul C S (x * (x * x))
    = (\<Sum>i<k. point_mul C (affine_to_point C (gs ! i)) (x * aL ! i + x * x * aO ! i + x * (x * x) * s_L ! i)
        + point_mul C (affine_to_point C (hs ! i)) (x * aR ! i + x * (x * x) * s_R ! i))
      + point_mul C B_blinding (x * ib + x * x * ob + x * (x * x) * sb)"
proof -
  let ?G = "\<lambda>i. affine_to_point C (gs ! i)" and ?H = "\<lambda>i. affine_to_point C (hs ! i)"
  have msm2: "vartime_msm_affine C (xs @ ys) (gs @ hs)
      = (\<Sum>i<k. point_mul C (?G i) (xs ! i)) + (\<Sum>i<k. point_mul C (?H i) (ys ! i))"
    if "length xs = k" "length ys = k" for xs ys
    using that assms(1,2) by (simp add: msm_affine_lincomb lincomb_append) (simp add: lincomb_sum[where n = k])
  have msm1: "vartime_msm_affine C xs gs = (\<Sum>i<k. point_mul C (?G i) (xs ! i))" if "length xs = k" for xs
    using that assms(1) by (simp add: msm_affine_lincomb lincomb_sum)
  have I: "I = (\<Sum>i<k. point_mul C (?G i) (aL ! i)) + (\<Sum>i<k. point_mul C (?H i) (aR ! i)) + point_mul C B_blinding ib"
    and U: "U = (\<Sum>i<k. point_mul C (?G i) (aO ! i)) + point_mul C B_blinding ob"
    and S: "S = (\<Sum>i<k. point_mul C (?G i) (s_L ! i)) + (\<Sum>i<k. point_mul C (?H i) (s_R ! i)) + point_mul C B_blinding sb"
    using assms msm2[of aL aR] msm2[of s_L s_R] msm1[of aO] by (simp_all add: phase_msms_def Let_def)
  show ?thesis
    unfolding I U S
    by (simp add: pmul_add_point pmul_sum pmul_mult pmul_add sum.distrib mult.commute mult.left_commute add_ac)
qed

lemma prover_first_phase_opens:
  assumes "prover_first_phase M C R bp_gens g p = Inr (first, p', rng, g')"
    and "gens_capacity bp_gens \<le> length (shared_G bp_gens 0)" "gens_capacity bp_gens \<le> length (shared_H bp_gens 0)"
    and "gates_ok (pr_secrets p)"
  shows "phase_opens C (ped_B_blinding (pr_pc_gens p)) (\<lambda>i. affine_to_point C (shared_G bp_gens 0 ! i))
      (\<lambda>i. affine_to_point C (shared_H bp_gens 0 ! i)) (pr_secrets p) (ph_s_L first) (ph_s_R first)
      {..<length (secret_a_L (pr_secrets p))} first"
    and "length (ph_s_L first) = length (secret_a_L (pr_secrets p))"
    and "length (ph_s_R first) = length (secret_a_L (pr_secrets p))"
    and "length (secret_a_L (pr_secrets p)) \<le> gens_capacity bp_gens"
    and "p' = p\<lparr>pr_transcript := append_point M C (ascii ''S1'') (ph_S first) (append_point M C (ascii ''A_O1'') (ph_A_O first)
        (append_point M C (ascii ''A_I1'') (ph_A_I first)
        (append_u64 M (ascii ''m'') (length (secret_v (pr_secrets p))) (pr_transcript p))))\<rparr>"
proof -
  define s n1 where "s = pr_secrets p" and "n1 = length (secret_a_L (pr_secrets p))"
  have cap: "n1 \<le> gens_capacity bp_gens"
    using assms(1) by (auto simp: prover_first_phase_def Let_def n1_def split: if_splits prod.splits)
  define t where "t = append_u64 M (ascii ''m'') (length (secret_v s)) (pr_transcript p)"
  obtain rng0 g0 where r0: "finalize_rng R (fold (\<lambda>v_b. rekey_with_witness_bytes R (ascii ''v_blinding'') (scalar_to_canonical C v_b))
      (secret_v_blinding s) (build_rng R t)) g = (rng0, g0)" by fastforce
  obtain ib r1 where r1: "scalar_random R rng0 = (ib, r1)" by fastforce
  obtain ob r2 where r2: "scalar_random R r1 = (ob, r2)" by fastforce
  obtain sb r3 where r3: "scalar_random R r2 = (sb, r3)" by fastforce
  obtain s_L r4 where r4: "draw_scalars R n1 r3 = (s_L, r4)" by fastforce
  obtain s_R r5 where r5: "draw_scalars R n1 r4 = (s_R, r5)" by fastforce
  obtain I U S where msms: "phase_msms C (ped_B_blinding (pr_pc_gens p)) (take n1 (shared_G bp_gens 0)) (take n1 (shared_H bp_gens 0))
      (secret_a_L s) (secret_a_R s) (secret_a_O s) s_L s_R ib ob sb = (I, U, S)" by (metis prod_cases3)
  note ids = s_def[symmetric] n1_def[symmetric, folded s_def] t_def[symmetric]
  have "prover_first_phase M C R bp_gens g p =
      Inr (\<lparr>ph_i_blinding = ib, ph_o_blinding = ob, ph_s_blinding = sb, ph_s_L = s_L, ph_s_R = s_R,
            ph_A_I = point_compress C I, ph_A_O = point_compress C U, ph_S = point_compress C S\<rparr>,
           p\<lparr>pr_transcript := append_point M C (ascii ''S1'') (point_compress C S)
              (append_point M C (ascii ''A_O1'') (point_compress C U) (append_point M C (ascii ''A_I1'') (point_compress C I) t))\<rparr>,
           r5, g0)"
    using cap[folded not_less] by (simp only: prover_first_phase_def Let_def ids r0 r1 r2 r3 r4 r5 msms prod.case if_False)
  with assms(1) have first: "first = \<lparr>ph_i_blinding = ib, ph_o_blinding = ob, ph_s_blinding = sb, ph_s_L = s_L, ph_s_R = s_R,
      ph_A_I = point_compress C I, ph_A_O = point_compress C U, ph_S = point_compress C S\<rparr>"
    and p': "p' = p\<lparr>pr_transcript := append_point M C (ascii ''S1'') (point_compress C S)
      (append_point M C (ascii ''A_O1'') (point_compress C U) (append_point M C (ascii ''A_I1'') (point_compress C I) t))\<rparr>"
    by simp_all
  have lens: "length s_L = n1" "length s_R = n1" using r4 r5 by (simp_all add: length_draw_scalars)
  have "point_mul C I x + point_mul C U (x * x) + point_mul C S (x * (x * x))
      = share_sum C (\<lambda>i. affine_to_point C (shared_G bp_gens 0 ! i)) (\<lambda>i. affine_to_point C (shared_H bp_gens 0 ! i))
          s s_L s_R x {..<n1} + point_mul C (ped_B_blinding (pr_pc_gens p)) (phase_blinding first x)" for x
    using phase_msms_opens[OF _ _ _ _ _ lens msms, of x] assms(2-4) cap
    by (simp add: share_sum_def phase_blinding_def first gates_ok_def s_def n1_def)
  then show "phase_opens C (ped_B_blinding (pr_pc_gens p)) (\<lambda>i. affine_to_point C (shared_G bp_gens 0 ! i))
      (\<lambda>i. affine_to_point C (shared_H bp_gens 0 ! i)) (pr_secrets p) (ph_s_L first) (ph_s_R first)
      {..<length (secret_a_L (pr_secrets p))} first"
    by (auto simp: phase_opens_def first s_def n1_def)
  show "length (ph_s_L first) = length (secret_a_L (pr_secrets p))" "length (ph_s_R first) = length (secret_a_L (pr_secrets p))"
    "length (secret_a_L (pr_secrets p)) \<le> gens_capacity bp_gens"
    using lens cap by (simp_all add: first n1_def)
  show "p' = p\<lparr>pr_transcript := append_point M C (ascii ''S1'') (ph_S first) (append_point M C (ascii ''A_O1'') (ph_A_O first)
        (append_point M C (ascii ''A_I1'') (ph_A_I first)
        (append_u64 M (ascii ''m'') (length (secret_v (pr_secrets p))) (pr_transcript p))))\<rparr>"
    by (simp add: p' first t_def s_def)
qed

lemma sum_offset: "(\<Sum>i<k. f (m + i)) = (\<Sum>i\<in>{m..<m + k}. f i :: 'b::comm_monoid_add)" for m :: nat
  by (induction k) auto

lemma prover_second_phase_opens:
  assumes "prover_second_phase C R bp_gens n1 p rng = (second, rng')"
    and "n = length (secret_a_L (pr_secrets p))" "n1 \<le> n" "gates_ok (pr_secrets p)"
    and "n \<le> length (shared_G bp_gens 0)" "n \<le> length (shared_H bp_gens 0)"
    and "length l1 = n1" "length r1 = n1"
  shows "phase_opens C (ped_B_blinding (pr_pc_gens p)) (\<lambda>i. affine_to_point C (shared_G bp_gens 0 ! i))
      (\<lambda>i. affine_to_point C (shared_H bp_gens 0 ! i)) (pr_secrets p) (l1 @ ph_s_L second) (r1 @ ph_s_R second) {n1..<n} second"
    and "length (ph_s_L second) = n - n1" "length (ph_s_R second) = n - n1"
proof -
  define s where "s = pr_secrets p"
  have opens: "phase_opens C (ped_B_blinding (pr_pc_gens p)) (\<lambda>i. affine_to_point C (shared_G bp_gens 0 ! i))
      (\<lambda>i. affine_to_point C (shared_H bp_gens 0 ! i)) s (l1 @ ph_s_L second) (r1 @ ph_s_R second) {n1..<n} second
    \<and> length (ph_s_L second) = n - n1 \<and> length (ph_s_R second) = n - n1"
  proof (cases "0 < n - n1")
    case True
    obtain ib r1' where r1: "scalar_random R rng = (ib, r1')" by fastforce
    obtain ob r2 where r2: "scalar_random R r1' = (ob, r2)" by fastforce
    obtain sb r3 where r3: "scalar_random R r2 = (sb, r3)" by fastforce
    obtain s_L r4 where r4: "draw_scalars R (n - n1) r3 = (s_L, r4)" by fastforce
    obtain s_R r5 where r5: "draw_scalars R (n - n1) r4 = (s_R, r5)" by fastforce
    obtain I U S where msms: "phase_msms C (ped_B_blinding (pr_pc_gens p)) (drop n1 (take n (shared_G bp_gens 0)))
        (drop n1 (take n (shared_H bp_gens 0))) (drop n1 (secret_a_L s)) (drop n1 (secret_a_R s)) (drop n1 (secret_a_O s))
        s_L s_R ib ob sb = (I, U, S)" by (metis prod_cases3)
    have "second = \<lparr>ph_i_blinding = ib, ph_o_blinding = ob, ph_s_blinding = sb, ph_s_L = s_L, ph_s_R = s_R,
        ph_A_I = point_compress C I, ph_A_O = point_compress C U, ph_S = point_compress C S\<rparr>"
      using assms(1) True
      by (simp only: prover_second_phase_def Let_def s_def[symmetric] assms(2)[symmetric, folded s_def] r1 r2 r3 r4 r5 msms prod.case if_True)
        simp
    moreover have lens: "length s_L = n - n1" "length s_R = n - n1" using r4 r5 by (simp_all add: length_draw_scalars)
    moreover have "point_mul C I x + point_mul C U (x * x) + point_mul C S (x * (x * x))
        = share_sum C (\<lambda>i. affine_to_point C (shared_G bp_gens 0 ! i)) (\<lambda>i. affine_to_point C (shared_H bp_gens 0 ! i))
            s (l1 @ s_L) (r1 @ s_R) x {n1..<n} + point_mul C (ped_B_blinding (pr_pc_gens p)) (x * ib + x * x * ob + x * (x * x) * sb)"
      for x
    proof -
      have shift: "(\<Sum>i\<in>{n1..<n}. f i) = (\<Sum>i<n - n1. f (n1 + i))" for f :: "nat \<Rightarrow> 'p"
        using sum_offset[of f n1 "n - n1"] assms(3) by simp
      show ?thesis
        unfolding share_sum_def shift
        using phase_msms_opens[OF _ _ _ _ _ lens msms, of x] assms(2-8)
        by (simp add: gates_ok_def s_def nth_append)
    qed
    ultimately show ?thesis by (auto simp: phase_opens_def phase_blinding_def)
  next
    case False
    then have "second = \<lparr>ph_i_blinding = 0, ph_o_blinding = 0, ph_s_blinding = 0, ph_s_L = [], ph_s_R = [],
        ph_A_I = point_compress C 0, ph_A_O = point_compress C 0, ph_S = point_compress C 0\<rparr>"
      using assms(1,2) by (simp add: prover_second_phase_def Let_def identity_compress)
    moreover have "{n1..<n} = {}" "n - n1 = 0" using False by auto
    ultimately show ?thesis
      by (auto simp: phase_opens_def share_sum_def phase_blinding_def intro!: exI[of _ "0::'p"])
  qed
  then show "phase_opens C (ped_B_blinding (pr_pc_gens p)) (\<lambda>i. affine_to_point C (shared_G bp_gens 0 ! i))
      (\<lambda>i. affine_to_point C (shared_H bp_gens 0 ! i)) (pr_secrets p) (l1 @ ph_s_L second) (r1 @ ph_s_R second) {n1..<n} second"
    "length (ph_s_L second) = n - n1" "length (ph_s_R second) = n - n1"
    by (simp_all add: s_def)
qed

end

section \<open>The generators of the equation\<close>

lemma length_g_factors [simp]: "length (g_factors n1 m u) = n1 + m"
  by (simp add: g_factors_def)

lemma g_factors_nth: "i < n1 + m \<Longrightarrow> g_factors n1 m u ! i = (if i < n1 then 1 else u)"
  by (simp add: g_factors_def nth_append)

lemma equation_scalars_nth:
  assumes "equation_scalars u x a b n1 yneg_wR y_inv_vec wL wO ss = (gs, hs)"
    and "length yneg_wR = N" "length y_inv_vec = N" "length ss = N"
  shows "length gs = N \<and> length hs = N
    \<and> (\<forall>i<N. gs ! i = (if i < n1 then 1 else u) * (x * yneg_wR ! i - a * ss ! i))
    \<and> (\<forall>i<N. hs ! i = (if i < n1 then 1 else u) * (y_inv_vec ! i * (x * (if i < length wL then wL ! i else 0)
        + (if i < length wO then wO ! i else 0) - b * rev ss ! i) - 1))"
  using assms by (auto simp: equation_scalars_def Let_def nth_enumerate_eq)

context cycle_laws
begin

lemma equation_generators:
  fixes s :: "'s secrets"
  assumes scalars: "equation_scalars u x a b n1 (map (\<lambda>(wRi, ey). wRi * ey) (zip wR (exp_iter N (inverse y))) @ replicate (N - n) 0)
      (exp_iter N (inverse y)) wL wO ss = (gs, hs)"
    and lens: "length wL = n" "length wR = n" "length wO = n" "length ss = N" "length Gs = N" "length Hs = N"
    and n: "n1 \<le> n" "n \<le> N" and y: "y \<noteq> 0"
  defines "G' \<equiv> map (\<lambda>(g, x). point_mul C g x) (zip Gs (g_factors n1 (N - n1) u))"
    and "H' \<equiv> map (\<lambda>(h, x). point_mul C h x) (zip Hs (map (\<lambda>(y, u). y * u) (zip (exp_iter N (inverse y)) (g_factors n1 (N - n1) u))))"
  shows "lincomb C gs Gs + lincomb C hs Hs
      + (share_sum C ((!) Gs) ((!) Hs) s s_L s_R x {..<n1} + point_mul C (share_sum C ((!) Gs) ((!) Hs) s s_L s_R x {n1..<n}) u)
      + (point_mul C (lincomb C ss G') a + point_mul C (lincomb C (rev ss) H') b)
    = lincomb C (map (\<lambda>i. if i < n then l_at s wR y s_L x i else 0) [0..<N]) G'
      + lincomb C (map (\<lambda>i. if i < n then r_at s wL wO y s_R x i else - (y ^ i)) [0..<N]) H'"
proof -
  let ?f = "\<lambda>i. if i < n1 then 1 else u"
  let ?cG = "\<lambda>i. x * secret_a_L s ! i + x * x * secret_a_O s ! i + x * (x * x) * s_L ! i"
  let ?cH = "\<lambda>i. x * secret_a_R s ! i + x * (x * x) * s_R ! i"
  let ?l = "\<lambda>i. if i < n then l_at s wR y s_L x i else 0"
  let ?r = "\<lambda>i. if i < n then r_at s wL wO y s_R x i else - (y ^ i)"
  let ?w = "map (\<lambda>(wRi, ey). wRi * ey) (zip wR (exp_iter N (inverse y))) @ replicate (N - n) 0"
  have exp: "length (exp_iter N (inverse y)) = N" "\<And>i. i < N \<Longrightarrow> exp_iter N (inverse y) ! i = inverse y ^ i"
    by (simp_all add: exp_iter_eq)
  have w: "length ?w = N" "\<And>i. i < N \<Longrightarrow> ?w ! i = (if i < n then wR ! i * inverse y ^ i else 0)"
    using n lens exp by (auto simp: nth_append)
  note gh = equation_scalars_nth[OF scalars w(1) exp(1) lens(4)]
  have N: "n1 + (N - n1) = N" using n by simp
  have G': "length G' = N" "\<And>i. i < N \<Longrightarrow> G' ! i = point_mul C (Gs ! i) (?f i)"
    using lens N by (simp_all add: G'_def g_factors_nth)
  have H': "length H' = N" "\<And>i. i < N \<Longrightarrow> H' ! i = point_mul C (Hs ! i) (inverse y ^ i * ?f i)"
    using lens N exp by (simp_all add: H'_def g_factors_nth)
  have shares: "share_sum C ((!) Gs) ((!) Hs) s s_L s_R x {..<n1} + point_mul C (share_sum C ((!) Gs) ((!) Hs) s s_L s_R x {n1..<n}) u
      = (\<Sum>i<N. point_mul C (Gs ! i) (if i < n then ?cG i * ?f i else 0))
        + (\<Sum>i<N. point_mul C (Hs ! i) (if i < n then ?cH i * ?f i else 0))"
  proof -
    have split: "(\<Sum>i<N. F i) = (\<Sum>i<n1. F i) + (\<Sum>i\<in>{n1..<n}. F i) + (\<Sum>i\<in>{n..<N}. F i)" for F :: "nat \<Rightarrow> 'p"
      using n by (simp add: lessThan_atLeast0 sum.atLeastLessThan_concat)
    show ?thesis
      unfolding split using n
      by (simp add: share_sum_def pmul_sum pmul_add_point pmul_mult sum.distrib add_ac)
  qed
  have inv: "inverse y ^ i * y ^ i = 1" for i using y by (simp flip: power_mult_distrib)
  have g_entry: "point_mul C (Gs ! i) (gs ! i) + point_mul C (Gs ! i) (if i < n then ?cG i * ?f i else 0)
      + point_mul C (point_mul C (G' ! i) (ss ! i)) a = point_mul C (G' ! i) (?l i)" if "i < N" for i
    using that gh w(2) by (simp add: G' pmul_mult flip: pmul_add) (simp add: l_at_def algebra_simps)
  have h_entry: "point_mul C (Hs ! i) (hs ! i) + point_mul C (Hs ! i) (if i < n then ?cH i * ?f i else 0)
      + point_mul C (point_mul C (H' ! i) (rev ss ! i)) b = point_mul C (H' ! i) (?r i)" if "i < N" for i
  proof -
    have "hs ! i + (if i < n then ?cH i * ?f i else 0) + inverse y ^ i * ?f i * (rev ss ! i * b) = inverse y ^ i * ?f i * ?r i"
    proof (cases "i < n")
      case True
      have "inverse y ^ i * ?r i = inverse y ^ i * (x * wL ! i + wO ! i)
          - (inverse y ^ i * y ^ i) * (1 - x * secret_a_R s ! i - x * (x * x) * s_R ! i)"
        using True by (simp add: r_at_def algebra_simps)
      then have r: "inverse y ^ i * ?r i = inverse y ^ i * (x * wL ! i + wO ! i) - 1 + ?cH i"
        unfolding inv by simp
      have hs: "hs ! i = ?f i * (inverse y ^ i * (x * wL ! i + wO ! i - b * rev ss ! i) - 1)"
        using True gh that exp lens by simp
      have "hs ! i + (if i < n then ?cH i * ?f i else 0) + inverse y ^ i * ?f i * (rev ss ! i * b)
          = ?f i * (inverse y ^ i * (x * wL ! i + wO ! i) - 1 + ?cH i)"
        unfolding hs using True by (simp only: if_True algebra_simps mult_1)
      then show ?thesis unfolding r[symmetric] by (simp only: mult.left_commute mult.assoc)
    next
      case False
      with gh that exp lens have hs: "hs ! i = ?f i * (inverse y ^ i * (- b * rev ss ! i) - inverse y ^ i * y ^ i)"
        unfolding inv by simp
      show ?thesis unfolding hs using False by (simp add: algebra_simps)
    qed
    from arg_cong[OF this, of "point_mul C (Hs ! i)"] show ?thesis
      using that by (simp only: H'(2) pmul_mult pmul_add mult.assoc)
  qed
  have gs_hs: "length gs = N" "length hs = N" using gh by simp_all
  have lincomb_map: "lincomb C (map f [0..<N]) ps = (\<Sum>i<N. point_mul C (ps ! i) (f i))" if "length ps = N" for f ps
    using that by (simp add: lincomb_sum[where n = N])
  have g_sum: "lincomb C gs Gs + (\<Sum>i<N. point_mul C (Gs ! i) (if i < n then ?cG i * ?f i else 0))
      + point_mul C (lincomb C ss G') a = lincomb C (map ?l [0..<N]) G'"
    unfolding lincomb_map[OF G'(1)] using gs_hs lens G'(1) g_entry
    by (simp only: lincomb_sum[where n = N] pmul_sum length_rev flip: sum.distrib) simp
  have h_sum: "lincomb C hs Hs + (\<Sum>i<N. point_mul C (Hs ! i) (if i < n then ?cH i * ?f i else 0))
      + point_mul C (lincomb C (rev ss) H') b = lincomb C (map ?r [0..<N]) H'"
    unfolding lincomb_map[OF H'(1)] using gs_hs lens H'(1) h_entry
    by (simp only: lincomb_sum[where n = N] pmul_sum length_rev flip: sum.distrib) simp
  show ?thesis unfolding shares g_sum[symmetric] h_sum[symmetric] by (simp only: add_ac)
qed

text \<open>What remains of the equation once the inner-product proof and the commitments are opened.\<close>

lemma equation_assembly:
  assumes ipp: "X + point_mul C (point_mul C B w) t_x + (LU + LR)
      = Sab + point_mul C (point_mul C B w) (a * b)"
    and gens: "EG + EH + (P1 + point_mul C P2 u) + Sab = X"
    and phase1: "point_mul C I1 x + point_mul C U1 (x * x) + point_mul C S1 (x * (x * x)) = P1 + point_mul C Bb bl1"
    and phase2: "point_mul C I2 x + point_mul C U2 (x * x) + point_mul C S2 (x * (x * x)) = P2 + point_mul C Bb bl2"
    and t_x: "t_x = x * x * (wc + delta + wvv) + Tx"
    and T: "VT = point_mul C B (r * (x * x * wvv + Tx)) + point_mul C Bb (r * tb)"
  shows "point_mul C B (w * (t_x - a * b) + r * (x * x * (wc + delta) - t_x))
      + point_mul C Bb (- (bl1 + u * bl2) - r * tb)
      + (point_mul C I1 x + point_mul C U1 (x * x) + point_mul C S1 (x * (x * x))
         + (point_mul C I2 (u * x) + point_mul C U2 (u * (x * x)) + point_mul C S2 (u * (x * (x * x)))) + VT + (LU + LR))
      + EG + EH = 0"
proof -
  have second: "point_mul C I2 (u * x) + point_mul C U2 (u * (x * x)) + point_mul C S2 (u * (x * (x * x)))
      = point_mul C P2 u + point_mul C Bb (u * bl2)"
    using arg_cong[OF phase2, of "\<lambda>p. point_mul C p u"] by (simp add: pmul_add_point pmul_mult mult.commute)
  have inner: "EG + EH + (P1 + point_mul C P2 u) + (LU + LR) = point_mul C B (w * (a * b)) - point_mul C B (w * t_x)"
    using ipp unfolding gens[symmetric] pmul_mult by (simp add: algebra_simps)
  have "w * (t_x - a * b) + r * (x * x * (wc + delta) - t_x) + (w * (a * b) - w * t_x) + r * (x * x * wvv + Tx) = 0"
    by (simp add: t_x algebra_simps)
  then have B: "point_mul C B (w * (t_x - a * b) + r * (x * x * (wc + delta) - t_x))
      + (point_mul C B (w * (a * b)) - point_mul C B (w * t_x)) + point_mul C B (r * (x * x * wvv + Tx)) = 0"
    by (simp only: pmul_diff[symmetric] pmul_add[symmetric] pmul_zero)
  have "- (bl1 + u * bl2) - r * tb + bl1 + u * bl2 + r * tb = 0" by simp
  then have Bb: "point_mul C Bb (- (bl1 + u * bl2) - r * tb) + point_mul C Bb bl1 + point_mul C Bb (u * bl2)
      + point_mul C Bb (r * tb) = 0"
    by (simp only: pmul_add[symmetric] pmul_zero)
  have "point_mul C B (w * (t_x - a * b) + r * (x * x * (wc + delta) - t_x))
      + point_mul C Bb (- (bl1 + u * bl2) - r * tb)
      + (P1 + point_mul C Bb bl1 + (point_mul C P2 u + point_mul C Bb (u * bl2)) + VT + (LU + LR)) + EG + EH
    = (point_mul C B (w * (t_x - a * b) + r * (x * x * (wc + delta) - t_x))
        + (EG + EH + (P1 + point_mul C P2 u) + (LU + LR)) + point_mul C B (r * (x * x * wvv + Tx)))
      + (point_mul C Bb (- (bl1 + u * bl2) - r * tb) + point_mul C Bb bl1 + point_mul C Bb (u * bl2) + point_mul C Bb (r * tb))"
    unfolding T by (simp only: add_ac)
  then show ?thesis unfolding phase1 second inner B Bb by simp
qed

end

section \<open>Padding to a power of two\<close>

lemma log2_ceil_le: "n \<le> 2 ^ k \<Longrightarrow> k < 64 \<Longrightarrow> log2_ceil n \<le> k"
proof (rule ccontr)
  let ?P = "\<lambda>k. 2 ^ k < n"
  assume n: "n \<le> 2 ^ k" and "k < 64" "\<not> log2_ceil n \<le> k"
  then have k: "k < length (takeWhile ?P [0..<64])" by (simp add: log2_ceil_def)
  then have "?P (takeWhile ?P [0..<64] ! k)" using set_takeWhileD[OF nth_mem[OF k]] by simp
  with k n \<open>k < 64\<close> show False by (simp add: takeWhile_nth)
qed

lemma next_power_of_two_ge: "n \<le> 2 ^ 63 \<Longrightarrow> n \<le> next_power_of_two n"
proof -
  let ?P = "\<lambda>k. 2 ^ k < n"
  assume "n \<le> 2 ^ 63"
  then have "log2_ceil n < 64" using log2_ceil_le[of n 63] by simp
  then have "length (takeWhile ?P [0..<64]) < length [0..<64]" by (simp add: log2_ceil_def)
  from nth_length_takeWhile[OF this] \<open>log2_ceil n < 64\<close> show ?thesis
    by (simp add: next_power_of_two_def log2_ceil_def)
qed

context cycle_laws
begin

lemma ipp_create_scalars:
  assumes k: "k < 32" and len: "length G = 2 ^ k" "length H = 2 ^ k" "length a = 2 ^ k" "length b = 2 ^ k"
      "length G_factors = 2 ^ k" "length H_factors = 2 ^ k"
    and create: "ipp_create M C t Q G_factors H_factors G H a b = (pf, t')"
    and points: "\<forall>c \<in> set (ipp_L_vec pf) \<union> set (ipp_R_vec pf). \<not> compressed_is_identity C c"
    and challenges: "\<And>us t'. rfold (ipp_replay M C) ([], innerproduct_domain_sep M (2 ^ k) t)
      (zip (ipp_L_vec pf) (ipp_R_vec pf)) = Inr (us, t') \<Longrightarrow> 0 \<notin> set us"
  shows "\<exists>u_sq u_inv_sq s. ipp_verification_scalars M C pf (2 ^ k) t = Inr ((u_sq, u_inv_sq, s), t')"
proof -
  obtain us Ls Rs x y where r: "length us = k" "length Ls = k" "length Rs = k"
      "pf = \<lparr>ipp_L_vec = map (point_compress C) Ls, ipp_R_vec = map (point_compress C) Rs, ipp_a = x, ipp_b = y\<rparr>"
      "0 \<notin> set Ls \<union> set Rs \<longrightarrow> (\<forall>cs. rfold (ipp_replay M C) (cs, innerproduct_domain_sep M (2 ^ k) t)
          (zip (map (point_compress C) Ls) (map (point_compress C) Rs)) = Inr (cs @ us, t'))"
    by (rule ipp_create_rounds[OF k len create])
  have "\<not> compressed_is_identity C (point_compress C p)" if "p \<in> set Ls \<union> set Rs" for p
    using that points r(4) by auto
  then have "0 \<notin> set Ls \<union> set Rs" by (auto simp: is_identity_compress)
  with r have "rfold (ipp_replay M C) ([], innerproduct_domain_sep M (2 ^ k) t) (zip (ipp_L_vec pf) (ipp_R_vec pf)) = Inr (us, t')"
    by simp
  moreover have "length (ipp_R_vec pf) = length (ipp_L_vec pf)" "length (ipp_L_vec pf) = k" using r by simp_all
  ultimately show ?thesis
    using verification_scalars_eq[of pf M "2 ^ k" t, OF _ challenges] k by simp
qed

text \<open>Commitments to the values, weighted.\<close>

lemma weighted_commitments:
  assumes "length wV = length v" "length vb = length v"
  shows "lincomb C (map (\<lambda>c. c * y) wV) (map (\<lambda>(v, b). pedersen_commit C pc v b) (zip v vb))
    = point_mul C (ped_B pc) (y * inner_product wV v)
      + point_mul C (ped_B_blinding pc) (y * fold (\<lambda>(c, v_b) acc. acc + c * v_b) (zip wV vb) 0)"
proof -
  have fold_sum: "fold (\<lambda>(c, v_b) acc. acc + c * v_b) (zip wV vb) 0 = inner_product wV vb"
  proof -
    have "fold (\<lambda>(c, v_b) acc. acc + c * v_b) ps e = e + (\<Sum>(c, v_b)\<leftarrow>ps. c * v_b)" for ps :: "('s \<times> 's) list" and e
      by (induction ps arbitrary: e) (auto simp: add.assoc)
    then show ?thesis by (simp add: inner_product_zip)
  qed
  have commit: "pedersen_commit C pc v b = point_mul C (ped_B pc) v + point_mul C (ped_B_blinding pc) b" for v b
    by (simp add: pedersen_commit_def msm)
  have pmul_dist: "point_mul C p (sum f A) = (\<Sum>i\<in>A. point_mul C p (f i))" for p and f :: "nat \<Rightarrow> 's" and A
    by (induction A rule: infinite_finite_induct) (auto simp: pmul_add)
  let ?m = "length v"
  have "lincomb C (map (\<lambda>c. c * y) wV) (map (\<lambda>(v, b). pedersen_commit C pc v b) (zip v vb))
      = (\<Sum>i<?m. point_mul C (ped_B pc) (y * (wV ! i * v ! i)) + point_mul C (ped_B_blinding pc) (y * (wV ! i * vb ! i)))"
    using assms by (subst lincomb_sum[where n = ?m])
      (auto simp: commit pmul_add_point pmul_mult mult_ac intro!: sum.cong)
  moreover have "y * inner_product wV xs = (\<Sum>i<?m. y * (wV ! i * xs ! i))" if "length xs = ?m" for xs
    using assms that by (simp add: inner_product_sum sum_distrib_left)
  ultimately show ?thesis
    using assms unfolding fold_sum by (simp add: pmul_dist sum.distrib)
qed

end

section \<open>An honest run\<close>

text \<open>The prover's constraint system when the deferred circuits are done.\<close>

definition completed_prover ::
  "('t, 'y) merlin_u64_scheme \<Rightarrow> ('s::field, 'p::ab_group_add, 'a, 'c, 'z) cycle_scheme
    \<Rightarrow> ('s, 't, 'b, 'g, 'h, 'w) transcript_rng_scheme \<Rightarrow> 'a bulletproof_gens \<Rightarrow> 'g \<Rightarrow> ('s, 'p, 't) prover
    \<Rightarrow> r1cs_error + ('s, 'p, 't) prover" where
  "completed_prover M C R bp_gens g p =
     rbind (prover_first_phase M C R bp_gens g p) (\<lambda>(first, p, rng, g). prover_create_randomized_constraints M C p)"

context cycle_laws
begin

lemma prove_runs:
  assumes "prove_and_return_transcript M C R bp_gens g p = Inr (pf, t', g')"
    and "completed_prover M C R bp_gens g p = Inr p2"
  obtains first p1 rng1 second rng2
  where "prover_first_phase M C R bp_gens g p = Inr (first, p1, rng1, g')"
    and "prover_create_randomized_constraints M C p1 = Inr p2"
    and "next_power_of_two (length (secret_a_L (pr_secrets p2))) \<le> gens_capacity bp_gens"
    and "prover_second_phase C R bp_gens (length (secret_a_L (pr_secrets p))) p2 rng1 = (second, rng2)"
    and "prover_respond M C R bp_gens (length (secret_a_L (pr_secrets p))) first second p2 rng2 = (pf, t')"
  using assms
  by (auto simp: prove_and_return_transcript_def completed_prover_def Let_def split: if_splits prod.splits)

lemma share_sum_cong:
  assumes "\<And>i. i \<in> A \<Longrightarrow> secret_a_L s ! i = secret_a_L s' ! i \<and> secret_a_R s ! i = secret_a_R s' ! i
      \<and> secret_a_O s ! i = secret_a_O s' ! i \<and> l ! i = l' ! i \<and> r ! i = r' ! i \<and> G i = G' i \<and> H i = H' i"
  shows "share_sum C G H s l r x A = share_sum C G' H' s' l' r' x A"
  unfolding share_sum_def using assms by (intro sum.cong) auto

lemma phase_opens_cong:
  assumes "\<And>i. i \<in> A \<Longrightarrow> secret_a_L s ! i = secret_a_L s' ! i \<and> secret_a_R s ! i = secret_a_R s' ! i
      \<and> secret_a_O s ! i = secret_a_O s' ! i \<and> l ! i = l' ! i \<and> r ! i = r' ! i \<and> G i = G' i \<and> H i = H' i"
    and "phase_opens C B G H s l r A ph"
  shows "phase_opens C B G' H' s' l' r' A ph"
  using assms(2) share_sum_cong[OF assms(1)] by (simp add: phase_opens_def)

lemma first_gates_nth:
  assumes "first_gates k p' = first_gates k p" "i < k"
  shows "secret_a_L (pr_secrets p') ! i = secret_a_L (pr_secrets p) ! i
    \<and> secret_a_R (pr_secrets p') ! i = secret_a_R (pr_secrets p) ! i
    \<and> secret_a_O (pr_secrets p') ! i = secret_a_O (pr_secrets p) ! i"
proof -
  have "take k (secret_a_L (pr_secrets p')) ! i = take k (secret_a_L (pr_secrets p)) ! i"
    "take k (secret_a_R (pr_secrets p')) ! i = take k (secret_a_R (pr_secrets p)) ! i"
    "take k (secret_a_O (pr_secrets p')) ! i = take k (secret_a_O (pr_secrets p)) ! i"
    using assms(1) by (simp_all add: first_gates_def)
  then show ?thesis using assms(2) by simp
qed

text \<open>The verifier follows the run, and the phases open over the final assignment.\<close>

lemma honest_r1cs_run:
  assumes agree: "cs_agree C p vf" "prover_ok p"
    and first: "prover_first_phase M C R bp_gens g p = Inr (first, p1, rng1, g')"
    and rest: "prover_create_randomized_constraints M C p1 = Inr p2"
      "next_power_of_two (length (secret_a_L (pr_secrets p2))) \<le> gens_capacity bp_gens"
      "prover_second_phase C R bp_gens (length (secret_a_L (pr_secrets p))) p2 rng1 = (second, rng2)"
    and gens: "gens_capacity bp_gens \<le> length (shared_G bp_gens 0)" "gens_capacity bp_gens \<le> length (shared_H bp_gens 0)"
    and n: "length (secret_a_L (pr_secrets p2)) \<le> 2 ^ 63"
  defines "n1 \<equiv> length (secret_a_L (pr_secrets p))" and "n \<equiv> length (secret_a_L (pr_secrets p2))"
    and "G \<equiv> \<lambda>i. affine_to_point C (shared_G bp_gens 0 ! i)" and "H \<equiv> \<lambda>i. affine_to_point C (shared_H bp_gens 0 ! i)"
    and "s_L \<equiv> ph_s_L first @ ph_s_L second" and "s_R \<equiv> ph_s_R first @ ph_s_R second"
  obtains vf2 where
    "verifier_create_randomized_constraints M C (vf\<lparr>ve_transcript := append_point M C (ascii ''S1'') (ph_S first)
      (append_point M C (ascii ''A_O1'') (ph_A_O first) (append_point M C (ascii ''A_I1'') (ph_A_I first)
      (append_u64 M (ascii ''m'') (length (ve_V vf)) (ve_transcript vf))))\<rparr>) = Inr vf2"
    "cs_agree C p2 vf2" "prover_ok p2" "same_values p p2" "n1 \<le> n" "length s_L = n" "length s_R = n"
    "phase_opens C (ped_B_blinding (pr_pc_gens p2)) G H (pr_secrets p2) s_L s_R {..<n1} first"
    "phase_opens C (ped_B_blinding (pr_pc_gens p2)) G H (pr_secrets p2) s_L s_R {n1..<n} second"
proof -
  have gates: "gates_ok (pr_secrets p)" using agree(2) by (simp add: prover_ok_def)
  note ph1 = prover_first_phase_opens[OF first gens gates]
  let ?vf1 = "vf\<lparr>ve_transcript := append_point M C (ascii ''S1'') (ph_S first)
      (append_point M C (ascii ''A_O1'') (ph_A_O first) (append_point M C (ascii ''A_I1'') (ph_A_I first)
      (append_u64 M (ascii ''m'') (length (ve_V vf)) (ve_transcript vf))))\<rparr>"
  have V: "length (ve_V vf) = length (secret_v (pr_secrets p))"
    using agree(1) gates by (simp add: cs_agree_def gates_ok_def)
  have p1: "cs_agree C p1 ?vf1" "prover_ok p1" "pr_secrets p1 = pr_secrets p" "pr_pc_gens p1 = pr_pc_gens p"
    using agree V by (simp_all add: ph1(5) cs_agree_def prover_ok_def)
  obtain vf2 where vf2: "verifier_create_randomized_constraints M C ?vf1 = Inr vf2"
      "good_call C (p1\<lparr>pr_pending := None\<rparr>) p2 vf2"
    using create_randomized_agree[OF p1(1,2) rest(1)] by blast
  then have p2: "cs_agree C p2 vf2" "prover_ok p2" "same_values p p2" "n1 \<le> n" "first_gates n1 p2 = first_gates n1 p"
    using p1 by (auto simp: good_call_def same_values_def keeps_defs prover_ok_def n1_def n_def)
  have gates2: "gates_ok (pr_secrets p2)" using p2(2) by (simp add: prover_ok_def)
  have "n \<le> length (shared_G bp_gens 0)" "n \<le> length (shared_H bp_gens 0)"
    using next_power_of_two_ge[OF n] rest(2) gens by (simp_all add: n_def)
  note ph2 = prover_second_phase_opens[OF rest(3)[folded n1_def] n_def[THEN meta_eq_to_obj_eq] p2(4) gates2 this
      ph1(2,3)[folded n1_def]]
  have "phase_opens C (ped_B_blinding (pr_pc_gens p2)) G H (pr_secrets p2) s_L s_R {..<n1} first"
  proof (rule phase_opens_cong)
    show "phase_opens C (ped_B_blinding (pr_pc_gens p2)) G H (pr_secrets p) (ph_s_L first) (ph_s_R first) {..<n1} first"
      using ph1(1) p2(3) by (simp add: G_def H_def n1_def same_values_def)
  qed (use ph1(2,3) first_gates_nth[OF p2(5)] in \<open>simp add: s_L_def s_R_def nth_append n1_def\<close>)
  moreover have "phase_opens C (ped_B_blinding (pr_pc_gens p2)) G H (pr_secrets p2) s_L s_R {n1..<n} second"
    using ph2(1) by (simp add: G_def H_def s_L_def s_R_def)
  moreover have "length s_L = n" "length s_R = n"
    using ph1(2,3) ph2(2,3) p2(4) by (simp_all add: s_L_def s_R_def n1_def)
  ultimately show ?thesis using that[OF vf2(1) p2(1-4)] by blast
qed

text \<open>The product polynomial at the challenge, without its second coefficient.\<close>

definition outer_coefficients :: "'s \<Rightarrow> 's \<Rightarrow> 's \<Rightarrow> 's \<Rightarrow> 's \<Rightarrow> 's \<Rightarrow> 's" where
  "outer_coefficients x c1 c3 c4 c5 c6 =
     x * c1 + x * x * x * c3 + x * x * x * x * c4 + x * x * x * x * x * c5 + x * x * x * x * x * x * c6"

lemma poly6_eval_outer:
  "poly6_eval T x = x * x * t2 T + outer_coefficients x (t1 T) (t3 T) (t4 T) (t5 T) (t6 T)"
  by (simp add: poly6_eval_def outer_coefficients_def algebra_simps)

lemma t_x_blinding_outer:
  "t_x_blinding_at x b1 b2 b3 b4 b5 b6 = x * x * b2 + outer_coefficients x b1 b3 b4 b5 b6"
  by (simp add: t_x_blinding_at_def outer_coefficients_def Let_def algebra_simps)

lemma commitments_T:
  "lincomb C [r * x, r * (x * x) * x, r * (x * x) * (x * x), r * (x * x) * (x * (x * x)), r * (x * x) * (x * x) * (x * x)]
     [pedersen_commit C pc c1 b1, pedersen_commit C pc c3 b3, pedersen_commit C pc c4 b4, pedersen_commit C pc c5 b5,
      pedersen_commit C pc c6 b6]
   = point_mul C (ped_B pc) (r * outer_coefficients x c1 c3 c4 c5 c6)
     + point_mul C (ped_B_blinding pc) (r * outer_coefficients x b1 b3 b4 b5 b6)"
  by (simp add: lincomb_def pedersen_commit_def msm outer_coefficients_def pmul_add pmul_add_point pmul_mult distrib_left
      mult_ac add_ac)

lemma second_coefficient:
  fixes s :: "'s secrets"
  assumes gates: "gates_ok s" "length (secret_a_L s) = n" and y: "y \<noteq> 0"
    and shape: "weights_shape n m (wL, wR, wO, wV, wc)"
    and weights: "weights_value (secret_a_L s) (secret_a_R s) (secret_a_O s) (secret_v s) (wL, wR, wO, wV, wc) = 0"
    and n: "n \<le> N"
  shows "t2 (t_closed s wL wR wO y n s_L s_R) = wc
    + inner_product (take n (map (\<lambda>(wRi, ey). wRi * ey) (zip wR (exp_iter N (inverse y))) @ replicate (N - n) 0)) wL
    + inner_product wV (secret_v s)"
proof -
  have lens: "length wL = n" "length wR = n" "length wO = n" using shape by (simp_all add: weights_shape_def)
  have delta: "inner_product (take n (map (\<lambda>(wRi, ey). wRi * ey) (zip wR (exp_iter N (inverse y))) @ replicate (N - n) 0)) wL
      = (\<Sum>i<n. wR ! i * inverse y ^ i * wL ! i)"
    using lens n by (simp add: inner_product_sum exp_iter_eq)
  have "t2 (t_closed s wL wR wO y n s_L s_R)
      = inner_product wL (secret_a_L s) + inner_product wR (secret_a_R s) + inner_product wO (secret_a_O s)
        + (\<Sum>i<n. wR ! i * inverse y ^ i * wL ! i)"
    using gates lens y by (intro t_closed_second) (auto simp: gates_ok_def)
  moreover have "inner_product wL (secret_a_L s) + inner_product wR (secret_a_R s) + inner_product wO (secret_a_O s)
      = wc + inner_product wV (secret_v s)"
    using weights by (simp add: weights_value_def algebra_simps)
  ultimately show ?thesis unfolding delta by simp
qed

text \<open>The equation of an honest proof, with the points it opens to.\<close>

lemma honest_equation:
  fixes s :: "'s secrets"
  assumes gates: "gates_ok s" "length (secret_a_L s) = n" "length (secret_v s) = m" and y: "y \<noteq> 0"
    and shape: "weights_shape n m (wL, wR, wO, wV, wc)"
    and weights: "weights_value (secret_a_L s) (secret_a_R s) (secret_a_O s) (secret_v s) (wL, wR, wO, wV, wc) = 0"
    and n: "n1 \<le> n" "n \<le> N" "N \<le> length Gv" "N \<le> length Hv"
    and first: "phase_opens C (ped_B_blinding pc) (\<lambda>i. affine_to_point C (Gv ! i)) (\<lambda>i. affine_to_point C (Hv ! i)) s s_L s_R {..<n1} first"
    and second: "phase_opens C (ped_B_blinding pc) (\<lambda>i. affine_to_point C (Gv ! i)) (\<lambda>i. affine_to_point C (Hv ! i)) s s_L s_R {n1..<n} second"
    and scalars: "equation_scalars u x a b n1 (map (\<lambda>(wRi, ey). wRi * ey) (zip wR (exp_iter N (inverse y))) @ replicate (N - n) 0)
      (exp_iter N (inverse y)) wL wO ss = (gs, hs)" "length ss = N"
    and points: "map (compressed_decompress C) Lc = map Some Ls" "map (compressed_decompress C) Rc = map Some Rs"
      "length Ls = length u_sq" "length Rs = length u_inv_sq"
    and T: "T = t_closed s wL wR wO y n s_L s_R"
  defines "l \<equiv> map (\<lambda>i. if i < n then l_at s wR y s_L x i else 0) [0..<N]"
    and "rv \<equiv> map (\<lambda>i. if i < n then r_at s wL wO y s_R x i else - (y ^ i)) [0..<N]"
    and "G' \<equiv> map (\<lambda>(g, x). point_mul C g x) (zip (map (affine_to_point C) (take N Gv)) (g_factors n1 (N - n1) u))"
    and "H' \<equiv> map (\<lambda>(h, x). point_mul C h x) (zip (map (affine_to_point C) (take N Hv))
      (map (\<lambda>(y, u). y * u) (zip (exp_iter N (inverse y)) (g_factors n1 (N - n1) u))))"
  assumes ipp: "ipp_statement C (point_mul C (ped_B pc) w) l rv G' H' + lincomb C u_sq Ls + lincomb C u_inv_sq Rs
      = point_mul C (lincomb C ss G') a + point_mul C (lincomb C (rev ss) H') b
        + point_mul C (point_mul C (ped_B pc) w) (a * b)"
  shows "check_equation C
    \<lparr>eq_pedersen_scalars = (w * (poly6_eval T x - a * b) + r * (x * x * (wc
        + inner_product (take n (map (\<lambda>(wRi, ey). wRi * ey) (zip wR (exp_iter N (inverse y))) @ replicate (N - n) 0)) wL)
        - poly6_eval T x),
        - (phase_blinding first x + u * phase_blinding second x) - r * t_x_blinding_at x b1
            (fold (\<lambda>(c, v_b) acc. acc + c * v_b) (zip wV (secret_v_blinding s)) 0) b3 b4 b5 b6),
     eq_pedersen_points = (ped_B pc, ped_B_blinding pc),
     eq_g_scalars = gs, eq_g_points = Gv, eq_h_scalars = hs, eq_h_points = Hv,
     eq_proof_scalars = [x, x * x, x * (x * x), u * x, u * (x * x), u * (x * (x * x))] @ map (\<lambda>wVi. wVi * (r * (x * x))) wV
       @ [r * x, r * (x * x) * x, r * (x * x) * (x * x), r * (x * x) * (x * (x * x)), r * (x * x) * (x * x) * (x * x)]
       @ u_sq @ u_inv_sq,
     eq_proof_points = map (compressed_decompress C)
       ([ph_A_I first, ph_A_O first, ph_S first, ph_A_I second, ph_A_O second, ph_S second]
        @ map (\<lambda>(v, b). point_compress C (pedersen_commit C pc v b)) (zip (secret_v s) (secret_v_blinding s))
        @ [point_compress C (pedersen_commit C pc (t1 T) b1), point_compress C (pedersen_commit C pc (t3 T) b3),
           point_compress C (pedersen_commit C pc (t4 T) b4), point_compress C (pedersen_commit C pc (t5 T) b5),
           point_compress C (pedersen_commit C pc (t6 T) b6)] @ Lc @ Rc)\<rparr> = Inr ()"
    (is "check_equation C ?eq = Inr ()")
proof -
  obtain I1 U1 S1 where c1: "ph_A_I first = point_compress C I1" "ph_A_O first = point_compress C U1" "ph_S first = point_compress C S1"
    and o1: "point_mul C I1 x + point_mul C U1 (x * x) + point_mul C S1 (x * (x * x))
      = share_sum C (\<lambda>i. affine_to_point C (Gv ! i)) (\<lambda>i. affine_to_point C (Hv ! i)) s s_L s_R x {..<n1}
        + point_mul C (ped_B_blinding pc) (phase_blinding first x)"
    using first unfolding phase_opens_def by blast
  obtain I2 U2 S2 where c2: "ph_A_I second = point_compress C I2" "ph_A_O second = point_compress C U2" "ph_S second = point_compress C S2"
    and o2: "point_mul C I2 x + point_mul C U2 (x * x) + point_mul C S2 (x * (x * x))
      = share_sum C (\<lambda>i. affine_to_point C (Gv ! i)) (\<lambda>i. affine_to_point C (Hv ! i)) s s_L s_R x {n1..<n}
        + point_mul C (ped_B_blinding pc) (phase_blinding second x)"
    using second unfolding phase_opens_def by blast
  let ?Vs = "map (\<lambda>(v, b). pedersen_commit C pc v b) (zip (secret_v s) (secret_v_blinding s))"
  let ?Ts = "[pedersen_commit C pc (t1 T) b1, pedersen_commit C pc (t3 T) b3, pedersen_commit C pc (t4 T) b4,
    pedersen_commit C pc (t5 T) b5, pedersen_commit C pc (t6 T) b6]"
  let ?ps = "[I1, U1, S1, I2, U2, S2] @ ?Vs @ ?Ts @ Ls @ Rs"
  let ?Gs = "map (affine_to_point C) (take N Gv)" and ?Hs = "map (affine_to_point C) (take N Hv)"
  let ?wvb = "fold (\<lambda>(c, v_b) acc. acc + c * v_b) (zip wV (secret_v_blinding s)) 0"
  let ?wvv = "inner_product wV (secret_v s)"
  let ?Tx = "outer_coefficients x (t1 T) (t3 T) (t4 T) (t5 T) (t6 T)"
  have proof_points: "eq_proof_points ?eq = map Some ?ps"
    using points by (simp add: c1 c2 decompress_compress case_prod_unfold)
  have lens: "length wL = n" "length wR = n" "length wO = n" "length wV = m" "length (secret_v_blinding s) = m"
    "length ?Gs = N" "length ?Hs = N"
    using shape gates n by (simp_all add: weights_shape_def gates_ok_def)
  have len_gh: "length gs = N" "length hs = N"
    using equation_scalars_nth[OF scalars(1), of N] scalars(2) lens n by (auto simp: exp_iter_eq)
  have inner: "inner_product l rv = poly6_eval T x"
  proof -
    have "inner_product l rv = (\<Sum>i<N. if i < n then l_at s wR y s_L x i * r_at s wL wO y s_R x i else 0)"
      unfolding inner_product_sum l_def rv_def by (intro sum.cong) auto
    also have "\<dots> = (\<Sum>i<n. l_at s wR y s_L x i * r_at s wL wO y s_R x i)"
      using n by (simp add: sum.If_cases) (intro sum.cong; auto)
    finally show ?thesis by (simp add: T t_closed_eval)
  qed
  have shares: "share_sum C (\<lambda>i. affine_to_point C (Gv ! i)) (\<lambda>i. affine_to_point C (Hv ! i)) s s_L s_R x A
      = share_sum C ((!) ?Gs) ((!) ?Hs) s s_L s_R x A" if "A \<subseteq> {..<N}" for A
    by (rule share_sum_cong) (use that n in \<open>auto simp: subset_iff\<close>)
  have P1: "share_sum C (\<lambda>i. affine_to_point C (Gv ! i)) (\<lambda>i. affine_to_point C (Hv ! i)) s s_L s_R x {..<n1}
      = share_sum C ((!) ?Gs) ((!) ?Hs) s s_L s_R x {..<n1}" by (rule shares) (use n in auto)
  have P2: "share_sum C (\<lambda>i. affine_to_point C (Gv ! i)) (\<lambda>i. affine_to_point C (Hv ! i)) s s_L s_R x {n1..<n}
      = share_sum C ((!) ?Gs) ((!) ?Hs) s s_L s_R x {n1..<n}" by (rule shares) (use n in auto)
  note gens = equation_generators[OF scalars(1) lens(1-3) scalars(2) lens(6,7) n(1,2) y, of s s_L s_R,
      folded l_def rv_def G'_def H'_def]
  have VT: "lincomb C (map (\<lambda>wVi. wVi * (r * (x * x))) wV) ?Vs
      + lincomb C [r * x, r * (x * x) * x, r * (x * x) * (x * x), r * (x * x) * (x * (x * x)), r * (x * x) * (x * x) * (x * x)] ?Ts
    = point_mul C (ped_B pc) (r * (x * x * ?wvv + ?Tx))
      + point_mul C (ped_B_blinding pc) (r * t_x_blinding_at x b1 ?wvb b3 b4 b5 b6)"
    unfolding commitments_T using lens gates(3)
    by (subst weighted_commitments) (simp_all add: t_x_blinding_outer distrib_left pmul_add mult.assoc add_ac)
  have t_x: "poly6_eval T x = x * x * (wc
      + inner_product (take n (map (\<lambda>(wRi, ey). wRi * ey) (zip wR (exp_iter N (inverse y))) @ replicate (N - n) 0)) wL
      + ?wvv) + ?Tx"
    using second_coefficient[OF gates(1,2) y shape weights n(2), of s_L s_R] by (simp add: poly6_eval_outer T)
  have zero: "point_mul C (ped_B pc) (fst (eq_pedersen_scalars ?eq))
      + point_mul C (ped_B_blinding pc) (snd (eq_pedersen_scalars ?eq))
      + (point_mul C I1 x + point_mul C U1 (x * x) + point_mul C S1 (x * (x * x))
         + (point_mul C I2 (u * x) + point_mul C U2 (u * (x * x)) + point_mul C S2 (u * (x * (x * x))))
         + (lincomb C (map (\<lambda>wVi. wVi * (r * (x * x))) wV) ?Vs
            + lincomb C [r * x, r * (x * x) * x, r * (x * x) * (x * x), r * (x * x) * (x * (x * x)), r * (x * x) * (x * x) * (x * x)] ?Ts)
         + (lincomb C u_sq Ls + lincomb C u_inv_sq Rs))
      + lincomb C gs ?Gs + lincomb C hs ?Hs = 0"
    unfolding verification_equation.select_convs fst_conv snd_conv
  proof (rule equation_assembly[OF _ gens o1[unfolded P1] o2[unfolded P2] t_x VT])
    show "lincomb C l G' + lincomb C rv H' + point_mul C (point_mul C (ped_B pc) w) (poly6_eval T x)
        + (lincomb C u_sq Ls + lincomb C u_inv_sq Rs)
      = point_mul C (lincomb C ss G') a + point_mul C (lincomb C (rev ss) H') b
        + point_mul C (point_mul C (ped_B pc) w) (a * b)"
      using ipp by (simp add: ipp_statement_def inner add.assoc)
  qed
  have zips: "lincomb C gs (map (affine_to_point C) Gv) = lincomb C gs ?Gs" "lincomb C hs (map (affine_to_point C) Hv) = lincomb C hs ?Hs"
    using len_gh by (simp_all add: lincomb_def zip_take_length flip: take_map)
  have the_points: "map the (eq_proof_points ?eq) = ?ps"
    unfolding proof_points by (simp only: map_map comp_def option.sel list.map_ident)
  have "lincomb C (eq_proof_scalars ?eq) (map the (eq_proof_points ?eq))
      = lincomb C [x, x * x, x * (x * x), u * x, u * (x * x), u * (x * (x * x))] [I1, U1, S1, I2, U2, S2]
        + (lincomb C (map (\<lambda>wVi. wVi * (r * (x * x))) wV) ?Vs
        + (lincomb C [r * x, r * (x * x) * x, r * (x * x) * (x * x), r * (x * x) * (x * (x * x)), r * (x * x) * (x * x) * (x * x)] ?Ts
        + (lincomb C u_sq Ls + lincomb C u_inv_sq Rs)))"
    unfolding the_points unfolding verification_equation.select_convs
    using lens gates(3) points by (simp only: lincomb_append length_map length_zip min.idem list.size)
  moreover have "lincomb C [x, x * x, x * (x * x), u * x, u * (x * x), u * (x * (x * x))] [I1, U1, S1, I2, U2, S2]
      = point_mul C I1 x + point_mul C U1 (x * x) + point_mul C S1 (x * (x * x))
         + (point_mul C I2 (u * x) + point_mul C U2 (u * (x * x)) + point_mul C S2 (u * (x * (x * x))))"
    by (simp add: lincomb_def add.assoc)
  ultimately have "equation_value C ?eq = 0"
    using zero unfolding equation_value_def
    by (simp only: zips verification_equation.select_convs fst_conv snd_conv add.assoc)
  moreover have "None \<notin> set (eq_proof_points ?eq)" unfolding proof_points by auto
  moreover have "equation_wf ?eq"
    using len_gh n lens gates(3) points unfolding equation_wf_def proof_points by (simp add: case_prod_unfold)
  ultimately show ?thesis by (simp only: check_equation_iff simp_thms)
qed

lemma r1cs_accepts:
  assumes agree: "cs_agree C p vf" "prover_ok p"
    and prove: "prove_and_return_transcript M C R bp_gens g p = Inr (pf, t', g')"
    and completed: "completed_prover M C R bp_gens g p = Inr p2" "satisfied p2" "length (secret_a_L (pr_secrets p2)) \<le> 2 ^ 31"
    and gens: "gens_capacity bp_gens \<le> length (shared_G bp_gens 0)" "gens_capacity bp_gens \<le> length (shared_H bp_gens 0)"
    and points: "\<forall>c \<in> set (checked_points pf) \<union> set (ipp_L_vec (rp_ipp_proof pf)) \<union> set (ipp_R_vec (rp_ipp_proof pf)).
      \<not> compressed_is_identity C c"
    and challenges: "\<And>ch vf'. verifier_replay M C bp_gens pf vf = Inr (ch, vf') \<Longrightarrow> ch_y ch \<noteq> 0
      \<and> (\<forall>us t. rfold (ipp_replay M C) ([], innerproduct_domain_sep M (next_power_of_two (ve_num_vars vf')) (ve_transcript vf'))
        (zip (ipp_L_vec (rp_ipp_proof pf)) (ipp_R_vec (rp_ipp_proof pf))) = Inr (us, t) \<longrightarrow> 0 \<notin> set us)"
  shows "verify_and_return_transcript M C R (pr_pc_gens p) bp_gens g2 pf vf = Inr t'"
proof -
  obtain first p1 rng1 second rng2 where run: "prover_first_phase M C R bp_gens g p = Inr (first, p1, rng1, g')"
      "prover_create_randomized_constraints M C p1 = Inr p2"
      "next_power_of_two (length (secret_a_L (pr_secrets p2))) \<le> gens_capacity bp_gens"
      "prover_second_phase C R bp_gens (length (secret_a_L (pr_secrets p))) p2 rng1 = (second, rng2)"
      "prover_respond M C R bp_gens (length (secret_a_L (pr_secrets p))) first second p2 rng2 = (pf, t')"
    using prove_runs[OF prove completed(1)] by blast
  define s n n1 N where "s = pr_secrets p2" and "n = length (secret_a_L (pr_secrets p2))"
    and "n1 = length (secret_a_L (pr_secrets p))" and "N = next_power_of_two (length (secret_a_L (pr_secrets p2)))"
  have bound: "length (secret_a_L (pr_secrets p2)) \<le> 2 ^ 63"
    using completed(3) by (rule order_trans) simp
  obtain vf2 where vf2: "verifier_create_randomized_constraints M C (vf\<lparr>ve_transcript := append_point M C (ascii ''S1'') (ph_S first)
      (append_point M C (ascii ''A_O1'') (ph_A_O first) (append_point M C (ascii ''A_I1'') (ph_A_I first)
      (append_u64 M (ascii ''m'') (length (ve_V vf)) (ve_transcript vf))))\<rparr>) = Inr vf2"
    "cs_agree C p2 vf2" "prover_ok p2" "same_values p p2" "n1 \<le> n"
    "length (ph_s_L first @ ph_s_L second) = n" "length (ph_s_R first @ ph_s_R second) = n"
    "phase_opens C (ped_B_blinding (pr_pc_gens p2)) (\<lambda>i. affine_to_point C (shared_G bp_gens 0 ! i))
      (\<lambda>i. affine_to_point C (shared_H bp_gens 0 ! i)) s (ph_s_L first @ ph_s_L second) (ph_s_R first @ ph_s_R second) {..<n1} first"
    "phase_opens C (ped_B_blinding (pr_pc_gens p2)) (\<lambda>i. affine_to_point C (shared_G bp_gens 0 ! i))
      (\<lambda>i. affine_to_point C (shared_H bp_gens 0 ! i)) s (ph_s_L first @ ph_s_L second) (ph_s_R first @ ph_s_R second) {n1..<n} second"
    using honest_r1cs_run[OF agree run(1-4) gens bound] unfolding s_def n_def n1_def by blast
  define k where "k = log2_ceil n"
  have N: "N = 2 ^ k" "n \<le> N" "N \<le> length (shared_G bp_gens 0)" "N \<le> length (shared_H bp_gens 0)"
    using next_power_of_two_ge[OF bound] run(3) gens by (simp_all add: N_def n_def k_def next_power_of_two_def)
  have k: "k < 32" using log2_ceil_le[of n 31] completed(3) by (simp add: k_def n_def)
  obtain ch tw where ch: "replay_challenges M C pf (pr_transcript p2) = (ch, tw)" by fastforce
  have ve: "ve_transcript vf2 = pr_transcript p2" "ve_num_vars vf2 = n"
    using vf2(2) by (simp_all add: cs_agree_def n_def)
  show ?thesis
  proof (rule prover_respond_replay[OF run(5) ch, folded s_def n_def n1_def N_def])
    fix wL wR wO wV l_poly r_poly exp_y l_vec r_vec b1 b3 b4 b5 b6
    let ?y = "ch_y ch" and ?x = "ch_x ch" and ?u = "ch_u ch"
    let ?sL = "ph_s_L first @ ph_s_L second" and ?sR = "ph_s_R first @ ph_s_R second"
    let ?Q = "point_mul C (ped_B (pr_pc_gens p2)) (ch_w ch)" and ?ipp = "rp_ipp_proof pf"
    assume w: "prover_flattened_constraints p2 (ch_z ch) = (wL, wR, wO, wV)"
      and polys: "prover_polynomials C s wL wR wO ?y n N ?sL ?sR = (l_poly, r_poly, exp_y)"
      and vecs: "response_vectors l_poly r_poly exp_y ?y ?x n N = (l_vec, r_vec)"
      and pf: "pf = \<lparr>rp_A_I1 = ph_A_I first, rp_A_O1 = ph_A_O first, rp_S1 = ph_S first,
        rp_A_I2 = ph_A_I second, rp_A_O2 = ph_A_O second, rp_S2 = ph_S second,
        rp_T_1 = point_compress C (pedersen_commit C (pr_pc_gens p2) (t1 (special_inner_product l_poly r_poly)) b1),
        rp_T_3 = point_compress C (pedersen_commit C (pr_pc_gens p2) (t3 (special_inner_product l_poly r_poly)) b3),
        rp_T_4 = point_compress C (pedersen_commit C (pr_pc_gens p2) (t4 (special_inner_product l_poly r_poly)) b4),
        rp_T_5 = point_compress C (pedersen_commit C (pr_pc_gens p2) (t5 (special_inner_product l_poly r_poly)) b5),
        rp_T_6 = point_compress C (pedersen_commit C (pr_pc_gens p2) (t6 (special_inner_product l_poly r_poly)) b6),
        rp_t_x = poly6_eval (special_inner_product l_poly r_poly) ?x,
        rp_t_x_blinding = t_x_blinding_at ?x b1 (fold (\<lambda>(c, v_b) acc. acc + c * v_b) (zip wV (secret_v_blinding s)) 0)
          b3 b4 b5 b6,
        rp_e_blinding = ?x * (ph_i_blinding first + ?u * ph_i_blinding second
          + ?x * (ph_o_blinding first + ?u * ph_o_blinding second + ?x * (ph_s_blinding first + ?u * ph_s_blinding second))),
        rp_ipp_proof = ?ipp\<rparr>"
      and create: "ipp_create M C tw ?Q (g_factors n1 (n - n1 + (N - n)) ?u)
        (map (\<lambda>(y, u_or_1). y * u_or_1) (zip (exp_iter N (scalar_invert C ?y)) (g_factors n1 (n - n1 + (N - n)) ?u)))
        (take N (shared_G bp_gens 0)) (take N (shared_H bp_gens 0)) l_vec r_vec = (?ipp, t')"
    note sel = pf[THEN arg_cong, of rp_A_I1, unfolded r1cs_proof.select_convs]
      pf[THEN arg_cong, of rp_A_O1, unfolded r1cs_proof.select_convs] pf[THEN arg_cong, of rp_S1, unfolded r1cs_proof.select_convs]
      pf[THEN arg_cong, of rp_A_I2, unfolded r1cs_proof.select_convs] pf[THEN arg_cong, of rp_A_O2, unfolded r1cs_proof.select_convs]
      pf[THEN arg_cong, of rp_S2, unfolded r1cs_proof.select_convs] pf[THEN arg_cong, of rp_T_1, unfolded r1cs_proof.select_convs]
      pf[THEN arg_cong, of rp_T_3, unfolded r1cs_proof.select_convs] pf[THEN arg_cong, of rp_T_4, unfolded r1cs_proof.select_convs]
      pf[THEN arg_cong, of rp_T_5, unfolded r1cs_proof.select_convs] pf[THEN arg_cong, of rp_T_6, unfolded r1cs_proof.select_convs]
      pf[THEN arg_cong, of rp_t_x, unfolded r1cs_proof.select_convs]
      pf[THEN arg_cong, of rp_t_x_blinding, unfolded r1cs_proof.select_convs]
      pf[THEN arg_cong, of rp_e_blinding, unfolded r1cs_proof.select_convs]
    have replay: "verifier_replay M C bp_gens pf vf = Inr (ch, vf2\<lparr>ve_transcript := tw\<rparr>)"
      using points vf2(1) run(3) ch ve by (intro verifier_replay_eq) (simp_all add: sel n_def)
    have factors: "n - n1 + (N - n) = N - n1" using vf2(5) N(2) by simp
    have polys': "l_poly = l_closed s wR ?y n ?sL" "r_poly = r_closed s wL wO ?y n ?sR" "exp_y = ?y ^ n"
      using polys prover_polynomials_eq[OF vf2(6,7) N(2), of s wL wR wO ?y] by simp_all
    have vecs': "l_vec = map (\<lambda>i. if i < n then l_at s wR ?y ?sL ?x i else 0) [0..<N]"
      "r_vec = map (\<lambda>i. if i < n then r_at s wL wO ?y ?sR ?x i else - (?y ^ i)) [0..<N]"
      using vecs response_vectors_eq[OF N(2), of s wR ?y ?sL wL wO ?sR ?x] by (simp_all add: polys')
    have y: "?y \<noteq> 0" and us: "\<And>us t. rfold (ipp_replay M C) ([], innerproduct_domain_sep M (2 ^ k) tw)
        (zip (ipp_L_vec ?ipp) (ipp_R_vec ?ipp)) = Inr (us, t) \<Longrightarrow> 0 \<notin> set us"
      using challenges[OF replay] ve N(1) by (simp_all add: N_def n_def)
    let ?f = "g_factors n1 (N - n1) ?u"
    let ?hf = "map (\<lambda>(y, u_or_1). y * u_or_1) (zip (exp_iter N (inverse ?y)) ?f)"
    have create': "ipp_create M C tw ?Q ?f ?hf (take N (shared_G bp_gens 0)) (take N (shared_H bp_gens 0)) l_vec r_vec = (?ipp, t')"
      using create by (simp add: factors invert_value)
    have lens: "length (take N (shared_G bp_gens 0)) = 2 ^ k" "length (take N (shared_H bp_gens 0)) = 2 ^ k"
      "length l_vec = 2 ^ k" "length r_vec = 2 ^ k" "length ?f = 2 ^ k" "length ?hf = 2 ^ k"
      using N vf2(5) by (simp_all add: vecs' exp_iter_eq)
    have "\<exists>u_sq u_inv_sq ss. ipp_verification_scalars M C ?ipp (2 ^ k) tw = Inr ((u_sq, u_inv_sq, ss), t')"
      by (rule ipp_create_scalars[OF k lens create']) (use points in blast, rule us)
    then obtain u_sq u_inv_sq ss where sc: "ipp_verification_scalars M C ?ipp (2 ^ k) tw = Inr ((u_sq, u_inv_sq, ss), t')"
      by blast
    obtain Ls Rs where ipp: "map (compressed_decompress C) (ipp_L_vec ?ipp) = map Some Ls"
        "map (compressed_decompress C) (ipp_R_vec ?ipp) = map Some Rs"
        "length Ls = length u_sq" "length Rs = length u_inv_sq" "length ss = 2 ^ k"
        "ipp_statement C ?Q l_vec r_vec (map (\<lambda>(g, x). point_mul C g x) (zip (map (affine_to_point C) (take N (shared_G bp_gens 0))) ?f))
            (map (\<lambda>(h, x). point_mul C h x) (zip (map (affine_to_point C) (take N (shared_H bp_gens 0))) ?hf))
            + lincomb C u_sq Ls + lincomb C u_inv_sq Rs
          = point_mul C (lincomb C ss (map (\<lambda>(g, x). point_mul C g x) (zip (map (affine_to_point C) (take N (shared_G bp_gens 0))) ?f))) (ipp_a ?ipp)
            + point_mul C (lincomb C (rev ss) (map (\<lambda>(h, x). point_mul C h x) (zip (map (affine_to_point C) (take N (shared_H bp_gens 0))) ?hf))) (ipp_b ?ipp)
            + point_mul C ?Q (ipp_a ?ipp * ipp_b ?ipp)"
      by (rule ipp_create_equation[OF k lens create' sc]) (rule us)
    obtain wc where w': "verifier_flattened_constraints vf2 (ch_z ch) = (wL, wR, wO, wV, wc)"
      using flattened_agree[OF vf2(2,3), of "ch_z ch"] w
      by (cases "verifier_flattened_constraints vf2 (ch_z ch)") (simp add: drop_constant_def)
    note sat = satisfied_weights[OF vf2(2,3) completed(2), of "ch_z ch", folded s_def, unfolded w']
    obtain rng3 g3 where r3: "finalize_rng R (build_rng R t') g2 = (rng3, g3)" by fastforce
    obtain r rng4 where r4: "scalar_random R rng3 = (r, rng4)" by fastforce
    obtain gs hs where gh: "equation_scalars ?u ?x (ipp_a ?ipp) (ipp_b ?ipp) n1
        (map (\<lambda>(wRi, ey). wRi * ey) (zip wR (exp_iter N (inverse ?y))) @ replicate (N - n) 0)
        (exp_iter N (inverse ?y)) wL wO ss = (gs, hs)" by fastforce
    have gates: "gates_ok s" "length (secret_a_L s) = n" using vf2(3) by (simp_all add: prover_ok_def s_def n_def)
    have e: "?x * (ph_i_blinding first + ?u * ph_i_blinding second
          + ?x * (ph_o_blinding first + ?u * ph_o_blinding second + ?x * (ph_s_blinding first + ?u * ph_s_blinding second)))
        = phase_blinding first ?x + ?u * phase_blinding second ?x"
      by (simp add: phase_blinding_def algebra_simps)
    note check = honest_equation[OF gates refl y sat(2)[unfolded gates(2)] sat(1) vf2(5) N(2,3,4) vf2(8,9) gh
        ipp(5)[folded N(1)] ipp(1-4) refl ipp(6)[unfolded vecs'], of r b1 b3 b4 b5 b6, folded polys']
    have V: "ve_V vf2 = map (\<lambda>(v, b). point_compress C (pedersen_commit C (pr_pc_gens p2) v b)) (zip (secret_v s) (secret_v_blinding s))"
      using vf2(2) by (simp add: cs_agree_def s_def)
    have flat: "verifier_flattened_constraints (vf2\<lparr>ve_transcript := tw\<rparr>) (ch_z ch) = (wL, wR, wO, wV, wc)"
      using w' by (simp add: verifier_flattened_constraints_def)
    have start: "ve_num_vars vf = n1" "pr_pc_gens p = pr_pc_gens p2" "N = next_power_of_two n"
      using agree(1) vf2(4) by (simp_all add: cs_agree_def same_values_def n1_def N_def n_def)
    have view: "ve_num_vars (vf2\<lparr>ve_transcript := tw\<rparr>) = n" "ve_transcript (vf2\<lparr>ve_transcript := tw\<rparr>) = tw"
      "ve_V (vf2\<lparr>ve_transcript := tw\<rparr>) = ve_V vf2" using ve(2) by simp_all
    show ?thesis
      by (simp only: verify_and_return_transcript_def verification_equation_and_return_transcript_def Let_def start(1,2) replay
          rbind_Inr prod.case view start(3)[symmetric] flat sc[folded N(1)] map_err_Inr invert_value gh r3 r4 sel e V check)
  qed
qed

end

end
