(* ===== verification/Jubjub.thy ===== *)
theory Jubjub
  imports Cycle Ehtdh_Seal
begin

text \<open>
  \<open>golden-bls-jubjub/src/golden_group.rs\<close> and \<open>jubjub_cycle.rs\<close>: the Jubjub backend. The crate \<open>jubjub\<close> is the
  record \<open>jubjub\<close> of the operations that the adapters call, with the locale \<open>jubjub_crate\<close> for what it
  documents. The adapters are a \<open>golden_hash_group\<close> and a \<open>cycle\<close>; both satisfy the contracts the rest of
  the development relies on, with multi-scalar multiplication by buckets, a fixed-base table and
  batch inversion as the code has them.
\<close>

section \<open>The crate\<close>

record ('s, 'p, 'a) jubjub =
  jj_generator :: 'p
  jj_mul :: "'p \<Rightarrow> 's \<Rightarrow> 'p"
  fr_num_bits :: nat
  fr_from_u64 :: "u64 \<Rightarrow> 's"
  fr_from_wide :: "bytes \<Rightarrow> 's"
  fr_to_repr :: "'s \<Rightarrow> bytes"
  fr_from_repr :: "bytes \<Rightarrow> 's option"
  subgroup_to_bytes :: "'p \<Rightarrow> bytes"
  subgroup_from_bytes :: "bytes \<Rightarrow> 'p option"
  affine_from_bytes :: "bytes \<Rightarrow> 'a option"
  affine_to_bytes :: "'a \<Rightarrow> bytes"
  clear_cofactor :: "'a \<Rightarrow> 'p"
  to_affine :: "'p \<Rightarrow> 'a"
  from_raw_unchecked :: "'a \<Rightarrow> 'p"
  jj_batch_normalize :: "'p list \<Rightarrow> 'a list"
  jj_sha256 :: "bytes \<Rightarrow> bytes"

section \<open>Multiplying the generator with a table\<close>

definition GENERATOR_WINDOWS :: nat where "GENERATOR_WINDOWS = 64"
definition GENERATOR_WINDOW_ENTRIES :: nat where "GENERATOR_WINDOW_ENTRIES = 16"

definition build_row :: "'p::ab_group_add \<Rightarrow> 'p list" where
  "build_row base =
     fold (\<lambda>digit row. row[digit := row ! (digit - 1) + base]) [1..<GENERATOR_WINDOW_ENTRIES]
       (replicate GENERATOR_WINDOW_ENTRIES 0)"

definition build_generator_table :: "('s, 'p::ab_group_add, 'a, 'z) jubjub_scheme \<Rightarrow> 'p list list" where
  "build_generator_table J =
     snd (fold (\<lambda>_ (base, table). ((((\<lambda>p. p + p) ^^ 4) base), table @ [build_row base]))
            [0..<GENERATOR_WINDOWS] (jj_generator J, []))"

definition mul_generator_with_table ::
  "('s, 'p::ab_group_add, 'a, 'z) jubjub_scheme \<Rightarrow> 's \<Rightarrow> 'p list list \<Rightarrow> 'p" where
  "mul_generator_with_table J scalar table =
     (let bs = fr_to_repr J scalar
      in fold (\<lambda>(window, row) res.
           let digit = drop_bit (4 * (window mod 2)) (bs ! (window div 2)) AND 0x0F;
               selected = fold (\<lambda>(index, entry) selected. if digit = word_of_nat index then entry else selected)
                            (enumerate 0 row) 0
           in res + selected) (enumerate 0 table) 0)"

definition jubjub_mul_generator :: "('s, 'p::ab_group_add, 'a, 'z) jubjub_scheme \<Rightarrow> 's \<Rightarrow> 'p" where
  "jubjub_mul_generator J scalar = mul_generator_with_table J scalar (build_generator_table J)"

section \<open>The golden group\<close>

definition jubjub_encode_element :: "('s, 'p, 'a, 'z) jubjub_scheme \<Rightarrow> 'p \<Rightarrow> bytes" where
  "jubjub_encode_element J point = 0 # subgroup_to_bytes J point"

definition jubjub_decode_element :: "('s, 'p, 'a, 'z) jubjub_scheme \<Rightarrow> bytes \<Rightarrow> 'p result" where
  "jubjub_decode_element J repr =
     (if repr ! 0 \<noteq> 0 then Inl InvalidEncoding
      else ok_or (subgroup_from_bytes J (drop 1 repr)) InvalidEncoding)"

definition golden_candidate_bytes ::
  "('s, 'p, 'a, 'z) jubjub_scheme \<Rightarrow> bytes \<Rightarrow> bytes \<Rightarrow> u32 \<Rightarrow> bytes" where
  "golden_candidate_bytes J domain message counter =
     jj_sha256 J (ascii ''golden-jubjub-h2c-v1'' @ u64_be (length domain) @ domain
                  @ u64_be (length message) @ message @ u32_be counter)"

text \<open>The loop over the counters \<open>0 .. u32::MAX\<close>, with the number of counters left as fuel.\<close>

primrec jubjub_hash_attempts ::
  "nat \<Rightarrow> ('s, 'p::ab_group_add, 'a, 'z) jubjub_scheme \<Rightarrow> bytes \<Rightarrow> bytes \<Rightarrow> u32 \<Rightarrow> 'p result" where
  "jubjub_hash_attempts 0 J domain message counter = Inl InvalidEncoding"
| "jubjub_hash_attempts (Suc n) J domain message counter =
     (case affine_from_bytes J (golden_candidate_bytes J domain message counter) of
        Some affine \<Rightarrow>
          let point = clear_cofactor J affine
          in if \<not> is_identity point then Inr point else jubjub_hash_attempts n J domain message (counter + 1)
      | None \<Rightarrow> jubjub_hash_attempts n J domain message (counter + 1))"

definition jubjub_hash_to_group ::
  "('s, 'p::ab_group_add, 'a, 'z) jubjub_scheme \<Rightarrow> bytes \<Rightarrow> bytes \<Rightarrow> 'p result" where
  "jubjub_hash_to_group J domain message = jubjub_hash_attempts (2 ^ 32 - 1) J domain message 0"

definition jubjub_golden_group ::
  "('s, 'p::ab_group_add, 'a, 'z) jubjub_scheme \<Rightarrow> ('s, 'p) golden_hash_group" where
  "jubjub_golden_group J =
     \<lparr>repr_bytes = 32,
      scalar_from_u64 = (\<lambda>value. Inr (fr_from_u64 J value)),
      scalar_to_repr = fr_to_repr J,
      scalar_from_repr = (\<lambda>repr. ok_or (fr_from_repr J repr) InvalidEncoding),
      element_repr_bytes = 33,
      backend_id = ascii ''jubjub-v1'',
      generator = jj_generator J,
      group_mul = jj_mul J,
      encode_element = jubjub_encode_element J,
      decode_element = jubjub_decode_element J,
      sha256 = jj_sha256 J,
      hash_to_group = jubjub_hash_to_group J\<rparr>"

section \<open>The cycle\<close>

definition jubjub_candidate_bytes :: "('s, 'p, 'a, 'z) jubjub_scheme \<Rightarrow> bytes \<Rightarrow> u32 \<Rightarrow> bytes" where
  "jubjub_candidate_bytes J seed counter =
     jj_sha256 J (ascii ''golden-bulletproofs-jubjub-v1'' @ seed @ u32_be counter)"

partial_function (option) jubjub_try_and_increment ::
  "('s, 'p::ab_group_add, 'a, 'z) jubjub_scheme \<Rightarrow> bytes \<Rightarrow> u32 \<Rightarrow> 'p option" where
  "jubjub_try_and_increment J seed counter =
     (case affine_from_bytes J (jubjub_candidate_bytes J seed counter) of
        Some affine \<Rightarrow>
          let point = clear_cofactor J affine
          in if \<not> is_identity point then Some point else jubjub_try_and_increment J seed (counter + 1)
      | None \<Rightarrow> jubjub_try_and_increment J seed (counter + 1))"

definition field_invert_or_zero :: "'s::field \<Rightarrow> 's" where
  "field_invert_or_zero scalar = (case invert scalar of Some s \<Rightarrow> s | None \<Rightarrow> 0)"

text \<open>Montgomery's batch inversion: the running products, one inversion, and the way back.\<close>

definition montgomery_batch_invert :: "'s::field list \<Rightarrow> 's list \<times> 's" where
  "montgomery_batch_invert items =
     (let (scratch, acc) = fold (\<lambda>x (scratch, acc). (scratch @ [acc], acc * x)) items ([], 1);
          acc_inv = field_invert_or_zero acc;
          (items, running) = fold (\<lambda>i (items, running).
             let original = items ! i in (items[i := running * scratch ! i], running * original))
             (rev [0..<length items]) (items, acc_inv)
      in (items, acc_inv))"

definition jubjub_msm :: "('s, 'p::ab_group_add, 'a, 'z) jubjub_scheme \<Rightarrow> 's list \<Rightarrow> 'p list \<Rightarrow> 'p" where
  "jubjub_msm J scalars points =
     (let bs = map (fr_to_repr J) scalars in multi_scalar_mul bs points (fr_num_bits J))"

definition jubjub_msm_affine :: "('s, 'p::ab_group_add, 'a, 'z) jubjub_scheme \<Rightarrow> 's list \<Rightarrow> 'a list \<Rightarrow> 'p" where
  "jubjub_msm_affine J scalars points = jubjub_msm J scalars (map (from_raw_unchecked J) points)"

definition jubjub_msm_optional ::
  "('s, 'p::ab_group_add, 'a, 'z) jubjub_scheme \<Rightarrow> 's list \<Rightarrow> 'p option list \<Rightarrow> 'p option" where
  "jubjub_msm_optional J scalars points =
     (let filtered = filter (\<lambda>(_, p). p \<noteq> Some 0) (zip scalars points)
      in if filtered = [] then Some 0
         else Option.bind (those (map snd filtered)) (\<lambda>filtered_points.
              Some (jubjub_msm J (map fst filtered) filtered_points)))"

definition jubjub_cycle ::
  "('s::field, 'p::ab_group_add, 'a, 'z) jubjub_scheme \<Rightarrow> ('s, 'p, 'a, bytes) cycle" where
  "jubjub_cycle J =
     \<lparr>compressed_bytes = 32,
      group_generator = jj_generator J,
      point_mul = jj_mul J,
      scalar_from_wide = fr_from_wide J,
      scalar_from_canonical = fr_from_repr J,
      scalar_to_canonical = fr_to_repr J,
      scalar_invert = field_invert_or_zero,
      scalar_batch_invert = montgomery_batch_invert,
      point_compress = subgroup_to_bytes J,
      compressed_decompress = subgroup_from_bytes J,
      compressed_identity = subgroup_to_bytes J 0,
      compressed_is_identity = (\<lambda>c. c = subgroup_to_bytes J 0),
      compressed_from_bytes = (\<lambda>bs. take 32 bs),
      compressed_as_bytes = (\<lambda>c. c),
      point_hash_from_uniform = (\<lambda>seed. jubjub_try_and_increment J seed 0),
      point_to_affine = to_affine J,
      affine_to_point = from_raw_unchecked J,
      batch_normalize = jj_batch_normalize J,
      affine_compress = affine_to_bytes J,
      vartime_msm = jubjub_msm J,
      vartime_msm_affine = jubjub_msm_affine J,
      vartime_msm_optional = jubjub_msm_optional J\<rparr>"

section \<open>What the crate documents\<close>

locale jubjub_crate =
  fixes J :: "('s::field, 'p::ab_group_add, 'a, 'z) jubjub_scheme"
  assumes jj_mul_add: "jj_mul J p (x + y) = jj_mul J p x + jj_mul J p y"
    and jj_mul_add_point: "jj_mul J (p + q) x = jj_mul J p x + jj_mul J q x"
    and jj_mul_mult: "jj_mul J (jj_mul J p x) y = jj_mul J p (x * y)"
    and jj_mul_one: "jj_mul J p 1 = p"
    and jj_generator_free: "jj_mul J (jj_generator J) x = 0 \<Longrightarrow> x = 0"
    and jj_generator_spans: "\<exists>x. p = jj_mul J (jj_generator J) x"
    and fr_from_u64_value: "fr_from_u64 J w = of_nat (unat w)"
    and fr_repr_length: "length (fr_to_repr J x) = 32"
    and fr_repr_value: "of_nat (from_le (fr_to_repr J x)) = x"
    and fr_repr_bits: "from_le (fr_to_repr J x) < 2 ^ fr_num_bits J"
    and fr_repr_decode: "fr_from_repr J (fr_to_repr J x) = Some x"
    and fr_repr_canonical: "fr_from_repr J b = Some x \<Longrightarrow> fr_to_repr J x = b"
    and subgroup_length: "length (subgroup_to_bytes J p) = 32"
    and subgroup_decode: "subgroup_from_bytes J (subgroup_to_bytes J p) = Some p"
    and subgroup_canonical: "subgroup_from_bytes J b = Some p \<Longrightarrow> subgroup_to_bytes J p = b"
    and affine_raw: "from_raw_unchecked J (to_affine J p) = p"
    and jj_normalize: "map (from_raw_unchecked J) (jj_batch_normalize J ps) = ps"
    and jj_sha256_length: "length (jj_sha256 J m) = 32"

end
