(* ===== verification/Jubjub_Laws.thy ===== *)
theory Jubjub_Laws
  imports Jubjub
begin

text \<open>
  The Jubjub adapters keep the contracts of the development: a group of prime order with canonical
  encodings and hashing to its nonzero elements, and a cycle whose multi-scalar multiplication and
  batch inversion are right.
\<close>

section \<open>Batch inversion\<close>

lemma montgomery_products:
  "fold (\<lambda>x (scratch, acc). (scratch @ [acc], acc * x)) xs (ss, a :: 's::field)
    = (ss @ map (\<lambda>i. a * prod_list (take i xs)) [0..<length xs], a * prod_list xs)"
proof (induction xs arbitrary: ss a)
  case (Cons x xs)
  have "map (\<lambda>i. a * prod_list (take i (x # xs))) [0..<length (x # xs)]
      = a # map (\<lambda>i. a * x * prod_list (take i xs)) [0..<length xs]"
    unfolding length_Cons map_upt_Suc by (simp add: mult.assoc)
  with Cons show ?case by (simp add: mult.assoc)
qed simp

lemma montgomery_back:
  assumes "\<forall>i < length xs. scratch ! i = prod_list (take i xs)" and "0 \<notin> set xs" and "n \<le> length xs"
  shows "fold (\<lambda>i (items, running). let original = items ! i in (items[i := running * scratch ! i], running * original))
      (rev [0..<n]) (take n xs @ map inverse (drop n xs), inverse (prod_list (take n xs)))
    = (map inverse xs, (1 :: 's::field))"
  using assms(3)
proof (induction n)
  case (Suc n)
  let ?p = "prod_list (take n xs)"
  from Suc.prems have n: "n < length xs" by simp
  have "xs ! n \<in> set xs" using n by simp
  then have nz: "?p \<noteq> 0" "xs ! n \<noteq> 0"
    using assms(2) by (auto simp: prod_list_zero_iff dest: in_set_takeD)
  let ?items = "take (Suc n) xs @ map inverse (drop (Suc n) xs)"
  have item: "?items ! n = xs ! n" using n by (simp add: nth_append)
  have upd: "?items[n := inverse (xs ! n)] = take n xs @ map inverse (drop n xs)"
    using n by (simp add: take_Suc_conv_app_nth list_update_append flip: Cons_nth_drop_Suc)
  have "inverse (prod_list (take (Suc n) xs)) * scratch ! n = inverse (xs ! n)"
    "inverse (prod_list (take (Suc n) xs)) * xs ! n = inverse ?p"
    using n nz assms(1) by (simp_all add: take_Suc_conv_app_nth field_simps)
  then show ?case
    using Suc.IH n by (simp add: Let_def item upd)
qed simp

lemma field_invert_or_zero_eq: "field_invert_or_zero x = inverse x"
  by (simp add: field_invert_or_zero_def invert_def)

lemma montgomery_batch_invert_eq:
  assumes "0 \<notin> set xs"
  shows "montgomery_batch_invert xs = (map inverse xs, prod_list (map inverse xs :: 's::field list))"
proof -
  let ?scratch = "map (\<lambda>i. prod_list (take i xs)) [0..<length xs]"
  have "fold (\<lambda>i (items, running). let original = items ! i in (items[i := running * ?scratch ! i], running * original))
      (rev [0..<length xs]) (xs, inverse (prod_list xs)) = (map inverse xs, 1)"
    using montgomery_back[of xs ?scratch "length xs"] assms by simp
  moreover have "inverse (prod_list xs) = prod_list (map inverse xs)" by (induction xs) auto
  ultimately show ?thesis
    using montgomery_products[of xs "[]" 1]
    by (simp add: montgomery_batch_invert_def field_invert_or_zero_eq Let_def)
qed

section \<open>The generator table\<close>

lemma build_row_nth:
  assumes "d < 16"
  shows "build_row base ! d = times_nat d base"
proof -
  have "n \<le> 15 \<Longrightarrow> length (fold (\<lambda>digit row. row[digit := row ! (digit - 1) + base]) [1..<Suc n] (replicate 16 0)) = 16
      \<and> (\<forall>d < 16. fold (\<lambda>digit row. row[digit := row ! (digit - 1) + base]) [1..<Suc n] (replicate 16 0) ! d
          = (if d \<le> n then times_nat d base else 0))" for n
  proof (induction n)
    case (Suc n)
    let ?r = "fold (\<lambda>digit row. row[digit := row ! (digit - 1) + base]) [1..<Suc n] (replicate 16 0)"
    have "[1..<Suc (Suc n)] = [1..<Suc n] @ [Suc n]" by simp
    then have step: "fold (\<lambda>digit row. row[digit := row ! (digit - 1) + base]) [1..<Suc (Suc n)] (replicate 16 0)
        = ?r[Suc n := ?r ! n + base]" by (simp only: fold_append) simp
    from Suc have "length ?r = 16" "?r ! n = times_nat n base"
      "\<forall>d < 16. ?r ! d = (if d \<le> n then times_nat d base else 0)" by auto
    moreover have "?r[Suc n := ?r ! n + base] ! d = (if d \<le> Suc n then times_nat d base else 0)" if "d < 16" for d
      using calculation that by (cases "d = Suc n") (auto simp: add.commute)
    ultimately show ?case unfolding step by simp
  qed (simp add: nth_Cons')
  from this[of 15] assms show ?thesis
    by (auto simp: build_row_def GENERATOR_WINDOW_ENTRIES_def)
qed

lemma build_row_length: "length (build_row base) = 16"
proof -
  have "length (fold (\<lambda>digit row. row[digit := row ! (digit - 1) + base]) ds row) = length row" for ds and row :: "'a list"
    by (induction ds arbitrary: row) auto
  then show ?thesis by (simp add: build_row_def GENERATOR_WINDOW_ENTRIES_def)
qed

lemma build_generator_table_eq:
  fixes J :: "('s, 'p::ab_group_add, 'a, 'z) jubjub_scheme"
  shows "build_generator_table J = map (\<lambda>w. build_row (times_nat (16 ^ w) (jj_generator J))) [0..<64]"
proof -
  have "fold (\<lambda>_ (base, table). ((((\<lambda>p. p + p) ^^ 4) base), table @ [build_row base])) [0..<n] (g, [])
      = (times_nat (16 ^ n) g, map (\<lambda>w. build_row (times_nat (16 ^ w) g)) [0..<n])"
    for n and g :: 'p
  proof (induction n)
    case (Suc n)
    have "((\<lambda>p. p + p) ^^ 4) (times_nat (16 ^ n) g) = times_nat (16 ^ Suc n) g"
      unfolding four_doublings times_nat_mult[symmetric] by simp
    with Suc show ?case by simp
  qed simp
  then show ?thesis by (simp add: build_generator_table_def GENERATOR_WINDOWS_def)
qed

text \<open>Scanning the whole row selects the entry of the digit.\<close>

lemma select_entry:
  assumes "unat digit < length row" and "length row \<le> 256"
  shows "fold (\<lambda>(index, entry) selected. if digit = word_of_nat index then entry else selected) (enumerate 0 row) 0
    = row ! unat (digit :: byte)"
proof -
  have "k + length row \<le> 256 \<Longrightarrow>
      fold (\<lambda>(index, entry) selected. if digit = word_of_nat index then entry else selected) (enumerate k row) z
      = (if k \<le> unat digit \<and> unat digit < k + length row then row ! (unat digit - k) else z)" for k z
  proof (induction row arbitrary: k z)
    case (Cons e row)
    have "digit = word_of_nat k \<longleftrightarrow> unat digit = k"
      using Cons.prems by (auto simp: unat_of_nat)
    then show ?case
      using Cons.prems by (auto simp: Cons.IH nth_Cons' diff_Suc split: nat.splits)
  qed auto
  from this[of 0] assms show ?thesis by simp
qed

lemma nibble_value:
  assumes "w div 2 < length bs"
  shows "unat (drop_bit (4 * (w mod 2)) (bs ! (w div 2)) AND 0x0F) = take_bit 4 (drop_bit (4 * w) (from_le bs))"
proof -
  have nib: "b AND 0x0F = take_bit 4 b" for b :: byte
    using take_bit_eq_mask[of 4 b] by (simp add: mask_eq_exp_minus_1)
  have "bit (from_le bs) (4 * w + i) \<longleftrightarrow> bit (bs ! (w div 2)) (4 * (w mod 2) + i)" if "i < 4" for i
  proof -
    have "4 * w + i = 8 * (w div 2) + (4 * (w mod 2) + i)"
      using div_mult_mod_eq[of w 2] by linarith
    moreover have "4 * (w mod 2) + i < 8" using that by (simp add: mod_2_eq_odd)
    ultimately have "(4 * w + i) div 8 = w div 2" "(4 * w + i) mod 8 = 4 * (w mod 2) + i"
      by (simp_all only: div_mult_self4 mod_mult_self4) simp_all
    then show ?thesis using assms by (simp only: bit_from_le simp_thms)
  qed
  then show ?thesis
    unfolding nib
    by (intro bit_eqI) (auto simp: bit_unsigned_iff bit_take_bit_iff bit_drop_bit_eq)
qed

context jubjub_crate
begin

lemma times_nat_mul: "times_nat n p = jj_mul J p (of_nat n)"
proof -
  have "jj_mul J p 0 = 0" using jj_mul_add[of p 0 0] by simp
  then show ?thesis by (induction n) (auto simp: jj_mul_add jj_mul_one)
qed

text \<open>Multiplying with the table is multiplying the generator.\<close>

lemma jubjub_mul_generator_eq: "jubjub_mul_generator J scalar = jj_mul J (jj_generator J) scalar"
proof -
  let ?bs = "fr_to_repr J scalar" and ?g = "jj_generator J"
  let ?row = "\<lambda>w. build_row (times_nat (16 ^ w) ?g)"
  let ?digit = "\<lambda>w. drop_bit (4 * (w mod 2)) (?bs ! (w div 2)) AND (0x0F :: byte)"
  let ?step = "\<lambda>(window, row) res. res + fold (\<lambda>(index, entry) selected.
      if ?digit window = word_of_nat index then entry else selected) (enumerate 0 row) 0"
  have digit: "unat (?digit w) = take_bit 4 (drop_bit (4 * w) (from_le ?bs))" if "w < 64" for w
    using that by (intro nibble_value) (simp add: fr_repr_length)
  have "fold ?step (enumerate 0 (map ?row [0..<n])) 0 = times_nat (take_bit (4 * n) (from_le ?bs)) ?g" if "n \<le> 64" for n
    using that
  proof (induction n)
    case (Suc n)
    have small: "unat (?digit n) < 16" using Suc.prems digit[of n] by (simp add: take_bit_nat_less_exp[of 4, simplified])
    have "fold (\<lambda>(index, entry) selected. if ?digit n = word_of_nat index then entry else selected)
        (enumerate 0 (?row n)) 0 = times_nat (unat (?digit n)) (times_nat (16 ^ n) ?g)"
      using small by (simp add: select_entry build_row_length build_row_nth)
    moreover have "take_bit (4 * Suc n) (from_le ?bs)
        = take_bit (4 * n) (from_le ?bs) + unat (?digit n) * 16 ^ n"
    proof -
      have "from_le ?bs mod (2 ^ (4 * n) * 2 ^ 4)
          = 2 ^ (4 * n) * (from_le ?bs div 2 ^ (4 * n) mod 2 ^ 4) + from_le ?bs mod 2 ^ (4 * n)"
        by (rule mod_mult2_eq)
      moreover have "unat (?digit n) = from_le ?bs div 2 ^ (4 * n) mod 2 ^ 4"
        using Suc.prems digit[of n] by (simp only: take_bit_eq_mod drop_bit_eq_div)
      moreover have "4 * Suc n = 4 * n + 4" "(16 :: nat) ^ n = 2 ^ (4 * n)" by (simp_all add: power_mult)
      ultimately show ?thesis by (simp only: take_bit_eq_mod power_add) simp
    qed
    ultimately show ?case
      using Suc by (simp add: enumerate_append_eq times_nat_add times_nat_mult)
  qed simp
  then have "jubjub_mul_generator J scalar = times_nat (take_bit (4 * 64) (from_le ?bs)) ?g"
    by (simp add: jubjub_mul_generator_def mul_generator_with_table_def Let_def build_generator_table_eq del: upt_rec_numeral)
  moreover have "from_le ?bs < 2 ^ (4 * 64)" using from_le_less[of ?bs] by (simp add: fr_repr_length)
  ultimately show ?thesis
    by (simp add: take_bit_nat_eq_self times_nat_mul fr_repr_value)
qed

text \<open>Multiplication by buckets is the sum of the multiples.\<close>

lemma jubjub_msm_eq:
  assumes "length xs = length ps"
  shows "jubjub_msm J xs ps = (\<Sum>(x, p)\<leftarrow>zip xs ps. jj_mul J p x)"
proof -
  let ?bits = "4 * ((fr_num_bits J + 3) div 4)"
  have "from_le (fr_to_repr J x) mod 2 ^ ?bits = from_le (fr_to_repr J x)" for x
  proof -
    have "fr_num_bits J \<le> ?bits" by arith
    then have "(2 :: nat) ^ fr_num_bits J \<le> 2 ^ ?bits" by (intro power_increasing) simp_all
    with fr_repr_bits[of x] have "from_le (fr_to_repr J x) < 2 ^ ?bits" by (rule less_le_trans)
    then show ?thesis by (rule mod_less)
  qed
  then have "times_nat (from_le (fr_to_repr J x) mod 2 ^ ?bits) p = jj_mul J p x" for x p
    by (simp add: times_nat_mul fr_repr_value)
  then show ?thesis
    by (simp add: jubjub_msm_def multi_scalar_mul_value zip_map1 case_prod_unfold comp_def)
qed

lemma jubjub_hash_attempts_nonzero: "jubjub_hash_attempts n J domain message c = Inr p \<Longrightarrow> p \<noteq> 0"
  by (induction n arbitrary: c) (auto simp: is_identity_def Let_def split: option.splits if_splits)

end

section \<open>The contracts\<close>

sublocale jubjub_crate \<subseteq> jubjub_group: hash_group "jubjub_golden_group J"
proof
  show "hash_to_group (jubjub_golden_group J) domain message = Inr point \<Longrightarrow> point \<noteq> 0" for domain message point
    by (auto simp: jubjub_golden_group_def jubjub_hash_to_group_def dest: jubjub_hash_attempts_nonzero)
qed (simp_all add: jubjub_golden_group_def jj_mul_add jj_mul_add_point jj_mul_mult jj_mul_one jj_generator_free
    jj_generator_spans fr_from_u64_value)

sublocale jubjub_crate \<subseteq> jubjub_codec: golden_codec "jubjub_golden_group J"
proof
  show "decode_element (jubjub_golden_group J) b = Inr p \<Longrightarrow> encode_element (jubjub_golden_group J) p = b" for b p
  proof -
    assume "decode_element (jubjub_golden_group J) b = Inr p"
    then have "b ! 0 = 0" "subgroup_to_bytes J p = drop 1 b"
      by (auto simp: jubjub_golden_group_def jubjub_decode_element_def subgroup_canonical split: if_splits)
    moreover from this(2) have "b \<noteq> []" using subgroup_length[of p] by auto
    ultimately show "encode_element (jubjub_golden_group J) p = b"
      by (cases b) (auto simp: jubjub_golden_group_def jubjub_encode_element_def)
  qed
qed (auto simp: jubjub_golden_group_def jubjub_encode_element_def jubjub_decode_element_def fr_repr_length
    fr_repr_decode fr_repr_canonical subgroup_length subgroup_decode jj_sha256_length)

sublocale jubjub_crate \<subseteq> jubjub_cyc: cycle_laws "jubjub_cycle J"
proof
  show "compressed_is_identity (jubjub_cycle J) (point_compress (jubjub_cycle J) p) \<longleftrightarrow> p = 0" for p
    using subgroup_decode by (auto simp: jubjub_cycle_def) (metis option.inject)
qed (auto simp: jubjub_cycle_def jj_mul_add jj_mul_add_point jj_mul_mult jj_mul_one jubjub_msm_eq jubjub_msm_affine_def
    affine_raw jj_normalize field_invert_or_zero_eq montgomery_batch_invert_eq subgroup_decode zip_map2 case_prod_unfold
    comp_def)

context jubjub_crate
begin

lemmas jubjub_lawful = conjI[OF jubjub_group.hash_group_axioms conjI[OF jubjub_codec.golden_codec_axioms
  jubjub_cyc.cycle_laws_axioms]]

end

section \<open>A small instance\<close>

definition tiny_fr_to_repr :: "tiny \<Rightarrow> bytes" where
  "tiny_fr_to_repr s = word_of_nat (tiny_get s) # replicate 31 0"

definition tiny_fr_from_repr :: "bytes \<Rightarrow> tiny option" where
  "tiny_fr_from_repr bs =
     (case bs of [] \<Rightarrow> None
      | b # rest \<Rightarrow> if rest = replicate 31 0 \<and> unat b < 97 then Some (reduce (unat b)) else None)"

definition tiny_jubjub :: "(tiny, tiny, tiny) jubjub" where
  "tiny_jubjub =
     \<lparr>jj_generator = 1, jj_mul = (*), fr_num_bits = 252, fr_from_u64 = (\<lambda>w. reduce (unat w)),
      fr_from_wide = (\<lambda>bs. reduce (from_le bs)), fr_to_repr = tiny_fr_to_repr, fr_from_repr = tiny_fr_from_repr,
      subgroup_to_bytes = tiny_fr_to_repr, subgroup_from_bytes = tiny_fr_from_repr,
      affine_from_bytes = tiny_fr_from_repr, affine_to_bytes = tiny_fr_to_repr, clear_cofactor = (\<lambda>a. 8 * a),
      to_affine = (\<lambda>p. p), from_raw_unchecked = (\<lambda>a. a), jj_batch_normalize = (\<lambda>ps. ps), jj_sha256 = tiny_hash\<rparr>"

lemma tiny_fr_decode: "tiny_fr_from_repr (tiny_fr_to_repr s) = Some s"
  using tiny_get_less[of s] by (simp add: tiny_fr_from_repr_def tiny_fr_to_repr_def unat_of_nat)

lemma tiny_fr_canonical: "tiny_fr_from_repr b = Some s \<Longrightarrow> tiny_fr_to_repr s = b"
  by (auto simp: tiny_fr_from_repr_def tiny_fr_to_repr_def split: list.splits if_splits)

lemma tiny_fr_length: "length (tiny_fr_to_repr s) = 32"
  by (simp add: tiny_fr_to_repr_def)

lemma from_le_zeros: "from_le (replicate n 0) = 0"
  by (induction n) simp_all

lemma tiny_fr_value: "from_le (tiny_fr_to_repr s) = tiny_get s"
  using tiny_get_less[of s] by (simp add: tiny_fr_to_repr_def from_le_zeros unat_of_nat del: replicate.simps)

interpretation tinyj: jubjub_crate tiny_jubjub
proof
  show "of_nat (from_le (fr_to_repr tiny_jubjub x)) = x" for x
    by (simp add: tiny_jubjub_def tiny_fr_value flip: reduce_of_nat)
  show "from_le (fr_to_repr tiny_jubjub x) < 2 ^ fr_num_bits tiny_jubjub" for x
    using tiny_get_less[of x] by (simp add: tiny_jubjub_def tiny_fr_value)
  show "\<exists>x. p = jj_mul tiny_jubjub (jj_generator tiny_jubjub) x" for p
    by (simp add: tiny_jubjub_def)
qed (simp_all add: tiny_jubjub_def algebra_simps reduce_of_nat tiny_fr_decode tiny_fr_canonical
    tiny_fr_length tiny_hash_def)

section \<open>Properties\<close>

text \<open>
  The bucket multiplication of any number of scalars, given by their little-endian bytes, is the
  sum of the multiples of the points. The code reads whole windows of four bits: the bits up to
  the first multiple of four that is not below the bit length, and no higher ones.
\<close>

theorem multi_scalar_mul_correct:
  "multi_scalar_mul sbs points scalar_bit_len
    = (\<Sum>(bs, point)\<leftarrow>zip sbs points.
         times_nat (from_le bs mod 2 ^ (4 * ((scalar_bit_len + 3) div 4))) point)"
  by (rule multi_scalar_mul_value)

text \<open>
  C38. The Jubjub adapters refine the abstract backend: over any implementation of the crate's
  documented operations, the golden group is a group of prime order with canonical encodings whose
  hash is never the identity, multiplying the generator with the precomputed table is ordinary
  multiplication, and the cycle keeps its contract (multi-scalar multiplication is the sum of
  the multiples, batch inversion inverts every entry, encodings round trip).
\<close>

theorem jubjub_backend_lawful:
  assumes "jubjub_crate J"
  shows "hash_group (jubjub_golden_group J) \<and> golden_codec (jubjub_golden_group J)
    \<and> (\<forall>scalar. jubjub_mul_generator J scalar = mul_generator (jubjub_golden_group J) scalar)
    \<and> cycle_laws (jubjub_cycle J)"
proof -
  have "jubjub_mul_generator J scalar = mul_generator (jubjub_golden_group J) scalar" for scalar
    by (simp add: jubjub_crate.jubjub_mul_generator_eq[OF assms] mul_generator_def jubjub_golden_group_def)
  then show ?thesis
    using jubjub_crate.jubjub_lawful[OF assms] by blast
qed

lemma jubjub_backend_lawful_witness: "jubjub_mul_generator tiny_jubjub 5 = 5 \<and> cycle_laws (jubjub_cycle tiny_jubjub)"
  using jubjub_backend_lawful[OF tinyj.jubjub_crate_axioms]
  by (simp add: mul_generator_def jubjub_golden_group_def tiny_jubjub_def)

end
