(* ===== verification/Inner_Product_Laws.thy ===== *)
theory Inner_Product_Laws
  imports Inner_Product_Check Jubjub_Laws Prototype_Laws
begin

text \<open>
  What the inner-product argument promises: the prover of the code makes the proof of the textbook
  protocol, and the verifier accepts it.
\<close>

section \<open>A small setting for the witnesses\<close>

text \<open>A transcript that counts its operations and answers every challenge with ones.\<close>

definition counting_merlin_u64 :: "nat merlin_u64" where
  "counting_merlin_u64 = merlin.extend counting_merlin \<lparr>append_u64 = (\<lambda>_ _ n. Suc n)\<rparr>"

abbreviation tiny_cycle :: "(tiny, tiny, tiny, bytes) cycle" where
  "tiny_cycle \<equiv> jubjub_cycle tiny_jubjub"

lemma tiny_cycle_simps [simp]:
  "point_mul tiny_cycle p x = p * x" "affine_to_point tiny_cycle p = p"
  by (simp_all add: jubjub_cycle_def tiny_jubjub_def)

lemma counting_innerproduct [simp]: "innerproduct_domain_sep counting_merlin_u64 n t = t + 2"
  by (simp add: innerproduct_domain_sep_def counting_merlin_u64_def counting_merlin_def merlin.extend_def)

lemma counting_append_point [simp]: "append_point counting_merlin_u64 C label p t = Suc t"
  by (simp add: append_point_def counting_merlin_u64_def counting_merlin_def merlin.extend_def)

lemma tiny_challenge [simp]: "challenge_scalar counting_merlin_u64 tiny_cycle label t = (26, Suc t)"
proof -
  have "255 * from_le (replicate n 1) + 1 = 256 ^ n" for n by (induction n) simp_all
  from this[of 64] have "from_le (replicate 64 1) = (256 ^ 64 - 1) div 255" by linarith
  then have "reduce (from_le (replicate 64 1)) = 26"
    by (simp add: tiny_literals(3)[of "num.Bit0 (num.Bit1 (num.Bit0 (num.Bit1 num.One)))"] reduce_eq)
  then show ?thesis
    by (simp add: challenge_scalar_def counting_merlin_u64_def counting_merlin_def merlin.extend_def jubjub_cycle_def
        tiny_jubjub_def)
qed

section \<open>Properties\<close>

text \<open>
  C37. The optimised prover is equivalent to the textbook argument: for every power of two, working over the
  original generators with accumulated coefficients and collapsing them after the first rounds
  gives the same proof and the same transcript as folding the scaled generators in every round.
\<close>

theorem ipp_create_textbook:
  assumes "cycle_laws C" and "k < 64" and "length G = 2 ^ k" "length H = 2 ^ k"
    and "length a = 2 ^ k" "length b = 2 ^ k" and "length G_factors = 2 ^ k" "length H_factors = 2 ^ k"
  shows "ipp_create M C t Q G_factors H_factors G H a b =
    ipp_fold M C k (innerproduct_domain_sep M (2 ^ k) t) Q a b
      (map (\<lambda>(g, x). point_mul C (affine_to_point C g) x) (zip G G_factors))
      (map (\<lambda>(h, x). point_mul C (affine_to_point C h) x) (zip H H_factors)) [] []"
  by (rule cycle_laws.ipp_create_fold[OF assms])

lemma ipp_create_textbook_witness:
  "ipp_create counting_merlin_u64 tiny_cycle 0 7 [1, 2] [3, 1] [5, 6] [7, 8] [1, 2] [3, 4]
    = ipp_fold counting_merlin_u64 tiny_cycle 1 2 7 [1, 2] [3, 4] [5, 12] [21, 8] [] []"
  using ipp_create_textbook[OF tinyj.jubjub_cyc.cycle_laws_axioms, of 1 "[5, 6]" "[7, 8]" "[1, 2]" "[3, 4]" "[1, 2]" "[3, 1]"
      counting_merlin_u64 0 7]
  by (simp del: One_nat_def add: numeral_2_eq_2)

text \<open>
  C36. The verifier is equivalent to the textbook one: on a proof with as many left as right points and nonzero
  challenges it accepts exactly when there are two to the number of rounds generators and factors,
  fewer than 32 rounds, no round point is the identity, all of them decode, and folding the statement
  and the generators round by round ends in an equation that the final scalars satisfy.
\<close>

theorem ipp_verify_textbook:
  assumes "cycle_laws C" and "length (ipp_R_vec pf) = length (ipp_L_vec pf)"
    and "\<forall>us t'. rfold (ipp_replay M C) ([], innerproduct_domain_sep M n t) (zip (ipp_L_vec pf) (ipp_R_vec pf))
      = Inr (us, t') \<longrightarrow> 0 \<notin> set us"
  shows "ipp_verify M C pf n t G_factors H_factors P Q G H = Inr t' \<longleftrightarrow>
    length G = n \<and> length H = n \<and> length G_factors = n \<and> length H_factors = n
    \<and> n = 2 ^ length (ipp_L_vec pf) \<and> length (ipp_L_vec pf) < 32
    \<and> (\<exists>us Ls Rs. rfold (ipp_replay M C) ([], innerproduct_domain_sep M n t) (zip (ipp_L_vec pf) (ipp_R_vec pf)) = Inr (us, t')
        \<and> map (compressed_decompress C) (ipp_L_vec pf) = map Some Ls
        \<and> map (compressed_decompress C) (ipp_R_vec pf) = map Some Rs
        \<and> ipp_check C Q (ipp_a pf) (ipp_b pf) (zip us (zip Ls Rs)) P
            (map (\<lambda>(g, x). point_mul C g x) (zip G G_factors)) (map (\<lambda>(h, x). point_mul C h x) (zip H H_factors)))"
  by (rule cycle_laws.ipp_verify_accepts[OF assms(1,2)]) (use assms(3) in blast)

text \<open>
  Completeness of the inner-product argument: a proof that the prover made for vectors of a power-of-two length
  is accepted by the verifier for the commitment to these vectors and their inner product, and both
  transcripts end in the same state, provided that no round point is the identity and the challenges
  are not zero.
\<close>

theorem ipp_complete:
  assumes "cycle_laws C" and "k < 32" and "length G = 2 ^ k" "length H = 2 ^ k"
    and "length a = 2 ^ k" "length b = 2 ^ k" and "length G_factors = 2 ^ k" "length H_factors = 2 ^ k"
    and "ipp_create M C t Q G_factors H_factors G H a b = (pf, t')"
    and "\<forall>c \<in> set (ipp_L_vec pf) \<union> set (ipp_R_vec pf). \<not> compressed_is_identity C c"
    and "\<forall>us t'. rfold (ipp_replay M C) ([], innerproduct_domain_sep M (2 ^ k) t) (zip (ipp_L_vec pf) (ipp_R_vec pf))
      = Inr (us, t') \<longrightarrow> 0 \<notin> set us"
  shows "ipp_verify M C pf (2 ^ k) t G_factors H_factors
      (vartime_msm_affine C (map (\<lambda>(x, g). x * g) (zip a G_factors) @ map (\<lambda>(x, h). x * h) (zip b H_factors)
          @ [inner_product a b]) (G @ H @ [point_to_affine C Q]))
      Q (map (affine_to_point C) G) (map (affine_to_point C) H) = Inr t'"
  by (rule cycle_laws.ipp_create_verifies[OF assms(1-10)]) (use assms(11) in blast)

section \<open>A proof in the small setting\<close>

abbreviation tiny_pf :: "(tiny, bytes) inner_product_proof" where
  "tiny_pf \<equiv> \<lparr>ipp_L_vec = [tiny_fr_to_repr 27], ipp_R_vec = [tiny_fr_to_repr 76], ipp_a = 41, ipp_b = 78\<rparr>"

lemma tiny_create:
  "ipp_create counting_merlin_u64 tiny_cycle 0 7 [1, 2] [3, 1] [5, 6] [7, 8] [1, 2] [3, 4] = (tiny_pf, 5)"
proof -
  have compress: "point_compress tiny_cycle p = tiny_fr_to_repr p" for p
    by (simp add: jubjub_cycle_def tiny_jubjub_def)
  have challenge: "ipp_challenge counting_merlin_u64 tiny_cycle L R t = (26, t + 3)" for L R t
    by (simp add: ipp_challenge_def)
  have "fold_scalars 26 (inverse 26) 1 [1, 2 :: tiny] = [41]" "fold_scalars (inverse 26) 26 1 [3, 4 :: tiny] = [78]"
    by (simp_all add: fold_scalars_def tiny_eval)
  moreover have "round_L tiny_cycle 7 1 [1, 2] [3, 4] [5, 12] [21, 8] = 27"
    "round_R tiny_cycle 7 1 [1, 2] [3, 4] [5, 12] [21, 8] = 76"
    by (simp_all add: round_L_def round_R_def lincomb_def inner_product_zip tiny_eval)
  ultimately have "ipp_fold counting_merlin_u64 tiny_cycle 1 2 7 [1, 2] [3, 4] [5, 12] [21, 8] [] [] = (tiny_pf, 5)"
    by (simp add: challenge compress Let_def)
  then show ?thesis
    using cycle_laws.ipp_create_fold[OF tinyj.jubjub_cyc.cycle_laws_axioms, of 1 "[5, 6]" "[7, 8]" "[1, 2]" "[3, 4]" "[1, 2]" "[3, 1]" counting_merlin_u64 0 7]
    by (simp del: One_nat_def add: numeral_2_eq_2)
qed

lemma tiny_codec:
  "compressed_is_identity tiny_cycle (tiny_fr_to_repr p) \<longleftrightarrow> p = 0"
  "compressed_decompress tiny_cycle (tiny_fr_to_repr p) = Some p"
  using tinyj.jubjub_cyc.is_identity_compress[of p] tinyj.jubjub_cyc.decompress_compress[of p]
  by (simp_all add: jubjub_cycle_def tiny_jubjub_def)

lemma tiny_nonzero: "(26 :: tiny) \<noteq> 0" "(27 :: tiny) \<noteq> 0" "(76 :: tiny) \<noteq> 0"
  by (simp_all add: tiny_eval)

lemma tiny_replay:
  "ipp_replay counting_merlin_u64 tiny_cycle ([], t) (tiny_fr_to_repr 27, tiny_fr_to_repr 76) = Inr ([26], t + 3)"
  by (simp add: ipp_replay_def validate_and_append_point_def tiny_codec tiny_nonzero Let_def)
    (simp add: counting_merlin_u64_def counting_merlin_def merlin.extend_def)

lemma ipp_verify_textbook_witness:
  "ipp_verify counting_merlin_u64 tiny_cycle tiny_pf 2 0 [1, 2] [3, 1] 7 7 [5, 6] [7, 8] = Inr 5
    \<longleftrightarrow> ipp_check tiny_cycle 7 41 78 [(26, 27, 76)] 7 [5, 12] [21, 8]"
proof -
  have decode: "[Some 27] = map Some Ls \<longleftrightarrow> Ls = [27 :: tiny]" "[Some 76] = map Some Ls \<longleftrightarrow> Ls = [76 :: tiny]" for Ls
    by (cases Ls; auto)+
  show ?thesis
    by (subst ipp_verify_textbook[OF tinyj.jubjub_cyc.cycle_laws_axioms])
      (simp_all add: tiny_replay tiny_nonzero tiny_nonzero(1)[symmetric] tiny_codec decode del: ipp_check.simps)
qed

lemma ipp_complete_witness:
  "ipp_verify counting_merlin_u64 tiny_cycle tiny_pf (2 ^ 1) 0 [1, 2] [3, 1]
    (vartime_msm_affine tiny_cycle [1 * 1, 2 * 2, 3 * 3, 4 * 1, inner_product [1, 2] [3, 4]]
      [5, 6, 7, 8, point_to_affine tiny_cycle 7]) 7 [5, 6] [7, 8] = Inr 5"
  using ipp_complete[OF tinyj.jubjub_cyc.cycle_laws_axioms, of 1 "[5, 6]" "[7, 8]" "[1, 2]" "[3, 4]" "[1, 2]" "[3, 1]"
      counting_merlin_u64 0 7 tiny_pf 5]
  by (simp add: tiny_create tiny_replay tiny_codec tiny_nonzero tiny_nonzero(1)[symmetric])

end
