(* ===== verification/R1cs_Laws.thy ===== *)
theory R1cs_Laws
  imports R1cs_Complete Inner_Product_Laws
begin

text \<open>
  The properties of the R1CS proofs: circuits do the same on the prover and the verifier, and the proof of a
  satisfied circuit is accepted.
\<close>

section \<open>Sessions\<close>

text \<open>
  The two sides of a statement: the prover commits to the values and runs a circuit, the verifier commits to
  the received commitments and runs the same circuit; both register the same deferred circuits.
\<close>

definition prover_session ::
  "('t, 'y) merlin_scheme \<Rightarrow> ('s::field, 'p, 'a, 'c, 'z) cycle_scheme \<Rightarrow> 'p pedersen_gens \<Rightarrow> 't \<Rightarrow> ('s \<times> 's) list
    \<Rightarrow> 's gadget \<Rightarrow> 's gadget list \<Rightarrow> r1cs_error + ('s, 'p, 't) prover" where
  "prover_session M C pc t openings gadget deferred =
     (let p = fold (\<lambda>(v, b) p. snd (prover_commit M C v b p)) openings (r1cs_prover_new M pc t)
      in rbind (run_prover M C gadget p) (\<lambda>p. Inr (fold prover_specify_randomized_constraints deferred p)))"

definition verifier_session ::
  "('t, 'y) merlin_scheme \<Rightarrow> ('s::field, 'p, 'a, 'c, 'z) cycle_scheme \<Rightarrow> 't \<Rightarrow> 'c list
    \<Rightarrow> 's gadget \<Rightarrow> 's gadget list \<Rightarrow> r1cs_error + ('s, 'c, 't) verifier" where
  "verifier_session M C t commitments gadget deferred =
     (let vf = fold (\<lambda>V vf. snd (verifier_commit M C V vf)) commitments (verifier_cs_new M t)
      in rbind (run_verifier M C gadget vf) (\<lambda>vf. Inr (fold verifier_specify_randomized_constraints deferred vf)))"

definition commitments ::
  "('s, 'p, 'a, 'c, 'z) cycle_scheme \<Rightarrow> 'p pedersen_gens \<Rightarrow> ('s \<times> 's) list \<Rightarrow> 'c list" where
  "commitments C pc openings = map (\<lambda>(v, b). point_compress C (pedersen_commit C pc v b)) openings"

lemma specify_agree:
  "cs_agree C p vf \<Longrightarrow> prover_ok p \<Longrightarrow>
    cs_agree C (fold prover_specify_randomized_constraints deferred p) (fold verifier_specify_randomized_constraints deferred vf)
    \<and> prover_ok (fold prover_specify_randomized_constraints deferred p)
    \<and> pr_pc_gens (fold prover_specify_randomized_constraints deferred p) = pr_pc_gens p"
proof (induction deferred arbitrary: p vf)
  case (Cons d deferred)
  have "cs_agree C (prover_specify_randomized_constraints d p) (verifier_specify_randomized_constraints d vf)"
    "prover_ok (prover_specify_randomized_constraints d p)"
    using Cons.prems by (simp_all add: cs_agree_def prover_ok_def prover_specify_randomized_constraints_def
        verifier_specify_randomized_constraints_def)
  from Cons.IH[OF this] show ?case by (simp add: prover_specify_randomized_constraints_def)
qed simp

lemma commit_agree:
  assumes "cs_agree C p vf" "prover_ok p" "pr_pc_gens p = pc"
  shows "cs_agree C (fold (\<lambda>(v, b) p. snd (prover_commit M C v b p)) openings p)
      (fold (\<lambda>V vf. snd (verifier_commit M C V vf)) (commitments C pc openings) vf)
    \<and> prover_ok (fold (\<lambda>(v, b) p. snd (prover_commit M C v b p)) openings p)
    \<and> pr_pc_gens (fold (\<lambda>(v, b) p. snd (prover_commit M C v b p)) openings p) = pc"
  using assms
proof (induction openings arbitrary: p vf)
  case Nil
  then show ?case by (simp add: commitments_def)
next
  case (Cons o1 openings)
  obtain v b where o1: "o1 = (v, b)" by (cases o1) auto
  have "cs_agree C (snd (prover_commit M C v b p)) (snd (verifier_commit M C (point_compress C (pedersen_commit C pc v b)) vf))"
    "prover_ok (snd (prover_commit M C v b p))" "pr_pc_gens (snd (prover_commit M C v b p)) = pc"
    using Cons.prems by (auto simp: cs_agree_def prover_ok_def gates_ok_def prover_commit_def verifier_commit_def Let_def)
  from Cons.IH[OF this] show ?case by (simp add: o1 commitments_def)
qed

lemma sessions_agree:
  assumes "prover_session M C pc t openings gadget deferred = Inr p"
  obtains vf where "verifier_session M C t (commitments C pc openings) gadget deferred = Inr vf"
    "cs_agree C p vf" "prover_ok p" "pr_pc_gens p = pc"
proof -
  let ?p = "fold (\<lambda>(v, b) p. snd (prover_commit M C v b p)) openings (r1cs_prover_new M pc t)"
  let ?vf = "fold (\<lambda>V vf. snd (verifier_commit M C V vf)) (commitments C pc openings) (verifier_cs_new M t)"
  have new: "cs_agree C (r1cs_prover_new M pc t) (verifier_cs_new M t)" "prover_ok (r1cs_prover_new M pc t :: ('a, 'b, 'c) prover)"
    "pr_pc_gens (r1cs_prover_new M pc t) = pc"
    by (simp_all add: cs_agree_def prover_ok_def gates_ok_def r1cs_prover_new_def verifier_cs_new_def secrets_new_def)
  note start = commit_agree[OF new, of M openings]
  obtain p1 where p1: "run_prover M C gadget ?p = Inr p1" "p = fold prover_specify_randomized_constraints deferred p1"
    using assms by (auto simp: prover_session_def Let_def)
  obtain vf1 where vf1: "run_verifier M C gadget ?vf = Inr vf1" "good_call C ?p p1 vf1"
    using run_agree[OF _ _ p1(1), of ?vf] start by blast
  then have "cs_agree C p1 vf1" "prover_ok p1" "pr_pc_gens p1 = pc"
    using start by (simp_all add: good_call_def same_values_def)
  with specify_agree[of C p1 vf1 deferred] show ?thesis
    using that vf1(1) p1(2) by (simp add: verifier_session_def Let_def)
qed

section \<open>A circuit in the small setting\<close>

text \<open>One gate: the square of a committed value is nine.\<close>

definition tiny_pc :: "tiny pedersen_gens" where
  "tiny_pc = \<lparr>ped_B = 2, ped_B_blinding = 3\<rparr>"

definition tiny_gens :: "tiny bulletproof_gens" where
  "tiny_gens = \<lparr>gens_capacity = 1, party_capacity = 1, gens_G_vec = [[11]], gens_H_vec = [[13]]\<rparr>"

definition tiny_transcript_rng :: "(tiny, nat, nat, tiny, tiny) transcript_rng" where
  "tiny_transcript_rng = \<lparr>build_rng = (\<lambda>t. t), rekey_with_witness_bytes = (\<lambda>_ _ b. b), finalize_rng = (\<lambda>_ g. (g, g)),
     scalar_random = (\<lambda>h. (h, h + 1))\<rparr>"

definition tiny_circuit :: "tiny gadget" where
  "tiny_circuit =
     Multiply [(Committed 0, 1)] [(Committed 0, 1)] (\<lambda>(l, r, out). Constrain [(out, 1), (ConstantOne, - 9)] (Finish (Inr ())))"

definition tiny_prover :: "(tiny, tiny, nat) prover" where
  "tiny_prover =
     \<lparr>pr_transcript = 2, pr_pc_gens = tiny_pc,
      pr_constraints = [[(Committed 0, 1), (MultiplierLeft 0, - 1)], [(Committed 0, 1), (MultiplierRight 0, - 1)],
                        [(MultiplierOutput 0, 1), (ConstantOne, - 9)]],
      pr_secrets = \<lparr>secret_a_L = [3], secret_a_R = [3], secret_a_O = [9], secret_v = [3], secret_v_blinding = [5]\<rparr>,
      pr_deferred = [], pr_pending = None\<rparr>"

definition tiny_verifier :: "(tiny, bytes, nat) verifier" where
  "tiny_verifier =
     \<lparr>ve_transcript = 2, ve_constraints = pr_constraints tiny_prover, ve_num_vars = 1, ve_V = [tiny_fr_to_repr 21],
      ve_deferred = [], ve_pending = None\<rparr>"

lemma tiny_compress: "point_compress tiny_cycle p = tiny_fr_to_repr p"
  by (simp add: jubjub_cycle_def tiny_jubjub_def)

lemma tiny_repr_inj [simp]: "tiny_fr_to_repr a = tiny_fr_to_repr b \<longleftrightarrow> a = b"
  by (metis tiny_fr_decode option.inject)

lemma tiny_commit: "pedersen_commit tiny_cycle tiny_pc v b = 2 * v + 3 * b"
  by (simp add: pedersen_commit_def tinyj.jubjub_cyc.msm tiny_pc_def)

lemma counting_append [simp]:
  "append_message counting_merlin_u64 label message t = Suc t" "append_u64 counting_merlin_u64 label n t = Suc t"
  by (simp_all add: counting_merlin_u64_def counting_merlin_def merlin.extend_def)

lemma tiny_run_prover:
  "run_prover counting_merlin_u64 tiny_cycle tiny_circuit
     (snd (prover_commit counting_merlin_u64 tiny_cycle 3 5 (r1cs_prover_new counting_merlin_u64 tiny_pc 0))) = Inr tiny_prover"
  by (simp add: prover_commit_def r1cs_prover_new_def secrets_new_def tiny_circuit_def prover_multiply_def next_gate_def
      push_multiplier_def prover_constrain_def prover_eval_value Let_def tiny_prover_def assignment_def r1cs_domain_sep_def
      tiny_eval)

lemma tiny_agree: "cs_agree tiny_cycle tiny_prover tiny_verifier" "prover_ok tiny_prover" "satisfied tiny_prover"
  by (simp_all add: cs_agree_def tiny_prover_def tiny_verifier_def tiny_commit tiny_compress prover_ok_def gates_ok_def
      satisfied_def lc_in_range_def prover_eval_value assignment_def tiny_eval)

definition tiny_phase :: "(tiny, bytes) phase" where
  "tiny_phase = \<lparr>ph_i_blinding = 1, ph_o_blinding = 2, ph_s_blinding = 3, ph_s_L = [4], ph_s_R = [5],
     ph_A_I = tiny_fr_to_repr 75, ph_A_O = tiny_fr_to_repr 8, ph_S = tiny_fr_to_repr 21\<rparr>"

lemma tiny_msm_affine:
  "length xs = length as \<Longrightarrow> vartime_msm_affine tiny_cycle xs as = (\<Sum>(x, a)\<leftarrow>zip xs as. a * x)"
  by (simp add: tinyj.jubjub_cyc.msm_affine)

lemma tiny_first_phase:
  "prover_first_phase counting_merlin_u64 tiny_cycle tiny_transcript_rng tiny_gens 1 tiny_prover
    = Inr (tiny_phase, tiny_prover\<lparr>pr_transcript := 6\<rparr>, 6, 1)"
  by (simp add: prover_first_phase_def tiny_transcript_rng_def tiny_gens_def tiny_prover_def tiny_phase_def phase_msms_def tiny_msm_affine
      tiny_compress shared_G_def shared_H_def tiny_pc_def Let_def tiny_eval)

definition tiny_second :: "(tiny, bytes) phase" where
  "tiny_second = \<lparr>ph_i_blinding = 0, ph_o_blinding = 0, ph_s_blinding = 0, ph_s_L = [], ph_s_R = [],
     ph_A_I = tiny_fr_to_repr 0, ph_A_O = tiny_fr_to_repr 0, ph_S = tiny_fr_to_repr 0\<rparr>"

lemma tiny_second_phase:
  "prover_second_phase tiny_cycle tiny_transcript_rng tiny_gens 1 (tiny_prover\<lparr>pr_transcript := 7\<rparr>) h = (tiny_second, h)"
  by (simp add: prover_second_phase_def tiny_prover_def tiny_second_def Let_def tinyj.jubjub_cyc.identity_compress tiny_compress)

lemma tiny_randomized:
  "prover_create_randomized_constraints counting_merlin_u64 tiny_cycle (tiny_prover\<lparr>pr_transcript := 6\<rparr>)
    = Inr (tiny_prover\<lparr>pr_transcript := 7\<rparr>)"
  by (simp add: prover_create_randomized_constraints_def tiny_prover_def Let_def r1cs_1phase_domain_sep_def)

lemma tiny_weights:
  "prover_flattened_constraints (tiny_prover\<lparr>pr_transcript := t\<rparr>) 26 = ([71], [3], [19], [74])"
  by (simp add: prover_flattened_constraints_def tiny_prover_def prover_flatten_term_def scaled_by_coefficient_eq add_at_def
      tiny_eval)

definition tiny_l :: "tiny vec_poly3" where
  "tiny_l = \<lparr>vp0 = [], vp1 = [6], vp2 = [9], vp3 = [4]\<rparr>"

definition tiny_r :: "tiny vec_poly3" where
  "tiny_r = \<lparr>vp0 = [18], vp1 = [74], vp2 = [], vp3 = [5]\<rparr>"

lemma tiny_polynomials:
  "prover_polynomials tiny_cycle (pr_secrets tiny_prover) [71] [3] [19] 26 1 1 [4] [5] = (tiny_l, tiny_r, 26)"
proof -
  have "prover_polynomials tiny_cycle (pr_secrets tiny_prover) [71] [3] [19] 26 1 1 [4] [5]
      = (l_closed (pr_secrets tiny_prover) [3] 26 1 [4], r_closed (pr_secrets tiny_prover) [71] [19] 26 1 [5], 26 ^ 1)"
    by (rule cycle_laws.prover_polynomials_eq[OF tinyj.jubjub_cyc.cycle_laws_axioms]) simp_all
  then show ?thesis
    by (simp add: l_closed_def r_closed_def tiny_l_def tiny_r_def tiny_prover_def tiny_eval)
qed

lemma tiny_product: "special_inner_product tiny_l tiny_r = \<lparr>t1 = 11, t2 = 24, t3 = 59, t4 = 35, t5 = 45, t6 = 20\<rparr>"
  by (simp add: special_inner_product_def tiny_l_def tiny_r_def inner_product_zip tiny_eval)

lemma tiny_vectors: "response_vectors tiny_l tiny_r 26 26 26 1 1 = ([11], [0])"
  by (simp add: response_vectors_def tiny_l_def tiny_r_def vec_poly3_eval_def resize_def Let_def tiny_eval)

lemma tiny_ipp: "ipp_create counting_merlin_u64 tiny_cycle t Q [1] [1] [11] [13] [11] [0]
    = (\<lparr>ipp_L_vec = [], ipp_R_vec = [], ipp_a = 11, ipp_b = 0\<rparr>, t + 2)"
  using cycle_laws.ipp_create_fold[OF tinyj.jubjub_cyc.cycle_laws_axioms, of 0 "[11]" "[13]" "[11]" "[0]" "[1]" "[1]" counting_merlin_u64 t Q]
  by simp

definition tiny_proof :: "(tiny, bytes) r1cs_proof" where
  "tiny_proof = \<lparr>rp_A_I1 = tiny_fr_to_repr 75, rp_A_O1 = tiny_fr_to_repr 8, rp_S1 = tiny_fr_to_repr 21,
     rp_A_I2 = tiny_fr_to_repr 0, rp_A_O2 = tiny_fr_to_repr 0, rp_S2 = tiny_fr_to_repr 0,
     rp_T_1 = tiny_fr_to_repr 40, rp_T_3 = tiny_fr_to_repr 42, rp_T_4 = tiny_fr_to_repr 94, rp_T_5 = tiny_fr_to_repr 20,
     rp_T_6 = tiny_fr_to_repr 70, rp_t_x = 0, rp_t_x_blinding = 20, rp_e_blinding = 77,
     rp_ipp_proof = \<lparr>ipp_L_vec = [], ipp_R_vec = [], ipp_a = 11, ipp_b = 0\<rparr>\<rparr>"

lemma counting_append_scalar [simp]: "append_scalar counting_merlin_u64 C label x t = Suc t"
  by (simp add: append_scalar_def)

lemma tiny_respond:
  "prover_respond counting_merlin_u64 tiny_cycle tiny_transcript_rng tiny_gens 1 tiny_phase tiny_second (tiny_prover\<lparr>pr_transcript := 7\<rparr>) 6
    = (tiny_proof, 25)"
proof -
  have n: "length (secret_a_L (pr_secrets tiny_prover)) = 1" "next_power_of_two 1 = 1" "pr_pc_gens tiny_prover = tiny_pc"
    "secret_v_blinding (pr_secrets tiny_prover) = [5]"
    using log2_ceil_power[of 0] by (simp_all add: tiny_prover_def next_power_of_two_def)
  have phase: "ph_s_L tiny_phase = [4]" "ph_s_R tiny_phase = [5]" "ph_s_L tiny_second = []" "ph_s_R tiny_second = []"
    by (simp_all add: tiny_phase_def tiny_second_def)
  have rng: "scalar_random tiny_transcript_rng h = (h, h + 1)" for h by (simp add: tiny_transcript_rng_def)
  have gens: "shared_G tiny_gens 0 = [11]" "shared_H tiny_gens 0 = [13]"
    by (simp_all add: tiny_gens_def shared_G_def shared_H_def)
  have inv: "map (\<lambda>(y, u_or_1). y * u_or_1) (zip (exp_iter 1 (scalar_invert tiny_cycle 26)) [1 :: tiny]) = [1]"
    by (simp add: exp_iter_def)
  have one: "replicate 1 x = [x]" for x :: tiny by simp
  show ?thesis
    by (simp add: prover_respond_def Let_def n phase rng gens inv tiny_weights tiny_polynomials tiny_product tiny_vectors
        tiny_ipp one del: One_nat_def)
      (simp add: tiny_phase_def tiny_second_def tiny_proof_def tiny_commit tiny_compress poly6_eval_def t_x_blinding_at_def
        tiny_eval)
qed

lemma tiny_prove:
  "prove_and_return_transcript counting_merlin_u64 tiny_cycle tiny_transcript_rng tiny_gens 1 tiny_prover = Inr (tiny_proof, 25, 1)"
  "completed_prover counting_merlin_u64 tiny_cycle tiny_transcript_rng tiny_gens 1 tiny_prover = Inr (tiny_prover\<lparr>pr_transcript := 7\<rparr>)"
proof -
  have n: "length (secret_a_L (pr_secrets tiny_prover)) = 1" "next_power_of_two 1 = 1" "gens_capacity tiny_gens = 1"
    using log2_ceil_power[of 0] by (simp_all add: tiny_prover_def next_power_of_two_def tiny_gens_def)
  show "prove_and_return_transcript counting_merlin_u64 tiny_cycle tiny_transcript_rng tiny_gens 1 tiny_prover = Inr (tiny_proof, 25, 1)"
    by (simp add: prove_and_return_transcript_def tiny_first_phase tiny_randomized tiny_second_phase tiny_respond n
        del: One_nat_def)
  show "completed_prover counting_merlin_u64 tiny_cycle tiny_transcript_rng tiny_gens 1 tiny_prover = Inr (tiny_prover\<lparr>pr_transcript := 7\<rparr>)"
    by (simp add: completed_prover_def tiny_first_phase tiny_randomized)
qed

lemma tiny_verifier_replay:
  "verifier_replay counting_merlin_u64 tiny_cycle tiny_gens tiny_proof tiny_verifier
    = Inr (\<lparr>ch_y = 26, ch_z = 26, ch_u = 26, ch_x = 26, ch_w = 26\<rparr>, tiny_verifier\<lparr>ve_transcript := 23\<rparr>)"
proof -
  have n: "next_power_of_two 1 = 1" "gens_capacity tiny_gens = 1" "ve_num_vars tiny_verifier = 1"
    using log2_ceil_power[of 0] by (simp_all add: next_power_of_two_def tiny_gens_def tiny_verifier_def)
  show ?thesis
    by (rule verifier_replay_eq[where vf' = "tiny_verifier\<lparr>ve_transcript := 7\<rparr>", simplified])
      (simp_all add: checked_points_def tiny_proof_def tiny_codec verifier_create_randomized_constraints_def
        r1cs_1phase_domain_sep_def replay_challenges_def second_phase_challenges_def polynomial_challenges_def
        response_challenge_def n tiny_eval del: One_nat_def, simp_all add: tiny_verifier_def r1cs_1phase_domain_sep_def)
qed

lemma tiny_sessions:
  "prover_session counting_merlin_u64 tiny_cycle tiny_pc 0 [(3, 5)] tiny_circuit [] = Inr tiny_prover"
  "verifier_session counting_merlin_u64 tiny_cycle 0 (commitments tiny_cycle tiny_pc [(3, 5)]) tiny_circuit [] = Inr tiny_verifier"
proof -
  show p: "prover_session counting_merlin_u64 tiny_cycle tiny_pc 0 [(3, 5)] tiny_circuit [] = Inr tiny_prover"
    using tiny_run_prover by (simp add: prover_session_def)
  show "verifier_session counting_merlin_u64 tiny_cycle 0 (commitments tiny_cycle tiny_pc [(3, 5)]) tiny_circuit [] = Inr tiny_verifier"
    by (simp add: verifier_session_def verifier_commit_def verifier_cs_new_def tiny_circuit_def verifier_multiply_def
        verifier_constrain_def Let_def tiny_verifier_def tiny_prover_def r1cs_domain_sep_def commitments_def tiny_commit
        tiny_compress tiny_eval)
qed

section \<open>Properties\<close>

text \<open>
  C27. A circuit does the same on both sides: when the prover commits to values, runs a circuit and registers
  deferred circuits, the verifier that has the commitments succeeds with the same circuits, and ends with
  the same transcript, the same constraints, the same number of gates and the same pending gate; and the
  prover's assignment satisfies every multiplication gate.
\<close>

theorem circuit_refinement:
  assumes "prover_session M C pc t openings gadget deferred = Inr p"
  shows "\<exists>vf. verifier_session M C t (commitments C pc openings) gadget deferred = Inr vf
    \<and> ve_transcript vf = pr_transcript p \<and> ve_constraints vf = pr_constraints p
    \<and> ve_num_vars vf = length (secret_a_L (pr_secrets p)) \<and> ve_pending vf = pr_pending p
    \<and> (\<forall>i < ve_num_vars vf. secret_a_O (pr_secrets p) ! i = secret_a_L (pr_secrets p) ! i * secret_a_R (pr_secrets p) ! i)"
  by (rule sessions_agree[OF assms]) (auto simp: cs_agree_def prover_ok_def gates_ok_def)

text \<open>
  C3. Completeness of the R1CS proofs: a proof of a circuit whose constraints the prover's assignment satisfies is
  accepted by the verifier that runs the same circuits on the commitments, also with deferred circuits, and
  both transcripts end in the same state. It is provided that no committed point is the identity and
  neither the challenge \<open>y\<close> nor a challenge of the inner-product argument is zero.
\<close>

theorem r1cs_complete:
  assumes "cycle_laws C"
    and "prover_session M C pc t openings gadget deferred = Inr p"
    and "verifier_session M C t (commitments C pc openings) gadget deferred = Inr vf"
    and "gens_capacity bp_gens \<le> length (shared_G bp_gens 0)" "gens_capacity bp_gens \<le> length (shared_H bp_gens 0)"
    and "prove_and_return_transcript M C R bp_gens g p = Inr (pf, t', g')"
    and "completed_prover M C R bp_gens g p = Inr p2" "satisfied p2" "length (secret_a_L (pr_secrets p2)) \<le> 2 ^ 31"
    and "\<forall>c \<in> set (checked_points pf) \<union> set (ipp_L_vec (rp_ipp_proof pf)) \<union> set (ipp_R_vec (rp_ipp_proof pf)).
      \<not> compressed_is_identity C c"
    and "\<forall>ch vf'. verifier_replay M C bp_gens pf vf = Inr (ch, vf') \<longrightarrow> ch_y ch \<noteq> 0
      \<and> (\<forall>us t. rfold (ipp_replay M C) ([], innerproduct_domain_sep M (next_power_of_two (ve_num_vars vf')) (ve_transcript vf'))
        (zip (ipp_L_vec (rp_ipp_proof pf)) (ipp_R_vec (rp_ipp_proof pf))) = Inr (us, t) \<longrightarrow> 0 \<notin> set us)"
  shows "verify_and_return_transcript M C R pc bp_gens g2 pf vf = Inr t'"
proof -
  obtain vf0 where vf0: "verifier_session M C t (commitments C pc openings) gadget deferred = Inr vf0"
      "cs_agree C p vf0" "prover_ok p" "pr_pc_gens p = pc"
    using sessions_agree[OF assms(2)] by blast
  then have "vf0 = vf" using assms(3) by simp
  with vf0 have "verify_and_return_transcript M C R (pr_pc_gens p) bp_gens g2 pf vf = Inr t'"
    by (intro cycle_laws.r1cs_accepts[OF assms(1) _ _ assms(6-9,4,5,10)]) (use assms(11) in blast)+
  then show ?thesis using vf0(4) by simp
qed

lemma circuit_refinement_witness:
  "\<exists>vf. verifier_session counting_merlin_u64 tiny_cycle 0 (commitments tiny_cycle tiny_pc [(3, 5)]) tiny_circuit [] = Inr vf
    \<and> ve_transcript vf = 2 \<and> ve_constraints vf = pr_constraints tiny_prover \<and> ve_num_vars vf = 1 \<and> ve_pending vf = None"
  using circuit_refinement[OF tiny_sessions(1)] by (auto simp: tiny_prover_def)

lemma r1cs_complete_witness:
  "verify_and_return_transcript counting_merlin_u64 tiny_cycle tiny_transcript_rng tiny_pc tiny_gens 1 tiny_proof tiny_verifier = Inr 25"
proof (rule r1cs_complete[OF tinyj.jubjub_cyc.cycle_laws_axioms tiny_sessions _ _ tiny_prove], goal_cases)
  case 3
  then show ?case using tiny_agree(3) by (simp add: satisfied_def prover_eval_value)
next
  case 6
  then show ?case by (simp add: tiny_verifier_replay) (simp add: tiny_proof_def tiny_eval)
qed (simp_all add: tiny_gens_def shared_G_def shared_H_def tiny_prover_def checked_points_def tiny_proof_def tiny_codec tiny_eval)

end
