(* ===== verification/R1cs_Batch.thy ===== *)
theory R1cs_Batch
  imports R1cs_Laws
begin

text \<open>
  Batch verification of R1CS proofs (\<open>verify_batch_iter\<close> of \<open>bulletproofs-cycle/src/r1cs/verifier.rs\<close>): the batch
  accumulates the combination of the equations by nonzero random coefficients and checks it once. \<open>draws\<close> says which
  coefficients a generator supplies.
\<close>

section \<open>The accumulators\<close>

definition accumulator_value :: "('s, 'p::ab_group_add, 'a, 'c, 'z) cycle_scheme \<Rightarrow> 's list \<times> 'a list \<Rightarrow> 'p" where
  "accumulator_value C acc = lincomb C (fst acc) (map (affine_to_point C) (snd acc))"

definition batch_value ::
  "('s, 'p::ab_group_add, 'a, 'c, 'z) cycle_scheme \<Rightarrow> 'p \<times> 'p \<Rightarrow> ('s, 'p, 'a) batch_state \<Rightarrow> 'p" where
  "batch_value C pedersen_points st =
     point_mul C (fst pedersen_points) (fst (ba_pedersen st)) + point_mul C (snd pedersen_points) (snd (ba_pedersen st))
     + lincomb C (ba_scalars st) (map the (ba_points st))
     + accumulator_value C (ba_g st) + accumulator_value C (ba_h st)"

definition batch_shape :: "('s, 'p, 'a) batch_state \<Rightarrow> bool" where
  "batch_shape st \<longleftrightarrow> length (fst (ba_g st)) \<le> length (snd (ba_g st)) \<and> length (fst (ba_h st)) \<le> length (snd (ba_h st))
     \<and> length (ba_scalars st) = length (ba_points st)"

text \<open>
  The coefficients that a generator supplies: one for each equation, in order, the next output that is not zero.
\<close>

inductive draws :: "('g \<Rightarrow> 's::zero \<times> 'g) \<Rightarrow> 'g \<Rightarrow> 's list \<Rightarrow> 'g \<Rightarrow> bool" for random where
  draws_Nil: "draws random rng [] rng"
| draws_take: "random rng = (c, rng1) \<Longrightarrow> c \<noteq> 0 \<Longrightarrow> draws random rng1 cs rng' \<Longrightarrow> draws random rng (c # cs) rng'"
| draws_skip: "random rng = (0, rng1) \<Longrightarrow> draws random rng1 (c # cs) rng' \<Longrightarrow> draws random rng (c # cs) rng'"

lemma draws_nonzero: "draws random rng cs rng' \<Longrightarrow> 0 \<notin> set cs"
  by (induction rule: draws.induct) auto

lemma draws_unique:
  "draws random rng cs rng' \<Longrightarrow> draws random rng cs' rng'' \<Longrightarrow> length cs' = length cs \<Longrightarrow> cs' = cs"
proof (induction arbitrary: cs' rule: draws.induct)
  case (draws_take rng c rng1 cs rng')
  from draws_take.prems(1) show ?case
    by (cases rule: draws.cases) (use draws_take in \<open>auto\<close>)
next
  case (draws_skip rng rng1 c cs rng')
  from draws_skip.prems(1) show ?case
    by (cases rule: draws.cases) (use draws_skip in \<open>auto\<close>)
qed simp

lemma batch_coefficient_draws:
  "batch_coefficient random rng = Some (c, rng1) \<Longrightarrow> draws random rng1 cs rng' \<Longrightarrow> draws random rng (c # cs) rng'"
proof -
  assume "batch_coefficient random rng = Some (c, rng1)" and rest: "draws random rng1 cs rng'"
  have "\<forall>cs rng'. draws random (snd (c, rng1)) cs rng' \<longrightarrow> draws random rng (fst (c, rng1) # cs) rng'"
    by (rule batch_coefficient.raw_induct[of "\<lambda>random rng out. \<forall>cs rng'. draws random (snd out) cs rng' \<longrightarrow> draws random rng (fst out # cs) rng'",
          OF _ \<open>batch_coefficient random rng = Some (c, rng1)\<close>])
      (auto split: if_splits prod.splits intro: draws_take draws_skip)
  with rest show ?thesis by simp
qed

context cycle_laws
begin

lemma lincomb_prefix:
  assumes "take (length xs) ps = take (length xs) qs"
  shows "lincomb C xs ps = lincomb C xs qs"
proof -
  have "zip xs ps = zip xs qs"
    using assms zip_take_length[of xs "length xs" ps] zip_take_length[of xs "length xs" qs] by simp
  then show ?thesis by (simp add: lincomb_def)
qed

lemma lincomb_padded:
  assumes "length xs \<le> n" "n \<le> length ps"
  shows "lincomb C xs ps = (\<Sum>i<n. point_mul C (ps ! i) (if i < length xs then xs ! i else 0))"
proof -
  have "lincomb C xs ps = lincomb C xs (take (length xs) ps)" by (rule lincomb_prefix) simp
  also have "\<dots> = (\<Sum>i<length xs. point_mul C (ps ! i) (xs ! i))"
    using assms by (subst lincomb_sum[where n = "length xs"]) simp_all
  also have "\<dots> = (\<Sum>i<n. point_mul C (ps ! i) (if i < length xs then xs ! i else 0))"
    using assms by (intro sum.mono_neutral_cong_left) auto
  finally show ?thesis .
qed

lemma accumulate_prefix_value:
  assumes "accumulate_generator_prefix acc xs ps c = Inr acc'" "length (fst acc) \<le> length (snd acc)"
  shows "length (fst acc') \<le> length (snd acc')
    \<and> accumulator_value C acc' = accumulator_value C acc + point_mul C (lincomb C xs (map (affine_to_point C) ps)) c"
proof -
  obtain as gs where acc: "acc = (as, gs)" by (cases acc) auto
  let ?n = "max (length as) (length xs)"
  let ?gs = "if length gs < length xs then ps else gs"
  let ?at = "\<lambda>v i. if i < length v then v ! i else (0 :: 's)"
  have ok: "length xs \<le> length ps" "take (min (length gs) (length xs)) gs = take (min (length gs) (length xs)) ps"
    using assms(1) by (simp_all add: acc accumulate_generator_prefix_def Let_def split: if_splits)
  have as: "length as \<le> length gs" using assms(2) by (simp add: acc)
  have "acc' = (map (\<lambda>i. ?at as i + c * ?at xs i) [0..<?n], ?gs)"
    using assms(1) ok
    by (auto simp: acc accumulate_generator_prefix_def Let_def resize_def nth_append nth_enumerate_eq intro!: nth_equalityI)
  moreover have n: "?n \<le> length ?gs" using ok as by auto
  moreover have "lincomb C as (map (affine_to_point C) ?gs) = lincomb C as (map (affine_to_point C) gs)"
  proof (rule lincomb_prefix, cases "length gs < length xs")
    case True
    then have "gs = take (length gs) ps" using ok by simp
    then have "take (length as) ps = take (length as) gs" using as by (metis min.absorb1 take_take)
    with True show "take (length as) (map (affine_to_point C) ?gs) = take (length as) (map (affine_to_point C) gs)"
      by (simp add: take_map)
  qed simp
  moreover have "lincomb C xs (map (affine_to_point C) ?gs) = lincomb C xs (map (affine_to_point C) ps)"
    using ok by (intro lincomb_prefix) (auto simp: take_map)
  moreover have "lincomb C (map (\<lambda>i. ?at as i + c * ?at xs i) [0..<?n]) qs = lincomb C as qs + point_mul C (lincomb C xs qs) c"
    if "?n \<le> length qs" for qs
    using that lincomb_padded[of as ?n qs] lincomb_padded[of xs ?n qs] lincomb_padded[of "map (\<lambda>i. ?at as i + c * ?at xs i) [0..<?n]" ?n qs]
    by (simp add: pmul_sum pmul_mult flip: sum.distrib pmul_add) (auto simp: mult.commute intro!: sum.cong)
  ultimately show ?thesis by (simp add: accumulator_value_def acc)
qed

section \<open>The loop\<close>

lemma batch_step_value:
  assumes "batch_step pp eq c st = Inr st'" "batch_shape st" "equation_wf eq" "eq_pedersen_points eq = pp"
  shows "batch_shape st' \<and> batch_value C pp st' = batch_value C pp st + point_mul C (equation_value C eq) c
    \<and> set (ba_points st') = set (ba_points st) \<union> set (eq_proof_points eq)"
proof -
  obtain g h where g: "accumulate_generator_prefix (ba_g st) (eq_g_scalars eq) (eq_g_points eq) c = Inr g"
    and h: "accumulate_generator_prefix (ba_h st) (eq_h_scalars eq) (eq_h_points eq) c = Inr h"
    and st': "st' = \<lparr>ba_pedersen = (fst (ba_pedersen st) + c * fst (eq_pedersen_scalars eq),
                         snd (ba_pedersen st) + c * snd (eq_pedersen_scalars eq)),
          ba_g = g, ba_h = h, ba_scalars = ba_scalars st @ map ((*) c) (eq_proof_scalars eq),
          ba_points = ba_points st @ eq_proof_points eq\<rparr>"
    using assms(1) by (auto simp: batch_step_def)
  have lens: "length (fst (ba_g st)) \<le> length (snd (ba_g st))" "length (fst (ba_h st)) \<le> length (snd (ba_h st))"
    "length (ba_scalars st) = length (ba_points st)" using assms(2) by (simp_all add: batch_shape_def)
  show ?thesis
    using accumulate_prefix_value[OF g lens(1)] accumulate_prefix_value[OF h lens(2)] lens(3) assms(3,4)
    by (simp add: st' batch_shape_def batch_value_def equation_value_def equation_wf_def lincomb_append lincomb_scale pmul_add
        pmul_add_point pmul_mult mult.commute add_ac)
qed

lemma batch_loop_value:
  assumes "batch_loop random pp (map Inr eqs) st rng = Some (Inr st', rng')" "batch_shape st"
  shows "\<exists>cs. length cs = length eqs \<and> draws random rng cs rng' \<and> batch_shape st'
    \<and> batch_value C pp st' = batch_value C pp st + (\<Sum>(c, eq)\<leftarrow>zip cs eqs. point_mul C (equation_value C eq) c)
    \<and> (\<forall>eq \<in> set eqs. equation_wf eq \<and> eq_pedersen_points eq = pp)
    \<and> set (ba_points st') = set (ba_points st) \<union> (\<Union>eq \<in> set eqs. set (eq_proof_points eq))"
  using assms
proof (induction eqs arbitrary: st rng)
  case (Cons eq eqs)
  obtain c rng1 where c: "batch_coefficient random rng = Some (c, rng1)" and wf: "equation_wf eq" "eq_pedersen_points eq = pp"
    and continue: "(case batch_step pp eq c st of Inl e \<Rightarrow> Some (Inl e, rng1)
      | Inr st \<Rightarrow> batch_loop random pp (map Inr eqs) st rng1) = Some (Inr st', rng')"
    using Cons.prems(1) by (auto simp: equation_wf_def bind_eq_Some_conv split: if_splits)
  obtain st1 where st1: "batch_step pp eq c st = Inr st1"
    and rest: "batch_loop random pp (map Inr eqs) st1 rng1 = Some (Inr st', rng')"
    using continue by (cases "batch_step pp eq c st") auto
  note step = batch_step_value[OF st1 Cons.prems(2) wf]
  obtain cs where "length cs = length eqs" "draws random rng1 cs rng'" "batch_shape st'"
    "batch_value C pp st' = batch_value C pp st1 + (\<Sum>(c, eq)\<leftarrow>zip cs eqs. point_mul C (equation_value C eq) c)"
    "\<forall>eq \<in> set eqs. equation_wf eq \<and> eq_pedersen_points eq = pp"
    "set (ba_points st') = set (ba_points st1) \<union> (\<Union>eq \<in> set eqs. set (eq_proof_points eq))"
    using Cons.IH[OF rest] step by blast
  with step wf batch_coefficient_draws[OF c] show ?case
    by (intro exI[of _ "c # cs"]) (auto simp: add.assoc)
qed (simp add: draws_Nil)

lemma batch_check_iff:
  assumes "batch_shape st"
  shows "batch_check C pp st = Inr () \<longleftrightarrow> None \<notin> set (ba_points st) \<and> batch_value C pp st = 0"
proof (cases "None \<in> set (ba_points st)")
  case False
  obtain gs gp hs hp where acc: "ba_g st = (gs, gp)" "ba_h st = (hs, hp)" by (cases "ba_g st"; cases "ba_h st") auto
  have "vartime_msm_mixed C [(gs, take (length gs) gp), (hs, take (length hs) hp)]
      ([fst (ba_pedersen st), snd (ba_pedersen st)] @ ba_scalars st) ([fst pp, snd pp] @ map the (ba_points st))
    = batch_value C pp st"
    using assms acc
    by (subst msm_mixed) (auto simp: batch_shape_def batch_value_def accumulator_value_def lincomb_def zip_map2 zip_take_length
        comp_def case_prod_unfold add.assoc)
  then show ?thesis
    using False by (simp add: batch_check_def acc those_the ok_or_def is_identity_def Let_def)
qed (auto simp: batch_check_def those_the ok_or_def split: prod.splits)

lemma accepted_combination:
  assumes "r1cs_verify_batch C random eqs rng = Some (Inr (), rng')"
  shows "eqs \<noteq> [] \<and> (\<exists>cs. length cs = length eqs \<and> draws random rng cs rng'
    \<and> (\<Sum>(c, eq)\<leftarrow>zip cs eqs. point_mul C (equation_value C eq) c) = 0)
    \<and> (\<forall>eq \<in> set eqs. equation_wf eq \<and> None \<notin> set (eq_proof_points eq))"
proof (cases eqs)
  case Nil
  with assms show ?thesis by (simp add: r1cs_verify_batch_def verify_batch_iter_def)
next
  case (Cons first rest)
  let ?st = "\<lparr>ba_pedersen = (0, 0), ba_g = ([], eq_g_points first), ba_h = ([], eq_h_points first), ba_scalars = [],
    ba_points = []\<rparr> :: ('s, 'p, 'a) batch_state"
  obtain st' where st': "batch_loop random (eq_pedersen_points first) (map Inr eqs) ?st rng = Some (Inr st', rng')"
    and accepted: "batch_check C (eq_pedersen_points first) st' = Inr ()"
    using assms Cons by (auto simp: r1cs_verify_batch_def verify_batch_iter_def bind_eq_Some_conv simp del: batch_loop.simps)
  have start: "batch_shape ?st" "batch_value C (eq_pedersen_points first) ?st = 0"
    by (simp_all add: batch_shape_def batch_value_def accumulator_value_def lincomb_def)
  obtain cs where "length cs = length eqs" "draws random rng cs rng'" "batch_shape st'"
    "batch_value C (eq_pedersen_points first) st' = (\<Sum>(c, eq)\<leftarrow>zip cs eqs. point_mul C (equation_value C eq) c)"
    "\<forall>eq \<in> set eqs. equation_wf eq" "set (ba_points st') = (\<Union>eq \<in> set eqs. set (eq_proof_points eq))"
    using batch_loop_value[OF st' start(1)] start(2) by auto
  with accepted batch_check_iff[of st' "eq_pedersen_points first"] Cons show ?thesis by auto
qed

lemma check_from_value:
  assumes "equation_wf eq" "None \<notin> set (eq_proof_points eq)" "point_mul C (equation_value C eq) c = 0" "c \<noteq> 0"
  shows "check_equation C eq = Inr ()"
proof -
  have "point_mul C (point_mul C (equation_value C eq) c) (inverse c) = 0" using assms(3) by simp
  then have "equation_value C eq = 0" using assms(4) by (simp add: pmul_mult pmul_one)
  with assms(1,2) show ?thesis by (simp add: check_equation_iff)
qed

lemma combination_split:
  assumes "length cs = length eqs" "i < length eqs"
  shows "(\<Sum>(c, eq)\<leftarrow>zip cs eqs. point_mul C (equation_value C eq) c)
    = point_mul C (equation_value C (eqs ! i)) (cs ! i)
      + (\<Sum>j \<in> {..<length eqs} - {i}. point_mul C (equation_value C (eqs ! j)) (cs ! j))"
  using assms by (simp add: sum_list_sum_nth atLeast0LessThan sum.remove[of _ i])

text \<open>Two accepted runs whose coefficients differ only for one equation.\<close>

lemma accepted_twice:
  assumes "length cs = length eqs" "length cs' = length eqs" "i < length eqs"
    and "(\<Sum>(c, eq)\<leftarrow>zip cs eqs. point_mul C (equation_value C eq) c) = 0"
    and "(\<Sum>(c, eq)\<leftarrow>zip cs' eqs. point_mul C (equation_value C eq) c) = 0"
    and "\<forall>j < length eqs. j \<noteq> i \<longrightarrow> cs' ! j = cs ! j"
  shows "point_mul C (equation_value C (eqs ! i)) (cs ! i - cs' ! i) = 0"
proof -
  have "(\<Sum>j \<in> {..<length eqs} - {i}. point_mul C (equation_value C (eqs ! j)) (cs' ! j))
      = (\<Sum>j \<in> {..<length eqs} - {i}. point_mul C (equation_value C (eqs ! j)) (cs ! j))"
    using assms(6) by (intro sum.cong) auto
  then have "point_mul C (equation_value C (eqs ! i)) (cs ! i) = point_mul C (equation_value C (eqs ! i)) (cs' ! i)"
    using trans[OF assms(4) assms(5)[symmetric]]
    unfolding combination_split[OF assms(1,3)] combination_split[OF assms(2,3)] by (simp only: add_right_cancel)
  then show ?thesis by (simp only: pmul_diff diff_self)
qed

lemma accepted_others_valid:
  assumes "length cs = length eqs" "i < length eqs" "(\<Sum>(c, eq)\<leftarrow>zip cs eqs. point_mul C (equation_value C eq) c) = 0"
    and "\<forall>j < length eqs. j \<noteq> i \<longrightarrow> check_equation C (eqs ! j) = Inr ()"
  shows "point_mul C (equation_value C (eqs ! i)) (cs ! i) = 0"
proof -
  have "(\<Sum>j \<in> {..<length eqs} - {i}. point_mul C (equation_value C (eqs ! j)) (cs ! j)) = 0"
    using assms(4) by (intro sum.neutral) (auto simp: check_equation_iff)
  then show ?thesis using assms(3) unfolding combination_split[OF assms(1,2)] by simp
qed

lemma same_generators_loop:
  fixes G H :: "'a list" and st :: "('s, 'p, 'a) batch_state"
  assumes "batch_loop random pp (map Inr eqs) st rng = Some (res, rng')" "snd (ba_g st) = G" "snd (ba_h st) = H"
    and "\<forall>eq \<in> set eqs. equation_wf eq \<and> eq_pedersen_points eq = pp \<and> eq_g_points eq = G \<and> eq_h_points eq = H"
  shows "\<exists>st'. res = Inr st'"
  using assms
proof (induction eqs arbitrary: st rng)
  case (Cons eq eqs)
  have wf: "equation_wf eq" "eq_pedersen_points eq = pp" "eq_g_points eq = G" "eq_h_points eq = H"
    using Cons.prems(4) by simp_all
  have step: "\<exists>acc'. accumulate_generator_prefix acc xs (snd acc) c = Inr acc' \<and> snd acc' = snd acc"
    if "length xs \<le> length (snd acc)" for acc :: "'s list \<times> 'a list" and xs c
    using that by (cases acc) (auto simp: accumulate_generator_prefix_def Let_def)
  obtain c rng1 where c: "batch_coefficient random rng = Some (c, rng1)"
    and continue: "(case batch_step pp eq c st of Inl e \<Rightarrow> Some (Inl e, rng1)
      | Inr st \<Rightarrow> batch_loop random pp (map Inr eqs) st rng1) = Some (res, rng')"
    using Cons.prems(1) wf by (auto simp: equation_wf_def bind_eq_Some_conv split: if_splits)
  obtain g where g: "accumulate_generator_prefix (ba_g st) (eq_g_scalars eq) G c = Inr g" "snd g = G"
    using step[of "eq_g_scalars eq" "ba_g st" c] Cons.prems(2) wf by (auto simp: equation_wf_def)
  obtain h where h: "accumulate_generator_prefix (ba_h st) (eq_h_scalars eq) H c = Inr h" "snd h = H"
    using step[of "eq_h_scalars eq" "ba_h st" c] Cons.prems(3) wf by (auto simp: equation_wf_def)
  from g h wf obtain st1 where "batch_step pp eq c st = Inr st1" "snd (ba_g st1) = G" "snd (ba_h st1) = H"
    by (auto simp: batch_step_def)
  with Cons.IH[of st1 rng1] continue Cons.prems(4) show ?case by auto
qed auto

lemma valid_batch_accepted:
  assumes "r1cs_verify_batch C random eqs rng = Some (res, rng')" "eqs \<noteq> []"
    and valid: "\<forall>eq \<in> set eqs. check_equation C eq = Inr ()"
    and same: "\<forall>eq \<in> set eqs. eq_pedersen_points eq = pp \<and> eq_g_points eq = G \<and> eq_h_points eq = H"
  shows "res = Inr ()"
proof -
  obtain first rest where eqs: "eqs = first # rest" using assms(2) by (cases eqs) auto
  have first: "eq_pedersen_points first = pp" "eq_g_points first = G" "eq_h_points first = H"
    using same by (simp_all add: eqs)
  let ?st = "\<lparr>ba_pedersen = (0, 0), ba_g = ([], G), ba_h = ([], H), ba_scalars = [], ba_points = []\<rparr> :: ('s, 'p, 'a) batch_state"
  have wf: "\<forall>eq \<in> set eqs. equation_wf eq \<and> eq_pedersen_points eq = pp \<and> eq_g_points eq = G \<and> eq_h_points eq = H"
    using valid same by (simp add: check_equation_iff)
  obtain out where out: "batch_loop random pp (map Inr eqs) ?st rng = Some (out, rng')" "res = rbind out (batch_check C pp)"
    using assms(1) first
    by (auto simp: eqs r1cs_verify_batch_def verify_batch_iter_def bind_eq_Some_conv simp del: batch_loop.simps)
  obtain st' where st': "out = Inr st'" using same_generators_loop[OF out(1) _ _ wf] by auto
  have start: "batch_shape ?st" "batch_value C pp ?st = 0"
    by (simp_all add: batch_shape_def batch_value_def accumulator_value_def lincomb_def)
  obtain cs where cs: "length cs = length eqs" "batch_shape st'"
    "batch_value C pp st' = (\<Sum>(c, eq)\<leftarrow>zip cs eqs. point_mul C (equation_value C eq) c)"
    "set (ba_points st') = (\<Union>eq \<in> set eqs. set (eq_proof_points eq))"
    using batch_loop_value[OF out(1)[unfolded st'] start(1)] start(2) by auto
  have "(\<Sum>(c, eq)\<leftarrow>zip cs eqs. point_mul C (equation_value C eq) c) = (\<Sum>(c, eq)\<leftarrow>zip cs eqs. 0)"
    using valid by (intro arg_cong[of _ _ sum_list] map_cong) (auto simp: check_equation_iff dest: set_zip_rightD)
  then have "batch_value C pp st' = 0" using cs(3) by (simp add: case_prod_unfold)
  moreover have "None \<notin> set (ba_points st')" using cs(4) valid by (auto simp: check_equation_iff)
  ultimately show ?thesis using batch_check_iff[OF cs(2), of pp] out(2) st' by simp
qed

end

section \<open>Properties\<close>

text \<open>
  C33. What an accepted batch means: it is not empty, every equation is well-formed, all its points decode, and the
  combination of the values of the equations is the identity, by the coefficients that the generator supplies: one
  nonzero coefficient per equation, drawn in order. So no single invalid equation hides among valid ones; and for
  any draw of the other coefficients an invalid equation passes for at most one value of its own: if two accepted runs
  draw the same coefficients but for one equation, that equation is valid by itself.
\<close>

theorem verify_batch_sound:
  assumes "cycle_laws C" and "r1cs_verify_batch C random eqs rng = Some (Inr (), rng')"
  shows "eqs \<noteq> [] \<and> (\<forall>eq \<in> set eqs. equation_wf eq \<and> None \<notin> set (eq_proof_points eq))
    \<and> (\<exists>cs. draws random rng cs rng' \<and> length cs = length eqs \<and> 0 \<notin> set cs
      \<and> (\<Sum>(c, eq)\<leftarrow>zip cs eqs. point_mul C (equation_value C eq) c) = 0
      \<and> (\<forall>cs' g g' i. draws random g cs' g' \<and> length cs' = length eqs \<and> r1cs_verify_batch C random eqs g = Some (Inr (), g')
          \<and> i < length eqs \<and> cs' ! i \<noteq> cs ! i \<and> (\<forall>j < length eqs. j \<noteq> i \<longrightarrow> cs' ! j = cs ! j)
          \<longrightarrow> check_equation C (eqs ! i) = Inr ()))
    \<and> (\<forall>i < length eqs. (\<forall>j < length eqs. j \<noteq> i \<longrightarrow> check_equation C (eqs ! j) = Inr ()) \<longrightarrow> check_equation C (eqs ! i) = Inr ())"
proof -
  note all = cycle_laws.accepted_combination[OF assms]
  obtain cs where cs: "length cs = length eqs" "draws random rng cs rng'" "(\<Sum>(c, eq)\<leftarrow>zip cs eqs. point_mul C (equation_value C eq) c) = 0"
    using all by blast
  have wf: "\<forall>i < length eqs. equation_wf (eqs ! i) \<and> None \<notin> set (eq_proof_points (eqs ! i))" using all by simp
  have "cs ! i \<noteq> 0" if "i < length eqs" for i using draws_nonzero[OF cs(2)] nth_mem[of i cs] that cs(1) by metis
  then have others: "\<forall>i < length eqs. (\<forall>j < length eqs. j \<noteq> i \<longrightarrow> check_equation C (eqs ! j) = Inr ()) \<longrightarrow> check_equation C (eqs ! i) = Inr ()"
    using cycle_laws.check_from_value[OF assms(1)] cycle_laws.accepted_others_valid[OF assms(1) cs(1) _ cs(3)] wf by metis
  have "check_equation C (eqs ! i) = Inr ()"
    if run: "draws random g cs' g'" "length cs' = length eqs" "r1cs_verify_batch C random eqs g = Some (Inr (), g')"
      and i: "i < length eqs" "cs' ! i \<noteq> cs ! i" "\<forall>j < length eqs. j \<noteq> i \<longrightarrow> cs' ! j = cs ! j" for cs' g g' i
  proof -
    have "(\<Sum>(c, eq)\<leftarrow>zip cs' eqs. point_mul C (equation_value C eq) c) = 0"
      using cycle_laws.accepted_combination[OF assms(1) run(3)] draws_unique[OF run(1)] run(2) by metis
    from cycle_laws.accepted_twice[OF assms(1) cs(1) run(2) i(1) cs(3) this i(3)]
    show ?thesis using cycle_laws.check_from_value[OF assms(1)] wf i(1,2) by (metis right_minus_eq)
  qed
  then show ?thesis using all cs draws_nonzero[OF cs(2)] others by blast
qed

text \<open>
  Valid equations over the same generators are accepted together: when every equation of a batch passes its own
  check and all share the Pedersen generators and the generator vectors, the batch cannot be rejected,
  whatever coefficients are drawn.
\<close>

theorem verify_batch_complete:
  assumes "cycle_laws C" and "r1cs_verify_batch C random eqs rng = Some (res, rng')" and "eqs \<noteq> []"
    and "\<forall>eq \<in> set eqs. check_equation C eq = Inr ()"
    and "\<forall>eq \<in> set eqs. eq_pedersen_points eq = pp \<and> eq_g_points eq = G \<and> eq_h_points eq = H"
  shows "res = Inr ()"
  by (rule cycle_laws.valid_batch_accepted[OF assms])

section \<open>A batch in the small setting\<close>

definition tiny_equations :: "(tiny, tiny, tiny) verification_equation list" where
  "tiny_equations =
     [\<lparr>eq_pedersen_scalars = (1, 1), eq_pedersen_points = (2, 3), eq_g_scalars = [], eq_g_points = [11], eq_h_scalars = [],
       eq_h_points = [13], eq_proof_scalars = [1], eq_proof_points = [Some 92]\<rparr>,
      \<lparr>eq_pedersen_scalars = (1, 1), eq_pedersen_points = (2, 3), eq_g_scalars = [1], eq_g_points = [11], eq_h_scalars = [],
       eq_h_points = [13], eq_proof_scalars = [1], eq_proof_points = [Some 81]\<rparr>]"

lemma tiny_equations_valid: "\<forall>eq \<in> set tiny_equations. check_equation tiny_cycle eq = Inr ()"
  by (simp add: tiny_equations_def cycle_laws.check_equation_iff[OF tinyj.jubjub_cyc.cycle_laws_axioms] equation_wf_def
      equation_value_def lincomb_def tiny_eval)

lemma tiny_batch_runs: "\<exists>res. r1cs_verify_batch tiny_cycle (\<lambda>h. (h, h + 1)) tiny_equations 1 = Some (res, 3)"
  by (simp add: tiny_equations_def r1cs_verify_batch_def verify_batch_iter_def batch_coefficient.simps batch_step_def
      accumulate_generator_prefix_def resize_def Let_def tiny_eval)

lemma tiny_batch: "r1cs_verify_batch tiny_cycle (\<lambda>h. (h, h + 1)) tiny_equations 1 = Some (Inr (), 3)"
proof -
  obtain res where res: "r1cs_verify_batch tiny_cycle (\<lambda>h. (h, h + 1)) tiny_equations 1 = Some (res, 3)"
    using tiny_batch_runs by blast
  have "res = Inr ()"
    using cycle_laws.valid_batch_accepted[OF tinyj.jubjub_cyc.cycle_laws_axioms res _ tiny_equations_valid, of "(2, 3)" "[11]" "[13]"]
    by (simp add: tiny_equations_def)
  with res show ?thesis by simp
qed

lemma verify_batch_sound_witness:
  "tiny_equations \<noteq> [] \<and> (\<exists>cs. draws (\<lambda>h. (h, h + 1)) 1 cs 3 \<and> length cs = length tiny_equations \<and> 0 \<notin> set cs
      \<and> (\<Sum>(c, eq)\<leftarrow>zip cs tiny_equations. point_mul tiny_cycle (equation_value tiny_cycle eq) c) = 0)"
  using verify_batch_sound[OF tinyj.jubjub_cyc.cycle_laws_axioms tiny_batch] by (elim conjE exE) (intro conjI exI)

lemma verify_batch_complete_witness:
  "r1cs_verify_batch tiny_cycle (\<lambda>h. (h, h + 1)) tiny_equations 1 = Some (Inr (), 3) \<and> length tiny_equations = 2"
proof -
  obtain res where res: "r1cs_verify_batch tiny_cycle (\<lambda>h. (h, h + 1)) tiny_equations 1 = Some (res, 3)"
    using tiny_batch_runs by blast
  have "res = Inr ()"
    by (rule verify_batch_complete[OF tinyj.jubjub_cyc.cycle_laws_axioms res _ tiny_equations_valid, of "(2, 3)" "[11]" "[13]"])
      (simp_all add: tiny_equations_def)
  with res show ?thesis by (simp add: tiny_equations_def)
qed

end
