(* ===== verification/R1cs_Proof.thy ===== *)
theory R1cs_Proof
  imports R1cs_Laws
begin

text \<open>
  The byte encodings of \<open>bulletproofs-cycle\<close>: inner-product proofs (\<open>inner_product_proof.rs\<close>) and R1CS proofs
  (\<open>r1cs/proof.rs\<close>). A proof without second-phase commitments is written in a shorter form; the
  decoder accepts both forms. The locale \<open>cycle_codec\<close> is the contract of compressed points and
  canonical scalars.
\<close>

section \<open>Inner-product proofs\<close>

definition serialized_size_for_rounds :: "('s, 'p, 'a, 'c, 'z) cycle_scheme \<Rightarrow> nat \<Rightarrow> nat" where
  "serialized_size_for_rounds C lg_n = (lg_n * 2) * compressed_bytes C + 2 * 32"

definition ipp_serialized_size :: "('s, 'p, 'a, 'c, 'z) cycle_scheme \<Rightarrow> ('s, 'c) inner_product_proof \<Rightarrow> nat" where
  "ipp_serialized_size C pf = serialized_size_for_rounds C (length (ipp_L_vec pf))"

definition ipp_to_bytes :: "('s, 'p, 'a, 'c, 'z) cycle_scheme \<Rightarrow> ('s, 'c) inner_product_proof \<Rightarrow> bytes" where
  "ipp_to_bytes C pf =
     fold (\<lambda>(l, r) buf. buf @ compressed_as_bytes C l @ compressed_as_bytes C r) (zip (ipp_L_vec pf) (ipp_R_vec pf)) []
     @ scalar_to_canonical C (ipp_a pf) @ scalar_to_canonical C (ipp_b pf)"

text \<open>The iterator chains the same bytes.\<close>

definition ipp_to_bytes_iter :: "('s, 'p, 'a, 'c, 'z) cycle_scheme \<Rightarrow> ('s, 'c) inner_product_proof \<Rightarrow> bytes" where
  "ipp_to_bytes_iter C pf =
     concat (map (\<lambda>(l, r). compressed_as_bytes C l @ compressed_as_bytes C r) (zip (ipp_L_vec pf) (ipp_R_vec pf)))
     @ scalar_to_canonical C (ipp_a pf) @ scalar_to_canonical C (ipp_b pf)"

definition ipp_from_bytes ::
  "('s, 'p, 'a, 'c, 'z) cycle_scheme \<Rightarrow> bytes \<Rightarrow> ('s, 'c) inner_product_proof proof_result" where
  "ipp_from_bytes C data =
     (let cb = compressed_bytes C; unit = 2 * cb
      in if length data < 64 then Inl FormatError
         else
         let body_len = length data - 64
         in if body_len mod unit \<noteq> 0 then Inl FormatError
            else
            let lg_n = body_len div unit;
                L_vec = map (\<lambda>i. let pos = 2 * i * cb in compressed_from_bytes C (take cb (drop pos data))) [0..<lg_n];
                R_vec = map (\<lambda>i. let pos = 2 * i * cb in compressed_from_bytes C (take cb (drop (pos + cb) data))) [0..<lg_n];
                pos = 2 * lg_n * cb
            in rbind (ok_or (scalar_from_canonical C (read32 (drop pos data))) FormatError) (\<lambda>a.
               rbind (ok_or (scalar_from_canonical C (read32 (drop (pos + 32) data))) FormatError) (\<lambda>b.
               Inr \<lparr>ipp_L_vec = L_vec, ipp_R_vec = R_vec, ipp_a = a, ipp_b = b\<rparr>)))"

section \<open>R1CS proofs\<close>

definition ONE_PHASE_COMMITMENTS :: byte where "ONE_PHASE_COMMITMENTS = 0"

definition TWO_PHASE_COMMITMENTS :: byte where "TWO_PHASE_COMMITMENTS = 1"

definition single_phase_wire_len :: "('s, 'p, 'a, 'c, 'z) cycle_scheme \<Rightarrow> nat \<Rightarrow> nat" where
  "single_phase_wire_len C lg_n = 1 + (3 + 5) * compressed_bytes C + 3 * 32 + serialized_size_for_rounds C lg_n"

definition missing_phase2_commitments :: "('s, 'p, 'a, 'c, 'z) cycle_scheme \<Rightarrow> ('s, 'c) r1cs_proof \<Rightarrow> bool" where
  "missing_phase2_commitments C pf \<longleftrightarrow> compressed_is_identity C (rp_A_I2 pf) \<and> compressed_is_identity C (rp_A_O2 pf)
     \<and> compressed_is_identity C (rp_S2 pf)"

definition extend_points :: "('s, 'p, 'a, 'c, 'z) cycle_scheme \<Rightarrow> 'c list \<Rightarrow> bytes \<Rightarrow> bytes" where
  "extend_points C points buf = fold (\<lambda>p buf. buf @ compressed_as_bytes C p) points buf"

definition r1cs_to_bytes :: "('s, 'p, 'a, 'c, 'z) cycle_scheme \<Rightarrow> ('s, 'c) r1cs_proof \<Rightarrow> bytes" where
  "r1cs_to_bytes C pf =
     (let buf = (if missing_phase2_commitments C pf
                 then extend_points C [rp_A_I1 pf, rp_A_O1 pf, rp_S1 pf] [ONE_PHASE_COMMITMENTS]
                 else extend_points C [rp_A_I1 pf, rp_A_O1 pf, rp_S1 pf, rp_A_I2 pf, rp_A_O2 pf, rp_S2 pf]
                        [TWO_PHASE_COMMITMENTS]);
          buf = extend_points C [rp_T_1 pf, rp_T_3 pf, rp_T_4 pf, rp_T_5 pf, rp_T_6 pf] buf
      in buf @ scalar_to_canonical C (rp_t_x pf) @ scalar_to_canonical C (rp_t_x_blinding pf)
           @ scalar_to_canonical C (rp_e_blinding pf) @ ipp_to_bytes_iter C (rp_ipp_proof pf))"

definition next_point :: "('s, 'p, 'a, 'c, 'z) cycle_scheme \<Rightarrow> bytes \<Rightarrow> 'c \<times> bytes" where
  "next_point C s = (compressed_from_bytes C (take (compressed_bytes C) s), drop (compressed_bytes C) s)"

definition r1cs_from_bytes :: "('s, 'p, 'a, 'c, 'z) cycle_scheme \<Rightarrow> bytes \<Rightarrow> r1cs_error + ('s, 'c) r1cs_proof" where
  "r1cs_from_bytes C data =
     (if data = [] then Inl R1CSFormatError
      else
      let cb = compressed_bytes C; version = hd data; data = tl data
      in rbind (if version = ONE_PHASE_COMMITMENTS then Inr (3 :: nat, False)
                else if version = TWO_PHASE_COMMITMENTS then Inr (6, True)
                else Inl R1CSFormatError) (\<lambda>(phase1_points, has_phase2).
         let points_needed = phase1_points + 5;
             scalar_len = 3 * 32;
             min_body = points_needed * cb + scalar_len
         in if length data < min_body then Inl R1CSFormatError
            else
            let (A_I1, data) = next_point C data;
                (A_O1, data) = next_point C data;
                (S1, data) = next_point C data;
                (A_I2, A_O2, S2, data) =
                  (if has_phase2
                   then let (A_I2, data) = next_point C data;
                            (A_O2, data) = next_point C data;
                            (S2, data) = next_point C data
                        in (A_I2, A_O2, S2, data)
                   else (compressed_identity C, compressed_identity C, compressed_identity C, data));
                (T_1, data) = next_point C data;
                (T_3, data) = next_point C data;
                (T_4, data) = next_point C data;
                (T_5, data) = next_point C data;
                (T_6, data) = next_point C data
            in rbind (ok_or (scalar_from_canonical C (read32 data)) R1CSFormatError) (\<lambda>t_x.
               rbind (ok_or (scalar_from_canonical C (read32 (drop 32 data))) R1CSFormatError) (\<lambda>t_x_blinding.
               rbind (ok_or (scalar_from_canonical C (read32 (drop 64 data))) R1CSFormatError) (\<lambda>e_blinding.
               let data = drop 96 data
               in rbind (map_err (\<lambda>_. R1CSFormatError) (ipp_from_bytes C data)) (\<lambda>ipp_proof.
                  Inr \<lparr>rp_A_I1 = A_I1, rp_A_O1 = A_O1, rp_S1 = S1, rp_A_I2 = A_I2, rp_A_O2 = A_O2, rp_S2 = S2,
                       rp_T_1 = T_1, rp_T_3 = T_3, rp_T_4 = T_4, rp_T_5 = T_5, rp_T_6 = T_6, rp_t_x = t_x,
                       rp_t_x_blinding = t_x_blinding, rp_e_blinding = e_blinding, rp_ipp_proof = ipp_proof\<rparr>))))))"

section \<open>The contract of the encodings\<close>

text \<open>\<open>valid_compressed\<close> are the values of the type of compressed points.\<close>

locale cycle_codec =
  fixes C :: "('s, 'p, 'a, 'c, 'z) cycle_scheme"
    and valid_compressed :: "'c \<Rightarrow> bool"
  assumes compressed_positive: "0 < compressed_bytes C"
    and as_bytes_length: "valid_compressed c \<Longrightarrow> length (compressed_as_bytes C c) = compressed_bytes C"
    and from_as_bytes: "valid_compressed c \<Longrightarrow> compressed_from_bytes C (compressed_as_bytes C c) = c"
    and as_from_bytes: "length b = compressed_bytes C \<Longrightarrow>
      valid_compressed (compressed_from_bytes C b) \<and> compressed_as_bytes C (compressed_from_bytes C b) = b"
    and identity_valid: "valid_compressed (compressed_identity C)"
    and identity_unique: "valid_compressed c \<Longrightarrow> compressed_is_identity C c \<longleftrightarrow> c = compressed_identity C"
    and canonical_length: "length (scalar_to_canonical C s) = 32"
    and canonical_decode: "scalar_from_canonical C (scalar_to_canonical C s) = Some s"
    and canonical_unique: "scalar_from_canonical C b = Some s \<Longrightarrow> scalar_to_canonical C s = b"

text \<open>Cutting a buffer into blocks of one length.\<close>

lemma concat_blocks: "length xs = n * u \<Longrightarrow> concat (map (\<lambda>i. take u (drop (i * u) xs)) [0..<n]) = xs"
proof (induction n arbitrary: xs)
  case (Suc n)
  have "map (\<lambda>i. take u (drop (i * u) xs)) [0..<Suc n] = take u xs # map (\<lambda>i. take u (drop (i * u) (drop u xs))) [0..<n]"
    by (simp add: upt_conv_Cons del: upt_Suc)
      (simp add: map_Suc_upt[symmetric] comp_def add.commute del: upt_Suc)
  then show ?case using Suc.IH[of "drop u xs"] Suc.prems by (simp del: upt_Suc)
qed simp

lemma nth_block:
  assumes "\<forall>b \<in> set bs. length b = u" "i < length bs"
  shows "take u (drop (i * u) (concat bs @ rest)) = bs ! i"
  using assms
proof (induction bs arbitrary: i)
  case (Cons b bs)
  then show ?case by (cases i) (simp_all add: add.commute)
qed simp

definition valid_ipp :: "('c \<Rightarrow> bool) \<Rightarrow> ('s, 'c) inner_product_proof \<Rightarrow> bool" where
  "valid_ipp valid pf \<longleftrightarrow> length (ipp_R_vec pf) = length (ipp_L_vec pf)
     \<and> (\<forall>c \<in> set (ipp_L_vec pf) \<union> set (ipp_R_vec pf). valid c)"

definition valid_proof :: "('c \<Rightarrow> bool) \<Rightarrow> ('s, 'c) r1cs_proof \<Rightarrow> bool" where
  "valid_proof valid pf \<longleftrightarrow>
     (\<forall>c \<in> {rp_A_I1 pf, rp_A_O1 pf, rp_S1 pf, rp_A_I2 pf, rp_A_O2 pf, rp_S2 pf, rp_T_1 pf, rp_T_3 pf, rp_T_4 pf,
            rp_T_5 pf, rp_T_6 pf}. valid c) \<and> valid_ipp valid (rp_ipp_proof pf)"

lemma ipp_to_bytes_blocks:
  "ipp_to_bytes C pf = ipp_to_bytes_iter C pf"
proof -
  have "fold (\<lambda>(l, r) buf. buf @ compressed_as_bytes C l @ compressed_as_bytes C r) ps buf
      = buf @ concat (map (\<lambda>(l, r). compressed_as_bytes C l @ compressed_as_bytes C r) ps)" for ps buf
    by (induction ps arbitrary: buf) auto
  then show ?thesis by (simp add: ipp_to_bytes_def ipp_to_bytes_iter_def)
qed

context cycle_codec
begin

lemma ipp_pair_length:
  assumes "valid_ipp valid_compressed pf" "lr \<in> set (zip (ipp_L_vec pf) (ipp_R_vec pf))"
  shows "length ((\<lambda>(l, r). compressed_as_bytes C l @ compressed_as_bytes C r) lr) = 2 * compressed_bytes C"
proof -
  obtain l r where lr: "lr = (l, r)" by (cases lr) auto
  have "l \<in> set (ipp_L_vec pf)" "r \<in> set (ipp_R_vec pf)"
    using assms(2) unfolding lr by (rule set_zip_leftD, rule set_zip_rightD)
  then have "valid_compressed l" "valid_compressed r" using assms(1) by (simp_all add: valid_ipp_def)
  then show ?thesis by (simp add: lr as_bytes_length)
qed

lemma length_ipp_to_bytes:
  "valid_ipp valid_compressed pf \<Longrightarrow> length (ipp_to_bytes_iter C pf) = ipp_serialized_size C pf"
proof -
  assume v: "valid_ipp valid_compressed pf"
  have "length (concat (map (\<lambda>(l, r). compressed_as_bytes C l @ compressed_as_bytes C r) (zip (ipp_L_vec pf) (ipp_R_vec pf))))
      = length (zip (ipp_L_vec pf) (ipp_R_vec pf)) * (2 * compressed_bytes C)"
    by (rule length_concat_fixed) (rule ipp_pair_length[OF v])
  with v show ?thesis
    by (simp add: ipp_to_bytes_iter_def canonical_length ipp_serialized_size_def serialized_size_for_rounds_def valid_ipp_def)
qed

lemma ipp_from_to_bytes:
  assumes v: "valid_ipp valid_compressed pf"
  shows "ipp_from_bytes C (ipp_to_bytes_iter C pf) = Inr pf"
proof -
  let ?cb = "compressed_bytes C" and ?n = "length (ipp_L_vec pf)"
  let ?bs = "map (\<lambda>(l, r). compressed_as_bytes C l @ compressed_as_bytes C r) (zip (ipp_L_vec pf) (ipp_R_vec pf))"
  let ?rest = "scalar_to_canonical C (ipp_a pf) @ scalar_to_canonical C (ipp_b pf)"
  have bytes: "ipp_to_bytes_iter C pf = concat ?bs @ ?rest" by (simp add: ipp_to_bytes_iter_def)
  have len: "length ?bs = ?n" "length (ipp_R_vec pf) = ?n" using v by (simp_all add: valid_ipp_def)
  have blocks: "\<forall>b \<in> set ?bs. length b = 2 * ?cb"
    using ipp_pair_length[OF v] by auto
  have total: "length (concat ?bs) = ?n * (2 * ?cb)"
    using length_concat_fixed[of "?bs" id "2 * ?cb"] blocks len(1) by simp
  have pair: "take (2 * ?cb) (drop (i * (2 * ?cb)) (ipp_to_bytes_iter C pf))
      = compressed_as_bytes C (ipp_L_vec pf ! i) @ compressed_as_bytes C (ipp_R_vec pf ! i)" if "i < ?n" for i
    using nth_block[OF blocks, of i ?rest] that len bytes by simp
  have valid: "valid_compressed (ipp_L_vec pf ! i)" "valid_compressed (ipp_R_vec pf ! i)" if "i < ?n" for i
    using v that by (auto simp: valid_ipp_def)
  have L: "compressed_from_bytes C (take ?cb (drop (2 * i * ?cb) (ipp_to_bytes_iter C pf))) = ipp_L_vec pf ! i" if "i < ?n" for i
  proof -
    have "take ?cb (drop (2 * i * ?cb) (ipp_to_bytes_iter C pf))
        = take ?cb (take (2 * ?cb) (drop (i * (2 * ?cb)) (ipp_to_bytes_iter C pf)))" by (simp add: mult_ac)
    then show ?thesis unfolding pair[OF that] using valid[OF that] by (simp add: as_bytes_length from_as_bytes)
  qed
  have R: "compressed_from_bytes C (take ?cb (drop (2 * i * ?cb + ?cb) (ipp_to_bytes_iter C pf))) = ipp_R_vec pf ! i" if "i < ?n" for i
  proof -
    have "take ?cb (drop (2 * i * ?cb + ?cb) (ipp_to_bytes_iter C pf))
        = drop ?cb (take (2 * ?cb) (drop (i * (2 * ?cb)) (ipp_to_bytes_iter C pf)))"
      by (simp add: mult_ac drop_take add.commute)
    then show ?thesis unfolding pair[OF that] using valid[OF that] by (simp add: as_bytes_length from_as_bytes)
  qed
  have size: "length (ipp_to_bytes_iter C pf) = ?n * (2 * ?cb) + 64" using total by (simp add: bytes canonical_length)
  have a: "read32 (drop (2 * ?n * ?cb) (ipp_to_bytes_iter C pf)) = scalar_to_canonical C (ipp_a pf)"
    and b: "read32 (drop (2 * ?n * ?cb + 32) (ipp_to_bytes_iter C pf)) = scalar_to_canonical C (ipp_b pf)"
    unfolding bytes read32_def using total by (simp_all add: canonical_length mult_ac)
  have "map (\<lambda>i. compressed_from_bytes C (take ?cb (drop (2 * i * ?cb) (ipp_to_bytes_iter C pf)))) [0..<?n] = ipp_L_vec pf"
    "map (\<lambda>i. compressed_from_bytes C (take ?cb (drop (2 * i * ?cb + ?cb) (ipp_to_bytes_iter C pf)))) [0..<?n] = ipp_R_vec pf"
    using L R len(2) by (auto intro!: nth_equalityI)
  then show ?thesis
    using compressed_positive by (simp add: ipp_from_bytes_def Let_def size a b canonical_decode ok_or_def)
qed

lemma ipp_from_bytes_sound:
  assumes "ipp_from_bytes C bs = Inr pf"
  shows "valid_ipp valid_compressed pf \<and> bs = ipp_to_bytes_iter C pf"
proof -
  let ?cb = "compressed_bytes C"
  define n where "n = (length bs - 64) div (2 * ?cb)"
  let ?l = "\<lambda>i. take ?cb (drop (2 * i * ?cb) bs)" and ?r = "\<lambda>i. take ?cb (drop (2 * i * ?cb + ?cb) bs)"
  have "64 \<le> length bs" "(length bs - 64) mod (2 * ?cb) = 0"
    using assms by (auto simp: ipp_from_bytes_def Let_def split: if_splits)
  then have len: "length bs = n * (2 * ?cb) + 64" by (auto simp: n_def)
  obtain a b where scalars: "scalar_from_canonical C (read32 (drop (2 * n * ?cb) bs)) = Some a"
      "scalar_from_canonical C (read32 (drop (2 * n * ?cb + 32) bs)) = Some b"
    and pf: "pf = \<lparr>ipp_L_vec = map (\<lambda>i. compressed_from_bytes C (?l i)) [0..<n],
      ipp_R_vec = map (\<lambda>i. compressed_from_bytes C (?r i)) [0..<n], ipp_a = a, ipp_b = b\<rparr>"
    using assms by (auto simp: ipp_from_bytes_def Let_def n_def ok_or_def split: if_splits option.splits)
  have fit: "2 * i * ?cb + 2 * ?cb \<le> length bs" if "i < n" for i
  proof -
    have "Suc i * (2 * ?cb) \<le> n * (2 * ?cb)" using that by (intro mult_le_mono1) simp
    then show ?thesis using len by (simp add: mult_ac)
  qed
  have points: "valid_compressed (compressed_from_bytes C (?l i))" "compressed_as_bytes C (compressed_from_bytes C (?l i)) = ?l i"
    "valid_compressed (compressed_from_bytes C (?r i))" "compressed_as_bytes C (compressed_from_bytes C (?r i)) = ?r i" if "i < n" for i
    using as_from_bytes[of "?l i"] as_from_bytes[of "?r i"] fit[OF that] by simp_all
  have "bs = take (n * (2 * ?cb)) bs @ take 32 (drop (2 * n * ?cb) bs) @ take 32 (drop (2 * n * ?cb + 32) bs)"
  proof -
    have "take 32 (drop (2 * n * ?cb + 32) bs) = drop 32 (drop (2 * n * ?cb) bs)" using len by (simp add: mult_ac add.commute)
    then show ?thesis by (simp add: mult_ac del: drop_drop)
  qed
  moreover have "take (n * (2 * ?cb)) bs = concat (map (\<lambda>i. ?l i @ ?r i) [0..<n])"
  proof -
    have "take (2 * ?cb) (drop (i * (2 * ?cb)) (take (n * (2 * ?cb)) bs)) = ?l i @ ?r i" if "i < n" for i
    proof -
      have "take (2 * ?cb) (drop (i * (2 * ?cb)) (take (n * (2 * ?cb)) bs)) = take (2 * ?cb) (drop (2 * i * ?cb) bs)"
        using mult_le_mono1[of "Suc i" n "2 * ?cb"] that by (simp add: drop_take min_def mult_ac)
      also have "\<dots> = take (?cb + ?cb) (drop (2 * i * ?cb) bs)" by (simp add: mult_2)
      finally show ?thesis by (simp add: take_add add.commute)
    qed
    then have blocks: "map (\<lambda>i. take (2 * ?cb) (drop (i * (2 * ?cb)) (take (n * (2 * ?cb)) bs))) [0..<n] = map (\<lambda>i. ?l i @ ?r i) [0..<n]"
      by (intro map_cong) simp_all
    show ?thesis unfolding blocks[symmetric] by (rule concat_blocks[symmetric]) (use len in simp)
  qed
  moreover have "concat (map (\<lambda>i. ?l i @ ?r i) [0..<n])
      = concat (map (\<lambda>(l, r). compressed_as_bytes C l @ compressed_as_bytes C r) (zip (ipp_L_vec pf) (ipp_R_vec pf)))"
    using points by (intro arg_cong[of _ _ concat] nth_equalityI) (simp_all add: pf)
  moreover have "take 32 (drop (2 * n * ?cb) bs) = scalar_to_canonical C a" "take 32 (drop (2 * n * ?cb + 32) bs) = scalar_to_canonical C b"
    using scalars by (simp_all add: canonical_unique read32_def)
  ultimately have "bs = ipp_to_bytes_iter C pf" by (simp add: ipp_to_bytes_iter_def pf)
  moreover have "valid_ipp valid_compressed pf" using points by (auto simp: valid_ipp_def pf)
  ultimately show ?thesis by blast
qed

end

section \<open>The two forms of an R1CS proof\<close>

definition proof_tail :: "('s, 'p, 'a, 'c, 'z) cycle_scheme \<Rightarrow> ('s, 'c) r1cs_proof \<Rightarrow> bytes" where
  "proof_tail C pf =
     compressed_as_bytes C (rp_T_1 pf) @ compressed_as_bytes C (rp_T_3 pf) @ compressed_as_bytes C (rp_T_4 pf)
     @ compressed_as_bytes C (rp_T_5 pf) @ compressed_as_bytes C (rp_T_6 pf) @ scalar_to_canonical C (rp_t_x pf)
     @ scalar_to_canonical C (rp_t_x_blinding pf) @ scalar_to_canonical C (rp_e_blinding pf)
     @ ipp_to_bytes_iter C (rp_ipp_proof pf)"

definition one_phase_bytes :: "('s, 'p, 'a, 'c, 'z) cycle_scheme \<Rightarrow> ('s, 'c) r1cs_proof \<Rightarrow> bytes" where
  "one_phase_bytes C pf =
     ONE_PHASE_COMMITMENTS # compressed_as_bytes C (rp_A_I1 pf) @ compressed_as_bytes C (rp_A_O1 pf)
     @ compressed_as_bytes C (rp_S1 pf) @ proof_tail C pf"

definition two_phase_bytes :: "('s, 'p, 'a, 'c, 'z) cycle_scheme \<Rightarrow> ('s, 'c) r1cs_proof \<Rightarrow> bytes" where
  "two_phase_bytes C pf =
     TWO_PHASE_COMMITMENTS # compressed_as_bytes C (rp_A_I1 pf) @ compressed_as_bytes C (rp_A_O1 pf)
     @ compressed_as_bytes C (rp_S1 pf) @ compressed_as_bytes C (rp_A_I2 pf) @ compressed_as_bytes C (rp_A_O2 pf)
     @ compressed_as_bytes C (rp_S2 pf) @ proof_tail C pf"

lemma r1cs_to_bytes_forms:
  "r1cs_to_bytes C pf = (if missing_phase2_commitments C pf then one_phase_bytes C pf else two_phase_bytes C pf)"
  by (simp add: r1cs_to_bytes_def extend_points_def one_phase_bytes_def two_phase_bytes_def proof_tail_def Let_def)

context cycle_codec
begin

lemma next_point_append [simp]: "valid_compressed c \<Longrightarrow> next_point C (compressed_as_bytes C c @ rest) = (c, rest)"
  by (simp add: next_point_def as_bytes_length from_as_bytes)

lemma read32_append [simp]: "read32 (scalar_to_canonical C s @ rest) = scalar_to_canonical C s"
  by (simp add: read32_def canonical_length)

lemma next_point_split:
  assumes "next_point C s = (c, s')" "compressed_bytes C + m \<le> length s"
  shows "valid_compressed c \<and> s = compressed_as_bytes C c @ s' \<and> m \<le> length s'"
  using assms as_from_bytes[of "take (compressed_bytes C) s"] by (auto simp: next_point_def)

lemmas decode_defs = r1cs_from_bytes_def Let_def ok_or_def canonical_decode canonical_length as_bytes_length

lemma decode_two_phase: "valid_proof valid_compressed pf \<Longrightarrow> r1cs_from_bytes C (two_phase_bytes C pf) = Inr pf"
  by (simp add: two_phase_bytes_def proof_tail_def valid_proof_def decode_defs ipp_from_to_bytes
      ONE_PHASE_COMMITMENTS_def TWO_PHASE_COMMITMENTS_def)

lemma decode_one_phase:
  "valid_proof valid_compressed pf \<Longrightarrow> r1cs_from_bytes C (one_phase_bytes C pf)
    = Inr (pf\<lparr>rp_A_I2 := compressed_identity C, rp_A_O2 := compressed_identity C, rp_S2 := compressed_identity C\<rparr>)"
  by (simp add: one_phase_bytes_def proof_tail_def valid_proof_def decode_defs ipp_from_to_bytes)

lemma decode_to_bytes:
  assumes v: "valid_proof valid_compressed pf"
  shows "r1cs_from_bytes C (r1cs_to_bytes C pf) = Inr pf"
proof (cases "missing_phase2_commitments C pf")
  case True
  then have "rp_A_I2 pf = compressed_identity C" "rp_A_O2 pf = compressed_identity C" "rp_S2 pf = compressed_identity C"
    using v by (simp_all add: missing_phase2_commitments_def valid_proof_def identity_unique)
  then have "pf\<lparr>rp_A_I2 := compressed_identity C, rp_A_O2 := compressed_identity C, rp_S2 := compressed_identity C\<rparr> = pf"
    by simp
  with True decode_one_phase[OF v] show ?thesis by (simp add: r1cs_to_bytes_forms)
next
  case False
  with decode_two_phase[OF v] show ?thesis by (simp add: r1cs_to_bytes_forms)
qed

text \<open>The last five points, the scalars and the inner-product proof, as the decoder reads them.\<close>

lemma decode_tail:
  assumes "next_point C d0 = (T_1, d1)" "next_point C d1 = (T_3, d2)" "next_point C d2 = (T_4, d3)" "next_point C d3 = (T_5, d4)"
      "next_point C d4 = (T_6, d5)"
    and "scalar_from_canonical C (read32 d5) = Some t_x" "scalar_from_canonical C (read32 (drop 32 d5)) = Some t_x_blinding"
      "scalar_from_canonical C (read32 (drop 64 d5)) = Some e_blinding"
    and "ipp_from_bytes C (drop 96 d5) = Inr ipp" "5 * compressed_bytes C + 96 \<le> length d0"
    and "rp_T_1 pf = T_1" "rp_T_3 pf = T_3" "rp_T_4 pf = T_4" "rp_T_5 pf = T_5" "rp_T_6 pf = T_6" "rp_t_x pf = t_x"
      "rp_t_x_blinding pf = t_x_blinding" "rp_e_blinding pf = e_blinding" "rp_ipp_proof pf = ipp"
  shows "d0 = proof_tail C pf \<and> (\<forall>c \<in> {T_1, T_3, T_4, T_5, T_6}. valid_compressed c) \<and> valid_ipp valid_compressed ipp"
proof -
  note p1 = next_point_split[OF assms(1), of "4 * compressed_bytes C + 96"]
  note p2 = next_point_split[OF assms(2), of "3 * compressed_bytes C + 96"]
  note p3 = next_point_split[OF assms(3), of "2 * compressed_bytes C + 96"]
  note p4 = next_point_split[OF assms(4), of "compressed_bytes C + 96"]
  note p5 = next_point_split[OF assms(5), of 96]
  have "d5 = take 32 d5 @ take 32 (drop 32 d5) @ take 32 (drop 64 d5) @ drop 96 d5"
    using append_take_drop_id[of 32 d5] append_take_drop_id[of 32 "drop 32 d5"] append_take_drop_id[of 32 "drop 64 d5"] by simp
  moreover have "take 32 d5 = scalar_to_canonical C t_x" "take 32 (drop 32 d5) = scalar_to_canonical C t_x_blinding"
    "take 32 (drop 64 d5) = scalar_to_canonical C e_blinding"
    using assms(6-8) by (simp_all add: canonical_unique read32_def)
  moreover have "drop 96 d5 = ipp_to_bytes_iter C ipp" "valid_ipp valid_compressed ipp"
    using ipp_from_bytes_sound[OF assms(9)] by simp_all
  ultimately have "d5 = scalar_to_canonical C t_x @ scalar_to_canonical C t_x_blinding @ scalar_to_canonical C e_blinding
      @ ipp_to_bytes_iter C ipp" "valid_ipp valid_compressed ipp" by simp_all
  moreover have "d0 = compressed_as_bytes C T_1 @ compressed_as_bytes C T_3 @ compressed_as_bytes C T_4 @ compressed_as_bytes C T_5
      @ compressed_as_bytes C T_6 @ d5" "\<forall>c \<in> {T_1, T_3, T_4, T_5, T_6}. valid_compressed c"
    using p1 p2 p3 p4 p5 assms(10) by simp_all
  ultimately show ?thesis by (simp add: proof_tail_def assms(11-19))
qed

lemma decode_one_phase_sound:
  assumes "r1cs_from_bytes C (ONE_PHASE_COMMITMENTS # data) = Inr pf"
  shows "valid_proof valid_compressed pf \<and> data = tl (one_phase_bytes C pf) \<and> missing_phase2_commitments C pf"
proof -
  obtain A_I1 e1 where e1: "next_point C data = (A_I1, e1)" by fastforce
  obtain A_O1 e2 where e2: "next_point C e1 = (A_O1, e2)" by fastforce
  obtain S1 d0 where e3: "next_point C e2 = (S1, d0)" by fastforce
  obtain T_1 d1 where d1: "next_point C d0 = (T_1, d1)" by fastforce
  obtain T_3 d2 where d2: "next_point C d1 = (T_3, d2)" by fastforce
  obtain T_4 d3 where d3: "next_point C d2 = (T_4, d3)" by fastforce
  obtain T_5 d4 where d4: "next_point C d3 = (T_5, d4)" by fastforce
  obtain T_6 d5 where d5: "next_point C d4 = (T_6, d5)" by fastforce
  have len: "8 * compressed_bytes C + 96 \<le> length data"
    using assms by (auto simp: r1cs_from_bytes_def Let_def split: if_splits)
  obtain t_x t_x_b e_b ipp where scalars: "scalar_from_canonical C (read32 d5) = Some t_x"
      "scalar_from_canonical C (read32 (drop 32 d5)) = Some t_x_b" "scalar_from_canonical C (read32 (drop 64 d5)) = Some e_b"
    and ipp: "ipp_from_bytes C (drop 96 d5) = Inr ipp"
    and pf: "pf = \<lparr>rp_A_I1 = A_I1, rp_A_O1 = A_O1, rp_S1 = S1, rp_A_I2 = compressed_identity C, rp_A_O2 = compressed_identity C,
      rp_S2 = compressed_identity C, rp_T_1 = T_1, rp_T_3 = T_3, rp_T_4 = T_4, rp_T_5 = T_5, rp_T_6 = T_6, rp_t_x = t_x,
      rp_t_x_blinding = t_x_b, rp_e_blinding = e_b, rp_ipp_proof = ipp\<rparr>"
    using assms by (auto simp: r1cs_from_bytes_def Let_def ok_or_def e1 e2 e3 d1 d2 d3 d4 d5 split: if_splits option.splits)
  note p1 = next_point_split[OF e1, of "7 * compressed_bytes C + 96"]
  note p2 = next_point_split[OF e2, of "6 * compressed_bytes C + 96"]
  note p3 = next_point_split[OF e3, of "5 * compressed_bytes C + 96"]
  note tail = decode_tail[OF d1 d2 d3 d4 d5 scalars ipp, of pf]
  show ?thesis
    using p1 p2 p3 len tail identity_valid
    by (simp add: pf valid_proof_def one_phase_bytes_def missing_phase2_commitments_def identity_unique)
qed

lemma decode_two_phase_sound:
  assumes "r1cs_from_bytes C (TWO_PHASE_COMMITMENTS # data) = Inr pf"
  shows "valid_proof valid_compressed pf \<and> data = tl (two_phase_bytes C pf)"
proof -
  obtain A_I1 e1 where e1: "next_point C data = (A_I1, e1)" by fastforce
  obtain A_O1 e2 where e2: "next_point C e1 = (A_O1, e2)" by fastforce
  obtain S1 e3 where e3: "next_point C e2 = (S1, e3)" by fastforce
  obtain A_I2 e4 where e4: "next_point C e3 = (A_I2, e4)" by fastforce
  obtain A_O2 e5 where e5: "next_point C e4 = (A_O2, e5)" by fastforce
  obtain S2 d0 where e6: "next_point C e5 = (S2, d0)" by fastforce
  obtain T_1 d1 where d1: "next_point C d0 = (T_1, d1)" by fastforce
  obtain T_3 d2 where d2: "next_point C d1 = (T_3, d2)" by fastforce
  obtain T_4 d3 where d3: "next_point C d2 = (T_4, d3)" by fastforce
  obtain T_5 d4 where d4: "next_point C d3 = (T_5, d4)" by fastforce
  obtain T_6 d5 where d5: "next_point C d4 = (T_6, d5)" by fastforce
  have len: "11 * compressed_bytes C + 96 \<le> length data"
    using assms by (auto simp: r1cs_from_bytes_def Let_def ONE_PHASE_COMMITMENTS_def TWO_PHASE_COMMITMENTS_def split: if_splits)
  obtain t_x t_x_b e_b ipp where scalars: "scalar_from_canonical C (read32 d5) = Some t_x"
      "scalar_from_canonical C (read32 (drop 32 d5)) = Some t_x_b" "scalar_from_canonical C (read32 (drop 64 d5)) = Some e_b"
    and ipp: "ipp_from_bytes C (drop 96 d5) = Inr ipp"
    and pf: "pf = \<lparr>rp_A_I1 = A_I1, rp_A_O1 = A_O1, rp_S1 = S1, rp_A_I2 = A_I2, rp_A_O2 = A_O2,
      rp_S2 = S2, rp_T_1 = T_1, rp_T_3 = T_3, rp_T_4 = T_4, rp_T_5 = T_5, rp_T_6 = T_6, rp_t_x = t_x,
      rp_t_x_blinding = t_x_b, rp_e_blinding = e_b, rp_ipp_proof = ipp\<rparr>"
    using assms by (auto simp: r1cs_from_bytes_def Let_def ok_or_def e1 e2 e3 e4 e5 e6 d1 d2 d3 d4 d5
        ONE_PHASE_COMMITMENTS_def TWO_PHASE_COMMITMENTS_def split: if_splits option.splits)
  note p1 = next_point_split[OF e1, of "10 * compressed_bytes C + 96"]
  note p2 = next_point_split[OF e2, of "9 * compressed_bytes C + 96"]
  note p3 = next_point_split[OF e3, of "8 * compressed_bytes C + 96"]
  note p4 = next_point_split[OF e4, of "7 * compressed_bytes C + 96"]
  note p5 = next_point_split[OF e5, of "6 * compressed_bytes C + 96"]
  note p6 = next_point_split[OF e6, of "5 * compressed_bytes C + 96"]
  note tail = decode_tail[OF d1 d2 d3 d4 d5 scalars ipp, of pf]
  show ?thesis
    using p1 p2 p3 p4 p5 p6 len tail by (simp add: pf valid_proof_def two_phase_bytes_def)
qed

lemma decode_iff:
  "r1cs_from_bytes C bs = Inr pf \<longleftrightarrow>
    valid_proof valid_compressed pf \<and> (bs = r1cs_to_bytes C pf \<or> bs = two_phase_bytes C pf)"
proof
  assume d: "r1cs_from_bytes C bs = Inr pf"
  then obtain v data where bs: "bs = v # data" by (cases bs) (auto simp: r1cs_from_bytes_def)
  consider "v = ONE_PHASE_COMMITMENTS" | "v = TWO_PHASE_COMMITMENTS"
    using d by (auto simp: r1cs_from_bytes_def Let_def bs split: if_splits)
  then show "valid_proof valid_compressed pf \<and> (bs = r1cs_to_bytes C pf \<or> bs = two_phase_bytes C pf)"
  proof cases
    case 1
    with decode_one_phase_sound[of data pf] d bs show ?thesis by (simp add: r1cs_to_bytes_forms one_phase_bytes_def)
  next
    case 2
    with decode_two_phase_sound[of data pf] d bs show ?thesis by (simp add: two_phase_bytes_def)
  qed
qed (auto intro: decode_to_bytes decode_two_phase)

text \<open>The lengths that the provers of larger protocols rely on.\<close>

lemma length_forms:
  assumes "valid_proof valid_compressed pf"
  shows "length (one_phase_bytes C pf) = single_phase_wire_len C (length (ipp_L_vec (rp_ipp_proof pf)))"
    and "length (two_phase_bytes C pf) = single_phase_wire_len C (length (ipp_L_vec (rp_ipp_proof pf))) + 3 * compressed_bytes C"
  using assms length_ipp_to_bytes[of "rp_ipp_proof pf"]
  by (simp_all add: one_phase_bytes_def two_phase_bytes_def proof_tail_def valid_proof_def as_bytes_length
      canonical_length single_phase_wire_len_def ipp_serialized_size_def)

lemma decoded_length:
  assumes "r1cs_from_bytes C bs = Inr pf"
  shows "length bs = single_phase_wire_len C (length (ipp_L_vec (rp_ipp_proof pf)))
      + (if hd bs = TWO_PHASE_COMMITMENTS then 3 * compressed_bytes C else 0)"
  using decode_iff[of bs pf] assms length_forms[of pf]
  by (auto simp: r1cs_to_bytes_forms one_phase_bytes_def two_phase_bytes_def ONE_PHASE_COMMITMENTS_def TWO_PHASE_COMMITMENTS_def)

end

sublocale jubjub_crate \<subseteq> jubjub_bytes: cycle_codec "jubjub_cycle J" "\<lambda>c. length c = 32"
  by unfold_locales
    (simp_all add: jubjub_cycle_def subgroup_length fr_repr_length fr_repr_decode fr_repr_canonical)

section \<open>Properties\<close>

text \<open>
  C34. The decoder of R1CS proofs inverts the encoder and accepts nothing else, except that a proof without
  second-phase commitments also decodes from the longer form that spells out the identities: the
  encoding of such a proof is not unique.
\<close>

theorem r1cs_from_bytes_exact:
  assumes "cycle_codec C valid"
  shows "r1cs_from_bytes C bs = Inr pf \<longleftrightarrow>
    valid_proof valid pf \<and> (bs = r1cs_to_bytes C pf \<or> bs = two_phase_bytes C pf)"
  by (rule cycle_codec.decode_iff[OF assms])

text \<open>
  The announced lengths are exact: the decoder only accepts inputs of the length that
  \<open>single_phase_wire_len\<close> computes from the number of rounds without building a proof, plus three points in the
  longer form; so every proof whose encoding is in the short form has exactly this length.
\<close>

theorem r1cs_wire_len_exact:
  assumes "cycle_codec C valid" and "r1cs_from_bytes C bs = Inr pf"
  shows "length bs = single_phase_wire_len C (length (ipp_L_vec (rp_ipp_proof pf)))
      + (if hd bs = TWO_PHASE_COMMITMENTS then 3 * compressed_bytes C else 0)"
  by (rule cycle_codec.decoded_length[OF assms])

lemma tiny_proof_valid: "valid_proof (\<lambda>c. length c = 32) tiny_proof"
  by (simp add: valid_proof_def valid_ipp_def tiny_proof_def tiny_fr_length)

lemma tiny_proof_single: "missing_phase2_commitments tiny_cycle tiny_proof"
  by (simp add: missing_phase2_commitments_def tiny_proof_def tiny_codec)

lemma r1cs_from_bytes_exact_witness:
  "r1cs_from_bytes tiny_cycle (r1cs_to_bytes tiny_cycle tiny_proof) = Inr tiny_proof
    \<and> r1cs_from_bytes tiny_cycle (two_phase_bytes tiny_cycle tiny_proof) = Inr tiny_proof
    \<and> r1cs_to_bytes tiny_cycle tiny_proof \<noteq> two_phase_bytes tiny_cycle tiny_proof"
proof -
  have "hd (r1cs_to_bytes tiny_cycle tiny_proof) = 0" "hd (two_phase_bytes tiny_cycle tiny_proof) = 1"
    using tiny_proof_single
    by (simp_all add: r1cs_to_bytes_forms one_phase_bytes_def two_phase_bytes_def ONE_PHASE_COMMITMENTS_def TWO_PHASE_COMMITMENTS_def)
  then have "r1cs_to_bytes tiny_cycle tiny_proof \<noteq> two_phase_bytes tiny_cycle tiny_proof" by auto
  then show ?thesis
    using r1cs_from_bytes_exact[OF tinyj.jubjub_bytes.cycle_codec_axioms, of _ tiny_proof] tiny_proof_valid by simp
qed

lemma r1cs_wire_len_exact_witness: "length (r1cs_to_bytes tiny_cycle tiny_proof) = 1 + 8 * 32 + 96 + 64"
proof -
  have single: "hd (r1cs_to_bytes tiny_cycle tiny_proof) \<noteq> TWO_PHASE_COMMITMENTS"
    using tiny_proof_single
    by (simp add: r1cs_to_bytes_forms one_phase_bytes_def ONE_PHASE_COMMITMENTS_def TWO_PHASE_COMMITMENTS_def)
  have "r1cs_from_bytes tiny_cycle (r1cs_to_bytes tiny_cycle tiny_proof) = Inr tiny_proof"
    by (rule cycle_codec.decode_to_bytes[OF tinyj.jubjub_bytes.cycle_codec_axioms tiny_proof_valid])
  from r1cs_wire_len_exact[OF tinyj.jubjub_bytes.cycle_codec_axioms this] single show ?thesis
    by (simp add: single_phase_wire_len_def serialized_size_for_rounds_def jubjub_cycle_def)
      (simp add: tiny_proof_def)
qed

end
