(* ===== verification/Generators_Laws.thy ===== *)
theory Generators_Laws
  imports Generators Inner_Product_Laws
begin

text \<open>
  What threads that derive generators concurrently (\<open>bulletproofs-cycle/src/generators.rs\<close>) can see: only prefixes of the
  one chain of a label, so that provers and verifiers agree on the generators.
\<close>

section \<open>Properties\<close>

lemma chain_prefix_agree:
  assumes "chain_prefix shake C label as" "chain_prefix shake C label bs" "length as \<le> length bs"
  shows "map (affine_to_point C) as = take (length as) (map (affine_to_point C) bs)"
proof -
  obtain ps qs where "chain_points shake C label 0 (length as) = Some ps"
    "map (affine_to_point C) bs = ps @ qs"
    using assms(2) chain_points_split[of 0 "length as" "length bs" shake C label] assms(3)
    by (auto simp: chain_prefix_def Option.bind_eq_Some_conv) metis
  moreover from this have "map (affine_to_point C) as = ps" using assms(1) by (simp add: chain_prefix_def)
  ultimately show ?thesis by (metis append_eq_conv_conj length_map)
qed

text \<open>
  C35. Concurrent derivation of generators is deterministic: in every interleaving of threads that share the cache, a
  thread that has returned holds at least the number of generators it asked for, all of them the points
  of the label's chain in order, and two threads that asked for the same label hold the same points.
\<close>

theorem derive_interleavings:
  assumes "cycle_laws C" and "derive_reachable shake C threads job (cache, ths)"
    and "ths i = Returned as" and "ths j = Returned bs" and "fst (job i) = fst (job j)" and "length as \<le> length bs"
  shows "snd (job i) \<le> length as \<and> chain_points shake C (fst (job i)) 0 (length as) = Some (map (affine_to_point C) as)
    \<and> map (affine_to_point C) as = take (length as) (map (affine_to_point C) bs)"
proof -
  have ok: "case ths i of Looking \<Rightarrow> True
    | Extending have \<Rightarrow> chain_prefix shake C (fst (job i)) have \<and> length have < snd (job i)
    | Returned gens \<Rightarrow> chain_prefix shake C (fst (job i)) gens \<and> snd (job i) \<le> length gens" for i
    using cycle_laws.derive_reachable_ok[OF assms(1,2)] by simp
  from ok[of i] ok[of j] assms(3-6) show ?thesis
    using chain_prefix_agree[of shake C "fst (job i)" as bs] by (simp add: chain_prefix_def)
qed

section \<open>Two threads in the small setting\<close>

definition hashing_cycle :: "(tiny, tiny, tiny, bytes) cycle" where
  "hashing_cycle = tiny_cycle\<lparr>point_hash_from_uniform := (\<lambda>b. Some (reduce (from_le (take 1 b))))\<rparr>"

lemma hashing_cycle_laws: "cycle_laws hashing_cycle"
  using tinyj.jubjub_cyc.cycle_laws_axioms by (simp add: cycle_laws_def hashing_cycle_def)

definition tiny_shake :: xof where
  "tiny_shake absorbed pos = word_of_nat (7 + pos div 64)"

lemma tiny_chain:
  "extend_generators tiny_shake hashing_cycle 2 label 2 [] = Some [7, 8]"
  "extend_generators tiny_shake hashing_cycle 2 label 1 [] = Some [7]"
  "extend_generators tiny_shake hashing_cycle 2 label 2 [7] = Some [7, 8]"
proof -
  have "take 1 (chain_block tiny_shake label k) = [word_of_nat (7 + k)]" for k
    by (simp add: chain_block_def tiny_shake_def upt_conv_Cons)
  from this[of 0] this[of 1] have block: "take 1 (chain_block tiny_shake label 0) = [7]" "take 1 (chain_block tiny_shake label 1) = [8]"
    by simp_all
  have affine: "batch_normalize hashing_cycle ps = ps" for ps
    by (simp add: hashing_cycle_def jubjub_cycle_def tiny_jubjub_def)
  have hash: "point_hash_from_uniform hashing_cycle b = Some (reduce (from_le (take 1 b)))" for b
    by (simp add: hashing_cycle_def)
  have range: "[0..<2] = [0, 1 :: nat]" "[0..<1] = [0 :: nat]" "[1..<2] = [1 :: nat]" by (simp_all add: upt_conv_Cons)
  have "chain_points tiny_shake hashing_cycle label 0 2 = Some [7, 8]" "chain_points tiny_shake hashing_cycle label 0 1 = Some [7]"
    "chain_points tiny_shake hashing_cycle label 1 2 = Some [8]"
    unfolding chain_points_def range by (simp_all add: hash block block[simplified] tiny_eval)
  then show "extend_generators tiny_shake hashing_cycle 2 label 2 [] = Some [7, 8]"
    "extend_generators tiny_shake hashing_cycle 2 label 1 [] = Some [7]"
    "extend_generators tiny_shake hashing_cycle 2 label 2 [7] = Some [7, 8]"
    by (simp_all add: extend_generators_eq affine)
qed

text \<open>
  The second thread looks first and publishes after the first one has returned: its first result is dropped, as
  the cache has grown in between.
\<close>

definition tiny_job :: "nat \<Rightarrow> bytes \<times> nat" where
  "tiny_job i = ([1], Suc i)"

lemma tiny_run:
  "derive_reachable tiny_shake hashing_cycle 2 tiny_job
     ([[1] \<mapsto> [7, 8]], (\<lambda>_. Looking)(0 := Returned [7], 1 := Returned [7, 8]))"
proof -
  note steps = derive_reachable.step[where shake = tiny_shake and C = hashing_cycle and threads = 2 and job = tiny_job]
  have 1: "derive_reachable tiny_shake hashing_cycle 2 tiny_job (Map.empty, (\<lambda>_. Looking)(1 := Extending []))"
    using steps[OF derive_reachable.start missing[of _ 1]] by (simp add: tiny_job_def cached_def)
  have 2: "derive_reachable tiny_shake hashing_cycle 2 tiny_job (Map.empty, (\<lambda>_. Looking)(1 := Extending [], 0 := Extending []))"
    using steps[OF 1 missing[of _ 0]] by (simp add: tiny_job_def cached_def)
  have 3: "derive_reachable tiny_shake hashing_cycle 2 tiny_job ([[1] \<mapsto> [7]], (\<lambda>_. Looking)(1 := Extending [], 0 := Looking))"
    using steps[OF 2 publish[of _ 0 "[]" _ "[1]" 1 _ _ _ "[7]"]]
    by (simp add: tiny_job_def tiny_chain[simplified] store_generators_def cached_def)
  have 4: "derive_reachable tiny_shake hashing_cycle 2 tiny_job ([[1] \<mapsto> [7]], (\<lambda>_. Looking)(1 := Extending [], 0 := Returned [7]))"
    using steps[OF 3 found[of _ 0]] by (simp add: tiny_job_def cached_def)
  have 5: "derive_reachable tiny_shake hashing_cycle 2 tiny_job ([[1] \<mapsto> [7]], (\<lambda>_. Looking)(0 := Returned [7], 1 := Looking))"
    using steps[OF 4 publish[of _ 1 "[]" _ "[1]" 2 _ _ _ "[7, 8]"]]
    by (simp add: tiny_job_def tiny_chain[simplified] store_generators_def cached_def fun_upd_twist)
  have 6: "derive_reachable tiny_shake hashing_cycle 2 tiny_job ([[1] \<mapsto> [7]], (\<lambda>_. Looking)(0 := Returned [7], 1 := Extending [7]))"
    using steps[OF 5 missing[of _ 1]] by (simp add: tiny_job_def cached_def)
  have 7: "derive_reachable tiny_shake hashing_cycle 2 tiny_job ([[1] \<mapsto> [7, 8]], (\<lambda>_. Looking)(0 := Returned [7], 1 := Looking))"
    using steps[OF 6 publish[of _ 1 "[7]" _ "[1]" 2 _ _ _ "[7, 8]"]]
    by (simp add: tiny_job_def tiny_chain[simplified] store_generators_def cached_def)
  show ?thesis
    using steps[OF 7 found[of _ 1]] by (simp add: tiny_job_def cached_def)
qed

lemma derive_interleavings_witness:
  "map (affine_to_point hashing_cycle) [7] = take 1 (map (affine_to_point hashing_cycle) [7, 8])"
  using derive_interleavings[OF hashing_cycle_laws tiny_run, of 0 "[7]" 1 "[7, 8]"] by (simp add: tiny_job_def)

end
