(* ===== verification/Circuit_Logic.thy ===== *)
theory Circuit_Logic
  imports R1cs_Circuits
begin

text \<open>
  Reasoning about a circuit call by call. \<open>enforces\<close>: what every assignment that satisfies the finished
  constraint system has to fulfil, whoever made it. \<open>completes\<close>: the prover that starts from good values
  finishes with all its constraints satisfied. \<open>verifier_call\<close>: what a part of a circuit does to the
  verifier, used to count gates. The rules follow the calls, as in a calculus of weakest preconditions.
\<close>

section \<open>Satisfying assignments\<close>

definition circuit_holds :: "(variable_kind \<Rightarrow> 's::field) \<Rightarrow> ('s, 'c, 't) verifier \<Rightarrow> bool" where
  "circuit_holds env vf \<longleftrightarrow> env ConstantOne = 1 \<and> (\<forall>lc \<in> set (ve_constraints vf). lc_value env lc = 0)
     \<and> (\<forall>i < ve_num_vars vf. env (MultiplierOutput i) = env (MultiplierLeft i) * env (MultiplierRight i))"

definition extends :: "('s, 'c, 't) verifier \<Rightarrow> ('s, 'c, 't) verifier \<Rightarrow> bool" where
  "extends vf vf' \<longleftrightarrow> ve_num_vars vf \<le> ve_num_vars vf' \<and> (\<exists>lcs. ve_constraints vf' = ve_constraints vf @ lcs)"

lemma extends_refl: "extends vf vf"
  by (simp add: extends_def)

lemma extends_trans: "extends vf vf1 \<Longrightarrow> extends vf1 vf2 \<Longrightarrow> extends vf vf2"
  by (auto simp: extends_def)

lemma holds_extends: "extends vf vf' \<Longrightarrow> circuit_holds env vf' \<Longrightarrow> circuit_holds env vf"
  by (auto simp: extends_def circuit_holds_def)

lemma call_extends:
  "verifier_multiply left right vf = (g, vf1) \<Longrightarrow> extends vf vf1"
  "verifier_allocate vf = (var, vf1) \<Longrightarrow> extends vf vf1"
  "verifier_allocate_multiplier vf = (g, vf1) \<Longrightarrow> extends vf vf1"
  "extends vf (verifier_constrain lc vf)"
  by (auto simp: verifier_multiply_def verifier_allocate_def verifier_allocate_multiplier_def verifier_constrain_def
      extends_def Let_def split: option.splits)

lemma run_verifier_extends: "run_verifier M C gadget vf = Inr vf' \<Longrightarrow> extends vf vf'"
proof (induction gadget arbitrary: vf)
  case (Finish res)
  then show ?case by (auto simp: extends_refl)
next
  case (Multiply left right k)
  then show ?case
    by (simp split: prod.splits) (meson call_extends extends_trans rangeI)
next
  case (Allocate assigned k)
  then show ?case
    by (simp split: prod.splits) (meson call_extends extends_trans rangeI)
next
  case (AllocateMultiplier assigned k)
  then show ?case
    by (simp split: prod.splits) (meson call_extends extends_trans rangeI)
next
  case (Constrain lc k)
  then show ?case by simp (meson call_extends extends_trans)
next
  case (BindTranscript label message k)
  then show ?case by (fastforce simp: extends_def)
next
  case (ChallengeScalar label k)
  then show ?case by (cases "challenge_scalar M C label (ve_transcript vf)") (fastforce simp: extends_def)
qed auto

text \<open>The values of the operators.\<close>

lemma lc_value_ops:
  "lc_value env (lc_from_variable v) = env v"
  "lc_value env (lc_from_scalar s) = s * env ConstantOne"
  "lc_value env lc_default = 0"
  "lc_value env (lc_add lhs rhs) = lc_value env lhs + lc_value env rhs"
  "lc_value env (lc_sub lhs rhs) = lc_value env lhs - lc_value env rhs"
  "lc_value env (lc_neg lhs) = - lc_value env lhs"
  "lc_value env (variable_mul v s) = s * env v"
  "lc_value env (variable_add v rhs) = env v + lc_value env rhs"
  "lc_value env (variable_sub v rhs) = env v - lc_value env rhs"
  for env :: "variable_kind \<Rightarrow> 's::field"
  by (simp_all add: lc_defs lc_value_neg)

section \<open>What a circuit enforces\<close>

definition enforces ::
  "('t, 'y) merlin_scheme \<Rightarrow> ('s::field, 'p, 'a, 'c, 'z) cycle_scheme \<Rightarrow> (variable_kind \<Rightarrow> 's) \<Rightarrow> 's gadget \<Rightarrow> bool \<Rightarrow> bool" where
  "enforces M C env gadget Q \<longleftrightarrow>
     (\<forall>(vf :: ('s, 'c, 't) verifier) vf'. run_verifier M C gadget vf = Inr vf' \<longrightarrow> circuit_holds env vf' \<longrightarrow> Q)"

lemma enforcesD: "enforces M C env gadget Q \<Longrightarrow> run_verifier M C gadget vf = Inr vf' \<Longrightarrow> circuit_holds env vf' \<Longrightarrow> Q"
  unfolding enforces_def by blast

lemma enforces_one: "(env ConstantOne = 1 \<Longrightarrow> enforces M C env gadget Q) \<Longrightarrow> enforces M C env gadget Q"
  by (auto simp: enforces_def circuit_holds_def)

lemma enforces_Finish: "(res = Inr () \<Longrightarrow> Q) \<Longrightarrow> enforces M C env (Finish res) Q"
  by (auto simp: enforces_def)

lemma enforces_Multiply:
  assumes "\<And>l r out. env l = lc_value env left \<Longrightarrow> env r = lc_value env right \<Longrightarrow>
    env out = lc_value env left * lc_value env right \<Longrightarrow> enforces M C env (k (l, r, out)) Q"
  shows "enforces M C env (Multiply left right k) Q"
  unfolding enforces_def
proof (intro allI impI)
  fix vf vf'
  assume run: "run_verifier M C (Multiply left right k) vf = Inr vf'" and holds: "circuit_holds env vf'"
  let ?n = "ve_num_vars vf"
  let ?g = "(MultiplierLeft ?n, MultiplierRight ?n, MultiplierOutput ?n)"
  let ?vf1 = "snd (verifier_multiply left right vf)"
  have run1: "run_verifier M C (k ?g) ?vf1 = Inr vf'"
    using run by (simp add: verifier_multiply_def Let_def)
  have "circuit_holds env ?vf1"
    using holds_extends[OF run_verifier_extends[OF run1] holds] .
  then have "env (MultiplierLeft ?n) = lc_value env left" "env (MultiplierRight ?n) = lc_value env right"
    "env (MultiplierOutput ?n) = env (MultiplierLeft ?n) * env (MultiplierRight ?n)"
    by (simp_all add: verifier_multiply_def verifier_constrain_def circuit_holds_def Let_def)
  with assms[of "MultiplierLeft ?n" "MultiplierRight ?n" "MultiplierOutput ?n"] run1 holds show Q
    by (auto simp: enforces_def)
qed

lemma enforces_AllocateMultiplier:
  assumes "\<And>l r out. env out = env l * env r \<Longrightarrow> enforces M C env (k (l, r, out)) Q"
  shows "enforces M C env (AllocateMultiplier assigned k) Q"
  unfolding enforces_def
proof (intro allI impI)
  fix vf vf'
  assume run: "run_verifier M C (AllocateMultiplier assigned k) vf = Inr vf'" and holds: "circuit_holds env vf'"
  let ?n = "ve_num_vars vf"
  have run1: "run_verifier M C (k (MultiplierLeft ?n, MultiplierRight ?n, MultiplierOutput ?n))
      (vf\<lparr>ve_num_vars := ?n + 1\<rparr>) = Inr vf'"
    using run by (simp add: verifier_allocate_multiplier_def Let_def)
  then have "env (MultiplierOutput ?n) = env (MultiplierLeft ?n) * env (MultiplierRight ?n)"
    using run_verifier_extends[OF run1] holds by (auto simp: extends_def circuit_holds_def)
  with assms run1 holds show Q by (auto simp: enforces_def)
qed

lemma enforces_Allocate: "(\<And>var. enforces M C env (k var) Q) \<Longrightarrow> enforces M C env (Allocate assigned k) Q"
  by (auto simp: enforces_def split: prod.splits)

lemma enforces_Constrain:
  assumes "lc_value env lc = 0 \<Longrightarrow> enforces M C env k Q"
  shows "enforces M C env (Constrain lc k) Q"
  unfolding enforces_def
proof (intro allI impI)
  fix vf vf'
  assume run: "run_verifier M C (Constrain lc k) vf = Inr vf'" and holds: "circuit_holds env vf'"
  have run1: "run_verifier M C k (verifier_constrain lc vf) = Inr vf'" using run by simp
  have "lc_value env lc = 0"
    using holds_extends[OF run_verifier_extends[OF run1] holds] by (simp add: circuit_holds_def verifier_constrain_def)
  with assms run1 holds show Q by (auto simp: enforces_def)
qed

lemma enforces_if:
  "(P \<Longrightarrow> enforces M C env g Q) \<Longrightarrow> (\<not> P \<Longrightarrow> enforces M C env h Q) \<Longrightarrow> enforces M C env (if P then g else h) Q"
  by simp

lemma enforces_error: "enforces M C env (Finish (Inl e)) Q"
  by (simp add: enforces_def)

lemmas enforces_rules = enforces_Multiply enforces_AllocateMultiplier enforces_Allocate enforces_Constrain enforces_Finish

section \<open>What the prover completes\<close>

definition wire :: "('s::field, 'p, 't) prover \<Rightarrow> variable_kind \<Rightarrow> 's" where
  "wire p = assignment (secret_a_L (pr_secrets p)) (secret_a_R (pr_secrets p)) (secret_a_O (pr_secrets p)) (secret_v (pr_secrets p))"

text \<open>A variable whose value does not change any more.\<close>

definition settled :: "('s, 'p, 't) prover \<Rightarrow> variable_kind \<Rightarrow> bool" where
  "settled p var = (case var of
     Committed i \<Rightarrow> i < length (secret_v (pr_secrets p))
   | MultiplierLeft i \<Rightarrow> i < length (secret_a_L (pr_secrets p))
   | MultiplierRight i \<Rightarrow> i < length (secret_a_L (pr_secrets p)) \<and> pr_pending p \<noteq> Some i
   | MultiplierOutput i \<Rightarrow> i < length (secret_a_L (pr_secrets p)) \<and> pr_pending p \<noteq> Some i
   | ConstantOne \<Rightarrow> True)"

definition has :: "('s::field, 'p, 't) prover \<Rightarrow> variable_kind \<Rightarrow> 's \<Rightarrow> bool" where
  "has p var x \<longleftrightarrow> settled p var \<and> wire p var = x"

definition lc_has :: "('s::field, 'p, 't) prover \<Rightarrow> 's linear_combination \<Rightarrow> 's \<Rightarrow> bool" where
  "lc_has p lc x \<longleftrightarrow> (\<forall>(var, _) \<in> set lc. settled p var) \<and> lc_value (wire p) lc = x"

definition good_prover :: "('s::field, 'p, 't) prover \<Rightarrow> bool" where
  "good_prover p \<longleftrightarrow> prover_ok p \<and> (\<forall>lc \<in> set (pr_constraints p). lc_has p lc 0)"

definition grows :: "('s::field, 'p, 't) prover \<Rightarrow> ('s, 'p, 't) prover \<Rightarrow> bool" where
  "grows p p' \<longleftrightarrow> (\<forall>var. settled p var \<longrightarrow> settled p' var \<and> wire p' var = wire p var)"

lemma grows_has: "grows p p' \<Longrightarrow> has p var x \<Longrightarrow> has p' var x"
  by (auto simp: grows_def has_def)

lemma grows_lc_value: "grows p p' \<Longrightarrow> (\<forall>(var, _) \<in> set lc. settled p var) \<Longrightarrow> lc_value (wire p') lc = lc_value (wire p) lc"
  by (induction lc) (auto simp: grows_def)

lemma grows_lc_has: "grows p p' \<Longrightarrow> lc_has p lc x \<Longrightarrow> lc_has p' lc x"
  using grows_lc_value[of p p' lc] by (auto simp: lc_has_def grows_def)

lemma grows_refl: "grows p p"
  by (simp add: grows_def)

lemma grows_trans: "grows p p1 \<Longrightarrow> grows p1 p2 \<Longrightarrow> grows p p2"
  by (auto simp: grows_def)

text \<open>Values of linear combinations, as they are built.\<close>

lemma lc_has_one: "wire p ConstantOne = 1" "settled p ConstantOne"
  by (simp_all add: wire_def assignment_def settled_def)

lemma lc_has_from_variable: "has p var x \<Longrightarrow> lc_has p (lc_from_variable var) x"
  and lc_has_from_scalar: "lc_has p (lc_from_scalar s) s"
  and lc_has_default: "lc_has p lc_default 0"
  and lc_has_Nil: "lc_has p [] 0"
  and lc_has_add: "lc_has p lhs x \<Longrightarrow> lc_has p rhs y \<Longrightarrow> lc_has p (lc_add lhs rhs) (x + y)"
  and lc_has_sub: "lc_has p lhs x \<Longrightarrow> lc_has p rhs y \<Longrightarrow> lc_has p (lc_sub lhs rhs) (x - y)"
  and lc_has_neg: "lc_has p lhs x \<Longrightarrow> lc_has p (lc_neg lhs) (- x)"
  and lc_has_variable_mul: "has p var x \<Longrightarrow> lc_has p (variable_mul var s) (s * x)"
  and lc_has_variable_add: "has p var x \<Longrightarrow> lc_has p rhs y \<Longrightarrow> lc_has p (variable_add var rhs) (x + y)"
  and lc_has_variable_sub: "has p var x \<Longrightarrow> lc_has p rhs y \<Longrightarrow> lc_has p (variable_sub var rhs) (x - y)"
  by (auto simp: lc_has_def has_def lc_defs lc_has_one lc_value_neg lc_value_mul)

lemmas lc_has_rules = lc_has_from_variable lc_has_from_scalar lc_has_default lc_has_add lc_has_sub lc_has_neg
  lc_has_variable_mul lc_has_variable_add lc_has_variable_sub

lemma lc_has_eq: "lc_has p lc x \<Longrightarrow> x = y \<Longrightarrow> lc_has p lc y"
  by simp

lemma has_eq: "has p var x \<Longrightarrow> x = y \<Longrightarrow> has p var y"
  by simp

definition completes ::
  "('t, 'y) merlin_scheme \<Rightarrow> ('s::field, 'p, 'a, 'c, 'z) cycle_scheme \<Rightarrow> 's gadget \<Rightarrow> ('s, 'p, 't) prover \<Rightarrow> bool" where
  "completes M C gadget p \<longleftrightarrow> (\<exists>p'. run_prover M C gadget p = Inr p' \<and> good_prover p')"

lemma completes_Finish: "good_prover p \<Longrightarrow> completes M C (Finish (Inr ())) p"
  by (simp add: completes_def)

text \<open>Adding a gate or a constraint.\<close>

lemma push_multiplier_grows: "prover_ok p \<Longrightarrow> grows p (push_multiplier l r out p)"
  unfolding grows_def
proof (intro allI impI)
  fix var assume "prover_ok p" "settled p var"
  then show "settled (push_multiplier l r out p) var \<and> wire (push_multiplier l r out p) var = wire p var"
    by (cases var) (auto simp: settled_def wire_def assignment_def push_multiplier_def prover_ok_def gates_ok_def Let_def nth_append)
qed

lemma push_multiplier_good:
  assumes "good_prover p" "next_gate (pr_secrets p) = (lv, rv, ov)"
  shows "good_prover (push_multiplier l r (l * r) p)" "has (push_multiplier l r (l * r) p) lv l"
    "has (push_multiplier l r (l * r) p) rv r" "has (push_multiplier l r (l * r) p) ov (l * r)"
proof -
  let ?p = "push_multiplier l r (l * r) p"
  have ok: "prover_ok p" using assms(1) by (simp add: good_prover_def)
  then have "prover_ok ?p"
    by (auto simp: prover_ok_def gates_ok_def push_multiplier_def Let_def nth_append less_Suc_eq)
  moreover have "lc_has ?p lc 0" if "lc \<in> set (pr_constraints ?p)" for lc
    using that assms(1) grows_lc_has[OF push_multiplier_grows[OF ok]]
    by (simp add: good_prover_def push_multiplier_def Let_def)
  ultimately show "good_prover ?p" by (simp add: good_prover_def)
  show "has ?p lv l" "has ?p rv r" "has ?p ov (l * r)"
    using ok assms(2) by (auto simp: has_def settled_def wire_def assignment_def push_multiplier_def next_gate_def prover_ok_def
        gates_ok_def Let_def nth_append)
qed

lemma constrain_grows: "grows p (prover_constrain lc p)"
  by (auto simp: grows_def settled_def wire_def prover_constrain_def split: variable_kind.splits)

lemma constrain_good: "good_prover p \<Longrightarrow> lc_has p lc 0 \<Longrightarrow> good_prover (prover_constrain lc p)"
  using grows_lc_has[OF constrain_grows[of p lc]]
  by (auto simp: good_prover_def prover_constrain_def prover_ok_def)

lemma completes_Constrain:
  assumes "good_prover p" "lc_has p lc 0" "\<And>p'. good_prover p' \<Longrightarrow> grows p p' \<Longrightarrow> completes M C k p'"
  shows "completes M C (Constrain lc k) p"
  using assms(3)[OF constrain_good[OF assms(1,2)] constrain_grows] by (simp add: completes_def)

lemma completes_AllocateMultiplier:
  assumes "good_prover p" "assigned = Some (x, y)"
    and "\<And>p' l r out. good_prover p' \<Longrightarrow> grows p p' \<Longrightarrow> has p' l x \<Longrightarrow> has p' r y \<Longrightarrow> has p' out (x * y) \<Longrightarrow>
      completes M C (k (l, r, out)) p'"
  shows "completes M C (AllocateMultiplier assigned k) p"
proof -
  obtain lv rv ov where g: "next_gate (pr_secrets p) = (lv, rv, ov)" by (metis prod_cases3)
  have "grows p (push_multiplier x y (x * y) p)"
    using assms(1) push_multiplier_grows by (auto simp: good_prover_def)
  with assms(3)[OF push_multiplier_good(1)[OF assms(1) g] _ push_multiplier_good(2-4)[OF assms(1) g]] assms(2) g
  show ?thesis by (simp add: completes_def prover_allocate_multiplier_def)
qed

lemma completes_Multiply:
  assumes "good_prover p" "lc_has p left x" "lc_has p right y"
    and "\<And>p' l r out. good_prover p' \<Longrightarrow> grows p p' \<Longrightarrow> has p' l x \<Longrightarrow> has p' r y \<Longrightarrow> has p' out (x * y) \<Longrightarrow>
      completes M C (k (l, r, out)) p'"
  shows "completes M C (Multiply left right k) p"
proof -
  obtain lv rv ov where g: "next_gate (pr_secrets p) = (lv, rv, ov)" by (metis prod_cases3)
  have ev: "prover_eval p left = x" "prover_eval p right = y"
    using assms(2,3) by (simp_all add: lc_has_def prover_eval_value wire_def)
  let ?p1 = "push_multiplier x y (x * y) p"
  let ?lc1 = "left @ [(lv, - 1)]" and ?lc2 = "right @ [(rv, - 1)]"
  note new = push_multiplier_good[OF assms(1) g, where l = x and r = y]
  have grow1: "grows p ?p1" using assms(1) push_multiplier_grows by (auto simp: good_prover_def)
  have lcs: "lc_has ?p1 ?lc1 0" "lc_has ?p1 ?lc2 0"
    using new(2,3) grows_lc_has[OF grow1 assms(2)] grows_lc_has[OF grow1 assms(3)]
    by (auto simp: lc_has_def has_def)
  let ?p2 = "prover_constrain ?lc1 ?p1"
  have p2: "good_prover ?p2" "grows ?p1 ?p2" by (simp_all add: constrain_good new(1) lcs constrain_grows)
  let ?p3 = "prover_constrain ?lc2 ?p2"
  have p3: "good_prover ?p3" "grows ?p2 ?p3"
    using p2 grows_lc_has[OF p2(2) lcs(2)] by (simp_all add: constrain_good constrain_grows)
  have grow: "grows ?p1 ?p3" using p2 p3 grows_trans by blast
  have "completes M C (k (lv, rv, ov)) ?p3"
    by (rule assms(4)[OF p3(1) grows_trans[OF grow1 grow]]) (rule grows_has[OF grow] new)+
  then show ?thesis
    by (simp add: completes_def prover_multiply_def Let_def ev g)
qed

lemma completes_Allocate:
  assumes "good_prover p" "assigned = Some x"
    and "\<And>p' var. good_prover p' \<Longrightarrow> grows p p' \<Longrightarrow> has p' var x \<Longrightarrow> completes M C (k var) p'"
  shows "completes M C (Allocate assigned k) p"
proof -
  obtain var p' where call: "prover_allocate (Some x) p = Inr (var, p')"
    by (cases "prover_allocate (Some x) p") (auto simp: prover_allocate_def Let_def split: option.splits)
  have ok: "prover_ok p" using assms(1) by (simp add: good_prover_def)
  have ok': "prover_ok p'"
    using ok call by (auto simp: prover_allocate_def prover_ok_def gates_ok_def push_multiplier_def Let_def nth_append less_Suc_eq
        nth_list_update split: option.splits)
  have grow: "grows p p'"
    unfolding grows_def
  proof (intro allI impI)
    fix v assume "settled p v"
    then show "settled p' v \<and> wire p' v = wire p v"
      using ok call
      by (cases v) (auto simp: settled_def wire_def assignment_def prover_allocate_def prover_ok_def gates_ok_def push_multiplier_def
          Let_def nth_append nth_list_update split: option.splits)
  qed
  have new: "has p' var x"
    using ok call by (auto simp: has_def settled_def wire_def assignment_def prover_allocate_def prover_ok_def gates_ok_def
        push_multiplier_def Let_def nth_append split: option.splits)
  have "pr_constraints p' = pr_constraints p"
    using call by (auto simp: prover_allocate_def push_multiplier_def Let_def split: option.splits)
  then have "good_prover p'"
    using assms(1) ok' grows_lc_has[OF grow] by (auto simp: good_prover_def)
  with assms(3)[OF _ grow new] assms(2) call show ?thesis by (simp add: completes_def)
qed

text \<open>A good prover's circuit is satisfied.\<close>

lemma good_satisfied:
  assumes "good_prover p"
  shows "satisfied p"
  unfolding satisfied_def
proof (intro ballI conjI)
  fix lc assume "lc \<in> set (pr_constraints p)"
  then have lc: "lc_has p lc 0" using assms by (simp add: good_prover_def)
  then show "lc_in_range (length (secret_a_L (pr_secrets p))) (length (secret_v (pr_secrets p))) lc"
    by (fastforce simp: lc_in_range_def lc_has_def settled_def split: variable_kind.splits)
  show "prover_eval p lc = 0"
    using lc by (simp add: lc_has_def prover_eval_value wire_def)
qed

text \<open>The assignment of a good prover satisfies the verifier's circuit.\<close>

lemma good_holds:
  assumes "good_prover p" "cs_agree C p vf"
  shows "circuit_holds (wire p) vf"
  using assms by (auto simp: circuit_holds_def good_prover_def lc_has_def cs_agree_def prover_ok_def gates_ok_def lc_has_one)
    (simp_all add: wire_def assignment_def)

section \<open>Counting gates\<close>

text \<open>
  A part of a circuit returns on the verifier, with a fixed number of new gates; whether half of a gate is
  pending is as before. (Two allocations share a gate.)
\<close>

definition uses ::
  "('t, 'y) merlin_scheme \<Rightarrow> ('s::field, 'p, 'a, 'c, 'z) cycle_scheme \<Rightarrow> (('r \<Rightarrow> 's gadget) \<Rightarrow> 's gadget) \<Rightarrow> nat \<Rightarrow> ('r \<Rightarrow> bool) \<Rightarrow> bool" where
  "uses M C part n R \<longleftrightarrow> (\<forall>(vf :: ('s, 'c, 't) verifier). \<exists>r vf'. (\<forall>k. run_verifier M C (part k) vf = run_verifier M C (k r) vf')
     \<and> ve_num_vars vf' = ve_num_vars vf + n \<and> (ve_pending vf' = None \<longleftrightarrow> ve_pending vf = None) \<and> R r)"

lemma usesE:
  assumes "uses M C part n R"
  obtains r vf' where "\<And>k. run_verifier M C (part k) vf = run_verifier M C (k r) vf'" "ve_num_vars vf' = ve_num_vars vf + n"
    "ve_pending vf' = None \<longleftrightarrow> ve_pending vf = None" "R r"
  by (rule exE[OF spec[OF assms[unfolded uses_def]]], elim exE conjE, rule that, erule spec)

lemma uses_return: "R r \<Longrightarrow> uses M C (\<lambda>k. k r) 0 R"
  by (auto simp: uses_def)

lemma uses_seq:
  fixes M :: "('t, 'y) merlin_scheme" and C :: "('s::field, 'p, 'a, 'c, 'z) cycle_scheme"
  assumes "uses M C part1 n1 R1" "\<And>r. R1 r \<Longrightarrow> uses M C (part2 r) n2 R2" "n = n1 + n2"
  shows "uses M C (\<lambda>k. part1 (\<lambda>r. part2 r k)) n R2"
  unfolding uses_def
proof (intro allI)
  fix vf :: "('s, 'c, 't) verifier"
  obtain r1 vf1 where 1: "\<And>k. run_verifier M C (part1 k) vf = run_verifier M C (k r1) vf1" "ve_num_vars vf1 = ve_num_vars vf + n1"
    "ve_pending vf1 = None \<longleftrightarrow> ve_pending vf = None" "R1 r1"
    using usesE[OF assms(1)] by blast
  obtain r2 vf2 where 2: "\<And>k. run_verifier M C (part2 r1 k) vf1 = run_verifier M C (k r2) vf2" "ve_num_vars vf2 = ve_num_vars vf1 + n2"
    "ve_pending vf2 = None \<longleftrightarrow> ve_pending vf1 = None" "R2 r2"
    using usesE[OF assms(2)[OF 1(4)]] by blast
  show "\<exists>r vf'. (\<forall>k. run_verifier M C (part1 (\<lambda>r. part2 r k)) vf = run_verifier M C (k r) vf')
     \<and> ve_num_vars vf' = ve_num_vars vf + n \<and> (ve_pending vf' = None \<longleftrightarrow> ve_pending vf = None) \<and> R2 r"
    using 1 2 assms(3) by (intro exI[of _ r2] exI[of _ vf2]) simp
qed

lemma uses_Constrain:
  fixes M :: "('t, 'y) merlin_scheme" and C :: "('s::field, 'p, 'a, 'c, 'z) cycle_scheme"
  assumes "uses M C part n R"
  shows "uses M C (\<lambda>k. Constrain lc (part k)) n R"
  unfolding uses_def
proof (intro allI)
  fix vf :: "('s, 'c, 't) verifier"
  obtain r vf' where "\<And>k. run_verifier M C (part k) (verifier_constrain lc vf) = run_verifier M C (k r) vf'"
    "ve_num_vars vf' = ve_num_vars vf + n" "ve_pending vf' = None \<longleftrightarrow> ve_pending vf = None" "R r"
    using usesE[OF assms, of "verifier_constrain lc vf"] by (auto simp: verifier_constrain_def)
  then show "\<exists>r vf'. (\<forall>k. run_verifier M C (Constrain lc (part k)) vf = run_verifier M C (k r) vf')
     \<and> ve_num_vars vf' = ve_num_vars vf + n \<and> (ve_pending vf' = None \<longleftrightarrow> ve_pending vf = None) \<and> R r"
    by (intro exI[of _ r] exI[of _ vf']) simp
qed

lemma uses_Multiply:
  fixes M :: "('t, 'y) merlin_scheme" and C :: "('s::field, 'p, 'a, 'c, 'z) cycle_scheme"
  assumes "\<And>g. uses M C (part g) n R"
  shows "uses M C (\<lambda>k. Multiply left right (\<lambda>g. part g k)) (Suc n) R"
  unfolding uses_def
proof (intro allI)
  fix vf :: "('s, 'c, 't) verifier"
  obtain g vf1 where vf1: "verifier_multiply left right vf = (g, vf1)" by fastforce
  obtain r vf' where "\<And>k. run_verifier M C (part g k) vf1 = run_verifier M C (k r) vf'" "ve_num_vars vf' = ve_num_vars vf1 + n"
    "ve_pending vf' = None \<longleftrightarrow> ve_pending vf1 = None" "R r"
    using usesE[OF assms] by blast
  with vf1 show "\<exists>r vf'. (\<forall>k. run_verifier M C (Multiply left right (\<lambda>g. part g k)) vf = run_verifier M C (k r) vf')
     \<and> ve_num_vars vf' = ve_num_vars vf + Suc n \<and> (ve_pending vf' = None \<longleftrightarrow> ve_pending vf = None) \<and> R r"
    by (intro exI[of _ r] exI[of _ vf']) (auto simp: verifier_multiply_def verifier_constrain_def Let_def)
qed

lemma uses_AllocateMultiplier:
  fixes M :: "('t, 'y) merlin_scheme" and C :: "('s::field, 'p, 'a, 'c, 'z) cycle_scheme"
  assumes "\<And>g. uses M C (part g) n R"
  shows "uses M C (\<lambda>k. AllocateMultiplier assigned (\<lambda>g. part g k)) (Suc n) R"
  unfolding uses_def
proof (intro allI)
  fix vf :: "('s, 'c, 't) verifier"
  obtain g vf1 where vf1: "verifier_allocate_multiplier vf = (g, vf1)" by fastforce
  obtain r vf' where "\<And>k. run_verifier M C (part g k) vf1 = run_verifier M C (k r) vf'" "ve_num_vars vf' = ve_num_vars vf1 + n"
    "ve_pending vf' = None \<longleftrightarrow> ve_pending vf1 = None" "R r"
    using usesE[OF assms] by blast
  with vf1 show "\<exists>r vf'. (\<forall>k. run_verifier M C (AllocateMultiplier assigned (\<lambda>g. part g k)) vf = run_verifier M C (k r) vf')
     \<and> ve_num_vars vf' = ve_num_vars vf + Suc n \<and> (ve_pending vf' = None \<longleftrightarrow> ve_pending vf = None) \<and> R r"
    by (intro exI[of _ r] exI[of _ vf']) (auto simp: verifier_allocate_multiplier_def Let_def)
qed

text \<open>Two allocations are one gate.\<close>

lemma uses_Allocate2:
  fixes M :: "('t, 'y) merlin_scheme" and C :: "('s::field, 'p, 'a, 'c, 'z) cycle_scheme"
  assumes "\<And>v w. uses M C (part v w) n R"
  shows "uses M C (\<lambda>k. Allocate x (\<lambda>v. Allocate y (\<lambda>w. part v w k))) (Suc n) R"
  unfolding uses_def
proof (intro allI)
  fix vf :: "('s, 'c, 't) verifier"
  obtain v vf0 where vf0: "verifier_allocate vf = (v, vf0)" by fastforce
  obtain w vf1 where vf1: "verifier_allocate vf0 = (w, vf1)" by fastforce
  have n1: "ve_num_vars vf1 = Suc (ve_num_vars vf)" "ve_pending vf1 = None \<longleftrightarrow> ve_pending vf = None"
    using vf0 vf1 by (auto simp: verifier_allocate_def Let_def split: option.splits)
  obtain r vf' where "\<And>k. run_verifier M C (part v w k) vf1 = run_verifier M C (k r) vf'" "ve_num_vars vf' = ve_num_vars vf1 + n"
    "ve_pending vf' = None \<longleftrightarrow> ve_pending vf1 = None" "R r"
    using usesE[OF assms] by blast
  with vf0 vf1 n1 show "\<exists>r vf'. (\<forall>k. run_verifier M C (Allocate x (\<lambda>v. Allocate y (\<lambda>w. part v w k))) vf = run_verifier M C (k r) vf')
     \<and> ve_num_vars vf' = ve_num_vars vf + Suc n \<and> (ve_pending vf' = None \<longleftrightarrow> ve_pending vf = None) \<and> R r"
    by (intro exI[of _ r] exI[of _ vf']) auto
qed

lemma uses_weaken: "uses M C part n R \<Longrightarrow> (\<And>r. R r \<Longrightarrow> R' r) \<Longrightarrow> uses M C part n R'"
  by (fastforce simp: uses_def)

lemma uses_if:
  "(P \<Longrightarrow> uses M C part1 n R) \<Longrightarrow> (\<not> P \<Longrightarrow> uses M C part2 n R) \<Longrightarrow> uses M C (\<lambda>k. if P then part1 k else part2 k) n R"
  by (cases P) simp_all

lemma uses_eq: "uses M C part n R \<Longrightarrow> n = n' \<Longrightarrow> uses M C part n' R"
  by simp

text \<open>A list of variables and their values.\<close>

lemma grows_all2: "grows p p' \<Longrightarrow> list_all2 (has p) vs xs \<Longrightarrow> list_all2 (has p') vs xs"
  by (auto elim!: list_all2_mono intro: grows_has)

end
