(* ===== verification/Evrf_Bits.thy ===== *)
theory Evrf_Bits
  imports Circuit_Logic
begin

text \<open>
  The bit circuits of \<open>golden-evrf/src/paper.rs\<close>, module \<open>secp_secq\<close>: decomposing a variable into bits whose
  integer is below a modulus, and the conditional bound on bits. A part of a circuit that returns a value
  takes the rest of the circuit as a continuation.
\<close>

section \<open>Constants\<close>

definition K_BITS :: usize where "K_BITS = 256"

definition SECP256K1_BASE_MODULUS_LE :: bytes where
  "SECP256K1_BASE_MODULUS_LE =
     [0x2f, 0xfc, 0xff, 0xff, 0xfe, 0xff, 0xff, 0xff, 0xff, 0xff, 0xff, 0xff, 0xff, 0xff, 0xff, 0xff,
      0xff, 0xff, 0xff, 0xff, 0xff, 0xff, 0xff, 0xff, 0xff, 0xff, 0xff, 0xff, 0xff, 0xff, 0xff, 0xff]"

definition SECP256K1_SCALAR_MODULUS_LE :: bytes where
  "SECP256K1_SCALAR_MODULUS_LE =
     [0x41, 0x41, 0x36, 0xd0, 0x8c, 0x5e, 0xd2, 0xbf, 0x3b, 0xa0, 0x48, 0xaf, 0xe6, 0xdc, 0xae, 0xba,
      0xfe, 0xff, 0xff, 0xff, 0xff, 0xff, 0xff, 0xff, 0xff, 0xff, 0xff, 0xff, 0xff, 0xff, 0xff, 0xff]"

definition SECP256K1_P_MINUS_Q_LE :: bytes where
  "SECP256K1_P_MINUS_Q_LE =
     [0xee, 0xba, 0xc9, 0x2f, 0x72, 0xa1, 0x2d, 0x40, 0xc4, 0x5f, 0xb7, 0x50, 0x19, 0x23, 0x51, 0x45,
      0x01, 0x00, 0x00, 0x00, 0x00, 0x00, 0x00, 0x00, 0x00, 0x00, 0x00, 0x00, 0x00, 0x00, 0x00, 0x00]"

definition modulus_bit :: "bytes \<Rightarrow> usize \<Rightarrow> bool" where
  "modulus_bit modulus_le j =
     (let byte_idx = j div 8; bit_idx = j mod 8
      in byte_idx < length modulus_le \<and> drop_bit bit_idx (modulus_le ! byte_idx) AND 1 = 1)"

section \<open>Bit decomposition\<close>

text \<open>Both values of a pair, when both are known.\<close>

definition both :: "'a option \<Rightarrow> 'b option \<Rightarrow> ('a \<times> 'b) option" where
  "both x y = (case (x, y) of (Some a, Some b) \<Rightarrow> Some (a, b) | _ \<Rightarrow> None)"

text \<open>One gate per bit, with the running sum of the weighted bits.\<close>

primrec allocate_bits ::
  "'s::field option list \<Rightarrow> variable_kind list \<Rightarrow> 's linear_combination \<Rightarrow> 's
    \<Rightarrow> (variable_kind list \<times> 's linear_combination \<Rightarrow> 's gadget) \<Rightarrow> 's gadget" where
  "allocate_bits [] bit_vars k_lc coefficient k = k (bit_vars, k_lc)"
| "allocate_bits (b # bits) bit_vars k_lc coefficient k =
     AllocateMultiplier (map_option (\<lambda>b. (b, 1 - b)) b) (\<lambda>(left, right, out).
     Constrain (variable_sub right (lc_sub (lc_from_scalar 1) (lc_from_variable left)))
    (Constrain (lc_from_variable out)
    (allocate_bits bits (bit_vars @ [left]) (lc_add k_lc (variable_mul left coefficient)) (coefficient + coefficient) k)))"

text \<open>The scan from the most significant bit, over the remaining indices.\<close>

primrec range_scan ::
  "bytes \<Rightarrow> variable_kind list \<Rightarrow> 's::field option list \<Rightarrow> nat list \<Rightarrow> 's linear_combination \<Rightarrow> 's option
    \<Rightarrow> ('s linear_combination \<Rightarrow> 's gadget) \<Rightarrow> 's gadget" where
  "range_scan modulus_le bit_vars bit_assignments [] prefix_equal prefix_equal_assignment k = k prefix_equal"
| "range_scan modulus_le bit_vars bit_assignments (j # js) prefix_equal prefix_equal_assignment k =
     (let bit_assignment = bit_assignments ! j
      in AllocateMultiplier (both prefix_equal_assignment bit_assignment) (\<lambda>(left, right, out).
         Constrain (variable_sub left prefix_equal)
        (Constrain (variable_sub right (lc_from_variable (bit_vars ! j)))
        (let product_lc = lc_from_variable out
         in if modulus_bit modulus_le j
            then range_scan modulus_le bit_vars bit_assignments js product_lc
                   (map_option (\<lambda>(eq, b). eq * b) (both prefix_equal_assignment bit_assignment)) k
            else Constrain product_lc
                (range_scan modulus_le bit_vars bit_assignments js (lc_sub prefix_equal product_lc)
                   (map_option (\<lambda>(eq, b). eq * (1 - b)) (both prefix_equal_assignment bit_assignment)) k)))))"

definition bit_decompose_bounded ::
  "variable_kind \<Rightarrow> 's::field option list \<Rightarrow> bytes \<Rightarrow> (variable_kind list \<Rightarrow> 's gadget) \<Rightarrow> 's gadget" where
  "bit_decompose_bounded k_var bit_assignments modulus_le k =
     (if length bit_assignments \<noteq> K_BITS + 1 then Finish (Inl R1CSFormatError)
      else allocate_bits bit_assignments [] lc_default 1 (\<lambda>(bit_vars, k_lc).
        Constrain (lc_sub k_lc (lc_from_variable k_var))
       (range_scan modulus_le bit_vars bit_assignments (rev [0..<K_BITS + 1]) (lc_from_scalar 1) (Some 1) (\<lambda>prefix_equal.
        Constrain prefix_equal (k bit_vars)))))"

definition bit_decompose ::
  "variable_kind \<Rightarrow> 's::field option list \<Rightarrow> (variable_kind list \<Rightarrow> 's gadget) \<Rightarrow> 's gadget" where
  "bit_decompose k_var bit_assignments k = bit_decompose_bounded k_var bit_assignments SECP256K1_BASE_MODULUS_LE k"

definition bit_decompose_q ::
  "variable_kind \<Rightarrow> 's::field option list \<Rightarrow> (variable_kind list \<Rightarrow> 's gadget) \<Rightarrow> 's gadget" where
  "bit_decompose_q k_var bit_assignments k = bit_decompose_bounded k_var bit_assignments SECP256K1_SCALAR_MODULUS_LE k"

section \<open>The conditional bound\<close>

primrec bound_scan ::
  "bytes \<Rightarrow> variable_kind list \<Rightarrow> 's::field option list \<Rightarrow> 's linear_combination \<Rightarrow> nat list \<Rightarrow> 's linear_combination
    \<Rightarrow> 's option \<Rightarrow> ('s linear_combination \<Rightarrow> 's gadget) \<Rightarrow> 's gadget" where
  "bound_scan bound_le bit_vars bit_assignments condition_lc [] prefix_equal prefix_equal_assignment k = k prefix_equal"
| "bound_scan bound_le bit_vars bit_assignments condition_lc (j # js) prefix_equal prefix_equal_assignment k =
     (let bit_assignment = bit_assignments ! j
      in AllocateMultiplier (both prefix_equal_assignment bit_assignment) (\<lambda>(left, right, out).
         Constrain (variable_sub left prefix_equal)
        (Constrain (variable_sub right (lc_from_variable (bit_vars ! j)))
        (let product_lc = lc_from_variable out
         in if modulus_bit bound_le j
            then bound_scan bound_le bit_vars bit_assignments condition_lc js product_lc
                   (map_option (\<lambda>(eq, b). eq * b) (both prefix_equal_assignment bit_assignment)) k
            else Multiply condition_lc product_lc (\<lambda>(_, _, violation).
                 Constrain (lc_from_variable violation)
                (bound_scan bound_le bit_vars bit_assignments condition_lc js (lc_sub prefix_equal product_lc)
                   (map_option (\<lambda>(eq, b). eq * (1 - b)) (both prefix_equal_assignment bit_assignment)) k))))))"

definition lower_bits_start :: "bytes \<Rightarrow> usize" where
  "lower_bits_start bound_le =
     (case find (modulus_bit bound_le) (rev [0..<K_BITS + 1]) of Some msb \<Rightarrow> msb + 1 | None \<Rightarrow> 0)"

definition constrain_bits_lt_bound_when ::
  "variable_kind list \<Rightarrow> 's::field option list \<Rightarrow> bytes \<Rightarrow> variable_kind \<Rightarrow> 's gadget \<Rightarrow> 's gadget" where
  "constrain_bits_lt_bound_when bit_vars bit_assignments bound_le condition_var k =
     (if length bit_vars \<noteq> K_BITS + 1 \<or> length bit_assignments \<noteq> K_BITS + 1 then Finish (Inl R1CSFormatError)
      else
      let condition_lc = lc_from_variable condition_var;
          low = lower_bits_start bound_le;
          scan = bound_scan bound_le bit_vars bit_assignments condition_lc (rev [0..<low]) (lc_from_scalar 1) (Some 1)
            (\<lambda>prefix_equal. Multiply condition_lc prefix_equal (\<lambda>(_, _, equality_violation).
               Constrain (lc_from_variable equality_violation) k))
      in if low < length bit_vars
         then let high_sum = fold (\<lambda>b lc. lc_add lc (lc_from_variable b)) (drop low bit_vars) lc_default
              in Multiply condition_lc high_sum (\<lambda>(_, _, violation). Constrain (lc_from_variable violation) scan)
         else scan)"

section \<open>Bits and integers\<close>

text \<open>The integer of bits, least significant first, and of the bits of a modulus.\<close>

definition bits_int :: "bool list \<Rightarrow> nat" where
  "bits_int bs = horner_sum of_bool 2 bs"

lemma bits_int_simps [simp]: "bits_int [] = 0" "bits_int (b # bs) = of_bool b + 2 * bits_int bs"
  by (simp_all add: bits_int_def)

lemma bits_int_append: "bits_int (xs @ ys) = bits_int xs + 2 ^ length xs * bits_int ys"
  by (simp add: bits_int_def horner_sum_append)

lemma bits_int_less: "bits_int bs < 2 ^ length bs"
  by (induction bs) auto

lemma bits_int_zeros: "(\<forall>b \<in> set bs. \<not> b) \<Longrightarrow> bits_int bs = 0"
  by (induction bs) auto

lemma bits_int_zero_iff: "bits_int bs = 0 \<longleftrightarrow> (\<forall>b \<in> set bs. \<not> b)"
  by (induction bs) auto

definition modulus_int :: "bytes \<Rightarrow> nat" where
  "modulus_int modulus_le = bits_int (map (modulus_bit modulus_le) [0..<K_BITS + 1])"

text \<open>The scan compares the bits from the top with those of the modulus: less or equal so far, and the flag
  says equal.\<close>

definition scan_state :: "nat \<Rightarrow> nat \<Rightarrow> bool \<Rightarrow> bool" where
  "scan_state v m eq \<longleftrightarrow> v \<le> m \<and> eq = (v = m)"

definition top_int :: "nat \<Rightarrow> (nat \<Rightarrow> bool) \<Rightarrow> nat \<Rightarrow> nat" where
  "top_int n b j = bits_int (map b [j..<n])"

lemma top_int_step: "j < n \<Longrightarrow> top_int n b j = of_bool (b j) + 2 * top_int n b (Suc j)"
  by (simp add: top_int_def upt_rec[of j n])

lemma top_int_end: "top_int n b n = 0"
  by (simp add: top_int_def)

lemma scan_step_one:
  "scan_state v m eq \<Longrightarrow> scan_state (of_bool b + 2 * v) (1 + 2 * m) (eq \<and> b)"
  by (auto simp: scan_state_def split: if_splits)

lemma scan_step_zero:
  "scan_state v m eq \<Longrightarrow> \<not> (eq \<and> b) \<Longrightarrow> scan_state (of_bool b + 2 * v) (2 * m) eq"
  by (cases b) (auto simp: scan_state_def)

end
