(* ===== verification/Evrf_Bits_Laws.thy ===== *)
theory Evrf_Bits_Laws
  imports Evrf_Bits
begin

text \<open>
  The bit circuits are right: an assignment that satisfies the decomposition is the bits of an integer below
  the modulus that is the decomposed field element; the bits of such an integer satisfy it; and the number
  of gates.
\<close>

section \<open>Decomposition enforces bits\<close>

lemma of_bool_square:
  "x * (1 - x) = (0 :: 's::field) \<Longrightarrow> \<exists>b. x = of_bool b"
  by (metis mult_eq_0_iff of_bool_eq right_minus_eq)

lemma allocate_bits_enforces:
  assumes one: "env ConstantOne = 1"
    and "\<And>vs bs lc. length vs = length bits \<Longrightarrow> map env vs = map of_bool bs \<Longrightarrow>
      lc_value env lc = lc_value env k_lc + coefficient * of_nat (bits_int bs) \<Longrightarrow>
      enforces M C env (k (bit_vars @ vs, lc)) Q"
  shows "enforces M C env (allocate_bits bits bit_vars k_lc coefficient k) Q"
  using assms(2)
proof (induction bits arbitrary: bit_vars k_lc coefficient)
  case Nil
  from Nil[of "[]" "[]" k_lc] show ?case by simp
next
  case (Cons b0 bits)
  show ?case
    unfolding allocate_bits.simps
  proof (rule enforces_AllocateMultiplier, unfold prod.case, (rule enforces_Constrain)+)
    fix left right out
    assume gate: "env out = env left * env right"
      and r: "lc_value env (variable_sub right (lc_sub (lc_from_scalar 1) (lc_from_variable left))) = 0"
      and o: "lc_value env (lc_from_variable out) = 0"
    from r one have "env right = 1 - env left" by (simp add: lc_defs algebra_simps eq_neg_iff_add_eq_0)
    with o gate have "env left * (1 - env left) = 0" by (simp add: lc_defs)
    then obtain b where b: "env left = of_bool b" using of_bool_square by blast
    show "enforces M C env (allocate_bits bits (bit_vars @ [left]) (lc_add k_lc (variable_mul left coefficient))
        (coefficient + coefficient) k) Q"
    proof (rule Cons.IH)
      fix vs bs lc
      assume "length vs = length bits" "map env vs = map of_bool bs"
        "lc_value env lc = lc_value env (lc_add k_lc (variable_mul left coefficient)) + (coefficient + coefficient) * of_nat (bits_int bs)"
      with Cons.prems[of "left # vs" "b # bs" lc] b show "enforces M C env (k ((bit_vars @ [left]) @ vs, lc)) Q"
        by (simp add: lc_defs algebra_simps)
    qed
  qed
qed

lemma range_scan_enforces:
  assumes one: "env ConstantOne = 1" and bits: "\<And>j. j < N \<Longrightarrow> env (bit_vars ! j) = of_bool (b j)" and "n \<le> N"
    and "lc_value env prefix_equal = of_bool eq" "scan_state (top_int N b n) (top_int N (modulus_bit modulus_le) n) eq"
    and "\<And>lc eq. lc_value env lc = of_bool eq \<Longrightarrow> scan_state (top_int N b 0) (top_int N (modulus_bit modulus_le) 0) eq \<Longrightarrow>
      enforces M C env (k lc) Q"
  shows "enforces M C env (range_scan modulus_le bit_vars bit_assignments (rev [0..<n]) prefix_equal pa k) Q"
  using assms(3-5)
proof (induction n arbitrary: prefix_equal eq pa)
  case 0
  then show ?case using assms(6) by simp
next
  case (Suc n)
  have tops: "top_int N b n = of_bool (b n) + 2 * top_int N b (Suc n)"
    "top_int N (modulus_bit modulus_le) n = of_bool (modulus_bit modulus_le n) + 2 * top_int N (modulus_bit modulus_le) (Suc n)"
    using Suc.prems(1) by (simp_all add: top_int_step)
  have rev: "rev [0..<Suc n] = n # rev [0..<n]" by simp
  show ?case
    unfolding rev range_scan.simps Let_def
  proof (rule enforces_AllocateMultiplier, unfold prod.case, rule enforces_Constrain, rule enforces_Constrain)
    fix left right out
    assume gate: "env out = env left * env right"
      and l: "lc_value env (variable_sub left prefix_equal) = 0"
      and r: "lc_value env (variable_sub right (lc_from_variable (bit_vars ! n))) = 0"
    have out: "lc_value env (lc_from_variable out) = of_bool (eq \<and> b n)"
      using gate l r bits[of n] Suc.prems by (simp add: lc_defs lc_value_neg of_bool_conj)
    show "enforces M C env (if modulus_bit modulus_le n
        then range_scan modulus_le bit_vars bit_assignments (rev [0..<n]) (lc_from_variable out)
               (map_option (\<lambda>(eq, b). eq * b) (both pa (bit_assignments ! n))) k
        else Constrain (lc_from_variable out)
              (range_scan modulus_le bit_vars bit_assignments (rev [0..<n]) (lc_sub prefix_equal (lc_from_variable out))
               (map_option (\<lambda>(eq, b). eq * (1 - b)) (both pa (bit_assignments ! n))) k)) Q"
    proof (cases "modulus_bit modulus_le n")
      case True
      with Suc.IH[OF _ out] Suc.prems tops scan_step_one[of _ _ eq "b n"] show ?thesis by (simp add: add.commute)
    next
      case False
      have "enforces M C env (range_scan modulus_le bit_vars bit_assignments (rev [0..<n]) (lc_sub prefix_equal (lc_from_variable out))
               (map_option (\<lambda>(eq, b). eq * (1 - b)) (both pa (bit_assignments ! n))) k) Q"
        if "lc_value env (lc_from_variable out) = 0"
      proof (rule Suc.IH[where eq = eq])
        have ne: "\<not> (eq \<and> b n)" using that out by (simp split: if_splits)
        show "scan_state (top_int N b n) (top_int N (modulus_bit modulus_le) n) eq"
          using scan_step_zero[OF Suc.prems(3) ne] tops False by simp
        show "lc_value env (lc_sub prefix_equal (lc_from_variable out)) = of_bool eq"
          using that Suc.prems(2) by (simp add: lc_defs)
      qed (use Suc.prems in simp)
      then show ?thesis using False by (auto intro: enforces_Constrain)
    qed
  qed
qed

text \<open>The bits of a list by index.\<close>

lemma top_int_nth: "length bs = N \<Longrightarrow> top_int N ((!) bs) 0 = bits_int bs"
  using map_nth[of bs] by (simp only: top_int_def)

lemma modulus_top: "top_int (K_BITS + 1) (modulus_bit m) 0 = modulus_int m"
  by (simp add: top_int_def modulus_int_def)

lemma bit_decompose_bounded_enforces:
  assumes "\<And>vs bs. length vs = K_BITS + 1 \<Longrightarrow> map env vs = map of_bool bs \<Longrightarrow>
      bits_int bs < modulus_int modulus_le \<Longrightarrow> env k_var = of_nat (bits_int bs) \<Longrightarrow> enforces M C env (k vs) Q"
  shows "enforces M C env (bit_decompose_bounded k_var bit_assignments modulus_le k) Q"
proof (rule enforces_one)
  assume one: "env ConstantOne = 1"
  show ?thesis
  proof (cases "length bit_assignments = K_BITS + 1")
    case False
    then show ?thesis by (auto simp: bit_decompose_bounded_def intro: enforces_Finish)
  next
    case True
    show ?thesis
      unfolding bit_decompose_bounded_def if_not_P[OF iffD2[OF not_not True]]
    proof (rule allocate_bits_enforces[where env = env, OF one], unfold prod.case, rule enforces_Constrain)
      fix vs bs lc
      assume vs: "length vs = length bit_assignments" "map env vs = map of_bool bs"
        and lc: "lc_value env lc = lc_value env lc_default + 1 * of_nat (bits_int bs)"
          "lc_value env (lc_sub lc (lc_from_variable k_var)) = 0"
      have len: "length bs = K_BITS + 1" "length vs = K_BITS + 1" using vs True map_eq_imp_length_eq by force+
      have k: "env k_var = of_nat (bits_int bs)" using lc by (simp add: lc_defs)
      show "enforces M C env (range_scan modulus_le ([] @ vs) bit_assignments (rev [0..<K_BITS + 1]) (lc_from_scalar 1) (Some 1)
          (\<lambda>prefix_equal. Constrain prefix_equal (k ([] @ vs)))) Q"
      proof (rule range_scan_enforces[where env = env and N = "K_BITS + 1" and b = "(!) bs" and eq = True, OF one])
        show "env (([] @ vs) ! j) = of_bool (bs ! j)" if "j < K_BITS + 1" for j
          using that len arg_cong[OF vs(2), of "\<lambda>xs. xs ! j"] by simp
      next
        fix lc eq
        assume st: "lc_value env lc = of_bool eq"
          "scan_state (top_int (K_BITS + 1) ((!) bs) 0) (top_int (K_BITS + 1) (modulus_bit modulus_le) 0) eq"
        have "bits_int bs < modulus_int modulus_le" if "\<not> eq"
          using st(2) that top_int_nth[of bs, OF len(1)] by (auto simp: scan_state_def modulus_top[simplified])
        with st(1) show "enforces M C env (Constrain lc (k ([] @ vs))) Q"
          by (auto intro!: enforces_Constrain assms vs k len split: if_splits)
      qed (simp_all add: one lc_defs scan_state_def top_int_end)
    qed
  qed
qed


section \<open>The conditional bound\<close>

lemma high_sum_value:
  "lc_value env (fold (\<lambda>b lc. lc_add lc (lc_from_variable b)) vs lc) = lc_value env lc + (\<Sum>v\<leftarrow>vs. env v)"
  by (induction vs arbitrary: lc) (auto simp: lc_defs)

lemma sum_of_bools: "(\<Sum>b\<leftarrow>bs. of_bool b :: 's::field) = of_nat (length (filter id bs))"
  by (induction bs) auto

lemma bound_scan_enforces:
  assumes bits: "\<And>j. j < N \<Longrightarrow> env (bit_vars ! j) = of_bool (b j)" and "n \<le> N"
    and "lc_value env condition_lc = 1 \<Longrightarrow> \<exists>eq. lc_value env prefix_equal = of_bool eq
      \<and> scan_state (top_int N b n) (top_int N (modulus_bit bound_le) n) eq"
    and "\<And>lc. (lc_value env condition_lc = 1 \<Longrightarrow> \<exists>eq. lc_value env lc = of_bool eq
      \<and> scan_state (top_int N b 0) (top_int N (modulus_bit bound_le) 0) eq) \<Longrightarrow> enforces M C env (k lc) Q"
  shows "enforces M C env (bound_scan bound_le bit_vars bit_assignments condition_lc (rev [0..<n]) prefix_equal pa k) Q"
  using assms(2,3)
proof (induction n arbitrary: prefix_equal pa)
  case 0
  then show ?case using assms(4) by simp
next
  case (Suc n)
  have tops: "top_int N b n = of_bool (b n) + 2 * top_int N b (Suc n)"
    "top_int N (modulus_bit bound_le) n = of_bool (modulus_bit bound_le n) + 2 * top_int N (modulus_bit bound_le) (Suc n)"
    using Suc.prems(1) by (simp_all add: top_int_step)
  have rev: "rev [0..<Suc n] = n # rev [0..<n]" by simp
  show ?case
    unfolding rev bound_scan.simps Let_def
  proof (rule enforces_AllocateMultiplier, unfold prod.case, rule enforces_Constrain, rule enforces_Constrain)
    fix left right out
    assume gate: "env out = env left * env right"
      and l: "lc_value env (variable_sub left prefix_equal) = 0"
      and r: "lc_value env (variable_sub right (lc_from_variable (bit_vars ! n))) = 0"
    have out: "\<exists>eq. lc_value env prefix_equal = of_bool eq \<and> lc_value env (lc_from_variable out) = of_bool (eq \<and> b n)
        \<and> scan_state (top_int N b (Suc n)) (top_int N (modulus_bit bound_le) (Suc n)) eq"
      if c: "lc_value env condition_lc = 1"
    proof -
      obtain eq where eq: "lc_value env prefix_equal = of_bool eq"
        "scan_state (top_int N b (Suc n)) (top_int N (modulus_bit bound_le) (Suc n)) eq"
        using Suc.prems(2)[OF c] by blast
      then have "lc_value env (lc_from_variable out) = of_bool (eq \<and> b n)"
        using gate l r bits[of n] Suc.prems(1) by (simp add: lc_defs lc_value_neg of_bool_conj)
      with eq show ?thesis by blast
    qed
    show "enforces M C env (if modulus_bit bound_le n
        then bound_scan bound_le bit_vars bit_assignments condition_lc (rev [0..<n]) (lc_from_variable out)
               (map_option (\<lambda>(eq, b). eq * b) (both pa (bit_assignments ! n))) k
        else Multiply condition_lc (lc_from_variable out) (\<lambda>(_, _, violation). Constrain (lc_from_variable violation)
              (bound_scan bound_le bit_vars bit_assignments condition_lc (rev [0..<n]) (lc_sub prefix_equal (lc_from_variable out))
               (map_option (\<lambda>(eq, b). eq * (1 - b)) (both pa (bit_assignments ! n))) k))) Q"
    proof (cases "modulus_bit bound_le n")
      case True
      have "\<exists>eq. lc_value env (lc_from_variable out) = of_bool eq
          \<and> scan_state (top_int N b n) (top_int N (modulus_bit bound_le) n) eq" if c: "lc_value env condition_lc = 1"
        using out[OF c] scan_step_one[of _ _ _ "b n"] tops True by (auto simp: add.commute)
      with Suc.IH Suc.prems(1) True show ?thesis by simp
    next
      case False
      have "enforces M C env (bound_scan bound_le bit_vars bit_assignments condition_lc (rev [0..<n])
               (lc_sub prefix_equal (lc_from_variable out)) (map_option (\<lambda>(eq, b). eq * (1 - b)) (both pa (bit_assignments ! n))) k) Q"
        if "lc_value env condition_lc * lc_value env (lc_from_variable out) = 0"
      proof (rule Suc.IH)
        assume c: "lc_value env condition_lc = 1"
        with that have zero: "lc_value env (lc_from_variable out) = 0" by simp
        obtain eq where eq: "lc_value env prefix_equal = of_bool eq" "lc_value env (lc_from_variable out) = of_bool (eq \<and> b n)"
          "scan_state (top_int N b (Suc n)) (top_int N (modulus_bit bound_le) (Suc n)) eq"
          using out[OF c] by blast
        then have ne: "\<not> (eq \<and> b n)" using zero by (simp split: if_splits)
        have "lc_value env (lc_sub prefix_equal (lc_from_variable out)) = of_bool eq"
          using eq(1) zero by (simp add: lc_value_ops)
        moreover have "scan_state (top_int N b n) (top_int N (modulus_bit bound_le) n) eq"
          using scan_step_zero[OF eq(3) ne] tops False by simp
        ultimately show "\<exists>eq. lc_value env (lc_sub prefix_equal (lc_from_variable out)) = of_bool eq
            \<and> scan_state (top_int N b n) (top_int N (modulus_bit bound_le) n) eq"
          by blast
      qed (use Suc.prems in simp)
      then have "enforces M C env (Multiply condition_lc (lc_from_variable out) (\<lambda>(_, _, violation). Constrain (lc_from_variable violation)
          (bound_scan bound_le bit_vars bit_assignments condition_lc (rev [0..<n]) (lc_sub prefix_equal (lc_from_variable out))
            (map_option (\<lambda>(eq, b). eq * (1 - b)) (both pa (bit_assignments ! n))) k))) Q"
        by (intro enforces_Multiply, unfold prod.case, intro enforces_Constrain) (simp add: lc_value_ops)
      then show ?thesis using False by simp
    qed
  qed
qed

lemma find_rev_upt:
  "(case find P (rev [0..<n]) of Some msb \<Rightarrow> msb + 1 | None \<Rightarrow> 0) = l \<Longrightarrow> l \<le> n \<and> (\<forall>j. l \<le> j \<longrightarrow> j < n \<longrightarrow> \<not> P j)"
  by (induction n arbitrary: l) (auto simp: less_Suc_eq split: if_splits)

lemma lower_bits_start_bound:
  "lower_bits_start bound_le \<le> K_BITS + 1"
  "lower_bits_start bound_le \<le> j \<Longrightarrow> j < K_BITS + 1 \<Longrightarrow> \<not> modulus_bit bound_le j"
  using find_rev_upt[OF lower_bits_start_def[symmetric], of bound_le] by blast+

lemma modulus_int_low: "modulus_int bound_le = top_int (lower_bits_start bound_le) (modulus_bit bound_le) 0"
proof -
  let ?l = "lower_bits_start bound_le"
  have "[0..<K_BITS + 1] = [0..<?l] @ [?l..<K_BITS + 1]"
    using lower_bits_start_bound(1) by (metis le_Suc_ex upt_add_eq_append zero_le)
  then have "modulus_int bound_le = top_int ?l (modulus_bit bound_le) 0 + 2 ^ ?l * bits_int (map (modulus_bit bound_le) [?l..<K_BITS + 1])"
    by (simp add: modulus_int_def top_int_def bits_int_append)
  moreover have "bits_int (map (modulus_bit bound_le) [?l..<K_BITS + 1]) = 0"
    using lower_bits_start_bound(2) by (intro bits_int_zeros) auto
  ultimately show ?thesis by simp
qed

lemma bits_int_low:
  "l \<le> length bs \<Longrightarrow> bits_int bs = top_int l ((!) bs) 0 + 2 ^ l * bits_int (drop l bs)"
proof -
  assume l: "l \<le> length bs"
  then have "map ((!) bs) [0..<l] = take l bs" by (intro nth_equalityI) auto
  with l show ?thesis
    using bits_int_append[of "take l bs" "drop l bs"] by (simp add: top_int_def)
qed

lemma constrain_bits_lt_bound_when_enforces:
  assumes small: "\<And>n. 0 < n \<Longrightarrow> n \<le> K_BITS + 1 \<Longrightarrow> of_nat n \<noteq> (0 :: 's::field)"
    and vars: "map env bit_vars = map of_bool bs"
    and next_part: "(env condition_var = (1 :: 's) \<Longrightarrow> bits_int bs < modulus_int bound_le) \<Longrightarrow> enforces M C env k Q"
  shows "enforces M C env (constrain_bits_lt_bound_when bit_vars bit_assignments bound_le condition_var k) Q"
proof (rule enforces_one)
  assume one: "env ConstantOne = 1"
  let ?l = "lower_bits_start bound_le"
  show ?thesis
  proof (cases "length bit_vars \<noteq> K_BITS + 1 \<or> length bit_assignments \<noteq> K_BITS + 1")
    case True
    then show ?thesis by (auto simp: constrain_bits_lt_bound_when_def intro: enforces_Finish)
  next
    case False
    then have len: "length bit_vars = K_BITS + 1" "length bs = K_BITS + 1" using map_eq_imp_length_eq[OF vars] by auto
    have bits: "env (bit_vars ! j) = of_bool (bs ! j)" if "j < K_BITS + 1" for j
      using that len arg_cong[OF vars, of "\<lambda>xs. xs ! j"] by simp
    have scan: "enforces M C env (bound_scan bound_le bit_vars bit_assignments (lc_from_variable condition_var) (rev [0..<?l]) (lc_from_scalar 1) (Some 1)
        (\<lambda>prefix_equal. Multiply (lc_from_variable condition_var) prefix_equal (\<lambda>(_, _, equality_violation).
           Constrain (lc_from_variable equality_violation) k))) Q"
      if high: "env condition_var = 1 \<Longrightarrow> bits_int (drop ?l bs) = 0"
    proof (rule bound_scan_enforces[where env = env and N = ?l and b = "(!) bs"])
      show "env (bit_vars ! j) = of_bool (bs ! j)" if "j < ?l" for j
        using that lower_bits_start_bound(1)[of bound_le] by (intro bits) simp
    next
      fix lc
      assume st: "lc_value env (lc_from_variable condition_var) = 1 \<Longrightarrow> \<exists>eq. lc_value env lc = of_bool eq
        \<and> scan_state (top_int ?l ((!) bs) 0) (top_int ?l (modulus_bit bound_le) 0) eq"
      show "enforces M C env (Multiply (lc_from_variable condition_var) lc (\<lambda>(_, _, equality_violation).
           Constrain (lc_from_variable equality_violation) k)) Q"
      proof (rule enforces_Multiply, unfold prod.case, rule enforces_Constrain, rule next_part)
        fix l r out
        assume out: "env out = lc_value env (lc_from_variable condition_var) * lc_value env lc"
          and z: "lc_value env (lc_from_variable out) = 0" and c: "env condition_var = 1"
        then obtain eq where "lc_value env lc = of_bool eq" "scan_state (top_int ?l ((!) bs) 0) (top_int ?l (modulus_bit bound_le) 0) eq"
          using st by (auto simp: lc_defs)
        with out z c have "top_int ?l ((!) bs) 0 < top_int ?l (modulus_bit bound_le) 0"
          by (auto simp: lc_defs scan_state_def split: if_splits)
        then show "bits_int bs < modulus_int bound_le"
          using bits_int_low[of ?l bs] high[OF c] len lower_bits_start_bound(1)[of bound_le] by (simp add: modulus_int_low)
      qed
    qed (auto simp: one lc_defs scan_state_def top_int_end intro!: exI[of _ True])
    show ?thesis
    proof (cases "?l < length bit_vars")
      case False
      then have "drop ?l bs = []" using len by simp
      with scan False len \<open>\<not> (length bit_vars \<noteq> K_BITS + 1 \<or> length bit_assignments \<noteq> K_BITS + 1)\<close> show ?thesis
        by (simp add: constrain_bits_lt_bound_when_def Let_def)
    next
      case True
      have sum: "(\<Sum>v\<leftarrow>drop ?l bit_vars. env v) = of_nat (length (filter id (drop ?l bs)))"
        using arg_cong[OF vars, of "drop ?l"] sum_of_bools[of "drop ?l bs"] by (simp add: drop_map)
      have zero: "bits_int (drop ?l bs) = 0" if "(\<Sum>v\<leftarrow>drop ?l bit_vars. env v) = 0"
      proof -
        have "length (filter id (drop ?l bs)) \<le> K_BITS + 1"
          using length_filter_le[of id "drop ?l bs"] len by simp
        then have "length (filter id (drop ?l bs)) = 0" using small that sum by (metis not_gr_zero)
        then show ?thesis by (intro bits_int_zeros) (simp add: filter_empty_conv)
      qed
      have "enforces M C env (Multiply (lc_from_variable condition_var)
          (fold (\<lambda>b lc. lc_add lc (lc_from_variable b)) (drop ?l bit_vars) lc_default)
          (\<lambda>(_, _, violation). Constrain (lc_from_variable violation)
            (bound_scan bound_le bit_vars bit_assignments (lc_from_variable condition_var) (rev [0..<?l]) (lc_from_scalar 1) (Some 1)
              (\<lambda>prefix_equal. Multiply (lc_from_variable condition_var) prefix_equal (\<lambda>(_, _, equality_violation).
                 Constrain (lc_from_variable equality_violation) k))))) Q"
      proof (rule enforces_Multiply, unfold prod.case, rule enforces_Constrain, rule scan)
        fix l r out
        assume "env out = lc_value env (lc_from_variable condition_var)
            * lc_value env (fold (\<lambda>b lc. lc_add lc (lc_from_variable b)) (drop ?l bit_vars) lc_default)"
          and "lc_value env (lc_from_variable out) = 0" "env condition_var = 1"
        then show "bits_int (drop ?l bs) = 0" by (intro zero) (simp add: high_sum_value lc_value_ops)
      qed
      with True False show ?thesis by (simp add: constrain_bits_lt_bound_when_def Let_def)
    qed
  qed
qed

section \<open>The honest prover\<close>

lemma top_int_div: "j \<le> n \<Longrightarrow> top_int n b j = top_int n b 0 div 2 ^ j"
proof (induction j)
  case (Suc j)
  have "top_int n b j = of_bool (b j) + 2 * top_int n b (Suc j)" using Suc.prems by (simp add: top_int_step)
  then have "top_int n b (Suc j) = top_int n b j div 2" by simp
  with Suc show ?case by (simp add: div_mult2_eq[symmetric] mult.commute)
qed simp

lemma allocate_bits_completes:
  assumes "good_prover p" "lc_has p k_lc x"
    and "\<And>p' vs lc. good_prover p' \<Longrightarrow> grows p p' \<Longrightarrow> list_all2 (has p') vs (map of_bool bs) \<Longrightarrow>
      lc_has p' lc (x + coefficient * of_nat (bits_int bs)) \<Longrightarrow> completes M C (k (bit_vars @ vs, lc)) p'"
  shows "completes M C (allocate_bits (map (\<lambda>b. Some (of_bool b)) bs) bit_vars k_lc coefficient k) p"
  using assms
proof (induction bs arbitrary: p bit_vars k_lc coefficient x)
  case Nil
  from Nil(3)[OF Nil(1) grows_refl, of "[]" k_lc] Nil(2) show ?case by simp
next
  case (Cons b bs)
  show ?case
    unfolding allocate_bits.simps list.map
  proof (rule completes_AllocateMultiplier[OF Cons.prems(1)], simp, unfold prod.case)
    fix p1 left right out
    assume p1: "good_prover p1" "grows p p1" and gate: "has p1 left (of_bool b)" "has p1 right (1 - of_bool b)"
      "has p1 out (of_bool b * (1 - of_bool b))"
    show "completes M C (Constrain (variable_sub right (lc_sub (lc_from_scalar 1) (lc_from_variable left)))
       (Constrain (lc_from_variable out) (allocate_bits (map (\<lambda>b. Some (of_bool b)) bs) (bit_vars @ [left])
         (lc_add k_lc (variable_mul left coefficient)) (coefficient + coefficient) k))) p1"
    proof (rule completes_Constrain[OF p1(1)])
      show "lc_has p1 (variable_sub right (lc_sub (lc_from_scalar 1) (lc_from_variable left))) 0"
        by (rule lc_has_eq, (rule lc_has_rules gate)+) simp
      fix p2 assume p2: "good_prover p2" "grows p1 p2"
      show "completes M C (Constrain (lc_from_variable out) (allocate_bits (map (\<lambda>b. Some (of_bool b)) bs) (bit_vars @ [left])
         (lc_add k_lc (variable_mul left coefficient)) (coefficient + coefficient) k)) p2"
      proof (rule completes_Constrain[OF p2(1)])
        show "lc_has p2 (lc_from_variable out) 0"
          by (rule lc_has_eq, rule lc_has_from_variable, rule grows_has[OF p2(2) gate(3)]) simp
        fix p3 assume p3: "good_prover p3" "grows p2 p3"
        have g13: "grows p1 p3" and g03: "grows p p3" using p1 p2 p3 grows_trans by blast+
        show "completes M C (allocate_bits (map (\<lambda>b. Some (of_bool b)) bs) (bit_vars @ [left])
            (lc_add k_lc (variable_mul left coefficient)) (coefficient + coefficient) k) p3"
        proof (rule Cons.IH[OF p3(1)])
          show "lc_has p3 (lc_add k_lc (variable_mul left coefficient)) (x + coefficient * of_bool b)"
            by (intro lc_has_add lc_has_variable_mul grows_lc_has[OF g03 Cons.prems(2)] grows_has[OF g13 gate(1)])
          fix p4 vs lc
          assume p4: "good_prover p4" "grows p3 p4" "list_all2 (has p4) vs (map of_bool bs)"
            "lc_has p4 lc (x + coefficient * of_bool b + (coefficient + coefficient) * of_nat (bits_int bs))"
          have "completes M C (k (bit_vars @ left # vs, lc)) p4"
          proof (rule Cons.prems(3)[OF p4(1) grows_trans[OF g03 p4(2)]])
            show "list_all2 (has p4) (left # vs) (map of_bool (b # bs))"
              using p4(3) grows_has[OF grows_trans[OF g13 p4(2)] gate(1)] by simp
            show "lc_has p4 lc (x + coefficient * of_nat (bits_int (b # bs)))"
              by (rule lc_has_eq[OF p4(4)]) (simp add: algebra_simps)
          qed
          then show "completes M C (k ((bit_vars @ [left]) @ vs, lc)) p4" by simp
        qed
      qed
    qed
  qed
qed

lemma range_scan_completes:
  assumes "good_prover p" "list_all2 (has p) bit_vars (map of_bool bs)" "length bs = N" "n \<le> N"
    and "lc_has p prefix_equal (of_bool (top_int N ((!) bs) n = top_int N (modulus_bit modulus_le) n))"
    and "bits_int bs < top_int N (modulus_bit modulus_le) 0"
    and "\<And>p' lc. good_prover p' \<Longrightarrow> grows p p' \<Longrightarrow> lc_has p' lc 0 \<Longrightarrow> completes M C (k lc) p'"
  shows "completes M C (range_scan modulus_le bit_vars (map (\<lambda>b. Some (of_bool b)) bs) (rev [0..<n]) prefix_equal
      (Some (of_bool (top_int N ((!) bs) n = top_int N (modulus_bit modulus_le) n))) k) p"
  using assms
proof (induction n arbitrary: p prefix_equal)
  case 0
  have "top_int N ((!) bs) 0 \<noteq> top_int N (modulus_bit modulus_le) 0"
    using 0 top_int_nth[of bs N] by simp
  with 0(7)[OF 0(1) grows_refl, of prefix_equal] 0(5) show ?case by simp
next
  case (Suc n)
  let ?v = "top_int N ((!) bs)" and ?m = "top_int N (modulus_bit modulus_le)"
  let ?eq = "?v (Suc n) = ?m (Suc n)"
  have steps: "?v n = of_bool (bs ! n) + 2 * ?v (Suc n)" "?m n = of_bool (modulus_bit modulus_le n) + 2 * ?m (Suc n)"
    using Suc.prems(4) by (simp_all add: top_int_step)
  have "?v n \<le> ?m n" "?v (Suc n) \<le> ?m (Suc n)"
    using Suc.prems(3,4,6) top_int_nth[of bs N] top_int_div[of n N] top_int_div[of "Suc n" N] by (simp_all add: div_le_mono)
  with steps have one: "modulus_bit modulus_le n \<Longrightarrow> (?v n = ?m n) = (?eq \<and> bs ! n)"
    and zero: "\<not> modulus_bit modulus_le n \<Longrightarrow> \<not> (?eq \<and> bs ! n) \<and> (?v n = ?m n) = ?eq"
    by (cases "bs ! n"; simp; presburger)+
  have n: "n < length bs" "n < length bit_vars" using Suc.prems(2-4) by (simp_all add: list_all2_lengthD)
  then have "has p (bit_vars ! n) (of_bool (bs ! n))"
    using list_all2_nthD[OF Suc.prems(2), of n] by simp
  note n = n this
  have rev: "rev [0..<Suc n] = n # rev [0..<n]" by simp
  show ?case
    unfolding rev range_scan.simps Let_def
  proof (rule completes_AllocateMultiplier[OF Suc.prems(1)], use n in \<open>simp add: both_def\<close>, unfold prod.case)
    fix p1 left right out
    assume p1: "good_prover p1" "grows p p1" and gate: "has p1 left (of_bool ?eq)" "has p1 right (of_bool (bs ! n))"
      "has p1 out (of_bool ?eq * of_bool (bs ! n))"
    have pe: "lc_has p1 prefix_equal (of_bool ?eq)" using grows_lc_has[OF p1(2) Suc.prems(5)] .
    show "completes M C (Constrain (variable_sub left prefix_equal)
       (Constrain (variable_sub right (lc_from_variable (bit_vars ! n)))
       (if modulus_bit modulus_le n
        then range_scan modulus_le bit_vars (map (\<lambda>b. Some (of_bool b)) bs) (rev [0..<n]) (lc_from_variable out)
               (map_option (\<lambda>(eq, b). eq * b) (both (Some (of_bool ?eq)) (map (\<lambda>b. Some (of_bool b)) bs ! n))) k
        else Constrain (lc_from_variable out)
              (range_scan modulus_le bit_vars (map (\<lambda>b. Some (of_bool b)) bs) (rev [0..<n]) (lc_sub prefix_equal (lc_from_variable out))
               (map_option (\<lambda>(eq, b). eq * (1 - b)) (both (Some (of_bool ?eq)) (map (\<lambda>b. Some (of_bool b)) bs ! n))) k)))) p1"
    proof (rule completes_Constrain[OF p1(1)])
      show "lc_has p1 (variable_sub left prefix_equal) 0"
        by (rule lc_has_eq, rule lc_has_variable_sub[OF gate(1) pe]) simp
      fix p2 assume p2: "good_prover p2" "grows p1 p2"
      have g02: "grows p p2" using p1 p2 grows_trans by blast
      show "completes M C (Constrain (variable_sub right (lc_from_variable (bit_vars ! n)))
       (if modulus_bit modulus_le n
        then range_scan modulus_le bit_vars (map (\<lambda>b. Some (of_bool b)) bs) (rev [0..<n]) (lc_from_variable out)
               (map_option (\<lambda>(eq, b). eq * b) (both (Some (of_bool ?eq)) (map (\<lambda>b. Some (of_bool b)) bs ! n))) k
        else Constrain (lc_from_variable out)
              (range_scan modulus_le bit_vars (map (\<lambda>b. Some (of_bool b)) bs) (rev [0..<n]) (lc_sub prefix_equal (lc_from_variable out))
               (map_option (\<lambda>(eq, b). eq * (1 - b)) (both (Some (of_bool ?eq)) (map (\<lambda>b. Some (of_bool b)) bs ! n))) k))) p2"
      proof (rule completes_Constrain[OF p2(1)])
        show "lc_has p2 (variable_sub right (lc_from_variable (bit_vars ! n))) 0"
          by (rule lc_has_eq, rule lc_has_variable_sub[OF grows_has[OF p2(2) gate(2)] lc_has_from_variable[OF grows_has[OF g02 n(3)]]]) simp
        fix p3 assume p3: "good_prover p3" "grows p2 p3"
        have g13: "grows p1 p3" and g03: "grows p p3" using p2 p3 g02 grows_trans by blast+
        have out3: "lc_has p3 (lc_from_variable out) (of_bool ?eq * of_bool (bs ! n))"
          by (rule lc_has_from_variable[OF grows_has[OF g13 gate(3)]])
        note ih = Suc.IH[OF _ _ Suc.prems(3) _ _ Suc.prems(6)]
        show "completes M C (if modulus_bit modulus_le n
          then range_scan modulus_le bit_vars (map (\<lambda>b. Some (of_bool b)) bs) (rev [0..<n]) (lc_from_variable out)
               (map_option (\<lambda>(eq, b). eq * b) (both (Some (of_bool ?eq)) (map (\<lambda>b. Some (of_bool b)) bs ! n))) k
          else Constrain (lc_from_variable out)
              (range_scan modulus_le bit_vars (map (\<lambda>b. Some (of_bool b)) bs) (rev [0..<n]) (lc_sub prefix_equal (lc_from_variable out))
               (map_option (\<lambda>(eq, b). eq * (1 - b)) (both (Some (of_bool ?eq)) (map (\<lambda>b. Some (of_bool b)) bs ! n))) k)) p3"
        proof (cases "modulus_bit modulus_le n")
          case True
          have "completes M C (range_scan modulus_le bit_vars (map (\<lambda>b. Some (of_bool b)) bs) (rev [0..<n]) (lc_from_variable out)
              (Some (of_bool (?v n = ?m n))) k) p3"
          proof (rule ih[OF p3(1) grows_all2[OF g03 Suc.prems(2)]])
            show "lc_has p3 (lc_from_variable out) (of_bool (?v n = ?m n))"
              by (rule lc_has_eq[OF out3]) (simp add: one[OF True] of_bool_conj)
          qed (use Suc.prems(4,7) grows_trans[OF g03] in auto)
          then show ?thesis using True one n by (simp add: both_def of_bool_conj)
        next
          case False
          have "completes M C (range_scan modulus_le bit_vars (map (\<lambda>b. Some (of_bool b)) bs) (rev [0..<n])
              (lc_sub prefix_equal (lc_from_variable out)) (Some (of_bool (?v n = ?m n))) k) p4"
            if p4: "good_prover p4" "grows p3 p4" for p4
          proof (rule ih[OF p4(1) grows_all2[OF grows_trans[OF g03 p4(2)] Suc.prems(2)]])
            show "lc_has p4 (lc_sub prefix_equal (lc_from_variable out)) (of_bool (?v n = ?m n))"
              by (rule lc_has_eq, rule lc_has_sub[OF grows_lc_has[OF grows_trans[OF g13 p4(2)] pe] grows_lc_has[OF p4(2) out3]])
                (use zero[OF False] in auto)
          qed (use Suc.prems(4,7) grows_trans[OF grows_trans[OF g03 p4(2)]] in auto)
          moreover have "lc_has p3 (lc_from_variable out) 0"
            by (rule lc_has_eq[OF out3]) (use zero[OF False] in auto)
          moreover have "of_bool ?eq * (1 - of_bool (bs ! n)) = (of_bool (?v n = ?m n) :: 'a)"
            using zero[OF False] by auto
          ultimately show ?thesis using False n by (auto simp: both_def intro: completes_Constrain[OF p3(1)])
        qed
      qed
    qed
  qed
qed

lemma bit_decompose_bounded_completes:
  assumes "good_prover p" "has p k_var (of_nat (bits_int bs))" "length bs = K_BITS + 1" "bits_int bs < modulus_int modulus_le"
    and "\<And>p' vs. good_prover p' \<Longrightarrow> grows p p' \<Longrightarrow> list_all2 (has p') vs (map of_bool bs) \<Longrightarrow> completes M C (k vs) p'"
  shows "completes M C (bit_decompose_bounded k_var (map (\<lambda>b. Some (of_bool b)) bs) modulus_le k) p"
proof -
  have len: "\<not> length (map (\<lambda>b. Some (of_bool b :: 'a)) bs) \<noteq> K_BITS + 1" using assms(3) by simp
  show ?thesis
    unfolding bit_decompose_bounded_def if_not_P[OF len]
  proof (rule allocate_bits_completes[OF assms(1) lc_has_default], unfold prod.case)
    fix p1 vs lc
    assume p1: "good_prover p1" "grows p p1" "list_all2 (has p1) vs (map of_bool bs)" "lc_has p1 lc (0 + 1 * of_nat (bits_int bs))"
    show "completes M C (Constrain (lc_sub lc (lc_from_variable k_var))
       (range_scan modulus_le ([] @ vs) (map (\<lambda>b. Some (of_bool b)) bs) (rev [0..<K_BITS + 1]) (lc_from_scalar 1) (Some 1)
         (\<lambda>prefix_equal. Constrain prefix_equal (k ([] @ vs))))) p1"
    proof (rule completes_Constrain[OF p1(1)])
      show "lc_has p1 (lc_sub lc (lc_from_variable k_var)) 0"
        by (rule lc_has_eq, rule lc_has_sub[OF p1(4) lc_has_from_variable[OF grows_has[OF p1(2) assms(2)]]]) simp
      fix p2 assume p2: "good_prover p2" "grows p1 p2"
      have scan: "completes M C (range_scan modulus_le vs (map (\<lambda>b. Some (of_bool b)) bs) (rev [0..<K_BITS + 1]) (lc_from_scalar 1)
         (Some (of_bool (top_int (K_BITS + 1) ((!) bs) (K_BITS + 1) = top_int (K_BITS + 1) (modulus_bit modulus_le) (K_BITS + 1))))
         (\<lambda>prefix_equal. Constrain prefix_equal (k vs))) p2"
      proof (rule range_scan_completes[OF p2(1) grows_all2[OF p2(2) p1(3)] assms(3)])
        show "lc_has p2 (lc_from_scalar 1) (of_bool (top_int (K_BITS + 1) ((!) bs) (K_BITS + 1) = top_int (K_BITS + 1) (modulus_bit modulus_le) (K_BITS + 1)))"
          by (rule lc_has_eq, rule lc_has_from_scalar) (simp add: top_int_end)
        show "bits_int bs < top_int (K_BITS + 1) (modulus_bit modulus_le) 0" using assms(4) by (simp add: modulus_top[simplified])
        fix p3 lc assume p3: "good_prover p3" "grows p2 p3" "lc_has p3 lc 0"
        show "completes M C (Constrain lc (k vs)) p3"
        proof (rule completes_Constrain[OF p3(1,3)])
          fix p4 assume p4: "good_prover p4" "grows p3 p4"
          have "grows p1 p4" using p2 p3 p4 grows_trans by blast
          then show "completes M C (k vs) p4"
            by (intro assms(5)[OF p4(1)] grows_trans[OF p1(2)] grows_all2[OF _ p1(3)])
        qed
      qed simp
      then show "completes M C (range_scan modulus_le ([] @ vs) (map (\<lambda>b. Some (of_bool b)) bs) (rev [0..<K_BITS + 1]) (lc_from_scalar 1)
         (Some 1) (\<lambda>prefix_equal. Constrain prefix_equal (k ([] @ vs)))) p2"
        by (simp add: top_int_end)
    qed
  qed
qed

lemma bound_scan_completes:
  assumes "good_prover p" "list_all2 (has p) bit_vars (map of_bool bs)" "n \<le> N" "N \<le> length bs" "lc_has p condition_lc (of_bool cond)"
    and "lc_has p prefix_equal (of_bool (top_int N ((!) bs) n = top_int N (modulus_bit bound_le) n))"
    and "cond \<Longrightarrow> top_int N ((!) bs) 0 < top_int N (modulus_bit bound_le) 0"
    and "\<And>p' lc. good_prover p' \<Longrightarrow> grows p p' \<Longrightarrow>
      lc_has p' lc (of_bool (top_int N ((!) bs) 0 = top_int N (modulus_bit bound_le) 0)) \<Longrightarrow> completes M C (k lc) p'"
  shows "completes M C (bound_scan bound_le bit_vars (map (\<lambda>b. Some (of_bool b)) bs) condition_lc (rev [0..<n]) prefix_equal
      (Some (of_bool (top_int N ((!) bs) n = top_int N (modulus_bit bound_le) n))) k) p"
  using assms
proof (induction n arbitrary: p prefix_equal)
  case 0
  with 0(8)[OF 0(1) grows_refl, of prefix_equal] show ?case by simp
next
  case (Suc n)
  let ?v = "top_int N ((!) bs)" and ?m = "top_int N (modulus_bit bound_le)"
  let ?eq = "?v (Suc n) = ?m (Suc n)"
  have steps: "?v n = of_bool (bs ! n) + 2 * ?v (Suc n)" "?m n = of_bool (modulus_bit bound_le n) + 2 * ?m (Suc n)"
    using Suc.prems(3) by (simp_all add: top_int_step)
  have both_eq: "(?v n = ?m n) = (?eq \<and> bs ! n = modulus_bit bound_le n)"
    using steps by (cases "bs ! n"; cases "modulus_bit bound_le n"; simp; presburger)
  have ok: "\<not> (?eq \<and> bs ! n)" if "cond" "\<not> modulus_bit bound_le n"
  proof -
    have "?v n \<le> ?m n"
      using Suc.prems(3,7) that(1) top_int_div[of n N] by (simp add: div_le_mono)
    then show ?thesis using steps that(2) by auto
  qed
  have n: "n < length bs" "n < length bit_vars" using Suc.prems(2-4) by (simp_all add: list_all2_lengthD)
  then have "has p (bit_vars ! n) (of_bool (bs ! n))"
    using list_all2_nthD[OF Suc.prems(2), of n] by simp
  note n = n this
  have rev: "rev [0..<Suc n] = n # rev [0..<n]" by simp
  let ?rest = "\<lambda>out. if modulus_bit bound_le n
        then bound_scan bound_le bit_vars (map (\<lambda>b. Some (of_bool b)) bs) condition_lc (rev [0..<n]) (lc_from_variable out)
               (map_option (\<lambda>(eq, b). eq * b) (both (Some (of_bool ?eq)) (map (\<lambda>b. Some (of_bool b)) bs ! n))) k
        else Multiply condition_lc (lc_from_variable out) (\<lambda>(_, _, violation). Constrain (lc_from_variable violation)
              (bound_scan bound_le bit_vars (map (\<lambda>b. Some (of_bool b)) bs) condition_lc (rev [0..<n]) (lc_sub prefix_equal (lc_from_variable out))
               (map_option (\<lambda>(eq, b). eq * (1 - b)) (both (Some (of_bool ?eq)) (map (\<lambda>b. Some (of_bool b)) bs ! n))) k))"
  show ?case
    unfolding rev bound_scan.simps Let_def
  proof (rule completes_AllocateMultiplier[OF Suc.prems(1)], use n in \<open>simp add: both_def\<close>, unfold prod.case)
    fix p1 left right out
    assume p1: "good_prover p1" "grows p p1" and gate: "has p1 left (of_bool ?eq)" "has p1 right (of_bool (bs ! n))"
      "has p1 out (of_bool ?eq * of_bool (bs ! n))"
    have pe: "lc_has p1 prefix_equal (of_bool ?eq)" using grows_lc_has[OF p1(2) Suc.prems(6)] .
    show "completes M C (Constrain (variable_sub left prefix_equal)
       (Constrain (variable_sub right (lc_from_variable (bit_vars ! n))) (?rest out))) p1"
    proof (rule completes_Constrain[OF p1(1)])
      show "lc_has p1 (variable_sub left prefix_equal) 0"
        by (rule lc_has_eq, rule lc_has_variable_sub[OF gate(1) pe]) simp
      fix p2 assume p2: "good_prover p2" "grows p1 p2"
      have g02: "grows p p2" using p1 p2 grows_trans by blast
      show "completes M C (Constrain (variable_sub right (lc_from_variable (bit_vars ! n))) (?rest out)) p2"
      proof (rule completes_Constrain[OF p2(1)])
        show "lc_has p2 (variable_sub right (lc_from_variable (bit_vars ! n))) 0"
          by (rule lc_has_eq, rule lc_has_variable_sub[OF grows_has[OF p2(2) gate(2)] lc_has_from_variable[OF grows_has[OF g02 n(3)]]]) simp
        fix p3 assume p3: "good_prover p3" "grows p2 p3"
        have g13: "grows p1 p3" and g03: "grows p p3" using p2 p3 g02 grows_trans by blast+
        have out3: "lc_has p3 (lc_from_variable out) (of_bool ?eq * of_bool (bs ! n))"
          by (rule lc_has_from_variable[OF grows_has[OF g13 gate(3)]])
        have ih: "completes M C (bound_scan bound_le bit_vars (map (\<lambda>b. Some (of_bool b)) bs) condition_lc (rev [0..<n]) lc
            (Some (of_bool (?v n = ?m n))) k) p4"
          if "good_prover p4" "grows p p4" "lc_has p4 lc (of_bool (?v n = ?m n))" for p4 lc
          by (rule Suc.IH[OF that(1) grows_all2[OF that(2) Suc.prems(2)] _ Suc.prems(4) grows_lc_has[OF that(2) Suc.prems(5)] that(3) Suc.prems(7)])
            (use Suc.prems(3,8) grows_trans[OF that(2)] in auto)
        show "completes M C (?rest out) p3"
        proof (cases "modulus_bit bound_le n")
          case True
          have "completes M C (bound_scan bound_le bit_vars (map (\<lambda>b. Some (of_bool b)) bs) condition_lc (rev [0..<n]) (lc_from_variable out)
              (Some (of_bool (?v n = ?m n))) k) p3"
            by (rule ih[OF p3(1) g03]) (rule lc_has_eq[OF out3], simp add: both_eq True of_bool_conj)
          then show ?thesis using True both_eq n by (simp add: both_def of_bool_conj)
        next
          case False
          have val: "of_bool ?eq * (1 - of_bool (bs ! n)) = (of_bool (?v n = ?m n) :: 'a)"
            using both_eq False by (auto simp: of_bool_conj)
          have "completes M C (Multiply condition_lc (lc_from_variable out) (\<lambda>(_, _, violation). Constrain (lc_from_variable violation)
              (bound_scan bound_le bit_vars (map (\<lambda>b. Some (of_bool b)) bs) condition_lc (rev [0..<n]) (lc_sub prefix_equal (lc_from_variable out))
               (Some (of_bool (?v n = ?m n))) k))) p3"
          proof (rule completes_Multiply[OF p3(1) grows_lc_has[OF g03 Suc.prems(5)] out3], unfold prod.case)
            fix p4 l r violation
            assume p4: "good_prover p4" "grows p3 p4" "has p4 violation (of_bool cond * (of_bool ?eq * of_bool (bs ! n)))"
            show "completes M C (Constrain (lc_from_variable violation) (bound_scan bound_le bit_vars (map (\<lambda>b. Some (of_bool b)) bs) condition_lc (rev [0..<n])
               (lc_sub prefix_equal (lc_from_variable out)) (Some (of_bool (?v n = ?m n))) k)) p4"
            proof (rule completes_Constrain[OF p4(1)])
              show "lc_has p4 (lc_from_variable violation) 0"
                by (rule lc_has_eq, rule lc_has_from_variable[OF p4(3)]) (use ok False in auto)
              fix p5 assume p5: "good_prover p5" "grows p4 p5"
              have g35: "grows p3 p5" using p4 p5 grows_trans by blast
              show "completes M C (bound_scan bound_le bit_vars (map (\<lambda>b. Some (of_bool b)) bs) condition_lc (rev [0..<n])
                 (lc_sub prefix_equal (lc_from_variable out)) (Some (of_bool (?v n = ?m n))) k) p5"
              proof (rule ih[OF p5(1) grows_trans[OF g03 g35]])
                show "lc_has p5 (lc_sub prefix_equal (lc_from_variable out)) (of_bool (?v n = ?m n))"
                  by (rule lc_has_eq, rule lc_has_sub[OF grows_lc_has[OF grows_trans[OF g13 g35] pe] grows_lc_has[OF g35 out3]])
                    (simp add: val[symmetric] algebra_simps)
              qed
            qed
          qed
          then show ?thesis using False n val by (simp add: both_def)
        qed
      qed
    qed
  qed
qed

lemma high_sum_has:
  "list_all2 (has p) vs xs \<Longrightarrow> lc_has p lc x \<Longrightarrow> lc_has p (fold (\<lambda>b lc. lc_add lc (lc_from_variable b)) vs lc) (x + sum_list xs)"
proof (induction vs xs arbitrary: lc x rule: list_all2_induct)
  case (Cons v vs y ys)
  have "lc_has p (lc_add lc (lc_from_variable v)) (x + y)"
    using Cons.prems Cons.hyps(1) by (intro lc_has_add lc_has_from_variable)
  from Cons.IH[OF this] show ?case by (simp add: add.assoc)
qed simp

lemma constrain_bits_lt_bound_when_completes:
  assumes "good_prover p" "list_all2 (has p) bit_vars (map of_bool bs)" "length bs = K_BITS + 1" "has p condition_var (of_bool cond)"
    and bound: "cond \<Longrightarrow> bits_int bs < modulus_int bound_le"
    and "\<And>p'. good_prover p' \<Longrightarrow> grows p p' \<Longrightarrow> completes M C k p'"
  shows "completes M C (constrain_bits_lt_bound_when bit_vars (map (\<lambda>b. Some (of_bool b)) bs) bound_le condition_var k) p"
proof -
  let ?l = "lower_bits_start bound_le"
  let ?scan = "bound_scan bound_le bit_vars (map (\<lambda>b. Some (of_bool b)) bs) (lc_from_variable condition_var) (rev [0..<?l])
    (lc_from_scalar 1) (Some 1) (\<lambda>prefix_equal. Multiply (lc_from_variable condition_var) prefix_equal (\<lambda>(_, _, equality_violation).
           Constrain (lc_from_variable equality_violation) k))"
  have len: "length bit_vars = K_BITS + 1" using assms(2,3) by (simp add: list_all2_lengthD)
  have l: "?l \<le> length bs" using assms(3) lower_bits_start_bound(1)[of bound_le] by simp
  note low = bits_int_low[OF l]
  have small: "top_int ?l ((!) bs) 0 < top_int ?l (modulus_bit bound_le) 0" if cond
    using bound[OF that] low by (simp add: modulus_int_low)
  have high: "\<forall>b \<in> set (drop ?l bs). \<not> b" if cond
  proof -
    have "modulus_int bound_le < 2 ^ ?l"
      using bits_int_less[of "map (modulus_bit bound_le) [0..<?l]"] by (simp add: modulus_int_low top_int_def)
    then have "bits_int (drop ?l bs) = 0"
      using bound[OF that] low by (cases "bits_int (drop ?l bs)") auto
    then show ?thesis by (simp add: bits_int_zero_iff)
  qed
  have scan: "completes M C ?scan p1" if p1: "good_prover p1" "grows p p1" for p1
  proof -
    let ?eq = "\<lambda>j. top_int ?l ((!) bs) j = top_int ?l (modulus_bit bound_le) j"
    have "completes M C (bound_scan bound_le bit_vars (map (\<lambda>b. Some (of_bool b)) bs) (lc_from_variable condition_var) (rev [0..<?l])
        (lc_from_scalar 1) (Some (of_bool (?eq ?l))) (\<lambda>prefix_equal. Multiply (lc_from_variable condition_var) prefix_equal
          (\<lambda>(_, _, equality_violation). Constrain (lc_from_variable equality_violation) k))) p1"
    proof (rule bound_scan_completes[OF p1(1) grows_all2[OF p1(2) assms(2)] order_refl l lc_has_from_variable[OF grows_has[OF p1(2) assms(4)]] _ small])
      show "lc_has p1 (lc_from_scalar 1) (of_bool (?eq ?l))"
        by (rule lc_has_eq, rule lc_has_from_scalar) (simp add: top_int_end)
      fix p2 lc assume p2: "good_prover p2" "grows p1 p2" "lc_has p2 lc (of_bool (?eq 0))"
      have g02: "grows p p2" using p1 p2 grows_trans by blast
      show "completes M C (Multiply (lc_from_variable condition_var) lc
          (\<lambda>(_, _, equality_violation). Constrain (lc_from_variable equality_violation) k)) p2"
      proof (rule completes_Multiply[OF p2(1) lc_has_from_variable[OF grows_has[OF g02 assms(4)]] p2(3)], unfold prod.case)
        fix p3 l r v
        assume p3: "good_prover p3" "grows p2 p3" "has p3 v (of_bool cond * of_bool (?eq 0))"
        show "completes M C (Constrain (lc_from_variable v) k) p3"
        proof (rule completes_Constrain[OF p3(1)])
          show "lc_has p3 (lc_from_variable v) 0"
            by (rule lc_has_eq, rule lc_has_from_variable[OF p3(3)]) (use small in auto)
          fix p4 assume "good_prover p4" "grows p3 p4"
          then show "completes M C k p4" using assms(6) grows_trans g02 p3(2) by blast
        qed
      qed
    qed
    then show ?thesis by (simp add: top_int_end)
  qed
  show ?thesis
  proof (cases "?l < length bit_vars")
    case False
    then show ?thesis using scan[OF assms(1) grows_refl] len assms(3) by (simp add: constrain_bits_lt_bound_when_def Let_def)
  next
    case True
    let ?high = "fold (\<lambda>b lc. lc_add lc (lc_from_variable b)) (drop ?l bit_vars) lc_default"
    have "lc_has p ?high (0 + sum_list (map of_bool (drop ?l bs)))"
      using list_all2_dropI[OF assms(2), of ?l] by (intro high_sum_has lc_has_default) (simp add: drop_map)
    then have sum: "lc_has p ?high (sum_list (map of_bool (drop ?l bs)))" by simp
    have zero: "of_bool cond * sum_list (map of_bool (drop ?l bs)) = (0 :: 'a)"
      using high by (auto simp: sum_of_bools filter_empty_conv)
    have "completes M C (Multiply (lc_from_variable condition_var) ?high (\<lambda>(_, _, violation).
        Constrain (lc_from_variable violation) ?scan)) p"
    proof (rule completes_Multiply[OF assms(1) lc_has_from_variable[OF assms(4)] sum], unfold prod.case)
      fix p1 l r v
      assume p1: "good_prover p1" "grows p p1" "has p1 v (of_bool cond * sum_list (map of_bool (drop ?l bs)))"
      show "completes M C (Constrain (lc_from_variable v) ?scan) p1"
      proof (rule completes_Constrain[OF p1(1)])
        show "lc_has p1 (lc_from_variable v) 0"
          by (rule lc_has_eq, rule lc_has_from_variable[OF p1(3)]) (rule zero)
        fix p2 assume "good_prover p2" "grows p1 p2"
        then show "completes M C ?scan p2" using scan grows_trans p1(2) by blast
      qed
    qed
    then show ?thesis using True len assms(3) by (simp add: constrain_bits_lt_bound_when_def Let_def)
  qed
qed

section \<open>The number of gates\<close>

lemma allocate_bits_uses:
  "uses M C (allocate_bits bits bit_vars k_lc coefficient) (length bits) (\<lambda>(vs, lc). length vs = length bit_vars + length bits)"
proof (induction bits arbitrary: bit_vars k_lc coefficient)
  case Nil
  then show ?case by (simp add: uses_return)
next
  case (Cons b bits)
  have "uses M C (\<lambda>k. AllocateMultiplier (map_option (\<lambda>b. (b, 1 - b)) b) (\<lambda>g. case g of (left, right, out) \<Rightarrow>
     Constrain (variable_sub right (lc_sub (lc_from_scalar 1) (lc_from_variable left)))
    (Constrain (lc_from_variable out)
    (allocate_bits bits (bit_vars @ [left]) (lc_add k_lc (variable_mul left coefficient)) (coefficient + coefficient) k))))
    (Suc (length bits)) (\<lambda>(vs, lc). length vs = length bit_vars + length (b # bits))"
  proof (rule uses_AllocateMultiplier)
    fix g :: gate
    obtain left right out where g: "g = (left, right, out)" by (metis prod_cases3)
    show "uses M C (\<lambda>k. case g of (left, right, out) \<Rightarrow>
         Constrain (variable_sub right (lc_sub (lc_from_scalar 1) (lc_from_variable left)))
        (Constrain (lc_from_variable out)
        (allocate_bits bits (bit_vars @ [left]) (lc_add k_lc (variable_mul left coefficient)) (coefficient + coefficient) k)))
        (length bits) (\<lambda>(vs, lc). length vs = length bit_vars + length (b # bits))"
      unfolding g prod.case
      by (intro uses_Constrain uses_weaken[OF Cons[of "bit_vars @ [left]"]]) auto
  qed
  then show ?case by simp
qed

lemma range_scan_uses:
  "uses M C (range_scan modulus_le bit_vars bit_assignments js prefix_equal pa) (length js) (\<lambda>_. True)"
proof (induction js arbitrary: prefix_equal pa)
  case Nil
  then show ?case by (simp add: uses_return)
next
  case (Cons j js)
  have "uses M C (\<lambda>k. AllocateMultiplier (both pa (bit_assignments ! j)) (\<lambda>g. case g of (left, right, out) \<Rightarrow>
         Constrain (variable_sub left prefix_equal)
        (Constrain (variable_sub right (lc_from_variable (bit_vars ! j)))
        (if modulus_bit modulus_le j
         then range_scan modulus_le bit_vars bit_assignments js (lc_from_variable out)
                (map_option (\<lambda>(eq, b). eq * b) (both pa (bit_assignments ! j))) k
         else Constrain (lc_from_variable out)
             (range_scan modulus_le bit_vars bit_assignments js (lc_sub prefix_equal (lc_from_variable out))
                (map_option (\<lambda>(eq, b). eq * (1 - b)) (both pa (bit_assignments ! j))) k)))))
    (Suc (length js)) (\<lambda>_. True)"
    by (rule uses_AllocateMultiplier) (auto split: prod.splits intro!: uses_Constrain uses_if Cons)
  then show ?case by (simp add: Let_def)
qed

lemma bit_decompose_bounded_uses:
  fixes bit_assignments :: "'s::field option list"
  assumes "length bit_assignments = K_BITS + 1"
  shows "uses M C (bit_decompose_bounded k_var bit_assignments modulus_le) 514 (\<lambda>vs. length vs = K_BITS + 1)"
proof -
  have "uses M C (\<lambda>k. allocate_bits bit_assignments [] lc_default 1 (\<lambda>r. case r of (bit_vars, k_lc) \<Rightarrow>
        Constrain (lc_sub k_lc (lc_from_variable k_var))
       (range_scan modulus_le bit_vars bit_assignments (rev [0..<K_BITS + 1]) (lc_from_scalar 1) (Some 1) (\<lambda>prefix_equal.
        Constrain prefix_equal (k bit_vars))))) 514 (\<lambda>vs. length vs = K_BITS + 1)"
  proof (rule uses_seq[OF allocate_bits_uses])
    fix r :: "variable_kind list \<times> 's linear_combination"
    assume "case r of (vs, lc) \<Rightarrow> length vs = length [] + length bit_assignments"
    then obtain vs lc where r: "r = (vs, lc)" "length vs = K_BITS + 1" using assms by (cases r) auto
    show "uses M C (\<lambda>k. case r of (bit_vars, k_lc) \<Rightarrow>
        Constrain (lc_sub k_lc (lc_from_variable k_var))
       (range_scan modulus_le bit_vars bit_assignments (rev [0..<K_BITS + 1]) (lc_from_scalar 1) (Some 1) (\<lambda>prefix_equal.
        Constrain prefix_equal (k bit_vars)))) 257 (\<lambda>vs. length vs = K_BITS + 1)"
      unfolding r prod.case
      by (rule uses_Constrain, rule uses_seq[OF range_scan_uses], rule uses_Constrain, rule uses_return)
        (simp_all add: r K_BITS_def)
  qed (simp add: assms K_BITS_def)
  moreover have "bit_decompose_bounded k_var bit_assignments modulus_le
      = (\<lambda>k. allocate_bits bit_assignments [] lc_default 1 (\<lambda>r. case r of (bit_vars, k_lc) \<Rightarrow>
        Constrain (lc_sub k_lc (lc_from_variable k_var))
       (range_scan modulus_le bit_vars bit_assignments (rev [0..<K_BITS + 1]) (lc_from_scalar 1) (Some 1) (\<lambda>prefix_equal.
        Constrain prefix_equal (k bit_vars)))))"
    by (rule ext) (simp only: bit_decompose_bounded_def assms simp_thms if_False)
  ultimately show ?thesis by (simp only:)
qed

lemma bound_scan_uses:
  "uses M C (bound_scan bound_le bit_vars bit_assignments condition_lc js prefix_equal pa)
    (length js + length (filter (\<lambda>j. \<not> modulus_bit bound_le j) js)) (\<lambda>_. True)"
proof (induction js arbitrary: prefix_equal pa)
  case Nil
  then show ?case by (simp add: uses_return)
next
  case (Cons j js)
  have "uses M C (\<lambda>k. AllocateMultiplier (both pa (bit_assignments ! j)) (\<lambda>g. case g of (left, right, out) \<Rightarrow>
         Constrain (variable_sub left prefix_equal)
        (Constrain (variable_sub right (lc_from_variable (bit_vars ! j)))
        (if modulus_bit bound_le j
         then bound_scan bound_le bit_vars bit_assignments condition_lc js (lc_from_variable out)
                (map_option (\<lambda>(eq, b). eq * b) (both pa (bit_assignments ! j))) k
         else Multiply condition_lc (lc_from_variable out) (\<lambda>g. case g of (_, _, violation) \<Rightarrow> Constrain (lc_from_variable violation)
             (bound_scan bound_le bit_vars bit_assignments condition_lc js (lc_sub prefix_equal (lc_from_variable out))
                (map_option (\<lambda>(eq, b). eq * (1 - b)) (both pa (bit_assignments ! j))) k))))))
    (Suc ((if modulus_bit bound_le j then 0 else 1) + (length js + length (filter (\<lambda>j. \<not> modulus_bit bound_le j) js)))) (\<lambda>_. True)"
    by (rule uses_AllocateMultiplier) (auto split: prod.splits intro!: uses_Constrain uses_if uses_Multiply Cons)
  then show ?case by (cases "modulus_bit bound_le j") (simp_all add: Let_def)
qed

definition bound_gates :: "bytes \<Rightarrow> nat" where
  "bound_gates bound_le = (let low = lower_bits_start bound_le
     in (if low < K_BITS + 1 then 1 else 0) + (low + length (filter (\<lambda>j. \<not> modulus_bit bound_le j) [0..<low])) + 1)"

lemma constrain_bits_lt_bound_when_uses:
  assumes "length bit_vars = K_BITS + 1" "length bit_assignments = K_BITS + 1"
  shows "uses M C (\<lambda>k. constrain_bits_lt_bound_when bit_vars bit_assignments bound_le condition_var (k ())) (bound_gates bound_le) (\<lambda>_. True)"
proof -
  let ?l = "lower_bits_start bound_le"
  let ?scan = "\<lambda>k. bound_scan bound_le bit_vars bit_assignments (lc_from_variable condition_var) (rev [0..<?l]) (lc_from_scalar 1) (Some 1)
    (\<lambda>prefix_equal. Multiply (lc_from_variable condition_var) prefix_equal (\<lambda>g. case g of (_, _, equality_violation) \<Rightarrow>
       Constrain (lc_from_variable equality_violation) (k ())))"
  have scan: "uses M C ?scan (?l + length (filter (\<lambda>j. \<not> modulus_bit bound_le j) [0..<?l]) + 1) (\<lambda>_. True)"
  proof (rule uses_seq[OF bound_scan_uses])
    fix prefix_equal
    show "uses M C (\<lambda>k. Multiply (lc_from_variable condition_var) prefix_equal (\<lambda>g. case g of (_, _, equality_violation) \<Rightarrow>
       Constrain (lc_from_variable equality_violation) (k ()))) (Suc 0) (\<lambda>_. True)"
      by (rule uses_Multiply) (auto split: prod.splits intro!: uses_Constrain uses_return)
  qed (simp add: rev_filter[symmetric])
  have "uses M C (\<lambda>k. Multiply (lc_from_variable condition_var) high (\<lambda>g. case g of (_, _, violation) \<Rightarrow>
      Constrain (lc_from_variable violation) (?scan k))) (Suc (?l + length (filter (\<lambda>j. \<not> modulus_bit bound_le j) [0..<?l]) + 1)) (\<lambda>_. True)" for high
    subgoal
      apply (rule uses_Multiply)
      subgoal for g by (cases g rule: prod_cases3) (simp only: prod.case, rule uses_Constrain, rule scan)
      done
    done
  note high = this
  show ?thesis
  proof (cases "?l < K_BITS + 1")
    case True
    with assms have "(\<lambda>k. constrain_bits_lt_bound_when bit_vars bit_assignments bound_le condition_var (k ()))
        = (\<lambda>k. Multiply (lc_from_variable condition_var) (fold (\<lambda>b lc. lc_add lc (lc_from_variable b)) (drop ?l bit_vars) lc_default)
             (\<lambda>g. case g of (_, _, violation) \<Rightarrow> Constrain (lc_from_variable violation) (?scan k)))"
      by (simp add: constrain_bits_lt_bound_when_def Let_def)
    then show ?thesis using high True by (simp only: bound_gates_def Let_def) simp
  next
    case False
    with assms have "(\<lambda>k. constrain_bits_lt_bound_when bit_vars bit_assignments bound_le condition_var (k ())) = ?scan"
      by (simp add: constrain_bits_lt_bound_when_def Let_def)
    then show ?thesis using scan False by (simp only: bound_gates_def Let_def) simp
  qed
qed

end
