(* ===== verification/Evrf_Chord.thy ===== *)
theory Evrf_Chord
  imports Evrf_Bits_Laws
begin

text \<open>
  Exponentiation in a circuit by the chord rule, of \<open>golden-evrf/src/paper.rs\<close>, module \<open>secp_secq\<close>: the public
  tables of a base, the prover's witness, and the circuit that adds the windowed multiples of the base with
  one slope per window. The curve \<open>G_in\<close> with its affine coordinates in the field of the circuit is the record
  \<open>evrf_curve\<close>; \<open>D\<close> is the cycle whose scalars are that field. The locale \<open>chord_curve\<close> is the addition law.
\<close>

section \<open>The curve\<close>

text \<open>\<open>halo2curves\<close> gives the coordinates of an affine point (none for the identity) and hashing to the curve.\<close>

record ('q, 'p, 'a, 'c, 's) evrf_curve = "('q, 'p, 'a, 'c) cycle" +
  affine_coordinates :: "'a \<Rightarrow> ('s \<times> 's) option"
  hash_to_curve :: "bytes \<Rightarrow> bytes \<Rightarrow> 'p"

definition affine_xy :: "('q, 'p, 'a, 'c, 's, 'z) evrf_curve_scheme \<Rightarrow> 'p \<Rightarrow> ('s \<times> 's) result" where
  "affine_xy E point = ok_or (affine_coordinates E (point_to_affine E point)) ProofVerificationFailed"

definition batch_affine :: "('q, 'p, 'a, 'c, 's, 'z) evrf_curve_scheme \<Rightarrow> 'p list \<Rightarrow> ('s \<times> 's) list result" where
  "batch_affine E points = ok_or (those (map (affine_coordinates E) (batch_normalize E points))) ProofVerificationFailed"

definition CHORD_CORRECTION_DOMAIN :: bytes where
  "CHORD_CORRECTION_DOMAIN = ascii ''golden-paper-evrf-chord-correction-v1''"

definition chord_correction_generator :: "('q, 'p, 'a, 'c, 's, 'z) evrf_curve_scheme \<Rightarrow> 'p \<Rightarrow> 'p" where
  "chord_correction_generator E X = hash_to_curve E CHORD_CORRECTION_DOMAIN (compressed_as_bytes E (point_compress E X))"

section \<open>The public tables\<close>

definition chord_cj :: "usize \<Rightarrow> usize \<Rightarrow> 'q::field" where
  "chord_cj j lambda = (if j = 0 then 1 else if j < lambda then 2 else 1 - of_nat (2 * lambda))"

type_synonym 's window = "('s \<times> 's) \<times> ('s \<times> 's) \<times> ('s \<times> 's) \<times> ('s \<times> 's)"

record ('p, 's) chord_precomp =
  cp_c0 :: "'s \<times> 's"
  cp_d0 :: "'s \<times> 's"
  cp_windows :: "'s window list"
  cp_powers :: "'p list"
  cp_corrections :: "'p \<times> 'p \<times> 'p"

text \<open>\<open>as_chunks::<4>()\<close>; a shorter rest is dropped.\<close>

fun as_chunks4 :: "'x list \<Rightarrow> ('x \<times> 'x \<times> 'x \<times> 'x) list" where
  "as_chunks4 (a # b # c # d # rest) = (a, b, c, d) # as_chunks4 rest"
| "as_chunks4 _ = []"

definition precompute_chord ::
  "('q::field, 'p::ab_group_add, 'a, 'c, 's, 'z) evrf_curve_scheme \<Rightarrow> 'p \<Rightarrow> usize \<Rightarrow> ('p, 's) chord_precomp result" where
  "precompute_chord E X lambda =
     (if lambda = 0 \<or> odd lambda then Inl ProofVerificationFailed
      else
      let g_s = chord_correction_generator E X;
          c_first = g_s; c_mid = point_mul E g_s 2; c_last = point_mul E g_s (chord_cj lambda lambda);
          (powers, c_points, d_points, _) = fold (\<lambda>j (powers, c_points, d_points, p_j).
             let c_j_point = (if j = 0 then c_first else if j < lambda then c_mid else c_last)
             in (powers @ [p_j], c_points @ [c_j_point], d_points @ [p_j + c_j_point], p_j + p_j))
             [0..<lambda + 1] ([], [], [], X);
          num_windows = lambda div 2;
          points = [c_points ! 0, d_points ! 0] @ concat (map (\<lambda>w.
             let (j1, j2) = (2 * w - 1, 2 * w); (c1, d1) = (c_points ! j1, d_points ! j1); (c2, d2) = (c_points ! j2, d_points ! j2)
             in [c1 + c2, d1 + c2, c1 + d2, d1 + d2]) [1..<num_windows + 1])
      in rbind (batch_affine E points) (\<lambda>affines.
         Inr \<lparr>cp_c0 = affines ! 0, cp_d0 = affines ! 1, cp_windows = as_chunks4 (drop 2 affines),
              cp_powers = powers, cp_corrections = (c_first, c_mid, c_last)\<rparr>))"

definition chord_evaluate_point ::
  "('q::field, 'p::ab_group_add, 'a, 'c, 's, 'z) evrf_curve_scheme \<Rightarrow> bool list \<Rightarrow> 'p \<Rightarrow> usize \<Rightarrow> 'p result" where
  "chord_evaluate_point E bs X lambda =
     (if length bs \<noteq> lambda + 1 then Inl ProofVerificationFailed
      else
      let g_s = chord_correction_generator E X;
          c_first = g_s; c_mid = point_mul E g_s 2; c_last = point_mul E g_s (chord_cj lambda lambda)
      in Inr (fst (fold (\<lambda>(j, b) (l, p_j).
           let c_j_point = (if j = 0 then c_first else if j < lambda then c_mid else c_last);
               delta = (if b then p_j + c_j_point else c_j_point)
           in (if j = 0 then delta else l + delta, p_j + p_j)) (enumerate 0 bs) (0, X))))"

section \<open>The witness\<close>

definition CHORD_CHECKPOINT_INTERVAL :: usize where "CHORD_CHECKPOINT_INTERVAL = 16"

definition chord_is_checkpoint_window :: "usize \<Rightarrow> usize \<Rightarrow> bool" where
  "chord_is_checkpoint_window w num_windows \<longleftrightarrow> CHORD_CHECKPOINT_INTERVAL dvd w \<or> w = num_windows"

definition chord_checkpoint_count :: "usize \<Rightarrow> usize" where
  "chord_checkpoint_count num_windows =
     (let full_intervals = num_windows div CHORD_CHECKPOINT_INTERVAL
      in if CHORD_CHECKPOINT_INTERVAL dvd num_windows then full_intervals else full_intervals + 1)"

record 's chord_witness =
  checkpoint_coords :: "('s \<times> 's) list"
  slopes :: "'s list"
  denominators :: "'s list"

text \<open>The first pass: the running points and the windows' points.\<close>

definition chord_points ::
  "bool list \<Rightarrow> ('p::ab_group_add, 's) chord_precomp \<Rightarrow> 'p list \<times> 'p list" where
  "chord_points bs precomp =
     (let lambda = length (cp_powers precomp) - 1; num_windows = lambda div 2; p_points = cp_powers precomp;
          (c_first, c_mid, c_last) = cp_corrections precomp;
          correction = (\<lambda>j. if j = 0 then c_first else if j < lambda then c_mid else c_last);
          l = (if bs ! 0 then p_points ! 0 + correction 0 else correction 0);
          (l, l_points, delta_points) = fold (\<lambda>w (l, l_points, delta_points).
             let (j1, j2) = (2 * w - 1, 2 * w);
                 delta = correction j1 + correction j2;
                 delta = (if bs ! j1 then delta + p_points ! j1 else delta);
                 delta = (if bs ! j2 then delta + p_points ! j2 else delta);
                 l = l + delta
             in (l, l_points @ [l], delta_points @ [delta])) [1..<num_windows + 1] (l, [l], [])
      in (l_points, delta_points))"

text \<open>The second pass: numerators and denominators of the slopes; a zero denominator is an error.\<close>

primrec chord_differences ::
  "('s::field \<times> 's) list \<Rightarrow> ('s \<times> 's) list \<Rightarrow> nat list \<Rightarrow> 's list \<Rightarrow> 's list \<Rightarrow> ('s list \<times> 's list) result" where
  "chord_differences l_coords delta_coords [] dxs dys = Inr (dxs, dys)"
| "chord_differences l_coords delta_coords (w # ws) dxs dys =
     (let (x_prev, y_prev) = l_coords ! (w - 1); (x_delta, y_delta) = delta_coords ! (w - 1);
          dx = x_prev - x_delta; dy = y_prev - y_delta
      in if dx = 0 then Inl ProofVerificationFailed
         else chord_differences l_coords delta_coords ws (dxs @ [dx]) (dys @ [dy]))"

definition chord_compute_witness_precomputed ::
  "('q, 'p::ab_group_add, 'a, 'c, 's::field, 'z) evrf_curve_scheme \<Rightarrow> ('s, 'r, 'b, 'd, 'y) cycle_scheme
    \<Rightarrow> bool list \<Rightarrow> ('p, 's) chord_precomp \<Rightarrow> 's chord_witness result" where
  "chord_compute_witness_precomputed E D bs precomp =
     (let lambda = length (cp_powers precomp) - 1
      in if length bs \<noteq> lambda + 1 then Inl ProofVerificationFailed
         else
         let num_windows = lambda div 2;
             (l_points, delta_points) = chord_points bs precomp
         in rbind (batch_affine E (l_points @ delta_points)) (\<lambda>affines.
            let l_coords = take (num_windows + 1) affines; delta_coords = drop (num_windows + 1) affines
            in rbind (chord_differences l_coords delta_coords [1..<num_windows + 1] [] []) (\<lambda>(dxs, dys).
               Inr \<lparr>checkpoint_coords = map ((!) l_coords) (filter (\<lambda>w. chord_is_checkpoint_window w num_windows) [1..<num_windows + 1]),
                    slopes = map (\<lambda>(dy, dx_inv). dy * dx_inv) (zip dys (fst (scalar_batch_invert D dxs))),
                    denominators = dxs\<rparr>)))"

section \<open>The circuit\<close>

definition delta0_x_lc :: "variable_kind \<Rightarrow> ('p, 's::field) chord_precomp \<Rightarrow> 's linear_combination" where
  "delta0_x_lc k0_var precomp =
     (let (cx, _) = cp_c0 precomp; (dx, _) = cp_d0 precomp in lc_add (lc_from_scalar cx) (variable_mul k0_var (dx - cx)))"

definition delta0_y_lc :: "variable_kind \<Rightarrow> ('p, 's::field) chord_precomp \<Rightarrow> 's linear_combination" where
  "delta0_y_lc k0_var precomp =
     (let (_, cy) = cp_c0 precomp; (_, dy) = cp_d0 precomp in lc_add (lc_from_scalar cy) (variable_mul k0_var (dy - cy)))"

definition window_delta_x_lc ::
  "variable_kind \<Rightarrow> variable_kind \<Rightarrow> variable_kind \<Rightarrow> 's::field window \<Rightarrow> 's linear_combination" where
  "window_delta_x_lc s0_var s1_var and_var = (\<lambda>((q00x, _), (q10x, _), (q01x, _), (q11x, _)).
     lc_add (lc_add (lc_add (lc_from_scalar q00x) (variable_mul s0_var (q10x - q00x))) (variable_mul s1_var (q01x - q00x)))
       (variable_mul and_var (q11x - q10x - q01x + q00x)))"

definition window_delta_y_lc ::
  "variable_kind \<Rightarrow> variable_kind \<Rightarrow> variable_kind \<Rightarrow> 's::field window \<Rightarrow> 's linear_combination" where
  "window_delta_y_lc s0_var s1_var and_var = (\<lambda>((_, q00y), (_, q10y), (_, q01y), (_, q11y)).
     lc_add (lc_add (lc_add (lc_from_scalar q00y) (variable_mul s0_var (q10y - q00y))) (variable_mul s1_var (q01y - q00y)))
       (variable_mul and_var (q11y - q10y - q01y + q00y)))"

primrec window_products_loop ::
  "variable_kind list \<Rightarrow> nat list \<Rightarrow> variable_kind list \<Rightarrow> (variable_kind list \<Rightarrow> 's::field gadget) \<Rightarrow> 's gadget" where
  "window_products_loop bit_vars [] products k = k products"
| "window_products_loop bit_vars (w # ws) products k =
     Multiply (lc_from_variable (bit_vars ! (2 * w - 1))) (lc_from_variable (bit_vars ! (2 * w))) (\<lambda>(_, _, and_var).
     window_products_loop bit_vars ws (products @ [and_var]) k)"

definition chord_window_products ::
  "variable_kind list \<Rightarrow> (variable_kind list \<Rightarrow> 's::field gadget) \<Rightarrow> 's gadget" where
  "chord_window_products bit_vars k =
     (if length bit_vars < 3 \<or> even (length bit_vars) then Finish (Inl R1CSFormatError)
      else window_products_loop bit_vars [1..<(length bit_vars - 1) div 2 + 1] [] k)"

text \<open>The loop over the windows: the running point, the last checkpoint and the number of checkpoints so far.\<close>

primrec chord_loop ::
  "variable_kind list \<Rightarrow> ('p, 's::field) chord_precomp \<Rightarrow> variable_kind list \<Rightarrow> 's chord_witness option \<Rightarrow> usize \<Rightarrow> nat list
    \<Rightarrow> 's linear_combination \<Rightarrow> 's linear_combination \<Rightarrow> (variable_kind \<times> variable_kind) option \<Rightarrow> nat
    \<Rightarrow> ((variable_kind \<times> variable_kind) option \<Rightarrow> 's gadget) \<Rightarrow> 's gadget" where
  "chord_loop bit_vars precomp window_products witness num_windows [] x_prev y_prev checkpoint checkpoint_idx k = k checkpoint"
| "chord_loop bit_vars precomp window_products witness num_windows (w # ws) x_prev y_prev checkpoint checkpoint_idx k =
     (let s0_var = bit_vars ! (2 * w - 1); s1_var = bit_vars ! (2 * w); and_var = window_products ! (w - 1);
          window = cp_windows precomp ! (w - 1);
          dx_w = window_delta_x_lc s0_var s1_var and_var window;
          dy_w = window_delta_y_lc s0_var s1_var and_var window;
          denom_delta = lc_sub x_prev dx_w
      in AllocateMultiplier (map_option (\<lambda>wit. (slopes wit ! (w - 1), denominators wit ! (w - 1))) witness) (\<lambda>(s_var, denominator, out1).
         Constrain (variable_sub denominator denom_delta)
        (Constrain (variable_sub out1 (lc_sub y_prev dy_w))
        (Multiply (lc_from_variable s_var) (lc_from_variable s_var) (\<lambda>(_, _, out2).
         let x_l = lc_sub (variable_sub out2 x_prev) dx_w; denom_result = lc_sub x_prev x_l
         in Multiply (lc_from_variable s_var) denom_result (\<lambda>(_, _, out3).
            let y_l = variable_sub out3 y_prev
            in if chord_is_checkpoint_window w num_windows
               then Allocate (map_option (\<lambda>wit. fst (checkpoint_coords wit ! checkpoint_idx)) witness) (\<lambda>x_ck.
                    Allocate (map_option (\<lambda>wit. snd (checkpoint_coords wit ! checkpoint_idx)) witness) (\<lambda>y_ck.
                    Constrain (lc_sub x_l (lc_from_variable x_ck))
                   (Constrain (lc_sub y_l (lc_from_variable y_ck))
                   (chord_loop bit_vars precomp window_products witness num_windows ws (lc_from_variable x_ck) (lc_from_variable y_ck)
                      (Some (x_ck, y_ck)) (checkpoint_idx + 1) k))))
               else chord_loop bit_vars precomp window_products witness num_windows ws x_l y_l checkpoint checkpoint_idx k))))))"

text \<open>There is at least one window and the last is a checkpoint, so that \<open>expect\<close> does not panic.\<close>

definition chord_exponentiate_r1cs_with_result ::
  "variable_kind list \<Rightarrow> ('p, 's::field) chord_precomp \<Rightarrow> variable_kind list \<Rightarrow> ('s \<times> 's) option \<Rightarrow> 's chord_witness option
    \<Rightarrow> (variable_kind \<times> variable_kind \<Rightarrow> 's gadget) \<Rightarrow> 's gadget" where
  "chord_exponentiate_r1cs_with_result bit_vars precomp window_products res witness k =
     (let lambda_plus_one = length bit_vars; num_windows = (lambda_plus_one - 1) div 2
      in if lambda_plus_one < 3 \<or> even lambda_plus_one then Finish (Inl R1CSFormatError)
         else if length (cp_windows precomp) \<noteq> num_windows \<or> length window_products \<noteq> num_windows then Finish (Inl R1CSFormatError)
         else if (case witness of None \<Rightarrow> False
                  | Some w \<Rightarrow> length (checkpoint_coords w) \<noteq> chord_checkpoint_count num_windows
                      \<or> length (slopes w) \<noteq> num_windows \<or> length (denominators w) \<noteq> num_windows)
         then Finish (Inl R1CSFormatError)
         else chord_loop bit_vars precomp window_products witness num_windows [1..<num_windows + 1]
                (delta0_x_lc (bit_vars ! 0) precomp) (delta0_y_lc (bit_vars ! 0) precomp) None 0 (\<lambda>checkpoint.
              let (x_final, y_final) = the checkpoint
              in case res of
                   None \<Rightarrow> k (x_final, y_final)
                 | Some (result_x, result_y) \<Rightarrow>
                     Constrain (variable_sub x_final (lc_from_scalar result_x))
                    (Constrain (variable_sub y_final (lc_from_scalar result_y)) (k (x_final, y_final)))))"

definition chord_exponentiate_r1cs ::
  "variable_kind list \<Rightarrow> ('p, 's::field) chord_precomp \<Rightarrow> variable_kind list \<Rightarrow> 's \<Rightarrow> 's \<Rightarrow> 's chord_witness option
    \<Rightarrow> (variable_kind \<times> variable_kind \<Rightarrow> 's gadget) \<Rightarrow> 's gadget" where
  "chord_exponentiate_r1cs bit_vars precomp window_products result_x result_y witness k =
     chord_exponentiate_r1cs_with_result bit_vars precomp window_products (Some (result_x, result_y)) witness k"

end
