(* ===== verification/Evrf_Chord_Laws.thy ===== *)
theory Evrf_Chord_Laws
  imports Evrf_Chord
begin

text \<open>
  Chord-rule exponentiation is right. The locale \<open>chord_curve\<close> states what the proofs need of the curve: unique
  affine forms, coordinates of all points but the identity, and addition of points with different \<open>x\<close> by the
  slope. The corrections cancel, so that the running point ends in the multiple of the base; the circuit
  enforces the coordinates of that point for every assignment whose additions are not exceptional, and the
  prover's witness completes it.
\<close>

section \<open>The addition law\<close>

definition xy :: "('q, 'p, 'a, 'c, 's, 'z) evrf_curve_scheme \<Rightarrow> 'p \<Rightarrow> ('s \<times> 's) option" where
  "xy E p = affine_coordinates E (point_to_affine E p)"

definition chord_sum :: "'s::field \<times> 's \<Rightarrow> 's \<times> 's \<Rightarrow> 's \<times> 's" where
  "chord_sum = (\<lambda>(x1, y1) (x2, y2). let s = (y1 - y2) / (x1 - x2); x3 = s * s - x1 - x2 in (x3, s * (x1 - x3) - y1))"

locale chord_curve = cycle_laws E
  for E :: "('q::field, 'p::ab_group_add, 'a, 'c, 's::field, 'z) evrf_curve_scheme" +
  assumes affine_unique: "affine_to_point E a = affine_to_point E b \<Longrightarrow> a = b"
    and xy_identity: "xy E p = None \<longleftrightarrow> p = 0"
    and xy_inject: "xy E p = Some c \<Longrightarrow> xy E q = Some c \<Longrightarrow> p = q"
    and xy_add: "xy E p = Some c \<Longrightarrow> xy E q = Some d \<Longrightarrow> fst c \<noteq> fst d \<Longrightarrow> xy E (p + q) = Some (chord_sum c d)"

lemma those_eq_Some: "those xs = Some ys \<longleftrightarrow> xs = map Some ys"
proof (induction xs arbitrary: ys)
  case (Cons x xs)
  then show ?case by (cases x; cases ys) (auto split: option.splits)
qed auto

lemma affine_xy_eq: "affine_xy E p = ok_or (xy E p) ProofVerificationFailed"
  by (simp add: affine_xy_def xy_def)

section \<open>The points of an exponentiation\<close>

definition chord_P :: "('q::field, 'p, 'a, 'c, 's, 'z) evrf_curve_scheme \<Rightarrow> 'p \<Rightarrow> nat \<Rightarrow> 'p" where
  "chord_P E X j = point_mul E X (2 ^ j)"

definition chord_C :: "('q::field, 'p, 'a, 'c, 's, 'z) evrf_curve_scheme \<Rightarrow> 'p \<Rightarrow> nat \<Rightarrow> nat \<Rightarrow> 'p" where
  "chord_C E X lambda j = point_mul E (chord_correction_generator E X) (chord_cj j lambda)"

definition window_point ::
  "('q::field, 'p::ab_group_add, 'a, 'c, 's, 'z) evrf_curve_scheme \<Rightarrow> 'p \<Rightarrow> nat \<Rightarrow> (nat \<Rightarrow> bool) \<Rightarrow> nat \<Rightarrow> 'p" where
  "window_point E X lambda b w = chord_C E X lambda (2 * w - 1) + chord_C E X lambda (2 * w)
     + (if b (2 * w - 1) then chord_P E X (2 * w - 1) else 0) + (if b (2 * w) then chord_P E X (2 * w) else 0)"

primrec running ::
  "('q::field, 'p::ab_group_add, 'a, 'c, 's, 'z) evrf_curve_scheme \<Rightarrow> 'p \<Rightarrow> nat \<Rightarrow> (nat \<Rightarrow> bool) \<Rightarrow> nat \<Rightarrow> 'p" where
  "running E X lambda b 0 = (if b 0 then chord_P E X 0 + chord_C E X lambda 0 else chord_C E X lambda 0)"
| "running E X lambda b (Suc w) = running E X lambda b w + window_point E X lambda b (Suc w)"

text \<open>What the tables and a witness hold.\<close>

definition tables_of ::
  "('q::field, 'p::ab_group_add, 'a, 'c, 's, 'z) evrf_curve_scheme \<Rightarrow> 'p \<Rightarrow> nat \<Rightarrow> ('p, 's) chord_precomp \<Rightarrow> bool" where
  "tables_of E X lambda pc \<longleftrightarrow> 0 < lambda \<and> even lambda \<and> length (cp_windows pc) = lambda div 2
     \<and> xy E (chord_C E X lambda 0) = Some (cp_c0 pc) \<and> xy E (chord_P E X 0 + chord_C E X lambda 0) = Some (cp_d0 pc)
     \<and> cp_powers pc = map (chord_P E X) [0..<lambda + 1]
     \<and> cp_corrections pc = (chord_C E X lambda 0, chord_C E X lambda 1, chord_C E X lambda lambda)
     \<and> (\<forall>w. 1 \<le> w \<longrightarrow> w \<le> lambda div 2 \<longrightarrow> (\<exists>q00 q10 q01 q11. cp_windows pc ! (w - 1) = (q00, q10, q01, q11)
          \<and> xy E (window_point E X lambda (\<lambda>_. False) w) = Some q00
          \<and> xy E (window_point E X lambda (\<lambda>j. j = 2 * w - 1) w) = Some q10
          \<and> xy E (window_point E X lambda (\<lambda>j. j = 2 * w) w) = Some q01
          \<and> xy E (window_point E X lambda (\<lambda>_. True) w) = Some q11))"

definition witness_of ::
  "('q::field, 'p::ab_group_add, 'a, 'c, 's::field, 'z) evrf_curve_scheme \<Rightarrow> 'p \<Rightarrow> nat \<Rightarrow> (nat \<Rightarrow> bool) \<Rightarrow> 's chord_witness \<Rightarrow> bool" where
  "witness_of E X lambda b wit \<longleftrightarrow> (\<exists>L Delta.
     (\<forall>w \<le> lambda div 2. xy E (running E X lambda b w) = Some (L w))
     \<and> (\<forall>w. 1 \<le> w \<longrightarrow> w \<le> lambda div 2 \<longrightarrow> xy E (window_point E X lambda b w) = Some (Delta w) \<and> fst (L (w - 1)) \<noteq> fst (Delta w))
     \<and> checkpoint_coords wit = map L (filter (\<lambda>w. chord_is_checkpoint_window w (lambda div 2)) [1..<lambda div 2 + 1])
     \<and> slopes wit = map (\<lambda>w. (snd (L (w - 1)) - snd (Delta w)) / (fst (L (w - 1)) - fst (Delta w))) [1..<lambda div 2 + 1]
     \<and> denominators wit = map (\<lambda>w. fst (L (w - 1)) - fst (Delta w)) [1..<lambda div 2 + 1])"

text \<open>The points whose affine coordinates the tables hold.\<close>

definition table_points ::
  "('q::field, 'p::ab_group_add, 'a, 'c, 's, 'z) evrf_curve_scheme \<Rightarrow> 'p \<Rightarrow> nat \<Rightarrow> 'p list" where
  "table_points E X lambda =
     (let C = chord_C E X lambda; D = (\<lambda>j. chord_P E X j + chord_C E X lambda j)
      in [C 0, D 0] @ concat (map (\<lambda>w. [C (2 * w - 1) + C (2 * w), D (2 * w - 1) + C (2 * w), C (2 * w - 1) + D (2 * w), D (2 * w - 1) + D (2 * w)])
           [1..<lambda div 2 + 1]))"

context chord_curve
begin

lemma batch_normalize_eq: "batch_normalize E ps = map (point_to_affine E) ps"
proof -
  have "map (affine_to_point E) (batch_normalize E ps) = map (affine_to_point E) (map (point_to_affine E) ps)"
    by (simp add: normalize_points affine_point comp_def)
  then show ?thesis
    by (rule map_injective) (auto intro: injI affine_unique)
qed

lemma batch_affine_Inr: "batch_affine E ps = Inr cs \<longleftrightarrow> map (xy E) ps = map Some cs"
  by (simp add: batch_affine_def batch_normalize_eq those_eq_Some comp_def xy_def[abs_def])

lemma chord_P_Suc: "chord_P E X j + chord_P E X j = chord_P E X (Suc j)"
  by (simp add: chord_P_def pmul_add[symmetric])

text \<open>The tables.\<close>

lemma chord_C_eq:
  "chord_C E X lambda 0 = chord_correction_generator E X"
  "0 < j \<Longrightarrow> j < lambda \<Longrightarrow> chord_C E X lambda j = point_mul E (chord_correction_generator E X) 2"
  "0 < lambda \<Longrightarrow> chord_C E X lambda lambda = point_mul E (chord_correction_generator E X) (chord_cj lambda lambda)"
  by (simp_all add: chord_C_def chord_cj_def pmul_one)

lemma precompute_fold:
  fixes X :: 'p
  assumes "n \<le> lambda + 1" "0 < lambda"
  defines "g \<equiv> chord_correction_generator E X"
  shows "fold (\<lambda>j (powers, c_points, d_points, p_j).
             let c_j_point = (if j = 0 then g else if j < lambda then point_mul E g 2 else point_mul E g (chord_cj lambda lambda))
             in (powers @ [p_j], c_points @ [c_j_point], d_points @ [p_j + c_j_point], p_j + p_j)) [0..<n] ([], [], [], X)
    = (map (chord_P E X) [0..<n], map (chord_C E X lambda) [0..<n], map (\<lambda>j. chord_P E X j + chord_C E X lambda j) [0..<n], chord_P E X n)"
  using assms(1)
proof (induction n)
  case 0
  then show ?case by (simp add: chord_P_def pmul_one)
next
  case (Suc n)
  have "(if n = 0 then g else if n < lambda then point_mul E g 2 else point_mul E g (chord_cj lambda lambda)) = chord_C E X lambda n"
    using Suc.prems assms(2) by (cases "n = lambda") (auto simp: chord_C_eq g_def)
  with Suc show ?case by (simp add: Let_def chord_P_Suc)
qed

lemma as_chunks4_concat:
  "as_chunks4 (concat (map (\<lambda>w. [f w, g w, h w, i w]) ws)) = map (\<lambda>w. (f w, g w, h w, i w)) ws"
  by (induction ws) auto

lemma map_Some_the: "map f xs = map Some ys \<longleftrightarrow> (\<forall>x \<in> set xs. f x \<noteq> None) \<and> ys = map (\<lambda>x. the (f x)) xs"
  by (induction xs arbitrary: ys) (auto simp: Cons_eq_map_conv map_eq_Cons_conv)

lemma precompute_eq:
  assumes "0 < lambda" "even lambda"
  shows "precompute_chord E X lambda = rbind (batch_affine E (table_points E X lambda)) (\<lambda>cs.
      Inr \<lparr>cp_c0 = cs ! 0, cp_d0 = cs ! 1, cp_windows = as_chunks4 (drop 2 cs), cp_powers = map (chord_P E X) [0..<lambda + 1],
      cp_corrections = (chord_correction_generator E X, point_mul E (chord_correction_generator E X) 2,
        point_mul E (chord_correction_generator E X) (chord_cj lambda lambda))\<rparr>)"
proof -
  let ?P = "chord_P E X" and ?C = "chord_C E X lambda" and ?n = "lambda div 2"
  let ?D = "\<lambda>j. ?P j + ?C j"
  let ?quad = "\<lambda>w. [?C (2 * w - 1) + ?C (2 * w), ?D (2 * w - 1) + ?C (2 * w), ?C (2 * w - 1) + ?D (2 * w), ?D (2 * w - 1) + ?D (2 * w)]"
  have index: "map f [0..<lambda + 1] ! j = f j" if "j < lambda + 1" for f :: "nat \<Rightarrow> 'p" and j
    using that by (simp del: upt_Suc)
  let ?c = "map ?C [0..<lambda + 1]" and ?d = "map ?D [0..<lambda + 1]"
  have quads: "map (\<lambda>w. [?c ! (2 * w - 1) + ?c ! (2 * w), ?d ! (2 * w - 1) + ?c ! (2 * w),
        ?c ! (2 * w - 1) + ?d ! (2 * w), ?d ! (2 * w - 1) + ?d ! (2 * w)]) [1..<?n + 1] = map ?quad [1..<?n + 1]"
    by (intro map_cong refl) (auto simp: index simp del: upt_Suc)
  have first: "?c ! 0 = ?C 0" "?d ! 0 = ?D 0" by (simp_all add: index del: upt_Suc)
  have points: "table_points E X lambda = [?C 0, ?D 0] @ concat (map ?quad [1..<?n + 1])"
    by (simp only: table_points_def Let_def)
  have "\<not> (lambda = 0 \<or> odd lambda)" using assms by simp
  then show ?thesis
    by (simp only: points precompute_chord_def if_False Let_def precompute_fold[OF order_refl assms(1), unfolded Let_def] prod.case quads first)
qed

lemma precompute_tables:
  assumes "precompute_chord E X lambda = Inr pc"
  shows "tables_of E X lambda pc"
proof -
  let ?P = "chord_P E X" and ?C = "chord_C E X lambda" and ?n = "lambda div 2"
  let ?D = "\<lambda>j. ?P j + ?C j"
  let ?quad = "\<lambda>w. [?C (2 * w - 1) + ?C (2 * w), ?D (2 * w - 1) + ?C (2 * w), ?C (2 * w - 1) + ?D (2 * w), ?D (2 * w - 1) + ?D (2 * w)]"
  let ?points = "[?C 0, ?D 0] @ concat (map ?quad [1..<?n + 1])"
  have l: "0 < lambda" "even lambda" using assms by (auto simp: precompute_chord_def split: if_splits)
  have points: "table_points E X lambda = ?points" by (simp only: table_points_def Let_def)
  note precompute_eq[OF l, of X, unfolded points]
  with assms have "\<exists>cs. batch_affine E ?points = Inr cs \<and> Inr \<lparr>cp_c0 = cs ! 0, cp_d0 = cs ! 1, cp_windows = as_chunks4 (drop 2 cs),
      cp_powers = map ?P [0..<lambda + 1], cp_corrections = (chord_correction_generator E X, point_mul E (chord_correction_generator E X) 2,
        point_mul E (chord_correction_generator E X) (chord_cj lambda lambda))\<rparr> = (Inr pc :: ('p, 's) chord_precomp result)"
    by (simp only: rbind_eq_Inr)
  then obtain cs where cs0: "batch_affine E ?points = Inr cs"
    and pc0: "Inr \<lparr>cp_c0 = cs ! 0, cp_d0 = cs ! 1, cp_windows = as_chunks4 (drop 2 cs),
      cp_powers = map ?P [0..<lambda + 1], cp_corrections = (chord_correction_generator E X, point_mul E (chord_correction_generator E X) 2,
        point_mul E (chord_correction_generator E X) (chord_cj lambda lambda))\<rparr> = (Inr pc :: ('p, 's) chord_precomp result)"
    by blast
  have cs: "map (xy E) ?points = map Some cs" using cs0 by (simp only: batch_affine_Inr)
  have pc: "pc = \<lparr>cp_c0 = cs ! 0, cp_d0 = cs ! 1, cp_windows = as_chunks4 (drop 2 cs), cp_powers = map ?P [0..<lambda + 1],
      cp_corrections = (?C 0, point_mul E (chord_correction_generator E X) 2, ?C lambda)\<rparr>"
    using pc0 by (simp only: chord_C_eq(1) chord_C_eq(3)[OF l(1)] sum.inject)
  let ?v = "\<lambda>p. the (xy E p)"
  have some: "xy E p = Some (?v p)" if "p \<in> set ?points" for p
  proof -
    have "xy E p \<noteq> None" using conjunct1[OF cs[unfolded map_Some_the]] that by (rule bspec)
    then show ?thesis by auto
  qed
  have cs_eq: "cs = map ?v ?points"
    using cs unfolding map_Some_the by (rule conjunct2)
  have chunks: "as_chunks4 (drop 2 cs) = map (\<lambda>w. (?v (?C (2 * w - 1) + ?C (2 * w)), ?v (?D (2 * w - 1) + ?C (2 * w)),
      ?v (?C (2 * w - 1) + ?D (2 * w)), ?v (?D (2 * w - 1) + ?D (2 * w)))) [1..<?n + 1]"
    by (simp add: cs_eq map_concat comp_def as_chunks4_concat del: upt_Suc)
  have corr: "point_mul E (chord_correction_generator E X) 2 = ?C 1"
    using l by (subst chord_C_eq(2)) (auto elim!: evenE)
  have window: "window_point E X lambda (\<lambda>_. False) w = ?C (2 * w - 1) + ?C (2 * w)"
    "window_point E X lambda (\<lambda>j. j = 2 * w - 1) w = ?D (2 * w - 1) + ?C (2 * w)"
    "window_point E X lambda (\<lambda>j. j = 2 * w) w = ?C (2 * w - 1) + ?D (2 * w)"
    "window_point E X lambda (\<lambda>_. True) w = ?D (2 * w - 1) + ?D (2 * w)" if "1 \<le> w" for w
    using that by (auto simp: window_point_def add_ac)
  have win: "cp_windows pc ! (w - 1) = (?v (?C (2 * w - 1) + ?C (2 * w)), ?v (?D (2 * w - 1) + ?C (2 * w)),
        ?v (?C (2 * w - 1) + ?D (2 * w)), ?v (?D (2 * w - 1) + ?D (2 * w)))
      \<and> (\<forall>q \<in> set (?quad w). xy E q = Some (?v q))" if "1 \<le> w" "w \<le> ?n" for w
  proof -
    have "w \<in> set [1..<?n + 1]" using that by auto
    then have "set (?quad w) \<subseteq> set ?points" by (simp only: set_append set_concat set_map) blast
    with some have "\<forall>q \<in> set (?quad w). xy E q = Some (?v q)" by blast
    moreover have "[1..<?n + 1] ! (w - 1) = w" "w - 1 < length [1..<?n + 1]" using that by (simp_all del: upt_Suc)
    ultimately show ?thesis by (simp only: pc chord_precomp.simps chunks nth_map)
  qed
  have "\<exists>q00 q10 q01 q11. cp_windows pc ! (w - 1) = (q00, q10, q01, q11)
          \<and> xy E (window_point E X lambda (\<lambda>_. False) w) = Some q00
          \<and> xy E (window_point E X lambda (\<lambda>j. j = 2 * w - 1) w) = Some q10
          \<and> xy E (window_point E X lambda (\<lambda>j. j = 2 * w) w) = Some q01
          \<and> xy E (window_point E X lambda (\<lambda>_. True) w) = Some q11" if "1 \<le> w" "w \<le> ?n" for w
    unfolding window[OF that(1)]
    by (intro exI conjI, rule conjunct1[OF win[OF that]]) (use conjunct2[OF win[OF that]] in \<open>simp_all only: list.set ball_simps insert_iff\<close>)
  moreover have "length (cp_windows pc) = ?n" by (simp add: pc chunks del: upt_Suc)
  moreover have "xy E (?C 0) = Some (cp_c0 pc)" "xy E (?D 0) = Some (cp_d0 pc)"
    using some[of "?C 0"] some[of "?D 0"] by (simp_all add: pc cs_eq)
  moreover have "cp_powers pc = map ?P [0..<lambda + 1]" "cp_corrections pc = (?C 0, ?C 1, ?C lambda)"
    by (simp_all add: pc corr del: upt_Suc)
  ultimately show ?thesis using l unfolding tables_of_def by blast
qed

text \<open>The witness.\<close>

lemma chord_points_eq:
  assumes "tables_of E X lambda pc"
  shows "chord_points bs pc = (map (running E X lambda ((!) bs)) [0..<lambda div 2 + 1],
    map (window_point E X lambda ((!) bs)) [1..<lambda div 2 + 1])"
proof -
  let ?corr = "\<lambda>j. if j = 0 then chord_C E X lambda 0 else if j < lambda then chord_C E X lambda 1 else chord_C E X lambda lambda"
  have l: "0 < lambda" "even lambda" and pc: "cp_powers pc = map (chord_P E X) [0..<lambda + 1]"
    "cp_corrections pc = (chord_C E X lambda 0, chord_C E X lambda 1, chord_C E X lambda lambda)"
    using assms by (simp_all add: tables_of_def)
  have "1 < lambda" using l by (auto elim!: evenE)
  then have corr: "?corr j = chord_C E X lambda j" if "j \<le> lambda" for j
    using that chord_C_eq(2)[of 1 lambda X] chord_C_eq(2)[of j lambda X] by (cases "j = lambda") auto
  have power: "map (chord_P E X) [0..<lambda + 1] ! j = chord_P E X j" if "j \<le> lambda" for j
    using that by (simp del: upt_Suc)
  have fold_eq: "fold (\<lambda>w (l, l_points, delta_points).
             let (j1, j2) = (2 * w - 1, 2 * w);
                 delta = ?corr j1 + ?corr j2;
                 delta = (if bs ! j1 then delta + map (chord_P E X) [0..<lambda + 1] ! j1 else delta);
                 delta = (if bs ! j2 then delta + map (chord_P E X) [0..<lambda + 1] ! j2 else delta);
                 l = l + delta
             in (l, l_points @ [l], delta_points @ [delta])) [1..<n + 1] (running E X lambda ((!) bs) 0, [running E X lambda ((!) bs) 0], [])
      = (running E X lambda ((!) bs) n, map (running E X lambda ((!) bs)) [0..<n + 1], map (window_point E X lambda ((!) bs)) [1..<n + 1])"
    if "n \<le> lambda div 2" for n
    using that
  proof (induction n)
    case (Suc n)
    have j: "2 * Suc n - 1 \<le> lambda" "2 * Suc n \<le> lambda" using Suc.prems by auto
    have delta: "(if bs ! (2 * Suc n) then (if bs ! (2 * Suc n - 1) then ?corr (2 * Suc n - 1) + ?corr (2 * Suc n) + map (chord_P E X) [0..<lambda + 1] ! (2 * Suc n - 1)
          else ?corr (2 * Suc n - 1) + ?corr (2 * Suc n)) + map (chord_P E X) [0..<lambda + 1] ! (2 * Suc n)
        else (if bs ! (2 * Suc n - 1) then ?corr (2 * Suc n - 1) + ?corr (2 * Suc n) + map (chord_P E X) [0..<lambda + 1] ! (2 * Suc n - 1)
          else ?corr (2 * Suc n - 1) + ?corr (2 * Suc n)))
      = window_point E X lambda ((!) bs) (Suc n)"
      unfolding corr[OF j(1)] corr[OF j(2)] power[OF j(1)] power[OF j(2)] by (simp add: window_point_def)
    have "[1..<Suc n + 1] = [1..<n + 1] @ [Suc n]" "[0..<Suc n + 1] = [0..<n + 1] @ [Suc n]" by simp_all
    with Suc.IH Suc.prems show ?case
      unfolding Let_def prod.case by (simp only: fold_append comp_def fold_simps prod.case delta running.simps(2) map_append list.map)
  qed simp
  have "(if bs ! 0 then map (chord_P E X) [0..<lambda + 1] ! 0 + ?corr 0 else ?corr 0) = running E X lambda ((!) bs) 0"
    by (simp add: power del: upt_Suc)
  moreover have "length (cp_powers pc) - 1 = lambda" by (simp add: pc)
  ultimately show ?thesis
    using fold_eq[OF order_refl] by (simp only: chord_points_def Let_def pc prod.case)
qed

lemma chord_differences_Inr:
  "chord_differences l d ws dxs dys = Inr (dxs', dys') \<longleftrightarrow> (\<forall>w \<in> set ws. fst (l ! (w - 1)) \<noteq> fst (d ! (w - 1)))
    \<and> dxs' = dxs @ map (\<lambda>w. fst (l ! (w - 1)) - fst (d ! (w - 1))) ws \<and> dys' = dys @ map (\<lambda>w. snd (l ! (w - 1)) - snd (d ! (w - 1))) ws"
  by (induction ws arbitrary: dxs dys) (auto simp: case_prod_unfold Let_def)

lemma compute_witness_of:
  assumes "tables_of E X lambda pc" "cycle_laws D" "chord_compute_witness_precomputed E D bs pc = Inr wit"
  shows "length bs = lambda + 1 \<and> witness_of E X lambda ((!) bs) wit"
proof -
  let ?n = "lambda div 2" and ?R = "running E X lambda ((!) bs)" and ?W = "window_point E X lambda ((!) bs)"
  have pl: "length (cp_powers pc) - 1 = lambda" using assms(1) by (simp add: tables_of_def)
  have len: "length bs = lambda + 1"
    using assms(3) by (rule contrapos_pp) (simp only: chord_compute_witness_precomputed_def pl Let_def if_True simp_thms, simp)
  let ?build = "\<lambda>cs dxs dys. \<lparr>checkpoint_coords = map ((!) (take (?n + 1) cs)) (filter (\<lambda>w. chord_is_checkpoint_window w ?n) [1..<?n + 1]),
        slopes = map (\<lambda>(dy, dx_inv). dy * dx_inv) (zip dys (fst (scalar_batch_invert D dxs))), denominators = dxs\<rparr>"
  obtain cs ds where cs: "map (xy E) (map ?R [0..<?n + 1] @ map ?W [1..<?n + 1]) = map Some cs"
    and ds: "chord_differences (take (?n + 1) cs) (drop (?n + 1) cs) [1..<?n + 1] [] [] = Inr ds"
    and built: "(case ds of (dxs, dys) \<Rightarrow> Inr (?build cs dxs dys)) = (Inr wit :: 's chord_witness result)"
    using assms(3) unfolding chord_compute_witness_precomputed_def pl chord_points_eq[OF assms(1)] Let_def prod.case len
      simp_thms if_False rbind_eq_Inr batch_affine_Inr
    by (elim exE conjE) (rule that)
  obtain dxs dys where pair: "ds = (dxs, dys)" by (cases ds)
  have diff: "chord_differences (take (?n + 1) cs) (drop (?n + 1) cs) [1..<?n + 1] [] [] = Inr (dxs, dys)"
    using ds unfolding pair .
  have wit: "wit = ?build cs dxs dys"
    using built unfolding pair prod.case sum.inject by (rule sym)
  let ?v = "\<lambda>p. the (xy E p)"
  have all: "xy E p = Some (?v p)" if "p \<in> set (map ?R [0..<?n + 1] @ map ?W [1..<?n + 1])" for p
    using cs that unfolding map_Some_the by (metis option.exhaust_sel)
  have some: "xy E (?R w) = Some (?v (?R w))" if "w \<le> ?n" for w
    using that by (intro all) (auto simp del: upt_Suc)
  have some': "xy E (?W w) = Some (?v (?W w))" if "1 \<le> w" "w \<le> ?n" for w
    using that by (intro all) (auto simp del: upt_Suc)
  have cs_eq: "take (?n + 1) cs = map (\<lambda>w. ?v (?R w)) [0..<?n + 1]" "drop (?n + 1) cs = map (\<lambda>w. ?v (?W w)) [1..<?n + 1]"
    using cs unfolding map_Some_the by (simp_all add: comp_def del: upt_Suc)
  have nth: "take (?n + 1) cs ! w = ?v (?R w)" if "w \<le> ?n" for w
    using that by (simp only: cs_eq) (simp del: upt_Suc)
  have upt_nth: "[1..<n + 1] ! (w - 1) = w" if "1 \<le> w" "w \<le> n" for w n
    using that by (simp del: upt_Suc)
  have nth': "drop (?n + 1) cs ! (w - 1) = ?v (?W w)" if "1 \<le> w" "w \<le> ?n" for w
    using that upt_nth[OF that] by (simp only: cs_eq) (simp del: upt_Suc)
  have each: "1 \<le> w \<and> w \<le> ?n" if "w \<in> set [1..<?n + 1]" for w
    using that by auto
  have prev: "take (?n + 1) cs ! (w - 1) = ?v (?R (w - 1))" if "1 \<le> w" "w \<le> ?n" for w
    using that by (intro nth) simp
  note d = diff[unfolded chord_differences_Inr]
  have ne: "fst (?v (?R (w - 1))) \<noteq> fst (?v (?W w))" if "1 \<le> w" "w \<le> ?n" for w
  proof -
    have "w \<in> set [1..<?n + 1]" "w - 1 \<le> ?n" using that by auto
    then show ?thesis using conjunct1[OF d] nth[of "w - 1"] nth'[OF that] by metis
  qed
  have dxs: "dxs = map (\<lambda>w. fst (?v (?R (w - 1))) - fst (?v (?W w))) [1..<?n + 1]"
    and dys: "dys = map (\<lambda>w. snd (?v (?R (w - 1))) - snd (?v (?W w))) [1..<?n + 1]"
    unfolding conjunct1[OF conjunct2[OF d]] conjunct2[OF conjunct2[OF d]] append_Nil
    by (rule map_cong[OF refl], drule each, simp add: prev nth' del: nth_take One_nat_def)+
  have "0 \<notin> set dxs" using ne by (auto simp: dxs)
  then have inv: "fst (scalar_batch_invert D dxs) = map inverse dxs"
    using cycle_laws.batch_invert_value[OF assms(2)] by simp
  have c: "checkpoint_coords wit = map (\<lambda>w. ?v (?R w)) (filter (\<lambda>w. chord_is_checkpoint_window w ?n) [1..<?n + 1])"
    using nth by (auto simp: wit simp del: upt_Suc)
  have s: "slopes wit = map (\<lambda>w. (snd (?v (?R (w - 1))) - snd (?v (?W w))) / (fst (?v (?R (w - 1))) - fst (?v (?W w)))) [1..<?n + 1]"
    unfolding wit chord_witness.simps inv unfolding dxs dys
    by (simp add: zip_map_map zip_same_conv_map comp_def divide_inverse del: upt_Suc)
  have d: "denominators wit = map (\<lambda>w. fst (?v (?R (w - 1))) - fst (?v (?W w))) [1..<?n + 1]"
    by (simp add: wit dxs del: upt_Suc)
  have "witness_of E X lambda ((!) bs) wit"
    unfolding witness_of_def
    by (rule exI[of _ "\<lambda>w. ?v (?R w)"], rule exI[of _ "\<lambda>w. ?v (?W w)"], intro conjI allI impI)
      (rule some some' ne c s d | assumption)+
  with len show ?thesis by simp
qed

text \<open>The corrections cancel.\<close>

lemma chord_cj_partial: "0 < n \<Longrightarrow> n \<le> lambda \<Longrightarrow> (\<Sum>j<n. chord_cj j lambda) = (2 * of_nat n - 1 :: 'q)"
proof (induction n)
  case (Suc n)
  then show ?case by (cases "n = 0") (auto simp: chord_cj_def algebra_simps)
qed simp

lemma chord_cj_sum: "0 < lambda \<Longrightarrow> (\<Sum>j<lambda + 1. chord_cj j lambda) = (0 :: 'q)"
  using chord_cj_partial[of lambda lambda] by (simp add: chord_cj_def)

lemma running_closed:
  assumes "w \<le> lambda div 2"
  shows "running E X lambda b w = point_mul E X (of_nat (bits_int (map b [0..<2 * w + 1])))
    + point_mul E (chord_correction_generator E X) (\<Sum>j<2 * w + 1. chord_cj j lambda)"
proof (induction w)
  case 0
  then show ?case by (simp add: chord_P_def chord_C_def)
next
  case (Suc w)
  let ?g = "chord_correction_generator E X"
  have two: "2 * Suc w + 1 = Suc (Suc (2 * w + 1))" by simp
  have b: "bits_int (map b [0..<2 * Suc w + 1])
      = bits_int (map b [0..<2 * w + 1]) + (2 ^ (2 * w + 1) * of_bool (b (2 * w + 1)) + 2 ^ (2 * w + 2) * of_bool (b (2 * w + 2)))"
    by (simp add: two bits_int_append)
  have c: "(\<Sum>j<2 * Suc w + 1. chord_cj j lambda) = (\<Sum>j<2 * w + 1. chord_cj j lambda) + (chord_cj (2 * w + 1) lambda + chord_cj (2 * w + 2) lambda :: 'q)"
    by (simp add: two add.assoc)
  have step: "window_point E X lambda b (Suc w) = point_mul E X (of_nat (2 ^ (2 * w + 1) * of_bool (b (2 * w + 1)) + 2 ^ (2 * w + 2) * of_bool (b (2 * w + 2))))
      + point_mul E ?g (chord_cj (2 * w + 1) lambda + chord_cj (2 * w + 2) lambda)"
    by (simp add: window_point_def chord_P_def chord_C_def pmul_add algebra_simps)
  show ?case
    unfolding running.simps(2) Suc.IH step b c of_nat_add pmul_add by (simp only: add_ac)
qed

lemma running_end:
  assumes "0 < lambda" "even lambda"
  shows "running E X lambda b (lambda div 2) = point_mul E X (of_nat (bits_int (map b [0..<lambda + 1])))"
  using running_closed[OF order_refl, of X lambda b] chord_cj_sum[OF assms(1)] assms(2) by simp

end

text \<open>The number of checkpoints.\<close>

lemma count_multiples: "0 < m \<Longrightarrow> length (filter ((dvd) m) [1..<n + 1]) = n div m"
proof (induction n)
  case (Suc n)
  have "[1..<Suc n + 1] = [1..<n + 1] @ [Suc n]" by simp
  moreover have "Suc n div m = n div m + (if m dvd Suc n then 1 else 0)"
    by (simp add: div_Suc dvd_eq_mod_eq_0)
  ultimately show ?case using Suc by simp
qed simp

lemma checkpoint_count_eq:
  assumes "0 < n"
  shows "chord_checkpoint_count n = length (filter (\<lambda>w. chord_is_checkpoint_window w n) [1..<n + 1])"
proof -
  obtain m where n: "n = Suc m" using assms gr0_conv_Suc by blast
  have split: "[1..<n + 1] = [1..<m + 1] @ [n]" by (simp add: n)
  have "filter (\<lambda>w. chord_is_checkpoint_window w n) [1..<m + 1] = filter ((dvd) 16) [1..<m + 1]"
    by (intro filter_cong refl) (auto simp: chord_is_checkpoint_window_def CHORD_CHECKPOINT_INTERVAL_def n)
  then have "length (filter (\<lambda>w. chord_is_checkpoint_window w n) [1..<n + 1]) = m div 16 + 1"
    using count_multiples[of 16 m] unfolding split by (simp add: chord_is_checkpoint_window_def)
  moreover have "chord_checkpoint_count n = m div 16 + 1"
    by (simp add: chord_checkpoint_count_def CHORD_CHECKPOINT_INTERVAL_def n Let_def div_Suc dvd_eq_mod_eq_0)
  ultimately show ?thesis by simp
qed

lemma filter_nth_count:
  assumes "P w" "1 \<le> w" "w \<le> n"
  shows "map f (filter P [1..<n + 1]) ! length (filter P [1..<w]) = f w"
proof -
  have "[1..<n + 1] = [1..<w] @ w # [w + 1..<n + 1]"
    using assms(2,3) upt_add_eq_append[of 1 w "n + 1 - w"] upt_conv_Cons[of w "n + 1"] by simp
  then show ?thesis using assms(1) by (simp add: nth_append)
qed

end
