(* ===== verification/Evrf_Chord_Circuit.thy ===== *)
theory Evrf_Chord_Circuit
  imports Evrf_Chord_Laws
begin

text \<open>
  The circuit of chord-rule exponentiation: what it enforces, that the witness completes it, and the number of
  its gates.
\<close>

section \<open>Selecting the point of a window\<close>

lemma window_point_cong:
  "b (2 * w - 1) = b' (2 * w - 1) \<Longrightarrow> b (2 * w) = b' (2 * w) \<Longrightarrow> window_point E X lambda b w = window_point E X lambda b' w"
  by (simp add: window_point_def)

definition select4 :: "'s::field \<Rightarrow> 's \<Rightarrow> 's \<Rightarrow> 's \<Rightarrow> bool \<Rightarrow> bool \<Rightarrow> 's" where
  "select4 q00 q10 q01 q11 b0 b1 = q00 + (q10 - q00) * of_bool b0 + (q01 - q00) * of_bool b1
     + (q11 - q10 - q01 + q00) * of_bool (b0 \<and> b1)"

lemma select4_eq: "select4 q00 q10 q01 q11 b0 b1 = (if b0 then if b1 then q11 else q10 else if b1 then q01 else q00)"
  by (simp add: select4_def)

lemma window_select:
  assumes "tables_of E X lambda pc" "1 \<le> w" "w \<le> lambda div 2" "xy E (window_point E X lambda b w) = Some d"
    and "cp_windows pc ! (w - 1) = (q00, q10, q01, q11)"
  shows "select4 (fst q00) (fst q10) (fst q01) (fst q11) (b (2 * w - 1)) (b (2 * w)) = fst d"
    and "select4 (snd q00) (snd q10) (snd q01) (snd q11) (b (2 * w - 1)) (b (2 * w)) = snd d"
proof -
  have q: "xy E (window_point E X lambda (\<lambda>_. False) w) = Some q00" "xy E (window_point E X lambda (\<lambda>j. j = 2 * w - 1) w) = Some q10"
    "xy E (window_point E X lambda (\<lambda>j. j = 2 * w) w) = Some q01" "xy E (window_point E X lambda (\<lambda>_. True) w) = Some q11"
    using assms(1-3,5) unfolding tables_of_def by (metis prod.inject)+
  have ne: "2 * w - 1 \<noteq> 2 * w" using assms(2) by simp
  have d: "d = (if b (2 * w - 1) then if b (2 * w) then q11 else q10 else if b (2 * w) then q01 else q00)"
  proof (cases "b (2 * w - 1)"; cases "b (2 * w)")
    assume "b (2 * w - 1)" "b (2 * w)"
    then show ?thesis using q(4) assms(4) window_point_cong[of b w "\<lambda>_. True" E X lambda] by simp
  next
    assume "b (2 * w - 1)" "\<not> b (2 * w)"
    then show ?thesis using q(2) assms(4) ne window_point_cong[of b w "\<lambda>j. j = 2 * w - 1" E X lambda] by simp
  next
    assume "\<not> b (2 * w - 1)" "b (2 * w)"
    then show ?thesis using q(3) assms(4) ne window_point_cong[of b w "\<lambda>j. j = 2 * w" E X lambda] by simp
  next
    assume "\<not> b (2 * w - 1)" "\<not> b (2 * w)"
    then show ?thesis using q(1) assms(4) window_point_cong[of b w "\<lambda>_. False" E X lambda] by simp
  qed
  show "select4 (fst q00) (fst q10) (fst q01) (fst q11) (b (2 * w - 1)) (b (2 * w)) = fst d"
    and "select4 (snd q00) (snd q10) (snd q01) (snd q11) (b (2 * w - 1)) (b (2 * w)) = snd d"
    by (simp_all add: d select4_eq)
qed

lemma delta_lc_value:
  assumes "env ConstantOne = 1" "env s0 = of_bool b0" "env s1 = of_bool b1" "env a = of_bool (b0 \<and> b1)"
  shows "lc_value env (window_delta_x_lc s0 s1 a (q00, q10, q01, q11)) = select4 (fst q00) (fst q10) (fst q01) (fst q11) b0 b1"
    and "lc_value env (window_delta_y_lc s0 s1 a (q00, q10, q01, q11)) = select4 (snd q00) (snd q10) (snd q01) (snd q11) b0 b1"
  using assms by (simp_all add: window_delta_x_lc_def window_delta_y_lc_def case_prod_unfold lc_value_ops select4_def)

lemma delta_lc_has:
  assumes "has p s0 (of_bool b0)" "has p s1 (of_bool b1)" "has p a (of_bool (b0 \<and> b1))"
  shows "lc_has p (window_delta_x_lc s0 s1 a (q00, q10, q01, q11)) (select4 (fst q00) (fst q10) (fst q01) (fst q11) b0 b1)"
    and "lc_has p (window_delta_y_lc s0 s1 a (q00, q10, q01, q11)) (select4 (snd q00) (snd q10) (snd q01) (snd q11) b0 b1)"
  unfolding window_delta_x_lc_def window_delta_y_lc_def case_prod_unfold select4_def fst_conv snd_conv
  by (rule lc_has_rules assms)+

text \<open>One addition with the slope.\<close>

lemma chord_sum_slope:
  fixes s :: "'s::field"
  assumes "s * (xp - xd) = yp - yd" "xp \<noteq> xd"
  shows "chord_sum (xp, yp) (xd, yd) = (s * s - xp - xd, s * (xp - (s * s - xp - xd)) - yp)"
proof -
  have "s = (yp - yd) / (xp - xd)" using assms by (simp add: field_simps)
  then show ?thesis by (simp add: chord_sum_def Let_def)
qed

lemma witness_ofE:
  assumes "witness_of E X lambda b wit"
  obtains L Delta where "\<And>w. w \<le> lambda div 2 \<Longrightarrow> xy E (running E X lambda b w) = Some (L w)"
    "\<And>w. 1 \<le> w \<Longrightarrow> w \<le> lambda div 2 \<Longrightarrow> xy E (window_point E X lambda b w) = Some (Delta w) \<and> fst (L (w - 1)) \<noteq> fst (Delta w)"
    "checkpoint_coords wit = map L (filter (\<lambda>w. chord_is_checkpoint_window w (lambda div 2)) [1..<lambda div 2 + 1])"
    "slopes wit = map (\<lambda>w. (snd (L (w - 1)) - snd (Delta w)) / (fst (L (w - 1)) - fst (Delta w))) [1..<lambda div 2 + 1]"
    "denominators wit = map (\<lambda>w. fst (L (w - 1)) - fst (Delta w)) [1..<lambda div 2 + 1]"
  using assms unfolding witness_of_def
  apply (elim exE conjE)
  subgoal premises holds for L Delta
    by (rule holds(1)[OF _ _ holds(4-6)]) (use holds(2,3) in auto)
  done

section \<open>What the circuit enforces\<close>

lemma window_products_enforces:
  assumes "\<And>ps. length ps = length ws \<Longrightarrow> (\<forall>i < length ws. env (ps ! i) = env (bit_vars ! (2 * (ws ! i) - 1)) * env (bit_vars ! (2 * (ws ! i)))) \<Longrightarrow>
    enforces M C env (k (products @ ps)) Q"
  shows "enforces M C env (window_products_loop bit_vars ws products k) Q"
  using assms
proof (induction ws arbitrary: products)
  case Nil
  from Nil[of "[]"] show ?case by simp
next
  case (Cons w ws)
  show ?case
    unfolding window_products_loop.simps
  proof (rule enforces_Multiply, unfold prod.case, rule Cons.IH)
    fix l r a ps
    assume a: "env a = lc_value env (lc_from_variable (bit_vars ! (2 * w - 1))) * lc_value env (lc_from_variable (bit_vars ! (2 * w)))"
      and ps: "length ps = length ws" "\<forall>i < length ws. env (ps ! i) = env (bit_vars ! (2 * (ws ! i) - 1)) * env (bit_vars ! (2 * (ws ! i)))"
    have "enforces M C env (k (products @ a # ps)) Q"
    proof (rule Cons.prems)
      show "\<forall>i < length (w # ws). env ((a # ps) ! i) = env (bit_vars ! (2 * ((w # ws) ! i) - 1)) * env (bit_vars ! (2 * ((w # ws) ! i)))"
        using a ps(2) by (auto simp: lc_value_ops nth_Cons split: nat.splits)
    qed (simp add: ps)
    then show "enforces M C env (k ((products @ [a]) @ ps)) Q" by simp
  qed
qed

text \<open>\<open>products_of\<close>: the variables hold the products of the bits of each window.\<close>

definition products_of :: "(nat \<Rightarrow> bool) \<Rightarrow> nat \<Rightarrow> 's::field list \<Rightarrow> bool" where
  "products_of b n xs \<longleftrightarrow> xs = map (\<lambda>w. of_bool (b (2 * w - 1) \<and> b (2 * w))) [1..<n + 1]"

lemma products_of_nth:
  assumes "products_of b n xs" "1 \<le> w" "w \<le> n"
  shows "w - 1 < length xs \<and> xs ! (w - 1) = of_bool (b (2 * w - 1) \<and> b (2 * w))"
proof -
  have "w - 1 < n" using assms(2,3) by simp
  with assms show ?thesis by (simp add: products_of_def del: upt_Suc)
qed

lemma chord_window_products_enforces:
  assumes "map env bit_vars = map of_bool bs"
    and "\<And>ps. length bs \<ge> 3 \<Longrightarrow> odd (length bs) \<Longrightarrow> products_of ((!) bs) ((length bs - 1) div 2) (map env ps) \<Longrightarrow> enforces M C env (k ps) Q"
  shows "enforces M C env (chord_window_products bit_vars k) Q"
proof (cases "length bit_vars < 3 \<or> even (length bit_vars)")
  case True
  then show ?thesis by (auto simp: chord_window_products_def intro: enforces_Finish)
next
  case False
  have len: "length bs = length bit_vars" using map_eq_imp_length_eq[OF assms(1)] by simp
  let ?n = "(length bit_vars - 1) div 2"
  have bits: "env (bit_vars ! j) = of_bool (bs ! j)" if "j < length bs" for j
    using that len arg_cong[OF assms(1), of "\<lambda>xs. xs ! j"] by simp
  have "enforces M C env (window_products_loop bit_vars [1..<?n + 1] [] k) Q"
  proof (rule window_products_enforces)
    fix ps
    assume ps: "length ps = length [1..<?n + 1]" "\<forall>i < length [1..<?n + 1]. env (ps ! i)
      = env (bit_vars ! (2 * ([1..<?n + 1] ! i) - 1)) * env (bit_vars ! (2 * ([1..<?n + 1] ! i)))"
    have "products_of ((!) bs) ?n (map env ps)"
      unfolding products_of_def
    proof (rule nth_equalityI)
      fix i assume "i < length (map env ps)"
      then have i: "i < ?n" using ps(1) by (simp del: upt_Suc)
      then have "2 * Suc i < length bs" "[1..<?n + 1] ! i = Suc i" "i < length [1..<?n + 1]" using False len by (auto simp del: upt_Suc)
      then show "map env ps ! i = map (\<lambda>w. of_bool (bs ! (2 * w - 1) \<and> bs ! (2 * w))) [1..<?n + 1] ! i"
        using ps i bits[of "2 * Suc i"] bits[of "2 * Suc i - 1"] by (simp add: of_bool_conj del: upt_Suc)
    qed (use ps in simp)
    then show "enforces M C env (k ([] @ ps)) Q" using assms(2)[of ps] False len by simp
  qed
  with False show ?thesis by (simp add: chord_window_products_def)
qed

lemma upt_Suc_Cons: "m < n \<Longrightarrow> [m + 1..<n + 1] = (m + 1) # [m + 1 + 1..<n + 1]"
  by (simp add: upt_conv_Cons)

context chord_curve
begin

lemma chord_loop_enforces:
  assumes one: "env ConstantOne = 1" and tables: "tables_of E X lambda pc"
    and bits: "\<And>j. j \<le> lambda \<Longrightarrow> env (bit_vars ! j) = of_bool (b j)"
    and products: "\<And>w. 1 \<le> w \<Longrightarrow> w \<le> lambda div 2 \<Longrightarrow> env (wps ! (w - 1)) = of_bool (b (2 * w - 1) \<and> b (2 * w))"
    and L: "\<And>w. w \<le> lambda div 2 \<Longrightarrow> xy E (running E X lambda b w) = Some (L w)"
    and Delta: "\<And>w. 1 \<le> w \<Longrightarrow> w \<le> lambda div 2 \<Longrightarrow> xy E (window_point E X lambda b w) = Some (Delta w) \<and> fst (L (w - 1)) \<noteq> fst (Delta w)"
    and finish: "\<And>xv yv. env xv = fst (L (lambda div 2)) \<Longrightarrow> env yv = snd (L (lambda div 2)) \<Longrightarrow> enforces M C env (k (Some (xv, yv))) Q"
    and "m \<le> lambda div 2" "lc_value env x_prev = fst (L m)" "lc_value env y_prev = snd (L m)"
    and "m = lambda div 2 \<Longrightarrow> \<exists>xv yv. checkpoint = Some (xv, yv) \<and> env xv = fst (L m) \<and> env yv = snd (L m)"
  shows "enforces M C env (chord_loop bit_vars pc wps wit (lambda div 2) [m + 1..<lambda div 2 + 1] x_prev y_prev checkpoint idx k) Q"
  using assms(8-11)
proof (induction "lambda div 2 - m" arbitrary: m x_prev y_prev checkpoint idx)
  case 0
  then have m: "m = lambda div 2" by simp
  then obtain xv yv where "checkpoint = Some (xv, yv)" "env xv = fst (L m)" "env yv = snd (L m)" using 0 by blast
  then show ?case using finish m by simp
next
  case (Suc d)
  let ?n = "lambda div 2" and ?w = "m + 1"
  have m: "m < ?n" using Suc by linarith
  have w: "1 \<le> ?w" "?w \<le> ?n" using m by auto
  obtain q00 q10 q01 q11 where win: "cp_windows pc ! (?w - 1) = (q00, q10, q01, q11)" by (metis prod_cases4)
  let ?dx = "window_delta_x_lc (bit_vars ! (2 * ?w - 1)) (bit_vars ! (2 * ?w)) (wps ! (?w - 1)) (q00, q10, q01, q11)"
  let ?dy = "window_delta_y_lc (bit_vars ! (2 * ?w - 1)) (bit_vars ! (2 * ?w)) (wps ! (?w - 1)) (q00, q10, q01, q11)"
  have j: "2 * ?w - 1 \<le> lambda" "2 * ?w \<le> lambda" using m by auto
  note D = Delta[OF w]
  have dx: "lc_value env ?dx = fst (Delta ?w)" "lc_value env ?dy = snd (Delta ?w)"
    using delta_lc_value[OF one bits[OF j(1)] bits[OF j(2)] products[OF w]] window_select[OF tables w conjunct1[OF D] win]
    by simp_all
  have next_point: "L ?w = chord_sum (L m) (Delta ?w)"
    using xy_add[OF L[of m] conjunct1[OF D]] L[of ?w] conjunct2[OF D] w by simp
  show ?case
    unfolding upt_Suc_Cons[OF m] chord_loop.simps Let_def win
  proof (rule enforces_AllocateMultiplier, unfold prod.case, rule enforces_Constrain, rule enforces_Constrain,
      rule enforces_Multiply, unfold prod.case, rule enforces_Multiply, unfold prod.case)
    fix s den out1 l2 r2 out2 l3 r3 out3
    let ?xl = "lc_sub (variable_sub out2 x_prev) ?dx" and ?yl = "variable_sub out3 y_prev"
    assume g1: "env out1 = env s * env den" and c1: "lc_value env (variable_sub den (lc_sub x_prev ?dx)) = 0"
      and c2: "lc_value env (variable_sub out1 (lc_sub y_prev ?dy)) = 0"
      and g2: "env out2 = lc_value env (lc_from_variable s) * lc_value env (lc_from_variable s)"
      and g3: "env out3 = lc_value env (lc_from_variable s) * lc_value env (lc_sub x_prev ?xl)"
    have slope: "env s * (fst (L m) - fst (Delta ?w)) = snd (L m) - snd (Delta ?w)"
      using g1 c1 c2 dx Suc.prems(2,3) by (simp add: lc_value_ops)
    have ne: "fst (L m) \<noteq> fst (Delta ?w)" using conjunct2[OF D] by simp
    have Lw: "L ?w = (env s * env s - fst (L m) - fst (Delta ?w),
        env s * (fst (L m) - (env s * env s - fst (L m) - fst (Delta ?w))) - snd (L m))"
      using chord_sum_slope[OF slope ne] unfolding next_point by simp
    have vals: "lc_value env ?xl = fst (L ?w)" "lc_value env ?yl = snd (L ?w)"
      unfolding Lw using g2 g3 dx Suc.prems(2,3) by (simp_all add: lc_value_ops)
    have d: "d = ?n - ?w" using Suc.hyps(2) by simp
    show "enforces M C env (if chord_is_checkpoint_window ?w ?n
         then Allocate (map_option (\<lambda>wit. fst (checkpoint_coords wit ! idx)) wit) (\<lambda>x_ck.
              Allocate (map_option (\<lambda>wit. snd (checkpoint_coords wit ! idx)) wit) (\<lambda>y_ck.
              Constrain (lc_sub ?xl (lc_from_variable x_ck)) (Constrain (lc_sub ?yl (lc_from_variable y_ck))
             (chord_loop bit_vars pc wps wit ?n [?w + 1..<?n + 1] (lc_from_variable x_ck) (lc_from_variable y_ck) (Some (x_ck, y_ck)) (idx + 1) k))))
         else chord_loop bit_vars pc wps wit ?n [?w + 1..<?n + 1] ?xl ?yl checkpoint idx k) Q"
    proof (cases "chord_is_checkpoint_window ?w ?n")
      case True
      show ?thesis
        unfolding if_P[OF True]
      proof (rule enforces_Allocate, rule enforces_Allocate, rule enforces_Constrain, rule enforces_Constrain)
        fix x_ck y_ck
        assume "lc_value env (lc_sub ?xl (lc_from_variable x_ck)) = 0" "lc_value env (lc_sub ?yl (lc_from_variable y_ck)) = 0"
        then have ck: "env x_ck = fst (L ?w)" "env y_ck = snd (L ?w)"
          using vals by (simp_all add: lc_value_ops(1,5))
        show "enforces M C env (chord_loop bit_vars pc wps wit ?n [?w + 1..<?n + 1] (lc_from_variable x_ck) (lc_from_variable y_ck)
            (Some (x_ck, y_ck)) (idx + 1) k) Q"
          by (rule Suc.hyps(1)[OF d w(2)]) (simp_all add: lc_value_ops ck)
      qed
    next
      case False
      then have "?w \<noteq> ?n" by (auto simp: chord_is_checkpoint_window_def)
      then show ?thesis
        unfolding if_not_P[OF False] by (intro Suc.hyps(1)[OF d w(2) vals]) simp
    qed
  qed
qed

lemma chord_exponentiate_enforces:
  assumes tables: "tables_of E X lambda pc" and wit: "witness_of E X lambda ((!) bs) wit" and bs: "length bs = lambda + 1"
    and bits: "map env bit_vars = map of_bool bs" and products: "products_of ((!) bs) (lambda div 2) (map env wps)"
    and result_is: "\<And>xv yv. xy E (point_mul E X (of_nat (bits_int bs))) = Some (env xv, env yv) \<Longrightarrow>
      (\<And>rx ry. res = Some (rx, ry) \<Longrightarrow> (env xv, env yv) = (rx, ry)) \<Longrightarrow> enforces M C env (k (xv, yv)) Q"
  shows "enforces M C env (chord_exponentiate_r1cs_with_result bit_vars pc wps res witness k) Q"
proof (rule enforces_one)
  assume one: "env ConstantOne = 1"
  let ?n = "lambda div 2"
  have len: "length bit_vars = lambda + 1" using map_eq_imp_length_eq[OF bits] bs by simp
  have l: "0 < lambda" "even lambda"
    using tables by (simp_all add: tables_of_def)
  have bit_val: "env (bit_vars ! j) = of_bool (bs ! j)" if "j \<le> lambda" for j
    using that len bs arg_cong[OF bits, of "\<lambda>xs. xs ! j"] by simp
  obtain L Delta where L: "\<And>w. w \<le> ?n \<Longrightarrow> xy E (running E X lambda ((!) bs) w) = Some (L w)"
    and Delta: "\<And>w. 1 \<le> w \<Longrightarrow> w \<le> ?n \<Longrightarrow> xy E (window_point E X lambda ((!) bs) w) = Some (Delta w) \<and> fst (L (w - 1)) \<noteq> fst (Delta w)"
    by (rule witness_ofE[OF wit]) (rule that)
  have first: "L 0 = (if bs ! 0 then cp_d0 pc else cp_c0 pc)"
    using L[of 0] tables by (simp add: tables_of_def split: if_splits)
  have start: "lc_value env (delta0_x_lc (bit_vars ! 0) pc) = fst (L 0)" "lc_value env (delta0_y_lc (bit_vars ! 0) pc) = snd (L 0)"
    unfolding delta0_x_lc_def delta0_y_lc_def case_prod_unfold Let_def lc_value_ops one bit_val[OF le0] first
    by (cases "bs ! 0"; simp)+
  have loop: "enforces M C env (chord_loop bit_vars pc wps witness ?n [0 + 1..<?n + 1] (delta0_x_lc (bit_vars ! 0) pc)
      (delta0_y_lc (bit_vars ! 0) pc) None 0 k') Q"
    if "\<And>xv yv. env xv = fst (L ?n) \<Longrightarrow> env yv = snd (L ?n) \<Longrightarrow> enforces M C env (k' (Some (xv, yv))) Q" for k'
  proof (rule chord_loop_enforces[where env = env and b = "(!) bs" and L = L and Delta = Delta and k = k', OF one tables bit_val _ L Delta that])
    fix w assume "1 \<le> w" "w \<le> ?n"
    note nth = products_of_nth[OF products this]
    have "w - 1 < length wps" using conjunct1[OF nth] by simp
    then show "env (wps ! (w - 1)) = of_bool (bs ! (2 * w - 1) \<and> bs ! (2 * w))" using conjunct2[OF nth] by simp
  next
    show "\<exists>xv yv. None = Some (xv, yv) \<and> env xv = fst (L 0) \<and> env yv = snd (L 0)" if "0 = ?n"
      using that l by (auto elim!: evenE)
  qed (simp_all add: start)
  have final: "xy E (point_mul E X (of_nat (bits_int bs))) = Some (L ?n)"
    using L[OF order_refl] running_end[OF l(1,2), of X "(!) bs"] bs map_nth[of bs] by simp
  show ?thesis
    unfolding chord_exponentiate_r1cs_with_result_def Let_def
  proof (rule enforces_if, rule enforces_error, rule enforces_if, rule enforces_error, rule enforces_if, rule enforces_error)
    have n: "(length bit_vars - 1) div 2 = ?n" using len by simp
    show "enforces M C env (chord_loop bit_vars pc wps witness ((length bit_vars - 1) div 2) [1..<(length bit_vars - 1) div 2 + 1]
        (delta0_x_lc (bit_vars ! 0) pc) (delta0_y_lc (bit_vars ! 0) pc) None 0
        (\<lambda>checkpoint. case the checkpoint of (x_final, y_final) \<Rightarrow>
          (case res of None \<Rightarrow> k (x_final, y_final)
           | Some (result_x, result_y) \<Rightarrow> Constrain (variable_sub x_final (lc_from_scalar result_x))
              (Constrain (variable_sub y_final (lc_from_scalar result_y)) (k (x_final, y_final)))))) Q"
      unfolding n
    proof (rule loop[unfolded add_0], unfold option.sel prod.case)
      fix xv yv
      assume v: "env xv = fst (L ?n)" "env yv = snd (L ?n)"
      then have out: "xy E (point_mul E X (of_nat (bits_int bs))) = Some (env xv, env yv)" using final by simp
      show "enforces M C env (case res of None \<Rightarrow> k (xv, yv)
           | Some (result_x, result_y) \<Rightarrow> Constrain (variable_sub xv (lc_from_scalar result_x))
              (Constrain (variable_sub yv (lc_from_scalar result_y)) (k (xv, yv)))) Q"
      proof (cases res)
        case None
        then show ?thesis using result_is[OF out] by simp
      next
        case (Some r)
        then show ?thesis
          using result_is[OF out] one by (auto simp: lc_value_ops split: prod.splits intro!: enforces_Constrain)
      qed
    qed
  qed
qed

section \<open>The honest prover\<close>

lemma chord_loop_completes:
  assumes "good_prover p" and tables: "tables_of E X lambda pc"
    and bits: "\<And>j. j \<le> lambda \<Longrightarrow> has p (bit_vars ! j) (of_bool (b j))"
    and products: "\<And>w. 1 \<le> w \<Longrightarrow> w \<le> lambda div 2 \<Longrightarrow> has p (wps ! (w - 1)) (of_bool (b (2 * w - 1) \<and> b (2 * w)))"
    and L: "\<And>w. w \<le> lambda div 2 \<Longrightarrow> xy E (running E X lambda b w) = Some (L w)"
    and Delta: "\<And>w. 1 \<le> w \<Longrightarrow> w \<le> lambda div 2 \<Longrightarrow> xy E (window_point E X lambda b w) = Some (Delta w) \<and> fst (L (w - 1)) \<noteq> fst (Delta w)"
    and wit: "checkpoint_coords wit = map L (filter (\<lambda>w. chord_is_checkpoint_window w (lambda div 2)) [1..<lambda div 2 + 1])"
      "slopes wit = map (\<lambda>w. (snd (L (w - 1)) - snd (Delta w)) / (fst (L (w - 1)) - fst (Delta w))) [1..<lambda div 2 + 1]"
      "denominators wit = map (\<lambda>w. fst (L (w - 1)) - fst (Delta w)) [1..<lambda div 2 + 1]"
    and finish: "\<And>p' xv yv. good_prover p' \<Longrightarrow> grows p p' \<Longrightarrow> has p' xv (fst (L (lambda div 2))) \<Longrightarrow> has p' yv (snd (L (lambda div 2))) \<Longrightarrow>
      completes M C (k (Some (xv, yv))) p'"
    and "m \<le> lambda div 2" "lc_has p x_prev (fst (L m))" "lc_has p y_prev (snd (L m))"
    and "m = lambda div 2 \<Longrightarrow> \<exists>xv yv. checkpoint = Some (xv, yv) \<and> has p xv (fst (L m)) \<and> has p yv (snd (L m))"
    and "idx = length (filter (\<lambda>w. chord_is_checkpoint_window w (lambda div 2)) [1..<m + 1])"
  shows "completes M C (chord_loop bit_vars pc wps (Some wit) (lambda div 2) [m + 1..<lambda div 2 + 1] x_prev y_prev checkpoint idx k) p"
  using assms(1,3,4) assms(10-)
proof (induction "lambda div 2 - m" arbitrary: p m x_prev y_prev checkpoint idx)
  case 0
  note I = 0
  then have m: "m = lambda div 2" by simp
  then obtain xv yv where "checkpoint = Some (xv, yv)" "has p xv (fst (L m))" "has p yv (snd (L m))" using I(9) by blast
  then show ?case using I(5)[OF I(2) grows_refl] m by simp
next
  case (Suc d)
  let ?n = "lambda div 2" and ?w = "m + 1"
  note good = Suc.prems(1) and bits = Suc.prems(2) and products = Suc.prems(3) and finish = Suc.prems(4)
    and x_prev = Suc.prems(6) and y_prev = Suc.prems(7) and idx = Suc.prems(9)
  have m: "m < ?n" using Suc.hyps(2) by linarith
  have w: "1 \<le> ?w" "?w \<le> ?n" using m by auto
  obtain q00 q10 q01 q11 where win: "cp_windows pc ! (?w - 1) = (q00, q10, q01, q11)" by (metis prod_cases4)
  let ?dx = "window_delta_x_lc (bit_vars ! (2 * ?w - 1)) (bit_vars ! (2 * ?w)) (wps ! (?w - 1)) (q00, q10, q01, q11)"
  let ?dy = "window_delta_y_lc (bit_vars ! (2 * ?w - 1)) (bit_vars ! (2 * ?w)) (wps ! (?w - 1)) (q00, q10, q01, q11)"
  have j: "2 * ?w - 1 \<le> lambda" "2 * ?w \<le> lambda" using m by auto
  note D = Delta[OF w]
  let ?s = "(snd (L m) - snd (Delta ?w)) / (fst (L m) - fst (Delta ?w))" and ?den = "fst (L m) - fst (Delta ?w)"
  have dx: "lc_has p ?dx (fst (Delta ?w))" "lc_has p ?dy (snd (Delta ?w))"
    by (rule lc_has_eq[OF delta_lc_has(1)[OF bits[OF j(1)] bits[OF j(2)] products[OF w]] window_select(1)[OF tables w conjunct1[OF D] win]],
        rule lc_has_eq[OF delta_lc_has(2)[OF bits[OF j(1)] bits[OF j(2)] products[OF w]] window_select(2)[OF tables w conjunct1[OF D] win]])
  have next_point: "L ?w = chord_sum (L m) (Delta ?w)"
    using xy_add[OF L[of m] conjunct1[OF D]] L[of ?w] conjunct2[OF D] w by simp
  have ne: "fst (L m) \<noteq> fst (Delta ?w)" using conjunct2[OF D] by simp
  then have slope: "?s * ?den = snd (L m) - snd (Delta ?w)" by simp
  have Lw: "L ?w = (?s * ?s - fst (L m) - fst (Delta ?w), ?s * (fst (L m) - (?s * ?s - fst (L m) - fst (Delta ?w))) - snd (L m))"
    using chord_sum_slope[OF slope ne] unfolding next_point by simp
  have upt: "[1..<?n + 1] ! (?w - 1) = ?w" "?w - 1 < length [1..<?n + 1]" using m by (simp_all del: upt_Suc)
  have assigned: "slopes wit ! (?w - 1) = ?s" "denominators wit ! (?w - 1) = ?den"
    unfolding wit nth_map[OF upt(2)] upt(1) by simp_all
  show ?case
    unfolding upt_Suc_Cons[OF m] chord_loop.simps Let_def win option.map assigned
  proof (rule completes_AllocateMultiplier[OF good refl], unfold prod.case)
    fix p1 s den out1
    assume p1: "good_prover p1" "grows p p1" and g1: "has p1 s ?s" "has p1 den ?den" "has p1 out1 (?s * ?den)"
    note T1 = grows_has[OF p1(2)] and LT1 = grows_lc_has[OF p1(2)]
    let ?rest3 = "\<lambda>out2 out3. if chord_is_checkpoint_window ?w ?n
         then Allocate (Some (fst (checkpoint_coords wit ! idx))) (\<lambda>x_ck.
              Allocate (Some (snd (checkpoint_coords wit ! idx))) (\<lambda>y_ck.
              Constrain (lc_sub (lc_sub (variable_sub out2 x_prev) ?dx) (lc_from_variable x_ck))
             (Constrain (lc_sub (variable_sub out3 y_prev) (lc_from_variable y_ck))
             (chord_loop bit_vars pc wps (Some wit) ?n [?w + 1..<?n + 1] (lc_from_variable x_ck) (lc_from_variable y_ck) (Some (x_ck, y_ck)) (idx + 1) k))))
         else chord_loop bit_vars pc wps (Some wit) ?n [?w + 1..<?n + 1] (lc_sub (variable_sub out2 x_prev) ?dx) (variable_sub out3 y_prev) checkpoint idx k"
    let ?rest1 = "Multiply (lc_from_variable s) (lc_from_variable s) (\<lambda>(_, _, out2).
        Multiply (lc_from_variable s) (lc_sub x_prev (lc_sub (variable_sub out2 x_prev) ?dx)) (\<lambda>(_, _, out3). ?rest3 out2 out3))"
    have rest3: "completes M C (?rest3 out2 out3) q"
      if q: "good_prover q" "grows p1 q" "has q out2 (?s * ?s)" "has q out3 (?s * (fst (L m) - (?s * ?s - fst (L m) - fst (Delta ?w))))" for q out2 out3
    proof -
      have gq: "grows p q" using grows_trans[OF p1(2) q(2)] .
      have vals: "lc_has q (lc_sub (variable_sub out2 x_prev) ?dx) (fst (L ?w))" "lc_has q (variable_sub out3 y_prev) (snd (L ?w))"
        unfolding Lw fst_conv snd_conv
        by (intro lc_has_sub lc_has_variable_sub q(3,4) grows_lc_has[OF gq] x_prev y_prev dx)+
      have d: "d = ?n - ?w" using Suc.hyps(2) by simp
      have next_idx: "length (filter (\<lambda>w. chord_is_checkpoint_window w ?n) [1..<?w + 1])
          = idx + (if chord_is_checkpoint_window ?w ?n then 1 else 0)"
        using idx by simp
      show ?thesis
      proof (cases "chord_is_checkpoint_window ?w ?n")
        case True
        have ck: "checkpoint_coords wit ! idx = L ?w"
          unfolding wit(1) idx by (rule filter_nth_count[of "\<lambda>w. chord_is_checkpoint_window w ?n", OF True w])
        show ?thesis
          unfolding if_P[OF True] ck
        proof (rule completes_Allocate[OF q(1) refl])
          fix q1 x_ck assume q1: "good_prover q1" "grows q q1" "has q1 x_ck (fst (L ?w))"
          show "completes M C (Allocate (Some (snd (L ?w))) (\<lambda>y_ck. Constrain (lc_sub (lc_sub (variable_sub out2 x_prev) ?dx) (lc_from_variable x_ck))
             (Constrain (lc_sub (variable_sub out3 y_prev) (lc_from_variable y_ck))
             (chord_loop bit_vars pc wps (Some wit) ?n [?w + 1..<?n + 1] (lc_from_variable x_ck) (lc_from_variable y_ck) (Some (x_ck, y_ck)) (idx + 1) k)))) q1"
          proof (rule completes_Allocate[OF q1(1) refl])
            fix q2 y_ck assume q2: "good_prover q2" "grows q1 q2" "has q2 y_ck (snd (L ?w))"
            have g2: "grows q q2" using grows_trans[OF q1(2) q2(2)] .
            show "completes M C (Constrain (lc_sub (lc_sub (variable_sub out2 x_prev) ?dx) (lc_from_variable x_ck))
             (Constrain (lc_sub (variable_sub out3 y_prev) (lc_from_variable y_ck))
             (chord_loop bit_vars pc wps (Some wit) ?n [?w + 1..<?n + 1] (lc_from_variable x_ck) (lc_from_variable y_ck) (Some (x_ck, y_ck)) (idx + 1) k))) q2"
            proof (rule completes_Constrain[OF q2(1)])
              show "lc_has q2 (lc_sub (lc_sub (variable_sub out2 x_prev) ?dx) (lc_from_variable x_ck)) 0"
                by (rule lc_has_eq, rule lc_has_sub[OF grows_lc_has[OF g2 vals(1)] lc_has_from_variable[OF grows_has[OF q2(2) q1(3)]]]) simp
              fix q3 assume q3: "good_prover q3" "grows q2 q3"
              have g3: "grows q q3" using grows_trans[OF g2 q3(2)] .
              have x3: "has q3 x_ck (fst (L ?w))" and y3: "has q3 y_ck (snd (L ?w))"
                using grows_has[OF q3(2) grows_has[OF q2(2) q1(3)]] grows_has[OF q3(2) q2(3)] by simp_all
              show "completes M C (Constrain (lc_sub (variable_sub out3 y_prev) (lc_from_variable y_ck))
             (chord_loop bit_vars pc wps (Some wit) ?n [?w + 1..<?n + 1] (lc_from_variable x_ck) (lc_from_variable y_ck) (Some (x_ck, y_ck)) (idx + 1) k)) q3"
              proof (rule completes_Constrain[OF q3(1)])
                show "lc_has q3 (lc_sub (variable_sub out3 y_prev) (lc_from_variable y_ck)) 0"
                  by (rule lc_has_eq, rule lc_has_sub[OF grows_lc_has[OF g3 vals(2)] lc_has_from_variable[OF y3]]) simp
                fix q4 assume q4: "good_prover q4" "grows q3 q4"
                have g4: "grows p q4" using grows_trans[OF gq grows_trans[OF g3 q4(2)]] .
                show "completes M C (chord_loop bit_vars pc wps (Some wit) ?n [?w + 1..<?n + 1] (lc_from_variable x_ck) (lc_from_variable y_ck)
                    (Some (x_ck, y_ck)) (idx + 1) k) q4"
                  by (rule Suc.hyps(1)[OF d q4(1) grows_has[OF g4 bits] grows_has[OF g4 products] _ w(2)
                        lc_has_from_variable[OF grows_has[OF q4(2) x3]] lc_has_from_variable[OF grows_has[OF q4(2) y3]]])
                    (use finish grows_trans[OF g4] grows_has[OF q4(2) x3] grows_has[OF q4(2) y3] next_idx True in auto)
              qed
            qed
          qed
        qed
      next
        case False
        then have "?w \<noteq> ?n" by (auto simp: chord_is_checkpoint_window_def)
        then show ?thesis
          unfolding if_not_P[OF False]
          by (intro Suc.hyps(1)[OF d q(1) grows_has[OF gq bits] grows_has[OF gq products] _ w(2) vals])
            (use finish grows_trans[OF gq] next_idx False in auto)
      qed
    qed
    have rest1: "completes M C ?rest1 q" if q: "good_prover q" "grows p1 q" for q
    proof (rule completes_Multiply[OF q(1) lc_has_from_variable[OF grows_has[OF q(2) g1(1)]] lc_has_from_variable[OF grows_has[OF q(2) g1(1)]]],
        unfold prod.case)
      fix q1 l2 r2 out2 assume q1: "good_prover q1" "grows q q1" "has q1 out2 (?s * ?s)"
      have g: "grows p1 q1" using grows_trans[OF q(2) q1(2)] .
      note gp = grows_trans[OF p1(2) g]
      have diff: "lc_has q1 (lc_sub x_prev (lc_sub (variable_sub out2 x_prev) ?dx)) (fst (L m) - (?s * ?s - fst (L m) - fst (Delta ?w)))"
        by (intro lc_has_sub lc_has_variable_sub q1(3) grows_lc_has[OF gp] x_prev dx)
      show "completes M C (Multiply (lc_from_variable s) (lc_sub x_prev (lc_sub (variable_sub out2 x_prev) ?dx)) (\<lambda>(_, _, out3). ?rest3 out2 out3)) q1"
      proof (rule completes_Multiply[OF q1(1) lc_has_from_variable[OF grows_has[OF g g1(1)]] diff], unfold prod.case)
        fix q2 l3 r3 out3 assume q2: "good_prover q2" "grows q1 q2" "has q2 out3 (?s * (fst (L m) - (?s * ?s - fst (L m) - fst (Delta ?w))))"
        show "completes M C (?rest3 out2 out3) q2"
          by (rule rest3[OF q2(1) grows_trans[OF g q2(2)] grows_has[OF q2(2) q1(3)] q2(3)])
      qed
    qed
    show "completes M C (Constrain (variable_sub den (lc_sub x_prev ?dx)) (Constrain (variable_sub out1 (lc_sub y_prev ?dy)) ?rest1)) p1"
    proof (rule completes_Constrain[OF p1(1)])
      show "lc_has p1 (variable_sub den (lc_sub x_prev ?dx)) 0"
        by (rule lc_has_eq, rule lc_has_variable_sub[OF g1(2) lc_has_sub[OF LT1[OF x_prev] LT1[OF dx(1)]]]) simp
      fix p2 assume p2: "good_prover p2" "grows p1 p2"
      note g02 = grows_trans[OF p1(2) p2(2)]
      show "completes M C (Constrain (variable_sub out1 (lc_sub y_prev ?dy)) ?rest1) p2"
      proof (rule completes_Constrain[OF p2(1)])
        show "lc_has p2 (variable_sub out1 (lc_sub y_prev ?dy)) 0"
          by (rule lc_has_eq, rule lc_has_variable_sub[OF grows_has[OF p2(2) g1(3)] lc_has_sub[OF grows_lc_has[OF g02 y_prev] grows_lc_has[OF g02 dx(2)]]])
            (simp only: slope diff_self)
        fix p3 assume "good_prover p3" "grows p2 p3"
        then show "completes M C ?rest1 p3" using rest1 grows_trans[OF p2(2)] by blast
      qed
    qed
  qed
qed

end

end
