(* ===== verification/Evrf_Chord_Complete.thy ===== *)
theory Evrf_Chord_Complete
  imports Evrf_Chord_Circuit
begin

text \<open>
  The prover's witness completes the exponentiation circuit, the number of gates of the circuit, and the
  evaluation of the multiple outside the circuit.
\<close>

section \<open>The whole exponentiation\<close>

lemma list_all2_grows: "grows p p' \<Longrightarrow> list_all2 (has p) vs xs \<Longrightarrow> list_all2 (has p') vs xs"
  by (erule list_all2_mono) (rule grows_has)

lemma window_products_completes:
  assumes "good_prover p" "\<And>j. j \<le> lambda \<Longrightarrow> has p (bit_vars ! j) (of_bool (b j))" "\<And>w. w \<in> set ws \<Longrightarrow> 2 * w \<le> lambda"
    and "list_all2 (has p) products xs"
    and "\<And>p' ps. good_prover p' \<Longrightarrow> grows p p' \<Longrightarrow>
      list_all2 (has p') ps (xs @ map (\<lambda>w. of_bool (b (2 * w - 1) \<and> b (2 * w))) ws) \<Longrightarrow> completes M C (k ps) p'"
  shows "completes M C (window_products_loop bit_vars ws products k) p"
  using assms
proof (induction ws arbitrary: p products xs)
  case Nil
  from Nil(5)[OF Nil(1) grows_refl] Nil(4) show ?case by simp
next
  case (Cons w ws)
  have j: "2 * w - 1 \<le> lambda" "2 * w \<le> lambda" using Cons.prems(3)[of w] by auto
  show ?case
    unfolding window_products_loop.simps
  proof (rule completes_Multiply[OF Cons.prems(1) lc_has_from_variable[OF Cons.prems(2)[OF j(1)]] lc_has_from_variable[OF Cons.prems(2)[OF j(2)]]],
      unfold prod.case)
    fix p1 l r a
    assume p1: "good_prover p1" "grows p p1" "has p1 a (of_bool (b (2 * w - 1)) * of_bool (b (2 * w)))"
    have ps: "list_all2 (has p1) (products @ [a]) (xs @ [of_bool (b (2 * w - 1) \<and> b (2 * w))])"
      using list_all2_grows[OF p1(2) Cons.prems(4)] p1(3) by (simp add: list_all2_appendI of_bool_conj)
    show "completes M C (window_products_loop bit_vars ws (products @ [a]) k) p1"
    proof (rule Cons.IH[OF p1(1) grows_has[OF p1(2) Cons.prems(2)] Cons.prems(3) ps])
      fix p' ps
      assume p': "good_prover p'" "grows p1 p'" "list_all2 (has p') ps ((xs @ [of_bool (b (2 * w - 1) \<and> b (2 * w))])
        @ map (\<lambda>w. of_bool (b (2 * w - 1) \<and> b (2 * w))) ws)"
      then show "completes M C (k ps) p'"
        using Cons.prems(5)[OF p'(1) grows_trans[OF p1(2) p'(2)], of ps] by simp
    qed auto
  qed
qed

lemma chord_window_products_completes:
  assumes "good_prover p" "list_all2 (has p) bit_vars (map of_bool bs)" "length bs = lambda + 1" "0 < lambda" "even lambda"
    and "\<And>p' ps. good_prover p' \<Longrightarrow> grows p p' \<Longrightarrow>
      list_all2 (has p') ps (map (\<lambda>w. of_bool (bs ! (2 * w - 1) \<and> bs ! (2 * w))) [1..<lambda div 2 + 1]) \<Longrightarrow> completes M C (k ps) p'"
  shows "completes M C (chord_window_products bit_vars k) p"
proof -
  have len: "length bit_vars = lambda + 1" using assms(2,3) by (auto dest: list_all2_lengthD)
  have bits: "has p (bit_vars ! j) (of_bool (bs ! j))" if "j \<le> lambda" for j
    using list_all2_nthD2[OF assms(2), of j] that assms(3) by simp
  have "completes M C (window_products_loop bit_vars [1..<lambda div 2 + 1] [] k) p"
  proof (rule window_products_completes[OF assms(1) bits])
    show "list_all2 (has p) [] []" by simp
    fix p' ps
    assume "good_prover p'" "grows p p'"
      "list_all2 (has p') ps ([] @ map (\<lambda>w. of_bool (bs ! (2 * w - 1) \<and> bs ! (2 * w))) [1..<lambda div 2 + 1])"
    then show "completes M C (k ps) p'" using assms(6) by simp
  qed auto
  then show ?thesis
    using assms(4,5) len by (auto simp: chord_window_products_def elim!: evenE)
qed

context chord_curve
begin

lemma chord_exponentiate_completes:
  assumes "good_prover p" and tables: "tables_of E X lambda pc" and wit: "witness_of E X lambda ((!) bs) wit"
    and bs: "length bs = lambda + 1" and bits: "list_all2 (has p) bit_vars (map of_bool bs)"
    and products: "list_all2 (has p) wps (map (\<lambda>w. of_bool (bs ! (2 * w - 1) \<and> bs ! (2 * w))) [1..<lambda div 2 + 1])"
    and right: "\<And>rx ry. res = Some (rx, ry) \<Longrightarrow> xy E (point_mul E X (of_nat (bits_int bs))) = Some (rx, ry)"
    and next_part: "\<And>p' xv yv x y. good_prover p' \<Longrightarrow> grows p p' \<Longrightarrow> xy E (point_mul E X (of_nat (bits_int bs))) = Some (x, y) \<Longrightarrow>
      has p' xv x \<Longrightarrow> has p' yv y \<Longrightarrow> completes M C (k (xv, yv)) p'"
  shows "completes M C (chord_exponentiate_r1cs_with_result bit_vars pc wps res (Some wit) k) p"
proof -
  let ?n = "lambda div 2"
  have len: "length bit_vars = lambda + 1" "length wps = ?n"
    using bs list_all2_lengthD[OF bits] list_all2_lengthD[OF products] by (simp_all del: upt_Suc)
  have l: "0 < lambda" "even lambda" "0 < ?n" "length (cp_windows pc) = ?n"
    using tables by (auto simp: tables_of_def elim!: evenE)
  have bit_val: "has p (bit_vars ! j) (of_bool (bs ! j))" if "j \<le> lambda" for j
    using list_all2_nthD2[OF bits, of j] that bs by simp
  have product_val: "has p (wps ! (w - 1)) (of_bool (bs ! (2 * w - 1) \<and> bs ! (2 * w)))" if "1 \<le> w" "w \<le> ?n" for w
  proof -
    have "[1..<?n + 1] ! (w - 1) = w" "w - 1 < length [1..<?n + 1]" using that by (simp_all del: upt_Suc)
    then show ?thesis using list_all2_nthD2[OF products, of "w - 1"] by (simp del: upt_Suc)
  qed
  obtain L Delta where L: "\<And>w. w \<le> ?n \<Longrightarrow> xy E (running E X lambda ((!) bs) w) = Some (L w)"
    and Delta: "\<And>w. 1 \<le> w \<Longrightarrow> w \<le> ?n \<Longrightarrow> xy E (window_point E X lambda ((!) bs) w) = Some (Delta w) \<and> fst (L (w - 1)) \<noteq> fst (Delta w)"
    and held: "checkpoint_coords wit = map L (filter (\<lambda>w. chord_is_checkpoint_window w ?n) [1..<?n + 1])"
    "slopes wit = map (\<lambda>w. (snd (L (w - 1)) - snd (Delta w)) / (fst (L (w - 1)) - fst (Delta w))) [1..<?n + 1]"
    "denominators wit = map (\<lambda>w. fst (L (w - 1)) - fst (Delta w)) [1..<?n + 1]"
    by (rule witness_ofE[OF wit]) (rule that)
  have first: "L 0 = (if bs ! 0 then cp_d0 pc else cp_c0 pc)"
    using L[of 0] tables by (simp add: tables_of_def split: if_splits)
  have "lc_has p (delta0_x_lc (bit_vars ! 0) pc) (fst (cp_c0 pc) + (fst (cp_d0 pc) - fst (cp_c0 pc)) * of_bool (bs ! 0))"
    "lc_has p (delta0_y_lc (bit_vars ! 0) pc) (snd (cp_c0 pc) + (snd (cp_d0 pc) - snd (cp_c0 pc)) * of_bool (bs ! 0))"
    unfolding delta0_x_lc_def delta0_y_lc_def case_prod_unfold Let_def
    by (rule lc_has_rules bit_val[OF le0])+
  then have start: "lc_has p (delta0_x_lc (bit_vars ! 0) pc) (fst (L 0))" "lc_has p (delta0_y_lc (bit_vars ! 0) pc) (snd (L 0))"
    unfolding first by (cases "bs ! 0"; simp)+
  have final: "xy E (point_mul E X (of_nat (bits_int bs))) = Some (L ?n)"
    using L[OF order_refl] running_end[OF l(1,2), of X "(!) bs"] bs map_nth[of bs] by simp
  let ?k = "\<lambda>checkpoint. case the checkpoint of (x_final, y_final) \<Rightarrow>
          (case res of None \<Rightarrow> k (x_final, y_final)
           | Some (result_x, result_y) \<Rightarrow> Constrain (variable_sub x_final (lc_from_scalar result_x))
              (Constrain (variable_sub y_final (lc_from_scalar result_y)) (k (x_final, y_final))))"
  have loop: "completes M C (chord_loop bit_vars pc wps (Some wit) ?n [0 + 1..<?n + 1] (delta0_x_lc (bit_vars ! 0) pc)
      (delta0_y_lc (bit_vars ! 0) pc) None 0 ?k) p"
  proof (rule chord_loop_completes[where b = "(!) bs" and L = L and Delta = Delta, OF assms(1) tables bit_val product_val L Delta held])
    fix p' xv yv
    assume p': "good_prover p'" "grows p p'" "has p' xv (fst (L ?n))" "has p' yv (snd (L ?n))"
    have out: "xy E (point_mul E X (of_nat (bits_int bs))) = Some (fst (L ?n), snd (L ?n))" using final by simp
    show "completes M C (?k (Some (xv, yv))) p'"
      unfolding option.sel prod.case
    proof (cases res)
      case None
      then show "completes M C (case res of None \<Rightarrow> k (xv, yv)
           | Some (result_x, result_y) \<Rightarrow> Constrain (variable_sub xv (lc_from_scalar result_x))
              (Constrain (variable_sub yv (lc_from_scalar result_y)) (k (xv, yv)))) p'"
        using next_part[OF p'(1,2) out p'(3,4)] by simp
    next
      case (Some r)
      have r: "r = L ?n" using right[of "fst r" "snd r"] Some final by simp
      have "completes M C (Constrain (variable_sub xv (lc_from_scalar (fst r))) (Constrain (variable_sub yv (lc_from_scalar (snd r))) (k (xv, yv)))) p'"
      proof (rule completes_Constrain[OF p'(1)])
        show "lc_has p' (variable_sub xv (lc_from_scalar (fst r))) 0"
          by (rule lc_has_eq, rule lc_has_variable_sub[OF p'(3) lc_has_from_scalar]) (simp add: r)
        fix p2 assume p2: "good_prover p2" "grows p' p2"
        show "completes M C (Constrain (variable_sub yv (lc_from_scalar (snd r))) (k (xv, yv))) p2"
        proof (rule completes_Constrain[OF p2(1)])
          show "lc_has p2 (variable_sub yv (lc_from_scalar (snd r))) 0"
            by (rule lc_has_eq, rule lc_has_variable_sub[OF grows_has[OF p2(2) p'(4)] lc_has_from_scalar]) (simp add: r)
          fix p3 assume p3: "good_prover p3" "grows p2 p3"
          note g = grows_trans[OF p2(2) p3(2)]
          show "completes M C (k (xv, yv)) p3"
            by (rule next_part[OF p3(1) grows_trans[OF p'(2) g] out grows_has[OF g p'(3)] grows_has[OF g p'(4)]])
        qed
      qed
      then show "completes M C (case res of None \<Rightarrow> k (xv, yv)
           | Some (result_x, result_y) \<Rightarrow> Constrain (variable_sub xv (lc_from_scalar result_x))
              (Constrain (variable_sub yv (lc_from_scalar result_y)) (k (xv, yv)))) p'"
        using Some by (simp add: case_prod_unfold)
    qed
  next
    show "\<exists>xv yv. None = Some (xv, yv) \<and> has p xv (fst (L 0)) \<and> has p yv (snd (L 0))" if "0 = ?n"
      using that l(3) by simp
  qed (simp_all add: start)
  have n: "(length bit_vars - 1) div 2 = ?n" using len by simp
  have ok: "\<not> (length bit_vars < 3 \<or> even (length bit_vars))" "\<not> (length (cp_windows pc) \<noteq> ?n \<or> length wps \<noteq> ?n)"
    "\<not> (length (checkpoint_coords wit) \<noteq> chord_checkpoint_count ?n \<or> length (slopes wit) \<noteq> ?n \<or> length (denominators wit) \<noteq> ?n)"
    using len l by (auto simp: held checkpoint_count_eq[OF l(3)] simp del: upt_Suc elim!: evenE)
  show ?thesis
    unfolding chord_exponentiate_r1cs_with_result_def Let_def n option.case if_not_P[OF ok(1)] if_not_P[OF ok(2)] if_not_P[OF ok(3)]
    by (rule loop[unfolded add_0])
qed

end

section \<open>The number of gates\<close>

lemma window_products_uses:
  "uses M C (window_products_loop bit_vars ws products) (length ws) (\<lambda>ps. length ps = length products + length ws)"
proof (induction ws arbitrary: products)
  case Nil
  then show ?case by (simp add: uses_return)
next
  case (Cons w ws)
  have "uses M C (\<lambda>k. Multiply (lc_from_variable (bit_vars ! (2 * w - 1))) (lc_from_variable (bit_vars ! (2 * w))) (\<lambda>g. case g of (_, _, and_var) \<Rightarrow>
     window_products_loop bit_vars ws (products @ [and_var]) k)) (Suc (length ws)) (\<lambda>ps. length ps = length products + length (w # ws))"
    apply (rule uses_Multiply)
    subgoal for g
      by (cases g rule: prod_cases3) (simp only: prod.case, rule uses_weaken[OF Cons], simp)
    done
  then show ?case by simp
qed

lemma chord_window_products_uses:
  fixes C :: "('s::field, 'p, 'a, 'c, 'z) cycle_scheme"
  assumes "length bit_vars = lambda + 1" "0 < lambda" "even lambda"
  shows "uses M C (chord_window_products bit_vars) (lambda div 2) (\<lambda>ps. length ps = lambda div 2)"
proof -
  have "chord_window_products bit_vars = (window_products_loop bit_vars [1..<lambda div 2 + 1] [] :: (_ \<Rightarrow> 's gadget) \<Rightarrow> _)"
    using assms by (auto simp: chord_window_products_def fun_eq_iff elim!: evenE)
  with window_products_uses[of M C bit_vars "[1..<lambda div 2 + 1]" "[]"] show ?thesis by (simp del: upt_Suc)
qed

lemma chord_loop_uses:
  "uses M C (chord_loop bit_vars pc wps wit n ws x_prev y_prev checkpoint idx)
    (3 * length ws + length (filter (\<lambda>w. chord_is_checkpoint_window w n) ws)) (\<lambda>_. True)"
proof (induction ws arbitrary: x_prev y_prev checkpoint idx)
  case Nil
  then show ?case by (simp add: uses_return)
next
  case (Cons w ws)
  let ?rest = "length ws * 3 + length (filter (\<lambda>w. chord_is_checkpoint_window w n) ws)"
  have rest: "uses M C (chord_loop bit_vars pc wps wit n ws x y ck i) ?rest (\<lambda>_. True)" for x y ck i
    using Cons by (simp add: mult.commute)
  show ?case
    unfolding chord_loop.simps Let_def
  proof (rule uses_eq[where n = "Suc (Suc (Suc ((if chord_is_checkpoint_window w n then Suc 0 else 0) + ?rest)))"],
      rule uses_AllocateMultiplier)
    fix g :: gate
    obtain s den out1 where g: "g = (s, den, out1)" by (metis prod_cases3)
    let ?dx = "window_delta_x_lc (bit_vars ! (2 * w - 1)) (bit_vars ! (2 * w)) (wps ! (w - 1)) (cp_windows pc ! (w - 1))"
    let ?dy = "window_delta_y_lc (bit_vars ! (2 * w - 1)) (bit_vars ! (2 * w)) (wps ! (w - 1)) (cp_windows pc ! (w - 1))"
    have last: "uses M C (\<lambda>k. if chord_is_checkpoint_window w n
               then Allocate (map_option (\<lambda>wit. fst (checkpoint_coords wit ! idx)) wit) (\<lambda>x_ck.
                    Allocate (map_option (\<lambda>wit. snd (checkpoint_coords wit ! idx)) wit) (\<lambda>y_ck.
                    Constrain (lc_sub x_l (lc_from_variable x_ck))
                   (Constrain (lc_sub y_l (lc_from_variable y_ck))
                   (chord_loop bit_vars pc wps wit n ws (lc_from_variable x_ck) (lc_from_variable y_ck)
                      (Some (x_ck, y_ck)) (idx + 1) k))))
               else chord_loop bit_vars pc wps wit n ws x_l y_l checkpoint idx k)
       ((if chord_is_checkpoint_window w n then Suc 0 else 0) + ?rest) (\<lambda>_. True)" for x_l y_l
      by (rule uses_if) (simp_all add: uses_Allocate2 uses_Constrain rest)
    show "uses M C (\<lambda>k. case g of (s_var, denominator, out1) \<Rightarrow>
         Constrain (variable_sub denominator (lc_sub x_prev ?dx))
        (Constrain (variable_sub out1 (lc_sub y_prev ?dy))
        (Multiply (lc_from_variable s_var) (lc_from_variable s_var) (\<lambda>(_, _, out2).
         Multiply (lc_from_variable s_var) (lc_sub x_prev (lc_sub (variable_sub out2 x_prev) ?dx)) (\<lambda>(_, _, out3).
            if chord_is_checkpoint_window w n
               then Allocate (map_option (\<lambda>wit. fst (checkpoint_coords wit ! idx)) wit) (\<lambda>x_ck.
                    Allocate (map_option (\<lambda>wit. snd (checkpoint_coords wit ! idx)) wit) (\<lambda>y_ck.
                    Constrain (lc_sub (lc_sub (variable_sub out2 x_prev) ?dx) (lc_from_variable x_ck))
                   (Constrain (lc_sub (variable_sub out3 y_prev) (lc_from_variable y_ck))
                   (chord_loop bit_vars pc wps wit n ws (lc_from_variable x_ck) (lc_from_variable y_ck)
                      (Some (x_ck, y_ck)) (idx + 1) k))))
               else chord_loop bit_vars pc wps wit n ws (lc_sub (variable_sub out2 x_prev) ?dx) (variable_sub out3 y_prev) checkpoint idx k)))))
       (Suc (Suc ((if chord_is_checkpoint_window w n then Suc 0 else 0) + ?rest))) (\<lambda>_. True)"
      unfolding g prod.case
      apply (rule uses_Constrain, rule uses_Constrain, rule uses_Multiply)
      subgoal for g
        apply (cases g rule: prod_cases3)
        apply (simp only: prod.case, rule uses_Multiply)
        subgoal for _ _ _ h by (cases h rule: prod_cases3) (simp only: prod.case, rule last)
        done
      done
  qed (simp add: mult.commute)
qed

lemma chord_exponentiate_uses:
  assumes "length bit_vars = lambda + 1" "0 < lambda" "even lambda" "length wps = lambda div 2" "length (cp_windows pc) = lambda div 2"
    and "\<And>w. wit = Some w \<Longrightarrow> length (checkpoint_coords w) = chord_checkpoint_count (lambda div 2)
      \<and> length (slopes w) = lambda div 2 \<and> length (denominators w) = lambda div 2"
  shows "uses M C (chord_exponentiate_r1cs_with_result bit_vars pc wps res wit)
    (3 * (lambda div 2) + chord_checkpoint_count (lambda div 2)) (\<lambda>_. True)"
proof -
  let ?n = "lambda div 2"
  have n: "(length bit_vars - 1) div 2 = ?n" "0 < ?n" using assms(1-3) by (auto elim!: evenE)
  have ok: "\<not> (length bit_vars < 3 \<or> even (length bit_vars))" "\<not> (length (cp_windows pc) \<noteq> ?n \<or> length wps \<noteq> ?n)"
    using assms by (auto elim!: evenE)
  have wit_ok: "\<not> (case wit of None \<Rightarrow> False
                  | Some w \<Rightarrow> length (checkpoint_coords w) \<noteq> chord_checkpoint_count ?n
                      \<or> length (slopes w) \<noteq> ?n \<or> length (denominators w) \<noteq> ?n)"
    using assms(6) by (auto split: option.splits)
  show ?thesis
    unfolding chord_exponentiate_r1cs_with_result_def Let_def n(1) if_not_P[OF ok(1)] if_not_P[OF ok(2)] if_not_P[OF wit_ok]
  proof (rule uses_seq[OF chord_loop_uses])
    fix checkpoint :: "(variable_kind \<times> variable_kind) option"
    obtain x y where xy: "the checkpoint = (x, y)" by fastforce
    show "uses M C (\<lambda>k. case the checkpoint of (x_final, y_final) \<Rightarrow>
          (case res of None \<Rightarrow> k (x_final, y_final)
           | Some (result_x, result_y) \<Rightarrow> Constrain (variable_sub x_final (lc_from_scalar result_x))
              (Constrain (variable_sub y_final (lc_from_scalar result_y)) (k (x_final, y_final))))) 0 (\<lambda>_. True)"
      unfolding xy prod.case by (cases res) (auto split: prod.splits intro!: uses_Constrain uses_return)
  qed (simp add: checkpoint_count_eq[OF n(2)] del: upt_Suc)
qed

end
