(* ===== verification/Secp_Generator.thy ===== *)
theory Secp_Generator
  imports Jubjub_Laws
begin

text \<open>
  \<open>golden-halo2curves/src/golden_group.rs\<close>: multiplying the generator of Secp256k1 with a table of its multiples
  for every four-bit window of a scalar. The result is the multiple by the integer of the 32 bytes of the scalar.
\<close>

section \<open>Multiplying the generator with a table\<close>

text \<open>For a curve given by its cycle; the rows are those of the Jubjub adapter.\<close>

definition secp_build_generator_table :: "('q, 'p::ab_group_add, 'a, 'c, 'z) cycle_scheme \<Rightarrow> 'p list list" where
  "secp_build_generator_table E =
     snd (fold (\<lambda>_ (base, table). ((((\<lambda>p. p + p) ^^ 4) base), table @ [build_row base]))
            [0..<GENERATOR_WINDOWS] (group_generator E, []))"

definition secp_mul_generator_with_table ::
  "('q, 'p::ab_group_add, 'a, 'c, 'z) cycle_scheme \<Rightarrow> 'q \<Rightarrow> 'p list list \<Rightarrow> 'p" where
  "secp_mul_generator_with_table E scalar table =
     (let bs = scalar_to_canonical E scalar
      in fold (\<lambda>(window, row) res.
           let digit = drop_bit (4 * (window mod 2)) (bs ! (window div 2)) AND 0x0F;
               selected = fold (\<lambda>(index, entry) selected. if digit = word_of_nat index then entry else selected)
                            (enumerate 0 row) 0
           in res + selected) (enumerate 0 table) 0)"

definition secp_mul_generator :: "('q, 'p::ab_group_add, 'a, 'c, 'z) cycle_scheme \<Rightarrow> 'q \<Rightarrow> 'p" where
  "secp_mul_generator E scalar = secp_mul_generator_with_table E scalar (secp_build_generator_table E)"

section \<open>What the table gives\<close>

lemma secp_build_generator_table_eq:
  fixes E :: "('q, 'p::ab_group_add, 'a, 'c, 'z) cycle_scheme"
  shows "secp_build_generator_table E = map (\<lambda>w. build_row (times_nat (16 ^ w) (group_generator E))) [0..<64]"
proof -
  have "fold (\<lambda>_ (base, table). ((((\<lambda>p. p + p) ^^ 4) base), table @ [build_row base])) [0..<n] (g, [])
      = (times_nat (16 ^ n) g, map (\<lambda>w. build_row (times_nat (16 ^ w) g)) [0..<n])"
    for n and g :: 'p
  proof (induction n)
    case (Suc n)
    have "((\<lambda>p. p + p) ^^ 4) (times_nat (16 ^ n) g) = times_nat (16 ^ Suc n) g"
      unfolding four_doublings times_nat_mult[symmetric] by simp
    with Suc show ?case by simp
  qed simp
  then show ?thesis by (simp add: secp_build_generator_table_def GENERATOR_WINDOWS_def)
qed

lemma take_bit_nibble: "take_bit (4 + 4 * n) (v :: nat) = take_bit (4 * n) v + take_bit 4 (drop_bit (4 * n) v) * 16 ^ n"
proof -
  have "v mod (2 ^ (4 * n) * 2 ^ 4) = 2 ^ (4 * n) * (v div 2 ^ (4 * n) mod 2 ^ 4) + v mod 2 ^ (4 * n)"
    by (rule mod_mult2_eq)
  moreover have "4 + 4 * n = 4 * n + 4" "(16 :: nat) ^ n = 2 ^ (4 * n)" by (simp_all add: power_mult)
  ultimately show ?thesis by (simp only: take_bit_eq_mod drop_bit_eq_div power_add) simp
qed

text \<open>The table gives the multiple by the integer of the 32 bytes of the scalar.\<close>

lemma secp_mul_generator_bytes:
  assumes "length (scalar_to_canonical E scalar) = 32"
  shows "secp_mul_generator E scalar = times_nat (from_le (scalar_to_canonical E scalar)) (group_generator E)"
proof -
  let ?bs = "scalar_to_canonical E scalar" and ?g = "group_generator E"
  let ?row = "\<lambda>w. build_row (times_nat (16 ^ w) ?g)"
  let ?digit = "\<lambda>w. drop_bit (4 * (w mod 2)) (?bs ! (w div 2)) AND (0x0F :: byte)"
  let ?step = "\<lambda>(window, row) res. res + fold (\<lambda>(index, entry) selected.
      if ?digit window = word_of_nat index then entry else selected) (enumerate 0 row) 0"
  have digit: "unat (?digit w) = take_bit 4 (drop_bit (4 * w) (from_le ?bs))" if "w < 64" for w
    using that by (intro nibble_value) (simp add: assms)
  have "fold ?step (enumerate 0 (map ?row [0..<n])) 0 = times_nat (take_bit (4 * n) (from_le ?bs)) ?g" if "n \<le> 64" for n
    using that
  proof (induction n)
    case (Suc n)
    have small: "unat (?digit n) < 16" using Suc.prems digit[of n] by (simp add: take_bit_nat_less_exp[of 4, simplified])
    have "fold (\<lambda>(index, entry) selected. if ?digit n = word_of_nat index then entry else selected)
        (enumerate 0 (?row n)) 0 = times_nat (unat (?digit n)) (times_nat (16 ^ n) ?g)"
      using small by (simp add: select_entry build_row_length build_row_nth)
    moreover have "take_bit (4 * Suc n) (from_le ?bs) = take_bit (4 * n) (from_le ?bs) + unat (?digit n) * 16 ^ n"
      using Suc.prems digit[of n] by (simp add: take_bit_nibble)
    ultimately show ?case
      using Suc by (simp add: enumerate_append_eq times_nat_add times_nat_mult)
  qed simp
  then have "secp_mul_generator E scalar = times_nat (take_bit (4 * 64) (from_le ?bs)) ?g"
    by (simp add: secp_mul_generator_def secp_mul_generator_with_table_def Let_def secp_build_generator_table_eq del: upt_rec_numeral)
  moreover have "from_le ?bs < 2 ^ (4 * 64)" using from_le_less[of ?bs] by (simp add: assms)
  ultimately show ?thesis by (simp add: take_bit_nat_eq_self)
qed

end
