(* ===== verification/Evrf_Relation.thy ===== *)
theory Evrf_Relation
  imports Evrf_Chord_Complete Secp_Generator
begin

text \<open>
  The relations that the paper eVRF backend over Secp256k1 and Secq256k1 proves in a circuit
  (\<open>golden-evrf/src/paper.rs\<close>, module \<open>secp_secq\<close>): statements and witnesses, the conversions between the two
  fields, the one-receiver circuit, the slot of one hidden receiver and its witness, and the batched circuit
  of the prover and of the verifier. \<open>E\<close> is \<open>G_in\<close>, \<open>D\<close> the cycle over \<open>G_out\<close>, whose scalars are the field of
  the circuit. A computation that fails inside a circuit ends it with an error.
\<close>

section \<open>Conversions between the fields\<close>

text \<open>The four little-endian limbs of 32 bytes, and \<open>from_raw\<close>, which reduces their integer.\<close>

definition raw_limbs :: "bytes \<Rightarrow> u64 list" where
  "raw_limbs bs = map (\<lambda>i. word_of_nat (from_le (take 8 (drop (i * 8) bs)))) [0..<4]"

definition limbs_int :: "u64 list \<Rightarrow> nat" where
  "limbs_int limbs = foldr (\<lambda>limb n. unat limb + 2 ^ 64 * n) limbs 0"

definition from_raw :: "u64 list \<Rightarrow> 'f::field" where
  "from_raw limbs = of_nat (limbs_int limbs)"

definition fp_to_fq :: "('s, 'o, 'b, 'd, 'w) cycle_scheme \<Rightarrow> 's \<Rightarrow> 'q::field" where
  "fp_to_fq D fp = from_raw (raw_limbs (scalar_to_canonical D fp))"

definition fq_to_fp :: "('q, 'p, 'a, 'c, 's::field, 'z) evrf_curve_scheme \<Rightarrow> 'q \<Rightarrow> 's" where
  "fq_to_fp E fq = from_raw (raw_limbs (scalar_to_canonical E fq))"

definition Q_AS_FP :: "'s::field" where
  "Q_AS_FP = from_raw [0xbfd25e8cd0364141, 0xbaaedce6af48a03b, 0xfffffffffffffffe, 0xffffffffffffffff]"

definition decompose_k_fp :: "('s, 'o, 'b, 'd, 'w) cycle_scheme \<Rightarrow> 's \<Rightarrow> usize \<Rightarrow> bool list" where
  "decompose_k_fp D k n =
     (let bs = scalar_to_canonical D k
      in map (\<lambda>i. let byte_idx = i div 8; bit_idx = i mod 8
                  in byte_idx < length bs \<and> drop_bit bit_idx (bs ! byte_idx) AND 1 = 1) [0..<n])"

definition bit_options :: "bool list \<Rightarrow> 's::field option list" where
  "bit_options bs = map (\<lambda>b. if b then Some 1 else Some 0) bs"

section \<open>Random oracles and the generator\<close>

definition MESSAGE_BYTES :: usize where "MESSAGE_BYTES = 256 div 8"

definition H_GIN_1_DOMAIN :: bytes where "H_GIN_1_DOMAIN = ascii ''golden-paper-evrf-H-Gin-1-v1''"
definition H_GIN_2_DOMAIN :: bytes where "H_GIN_2_DOMAIN = ascii ''golden-paper-evrf-H-Gin-2-v1''"

text \<open>A message has \<open>MESSAGE_BYTES\<close> bytes; the rest of the buffer of 64 is zero.\<close>

definition h_gin_1 :: "('q, 'p, 'a, 'c, 's, 'z) evrf_curve_scheme \<Rightarrow> bytes \<Rightarrow> 'p" where
  "h_gin_1 E msg = hash_to_curve E H_GIN_1_DOMAIN (msg @ replicate (64 - MESSAGE_BYTES) 0)"

definition h_gin_2 :: "('q, 'p, 'a, 'c, 's, 'z) evrf_curve_scheme \<Rightarrow> bytes \<Rightarrow> 'p" where
  "h_gin_2 E msg = hash_to_curve E H_GIN_2_DOMAIN (msg @ replicate (64 - MESSAGE_BYTES) 0)"

text \<open>The table of the fixed generator; an error is a panic, so that the circuits take the table itself.\<close>

definition shared_g_in_chord_precomp ::
  "('q::field, 'p::ab_group_add, 'a, 'c, 's, 'z) evrf_curve_scheme \<Rightarrow> ('p, 's) chord_precomp result" where
  "shared_g_in_chord_precomp E = precompute_chord E (group_generator E) K_BITS"

section \<open>Statements and witnesses\<close>

record ('p, 'o, 's) one_receiver_statement =
  or_msg :: bytes
  or_pk1 :: 'p
  or_pk2 :: 'p
  or_s :: 'p
  or_h1 :: 'p
  or_h2 :: 'p
  or_t1 :: 'p
  or_t2 :: 'p
  or_r_point :: 'o
  or_beta :: 's

record ('q, 'p) batched_receiver =
  br_receiver :: participant_index
  br_pkj :: 'p
  br_share_commitment :: 'p
  br_pad_commitment :: 'p
  br_encrypted_share :: 'q

record ('q, 'p, 's) batched_statement =
  bs_msg :: bytes
  bs_pk1 :: 'p
  bs_beta :: 's
  bs_threshold :: usize
  bs_commitment_coefficients :: "'p list"
  bs_statement_roots :: "bytes list"
  bs_receivers :: "('q, 'p) batched_receiver list"

record 'q batched_witness =
  bw_sk1 :: 'q
  bw_polynomial_constant :: 'q

section \<open>Circuits that can fail\<close>

definition or_abort :: "'x result \<Rightarrow> ('x \<Rightarrow> 's gadget) \<Rightarrow> 's gadget" where
  "or_abort r k = (case r of Inl _ \<Rightarrow> Finish (Inl R1CSVerificationError) | Inr x \<Rightarrow> k x)"

section \<open>The one-receiver circuit\<close>

definition build_one_receiver_r1cs ::
  "variable_kind \<Rightarrow> variable_kind \<Rightarrow> 's::field \<Rightarrow> ('p, 's) chord_precomp \<Rightarrow> ('p, 's) chord_precomp \<Rightarrow> 's \<Rightarrow> 's \<Rightarrow> 's \<Rightarrow> 's \<Rightarrow> 's
    \<Rightarrow> 's option list \<Rightarrow> 's chord_witness option \<Rightarrow> 's chord_witness option \<Rightarrow> 's gadget" where
  "build_one_receiver_r1cs var_k var_r s_x precomp1 precomp2 t1_x t1_y t2_x t2_y beta bit_assignments witness1 witness2 =
     Constrain (variable_sub var_k (lc_from_scalar s_x))
    (bit_decompose var_k bit_assignments (\<lambda>bit_vars.
     chord_window_products bit_vars (\<lambda>k_window_products.
     chord_exponentiate_r1cs bit_vars precomp1 k_window_products t1_x t1_y witness1 (\<lambda>(x_t1, _).
     chord_exponentiate_r1cs bit_vars precomp2 k_window_products t2_x t2_y witness2 (\<lambda>(x_t2, _).
     Constrain (variable_sub var_r (lc_add (variable_mul x_t1 beta) (lc_from_variable x_t2)))
    (Finish (Inr ())))))))"

section \<open>One hidden receiver\<close>

record 's hidden_receiver_witness =
  hw_sk_pkj :: "'s chord_witness"
  hw_k_bits :: "'s option list"
  hw_t1 :: "'s chord_witness"
  hw_t2 :: "'s chord_witness"
  hw_reduce_q :: 's
  hw_pad :: 's
  hw_pad_bits :: "'s option list"
  hw_pad_commitment :: "'s chord_witness"

text \<open>The slot of a receiver, with the rest of the circuit as \<open>k\<close>.\<close>

definition build_hidden_receiver_slot ::
  "('q, 'p, 'a, 'c, 's::field, 'z) evrf_curve_scheme \<Rightarrow> ('p, 's) chord_precomp \<Rightarrow> ('q, 'p) batched_receiver
    \<Rightarrow> variable_kind list \<Rightarrow> variable_kind list \<Rightarrow> ('p, 's) chord_precomp \<Rightarrow> ('p, 's) chord_precomp \<Rightarrow> ('p, 's) chord_precomp
    \<Rightarrow> 's \<Rightarrow> 's hidden_receiver_witness option \<Rightarrow> 's gadget \<Rightarrow> 's gadget" where
  "build_hidden_receiver_slot E g_table rec sk_bit_vars sk_window_products precomp_pkj precomp_h1 precomp_h2 beta witness k =
     chord_exponentiate_r1cs_with_result sk_bit_vars precomp_pkj sk_window_products None (map_option hw_sk_pkj witness) (\<lambda>(s_x, _).
     let verifier_k_bits = replicate (K_BITS + 1) None;
         k_bits = (case witness of None \<Rightarrow> verifier_k_bits | Some w \<Rightarrow> hw_k_bits w)
     in bit_decompose s_x k_bits (\<lambda>k_bit_vars.
     chord_window_products k_bit_vars (\<lambda>k_window_products.
     chord_exponentiate_r1cs_with_result k_bit_vars precomp_h1 k_window_products None (map_option hw_t1 witness) (\<lambda>(x_t1, _).
     chord_exponentiate_r1cs_with_result k_bit_vars precomp_h2 k_window_products None (map_option hw_t2 witness) (\<lambda>(x_t2, _).
     let r_lc = lc_add (variable_mul x_t1 beta) (lc_from_variable x_t2)
     in Allocate (map_option hw_pad witness) (\<lambda>pad_var.
     let reduce_assignment = map_option hw_reduce_q witness
     in AllocateMultiplier (map_option (\<lambda>bit. (bit, 1 - bit)) reduce_assignment) (\<lambda>(reduce, reduce_right, reduce_out).
     Constrain (variable_sub reduce_right (lc_sub (lc_from_scalar 1) (lc_from_variable reduce)))
    (Constrain (lc_from_variable reduce_out)
    (Constrain (variable_sub pad_var (lc_sub r_lc (variable_mul reduce Q_AS_FP)))
    (let verifier_pad_bits = replicate (K_BITS + 1) None;
         pad_bits = (case witness of None \<Rightarrow> verifier_pad_bits | Some w \<Rightarrow> hw_pad_bits w)
     in bit_decompose_q pad_var pad_bits (\<lambda>pad_bit_vars.
     constrain_bits_lt_bound_when pad_bit_vars pad_bits SECP256K1_P_MINUS_Q_LE reduce
    (chord_window_products pad_bit_vars (\<lambda>pad_window_products.
     or_abort (affine_xy E (br_pad_commitment rec)) (\<lambda>(pad_commitment_x, pad_commitment_y).
     chord_exponentiate_r1cs_with_result pad_bit_vars g_table pad_window_products (Some (pad_commitment_x, pad_commitment_y))
       (map_option hw_pad_commitment witness) (\<lambda>_. k)))))))))))))))"

text \<open>The witness of a slot.\<close>

definition compute_hidden_receiver_witness ::
  "('q::field, 'p::ab_group_add, 'a, 'c, 's::field, 'z) evrf_curve_scheme \<Rightarrow> ('s, 'o, 'b, 'd, 'w) cycle_scheme
    \<Rightarrow> ('p, 's) chord_precomp \<Rightarrow> 'q \<Rightarrow> ('q, 'p) batched_receiver \<Rightarrow> 's
    \<Rightarrow> ('p, 's) chord_precomp \<Rightarrow> ('p, 's) chord_precomp \<Rightarrow> ('p, 's) chord_precomp \<Rightarrow> 's hidden_receiver_witness result" where
  "compute_hidden_receiver_witness E D g_table sk1 rec beta precomp_pkj precomp_h1 precomp_h2 =
     (let sj = point_mul E (br_pkj rec) sk1
      in rbind (affine_xy E sj) (\<lambda>(s_x, _).
      let k_bool_bits = decompose_k_fp D s_x (K_BITS + 1); k_bits = bit_options k_bool_bits
      in rbind (chord_compute_witness_precomputed E D k_bool_bits precomp_h1) (\<lambda>t1_witness.
         rbind (chord_compute_witness_precomputed E D k_bool_bits precomp_h2) (\<lambda>t2_witness.
         rbind (if checkpoint_coords t1_witness = [] then Inl ProofVerificationFailed
                else Inr (last (checkpoint_coords t1_witness))) (\<lambda>(t1_x, _).
         rbind (if checkpoint_coords t2_witness = [] then Inl ProofVerificationFailed
                else Inr (last (checkpoint_coords t2_witness))) (\<lambda>(t2_x, _).
         let r = beta * t1_x + t2_x; pad_fq = fp_to_fq D r; pad = fq_to_fp E pad_fq;
             reduce_q = (if pad = r then 0 else 1); pad_commitment = secp_mul_generator E pad_fq
         in if compressed_as_bytes E (point_compress E pad_commitment) \<noteq> compressed_as_bytes E (point_compress E (br_pad_commitment rec))
            then Inl ProofVerificationFailed
            else
            let sk_bits = decompose_k_fp D (fq_to_fp E sk1) (K_BITS + 1); pad_bool_bits = decompose_k_fp D pad (K_BITS + 1)
            in rbind (chord_compute_witness_precomputed E D sk_bits precomp_pkj) (\<lambda>sk_pkj.
               rbind (chord_compute_witness_precomputed E D pad_bool_bits g_table) (\<lambda>pad_commitment_witness.
               Inr \<lparr>hw_sk_pkj = sk_pkj, hw_k_bits = k_bits, hw_t1 = t1_witness, hw_t2 = t2_witness, hw_reduce_q = reduce_q,
                    hw_pad = pad, hw_pad_bits = bit_options pad_bool_bits, hw_pad_commitment = pad_commitment_witness\<rparr>))))))))"

section \<open>The tables of the receivers\<close>

text \<open>Per canonical encoding of the public key; the first key with an encoding keeps its entry.\<close>

definition receiver_points ::
  "('q, 'p, 'a, 'c, 's, 'z) evrf_curve_scheme \<Rightarrow> ('q, 'p, 's) batched_statement list \<Rightarrow> (bytes \<times> 'p) list" where
  "receiver_points E statements =
     fold (\<lambda>rec points. let key = compressed_as_bytes E (point_compress E (br_pkj rec))
        in if key \<in> fst ` set points then points else points @ [(key, br_pkj rec)]) (concat (map bs_receivers statements)) []"

definition receiver_chord_precomps_new ::
  "('q::field, 'p::ab_group_add, 'a, 'c, 's, 'z) evrf_curve_scheme \<Rightarrow> ('q, 'p, 's) batched_statement list
    \<Rightarrow> (bytes \<times> ('p, 's) chord_precomp) list result" where
  "receiver_chord_precomps_new E statements =
     collect (\<lambda>(key, point). rbind (precompute_chord E point K_BITS) (\<lambda>table. Inr (key, table))) (receiver_points E statements)"

definition receiver_chord_precomps_get ::
  "('q, 'p, 'a, 'c, 's, 'z) evrf_curve_scheme \<Rightarrow> (bytes \<times> ('p, 's) chord_precomp) list \<Rightarrow> 'p \<Rightarrow> ('p, 's) chord_precomp result" where
  "receiver_chord_precomps_get E tables point =
     ok_or (map_of tables (compressed_as_bytes E (point_compress E point))) ProofVerificationFailed"

section \<open>The batched circuits\<close>

text \<open>The slots of the receivers in order, each with its table and its witness.\<close>

primrec verifier_slots ::
  "('q, 'p, 'a, 'c, 's::field, 'z) evrf_curve_scheme \<Rightarrow> ('p, 's) chord_precomp \<Rightarrow> (bytes \<times> ('p, 's) chord_precomp) list
    \<Rightarrow> variable_kind list \<Rightarrow> variable_kind list \<Rightarrow> ('p, 's) chord_precomp \<Rightarrow> ('p, 's) chord_precomp \<Rightarrow> 's
    \<Rightarrow> ('q, 'p) batched_receiver list \<Rightarrow> 's gadget" where
  "verifier_slots E g_table tables sk_bit_vars sk_window_products precomp_h1 precomp_h2 beta [] = Finish (Inr ())"
| "verifier_slots E g_table tables sk_bit_vars sk_window_products precomp_h1 precomp_h2 beta (rec # recs) =
     or_abort (receiver_chord_precomps_get E tables (br_pkj rec)) (\<lambda>precomp_pkj.
     build_hidden_receiver_slot E g_table rec sk_bit_vars sk_window_products precomp_pkj precomp_h1 precomp_h2 beta None
       (verifier_slots E g_table tables sk_bit_vars sk_window_products precomp_h1 precomp_h2 beta recs))"

primrec prover_slots ::
  "('q, 'p, 'a, 'c, 's::field, 'z) evrf_curve_scheme \<Rightarrow> ('p, 's) chord_precomp \<Rightarrow> (bytes \<times> ('p, 's) chord_precomp) list
    \<Rightarrow> variable_kind list \<Rightarrow> variable_kind list \<Rightarrow> ('p, 's) chord_precomp \<Rightarrow> ('p, 's) chord_precomp \<Rightarrow> 's
    \<Rightarrow> (('q, 'p) batched_receiver \<times> 's hidden_receiver_witness) list \<Rightarrow> 's gadget" where
  "prover_slots E g_table tables sk_bit_vars sk_window_products precomp_h1 precomp_h2 beta [] = Finish (Inr ())"
| "prover_slots E g_table tables sk_bit_vars sk_window_products precomp_h1 precomp_h2 beta (r # rs) =
     or_abort (receiver_chord_precomps_get E tables (br_pkj (fst r))) (\<lambda>precomp_pkj.
     build_hidden_receiver_slot E g_table (fst r) sk_bit_vars sk_window_products precomp_pkj precomp_h1 precomp_h2 beta (Some (snd r))
       (prover_slots E g_table tables sk_bit_vars sk_window_products precomp_h1 precomp_h2 beta rs))"

definition batched_verifier_circuit ::
  "('q, 'p, 'a, 'c, 's::field, 'z) evrf_curve_scheme \<Rightarrow> ('p, 's) chord_precomp \<Rightarrow> (bytes \<times> ('p, 's) chord_precomp) list
    \<Rightarrow> ('p, 's) chord_precomp \<Rightarrow> ('p, 's) chord_precomp \<Rightarrow> ('q, 'p, 's) batched_statement \<Rightarrow> 's gadget" where
  "batched_verifier_circuit E g_table tables precomp_h1 precomp_h2 statement =
     Allocate None (\<lambda>sk_var.
     bit_decompose_q sk_var (replicate (K_BITS + 1) None) (\<lambda>sk_bit_vars.
     chord_window_products sk_bit_vars (\<lambda>sk_window_products.
     or_abort (affine_xy E (bs_pk1 statement)) (\<lambda>(pk1_x, pk1_y).
     chord_exponentiate_r1cs_with_result sk_bit_vars g_table sk_window_products (Some (pk1_x, pk1_y)) None (\<lambda>_.
     verifier_slots E g_table tables sk_bit_vars sk_window_products precomp_h1 precomp_h2 (bs_beta statement)
       (bs_receivers statement))))))"

definition batched_prover_circuit ::
  "('q::field, 'p::ab_group_add, 'a, 'c, 's::field, 'z) evrf_curve_scheme \<Rightarrow> ('s, 'o, 'b, 'd, 'w) cycle_scheme
    \<Rightarrow> ('p, 's) chord_precomp \<Rightarrow> ('p, 's) chord_precomp \<Rightarrow> ('p, 's) chord_precomp \<Rightarrow> ('q, 'p, 's) batched_statement \<Rightarrow> 'q \<Rightarrow> 's gadget" where
  "batched_prover_circuit E D g_table precomp_h1 precomp_h2 statement sk1 =
     (let sk_fp = fq_to_fp E sk1; sk_bool_bits = decompose_k_fp D sk_fp (K_BITS + 1)
      in Allocate (Some sk_fp) (\<lambda>sk_var.
         bit_decompose_q sk_var (bit_options sk_bool_bits) (\<lambda>sk_bit_vars.
         chord_window_products sk_bit_vars (\<lambda>sk_window_products.
         or_abort (chord_compute_witness_precomputed E D sk_bool_bits g_table) (\<lambda>pk1_witness.
         or_abort (affine_xy E (bs_pk1 statement)) (\<lambda>(pk1_x, pk1_y).
         chord_exponentiate_r1cs_with_result sk_bit_vars g_table sk_window_products (Some (pk1_x, pk1_y)) (Some pk1_witness) (\<lambda>_.
         or_abort (receiver_chord_precomps_new E [statement]) (\<lambda>tables.
         or_abort (collect (\<lambda>rec. rbind (receiver_chord_precomps_get E tables (br_pkj rec)) (\<lambda>table.
             compute_hidden_receiver_witness E D g_table sk1 rec (bs_beta statement) table precomp_h1 precomp_h2))
             (bs_receivers statement)) (\<lambda>receiver_witnesses.
         prover_slots E g_table tables sk_bit_vars sk_window_products precomp_h1 precomp_h2 (bs_beta statement)
           (zip (bs_receivers statement) receiver_witnesses))))))))))"

end
