(* ===== verification/Evrf_Relation_Sound.thy ===== *)
theory Evrf_Relation_Sound
  imports Evrf_Relation
begin

text \<open>
  What the paper eVRF circuits prove. \<open>regular\<close> says that an exponentiation has no exceptional addition; then the
  circuit of a receiver enforces its relation (\<open>slot_holds\<close>), and the whole batch that of every receiver under
  one secret (\<open>batched_holds\<close>).
\<close>

section \<open>Exponentiations without exceptional additions\<close>

text \<open>No intermediate point is the identity, and no two added points have the same \<open>x\<close>.\<close>

definition regular ::
  "('q::field, 'p::ab_group_add, 'a, 'c, 's::field, 'z) evrf_curve_scheme \<Rightarrow> 'p \<Rightarrow> bool list \<Rightarrow> bool" where
  "regular E X bs \<longleftrightarrow>
     (\<forall>w \<le> K_BITS div 2. xy E (running E X K_BITS ((!) bs) w) \<noteq> None)
     \<and> (\<forall>w. 1 \<le> w \<longrightarrow> w \<le> K_BITS div 2 \<longrightarrow> xy E (window_point E X K_BITS ((!) bs) w) \<noteq> None
          \<and> fst (the (xy E (running E X K_BITS ((!) bs) (w - 1)))) \<noteq> fst (the (xy E (window_point E X K_BITS ((!) bs) w))))"

lemma regular_witness_of: "regular E X bs \<longleftrightarrow> (\<exists>wit. witness_of E X K_BITS ((!) bs) wit)"
proof
  assume r: "regular E X bs"
  let ?n = "K_BITS div 2"
  let ?L = "\<lambda>w. the (xy E (running E X K_BITS ((!) bs) w))" and ?D = "\<lambda>w. the (xy E (window_point E X K_BITS ((!) bs) w))"
  let ?wit = "\<lparr>checkpoint_coords = map ?L (filter (\<lambda>w. chord_is_checkpoint_window w ?n) [1..<?n + 1]),
     slopes = map (\<lambda>w. (snd (?L (w - 1)) - snd (?D w)) / (fst (?L (w - 1)) - fst (?D w))) [1..<?n + 1],
     denominators = map (\<lambda>w. fst (?L (w - 1)) - fst (?D w)) [1..<?n + 1]\<rparr>"
  have "witness_of E X K_BITS ((!) bs) ?wit"
    unfolding witness_of_def
  proof (rule exI[of _ ?L], rule exI[of _ ?D], intro conjI allI impI)
    show "xy E (running E X K_BITS ((!) bs) w) = Some (?L w)" if "w \<le> ?n" for w
      using r that by (simp add: regular_def)
    show "xy E (window_point E X K_BITS ((!) bs) w) = Some (?D w)" "fst (?L (w - 1)) \<noteq> fst (?D w)" if "1 \<le> w" "w \<le> ?n" for w
      using r that unfolding regular_def by (metis option.collapse)+
  qed simp_all
  then show "\<exists>wit. witness_of E X K_BITS ((!) bs) wit" by blast
next
  assume "\<exists>wit. witness_of E X K_BITS ((!) bs) wit"
  then obtain wit where w: "witness_of E X K_BITS ((!) bs) wit" by blast
  show "regular E X bs"
    by (rule witness_ofE[OF w]) (auto simp: regular_def)
qed

section \<open>Integers\<close>

lemma limbs_cons: "limbs_int (l # ls) = unat l + 2 ^ 64 * limbs_int ls" "limbs_int [] = 0"
  by (simp_all add: limbs_int_def)

text \<open>The integer of a modulus is that of its bytes.\<close>

lemma modulus_bit_eq: "modulus_bit m j \<longleftrightarrow> bit (from_le m) j"
proof -
  have "drop_bit k b AND 1 = 1 \<longleftrightarrow> bit b k" for b :: byte and k
    by (simp add: and_one_eq bit_iff_odd_drop_bit odd_iff_mod_2_eq_one)
  then show ?thesis by (simp add: modulus_bit_def Let_def bit_from_le)
qed

lemma modulus_int_from_le: "length m \<le> 32 \<Longrightarrow> modulus_int m = from_le m"
proof -
  assume "length m \<le> 32"
  then have "from_le m < 2 ^ (K_BITS + 1)"
  proof -
    have "from_le m < 256 ^ length m" by (rule from_le_less)
    also have "(256 :: nat) ^ length m \<le> 256 ^ 32" using \<open>length m \<le> 32\<close> by (intro power_increasing) auto
    also have "\<dots> \<le> 2 ^ (K_BITS + 1)" by (simp add: K_BITS_def)
    finally show ?thesis .
  qed
  moreover have "modulus_int m = take_bit (K_BITS + 1) (from_le m)"
    unfolding modulus_int_def bits_int_def by (simp add: modulus_bit_eq[abs_def] horner_sum_bit_eq_take_bit del: upt_Suc)
  ultimately show ?thesis by (simp add: take_bit_nat_eq_self)
qed

lemma modulus_values:
  "modulus_int SECP256K1_BASE_MODULUS_LE = 2 ^ 256 - 2 ^ 32 - 977"
  "modulus_int SECP256K1_SCALAR_MODULUS_LE = 115792089237316195423570985008687907852837564279074904382605163141518161494337"
  "modulus_int SECP256K1_P_MINUS_Q_LE = modulus_int SECP256K1_BASE_MODULUS_LE - modulus_int SECP256K1_SCALAR_MODULUS_LE"
  by (simp_all add: modulus_int_from_le SECP256K1_BASE_MODULUS_LE_def SECP256K1_SCALAR_MODULUS_LE_def SECP256K1_P_MINUS_Q_LE_def)

lemma Q_AS_FP_value: "Q_AS_FP = of_nat (modulus_int SECP256K1_SCALAR_MODULUS_LE)"
proof -
  have "limbs_int [0xbfd25e8cd0364141, 0xbaaedce6af48a03b, 0xfffffffffffffffe, 0xffffffffffffffff]
      = 115792089237316195423570985008687907852837564279074904382605163141518161494337"
    by (simp add: limbs_cons)
  then show ?thesis by (simp only: Q_AS_FP_def from_raw_def modulus_values(2))
qed

section \<open>Exponentiation, regular or not\<close>

lemma chord_loop_passes:
  "(\<And>r. enforces M C env (k r) Q) \<Longrightarrow> enforces M C env (chord_loop bit_vars pc wps wit n ws x_prev y_prev checkpoint idx k) Q"
proof (induction ws arbitrary: x_prev y_prev checkpoint idx)
  case Nil
  then show ?case by simp
next
  case (Cons w ws)
  show ?case
    unfolding chord_loop.simps Let_def
    by (rule enforces_AllocateMultiplier, unfold prod.case, rule enforces_Constrain, rule enforces_Constrain,
        rule enforces_Multiply, unfold prod.case, rule enforces_Multiply, unfold prod.case, rule enforces_if,
        rule enforces_Allocate, rule enforces_Allocate, rule enforces_Constrain, rule enforces_Constrain)
      (rule Cons.IH[OF Cons.prems])+
qed

lemma chord_exponentiate_passes:
  assumes "\<And>r. enforces M C env (k r) Q"
  shows "enforces M C env (chord_exponentiate_r1cs_with_result bit_vars pc wps res witness k) Q"
  unfolding chord_exponentiate_r1cs_with_result_def Let_def
proof (rule enforces_if, rule enforces_error, rule enforces_if, rule enforces_error, rule enforces_if, rule enforces_error,
    rule chord_loop_passes)
  fix checkpoint :: "(variable_kind \<times> variable_kind) option"
  obtain x y where xy: "the checkpoint = (x, y)" by fastforce
  show "enforces M C env (case the checkpoint of (x_final, y_final) \<Rightarrow>
        (case res of None \<Rightarrow> k (x_final, y_final)
         | Some (result_x, result_y) \<Rightarrow> Constrain (variable_sub x_final (lc_from_scalar result_x))
            (Constrain (variable_sub y_final (lc_from_scalar result_y)) (k (x_final, y_final))))) Q"
    unfolding xy prod.case
    by (cases res) (auto simp: assms split: prod.splits intro!: enforces_Constrain)
qed

context chord_curve
begin

text \<open>The result of a regular exponentiation is the multiple, and it is the announced point.\<close>

lemma regular_exponentiate_enforces:
  assumes "tables_of E X K_BITS pc" and bs: "length bs = K_BITS + 1"
    and "map env bit_vars = map of_bool bs" "products_of ((!) bs) (K_BITS div 2) (map env wps)"
    and next_part: "\<And>xv yv. (regular E X bs \<Longrightarrow> xy E (point_mul E X (of_nat (bits_int bs))) = Some (env xv, env yv)
      \<and> (\<forall>r. res = Some r \<longrightarrow> xy E (point_mul E X (of_nat (bits_int bs))) = Some r)) \<Longrightarrow> enforces M C env (k (xv, yv)) Q"
  shows "enforces M C env (chord_exponentiate_r1cs_with_result bit_vars pc wps res witness k) Q"
proof (cases "regular E X bs")
  case False
  then show ?thesis using next_part by (intro chord_exponentiate_passes) auto
next
  case True
  then obtain wit where w: "witness_of E X K_BITS ((!) bs) wit" by (auto simp: regular_witness_of)
  show ?thesis
  proof (rule chord_exponentiate_enforces[OF assms(1) w bs assms(3,4)])
    fix xv yv
    assume v: "xy E (point_mul E X (of_nat (bits_int bs))) = Some (env xv, env yv)"
      and r: "\<And>rx ry. res = Some (rx, ry) \<Longrightarrow> (env xv, env yv) = (rx, ry)"
    show "enforces M C env (k (xv, yv)) Q"
      by (rule next_part) (use v r in \<open>simp add: split_paired_all\<close>)
  qed
qed

end

section \<open>The relation of a receiver\<close>

text \<open>
  With bits \<open>sk_bits\<close> of the dealer's secret: the integer of the \<open>x\<close> coordinate of \<open>sk * PK\<close> is \<open>k\<close>, the pad
  is \<open>beta * T1.x + T2.x\<close> as an integer modulo \<open>q\<close> for \<open>T1 = k * H1\<close> and \<open>T2 = k * H2\<close>, and the pad commitment is its
  multiple of the generator.
\<close>

definition slot_relation ::
  "('q::field, 'p::ab_group_add, 'a, 'c, 's::field, 'z) evrf_curve_scheme \<Rightarrow> 'p \<Rightarrow> 'p \<Rightarrow> 's \<Rightarrow> bool list \<Rightarrow> ('q, 'p) batched_receiver
    \<Rightarrow> bool list \<Rightarrow> bool list \<Rightarrow> bool" where
  "slot_relation E h1 h2 beta sk_bits rec k_bits pad_bits \<longleftrightarrow>
     (\<exists>s t1 t2 r. xy E (point_mul E (br_pkj rec) (of_nat (bits_int sk_bits))) = Some s \<and> fst s = of_nat (bits_int k_bits)
       \<and> xy E (point_mul E h1 (of_nat (bits_int k_bits))) = Some t1 \<and> xy E (point_mul E h2 (of_nat (bits_int k_bits))) = Some t2
       \<and> r < modulus_int SECP256K1_BASE_MODULUS_LE \<and> of_nat r = beta * fst t1 + fst t2
       \<and> bits_int pad_bits = r mod modulus_int SECP256K1_SCALAR_MODULUS_LE
       \<and> br_pad_commitment rec = point_mul E (group_generator E) (of_nat (bits_int pad_bits)))"

definition slot_holds ::
  "('q::field, 'p::ab_group_add, 'a, 'c, 's::field, 'z) evrf_curve_scheme \<Rightarrow> 'p \<Rightarrow> 'p \<Rightarrow> 's \<Rightarrow> bool list \<Rightarrow> ('q, 'p) batched_receiver \<Rightarrow> bool" where
  "slot_holds E h1 h2 beta sk_bits rec \<longleftrightarrow>
     (\<exists>k_bits pad_bits. length k_bits = K_BITS + 1 \<and> length pad_bits = K_BITS + 1
       \<and> bits_int k_bits < modulus_int SECP256K1_BASE_MODULUS_LE \<and> bits_int pad_bits < modulus_int SECP256K1_SCALAR_MODULUS_LE
       \<and> (regular E (br_pkj rec) sk_bits \<and> regular E h1 k_bits \<and> regular E h2 k_bits \<and> regular E (group_generator E) pad_bits
          \<longrightarrow> slot_relation E h1 h2 beta sk_bits rec k_bits pad_bits))"

text \<open>The conditions on the field: it has no small torsion.\<close>

abbreviation no_small_torsion :: "'s::field itself \<Rightarrow> bool" where
  "no_small_torsion _ \<equiv> \<forall>n. 0 < n \<longrightarrow> n \<le> K_BITS + 1 \<longrightarrow> of_nat n \<noteq> (0 :: 's)"

lemma pad_integer:
  fixes r :: "'s::field"
  assumes "of_nat pad = r - of_bool red * of_nat (modulus_int SECP256K1_SCALAR_MODULUS_LE)"
    and "pad < modulus_int SECP256K1_SCALAR_MODULUS_LE"
    and "red \<Longrightarrow> pad < modulus_int SECP256K1_P_MINUS_Q_LE"
  shows "\<exists>n. n < modulus_int SECP256K1_BASE_MODULUS_LE \<and> of_nat n = r \<and> pad = n mod modulus_int SECP256K1_SCALAR_MODULUS_LE"
proof (rule exI[of _ "pad + of_bool red * modulus_int SECP256K1_SCALAR_MODULUS_LE"], intro conjI)
  show "pad + of_bool red * modulus_int SECP256K1_SCALAR_MODULUS_LE < modulus_int SECP256K1_BASE_MODULUS_LE"
    using assms(2,3) unfolding modulus_values(3) by (cases red) (simp_all add: modulus_values)
  show "of_nat (pad + of_bool red * modulus_int SECP256K1_SCALAR_MODULUS_LE) = r"
    using assms(1) by simp
  show "pad = (pad + of_bool red * modulus_int SECP256K1_SCALAR_MODULUS_LE) mod modulus_int SECP256K1_SCALAR_MODULUS_LE"
    using assms(2) by simp
qed

context chord_curve
begin

lemma slot_enforces:
  assumes torsion: "no_small_torsion TYPE('s)"
    and tables: "tables_of E (br_pkj rec) K_BITS precomp_pkj" "tables_of E h1 K_BITS precomp_h1" "tables_of E h2 K_BITS precomp_h2"
      "tables_of E (group_generator E) K_BITS g_table"
    and sk: "length sk_bits = K_BITS + 1" "map env sk_bit_vars = map of_bool sk_bits"
      "products_of ((!) sk_bits) (K_BITS div 2) (map env sk_products)"
    and rest: "slot_holds E h1 h2 beta sk_bits rec \<Longrightarrow> enforces M C env k Q"
  shows "enforces M C env (build_hidden_receiver_slot E g_table rec sk_bit_vars sk_products precomp_pkj precomp_h1 precomp_h2 beta witness k) Q"
  unfolding build_hidden_receiver_slot_def Let_def bit_decompose_def bit_decompose_q_def
proof (rule enforces_one, rule regular_exponentiate_enforces[OF tables(1) sk], unfold prod.case, rule bit_decompose_bounded_enforces)
  fix s_x s_y k_bit_vars k_bits
  let ?S = "point_mul E (br_pkj rec) (of_nat (bits_int sk_bits))"
  assume one: "env ConstantOne = 1"
    and s: "regular E (br_pkj rec) sk_bits \<Longrightarrow> xy E ?S = Some (env s_x, env s_y) \<and> (\<forall>r. None = Some r \<longrightarrow> xy E ?S = Some r)"
    and k: "length k_bit_vars = K_BITS + 1" "map env k_bit_vars = map of_bool k_bits"
      "bits_int k_bits < modulus_int SECP256K1_BASE_MODULUS_LE" "env s_x = of_nat (bits_int k_bits)"
  have k_len: "length k_bits = K_BITS + 1" using map_eq_imp_length_eq[OF k(2)] k(1) by simp
  let ?T1 = "point_mul E h1 (of_nat (bits_int k_bits))" and ?T2 = "point_mul E h2 (of_nat (bits_int k_bits))"
  let ?slot_end = "\<lambda>pad_bits_assigned pad_var red. bit_decompose_bounded pad_var pad_bits_assigned SECP256K1_SCALAR_MODULUS_LE (\<lambda>pad_bit_vars.
     constrain_bits_lt_bound_when pad_bit_vars pad_bits_assigned SECP256K1_P_MINUS_Q_LE red
    (chord_window_products pad_bit_vars (\<lambda>pad_window_products.
     or_abort (affine_xy E (br_pad_commitment rec)) (\<lambda>(pad_commitment_x, pad_commitment_y).
     chord_exponentiate_r1cs_with_result pad_bit_vars g_table pad_window_products (Some (pad_commitment_x, pad_commitment_y))
       (map_option hw_pad_commitment witness) (\<lambda>_. k)))))"
  have final: "enforces M C env (?slot_end assigned pad_var red) Q"
    if r: "regular E h1 k_bits \<Longrightarrow> xy E ?T1 = Some (env x_t1, env y_t1)" "regular E h2 k_bits \<Longrightarrow> xy E ?T2 = Some (env x_t2, env y_t2)"
      and red: "env red * (1 - env red) = 0"
      and pad: "env pad_var = beta * env x_t1 + env x_t2 - Q_AS_FP * env red"
    for assigned pad_var red x_t1 y_t1 x_t2 y_t2
  proof (rule bit_decompose_bounded_enforces, rule constrain_bits_lt_bound_when_enforces[where env = env])
    fix pad_bit_vars pad_bits
    assume p: "length pad_bit_vars = K_BITS + 1" "map env pad_bit_vars = map of_bool pad_bits"
      "bits_int pad_bits < modulus_int SECP256K1_SCALAR_MODULUS_LE" "env pad_var = of_nat (bits_int pad_bits)"
    show "of_nat n \<noteq> (0 :: 's)" if "0 < n" "n \<le> K_BITS + 1" for n using torsion that by blast
    show "map env pad_bit_vars = map of_bool pad_bits" by (rule p(2))
    assume bound: "env red = 1 \<Longrightarrow> bits_int pad_bits < modulus_int SECP256K1_P_MINUS_Q_LE"
    have p_len: "length pad_bits = K_BITS + 1" using map_eq_imp_length_eq[OF p(2)] p(1) by simp
    have n: "(length pad_bits - 1) div 2 = K_BITS div 2" using p_len by simp
    show "enforces M C env (chord_window_products pad_bit_vars (\<lambda>pad_window_products.
     or_abort (affine_xy E (br_pad_commitment rec)) (\<lambda>(pad_commitment_x, pad_commitment_y).
     chord_exponentiate_r1cs_with_result pad_bit_vars g_table pad_window_products (Some (pad_commitment_x, pad_commitment_y))
       (map_option hw_pad_commitment witness) (\<lambda>_. k)))) Q"
    proof (rule chord_window_products_enforces[where env = env, OF p(2), unfolded n])
      fix ps
      assume products: "products_of ((!) pad_bits) (K_BITS div 2) (map env ps)"
      show "enforces M C env (or_abort (affine_xy E (br_pad_commitment rec)) (\<lambda>(pad_commitment_x, pad_commitment_y).
         chord_exponentiate_r1cs_with_result pad_bit_vars g_table ps (Some (pad_commitment_x, pad_commitment_y))
           (map_option hw_pad_commitment witness) (\<lambda>_. k))) Q"
      proof (cases "xy E (br_pad_commitment rec)")
        case None
        then show ?thesis by (simp add: or_abort_def affine_xy_eq ok_or_def enforces_error)
      next
        case (Some c)
        obtain cx cy where c: "c = (cx, cy)" by fastforce
        have aff: "affine_xy E (br_pad_commitment rec) = Inr (cx, cy)" using Some by (simp add: affine_xy_eq c)
        show ?thesis
          unfolding or_abort_def aff sum.case prod.case
        proof (rule regular_exponentiate_enforces[OF tables(4) p_len p(2) products], rule rest)
          fix xv yv
          let ?P = "point_mul E (group_generator E) (of_nat (bits_int pad_bits))"
          assume g: "regular E (group_generator E) pad_bits \<Longrightarrow> xy E ?P = Some (env xv, env yv) \<and> (\<forall>r. Some (cx, cy) = Some r \<longrightarrow> xy E ?P = Some r)"
          have reduce_bool: "env red = of_bool (env red = 1)" using red by auto
          have pad_eq: "of_nat (bits_int pad_bits) = beta * env x_t1 + env x_t2 - of_bool (env red = 1) * of_nat (modulus_int SECP256K1_SCALAR_MODULUS_LE)"
            using pad p(4) reduce_bool unfolding Q_AS_FP_value by (metis mult.commute)
          obtain n where n: "n < modulus_int SECP256K1_BASE_MODULUS_LE" "of_nat n = beta * env x_t1 + env x_t2"
            "bits_int pad_bits = n mod modulus_int SECP256K1_SCALAR_MODULUS_LE"
            using pad_integer[OF pad_eq p(3) bound] by blast
          show "slot_holds E h1 h2 beta sk_bits rec"
            unfolding slot_holds_def
          proof (rule exI[of _ k_bits], rule exI[of _ pad_bits], intro conjI impI k_len p_len k(3) p(3))
            assume reg: "regular E (br_pkj rec) sk_bits \<and> regular E h1 k_bits \<and> regular E h2 k_bits \<and> regular E (group_generator E) pad_bits"
            have "xy E ?P = xy E (br_pad_commitment rec)" using g reg Some c by auto
            then have commitment: "br_pad_commitment rec = ?P" using Some c by (metis xy_inject)
            show "slot_relation E h1 h2 beta sk_bits rec k_bits pad_bits"
              unfolding slot_relation_def
              by (rule exI[of _ "(env s_x, env s_y)"], rule exI[of _ "(env x_t1, env y_t1)"], rule exI[of _ "(env x_t2, env y_t2)"],
                  rule exI[of _ n]) (use reg s r n commitment k(4) in simp)
          qed
        qed
      qed
    qed
  qed
  let ?kbits_part = "\<lambda>ps. chord_exponentiate_r1cs_with_result k_bit_vars precomp_h1 ps None (map_option hw_t1 witness) (\<lambda>(x_t1, _).
     chord_exponentiate_r1cs_with_result k_bit_vars precomp_h2 ps None (map_option hw_t2 witness) (\<lambda>(x_t2, _).
     Allocate (map_option hw_pad witness) (\<lambda>pad_var.
     AllocateMultiplier (map_option (\<lambda>bit. (bit, 1 - bit)) (map_option hw_reduce_q witness)) (\<lambda>(red, reduce_right, reduce_out).
     Constrain (variable_sub reduce_right (lc_sub (lc_from_scalar 1) (lc_from_variable red)))
    (Constrain (lc_from_variable reduce_out)
    (Constrain (variable_sub pad_var (lc_sub (lc_add (variable_mul x_t1 beta) (lc_from_variable x_t2)) (variable_mul red Q_AS_FP)))
    (?slot_end (case witness of None \<Rightarrow> replicate (K_BITS + 1) None | Some w \<Rightarrow> hw_pad_bits w) pad_var red)))))))"
  have n: "(length k_bits - 1) div 2 = K_BITS div 2" using k_len by simp
  show "enforces M C env (chord_window_products k_bit_vars ?kbits_part) Q"
  proof (rule chord_window_products_enforces[where env = env, OF k(2), unfolded n])
    fix ps
    assume products: "products_of ((!) k_bits) (K_BITS div 2) (map env ps)"
    show "enforces M C env (?kbits_part ps) Q"
      by (rule regular_exponentiate_enforces[OF tables(2) k_len k(2) products], unfold prod.case,
          rule regular_exponentiate_enforces[OF tables(3) k_len k(2) products], unfold prod.case,
          rule enforces_Allocate, rule enforces_AllocateMultiplier, unfold prod.case,
          rule enforces_Constrain, rule enforces_Constrain, rule enforces_Constrain, rule final)
        (auto simp: lc_value_ops one)
  qed
qed

end

section \<open>The tables of the receivers\<close>

abbreviation encoded :: "('q, 'p, 'a, 'c, 's, 'z) evrf_curve_scheme \<Rightarrow> 'p \<Rightarrow> bytes" where
  "encoded E p \<equiv> compressed_as_bytes E (point_compress E p)"

lemma fold_keys:
  assumes "\<And>r points. P points \<Longrightarrow> P (f r points) \<and> fst ` set points \<subseteq> fst ` set (f r points) \<and> key r \<in> fst ` set (f r points)" "P points"
  shows "P (fold f rs points) \<and> fst ` set points \<subseteq> fst ` set (fold f rs points) \<and> (\<forall>r \<in> set rs. key r \<in> fst ` set (fold f rs points))"
  using assms(2)
proof (induction rs arbitrary: points)
  case (Cons r rs)
  note step = assms(1)[OF Cons.prems, of r]
  then show ?case using Cons.IH[of "f r points"] by auto
qed simp

lemma receiver_points_spec:
  "(\<forall>(key, point) \<in> set (receiver_points E statements). key = encoded E point)
    \<and> (\<forall>st \<in> set statements. \<forall>rec \<in> set (bs_receivers st). encoded E (br_pkj rec) \<in> fst ` set (receiver_points E statements))"
proof -
  let ?P = "\<lambda>points. \<forall>(key, point) \<in> set points. key = encoded E point"
  let ?f = "\<lambda>rec points. let key = encoded E (br_pkj rec) in if key \<in> fst ` set points then points else points @ [(key, br_pkj rec)]"
  have "?P points \<Longrightarrow> ?P (?f rec points) \<and> fst ` set points \<subseteq> fst ` set (?f rec points) \<and> encoded E (br_pkj rec) \<in> fst ` set (?f rec points)"
    for rec points by (auto simp: Let_def)
  note all = fold_keys[where P = ?P and f = ?f and key = "\<lambda>rec. encoded E (br_pkj rec)" and rs = "concat (map bs_receivers statements)",
    OF this, of "[]", folded receiver_points_def]
  then show ?thesis
  proof (intro conjI ballI)
    fix st rec assume "st \<in> set statements" "rec \<in> set (bs_receivers st)"
    then have "rec \<in> set (concat (map bs_receivers statements))" by auto
    then show "encoded E (br_pkj rec) \<in> fst ` set (receiver_points E statements)"
      using all by (simp only: list.set ball_empty simp_thms)
  qed (simp only: list.set ball_empty simp_thms)
qed

context chord_curve
begin

lemma receiver_table:
  assumes inject: "\<And>p q. encoded E p = encoded E q \<Longrightarrow> p = q"
    and "receiver_chord_precomps_new E statements = Inr tables" "receiver_chord_precomps_get E tables point = Inr pc"
  shows "precompute_chord E point K_BITS = Inr pc"
proof -
  have look: "map_of tables (encoded E point) = Some pc"
    using assms(3) by (simp add: receiver_chord_precomps_get_def)
  have all: "list_all2 (\<lambda>(key, p) t. (case (key, p) of (key, point) \<Rightarrow> rbind (precompute_chord E point K_BITS) (\<lambda>table. Inr (key, table))) = Inr t)
      (receiver_points E statements) tables"
    using assms(2) by (simp add: receiver_chord_precomps_new_def collect_eq_Inr case_prod_unfold)
  obtain i where i: "i < length tables" "tables ! i = (encoded E point, pc)"
    using map_of_SomeD[OF look] by (auto simp: in_set_conv_nth)
  obtain key p where kp: "receiver_points E statements ! i = (key, p)" by fastforce
  have "i < length (receiver_points E statements)" using i(1) list_all2_lengthD[OF all] by simp
  then have key: "key = encoded E p"
    using receiver_points_spec[of E statements] kp nth_mem by fastforce
  have "precompute_chord E p K_BITS = Inr pc \<and> key = encoded E point"
    using list_all2_nthD2[OF all i(1)] i(2) kp by auto
  with key inject show ?thesis by metis
qed

lemma receiver_table_exists:
  assumes "receiver_chord_precomps_new E statements = Inr tables" "st \<in> set statements" "rec \<in> set (bs_receivers st)"
  shows "\<exists>pc. receiver_chord_precomps_get E tables (br_pkj rec) = Inr pc"
proof -
  have "map fst tables = map fst (receiver_points E statements)"
  proof (rule nth_equalityI)
    have all: "list_all2 (\<lambda>(key, p) t. (case (key, p) of (key, point) \<Rightarrow> rbind (precompute_chord E point K_BITS) (\<lambda>table. Inr (key, table))) = Inr t)
        (receiver_points E statements) tables"
      using assms(1) by (simp add: receiver_chord_precomps_new_def collect_eq_Inr case_prod_unfold)
    then show "length (map fst tables) = length (map fst (receiver_points E statements))" by (simp add: list_all2_lengthD)
    show "map fst tables ! i = map fst (receiver_points E statements) ! i" if "i < length (map fst tables)" for i
      using list_all2_nthD2[OF all, of i] that list_all2_lengthD[OF all] by (auto simp: case_prod_unfold) (metis fst_conv)
  qed
  moreover have "encoded E (br_pkj rec) \<in> fst ` set (receiver_points E statements)"
    using receiver_points_spec[of E statements] assms(2,3) by blast
  ultimately have "encoded E (br_pkj rec) \<in> fst ` set tables" by (metis set_map)
  then obtain pc where "map_of tables (encoded E (br_pkj rec)) = Some pc" by (metis map_of_eq_None_iff option.exhaust)
  then show ?thesis by (simp add: receiver_chord_precomps_get_def)
qed

end

section \<open>The batch\<close>

definition batched_holds ::
  "('q::field, 'p::ab_group_add, 'a, 'c, 's::field, 'z) evrf_curve_scheme \<Rightarrow> ('q, 'p, 's) batched_statement \<Rightarrow> bool" where
  "batched_holds E statement \<longleftrightarrow>
     (\<exists>sk_bits. length sk_bits = K_BITS + 1 \<and> bits_int sk_bits < modulus_int SECP256K1_SCALAR_MODULUS_LE
       \<and> (regular E (group_generator E) sk_bits \<longrightarrow> bs_pk1 statement = point_mul E (group_generator E) (of_nat (bits_int sk_bits)))
       \<and> (\<forall>rec \<in> set (bs_receivers statement).
            slot_holds E (h_gin_1 E (bs_msg statement)) (h_gin_2 E (bs_msg statement)) (bs_beta statement) sk_bits rec))"

context chord_curve
begin

lemma verifier_slots_enforces:
  assumes torsion: "no_small_torsion TYPE('s)"
    and recs: "\<And>rec pc. rec \<in> set recs \<Longrightarrow> receiver_chord_precomps_get E tables (br_pkj rec) = Inr pc \<Longrightarrow> tables_of E (br_pkj rec) K_BITS pc"
    and tables: "tables_of E h1 K_BITS precomp_h1" "tables_of E h2 K_BITS precomp_h2" "tables_of E (group_generator E) K_BITS g_table"
    and sk: "length sk_bits = K_BITS + 1" "map env sk_bit_vars = map of_bool sk_bits"
      "products_of ((!) sk_bits) (K_BITS div 2) (map env sk_products)"
  shows "(\<forall>rec \<in> set recs. slot_holds E h1 h2 beta sk_bits rec) \<longrightarrow> Q \<Longrightarrow>
    enforces M C env (verifier_slots E g_table tables sk_bit_vars sk_products precomp_h1 precomp_h2 beta recs) Q"
  using recs
proof (induction recs arbitrary: Q)
  case Nil
  then show ?case by (simp add: enforces_Finish)
next
  case (Cons rec recs)
  show ?case
  proof (cases "receiver_chord_precomps_get E tables (br_pkj rec)")
    case (Inl e)
    then show ?thesis by (simp add: or_abort_def enforces_error)
  next
    case (Inr pc)
    have "enforces M C env (build_hidden_receiver_slot E g_table rec sk_bit_vars sk_products pc precomp_h1 precomp_h2 beta None
        (verifier_slots E g_table tables sk_bit_vars sk_products precomp_h1 precomp_h2 beta recs)) Q"
    proof (rule slot_enforces[OF torsion _ tables sk])
      show "tables_of E (br_pkj rec) K_BITS pc" using Cons.prems(2) Inr by simp
      assume "slot_holds E h1 h2 beta sk_bits rec"
      then show "enforces M C env (verifier_slots E g_table tables sk_bit_vars sk_products precomp_h1 precomp_h2 beta recs) Q"
        using Cons.prems by (intro Cons.IH) auto
    qed
    then show ?thesis by (simp add: Inr or_abort_def)
  qed
qed

lemma batched_enforces:
  assumes torsion: "no_small_torsion TYPE('s)"
    and inject: "\<And>p q. encoded E p = encoded E q \<Longrightarrow> p = q"
    and tables: "receiver_chord_precomps_new E statements = Inr tables"
      "precompute_chord E (h_gin_1 E (bs_msg statement)) K_BITS = Inr precomp_h1"
      "precompute_chord E (h_gin_2 E (bs_msg statement)) K_BITS = Inr precomp_h2"
      "shared_g_in_chord_precomp E = Inr g_table"
  shows "enforces M C env (batched_verifier_circuit E g_table tables precomp_h1 precomp_h2 statement) (batched_holds E statement)"
  unfolding batched_verifier_circuit_def bit_decompose_q_def
proof (rule enforces_Allocate, rule bit_decompose_bounded_enforces)
  fix sk_var sk_bit_vars sk_bits
  assume sk: "length sk_bit_vars = K_BITS + 1" "map env sk_bit_vars = map of_bool sk_bits"
    "bits_int sk_bits < modulus_int SECP256K1_SCALAR_MODULUS_LE"
  have len: "length sk_bits = K_BITS + 1" using map_eq_imp_length_eq[OF sk(2)] sk(1) by simp
  have n: "(length sk_bits - 1) div 2 = K_BITS div 2" using len by simp
  note g_table = precompute_tables[OF tables(4)[unfolded shared_g_in_chord_precomp_def]]
  let ?rest = "\<lambda>ps. verifier_slots E g_table tables sk_bit_vars ps precomp_h1 precomp_h2 (bs_beta statement) (bs_receivers statement)"
  show "enforces M C env (chord_window_products sk_bit_vars (\<lambda>ps. or_abort (affine_xy E (bs_pk1 statement)) (\<lambda>(pk1_x, pk1_y).
     chord_exponentiate_r1cs_with_result sk_bit_vars g_table ps (Some (pk1_x, pk1_y)) None (\<lambda>_. ?rest ps)))) (batched_holds E statement)"
  proof (rule chord_window_products_enforces[where env = env, OF sk(2), unfolded n])
    fix ps
    assume products: "products_of ((!) sk_bits) (K_BITS div 2) (map env ps)"
    show "enforces M C env (or_abort (affine_xy E (bs_pk1 statement)) (\<lambda>(pk1_x, pk1_y).
     chord_exponentiate_r1cs_with_result sk_bit_vars g_table ps (Some (pk1_x, pk1_y)) None (\<lambda>_. ?rest ps))) (batched_holds E statement)"
    proof (cases "xy E (bs_pk1 statement)")
      case None
      then show ?thesis by (simp add: or_abort_def affine_xy_eq ok_or_def enforces_error)
    next
      case (Some c)
      have aff: "affine_xy E (bs_pk1 statement) = Inr c" using Some by (simp add: affine_xy_eq)
      show ?thesis
        unfolding or_abort_def aff sum.case case_prod_unfold
      proof (rule regular_exponentiate_enforces[OF g_table len sk(2) products])
        fix xv yv
        let ?P = "point_mul E (group_generator E) (of_nat (bits_int sk_bits))"
        assume g: "regular E (group_generator E) sk_bits \<Longrightarrow> xy E ?P = Some (env xv, env yv) \<and> (\<forall>r. Some (fst c, snd c) = Some r \<longrightarrow> xy E ?P = Some r)"
        have pk1: "bs_pk1 statement = ?P" if "regular E (group_generator E) sk_bits"
          using g[OF that] Some xy_inject[of "bs_pk1 statement" c ?P] by auto
        show "enforces M C env (?rest ps) (batched_holds E statement)"
        proof (rule verifier_slots_enforces[OF torsion _ precompute_tables[OF tables(2)] precompute_tables[OF tables(3)] g_table len sk(2) products])
          show "tables_of E (br_pkj rec) K_BITS pc" if "receiver_chord_precomps_get E tables (br_pkj rec) = Inr pc" for rec pc
            using precompute_tables[OF receiver_table[OF inject tables(1) that]] .
          show "(\<forall>rec \<in> set (bs_receivers statement). slot_holds E (h_gin_1 E (bs_msg statement)) (h_gin_2 E (bs_msg statement)) (bs_beta statement) sk_bits rec)
            \<longrightarrow> batched_holds E statement"
            unfolding batched_holds_def using len sk(3) pk1 by blast
        qed
      qed
    qed
  qed
qed

end

section \<open>The one-receiver relation\<close>

text \<open>The committed \<open>k\<close> is \<open>S.x\<close>, the announced points are its multiples, and \<open>r\<close> is \<open>beta * T1.x + T2.x\<close>.\<close>

definition one_receiver_holds ::
  "('q::field, 'p::ab_group_add, 'a, 'c, 's::field, 'z) evrf_curve_scheme \<Rightarrow> 'p \<Rightarrow> 'p \<Rightarrow> 's \<Rightarrow> 's \<times> 's \<Rightarrow> 's \<times> 's \<Rightarrow> 's \<Rightarrow> 's \<Rightarrow> 's \<Rightarrow> bool" where
  "one_receiver_holds E h1 h2 s_x out1 out2 beta k r \<longleftrightarrow>
     k = s_x \<and> (\<exists>k_bits. length k_bits = K_BITS + 1 \<and> bits_int k_bits < modulus_int SECP256K1_BASE_MODULUS_LE \<and> k = of_nat (bits_int k_bits)
       \<and> (regular E h1 k_bits \<and> regular E h2 k_bits \<longrightarrow> xy E (point_mul E h1 (of_nat (bits_int k_bits))) = Some out1
            \<and> xy E (point_mul E h2 (of_nat (bits_int k_bits))) = Some out2 \<and> r = beta * fst out1 + fst out2))"

context chord_curve
begin

lemma one_receiver_enforces:
  assumes "tables_of E h1 K_BITS precomp1" "tables_of E h2 K_BITS precomp2"
  shows "enforces M C env (build_one_receiver_r1cs var_k var_r s_x precomp1 precomp2 t1_x t1_y t2_x t2_y beta bits witness1 witness2)
    (one_receiver_holds E h1 h2 s_x (t1_x, t1_y) (t2_x, t2_y) beta (env var_k) (env var_r))"
  unfolding build_one_receiver_r1cs_def bit_decompose_def chord_exponentiate_r1cs_def
proof (rule enforces_one, rule enforces_Constrain, rule bit_decompose_bounded_enforces)
  fix bit_vars k_bits
  let ?T1 = "point_mul E h1 (of_nat (bits_int k_bits))" and ?T2 = "point_mul E h2 (of_nat (bits_int k_bits))"
  let ?Q = "one_receiver_holds E h1 h2 s_x (t1_x, t1_y) (t2_x, t2_y) beta (env var_k) (env var_r)"
  assume one: "env ConstantOne = 1" and k: "lc_value env (variable_sub var_k (lc_from_scalar s_x)) = 0"
    and b: "length bit_vars = K_BITS + 1" "map env bit_vars = map of_bool k_bits"
      "bits_int k_bits < modulus_int SECP256K1_BASE_MODULUS_LE" "env var_k = of_nat (bits_int k_bits)"
  have len: "length k_bits = K_BITS + 1" using map_eq_imp_length_eq[OF b(2)] b(1) by simp
  have n: "(length k_bits - 1) div 2 = K_BITS div 2" using len by simp
  have k_eq: "env var_k = s_x" using k one by (simp add: lc_value_ops)
  show "enforces M C env (chord_window_products bit_vars (\<lambda>ps.
     chord_exponentiate_r1cs_with_result bit_vars precomp1 ps (Some (t1_x, t1_y)) witness1 (\<lambda>(x_t1, _).
     chord_exponentiate_r1cs_with_result bit_vars precomp2 ps (Some (t2_x, t2_y)) witness2 (\<lambda>(x_t2, _).
     Constrain (variable_sub var_r (lc_add (variable_mul x_t1 beta) (lc_from_variable x_t2))) (Finish (Inr ())))))) ?Q"
  proof (rule chord_window_products_enforces[where env = env, OF b(2), unfolded n],
      rule regular_exponentiate_enforces[OF assms(1) len b(2)], assumption, unfold prod.case,
      rule regular_exponentiate_enforces[OF assms(2) len b(2)], assumption, unfold prod.case,
      rule enforces_Constrain, rule enforces_Finish)
    fix x_t1 y_t1 x_t2 y_t2
    assume t1: "regular E h1 k_bits \<Longrightarrow> xy E ?T1 = Some (env x_t1, env y_t1) \<and> (\<forall>r. Some (t1_x, t1_y) = Some r \<longrightarrow> xy E ?T1 = Some r)"
      and t2: "regular E h2 k_bits \<Longrightarrow> xy E ?T2 = Some (env x_t2, env y_t2) \<and> (\<forall>r. Some (t2_x, t2_y) = Some r \<longrightarrow> xy E ?T2 = Some r)"
      and r: "lc_value env (variable_sub var_r (lc_add (variable_mul x_t1 beta) (lc_from_variable x_t2))) = 0"
    have r_eq: "env var_r = beta * env x_t1 + env x_t2" using r by (simp add: lc_value_ops)
    show ?Q
      unfolding one_receiver_holds_def
    proof (intro conjI k_eq, rule exI[of _ k_bits], intro conjI impI len b(3,4))
      assume reg: "regular E h1 k_bits \<and> regular E h2 k_bits"
      show "xy E ?T1 = Some (t1_x, t1_y)" "xy E ?T2 = Some (t2_x, t2_y)" using t1 t2 reg by auto
      show "env var_r = beta * fst (t1_x, t1_y) + fst (t2_x, t2_y)" using t1 t2 reg r_eq by auto
    qed
  qed
qed

end

end
