(* ===== verification/Evrf_Count.thy ===== *)
theory Evrf_Count
  imports Evrf_Relation_Sound
begin

text \<open>
  The number of multipliers of the batched circuit: \<open>batched_multiplier_count\<close> is what the verifier's circuit
  allocates. Two allocations share a multiplier, so that the proofs count half multipliers.
\<close>

section \<open>The count of the code\<close>

definition BATCHED_SHARED_MULTIPLIERS :: usize where "BATCHED_SHARED_MULTIPLIERS = 1035"
definition BATCHED_RECEIVER_MULTIPLIERS :: usize where "BATCHED_RECEIVER_MULTIPLIERS = 3052"

text \<open>Checked arithmetic on \<open>usize\<close>.\<close>

definition checked_usize :: "nat \<Rightarrow> usize result" where
  "checked_usize n = (if n < 2 ^ 64 then Inr n else Inl ProofVerificationFailed)"

definition batched_multiplier_count :: "usize \<Rightarrow> usize \<Rightarrow> usize result" where
  "batched_multiplier_count threshold receiver_count =
     (if threshold = 0 \<or> receiver_count = 0 \<or> receiver_count < threshold - 1 then Inl ProofVerificationFailed
      else rbind (checked_usize (receiver_count * BATCHED_RECEIVER_MULTIPLIERS)) (\<lambda>receivers.
           rbind (checked_usize (receiver_count + 1)) (\<lambda>incremented.
           let shared_allocations = incremented div 2
           in rbind (checked_usize (BATCHED_SHARED_MULTIPLIERS + receivers)) (\<lambda>count.
              if shared_allocations \<le> count then Inr (count - shared_allocations) else Inl ProofVerificationFailed))))"

section \<open>Counting half multipliers\<close>

definition half_gates :: "('s, 'c, 't) verifier \<Rightarrow> nat" where
  "half_gates vf = 2 * ve_num_vars vf + of_bool (ve_pending vf = None)"

definition takes ::
  "('t, 'y) merlin_scheme \<Rightarrow> ('s::field, 'p, 'a, 'c, 'z) cycle_scheme \<Rightarrow> (('r \<Rightarrow> 's gadget) \<Rightarrow> 's gadget) \<Rightarrow> nat \<Rightarrow> ('r \<Rightarrow> bool) \<Rightarrow> bool" where
  "takes M C part n R \<longleftrightarrow> (\<forall>(vf :: ('s, 'c, 't) verifier). \<exists>r vf'. (\<forall>k. run_verifier M C (part k) vf = run_verifier M C (k r) vf')
     \<and> half_gates vf' = half_gates vf + n \<and> R r)"

lemma takesE:
  assumes "takes M C part n R"
  obtains r vf' where "\<forall>k. run_verifier M C (part k) vf = run_verifier M C (k r) vf'" "half_gates vf' = half_gates vf + n" "R r"
  by (rule exE[OF spec[OF assms[unfolded takes_def]]], elim exE conjE, rule that)

lemma takes_uses:
  fixes M :: "('t, 'y) merlin_scheme" and C :: "('s::field, 'p, 'a, 'c, 'z) cycle_scheme"
  assumes "uses M C part n R"
  shows "takes M C part (2 * n) R"
  unfolding takes_def
proof (intro allI)
  fix vf :: "('s, 'c, 't) verifier"
  show "\<exists>r vf'. (\<forall>k. run_verifier M C (part k) vf = run_verifier M C (k r) vf') \<and> half_gates vf' = half_gates vf + 2 * n \<and> R r"
    by (rule usesE[OF assms, of vf], rule exI, rule exI) (auto simp: half_gates_def)
qed

lemma takes_return: "R r \<Longrightarrow> takes M C (\<lambda>k. k r) 0 R"
  by (auto simp: takes_def)

lemma takes_seq:
  fixes M :: "('t, 'y) merlin_scheme" and C :: "('s::field, 'p, 'a, 'c, 'z) cycle_scheme"
  assumes "takes M C part1 n1 R1" "\<And>r. R1 r \<Longrightarrow> takes M C (part2 r) n2 R2" "n = n1 + n2"
  shows "takes M C (\<lambda>k. part1 (\<lambda>r. part2 r k)) n R2"
  unfolding takes_def
proof (intro allI)
  fix vf :: "('s, 'c, 't) verifier"
  obtain r1 vf1 where 1: "\<forall>k. run_verifier M C (part1 k) vf = run_verifier M C (k r1) vf1" "half_gates vf1 = half_gates vf + n1" "R1 r1"
    using assms(1) unfolding takes_def by blast
  obtain r2 vf2 where 2: "\<forall>k. run_verifier M C (part2 r1 k) vf1 = run_verifier M C (k r2) vf2" "half_gates vf2 = half_gates vf1 + n2" "R2 r2"
    using assms(2)[OF 1(3)] unfolding takes_def by blast
  show "\<exists>r vf'. (\<forall>k. run_verifier M C (part1 (\<lambda>r. part2 r k)) vf = run_verifier M C (k r) vf')
     \<and> half_gates vf' = half_gates vf + n \<and> R2 r"
    by (rule exI[of _ r2], rule exI[of _ vf2]) (simp add: 1 2 assms(3))
qed

lemma takes_then:
  fixes M :: "('t, 'y) merlin_scheme" and C :: "('s::field, 'p, 'a, 'c, 'z) cycle_scheme" and part :: "'s gadget \<Rightarrow> 's gadget"
  assumes "takes M C (\<lambda>k. part (k ())) n1 (\<lambda>_. True)" "takes M C rest n2 R" "n = n1 + n2"
  shows "takes M C (\<lambda>k. part (rest k)) n R"
  using takes_seq[OF assms(1), of "\<lambda>_. rest" n2 R n] assms(2,3) by simp

lemma takes_eq: "takes M C part n R \<Longrightarrow> n = m \<Longrightarrow> takes M C part m R"
  by simp

lemma takes_Constrain:
  fixes M :: "('t, 'y) merlin_scheme" and C :: "('s::field, 'p, 'a, 'c, 'z) cycle_scheme"
  assumes "takes M C part n R"
  shows "takes M C (\<lambda>k. Constrain lc (part k)) n R"
  unfolding takes_def
proof (intro allI)
  fix vf :: "('s, 'c, 't) verifier"
  obtain r vf' where "\<forall>k. run_verifier M C (part k) (verifier_constrain lc vf) = run_verifier M C (k r) vf'"
      "half_gates vf' = half_gates (verifier_constrain lc vf) + n" "R r"
    using assms unfolding takes_def by blast
  then show "\<exists>r vf'. (\<forall>k. run_verifier M C (Constrain lc (part k)) vf = run_verifier M C (k r) vf')
     \<and> half_gates vf' = half_gates vf + n \<and> R r"
    by (intro exI[of _ r] exI[of _ vf']) (simp add: half_gates_def verifier_constrain_def)
qed

lemma takes_Allocate:
  fixes M :: "('t, 'y) merlin_scheme" and C :: "('s::field, 'p, 'a, 'c, 'z) cycle_scheme"
  assumes "\<And>v. takes M C (part v) n R"
  shows "takes M C (\<lambda>k. Allocate x (\<lambda>v. part v k)) (Suc n) R"
  unfolding takes_def
proof (intro allI)
  fix vf :: "('s, 'c, 't) verifier"
  obtain v vf1 where v: "verifier_allocate vf = (v, vf1)" by fastforce
  obtain r vf' where "\<forall>k. run_verifier M C (part v k) vf1 = run_verifier M C (k r) vf'" "half_gates vf' = half_gates vf1 + n" "R r"
    using assms unfolding takes_def by blast
  moreover have "half_gates vf1 = half_gates vf + 1"
    using v by (auto simp: half_gates_def verifier_allocate_def Let_def split: option.splits)
  ultimately show "\<exists>r vf'. (\<forall>k. run_verifier M C (Allocate x (\<lambda>v. part v k)) vf = run_verifier M C (k r) vf')
     \<and> half_gates vf' = half_gates vf + Suc n \<and> R r"
    using v by (intro exI[of _ r] exI[of _ vf']) simp
qed

lemma takes_AllocateMultiplier:
  fixes M :: "('t, 'y) merlin_scheme" and C :: "('s::field, 'p, 'a, 'c, 'z) cycle_scheme"
  assumes "\<And>l r out. takes M C (part (l, r, out)) n R"
  shows "takes M C (\<lambda>k. AllocateMultiplier x (\<lambda>g. part g k)) (Suc (Suc n)) R"
  unfolding takes_def
proof (intro allI)
  fix vf :: "('s, 'c, 't) verifier"
  obtain l r out vf1 where v: "verifier_allocate_multiplier vf = ((l, r, out), vf1)" by (metis prod_cases3 surj_pair)
  obtain y vf' where "\<forall>k. run_verifier M C (part (l, r, out) k) vf1 = run_verifier M C (k y) vf'" "half_gates vf' = half_gates vf1 + n" "R y"
    using assms unfolding takes_def by blast
  moreover have "half_gates vf1 = half_gates vf + 2"
    using v by (auto simp: half_gates_def verifier_allocate_multiplier_def Let_def)
  ultimately show "\<exists>r vf'. (\<forall>k. run_verifier M C (AllocateMultiplier x (\<lambda>g. part g k)) vf = run_verifier M C (k r) vf')
     \<and> half_gates vf' = half_gates vf + Suc (Suc n) \<and> R r"
    using v by (intro exI[of _ y] exI[of _ vf']) simp
qed

lemma takes_or_abort: "r = Inr x \<Longrightarrow> takes M C (part x) n R \<Longrightarrow> takes M C (\<lambda>k. or_abort r (\<lambda>x. part x k)) n R"
  by (simp add: or_abort_def)

section \<open>The sizes of the parts\<close>

text \<open>A decomposition takes 514 multipliers, the window products 128, an exponentiation 392, the bound 198.\<close>

lemma bit_decompose_bounded_takes:
  "length bits = K_BITS + 1 \<Longrightarrow> takes M C (bit_decompose_bounded k_var bits modulus_le) 1028 (\<lambda>vs. length vs = K_BITS + 1)"
  using takes_uses[OF bit_decompose_bounded_uses] by simp

lemma chord_window_products_takes:
  "length bit_vars = K_BITS + 1 \<Longrightarrow> takes M C (chord_window_products bit_vars) 256 (\<lambda>ps. length ps = K_BITS div 2)"
  using takes_uses[OF chord_window_products_uses[of bit_vars K_BITS]] by (simp add: K_BITS_def)

lemma chord_exponentiate_takes:
  assumes "length bit_vars = K_BITS + 1" "length wps = K_BITS div 2" "length (cp_windows pc) = K_BITS div 2"
  shows "takes M C (chord_exponentiate_r1cs_with_result bit_vars pc wps res None) 784 (\<lambda>_. True)"
proof -
  have "chord_checkpoint_count (K_BITS div 2) = 8"
    by (simp add: chord_checkpoint_count_def CHORD_CHECKPOINT_INTERVAL_def K_BITS_def Let_def)
  then show ?thesis
    using takes_uses[OF chord_exponentiate_uses[of bit_vars K_BITS wps pc None M C res]] assms by (simp add: K_BITS_def)
qed

lemma bound_gates_value: "bound_gates SECP256K1_P_MINUS_Q_LE = 198"
  by code_simp

lemma constrain_bits_takes:
  assumes "length bit_vars = K_BITS + 1" "length bits = K_BITS + 1"
  shows "takes M C (\<lambda>k. constrain_bits_lt_bound_when bit_vars bits SECP256K1_P_MINUS_Q_LE condition (k ())) 396 (\<lambda>_. True)"
  using takes_uses[OF constrain_bits_lt_bound_when_uses[OF assms, of M C SECP256K1_P_MINUS_Q_LE condition]] by (simp add: bound_gates_value)

lemma slot_takes:
  assumes "length sk_bit_vars = K_BITS + 1" "length sk_products = K_BITS div 2"
    and "length (cp_windows precomp_pkj) = K_BITS div 2" "length (cp_windows precomp_h1) = K_BITS div 2"
      "length (cp_windows precomp_h2) = K_BITS div 2" "length (cp_windows g_table) = K_BITS div 2"
    and commitment: "affine_xy E (br_pad_commitment rec) = Inr c"
  shows "takes M C (\<lambda>k. build_hidden_receiver_slot E g_table rec sk_bit_vars sk_products precomp_pkj precomp_h1 precomp_h2 beta None (k ()))
    6103 (\<lambda>_. True)"
proof -
  have bits: "length (replicate (K_BITS + 1) (None :: 'a option)) = K_BITS + 1" by simp
  have unit: "takes M C (\<lambda>k. k ()) 0 (\<lambda>_. True)" by (rule takes_return) simp
  have commit: "takes M C (\<lambda>k. or_abort (affine_xy E (br_pad_commitment rec)) (\<lambda>(x, y).
      chord_exponentiate_r1cs_with_result vs g_table ps (Some (x, y)) None (\<lambda>_. k ()))) 784 (\<lambda>_. True)"
    if "length vs = K_BITS + 1" "length ps = K_BITS div 2" for vs ps
    by (rule takes_or_abort[OF commitment], unfold case_prod_unfold, rule takes_seq[OF chord_exponentiate_takes[OF that assms(6)] unit]) simp
  have pad: "takes M C (\<lambda>k. bit_decompose_q pad_var (replicate (K_BITS + 1) None) (\<lambda>vs.
      constrain_bits_lt_bound_when vs (replicate (K_BITS + 1) None) SECP256K1_P_MINUS_Q_LE red
     (chord_window_products vs (\<lambda>ps. or_abort (affine_xy E (br_pad_commitment rec)) (\<lambda>(x, y).
      chord_exponentiate_r1cs_with_result vs g_table ps (Some (x, y)) None (\<lambda>_. k ())))))) 2464 (\<lambda>_. True)" for pad_var red
    unfolding bit_decompose_q_def
  proof (rule takes_seq[OF bit_decompose_bounded_takes[OF bits]], rule takes_then[OF constrain_bits_takes[OF _ bits]], assumption)
    fix vs :: "variable_kind list"
    assume vs: "length vs = K_BITS + 1"
    show "takes M C (\<lambda>k. chord_window_products vs (\<lambda>ps. or_abort (affine_xy E (br_pad_commitment rec)) (\<lambda>(x, y).
      chord_exponentiate_r1cs_with_result vs g_table ps (Some (x, y)) None (\<lambda>_. k ())))) 1040 (\<lambda>_. True)"
      by (rule takes_seq[OF chord_window_products_takes[OF vs]], rule commit[OF vs]) simp_all
  qed simp_all
  have exps: "takes M C (\<lambda>k. chord_exponentiate_r1cs_with_result vs precomp_h1 ps None None (\<lambda>(x_t1, _).
     chord_exponentiate_r1cs_with_result vs precomp_h2 ps None None (\<lambda>(x_t2, _).
     Allocate None (\<lambda>pad_var. AllocateMultiplier None (\<lambda>(red, red_right, red_out).
     Constrain (variable_sub red_right (lc_sub (lc_from_scalar 1) (lc_from_variable red)))
    (Constrain (lc_from_variable red_out)
    (Constrain (variable_sub pad_var (lc_sub (lc_add (variable_mul x_t1 beta) (lc_from_variable x_t2)) (variable_mul red Q_AS_FP)))
    (bit_decompose_q pad_var (replicate (K_BITS + 1) None) (\<lambda>vs.
      constrain_bits_lt_bound_when vs (replicate (K_BITS + 1) None) SECP256K1_P_MINUS_Q_LE red
     (chord_window_products vs (\<lambda>ps. or_abort (affine_xy E (br_pad_commitment rec)) (\<lambda>(x, y).
      chord_exponentiate_r1cs_with_result vs g_table ps (Some (x, y)) None (\<lambda>_. k ()))))))))))))) 4035 (\<lambda>_. True)"
    if "length vs = K_BITS + 1" "length ps = K_BITS div 2" for vs ps
    unfolding case_prod_unfold
  proof (rule takes_seq[OF chord_exponentiate_takes[OF that assms(4)]], rule takes_seq[OF chord_exponentiate_takes[OF that assms(5)]],
      rule takes_Allocate, rule takes_AllocateMultiplier, (rule takes_Constrain)+)
    show "takes M C (\<lambda>k. bit_decompose_q v (replicate (K_BITS + 1) None) (\<lambda>vs.
      constrain_bits_lt_bound_when vs (replicate (K_BITS + 1) None) SECP256K1_P_MINUS_Q_LE (fst (l, r, out))
     (chord_window_products vs (\<lambda>ps. or_abort (affine_xy E (br_pad_commitment rec)) (\<lambda>xy.
      chord_exponentiate_r1cs_with_result vs g_table ps (Some (fst xy, snd xy)) None (\<lambda>_. k ())))))) 2464 (\<lambda>_. True)" for v l r out
      using pad[unfolded case_prod_unfold] by simp
  qed simp_all
  show ?thesis
    unfolding build_hidden_receiver_slot_def Let_def option.map option.case bit_decompose_def case_prod_unfold
  proof (rule takes_seq[OF chord_exponentiate_takes[OF assms(1-3)]], rule takes_seq[OF bit_decompose_bounded_takes[OF bits]],
      rule takes_seq[OF chord_window_products_takes], assumption)
    fix vs ps :: "variable_kind list"
    assume "length vs = K_BITS + 1" "length ps = K_BITS div 2"
    note exps[OF this, unfolded case_prod_unfold]
    then show "takes M C (\<lambda>k. chord_exponentiate_r1cs_with_result vs precomp_h1 ps None None (\<lambda>r1.
     chord_exponentiate_r1cs_with_result vs precomp_h2 ps None None (\<lambda>r2.
     Allocate None (\<lambda>pad_var. AllocateMultiplier None (\<lambda>g.
     Constrain (variable_sub (fst (snd g)) (lc_sub (lc_from_scalar 1) (lc_from_variable (fst g))))
    (Constrain (lc_from_variable (snd (snd g)))
    (Constrain (variable_sub pad_var (lc_sub (lc_add (variable_mul (fst r1) beta) (lc_from_variable (fst r2))) (variable_mul (fst g) Q_AS_FP)))
    (bit_decompose_q pad_var (replicate (K_BITS + 1) None) (\<lambda>vs.
      constrain_bits_lt_bound_when vs (replicate (K_BITS + 1) None) SECP256K1_P_MINUS_Q_LE (fst g)
     (chord_window_products vs (\<lambda>ps. or_abort (affine_xy E (br_pad_commitment rec)) (\<lambda>xy.
      chord_exponentiate_r1cs_with_result vs g_table ps (Some (fst xy, snd xy)) None (\<lambda>_. k ()))))))))))))) 4035 (\<lambda>_. True)" .
  qed simp_all
qed

section \<open>The whole circuit\<close>

text \<open>The tables have as many windows as an exponentiation.\<close>

context chord_curve
begin

lemma precompute_windows: "precompute_chord E X K_BITS = Inr pc \<Longrightarrow> length (cp_windows pc) = K_BITS div 2"
  using precompute_tables by (auto simp: tables_of_def)

end

lemma verifier_slots_takes:
  fixes C :: "('s::field, 'o, 'b, 'd, 'w) cycle_scheme" and vf :: "('s, 'd, 't) verifier"
  assumes "length sk_bit_vars = K_BITS + 1" "length sk_products = K_BITS div 2"
    and "length (cp_windows precomp_h1) = K_BITS div 2" "length (cp_windows precomp_h2) = K_BITS div 2"
      "length (cp_windows g_table) = K_BITS div 2"
    and "\<And>rec. rec \<in> set recs \<Longrightarrow> (\<exists>c. affine_xy E (br_pad_commitment rec) = Inr c)
      \<and> (\<exists>pc. receiver_chord_precomps_get E tables (br_pkj rec) = Inr pc \<and> length (cp_windows pc) = K_BITS div 2)"
  shows "\<exists>vf'. run_verifier M C (verifier_slots E g_table tables sk_bit_vars sk_products precomp_h1 precomp_h2 beta recs) vf = Inr vf'
    \<and> half_gates vf' = half_gates vf + 6103 * length recs"
  using assms(6)
proof (induction recs arbitrary: vf)
  case Nil
  then show ?case by simp
next
  case (Cons rec recs)
  obtain c pc where r: "affine_xy E (br_pad_commitment rec) = Inr c" "receiver_chord_precomps_get E tables (br_pkj rec) = Inr pc"
    "length (cp_windows pc) = K_BITS div 2" using Cons.prems[of rec] by auto
  let ?rest = "verifier_slots E g_table tables sk_bit_vars sk_products precomp_h1 precomp_h2 beta recs"
  obtain vf1 where vf1: "\<forall>k. run_verifier M C (build_hidden_receiver_slot E g_table rec sk_bit_vars sk_products pc precomp_h1 precomp_h2 beta None (k ())) vf
      = run_verifier M C (k ()) vf1" "half_gates vf1 = half_gates vf + 6103"
    using slot_takes[OF assms(1,2) r(3) assms(3-5) r(1), of M C beta] unfolding takes_def by fastforce
  obtain vf' where "run_verifier M C ?rest vf1 = Inr vf'" "half_gates vf' = half_gates vf1 + 6103 * length recs"
    using Cons.IH[of vf1] Cons.prems by auto
  then show ?case
    using vf1(1)[THEN spec, of "\<lambda>_. ?rest"] vf1(2) r(2) by (simp add: or_abort_def)
qed

context chord_curve
begin

lemma batched_circuit_gates:
  fixes C :: "('s, 'o, 'b, 'd, 'w) cycle_scheme" and vf :: "('s, 'd, 't) verifier"
  assumes inject: "\<And>p q. encoded E p = encoded E q \<Longrightarrow> p = q"
    and tables: "receiver_chord_precomps_new E statements = Inr tables" "statement \<in> set statements"
      "precompute_chord E (h_gin_1 E (bs_msg statement)) K_BITS = Inr precomp_h1"
      "precompute_chord E (h_gin_2 E (bs_msg statement)) K_BITS = Inr precomp_h2"
      "shared_g_in_chord_precomp E = Inr g_table"
    and points: "bs_pk1 statement \<noteq> 0" "\<And>rec. rec \<in> set (bs_receivers statement) \<Longrightarrow> br_pad_commitment rec \<noteq> 0"
  shows "\<exists>vf'. run_verifier M C (batched_verifier_circuit E g_table tables precomp_h1 precomp_h2 statement) vf = Inr vf'
    \<and> half_gates vf' = half_gates vf + 2069 + 6103 * length (bs_receivers statement)"
proof -
  have aff: "\<exists>c. affine_xy E p = Inr c" if "p \<noteq> 0" for p
    using that xy_identity[of p] by (cases "xy E p") (simp_all add: affine_xy_eq)
  obtain c where c: "affine_xy E (bs_pk1 statement) = Inr c" using aff[OF points(1)] by blast
  note windows = precompute_windows[OF tables(3)] precompute_windows[OF tables(4)]
    precompute_windows[OF tables(5)[unfolded shared_g_in_chord_precomp_def]]
  have bits: "length (replicate (K_BITS + 1) (None :: 's option)) = K_BITS + 1" by simp
  let ?part = "\<lambda>k. Allocate None (\<lambda>sk_var. bit_decompose_q sk_var (replicate (K_BITS + 1) (None :: 's option)) (\<lambda>vs.
     chord_window_products vs (\<lambda>ps. or_abort (affine_xy E (bs_pk1 statement)) (\<lambda>c.
     chord_exponentiate_r1cs_with_result vs g_table ps (Some (fst c, snd c)) None (\<lambda>_. k (vs, ps))))))"
  have "takes M C ?part 2069 (\<lambda>(vs, ps). length vs = K_BITS + 1 \<and> length ps = K_BITS div 2)"
    unfolding bit_decompose_q_def
  proof (rule takes_eq[OF takes_Allocate[OF takes_seq[OF bit_decompose_bounded_takes[OF bits]]]])
    fix vs :: "variable_kind list"
    assume vs: "length vs = K_BITS + 1"
    show "takes M C (\<lambda>k. chord_window_products vs (\<lambda>ps. or_abort (affine_xy E (bs_pk1 statement)) (\<lambda>c.
     chord_exponentiate_r1cs_with_result vs g_table ps (Some (fst c, snd c)) None (\<lambda>_. k (vs, ps))))) (256 + 784)
       (\<lambda>(vs, ps). length vs = K_BITS + 1 \<and> length ps = K_BITS div 2)"
    proof (rule takes_seq[OF chord_window_products_takes[OF vs] _ refl], rule takes_or_abort[OF c])
      fix ps :: "variable_kind list"
      assume ps: "length ps = K_BITS div 2"
      show "takes M C (\<lambda>k. chord_exponentiate_r1cs_with_result vs g_table ps (Some (fst c, snd c)) None (\<lambda>_. k (vs, ps))) 784
         (\<lambda>(vs, ps). length vs = K_BITS + 1 \<and> length ps = K_BITS div 2)"
        by (rule takes_seq[OF chord_exponentiate_takes[OF vs ps windows(3)] takes_return]) (simp_all add: vs ps)
    qed
  qed simp_all
  then obtain r vf1 where r: "\<forall>k. run_verifier M C (?part k) vf = run_verifier M C (k r) vf1"
    "half_gates vf1 = half_gates vf + 2069" "case r of (vs, ps) \<Rightarrow> length vs = K_BITS + 1 \<and> length ps = K_BITS div 2"
    by (rule takesE)
  obtain vs ps where pair: "r = (vs, ps)" by (cases r)
  have vf1: "\<forall>k. run_verifier M C (?part k) vf = run_verifier M C (k (vs, ps)) vf1"
    "half_gates vf1 = half_gates vf + 2069" "length vs = K_BITS + 1" "length ps = K_BITS div 2"
    using r unfolding pair by simp_all
  let ?slots = "\<lambda>(vs, ps). verifier_slots E g_table tables vs ps precomp_h1 precomp_h2 (bs_beta statement) (bs_receivers statement)"
  have recs: "(\<exists>c. affine_xy E (br_pad_commitment rec) = Inr c)
      \<and> (\<exists>pc. receiver_chord_precomps_get E tables (br_pkj rec) = Inr pc \<and> length (cp_windows pc) = K_BITS div 2)"
    if "rec \<in> set (bs_receivers statement)" for rec
    using aff[OF points(2)[OF that]] receiver_table_exists[OF tables(1,2) that] receiver_table[OF inject tables(1)] precompute_windows
    by blast
  obtain vf' where "run_verifier M C (?slots (vs, ps)) vf1 = Inr vf'" "half_gates vf' = half_gates vf1 + 6103 * length (bs_receivers statement)"
    using verifier_slots_takes[where M = M and C = C and vf = vf1 and beta = "bs_beta statement" and recs = "bs_receivers statement",
        OF vf1(3,4) windows recs] by auto
  moreover have "run_verifier M C (batched_verifier_circuit E g_table tables precomp_h1 precomp_h2 statement) vf = run_verifier M C (?slots (vs, ps)) vf1"
    using vf1(1)[THEN spec, of ?slots] by (simp add: batched_verifier_circuit_def case_prod_unfold)
  ultimately show ?thesis using vf1(2) by auto
qed

end

text \<open>From an empty verifier, the count is that of the code.\<close>

lemma count_value:
  assumes "batched_multiplier_count threshold n = Inr m"
    and "half_gates vf' = half_gates vf + 2069 + 6103 * n" "ve_num_vars vf = 0" "ve_pending vf = None"
  shows "ve_num_vars vf' = m"
proof -
  have "m = 1035 + n * 3052 - (n + 1) div 2"
    using assms(1) by (auto simp: batched_multiplier_count_def Let_def BATCHED_SHARED_MULTIPLIERS_def BATCHED_RECEIVER_MULTIPLIERS_def
        checked_usize_def split: if_splits)
  moreover have "2 * ve_num_vars vf' + of_bool (ve_pending vf' = None) = 2070 + 6103 * n"
    using assms(2-4) by (simp add: half_gates_def)
  moreover from this have "2 * ve_num_vars vf' + 1 = 2070 + 6103 * n \<or> 2 * ve_num_vars vf' = 2070 + 6103 * n"
    by (cases "ve_pending vf' = None") simp_all
  ultimately show ?thesis
    by (cases "even n") (auto elim!: evenE oddE)
qed

end
