(* ===== verification/Evrf_Statement.thy ===== *)
theory Evrf_Statement
  imports Evrf_Count R1cs_Proof Feldman
begin

text \<open>
  The public side of the paper eVRF backend (\<open>golden-evrf/src/paper.rs\<close>, module \<open>secp_secq\<close>): the adapter
  \<open>CycleCurve\<close> of \<open>proof_stream.rs\<close>, the observed statements, the checks of a batched statement with their exact
  and their batched Feldman check, and the public parameters of a circuit shape. All checks report
  \<open>ProofVerificationFailed\<close>. The weights of the batched check are drawn until they are not zero, so that it is
  partial.
\<close>

section \<open>The stream adapter of a cycle\<close>

definition cycle_decode_point :: "('s, 'p, 'a, 'c, 'z) cycle_scheme \<Rightarrow> bytes \<Rightarrow> 'p result" where
  "cycle_decode_point C bs =
     (if length bs \<noteq> compressed_bytes C then Inl stream_error
      else let compressed = compressed_from_bytes C bs
           in rbind (ok_or (compressed_decompress C compressed) stream_error) (\<lambda>point.
              let canonical_bytes = compressed_as_bytes C (point_compress C point)
              in if length canonical_bytes \<noteq> compressed_bytes C \<or> canonical_bytes \<noteq> bs then Inl stream_error
                 else Inr point))"

definition cycle_decode_scalar :: "('s, 'p, 'a, 'c, 'z) cycle_scheme \<Rightarrow> bytes \<Rightarrow> 's result" where
  "cycle_decode_scalar C bs =
     (if length bs \<noteq> 32 then Inl stream_error
      else rbind (ok_or (scalar_from_canonical C bs) stream_error) (\<lambda>scalar.
           if scalar_to_canonical C scalar \<noteq> bs then Inl stream_error else Inr scalar))"

definition cycle_curve :: "('s, 'p, 'a, 'c, 'z) cycle_scheme \<Rightarrow> ('p, 's) proof_stream_curve" where
  "cycle_curve C =
     \<lparr>point_bytes = compressed_bytes C,
      scalar_bytes = 32,
      encode_point = (\<lambda>point. compressed_as_bytes C (point_compress C point)),
      decode_canonical_point = cycle_decode_point C,
      point_is_identity = (\<lambda>point. compressed_is_identity C (point_compress C point)),
      encode_scalar = scalar_to_canonical C,
      decode_scalar = cycle_decode_scalar C\<rparr>"

section \<open>Observing statements\<close>

definition ONE_RECEIVER_PROOF_ID :: bytes where
  "ONE_RECEIVER_PROOF_ID = ascii ''golden-paper-evrf-one-receiver-v4''"

definition BATCHED_PROOF_ID :: bytes where
  "BATCHED_PROOF_ID = ascii ''golden-paper-evrf-batched-v8''"

definition u64_le :: "nat \<Rightarrow> bytes" where
  "u64_le n = rev (u64_be n)"

definition observe_one_receiver_statement ::
  "'t merlin \<Rightarrow> ('x, 't) observe \<Rightarrow> ('q, 'p, 'a, 'c, 's, 'z) evrf_curve_scheme \<Rightarrow> ('s, 'o, 'b, 'd, 'w) cycle_scheme
    \<Rightarrow> ('p, 'o, 's) one_receiver_statement \<Rightarrow> 'x \<Rightarrow> 'x result" where
  "observe_one_receiver_statement M Ob E D statement stream =
     (let point = (\<lambda>label p. observe_point M Ob (cycle_curve E) (ascii label) p Reject);
          stream = observe_bytes M Ob (ascii ''statement.msg'') (or_msg statement) stream
      in rbind (point ''statement.pk1'' (or_pk1 statement) stream) (\<lambda>stream.
         rbind (point ''statement.pk2'' (or_pk2 statement) stream) (\<lambda>stream.
         rbind (point ''statement.s'' (or_s statement) stream) (\<lambda>stream.
         rbind (point ''statement.h1'' (or_h1 statement) stream) (\<lambda>stream.
         rbind (point ''statement.h2'' (or_h2 statement) stream) (\<lambda>stream.
         rbind (point ''statement.t1'' (or_t1 statement) stream) (\<lambda>stream.
         rbind (point ''statement.t2'' (or_t2 statement) stream) (\<lambda>stream.
         rbind (observe_point M Ob (cycle_curve D) (ascii ''statement.r'') (or_r_point statement) Allow stream) (\<lambda>stream.
         observe_scalar M Ob (cycle_curve D) (ascii ''statement.beta'') (or_beta statement) stream)))))))))"

text \<open>The callers have checked that there is a root for every receiver.\<close>

definition observe_batched_receiver ::
  "'t merlin \<Rightarrow> ('x, 't) observe \<Rightarrow> ('q, 'p, 'a, 'c, 's, 'z) evrf_curve_scheme \<Rightarrow> bytes list
    \<Rightarrow> 'x \<Rightarrow> nat \<times> ('q, 'p) batched_receiver \<Rightarrow> 'x result" where
  "observe_batched_receiver M Ob E roots stream = (\<lambda>(j, rec).
     let stream = observe_bytes M Ob (ascii ''idx'') (u64_le j) stream;
         stream = observe_bytes M Ob (ascii ''statement-root'') (roots ! j) stream;
         stream = observe_bytes M Ob (ascii ''receiver'') (u64_le (unat (index_get (br_receiver rec)))) stream
     in rbind (observe_point M Ob (cycle_curve E) (ascii ''PK_j'') (br_pkj rec) Reject stream) (\<lambda>stream.
        rbind (observe_point M Ob (cycle_curve E) (ascii ''share-commitment'') (br_share_commitment rec) Allow stream) (\<lambda>stream.
        rbind (observe_point M Ob (cycle_curve E) (ascii ''pad-commitment'') (br_pad_commitment rec) Reject stream) (\<lambda>stream.
        observe_scalar M Ob (cycle_curve E) (ascii ''encrypted-share'') (br_encrypted_share rec) stream))))"

definition observe_batched_statement ::
  "'t merlin \<Rightarrow> ('x, 't) observe \<Rightarrow> ('q, 'p, 'a, 'c, 's, 'z) evrf_curve_scheme \<Rightarrow> ('s, 'o, 'b, 'd, 'w) cycle_scheme
    \<Rightarrow> ('q, 'p, 's) batched_statement \<Rightarrow> 'x \<Rightarrow> 'x result" where
  "observe_batched_statement M Ob E D statement stream =
     (let stream = observe_bytes M Ob (ascii ''msg'') (bs_msg statement) stream
      in rbind (observe_scalar M Ob (cycle_curve D) (ascii ''beta'') (bs_beta statement) stream) (\<lambda>stream.
         let stream = observe_bytes M Ob (ascii ''threshold'') (u64_le (bs_threshold statement)) stream
         in rbind (observe_point M Ob (cycle_curve E) (ascii ''PK_1'') (bs_pk1 statement) Reject stream) (\<lambda>stream.
         let stream = observe_bytes M Ob (ascii ''commitment-len'') (u64_le (length (bs_commitment_coefficients statement))) stream
         in rbind (rfold (\<lambda>stream coefficient. observe_point M Ob (cycle_curve E) (ascii ''commitment'') coefficient Allow stream)
                     stream (bs_commitment_coefficients statement)) (\<lambda>stream.
         let stream = observe_bytes M Ob (ascii ''num-receivers'') (u64_le (length (bs_receivers statement))) stream
         in rfold (observe_batched_receiver M Ob E (bs_statement_roots statement)) stream (enumerate 0 (bs_receivers statement))))))"

section \<open>The checks of a batched statement\<close>

definition validate_batched_statement_shape :: "('q, 'p, 's) batched_statement \<Rightarrow> unit result" where
  "validate_batched_statement_shape statement =
     (if bs_receivers statement = [] \<or> length (bs_receivers statement) < bs_threshold statement - 1
         \<or> bs_commitment_coefficients statement = []
         \<or> length (bs_commitment_coefficients statement) \<noteq> bs_threshold statement
         \<or> length (bs_statement_roots statement) \<noteq> length (bs_receivers statement)
      then Inl ProofVerificationFailed
      else if list_ex (\<lambda>(a, b). br_receiver b \<le> br_receiver a) (zip (bs_receivers statement) (tl (bs_receivers statement)))
      then Inl ProofVerificationFailed else Inr ())"

text \<open>Double-and-add from the highest set bit, as in \<open>feldman.rs\<close>.\<close>

definition gin_mul_by_small_scalar :: "'p::ab_group_add \<Rightarrow> u32 \<Rightarrow> 'p" where
  "gin_mul_by_small_scalar point scalar =
     (if scalar = 0 then 0
      else fold (\<lambda>bit acc. let acc = acc + acc in if drop_bit bit scalar AND 1 = 1 then acc + point else acc)
             (rev [0..<32 - leading_zeros scalar]) 0)"

definition feldman_share_commitment :: "'p::ab_group_add list \<Rightarrow> participant_index \<Rightarrow> 'p" where
  "feldman_share_commitment commitment receiver =
     (let x = index_get receiver
      in fold (\<lambda>coefficient result. gin_mul_by_small_scalar result x + coefficient) (rev commitment) 0)"

definition FELDMAN_BATCH_DOMAIN :: bytes where
  "FELDMAN_BATCH_DOMAIN = ascii ''golden-paper-evrf-feldman-batch-secp-v1''"

partial_function (option) feldman_weight ::
  "('t, 'y) merlin_u64_scheme \<Rightarrow> ('q::field, 'p, 'a, 'c, 's, 'z) evrf_curve_scheme \<Rightarrow> 't \<Rightarrow> ('q \<times> 't) option" where
  "feldman_weight M E t =
     (let (bs, t) = challenge_bytes M (ascii ''feldman-weight'') 64 t; weight = scalar_from_wide E bs
      in if weight \<noteq> 0 then Some (weight, t) else feldman_weight M E t)"

primrec feldman_weights_loop ::
  "('t, 'y) merlin_u64_scheme \<Rightarrow> ('q::field, 'p, 'a, 'c, 's, 'z) evrf_curve_scheme \<Rightarrow> nat list \<Rightarrow> 'q list \<Rightarrow> 't \<Rightarrow> 'q list option" where
  "feldman_weights_loop M E [] weights t = Some weights"
| "feldman_weights_loop M E (index # rest) weights t =
     (let t = append_u64 M (ascii ''receiver-weight-index'') index t
      in Option.bind (feldman_weight M E t) (\<lambda>(weight, t). feldman_weights_loop M E rest (weights @ [weight]) t))"

definition feldman_batch_weights_from_transcript ::
  "('t, 'y) merlin_u64_scheme \<Rightarrow> ('q::field, 'p, 'a, 'c, 's, 'z) evrf_curve_scheme \<Rightarrow> ('q, 'p, 's) batched_statement \<Rightarrow> 't
    \<Rightarrow> 'q list result option" where
  "feldman_batch_weights_from_transcript M E statement observed =
     oresult (validate_batched_statement_shape statement) (\<lambda>_.
     let t = append_message M (ascii ''validation-domain'') FELDMAN_BATCH_DOMAIN observed
     in Option.bind (feldman_weights_loop M E [0..<length (bs_receivers statement)] [] t) (\<lambda>weights. Some (Inr weights)))"

text \<open>The coefficients' weights of one receiver: \<open>power_weight\<close> runs through \<open>weight * x ^ k\<close>.\<close>

primrec subtract_powers :: "'q::field \<Rightarrow> 'q list \<Rightarrow> 'q \<Rightarrow> 'q list" where
  "subtract_powers x [] power_weight = []"
| "subtract_powers x (coefficient_weight # rest) power_weight =
     (coefficient_weight - power_weight) # subtract_powers x rest (power_weight * x)"

definition feldman_batch_matches ::
  "('t, 'y) merlin_u64_scheme \<Rightarrow> ('q::field, 'p::ab_group_add, 'a, 'c, 's, 'z) evrf_curve_scheme \<Rightarrow> ('q, 'p, 's) batched_statement \<Rightarrow> 't
    \<Rightarrow> bool result option" where
  "feldman_batch_matches M E statement observed =
     obind (feldman_batch_weights_from_transcript M E statement observed) (\<lambda>weights.
     let coefficient_weights = fold (\<lambda>(rec, weight) coefficient_weights.
           let x = of_nat (unat (index_get (br_receiver rec))) in subtract_powers x coefficient_weights weight)
           (zip (bs_receivers statement) weights) (replicate (length (bs_commitment_coefficients statement)) 0);
         scalars = weights @ coefficient_weights;
         points = map br_share_commitment (bs_receivers statement) @ bs_commitment_coefficients statement
     in Some (Inr (is_identity (vartime_msm E scalars points))))"

text \<open>The parallel check of the receivers; its errors are all the same.\<close>

definition validate_batched_public_relations_impl ::
  "('t, 'y) merlin_u64_scheme \<Rightarrow> ('q::field, 'p::ab_group_add, 'a, 'c, 's, 'z) evrf_curve_scheme \<Rightarrow> ('q, 'p, 's) batched_statement
    \<Rightarrow> 't option \<Rightarrow> unit result option" where
  "validate_batched_public_relations_impl M E statement observed =
     oresult (validate_batched_statement_shape statement) (\<lambda>_.
     oresult (if is_identity (bs_pk1 statement) then Inl ProofVerificationFailed else Inr ()) (\<lambda>_.
     oresult (rfold (\<lambda>_ rec.
         if is_identity (br_pkj rec) \<or> is_identity (br_pad_commitment rec) then Inl ProofVerificationFailed
         else if observed = None
            \<and> feldman_share_commitment (bs_commitment_coefficients statement) (br_receiver rec) \<noteq> br_share_commitment rec
         then Inl ProofVerificationFailed
         else if secp_mul_generator E (br_encrypted_share rec) \<noteq> br_share_commitment rec + br_pad_commitment rec
         then Inl ProofVerificationFailed else Inr ()) () (bs_receivers statement)) (\<lambda>_.
     case observed of
       None \<Rightarrow> Some (Inr ())
     | Some t \<Rightarrow> obind (feldman_batch_matches M E statement t) (\<lambda>matches.
         if \<not> matches then Some (Inl ProofVerificationFailed) else Some (Inr ())))))"

definition validate_batched_public_relations ::
  "('t, 'y) merlin_u64_scheme \<Rightarrow> ('q::field, 'p::ab_group_add, 'a, 'c, 's, 'z) evrf_curve_scheme \<Rightarrow> ('q, 'p, 's) batched_statement
    \<Rightarrow> unit result option" where
  "validate_batched_public_relations M E statement = validate_batched_public_relations_impl M E statement None"

definition validate_batched_public_relations_for_verifier ::
  "('t, 'y) merlin_u64_scheme \<Rightarrow> ('q::field, 'p::ab_group_add, 'a, 'c, 's, 'z) evrf_curve_scheme \<Rightarrow> ('q, 'p, 's) batched_statement
    \<Rightarrow> 't \<Rightarrow> unit result option" where
  "validate_batched_public_relations_for_verifier M E statement observed =
     (let batch_feldman = 99 \<le> min (bs_threshold statement) (length (bs_receivers statement))
      in validate_batched_public_relations_impl M E statement (if batch_feldman then Some observed else None))"

section \<open>The public parameters of a circuit shape\<close>

record ('o, 'b) batched_params =
  bp_threshold :: usize
  bp_receiver_count :: usize
  bp_multiplier_count :: usize
  bp_pc_gens :: "'o pedersen_gens"
  bp_bp_gens :: "'b bulletproof_gens"

definition validated_shape :: "usize \<Rightarrow> usize \<Rightarrow> (usize \<times> usize) result" where
  "validated_shape threshold receiver_count =
     rbind (batched_multiplier_count threshold receiver_count) (\<lambda>multiplier_count.
     rbind (checked_usize (next_power_of_two multiplier_count)) (\<lambda>gens_capacity.
     Inr (multiplier_count, gens_capacity)))"

text \<open>The generators come from the shared cache of \<open>generators.rs\<close>.\<close>

definition params_from_shape ::
  "xof \<Rightarrow> ('s, 'o, 'b, 'd, 'w) cycle_scheme \<Rightarrow> nat \<Rightarrow> usize \<Rightarrow> usize \<Rightarrow> usize \<Rightarrow> usize \<Rightarrow> 'b generator_cache
    \<Rightarrow> (('o, 'b) batched_params \<times> 'b generator_cache) option" where
  "params_from_shape shake D threads threshold receiver_count multiplier_count capacity cache =
     Option.bind (pedersen_gens_default shake D) (\<lambda>pc_gens.
     Option.bind (bulletproof_gens_new shake D threads capacity 1 cache) (\<lambda>(cache, bp_gens).
     Some (\<lparr>bp_threshold = threshold, bp_receiver_count = receiver_count, bp_multiplier_count = multiplier_count,
            bp_pc_gens = pc_gens, bp_bp_gens = bp_gens\<rparr>, cache)))"

definition params_setup ::
  "xof \<Rightarrow> ('s, 'o, 'b, 'd, 'w) cycle_scheme \<Rightarrow> nat \<Rightarrow> usize \<Rightarrow> usize \<Rightarrow> 'b generator_cache
    \<Rightarrow> (('o, 'b) batched_params \<times> 'b generator_cache) result option" where
  "params_setup shake D threads threshold receiver_count cache =
     oresult (validated_shape threshold receiver_count) (\<lambda>(multiplier_count, capacity).
     map_option Inr (params_from_shape shake D threads threshold receiver_count multiplier_count capacity cache))"

text \<open>The process-wide map of parameters by shape; an entry is built once.\<close>

type_synonym ('o, 'b) params_cache = "usize \<times> usize \<Rightarrow> ('o, 'b) batched_params option"

definition params_shared ::
  "xof \<Rightarrow> ('s, 'o, 'b, 'd, 'w) cycle_scheme \<Rightarrow> nat \<Rightarrow> usize \<Rightarrow> usize \<Rightarrow> ('o, 'b) params_cache \<times> 'b generator_cache
    \<Rightarrow> (('o, 'b) batched_params \<times> ('o, 'b) params_cache \<times> 'b generator_cache) result option" where
  "params_shared shake D threads threshold receiver_count = (\<lambda>(shared, cache).
     oresult (validated_shape threshold receiver_count) (\<lambda>(multiplier_count, capacity).
     case shared (threshold, receiver_count) of
       Some params \<Rightarrow> Some (Inr (params, shared, cache))
     | None \<Rightarrow> Option.bind (params_from_shape shake D threads threshold receiver_count multiplier_count capacity cache)
         (\<lambda>(params, cache). Some (Inr (params, shared((threshold, receiver_count) \<mapsto> params), cache)))))"

definition trailing_zeros :: "nat \<Rightarrow> nat" where
  "trailing_zeros n = length (takeWhile (\<lambda>i. \<not> bit n i) [0..<64])"

definition batched_proof_wire_len ::
  "('q, 'p, 'a, 'c, 's, 'z) evrf_curve_scheme \<Rightarrow> ('s, 'o, 'b, 'd, 'w) cycle_scheme \<Rightarrow> usize \<Rightarrow> usize \<Rightarrow> usize result" where
  "batched_proof_wire_len E D threshold receiver_count =
     rbind (validated_shape threshold receiver_count) (\<lambda>(_, gens_capacity).
     let lg_n = trailing_zeros gens_capacity;
         envelope = 4 + length BATCHED_PROOF_ID + 8;
         constant_term_proof = point_bytes (cycle_curve E) + scalar_bytes (cycle_curve E)
     in Inr (envelope + single_phase_wire_len D lg_n + constant_term_proof))"

definition params_validate_statement ::
  "('o, 'b) batched_params \<Rightarrow> ('q, 'p, 's) batched_statement \<Rightarrow> unit result" where
  "params_validate_statement params statement =
     (if bp_threshold params \<noteq> bs_threshold statement \<or> bp_receiver_count params \<noteq> length (bs_receivers statement)
      then Inl ProofVerificationFailed else Inr ())"

end
