(* ===== verification/Halo2.thy ===== *)
theory Halo2
  imports Secp_Generator Evrf_Chord Ehtdh_Seal
begin

text \<open>
  \<open>golden-halo2curves\<close>: the adapters over the crate \<open>halo2curves\<close> for one of its curves (\<open>lib.rs\<close>, the macro
  \<open>impl_cycle\<close>, and \<open>golden_group.rs\<close> for Secp256k1). The crate is the record \<open>halo2\<close> of the operations that the
  adapters call, with the locale \<open>halo2_crate\<close> for what it documents. The adapters are a \<open>golden_hash_group\<close>, a
  \<open>cycle\<close> and the curve \<open>evrf_curve\<close> of the paper eVRF, with the two-point multiplication, the fixed-base table
  and batch inversion as the code has them.
\<close>

section \<open>The crate\<close>

text \<open>Scalars \<open>'s\<close>, points \<open>'p\<close>, affine points \<open>'a\<close>, elements of the base field \<open>'f\<close>.\<close>

record ('s, 'p, 'a, 'f) halo2 =
  h2_generator :: 'p
  h2_mul :: "'p \<Rightarrow> 's \<Rightarrow> 'p"
  h2_from_u64 :: "u64 \<Rightarrow> 's"
  h2_from_uniform :: "bytes \<Rightarrow> 's"
  h2_to_repr :: "'s \<Rightarrow> bytes"
  h2_from_repr :: "bytes \<Rightarrow> 's option"
  h2_to_bytes :: "'p \<Rightarrow> bytes"
  h2_from_bytes :: "bytes \<Rightarrow> 'p option"
  h2_affine_bytes :: "'a \<Rightarrow> bytes"
  h2_to_affine :: "'p \<Rightarrow> 'a"
  h2_to_curve :: "'a \<Rightarrow> 'p"
  h2_batch_normalize :: "'p list \<Rightarrow> 'a list"
  h2_msm_best :: "'s list \<Rightarrow> 'a list \<Rightarrow> 'p"
  h2_hash_to_curve :: "bytes \<Rightarrow> bytes \<Rightarrow> 'p"
  h2_coordinates :: "'a \<Rightarrow> ('f \<times> 'f) option"
  h2_base_to_repr :: "'f \<Rightarrow> bytes"
  h2_base_from_repr :: "bytes \<Rightarrow> 'f option"
  h2_sha256 :: "bytes \<Rightarrow> bytes"

section \<open>The cycle\<close>

definition halo2_scalar_invert :: "'s::field \<Rightarrow> 's" where
  "halo2_scalar_invert scalar = (case invert scalar of Some s \<Rightarrow> s | None \<Rightarrow> 0)"

text \<open>The running products, one inversion, and the way back.\<close>

definition halo2_batch_invert :: "'s::field list \<Rightarrow> 's list \<times> 's" where
  "halo2_batch_invert items =
     (let (acc, scratch) = fold (\<lambda>x (acc, scratch). (acc * x, scratch @ [acc])) items (1, []);
          acc_inv = halo2_scalar_invert acc;
          (items, running) = fold (\<lambda>i (items, running).
             let original = items ! i in (items[i := running * scratch ! i], running * original))
             (rev [0..<length items]) (items, acc_inv)
      in (items, acc_inv))"

text \<open>The table of \<open>i * P + j * Q\<close> for \<open>i\<close> and \<open>j\<close> up to three, without the identity.\<close>

definition two_point_table :: "'p::ab_group_add \<Rightarrow> 'p \<Rightarrow> 'p list" where
  "two_point_table p q =
     (let t3 = p; t0 = q; t7 = t3 + t3; t1 = t0 + t0; t11 = t7 + p; t2 = t1 + q;
          t4 = t3 + q; t5 = t4 + q; t6 = t5 + q; t8 = t7 + q; t9 = t8 + q; t10 = t9 + q;
          t12 = t11 + q; t13 = t12 + q; t14 = t13 + q
      in [t0, t1, t2, t3, t4, t5, t6, t7, t8, t9, t10, t11, t12, t13, t14])"

definition two_bits :: "byte \<Rightarrow> nat \<Rightarrow> byte" where
  "two_bits b i = push_bit 1 (drop_bit i b AND 1) OR (drop_bit (i - 1) b AND 1)"

text \<open>The bytes of both scalars from the top, four windows of two bits each.\<close>

definition two_point_loop ::
  "('s, 'p::ab_group_add, 'a, 'f, 'z) halo2_scheme \<Rightarrow> 'a list \<Rightarrow> (byte \<times> byte) list \<Rightarrow> 'p \<Rightarrow> 'p" where
  "two_point_loop H affine_table bs acc =
     fold (\<lambda>(b1, b2) acc. fold (\<lambda>i acc.
         let acc = (acc + acc) + (acc + acc); w1 = two_bits b1 i; w2 = two_bits b2 i;
             idx = unat w1 * 4 + unat w2
         in if idx \<noteq> 0 then acc + h2_to_curve H (affine_table ! (idx - 1)) else acc) [7, 5, 3, 1] acc) bs acc"

definition two_point_msm ::
  "('s, 'p::ab_group_add, 'a, 'f, 'z) halo2_scheme \<Rightarrow> 's \<Rightarrow> 's \<Rightarrow> 'p \<Rightarrow> 'p \<Rightarrow> 'p" where
  "two_point_msm H x y p q =
     (let affine_table = h2_batch_normalize H (two_point_table p q)
      in two_point_loop H affine_table (zip (rev (h2_to_repr H x)) (rev (h2_to_repr H y))) 0)"

definition halo2_msm :: "('s, 'p::ab_group_add, 'a, 'f, 'z) halo2_scheme \<Rightarrow> 's list \<Rightarrow> 'p list \<Rightarrow> 'p" where
  "halo2_msm H scalars points =
     (if length points = 2 \<and> points ! 0 \<noteq> 0 \<and> points ! 1 \<noteq> 0
      then two_point_msm H (scalars ! 0) (scalars ! 1) (points ! 0) (points ! 1)
      else if 0 \<notin> set points then h2_msm_best H scalars (h2_batch_normalize H points)
      else
      let filtered = filter (\<lambda>(_, p). p \<noteq> 0) (zip scalars points)
      in if filtered = [] then 0
         else h2_msm_best H (map fst filtered) (h2_batch_normalize H (map snd filtered)))"

definition halo2_msm_optional :: "('s, 'p::ab_group_add, 'a, 'f, 'z) halo2_scheme \<Rightarrow> 's list \<Rightarrow> 'p option list \<Rightarrow> 'p option" where
  "halo2_msm_optional H scalars points =
     (let filtered = filter (\<lambda>(_, p). p \<noteq> Some 0) (zip scalars points)
      in if filtered = [] then Some 0
         else Option.bind (those (map snd filtered)) (\<lambda>filtered_points.
              Some (h2_msm_best H (map fst filtered) (h2_batch_normalize H filtered_points))))"

text \<open>Both curves have compressed points of 33 bytes; \<open>domain\<close> is the tag of the curve.\<close>

definition halo2_cycle ::
  "('s::field, 'p::ab_group_add, 'a, 'f, 'z) halo2_scheme \<Rightarrow> bytes \<Rightarrow> ('s, 'p, 'a, bytes) cycle" where
  "halo2_cycle H domain =
     \<lparr>compressed_bytes = 33,
      group_generator = h2_generator H,
      point_mul = h2_mul H,
      scalar_from_wide = h2_from_uniform H,
      scalar_from_canonical = h2_from_repr H,
      scalar_to_canonical = h2_to_repr H,
      scalar_invert = halo2_scalar_invert,
      scalar_batch_invert = halo2_batch_invert,
      point_compress = h2_to_bytes H,
      compressed_decompress = h2_from_bytes H,
      compressed_identity = h2_to_bytes H 0,
      compressed_is_identity = (\<lambda>c. c = h2_to_bytes H 0),
      compressed_from_bytes = (\<lambda>bs. take 33 bs),
      compressed_as_bytes = (\<lambda>c. c),
      point_hash_from_uniform = (\<lambda>bs. Some (h2_hash_to_curve H domain bs)),
      point_to_affine = h2_to_affine H,
      affine_to_point = h2_to_curve H,
      batch_normalize = h2_batch_normalize H,
      affine_compress = h2_affine_bytes H,
      vartime_msm = halo2_msm H,
      vartime_msm_affine = h2_msm_best H,
      vartime_msm_optional = halo2_msm_optional H\<rparr>"

definition secp256k1_domain :: bytes where "secp256k1_domain = ascii ''golden-bulletproofs-secp256k1''"
definition secq256k1_domain :: bytes where "secq256k1_domain = ascii ''golden-bulletproofs-secq256k1''"

text \<open>The curve of the paper eVRF, with its coordinates and hashing.\<close>

definition halo2_evrf_curve ::
  "('s::field, 'p::ab_group_add, 'a, 'f, 'z) halo2_scheme \<Rightarrow> bytes \<Rightarrow> ('s, 'p, 'a, bytes, 'f) evrf_curve" where
  "halo2_evrf_curve H domain =
     cycle.extend (halo2_cycle H domain) \<lparr>affine_coordinates = h2_coordinates H, hash_to_curve = h2_hash_to_curve H\<rparr>"

section \<open>The golden group\<close>

definition halo2_encode_element :: "('s, 'p::ab_group_add, 'a, 'f, 'z) halo2_scheme \<Rightarrow> 'p \<Rightarrow> bytes" where
  "halo2_encode_element H point = (if is_identity point then replicate 33 0 else h2_to_bytes H point)"

definition halo2_decode_element :: "('s, 'p::ab_group_add, 'a, 'f, 'z) halo2_scheme \<Rightarrow> bytes \<Rightarrow> 'p result" where
  "halo2_decode_element H repr =
     (if repr = replicate 33 0 then Inr 0 else ok_or (h2_from_bytes H repr) InvalidEncoding)"

text \<open>\<open>core::str::from_utf8\<close> accepts the well-formed byte sequences of Unicode.\<close>

definition utf8_tail :: "byte \<Rightarrow> bool" where
  "utf8_tail b \<longleftrightarrow> 0x80 \<le> b \<and> b \<le> 0xBF"

fun valid_utf8 :: "bytes \<Rightarrow> bool" where
  "valid_utf8 [] = True"
| "valid_utf8 (b # bs) =
     (if b < 0x80 then valid_utf8 bs
      else case bs of
        [] \<Rightarrow> False
      | c # cs \<Rightarrow>
          if 0xC2 \<le> b \<and> b \<le> 0xDF then utf8_tail c \<and> valid_utf8 cs
          else case cs of
            [] \<Rightarrow> False
          | d # ds \<Rightarrow>
              if 0xE0 \<le> b \<and> b \<le> 0xEF
              then utf8_tail c \<and> (b = 0xE0 \<longrightarrow> 0xA0 \<le> c) \<and> (b = 0xED \<longrightarrow> c \<le> 0x9F) \<and> utf8_tail d \<and> valid_utf8 ds
              else case ds of
                [] \<Rightarrow> False
              | e # es \<Rightarrow> 0xF0 \<le> b \<and> b \<le> 0xF4 \<and> utf8_tail c \<and> (b = 0xF0 \<longrightarrow> 0x90 \<le> c) \<and> (b = 0xF4 \<longrightarrow> c \<le> 0x8F)
                  \<and> utf8_tail d \<and> utf8_tail e \<and> valid_utf8 es)"

definition halo2_hash_to_group :: "('s, 'p::ab_group_add, 'a, 'f, 'z) halo2_scheme \<Rightarrow> bytes \<Rightarrow> bytes \<Rightarrow> 'p result" where
  "halo2_hash_to_group H domain message =
     (if \<not> valid_utf8 domain then Inl InvalidEncoding
      else let point = h2_hash_to_curve H domain message
           in if is_identity point then Inl InvalidEncoding else Inr point)"

definition halo2_golden_group ::
  "('s, 'p::ab_group_add, 'a, 'f, 'z) halo2_scheme \<Rightarrow> ('s, 'p) golden_hash_group" where
  "halo2_golden_group H =
     \<lparr>repr_bytes = 32,
      scalar_from_u64 = (\<lambda>value. Inr (h2_from_u64 H value)),
      scalar_to_repr = h2_to_repr H,
      scalar_from_repr = (\<lambda>repr. ok_or (h2_from_repr H repr) InvalidEncoding),
      element_repr_bytes = 33,
      backend_id = ascii ''halo2curves-secp256k1-v1'',
      generator = h2_generator H,
      group_mul = h2_mul H,
      encode_element = halo2_encode_element H,
      decode_element = halo2_decode_element H,
      sha256 = h2_sha256 H,
      hash_to_group = halo2_hash_to_group H\<rparr>"

definition halo2_affine_coordinates :: "('s, 'p::ab_group_add, 'a, 'f, 'z) halo2_scheme \<Rightarrow> 'p \<Rightarrow> (bytes \<times> bytes) result" where
  "halo2_affine_coordinates H point =
     (if is_identity point then Inl InvalidEncoding
      else rbind (ok_or (h2_coordinates H (h2_to_affine H point)) InvalidEncoding) (\<lambda>(x, y).
           Inr (h2_base_to_repr H x, h2_base_to_repr H y)))"

definition scalar_to_r1cs_field :: "('s, 'p, 'a, 'f, 'z) halo2_scheme \<Rightarrow> 's \<Rightarrow> 'f option" where
  "scalar_to_r1cs_field H scalar =
     (let arr = h2_to_repr H scalar
      in case h2_base_from_repr H arr of
           None \<Rightarrow> None
         | Some fp \<Rightarrow> if h2_base_to_repr H fp \<noteq> arr then None else Some fp)"

section \<open>What the crate documents\<close>

text \<open>\<open>msm_best\<close> is for bases that are not the identity.\<close>

locale halo2_crate =
  fixes H :: "('s::field, 'p::ab_group_add, 'a, 'f::field, 'z) halo2_scheme"
  assumes h2_mul_add: "h2_mul H p (x + y) = h2_mul H p x + h2_mul H p y"
    and h2_mul_add_point: "h2_mul H (p + q) x = h2_mul H p x + h2_mul H q x"
    and h2_mul_mult: "h2_mul H (h2_mul H p x) y = h2_mul H p (x * y)"
    and h2_mul_one: "h2_mul H p 1 = p"
    and h2_generator_free: "h2_mul H (h2_generator H) x = 0 \<Longrightarrow> x = 0"
    and h2_generator_spans: "\<exists>x. p = h2_mul H (h2_generator H) x"
    and h2_from_u64_value: "h2_from_u64 H w = of_nat (unat w)"
    and h2_repr_length: "length (h2_to_repr H x) = 32"
    and h2_repr_value: "of_nat (from_le (h2_to_repr H x)) = x"
    and h2_repr_decode: "h2_from_repr H (h2_to_repr H x) = Some x"
    and h2_repr_canonical: "h2_from_repr H b = Some x \<Longrightarrow> h2_to_repr H x = b"
    and h2_bytes_length: "length (h2_to_bytes H p) = 33"
    and h2_bytes_decode: "h2_from_bytes H (h2_to_bytes H p) = Some p"
    and h2_bytes_canonical: "h2_from_bytes H b = Some p \<Longrightarrow> h2_to_bytes H p = b"
    and h2_bytes_nonzero: "h2_to_bytes H p \<noteq> replicate 33 0"
    and h2_affine: "h2_to_curve H (h2_to_affine H p) = p"
    and h2_normalize: "map (h2_to_curve H) (h2_batch_normalize H ps) = ps"
    and h2_msm: "length xs = length as \<Longrightarrow> 0 \<notin> h2_to_curve H ` set as \<Longrightarrow>
      h2_msm_best H xs as = (\<Sum>(x, a)\<leftarrow>zip xs as. h2_mul H (h2_to_curve H a) x)"
    and h2_sha256_length: "length (h2_sha256 H m) = 32"

text \<open>A crate whose \<open>msm_best\<close> also takes the identity as a base.\<close>

locale halo2_total = halo2_crate +
  assumes h2_msm_total: "length xs = length as \<Longrightarrow>
      h2_msm_best H xs as = (\<Sum>(x, a)\<leftarrow>zip xs as. h2_mul H (h2_to_curve H a) x)"

end
