(* ===== verification/Halo2_Laws.thy ===== *)
theory Halo2_Laws
  imports Halo2
begin

text \<open>
  The adapters over \<open>halo2curves\<close>: a group of prime order, whose encodings are canonical but for the identity, and a
  cycle whose batch inversion and multi-scalar multiplications over points are right (also for points that are the
  identity, which the adapter filters). The multiplication over affine bases does not filter, so that the contract of
  a cycle holds exactly when the crate takes the identity as a base (\<open>halo2_total\<close>). Multiplying the generator with the
  table is ordinary multiplication.
\<close>

section \<open>Batch inversion\<close>

lemma halo2_invert_eq: "halo2_scalar_invert x = inverse x"
  by (simp add: halo2_scalar_invert_def invert_def)

lemma halo2_products:
  "fold (\<lambda>x (acc, scratch). (acc * x, scratch @ [acc])) xs (a, ss)
    = (case fold (\<lambda>x (scratch, acc). (scratch @ [acc], acc * x)) xs (ss, a) of (s, b) \<Rightarrow> (b :: 's::field, s))"
  by (induction xs arbitrary: a ss) auto

lemma halo2_batch_invert_eq: "halo2_batch_invert xs = montgomery_batch_invert xs"
proof -
  obtain ss a where "fold (\<lambda>x (scratch, acc). (scratch @ [acc], acc * x)) xs ([], 1) = (ss, a :: 'a)" by fastforce
  then show ?thesis
    by (simp add: halo2_batch_invert_def montgomery_batch_invert_def halo2_products halo2_invert_eq field_invert_or_zero_eq Let_def)
qed

section \<open>Two points\<close>

lemma times_nat_double: "times_nat n p + times_nat n p = times_nat (2 * n) p"
  by (simp add: mult_2 times_nat_add)

text \<open>The entry at \<open>4 * i + j - 1\<close> is \<open>i * P + j * Q\<close>.\<close>

lemma two_point_table_nth:
  assumes "i < 4" "j < 4" "i * 4 + j \<noteq> 0"
  shows "two_point_table p q ! (i * 4 + j - 1) = times_nat i p + times_nat j q"
proof -
  have "i \<in> {0, 1, 2, 3}" "j \<in> {0, 1, 2, 3}" using assms(1,2) by auto
  then show ?thesis
    using assms(3) by (auto simp: two_point_table_def Let_def numeral_2_eq_2 numeral_3_eq_3 add_ac)
qed

lemma two_point_table_length: "length (two_point_table p q) = 15"
  by (simp add: two_point_table_def Let_def)

lemma two_bits_value:
  assumes "0 < i" "i < 8"
  shows "unat (two_bits b i) = unat b div 2 ^ (i - 1) mod 4"
proof -
  have "bit (two_bits b i) n \<longleftrightarrow> (n = 1 \<and> bit b i) \<or> (n = 0 \<and> bit b (i - 1))" if "n < 8" for n
    unfolding two_bits_def bit_or_iff bit_push_bit_iff bit_and_iff bit_1_iff bit_drop_bit_eq comp_apply using that by auto
  moreover have "bit (take_bit 2 (drop_bit (i - 1) b)) n \<longleftrightarrow> (n = 1 \<and> bit b i) \<or> (n = 0 \<and> bit b (i - 1))" for n
    using assms by (auto simp: bit_take_bit_iff bit_drop_bit_eq less_Suc_eq numeral_2_eq_2)
  ultimately have "bit (two_bits b i) n \<longleftrightarrow> bit (take_bit 2 (drop_bit (i - 1) b)) n" if "n < 8" for n
    using that by simp
  then have "two_bits b i = take_bit 2 (drop_bit (i - 1) b)" by (intro bit_word_eqI) simp
  then show ?thesis
    using assms(2) unat_byte_less[of b] by (simp only: unsigned_take_bit_eq unsigned_drop_bit_eq) (simp add: take_bit_eq_mod drop_bit_eq_div)
qed

lemma byte_digits:
  "unat (b :: byte) = 4 * (4 * (4 * (unat b div 2 ^ 6 mod 4) + unat b div 2 ^ 4 mod 4) + unat b div 2 ^ 2 mod 4) + unat b div 2 ^ 0 mod 4"
proof -
  have split: "x = 4 * (x div 4) + x mod 4" for x :: nat by simp
  have div: "unat b div 2 ^ 2 = unat b div 4" "unat b div 2 ^ 4 = unat b div 4 div 4" "unat b div 2 ^ 6 = unat b div 4 div 4 div 4"
    by (simp_all add: div_mult2_eq[symmetric])
  have "unat b div 4 div 4 div 4 < 4" using unat_byte_less[of b] by (simp add: div_mult2_eq[symmetric])
  then have "unat b div 4 div 4 div 4 mod 4 = unat b div 4 div 4 div 4" by simp
  then show ?thesis
    unfolding div power_0 div_by_1 by (metis split)
qed

context halo2_crate
begin

lemma h2_times_nat: "times_nat n p = h2_mul H p (of_nat n)"
proof -
  have "h2_mul H p 0 = 0" using h2_mul_add[of p 0 0] by simp
  then show ?thesis by (induction n) (auto simp: h2_mul_add h2_mul_one)
qed

lemma h2_normalize_length [simp]: "length (h2_batch_normalize H ps) = length ps"
  using arg_cong[OF h2_normalize[of ps], of length] by simp

lemma h2_normalize_nth: "i < length ps \<Longrightarrow> h2_to_curve H (h2_batch_normalize H ps ! i) = ps ! i"
  using arg_cong[OF h2_normalize[of ps], of "\<lambda>xs. xs ! i"] by simp

lemma two_point_step:
  assumes "i < 4" "j < 4"
  shows "(if i * 4 + j \<noteq> 0 then acc + h2_to_curve H (h2_batch_normalize H (two_point_table p q) ! (i * 4 + j - 1)) else acc)
    = acc + times_nat i p + times_nat j q"
  using assms two_point_table_nth[OF assms, of p q]
  by (auto simp: h2_normalize_nth two_point_table_length add.assoc)

lemma two_point_byte:
  "two_point_loop H (h2_batch_normalize H (two_point_table p q)) [(b1, b2)] (times_nat m p + times_nat n q)
    = times_nat (256 * m + unat b1) p + times_nat (256 * n + unat b2) q"
proof -
  have digit: "unat (two_bits b i) < 4" if "0 < i" "i < 8" for b i using two_bits_value[OF that] by simp
  let ?T = "h2_batch_normalize H (two_point_table p q)"
  have step: "(let acc = (acc + acc) + (acc + acc); w1 = two_bits b1 i; w2 = two_bits b2 i; idx = unat w1 * 4 + unat w2
         in if idx \<noteq> 0 then acc + h2_to_curve H (?T ! (idx - 1)) else acc)
      = times_nat (4 * m + unat (two_bits b1 i)) p + times_nat (4 * n + unat (two_bits b2 i)) q"
    if "acc = times_nat m p + times_nat n q" "0 < i" "i < 8" for acc m n i
    unfolding Let_def two_point_step[OF digit[OF that(2,3)] digit[OF that(2,3)]] that(1)
    by (simp add: times_nat_add_point times_nat_add numeral_eq_Suc algebra_simps)
  have "unat b = 4 * (4 * (4 * unat (two_bits b 7) + unat (two_bits b 5)) + unat (two_bits b 3)) + unat (two_bits b 1)" for b
  proof -
    have "unat (two_bits b 7) = unat b div 2 ^ 6 mod 4" "unat (two_bits b 5) = unat b div 2 ^ 4 mod 4"
      "unat (two_bits b 3) = unat b div 2 ^ 2 mod 4" "unat (two_bits b 1) = unat b div 2 ^ 0 mod 4"
      by (simp_all add: two_bits_value)
    then show ?thesis using byte_digits[of b] by (simp only:)
  qed
  note val = this[of b1] this[of b2]
  have windows: "(0 :: nat) < 7" "(7 :: nat) < 8" "(0 :: nat) < 5" "(5 :: nat) < 8" "(0 :: nat) < 3" "(3 :: nat) < 8"
    "(0 :: nat) < 1" "(1 :: nat) < 8" by simp_all
  have "two_point_loop H ?T [(b1, b2)] (times_nat m p + times_nat n q)
      = times_nat (4 * (4 * (4 * (4 * m + unat (two_bits b1 7)) + unat (two_bits b1 5)) + unat (two_bits b1 3)) + unat (two_bits b1 1)) p
        + times_nat (4 * (4 * (4 * (4 * n + unat (two_bits b2 7)) + unat (two_bits b2 5)) + unat (two_bits b2 3)) + unat (two_bits b2 1)) q"
    unfolding two_point_loop_def fold_simps id_apply comp_apply prod.case
    by (simp only: step[OF refl windows(1,2)] step[OF refl windows(3,4)] step[OF refl windows(5,6)] step[OF refl windows(7,8)])
  also have "\<dots> = times_nat (256 * m + unat b1) p + times_nat (256 * n + unat b2) q"
  proof -
    have "4 * (4 * (4 * (4 * k + w7) + w5) + w3) + w1 = 256 * k + (4 * (4 * (4 * w7 + w5) + w3) + w1)" for k w7 w5 w3 w1 :: nat
      by simp
    then show ?thesis unfolding val by (simp only:)
  qed
  finally show ?thesis .
qed

lemma two_point_value:
  assumes "length xs = length ys"
  shows "two_point_loop H (h2_batch_normalize H (two_point_table p q)) (zip xs ys) (times_nat m p + times_nat n q)
    = times_nat (256 ^ length xs * m + from_be xs) p + times_nat (256 ^ length ys * n + from_be ys) q"
  using assms
proof (induction xs ys arbitrary: m n rule: list_induct2)
  case Nil
  then show ?case by (simp add: two_point_loop_def)
next
  case (Cons x xs y ys)
  have loop: "two_point_loop H T ((x, y) # bs) acc = two_point_loop H T bs (two_point_loop H T [(x, y)] acc)" for T bs acc
    by (simp add: two_point_loop_def)
  have join: "256 ^ length (x # xs) * m + from_be (x # xs) = 256 ^ length xs * (256 * m + unat x) + from_be xs"
    "256 ^ length (y # ys) * n + from_be (y # ys) = 256 ^ length ys * (256 * n + unat y) + from_be ys"
    by (simp_all add: algebra_simps)
  show ?case
    unfolding zip_Cons_Cons loop[of _ "zip xs ys"] two_point_byte Cons.IH join ..
qed

lemma two_point_msm_eq: "two_point_msm H x y p q = h2_mul H p x + h2_mul H q y"
proof -
  have "two_point_msm H x y p q = times_nat (from_le (h2_to_repr H x)) p + times_nat (from_le (h2_to_repr H y)) q"
    using two_point_value[of "rev (h2_to_repr H x)" "rev (h2_to_repr H y)" p q 0 0]
    by (simp add: two_point_msm_def Let_def h2_repr_length from_le_def)
  then show ?thesis by (simp add: h2_times_nat h2_repr_value)
qed

text \<open>The adapter's multi-scalar multiplication is right for all points.\<close>

lemma h2_msm_points:
  assumes "length xs = length ps" "0 \<notin> set ps"
  shows "h2_msm_best H xs (h2_batch_normalize H ps) = (\<Sum>(x, p)\<leftarrow>zip xs ps. h2_mul H p x)"
proof -
  have "h2_to_curve H ` set (h2_batch_normalize H ps) = set ps"
    using h2_normalize[of ps] by (metis set_map)
  then have "h2_msm_best H xs (h2_batch_normalize H ps)
      = (\<Sum>(x, a)\<leftarrow>zip xs (h2_batch_normalize H ps). h2_mul H (h2_to_curve H a) x)"
    using assms by (intro h2_msm) simp_all
  also have "\<dots> = (\<Sum>(x, p)\<leftarrow>zip xs (map (h2_to_curve H) (h2_batch_normalize H ps)). h2_mul H p x)"
    by (simp add: zip_map2 case_prod_unfold comp_def)
  finally show ?thesis by (simp add: h2_normalize)
qed

lemma h2_mul_zero_point [simp]: "h2_mul H 0 x = 0"
  using h2_mul_add_point[of 0 0 x] by simp

lemma halo2_msm_eq:
  assumes "length xs = length ps"
  shows "halo2_msm H xs ps = (\<Sum>(x, p)\<leftarrow>zip xs ps. h2_mul H p x)"
proof (cases "length ps = 2 \<and> ps ! 0 \<noteq> 0 \<and> ps ! 1 \<noteq> 0")
  case True
  then obtain x y p q where "xs = [x, y]" "ps = [p, q]"
    using assms by (auto simp: numeral_2_eq_2 length_Suc_conv)
  with True show ?thesis by (simp add: halo2_msm_def two_point_msm_eq)
next
  case two: False
  show ?thesis
  proof (cases "0 \<in> set ps")
    case False
    have "halo2_msm H xs ps = h2_msm_best H xs (h2_batch_normalize H ps)"
      unfolding halo2_msm_def using two False by (simp only: if_False if_True simp_thms)
    with h2_msm_points[OF assms False] show ?thesis by simp
  next
    case True
    let ?f = "filter (\<lambda>(_, p). p \<noteq> 0) (zip xs ps)"
    have sum: "(\<Sum>(x, p)\<leftarrow>?f. h2_mul H p x) = (\<Sum>(x, p)\<leftarrow>zs. h2_mul H p x)" if "?f = filter (\<lambda>(_, p). p \<noteq> 0) zs" for zs
      unfolding that by (induction zs) auto
    have "h2_msm_best H (map fst ?f) (h2_batch_normalize H (map snd ?f)) = (\<Sum>(x, p)\<leftarrow>zip (map fst ?f) (map snd ?f). h2_mul H p x)"
      by (rule h2_msm_points) auto
    then have val: "h2_msm_best H (map fst ?f) (h2_batch_normalize H (map snd ?f)) = (\<Sum>(x, p)\<leftarrow>zip xs ps. h2_mul H p x)"
      unfolding zip_map_fst_snd sum[OF refl] .
    have "halo2_msm H xs ps = (if ?f = [] then 0 else h2_msm_best H (map fst ?f) (h2_batch_normalize H (map snd ?f)))"
      unfolding halo2_msm_def Let_def using two True by (simp only: if_False if_True simp_thms)
    then show ?thesis
      using val sum[OF refl] by (cases "?f = []") simp_all
  qed
qed

end

section \<open>The contracts\<close>

context halo2_crate
begin

lemma h2_zero [simp]: "h2_mul H p 0 = 0"
  using h2_mul_add[of p 0 0] by simp

lemma secp_mul_generator_eq:
  "secp_mul_generator (halo2_cycle H domain) scalar = h2_mul H (h2_generator H) scalar"
  using secp_mul_generator_bytes[of "halo2_cycle H domain" scalar]
  by (simp add: halo2_cycle_def h2_repr_length h2_times_nat h2_repr_value)

lemma halo2_identity_bytes: "h2_to_bytes H p = h2_to_bytes H q \<longleftrightarrow> p = q"
  using h2_bytes_decode by (metis option.inject)

text \<open>The laws of a cycle but for multi-scalar multiplication over affine points.\<close>

lemma halo2_optional_eq:
  assumes "length xs = length ps"
  shows "halo2_msm_optional H xs (map Some ps) = Some (\<Sum>(x, p)\<leftarrow>zip xs ps. h2_mul H p x)"
proof -
  let ?f = "filter (\<lambda>(_, p). p \<noteq> 0) (zip xs ps)"
  have f: "filter (\<lambda>(_, p). p \<noteq> Some 0) (zip xs (map Some ps)) = map (\<lambda>(x, p). (x, Some p)) ?f"
    by (simp add: zip_map2 filter_map comp_def case_prod_unfold)
  have sum: "(\<Sum>(x, p)\<leftarrow>filter (\<lambda>(_, p). p \<noteq> 0) zs. h2_mul H p x) = (\<Sum>(x, p)\<leftarrow>zs. h2_mul H p x)" for zs
    by (induction zs) auto
  have some: "those (map snd (map (\<lambda>(x, p). (x, Some p)) zs)) = Some (map snd zs)" for zs :: "('s \<times> 'p) list"
    by (induction zs) auto
  have "h2_msm_best H (map fst ?f) (h2_batch_normalize H (map snd ?f)) = (\<Sum>(x, p)\<leftarrow>zip (map fst ?f) (map snd ?f). h2_mul H p x)"
    by (rule h2_msm_points) auto
  then have val: "h2_msm_best H (map fst ?f) (h2_batch_normalize H (map snd ?f)) = (\<Sum>(x, p)\<leftarrow>zip xs ps. h2_mul H p x)"
    unfolding zip_map_fst_snd sum .
  have firsts: "map fst (map (\<lambda>(x, p). (x, Some p)) zs) = map fst zs" for zs :: "('s \<times> 'p) list"
    by (induction zs) auto
  show ?thesis
    using val sum[of "zip xs ps"] unfolding halo2_msm_optional_def f Let_def some firsts by (cases "?f = []") simp_all
qed

end

sublocale halo2_crate \<subseteq> halo2_group: hash_group "halo2_golden_group H"
  by unfold_locales
    (auto simp: halo2_golden_group_def halo2_hash_to_group_def is_identity_def h2_mul_add h2_mul_add_point h2_mul_mult h2_mul_one
      h2_generator_free h2_generator_spans h2_from_u64_value Let_def split: if_splits)

context halo2_crate
begin

text \<open>
  Encodings round trip, and a point other than the identity has one encoding. The identity has two: the zero
  bytes that the adapter writes, and the crate's own encoding, which the decoder also accepts.
\<close>

lemma halo2_element_codec:
  "length (encode_element (halo2_golden_group H) p) = 33"
  "decode_element (halo2_golden_group H) (encode_element (halo2_golden_group H) p) = Inr p"
  "decode_element (halo2_golden_group H) b = Inr p \<longleftrightarrow>
    (if p = 0 then b = replicate 33 0 \<or> b = h2_to_bytes H 0 else b = encode_element (halo2_golden_group H) p)"
proof -
  have enc: "encode_element (halo2_golden_group H) p = (if p = 0 then replicate 33 0 else h2_to_bytes H p)"
    by (simp add: halo2_golden_group_def halo2_encode_element_def is_identity_def)
  have dec: "decode_element (halo2_golden_group H) b = Inr p \<longleftrightarrow> (if b = replicate 33 0 then p = 0 else b = h2_to_bytes H p)" for b
    using h2_bytes_decode[of p] h2_bytes_canonical[of b p]
    by (auto simp: halo2_golden_group_def halo2_decode_element_def)
  show "length (encode_element (halo2_golden_group H) p) = 33" by (simp add: enc h2_bytes_length)
  show "decode_element (halo2_golden_group H) (encode_element (halo2_golden_group H) p) = Inr p"
    unfolding dec enc using h2_bytes_nonzero[of p] by auto
  show "decode_element (halo2_golden_group H) b = Inr p \<longleftrightarrow>
      (if p = 0 then b = replicate 33 0 \<or> b = h2_to_bytes H 0 else b = encode_element (halo2_golden_group H) p)"
    unfolding dec enc using h2_bytes_nonzero[of p] by auto
qed

end

context halo2_crate
begin

lemmas halo2_hash_group = halo2_group.hash_group_axioms

text \<open>
  The cycle's contract needs one thing more of the crate: \<open>vartime_msm_affine\<close> hands its bases on as they are, so
  \<open>msm_best\<close> has to take the identity as a base.
\<close>

lemma halo2_cycle_laws_iff:
  "cycle_laws (halo2_cycle H domain) \<longleftrightarrow>
    (\<forall>xs as. length xs = length as \<longrightarrow> h2_msm_best H xs as = (\<Sum>(x, a)\<leftarrow>zip xs as. h2_mul H (h2_to_curve H a) x))"
  by (simp add: cycle_laws_def halo2_cycle_def h2_mul_add h2_mul_add_point h2_mul_mult h2_mul_one halo2_msm_eq h2_affine h2_normalize
      halo2_invert_eq halo2_batch_invert_eq montgomery_batch_invert_eq h2_bytes_decode halo2_identity_bytes)

end

sublocale halo2_total \<subseteq> halo2_cyc: cycle_laws "halo2_cycle H domain"
  by (simp add: halo2_cycle_laws_iff h2_msm_total)

section \<open>A small instance\<close>

definition tiny_bytes33 :: "tiny \<Rightarrow> bytes" where
  "tiny_bytes33 p = word_of_nat (tiny_get p) # replicate 31 0 @ [1]"

definition tiny_from_bytes33 :: "bytes \<Rightarrow> tiny option" where
  "tiny_from_bytes33 bs =
     (case bs of [] \<Rightarrow> None
      | b # rest \<Rightarrow> if rest = replicate 31 0 @ [1] \<and> unat b < 97 then Some (reduce (unat b)) else None)"

definition tiny_halo2 :: "(tiny, tiny, tiny, tiny) halo2" where
  "tiny_halo2 =
     \<lparr>h2_generator = 1, h2_mul = (*), h2_from_u64 = (\<lambda>w. reduce (unat w)), h2_from_uniform = (\<lambda>bs. reduce (from_le bs)),
      h2_to_repr = tiny_fr_to_repr, h2_from_repr = tiny_fr_from_repr, h2_to_bytes = tiny_bytes33, h2_from_bytes = tiny_from_bytes33,
      h2_affine_bytes = tiny_bytes33, h2_to_affine = (\<lambda>p. p), h2_to_curve = (\<lambda>a. a), h2_batch_normalize = (\<lambda>ps. ps),
      h2_msm_best = (\<lambda>xs as. \<Sum>(x, a)\<leftarrow>zip xs as. a * x), h2_hash_to_curve = (\<lambda>_ bs. reduce (from_le bs)),
      h2_coordinates = (\<lambda>p. if p = 0 then None else Some (p, p)), h2_base_to_repr = tiny_fr_to_repr,
      h2_base_from_repr = tiny_fr_from_repr, h2_sha256 = tiny_hash\<rparr>"

lemma tiny_bytes33_decode: "tiny_from_bytes33 (tiny_bytes33 p) = Some p"
  using tiny_get_less[of p] by (simp add: tiny_from_bytes33_def tiny_bytes33_def unat_of_nat)

lemma tiny_bytes33_canonical: "tiny_from_bytes33 b = Some p \<Longrightarrow> tiny_bytes33 p = b"
  by (auto simp: tiny_from_bytes33_def tiny_bytes33_def split: list.splits if_splits)

lemma tiny_bytes33_nonzero: "tiny_bytes33 p \<noteq> replicate 33 0"
proof
  assume "tiny_bytes33 p = replicate 33 0"
  then have "last (tiny_bytes33 p) = last (replicate 33 0)" by simp
  then show False by (simp add: tiny_bytes33_def)
qed

lemma tiny_bytes33_length: "length (tiny_bytes33 p) = 33"
  by (simp add: tiny_bytes33_def)

interpretation tinyh: halo2_total tiny_halo2
proof
  show "of_nat (from_le (h2_to_repr tiny_halo2 x)) = x" for x
    by (simp add: tiny_halo2_def tiny_fr_value flip: reduce_of_nat)
  show "\<exists>x. p = h2_mul tiny_halo2 (h2_generator tiny_halo2) x" for p
    by (simp add: tiny_halo2_def)
  show "h2_to_bytes tiny_halo2 p \<noteq> replicate 33 0" for p
    using tiny_bytes33_nonzero by (simp add: tiny_halo2_def)
qed (simp_all add: tiny_halo2_def algebra_simps reduce_of_nat tiny_fr_decode tiny_fr_canonical tiny_bytes33_decode tiny_bytes33_canonical
    tiny_fr_length tiny_hash_def tiny_bytes33_length del: replicate.simps)

section \<open>Properties\<close>

text \<open>
  C39. What the \<open>halo2curves\<close> adapters make of any implementation of the crate's documented operations: the golden
  group is a group of prime order whose hash is never the identity; multiplying the generator with the four-bit table
  is ordinary multiplication; the multi-scalar multiplication, with its two-point window table, its filter of
  identity points and \<open>msm_best\<close>, and the one over decoded points are the sum of the multiples for all points, the
  identity included; batch inversion inverts nonzero entries. The contract of a cycle holds exactly
  when \<open>msm_best\<close> is right for bases that include the identity too, since \<open>vartime_msm_affine\<close> does not filter its
  bases; without that it is right for bases other than the identity.
\<close>

theorem halo2_backend_lawful:
  assumes "halo2_crate H"
  shows "hash_group (halo2_golden_group H)
    \<and> (\<forall>domain scalar. secp_mul_generator (halo2_cycle H domain) scalar = mul_generator (halo2_golden_group H) scalar)
    \<and> (\<forall>xs ps. length xs = length ps \<longrightarrow>
        halo2_msm H xs ps = (\<Sum>(x, p)\<leftarrow>zip xs ps. group_mul (halo2_golden_group H) p x)
        \<and> halo2_msm_optional H xs (map Some ps) = Some (\<Sum>(x, p)\<leftarrow>zip xs ps. group_mul (halo2_golden_group H) p x))
    \<and> (\<forall>xs. 0 \<notin> set xs \<longrightarrow> fst (halo2_batch_invert xs) = map inverse (xs :: 's::field list))
    \<and> (\<forall>domain. cycle_laws (halo2_cycle H domain) \<longleftrightarrow> (\<forall>xs as. length xs = length as \<longrightarrow>
        vartime_msm_affine (halo2_cycle H domain) xs as = (\<Sum>(x, a)\<leftarrow>zip xs as. group_mul (halo2_golden_group H) (h2_to_curve H a) x)))
    \<and> (\<forall>domain xs as. length xs = length as \<and> 0 \<notin> h2_to_curve H ` set as \<longrightarrow>
        vartime_msm_affine (halo2_cycle H domain) xs as = (\<Sum>(x, a)\<leftarrow>zip xs as. group_mul (halo2_golden_group H) (h2_to_curve H a) x))"
proof -
  have group: "mul_generator (halo2_golden_group H) scalar = h2_mul H (h2_generator H) scalar"
    "group_mul (halo2_golden_group H) p x = h2_mul H p x" for scalar p x
    by (simp_all add: mul_generator_def halo2_golden_group_def)
  have affine: "vartime_msm_affine (halo2_cycle H domain) = h2_msm_best H" for domain
    by (simp add: halo2_cycle_def)
  show ?thesis
    unfolding group affine halo2_crate.halo2_cycle_laws_iff[OF assms]
    using halo2_crate.secp_mul_generator_eq[OF assms] halo2_crate.halo2_msm_eq[OF assms] halo2_crate.halo2_hash_group[OF assms]
      halo2_crate.halo2_optional_eq[OF assms] halo2_crate.h2_msm[OF assms]
    by (simp add: halo2_batch_invert_eq montgomery_batch_invert_eq)
qed

lemma halo2_backend_lawful_witness:
  "halo2_msm tiny_halo2 [2, 3] [5, 7] = 31 \<and> halo2_msm tiny_halo2 [2, 3, 4] [5, 0, 7] = 38 \<and> cycle_laws (halo2_cycle tiny_halo2 secp256k1_domain)"
proof -
  note lawful = halo2_backend_lawful[OF tinyh.halo2_crate_axioms]
  have "halo2_msm tiny_halo2 xs ps = (\<Sum>(x, p)\<leftarrow>zip xs ps. group_mul (halo2_golden_group tiny_halo2) p x)" if "length xs = length ps" for xs ps
    using lawful that by blast
  moreover have "vartime_msm_affine (halo2_cycle tiny_halo2 domain) xs as
      = (\<Sum>(x, a)\<leftarrow>zip xs as. group_mul (halo2_golden_group tiny_halo2) (h2_to_curve tiny_halo2 a) x)" for domain xs as
    by (simp add: halo2_cycle_def halo2_golden_group_def tiny_halo2_def)
  then have "cycle_laws (halo2_cycle tiny_halo2 secp256k1_domain)" using lawful by blast
  ultimately show ?thesis by (simp add: halo2_golden_group_def tiny_halo2_def)
qed

text \<open>
  C40. The decoder of Secp256k1 group elements is canonical but for the identity: it accepts exactly the encoding
  of a point other than the identity, and two encodings of the identity, the zero bytes that the encoder writes
  and the native bytes of the crate.
\<close>

theorem halo2_decode_element_iff:
  assumes "halo2_crate H"
  shows "decode_element (halo2_golden_group H) (encode_element (halo2_golden_group H) p) = Inr p
    \<and> (decode_element (halo2_golden_group H) b = Inr p \<longleftrightarrow>
        (if p = 0 then b = replicate 33 0 \<or> b = h2_to_bytes H 0 else b = encode_element (halo2_golden_group H) p))
    \<and> h2_to_bytes H 0 \<noteq> replicate 33 0"
  using halo2_crate.halo2_element_codec(2,3)[OF assms] halo2_crate.h2_bytes_nonzero[OF assms] by blast

lemma halo2_decode_element_iff_witness:
  "decode_element (halo2_golden_group tiny_halo2) (replicate 33 0) = Inr 0
    \<and> decode_element (halo2_golden_group tiny_halo2) (0 # replicate 31 0 @ [1]) = Inr 0"
  using halo2_decode_element_iff[OF tinyh.halo2_crate_axioms, of 0 "replicate 33 0"]
    halo2_decode_element_iff[OF tinyh.halo2_crate_axioms, of 0 "0 # replicate 31 0 @ [1]"]
  by (simp add: tiny_halo2_def tiny_bytes33_def tiny_eval del: replicate.simps)

end
