(* ===== verification/Evrf_Statement_Laws.thy ===== *)
theory Evrf_Statement_Laws
  imports Evrf_Statement Halo2_Laws
begin

text \<open>
  The public checks of the paper eVRF backend. The adapter of a cycle with canonical encodings is a stream curve;
  double-and-add is multiplication and the Horner loop the value of the committed polynomial; the checks of a
  statement accept exactly its relations, and the batched Feldman check is one weighted sum of the receivers'
  residuals. The locales \<open>stream_cycle\<close> and \<open>gin_curve\<close> state the contracts, and the adapters over \<open>halo2curves\<close> keep them.
\<close>

section \<open>The adapter keeps the contract of a stream curve\<close>

locale stream_cycle = cycle_laws C + codec: cycle_codec C valid_compressed
  for C :: "('s::field, 'p::ab_group_add, 'a, 'c, 'z) cycle_scheme" and valid_compressed :: "'c \<Rightarrow> bool" +
  assumes compress_valid: "valid_compressed (point_compress C p)"
begin

lemma cycle_stream_curve: "stream_curve (cycle_curve C)"
proof (unfold_locales)
  note encoded = codec.as_bytes_length[OF compress_valid] codec.from_as_bytes[OF compress_valid]
  show "length (encode_point (cycle_curve C) p) = point_bytes (cycle_curve C)" for p
    by (simp add: cycle_curve_def encoded)
  show "decode_canonical_point (cycle_curve C) (encode_point (cycle_curve C) p) = Inr p" for p
    by (simp add: cycle_curve_def cycle_decode_point_def encoded decompress_compress)
  show "encode_point (cycle_curve C) p = bs" if "decode_canonical_point (cycle_curve C) bs = Inr p" for p bs
    using that by (auto simp: cycle_curve_def cycle_decode_point_def Let_def split: if_splits)
  show "length (encode_scalar (cycle_curve C) s) = scalar_bytes (cycle_curve C)" for s
    by (simp add: cycle_curve_def codec.canonical_length)
  show "decode_scalar (cycle_curve C) (encode_scalar (cycle_curve C) s) = Inr s" for s
    by (simp add: cycle_curve_def cycle_decode_scalar_def codec.canonical_length codec.canonical_decode)
  show "encode_scalar (cycle_curve C) s = bs" if "decode_scalar (cycle_curve C) bs = Inr s" for s bs
    using that by (auto simp: cycle_curve_def cycle_decode_scalar_def split: if_splits)
qed

lemma curve_identity: "point_is_identity (cycle_curve C) p \<longleftrightarrow> p = 0"
  by (simp add: cycle_curve_def is_identity_compress)

lemma allowed_reject: "allowed (cycle_curve C) Reject p \<longleftrightarrow> p \<noteq> 0"
  by (simp add: allowed_def curve_identity)

end

lemma allowed_allow [simp]: "allowed C Allow p"
  by (simp add: allowed_def)

sublocale stream_cycle \<subseteq> stream: stream_curve "cycle_curve C"
  by (rule cycle_stream_curve)

sublocale halo2_total \<subseteq> halo2_stream: stream_cycle "halo2_cycle H domain" "\<lambda>c. length c = 33"
  by unfold_locales (simp_all add: halo2_cycle_def h2_bytes_length h2_repr_length h2_repr_decode h2_repr_canonical)

text \<open>The curve \<open>G_in\<close>: the integer of the canonical bytes of a scalar is the scalar.\<close>

locale gin_curve = stream_cycle E valid_compressed
  for E :: "('q::field, 'p::ab_group_add, 'a, 'c, 's, 'z) evrf_curve_scheme" and valid_compressed :: "'c \<Rightarrow> bool" +
  assumes canonical_value: "of_nat (from_le (scalar_to_canonical E x)) = x"
begin

lemma mul_generator_value: "secp_mul_generator E x = point_mul E (group_generator E) x"
  by (simp add: secp_mul_generator_bytes codec.canonical_length times_nat_pmul canonical_value)

lemma mul_generator_linear:
  "secp_mul_generator E (x + y) = secp_mul_generator E x + secp_mul_generator E y"
  "secp_mul_generator E (x - y) = secp_mul_generator E x - secp_mul_generator E y"
  "secp_mul_generator E (x * y) = point_mul E (secp_mul_generator E x) y"
  by (simp_all add: mul_generator_value pmul_add pmul_diff pmul_mult)

lemma pmul_cancel: "point_mul E p w = 0 \<longleftrightarrow> p = 0 \<or> w = 0"
proof
  assume "point_mul E p w = 0"
  then have "point_mul E p (w * inverse w) = 0" by (simp add: pmul_mult[symmetric])
  then show "p = 0 \<or> w = 0" by (cases "w = 0") (auto simp: pmul_one)
qed auto

end

sublocale halo2_total \<subseteq> halo2_gin: gin_curve "halo2_evrf_curve H domain" "\<lambda>c. length c = 33"
proof -
  note fields = halo2_evrf_curve_def halo2_cycle_def cycle.defs
  have "cycle_laws (halo2_evrf_curve H domain)"
    using halo2_cyc.cycle_laws_axioms by (simp add: fields cycle_laws_def)
  moreover have "cycle_codec (halo2_evrf_curve H domain) (\<lambda>c. length c = 33)"
    using halo2_stream.codec.cycle_codec_axioms by (simp add: fields cycle_codec_def)
  ultimately show "gin_curve (halo2_evrf_curve H domain) (\<lambda>c. length c = 33)"
    by (simp add: gin_curve_def stream_cycle_def gin_curve_axioms_def stream_cycle_axioms_def fields h2_bytes_length h2_repr_value)
qed

section \<open>Small multiples and the committed polynomial\<close>

lemma mul_by_small_scalar_eq: "gin_mul_by_small_scalar p w = times_nat (unat w) p"
proof -
  have "gin_mul_by_small_scalar p w = mul_by_small_scalar p w"
    by (simp add: gin_mul_by_small_scalar_def mul_by_small_scalar_def)
  moreover have "((+) p ^^ n) 0 = times_nat n p" for n
    by (induction n) simp_all
  ultimately show ?thesis by (simp add: double_and_add)
qed

text \<open>The committed polynomial at an index, in the exponent.\<close>

definition feldman_value ::
  "('q::field, 'p::ab_group_add, 'a, 'c, 's, 'z) evrf_curve_scheme \<Rightarrow> 'p list \<Rightarrow> participant_index \<Rightarrow> 'p" where
  "feldman_value E cs receiver = (\<Sum>k<length cs. point_mul E (cs ! k) (index_scalar receiver ^ k))"

definition residual ::
  "('q::field, 'p::ab_group_add, 'a, 'c, 's, 'z) evrf_curve_scheme \<Rightarrow> 'p list \<Rightarrow> ('q, 'p) batched_receiver \<Rightarrow> 'p" where
  "residual E cs rec = br_share_commitment rec - feldman_value E cs (br_receiver rec)"

context gin_curve
begin

lemma feldman_value_Nil: "feldman_value E [] receiver = 0"
  by (simp add: feldman_value_def)

lemma feldman_value_Cons:
  "feldman_value E (c # cs) receiver = c + point_mul E (feldman_value E cs receiver) (index_scalar receiver)"
proof -
  have "(\<Sum>k<length (c # cs). point_mul E ((c # cs) ! k) (x ^ k))
      = c + (\<Sum>k<length cs. point_mul E (cs ! k) (x ^ k * x))" for x
    by (simp add: sum.lessThan_Suc_shift pmul_one mult.commute del: sum.lessThan_Suc)
  then show ?thesis by (simp add: feldman_value_def pmul_sum pmul_mult)
qed

lemma feldman_share_commitment_eq: "feldman_share_commitment cs receiver = feldman_value E cs receiver"
proof (induction cs)
  case (Cons c cs)
  then show ?case
    by (simp add: feldman_share_commitment_def feldman_value_Cons mul_by_small_scalar_eq times_nat_pmul index_scalar_def add.commute)
qed (simp add: feldman_share_commitment_def feldman_value_Nil)

lemma feldman_value_committed:
  "feldman_value E (map (secp_mul_generator E) as) receiver = secp_mul_generator E (horner as (index_scalar receiver))"
  by (induction as) (simp_all add: feldman_value_Nil feldman_value_Cons mul_generator_value pmul_add pmul_mult add.commute)

end

section \<open>What the checks accept\<close>

definition shape_ok :: "('q, 'p, 's) batched_statement \<Rightarrow> bool" where
  "shape_ok statement \<longleftrightarrow> bs_receivers statement \<noteq> [] \<and> bs_threshold statement \<le> length (bs_receivers statement) + 1
     \<and> bs_commitment_coefficients statement \<noteq> [] \<and> length (bs_commitment_coefficients statement) = bs_threshold statement
     \<and> length (bs_statement_roots statement) = length (bs_receivers statement)
     \<and> sorted_wrt (<) (map br_receiver (bs_receivers statement))"

lemma windows_sorted:
  "\<not> list_ex (\<lambda>(a, b). (f b :: 'x::linorder) \<le> f a) (zip xs (tl xs)) \<longleftrightarrow> sorted_wrt (<) (map f xs)"
proof (induction xs)
  case (Cons x xs)
  then show ?case by (cases xs) (auto simp: not_le intro: less_trans)
qed simp

lemma validate_shape_iff: "validate_batched_statement_shape statement = Inr () \<longleftrightarrow> shape_ok statement"
  unfolding validate_batched_statement_shape_def shape_ok_def using windows_sorted[of br_receiver "bs_receivers statement"]
  by (auto split: if_splits)

lemma validate_shape_cases:
  "validate_batched_statement_shape statement = (if shape_ok statement then Inr () else Inl ProofVerificationFailed)"
proof (cases "shape_ok statement")
  case False
  then have "validate_batched_statement_shape statement \<noteq> Inr ()" by (simp add: validate_shape_iff)
  then show ?thesis using False by (auto simp: validate_batched_statement_shape_def split: if_splits)
qed (simp add: validate_shape_iff)

text \<open>The relations of one receiver, without and with the exact Feldman check.\<close>

definition receiver_relations ::
  "('q::field, 'p::ab_group_add, 'a, 'c, 's, 'z) evrf_curve_scheme \<Rightarrow> ('q, 'p) batched_receiver \<Rightarrow> bool" where
  "receiver_relations E rec \<longleftrightarrow> br_pkj rec \<noteq> 0 \<and> br_pad_commitment rec \<noteq> 0
     \<and> point_mul E (group_generator E) (br_encrypted_share rec) = br_share_commitment rec + br_pad_commitment rec"

definition public_relations ::
  "('q::field, 'p::ab_group_add, 'a, 'c, 's, 'z) evrf_curve_scheme \<Rightarrow> ('q, 'p, 's) batched_statement \<Rightarrow> bool" where
  "public_relations E statement \<longleftrightarrow> shape_ok statement \<and> bs_pk1 statement \<noteq> 0
     \<and> (\<forall>rec \<in> set (bs_receivers statement). receiver_relations E rec
          \<and> br_share_commitment rec = feldman_value E (bs_commitment_coefficients statement) (br_receiver rec))"

section \<open>The batched Feldman check\<close>

lemma subtract_powers_length [simp]: "length (subtract_powers x ws w) = length ws"
  by (induction ws arbitrary: w) auto

lemma subtract_powers_nth: "k < length ws \<Longrightarrow> subtract_powers x ws w ! k = ws ! k - w * x ^ k"
proof (induction ws arbitrary: w k)
  case (Cons v ws)
  then show ?case by (cases k) (simp_all add: mult_ac)
qed simp

text \<open>The accumulated weights of the coefficients, by index.\<close>

definition coefficient_weights :: "('q::field \<times> 'q) list \<Rightarrow> nat \<Rightarrow> 'q list" where
  "coefficient_weights xws n = map (\<lambda>k. - (\<Sum>(x, w)\<leftarrow>xws. w * x ^ k)) [0..<n]"

lemma fold_subtract_powers:
  "fold (\<lambda>(x, w) ws. subtract_powers x ws w) xws (replicate n 0) = coefficient_weights xws n"
proof -
  have "length (fold (\<lambda>(x, w) ws. subtract_powers x ws w) xws ws) = length ws
      \<and> (\<forall>k < length ws. fold (\<lambda>(x, w) ws. subtract_powers x ws w) xws ws ! k = ws ! k - (\<Sum>(x, w)\<leftarrow>xws. w * x ^ k))" for ws
    by (induction xws arbitrary: ws) (auto simp: subtract_powers_nth)
  from this[of "replicate n 0"] show ?thesis by (intro nth_equalityI) (simp_all add: coefficient_weights_def)
qed

context gin_curve
begin

lemma pmul_diff_point: "point_mul E (p - q) x = point_mul E p x - point_mul E q x"
  using pmul_add_point[of "p - q" q x] by simp

lemma coefficient_weights_sum:
  "(\<Sum>(w, c)\<leftarrow>zip (coefficient_weights xws (length cs)) cs. point_mul E c w)
    = - (\<Sum>(x, w)\<leftarrow>xws. point_mul E (\<Sum>k<length cs. point_mul E (cs ! k) (x ^ k)) w)"
proof -
  have "(\<Sum>(w, c)\<leftarrow>zip (coefficient_weights xws (length cs)) cs. point_mul E c w)
      = (\<Sum>k<length cs. point_mul E (cs ! k) (- (\<Sum>(x, w)\<leftarrow>xws. w * x ^ k)))"
    by (simp add: sum_list_sum_nth coefficient_weights_def atLeast0LessThan)
  also have "\<dots> = - (\<Sum>(x, w)\<leftarrow>xws. \<Sum>k<length cs. point_mul E (cs ! k) (w * x ^ k))"
    by (induction xws) (auto simp: pmul_minus pmul_add pmul_diff sum_negf sum.distrib sum_subtractf)
  finally show ?thesis by (simp add: pmul_sum pmul_mult mult.commute)
qed

lemma batched_msm:
  fixes recs :: "('q, 'p) batched_receiver list"
  assumes "length ws = length recs"
  defines "xws \<equiv> map (\<lambda>(rec, w). (index_scalar (br_receiver rec), w)) (zip recs ws)"
  shows "vartime_msm E (ws @ coefficient_weights xws (length cs)) (map br_share_commitment recs @ cs)
    = (\<Sum>(rec, w)\<leftarrow>zip recs ws. point_mul E (residual E cs rec) w)"
proof -
  have len: "length (coefficient_weights xws n) = n" for n by (simp add: coefficient_weights_def)
  have "(\<Sum>(w, c)\<leftarrow>zip ws (map br_share_commitment recs). point_mul E c w)
      = (\<Sum>(rec, w)\<leftarrow>zip recs ws. point_mul E (br_share_commitment rec) w)"
    using assms(1) by (induction ws recs rule: list_induct2) auto
  moreover have "(\<Sum>(x, w)\<leftarrow>xws. point_mul E (\<Sum>k<length cs. point_mul E (cs ! k) (x ^ k)) w)
      = (\<Sum>(rec, w)\<leftarrow>zip recs ws. point_mul E (feldman_value E cs (br_receiver rec)) w)"
    by (simp add: xws_def feldman_value_def comp_def case_prod_unfold)
  moreover have "(\<Sum>(rec, w)\<leftarrow>zs. point_mul E (residual E cs rec) w)
      = (\<Sum>(rec, w)\<leftarrow>zs. point_mul E (br_share_commitment rec) w)
        - (\<Sum>(rec, w)\<leftarrow>zs. point_mul E (feldman_value E cs (br_receiver rec)) w)" for zs :: "(('q, 'p) batched_receiver \<times> 'q) list"
    by (induction zs) (auto simp: residual_def pmul_diff_point)
  ultimately show ?thesis
    using assms(1) by (simp add: msm len coefficient_weights_sum)
qed

end

section \<open>The weights\<close>

lemma feldman_weight_nonzero: "feldman_weight M E t = Some (w, t') \<Longrightarrow> w \<noteq> 0"
proof -
  assume "feldman_weight M E t = Some (w, t')"
  then have "fst (w, t') \<noteq> 0"
    by (rule feldman_weight.raw_induct[where P = "\<lambda>M E t y. fst y \<noteq> 0", rotated]) (auto simp: Let_def split: prod.splits if_splits)
  then show ?thesis by simp
qed

lemma feldman_weights_loop_Some:
  "feldman_weights_loop M E is ws t = Some ws' \<Longrightarrow> \<exists>vs. ws' = ws @ vs \<and> length vs = length is \<and> 0 \<notin> set vs"
proof (induction "is" arbitrary: ws t)
  case (Cons i "is")
  then obtain w t' where w: "feldman_weight M E (append_u64 M (ascii ''receiver-weight-index'') i t) = Some (w, t')"
    and rest: "feldman_weights_loop M E is (ws @ [w]) t' = Some ws'"
    by (auto simp: Let_def Option.bind_eq_Some_conv)
  from Cons.IH[OF rest] feldman_weight_nonzero[OF w] show ?case by auto
qed auto

lemma weights_from_transcript:
  assumes "feldman_batch_weights_from_transcript M E statement t = Some (Inr ws)"
  shows "shape_ok statement" and "length ws = length (bs_receivers statement)" and "0 \<notin> set ws"
  using assms feldman_weights_loop_Some[of M E "[0..<length (bs_receivers statement)]" "[]" _ ws]
  by (auto simp: feldman_batch_weights_from_transcript_def validate_shape_cases Option.bind_eq_Some_conv split: if_splits)

context gin_curve
begin

text \<open>The batched check is the weighted sum of the residuals.\<close>

lemma feldman_batch_matches_sum:
  assumes "feldman_batch_matches M E statement t = Some (Inr b)"
  shows "\<exists>ws. length ws = length (bs_receivers statement) \<and> 0 \<notin> set ws
    \<and> feldman_batch_weights_from_transcript M E statement t = Some (Inr ws)
    \<and> (b \<longleftrightarrow> (\<Sum>(rec, w)\<leftarrow>zip (bs_receivers statement) ws.
                point_mul E (residual E (bs_commitment_coefficients statement) rec) w) = 0)"
proof -
  let ?recs = "bs_receivers statement" and ?cs = "bs_commitment_coefficients statement"
  obtain ws where ws: "feldman_batch_weights_from_transcript M E statement t = Some (Inr ws)"
    using assms by (auto simp: feldman_batch_matches_def elim: obind_InrE)
  note len = weights_from_transcript(2,3)[OF ws]
  have "fold (\<lambda>(rec, weight) cws. subtract_powers (of_nat (unat (index_get (br_receiver rec)))) cws weight) (zip ?recs ws) init
      = fold (\<lambda>(x, w) cws. subtract_powers x cws w)
          (map (\<lambda>(rec, w). (index_scalar (br_receiver rec), w)) (zip ?recs ws)) init" for init
    by (simp add: fold_map comp_def case_prod_unfold index_scalar_def)
  then have "b \<longleftrightarrow> vartime_msm E (ws @ coefficient_weights (map (\<lambda>(rec, w). (index_scalar (br_receiver rec), w)) (zip ?recs ws)) (length ?cs))
        (map br_share_commitment ?recs @ ?cs) = 0"
    using assms by (simp add: feldman_batch_matches_def ws Let_def fold_subtract_powers is_identity_def)
  then show ?thesis unfolding batched_msm[OF len(1)] using len ws by blast
qed

text \<open>Good shares always pass, and a single bad one never does.\<close>

lemma feldman_batch_exact:
  assumes "feldman_batch_matches M E statement t = Some (Inr b)"
  shows "(\<forall>rec \<in> set (bs_receivers statement). residual E (bs_commitment_coefficients statement) rec = 0) \<Longrightarrow> b"
    and "\<lbrakk>i < length (bs_receivers statement); residual E (bs_commitment_coefficients statement) (bs_receivers statement ! i) \<noteq> 0;
        \<forall>j < length (bs_receivers statement). j \<noteq> i \<longrightarrow>
          residual E (bs_commitment_coefficients statement) (bs_receivers statement ! j) = 0\<rbrakk> \<Longrightarrow> \<not> b"
proof -
  let ?recs = "bs_receivers statement" and ?res = "residual E (bs_commitment_coefficients statement)"
  obtain ws where ws: "length ws = length ?recs" "0 \<notin> set ws"
    "b \<longleftrightarrow> (\<Sum>(rec, w)\<leftarrow>zip ?recs ws. point_mul E (?res rec) w) = 0"
    using feldman_batch_matches_sum[OF assms] by blast
  have total: "(\<Sum>(rec, w)\<leftarrow>zip ?recs ws. point_mul E (?res rec) w) = (\<Sum>j<length ?recs. point_mul E (?res (?recs ! j)) (ws ! j))"
    using ws(1) by (simp add: sum_list_sum_nth atLeast0LessThan)
  show b if "\<forall>rec \<in> set ?recs. ?res rec = 0"
    unfolding ws(3) total using that by simp
  show "\<not> b" if "i < length ?recs" "?res (?recs ! i) \<noteq> 0" "\<forall>j < length ?recs. j \<noteq> i \<longrightarrow> ?res (?recs ! j) = 0"
  proof -
    have "(\<Sum>j<length ?recs. point_mul E (?res (?recs ! j)) (ws ! j)) = point_mul E (?res (?recs ! i)) (ws ! i)"
      using that(1,3) by (subst sum.remove[of _ i]) auto
    moreover have "ws ! i \<noteq> 0" using ws(1,2) that(1) nth_mem[of i ws] by metis
    ultimately show ?thesis unfolding ws(3) total using that(2) by (simp add: pmul_cancel)
  qed
qed

section \<open>The public checks\<close>

lemma receivers_loop:
  "rfold (\<lambda>_ rec. if is_identity (br_pkj rec) \<or> is_identity (br_pad_commitment rec) then Inl ProofVerificationFailed
         else if st = None \<and> feldman_share_commitment cs (br_receiver rec) \<noteq> br_share_commitment rec
         then Inl ProofVerificationFailed
         else if secp_mul_generator E (br_encrypted_share rec) \<noteq> br_share_commitment rec + br_pad_commitment rec
         then Inl ProofVerificationFailed else Inr ()) () recs
   = (if \<forall>rec \<in> set recs. receiver_relations E rec \<and> (st = None \<longrightarrow> br_share_commitment rec = feldman_value E cs (br_receiver rec))
      then Inr () else Inl ProofVerificationFailed)"
  by (induction recs)
    (auto simp: receiver_relations_def is_identity_def feldman_share_commitment_eq mul_generator_value split: if_splits)

lemma validate_impl_None:
  "validate_batched_public_relations_impl M E statement None
    = Some (if public_relations E statement then Inr () else Inl ProofVerificationFailed)"
  unfolding validate_batched_public_relations_impl_def validate_shape_cases receivers_loop
  by (auto simp: public_relations_def is_identity_def)

lemma validate_impl_Some:
  "validate_batched_public_relations_impl M E statement (Some t) = Some (Inr ()) \<longleftrightarrow>
    shape_ok statement \<and> bs_pk1 statement \<noteq> 0 \<and> (\<forall>rec \<in> set (bs_receivers statement). receiver_relations E rec)
    \<and> feldman_batch_matches M E statement t = Some (Inr True)"
  unfolding validate_batched_public_relations_impl_def validate_shape_cases receivers_loop
  by (auto simp: is_identity_def obind_eq_Inr split: if_splits)

end

end
