(* ===== verification/Evrf_Sigma.thy ===== *)
theory Evrf_Sigma
  imports Evrf_Statement_Laws Prototype_Laws
begin

text \<open>
  The proofs of knowledge beside the circuit in \<open>golden-evrf/src/paper.rs\<close>, module \<open>secp_secq\<close>: equality of discrete
  logarithms (Chaum-Pedersen), the opening of the constant Feldman coefficient and of the eVRF output, all on
  one proof stream, with the link between the output and its commitment in the R1CS proof. Each verifier accepts
  exactly the canonical bytes of a response to its challenge (\<open>sigma_accepts\<close>), an honest prover is accepted, and
  two responses to different challenges open the statement.
\<close>

section \<open>The protocols\<close>

text \<open>\<open>random_scalar\<close> of the two scalar fields.\<close>

record ('q, 's, 'g) evrf_rng =
  random_gin_scalar :: "'g \<Rightarrow> 'q \<times> 'g"
  random_gout_scalar :: "'g \<Rightarrow> 's \<times> 'g"

partial_function (option) nonzero_scalar :: "('g \<Rightarrow> 's::field \<times> 'g) \<Rightarrow> 'g \<Rightarrow> ('s \<times> 'g) option" where
  "nonzero_scalar random g =
     (let (scalar, g) = random g in if scalar \<noteq> 0 then Some (scalar, g) else nonzero_scalar random g)"

definition stream_challenge_scalar ::
  "'t merlin \<Rightarrow> ('x, 't) observe \<Rightarrow> ('s, 'p, 'a, 'c, 'z) cycle_scheme \<Rightarrow> bytes \<Rightarrow> 'x \<Rightarrow> 's \<times> 'x" where
  "stream_challenge_scalar M Ob C label stream =
     (let (bs, stream) = observe_challenge M Ob label 64 stream in (scalar_from_wide C bs, stream))"

definition chaum_pedersen_prove ::
  "'t merlin \<Rightarrow> ('q::field, 'p, 'a, 'c, 'z) cycle_scheme \<Rightarrow> ('g \<Rightarrow> 'q \<times> 'g) \<Rightarrow> 'p \<Rightarrow> 'p \<Rightarrow> 'q
    \<Rightarrow> 't prover_stream \<Rightarrow> 'g \<Rightarrow> ('t prover_stream \<times> 'g) result option" where
  "chaum_pedersen_prove M E random g_in pk2 sk1 stream g =
     Option.bind (nonzero_scalar random g) (\<lambda>(nonce, g).
     let r1 = point_mul E g_in nonce; r2 = point_mul E pk2 nonce
     in oresult (send_point M (cycle_curve E) (ascii ''cp.r1'') r1 Reject stream) (\<lambda>stream.
        oresult (send_point M (cycle_curve E) (ascii ''cp.r2'') r2 Reject stream) (\<lambda>stream.
        let (challenge, stream) = stream_challenge_scalar M prover_observe E (ascii ''cp.challenge'') stream;
            response = nonce + challenge * sk1
        in oresult (send_scalar M (cycle_curve E) (ascii ''cp.z'') response stream) (\<lambda>stream. Some (Inr (stream, g))))))"

definition chaum_pedersen_verify ::
  "'t merlin \<Rightarrow> ('q::field, 'p::ab_group_add, 'a, 'c, 'z) cycle_scheme \<Rightarrow> 'p \<Rightarrow> 'p \<Rightarrow> 'p \<Rightarrow> 'p
    \<Rightarrow> 't verifier_stream \<Rightarrow> 't verifier_stream result" where
  "chaum_pedersen_verify M E g_in pk1 pk2 s stream =
     rbind (receive_point M (cycle_curve E) (ascii ''cp.r1'') Reject stream) (\<lambda>(r1, stream).
     rbind (receive_point M (cycle_curve E) (ascii ''cp.r2'') Reject stream) (\<lambda>(r2, stream).
     let (challenge, stream) = stream_challenge_scalar M verifier_observe E (ascii ''cp.challenge'') stream
     in rbind (receive_scalar M (cycle_curve E) (ascii ''cp.z'') stream) (\<lambda>(response, stream).
        let first_equation_holds = (point_mul E g_in response = r1 + point_mul E pk1 challenge);
            second_equation_holds = (point_mul E pk2 response = r2 + point_mul E s challenge)
        in if \<not> first_equation_holds \<or> \<not> second_equation_holds then Inl ProofVerificationFailed else Inr stream)))"

definition constant_term_prove ::
  "'t merlin \<Rightarrow> ('q::field, 'p::ab_group_add, 'a, 'c, 'z) cycle_scheme \<Rightarrow> ('g \<Rightarrow> 'q \<times> 'g) \<Rightarrow> 'p \<Rightarrow> 'q
    \<Rightarrow> 't prover_stream \<Rightarrow> 'g \<Rightarrow> ('t prover_stream \<times> 'g) result option" where
  "constant_term_prove M E random constant_commitment polynomial_constant stream g =
     (if secp_mul_generator E polynomial_constant \<noteq> constant_commitment then Some (Inl ProofVerificationFailed)
      else Option.bind (nonzero_scalar random g) (\<lambda>(nonce, g).
      let nonce_commitment = secp_mul_generator E nonce
      in oresult (send_point M (cycle_curve E) (ascii ''constant-term.a'') nonce_commitment Reject stream) (\<lambda>stream.
         let (challenge, stream) = stream_challenge_scalar M prover_observe E (ascii ''constant-term.challenge'') stream;
             response = nonce + challenge * polynomial_constant
         in oresult (send_scalar M (cycle_curve E) (ascii ''constant-term.t'') response stream) (\<lambda>stream. Some (Inr (stream, g))))))"

definition constant_term_verify ::
  "'t merlin \<Rightarrow> ('q::field, 'p::ab_group_add, 'a, 'c, 'z) cycle_scheme \<Rightarrow> 'p
    \<Rightarrow> 't verifier_stream \<Rightarrow> 't verifier_stream result" where
  "constant_term_verify M E constant_commitment stream =
     rbind (receive_point M (cycle_curve E) (ascii ''constant-term.a'') Reject stream) (\<lambda>(nonce_commitment, stream).
     let (challenge, stream) = stream_challenge_scalar M verifier_observe E (ascii ''constant-term.challenge'') stream
     in rbind (receive_scalar M (cycle_curve E) (ascii ''constant-term.t'') stream) (\<lambda>(response, stream).
        if secp_mul_generator E response \<noteq> nonce_commitment + point_mul E constant_commitment challenge
        then Inl ProofVerificationFailed else Inr stream))"

definition dlog_prove ::
  "'t merlin \<Rightarrow> ('s::field, 'o, 'b, 'd, 'w) cycle_scheme \<Rightarrow> ('g \<Rightarrow> 's \<times> 'g) \<Rightarrow> 'o \<Rightarrow> 's
    \<Rightarrow> 't prover_stream \<Rightarrow> 'g \<Rightarrow> ('t prover_stream \<times> 'g) result option" where
  "dlog_prove M D random g_out r stream g =
     Option.bind (nonzero_scalar random g) (\<lambda>(nonce, g).
     let a = point_mul D g_out nonce
     in oresult (send_point M (cycle_curve D) (ascii ''dlog.a'') a Reject stream) (\<lambda>stream.
        let (challenge, stream) = stream_challenge_scalar M prover_observe D (ascii ''dlog.challenge'') stream;
            response = nonce + challenge * r
        in oresult (send_scalar M (cycle_curve D) (ascii ''dlog.t'') response stream) (\<lambda>stream. Some (Inr (stream, g)))))"

definition dlog_verify ::
  "'t merlin \<Rightarrow> ('s::field, 'o::ab_group_add, 'b, 'd, 'w) cycle_scheme \<Rightarrow> 'o \<Rightarrow> 'o
    \<Rightarrow> 't verifier_stream \<Rightarrow> 't verifier_stream result" where
  "dlog_verify M D g_out r_point stream =
     rbind (receive_point M (cycle_curve D) (ascii ''dlog.a'') Reject stream) (\<lambda>(a, stream).
     let (challenge, stream) = stream_challenge_scalar M verifier_observe D (ascii ''dlog.challenge'') stream
     in rbind (receive_scalar M (cycle_curve D) (ascii ''dlog.t'') stream) (\<lambda>(response, stream).
        if point_mul D g_out response \<noteq> a + point_mul D r_point challenge then Inl ProofVerificationFailed
        else Inr stream))"

definition pedersen_prefix_link ::
  "('s, 'o::ab_group_add, 'b, 'd, 'w) cycle_scheme \<Rightarrow> 'o \<Rightarrow> 'o \<Rightarrow> 'd \<Rightarrow> unit result" where
  "pedersen_prefix_link D g_out_blinding r_point v_r =
     (let expected = r_point + g_out_blinding; expected_compressed = point_compress D expected
      in if compressed_as_bytes D expected_compressed \<noteq> compressed_as_bytes D v_r then Inl ProofVerificationFailed
         else Inr ())"

definition parse_canonical_r1cs_proof ::
  "('s, 'o, 'b, 'd, 'w) cycle_scheme \<Rightarrow> bytes \<Rightarrow> ('s, 'd) r1cs_proof result" where
  "parse_canonical_r1cs_proof D bs =
     rbind (map_err (\<lambda>_. ProofVerificationFailed) (r1cs_from_bytes D bs)) (\<lambda>pf.
     if r1cs_to_bytes D pf \<noteq> bs then Inl ProofVerificationFailed else Inr pf)"

definition parse_nested_commitment ::
  "('s, 'o, 'b, 'd, 'w) cycle_scheme \<Rightarrow> bytes \<Rightarrow> usize \<Rightarrow> identity_policy \<Rightarrow> ('d \<times> usize) result" where
  "parse_nested_commitment D payload cursor identity =
     rbind (checked_usize (cursor + point_bytes (cycle_curve D))) (\<lambda>e.
     rbind (ok_or (slice_get payload cursor e) ProofVerificationFailed) (\<lambda>encoded.
     rbind (decode_point (cycle_curve D) encoded identity) (\<lambda>point.
     Inr (point_compress D point, e))))"

section \<open>The common form\<close>

text \<open>
  Nonce points with their labels, the equations as pairs of a base and a statement, and the response: each nonce
  is observed, then the challenge is drawn, then the response is observed.
\<close>

definition encoded_point :: "('s, 'p, 'a, 'c, 'z) cycle_scheme \<Rightarrow> 'p \<Rightarrow> bytes" where
  "encoded_point C p = compressed_as_bytes C (point_compress C p)"

definition sigma_challenge ::
  "'t merlin \<Rightarrow> ('s, 'p, 'a, 'c, 'z) cycle_scheme \<Rightarrow> (bytes \<times> 'p) list \<Rightarrow> bytes \<Rightarrow> 't \<Rightarrow> 's \<times> 't" where
  "sigma_challenge M C nonces label t =
     (let (bs, t) = challenge_bytes M label 64 (fold (\<lambda>(l, r). append_message M l (encoded_point C r)) nonces t)
      in (scalar_from_wide C bs, t))"

definition sigma_equations ::
  "('s::field, 'p::ab_group_add, 'a, 'c, 'z) cycle_scheme \<Rightarrow> ('p \<times> 'p) list \<Rightarrow> 'p list \<Rightarrow> 's \<Rightarrow> 's \<Rightarrow> bool" where
  "sigma_equations C statements nonces challenge resp \<longleftrightarrow>
     0 \<notin> set nonces \<and> list_all2 (\<lambda>(base, point) r. point_mul C base resp = r + point_mul C point challenge) statements nonces"

definition sigma_accepts ::
  "'t merlin \<Rightarrow> ('s::field, 'p::ab_group_add, 'a, 'c, 'z) cycle_scheme \<Rightarrow> ('p \<times> 'p) list \<Rightarrow> bytes list \<Rightarrow> bytes \<Rightarrow> bytes
    \<Rightarrow> 'p list \<Rightarrow> 's \<Rightarrow> 't \<Rightarrow> 't \<Rightarrow> bool" where
  "sigma_accepts M C statements labels challenge_label response_label nonces resp t t' \<longleftrightarrow>
     (let (challenge, t1) = sigma_challenge M C (zip labels nonces) challenge_label t
      in sigma_equations C statements nonces challenge resp
         \<and> t' = append_message M response_label (scalar_to_canonical C resp) t1)"

definition sigma_bytes :: "('s, 'p, 'a, 'c, 'z) cycle_scheme \<Rightarrow> 'p list \<Rightarrow> 's \<Rightarrow> bytes" where
  "sigma_bytes C nonces resp = concat (map (encoded_point C) nonces) @ scalar_to_canonical C resp"

lemma cycle_curve_fields [simp]:
  "encode_point (cycle_curve C) = encoded_point C" "encode_scalar (cycle_curve C) = scalar_to_canonical C"
  "point_bytes (cycle_curve C) = compressed_bytes C" "scalar_bytes (cycle_curve C) = 32"
  by (simp_all add: cycle_curve_def encoded_point_def fun_eq_iff)

context cycle_laws
begin

text \<open>Two responses to different challenges for the same nonces open all the statements with one exponent.\<close>

lemma sigma_extract:
  assumes "sigma_equations C statements nonces c z" "sigma_equations C statements nonces c' z'" "c \<noteq> c'"
  shows "\<forall>(base, point) \<in> set statements. point = point_mul C base ((z - z') / (c - c'))"
proof -
  have step: "point = point_mul C base ((z - z') / (c - c'))"
    if "point_mul C base z = r + point_mul C point c" "point_mul C base z' = r + point_mul C point c'" for base point r
  proof -
    have "point_mul C base (z - z') = point_mul C point (c - c')" using that by (simp add: pmul_diff)
    then have "point_mul C base ((z - z') / (c - c')) = point_mul C point ((c - c') * inverse (c - c'))"
      by (simp only: divide_inverse pmul_mult[symmetric])
    then show ?thesis using assms(3) by (simp add: pmul_one)
  qed
  have "list_all2 (\<lambda>(base, point) r. point_mul C base z = r + point_mul C point c) statements nonces"
    "list_all2 (\<lambda>(base, point) r. point_mul C base z' = r + point_mul C point c') statements nonces"
    using assms(1,2) by (simp_all add: sigma_equations_def)
  then show ?thesis
    using step by (induction statements nonces rule: list_all2_induct) auto
qed

text \<open>The honest responses.\<close>

lemma sigma_honest:
  assumes "\<forall>(base, point) \<in> set statements. point = point_mul C base x \<and> point_mul C base nonce \<noteq> 0"
  shows "sigma_equations C statements (map (\<lambda>(base, point). point_mul C base nonce) statements) c (nonce + c * x)"
  using assms unfolding sigma_equations_def
  by (induction statements) (auto simp: pmul_add pmul_mult mult.commute)

end

definition sigma_receives ::
  "'t merlin \<Rightarrow> ('s::field, 'p::ab_group_add, 'a, 'c, 'z) cycle_scheme \<Rightarrow> ('p \<times> 'p) list \<Rightarrow> bytes list \<Rightarrow> bytes \<Rightarrow> bytes
    \<Rightarrow> 't verifier_stream \<Rightarrow> 't verifier_stream \<Rightarrow> bool" where
  "sigma_receives M C statements labels challenge_label response_label V W \<longleftrightarrow>
     (\<exists>nonces resp t. sigma_accepts M C statements labels challenge_label response_label nonces resp (vs_transcript V) t
      \<and> reads (vs_proof V) (vs_cursor V) (sigma_bytes C nonces resp)
      \<and> W = V\<lparr>vs_transcript := t, vs_cursor := vs_cursor V + length (sigma_bytes C nonces resp)\<rparr>)"

lemma sigma_nonces:
  "(\<exists>nonces. sigma_equations C [st] nonces c z \<and> P nonces) \<longleftrightarrow> (\<exists>r. sigma_equations C [st] [r] c z \<and> P [r])"
  by (auto simp: sigma_equations_def list_all2_Cons1)

section \<open>The verifiers accept exactly the canonical responses\<close>

context stream_cycle
begin

lemma cycle_receive_binds:
  "rbind (receive_point M (cycle_curve C) l Reject V) f = Inr W \<longleftrightarrow>
    (\<exists>r. r \<noteq> 0 \<and> reads (vs_proof V) (vs_cursor V) (encoded_point C r)
      \<and> f (r, V\<lparr>vs_transcript := append_message M l (encoded_point C r) (vs_transcript V),
                 vs_cursor := vs_cursor V + length (encoded_point C r)\<rparr>) = Inr W)"
  "rbind (receive_scalar M (cycle_curve C) l V) g = Inr W \<longleftrightarrow>
    (\<exists>a. reads (vs_proof V) (vs_cursor V) (scalar_to_canonical C a)
      \<and> g (a, V\<lparr>vs_transcript := append_message M l (scalar_to_canonical C a) (vs_transcript V),
                 vs_cursor := vs_cursor V + length (scalar_to_canonical C a)\<rparr>) = Inr W)"
  by (auto simp: stream.receive_point_iff stream.receive_scalar_iff stream_step_reads allowed_reject)

lemma verifier_challenge:
  "stream_challenge_scalar M verifier_observe C label V =
    (let (bs, t) = challenge_bytes M label 64 (vs_transcript V) in (scalar_from_wide C bs, V\<lparr>vs_transcript := t\<rparr>))"
  by (simp add: stream_challenge_scalar_def observe_challenge_def verifier_observe_def split: prod.splits)

lemma check_cases: "(if p \<or> q then Inl e else Inr x) = Inr W \<longleftrightarrow> \<not> p \<and> \<not> q \<and> W = x" "(if p then Inl e else Inr x) = Inr W \<longleftrightarrow> \<not> p \<and> W = x"
  by auto

lemma sigma_receives_two:
  "sigma_receives M C [st1, st2] [l1, l2] cl rl V W \<longleftrightarrow>
    (\<exists>r1 r2 z t. sigma_accepts M C [st1, st2] [l1, l2] cl rl [r1, r2] z (vs_transcript V) t
      \<and> reads (vs_proof V) (vs_cursor V) (sigma_bytes C [r1, r2] z)
      \<and> W = V\<lparr>vs_transcript := t, vs_cursor := vs_cursor V + length (sigma_bytes C [r1, r2] z)\<rparr>)"
proof -
  have "\<exists>r1 r2. nonces = [r1, r2]" if "sigma_accepts M C [st1, st2] [l1, l2] cl rl nonces z t t'" for nonces z t t'
    using that by (auto simp: sigma_accepts_def sigma_equations_def list_all2_Cons1)
  then show ?thesis unfolding sigma_receives_def by blast
qed

lemma sigma_receives_one:
  "sigma_receives M C [st] [l] cl rl V W \<longleftrightarrow>
    (\<exists>r z t. sigma_accepts M C [st] [l] cl rl [r] z (vs_transcript V) t
      \<and> reads (vs_proof V) (vs_cursor V) (sigma_bytes C [r] z)
      \<and> W = V\<lparr>vs_transcript := t, vs_cursor := vs_cursor V + length (sigma_bytes C [r] z)\<rparr>)"
proof -
  have "\<exists>r. nonces = [r]" if "sigma_accepts M C [st] [l] cl rl nonces z t t'" for nonces z t t'
    using that by (auto simp: sigma_accepts_def sigma_equations_def list_all2_Cons1)
  then show ?thesis unfolding sigma_receives_def by blast
qed

lemma chaum_pedersen_verify_iff:
  "chaum_pedersen_verify M C g_in pk1 pk2 s V = Inr W \<longleftrightarrow>
    sigma_receives M C [(g_in, pk1), (pk2, s)] [ascii ''cp.r1'', ascii ''cp.r2''] (ascii ''cp.challenge'') (ascii ''cp.z'') V W"
  unfolding chaum_pedersen_verify_def sigma_receives_two Let_def
  by (simp add: cycle_receive_binds verifier_challenge check_cases sigma_accepts_def sigma_challenge_def sigma_equations_def sigma_bytes_def
      reads_append add.assoc case_prod_unfold Let_def del: rbind_eq_Inr) blast

lemma dlog_verify_iff:
  "dlog_verify M C g_out r_point V = Inr W \<longleftrightarrow>
    sigma_receives M C [(g_out, r_point)] [ascii ''dlog.a''] (ascii ''dlog.challenge'') (ascii ''dlog.t'') V W"
  unfolding dlog_verify_def sigma_receives_one Let_def
  by (simp add: cycle_receive_binds verifier_challenge check_cases sigma_accepts_def sigma_challenge_def sigma_equations_def sigma_bytes_def
      reads_append add.assoc case_prod_unfold Let_def del: rbind_eq_Inr) blast

end

context gin_curve
begin

lemma constant_term_verify_iff:
  "constant_term_verify M E constant_commitment V = Inr W \<longleftrightarrow>
    sigma_receives M E [(group_generator E, constant_commitment)] [ascii ''constant-term.a''] (ascii ''constant-term.challenge'')
      (ascii ''constant-term.t'') V W"
  unfolding constant_term_verify_def sigma_receives_one Let_def
  by (simp add: cycle_receive_binds verifier_challenge check_cases sigma_accepts_def sigma_challenge_def sigma_equations_def sigma_bytes_def
      reads_append add.assoc case_prod_unfold Let_def mul_generator_value del: rbind_eq_Inr) blast

end

section \<open>The honest prover\<close>

text \<open>What a prover has sent is what the verifier accepts from the same transcript.\<close>

definition sigma_sends ::
  "'t merlin \<Rightarrow> ('s::field, 'p::ab_group_add, 'a, 'c, 'z) cycle_scheme \<Rightarrow> ('p \<times> 'p) list \<Rightarrow> bytes list \<Rightarrow> bytes \<Rightarrow> bytes
    \<Rightarrow> 't prover_stream \<Rightarrow> 't prover_stream \<Rightarrow> bool" where
  "sigma_sends M C statements labels challenge_label response_label P P' \<longleftrightarrow>
     (\<exists>nonces resp. sigma_accepts M C statements labels challenge_label response_label nonces resp (ps_transcript P) (ps_transcript P')
      \<and> ps_proof P' = ps_proof P @ sigma_bytes C nonces resp)"

lemma prover_challenge:
  "stream_challenge_scalar M prover_observe C label P =
    (let (bs, t) = challenge_bytes M label 64 (ps_transcript P) in (scalar_from_wide C bs, P\<lparr>ps_transcript := t\<rparr>))"
  by (simp add: stream_challenge_scalar_def observe_challenge_def prover_observe_def split: prod.splits)

lemma send_bytes_fields [simp]:
  "ps_transcript (send_bytes M l bs P) = append_message M l bs (ps_transcript P)" "ps_proof (send_bytes M l bs P) = ps_proof P @ bs"
  by (simp_all add: send_bytes_def observe_bytes_def prover_observe_def)

lemma sigma_sends_received:
  assumes "sigma_sends M C statements labels cl rl P P'"
    and "vs_transcript V = ps_transcript P" "vs_cursor V = length (ps_proof P)" "prefix (ps_proof P') (vs_proof V)"
    and "length (vs_proof V) < 2 ^ 64"
  shows "\<exists>W. sigma_receives M C statements labels cl rl V W \<and> vs_transcript W = ps_transcript P'
    \<and> vs_cursor W = length (ps_proof P') \<and> vs_proof W = vs_proof V"
proof -
  obtain nonces z where acc: "sigma_accepts M C statements labels cl rl nonces z (ps_transcript P) (ps_transcript P')"
    and sent: "ps_proof P' = ps_proof P @ sigma_bytes C nonces z"
    using assms(1) by (auto simp: sigma_sends_def)
  obtain rest where pr: "vs_proof V = ps_proof P @ sigma_bytes C nonces z @ rest"
    using assms(4) by (auto simp: sent elim!: prefixE)
  have "reads (vs_proof V) (vs_cursor V) (sigma_bytes C nonces z)"
    using assms(3,5) by (simp add: reads_def pr)
  then show ?thesis
    using acc assms(2,3)
    by (intro exI[of _ "V\<lparr>vs_transcript := ps_transcript P', vs_cursor := vs_cursor V + length (sigma_bytes C nonces z)\<rparr>"])
      (auto simp: sigma_receives_def sent)
qed

context stream_cycle
begin

lemma chaum_pedersen_sends:
  assumes "chaum_pedersen_prove M C random g_in pk2 sk1 P g = Some (Inr (P', g'))"
  shows "sigma_sends M C [(g_in, point_mul C g_in sk1), (pk2, point_mul C pk2 sk1)] [ascii ''cp.r1'', ascii ''cp.r2'']
    (ascii ''cp.challenge'') (ascii ''cp.z'') P P'"
proof -
  obtain nonce where nonce: "point_mul C g_in nonce \<noteq> 0" "point_mul C pk2 nonce \<noteq> 0"
    and P': "(let (c, Q) = stream_challenge_scalar M prover_observe C (ascii ''cp.challenge'')
        (send_bytes M (ascii ''cp.r2'') (encoded_point C (point_mul C pk2 nonce))
          (send_bytes M (ascii ''cp.r1'') (encoded_point C (point_mul C g_in nonce)) P))
      in send_bytes M (ascii ''cp.z'') (scalar_to_canonical C (nonce + c * sk1)) Q) = P'"
  proof -
    obtain nonce g1 where n: "nonzero_scalar random g = Some (nonce, g1)"
      using assms by (auto simp: chaum_pedersen_prove_def Option.bind_eq_Some_conv split: if_splits)
    show thesis
      using assms
      by (intro that[of nonce]) (auto simp: chaum_pedersen_prove_def n Let_def obind_eq_Inr stream.send_point_Inr stream.send_scalar_eq
        allowed_reject case_prod_unfold split: if_splits)
  qed
  have "sigma_equations C [(g_in, point_mul C g_in sk1), (pk2, point_mul C pk2 sk1)] [point_mul C g_in nonce, point_mul C pk2 nonce]
      c (nonce + c * sk1)" for c
    using sigma_honest[of "[(g_in, point_mul C g_in sk1), (pk2, point_mul C pk2 sk1)]" sk1 nonce c] nonce by simp
  then show ?thesis
    unfolding sigma_sends_def P'[symmetric] prover_challenge
    by (intro exI[of _ "[point_mul C g_in nonce, point_mul C pk2 nonce]"])
      (auto simp: sigma_accepts_def sigma_challenge_def sigma_bytes_def split: prod.splits)
qed

lemma dlog_sends:
  assumes "dlog_prove M C random g_out r P g = Some (Inr (P', g'))"
  shows "sigma_sends M C [(g_out, point_mul C g_out r)] [ascii ''dlog.a''] (ascii ''dlog.challenge'') (ascii ''dlog.t'') P P'"
proof -
  obtain nonce where nonce: "point_mul C g_out nonce \<noteq> 0"
    and P': "(let (c, Q) = stream_challenge_scalar M prover_observe C (ascii ''dlog.challenge'')
        (send_bytes M (ascii ''dlog.a'') (encoded_point C (point_mul C g_out nonce)) P)
      in send_bytes M (ascii ''dlog.t'') (scalar_to_canonical C (nonce + c * r)) Q) = P'"
  proof -
    obtain nonce g1 where n: "nonzero_scalar random g = Some (nonce, g1)"
      using assms by (auto simp: dlog_prove_def Option.bind_eq_Some_conv split: if_splits)
    show thesis
      using assms
      by (intro that[of nonce]) (auto simp: dlog_prove_def n Let_def obind_eq_Inr stream.send_point_Inr stream.send_scalar_eq
        allowed_reject case_prod_unfold split: if_splits)
  qed
  have "sigma_equations C [(g_out, point_mul C g_out r)] [point_mul C g_out nonce] c (nonce + c * r)" for c
    using sigma_honest[of "[(g_out, point_mul C g_out r)]" r nonce c] nonce by simp
  then show ?thesis
    unfolding sigma_sends_def P'[symmetric] prover_challenge
    by (intro exI[of _ "[point_mul C g_out nonce]"])
      (auto simp: sigma_accepts_def sigma_challenge_def sigma_bytes_def split: prod.splits)
qed

end

context gin_curve
begin

lemma constant_term_sends:
  assumes "constant_term_prove M E random A a P g = Some (Inr (P', g'))"
  shows "sigma_sends M E [(group_generator E, A)] [ascii ''constant-term.a''] (ascii ''constant-term.challenge'')
    (ascii ''constant-term.t'') P P'" and "A = point_mul E (group_generator E) a"
proof -
  show A: "A = point_mul E (group_generator E) a"
    using assms by (auto simp: constant_term_prove_def mul_generator_value split: if_splits)
  obtain nonce where nonce: "point_mul E (group_generator E) nonce \<noteq> 0"
    and P': "(let (c, Q) = stream_challenge_scalar M prover_observe E (ascii ''constant-term.challenge'')
        (send_bytes M (ascii ''constant-term.a'') (encoded_point E (point_mul E (group_generator E) nonce)) P)
      in send_bytes M (ascii ''constant-term.t'') (scalar_to_canonical E (nonce + c * a)) Q) = P'"
  proof -
    obtain nonce g1 where n: "nonzero_scalar random g = Some (nonce, g1)"
      using assms by (auto simp: constant_term_prove_def Option.bind_eq_Some_conv split: if_splits)
    show thesis
      using assms
      by (intro that[of nonce]) (auto simp: constant_term_prove_def n Let_def obind_eq_Inr stream.send_point_Inr stream.send_scalar_eq
        allowed_reject mul_generator_value case_prod_unfold split: if_splits)
  qed
  have "sigma_equations E [(group_generator E, A)] [point_mul E (group_generator E) nonce] c (nonce + c * a)" for c
    using sigma_honest[of "[(group_generator E, A)]" a nonce c] nonce A by simp
  then show "sigma_sends M E [(group_generator E, A)] [ascii ''constant-term.a''] (ascii ''constant-term.challenge'')
      (ascii ''constant-term.t'') P P'"
    unfolding sigma_sends_def P'[symmetric] prover_challenge
    by (intro exI[of _ "[point_mul E (group_generator E) nonce]"])
      (auto simp: sigma_accepts_def sigma_challenge_def sigma_bytes_def split: prod.splits)
qed

end

section \<open>The canonical parsers\<close>

lemma parse_canonical_iff:
  "parse_canonical_r1cs_proof D bs = Inr pf \<longleftrightarrow> r1cs_from_bytes D bs = Inr pf \<and> r1cs_to_bytes D pf = bs"
  by (cases "r1cs_from_bytes D bs") (auto simp: parse_canonical_r1cs_proof_def)

context stream_cycle
begin

lemma parse_nested_commitment_iff:
  "parse_nested_commitment C payload k Allow = Inr (v, e) \<longleftrightarrow>
    (\<exists>p. v = point_compress C p \<and> e = k + length (encoded_point C p) \<and> reads payload k (encoded_point C p))"
proof -
  have len: "length (encoded_point C p) = compressed_bytes C" for p
    using stream.point_length[of p] by simp
  have decoded: "decode_canonical_point (cycle_curve C) bs = Inr p \<longleftrightarrow> bs = encoded_point C p" for bs p
    using stream.point_canonical[of bs p] stream.point_decode[of p] by (auto simp del: cycle_curve_fields(3,4))
  have "parse_nested_commitment C payload k Allow = Inr (v, e) \<longleftrightarrow>
      e = k + compressed_bytes C \<and> e < 2 ^ 64
      \<and> (\<exists>p. slice_get payload k e = Some (encoded_point C p) \<and> v = point_compress C p)"
    by (cases "k + compressed_bytes C < 2 ^ 64")
      (auto simp: parse_nested_commitment_def checked_usize_def decode_point_def decoded)
  also have "\<dots> \<longleftrightarrow> (\<exists>p. v = point_compress C p \<and> e = k + length (encoded_point C p) \<and> reads payload k (encoded_point C p))"
  proof -
    have "slice_get payload k (k + compressed_bytes C) = Some (encoded_point C p)
        \<longleftrightarrow> k \<le> length payload \<and> prefix (encoded_point C p) (drop k payload)" for p
      using slice_get_prefix[of payload k "encoded_point C p"] by (simp only: len)
    then show ?thesis by (auto simp: reads_def len)
  qed
  finally show ?thesis .
qed

lemma prefix_link_iff: "pedersen_prefix_link C B r (point_compress C p) = Inr () \<longleftrightarrow> p = r + B"
proof -
  have inj: "p = q" if "encoded_point C p = encoded_point C q" for p q
    using stream.point_decode[of p] stream.point_decode[of q] that by (simp del: cycle_curve_fields(3,4))
  then show ?thesis
    using inj[of "r + B" p] by (auto simp: pedersen_prefix_link_def encoded_point_def)
qed

end

end
