(* ===== verification/Evrf_Protocol.thy ===== *)
theory Evrf_Protocol
  imports Evrf_Sigma R1cs_Laws
begin

text \<open>
  Proving and verifying of the paper eVRF backend (\<open>golden-evrf/src/paper.rs\<close>, module \<open>secp_secq\<close>): the one-receiver
  relation, the batched dealer relation, and several batched proofs at once. The R1CS proof is a nested protocol on
  the transcript of the proof stream. \<open>M\<close> is Merlin, \<open>R\<close> its generator of blindings, \<open>Q\<close> the caller's generator;
  \<open>g_table\<close> is the table of the fixed generator, whose computation panics on an error. An operation that draws
  until it finds a nonzero value may not return.
\<close>

section \<open>Nested protocols with a generator\<close>

definition send_nested_rng ::
  "('t \<Rightarrow> 'g \<Rightarrow> (bytes \<times> 't \<times> 'g) result) \<Rightarrow> 't prover_stream \<Rightarrow> 'g \<Rightarrow> ('t prover_stream \<times> 'g) result" where
  "send_nested_rng build stream g =
     (let built = build (ps_transcript stream) g;
          (sent, stream) = send_nested (\<lambda>t. case built of Inl e \<Rightarrow> (Inl e, t) | Inr (payload, t', _) \<Rightarrow> (Inr payload, t')) stream
      in rbind sent (\<lambda>_. rbind built (\<lambda>(_, _, g). Inr (stream, g))))"

definition receive_nested_with ::
  "('t \<Rightarrow> bytes \<Rightarrow> ('x \<times> 't) result) \<Rightarrow> 't verifier_stream \<Rightarrow> ('x \<times> 't verifier_stream) result" where
  "receive_nested_with consume stream =
     (let (received, stream) = receive_nested (\<lambda>t payload. case consume t payload of
            Inl e \<Rightarrow> (Inl e, t) | Inr (x, t') \<Rightarrow> (Inr x, t')) stream
      in rbind received (\<lambda>x. Inr (x, stream)))"

abbreviation failed :: "'e + 'x \<Rightarrow> 'x result" where
  "failed r \<equiv> map_err (\<lambda>_. ProofVerificationFailed) r"

section \<open>One receiver\<close>

text \<open>What the prover and the verifier compute from the statement alone.\<close>

record ('p, 's) one_receiver_public =
  op_s_x :: 's
  op_precomp1 :: "('p, 's) chord_precomp"
  op_precomp2 :: "('p, 's) chord_precomp"
  op_t1 :: "'s \<times> 's"
  op_t2 :: "'s \<times> 's"

definition encodings_differ :: "('s, 'p, 'a, 'c, 'z) cycle_scheme \<Rightarrow> 'p \<Rightarrow> 'p \<Rightarrow> bool" where
  "encodings_differ C p q \<longleftrightarrow> compressed_as_bytes C (point_compress C p) \<noteq> compressed_as_bytes C (point_compress C q)"

definition one_receiver_r1cs_prove ::
  "('t, 'y) merlin_u64_scheme \<Rightarrow> ('s::field, 'o::ab_group_add, 'b, 'd, 'w) cycle_scheme
    \<Rightarrow> ('s, 't, 'bu, 'g, 'h, 'v) transcript_rng_scheme \<Rightarrow> ('g \<Rightarrow> 's \<times> 'g) \<Rightarrow> 'o pedersen_gens \<Rightarrow> 'b bulletproof_gens
    \<Rightarrow> 's \<Rightarrow> 's option list \<Rightarrow> ('p, 's) one_receiver_public \<Rightarrow> 's chord_witness \<Rightarrow> 's chord_witness \<Rightarrow> 's \<Rightarrow> 's
    \<Rightarrow> 't \<Rightarrow> 'g \<Rightarrow> (bytes \<times> 't \<times> 'g) result" where
  "one_receiver_r1cs_prove M D R random pc_gens bp_gens k bit_assignments public witness1 witness2 beta r t g =
     (let (k_blinding, g) = random g; r_blinding = 1;
          prover = r1cs_prover_new M pc_gens t;
          ((v_k, var_k), prover) = prover_commit M D k k_blinding prover;
          ((v_r, var_r), prover) = prover_commit M D r r_blinding prover
      in rbind (failed (run_prover M D (build_one_receiver_r1cs var_k var_r (op_s_x public) (op_precomp1 public)
             (op_precomp2 public) (fst (op_t1 public)) (snd (op_t1 public)) (fst (op_t2 public)) (snd (op_t2 public)) beta
             bit_assignments (Some witness1) (Some witness2)) prover)) (\<lambda>prover.
         rbind (failed (prove_and_return_transcript M D R bp_gens g prover)) (\<lambda>(r1cs_proof, t, g).
         let r1cs_bytes = r1cs_to_bytes D r1cs_proof
         in rbind (checked_usize (2 * compressed_bytes D + length r1cs_bytes)) (\<lambda>_.
            Inr (compressed_as_bytes D v_k @ compressed_as_bytes D v_r @ r1cs_bytes, t, g)))))"

definition evrf_prove ::
  "('t, 'y) merlin_u64_scheme \<Rightarrow> ('q::field, 'p::ab_group_add, 'a, 'c, 's::field, 'z) evrf_curve_scheme
    \<Rightarrow> ('s, 'o::ab_group_add, 'b, 'd, 'w) cycle_scheme \<Rightarrow> ('s, 't, 'bu, 'g, 'h, 'v) transcript_rng_scheme
    \<Rightarrow> ('q, 's, 'g) evrf_rng \<Rightarrow> 'o pedersen_gens \<Rightarrow> 'b bulletproof_gens \<Rightarrow> ('p, 'o, 's) one_receiver_statement \<Rightarrow> 'q
    \<Rightarrow> 'g \<Rightarrow> (bytes \<times> 'g) result option" where
  "evrf_prove M E D R Q pc_gens bp_gens statement sk1 g =
     (let Ms = merlin.truncate M; g_in = group_generator E
      in oresult (prover_new Ms ONE_RECEIVER_PROOF_ID) (\<lambda>stream.
         oresult (observe_one_receiver_statement Ms prover_observe E D statement stream) (\<lambda>stream.
         let s_computed = point_mul E (or_pk2 statement) sk1
         in if encodings_differ E s_computed (or_s statement) then Some (Inl ProofVerificationFailed)
         else oresult (affine_xy E (or_s statement)) (\<lambda>(s_x, _).
         let k = s_x; h1 = h_gin_1 E (or_msg statement); h2 = h_gin_2 E (or_msg statement)
         in if encodings_differ E h1 (or_h1 statement) \<or> encodings_differ E h2 (or_h2 statement)
         then Some (Inl ProofVerificationFailed)
         else
         let bits = decompose_k_fp D k (K_BITS + 1)
         in oresult (precompute_chord E h1 K_BITS) (\<lambda>precomp1.
         oresult (precompute_chord E h2 K_BITS) (\<lambda>precomp2.
         oresult (chord_compute_witness_precomputed E D bits precomp1) (\<lambda>witness1.
         oresult (chord_compute_witness_precomputed E D bits precomp2) (\<lambda>witness2.
         oresult (affine_xy E (or_t1 statement)) (\<lambda>t1.
         oresult (affine_xy E (or_t2 statement)) (\<lambda>t2.
         let r = or_beta statement * fst t1 + fst t2; g_out = group_generator D; r_computed = point_mul D g_out r
         in if encodings_differ D r_computed (or_r_point statement) then Some (Inl ProofVerificationFailed)
         else obind (chaum_pedersen_prove Ms E (random_gin_scalar Q) g_in (or_pk2 statement) sk1 stream g) (\<lambda>(stream, g).
         oresult (send_nested_rng (one_receiver_r1cs_prove M D R (random_gout_scalar Q) pc_gens bp_gens k (bit_options bits)
             \<lparr>op_s_x = s_x, op_precomp1 = precomp1, op_precomp2 = precomp2, op_t1 = t1, op_t2 = t2\<rparr> witness1 witness2
             (or_beta statement) r) stream g) (\<lambda>(stream, g).
         obind (dlog_prove Ms D (random_gout_scalar Q) g_out r stream g) (\<lambda>(stream, g).
         Some (Inr (prover_finish stream, g)))))))))))))))"

definition one_receiver_r1cs_verify ::
  "('t, 'y) merlin_u64_scheme \<Rightarrow> ('s::field, 'o::ab_group_add, 'b, 'd, 'w) cycle_scheme
    \<Rightarrow> ('s, 't, 'bu, 'g, 'h, 'v) transcript_rng_scheme \<Rightarrow> 'o pedersen_gens \<Rightarrow> 'b bulletproof_gens
    \<Rightarrow> 'o \<Rightarrow> ('p, 's) one_receiver_public \<Rightarrow> 's \<Rightarrow> 'g \<Rightarrow> 't \<Rightarrow> bytes \<Rightarrow> (unit \<times> 't) result" where
  "one_receiver_r1cs_verify M D R pc_gens bp_gens r_point public beta g t payload =
     rbind (parse_nested_commitment D payload 0 Allow) (\<lambda>(v_k, cursor).
     rbind (parse_nested_commitment D payload cursor Allow) (\<lambda>(v_r, cursor).
     rbind (ok_or (slice_get payload cursor (length payload)) ProofVerificationFailed) (\<lambda>r1cs_bytes.
     rbind (parse_canonical_r1cs_proof D r1cs_bytes) (\<lambda>r1cs_proof.
     rbind (pedersen_prefix_link D (ped_B_blinding pc_gens) r_point v_r) (\<lambda>_.
     let verifier = verifier_cs_new M t;
         (var_k, verifier) = verifier_commit M D v_k verifier;
         (var_r, verifier) = verifier_commit M D v_r verifier;
         verifier_bits = replicate (K_BITS + 1) None
     in rbind (failed (run_verifier M D (build_one_receiver_r1cs var_k var_r (op_s_x public) (op_precomp1 public)
            (op_precomp2 public) (fst (op_t1 public)) (snd (op_t1 public)) (fst (op_t2 public)) (snd (op_t2 public)) beta
            verifier_bits None None) verifier)) (\<lambda>verifier.
        rbind (failed (verify_and_return_transcript M D R pc_gens bp_gens g r1cs_proof verifier)) (\<lambda>t. Inr ((), t))))))))"

definition evrf_verify ::
  "('t, 'y) merlin_u64_scheme \<Rightarrow> ('q::field, 'p::ab_group_add, 'a, 'c, 's::field, 'z) evrf_curve_scheme
    \<Rightarrow> ('s, 'o::ab_group_add, 'b, 'd, 'w) cycle_scheme \<Rightarrow> ('s, 't, 'bu, 'g, 'h, 'v) transcript_rng_scheme
    \<Rightarrow> 'o pedersen_gens \<Rightarrow> 'b bulletproof_gens \<Rightarrow> ('p, 'o, 's) one_receiver_statement \<Rightarrow> bytes \<Rightarrow> 'g \<Rightarrow> unit result" where
  "evrf_verify M E D R pc_gens bp_gens statement pr g =
     (let Ms = merlin.truncate M; g_in = group_generator E; g_out = group_generator D
      in rbind (verifier_new Ms ONE_RECEIVER_PROOF_ID pr) (\<lambda>stream.
         rbind (observe_one_receiver_statement Ms verifier_observe E D statement stream) (\<lambda>stream.
         rbind (chaum_pedersen_verify Ms E g_in (or_pk1 statement) (or_pk2 statement) (or_s statement) stream) (\<lambda>stream.
         rbind (affine_xy E (or_s statement)) (\<lambda>(s_x, _).
         let h1 = h_gin_1 E (or_msg statement); h2 = h_gin_2 E (or_msg statement)
         in if encodings_differ E h1 (or_h1 statement) \<or> encodings_differ E h2 (or_h2 statement)
         then Inl ProofVerificationFailed
         else rbind (precompute_chord E h1 K_BITS) (\<lambda>precomp1.
         rbind (precompute_chord E h2 K_BITS) (\<lambda>precomp2.
         rbind (affine_xy E (or_t1 statement)) (\<lambda>t1.
         rbind (affine_xy E (or_t2 statement)) (\<lambda>t2.
         rbind (receive_nested_with (one_receiver_r1cs_verify M D R pc_gens bp_gens (or_r_point statement)
             \<lparr>op_s_x = s_x, op_precomp1 = precomp1, op_precomp2 = precomp2, op_t1 = t1, op_t2 = t2\<rparr> (or_beta statement) g) stream) (\<lambda>(_, stream).
         rbind (dlog_verify Ms D g_out (or_r_point statement) stream) (\<lambda>stream.
         verifier_finish stream)))))))))))"

section \<open>Batched dealer proofs\<close>

definition prove_batched_r1cs ::
  "('t, 'y) merlin_u64_scheme \<Rightarrow> ('q::field, 'p::ab_group_add, 'a, 'c, 's::field, 'z) evrf_curve_scheme
    \<Rightarrow> ('s, 'o::ab_group_add, 'b, 'd, 'w) cycle_scheme \<Rightarrow> ('s, 't, 'bu, 'g, 'h, 'v) transcript_rng_scheme
    \<Rightarrow> ('p, 's) chord_precomp \<Rightarrow> ('o, 'b) batched_params \<Rightarrow> ('q, 'p, 's) batched_statement \<Rightarrow> 'q batched_witness
    \<Rightarrow> 't \<Rightarrow> 'g \<Rightarrow> (bytes \<times> 't \<times> 'g) result" where
  "prove_batched_r1cs M E D R g_table params statement wit t g =
     (if encodings_differ E (secp_mul_generator E (bw_sk1 wit)) (bs_pk1 statement) then Inl ProofVerificationFailed
      else
      let h1 = h_gin_1 E (bs_msg statement); h2 = h_gin_2 E (bs_msg statement)
      in rbind (precompute_chord E h1 K_BITS) (\<lambda>precomp_h1.
         rbind (precompute_chord E h2 K_BITS) (\<lambda>precomp_h2.
         let prover = r1cs_prover_new M (bp_pc_gens params) t
         in rbind (failed (run_prover M D (batched_prover_circuit E D g_table precomp_h1 precomp_h2 statement (bw_sk1 wit)) prover))
              (\<lambda>prover.
            rbind (failed (prove_and_return_transcript M D R (bp_bp_gens params) g prover)) (\<lambda>(r1cs_proof, t, g).
            Inr (r1cs_to_bytes D r1cs_proof, t, g))))))"

definition evrf_batched_prove ::
  "('t, 'y) merlin_u64_scheme \<Rightarrow> ('q::field, 'p::ab_group_add, 'a, 'c, 's::field, 'z) evrf_curve_scheme
    \<Rightarrow> ('s, 'o::ab_group_add, 'b, 'd, 'w) cycle_scheme \<Rightarrow> ('s, 't, 'bu, 'g, 'h, 'v) transcript_rng_scheme
    \<Rightarrow> ('q, 's, 'g) evrf_rng \<Rightarrow> ('p, 's) chord_precomp \<Rightarrow> ('o, 'b) batched_params \<Rightarrow> ('q, 'p, 's) batched_statement
    \<Rightarrow> 'q batched_witness \<Rightarrow> 'g \<Rightarrow> (bytes \<times> 'g) result option" where
  "evrf_batched_prove M E D R Q g_table params statement wit g =
     (let Ms = merlin.truncate M
      in oresult (params_validate_statement params statement) (\<lambda>_.
         obind (validate_batched_public_relations M E statement) (\<lambda>_.
         oresult (prover_new Ms BATCHED_PROOF_ID) (\<lambda>stream.
         oresult (observe_batched_statement Ms prover_observe E D statement stream) (\<lambda>stream.
         oresult (send_nested_rng (prove_batched_r1cs M E D R g_table params statement wit) stream g) (\<lambda>(stream, g).
         obind (constant_term_prove Ms E (random_gin_scalar Q) (bs_commitment_coefficients statement ! 0)
                  (bw_polynomial_constant wit) stream g) (\<lambda>(stream, g).
         Some (Inr (prover_finish stream, g)))))))))"

definition build_batched_verifier_precomputed ::
  "('t, 'y) merlin_u64_scheme \<Rightarrow> ('q::field, 'p::ab_group_add, 'a, 'c, 's::field, 'z) evrf_curve_scheme
    \<Rightarrow> ('s, 'o::ab_group_add, 'b, 'd, 'w) cycle_scheme \<Rightarrow> ('p, 's) chord_precomp \<Rightarrow> ('q, 'p, 's) batched_statement \<Rightarrow> 't
    \<Rightarrow> (bytes \<times> ('p, 's) chord_precomp) list \<Rightarrow> ('s, 'd, 't) verifier result" where
  "build_batched_verifier_precomputed M E D g_table statement t receiver_precomps =
     (let h1 = h_gin_1 E (bs_msg statement); h2 = h_gin_2 E (bs_msg statement)
      in rbind (precompute_chord E h1 K_BITS) (\<lambda>precomp_h1.
         rbind (precompute_chord E h2 K_BITS) (\<lambda>precomp_h2.
         failed (run_verifier M D (batched_verifier_circuit E g_table receiver_precomps precomp_h1 precomp_h2 statement)
           (verifier_cs_new M t)))))"

definition prepare_batched_r1cs ::
  "('t, 'y) merlin_u64_scheme \<Rightarrow> ('q::field, 'p::ab_group_add, 'a, 'c, 's::field, 'z) evrf_curve_scheme
    \<Rightarrow> ('s, 'o::ab_group_add, 'b, 'd, 'w) cycle_scheme \<Rightarrow> ('s, 't, 'bu, 'g, 'h, 'v) transcript_rng_scheme
    \<Rightarrow> ('p, 's) chord_precomp \<Rightarrow> ('o, 'b) batched_params \<Rightarrow> (bytes \<times> ('p, 's) chord_precomp) list
    \<Rightarrow> ('q, 'p, 's) batched_statement \<Rightarrow> ('s, 'd) r1cs_proof \<Rightarrow> 'g \<Rightarrow> 't \<Rightarrow> (('s, 'o, 'b) verification_equation \<times> 't) result" where
  "prepare_batched_r1cs M E D R g_table params receiver_precomps statement pf g t =
     rbind (build_batched_verifier_precomputed M E D g_table statement t receiver_precomps) (\<lambda>verifier.
     rbind (failed (verification_equation_and_return_transcript M D R (bp_pc_gens params) (bp_bp_gens params) g pf verifier))
       (\<lambda>(equation, t, _). Inr (equation, t)))"

definition prepare_batched_proof ::
  "('t, 'y) merlin_u64_scheme \<Rightarrow> ('q::field, 'p::ab_group_add, 'a, 'c, 's::field, 'z) evrf_curve_scheme
    \<Rightarrow> ('s, 'o::ab_group_add, 'b, 'd, 'w) cycle_scheme \<Rightarrow> ('s, 't, 'bu, 'g, 'h, 'v) transcript_rng_scheme
    \<Rightarrow> ('p, 's) chord_precomp \<Rightarrow> ('o, 'b) batched_params \<Rightarrow> (bytes \<times> ('p, 's) chord_precomp) list
    \<Rightarrow> ('q, 'p, 's) batched_statement \<Rightarrow> bytes \<Rightarrow> 'g \<Rightarrow> ('s, 'o, 'b) verification_equation result option" where
  "prepare_batched_proof M E D R g_table params receiver_precomps statement pr g =
     (let Ms = merlin.truncate M
      in oresult (verifier_new Ms BATCHED_PROOF_ID pr) (\<lambda>stream.
         oresult (observe_batched_statement Ms verifier_observe E D statement stream) (\<lambda>stream.
         obind (validate_batched_public_relations_for_verifier M E statement (vs_transcript stream)) (\<lambda>_.
         oresult (receive_nested_with (\<lambda>t payload. rbind (parse_canonical_r1cs_proof D payload) (\<lambda>r1cs_proof.
             prepare_batched_r1cs M E D R g_table params receiver_precomps statement r1cs_proof g t)) stream) (\<lambda>(equation, stream).
         oresult (constant_term_verify Ms E (bs_commitment_coefficients statement ! 0) stream) (\<lambda>stream.
         oresult (verifier_finish stream) (\<lambda>_. Some (Inr equation))))))))"

definition evrf_batched_verify ::
  "('t, 'y) merlin_u64_scheme \<Rightarrow> ('q::field, 'p::ab_group_add, 'a, 'c, 's::field, 'z) evrf_curve_scheme
    \<Rightarrow> ('s, 'o::ab_group_add, 'b, 'd, 'w) cycle_scheme \<Rightarrow> ('s, 't, 'bu, 'g, 'h, 'v) transcript_rng_scheme
    \<Rightarrow> ('p, 's) chord_precomp \<Rightarrow> ('o, 'b) batched_params \<Rightarrow> ('q, 'p, 's) batched_statement \<Rightarrow> bytes \<Rightarrow> 'g \<Rightarrow> unit result option" where
  "evrf_batched_verify M E D R g_table params statement pr g =
     oresult (params_validate_statement params statement) (\<lambda>_.
     oresult (validate_batched_statement_shape statement) (\<lambda>_.
     oresult (receiver_chord_precomps_new E [statement]) (\<lambda>receiver_precomps.
     obind (prepare_batched_proof M E D R g_table params receiver_precomps statement pr g) (\<lambda>equation.
     Some (failed (check_equation D equation))))))"

section \<open>Several proofs\<close>

definition PROOF_BATCH_ID :: bytes where "PROOF_BATCH_ID = ascii ''golden-paper-evrf-proof-batch-v1''"
definition PER_PROOF_ID :: bytes where "PER_PROOF_ID = ascii ''golden-paper-evrf-proof-batch-v1-per-proof''"

definition per_proof_seed :: "('t, 'y) merlin_u64_scheme \<Rightarrow> bytes \<Rightarrow> usize \<Rightarrow> bytes" where
  "per_proof_seed M batch_seed index =
     (let t = merlin_new M PER_PROOF_ID;
          t = append_message M (ascii ''batch-seed'') batch_seed t;
          t = append_u64 M (ascii ''proof-index'') index t
      in fst (challenge_bytes M (ascii ''proof-rng'') 32 t))"

definition observe_instance ::
  "('t, 'y) merlin_u64_scheme \<Rightarrow> ('q, 'p, 'a, 'c, 's, 'z) evrf_curve_scheme \<Rightarrow> ('s, 'o, 'b, 'd, 'w) cycle_scheme
    \<Rightarrow> 't \<Rightarrow> nat \<times> ('q, 'p, 's) batched_statement \<times> bytes \<Rightarrow> 't result" where
  "observe_instance M E D t = (\<lambda>(index, statement, pr).
     let t = append_u64 M (ascii ''proof-index'') index t
     in rbind (observe_batched_statement (merlin.truncate M) transcript_observe E D statement t) (\<lambda>t.
        let t = append_u64 M (ascii ''proof-len'') (length pr) t
        in Inr (append_message M (ascii ''proof'') pr t)))"

text \<open>
  The equations are prepared in parallel, one chunk per round, and folded in order; each is a function of its
  instance and its seed. \<open>from_seed\<close> is the generator \<open>ChaCha20Rng\<close> with a seed.
\<close>

definition evrf_batched_verify_many ::
  "('t, 'y) merlin_u64_scheme \<Rightarrow> ('q::field, 'p::ab_group_add, 'a, 'c, 's::field, 'z) evrf_curve_scheme
    \<Rightarrow> ('s, 'o::ab_group_add, 'b, 'd, 'w) cycle_scheme \<Rightarrow> ('s, 't, 'bu, 'g, 'h, 'v) transcript_rng_scheme
    \<Rightarrow> ('q, 's, 'g) evrf_rng \<Rightarrow> (bytes \<Rightarrow> 'g) \<Rightarrow> ('p, 's) chord_precomp \<Rightarrow> ('o, 'b) batched_params
    \<Rightarrow> (('q, 'p, 's) batched_statement \<times> bytes) list \<Rightarrow> unit result option" where
  "evrf_batched_verify_many M E D R Q from_seed g_table params instances =
     (if instances = [] then Some (Inl ProofVerificationFailed)
      else
      oresult (rfold (\<lambda>_ (statement, _). rbind (params_validate_statement params statement) (\<lambda>_.
          validate_batched_statement_shape statement)) () instances) (\<lambda>_.
      let t = append_u64 M (ascii ''batch-len'') (length instances) (merlin_new M PROOF_BATCH_ID)
      in oresult (rfold (observe_instance M E D) t (enumerate 0 instances)) (\<lambda>t.
         let seed = fst (challenge_bytes M (ascii ''batch-rng'') 32 t)
         in oresult (receiver_chord_precomps_new E (map fst instances)) (\<lambda>receiver_precomps.
            Option.bind (those (map (\<lambda>(index, statement, pr).
                map_option (map_err (\<lambda>_. R1CSVerificationError))
                  (prepare_batched_proof M E D R g_table params receiver_precomps statement pr (from_seed (per_proof_seed M seed index))))
                (enumerate 0 instances))) (\<lambda>equations.
            Option.bind (verify_batch_iter D (random_gout_scalar Q) equations (from_seed seed)) (\<lambda>(verified, _).
            Some (failed verified)))))))"

end
