(* ===== verification/Evrf_Protocol_Laws.thy ===== *)
theory Evrf_Protocol_Laws
  imports Evrf_Protocol
begin

text \<open>
  What the verifiers of the paper eVRF accept. Observing a statement appends a list of fields, whoever observes;
  a proof is its header, the framed R1CS proof, and the bytes of the proofs of knowledge, all of them canonical, and
  it is accepted exactly when each part is right for the transcript before it.
\<close>

section \<open>Observed fields\<close>

definition append_fields :: "'t merlin \<Rightarrow> (bytes \<times> bytes) list \<Rightarrow> 't \<Rightarrow> 't" where
  "append_fields M fs t = fold (\<lambda>(l, v). append_message M l v) fs t"

definition observe_fields :: "'t merlin \<Rightarrow> ('x, 't) observe \<Rightarrow> (bytes \<times> bytes) list \<Rightarrow> 'x \<Rightarrow> 'x" where
  "observe_fields M Ob fs st = set_transcript Ob (append_fields M fs (transcript_of Ob st)) st"

definition receiver_fields ::
  "('q, 'p, 'a, 'c, 's, 'z) evrf_curve_scheme \<Rightarrow> bytes list \<Rightarrow> nat \<times> ('q, 'p) batched_receiver \<Rightarrow> (bytes \<times> bytes) list" where
  "receiver_fields E roots = (\<lambda>(j, rec).
     [(ascii ''idx'', u64_le j), (ascii ''statement-root'', roots ! j),
      (ascii ''receiver'', u64_le (unat (index_get (br_receiver rec)))),
      (ascii ''PK_j'', encoded_point E (br_pkj rec)), (ascii ''share-commitment'', encoded_point E (br_share_commitment rec)),
      (ascii ''pad-commitment'', encoded_point E (br_pad_commitment rec)),
      (ascii ''encrypted-share'', scalar_to_canonical E (br_encrypted_share rec))])"

definition batched_fields ::
  "('q, 'p, 'a, 'c, 's, 'z) evrf_curve_scheme \<Rightarrow> ('s, 'o, 'b, 'd, 'w) cycle_scheme \<Rightarrow> ('q, 'p, 's) batched_statement
    \<Rightarrow> (bytes \<times> bytes) list" where
  "batched_fields E D statement =
     [(ascii ''msg'', bs_msg statement), (ascii ''beta'', scalar_to_canonical D (bs_beta statement)),
      (ascii ''threshold'', u64_le (bs_threshold statement)), (ascii ''PK_1'', encoded_point E (bs_pk1 statement)),
      (ascii ''commitment-len'', u64_le (length (bs_commitment_coefficients statement)))]
     @ map (\<lambda>p. (ascii ''commitment'', encoded_point E p)) (bs_commitment_coefficients statement)
     @ [(ascii ''num-receivers'', u64_le (length (bs_receivers statement)))]
     @ concat (map (receiver_fields E (bs_statement_roots statement)) (enumerate 0 (bs_receivers statement)))"

definition observable :: "('q, 'p::ab_group_add, 's) batched_statement \<Rightarrow> bool" where
  "observable statement \<longleftrightarrow> bs_pk1 statement \<noteq> 0
     \<and> (\<forall>rec \<in> set (bs_receivers statement). br_pkj rec \<noteq> 0 \<and> br_pad_commitment rec \<noteq> 0)"

context observer
begin

lemma observe_fields_Nil [simp]: "observe_fields M Ob [] st = st"
  by (simp add: observe_fields_def append_fields_def set_get)

lemma observe_fields_append: "observe_fields M Ob gs (observe_fields M Ob fs st) = observe_fields M Ob (fs @ gs) st"
  by (simp add: observe_fields_def append_fields_def get_set set_set)

lemma observe_bytes_fields: "observe_bytes M Ob l v st = observe_fields M Ob [(l, v)] st"
  by (simp add: observe_bytes_def observe_fields_def append_fields_def)

end

context stream_cycle
begin

lemma observe_point_cases:
  "observe_point M Ob (cycle_curve C) l p Reject st =
    (if p = 0 then Inl stream_error else Inr (observe_bytes M Ob l (encoded_point C p) st))"
  "observe_point M Ob (cycle_curve C) l p Allow st = Inr (observe_bytes M Ob l (encoded_point C p) st)"
  "observe_scalar M Ob (cycle_curve C) l s st = Inr (observe_bytes M Ob l (scalar_to_canonical C s) st)"
proof -
  have checked: "checked_point_encoding (cycle_curve C) p Allow = Inr (encoded_point C p)"
    by (simp add: stream.checked_point_encoding_Inr)
  show "observe_point M Ob (cycle_curve C) l p Reject st =
      (if p = 0 then Inl stream_error else Inr (observe_bytes M Ob l (encoded_point C p) st))"
  proof (cases "p = 0")
    case True
    then show ?thesis by (simp add: observe_point_def checked_point_encoding_def enforce_identity_def curve_identity)
  next
    case False
    then have "checked_point_encoding (cycle_curve C) p Reject = Inr (encoded_point C p)"
      by (simp add: stream.checked_point_encoding_Inr allowed_reject)
    with False show ?thesis by (simp only: observe_point_def rbind_Inr if_False)
  qed
  show "observe_point M Ob (cycle_curve C) l p Allow st = Inr (observe_bytes M Ob l (encoded_point C p) st)"
    by (simp add: observe_point_def checked)
  show "observe_scalar M Ob (cycle_curve C) l s st = Inr (observe_bytes M Ob l (scalar_to_canonical C s) st)"
    by (simp add: observe_scalar_def stream.checked_scalar_encoding_eq)
qed

end

text \<open>The two curves of the backend with their codecs.\<close>

locale evrf_codecs = gin_curve E valid_gin
  for E :: "('q::field, 'p::ab_group_add, 'a, 'c, 's::field, 'z) evrf_curve_scheme" and valid_gin :: "'c \<Rightarrow> bool" +
  fixes D :: "('s, 'o::ab_group_add, 'b, 'd, 'w) cycle_scheme" and valid_gout :: "'d \<Rightarrow> bool"
  assumes gout: "stream_cycle D valid_gout"
begin

lemmas gin_observe = observe_point_cases

lemmas gout_observe = stream_cycle.observe_point_cases[OF gout]

lemma observe_receiver_eq:
  assumes "observer Ob"
  shows "observe_batched_receiver M Ob E roots st (j, rec) =
    (if br_pkj rec = 0 \<or> br_pad_commitment rec = 0 then Inl stream_error
     else Inr (observe_fields M Ob (receiver_fields E roots (j, rec)) st))"
  by (simp add: observe_batched_receiver_def Let_def gin_observe observer.observe_bytes_fields[OF assms]
      observer.observe_fields_append[OF assms] receiver_fields_def)

lemma observe_receivers_eq:
  assumes "observer Ob"
  shows "rfold (observe_batched_receiver M Ob E roots) st recs =
    (if \<forall>(j, rec) \<in> set recs. br_pkj rec \<noteq> 0 \<and> br_pad_commitment rec \<noteq> 0
     then Inr (observe_fields M Ob (concat (map (receiver_fields E roots) recs)) st) else Inl stream_error)"
proof (induction recs arbitrary: st)
  case Nil
  show ?case by (simp add: observer.observe_fields_Nil[OF assms])
next
  case (Cons r recs)
  obtain j rec where r: "r = (j, rec)" by (cases r)
  show ?case
    unfolding r by (simp add: observe_receiver_eq[OF assms] Cons.IH observer.observe_fields_append[OF assms])
qed

lemma observe_batched_eq:
  assumes "observer Ob"
  shows "observe_batched_statement M Ob E D statement st =
    (if observable statement then Inr (observe_fields M Ob (batched_fields E D statement) st) else Inl stream_error)"
proof -
  have commitments: "rfold (\<lambda>st p. observe_point M Ob (cycle_curve E) l p Allow st) st ps
      = Inr (observe_fields M Ob (map (\<lambda>p. (l, encoded_point E p)) ps) st)" for l ps st
    by (induction ps arbitrary: st)
      (simp_all add: gin_observe observer.observe_bytes_fields[OF assms] observer.observe_fields_append[OF assms]
        observer.observe_fields_Nil[OF assms])
  have receivers: "(\<forall>(j, rec) \<in> set (enumerate 0 recs). P rec) \<longleftrightarrow> (\<forall>rec \<in> set recs. P rec)"
    for recs and P :: "('q, 'p) batched_receiver \<Rightarrow> bool"
  proof -
    have "map snd (enumerate 0 recs) = recs" by (simp add: enumerate_eq_zip)
    then have "set recs = snd ` set (enumerate 0 recs)" by (metis list.set_map)
    then show ?thesis by (simp add: case_prod_unfold)
  qed
  show ?thesis
    unfolding observe_batched_statement_def Let_def commitments
    by (simp add: observable_def batched_fields_def gin_observe gout_observe observe_receivers_eq[OF assms] receivers
      observer.observe_bytes_fields[OF assms] observer.observe_fields_append[OF assms])
qed

end

section \<open>Frames\<close>

definition framed :: "bytes \<Rightarrow> bytes" where
  "framed payload = u64_be (length payload) @ payload"

definition header_bytes :: "bytes \<Rightarrow> bytes" where
  "header_bytes pid = be_bytes 4 (length pid) @ pid"

lemma nested_frame_reads:
  "nested_frame V = Inr (payload, e) \<longleftrightarrow>
    reads (vs_proof V) (vs_cursor V) (framed payload) \<and> e = vs_cursor V + length (framed payload)"
proof -
  have slice: "slice_get xs k (k + 8) = Some bs \<longleftrightarrow> k \<le> length xs \<and> prefix bs (drop k xs)" if "length bs = 8" for xs k and bs :: bytes
    using slice_get_prefix[of xs k bs] by (simp only: that)
  have "nested_frame V = Inr (payload, e) \<longleftrightarrow> e = vs_cursor V + (8 + length payload) \<and> e < 2 ^ 64
      \<and> vs_cursor V \<le> length (vs_proof V) \<and> prefix (u64_be (length payload)) (drop (vs_cursor V) (vs_proof V))
      \<and> vs_cursor V + 8 \<le> length (vs_proof V) \<and> prefix payload (drop (vs_cursor V + 8) (vs_proof V))"
    unfolding nested_frame_Inr using slice_get_prefix[of "vs_proof V" "vs_cursor V + 8" payload]
    by (auto simp: slice add.assoc)
  moreover have "prefix (u64_be n @ payload) (drop k zs) \<longleftrightarrow> prefix (u64_be n) (drop k zs) \<and> prefix payload (drop (k + 8) zs)"
    for n k and zs :: bytes
  proof -
    have "prefix (xs @ ys) us \<longleftrightarrow> prefix xs us \<and> prefix ys (drop (length xs) us)" for xs ys us :: bytes
      by (auto simp: prefix_def)
    from this[of "u64_be n" payload "drop k zs"] show ?thesis by (simp add: add.commute)
  qed
  moreover have "vs_cursor V + 8 \<le> length (vs_proof V)"
    if "prefix (u64_be n) (drop (vs_cursor V) (vs_proof V))" "vs_cursor V \<le> length (vs_proof V)" for n
    using prefix_length_le[OF that(1)] that(2) by simp
  ultimately show ?thesis
    unfolding framed_def reads_def length_append length_be_bytes by blast
qed

lemma receive_nested_with_iff:
  "receive_nested_with consume V = Inr (x, W) \<longleftrightarrow>
    (\<exists>payload t. consume (vs_transcript V) payload = Inr (x, t) \<and> reads (vs_proof V) (vs_cursor V) (framed payload)
      \<and> W = V\<lparr>vs_transcript := t, vs_cursor := vs_cursor V + length (framed payload)\<rparr>)"
proof (cases "nested_frame V")
  case (Inl e)
  then have "\<not> reads (vs_proof V) (vs_cursor V) (framed payload)" for payload
    using nested_frame_reads[of V payload] by auto
  then show ?thesis using Inl by (simp add: receive_nested_with_def receive_nested_def)
next
  case (Inr pe)
  obtain payload e where pe: "pe = (payload, e)" by (cases pe)
  note here = Inr[unfolded pe, unfolded nested_frame_reads]
  have unique: "reads (vs_proof V) (vs_cursor V) (framed payload') \<longleftrightarrow> payload' = payload" for payload'
    using Inr nested_frame_reads[of V payload'] here by (auto simp: pe)
  show ?thesis
    unfolding unique using here
    by (cases "consume (vs_transcript V) payload") (auto simp: receive_nested_with_def receive_nested_def Inr pe Let_def)
qed

lemma truncate_simps [simp]:
  "merlin_new (merlin.truncate M) = merlin_new M" "append_message (merlin.truncate M) = append_message M"
  "challenge_bytes (merlin.truncate M) = challenge_bytes M"
  by (simp_all add: merlin.truncate_def)

lemma reads_all: "prefix h pr \<and> reads pr (length h) body \<and> length h + length body = length pr \<longleftrightarrow> pr = h @ body \<and> length pr < 2 ^ 64"
proof
  assume l: "prefix h pr \<and> reads pr (length h) body \<and> length h + length body = length pr"
  then obtain r where r: "pr = h @ r" by (elim conjE prefixE)
  with l have "prefix body r" "length body = length r" "length pr < 2 ^ 64" by (simp_all add: reads_def)
  then have "body = r" by (auto simp: prefix_def)
  with r \<open>length pr < 2 ^ 64\<close> show "pr = h @ body \<and> length pr < 2 ^ 64" by blast
next
  assume "pr = h @ body \<and> length pr < 2 ^ 64"
  then show "prefix h pr \<and> reads pr (length h) body \<and> length h + length body = length pr" by (auto simp: reads_def)
qed

section \<open>Batched proofs\<close>

definition batched_transcript ::
  "('t, 'y) merlin_scheme \<Rightarrow> ('q, 'p, 'a, 'c, 's, 'z) evrf_curve_scheme \<Rightarrow> ('s, 'o, 'b, 'd, 'w) cycle_scheme
    \<Rightarrow> ('q, 'p, 's) batched_statement \<Rightarrow> 't" where
  "batched_transcript M E D statement =
     append_fields (merlin.truncate M) (batched_fields E D statement) (merlin_new M BATCHED_PROOF_ID)"

text \<open>The checks of a statement by the verifier: exact, or batched from 99 coefficients and receivers on.\<close>

definition verifier_relations ::
  "('t, 'y) merlin_u64_scheme \<Rightarrow> ('q::field, 'p::ab_group_add, 'a, 'c, 's, 'z) evrf_curve_scheme \<Rightarrow> ('q, 'p, 's) batched_statement
    \<Rightarrow> 't \<Rightarrow> bool" where
  "verifier_relations M E statement t \<longleftrightarrow>
     (if min (bs_threshold statement) (length (bs_receivers statement)) < 99 then public_relations E statement
      else shape_ok statement \<and> bs_pk1 statement \<noteq> 0 \<and> (\<forall>rec \<in> set (bs_receivers statement). receiver_relations E rec)
        \<and> feldman_batch_matches M E statement t = Some (Inr True))"

context gin_curve
begin

lemma validate_for_verifier_iff:
  "validate_batched_public_relations_for_verifier M E statement t = Some (Inr ()) \<longleftrightarrow> verifier_relations M E statement t"
  by (auto simp: validate_batched_public_relations_for_verifier_def verifier_relations_def Let_def validate_impl_None validate_impl_Some)

end

lemma verifier_relations_shape:
  "verifier_relations M E statement t \<Longrightarrow> shape_ok statement \<and> observable statement"
  by (auto simp: verifier_relations_def public_relations_def observable_def receiver_relations_def split: if_splits)

lemma batched_id_length: "length BATCHED_PROOF_ID = 28"
  by (simp add: BATCHED_PROOF_ID_def)

text \<open>
  The reference: the parts of a proof in order, each right for the transcript before it, and the bytes their
  canonical encodings and nothing else.
\<close>

definition batched_reference ::
  "('t, 'y) merlin_u64_scheme \<Rightarrow> ('q::field, 'p::ab_group_add, 'a, 'c, 's::field, 'z) evrf_curve_scheme
    \<Rightarrow> ('s, 'o::ab_group_add, 'b, 'd, 'w) cycle_scheme \<Rightarrow> ('s, 't, 'bu, 'g, 'h, 'v) transcript_rng_scheme
    \<Rightarrow> ('p, 's) chord_precomp \<Rightarrow> ('o, 'b) batched_params \<Rightarrow> (bytes \<times> ('p, 's) chord_precomp) list
    \<Rightarrow> ('q, 'p, 's) batched_statement \<Rightarrow> bytes \<Rightarrow> 'g \<Rightarrow> ('s, 'o, 'b) verification_equation \<Rightarrow> bool" where
  "batched_reference M E D R g_table params tables statement pr g equation \<longleftrightarrow>
     (\<exists>pf t nonce z t'.
        prepare_batched_r1cs M E D R g_table params tables statement pf g (batched_transcript M E D statement) = Inr (equation, t)
      \<and> sigma_accepts (merlin.truncate M) E [(group_generator E, bs_commitment_coefficients statement ! 0)]
          [ascii ''constant-term.a''] (ascii ''constant-term.challenge'') (ascii ''constant-term.t'') [nonce] z t t'
      \<and> r1cs_from_bytes D (r1cs_to_bytes D pf) = Inr pf
      \<and> pr = header_bytes BATCHED_PROOF_ID @ framed (r1cs_to_bytes D pf) @ sigma_bytes E [nonce] z
      \<and> length pr < 2 ^ 64)"

context evrf_codecs
begin

lemma prepare_batched_proof_stream:
  "prepare_batched_proof M E D R g_table params tables statement pr g = Some (Inr equation) \<longleftrightarrow>
    prefix (header_bytes BATCHED_PROOF_ID) pr \<and> verifier_relations M E statement (batched_transcript M E D statement)
    \<and> (\<exists>V W. receive_nested_with (\<lambda>t payload. rbind (parse_canonical_r1cs_proof D payload) (\<lambda>pf.
          prepare_batched_r1cs M E D R g_table params tables statement pf g t))
          \<lparr>vs_transcript = batched_transcript M E D statement, vs_proof = pr, vs_cursor = length (header_bytes BATCHED_PROOF_ID)\<rparr>
          = Inr (equation, V)
        \<and> constant_term_verify (merlin.truncate M) E (bs_commitment_coefficients statement ! 0) V = Inr W
        \<and> vs_cursor W = length (vs_proof W))"
proof -
  have start: "verifier_new (merlin.truncate M) BATCHED_PROOF_ID pr = Inr V \<longleftrightarrow> prefix (header_bytes BATCHED_PROOF_ID) pr
      \<and> V = \<lparr>vs_transcript = merlin_new M BATCHED_PROOF_ID, vs_proof = pr, vs_cursor = length (header_bytes BATCHED_PROOF_ID)\<rparr>" for V
    by (simp add: verifier_new_Inr header_bytes_def batched_id_length)
  have finish: "verifier_finish W = Inr () \<longleftrightarrow> vs_cursor W = length (vs_proof W)" for W
    by (simp add: verifier_finish_def)
  have observed: "observe_batched_statement (merlin.truncate M) verifier_observe E D statement
        \<lparr>vs_transcript = merlin_new M BATCHED_PROOF_ID, vs_proof = pr, vs_cursor = c\<rparr> = Inr V
      \<longleftrightarrow> observable statement \<and> V = \<lparr>vs_transcript = batched_transcript M E D statement, vs_proof = pr, vs_cursor = c\<rparr>" for c V
    unfolding observe_batched_eq[OF on_verifier.observer_axioms]
    by (auto simp: observe_fields_def verifier_observe_def batched_transcript_def)
  show ?thesis
    unfolding prepare_batched_proof_def Let_def
    using verifier_relations_shape[of M E statement "batched_transcript M E D statement"]
    by (auto simp: obind_eq_Inr start observed finish validate_for_verifier_iff)
qed

lemma prepare_batched_proof_iff:
  "prepare_batched_proof M E D R g_table params tables statement pr g = Some (Inr equation) \<longleftrightarrow>
    verifier_relations M E statement (batched_transcript M E D statement)
    \<and> batched_reference M E D R g_table params tables statement pr g equation"
proof -
  let ?h = "header_bytes BATCHED_PROOF_ID" and ?t = "batched_transcript M E D statement" and ?Ms = "merlin.truncate M"
  let ?sigma = "\<lambda>r z t t'. sigma_accepts ?Ms E [(group_generator E, bs_commitment_coefficients statement ! 0)]
          [ascii ''constant-term.a''] (ascii ''constant-term.challenge'') (ascii ''constant-term.t'') [r] z t t'"
  let ?prepare = "\<lambda>pf t. prepare_batched_r1cs M E D R g_table params tables statement pf g ?t = Inr (equation, t)"
  have whole: "prefix ?h pr \<and> reads pr (length ?h) a \<and> reads pr (length ?h + length a) b \<and> length ?h + length a + length b = length pr
      \<longleftrightarrow> pr = ?h @ a @ b \<and> length pr < 2 ^ 64" for a b
    using reads_all[of ?h pr "a @ b"] by (simp add: reads_append add.assoc)
  have received: "receive_nested_with (\<lambda>t payload. rbind (parse_canonical_r1cs_proof D payload) (\<lambda>pf.
          prepare_batched_r1cs M E D R g_table params tables statement pf g t))
          \<lparr>vs_transcript = ?t, vs_proof = pr, vs_cursor = length ?h\<rparr> = Inr (equation, V)
      \<longleftrightarrow> (\<exists>pf t. (r1cs_from_bytes D (r1cs_to_bytes D pf) = Inr pf \<and> ?prepare pf t \<and> reads pr (length ?h) (framed (r1cs_to_bytes D pf)))
        \<and> V = \<lparr>vs_transcript = t, vs_proof = pr, vs_cursor = length ?h + length (framed (r1cs_to_bytes D pf))\<rparr>)" for V
    unfolding receive_nested_with_iff by (auto simp: parse_canonical_iff)
  have opened: "(\<exists>W. constant_term_verify ?Ms E (bs_commitment_coefficients statement ! 0) V = Inr W \<and> vs_cursor W = length (vs_proof W))
      \<longleftrightarrow> (\<exists>r z t'. ?sigma r z (vs_transcript V) t' \<and> reads (vs_proof V) (vs_cursor V) (sigma_bytes E [r] z)
        \<and> vs_cursor V + length (sigma_bytes E [r] z) = length (vs_proof V))" for V
    unfolding constant_term_verify_iff sigma_receives_one by fastforce
  have stream: "prepare_batched_proof M E D R g_table params tables statement pr g = Some (Inr equation) \<longleftrightarrow>
      verifier_relations M E statement ?t \<and> (\<exists>pf t r z t'. r1cs_from_bytes D (r1cs_to_bytes D pf) = Inr pf \<and> ?prepare pf t \<and> ?sigma r z t t'
        \<and> prefix ?h pr \<and> reads pr (length ?h) (framed (r1cs_to_bytes D pf))
        \<and> reads pr (length ?h + length (framed (r1cs_to_bytes D pf))) (sigma_bytes E [r] z)
        \<and> length ?h + length (framed (r1cs_to_bytes D pf)) + length (sigma_bytes E [r] z) = length pr)"
    (is "_ \<longleftrightarrow> _ \<and> ?rhs")
  proof -
    have "(\<exists>V W. receive_nested_with (\<lambda>t payload. rbind (parse_canonical_r1cs_proof D payload) (\<lambda>pf.
          prepare_batched_r1cs M E D R g_table params tables statement pf g t))
          \<lparr>vs_transcript = ?t, vs_proof = pr, vs_cursor = length ?h\<rparr> = Inr (equation, V)
        \<and> constant_term_verify ?Ms E (bs_commitment_coefficients statement ! 0) V = Inr W \<and> vs_cursor W = length (vs_proof W))
      \<and> prefix ?h pr \<longleftrightarrow> ?rhs" (is "(\<exists>V W. ?received V \<and> ?opened V W) \<and> _ \<longleftrightarrow> _")
    proof -
      have shuffle: "(\<exists>V. (\<exists>pf t. A pf t \<and> V = f pf t) \<and> B V) \<longleftrightarrow> (\<exists>pf t. A pf t \<and> B (f pf t))"
        for A :: "('s, 'd) r1cs_proof \<Rightarrow> 't \<Rightarrow> bool" and f B by blast
      have "(\<exists>V W. ?received V \<and> ?opened V W) \<longleftrightarrow> (\<exists>V. ?received V \<and> (\<exists>W. ?opened V W))" by blast
      then show ?thesis unfolding received opened shuffle verifier_stream.simps by blast
    qed
    then show ?thesis unfolding prepare_batched_proof_stream by blast
  qed
  show ?thesis
    unfolding stream batched_reference_def whole by blast
qed

text \<open>A batched proof is accepted exactly when it is the encoding of parts that pass the reference check.\<close>

lemma evrf_batched_verify_reference:
  "evrf_batched_verify M E D R g_table params statement pr g = Some (Inr ()) \<longleftrightarrow>
    bp_threshold params = bs_threshold statement \<and> bp_receiver_count params = length (bs_receivers statement)
    \<and> verifier_relations M E statement (batched_transcript M E D statement)
    \<and> (\<exists>tables equation. receiver_chord_precomps_new E [statement] = Inr tables
        \<and> batched_reference M E D R g_table params tables statement pr g equation \<and> check_equation D equation = Inr ())"
proof -
  have params: "params_validate_statement params statement = Inr () \<longleftrightarrow>
      bp_threshold params = bs_threshold statement \<and> bp_receiver_count params = length (bs_receivers statement)"
    by (auto simp: params_validate_statement_def)
  show ?thesis
    unfolding evrf_batched_verify_def
    using verifier_relations_shape[of M E statement "batched_transcript M E D statement"]
    by (auto simp: obind_eq_Inr params validate_shape_iff prepare_batched_proof_iff)
qed

end

section \<open>One-receiver proofs\<close>

definition one_receiver_fields ::
  "('q, 'p, 'a, 'c, 's, 'z) evrf_curve_scheme \<Rightarrow> ('s, 'o, 'b, 'd, 'w) cycle_scheme \<Rightarrow> ('p, 'o, 's) one_receiver_statement
    \<Rightarrow> (bytes \<times> bytes) list" where
  "one_receiver_fields E D st =
     [(ascii ''statement.msg'', or_msg st), (ascii ''statement.pk1'', encoded_point E (or_pk1 st)),
      (ascii ''statement.pk2'', encoded_point E (or_pk2 st)), (ascii ''statement.s'', encoded_point E (or_s st)),
      (ascii ''statement.h1'', encoded_point E (or_h1 st)), (ascii ''statement.h2'', encoded_point E (or_h2 st)),
      (ascii ''statement.t1'', encoded_point E (or_t1 st)), (ascii ''statement.t2'', encoded_point E (or_t2 st)),
      (ascii ''statement.r'', encoded_point D (or_r_point st)), (ascii ''statement.beta'', scalar_to_canonical D (or_beta st))]"

definition one_receiver_transcript ::
  "('t, 'y) merlin_scheme \<Rightarrow> ('q, 'p, 'a, 'c, 's, 'z) evrf_curve_scheme \<Rightarrow> ('s, 'o, 'b, 'd, 'w) cycle_scheme
    \<Rightarrow> ('p, 'o, 's) one_receiver_statement \<Rightarrow> 't" where
  "one_receiver_transcript M E D st =
     append_fields (merlin.truncate M) (one_receiver_fields E D st) (merlin_new M ONE_RECEIVER_PROOF_ID)"

definition one_receiver_observable :: "('p::ab_group_add, 'o, 's) one_receiver_statement \<Rightarrow> bool" where
  "one_receiver_observable st \<longleftrightarrow>
     0 \<notin> {or_pk1 st, or_pk2 st, or_s st, or_h1 st, or_h2 st, or_t1 st, or_t2 st}"

text \<open>The R1CS part: the circuit of the statement with the two commitments, and its proof.\<close>

definition one_receiver_r1cs_accepts ::
  "('t, 'y) merlin_u64_scheme \<Rightarrow> ('s::field, 'o::ab_group_add, 'b, 'd, 'w) cycle_scheme
    \<Rightarrow> ('s, 't, 'bu, 'g, 'h, 'v) transcript_rng_scheme \<Rightarrow> 'o pedersen_gens \<Rightarrow> 'b bulletproof_gens
    \<Rightarrow> ('p, 's) one_receiver_public \<Rightarrow> 's \<Rightarrow> 'g \<Rightarrow> 'd \<Rightarrow> 'd \<Rightarrow> ('s, 'd) r1cs_proof \<Rightarrow> 't \<Rightarrow> 't \<Rightarrow> bool" where
  "one_receiver_r1cs_accepts M D R pc_gens bp_gens public beta g v_k v_r pf t t' \<longleftrightarrow>
     (let (var_k, verifier) = verifier_commit M D v_k (verifier_cs_new M t);
          (var_r, verifier) = verifier_commit M D v_r verifier
      in \<exists>vf. run_verifier M D (build_one_receiver_r1cs var_k var_r (op_s_x public) (op_precomp1 public)
            (op_precomp2 public) (fst (op_t1 public)) (snd (op_t1 public)) (fst (op_t2 public)) (snd (op_t2 public)) beta
            (replicate (K_BITS + 1) None) None None) verifier = Inr vf
        \<and> verify_and_return_transcript M D R pc_gens bp_gens g pf vf = Inr t')"

context stream_cycle
begin

lemma encoded_point_inject: "encoded_point C p = encoded_point C q \<longleftrightarrow> p = q"
proof
  assume "encoded_point C p = encoded_point C q"
  then show "p = q"
    using stream.point_decode[of p] stream.point_decode[of q] by (simp del: cycle_curve_fields(3,4))
qed simp

lemma encodings_differ_iff: "encodings_differ C p q \<longleftrightarrow> p \<noteq> q"
  using encoded_point_inject[of p q] by (simp add: encodings_differ_def encoded_point_def)

lemma one_receiver_r1cs_verify_iff:
  assumes "length payload < 2 ^ 64"
  shows "one_receiver_r1cs_verify M C R pc_gens bp_gens r_point public beta g t payload = Inr ((), t') \<longleftrightarrow>
    (\<exists>K pf. payload = encoded_point C K @ encoded_point C (r_point + ped_B_blinding pc_gens) @ r1cs_to_bytes C pf
      \<and> r1cs_from_bytes C (r1cs_to_bytes C pf) = Inr pf
      \<and> one_receiver_r1cs_accepts M C R pc_gens bp_gens public beta g (point_compress C K)
          (point_compress C (r_point + ped_B_blinding pc_gens)) pf t t')"
proof -
  let ?V = "r_point + ped_B_blinding pc_gens"
  have tail: "slice_get payload k (length payload) = Some bs \<longleftrightarrow> k \<le> length payload \<and> bs = drop k payload" for k bs
    by (auto simp: slice_get_def)
  have cut: "reads payload 0 a \<and> reads payload (length a) b \<and> length a + length b \<le> length payload \<and> c = drop (length a + length b) payload
      \<longleftrightarrow> payload = a @ b @ c" for a b c
  proof -
    have "reads payload 0 a \<and> reads payload (length a) b \<longleftrightarrow> prefix (a @ b) payload \<and> length (a @ b) < 2 ^ 64"
    proof -
      have "reads payload 0 a \<and> reads payload (length a) b \<longleftrightarrow> reads payload 0 (a @ b)"
        using reads_append[of payload 0 a b] by (simp only: add_0)
      then show ?thesis by (auto simp: reads_def)
    qed
    then show ?thesis using assms by (auto simp: prefix_def append_eq_conv_conj)
  qed
  have calls: "one_receiver_r1cs_verify M C R pc_gens bp_gens r_point public beta g t payload = Inr ((), t') \<longleftrightarrow>
    (\<exists>v_k c1 v_r c2 bs pf. parse_nested_commitment C payload 0 Allow = Inr (v_k, c1)
      \<and> parse_nested_commitment C payload c1 Allow = Inr (v_r, c2) \<and> slice_get payload c2 (length payload) = Some bs
      \<and> parse_canonical_r1cs_proof C bs = Inr pf \<and> pedersen_prefix_link C (ped_B_blinding pc_gens) r_point v_r = Inr ()
      \<and> one_receiver_r1cs_accepts M C R pc_gens bp_gens public beta g v_k v_r pf t t')"
    by (simp add: one_receiver_r1cs_verify_def one_receiver_r1cs_accepts_def Let_def case_prod_unfold)
  have parts: "one_receiver_r1cs_verify M C R pc_gens bp_gens r_point public beta g t payload = Inr ((), t') \<longleftrightarrow>
    (\<exists>K V pf. reads payload 0 (encoded_point C K) \<and> reads payload (length (encoded_point C K)) (encoded_point C V)
      \<and> length (encoded_point C K) + length (encoded_point C V) \<le> length payload
      \<and> r1cs_to_bytes C pf = drop (length (encoded_point C K) + length (encoded_point C V)) payload
      \<and> r1cs_from_bytes C (r1cs_to_bytes C pf) = Inr pf \<and> V = ?V
      \<and> one_receiver_r1cs_accepts M C R pc_gens bp_gens public beta g (point_compress C K) (point_compress C V) pf t t')"
    unfolding calls parse_nested_commitment_iff tail parse_canonical_iff add_0 using prefix_link_iff by fastforce
  show ?thesis unfolding parts using cut by blast
qed

end

definition public_of ::
  "('q::field, 'p::ab_group_add, 'a, 'c, 's, 'z) evrf_curve_scheme \<Rightarrow> ('p, 'o, 's) one_receiver_statement
    \<Rightarrow> ('p, 's) one_receiver_public \<Rightarrow> bool" where
  "public_of E st public \<longleftrightarrow>
     (\<exists>s_y. affine_xy E (or_s st) = Inr (op_s_x public, s_y))
     \<and> precompute_chord E (h_gin_1 E (or_msg st)) K_BITS = Inr (op_precomp1 public)
     \<and> precompute_chord E (h_gin_2 E (or_msg st)) K_BITS = Inr (op_precomp2 public)
     \<and> affine_xy E (or_t1 st) = Inr (op_t1 public) \<and> affine_xy E (or_t2 st) = Inr (op_t2 public)"

definition one_receiver_reference ::
  "('t, 'y) merlin_u64_scheme \<Rightarrow> ('q::field, 'p::ab_group_add, 'a, 'c, 's::field, 'z) evrf_curve_scheme
    \<Rightarrow> ('s, 'o::ab_group_add, 'b, 'd, 'w) cycle_scheme \<Rightarrow> ('s, 't, 'bu, 'g, 'h, 'v) transcript_rng_scheme
    \<Rightarrow> 'o pedersen_gens \<Rightarrow> 'b bulletproof_gens \<Rightarrow> ('p, 'o, 's) one_receiver_statement \<Rightarrow> bytes \<Rightarrow> 'g \<Rightarrow> bool" where
  "one_receiver_reference M E D R pc_gens bp_gens st pr g \<longleftrightarrow>
     (let Ms = merlin.truncate M; V = or_r_point st + ped_B_blinding pc_gens in
      \<exists>public r1 r2 z K pf a y t1 t2 t3. public_of E st public
      \<and> sigma_accepts Ms E [(group_generator E, or_pk1 st), (or_pk2 st, or_s st)] [ascii ''cp.r1'', ascii ''cp.r2'']
          (ascii ''cp.challenge'') (ascii ''cp.z'') [r1, r2] z (one_receiver_transcript M E D st) t1
      \<and> one_receiver_r1cs_accepts M D R pc_gens bp_gens public (or_beta st) g (point_compress D K) (point_compress D V) pf t1 t2
      \<and> sigma_accepts Ms D [(group_generator D, or_r_point st)] [ascii ''dlog.a''] (ascii ''dlog.challenge'') (ascii ''dlog.t'')
          [a] y t2 t3
      \<and> r1cs_from_bytes D (r1cs_to_bytes D pf) = Inr pf
      \<and> pr = header_bytes ONE_RECEIVER_PROOF_ID @ sigma_bytes E [r1, r2] z
          @ framed (encoded_point D K @ encoded_point D V @ r1cs_to_bytes D pf) @ sigma_bytes D [a] y
      \<and> length pr < 2 ^ 64)"

context evrf_codecs
begin

lemma observe_one_receiver_eq:
  assumes "observer Ob"
  shows "observe_one_receiver_statement M Ob E D st x =
    (if one_receiver_observable st then Inr (observe_fields M Ob (one_receiver_fields E D st) x) else Inl stream_error)"
  by (simp add: observe_one_receiver_statement_def Let_def gin_observe gout_observe one_receiver_observable_def
      observer.observe_bytes_fields[OF assms] observer.observe_fields_append[OF assms] one_receiver_fields_def)

lemma evrf_verify_calls:
  "evrf_verify M E D R pc_gens bp_gens st pr g = Inr () \<longleftrightarrow>
    prefix (header_bytes ONE_RECEIVER_PROOF_ID) pr \<and> one_receiver_observable st
    \<and> or_h1 st = h_gin_1 E (or_msg st) \<and> or_h2 st = h_gin_2 E (or_msg st)
    \<and> (\<exists>public V1 V2 V3. public_of E st public
      \<and> chaum_pedersen_verify (merlin.truncate M) E (group_generator E) (or_pk1 st) (or_pk2 st) (or_s st)
          \<lparr>vs_transcript = one_receiver_transcript M E D st, vs_proof = pr, vs_cursor = length (header_bytes ONE_RECEIVER_PROOF_ID)\<rparr> = Inr V1
      \<and> receive_nested_with (one_receiver_r1cs_verify M D R pc_gens bp_gens (or_r_point st) public (or_beta st) g) V1 = Inr ((), V2)
      \<and> dlog_verify (merlin.truncate M) D (group_generator D) (or_r_point st) V2 = Inr V3
      \<and> vs_cursor V3 = length (vs_proof V3))"
proof -
  have start: "verifier_new (merlin.truncate M) ONE_RECEIVER_PROOF_ID pr = Inr V \<longleftrightarrow> prefix (header_bytes ONE_RECEIVER_PROOF_ID) pr
      \<and> V = \<lparr>vs_transcript = merlin_new M ONE_RECEIVER_PROOF_ID, vs_proof = pr, vs_cursor = length (header_bytes ONE_RECEIVER_PROOF_ID)\<rparr>" for V
    by (simp add: verifier_new_Inr header_bytes_def ONE_RECEIVER_PROOF_ID_def)
  have finish: "verifier_finish W = Inr () \<longleftrightarrow> vs_cursor W = length (vs_proof W)" for W
    by (simp add: verifier_finish_def)
  have observed: "observe_one_receiver_statement (merlin.truncate M) verifier_observe E D st
        \<lparr>vs_transcript = merlin_new M ONE_RECEIVER_PROOF_ID, vs_proof = pr, vs_cursor = c\<rparr> = Inr V
      \<longleftrightarrow> one_receiver_observable st \<and> V = \<lparr>vs_transcript = one_receiver_transcript M E D st, vs_proof = pr, vs_cursor = c\<rparr>" for c V
    unfolding observe_one_receiver_eq[OF on_verifier.observer_axioms]
    by (auto simp: observe_fields_def verifier_observe_def one_receiver_transcript_def)
  have ex_public: "(\<exists>public. P public) \<longleftrightarrow>
      (\<exists>s_x p1 p2 t1 t2. P \<lparr>op_s_x = s_x, op_precomp1 = p1, op_precomp2 = p2, op_t1 = t1, op_t2 = t2\<rparr>)"
    for P :: "('p, 's) one_receiver_public \<Rightarrow> bool"
    by (metis (full_types) one_receiver_public.cases)
  show ?thesis
    unfolding evrf_verify_def Let_def ex_public
    by (auto simp: start observed finish encodings_differ_iff public_of_def)
qed

text \<open>A one-receiver proof is accepted exactly when it is the encoding of parts that pass the reference check.\<close>

lemma evrf_verify_reference:
  "evrf_verify M E D R pc_gens bp_gens st pr g = Inr () \<longleftrightarrow>
    one_receiver_observable st \<and> or_h1 st = h_gin_1 E (or_msg st) \<and> or_h2 st = h_gin_2 E (or_msg st)
    \<and> one_receiver_reference M E D R pc_gens bp_gens st pr g"
proof -
  let ?h = "header_bytes ONE_RECEIVER_PROOF_ID" and ?Ms = "merlin.truncate M" and ?V = "or_r_point st + ped_B_blinding pc_gens"
  let ?at = "\<lambda>t k. \<lparr>vs_transcript = t, vs_proof = pr, vs_cursor = k\<rparr>"
  let ?cp = "\<lambda>r1 r2 z. sigma_accepts ?Ms E [(group_generator E, or_pk1 st), (or_pk2 st, or_s st)] [ascii ''cp.r1'', ascii ''cp.r2'']
          (ascii ''cp.challenge'') (ascii ''cp.z'') [r1, r2] z"
  let ?dlog = "\<lambda>a y. sigma_accepts ?Ms D [(group_generator D, or_r_point st)] [ascii ''dlog.a''] (ascii ''dlog.challenge'')
          (ascii ''dlog.t'') [a] y"
  let ?payload = "\<lambda>K pf. encoded_point D K @ encoded_point D ?V @ r1cs_to_bytes D pf"
  let ?r1cs = "\<lambda>public K pf t t'. one_receiver_r1cs_accepts M D R pc_gens bp_gens public (or_beta st) g (point_compress D K)
          (point_compress D ?V) pf t t' \<and> r1cs_from_bytes D (r1cs_to_bytes D pf) = Inr pf"
  have cp: "chaum_pedersen_verify ?Ms E (group_generator E) (or_pk1 st) (or_pk2 st) (or_s st) (?at t k) = Inr W \<longleftrightarrow>
      (\<exists>r1 r2 z t1. (?cp r1 r2 z t t1 \<and> reads pr k (sigma_bytes E [r1, r2] z)) \<and> W = ?at t1 (k + length (sigma_bytes E [r1, r2] z)))" for t k W
    unfolding chaum_pedersen_verify_iff sigma_receives_two by (auto 0 3)
  have nested: "receive_nested_with (one_receiver_r1cs_verify M D R pc_gens bp_gens (or_r_point st) public (or_beta st) g) (?at t k) = Inr ((), W)
      \<longleftrightarrow> (\<exists>K pf t2. (?r1cs public K pf t t2 \<and> reads pr k (framed (?payload K pf))) \<and> W = ?at t2 (k + length (framed (?payload K pf))))"
    for public t k W
  proof -
    have short: "length payload < 2 ^ 64" if "reads pr k (framed payload)" for payload
      using that by (auto simp: reads_def framed_def)
    have "receive_nested_with (one_receiver_r1cs_verify M D R pc_gens bp_gens (or_r_point st) public (or_beta st) g) (?at t k) = Inr ((), W)
        \<longleftrightarrow> (\<exists>payload t2. reads pr k (framed payload) \<and> W = ?at t2 (k + length (framed payload))
          \<and> (\<exists>K pf. payload = ?payload K pf \<and> ?r1cs public K pf t t2))"
    proof -
      have body: "one_receiver_r1cs_verify M D R pc_gens bp_gens (or_r_point st) public (or_beta st) g t payload = Inr ((), t2)
          \<and> reads pr k (framed payload) \<longleftrightarrow> reads pr k (framed payload) \<and> (\<exists>K pf. payload = ?payload K pf \<and> ?r1cs public K pf t t2)" for payload t2
        using stream_cycle.one_receiver_r1cs_verify_iff[OF gout short, of payload M R pc_gens bp_gens "or_r_point st" public "or_beta st" g t t2]
        by blast
      have "receive_nested_with (one_receiver_r1cs_verify M D R pc_gens bp_gens (or_r_point st) public (or_beta st) g) (?at t k) = Inr ((), W)
          \<longleftrightarrow> (\<exists>payload t2. (one_receiver_r1cs_verify M D R pc_gens bp_gens (or_r_point st) public (or_beta st) g t payload = Inr ((), t2)
            \<and> reads pr k (framed payload)) \<and> W = ?at t2 (k + length (framed payload)))"
        unfolding receive_nested_with_iff by simp
      then show ?thesis unfolding body by blast
    qed
    then show ?thesis by blast
  qed
  have dlog: "(\<exists>W. dlog_verify ?Ms D (group_generator D) (or_r_point st) (?at t k) = Inr W \<and> vs_cursor W = length (vs_proof W))
      \<longleftrightarrow> (\<exists>a y t3. ?dlog a y t t3 \<and> reads pr k (sigma_bytes D [a] y) \<and> k + length (sigma_bytes D [a] y) = length pr)" for t k
    unfolding stream_cycle.dlog_verify_iff[OF gout] stream_cycle.sigma_receives_one[OF gout] by fastforce
  have whole: "prefix ?h pr \<and> reads pr (length ?h) a \<and> reads pr (length ?h + length a) b \<and> reads pr (length ?h + length a + length b) c
      \<and> length ?h + length a + length b + length c = length pr \<longleftrightarrow> pr = ?h @ a @ b @ c \<and> length pr < 2 ^ 64" for a b c
    using reads_all[of ?h pr "a @ b @ c"] by (simp add: reads_append add.assoc)
  have "(\<exists>public V1 V2 V3. public_of E st public
      \<and> chaum_pedersen_verify ?Ms E (group_generator E) (or_pk1 st) (or_pk2 st) (or_s st)
          (?at (one_receiver_transcript M E D st) (length ?h)) = Inr V1
      \<and> receive_nested_with (one_receiver_r1cs_verify M D R pc_gens bp_gens (or_r_point st) public (or_beta st) g) V1 = Inr ((), V2)
      \<and> dlog_verify ?Ms D (group_generator D) (or_r_point st) V2 = Inr V3
      \<and> vs_cursor V3 = length (vs_proof V3))
    \<longleftrightarrow> (\<exists>public r1 r2 z t1 K pf t2 a y t3. public_of E st public \<and> ?cp r1 r2 z (one_receiver_transcript M E D st) t1
      \<and> reads pr (length ?h) (sigma_bytes E [r1, r2] z) \<and> ?r1cs public K pf t1 t2
      \<and> reads pr (length ?h + length (sigma_bytes E [r1, r2] z)) (framed (?payload K pf)) \<and> ?dlog a y t2 t3
      \<and> reads pr (length ?h + length (sigma_bytes E [r1, r2] z) + length (framed (?payload K pf))) (sigma_bytes D [a] y)
      \<and> length ?h + length (sigma_bytes E [r1, r2] z) + length (framed (?payload K pf)) + length (sigma_bytes D [a] y) = length pr)"
    (is "?calls \<longleftrightarrow> ?parts")
  proof -
    have "?calls \<longleftrightarrow> (\<exists>public V1 V2. public_of E st public
      \<and> chaum_pedersen_verify ?Ms E (group_generator E) (or_pk1 st) (or_pk2 st) (or_s st)
          (?at (one_receiver_transcript M E D st) (length ?h)) = Inr V1
      \<and> receive_nested_with (one_receiver_r1cs_verify M D R pc_gens bp_gens (or_r_point st) public (or_beta st) g) V1 = Inr ((), V2)
      \<and> (\<exists>V3. dlog_verify ?Ms D (group_generator D) (or_r_point st) V2 = Inr V3 \<and> vs_cursor V3 = length (vs_proof V3)))"
      by blast
    also have "\<dots> \<longleftrightarrow> (\<exists>public r1 r2 z t1 V2. public_of E st public \<and> ?cp r1 r2 z (one_receiver_transcript M E D st) t1
      \<and> reads pr (length ?h) (sigma_bytes E [r1, r2] z)
      \<and> receive_nested_with (one_receiver_r1cs_verify M D R pc_gens bp_gens (or_r_point st) public (or_beta st) g)
          (?at t1 (length ?h + length (sigma_bytes E [r1, r2] z))) = Inr ((), V2)
      \<and> (\<exists>V3. dlog_verify ?Ms D (group_generator D) (or_r_point st) V2 = Inr V3 \<and> vs_cursor V3 = length (vs_proof V3)))"
      unfolding cp by blast
    also have "\<dots> \<longleftrightarrow> (\<exists>public r1 r2 z t1 K pf t2. public_of E st public \<and> ?cp r1 r2 z (one_receiver_transcript M E D st) t1
      \<and> reads pr (length ?h) (sigma_bytes E [r1, r2] z) \<and> ?r1cs public K pf t1 t2
      \<and> reads pr (length ?h + length (sigma_bytes E [r1, r2] z)) (framed (?payload K pf))
      \<and> (\<exists>V3. dlog_verify ?Ms D (group_generator D) (or_r_point st)
            (?at t2 (length ?h + length (sigma_bytes E [r1, r2] z) + length (framed (?payload K pf)))) = Inr V3 \<and> vs_cursor V3 = length (vs_proof V3)))"
      unfolding nested by blast
    also have "\<dots> \<longleftrightarrow> ?parts" unfolding dlog by blast
    finally show ?thesis .
  qed
  note parts = this
  show ?thesis
  proof -
    have "prefix ?h pr \<and> (\<exists>public V1 V2 V3. public_of E st public
      \<and> chaum_pedersen_verify ?Ms E (group_generator E) (or_pk1 st) (or_pk2 st) (or_s st)
          (?at (one_receiver_transcript M E D st) (length ?h)) = Inr V1
      \<and> receive_nested_with (one_receiver_r1cs_verify M D R pc_gens bp_gens (or_r_point st) public (or_beta st) g) V1 = Inr ((), V2)
      \<and> dlog_verify ?Ms D (group_generator D) (or_r_point st) V2 = Inr V3
      \<and> vs_cursor V3 = length (vs_proof V3)) \<longleftrightarrow> one_receiver_reference M E D R pc_gens bp_gens st pr g"
      unfolding parts one_receiver_reference_def Let_def using whole by blast
    then show ?thesis unfolding evrf_verify_calls by blast
  qed
qed

end

text \<open>The curves of the backend over \<open>halo2curves\<close>.\<close>

context halo2_total
begin

lemma halo2_gin_curve: "gin_curve (halo2_evrf_curve H domain) (\<lambda>c. length c = 33)"
  by (rule halo2_gin.gin_curve_axioms)

lemma halo2_stream_cycle: "stream_cycle (halo2_cycle H domain) (\<lambda>c. length c = 33)"
  by (rule halo2_stream.stream_cycle_axioms)

end

lemma halo2_evrf_codecs:
  assumes "halo2_total H" "halo2_total H'"
  shows "evrf_codecs (halo2_evrf_curve H domain) (\<lambda>c. length c = 33) (halo2_cycle H' domain') (\<lambda>c. length c = 33)"
  using halo2_total.halo2_gin_curve[OF assms(1)] halo2_total.halo2_stream_cycle[OF assms(2)]
  by (simp add: evrf_codecs_def evrf_codecs_axioms_def)

interpretation tiny_evrf: evrf_codecs "halo2_evrf_curve tiny_halo2 secp256k1_domain" "\<lambda>c. length c = 33"
    "halo2_cycle tiny_halo2 secq256k1_domain" "\<lambda>c. length c = 33"
  by (rule halo2_evrf_codecs[OF tinyh.halo2_total_axioms tinyh.halo2_total_axioms])

end
