(* ===== verification/Evrf_Relation_Complete.thy ===== *)
theory Evrf_Relation_Complete
  imports Evrf_Count
begin

text \<open>
  The honest prover of the paper eVRF completes its circuits: when the computation of a receiver's witness
  succeeds, the slot with that witness is satisfied. The locale \<open>secp_secq\<close> is the contract of the two curves:
  the addition law of \<open>G_in\<close>, and the conversions between the fields through canonical bytes.
\<close>

section \<open>The two curves\<close>

locale secp_secq = chord_curve E
  for E :: "('q::field, 'p::ab_group_add, 'a, 'c, 's::field, 'z) evrf_curve_scheme" +
  fixes D :: "('s, 'o::ab_group_add, 'b, 'd, 'w) cycle_scheme"
  assumes cycle_D: "cycle_laws D"
    and fq_length: "length (scalar_to_canonical E y) = 32"
    and fq_repr: "from_le (scalar_to_canonical E (of_nat n)) = n mod modulus_int SECP256K1_SCALAR_MODULUS_LE"
    and fp_length: "length (scalar_to_canonical D x) = 32"
    and fp_repr: "from_le (scalar_to_canonical D (of_nat n)) = n mod modulus_int SECP256K1_BASE_MODULUS_LE"
    and encoding_inject: "encoded E p = encoded E q \<Longrightarrow> p = q"
    and torsion: "no_small_torsion TYPE('s)"

text \<open>The elements of the base field that are integers below the modulus; in the field itself, all of them.\<close>

definition fp_elements :: "'s::field set" where
  "fp_elements = of_nat ` {..<modulus_int SECP256K1_BASE_MODULUS_LE}"

definition fq_elements :: "'q::field set" where
  "fq_elements = of_nat ` {..<modulus_int SECP256K1_SCALAR_MODULUS_LE}"

text \<open>The intermediate numbers of a receiver are integers of the field; in the field itself, they always are.\<close>

definition receiver_integral ::
  "('q::field, 'p::ab_group_add, 'a, 'c, 's::field, 'z) evrf_curve_scheme \<Rightarrow> 'p \<Rightarrow> 'p \<Rightarrow> 's \<Rightarrow> 'q \<Rightarrow> ('q, 'p) batched_receiver \<Rightarrow> bool" where
  "receiver_integral E h1 h2 beta sk1 rec \<longleftrightarrow>
     (\<forall>s. xy E (point_mul E (br_pkj rec) sk1) = Some s \<longrightarrow> fst s \<in> fp_elements
       \<and> (\<forall>k t1 t2. fst s = of_nat k \<longrightarrow> xy E (point_mul E h1 (of_nat k)) = Some t1 \<longrightarrow> xy E (point_mul E h2 (of_nat k)) = Some t2 \<longrightarrow>
            beta * fst t1 + fst t2 \<in> fp_elements))"

lemma limbs_raw: "length bs = 32 \<Longrightarrow> limbs_int (raw_limbs bs) = from_le bs"
proof -
  assume len: "length bs = 32"
  have word: "unat (word_of_nat (from_le (take 8 xs)) :: u64) = from_le (take 8 xs)" for xs
  proof -
    have "from_le (take 8 xs) < 256 ^ length (take 8 xs)" by (rule from_le_less)
    also have "(256 :: nat) ^ length (take 8 xs) \<le> 256 ^ 8" by (intro power_increasing) simp_all
    finally have "from_le (take 8 xs) < 2 ^ 64" by simp
    then show ?thesis by (simp add: unat_of_nat)
  qed
  have split: "from_le xs = from_le (take 8 xs) + 2 ^ 64 * from_le (drop 8 xs)" if "8 \<le> length xs" for xs
  proof -
    have "from_le (ys @ zs) = from_le ys + 256 ^ length ys * from_le zs" for ys zs
      by (induction ys) (simp_all add: algebra_simps)
    from this[of "take 8 xs" "drop 8 xs"] that show ?thesis by simp
  qed
  have "limbs_int (raw_limbs bs) = from_le (take 8 bs) + 2 ^ 64 * (from_le (take 8 (drop 8 bs))
      + 2 ^ 64 * (from_le (take 8 (drop 16 bs)) + 2 ^ 64 * from_le (take 8 (drop 24 bs))))"
    by (simp add: raw_limbs_def limbs_cons word upt_rec)
  moreover have "from_le bs = from_le (take 8 bs) + 2 ^ 64 * (from_le (take 8 (drop 8 bs))
      + 2 ^ 64 * (from_le (take 8 (drop 16 bs)) + 2 ^ 64 * from_le (take 8 (drop 24 bs))))"
    using split[of bs] split[of "drop 8 bs"] split[of "drop 16 bs"] len by simp
  ultimately show ?thesis by simp
qed

lemma bit_options_eq: "bit_options bs = map (\<lambda>b. Some (of_bool b)) bs"
  by (simp add: bit_options_def of_bool_def if_distrib cong: if_cong)

lemma decompose_length [simp]: "length (decompose_k_fp D x n) = n"
  by (simp add: decompose_k_fp_def Let_def)

lemma decompose_int:
  assumes "length (scalar_to_canonical D x) = 32"
  shows "bits_int (decompose_k_fp D x (K_BITS + 1)) = from_le (scalar_to_canonical D x)"
proof -
  have "drop_bit k b AND 1 = 1 \<longleftrightarrow> bit b k" for b :: byte and k
    by (simp add: and_one_eq bit_iff_odd_drop_bit odd_iff_mod_2_eq_one)
  then have "decompose_k_fp D x (K_BITS + 1) = map (bit (from_le (scalar_to_canonical D x))) [0..<K_BITS + 1]"
    by (simp add: decompose_k_fp_def Let_def bit_from_le del: upt_Suc)
  moreover have "from_le (scalar_to_canonical D x) < 2 ^ (K_BITS + 1)"
    using from_le_less[of "scalar_to_canonical D x"] assms by (simp add: K_BITS_def)
  ultimately show ?thesis
    by (simp add: bits_int_def horner_sum_bit_eq_take_bit take_bit_nat_eq_self del: upt_Suc)
qed

lemma q_below_p: "modulus_int SECP256K1_SCALAR_MODULUS_LE < modulus_int SECP256K1_BASE_MODULUS_LE"
  by (simp add: modulus_values)

context secp_secq
begin

lemma fp_to_fq_nat: "fp_to_fq D (of_nat n) = of_nat (n mod modulus_int SECP256K1_BASE_MODULUS_LE)"
  by (simp add: fp_to_fq_def from_raw_def limbs_raw fp_length fp_repr)

lemma fq_to_fp_nat: "fq_to_fp E (of_nat n) = of_nat (n mod modulus_int SECP256K1_SCALAR_MODULUS_LE)"
  by (simp add: fq_to_fp_def from_raw_def limbs_raw fq_length fq_repr)

lemma decompose_nat: "bits_int (decompose_k_fp D (of_nat n) (K_BITS + 1)) = n mod modulus_int SECP256K1_BASE_MODULUS_LE"
  by (simp only: decompose_int[OF fp_length] fp_repr)

lemma mul_generator_nat:
  "secp_mul_generator E (of_nat n) = point_mul E (group_generator E) (of_nat (n mod modulus_int SECP256K1_SCALAR_MODULUS_LE))"
proof -
  have "times_nat k p = point_mul E p (of_nat k)" for k p
    by (induction k) (simp_all add: pmul_add pmul_one)
  then show ?thesis by (simp add: secp_mul_generator_bytes fq_length fq_repr)
qed

text \<open>The last checkpoint is the multiple.\<close>

lemma witness_last:
  assumes "witness_of E X K_BITS ((!) bs) wit" "length bs = K_BITS + 1"
  shows "checkpoint_coords wit \<noteq> [] \<and> xy E (point_mul E X (of_nat (bits_int bs))) = Some (last (checkpoint_coords wit))"
proof (rule witness_ofE[OF assms(1)])
  let ?n = "K_BITS div 2"
  fix L Delta
  assume L: "\<And>w. w \<le> ?n \<Longrightarrow> xy E (running E X K_BITS ((!) bs) w) = Some (L w)"
    and c: "checkpoint_coords wit = map L (filter (\<lambda>w. chord_is_checkpoint_window w ?n) [1..<?n + 1])"
  have "?n + 1 = Suc ?n" "1 \<le> ?n" by (simp_all add: K_BITS_def)
  then have "[1..<?n + 1] = [1..<?n] @ [?n]" by (simp only: upt_Suc if_True)
  then have "checkpoint_coords wit = map L (filter (\<lambda>w. chord_is_checkpoint_window w ?n) [1..<?n]) @ [L ?n]"
    unfolding c by (simp add: chord_is_checkpoint_window_def del: upt_Suc)
  moreover have "xy E (point_mul E X (of_nat (bits_int bs))) = Some (L ?n)"
    using L[OF order_refl] running_end[of K_BITS X "(!) bs"] map_nth[of bs] assms(2) by (simp add: K_BITS_def del: upt_Suc)
  ultimately show ?thesis by simp
qed

text \<open>What a computed witness is.\<close>

lemma computed_chord:
  assumes "tables_of E X K_BITS pc" "chord_compute_witness_precomputed E D bs pc = Inr wit"
  shows "length bs = K_BITS + 1" "witness_of E X K_BITS ((!) bs) wit"
    "checkpoint_coords wit \<noteq> [] \<and> xy E (point_mul E X (of_nat (bits_int bs))) = Some (last (checkpoint_coords wit))"
  using compute_witness_of[OF assms(1) cycle_D assms(2)] witness_last by blast+

lemma hidden_witnessE:
  assumes tables: "tables_of E (br_pkj rec) K_BITS precomp_pkj" "tables_of E h1 K_BITS precomp_h1" "tables_of E h2 K_BITS precomp_h2"
      "tables_of E (group_generator E) K_BITS g_table"
    and made: "compute_hidden_receiver_witness E D g_table sk1 rec beta precomp_pkj precomp_h1 precomp_h2 = Inr w"
  obtains s_x s_y t1_x t1_y t2_x t2_y k_bits sk_bits pad_bits where
    "xy E (point_mul E (br_pkj rec) sk1) = Some (s_x, s_y)" "k_bits = decompose_k_fp D s_x (K_BITS + 1)"
    "witness_of E h1 K_BITS ((!) k_bits) (hw_t1 w)" "xy E (point_mul E h1 (of_nat (bits_int k_bits))) = Some (t1_x, t1_y)"
    "witness_of E h2 K_BITS ((!) k_bits) (hw_t2 w)" "xy E (point_mul E h2 (of_nat (bits_int k_bits))) = Some (t2_x, t2_y)"
    "hw_pad w = fq_to_fp E (fp_to_fq D (beta * t1_x + t2_x))" "hw_reduce_q w = of_bool (hw_pad w \<noteq> beta * t1_x + t2_x)"
    "br_pad_commitment rec = secp_mul_generator E (fp_to_fq D (beta * t1_x + t2_x))"
    "sk_bits = decompose_k_fp D (fq_to_fp E sk1) (K_BITS + 1)" "witness_of E (br_pkj rec) K_BITS ((!) sk_bits) (hw_sk_pkj w)"
    "pad_bits = decompose_k_fp D (hw_pad w) (K_BITS + 1)" "witness_of E (group_generator E) K_BITS ((!) pad_bits) (hw_pad_commitment w)"
    "hw_k_bits w = bit_options k_bits" "hw_pad_bits w = bit_options pad_bits"
proof -
  let ?build = "\<lambda>s t1w t2w l1 l2. if encoded E (secp_mul_generator E (fp_to_fq D (beta * fst l1 + fst l2))) \<noteq> encoded E (br_pad_commitment rec)
      then Inl ProofVerificationFailed
      else rbind (chord_compute_witness_precomputed E D (decompose_k_fp D (fq_to_fp E sk1) (K_BITS + 1)) precomp_pkj) (\<lambda>sk_pkj.
           rbind (chord_compute_witness_precomputed E D (decompose_k_fp D (fq_to_fp E (fp_to_fq D (beta * fst l1 + fst l2) :: 'q)) (K_BITS + 1)) g_table)
             (\<lambda>pad_commitment_witness.
           Inr \<lparr>hw_sk_pkj = sk_pkj, hw_k_bits = bit_options (decompose_k_fp D (fst s) (K_BITS + 1)), hw_t1 = t1w, hw_t2 = t2w,
                hw_reduce_q = (if fq_to_fp E (fp_to_fq D (beta * fst l1 + fst l2) :: 'q) = beta * fst l1 + fst l2 then 0 else 1),
                hw_pad = fq_to_fp E (fp_to_fq D (beta * fst l1 + fst l2) :: 'q),
                hw_pad_bits = bit_options (decompose_k_fp D (fq_to_fp E (fp_to_fq D (beta * fst l1 + fst l2) :: 'q)) (K_BITS + 1)),
                hw_pad_commitment = pad_commitment_witness\<rparr>))"
  have "\<exists>s t1w t2w l1 l2. affine_xy E (point_mul E (br_pkj rec) sk1) = Inr s
      \<and> chord_compute_witness_precomputed E D (decompose_k_fp D (fst s) (K_BITS + 1)) precomp_h1 = Inr t1w
      \<and> chord_compute_witness_precomputed E D (decompose_k_fp D (fst s) (K_BITS + 1)) precomp_h2 = Inr t2w
      \<and> (if checkpoint_coords t1w = [] then Inl ProofVerificationFailed else Inr (last (checkpoint_coords t1w))) = Inr l1
      \<and> (if checkpoint_coords t2w = [] then Inl ProofVerificationFailed else Inr (last (checkpoint_coords t2w))) = Inr l2
      \<and> ?build s t1w t2w l1 l2 = Inr w"
    using made unfolding compute_hidden_receiver_witness_def Let_def rbind_eq_Inr case_prod_unfold by blast
  then obtain s t1w t2w l1 l2 where s0: "affine_xy E (point_mul E (br_pkj rec) sk1) = Inr s"
    and t0: "chord_compute_witness_precomputed E D (decompose_k_fp D (fst s) (K_BITS + 1)) precomp_h1 = Inr t1w"
      "chord_compute_witness_precomputed E D (decompose_k_fp D (fst s) (K_BITS + 1)) precomp_h2 = Inr t2w"
    and l: "(if checkpoint_coords t1w = [] then Inl ProofVerificationFailed else Inr (last (checkpoint_coords t1w))) = Inr l1"
      "(if checkpoint_coords t2w = [] then Inl ProofVerificationFailed else Inr (last (checkpoint_coords t2w))) = Inr l2"
    and built: "?build s t1w t2w l1 l2 = Inr w"
    by blast
  obtain s_x s_y where sp: "s = (s_x, s_y)" by fastforce
  note s = s0[unfolded sp]
  let ?kb = "decompose_k_fp D s_x (K_BITS + 1)"
  have t: "chord_compute_witness_precomputed E D ?kb precomp_h1 = Inr t1w" "chord_compute_witness_precomputed E D ?kb precomp_h2 = Inr t2w"
    using t0 by (simp_all add: sp)
  note c1 = computed_chord[OF tables(2) t(1)] and c2 = computed_chord[OF tables(3) t(2)]
  obtain t1_x t1_y where t1: "last (checkpoint_coords t1w) = (t1_x, t1_y)" by fastforce
  obtain t2_x t2_y where t2: "last (checkpoint_coords t2w) = (t2_x, t2_y)" by fastforce
  have ends: "l1 = (t1_x, t1_y)" "l2 = (t2_x, t2_y)"
    using l conjunct1[OF c1(3)] conjunct1[OF c2(3)] t1 t2 by simp_all
  let ?r = "beta * t1_x + t2_x"
  let ?pad_fq = "fp_to_fq D ?r :: 'q"
  let ?pad = "fq_to_fp E ?pad_fq"
  let ?skb = "decompose_k_fp D (fq_to_fp E sk1) (K_BITS + 1)" and ?pb = "decompose_k_fp D ?pad (K_BITS + 1)"
  have rest: "(if encoded E (secp_mul_generator E ?pad_fq) \<noteq> encoded E (br_pad_commitment rec) then Inl ProofVerificationFailed
      else rbind (chord_compute_witness_precomputed E D ?skb precomp_pkj) (\<lambda>sk_pkj.
           rbind (chord_compute_witness_precomputed E D ?pb g_table) (\<lambda>pad_commitment_witness.
           Inr \<lparr>hw_sk_pkj = sk_pkj, hw_k_bits = bit_options ?kb, hw_t1 = t1w, hw_t2 = t2w, hw_reduce_q = (if ?pad = ?r then 0 else 1),
                hw_pad = ?pad, hw_pad_bits = bit_options ?pb, hw_pad_commitment = pad_commitment_witness\<rparr>))) = Inr w"
    using built unfolding ends sp fst_conv .
  then have commitment: "encoded E (secp_mul_generator E ?pad_fq) = encoded E (br_pad_commitment rec)" by (metis sum.distinct(1))
  obtain skw pw where made_both: "chord_compute_witness_precomputed E D ?skb precomp_pkj = Inr skw"
      "chord_compute_witness_precomputed E D ?pb g_table = Inr pw"
    and w: "w = \<lparr>hw_sk_pkj = skw, hw_k_bits = bit_options ?kb, hw_t1 = t1w, hw_t2 = t2w, hw_reduce_q = (if ?pad = ?r then 0 else 1),
                hw_pad = ?pad, hw_pad_bits = bit_options ?pb, hw_pad_commitment = pw\<rparr>"
    using rest commitment by auto
  have xy_s: "xy E (point_mul E (br_pkj rec) sk1) = Some (s_x, s_y)" using s by (simp add: affine_xy_eq)
  show ?thesis
    by (rule that[OF xy_s refl, of t1_x t1_y t2_x t2_y ?skb ?pb])
      (use c1 c2 t1 t2 encoding_inject[OF commitment] computed_chord(2)[OF tables(1) made_both(1)] computed_chord(2)[OF tables(4) made_both(2)]
        in \<open>simp_all add: w\<close>)
qed

text \<open>The numbers of a receiver are integers below the modulus of the base field.\<close>

lemma fp_elementsE: "x \<in> fp_elements \<Longrightarrow> of_nat (bits_int (decompose_k_fp D x (K_BITS + 1))) = x
    \<and> bits_int (decompose_k_fp D x (K_BITS + 1)) < modulus_int SECP256K1_BASE_MODULUS_LE"
  unfolding fp_elements_def using decompose_nat by fastforce

lemma pad_values:
  assumes "r \<in> fp_elements"
  shows "\<exists>n < modulus_int SECP256K1_SCALAR_MODULUS_LE. fq_to_fp E (fp_to_fq D r) = of_nat n
    \<and> secp_mul_generator E (fp_to_fq D r) = point_mul E (group_generator E) (of_nat n)
    \<and> bits_int (decompose_k_fp D (fq_to_fp E (fp_to_fq D r)) (K_BITS + 1)) = n
    \<and> (\<exists>red. (fq_to_fp E (fp_to_fq D r) \<noteq> r \<longrightarrow> red) \<and> r = of_nat n + of_bool red * Q_AS_FP \<and> (red \<longrightarrow> n < modulus_int SECP256K1_P_MINUS_Q_LE))"
proof -
  let ?q = "modulus_int SECP256K1_SCALAR_MODULUS_LE" and ?p = "modulus_int SECP256K1_BASE_MODULUS_LE"
  obtain m where m: "m < ?p" "r = of_nat m" using assms by (auto simp: fp_elements_def)
  have fq: "fp_to_fq D r = of_nat m" using m by (simp add: fp_to_fq_nat)
  have n: "m mod ?q < ?q" using q_below_p by (intro mod_less_divisor) (simp add: modulus_values)
  have "bits_int (decompose_k_fp D (of_nat (m mod ?q)) (K_BITS + 1)) = m mod ?q"
    unfolding decompose_nat using n q_below_p by (intro mod_less) linarith
  moreover have "\<exists>red. (of_nat (m mod ?q) \<noteq> r \<longrightarrow> red) \<and> r = of_nat (m mod ?q) + of_bool red * Q_AS_FP
      \<and> (red \<longrightarrow> m mod ?q < modulus_int SECP256K1_P_MINUS_Q_LE)"
  proof (cases "m < ?q")
    case True
    then show ?thesis using m(2) by (intro exI[of _ False]) simp
  next
    case False
    have "m < 2 * ?q" using m(1) by (simp add: modulus_values)
    then have "m mod ?q = m - ?q" using False by (simp add: mod_if)
    then show ?thesis
      using m False by (intro exI[of _ True]) (simp add: Q_AS_FP_value modulus_values(3) of_nat_diff)
  qed
  ultimately show ?thesis
    using n by (intro exI[of _ "m mod ?q"]) (simp add: fq fq_to_fp_nat mul_generator_nat)
qed

lemma slot_completes:
  assumes good: "good_prover p"
    and tables: "tables_of E (br_pkj rec) K_BITS precomp_pkj" "tables_of E h1 K_BITS precomp_h1" "tables_of E h2 K_BITS precomp_h2"
      "tables_of E (group_generator E) K_BITS g_table"
    and made: "compute_hidden_receiver_witness E D g_table sk1 rec beta precomp_pkj precomp_h1 precomp_h2 = Inr w"
    and sk: "sk1 \<in> fq_elements"
      "list_all2 (has p) sk_bit_vars (map of_bool (decompose_k_fp D (fq_to_fp E sk1) (K_BITS + 1)))"
      "list_all2 (has p) sk_products (map (\<lambda>w. of_bool (decompose_k_fp D (fq_to_fp E sk1) (K_BITS + 1) ! (2 * w - 1)
        \<and> decompose_k_fp D (fq_to_fp E sk1) (K_BITS + 1) ! (2 * w))) [1..<K_BITS div 2 + 1])"
    and integral: "receiver_integral E h1 h2 beta sk1 rec"
    and rest: "\<And>p'. good_prover p' \<Longrightarrow> grows p p' \<Longrightarrow> completes M C k p'"
  shows "completes M C (build_hidden_receiver_slot E g_table rec sk_bit_vars sk_products precomp_pkj precomp_h1 precomp_h2 beta (Some w) k) p"
proof (rule hidden_witnessE[OF tables made])
  fix s_x s_y t1_x t1_y t2_x t2_y k_bits sk_bits pad_bits
  let ?r = "beta * t1_x + t2_x"
  assume s: "xy E (point_mul E (br_pkj rec) sk1) = Some (s_x, s_y)"
    and kb: "k_bits = decompose_k_fp D s_x (K_BITS + 1)"
    and t1: "witness_of E h1 K_BITS ((!) k_bits) (hw_t1 w)" "xy E (point_mul E h1 (of_nat (bits_int k_bits))) = Some (t1_x, t1_y)"
    and t2: "witness_of E h2 K_BITS ((!) k_bits) (hw_t2 w)" "xy E (point_mul E h2 (of_nat (bits_int k_bits))) = Some (t2_x, t2_y)"
    and pad: "hw_pad w = fq_to_fp E (fp_to_fq D ?r)" "hw_reduce_q w = of_bool (hw_pad w \<noteq> ?r)"
    and commitment: "br_pad_commitment rec = secp_mul_generator E (fp_to_fq D ?r)"
    and skb: "sk_bits = decompose_k_fp D (fq_to_fp E sk1) (K_BITS + 1)" and skw: "witness_of E (br_pkj rec) K_BITS ((!) sk_bits) (hw_sk_pkj w)"
    and pb: "pad_bits = decompose_k_fp D (hw_pad w) (K_BITS + 1)" and pw: "witness_of E (group_generator E) K_BITS ((!) pad_bits) (hw_pad_commitment w)"
    and held: "hw_k_bits w = bit_options k_bits" "hw_pad_bits w = bit_options pad_bits"
  have len: "length k_bits = K_BITS + 1" "length sk_bits = K_BITS + 1" "length pad_bits = K_BITS + 1"
    unfolding kb skb pb by (simp_all only: decompose_length)
  have even: "0 < K_BITS" "even K_BITS" by (simp_all add: K_BITS_def)
  have k: "of_nat (bits_int k_bits) = s_x" "bits_int k_bits < modulus_int SECP256K1_BASE_MODULUS_LE"
    using fp_elementsE integral s by (simp_all add: kb receiver_integral_def)
  have sk_point: "point_mul E (br_pkj rec) (of_nat (bits_int sk_bits)) = point_mul E (br_pkj rec) sk1"
  proof -
    obtain m where m: "m < modulus_int SECP256K1_SCALAR_MODULUS_LE" "sk1 = of_nat m" using sk(1) by (auto simp: fq_elements_def)
    have "bits_int sk_bits = m"
      unfolding skb m(2) fq_to_fp_nat decompose_nat using m(1) q_below_p by simp
    then show ?thesis using m(2) by simp
  qed
  have "?r \<in> fp_elements"
    using integral t1(2) t2(2) s k(1) by (force simp: receiver_integral_def)
  from pad_values[OF this, folded pad(1) pb commitment] obtain n red where n: "n < modulus_int SECP256K1_SCALAR_MODULUS_LE" "hw_pad w = of_nat n"
      "br_pad_commitment rec = point_mul E (group_generator E) (of_nat n)" "bits_int pad_bits = n"
    and red: "hw_pad w \<noteq> ?r \<longrightarrow> red" "?r = of_nat n + of_bool red * Q_AS_FP" "red \<longrightarrow> n < modulus_int SECP256K1_P_MINUS_Q_LE"
    by (elim exE conjE) (rule that)
  let ?red = "hw_pad w \<noteq> ?r"
  have pad_sum: "of_nat n = ?r - Q_AS_FP * of_bool ?red"
    using red(1,2) n(2) by (cases ?red) auto
  show ?thesis
    unfolding build_hidden_receiver_slot_def Let_def option.map option.case bit_decompose_def bit_decompose_q_def held bit_options_eq
  proof (rule chord_exponentiate_completes[OF good tables(1) skw len(2) sk(2,3)[folded skb]], simp, unfold prod.case)
    fix p1 sv yv x y
    assume p1: "good_prover p1" "grows p p1" "xy E (point_mul E (br_pkj rec) (of_nat (bits_int sk_bits))) = Some (x, y)" "has p1 sv x"
    have sv: "has p1 sv (of_nat (bits_int k_bits))" using p1(3,4) s by (simp add: sk_point k(1))
    let ?rest = "\<lambda>pad_var red_var. bit_decompose_bounded pad_var (map (\<lambda>b. Some (of_bool b)) pad_bits) SECP256K1_SCALAR_MODULUS_LE (\<lambda>pad_bit_vars.
         constrain_bits_lt_bound_when pad_bit_vars (map (\<lambda>b. Some (of_bool b)) pad_bits) SECP256K1_P_MINUS_Q_LE red_var
        (chord_window_products pad_bit_vars (\<lambda>pad_window_products.
         or_abort (affine_xy E (br_pad_commitment rec)) (\<lambda>(pad_commitment_x, pad_commitment_y).
         chord_exponentiate_r1cs_with_result pad_bit_vars g_table pad_window_products (Some (pad_commitment_x, pad_commitment_y))
           (Some (hw_pad_commitment w)) (\<lambda>_. k)))))"
    have last: "completes M C (?rest pad_var red_var) p4"
      if p4: "good_prover p4" "grows p p4" "has p4 pad_var (of_nat n)" "has p4 red_var (of_bool ?red)" for p4 pad_var red_var
    proof (rule bit_decompose_bounded_completes[OF p4(1) _ len(3)])
      show "has p4 pad_var (of_nat (bits_int pad_bits))" "bits_int pad_bits < modulus_int SECP256K1_SCALAR_MODULUS_LE"
        unfolding n(4) by (rule p4(3), rule n(1))
      fix p5 vs
      assume p5: "good_prover p5" "grows p4 p5" "list_all2 (has p5) vs (map of_bool pad_bits)"
      show "completes M C (constrain_bits_lt_bound_when vs (map (\<lambda>b. Some (of_bool b)) pad_bits) SECP256K1_P_MINUS_Q_LE red_var
        (chord_window_products vs (\<lambda>pad_window_products.
         or_abort (affine_xy E (br_pad_commitment rec)) (\<lambda>(pad_commitment_x, pad_commitment_y).
         chord_exponentiate_r1cs_with_result vs g_table pad_window_products (Some (pad_commitment_x, pad_commitment_y))
           (Some (hw_pad_commitment w)) (\<lambda>_. k))))) p5"
      proof (rule constrain_bits_lt_bound_when_completes[OF p5(1,3) len(3) grows_has[OF p5(2) p4(4)]])
        show "bits_int pad_bits < modulus_int SECP256K1_P_MINUS_Q_LE" if ?red unfolding n(4) using that red(1,3) by blast
        fix p6 assume p6: "good_prover p6" "grows p5 p6"
        show "completes M C (chord_window_products vs (\<lambda>pad_window_products.
           or_abort (affine_xy E (br_pad_commitment rec)) (\<lambda>(pad_commitment_x, pad_commitment_y).
           chord_exponentiate_r1cs_with_result vs g_table pad_window_products (Some (pad_commitment_x, pad_commitment_y))
             (Some (hw_pad_commitment w)) (\<lambda>_. k)))) p6"
        proof (rule chord_window_products_completes[OF p6(1) list_all2_grows[OF p6(2) p5(3)] len(3) even])
          fix p7 ps
          assume p7: "good_prover p7" "grows p6 p7"
            "list_all2 (has p7) ps (map (\<lambda>w. of_bool (pad_bits ! (2 * w - 1) \<and> pad_bits ! (2 * w))) [1..<K_BITS div 2 + 1])"
          have pad_last: "xy E (point_mul E (group_generator E) (of_nat (bits_int pad_bits))) = Some (last (checkpoint_coords (hw_pad_commitment w)))"
            using witness_last[OF pw len(3)] by simp
          have aff: "affine_xy E (br_pad_commitment rec) = Inr (last (checkpoint_coords (hw_pad_commitment w)))"
            using pad_last n by (simp add: affine_xy_eq)
          note g7 = grows_trans[OF p6(2) p7(2)]
          show "completes M C (or_abort (affine_xy E (br_pad_commitment rec)) (\<lambda>(pad_commitment_x, pad_commitment_y).
             chord_exponentiate_r1cs_with_result vs g_table ps (Some (pad_commitment_x, pad_commitment_y))
               (Some (hw_pad_commitment w)) (\<lambda>_. k))) p7"
            unfolding or_abort_def aff sum.case case_prod_unfold
          proof (rule chord_exponentiate_completes[OF p7(1) tables(4) pw len(3) list_all2_grows[OF g7 p5(3)] p7(3)])
            fix p8 assume "good_prover p8" "grows p7 p8"
            then show "completes M C k p8"
              using rest grows_trans[OF p4(2) grows_trans[OF p5(2) grows_trans[OF g7]]] by blast
          qed (use pad_last in simp)
        qed
      qed
    qed
    show "completes M C (bit_decompose_bounded sv (map (\<lambda>b. Some (of_bool b)) k_bits) SECP256K1_BASE_MODULUS_LE (\<lambda>k_bit_vars.
       chord_window_products k_bit_vars (\<lambda>k_window_products.
       chord_exponentiate_r1cs_with_result k_bit_vars precomp_h1 k_window_products None (Some (hw_t1 w)) (\<lambda>(x_t1, _).
       chord_exponentiate_r1cs_with_result k_bit_vars precomp_h2 k_window_products None (Some (hw_t2 w)) (\<lambda>(x_t2, _).
       Allocate (Some (hw_pad w)) (\<lambda>pad_var.
       AllocateMultiplier (Some (hw_reduce_q w, 1 - hw_reduce_q w)) (\<lambda>(red_var, red_right, red_out).
       Constrain (variable_sub red_right (lc_sub (lc_from_scalar 1) (lc_from_variable red_var)))
      (Constrain (lc_from_variable red_out)
      (Constrain (variable_sub pad_var (lc_sub (lc_add (variable_mul x_t1 beta) (lc_from_variable x_t2)) (variable_mul red_var Q_AS_FP)))
      (?rest pad_var red_var)))))))))) p1"
    proof (rule bit_decompose_bounded_completes[OF p1(1) sv len(1) k(2)],
        rule chord_window_products_completes[OF _ _ len(1) even], assumption, assumption)
      fix p2 vs p3 ps
      assume p2: "good_prover p2" "grows p1 p2" "list_all2 (has p2) vs (map of_bool k_bits)"
        and p3: "good_prover p3" "grows p2 p3"
          "list_all2 (has p3) ps (map (\<lambda>w. of_bool (k_bits ! (2 * w - 1) \<and> k_bits ! (2 * w))) [1..<K_BITS div 2 + 1])"
      note vs3 = list_all2_grows[OF p3(2) p2(3)] and g3 = grows_trans[OF p1(2) grows_trans[OF p2(2) p3(2)]]
      show "completes M C (chord_exponentiate_r1cs_with_result vs precomp_h1 ps None (Some (hw_t1 w)) (\<lambda>(x_t1, _).
       chord_exponentiate_r1cs_with_result vs precomp_h2 ps None (Some (hw_t2 w)) (\<lambda>(x_t2, _).
       Allocate (Some (hw_pad w)) (\<lambda>pad_var.
       AllocateMultiplier (Some (hw_reduce_q w, 1 - hw_reduce_q w)) (\<lambda>(red_var, red_right, red_out).
       Constrain (variable_sub red_right (lc_sub (lc_from_scalar 1) (lc_from_variable red_var)))
      (Constrain (lc_from_variable red_out)
      (Constrain (variable_sub pad_var (lc_sub (lc_add (variable_mul x_t1 beta) (lc_from_variable x_t2)) (variable_mul red_var Q_AS_FP)))
      (?rest pad_var red_var)))))))) p3"
      proof (rule chord_exponentiate_completes[OF p3(1) tables(2) t1(1) len(1) vs3 p3(3)], simp, unfold prod.case,
          rule chord_exponentiate_completes[OF _ tables(3) t2(1) len(1)], assumption, erule list_all2_grows[OF _ vs3],
          erule list_all2_grows[OF _ p3(3)], simp, unfold prod.case)
        fix p4 x1 y1 u1 v1 p5 x2 y2 u2 v2
        assume p4: "good_prover p4" "grows p3 p4" "xy E (point_mul E h1 (of_nat (bits_int k_bits))) = Some (u1, v1)" "has p4 x1 u1"
          and p5: "good_prover p5" "grows p4 p5" "xy E (point_mul E h2 (of_nat (bits_int k_bits))) = Some (u2, v2)" "has p5 x2 u2"
        have x: "has p5 x1 t1_x" "has p5 x2 t2_x" using grows_has[OF p5(2) p4(4)] p5(4) p4(3) p5(3) t1(2) t2(2) by simp_all
        note g5 = grows_trans[OF g3 grows_trans[OF p4(2) p5(2)]]
        show "completes M C (Allocate (Some (hw_pad w)) (\<lambda>pad_var.
           AllocateMultiplier (Some (hw_reduce_q w, 1 - hw_reduce_q w)) (\<lambda>(red_var, red_right, red_out).
           Constrain (variable_sub red_right (lc_sub (lc_from_scalar 1) (lc_from_variable red_var)))
          (Constrain (lc_from_variable red_out)
          (Constrain (variable_sub pad_var (lc_sub (lc_add (variable_mul x1 beta) (lc_from_variable x2)) (variable_mul red_var Q_AS_FP)))
          (?rest pad_var red_var)))))) p5"
        proof (rule completes_Allocate[OF p5(1) refl], rule completes_AllocateMultiplier[OF _ refl], assumption, unfold prod.case)
          fix p6 pad_var p7 rv rr ro
          assume p6: "good_prover p6" "grows p5 p6" "has p6 pad_var (hw_pad w)"
            and p7: "good_prover p7" "grows p6 p7" "has p7 rv (hw_reduce_q w)" "has p7 rr (1 - hw_reduce_q w)"
              "has p7 ro (hw_reduce_q w * (1 - hw_reduce_q w))"
          note g57 = grows_trans[OF p6(2) p7(2)]
          show "completes M C (Constrain (variable_sub rr (lc_sub (lc_from_scalar 1) (lc_from_variable rv)))
            (Constrain (lc_from_variable ro)
            (Constrain (variable_sub pad_var (lc_sub (lc_add (variable_mul x1 beta) (lc_from_variable x2)) (variable_mul rv Q_AS_FP)))
            (?rest pad_var rv)))) p7"
          proof (rule completes_Constrain[OF p7(1)])
            show "lc_has p7 (variable_sub rr (lc_sub (lc_from_scalar 1) (lc_from_variable rv))) 0"
              by (rule lc_has_eq, rule lc_has_variable_sub[OF p7(4) lc_has_sub[OF lc_has_from_scalar lc_has_from_variable[OF p7(3)]]]) simp
            fix p8 assume p8: "good_prover p8" "grows p7 p8"
            show "completes M C (Constrain (lc_from_variable ro)
              (Constrain (variable_sub pad_var (lc_sub (lc_add (variable_mul x1 beta) (lc_from_variable x2)) (variable_mul rv Q_AS_FP)))
              (?rest pad_var rv))) p8"
            proof (rule completes_Constrain[OF p8(1)])
              show "lc_has p8 (lc_from_variable ro) 0"
                by (rule lc_has_eq, rule lc_has_from_variable[OF grows_has[OF p8(2) p7(5)]]) (simp add: pad(2))
              fix p9 assume p9: "good_prover p9" "grows p8 p9"
              note g79 = grows_trans[OF p8(2) p9(2)]
              note g59 = grows_trans[OF g57 g79]
              have at9: "has p9 rv (of_bool ?red)" "has p9 pad_var (of_nat n)"
                using grows_has[OF g79 p7(3)] grows_has[OF grows_trans[OF p7(2) g79] p6(3)] by (simp_all add: pad(2) n(2))
              show "completes M C (Constrain (variable_sub pad_var (lc_sub (lc_add (variable_mul x1 beta) (lc_from_variable x2)) (variable_mul rv Q_AS_FP)))
                (?rest pad_var rv)) p9"
              proof (rule completes_Constrain[OF p9(1)])
                show "lc_has p9 (variable_sub pad_var (lc_sub (lc_add (variable_mul x1 beta) (lc_from_variable x2)) (variable_mul rv Q_AS_FP))) 0"
                  by (rule lc_has_eq, rule lc_has_variable_sub[OF at9(2) lc_has_sub[OF lc_has_add[OF lc_has_variable_mul[OF grows_has[OF g59 x(1)]]
                      lc_has_from_variable[OF grows_has[OF g59 x(2)]]] lc_has_variable_mul[OF at9(1)]]]) (use pad_sum in simp)
                fix p10 assume p10: "good_prover p10" "grows p9 p10"
                show "completes M C (?rest pad_var rv) p10"
                  by (rule last[OF p10(1) grows_trans[OF g5 grows_trans[OF g59 p10(2)]] grows_has[OF p10(2) at9(2)] grows_has[OF p10(2) at9(1)]])
              qed
            qed
          qed
        qed
      qed
    qed
  qed
qed

lemma prover_slots_completes:
  assumes tables: "tables_of E h1 K_BITS precomp_h1" "tables_of E h2 K_BITS precomp_h2" "tables_of E (group_generator E) K_BITS g_table"
    and sk1: "sk1 \<in> fq_elements"
    and recs: "\<forall>(rec, w) \<in> set rws. receiver_integral E h1 h2 beta sk1 rec
      \<and> (\<exists>pc. receiver_chord_precomps_get E tables (br_pkj rec) = Inr pc \<and> tables_of E (br_pkj rec) K_BITS pc
           \<and> compute_hidden_receiver_witness E D g_table sk1 rec beta pc precomp_h1 precomp_h2 = Inr w)"
  shows "good_prover p \<Longrightarrow> list_all2 (has p) sk_bit_vars (map of_bool (decompose_k_fp D (fq_to_fp E sk1) (K_BITS + 1))) \<Longrightarrow>
    list_all2 (has p) sk_products (map (\<lambda>w. of_bool (decompose_k_fp D (fq_to_fp E sk1) (K_BITS + 1) ! (2 * w - 1)
      \<and> decompose_k_fp D (fq_to_fp E sk1) (K_BITS + 1) ! (2 * w))) [1..<K_BITS div 2 + 1]) \<Longrightarrow>
    completes M C (prover_slots E g_table tables sk_bit_vars sk_products precomp_h1 precomp_h2 beta rws) p"
  using recs
proof (induction rws arbitrary: p)
  case Nil
  then show ?case by (simp add: completes_Finish)
next
  case (Cons r rws)
  obtain rec w where r: "r = (rec, w)" by fastforce
  have first: "receiver_integral E h1 h2 beta sk1 rec"
    using Cons.prems(4) by (simp add: r)
  obtain pc where pc: "receiver_chord_precomps_get E tables (br_pkj rec) = Inr pc" "tables_of E (br_pkj rec) K_BITS pc"
      "compute_hidden_receiver_witness E D g_table sk1 rec beta pc precomp_h1 precomp_h2 = Inr w"
    using Cons.prems(4) unfolding r list.set ball_simps prod.case by blast
  show ?case
    unfolding prover_slots.simps r fst_conv snd_conv or_abort_def pc(1) sum.case
  proof (rule slot_completes[OF Cons.prems(1) pc(2) tables pc(3) sk1 Cons.prems(2,3) first])
    fix p' assume p': "good_prover p'" "grows p p'"
    show "completes M C (prover_slots E g_table tables sk_bit_vars sk_products precomp_h1 precomp_h2 beta rws) p'"
      by (rule Cons.IH[OF p'(1) list_all2_grows[OF p'(2) Cons.prems(2)] list_all2_grows[OF p'(2) Cons.prems(3)]])
        (use Cons.prems(4) in simp)
  qed
qed

text \<open>The honest prover completes the batched circuit.\<close>

lemma batched_prover_completes:
  assumes good: "good_prover p"
    and tables: "receiver_chord_precomps_new E [statement] = Inr tables" "shared_g_in_chord_precomp E = Inr g_table"
      "precompute_chord E (h_gin_1 E (bs_msg statement)) K_BITS = Inr precomp_h1"
      "precompute_chord E (h_gin_2 E (bs_msg statement)) K_BITS = Inr precomp_h2"
    and sk1: "sk1 \<in> fq_elements" "bs_pk1 statement = point_mul E (group_generator E) sk1"
    and made: "chord_compute_witness_precomputed E D (decompose_k_fp D (fq_to_fp E sk1) (K_BITS + 1)) g_table = Inr pk1_witness"
      "collect (\<lambda>rec. rbind (receiver_chord_precomps_get E tables (br_pkj rec)) (\<lambda>table.
         compute_hidden_receiver_witness E D g_table sk1 rec (bs_beta statement) table precomp_h1 precomp_h2))
         (bs_receivers statement) = Inr witnesses"
    and integral: "\<And>rec. rec \<in> set (bs_receivers statement) \<Longrightarrow>
      receiver_integral E (h_gin_1 E (bs_msg statement)) (h_gin_2 E (bs_msg statement)) (bs_beta statement) sk1 rec"
  shows "completes M C (batched_prover_circuit E D g_table precomp_h1 precomp_h2 statement sk1) p"
proof -
  let ?bs = "decompose_k_fp D (fq_to_fp E sk1) (K_BITS + 1)"
  have len: "length ?bs = K_BITS + 1" by (rule decompose_length)
  have even: "0 < K_BITS" "even K_BITS" by (simp_all add: K_BITS_def)
  obtain m where m: "m < modulus_int SECP256K1_SCALAR_MODULUS_LE" "sk1 = of_nat m" using sk1(1) by (auto simp: fq_elements_def)
  have bits: "bits_int ?bs = m" "fq_to_fp E sk1 = of_nat m"
    unfolding m(2) fq_to_fp_nat decompose_nat using m(1) q_below_p by simp_all
  note g_table = precompute_tables[OF tables(2)[unfolded shared_g_in_chord_precomp_def]]
  note pk1w = computed_chord[OF g_table made(1)]
  have pk1: "xy E (point_mul E (group_generator E) (of_nat (bits_int ?bs))) = Some (last (checkpoint_coords pk1_witness))"
    using pk1w(3) by (rule conjunct2)
  have aff: "affine_xy E (bs_pk1 statement) = Inr (last (checkpoint_coords pk1_witness))"
    using pk1 unfolding bits(1) by (simp add: affine_xy_eq sk1(2) m(2))
  have all: "list_all2 (\<lambda>rec w. rbind (receiver_chord_precomps_get E tables (br_pkj rec)) (\<lambda>table.
      compute_hidden_receiver_witness E D g_table sk1 rec (bs_beta statement) table precomp_h1 precomp_h2) = Inr w)
      (bs_receivers statement) witnesses"
    using made(2) by (simp add: collect_eq_Inr)
  have recs: "\<forall>(rec, w) \<in> set (zip (bs_receivers statement) witnesses).
      receiver_integral E (h_gin_1 E (bs_msg statement)) (h_gin_2 E (bs_msg statement)) (bs_beta statement) sk1 rec
      \<and> (\<exists>pc. receiver_chord_precomps_get E tables (br_pkj rec) = Inr pc \<and> tables_of E (br_pkj rec) K_BITS pc
           \<and> compute_hidden_receiver_witness E D g_table sk1 rec (bs_beta statement) pc precomp_h1 precomp_h2 = Inr w)"
  proof (intro ballI, clarify, intro conjI)
    fix rec w assume rw: "(rec, w) \<in> set (zip (bs_receivers statement) witnesses)"
    show "receiver_integral E (h_gin_1 E (bs_msg statement)) (h_gin_2 E (bs_msg statement)) (bs_beta statement) sk1 rec"
      using integral set_zip_leftD[OF rw] by blast
    have "rbind (receiver_chord_precomps_get E tables (br_pkj rec)) (\<lambda>table.
      compute_hidden_receiver_witness E D g_table sk1 rec (bs_beta statement) table precomp_h1 precomp_h2) = Inr w"
      using all rw by (auto simp: list_all2_iff)
    then obtain pc where "receiver_chord_precomps_get E tables (br_pkj rec) = Inr pc"
      "compute_hidden_receiver_witness E D g_table sk1 rec (bs_beta statement) pc precomp_h1 precomp_h2 = Inr w"
      unfolding rbind_eq_Inr by blast
    then show "\<exists>pc. receiver_chord_precomps_get E tables (br_pkj rec) = Inr pc \<and> tables_of E (br_pkj rec) K_BITS pc
           \<and> compute_hidden_receiver_witness E D g_table sk1 rec (bs_beta statement) pc precomp_h1 precomp_h2 = Inr w"
      using precompute_tables[OF receiver_table[OF encoding_inject tables(1)]] by blast
  qed
  show ?thesis
    unfolding batched_prover_circuit_def Let_def bit_decompose_q_def bit_options_eq or_abort_def made tables(1) aff sum.case case_prod_unfold
  proof (rule completes_Allocate[OF good refl], rule bit_decompose_bounded_completes[OF _ _ len], assumption)
    fix p1 sk_var p2 vs
    assume p1: "good_prover p1" "grows p p1" "has p1 sk_var (fq_to_fp E sk1)"
    then show "has p1 sk_var (of_nat (bits_int ?bs))" unfolding bits(1) by (simp only: bits(2))
    show "bits_int ?bs < modulus_int SECP256K1_SCALAR_MODULUS_LE" unfolding bits(1) by (rule m(1))
    assume p2: "good_prover p2" "grows p1 p2" "list_all2 (has p2) vs (map of_bool ?bs)"
    show "completes M C (chord_window_products vs (\<lambda>ps. chord_exponentiate_r1cs_with_result vs g_table ps
        (Some (fst (last (checkpoint_coords pk1_witness)), snd (last (checkpoint_coords pk1_witness)))) (Some pk1_witness) (\<lambda>_.
        prover_slots E g_table tables vs ps precomp_h1 precomp_h2 (bs_beta statement) (zip (bs_receivers statement) witnesses)))) p2"
    proof (rule chord_window_products_completes[OF p2(1,3) len even],
        rule chord_exponentiate_completes[OF _ g_table pk1w(2,1)], assumption, erule list_all2_grows[OF _ p2(3)], assumption)
      fix p3 ps p4
      assume p3: "good_prover p3" "grows p2 p3"
          "list_all2 (has p3) ps (map (\<lambda>w. of_bool (?bs ! (2 * w - 1) \<and> ?bs ! (2 * w))) [1..<K_BITS div 2 + 1])"
        and p4: "good_prover p4" "grows p3 p4"
      show "completes M C (prover_slots E g_table tables vs ps precomp_h1 precomp_h2 (bs_beta statement) (zip (bs_receivers statement) witnesses)) p4"
        by (rule prover_slots_completes[OF precompute_tables[OF tables(3)] precompute_tables[OF tables(4)] g_table sk1(1) recs p4(1)])
          (rule list_all2_grows[OF grows_trans[OF p3(2) p4(2)] p2(3)], rule list_all2_grows[OF p4(2) p3(3)])
    qed (use pk1 in simp)
  qed
qed

end

end
