(* ===== verification/Evrf_Same_Circuit.thy ===== *)
theory Evrf_Same_Circuit
  imports Evrf_Relation_Complete
begin

text \<open>
  The prover and the verifier of the paper eVRF run the same circuit: they differ in the assignments, which the
  verifier does not read. \<open>erase\<close> forgets the assignments of a circuit; the prover's and the verifier's circuit of a
  batch are the same after it. So the honest prover's run has a verifier's run beside it, which the prover's
  assignment satisfies.
\<close>

section \<open>Circuits without assignments\<close>

primrec erase :: "'s gadget \<Rightarrow> 's gadget" where
  "erase (Finish res) = Finish res"
| "erase (Multiply left right k) = Multiply left right (\<lambda>g. erase (k g))"
| "erase (Allocate assigned k) = Allocate None (\<lambda>var. erase (k var))"
| "erase (AllocateMultiplier assigned k) = AllocateMultiplier None (\<lambda>g. erase (k g))"
| "erase (QueryMetrics k) = QueryMetrics (\<lambda>m. erase (k m))"
| "erase (Constrain lc k) = Constrain lc (erase k)"
| "erase (BindTranscript label message k) = BindTranscript label message (erase k)"
| "erase (ChallengeScalar label k) = ChallengeScalar label (\<lambda>c. erase (k c))"

lemma run_verifier_erase: "run_verifier M C (erase gadget) vf = run_verifier M C gadget vf"
  by (induction gadget arbitrary: vf) (simp_all split: prod.splits)

lemma run_verifier_same: "erase g = erase g' \<Longrightarrow> run_verifier M C g vf = run_verifier M C g' vf"
  by (metis run_verifier_erase)

text \<open>The parts of the circuits do the same for any two assignments of the same shape.\<close>

lemma allocate_bits_same:
  "length bs = length bs' \<Longrightarrow> (\<And>r. length (fst r) = length vs + length bs \<Longrightarrow> erase (k r) = erase (k' r)) \<Longrightarrow>
    erase (allocate_bits bs vs lc c k) = erase (allocate_bits bs' vs lc c k')"
proof (induction bs bs' arbitrary: vs lc c rule: list_induct2)
  case (Cons b bs b' bs')
  then show ?case by (simp add: case_prod_unfold)
qed simp

lemma range_scan_same:
  "(\<And>r. erase (k r) = erase (k' r)) \<Longrightarrow>
    erase (range_scan m vs bs js pe pa k) = erase (range_scan m vs bs' js pe pa' k')"
proof (induction js arbitrary: pe pa pa')
  case (Cons j js)
  note IH = Cons.IH[OF Cons.prems]
  show ?case
    by (auto simp: Let_def case_prod_unfold fun_eq_iff intro!: IH)
qed simp

lemma bound_scan_same:
  "(\<And>r. erase (k r) = erase (k' r)) \<Longrightarrow>
    erase (bound_scan m vs bs c js pe pa k) = erase (bound_scan m vs bs' c js pe pa' k')"
proof (induction js arbitrary: pe pa pa')
  case (Cons j js)
  note IH = Cons.IH[OF Cons.prems]
  show ?case
    by (auto simp: Let_def case_prod_unfold fun_eq_iff intro!: IH)
qed simp

lemma bit_decompose_same:
  assumes "length bs = length bs'" "\<And>vs. length vs = K_BITS + 1 \<Longrightarrow> erase (k vs) = erase (k' vs)"
  shows "erase (bit_decompose_bounded v bs m k) = erase (bit_decompose_bounded v bs' m k')"
proof (cases "length bs = K_BITS + 1")
  case False
  then show ?thesis by (simp add: bit_decompose_bounded_def assms(1)[symmetric])
next
  case True
  have ok: "\<not> length bs \<noteq> K_BITS + 1" "\<not> length bs' \<noteq> K_BITS + 1" using True assms(1) by simp_all
  show ?thesis
    unfolding bit_decompose_bounded_def if_not_P[OF ok(1)] if_not_P[OF ok(2)]
  proof (rule allocate_bits_same[OF assms(1)])
    fix r :: "variable_kind list \<times> 'a linear_combination"
    assume "length (fst r) = length ([] :: variable_kind list) + length bs"
    then have "length (fst r) = K_BITS + 1" using True by simp
    then show "erase (case r of (vs, k_lc) \<Rightarrow> Constrain (lc_sub k_lc (lc_from_variable v))
        (range_scan m vs bs (rev [0..<K_BITS + 1]) (lc_from_scalar 1) (Some 1) (\<lambda>pe. Constrain pe (k vs))))
      = erase (case r of (vs, k_lc) \<Rightarrow> Constrain (lc_sub k_lc (lc_from_variable v))
        (range_scan m vs bs' (rev [0..<K_BITS + 1]) (lc_from_scalar 1) (Some 1) (\<lambda>pe. Constrain pe (k' vs))))"
      by (simp only: case_prod_unfold erase.simps gadget.inject) (intro conjI refl range_scan_same, simp add: assms(2))
  qed
qed

lemma constrain_bits_same:
  assumes "length bs = length bs'" "erase k = erase k'"
  shows "erase (constrain_bits_lt_bound_when vs bs m c k) = erase (constrain_bits_lt_bound_when vs bs' m c k')"
proof -
  have scan: "erase (bound_scan m vs bs lc js pe pa (\<lambda>p. Multiply lc p (\<lambda>(_, _, v). Constrain (lc_from_variable v) k)))
      = erase (bound_scan m vs bs' lc js pe pa (\<lambda>p. Multiply lc p (\<lambda>(_, _, v). Constrain (lc_from_variable v) k')))" for lc js pe pa
    by (rule bound_scan_same) (simp add: assms(2) case_prod_unfold)
  show ?thesis
    unfolding constrain_bits_lt_bound_when_def Let_def by (auto simp: assms(1) case_prod_unfold scan[unfolded case_prod_unfold])
qed

lemma window_products_same:
  assumes "\<And>ps. erase (k ps) = erase (k' ps)"
  shows "erase (chord_window_products vs k) = erase (chord_window_products vs k')"
proof -
  have "erase (window_products_loop vs ws ps k) = erase (window_products_loop vs ws ps k')" for ws ps
    by (induction ws arbitrary: ps) (simp_all add: assms case_prod_unfold)
  then show ?thesis by (simp add: chord_window_products_def)
qed

lemma chord_loop_same:
  "(\<And>r. erase (k r) = erase (k' r)) \<Longrightarrow>
    erase (chord_loop vs pc wps wit n ws x y ck idx k) = erase (chord_loop vs pc wps wit' n ws x y ck idx k')"
proof (induction ws arbitrary: x y ck idx)
  case (Cons w ws)
  note IH = Cons.IH[OF Cons.prems]
  show ?case
    by (auto simp: Let_def case_prod_unfold fun_eq_iff intro!: IH)
qed simp

definition witness_fits :: "nat \<Rightarrow> 's chord_witness \<Rightarrow> bool" where
  "witness_fits n wit \<longleftrightarrow> length (checkpoint_coords wit) = chord_checkpoint_count n \<and> length (slopes wit) = n \<and> length (denominators wit) = n"

lemma chord_exponentiate_same:
  assumes "witness_fits (K_BITS div 2) wit" "length vs = K_BITS + 1" "\<And>r. erase (k r) = erase (k' r)"
  shows "erase (chord_exponentiate_r1cs_with_result vs pc wps res (Some wit) k)
    = erase (chord_exponentiate_r1cs_with_result vs pc wps res None k')"
proof -
  have fits: "(length (checkpoint_coords wit) \<noteq> chord_checkpoint_count ((length vs - 1) div 2)
      \<or> length (slopes wit) \<noteq> (length vs - 1) div 2 \<or> length (denominators wit) \<noteq> (length vs - 1) div 2) \<longleftrightarrow> False"
    using assms(1,2) by (simp add: witness_fits_def)
  have loop: "erase (chord_loop vs pc wps (Some wit) n ws x y ck idx (\<lambda>ck. let (x_final, y_final) = the ck in
        case res of None \<Rightarrow> k (x_final, y_final) | Some (rx, ry) \<Rightarrow>
          Constrain (variable_sub x_final (lc_from_scalar rx)) (Constrain (variable_sub y_final (lc_from_scalar ry)) (k (x_final, y_final)))))
    = erase (chord_loop vs pc wps None n ws x y ck idx (\<lambda>ck. let (x_final, y_final) = the ck in
        case res of None \<Rightarrow> k' (x_final, y_final) | Some (rx, ry) \<Rightarrow>
          Constrain (variable_sub x_final (lc_from_scalar rx)) (Constrain (variable_sub y_final (lc_from_scalar ry)) (k' (x_final, y_final)))))"
    for n ws x y ck idx
    by (rule chord_loop_same) (simp add: assms(3) Let_def case_prod_unfold split: option.splits)
  show ?thesis
    unfolding chord_exponentiate_r1cs_with_result_def Let_def option.case fits if_False
    by (simp only: if_distrib[of erase] loop[unfolded Let_def])
qed


text \<open>The slot of a receiver, with its witness or without.\<close>

definition slot_witness_fits :: "'s hidden_receiver_witness \<Rightarrow> bool" where
  "slot_witness_fits w \<longleftrightarrow> witness_fits (K_BITS div 2) (hw_sk_pkj w) \<and> witness_fits (K_BITS div 2) (hw_t1 w)
     \<and> witness_fits (K_BITS div 2) (hw_t2 w) \<and> witness_fits (K_BITS div 2) (hw_pad_commitment w)
     \<and> length (hw_k_bits w) = K_BITS + 1 \<and> length (hw_pad_bits w) = K_BITS + 1"

lemma slot_same:
  assumes "slot_witness_fits w" "length sk_bit_vars = K_BITS + 1" "erase k = erase k'"
  shows "erase (build_hidden_receiver_slot E g_table rec sk_bit_vars sk_products precomp_pkj precomp_h1 precomp_h2 beta (Some w) k)
    = erase (build_hidden_receiver_slot E g_table rec sk_bit_vars sk_products precomp_pkj precomp_h1 precomp_h2 beta None k')"
proof -
  have fits: "witness_fits (K_BITS div 2) (hw_sk_pkj w)" "witness_fits (K_BITS div 2) (hw_t1 w)" "witness_fits (K_BITS div 2) (hw_t2 w)"
    "witness_fits (K_BITS div 2) (hw_pad_commitment w)" "length (hw_k_bits w) = length (replicate (K_BITS + 1) None)"
    "length (hw_pad_bits w) = length (replicate (K_BITS + 1) None)"
    using assms(1) by (simp_all add: slot_witness_fits_def)
  have commit: "erase (case affine_xy E (br_pad_commitment rec) of Inl _ \<Rightarrow> Finish (Inl R1CSVerificationError)
       | Inr p \<Rightarrow> chord_exponentiate_r1cs_with_result vs g_table ps (Some (fst p, snd p)) (Some (hw_pad_commitment w)) (\<lambda>_. k))
    = erase (case affine_xy E (br_pad_commitment rec) of Inl _ \<Rightarrow> Finish (Inl R1CSVerificationError)
       | Inr p \<Rightarrow> chord_exponentiate_r1cs_with_result vs g_table ps (Some (fst p, snd p)) None (\<lambda>_. k'))"
    if "length vs = K_BITS + 1" for vs ps
    by (cases "affine_xy E (br_pad_commitment rec)")
      (simp_all only: sum.case erase.simps chord_exponentiate_same[OF fits(4) that assms(3)])
  have pad: "erase (bit_decompose_bounded v (hw_pad_bits w) SECP256K1_SCALAR_MODULUS_LE (\<lambda>vs.
      constrain_bits_lt_bound_when vs (hw_pad_bits w) SECP256K1_P_MINUS_Q_LE red (chord_window_products vs (\<lambda>ps.
        case affine_xy E (br_pad_commitment rec) of Inl _ \<Rightarrow> Finish (Inl R1CSVerificationError)
       | Inr p \<Rightarrow> chord_exponentiate_r1cs_with_result vs g_table ps (Some (fst p, snd p)) (Some (hw_pad_commitment w)) (\<lambda>_. k)))))
    = erase (bit_decompose_bounded v (replicate (K_BITS + 1) None) SECP256K1_SCALAR_MODULUS_LE (\<lambda>vs.
      constrain_bits_lt_bound_when vs (replicate (K_BITS + 1) None) SECP256K1_P_MINUS_Q_LE red (chord_window_products vs (\<lambda>ps.
        case affine_xy E (br_pad_commitment rec) of Inl _ \<Rightarrow> Finish (Inl R1CSVerificationError)
       | Inr p \<Rightarrow> chord_exponentiate_r1cs_with_result vs g_table ps (Some (fst p, snd p)) None (\<lambda>_. k')))))" for v red
    by (rule bit_decompose_same[OF fits(6)], rule constrain_bits_same[OF fits(6)], rule window_products_same, rule commit)
  show ?thesis
    unfolding build_hidden_receiver_slot_def Let_def option.map option.case bit_decompose_def bit_decompose_q_def case_prod_unfold or_abort_def
    by (rule chord_exponentiate_same[OF fits(1) assms(2)], rule bit_decompose_same[OF fits(5)], rule window_products_same,
        rule chord_exponentiate_same[OF fits(2)], assumption, rule chord_exponentiate_same[OF fits(3)], assumption)
      (simp only: erase.simps pad)
qed


lemma slots_same:
  assumes "length sk_bit_vars = K_BITS + 1"
  shows "length recs = length ws \<Longrightarrow> (\<forall>w \<in> set ws. slot_witness_fits w) \<Longrightarrow>
    (\<forall>rec \<in> set recs. receiver_chord_precomps_get E tables (br_pkj rec) = receiver_chord_precomps_get E tables' (br_pkj rec)) \<Longrightarrow>
    erase (prover_slots E g_table tables sk_bit_vars sk_products precomp_h1 precomp_h2 beta (zip recs ws))
      = erase (verifier_slots E g_table tables' sk_bit_vars sk_products precomp_h1 precomp_h2 beta recs)"
proof (induction recs ws rule: list_induct2)
  case (Cons rec recs w ws)
  then show ?case
    by (cases "receiver_chord_precomps_get E tables' (br_pkj rec)")
      (simp_all add: or_abort_def slot_same[OF _ assms])
qed simp

section \<open>The batched circuits\<close>

lemma list_all2_right: "list_all2 P xs ys \<Longrightarrow> y \<in> set ys \<Longrightarrow> \<exists>x \<in> set xs. P x y"
  by (induction xs ys rule: list_all2_induct) auto

context secp_secq
begin

lemma witness_of_fits: "witness_of E X K_BITS b wit \<Longrightarrow> witness_fits (K_BITS div 2) wit"
proof -
  have n: "0 < K_BITS div 2" by (simp add: K_BITS_def)
  assume "witness_of E X K_BITS b wit"
  then show ?thesis
    by (rule witness_ofE) (simp add: witness_fits_def checkpoint_count_eq[OF n] del: upt_Suc)
qed

lemma hidden_witness_fits:
  assumes "tables_of E (br_pkj rec) K_BITS precomp_pkj" "tables_of E h1 K_BITS precomp_h1" "tables_of E h2 K_BITS precomp_h2"
      "tables_of E (group_generator E) K_BITS g_table"
    and "compute_hidden_receiver_witness E D g_table sk1 rec beta precomp_pkj precomp_h1 precomp_h2 = Inr w"
  shows "slot_witness_fits w"
  by (rule hidden_witnessE[OF assms])
    (simp add: slot_witness_fits_def witness_of_fits bit_options_eq del: upt_Suc)

text \<open>The verifier's tables of other statements hold the same tables of these receivers.\<close>

lemma receiver_tables_same:
  assumes "receiver_chord_precomps_new E statements = Inr tables" "statement \<in> set statements"
    and "receiver_chord_precomps_new E statements' = Inr tables'" "statement \<in> set statements'"
    and "rec \<in> set (bs_receivers statement)"
  shows "receiver_chord_precomps_get E tables (br_pkj rec) = receiver_chord_precomps_get E tables' (br_pkj rec)"
proof -
  obtain pc where pc: "receiver_chord_precomps_get E tables (br_pkj rec) = Inr pc" using receiver_table_exists[OF assms(1,2,5)] by blast
  obtain pc' where pc': "receiver_chord_precomps_get E tables' (br_pkj rec) = Inr pc'" using receiver_table_exists[OF assms(3,4,5)] by blast
  show ?thesis
    using receiver_table[OF encoding_inject assms(1) pc] receiver_table[OF encoding_inject assms(3) pc'] pc pc' by simp
qed

lemma batched_same:
  assumes tables: "receiver_chord_precomps_new E [statement] = Inr tables" "shared_g_in_chord_precomp E = Inr g_table"
      "precompute_chord E (h_gin_1 E (bs_msg statement)) K_BITS = Inr precomp_h1"
      "precompute_chord E (h_gin_2 E (bs_msg statement)) K_BITS = Inr precomp_h2"
    and made: "chord_compute_witness_precomputed E D (decompose_k_fp D (fq_to_fp E sk1) (K_BITS + 1)) g_table = Inr pk1_witness"
      "collect (\<lambda>rec. rbind (receiver_chord_precomps_get E tables (br_pkj rec)) (\<lambda>table.
         compute_hidden_receiver_witness E D g_table sk1 rec (bs_beta statement) table precomp_h1 precomp_h2))
         (bs_receivers statement) = Inr witnesses"
    and verifier: "receiver_chord_precomps_new E statements = Inr tables'" "statement \<in> set statements"
  shows "erase (batched_prover_circuit E D g_table precomp_h1 precomp_h2 statement sk1)
    = erase (batched_verifier_circuit E g_table tables' precomp_h1 precomp_h2 statement)"
proof -
  note g_table = precompute_tables[OF tables(2)[unfolded shared_g_in_chord_precomp_def]]
  have all: "list_all2 (\<lambda>rec w. rbind (receiver_chord_precomps_get E tables (br_pkj rec)) (\<lambda>table.
      compute_hidden_receiver_witness E D g_table sk1 rec (bs_beta statement) table precomp_h1 precomp_h2) = Inr w)
      (bs_receivers statement) witnesses"
    using made(2) by (simp add: collect_eq_Inr)
  have fits: "\<forall>w \<in> set witnesses. slot_witness_fits w"
  proof
    fix w assume "w \<in> set witnesses"
    then obtain rec where rec: "rbind (receiver_chord_precomps_get E tables (br_pkj rec)) (\<lambda>table.
      compute_hidden_receiver_witness E D g_table sk1 rec (bs_beta statement) table precomp_h1 precomp_h2) = Inr w"
      by (rule bexE[OF list_all2_right[OF all]]) (rule that)
    then obtain pc where pc: "receiver_chord_precomps_get E tables (br_pkj rec) = Inr pc"
      "compute_hidden_receiver_witness E D g_table sk1 rec (bs_beta statement) pc precomp_h1 precomp_h2 = Inr w"
      unfolding rbind_eq_Inr by blast
    show "slot_witness_fits w"
      by (rule hidden_witness_fits[OF precompute_tables[OF receiver_table[OF encoding_inject tables(1) pc(1)]]
          precompute_tables[OF tables(3)] precompute_tables[OF tables(4)] g_table pc(2)])
  qed
  have slots: "erase (prover_slots E g_table tables vs ps precomp_h1 precomp_h2 (bs_beta statement) (zip (bs_receivers statement) witnesses))
      = erase (verifier_slots E g_table tables' vs ps precomp_h1 precomp_h2 (bs_beta statement) (bs_receivers statement))"
    if "length vs = K_BITS + 1" for vs ps
    by (rule slots_same[OF that list_all2_lengthD[OF all] fits], intro ballI, rule receiver_tables_same[OF tables(1) _ verifier]) simp_all
  note pk1 = witness_of_fits[OF computed_chord(2)[OF g_table made(1)]]
  have commit: "erase (case affine_xy E (bs_pk1 statement) of Inl _ \<Rightarrow> Finish (Inl R1CSVerificationError)
       | Inr p \<Rightarrow> chord_exponentiate_r1cs_with_result vs g_table ps (Some (fst p, snd p)) (Some pk1_witness) (\<lambda>_.
           prover_slots E g_table tables vs ps precomp_h1 precomp_h2 (bs_beta statement) (zip (bs_receivers statement) witnesses)))
    = erase (case affine_xy E (bs_pk1 statement) of Inl _ \<Rightarrow> Finish (Inl R1CSVerificationError)
       | Inr p \<Rightarrow> chord_exponentiate_r1cs_with_result vs g_table ps (Some (fst p, snd p)) None (\<lambda>_.
           verifier_slots E g_table tables' vs ps precomp_h1 precomp_h2 (bs_beta statement) (bs_receivers statement)))"
    if "length vs = K_BITS + 1" for vs ps
    by (cases "affine_xy E (bs_pk1 statement)")
      (simp_all only: sum.case erase.simps chord_exponentiate_same[OF pk1 that slots[OF that]])
  have len: "length (bit_options (decompose_k_fp D (fq_to_fp E sk1) (K_BITS + 1))) = length (replicate (K_BITS + 1) None)"
    by (simp add: bit_options_eq del: upt_Suc)
  show ?thesis
    unfolding batched_prover_circuit_def batched_verifier_circuit_def Let_def bit_decompose_q_def or_abort_def made tables(1) sum.case
      case_prod_unfold
    by (simp only: erase.simps gadget.inject, intro conjI refl ext, rule bit_decompose_same[OF len], rule window_products_same, rule commit)
qed

text \<open>The verifier that runs the batched circuit of an honest prover ends with a satisfied circuit.\<close>

lemma batched_run:
  assumes "good_prover p" "cs_agree C p vf"
    and "receiver_chord_precomps_new E [statement] = Inr tables" "shared_g_in_chord_precomp E = Inr g_table"
      "precompute_chord E (h_gin_1 E (bs_msg statement)) K_BITS = Inr precomp_h1"
      "precompute_chord E (h_gin_2 E (bs_msg statement)) K_BITS = Inr precomp_h2"
    and "sk1 \<in> fq_elements" "bs_pk1 statement = point_mul E (group_generator E) sk1"
    and "chord_compute_witness_precomputed E D (decompose_k_fp D (fq_to_fp E sk1) (K_BITS + 1)) g_table = Inr pk1_witness"
      "collect (\<lambda>rec. rbind (receiver_chord_precomps_get E tables (br_pkj rec)) (\<lambda>table.
         compute_hidden_receiver_witness E D g_table sk1 rec (bs_beta statement) table precomp_h1 precomp_h2))
         (bs_receivers statement) = Inr witnesses"
    and "\<forall>rec \<in> set (bs_receivers statement).
      receiver_integral E (h_gin_1 E (bs_msg statement)) (h_gin_2 E (bs_msg statement)) (bs_beta statement) sk1 rec"
    and "receiver_chord_precomps_new E statements = Inr tables'" "statement \<in> set statements"
  shows "\<exists>p' vf'. run_prover M C (batched_prover_circuit E D g_table precomp_h1 precomp_h2 statement sk1) p = Inr p' \<and> satisfied p'
    \<and> run_verifier M C (batched_verifier_circuit E g_table tables' precomp_h1 precomp_h2 statement) vf = Inr vf'
    \<and> cs_agree C p' vf' \<and> circuit_holds (wire p') vf'"
proof -
  obtain p' where p': "run_prover M C (batched_prover_circuit E D g_table precomp_h1 precomp_h2 statement sk1) p = Inr p'" "good_prover p'"
    using batched_prover_completes[OF assms(1,3-10) bspec[OF assms(11)], of M C] unfolding completes_def by blast
  obtain vf' where vf': "run_verifier M C (batched_prover_circuit E D g_table precomp_h1 precomp_h2 statement sk1) vf = Inr vf'"
      "good_call C p p' vf'"
    using run_agree[OF assms(2) _ p'(1)] assms(1) by (auto simp: good_prover_def)
  have agree: "cs_agree C p' vf'" using good_callD[OF vf'(2)] by blast
  show ?thesis
    using p' good_satisfied[OF p'(2)] agree good_holds[OF p'(2) agree] vf'(1)
      run_verifier_same[OF batched_same[OF assms(3-6,9,10,12,13)], of M C vf] by metis
qed

end

end
