(* ===== verification/Evrf_Chord_Total.thy ===== *)
theory Evrf_Chord_Total
  imports Evrf_Relation_Sound
begin

text \<open>
  When the prover's computations of an exponentiation succeed: the tables exist when no point of them is the
  identity, and the witness exists exactly when no addition is exceptional.
\<close>

context chord_curve
begin

lemma xy_the: "p \<noteq> 0 \<Longrightarrow> xy E p = Some (the (xy E p))"
  using xy_identity[of p] by (cases "xy E p") simp_all

lemma batch_affine_total: "0 \<notin> set ps \<Longrightarrow> batch_affine E ps = Inr (map (\<lambda>p. the (xy E p)) ps)"
  unfolding batch_affine_Inr map_Some_the using xy_identity by (metis (no_types, lifting))

lemma precompute_total:
  assumes "0 < lambda" "even lambda" "0 \<notin> set (table_points E X lambda)"
  shows "\<exists>pc. precompute_chord E X lambda = Inr pc"
  using batch_affine_total[OF assms(3)] by (simp only: precompute_eq[OF assms(1,2)] rbind_Inr) blast

lemma witness_total:
  assumes tables: "tables_of E X lambda pc" and len: "length bs = lambda + 1" and wit: "witness_of E X lambda ((!) bs) wit"
  shows "\<exists>wit. chord_compute_witness_precomputed E D bs pc = Inr wit"
proof (rule witness_ofE[OF wit])
  let ?n = "lambda div 2" and ?R = "running E X lambda ((!) bs)" and ?W = "window_point E X lambda ((!) bs)"
  fix L Delta
  assume L: "\<And>w. w \<le> ?n \<Longrightarrow> xy E (?R w) = Some (L w)"
    and Delta: "\<And>w. 1 \<le> w \<Longrightarrow> w \<le> ?n \<Longrightarrow> xy E (?W w) = Some (Delta w) \<and> fst (L (w - 1)) \<noteq> fst (Delta w)"
  have pl: "length (cp_powers pc) - 1 = lambda" using tables by (simp add: tables_of_def)
  let ?cs = "map L [0..<?n + 1] @ map Delta [1..<?n + 1]"
  have affines: "batch_affine E (map ?R [0..<?n + 1] @ map ?W [1..<?n + 1]) = Inr ?cs"
    unfolding batch_affine_Inr using L Delta by (auto simp del: upt_Suc)
  have parts: "take (?n + 1) ?cs = map L [0..<?n + 1]" "drop (?n + 1) ?cs = map Delta [1..<?n + 1]"
    by (simp_all del: upt_Suc)
  have "\<exists>dxs dys. chord_differences (map L [0..<?n + 1]) (map Delta [1..<?n + 1]) [1..<?n + 1] [] [] = Inr (dxs, dys)"
    unfolding chord_differences_Inr
  proof (rule exI, rule exI, intro conjI ballI, goal_cases)
    case (1 w)
    then have w: "1 \<le> w" "w \<le> ?n" by auto
    have "map L [0..<?n + 1] ! (w - 1) = L (w - 1)" "map Delta [1..<?n + 1] ! (w - 1) = Delta w"
      using w by (simp_all del: upt_Suc)
    then show "fst (map L [0..<?n + 1] ! (w - 1)) \<noteq> fst (map Delta [1..<?n + 1] ! (w - 1))"
      using Delta[OF w] by simp
  qed (rule refl)+
  then obtain dxs dys where "chord_differences (map L [0..<?n + 1]) (map Delta [1..<?n + 1]) [1..<?n + 1] [] [] = Inr (dxs, dys)" by blast
  then show ?thesis
    unfolding chord_compute_witness_precomputed_def pl chord_points_eq[OF tables] Let_def prod.case len affines rbind_Inr parts
    by simp
qed

text \<open>So the witness is computed exactly when the exponentiation is regular.\<close>

lemma compute_witness_regular:
  assumes "tables_of E X K_BITS pc" "cycle_laws D" "length bs = K_BITS + 1"
  shows "(\<exists>wit. chord_compute_witness_precomputed E D bs pc = Inr wit) \<longleftrightarrow> regular E X bs"
  using compute_witness_of[OF assms(1,2)] witness_total[OF assms(1,3)] unfolding regular_witness_of by blast

text \<open>Without a circuit: the accumulated point, step by step.\<close>

lemma evaluate_fold:
  fixes X :: 'p
  defines "g \<equiv> chord_correction_generator E X"
  assumes "0 < lambda" "length bs \<le> lambda + 1" "bs \<noteq> []"
  shows "fold (\<lambda>(j, b) (l, p_j).
           let c_j_point = (if j = 0 then g else if j < lambda then point_mul E g 2 else point_mul E g (chord_cj lambda lambda));
               delta = (if b then p_j + c_j_point else c_j_point)
           in (if j = 0 then delta else l + delta, p_j + p_j)) (enumerate 0 bs) (0, X)
    = (point_mul E X (of_nat (bits_int bs)) + point_mul E g (\<Sum>j<length bs. chord_cj j lambda), chord_P E X (length bs))"
  using assms(3,4)
proof (induction bs rule: rev_induct)
  case (snoc b bs)
  let ?n = "length bs"
  have c: "(if ?n = 0 then g else if ?n < lambda then point_mul E g 2 else point_mul E g (chord_cj lambda lambda)) = chord_C E X lambda ?n"
    using snoc.prems(1) assms(2) by (cases "?n = lambda") (auto simp: chord_C_eq g_def)
  have e: "enumerate 0 (bs @ [b]) = enumerate 0 bs @ [(?n, b)]" by (simp add: enumerate_append_eq)
  have appended: "bits_int (bs @ [b]) = bits_int bs + 2 ^ ?n * of_bool b" by (simp add: bits_int_append)
  have last: "point_mul E X (of_nat (2 ^ ?n * of_bool b)) + chord_C E X lambda ?n = (if b then chord_P E X ?n + chord_C E X lambda ?n else chord_C E X lambda ?n)"
    by (simp add: chord_P_def)
  have corrections: "point_mul E g (\<Sum>j<length (bs @ [b]). chord_cj j lambda) = point_mul E g (\<Sum>j<?n. chord_cj j lambda) + chord_C E X lambda ?n"
    by (simp add: chord_C_def g_def pmul_add)
  show ?case
  proof (cases "bs = []")
    case True
    then show ?thesis using pmul_add[of X 1 1] by (simp add: chord_C_eq g_def chord_P_def chord_cj_def pmul_one)
  next
    case False
    let ?f = "\<lambda>(j, b) (l, p_j). let c_j_point = (if j = 0 then g else if j < lambda then point_mul E g 2 else point_mul E g (chord_cj lambda lambda));
               delta = (if b then p_j + c_j_point else c_j_point) in (if j = 0 then delta else l + delta, p_j + p_j)"
    have n: "?n \<noteq> 0" using False by simp
    have step: "?f (?n, b) (l, chord_P E X ?n)
        = (l + (if b then chord_P E X ?n + chord_C E X lambda ?n else chord_C E X lambda ?n), chord_P E X (Suc ?n))" for l
      unfolding prod.case Let_def c unfolding if_not_P[OF n] chord_P_Suc by (rule refl)
    have "fold ?f (enumerate 0 (bs @ [b])) (0, X) = ?f (?n, b) (fold ?f (enumerate 0 bs) (0, X))"
      by (simp only: e fold_append comp_def fold_simps)
    also have "fold ?f (enumerate 0 bs) (0, X)
        = (point_mul E X (of_nat (bits_int bs)) + point_mul E g (\<Sum>j<?n. chord_cj j lambda), chord_P E X ?n)"
      by (rule snoc.IH[OF _ False]) (use snoc.prems(1) in simp)
    also note step
    finally show ?thesis
      unfolding appended corrections of_nat_add pmul_add last[symmetric] by (simp add: add_ac)
  qed
qed simp

lemma evaluate_point:
  assumes "0 < lambda" "length bs = lambda + 1"
  shows "chord_evaluate_point E bs X lambda = Inr (point_mul E X (of_nat (bits_int bs)))"
proof -
  have "bs \<noteq> []" "length bs \<le> lambda + 1" using assms(2) by auto
  note evaluate_fold[OF assms(1) this(2,1), of X]
  moreover have "point_mul E (chord_correction_generator E X) (\<Sum>j<length bs. chord_cj j lambda) = 0"
    using chord_cj_sum[OF assms(1)] assms(2) by simp
  moreover have "\<not> length bs \<noteq> lambda + 1" using assms(2) by simp
  ultimately show ?thesis
    unfolding chord_evaluate_point_def Let_def by simp
qed

end

end
