(* ===== verification/Evrf_Cuspidal.thy ===== *)
theory Evrf_Cuspidal
  imports Complex_Main Evrf_Same_Circuit Evrf_Chord_Total
begin

text \<open>
  A small setting for the paper eVRF circuits: the cuspidal cubic \<open>y^2 = x^3\<close> over the rational numbers, on
  which \<open>t\<close> stands for the point \<open>(1 / t^2, 1 / t^3)\<close>. Its chord law is addition, so that the contracts
  \<open>chord_curve\<close> and \<open>secp_secq\<close> hold of it, and its exponentiations are computed by hand.
\<close>

section \<open>The curve\<close>

definition rational_repr :: "nat \<Rightarrow> rat \<Rightarrow> bytes" where
  "rational_repr m x = rev (be_bytes 32 (nat \<lfloor>x\<rfloor> mod m))"

text \<open>A rational number in unary: the digits of its numerator by its sign, then those of its denominator.\<close>

definition rational_bytes :: "rat \<Rightarrow> bytes" where
  "rational_bytes x = (case quotient_of x of (a, b) \<Rightarrow> replicate (nat \<bar>a\<bar>) (if a < 0 then 1 else 2) @ replicate (nat b) 0)"

definition rational_cycle :: "nat \<Rightarrow> (rat, rat, rat, rat) cycle" where
  "rational_cycle m =
     \<lparr>compressed_bytes = 33, group_generator = 1, point_mul = (*), scalar_from_wide = (\<lambda>bs. of_nat (from_le bs)),
      scalar_from_canonical = (\<lambda>bs. Some (of_nat (from_le bs))), scalar_to_canonical = rational_repr m,
      scalar_invert = inverse, scalar_batch_invert = (\<lambda>xs. (map inverse xs, prod_list (map inverse xs))),
      point_compress = (\<lambda>p. p), compressed_decompress = Some, compressed_identity = 0, compressed_is_identity = (\<lambda>c. c = 0),
      compressed_from_bytes = (\<lambda>bs. of_nat (from_le bs)), compressed_as_bytes = rational_bytes, point_hash_from_uniform = (\<lambda>_. Some 1),
      point_to_affine = (\<lambda>p. p), affine_to_point = (\<lambda>a. a), batch_normalize = (\<lambda>ps. ps), affine_compress = (\<lambda>a. a),
      vartime_msm = (\<lambda>xs ps. \<Sum>(x, p)\<leftarrow>zip xs ps. p * x), vartime_msm_affine = (\<lambda>xs ps. \<Sum>(x, p)\<leftarrow>zip xs ps. p * x),
      vartime_msm_optional = (\<lambda>xs ps. map_option (\<lambda>ps. \<Sum>(x, p)\<leftarrow>zip xs ps. p * x) (those ps))\<rparr>"

text \<open>The corrections are small, so that no addition of a short exponentiation is exceptional.\<close>

definition cuspidal :: "(rat, rat, rat, rat, rat) evrf_curve" where
  "cuspidal = cycle.extend (rational_cycle (modulus_int SECP256K1_SCALAR_MODULUS_LE))
     (evrf_curve.fields (\<lambda>t. if t = 0 then None else Some (1 / t ^ 2, 1 / t ^ 3))
        (\<lambda>domain msg. if domain = CHORD_CORRECTION_DOMAIN then 1 / 2 ^ 20 else if domain = H_GIN_2_DOMAIN then 1 / 2 else 1))"

definition rational_out :: "(rat, rat, rat, rat) cycle" where
  "rational_out = rational_cycle (modulus_int SECP256K1_BASE_MODULUS_LE)"

lemma cuspidal_simps [simp]:
  "group_generator cuspidal = 1" "point_mul cuspidal = (*)" "scalar_to_canonical cuspidal = rational_repr (modulus_int SECP256K1_SCALAR_MODULUS_LE)"
  "point_compress cuspidal p = p" "compressed_as_bytes cuspidal = rational_bytes" "point_to_affine cuspidal p = p" "affine_to_point cuspidal a = a"
  "hash_to_curve cuspidal domain msg = (if domain = CHORD_CORRECTION_DOMAIN then 1 / 2 ^ 20 else if domain = H_GIN_2_DOMAIN then 1 / 2 else 1)"
  "affine_coordinates cuspidal t = (if t = 0 then None else Some (1 / t ^ 2, 1 / t ^ 3))"
  "scalar_to_canonical rational_out = rational_repr (modulus_int SECP256K1_BASE_MODULUS_LE)"
  by (simp_all add: cuspidal_def rational_out_def rational_cycle_def evrf_curve.defs cycle.defs)

lemma from_le_append: "from_le (xs @ ys) = from_le xs + 256 ^ length xs * from_le ys"
  by (induction xs) (simp_all add: algebra_simps)

lemma from_le_rev_be: "from_le (rev (be_bytes k v)) = v mod 256 ^ k"
proof (induction k)
  case (Suc k)
  have "v mod (256 ^ k * 256) = 256 ^ k * (v div 256 ^ k mod 256) + v mod 256 ^ k" by (rule mod_mult2_eq)
  with Suc show ?case by (simp add: from_le_append unat_of_nat mult.commute add.commute)
qed simp

lemma rational_repr_value: "0 < m \<Longrightarrow> m \<le> 256 ^ 32 \<Longrightarrow> from_le (rational_repr m (of_nat n)) = n mod m"
proof -
  assume m: "0 < m" "m \<le> 256 ^ 32"
  have "n mod m < m" using m by simp
  then have "n mod m < 256 ^ 32" using m(2) by (rule less_le_trans)
  then show ?thesis by (simp only: rational_repr_def from_le_rev_be floor_of_nat nat_int mod_less)
qed

lemma rational_repr_length: "length (rational_repr m x) = 32"
  by (simp add: rational_repr_def)

lemma rational_bytes_inject: "rational_bytes x = rational_bytes y \<Longrightarrow> x = y"
proof -
  assume eq: "rational_bytes x = rational_bytes y"
  obtain a b where x: "quotient_of x = (a, b)" by fastforce
  obtain c d where y: "quotient_of y = (c, d)" by fastforce
  have pos: "0 < b" "0 < d" using quotient_of_denom_pos[OF x] quotient_of_denom_pos[OF y] by simp_all
  have counts: "count_list (rational_bytes x) z = count_list (rational_bytes y) z" for z using eq by simp
  have rep: "count_list (replicate n v) z = (if v = z then n else 0)" for n and v z :: byte by (induction n) auto
  have "nat b = nat d" using counts[of 0] by (simp add: rational_bytes_def x y rep split: if_splits)
  moreover have "(if a < 0 then nat \<bar>a\<bar> else 0) = (if c < 0 then nat \<bar>c\<bar> else 0)" "(if a < 0 then 0 else nat \<bar>a\<bar>) = (if c < 0 then 0 else nat \<bar>c\<bar>)"
    using counts[of 1] counts[of 2] by (simp_all add: rational_bytes_def x y rep split: if_splits)
  ultimately have "a = c" "b = d" using pos by (auto split: if_splits)
  then show "x = y" using x y by (metis quotient_of_inject)
qed

lemma rational_cycle_laws: "cycle_laws (cycle.extend (rational_cycle m) z)"
  by unfold_locales (auto simp: rational_cycle_def cycle.defs algebra_simps)

lemma rational_out_laws: "cycle_laws rational_out"
  by unfold_locales (auto simp: rational_out_def rational_cycle_def algebra_simps)

lemma cuspidal_xy: "xy cuspidal t = (if t = 0 then None else Some (1 / t ^ 2, 1 / t ^ 3))"
  by (simp add: xy_def)

lemma cuspidal_chord:
  fixes t u :: rat
  assumes "t \<noteq> 0" "u \<noteq> 0" "t ^ 2 \<noteq> u ^ 2"
  shows "chord_sum (1 / t ^ 2, 1 / t ^ 3) (1 / u ^ 2, 1 / u ^ 3) = (1 / (t + u) ^ 2, 1 / (t + u) ^ 3)"
proof -
  have ne: "t + u \<noteq> 0" "u - t \<noteq> 0"
    using assms(3) by (auto simp: eq_neg_iff_add_eq_0[symmetric])
  let ?N = "u ^ 2 + u * t + t ^ 2" and ?s = "(u ^ 2 + u * t + t ^ 2) / (t * u * (t + u))"
  have diff: "1 / x - 1 / y = (y - x) / (x * y)" if "x \<noteq> 0" "y \<noteq> 0" for x y :: rat
    using that by (simp add: diff_divide_eq_iff divide_diff_eq_iff field_simps)
  have cubes: "u ^ 3 - t ^ 3 = (u - t) * ?N" and squares: "u ^ 2 - t ^ 2 = (u - t) * (t + u)"
    by (simp_all add: power2_eq_square power3_eq_cube algebra_simps)
  have dy: "1 / t ^ 3 - 1 / u ^ 3 = (u - t) * ?N / (t ^ 3 * u ^ 3)" and dx: "1 / t ^ 2 - 1 / u ^ 2 = (u - t) * (t + u) / (t ^ 2 * u ^ 2)"
    using assms(1,2) by (simp_all add: diff cubes squares)
  have "(u - t) * ?N / (t ^ 3 * u ^ 3) = ?s * ((u - t) * (t + u) / (t ^ 2 * u ^ 2))"
    using assms(1,2) ne by (simp add: power2_eq_square power3_eq_cube mult_ac)
  moreover have "(u - t) * (t + u) / (t ^ 2 * u ^ 2) \<noteq> 0" using assms(1,2) ne by simp
  moreover have "a / b = c" if "a = c * b" "b \<noteq> 0" for a b c :: rat using that by simp
  ultimately have s: "(1 / t ^ 3 - 1 / u ^ 3) / (1 / t ^ 2 - 1 / u ^ 2) = ?s"
    unfolding dy dx by blast
  have x: "?s * ?s - 1 / t ^ 2 - 1 / u ^ 2 = 1 / (t + u) ^ 2"
  proof -
    have "?s * ?s - 1 / t ^ 2 - 1 / u ^ 2 = (?N ^ 2 - u ^ 2 * (t + u) ^ 2 - t ^ 2 * (t + u) ^ 2) / (t * u * (t + u)) ^ 2"
      using assms(1,2) ne by (simp add: diff_divide_distrib power_mult_distrib power2_eq_square)
    also have "?N ^ 2 - u ^ 2 * (t + u) ^ 2 - t ^ 2 * (t + u) ^ 2 = (t * u) ^ 2"
      by (simp add: power2_eq_square algebra_simps)
    finally show ?thesis using assms(1,2) by (simp add: power_mult_distrib)
  qed
  have y: "?s * (1 / t ^ 2 - 1 / (t + u) ^ 2) - 1 / t ^ 3 = 1 / (t + u) ^ 3"
  proof -
    have "1 / t ^ 2 - 1 / (t + u) ^ 2 = u * (2 * t + u) / (t ^ 2 * (t + u) ^ 2)"
    proof -
      have "(t + u) ^ 2 - t ^ 2 = u * (2 * t + u)" by (simp add: power2_eq_square algebra_simps)
      then show ?thesis using assms(1) ne(1) by (simp add: diff)
    qed
    then have "?s * (1 / t ^ 2 - 1 / (t + u) ^ 2) = ?N * (2 * t + u) / (t * (t + u)) ^ 3"
      using assms(2) by (simp add: power_mult_distrib power2_eq_square power3_eq_cube mult_ac)
    also have "\<dots> - 1 / t ^ 3 = (?N * (2 * t + u) - (t + u) ^ 3) / (t * (t + u)) ^ 3"
      using ne by (simp add: diff_divide_distrib power_mult_distrib)
    also have "?N * (2 * t + u) - (t + u) ^ 3 = t ^ 3"
      by (simp add: power2_eq_square power3_eq_cube algebra_simps)
    finally show ?thesis using assms(1) by (simp add: power_mult_distrib)
  qed
  show ?thesis by (simp only: chord_sum_def prod.case s Let_def x y)
qed

interpretation cusp: chord_curve cuspidal
proof -
  have "cycle_laws cuspidal" unfolding cuspidal_def by (rule rational_cycle_laws)
  moreover have "chord_curve_axioms cuspidal"
  proof
    fix t u :: rat and c d :: "rat \<times> rat"
    show "affine_to_point cuspidal t = affine_to_point cuspidal u \<Longrightarrow> t = u" by simp
    show "xy cuspidal t = None \<longleftrightarrow> t = 0" by (simp add: cuspidal_xy)
    show "xy cuspidal t = Some c \<Longrightarrow> xy cuspidal u = Some c \<Longrightarrow> t = u"
    proof -
      assume "xy cuspidal t = Some c" "xy cuspidal u = Some c"
      then have "t \<noteq> 0" "u \<noteq> 0" "t ^ 2 = u ^ 2" "t ^ 3 = u ^ 3" by (auto simp: cuspidal_xy split: if_splits)
      then have "t * u ^ 2 = u * u ^ 2" by (simp add: power2_eq_square power3_eq_cube)
      then show "t = u" using \<open>u \<noteq> 0\<close> by simp
    qed
    show "xy cuspidal t = Some c \<Longrightarrow> xy cuspidal u = Some d \<Longrightarrow> fst c \<noteq> fst d \<Longrightarrow> xy cuspidal (t + u) = Some (chord_sum c d)"
    proof -
      assume "xy cuspidal t = Some c" "xy cuspidal u = Some d" "fst c \<noteq> fst d"
      then have t: "t \<noteq> 0" "u \<noteq> 0" "c = (1 / t ^ 2, 1 / t ^ 3)" "d = (1 / u ^ 2, 1 / u ^ 3)" "t ^ 2 \<noteq> u ^ 2"
        by (auto simp: cuspidal_xy split: if_splits)
      have "t + u \<noteq> 0"
      proof
        assume "t + u = 0"
        then have "t = - u" by (simp add: eq_neg_iff_add_eq_0)
        then show False using t(5) by simp
      qed
      then show ?thesis using cuspidal_chord[OF t(1,2,5)] by (simp add: cuspidal_xy t(3,4))
    qed
  qed
  ultimately show "chord_curve cuspidal" by (rule chord_curve.intro)
qed

interpretation cusp: secp_secq cuspidal rational_out
proof -
  have moduli: "0 < modulus_int SECP256K1_SCALAR_MODULUS_LE" "modulus_int SECP256K1_SCALAR_MODULUS_LE \<le> 256 ^ 32"
    "0 < modulus_int SECP256K1_BASE_MODULUS_LE" "modulus_int SECP256K1_BASE_MODULUS_LE \<le> 256 ^ 32"
    by (simp_all add: modulus_values)
  have "secp_secq_axioms cuspidal rational_out"
    by (rule secp_secq_axioms.intro) (auto simp: rational_out_laws rational_repr_length rational_repr_value[OF moduli(1,2)]
        rational_repr_value[OF moduli(3,4)] dest: rational_bytes_inject)
  then show "secp_secq cuspidal rational_out" by (rule secp_secq.intro[OF cusp.chord_curve_axioms])
qed


section \<open>Regular exponentiations\<close>

text \<open>The bases of the example are \<open>1\<close> and \<open>1 / 2\<close>; the corrections are multiples of \<open>1 / 2 ^ 20\<close>.\<close>

lemma small_correction:
  fixes a c :: int
  assumes "c \<noteq> 0" "\<bar>c\<bar> < 2 ^ 19"
  shows "of_int a / 2 + of_int c / 2 ^ 20 \<noteq> (0 :: rat)"
proof
  assume "of_int a / 2 + of_int c / 2 ^ 20 = (0 :: rat)"
  then have "of_int (a * 2 ^ 19 + c) = (0 :: rat)" by (simp add: field_simps)
  then have "c = (- a) * 2 ^ 19" unfolding of_int_eq_0_iff by simp
  then have "\<bar>c\<bar> = \<bar>a\<bar> * 2 ^ 19" by (simp add: abs_mult)
  then show False using assms by (cases "a = 0") simp_all
qed

definition example_base :: "rat \<Rightarrow> bool" where
  "example_base X \<longleftrightarrow> X = 1 \<or> X = 1 / 2"

lemma example_multiple: "example_base X \<Longrightarrow> \<exists>a. X * of_nat n = of_int a / 2"
  by (auto simp: example_base_def intro: exI[of _ "2 * int n"] exI[of _ "int n"])

lemma cuspidal_correction: "chord_correction_generator cuspidal X = 1 / 2 ^ 20"
  by (simp add: chord_correction_generator_def)

lemma cuspidal_C: "chord_C cuspidal X lambda j = chord_cj j lambda / 2 ^ 20"
  by (simp add: chord_C_def cuspidal_correction)

lemma cuspidal_P: "chord_P cuspidal X j = X * of_nat (2 ^ j)"
  by (simp add: chord_P_def)

text \<open>The coefficients of the correction in the points of the windows and in the running points.\<close>

definition window_coefficient :: "nat \<Rightarrow> int" where
  "window_coefficient w = (if w = K_BITS div 2 then - 509 else 4)"

lemma window_coefficient_value:
  assumes "1 \<le> w" "w \<le> K_BITS div 2"
  shows "chord_cj (2 * w - 1) K_BITS + chord_cj (2 * w) K_BITS = (of_int (window_coefficient w) :: rat)"
  using assms by (auto simp: chord_cj_def window_coefficient_def K_BITS_def)

lemma cuspidal_window:
  assumes "1 \<le> w" "w \<le> K_BITS div 2"
  shows "\<exists>n. window_point cuspidal X K_BITS b w = X * of_nat n + of_int (window_coefficient w) / 2 ^ 20"
proof (rule exI[of _ "of_bool (b (2 * w - 1)) * 2 ^ (2 * w - 1) + of_bool (b (2 * w)) * 2 ^ (2 * w)"])
  show "window_point cuspidal X K_BITS b w
      = X * of_nat (of_bool (b (2 * w - 1)) * 2 ^ (2 * w - 1) + of_bool (b (2 * w)) * 2 ^ (2 * w)) + of_int (window_coefficient w) / 2 ^ 20"
    using window_coefficient_value[OF assms, symmetric]
    by (simp add: window_point_def cuspidal_C cuspidal_P algebra_simps add_divide_distrib)
qed

lemma cuspidal_running:
  assumes "w < K_BITS div 2"
  shows "\<exists>n. running cuspidal X K_BITS b w = X * of_nat n + of_int (4 * int w + 1) / 2 ^ 20"
proof -
  have "2 * w + 1 \<le> K_BITS" using assms by (simp add: K_BITS_def)
  then have "(\<Sum>j<2 * w + 1. chord_cj j K_BITS) = (2 * of_nat (2 * w + 1) - 1 :: rat)"
    by (intro cusp.chord_cj_partial) simp_all
  then show ?thesis
    using cusp.running_closed[of w K_BITS X b] assms
    by (intro exI[of _ "bits_int (map b [0..<2 * w + 1])"]) (simp add: cuspidal_correction algebra_simps del: upt_Suc)
qed

lemma example_nonzero:
  assumes "example_base X" "c \<noteq> 0" "\<bar>c\<bar> < 2 ^ 19"
  shows "X * of_nat n + of_int c / 2 ^ 20 \<noteq> 0" "X * of_nat n - X * of_nat m + of_int c / 2 ^ 20 \<noteq> 0"
proof -
  obtain a b where "X * of_nat n = of_int a / 2" "X * of_nat m = of_int b / 2" using example_multiple[OF assms(1)] by blast
  then show "X * of_nat n + of_int c / 2 ^ 20 \<noteq> 0" "X * of_nat n - X * of_nat m + of_int c / 2 ^ 20 \<noteq> 0"
    using small_correction[OF assms(2,3), of a] small_correction[OF assms(2,3), of "a - b"] by (simp_all add: diff_divide_distrib)
qed

lemma example_window: "example_base X \<Longrightarrow> 1 \<le> w \<Longrightarrow> w \<le> K_BITS div 2 \<Longrightarrow> window_point cuspidal X K_BITS b w \<noteq> 0"
  using cuspidal_window[of w X b] example_nonzero(1)[of X "window_coefficient w"] by (fastforce simp: window_coefficient_def)

lemma example_running: "example_base X \<Longrightarrow> w < K_BITS div 2 \<Longrightarrow> running cuspidal X K_BITS b w \<noteq> 0"
  using cuspidal_running[of w X b] example_nonzero(1)[of X "4 * int w + 1"] by (fastforce simp: K_BITS_def)

text \<open>Every exponentiation by a nonzero number is regular.\<close>

lemma example_regular:
  assumes X: "example_base X" and len: "length bs = K_BITS + 1" and nonzero: "bits_int bs \<noteq> 0"
  shows "regular cuspidal X bs"
proof -
  let ?R = "running cuspidal X K_BITS ((!) bs)" and ?W = "window_point cuspidal X K_BITS ((!) bs)"
  have "K_BITS div 2 \<noteq> 0" by (simp add: K_BITS_def)
  have last: "?R (K_BITS div 2) \<noteq> 0"
    using cusp.running_end[of K_BITS X "(!) bs"] map_nth[of bs] len nonzero X by (auto simp: K_BITS_def example_base_def simp del: upt_Suc)
  have all: "?R w \<noteq> 0" if "w \<le> K_BITS div 2" for w
    using that last example_running[OF X, of w] by (cases "w = K_BITS div 2") auto
  have apart: "?R (w - 1) ^ 2 \<noteq> ?W w ^ 2" if w: "1 \<le> w" "w \<le> K_BITS div 2" for w
  proof -
    obtain n where n: "?R (w - 1) = X * of_nat n + of_int (4 * int (w - 1) + 1) / 2 ^ 20"
      using cuspidal_running[of "w - 1"] w by fastforce
    obtain m where m: "?W w = X * of_nat m + of_int (window_coefficient w) / 2 ^ 20" using cuspidal_window[OF w] by blast
    have "?R (w - 1) + ?W w \<noteq> 0"
      using all[of w] w running.simps(2)[of cuspidal X K_BITS "(!) bs" "w - 1"] by simp
    moreover have "?R (w - 1) - ?W w \<noteq> 0"
    proof -
      have eq: "?R (w - 1) - ?W w = X * of_nat n - X * of_nat m + of_int (4 * int (w - 1) + 1 - window_coefficient w) / 2 ^ 20"
        unfolding n m by (simp add: diff_divide_distrib)
      have c: "4 * int (w - 1) + 1 - window_coefficient w \<noteq> 0" "\<bar>4 * int (w - 1) + 1 - window_coefficient w\<bar> < 2 ^ 19"
        using w by (auto simp: window_coefficient_def K_BITS_def; presburger)+
      show ?thesis unfolding eq by (rule example_nonzero(2)[OF X c])
    qed
    ultimately show ?thesis by (simp add: power2_eq_iff eq_neg_iff_add_eq_0)
  qed
  show ?thesis
    unfolding regular_def
    using all example_window[OF X] apart by (auto simp: cuspidal_xy)
qed

text \<open>The tables exist.\<close>

lemma table_points_windows:
  assumes "p \<in> set (table_points E X lambda)"
  shows "p = running E X lambda (\<lambda>_. False) 0 \<or> p = running E X lambda (\<lambda>_. True) 0
    \<or> (\<exists>b w. 1 \<le> w \<and> w \<le> lambda div 2 \<and> p = window_point E X lambda b w)"
proof -
  let ?C = "chord_C E X lambda" and ?D = "\<lambda>j. chord_P E X j + chord_C E X lambda j"
  consider "p = ?C 0" | "p = ?D 0" | w where "1 \<le> w" "w \<le> lambda div 2"
      "p \<in> {?C (2 * w - 1) + ?C (2 * w), ?D (2 * w - 1) + ?C (2 * w), ?C (2 * w - 1) + ?D (2 * w), ?D (2 * w - 1) + ?D (2 * w)}"
    using assms unfolding table_points_def Let_def by (auto simp del: upt_Suc)
  then show ?thesis
  proof cases
    case 3
    have "window_point E X lambda (\<lambda>_. False) w = ?C (2 * w - 1) + ?C (2 * w)"
      "window_point E X lambda (\<lambda>j. j = 2 * w - 1) w = ?D (2 * w - 1) + ?C (2 * w)"
      "window_point E X lambda (\<lambda>j. j = 2 * w) w = ?C (2 * w - 1) + ?D (2 * w)"
      "window_point E X lambda (\<lambda>_. True) w = ?D (2 * w - 1) + ?D (2 * w)"
      using 3(1) by (auto simp: window_point_def add_ac)
    then show ?thesis using 3 by (metis insertE singletonD)
  qed simp_all
qed

lemma example_tables: "example_base X \<Longrightarrow> \<exists>pc. precompute_chord cuspidal X K_BITS = Inr pc"
proof (rule cusp.precompute_total)
  assume X: "example_base X"
  have "0 < K_BITS div 2" by (simp add: K_BITS_def)
  note start = example_running[OF X this]
  show "0 \<notin> set (table_points cuspidal X K_BITS)"
    using table_points_windows[of 0 cuspidal X K_BITS] start example_window[OF X] by metis
qed (simp_all add: K_BITS_def)

end
