(* ===== verification/Evrf_Properties.thy ===== *)
theory Evrf_Properties
  imports Evrf_Cuspidal Evrf_Count R1cs_Laws
begin

text \<open>
  The properties of the paper eVRF circuits, with a batch of one receiver on the cuspidal cubic as the witness:
  the secret and every public key are \<open>1\<close>, so that \<open>k = 1\<close>, \<open>T1.x = 1\<close>, \<open>T2.x = 4\<close> and the pad is \<open>5\<close>.
\<close>

section \<open>An example\<close>

definition example_receiver :: "(rat, rat) batched_receiver" where
  "example_receiver = \<lparr>br_receiver = ParticipantIndex 2, br_pkj = 1, br_share_commitment = 0, br_pad_commitment = 5, br_encrypted_share = 5\<rparr>"

definition example_statement :: "(rat, rat, rat) batched_statement" where
  "example_statement = \<lparr>bs_msg = replicate MESSAGE_BYTES 0, bs_pk1 = 1, bs_beta = 1, bs_threshold = 1,
     bs_commitment_coefficients = [0], bs_statement_roots = [replicate 32 0], bs_receivers = [example_receiver]\<rparr>"

lemma example_simps [simp]:
  "br_pkj example_receiver = 1" "br_pad_commitment example_receiver = 5" "bs_pk1 example_statement = 1"
  "bs_beta example_statement = 1" "bs_receivers example_statement = [example_receiver]"
  by (simp_all add: example_receiver_def example_statement_def)

lemma example_h: "h_gin_1 cuspidal msg = 1" "h_gin_2 cuspidal msg = 1 / 2"
proof -
  have "H_GIN_1_DOMAIN \<noteq> CHORD_CORRECTION_DOMAIN" "H_GIN_1_DOMAIN \<noteq> H_GIN_2_DOMAIN" "H_GIN_2_DOMAIN \<noteq> CHORD_CORRECTION_DOMAIN"
    by code_simp+
  then show "h_gin_1 cuspidal msg = 1" "h_gin_2 cuspidal msg = 1 / 2" by (simp_all add: h_gin_1_def h_gin_2_def)
qed

lemma example_bases: "example_base 1" "example_base (1 / 2)"
  by (simp_all add: example_base_def)

text \<open>The tables.\<close>

lemma example_precomputed:
  obtains g_table precomp_h2 where "precompute_chord cuspidal 1 K_BITS = Inr g_table" "precompute_chord cuspidal (1 / 2) K_BITS = Inr precomp_h2"
    "shared_g_in_chord_precomp cuspidal = Inr g_table"
    "receiver_chord_precomps_new cuspidal [example_statement] = Inr [(rational_bytes 1, g_table)]"
proof -
  obtain g_table precomp_h2 where t: "precompute_chord cuspidal 1 K_BITS = Inr g_table" "precompute_chord cuspidal (1 / 2) K_BITS = Inr precomp_h2"
    using example_tables example_bases by blast
  show ?thesis
    by (rule that[OF t]) (simp_all add: shared_g_in_chord_precomp_def receiver_chord_precomps_new_def receiver_points_def Let_def t)
qed

text \<open>The bits of a small number, and the exponentiations by them.\<close>

lemma example_bits:
  assumes "n < 2 ^ 200"
  shows "bits_int (decompose_k_fp rational_out (of_nat n) (K_BITS + 1)) = n" "fq_to_fp cuspidal (of_nat n :: rat) = of_nat n"
    "fp_to_fq rational_out (of_nat n :: rat) = (of_nat n :: rat)"
  unfolding cusp.decompose_nat cusp.fq_to_fp_nat cusp.fp_to_fq_nat using assms by (simp_all add: modulus_values)

lemma example_witness:
  assumes "example_base X" "precompute_chord cuspidal X K_BITS = Inr pc" "0 < n" "n < 2 ^ 200"
  obtains wit where "chord_compute_witness_precomputed cuspidal rational_out (decompose_k_fp rational_out (of_nat n) (K_BITS + 1)) pc = Inr wit"
    "checkpoint_coords wit \<noteq> []" "last (checkpoint_coords wit) = (1 / (X * of_nat n) ^ 2, 1 / (X * of_nat n) ^ 3)"
proof -
  let ?bs = "decompose_k_fp rational_out (of_nat n) (K_BITS + 1)"
  note tables = cusp.precompute_tables[OF assms(2)]
  have "bits_int ?bs \<noteq> 0" using assms(3) example_bits(1)[OF assms(4)] by simp
  note reg = example_regular[OF assms(1) decompose_length this]
  obtain wit where wit: "chord_compute_witness_precomputed cuspidal rational_out ?bs pc = Inr wit"
    by (rule exE[OF iffD2[OF cusp.compute_witness_regular[OF tables rational_out_laws decompose_length] reg]])
  note last = cusp.computed_chord(3)[OF tables wit, unfolded example_bits(1)[OF assms(4)] cuspidal_simps cuspidal_xy]
  have "X * of_nat n \<noteq> 0" using assms(1,3) by (auto simp: example_base_def)
  then have "Some (1 / (X * of_nat n) ^ 2, 1 / (X * of_nat n) ^ 3) = Some (last (checkpoint_coords wit))"
    using conjunct2[OF last] by (simp only: if_False)
  then show ?thesis by (intro that[OF wit conjunct1[OF last]]) (simp only: option.inject)
qed

lemma example_hidden:
  assumes "precompute_chord cuspidal 1 K_BITS = Inr g_table" "precompute_chord cuspidal (1 / 2) K_BITS = Inr precomp_h2"
  shows "\<exists>w. compute_hidden_receiver_witness cuspidal rational_out g_table 1 example_receiver 1 g_table g_table precomp_h2 = Inr w"
proof -
  have small: "(1 :: nat) < 2 ^ 200" "(5 :: nat) < 2 ^ 200" by simp_all
  obtain w1 where w1: "chord_compute_witness_precomputed cuspidal rational_out (decompose_k_fp rational_out 1 (K_BITS + 1)) g_table = Inr w1"
    "checkpoint_coords w1 \<noteq> []" "last (checkpoint_coords w1) = (1, 1)"
    using example_witness[OF example_bases(1) assms(1) _ small(1)] by auto
  obtain w2 where w2: "chord_compute_witness_precomputed cuspidal rational_out (decompose_k_fp rational_out 1 (K_BITS + 1)) precomp_h2 = Inr w2"
    "checkpoint_coords w2 \<noteq> []" "last (checkpoint_coords w2) = (4, 8)"
    using example_witness[OF example_bases(2) assms(2) _ small(1)] by (auto simp: power2_eq_square power3_eq_cube)
  obtain w5 where w5: "chord_compute_witness_precomputed cuspidal rational_out (decompose_k_fp rational_out 5 (K_BITS + 1)) g_table = Inr w5"
    using example_witness[OF example_bases(1) assms(1) _ small(2)] by auto
  have one: "fq_to_fp cuspidal (1 :: rat) = 1" and five: "fq_to_fp cuspidal (5 :: rat) = 5" "fp_to_fq rational_out (5 :: rat) = (5 :: rat)"
    using example_bits(2)[OF small(1)] example_bits(2,3)[OF small(2)] by simp_all
  have pad: "secp_mul_generator cuspidal 5 = 5"
    using cusp.mul_generator_nat[of 5] by (simp add: modulus_values)
  have r: "1 * 1 + 4 = (5 :: rat)" by simp
  have s: "affine_xy cuspidal (point_mul cuspidal (br_pkj example_receiver) 1) = Inr (1, 1)"
    by (simp add: affine_xy_eq cuspidal_xy)
  show ?thesis
    unfolding compute_hidden_receiver_witness_def Let_def s rbind_Inr prod.case w1(1) w2(1) if_not_P[OF w1(2)] if_not_P[OF w2(2)] w1(3) w2(3) r
      five pad one w5
    by simp
qed

lemma example_integral: "receiver_integral cuspidal 1 (1 / 2) 1 1 example_receiver"
proof -
  have "(1 :: rat) \<in> fp_elements" "(5 :: rat) \<in> fp_elements"
    unfolding fp_elements_def by (rule image_eqI[of _ _ 1] image_eqI[of _ _ 5], simp, simp add: modulus_values)+
  moreover have "k = 1" if "(1 :: rat) = of_nat k" for k using that of_nat_eq_iff[of 1 k, where 'a = rat] by simp
  ultimately show ?thesis
    unfolding receiver_integral_def by (auto simp: cuspidal_xy power2_eq_square)
qed

lemma example_secret: "(1 :: rat) \<in> fq_elements"
  unfolding fq_elements_def by (rule image_eqI[of _ _ 1]) (simp_all add: modulus_values)


section \<open>Sessions of the batched circuit\<close>

lemma new_session:
  "good_prover (r1cs_prover_new M pc t :: ('s::field, 'p, 't) prover)"
  "cs_agree C (r1cs_prover_new M pc t :: ('s::field, 'p, 't) prover) (verifier_cs_new M t)"
  by (simp_all add: good_prover_def cs_agree_def prover_ok_def gates_ok_def r1cs_prover_new_def verifier_cs_new_def secrets_new_def)

lemma new_gates: "ve_num_vars (verifier_cs_new M t) = 0" "ve_pending (verifier_cs_new M t) = None"
  by (simp_all add: verifier_cs_new_def)

lemma example_run:
  obtains g_table precomp_h2 p vf where "precompute_chord cuspidal 1 K_BITS = Inr g_table" "precompute_chord cuspidal (1 / 2) K_BITS = Inr precomp_h2"
    "shared_g_in_chord_precomp cuspidal = Inr g_table"
    "receiver_chord_precomps_new cuspidal [example_statement] = Inr [(rational_bytes 1, g_table)]"
    "\<exists>w. chord_compute_witness_precomputed cuspidal rational_out (decompose_k_fp rational_out (fq_to_fp cuspidal (1 :: rat)) (K_BITS + 1)) g_table = Inr w"
    "\<exists>ws. collect (\<lambda>rec. rbind (receiver_chord_precomps_get cuspidal [(rational_bytes 1, g_table)] (br_pkj rec)) (\<lambda>table.
         compute_hidden_receiver_witness cuspidal rational_out g_table 1 rec (bs_beta example_statement) table g_table precomp_h2))
         (bs_receivers example_statement) = Inr ws"
    "run_verifier counting_merlin_u64 rational_out (batched_verifier_circuit cuspidal g_table [(rational_bytes 1, g_table)] g_table precomp_h2
       example_statement) (verifier_cs_new counting_merlin_u64 0) = Inr vf"
    "circuit_holds (wire (p :: (rat, rat, nat) prover)) (vf :: (rat, rat, nat) verifier)"
proof -
  obtain g_table precomp_h2 where t: "precompute_chord cuspidal 1 K_BITS = Inr g_table" "precompute_chord cuspidal (1 / 2) K_BITS = Inr precomp_h2"
    "shared_g_in_chord_precomp cuspidal = Inr g_table"
    "receiver_chord_precomps_new cuspidal [example_statement] = Inr [(rational_bytes 1, g_table)]"
    by (rule example_precomputed)
  have one: "fq_to_fp cuspidal (1 :: rat) = of_nat 1" using example_bits(2)[of 1] by simp
  obtain w where w: "chord_compute_witness_precomputed cuspidal rational_out (decompose_k_fp rational_out (fq_to_fp cuspidal (1 :: rat)) (K_BITS + 1)) g_table = Inr w"
    unfolding one by (rule example_witness[OF example_bases(1) t(1), of 1]) simp_all
  obtain v where v: "compute_hidden_receiver_witness cuspidal rational_out g_table 1 example_receiver 1 g_table g_table precomp_h2 = Inr v"
    using example_hidden[OF t(1,2)] by blast
  have get: "receiver_chord_precomps_get cuspidal [(rational_bytes 1, g_table)] 1 = Inr g_table"
    by (simp add: receiver_chord_precomps_get_def)
  have ws: "collect (\<lambda>rec. rbind (receiver_chord_precomps_get cuspidal [(rational_bytes 1, g_table)] (br_pkj rec)) (\<lambda>table.
         compute_hidden_receiver_witness cuspidal rational_out g_table 1 rec (bs_beta example_statement) table g_table precomp_h2))
         (bs_receivers example_statement) = Inr [v]"
    by (simp add: get v)
  note run = cusp.batched_run[OF new_session(1)[of counting_merlin_u64 "\<lparr>ped_B = 1, ped_B_blinding = 2\<rparr>" 0] new_session(2), of example_statement, unfolded example_h example_simps, OF t(4,3,1,2) example_secret _ w,
      unfolded example_simps, OF _ ws[unfolded example_simps] _ t(4), unfolded list.set]
  have "1 = point_mul cuspidal (group_generator cuspidal) 1" "\<forall>rec \<in> {example_receiver}. receiver_integral cuspidal 1 (1 / 2) 1 1 rec"
    using example_integral by simp_all
  from run[OF this singletonI, where M = counting_merlin_u64 and C = rational_out]
  obtain p vf where "run_verifier counting_merlin_u64 rational_out (batched_verifier_circuit cuspidal g_table [(rational_bytes 1, g_table)] g_table precomp_h2
       example_statement) (verifier_cs_new counting_merlin_u64 0) = Inr vf" "circuit_holds (wire (p :: (rat, rat, nat) prover)) vf"
    by (elim exE conjE) (rule that)
  then show ?thesis using w ws by (intro that[OF t]) blast+
qed

section \<open>Properties\<close>



text \<open>
  C5. Completeness of the batched eVRF circuit: when the prover's tables and witnesses can be computed for a
  statement and its secret, its constraint system is satisfied, the verifier builds the same system from
  the statement alone, for any tables that cover the statement, and the prover's assignment satisfies it.
\<close>

theorem evrf_batched_complete:
  fixes E :: "('q::field, 'p::ab_group_add, 'a, 'c, 's::field, 'z) evrf_curve_scheme" and M :: "('t, 'y) merlin_scheme"
  assumes "secp_secq E D"
    and "receiver_chord_precomps_new E [statement] = Inr tables" "shared_g_in_chord_precomp E = Inr g_table"
    and "precompute_chord E (h_gin_1 E (bs_msg statement)) K_BITS = Inr precomp_h1"
    and "precompute_chord E (h_gin_2 E (bs_msg statement)) K_BITS = Inr precomp_h2"
    and "sk1 \<in> fq_elements" "bs_pk1 statement = point_mul E (group_generator E) sk1"
    and "chord_compute_witness_precomputed E D (decompose_k_fp D (fq_to_fp E sk1) (K_BITS + 1)) g_table = Inr pk1_witness"
    and "collect (\<lambda>rec. rbind (receiver_chord_precomps_get E tables (br_pkj rec)) (\<lambda>table.
         compute_hidden_receiver_witness E D g_table sk1 rec (bs_beta statement) table precomp_h1 precomp_h2))
         (bs_receivers statement) = Inr witnesses"
    and "\<forall>rec \<in> set (bs_receivers statement).
      receiver_integral E (h_gin_1 E (bs_msg statement)) (h_gin_2 E (bs_msg statement)) (bs_beta statement) sk1 rec"
    and "receiver_chord_precomps_new E statements = Inr tables'" "statement \<in> set statements"
  shows "\<exists>p vf. prover_session M D pc t [] (batched_prover_circuit E D g_table precomp_h1 precomp_h2 statement sk1) [] = Inr p
    \<and> verifier_session M D t [] (batched_verifier_circuit E g_table tables' precomp_h1 precomp_h2 statement) [] = Inr vf
    \<and> satisfied p \<and> ve_constraints vf = pr_constraints p \<and> ve_transcript vf = pr_transcript p \<and> circuit_holds (wire p) vf"
  using secp_secq.batched_run[OF assms(1) new_session(1)[where M = M and pc = pc and t = t] new_session(2) assms(2-12), where M = M and C = D]
  by (elim exE conjE) (simp add: prover_session_def verifier_session_def cs_agree_def)

lemma evrf_batched_complete_witness:
  "\<exists>g_table precomp_h2 p vf. prover_session counting_merlin_u64 rational_out \<lparr>ped_B = 1, ped_B_blinding = 2\<rparr> 0 []
      (batched_prover_circuit cuspidal rational_out g_table g_table precomp_h2 example_statement 1) [] = Inr p
    \<and> verifier_session counting_merlin_u64 rational_out 0 []
      (batched_verifier_circuit cuspidal g_table [(rational_bytes 1, g_table)] g_table precomp_h2 example_statement) [] = Inr vf
    \<and> satisfied p \<and> circuit_holds (wire p) vf"
proof (rule example_run)
  fix g_table precomp_h2 p vf
  assume t: "precompute_chord cuspidal 1 K_BITS = Inr g_table" "precompute_chord cuspidal (1 / 2) K_BITS = Inr precomp_h2"
    "shared_g_in_chord_precomp cuspidal = Inr g_table"
    "receiver_chord_precomps_new cuspidal [example_statement] = Inr [(rational_bytes 1, g_table)]"
    and w: "\<exists>w. chord_compute_witness_precomputed cuspidal rational_out (decompose_k_fp rational_out (fq_to_fp cuspidal (1 :: rat)) (K_BITS + 1)) g_table = Inr w"
    "\<exists>ws. collect (\<lambda>rec. rbind (receiver_chord_precomps_get cuspidal [(rational_bytes 1, g_table)] (br_pkj rec)) (\<lambda>table.
         compute_hidden_receiver_witness cuspidal rational_out g_table 1 rec (bs_beta example_statement) table g_table precomp_h2))
         (bs_receivers example_statement) = Inr ws"
  obtain w1 ws where w1: "chord_compute_witness_precomputed cuspidal rational_out (decompose_k_fp rational_out (fq_to_fp cuspidal (1 :: rat)) (K_BITS + 1)) g_table = Inr w1"
    and ws: "collect (\<lambda>rec. rbind (receiver_chord_precomps_get cuspidal [(rational_bytes 1, g_table)] (br_pkj rec)) (\<lambda>table.
         compute_hidden_receiver_witness cuspidal rational_out g_table 1 rec (bs_beta example_statement) table g_table precomp_h2))
         (bs_receivers example_statement) = Inr ws"
    using w by (elim exE) (rule that)
  have h: "precompute_chord cuspidal (h_gin_1 cuspidal (bs_msg example_statement)) K_BITS = Inr g_table"
    "precompute_chord cuspidal (h_gin_2 cuspidal (bs_msg example_statement)) K_BITS = Inr precomp_h2"
    by (simp_all add: example_h t)
  have i: "\<forall>rec \<in> set (bs_receivers example_statement). receiver_integral cuspidal (h_gin_1 cuspidal (bs_msg example_statement))
      (h_gin_2 cuspidal (bs_msg example_statement)) (bs_beta example_statement) 1 rec"
    using example_integral by (simp add: example_h)
  have pk: "bs_pk1 example_statement = point_mul cuspidal (group_generator cuspidal) 1" "example_statement \<in> set [example_statement]" by simp_all
  show "\<exists>g_table precomp_h2 p vf. prover_session counting_merlin_u64 rational_out \<lparr>ped_B = 1, ped_B_blinding = 2\<rparr> 0 []
      (batched_prover_circuit cuspidal rational_out g_table g_table precomp_h2 example_statement 1) [] = Inr p
    \<and> verifier_session counting_merlin_u64 rational_out 0 []
      (batched_verifier_circuit cuspidal g_table [(rational_bytes 1, g_table)] g_table precomp_h2 example_statement) [] = Inr vf
    \<and> satisfied p \<and> circuit_holds (wire p) vf"
    using evrf_batched_complete[OF cusp.secp_secq_axioms t(4,3) h example_secret pk(1) w1 ws i t(4) pk(2),
      of counting_merlin_u64 "\<lparr>ped_B = 1, ped_B_blinding = 2\<rparr>" 0]
    by blast
qed


text \<open>
  C28. The size of the batched circuit is the number that the public parameters are made for: for a threshold and a
  number of receivers that \<open>batched_multiplier_count\<close> accepts, the verifier's session of a statement with that
  many receivers, whose points are not the identity, succeeds with exactly that many multipliers.
\<close>

theorem evrf_batched_gates:
  fixes E :: "('q::field, 'p::ab_group_add, 'a, 'c, 's::field, 'z) evrf_curve_scheme"
  assumes "chord_curve E" "\<And>p q. encoded E p = encoded E q \<Longrightarrow> p = q"
    and "receiver_chord_precomps_new E statements = Inr tables" "statement \<in> set statements"
    and "precompute_chord E (h_gin_1 E (bs_msg statement)) K_BITS = Inr precomp_h1"
    and "precompute_chord E (h_gin_2 E (bs_msg statement)) K_BITS = Inr precomp_h2"
    and "shared_g_in_chord_precomp E = Inr g_table"
    and "bs_pk1 statement \<noteq> 0" "\<And>rec. rec \<in> set (bs_receivers statement) \<Longrightarrow> br_pad_commitment rec \<noteq> 0"
    and "batched_multiplier_count threshold (length (bs_receivers statement)) = Inr m"
  shows "\<exists>vf. verifier_session M C t [] (batched_verifier_circuit E g_table tables precomp_h1 precomp_h2 statement) [] = Inr vf
    \<and> ve_num_vars vf = m"
proof -
  note gates = chord_curve.batched_circuit_gates[OF assms(1) _ assms(3-8), where M = M and C = C and vf = "verifier_cs_new M t"]
  have "\<exists>vf. verifier_session M C t [] (batched_verifier_circuit E g_table tables precomp_h1 precomp_h2 statement) [] = Inr vf
      \<and> half_gates vf = 2070 + 6103 * length (bs_receivers statement)"
    using gates assms(2,9) by (simp add: verifier_session_def new_gates half_gates_def)
  then obtain vf where vf: "verifier_session M C t [] (batched_verifier_circuit E g_table tables precomp_h1 precomp_h2 statement) [] = Inr vf"
      "half_gates vf = 2070 + 6103 * length (bs_receivers statement)"
    by (elim exE conjE) (rule that)
  have "half_gates vf = half_gates (verifier_cs_new M t) + 2069 + 6103 * length (bs_receivers statement)"
    unfolding vf(2) by (simp add: half_gates_def new_gates)
  from count_value[OF assms(10) this new_gates] have "ve_num_vars vf = m" .
  with vf(1) show ?thesis by (intro exI conjI)
qed

lemma evrf_batched_gates_witness:
  "\<exists>g_table precomp_h2 vf. verifier_session counting_merlin_u64 rational_out 0 []
      (batched_verifier_circuit cuspidal g_table [(rational_bytes 1, g_table)] g_table precomp_h2 example_statement) [] = Inr vf
    \<and> ve_num_vars vf = 4086"
proof (rule example_precomputed)
  fix g_table precomp_h2
  assume t: "precompute_chord cuspidal 1 K_BITS = Inr g_table" "precompute_chord cuspidal (1 / 2) K_BITS = Inr precomp_h2"
    "shared_g_in_chord_precomp cuspidal = Inr g_table"
    "receiver_chord_precomps_new cuspidal [example_statement] = Inr [(rational_bytes 1, g_table)]"
  have count: "batched_multiplier_count 1 (length (bs_receivers example_statement)) = Inr 4086"
    by (simp add: batched_multiplier_count_def checked_usize_def BATCHED_RECEIVER_MULTIPLIERS_def BATCHED_SHARED_MULTIPLIERS_def)
  have "\<exists>vf. verifier_session counting_merlin_u64 rational_out 0 []
      (batched_verifier_circuit cuspidal g_table [(rational_bytes 1, g_table)] g_table precomp_h2 example_statement) [] = Inr vf
    \<and> ve_num_vars vf = 4086"
    by (rule evrf_batched_gates[OF cusp.chord_curve_axioms cusp.encoding_inject t(4) _ _ _ t(3) _ _ count]) (simp_all add: example_h t)
  then show ?thesis by blast
qed

text \<open>
  C32. The prover of an exponentiation fails exactly at exceptional additions: with the tables of a base, the witness
  for the bits of an exponent is computed if and only if no running point and no window's point is the
  identity and no two points that are added have the same \<open>x\<close> coordinate.
\<close>

theorem chord_witness_iff_regular:
  assumes "chord_curve E" "cycle_laws D" "precompute_chord E X K_BITS = Inr pc" "length bs = K_BITS + 1"
  shows "(\<exists>wit. chord_compute_witness_precomputed E D bs pc = Inr wit) \<longleftrightarrow> regular E X bs"
  using chord_curve.compute_witness_regular[OF assms(1) chord_curve.precompute_tables[OF assms(1,3)] assms(2,4)] .

lemma chord_witness_iff_regular_witness:
  "\<exists>pc wit. precompute_chord cuspidal (1 / 2) K_BITS = Inr pc
    \<and> chord_compute_witness_precomputed cuspidal rational_out (replicate K_BITS False @ [True]) pc = Inr wit"
proof -
  obtain pc where pc: "precompute_chord cuspidal (1 / 2) K_BITS = Inr pc" using example_tables[OF example_bases(2)] by blast
  have len: "length (replicate K_BITS False @ [True]) = K_BITS + 1" by (simp del: replicate.simps)
  have "bits_int (replicate K_BITS False @ [True]) \<noteq> 0" by (simp add: bits_int_append)
  from iffD2[OF chord_witness_iff_regular[OF cusp.chord_curve_axioms rational_out_laws pc len] example_regular[OF example_bases(2) len this]]
  show ?thesis using pc by blast
qed

text \<open>
  The windowed evaluation with its corrections is scalar multiplication: for a positive bound and that many bits
  plus one, it returns the multiple of the base by the integer of the bits, whatever the base and the
  correction point are.
\<close>

theorem chord_evaluate_is_multiple:
  assumes "chord_curve E" "0 < lambda" "length bs = lambda + 1"
  shows "chord_evaluate_point E bs X lambda = Inr (point_mul E X (of_nat (bits_int bs)))"
  by (rule chord_curve.evaluate_point[OF assms])

lemma chord_evaluate_is_multiple_witness: "chord_evaluate_point cuspidal [True, False, True] (1 / 2) 2 = Inr (5 / 2)"
  using chord_evaluate_is_multiple[OF cusp.chord_curve_axioms, of 2 "[True, False, True]" "1 / 2"] by simp

end
