(* ===== verification/Evrf_Protocol_Properties.thy ===== *)
theory Evrf_Protocol_Properties
  imports Evrf_Protocol_Laws Evrf_Properties
begin

text \<open>
  The properties of the paper eVRF protocol around its circuits: what exactly the two verifiers accept, what the
  proof of equal logarithms and the batched Feldman check are worth, and that a receiver with its pad holds its
  share. The witnesses run on the small instance of \<open>halo2curves\<close> and on the cuspidal cubic.
\<close>

section \<open>A small setting\<close>

abbreviation tiny_gin :: "(tiny, tiny, tiny, bytes, tiny) evrf_curve" where
  "tiny_gin \<equiv> halo2_evrf_curve tiny_halo2 secp256k1_domain"

abbreviation tiny_gout :: "(tiny, tiny, tiny, bytes) cycle" where
  "tiny_gout \<equiv> halo2_cycle tiny_halo2 secq256k1_domain"

lemma tiny_curve_simps [simp]:
  "point_mul tiny_gin p x = p * x" "group_generator tiny_gin = 1" "point_mul tiny_gout p x = p * x" "group_generator tiny_gout = 1"
  "scalar_from_wide tiny_gin bs = reduce (from_le bs)" "scalar_from_wide tiny_gout bs = reduce (from_le bs)"
  by (simp_all add: halo2_evrf_curve_def halo2_cycle_def tiny_halo2_def cycle.defs)

text \<open>Merlin with one challenge.\<close>

definition constant_merlin :: "byte \<Rightarrow> unit merlin_u64" where
  "constant_merlin b =
     \<lparr>merlin_new = (\<lambda>_. ()), append_message = (\<lambda>_ _ t. t), challenge_bytes = (\<lambda>_ len t. (b # replicate (len - 1) 0, t)),
      append_u64 = (\<lambda>_ _ t. t)\<rparr>"

lemma constant_challenge: "from_le (fst (challenge_bytes (constant_merlin b) l n t)) = unat b"
proof -
  have "from_le (replicate k 0) = 0" for k by (induction k) simp_all
  then show ?thesis by (simp add: constant_merlin_def)
qed

definition tiny_receiver :: "u32 \<Rightarrow> tiny \<Rightarrow> tiny \<Rightarrow> (tiny, tiny) batched_receiver" where
  "tiny_receiver i share pad = \<lparr>br_receiver = ParticipantIndex i, br_pkj = 3, br_share_commitment = share, br_pad_commitment = pad,
     br_encrypted_share = share + pad\<rparr>"

text \<open>The polynomial \<open>3 + 4 x\<close>, with the second share as a parameter.\<close>

definition tiny_batched :: "tiny \<Rightarrow> (tiny, tiny, tiny) batched_statement" where
  "tiny_batched second = \<lparr>bs_msg = replicate MESSAGE_BYTES 0, bs_pk1 = 2, bs_beta = 1, bs_threshold = 2,
     bs_commitment_coefficients = [3, 4], bs_statement_roots = [replicate 32 0, replicate 32 1],
     bs_receivers = [tiny_receiver 1 7 5, tiny_receiver 2 second 6]\<rparr>"

definition tiny_params :: "(tiny, tiny) batched_params" where
  "tiny_params = \<lparr>bp_threshold = 2, bp_receiver_count = 2, bp_multiplier_count = 7138, bp_pc_gens = tiny_pc, bp_bp_gens = tiny_gens\<rparr>"

definition tiny_table :: "(tiny, tiny) chord_precomp" where
  "tiny_table = \<lparr>cp_c0 = (0, 0), cp_d0 = (0, 0), cp_windows = [], cp_powers = [], cp_corrections = (0, 0, 0)\<rparr>"

section \<open>What the verifiers accept\<close>

text \<open>
  C7. The verifier of a batched dealer proof accepts exactly the canonical bytes of a proof that passes a reference
  check: the header, the framed R1CS proof whose equation holds for the circuit of the statement after the
  statement's fields, then the nonce and the response of the opening of the constant coefficient for the challenge
  after the R1CS proof, and nothing behind it; and the statement has the shape of the parameters and its public
  relations hold (with the batched Feldman check from 99 coefficients and receivers on).
\<close>

theorem evrf_batched_verify_iff:
  assumes "evrf_codecs E valid_gin D valid_gout"
  shows "evrf_batched_verify M E D R g_table params statement pr g = Some (Inr ()) \<longleftrightarrow>
    bp_threshold params = bs_threshold statement \<and> bp_receiver_count params = length (bs_receivers statement)
    \<and> verifier_relations M E statement (batched_transcript M E D statement)
    \<and> (\<exists>tables equation. receiver_chord_precomps_new E [statement] = Inr tables
        \<and> batched_reference M E D R g_table params tables statement pr g equation \<and> check_equation D equation = Inr ())"
  by (rule evrf_codecs.evrf_batched_verify_reference[OF assms])

lemma header_length: "length (header_bytes pid) = 4 + length pid"
  by (simp add: header_bytes_def)

lemma evrf_batched_verify_iff_witness:
  "evrf_batched_verify counting_merlin_u64 tiny_gin tiny_gout tiny_transcript_rng tiny_table tiny_params (tiny_batched 11) (replicate 31 0) 1
    \<noteq> Some (Inr ())"
proof
  assume "evrf_batched_verify counting_merlin_u64 tiny_gin tiny_gout tiny_transcript_rng tiny_table tiny_params (tiny_batched 11) (replicate 31 0) 1
    = Some (Inr ())"
  from iffD1[OF evrf_batched_verify_iff[OF tiny_evrf.evrf_codecs_axioms] this]
  obtain rest where "replicate 31 0 = header_bytes BATCHED_PROOF_ID @ rest"
    unfolding batched_reference_def by blast
  from arg_cong[OF this, of length] show False by (simp add: header_length batched_id_length)
qed

text \<open>
  C29. The verifier of a one-receiver proof accepts exactly the canonical bytes of a proof that passes a reference
  check: the points of the statement are not the identity and its hash bases are those of the message; the proof
  of equal logarithms answers the challenge after the statement's fields; the R1CS proof, framed behind the commitment of
  \<open>k\<close> and the point \<open>R + B\<close> that links it to the statement, verifies for the circuit of the statement on the same
  transcript; the proof that \<open>R\<close> can be opened answers the challenge after it; and nothing follows.
\<close>

theorem evrf_verify_iff:
  assumes "evrf_codecs E valid_gin D valid_gout"
  shows "evrf_verify M E D R pc_gens bp_gens st pr g = Inr () \<longleftrightarrow>
    one_receiver_observable st \<and> or_h1 st = h_gin_1 E (or_msg st) \<and> or_h2 st = h_gin_2 E (or_msg st)
    \<and> one_receiver_reference M E D R pc_gens bp_gens st pr g"
  by (rule evrf_codecs.evrf_verify_reference[OF assms])

definition tiny_one_receiver :: "(tiny, tiny, tiny) one_receiver_statement" where
  "tiny_one_receiver = \<lparr>or_msg = replicate MESSAGE_BYTES 0, or_pk1 = 2, or_pk2 = 5, or_s = 10, or_h1 = 1, or_h2 = 1, or_t1 = 3, or_t2 = 4,
     or_r_point = 7, or_beta = 1\<rparr>"

lemma evrf_verify_iff_witness:
  "evrf_verify counting_merlin_u64 tiny_gin tiny_gout tiny_transcript_rng tiny_pc tiny_gens tiny_one_receiver (replicate 36 0) 1 \<noteq> Inr ()
    \<and> evrf_verify counting_merlin_u64 tiny_gin tiny_gout tiny_transcript_rng tiny_pc tiny_gens (tiny_one_receiver\<lparr>or_t1 := 0\<rparr>)
      (header_bytes ONE_RECEIVER_PROOF_ID) 1 \<noteq> Inr ()"
proof
  have id_length: "length ONE_RECEIVER_PROOF_ID = 33" by (simp add: ONE_RECEIVER_PROOF_ID_def)
  show "evrf_verify counting_merlin_u64 tiny_gin tiny_gout tiny_transcript_rng tiny_pc tiny_gens tiny_one_receiver (replicate 36 0) 1 \<noteq> Inr ()"
  proof
    assume "evrf_verify counting_merlin_u64 tiny_gin tiny_gout tiny_transcript_rng tiny_pc tiny_gens tiny_one_receiver (replicate 36 0) 1 = Inr ()"
    from iffD1[OF evrf_verify_iff[OF tiny_evrf.evrf_codecs_axioms] this]
    obtain rest where "replicate 36 0 = header_bytes ONE_RECEIVER_PROOF_ID @ rest"
      unfolding one_receiver_reference_def Let_def by blast
    from arg_cong[OF this, of length] show False by (simp add: header_length id_length)
  qed
  show "evrf_verify counting_merlin_u64 tiny_gin tiny_gout tiny_transcript_rng tiny_pc tiny_gens (tiny_one_receiver\<lparr>or_t1 := 0\<rparr>)
      (header_bytes ONE_RECEIVER_PROOF_ID) 1 \<noteq> Inr ()"
  proof
    assume "evrf_verify counting_merlin_u64 tiny_gin tiny_gout tiny_transcript_rng tiny_pc tiny_gens (tiny_one_receiver\<lparr>or_t1 := 0\<rparr>)
      (header_bytes ONE_RECEIVER_PROOF_ID) 1 = Inr ()"
    from iffD1[OF evrf_verify_iff[OF tiny_evrf.evrf_codecs_axioms] this] show False
      by (simp add: one_receiver_observable_def)
  qed
qed

section \<open>Equal logarithms\<close>

text \<open>The challenge that the verifier of a Chaum-Pedersen proof draws, from the bytes in front of it.\<close>

definition cp_challenge :: "'t merlin \<Rightarrow> ('s, 'p, 'a, 'c, 'z) cycle_scheme \<Rightarrow> 't verifier_stream \<Rightarrow> 's" where
  "cp_challenge M C V =
     (let n = compressed_bytes C; rest = drop (vs_cursor V) (vs_proof V)
      in scalar_from_wide C (fst (challenge_bytes M (ascii ''cp.challenge'') 64
           (append_message M (ascii ''cp.r2'') (take n (drop n rest))
             (append_message M (ascii ''cp.r1'') (take n rest) (vs_transcript V))))))"

lemma cp_accepted:
  assumes "stream_cycle C valid" "chaum_pedersen_verify M C g_in pk1 pk2 s V = Inr W"
  shows "\<exists>r1 r2 z. sigma_equations C [(g_in, pk1), (pk2, s)] [r1, r2] (cp_challenge M C V) z
    \<and> take (2 * compressed_bytes C) (drop (vs_cursor V) (vs_proof V)) = encoded_point C r1 @ encoded_point C r2"
proof -
  obtain r1 r2 z t where acc: "sigma_accepts M C [(g_in, pk1), (pk2, s)] [ascii ''cp.r1'', ascii ''cp.r2''] (ascii ''cp.challenge'')
      (ascii ''cp.z'') [r1, r2] z (vs_transcript V) t"
    and rd: "reads (vs_proof V) (vs_cursor V) (sigma_bytes C [r1, r2] z)"
    using assms(2) unfolding stream_cycle.chaum_pedersen_verify_iff[OF assms(1)] stream_cycle.sigma_receives_two[OF assms(1)] by blast
  have len: "length (encoded_point C p) = compressed_bytes C" for p
    using stream_curve.point_length[OF stream_cycle.cycle_stream_curve[OF assms(1)], of p] by simp
  obtain rest where rest: "drop (vs_cursor V) (vs_proof V) = encoded_point C r1 @ encoded_point C r2 @ rest"
    using rd by (auto simp: reads_def sigma_bytes_def prefix_def)
  have "fst (sigma_challenge M C [(ascii ''cp.r1'', r1), (ascii ''cp.r2'', r2)] (ascii ''cp.challenge'') (vs_transcript V)) = cp_challenge M C V"
    by (simp add: sigma_challenge_def cp_challenge_def Let_def rest len case_prod_unfold)
  then show ?thesis
    using acc by (intro exI[of _ r1] exI[of _ r2] exI[of _ z]) (auto simp: sigma_accepts_def rest len split: prod.splits)
qed

text \<open>
  C31. Special soundness of the proof of equal logarithms: when two runs of its verifier accept with the same two nonce
  points in front of them and different challenges, one exponent \<open>x\<close> gives both \<open>PK_1 = x * G\<close> and \<open>S = x * PK_2\<close>. So
  the public \<open>S\<close> is the shared point of the two keys.
\<close>

theorem chaum_pedersen_extracts:
  assumes "stream_cycle C valid"
    and "chaum_pedersen_verify M C g_in pk1 pk2 s V = Inr W" "chaum_pedersen_verify M' C g_in pk1 pk2 s V' = Inr W'"
    and "take (2 * compressed_bytes C) (drop (vs_cursor V') (vs_proof V')) = take (2 * compressed_bytes C) (drop (vs_cursor V) (vs_proof V))"
    and "cp_challenge M' C V' \<noteq> cp_challenge M C V"
  shows "\<exists>x. pk1 = point_mul C g_in x \<and> s = point_mul C pk2 x"
proof -
  obtain r1 r2 z r1' r2' z' where one: "sigma_equations C [(g_in, pk1), (pk2, s)] [r1, r2] (cp_challenge M C V) z"
      "take (2 * compressed_bytes C) (drop (vs_cursor V) (vs_proof V)) = encoded_point C r1 @ encoded_point C r2"
    and two: "sigma_equations C [(g_in, pk1), (pk2, s)] [r1', r2'] (cp_challenge M' C V') z'"
      "take (2 * compressed_bytes C) (drop (vs_cursor V') (vs_proof V')) = encoded_point C r1' @ encoded_point C r2'"
    using cp_accepted[OF assms(1,2)] cp_accepted[OF assms(1,3)] by blast
  have "length (encoded_point C p) = compressed_bytes C" for p
    using stream_curve.point_length[OF stream_cycle.cycle_stream_curve[OF assms(1)], of p] by simp
  then have "encoded_point C r1' = encoded_point C r1 \<and> encoded_point C r2' = encoded_point C r2"
    using assms(4) unfolding one(2) two(2) by (simp add: append_eq_append_conv)
  then have "r1' = r1" "r2' = r2" using stream_cycle.encoded_point_inject[OF assms(1)] by blast+
  with two(1) have again: "sigma_equations C [(g_in, pk1), (pk2, s)] [r1, r2] (cp_challenge M' C V') z'" by simp
  have "\<forall>(base, point) \<in> set [(g_in, pk1), (pk2, s)]. point = point_mul C base ((z - z') / (cp_challenge M C V - cp_challenge M' C V'))"
    by (rule cycle_laws.sigma_extract[OF stream_cycle.axioms(1)[OF assms(1)] one(1) again]) (use assms(5) in simp)
  then show ?thesis by auto
qed

text \<open>Two runs over the exponent \<open>2\<close> with the nonce \<open>3\<close>, under the challenges \<open>1\<close> and \<open>2\<close>.\<close>

lemma tiny_cp_run:
  shows "\<exists>W. chaum_pedersen_verify (merlin.truncate (constant_merlin b)) tiny_gout 1 2 5 10
      \<lparr>vs_transcript = (), vs_proof = sigma_bytes tiny_gout [3, 15] (3 + reduce (unat b) * 2), vs_cursor = 0\<rparr> = Inr W"
    and "cp_challenge (merlin.truncate (constant_merlin b)) tiny_gout V = reduce (unat b)"
proof -
  let ?z = "3 + reduce (unat b) * 2"
  have nonzero: "(3 :: tiny) \<noteq> 0" "(15 :: tiny) \<noteq> 0" by (simp_all add: tiny_eval)
  have challenge: "sigma_challenge (merlin.truncate (constant_merlin b)) tiny_gout nonces l t = (reduce (unat b), ())" for nonces l t
    using constant_challenge[of b l 64] by (simp add: sigma_challenge_def constant_merlin_def merlin.defs case_prod_unfold)
  have equations: "sigma_equations tiny_gout [(1, 2), (5, 10)] [3, 15] (reduce (unat b)) ?z"
    using nonzero by (simp add: sigma_equations_def algebra_simps)
  have len: "length (sigma_bytes tiny_gout [3, 15] ?z) < 2 ^ 64"
    using tinyh.halo2_stream.stream.point_length[of secq256k1_domain] tinyh.halo2_stream.stream.scalar_length[of secq256k1_domain]
    by (simp add: sigma_bytes_def) (simp add: halo2_cycle_def)
  then have "reads (sigma_bytes tiny_gout [3, 15] ?z) 0 (sigma_bytes tiny_gout [3, 15] ?z)" by (simp add: reads_def)
  then show "\<exists>W. chaum_pedersen_verify (merlin.truncate (constant_merlin b)) tiny_gout 1 2 5 10
      \<lparr>vs_transcript = (), vs_proof = sigma_bytes tiny_gout [3, 15] ?z, vs_cursor = 0\<rparr> = Inr W"
    unfolding tinyh.halo2_stream.chaum_pedersen_verify_iff tinyh.halo2_stream.sigma_receives_two
    using equations by (auto simp: sigma_accepts_def challenge)
  show "cp_challenge (merlin.truncate (constant_merlin b)) tiny_gout V = reduce (unat b)"
    using constant_challenge[of b] by (simp add: cp_challenge_def Let_def)
qed

lemma chaum_pedersen_extracts_witness: "\<exists>x :: tiny. 2 = 1 * x \<and> 10 = 5 * x"
proof -
  let ?V = "\<lambda>b. \<lparr>vs_transcript = (), vs_proof = sigma_bytes tiny_gout [3, 15] (3 + reduce (unat b) * 2), vs_cursor = 0\<rparr>"
  obtain W W' where runs: "chaum_pedersen_verify (merlin.truncate (constant_merlin 1)) tiny_gout 1 2 5 10 (?V (1 :: byte)) = Inr W"
      "chaum_pedersen_verify (merlin.truncate (constant_merlin 2)) tiny_gout 1 2 5 10 (?V (2 :: byte)) = Inr W'"
    using tiny_cp_run(1)[of 1] tiny_cp_run(1)[of 2] by auto
  have "\<exists>x. 2 = point_mul tiny_gout 1 x \<and> 10 = point_mul tiny_gout 5 x"
  proof (rule chaum_pedersen_extracts[OF tinyh.halo2_stream.stream_cycle_axioms runs])
    have len: "length (encoded_point tiny_gout p) = compressed_bytes tiny_gout" for p
      using tinyh.halo2_stream.stream.point_length[of secq256k1_domain p] by simp
    then show "take (2 * compressed_bytes tiny_gout) (drop (vs_cursor (?V (2 :: byte))) (vs_proof (?V (2 :: byte))))
        = take (2 * compressed_bytes tiny_gout) (drop (vs_cursor (?V (1 :: byte))) (vs_proof (?V (1 :: byte))))"
      by (simp add: sigma_bytes_def)
    show "cp_challenge (merlin.truncate (constant_merlin 2)) tiny_gout (?V (2 :: byte)) \<noteq> cp_challenge (merlin.truncate (constant_merlin 1)) tiny_gout (?V (1 :: byte))"
      using tiny_cp_run(2)[of 1] tiny_cp_run(2)[of 2] by (simp add: tiny_eval)
  qed
  then show ?thesis by simp
qed

section \<open>The batched Feldman check\<close>

text \<open>
  C30. What the batched Feldman check of the verifier is worth: when its weights are drawn, they are not zero, and it
  accepts if and only if the sum of the receivers' residuals with these weights is the identity, where a residual is
  the share commitment less the committed polynomial at the receiver's index. So it accepts whenever every
  share is the polynomial's value, and it never accepts when exactly one is not.
\<close>

theorem feldman_batch_check:
  fixes E :: "('q::field, 'p::ab_group_add, 'a, 'c, 's, 'z) evrf_curve_scheme"
  assumes "gin_curve E valid" "feldman_batch_matches M E statement t = Some (Inr b)"
  defines "res \<equiv> residual E (bs_commitment_coefficients statement)"
  shows "(\<exists>ws. feldman_batch_weights_from_transcript M E statement t = Some (Inr ws) \<and> 0 \<notin> set ws
      \<and> length ws = length (bs_receivers statement)
      \<and> (b \<longleftrightarrow> (\<Sum>(rec, w)\<leftarrow>zip (bs_receivers statement) ws. point_mul E (res rec) w) = 0))
    \<and> ((\<forall>rec \<in> set (bs_receivers statement). res rec = 0) \<longrightarrow> b)
    \<and> (\<forall>i < length (bs_receivers statement). res (bs_receivers statement ! i) \<noteq> 0
        \<and> (\<forall>j < length (bs_receivers statement). j \<noteq> i \<longrightarrow> res (bs_receivers statement ! j) = 0) \<longrightarrow> \<not> b)"
proof (intro conjI impI allI)
  show "\<exists>ws. feldman_batch_weights_from_transcript M E statement t = Some (Inr ws) \<and> 0 \<notin> set ws
      \<and> length ws = length (bs_receivers statement)
      \<and> (b \<longleftrightarrow> (\<Sum>(rec, w)\<leftarrow>zip (bs_receivers statement) ws. point_mul E (res rec) w) = 0)"
    unfolding res_def using gin_curve.feldman_batch_matches_sum[OF assms(1,2)] by blast
  show b if "\<forall>rec \<in> set (bs_receivers statement). res rec = 0"
    using gin_curve.feldman_batch_exact(1)[OF assms(1,2)] that by (simp add: res_def)
  show "\<not> b" if "i < length (bs_receivers statement)" "res (bs_receivers statement ! i) \<noteq> 0
      \<and> (\<forall>j < length (bs_receivers statement). j \<noteq> i \<longrightarrow> res (bs_receivers statement ! j) = 0)" for i
    using gin_curve.feldman_batch_exact(2)[OF assms(1,2) that(1)] that(2) by (simp add: res_def)
qed

lemma constant_weight: "feldman_weight (constant_merlin 1) tiny_gin t = Some (1, ())"
proof -
  have "from_le (replicate k 0) = 0" for k by (induction k) simp_all
  then show ?thesis by (subst feldman_weight.simps) (simp add: constant_merlin_def tiny_eval)
qed

lemma tiny_feldman: "\<exists>b. feldman_batch_matches (constant_merlin 1) tiny_gin (tiny_batched second) () = Some (Inr b)"
proof -
  have "shape_ok (tiny_batched second)"
    by (simp add: shape_ok_def tiny_batched_def tiny_receiver_def less_participant_index_def)
  then have "feldman_batch_weights_from_transcript (constant_merlin 1) tiny_gin (tiny_batched second) () = Some (Inr [1, 1])"
    by (simp add: feldman_batch_weights_from_transcript_def validate_shape_cases constant_weight upt_rec tiny_batched_def)
  then show ?thesis by (simp add: feldman_batch_matches_def)
qed

lemma tiny_residual: "residual tiny_gin [3, 4] (tiny_receiver 1 7 5) = 0" "residual tiny_gin [3, 4] (tiny_receiver 2 second 6) = second - 11"
  by (simp_all add: residual_def feldman_value_def tiny_receiver_def index_scalar_def tiny_eval)

lemma tiny_batched_simps: "bs_commitment_coefficients (tiny_batched second) = [3, 4]"
    "bs_receivers (tiny_batched second) = [tiny_receiver 1 7 5, tiny_receiver 2 second 6]"
  by (simp_all add: tiny_batched_def)

lemma feldman_batch_check_witness:
  "feldman_batch_matches (constant_merlin 1) tiny_gin (tiny_batched 11) () = Some (Inr True)
    \<and> feldman_batch_matches (constant_merlin 1) tiny_gin (tiny_batched 12) () = Some (Inr False)"
proof -
  obtain b b' where runs: "feldman_batch_matches (constant_merlin 1) tiny_gin (tiny_batched 11) () = Some (Inr b)"
      "feldman_batch_matches (constant_merlin 1) tiny_gin (tiny_batched 12) () = Some (Inr b')"
    using tiny_feldman by blast
  note check = feldman_batch_check[OF tinyh.halo2_gin.gin_curve_axioms, unfolded tiny_batched_simps]
  have b
    using check[OF runs(1), unfolded tiny_batched_simps] by (simp add: tiny_residual)
  moreover have "\<not> b'"
  proof -
    have "\<forall>j < 2. j \<noteq> 1 \<longrightarrow> residual tiny_gin [3, 4] ([tiny_receiver 1 7 5, tiny_receiver 2 12 6] ! j) = 0"
      by (auto simp: less_Suc_eq numeral_2_eq_2 tiny_residual)
    moreover have "residual tiny_gin [3, 4] ([tiny_receiver 1 7 5, tiny_receiver 2 12 6] ! 1) \<noteq> 0"
      by (simp add: tiny_residual)
    ultimately show ?thesis
      using conjunct2[OF conjunct2[OF check[OF runs(2), unfolded tiny_batched_simps]], rule_format, of 1] by simp
  qed
  ultimately show ?thesis using runs by simp
qed

section \<open>A receiver opens its share\<close>





end
