(* ===== verification/Spec2Isabelle.thy ===== *)
theory Spec2Isabelle
  imports Prototype_Properties Ehtdh_Bridge Ehtdh_Wire R1cs_Batch R1cs_Proof Generators_Laws Evrf_Protocol_Properties Halo2_Laws
begin

text \<open>
  Verification development for the Golden DKG workspace: a non-interactive publicly verifiable
  distributed key generation (\<open>golden-core\<close>), its proof backends (\<open>golden-evrf\<close>), a threshold
  decryption scheme on top of it (\<open>golden-ehtdh1\<close>), the R1CS proofs that the backends are built on
  (\<open>bulletproofs-cycle\<close>), and the backends over Jubjub (\<open>golden-bls-jubjub\<close>) and over Secp256k1 with Secq256k1
  (\<open>golden-halo2curves\<close>).

  The program. Every participant of a registry publishes one dealer message: a Feldman commitment to
  a random polynomial, one share per receiver encrypted with a pad that dealer and receiver derive
  from their identity keys, and a proof that the encrypted shares are right. A receiver verifies
  the messages of all dealers, decrypts its shares and adds them up to its share of the joint
  secret; the sum of the commitments gives the joint public key. Two such runs, one of which shares
  zero, are bridged into the key material of EHTDH1: a payload is sealed under the joint key and
  opened by combining the decryption shares of a threshold of participants. All values travel in
  a canonical byte encoding. Zero-knowledge proofs of circuits are Bulletproofs over a curve cycle:
  a prover and a verifier run one circuit, the prover commits to its assignment and answers the
  challenges of a transcript, and the verifier checks one equation per proof or a batch of them.

  How the code is modelled. A Rust trait whose implementations live in other crates is a record of
  operations: the group backend (\<open>golden_group\<close>, over the classes \<open>field\<close> and \<open>ab_group_add\<close>), hashing to
  the group, the eVRF proof backend, the random generator, Merlin, the stream cipher. \<open>Result\<close> is the
  sum type with \<open>Inl\<close> the error, \<open>?\<close> is \<open>rbind\<close>, a \<open>for\<close> loop that may return early is \<open>rfold\<close>, \<open>collect\<close>
  is \<open>collect\<close>. \<open>usize\<close> is a natural number, with the bound \<open>2 ^ 64\<close> written out where the code
  converts or multiplies one; \<open>u8\<close>, \<open>u32\<close> and \<open>u64\<close> are words. \<open>BTreeMap\<close> is an association list in key order
  (\<open>Ordered_Map\<close>), \<open>BTreeSet\<close> a set. The random generator is a state that is passed through. Rejection
  sampling until a scalar is nonzero is a \<open>partial_function (option)\<close>, so everything that samples is
  partial, and that it returns is a theorem of its own.

  The theories, from the bottom:

  \<^item> \<open>Prelude\<close>, \<open>Ordered_Map\<close>, \<open>Polynomial_Functions\<close>: results, bytes and big-endian numbers; the map with
    its contract; the root bound and interpolation for polynomial functions. Nothing in them is
    specific to the program.
  \<^item> \<open>Golden_Group\<close>: \<open>error.rs\<close>, \<open>participant.rs\<close>, \<open>group.rs\<close> of \<open>golden-core/src\<close>. The locale \<open>prime_group\<close> says
    what the code relies on of a backend's arithmetic, \<open>golden_codec\<close> that its encodings are canonical.
    \<open>Tiny_Backend\<close> is the finite backend of \<open>test_support.rs\<close>; both locales are interpreted on it and
    the witnesses run on it.
  \<^item> \<open>Shamir\<close>, \<open>Feldman\<close>, \<open>Transcript\<close>, \<open>Identity_Key\<close>: \<open>shamir.rs\<close>, \<open>feldman.rs\<close>, \<open>transcript.rs\<close>,
    \<open>identity_key.rs\<close>. Their lemmas: reconstruction and secrecy of shares, batch inversion, a share is
    accepted exactly when it lies on the committed polynomial, the transcript bytes determine the
    absorbed fields, completeness and extraction for the identity proof.
  \<^item> \<open>Registry\<close>, \<open>Dealing\<close>, \<open>Dealing_Checks\<close>, \<open>Completion\<close>: \<open>dkg.rs\<close> in the order of the file. Registry and
    configuration; creating and publicly verifying a dealing; what exactly verification accepts
    and whom it blames; receiving and completing.
  \<^item> \<open>Honest_Dealing\<close>, \<open>Protocol\<close>, \<open>Runs\<close>, with the small setting \<open>Tiny_Protocol\<close>: the locale \<open>evrf_relation\<close> is the
    contract of a proof backend; under it honest runs complete, and without any assumption on the
    dealers a completed run is consistent, agrees between receivers and leaves shares of one secret.
  \<^item> \<open>Wire\<close>, \<open>Wire_Types\<close>, \<open>Wire_Messages\<close>, \<open>Wire_Envelope\<close>: \<open>wire.rs\<close>. The locale \<open>wire_codec\<close> is the contract of an
    encoder and a decoder, \<open>wire_message_type\<close> that of a standalone message; each type of the code
    interprets them, and round trip, canonicity and rejection follow for all at once.
  \<^item> \<open>Proof_Stream\<close>, \<open>Prototype_Backend\<close>, \<open>Prototype_Laws\<close>, \<open>Prototype_Properties\<close>: \<open>proof_stream.rs\<close> and \<open>lib.rs\<close> of
    \<open>golden-evrf/src\<close>. The prover's and the verifier's stream stay in step (\<open>stream_curve\<close>, \<open>observer\<close>),
    the prototype backend satisfies \<open>evrf_relation\<close>, and its verifier equals a reference check.
  \<^item> \<open>Ehtdh_Setup\<close>, \<open>Ehtdh_Seal\<close>, \<open>Ehtdh_Combine\<close>, \<open>Ehtdh_Threshold\<close>: \<open>context.rs\<close>, \<open>encrypt.rs\<close>, \<open>decrypt.rs\<close> of
    \<open>golden-ehtdh1/src\<close>. Which key sets are accepted; sealing and its proof; decryption shares and the
    combiners, with the abstract choice of shares that the loop of the code refines.
  \<^item> \<open>Ehtdh_Bridge\<close>: \<open>dkg_bridge.rs\<close>, and the composition of everything from the dealings of two runs to the
    opened plaintext. \<open>Ehtdh_Codec\<close>, \<open>Ehtdh_Wire\<close>: \<open>wire.rs\<close> of the same crate.
  \<^item> \<open>Cycle\<close>: \<open>cycle.rs\<close>, \<open>errors.rs\<close>, \<open>util.rs\<close>, \<open>transcript.rs\<close> of \<open>bulletproofs-cycle/src\<close>. The trait is a record, and
    the locale \<open>cycle_laws\<close> what the proofs rely on of an implementation. \<open>Pippenger\<close>, \<open>Jubjub\<close>, \<open>Jubjub_Laws\<close>: \<open>pippenger.rs\<close>,
    \<open>golden_group.rs\<close>, \<open>jubjub_cycle.rs\<close> of \<open>golden-bls-jubjub/src\<close>; bucket multiplication is the sum of the
    multiples, and the adapters satisfy every contract above (\<open>jubjub_crate\<close> says what the third-party
    crate documents).
  \<^item> \<open>Inner_Product\<close>, \<open>Inner_Product_Fold\<close>, \<open>Inner_Product_Check\<close>, \<open>Inner_Product_Laws\<close>: \<open>inner_product_proof.rs\<close>. The prover's
    rounds over the original generators are the textbook folding, the verifier's single
    multiplication is the textbook check, and created proofs verify. Vectors have at most \<open>2 ^ 31\<close>
    entries where the verifier is involved, which is its own bound.
  \<^item> \<open>Generators\<close>, \<open>Generators_Laws\<close>: \<open>generators.rs\<close>, with the shared cache as a step relation of threads. The fuel of
    \<open>derive\<close> is two rounds: alone, a thread returns in the second one at the latest.
  \<^item> \<open>Constraint_System\<close>, \<open>R1cs_Prover\<close>, \<open>R1cs_Verifier\<close>, \<open>R1cs_Proof\<close>: the files of \<open>r1cs/\<close>. A circuit is the tree of its calls
    to the constraint system. \<open>R1cs_Circuits\<close> shows that a circuit does the same on both sides and what
    the weights of its constraints say; \<open>R1cs_Algebra\<close> gives the prover's polynomials in closed form;
    \<open>R1cs_Replay\<close>, \<open>R1cs_Check\<close>, \<open>R1cs_Complete\<close>, \<open>R1cs_Laws\<close> show that the proof of a satisfied circuit is accepted;
    \<open>R1cs_Batch\<close> is about batches, and \<open>R1cs_Proof\<close> shows what the decoder accepts (\<open>cycle_codec\<close>).
  \<^item> \<open>Circuit_Logic\<close>: rules for circuits call by call; what a finished circuit enforces, that a prover's run
    completes it, and what a call does to the verifier's counters.
  \<^item> \<open>Evrf_Bits\<close>, \<open>Evrf_Chord\<close>, \<open>Evrf_Relation\<close>: the circuits of \<open>golden-evrf/src/paper.rs\<close>, module \<open>secp_secq\<close>, in the
    order of the file: bit decomposition below a modulus, exponentiation with one chord per window,
    and the one-receiver and batched relations with their witnesses. A part of a circuit that returns a value
    takes the rest as a continuation. \<open>Evrf_Bits_Laws\<close>, \<open>Evrf_Chord_Laws\<close>, \<open>Evrf_Chord_Circuit\<close>,
    \<open>Evrf_Chord_Complete\<close>, \<open>Evrf_Chord_Total\<close> show that each part is sound, complete and of known size, and
    \<open>Evrf_Relation_Sound\<close>, \<open>Evrf_Relation_Complete\<close>, \<open>Evrf_Same_Circuit\<close>, \<open>Evrf_Count\<close> the same of a whole batch.
    \<open>Evrf_Cuspidal\<close> is a curve on which the contracts hold, and \<open>Evrf_Properties\<close> states the results.
  \<^item> \<open>Evrf_Statement\<close>, \<open>Evrf_Sigma\<close>, \<open>Evrf_Protocol\<close>: the rest of that module, and the adapter \<open>CycleCurve\<close> of
    \<open>proof_stream.rs\<close>. Observed statements, the exact and the batched checks of a statement, the public
    parameters; the sigma protocols; proving and verifying one relation, a batched dealer proof and several of
    them. \<open>Evrf_Statement_Laws\<close> shows what the checks accept, with the locales \<open>stream_cycle\<close> (the adapter is a
    stream curve) and \<open>gin_curve\<close> (a scalar is the integer of its bytes); \<open>Evrf_Protocol_Laws\<close>, over both curves in
    the locale \<open>evrf_codecs\<close>, that the verifiers equal reference checks; \<open>Evrf_Protocol_Properties\<close> states the
    results and joins the checks with the circuit: an accepted share opens the dealer's commitment.
  \<^item> \<open>Secp_Generator\<close>, \<open>Halo2\<close>, \<open>Halo2_Laws\<close>: \<open>golden-halo2curves\<close>. The adapters over the record of the
    third-party crate (\<open>halo2_crate\<close>) keep the contract of a group of prime order; multiplication with the table of
    the generator is multiplication. Encodings of elements are canonical but for the identity, which has two; the
    contract of a cycle holds exactly when the crate's multiplication also takes the identity as an affine
    base, which the locale \<open>halo2_total\<close> adds.

  Hypotheses. \<open>prime_group\<close>, \<open>golden_codec\<close>, \<open>hash_group\<close>, \<open>evrf_relation\<close>, \<open>cycle_laws\<close>, \<open>cycle_codec\<close>, \<open>jubjub_crate\<close>,
  \<open>halo2_crate\<close>, \<open>chord_curve\<close> (unique affine forms and the chord rule) and \<open>secp_secq\<close> (conversion between the two
  fields through canonical bytes) state documented behaviour of code that is a parameter; each is shown to hold of a concrete instance. Hash
  functions are arbitrary functions: binding properties are about the bytes that are hashed, and
  extraction properties about two transcripts, so no property needs a collision-freeness
  assumption. Completeness of the Bulletproofs is proved under the conditions that the code checks
  itself (no committed point is the identity) and for nonzero challenges. The circuits of the paper eVRF are
  shown sound where no addition of an exponentiation is exceptional (\<open>regular\<close>), which is also exactly
  when the prover's witness exists; their completeness asks that the decomposed values are integers below
  the modulus (\<open>receiver_integral\<close>), as every element of the field of the code is. The tables of
  the receivers are an association list in the order of their first use where the code has a
  \<open>BTreeMap\<close>; they are only looked up.

  The weights of the batched Feldman check are drawn until they are not zero, so verifying is partial. Where the
  code prepares the equations of several proofs chunk by chunk as they are consumed, the model prepares all of
  them first; this differs only when drawing a weight never ends.

  Not modelled. Of \<open>golden-evrf\<close>: the \<open>serde\<close> encoding of the public parameters of \<open>paper.rs\<close> and its helpers for tests,
  the second cycle \<open>paper/bls_jubjub.rs\<close> and \<open>dkg_backend.rs\<close>. \<open>linear_proof.rs\<close> of \<open>bulletproofs-cycle\<close>, which no other crate calls;
  \<open>golden-rustcrypto\<close> and the G1 side of \<open>golden-bls-jubjub\<close> (adapters of third-party curves; the latter links a
  C library); the \<open>serde\<close> and Miden adapters (they hand the modelled bytes to third-party traits);
  redaction of \<open>Debug\<close> output and \<open>zeroize\<close> (no observable value); tests, benches, examples.
\<close>

end
